(* ===== verification/CPrelude.thy ===== *)
theory CPrelude
  imports Main "HOL-Library.Word" "HOL-Library.Tree"
begin

unbundle bit_operations_syntax

text \<open>
  Shared vocabulary of the development: machine types, the faults a C program can run into,
  the error-carrying sequencing used for code that only computes on its own memory, and the
  text that \<open>printf\<close> produces for \<open>%d\<close>.

  A C expression whose evaluation is undefined (a NULL dereference, a read of an indeterminate
  variable, an access outside an object) is a value of type \<open>fault\<close>; the rest of the function
  is not executed.
\<close>

section \<open>Machine types and faults\<close>

type_synonym u8 = "8 word"
type_synonym u16 = "16 word"
type_synonym u32 = "32 word"
type_synonym u64 = "64 word"
type_synonym i32 = "32 word"
type_synonym bytes = "u8 list"

text \<open>A C pointer is an address; 0 is the null pointer.\<close>

type_synonym ptr = nat

abbreviation (input) NULL :: ptr where
  "NULL \<equiv> 0"

datatype fault =
    NullDeref
  | BadPointer
  | UninitRead
  | OutOfBounds
  | AssertFailed
  | SignedOverflow
  | MissingReturn
  | DivByZero
  | Thrown string

text \<open>Rewrite rules that evaluate the sequencing operators and the state updates.\<close>

named_theorems c_eval
named_theorems c_frame

section \<open>Sequencing with faults\<close>

definition bindE :: "'e + 'a \<Rightarrow> ('a \<Rightarrow> 'e + 'b) \<Rightarrow> 'e + 'b" where
  "bindE m f = (case m of Inl e \<Rightarrow> Inl e | Inr x \<Rightarrow> f x)"

lemma bindE_Inr [simp, c_eval]: "bindE (Inr x) f = f x"
  by (simp add: bindE_def)

lemma bindE_Inl [simp, c_eval]: "bindE (Inl e) f = Inl e"
  by (simp add: bindE_def)

lemma bindE_eq_Inr: "bindE m f = Inr y \<longleftrightarrow> (\<exists>x. m = Inr x \<and> f x = Inr y)"
  by (cases m) simp_all

lemma bindE_cong [fundef_cong]:
  "m = m' \<Longrightarrow> (\<And>x. m' = Inr x \<Longrightarrow> f x = g x) \<Longrightarrow> bindE m f = bindE m' g"
  by (cases m') simp_all

lemma bindE_assoc: "bindE (bindE m f) g = bindE m (\<lambda>x. bindE (f x) g)"
  by (cases m) simp_all

text \<open>
  \<open>okE m P\<close>: if \<open>m\<close> does not fault, its value satisfies \<open>P\<close>. The rules walk down a function
  body; they are collected in \<open>c_vcg\<close>.
\<close>

named_theorems c_vcg

definition okE :: "'e + 'a \<Rightarrow> ('a \<Rightarrow> bool) \<Rightarrow> bool" where
  "okE m P = (case m of Inl e \<Rightarrow> True | Inr x \<Rightarrow> P x)"

lemma okE_D: "okE m P \<Longrightarrow> m = Inr x \<Longrightarrow> P x"
  by (simp add: okE_def)

lemma okE_bind: "okE m R \<Longrightarrow> (\<And>x. R x \<Longrightarrow> okE (f x) P) \<Longrightarrow> okE (bindE m f) P"
  by (cases m) (simp_all add: okE_def)

lemma okE_bind_any [c_vcg]: "(\<And>x. m = Inr x \<Longrightarrow> okE (f x) P) \<Longrightarrow> okE (bindE m f) P"
  by (cases m) (simp_all add: okE_def)

lemma okE_Inr [c_vcg]: "P x \<Longrightarrow> okE (Inr x) P"
  by (simp add: okE_def)

lemma okE_Inl [c_vcg]: "okE (Inl e) P"
  by (simp add: okE_def)

lemma okE_if [c_vcg]: "(b \<Longrightarrow> okE m P) \<Longrightarrow> (\<not> b \<Longrightarrow> okE m' P) \<Longrightarrow> okE (if b then m else m') P"
  by simp

section \<open>Signed arithmetic\<close>

text \<open>\<open>+\<close> on \<open>int\<close>: a sum that does not fit is undefined.\<close>

definition int_add :: "i32 \<Rightarrow> i32 \<Rightarrow> fault + i32" where
  "int_add a b =
     (if - (2 ^ 31) \<le> sint a + sint b \<and> sint a + sint b < 2 ^ 31 then Inr (a + b)
      else Inl SignedOverflow)"

lemma sint_int_add: "int_add a b = Inr c \<Longrightarrow> sint c = sint a + sint b"
  by (auto simp: int_add_def sint_word_ariths signed_take_bit_int_eq_self_iff split: if_splits)

lemma int_add_ok: "- (2 ^ 31) \<le> sint a + sint b \<Longrightarrow> sint a + sint b < 2 ^ 31 \<Longrightarrow> int_add a b = Inr (a + b)"
  by (simp add: int_add_def)

section \<open>Decimal text\<close>

definition digit_char :: "nat \<Rightarrow> char" where
  "digit_char d = char_of (48 + d)"

fun dec_nat :: "nat \<Rightarrow> string" where
  "dec_nat n = (if n < 10 then [digit_char n] else dec_nat (n div 10) @ [digit_char (n mod 10)])"

declare dec_nat.simps [simp del]

text \<open>\<open>%d\<close> of a signed value and \<open>%02d\<close>, which pads to two places with zeros.\<close>

definition fmt_d :: "int \<Rightarrow> string" where
  "fmt_d i = (if i < 0 then CHR ''-'' # dec_nat (nat (- i)) else dec_nat (nat i))"

definition fmt_02d :: "int \<Rightarrow> string" where
  "fmt_02d i =
     (if i < 0 then fmt_d i
      else if i < 10 then CHR ''0'' # dec_nat (nat i)
      else dec_nat (nat i))"

text \<open>Reading a decimal numeral back: the inverse used in the round-trip theorems.\<close>

definition is_digit :: "char \<Rightarrow> bool" where
  "is_digit c \<longleftrightarrow> 48 \<le> (of_char c :: nat) \<and> (of_char c :: nat) \<le> 57"

definition undec :: "string \<Rightarrow> nat" where
  "undec s = foldl (\<lambda>v c. 10 * v + (of_char c - 48)) 0 s"

lemma of_char_digit: "d < 10 \<Longrightarrow> (of_char (digit_char d) :: nat) = 48 + d"
  by (simp add: digit_char_def)

lemma is_digit_digit_char [simp]: "d < 10 \<Longrightarrow> is_digit (digit_char d)"
  by (simp add: is_digit_def of_char_digit)

lemma dec_nat_nonempty [simp]: "dec_nat n \<noteq> []"
  by (subst dec_nat.simps) simp

lemma dec_nat_digits: "list_all is_digit (dec_nat n)"
proof (induction n rule: dec_nat.induct)
  case (1 n)
  then show ?case by (subst dec_nat.simps) auto
qed

lemma undec_dec_nat [simp]: "undec (dec_nat n) = n"
proof (induction n rule: dec_nat.induct)
  case (1 n)
  show ?case
  proof (cases "n < 10")
    case True
    then show ?thesis by (subst dec_nat.simps) (simp add: undec_def of_char_digit)
  next
    case False
    have "undec (dec_nat n) = 10 * undec (dec_nat (n div 10)) + n mod 10"
      using False by (subst dec_nat.simps) (simp add: undec_def of_char_digit)
    then show ?thesis using "1.IH" [OF False] by simp
  qed
qed

lemma dec_nat_inj: "dec_nat m = dec_nat n \<longleftrightarrow> m = n"
  by (metis undec_dec_nat)

lemma length_dec_nat_le: "0 < k \<Longrightarrow> n < 10 ^ k \<Longrightarrow> length (dec_nat n) \<le> k"
proof (induction k arbitrary: n)
  case 0
  then show ?case by simp
next
  case (Suc k)
  show ?case
  proof (cases "n < 10")
    case True
    then show ?thesis by (subst dec_nat.simps) simp
  next
    case False
    then have "0 < k" using Suc.prems by (cases k) auto
    moreover have "n div 10 < 10 ^ k"
      using Suc.prems by (simp add: less_mult_imp_div_less mult.commute)
    ultimately have "length (dec_nat (n div 10)) \<le> k" by (rule Suc.IH)
    then show ?thesis using False by (subst dec_nat.simps) simp
  qed
qed

lemma dot_not_digit [simp]: "\<not> is_digit (CHR ''.'')"
  by (simp add: is_digit_def)

lemma dot_notin_dec_nat [simp]: "CHR ''.'' \<notin> set (dec_nat n)"
  using dec_nat_digits [of n] dot_not_digit by (auto simp: list_all_iff)

lemma undec_0 [simp]: "undec (CHR ''0'' # s) = undec s"
  by (simp add: undec_def)

lemma dec_nat_head: "hd (dec_nat n) \<noteq> CHR ''-''"
proof -
  have "is_digit (hd (dec_nat n))" using dec_nat_digits [of n] by (cases "dec_nat n") auto
  then show ?thesis by (auto simp: is_digit_def)
qed

text \<open>\<open>%02d\<close> determines its argument, and holds no dot.\<close>

lemma fmt_02d_inj: "fmt_02d i = fmt_02d j \<longleftrightarrow> i = j"
proof
  assume eq: "fmt_02d i = fmt_02d j"
  have sign: "(hd (fmt_02d x) = CHR ''-'') = (x < 0)" for x
    using dec_nat_head [of "nat x"] by (auto simp: fmt_02d_def fmt_d_def)
  have pos: "0 \<le> x \<Longrightarrow> undec (fmt_02d x) = nat x" for x
    by (auto simp: fmt_02d_def)
  have neg: "x < 0 \<Longrightarrow> undec (tl (fmt_02d x)) = nat (- x)" for x
    by (auto simp: fmt_02d_def fmt_d_def)
  show "i = j"
    using eq sign [of i] sign [of j] pos [of i] pos [of j] neg [of i] neg [of j]
    by (cases "i < 0"; cases "j < 0") auto
qed simp

lemma dot_notin_fmt_02d [simp]: "CHR ''.'' \<notin> set (fmt_02d i)"
  by (auto simp: fmt_02d_def fmt_d_def)

lemma dot_cancel:
  "c \<notin> set x \<Longrightarrow> c \<notin> set y \<Longrightarrow> (x @ c # r = y @ c # s) = (x = y \<and> r = s)"
proof (induction x arbitrary: y)
  case Nil
  then show ?case by (cases y) auto
next
  case (Cons a x)
  then show ?case by (cases y) auto
qed

end
