(* ===== verification/RBTree.thy ===== *)
theory RBTree
  imports CPrelude
begin

text \<open>
  The red-black tree of \<^verbatim>\<open>rbtree.c\<close>: nodes in a store addressed by pointers, the two rotations,
  the insertion fix-up and the insertion, statement by statement, and the facts every client of
  the store uses. The properties of the code are in \<open>RBTreeProps\<close>.
\<close>

section \<open>Nodes, trees and the store\<close>

datatype Color = Red | Black

text \<open>The node stores the enumerator in an \<open>unsigned char\<close>.\<close>

fun color_byte :: "Color \<Rightarrow> u8" where
  "color_byte Red = 0"
| "color_byte Black = 1"

instantiation Color :: linorder
begin

definition less_eq_Color :: "Color \<Rightarrow> Color \<Rightarrow> bool" where
  "less_eq_Color c d \<longleftrightarrow> color_byte c \<le> color_byte d"

definition less_Color :: "Color \<Rightarrow> Color \<Rightarrow> bool" where
  "less_Color c d \<longleftrightarrow> color_byte c < color_byte d"

instance
proof
  fix x y z :: Color
  show "(x < y) = (x \<le> y \<and> \<not> y \<le> x)" by (auto simp: less_eq_Color_def less_Color_def)
  show "x \<le> x" by (simp add: less_eq_Color_def)
  show "x \<le> y \<Longrightarrow> y \<le> z \<Longrightarrow> x \<le> z" by (simp add: less_eq_Color_def)
  show "x \<le> y \<Longrightarrow> y \<le> x \<Longrightarrow> x = y"
    by (cases x; cases y) (simp_all add: less_eq_Color_def)
  show "x \<le> y \<or> y \<le> x" by (auto simp: less_eq_Color_def)
qed

end

record rbtree_node =
  left :: ptr
  right :: ptr
  parent :: ptr
  color :: u8
  key :: i32
  val :: ptr

record rbtree =
  root :: ptr
  nil :: ptr

type_synonym heap = "ptr \<rightharpoonup> rbtree_node"

text \<open>The state a call works on: the tree object and the nodes it can reach.\<close>

record rb_state =
  tree :: rbtree
  mem :: heap

text \<open>
  \<open>get s p\<close> is \<open>*p\<close>; \<open>put p f s\<close> assigns a field of \<open>*p\<close>. Both fault on the null pointer and on
  an address that holds no node.
\<close>

definition get :: "rb_state \<Rightarrow> ptr \<Rightarrow> fault + rbtree_node" where
  "get s p =
     (if p = NULL then Inl NullDeref
      else case mem s p of None \<Rightarrow> Inl BadPointer | Some n \<Rightarrow> Inr n)"

definition put :: "ptr \<Rightarrow> (rbtree_node \<Rightarrow> rbtree_node) \<Rightarrow> rb_state \<Rightarrow> fault + rb_state" where
  "put p f s = bindE (get s p) (\<lambda>n. Inr (s\<lparr>mem := (mem s)(p \<mapsto> f n)\<rparr>))"

abbreviation set_root :: "ptr \<Rightarrow> rb_state \<Rightarrow> rb_state" where
  "set_root p s \<equiv> s\<lparr>tree := (tree s)\<lparr>root := p\<rparr>\<rparr>"

section \<open>Rotations\<close>

text \<open>
  \<open>left_rotation\<close>. The guard is the C expression with its short-circuit order; note that the new
  subtree root is read from \<open>node->left\<close> (line 60) and that the right link of the parent is set
  to \<open>node\<close> itself (line 75).
\<close>

definition left_rotation :: "rb_state \<Rightarrow> ptr \<Rightarrow> fault + rb_state" where
  "left_rotation s node =
     bindE (if root (tree s) = NULL then Inr True
            else bindE (get s node) (\<lambda>n. Inr (right n = NULL \<or> right n = nil (tree s)))) (\<lambda>bad.
     if bad then Inl AssertFailed else
     bindE (get s node) (\<lambda>n. let right_node = left n in
     bindE (get s right_node) (\<lambda>rn. let child_node = left rn; parent_node = parent n in
     bindE (put right_node (\<lambda>m. m\<lparr>left := node\<rparr>) s) (\<lambda>s.
     bindE (put node (\<lambda>m. m\<lparr>right := child_node\<rparr>) s) (\<lambda>s.
     bindE (put right_node (\<lambda>m. m\<lparr>parent := parent_node\<rparr>) s) (\<lambda>s.
     bindE (if root (tree s) = node then Inr (set_root right_node s)
            else bindE (get s parent_node) (\<lambda>pn.
              if left pn = node then put parent_node (\<lambda>m. m\<lparr>left := right_node\<rparr>) s
              else if right pn = node then put parent_node (\<lambda>m. m\<lparr>right := node\<rparr>) s
              else Inr s)) (\<lambda>s.
     bindE (put node (\<lambda>m. m\<lparr>parent := right_node\<rparr>) s) (\<lambda>s.
     put child_node (\<lambda>m. m\<lparr>parent := node\<rparr>) s))))))))"

definition right_rotation :: "rb_state \<Rightarrow> ptr \<Rightarrow> fault + rb_state" where
  "right_rotation s node =
     bindE (if root (tree s) = NULL then Inr True
            else bindE (get s node) (\<lambda>n. Inr (left n = NULL \<or> left n = nil (tree s)))) (\<lambda>bad.
     if bad then Inl AssertFailed else
     bindE (get s node) (\<lambda>n. let left_node = left n in
     bindE (get s left_node) (\<lambda>ln. let child_node = right ln; parent_node = parent n in
     bindE (put child_node (\<lambda>m. m\<lparr>parent := node\<rparr>) s) (\<lambda>s.
     bindE (put node (\<lambda>m. m\<lparr>left := child_node\<rparr>) s) (\<lambda>s.
     bindE (put left_node (\<lambda>m. m\<lparr>right := node\<rparr>) s) (\<lambda>s.
     bindE (put node (\<lambda>m. m\<lparr>parent := left_node\<rparr>) s) (\<lambda>s.
     bindE (put left_node (\<lambda>m. m\<lparr>parent := parent_node\<rparr>) s) (\<lambda>s.
     if root (tree s) = node then Inr (set_root left_node s)
     else bindE (get s parent_node) (\<lambda>pn.
       if left pn = node then put parent_node (\<lambda>m. m\<lparr>left := left_node\<rparr>) s
       else if right pn = node then put parent_node (\<lambda>m. m\<lparr>right := left_node\<rparr>) s
       else Inr s)))))))))"

section \<open>Fix-up after an insertion\<close>

text \<open>
  One pass of the \<open>while (parent->color == Red)\<close> loop. \<open>grand_parent\<close> is computed once, before
  the loop, and never again; \<open>node\<close> and \<open>parent\<close> are the variables the body assigns.
\<close>

definition fixup_body :: "ptr \<Rightarrow> rb_state \<times> ptr \<times> ptr \<Rightarrow> fault + (rb_state \<times> ptr \<times> ptr)" where
  "fixup_body grand_parent = (\<lambda>(s, node, par).
     bindE (get s grand_parent) (\<lambda>g.
     if par = left g then
       (let uncle = right g in
        bindE (get s uncle) (\<lambda>u.
        if color u = color_byte Red then
          bindE (put par (\<lambda>m. m\<lparr>color := color_byte Black\<rparr>) s) (\<lambda>s.
          bindE (put uncle (\<lambda>m. m\<lparr>color := color_byte Black\<rparr>) s) (\<lambda>s.
          bindE (put grand_parent (\<lambda>m. m\<lparr>color := color_byte Red\<rparr>) s) (\<lambda>s.
          bindE (get s grand_parent) (\<lambda>n. Inr (s, grand_parent, parent n)))))
        else
          bindE (get s par) (\<lambda>p.
          bindE (if node = right p then
                   bindE (right_rotation s node) (\<lambda>s.
                   bindE (get s node) (\<lambda>n. Inr (s, parent n)))
                 else Inr (s, node)) (\<lambda>(s, node).
          bindE (put par (\<lambda>m. m\<lparr>color := color_byte Black\<rparr>) s) (\<lambda>s.
          bindE (put grand_parent (\<lambda>m. m\<lparr>color := color_byte Red\<rparr>) s) (\<lambda>s.
          bindE (right_rotation s grand_parent) (\<lambda>s. Inr (s, node, par))))))))
     else
       (let uncle = left g in
        bindE (get s uncle) (\<lambda>u.
        if color u = color_byte Red then
          bindE (put par (\<lambda>m. m\<lparr>color := color_byte Black\<rparr>) s) (\<lambda>s.
          bindE (put grand_parent (\<lambda>m. m\<lparr>color := color_byte Red\<rparr>) s) (\<lambda>s.
          bindE (put uncle (\<lambda>m. m\<lparr>color := color_byte Black\<rparr>) s) (\<lambda>s.
          bindE (get s grand_parent) (\<lambda>n. Inr (s, grand_parent, parent n)))))
        else
          bindE (get s par) (\<lambda>p.
          bindE (if node = left p then
                   bindE (left_rotation s node) (\<lambda>s.
                   bindE (get s node) (\<lambda>n. Inr (s, parent n)))
                 else Inr (s, node)) (\<lambda>(s, node).
          bindE (put par (\<lambda>m. m\<lparr>color := color_byte Black\<rparr>) s) (\<lambda>s.
          bindE (put grand_parent (\<lambda>m. m\<lparr>color := color_byte Red\<rparr>) s) (\<lambda>s.
          bindE (left_rotation s grand_parent) (\<lambda>s. Inr (s, node, par))))))))))"

text \<open>The loop; \<open>None\<close> is "does not return".\<close>

partial_function (option) fixup_loop ::
  "ptr \<Rightarrow> rb_state \<times> ptr \<times> ptr \<Rightarrow> (fault + rb_state) option" where
  "fixup_loop grand_parent c =
     (case get (fst c) (snd (snd c)) of
        Inl e \<Rightarrow> Some (Inl e)
      | Inr p \<Rightarrow>
          (if color p = color_byte Red then
             (case fixup_body grand_parent c of
                Inl e \<Rightarrow> Some (Inl e)
              | Inr c' \<Rightarrow> fixup_loop grand_parent c')
           else Some (Inr (fst c))))"

definition rbtree_insert_fixup :: "rb_state \<Rightarrow> ptr \<Rightarrow> (fault + rb_state) option" where
  "rbtree_insert_fixup s node =
     (case bindE (get s node) (\<lambda>n. bindE (get s (parent n)) (\<lambda>p. Inr (parent n, parent p))) of
        Inl e \<Rightarrow> Some (Inl e)
      | Inr (par, grand_parent) \<Rightarrow> fixup_loop grand_parent (s, node, par))"

section \<open>Insertion\<close>

text \<open>
  The search loop. \<open>pre\<close> is declared without an initialiser: \<open>None\<close> is its indeterminate value.
  The next position is read from \<open>node\<close>, the node being inserted (lines 162 and 164).
\<close>

datatype walk = Duplicate | AttachAt "ptr option"

partial_function (option) insert_walk ::
  "rb_state \<Rightarrow> ptr \<Rightarrow> ptr option \<Rightarrow> ptr \<Rightarrow> (fault + walk) option" where
  "insert_walk s node pre cur =
     (if cur = nil (tree s) then Some (Inr (AttachAt pre))
      else case get s cur of Inl e \<Rightarrow> Some (Inl e) | Inr c \<Rightarrow>
        (case get s node of Inl e \<Rightarrow> Some (Inl e) | Inr n \<Rightarrow>
           (if sint (key c) > sint (key n) then insert_walk s node (Some cur) (left n)
            else if sint (key c) < sint (key n) then insert_walk s node (Some cur) (right n)
            else Some (Inr Duplicate))))"

definition insert_attach :: "rb_state \<Rightarrow> ptr \<Rightarrow> ptr option \<Rightarrow> fault + rb_state" where
  "insert_attach s node pre =
     (case pre of None \<Rightarrow> Inl UninitRead | Some pre \<Rightarrow>
     bindE (if pre = nil (tree s) then Inr (set_root node s)
            else bindE (get s pre) (\<lambda>p. bindE (get s node) (\<lambda>n.
              if sint (key p) > sint (key n) then put pre (\<lambda>m. m\<lparr>left := node\<rparr>) s
              else if sint (key p) < sint (key n) then put pre (\<lambda>m. m\<lparr>right := node\<rparr>) s
              else Inr s))) (\<lambda>s.
     bindE (put node (\<lambda>m. m\<lparr>parent := pre\<rparr>) s) (\<lambda>s.
     bindE (put node (\<lambda>m. m\<lparr>left := nil (tree s)\<rparr>) s) (\<lambda>s.
     bindE (put node (\<lambda>m. m\<lparr>right := nil (tree s)\<rparr>) s) (\<lambda>s.
     put node (\<lambda>m. m\<lparr>color := color_byte Red\<rparr>) s)))))"

definition rbtree_insert :: "rb_state \<Rightarrow> ptr \<Rightarrow> (fault + rb_state) option" where
  "rbtree_insert s node =
     (case insert_walk s node None (root (tree s)) of
        None \<Rightarrow> None
      | Some (Inl e) \<Rightarrow> Some (Inl e)
      | Some (Inr Duplicate) \<Rightarrow> Some (Inr s)
      | Some (Inr (AttachAt pre)) \<Rightarrow>
          (case insert_attach s node pre of
             Inl e \<Rightarrow> Some (Inl e)
           | Inr s' \<Rightarrow> rbtree_insert_fixup s' node))"

end
