(* ===== verification/RBTreeProps.thy ===== *)
theory RBTreeProps
  imports RBTree
begin

text \<open>
  What the code of \<open>RBTree\<close> does to the tree it represents. \<open>rep h nl par p t\<close> says that the
  nodes reachable from \<open>p\<close> in the store \<open>h\<close> form the finite tree \<open>t\<close> of addresses, with sentinel
  \<open>nl\<close> below it, and that every parent link is right (the one of \<open>p\<close> is \<open>par\<close>).
\<close>

section \<open>The tree a store represents\<close>

fun rep :: "heap \<Rightarrow> ptr \<Rightarrow> ptr \<Rightarrow> ptr \<Rightarrow> ptr tree \<Rightarrow> bool" where
  "rep h nl par p Leaf = (p = nl)"
| "rep h nl par p (Node l x r) =
     (p = x \<and> x \<noteq> NULL \<and> x \<noteq> nl \<and>
      (case h x of None \<Rightarrow> False
       | Some n \<Rightarrow> parent n = par \<and> rep h nl x (left n) l \<and> rep h nl x (right n) r))"

definition wf_tree :: "rb_state \<Rightarrow> ptr tree \<Rightarrow> bool" where
  "wf_tree s t \<longleftrightarrow>
     rep (mem s) (nil (tree s)) (nil (tree s)) (root (tree s)) t \<and>
     distinct (inorder t) \<and> nil (tree s) \<noteq> NULL \<and> mem s (nil (tree s)) \<noteq> None"

definition key_at :: "heap \<Rightarrow> ptr \<Rightarrow> int" where
  "key_at h p = (case h p of None \<Rightarrow> 0 | Some n \<Rightarrow> sint (key n))"

definition color_at :: "heap \<Rightarrow> ptr \<Rightarrow> u8" where
  "color_at h p = (case h p of None \<Rightarrow> 0 | Some n \<Rightarrow> color n)"

definition tree_keys :: "heap \<Rightarrow> ptr tree \<Rightarrow> int list" where
  "tree_keys h t = map (key_at h) (inorder t)"

definition search_tree :: "rb_state \<Rightarrow> ptr tree \<Rightarrow> bool" where
  "search_tree s t \<longleftrightarrow> sorted_wrt (<) (tree_keys (mem s) t)"

lemma rep_in_dom: "rep h nl par p t \<Longrightarrow> q \<in> set_tree t \<Longrightarrow> q \<noteq> NULL \<and> q \<noteq> nl \<and> (\<exists>n. h q = Some n)"
  by (induction t arbitrary: par p) (auto split: option.splits)

lemma rep_frame [c_frame]:
  "(\<And>q. q \<in> set_tree t \<Longrightarrow> h' q = h q) \<Longrightarrow> rep h' nl par p t = rep h nl par p t"
  by (induction t arbitrary: par p) (auto split: option.splits)

lemma rep_root: "rep h nl par p t \<Longrightarrow> (t = Leaf \<and> p = nl) \<or> (t \<noteq> Leaf \<and> p \<in> set_tree t)"
  by (cases t) auto

lemma rep_unique: "rep h nl par p t \<Longrightarrow> rep h nl par' p t' \<Longrightarrow> t = t'"
proof (induction t arbitrary: par par' p t')
  case Leaf
  then show ?case by (cases t') auto
next
  case (Node l x r)
  then obtain l' r' where t': "t' = Node l' x r'" by (cases t') auto
  with Node.prems show ?case by (auto split: option.splits dest: Node.IH)
qed

text \<open>Moving a subtree under another parent changes one parent link.\<close>

lemma rep_reparent:
  assumes "rep h nl par p t" and "distinct (inorder t)"
    and "\<And>q. q \<in> set_tree t \<Longrightarrow> q \<noteq> p \<Longrightarrow> h' q = h q"
    and "\<And>n. t \<noteq> Leaf \<Longrightarrow> h p = Some n \<Longrightarrow> h' p = Some (n\<lparr>parent := par'\<rparr>)"
  shows "rep h' nl par' p t"
proof (cases t)
  case Leaf
  then show ?thesis using assms(1) by simp
next
  case (Node l x r)
  with assms(1) obtain n where n: "p = x" "h x = Some n" "x \<noteq> NULL" "x \<noteq> nl"
      "rep h nl x (left n) l" "rep h nl x (right n) r"
    by (auto split: option.splits)
  have "rep h' nl x (left n) l = rep h nl x (left n) l"
    by (rule rep_frame) (use assms(2,3) Node n(1) in auto)
  moreover have "rep h' nl x (right n) r = rep h nl x (right n) r"
    by (rule rep_frame) (use assms(2,3) Node n(1) in auto)
  ultimately show ?thesis using Node n assms(4) by simp
qed

section \<open>Rotations on trees of addresses\<close>

fun rotate_right_at :: "ptr \<Rightarrow> ptr tree \<Rightarrow> ptr tree" where
  "rotate_right_at x Leaf = Leaf"
| "rotate_right_at x (Node l y r) =
     (if x = y then
        (case l of Leaf \<Rightarrow> Node l y r | Node a z b \<Rightarrow> Node a z (Node b y r))
      else Node (rotate_right_at x l) y (rotate_right_at x r))"

fun subtree_at :: "ptr \<Rightarrow> ptr tree \<Rightarrow> ptr tree" where
  "subtree_at x Leaf = Leaf"
| "subtree_at x (Node l y r) =
     (if x = y then Node l y r
      else if x \<in> set_tree l then subtree_at x l else subtree_at x r)"

definition left_of :: "ptr tree \<Rightarrow> ptr tree" where
  "left_of t = (case t of Leaf \<Rightarrow> Leaf | Node l x r \<Rightarrow> l)"

definition right_of :: "ptr tree \<Rightarrow> ptr tree" where
  "right_of t = (case t of Leaf \<Rightarrow> Leaf | Node l x r \<Rightarrow> r)"

lemma left_of_Node [simp]: "left_of (Node l x r) = l"
  and right_of_Node [simp]: "right_of (Node l x r) = r"
  by (simp_all add: left_of_def right_of_def)

lemma inorder_rotate_right_at [simp]: "inorder (rotate_right_at x t) = inorder t"
  by (induction t) (auto split: tree.splits)

lemma rotate_right_at_notin [simp]: "x \<notin> set_tree t \<Longrightarrow> rotate_right_at x t = t"
  by (induction t) auto

lemma subtree_at_root: "x \<in> set_tree t \<Longrightarrow> \<exists>l r. subtree_at x t = Node l x r"
  by (induction t) auto

lemma set_subtree_at: "set_tree (subtree_at x t) \<subseteq> set_tree t"
  by (induction t) auto

lemma distinct_subtree_at: "distinct (inorder t) \<Longrightarrow> distinct (inorder (subtree_at x t))"
  by (induction t) auto

lemma rep_subtree_at:
  "rep h nl par p t \<Longrightarrow> x \<in> set_tree t \<Longrightarrow>
   \<exists>n. h x = Some n \<and> rep h nl (parent n) x (subtree_at x t)"
proof (induction t arbitrary: par p)
  case Leaf
  then show ?case by simp
next
  case (Node l y r)
  then obtain m where m: "h y = Some m" "parent m = par" "p = y"
      "rep h nl y (left m) l" "rep h nl y (right m) r"
    by (auto split: option.splits)
  show ?case
  proof (cases "x = y")
    case True
    then show ?thesis using Node.prems(1) m by simp
  next
    case False
    then show ?thesis using Node.IH(1) [OF m(4)] Node.IH(2) [OF m(5)] Node.prems(2) by auto
  qed
qed

lemma rep_parent_notin_subtree:
  "rep h nl par p t \<Longrightarrow> distinct (inorder t) \<Longrightarrow> par \<notin> set_tree t \<Longrightarrow> x \<in> set_tree t \<Longrightarrow>
   h x = Some n \<Longrightarrow> parent n \<notin> set_tree (subtree_at x t)"
proof (induction t arbitrary: par p)
  case Leaf
  then show ?case by simp
next
  case (Node l y r)
  then obtain m where m: "h y = Some m" "rep h nl y (left m) l" "rep h nl y (right m) r" "parent m = par"
    by (auto split: option.splits)
  show ?case
    using Node.IH(1) [OF m(2)] Node.IH(2) [OF m(3)] Node.prems(2-5) m(1,4) by auto
qed

section \<open>The right rotation\<close>

text \<open>The store after \<open>right_rotation\<close>, write by write, with the aliasing the code has.\<close>

definition hput :: "ptr \<Rightarrow> (rbtree_node \<Rightarrow> rbtree_node) \<Rightarrow> heap \<Rightarrow> heap" where
  "hput p f h = (case h p of None \<Rightarrow> h | Some n \<Rightarrow> h(p \<mapsto> f n))"

lemma hput_apply: "hput p f h q = (if q = p then map_option f (h p) else h q)"
  by (auto simp: hput_def split: option.splits)

lemma get_ok [simp]: "p \<noteq> NULL \<Longrightarrow> mem s p = Some n \<Longrightarrow> get s p = Inr n"
  by (simp add: get_def)

lemma put_ok [simp]: "p \<noteq> NULL \<Longrightarrow> mem s p = Some n \<Longrightarrow> put p f s = Inr (s\<lparr>mem := hput p f (mem s)\<rparr>)"
  by (simp add: put_def hput_def)

definition relink :: "ptr \<Rightarrow> ptr \<Rightarrow> ptr \<Rightarrow> heap \<Rightarrow> heap" where
  "relink par x l h =
     (case h par of None \<Rightarrow> h
      | Some pn \<Rightarrow> if left pn = x then h(par \<mapsto> pn\<lparr>left := l\<rparr>)
                  else if right pn = x then h(par \<mapsto> pn\<lparr>right := l\<rparr>) else h)"

definition rotR_links :: "ptr \<Rightarrow> ptr \<Rightarrow> ptr \<Rightarrow> ptr \<Rightarrow> heap \<Rightarrow> heap" where
  "rotR_links x l c par h =
     hput l (\<lambda>m. m\<lparr>parent := par\<rparr>) (hput x (\<lambda>m. m\<lparr>parent := l\<rparr>)
      (hput l (\<lambda>m. m\<lparr>right := x\<rparr>) (hput x (\<lambda>m. m\<lparr>left := c\<rparr>)
        (hput c (\<lambda>m. m\<lparr>parent := x\<rparr>) h))))"

lemma right_rotation_eval:
  assumes "root (tree s) \<noteq> NULL" and "mem s x = Some n" "x \<noteq> NULL"
    and "left n = l" "l \<noteq> NULL" "l \<noteq> nil (tree s)" "mem s l = Some ln"
    and "right ln = c" "c \<noteq> NULL" "mem s c = Some cn"
    and "parent n = par"
    and "root (tree s) \<noteq> x \<Longrightarrow> par \<noteq> NULL \<and> mem s par \<noteq> None"
  shows "right_rotation s x =
    Inr (if root (tree s) = x
         then s\<lparr>tree := (tree s)\<lparr>root := l\<rparr>, mem := rotR_links x l c par (mem s)\<rparr>
         else s\<lparr>mem := relink par x l (rotR_links x l c par (mem s))\<rparr>)"
proof -
  have dom: "\<And>p f h. hput p f h q = None \<longleftrightarrow> h q = None" for q
    by (simp add: hput_apply)
  have ok: "\<And>p f s. p \<noteq> NULL \<Longrightarrow> mem s p \<noteq> None \<Longrightarrow> put p f s = Inr (s\<lparr>mem := hput p f (mem s)\<rparr>)"
    by (auto simp: put_def hput_def get_def)
  have pre: "get s x = Inr n" "get s l = Inr ln" using assms by simp_all
  show ?thesis
  proof (cases "root (tree s) = x")
    case True
    then show ?thesis
      using assms by (simp add: right_rotation_def pre Let_def ok dom rotR_links_def cong: if_cong)
  next
    case False
    then have "par \<noteq> NULL" and "rotR_links x l c par (mem s) par \<noteq> None"
      using assms by (simp_all add: rotR_links_def dom)
    then obtain pn where pn: "rotR_links x l c par (mem s) par = Some pn" "par \<noteq> NULL"
      by auto
    let ?s = "s\<lparr>mem := rotR_links x l c par (mem s)\<rparr>"
    have "right_rotation s x = bindE (get ?s par) (\<lambda>pn.
        if left pn = x then put par (\<lambda>m. m\<lparr>left := l\<rparr>) ?s
        else if right pn = x then put par (\<lambda>m. m\<lparr>right := l\<rparr>) ?s else Inr ?s)"
      using assms(1-11) False by (simp add: right_rotation_def pre Let_def ok dom rotR_links_def cong: if_cong)
    also have "get ?s par = Inr pn" using pn by simp
    finally show ?thesis
      using pn False by (simp add: relink_def hput_def)
  qed
qed

text \<open>
  \<open>rotated h h1 x l c par\<close>: the store \<open>h1\<close> is \<open>h\<close> with the links of the rotated nodes \<open>x\<close>, \<open>l\<close>
  and \<open>c\<close> rewritten; only the parent of \<open>x\<close> may differ besides.
\<close>

definition rotated :: "heap \<Rightarrow> heap \<Rightarrow> ptr \<Rightarrow> ptr \<Rightarrow> ptr \<Rightarrow> ptr \<Rightarrow> bool" where
  "rotated h h1 x l c par \<longleftrightarrow>
     (\<forall>n. h x = Some n \<longrightarrow> h1 x = Some (n\<lparr>left := c, parent := l\<rparr>)) \<and>
     (\<forall>n. h l = Some n \<longrightarrow> h1 l = Some (n\<lparr>right := x, parent := par\<rparr>)) \<and>
     (\<forall>n. h c = Some n \<longrightarrow> c \<noteq> par \<longrightarrow> h1 c = Some (n\<lparr>parent := x\<rparr>)) \<and>
     (\<forall>q. q \<notin> {x, l, c, par} \<longrightarrow> h1 q = h q)"

definition relinked :: "heap \<Rightarrow> heap \<Rightarrow> ptr \<Rightarrow> ptr \<Rightarrow> ptr \<Rightarrow> bool" where
  "relinked h h1 x l par \<longleftrightarrow>
     (\<forall>n. h par = Some n \<longrightarrow>
        h1 par = Some (if left n = x then n\<lparr>left := l\<rparr>
                       else if right n = x then n\<lparr>right := l\<rparr> else n))"

lemma rotated_rotR_links:
  "distinct [x, l, c] \<Longrightarrow> par \<noteq> x \<Longrightarrow> par \<noteq> l \<Longrightarrow>
   rotated h (rotR_links x l c par h) x l c par"
  by (auto simp: rotated_def rotR_links_def hput_apply)

lemma rotated_relink:
  assumes "distinct [x, l, c]" "par \<notin> {x, l, c}"
  shows "rotated h (relink par x l (rotR_links x l c par h)) x l c par \<and>
         relinked h (relink par x l (rotR_links x l c par h)) x l par"
proof -
  have "rotR_links x l c par h par = h par"
    using assms by (simp add: rotR_links_def hput_apply)
  moreover have "rotated h (rotR_links x l c par h) x l c par"
    using assms by (intro rotated_rotR_links) auto
  ultimately show ?thesis
    using assms by (auto simp: rotated_def relinked_def relink_def split: option.splits)
qed

lemma rep_parent_in:
  "rep h nl par p t \<Longrightarrow> x \<in> set_tree t \<Longrightarrow> h x = Some n \<Longrightarrow>
   (x = p \<and> parent n = par) \<or> (x \<noteq> p \<and> parent n \<in> set_tree t) \<or> \<not> distinct (inorder t)"
proof (induction t arbitrary: par p)
  case Leaf
  then show ?case by simp
next
  case (Node l y r)
  then obtain m where m: "h y = Some m" "p = y"
      "rep h nl y (left m) l" "rep h nl y (right m) r" "parent m = par"
    by (auto split: option.splits)
  then show ?case
    using Node.IH(1) [OF m(3)] Node.IH(2) [OF m(4)] Node.prems(2,3) by auto
qed

lemma rep_rotate_here:
  assumes "rep h nl par x (Node (Node ta l tb) x tc)" and "distinct (inorder (Node (Node ta l tb) x tc))"
    and "h l = Some ln" and "par \<notin> set_tree (Node (Node ta l tb) x tc)"
    and "rotated h h1 x l (right ln) par"
  shows "rep h1 nl par l (Node ta l (Node tb x tc))"
proof -
  obtain n where n: "h x = Some n" "left n = l" "x \<noteq> NULL" "x \<noteq> nl" "l \<noteq> NULL" "l \<noteq> nl"
      "rep h nl x (right n) tc" "rep h nl l (left ln) ta" "rep h nl l (right ln) tb"
    using assms(1,3) by (auto split: option.splits)
  have c: "(tb = Leaf \<and> right ln = nl) \<or> (tb \<noteq> Leaf \<and> right ln \<in> set_tree tb)"
    using n rep_root by blast
  have nlt: "\<And>q. q \<in> set_tree ta \<union> set_tree tb \<union> set_tree tc \<Longrightarrow> q \<noteq> nl"
    using n rep_in_dom by blast
  have out: "\<And>q. q \<notin> {x, l, right ln, par} \<Longrightarrow> h1 q = h q"
    using assms(5) by (simp add: rotated_def)
  have "rep h1 nl l (left ln) ta = rep h nl l (left ln) ta"
    by (rule rep_frame, rule out) (use assms(2,4) c nlt in auto)
  moreover have "rep h1 nl x (right n) tc = rep h nl x (right n) tc"
    by (rule rep_frame, rule out) (use assms(2,4) c nlt in auto)
  moreover have "rep h1 nl x (right ln) tb"
  proof (rule rep_reparent [OF n(9)])
    show "distinct (inorder tb)" using assms(2) by auto
    show "\<And>q. q \<in> set_tree tb \<Longrightarrow> q \<noteq> right ln \<Longrightarrow> h1 q = h q"
      by (rule out) (use assms(2,4) in auto)
    show "\<And>m. tb \<noteq> Leaf \<Longrightarrow> h (right ln) = Some m \<Longrightarrow> h1 (right ln) = Some (m\<lparr>parent := x\<rparr>)"
      using assms(4,5) c by (auto simp: rotated_def)
  qed
  ultimately show ?thesis
    using n assms(3,5) by (simp add: rotated_def)
qed

lemma rep_rotate_right:
  assumes "rep h nl par p t" and "distinct (inorder t)" and "x \<in> set_tree t"
    and "subtree_at x t = Node (Node ta l tb) x tc"
    and "h x = Some n" "h l = Some ln" and "par \<notin> set_tree t"
    and "rotated h h1 x l (right ln) (parent n)"
    and "x \<noteq> p \<Longrightarrow> relinked h h1 x l (parent n)"
  shows "rep h1 nl par (if p = x then l else p) (rotate_right_at x t)"
  using assms(1-4,7,9)
proof (induction t arbitrary: par p)
  case Leaf
  then show ?case by simp
next
  case (Node tl y tr)
  from Node.prems(1) obtain m where m: "p = y" "h y = Some m" "parent m = par" "y \<noteq> NULL" "y \<noteq> nl"
      "rep h nl y (left m) tl" "rep h nl y (right m) tr"
    by (auto split: option.splits)
  show ?case
  proof (cases "x = y")
    case True
    then show ?thesis
      using Node.prems m assms(5,6,8) rep_rotate_here [of h nl par x ta l tb tc ln h1] by auto
  next
    case False
    have sub: "set_tree (Node (Node ta l tb) x tc) \<subseteq> (if x \<in> set_tree tl then set_tree tl else set_tree tr)"
      using set_subtree_at [of x tl] set_subtree_at [of x tr] Node.prems(4) False by auto
    have sr: "rep h nl (parent n) x (Node (Node ta l tb) x tc)"
      using rep_subtree_at [OF Node.prems(1,3)] Node.prems(4) assms(5) by auto
    then have "rep h nl l (right ln) tb" using assms(5,6) by auto
    then have c: "right ln = nl \<or> right ln \<in> set_tree tb" using rep_root by blast
    have nlt: "\<And>q. q \<in> set_tree tl \<union> set_tree tr \<Longrightarrow> q \<noteq> nl"
      using m rep_in_dom by blast
    have out: "\<And>q. q \<notin> {x, l, right ln, parent n} \<Longrightarrow> h1 q = h q"
      using assms(8) by (simp add: rotated_def)
    have d: "distinct (inorder tl)" "distinct (inorder tr)" "set_tree tl \<inter> set_tree tr = {}"
        "y \<notin> set_tree tl" "y \<notin> set_tree tr"
      using Node.prems(2) by auto
    have rl: "relinked h h1 x l (parent n)" using Node.prems(6) m(1) False by simp
    show ?thesis
    proof (cases "x \<in> set_tree tl")
      case True
      then have xr: "x \<notin> set_tree tr" "right m \<noteq> x"
        using d(3) m(7) rep_root [OF m(7)] nlt by auto
      have pin: "(x = left m \<and> parent n = y) \<or> (x \<noteq> left m \<and> parent n \<in> set_tree tl)"
        using rep_parent_in [OF m(6) True assms(5)] d(1) by auto
      have "rep h1 nl y (if left m = x then l else left m) (rotate_right_at x tl)"
        using Node.IH(1) [OF m(6) d(1) True] Node.prems(4) True False d(4) rl by auto
      moreover have "rep h1 nl y (right m) tr = rep h nl y (right m) tr"
        by (rule rep_frame, rule out) (use sub True c nlt d pin in auto)
      moreover have "h1 y = Some (if left m = x then m\<lparr>left := l\<rparr> else m)"
      proof (cases "parent n = y")
        case True
        then show ?thesis using rl m(2) xr by (auto simp: relinked_def)
      next
        case False
        then have "h1 y = h y" using sub True c m(5) d(4) \<open>x \<noteq> y\<close> by (intro out) auto
        then show ?thesis using m(2) pin False by auto
      qed
      ultimately show ?thesis
        using m False xr by auto
    next
      case xl: False
      then have True: "x \<in> set_tree tr" using Node.prems(3) False by auto
      have xl': "left m \<noteq> x" using xl m(6) rep_root [OF m(6)] nlt True by auto
      have pin: "(x = right m \<and> parent n = y) \<or> (x \<noteq> right m \<and> parent n \<in> set_tree tr)"
        using rep_parent_in [OF m(7) True assms(5)] d(2) by auto
      have "rep h1 nl y (if right m = x then l else right m) (rotate_right_at x tr)"
        using Node.IH(2) [OF m(7) d(2) True] Node.prems(4) xl False d(5) rl by auto
      moreover have "rep h1 nl y (left m) tl = rep h nl y (left m) tl"
        by (rule rep_frame, rule out) (use sub xl c nlt d pin in auto)
      moreover have "h1 y = Some (if right m = x then m\<lparr>right := l\<rparr> else m)"
      proof (cases "parent n = y")
        case True
        then show ?thesis using rl m(2) xl' by (auto simp: relinked_def)
      next
        case False
        then have "h1 y = h y" using sub xl c m(5) d(5) \<open>x \<noteq> y\<close> by (intro out) auto
        then show ?thesis using m(2) pin False by auto
      qed
      ultimately show ?thesis
        using m False xl xl' by auto
    qed
  qed
qed

section \<open>What every operation leaves alone\<close>

text \<open>
  \<open>same_payload s s'\<close>: the same nodes are allocated, with the same keys, and the sentinel is the
  same; \<open>same_colors\<close> adds the colours. Every assignment of the code is a \<open>put\<close> that keeps one of
  them, whatever the shape of the store.
\<close>

definition same_payload :: "rb_state \<Rightarrow> rb_state \<Rightarrow> bool" where
  "same_payload s s' \<longleftrightarrow>
     dom (mem s') = dom (mem s) \<and> key_at (mem s') = key_at (mem s) \<and> nil (tree s') = nil (tree s)"

definition same_colors :: "rb_state \<Rightarrow> rb_state \<Rightarrow> bool" where
  "same_colors s s' \<longleftrightarrow> same_payload s s' \<and> color_at (mem s') = color_at (mem s)"

lemma same_payload_refl [simp]: "same_payload s s"
  by (simp add: same_payload_def)

lemma same_payload_trans: "same_payload s s' \<Longrightarrow> same_payload s' s'' \<Longrightarrow> same_payload s s''"
  by (simp add: same_payload_def)

lemma same_colors_refl [simp]: "same_colors s s"
  by (simp add: same_colors_def)

lemma same_colors_trans: "same_colors s s' \<Longrightarrow> same_colors s' s'' \<Longrightarrow> same_colors s s''"
  by (auto simp: same_colors_def intro: same_payload_trans)

lemma same_colors_payload: "same_colors s s' \<Longrightarrow> same_payload s s'"
  by (simp add: same_colors_def)

lemma same_colors_set_root [simp]: "same_colors s (set_root p s')  = same_colors s s'"
  by (simp add: same_colors_def same_payload_def)

lemma same_payload_set_root [simp]: "same_payload s (set_root p s')  = same_payload s s'"
  by (simp add: same_payload_def)

lemma put_same_payload:
  "put p f s = Inr s' \<Longrightarrow> (\<And>n. key (f n) = key n) \<Longrightarrow> same_payload s s'"
  by (auto simp: put_def get_def same_payload_def key_at_def bindE_eq_Inr
      split: if_splits option.splits)

lemma put_same_colors:
  assumes "put p f s = Inr s'" and "\<And>n. key (f n) = key n" and "\<And>n. color (f n) = color n"
  shows "same_colors s s'"
  using assms put_same_payload [OF assms(1,2)]
  by (auto simp: put_def get_def same_colors_def color_at_def bindE_eq_Inr
      split: if_splits option.splits)

lemma okE_put_colors:
  "same_colors s0 s \<Longrightarrow> (\<And>n. key (f n) = key n) \<Longrightarrow> (\<And>n. color (f n) = color n) \<Longrightarrow>
   okE (put p f s) (same_colors s0)"
  unfolding okE_def by (cases "put p f s") (simp_all, blast intro: same_colors_trans put_same_colors)

lemma okE_put_payload:
  "same_payload s0 s \<Longrightarrow> (\<And>n. key (f n) = key n) \<Longrightarrow> okE (put p f s) (same_payload s0)"
  unfolding okE_def by (cases "put p f s") (simp_all, blast intro: same_payload_trans put_same_payload)

lemma okE_bind_bool: "(\<And>b::bool. okE (f b) P) \<Longrightarrow> okE (bindE m f) P"
  by (rule okE_bind_any)

lemma okE_bind_node: "(\<And>n::rbtree_node. get s p = Inr n \<Longrightarrow> okE (f n) P) \<Longrightarrow> okE (bindE (get s p) f) P"
  by (rule okE_bind_any)

lemma okE_bind_colors:
  "okE m (same_colors s0) \<Longrightarrow> (\<And>s. same_colors s0 s \<Longrightarrow> okE (f s) P) \<Longrightarrow> okE (bindE m f) P"
  by (rule okE_bind)

lemma okE_bind_payload:
  "okE m (same_payload s0) \<Longrightarrow> (\<And>s. same_payload s0 s \<Longrightarrow> okE (f s) P) \<Longrightarrow> okE (bindE m f) P"
  by (rule okE_bind)

lemma put_color_at:
  "put p (\<lambda>m. m\<lparr>color := c\<rparr>) s = Inr s' \<Longrightarrow> color_at (mem s') = (color_at (mem s))(p := c)"
  by (auto simp: put_def get_def color_at_def bindE_eq_Inr split: if_splits option.splits)

lemma get_color_at: "get s p = Inr n \<Longrightarrow> color_at (mem s) p = color n"
  by (auto simp: get_def color_at_def split: if_splits option.splits)

lemma right_rotation_colors: "okE (right_rotation s x) (same_colors s)"
  unfolding right_rotation_def Let_def
  by (auto intro!: okE_bind_colors okE_put_colors okE_if okE_Inr okE_Inl okE_bind_bool okE_bind_node)

lemma left_rotation_colors: "okE (left_rotation s x) (same_colors s)"
  unfolding left_rotation_def Let_def
  by (auto intro!: okE_bind_colors okE_put_colors okE_if okE_Inr okE_Inl okE_bind_bool okE_bind_node)

text \<open>
  What the fix-up loop relies on in a rotation: it re-links nodes and neither allocates, frees,
  re-keys nor re-colours one. Both rotations of the code provide it.
\<close>

locale rotation =
  fixes rot :: "rb_state \<Rightarrow> ptr \<Rightarrow> fault + rb_state"
  assumes keeps_colors: "okE (rot s x) (same_colors s)"
begin

lemma keeps_payload: "same_payload s0 s \<Longrightarrow> okE (rot s x) (same_payload s0)"
  using keeps_colors [of s x]
  by (auto simp: okE_def split: sum.splits intro: same_payload_trans same_colors_payload)

lemma color_is: "color_at (mem s) = c \<Longrightarrow> okE (rot s x) (\<lambda>s'. color_at (mem s') = c)"
  using keeps_colors [of s x] by (auto simp: okE_def same_colors_def split: sum.splits)

end

interpretation rr: rotation right_rotation
  by unfold_locales (rule right_rotation_colors)

interpretation lr: rotation left_rotation
  by unfold_locales (rule left_rotation_colors)

section \<open>The fix-up loop\<close>

lemma okE_bind_pair_payload:
  "okE m (\<lambda>(s, _). same_payload s0 s) \<Longrightarrow> (\<And>s x. same_payload s0 s \<Longrightarrow> okE (f (s, x)) P) \<Longrightarrow>
   okE (bindE m f) P"
  by (erule okE_bind) auto

lemma fixup_body_payload:
  "okE (fixup_body g (s, x, p)) (\<lambda>(s', _, _). same_payload s s')"
  unfolding fixup_body_def Let_def
  by (auto intro!: okE_bind_pair_payload okE_bind_payload okE_put_payload rr.keeps_payload lr.keeps_payload
      okE_if okE_Inr okE_Inl okE_bind_node)

definition uncle_of :: "rbtree_node \<Rightarrow> ptr \<Rightarrow> ptr" where
  "uncle_of g p = (if p = left g then right g else left g)"

text \<open>
  The two outcomes of a pass: with a black uncle the parent is painted black and stays the
  parent; with a red uncle the links do not change and the pass moves up to the grandparent.
\<close>

lemma okE_put_color_is:
  "color_at (mem s) = c \<Longrightarrow> okE (put p (\<lambda>m. m\<lparr>color := b\<rparr>) s) (\<lambda>s'. color_at (mem s') = c(p := b))"
  by (cases "put p (\<lambda>m. m\<lparr>color := b\<rparr>) s") (auto simp: okE_def dest: put_color_at)

lemma okE_bind_color_is:
  "okE m (\<lambda>s. color_at (mem s) = c) \<Longrightarrow> (\<And>s. color_at (mem s) = c \<Longrightarrow> okE (f s) P) \<Longrightarrow>
   okE (bindE m f) P"
  by (rule okE_bind)

lemma okE_bind_pair_color_is:
  "okE m (\<lambda>(s, _). color_at (mem s) = c) \<Longrightarrow>
   (\<And>s x. color_at (mem s) = c \<Longrightarrow> okE (f (s, x)) P) \<Longrightarrow> okE (bindE m f) P"
  by (erule okE_bind) auto

lemma fixup_body_black_uncle:
  assumes "get s g = Inr gn" and "color_at (mem s) (uncle_of gn p) \<noteq> color_byte Red"
  shows "okE (fixup_body g (s, x, p))
           (\<lambda>(s', _, p'). p' = p \<and> color_at (mem s') = (color_at (mem s))(p := 1, g := 0))"
proof (cases "p = left gn")
  case True
  then show ?thesis
    using assms get_color_at [of s "right gn"]
    unfolding fixup_body_def Let_def uncle_of_def
    by (auto intro!: okE_bind_node okE_bind_pair_color_is okE_bind_color_is okE_put_color_is
        rr.color_is lr.color_is okE_if okE_Inr)
next
  case False
  then show ?thesis
    using assms get_color_at [of s "left gn"]
    unfolding fixup_body_def Let_def uncle_of_def
    by (auto intro!: okE_bind_node okE_bind_pair_color_is okE_bind_color_is okE_put_color_is
        rr.color_is lr.color_is okE_if okE_Inr)
qed

definition link_at :: "heap \<Rightarrow> ptr \<Rightarrow> (ptr \<times> ptr \<times> ptr) option" where
  "link_at h p = map_option (\<lambda>n. (left n, right n, parent n)) (h p)"

lemma okE_put_color_links:
  "okE (put p (\<lambda>m. m\<lparr>color := b\<rparr>) s) (\<lambda>s'. link_at (mem s') = link_at (mem s))"
  by (auto simp: okE_def put_def get_def link_at_def fun_eq_iff split: sum.splits option.splits)

lemma fixup_body_red_uncle:
  assumes "get s g = Inr gn" and "color_at (mem s) (uncle_of gn p) = color_byte Red"
    and "g \<noteq> p" "g \<noteq> uncle_of gn p" and "fixup_body g (s, x, p) = Inr (s', x', p')"
  shows "x' = g \<and> p' = parent gn \<and> link_at (mem s') = link_at (mem s) \<and>
         color_at (mem s') = (color_at (mem s))(p := 1, uncle_of gn p := 1, g := 0)"
proof -
  obtain un where un: "get s (uncle_of gn p) = Inr un"
    using assms(1,5) by (auto simp: fixup_body_def Let_def uncle_of_def bindE_eq_Inr split: if_splits)
  then have red: "color un = color_byte Red" using assms(2) get_color_at by fastforce
  obtain s1 s2 n where
      puts: "put p (\<lambda>m. m\<lparr>color := 1\<rparr>) s = Inr s1"
        "(put (uncle_of gn p) (\<lambda>m. m\<lparr>color := 1\<rparr>) s1 = Inr s2 \<and> put g (\<lambda>m. m\<lparr>color := 0\<rparr>) s2 = Inr s') \<or>
         (put g (\<lambda>m. m\<lparr>color := 0\<rparr>) s1 = Inr s2 \<and> put (uncle_of gn p) (\<lambda>m. m\<lparr>color := 1\<rparr>) s2 = Inr s')"
      and n: "get s' g = Inr n" "x' = g" "p' = parent n"
    using assms(1,5) un red
    by (auto simp: fixup_body_def Let_def uncle_of_def bindE_eq_Inr split: if_splits)
  have "color_at (mem s') = (color_at (mem s))(p := 1, uncle_of gn p := 1, g := 0)"
    using puts assms(3,4) by (auto dest!: put_color_at simp: fun_eq_iff)
  moreover have links: "link_at (mem s') = link_at (mem s)"
    using puts by (auto dest!: okE_D [OF okE_put_color_links])
  moreover have "parent n = parent gn"
    using n(1) assms(1) fun_cong [OF links, of g]
    by (auto simp: get_def link_at_def split: if_splits option.splits)
  ultimately show ?thesis using n by simp
qed

lemma fixup_loop_black_parent:
  "color_at (mem s) p \<noteq> color_byte Red \<Longrightarrow> fixup_loop g (s, x, p) \<noteq> None"
  using get_color_at [of s p] by (subst fixup_loop.simps) (auto split: sum.splits)

lemma fixup_loop_black_uncle:
  assumes "get s g = Inr gn" and "color_at (mem s) (uncle_of gn p) \<noteq> color_byte Red" and "p \<noteq> g"
  shows "fixup_loop g (s, x, p) \<noteq> None"
proof (subst fixup_loop.simps, cases "fixup_body g (s, x, p)")
  case (Inr c)
  obtain s' x' p' where c: "c = (s', x', p')" by (cases c)
  have "p' = p" and "color_at (mem s') p = 1"
    using okE_D [OF fixup_body_black_uncle [OF assms(1,2)] Inr] c assms(3) by auto
  then have "fixup_loop g c \<noteq> None"
    unfolding c by (intro fixup_loop_black_parent) simp
  with Inr show "(case get (fst (s, x, p)) (snd (snd (s, x, p))) of Inl e \<Rightarrow> Some (Inl e)
      | Inr q \<Rightarrow> if color q = color_byte Red then case fixup_body g (s, x, p) of
          Inl e \<Rightarrow> Some (Inl e) | Inr c' \<Rightarrow> fixup_loop g c' else Some (Inr (fst (s, x, p)))) \<noteq> None"
    by (auto split: sum.splits)
qed (auto split: sum.splits)


text \<open>
  One red uncle is the most the loop can meet: the pass paints both children of the
  grandparent black, and the next pass looks at one of them again.
\<close>

lemma fixup_loop_terminates:
  assumes "get s g = Inr gn" and "p = left gn \<or> p = right gn" and "p \<noteq> g" "uncle_of gn p \<noteq> g"
    and "parent gn \<noteq> g"
  shows "fixup_loop g (s, x, p) \<noteq> None"
proof (cases "color_at (mem s) (uncle_of gn p) = color_byte Red")
  case False
  then show ?thesis using assms by (intro fixup_loop_black_uncle)
next
  case red: True
  show ?thesis
  proof (cases "fixup_body g (s, x, p)")
    case (Inl e)
    then show ?thesis by (subst fixup_loop.simps) (auto split: sum.splits)
  next
    case (Inr c)
    obtain s' x' p' where c: "c = (s', x', p')" by (cases c)
    have b: "p' = parent gn" "link_at (mem s') = link_at (mem s)"
        "color_at (mem s') = (color_at (mem s))(p := 1, uncle_of gn p := 1, g := 0)"
      using fixup_body_red_uncle [OF assms(1) red] assms(3,4) Inr c by auto
    obtain gn' where g': "get s' g = Inr gn'" "left gn' = left gn" "right gn' = right gn"
      using assms(1) fun_cong [OF b(2), of g]
      by (auto simp: get_def link_at_def split: if_splits option.splits)
    have "color_at (mem s') (left gn) = 1" "color_at (mem s') (right gn) = 1"
      using b(3) assms(2-4) by (auto simp: uncle_of_def split: if_splits)
    then have "color_at (mem s') (uncle_of gn' p') \<noteq> color_byte Red"
      using g' by (simp add: uncle_of_def)
    then have "fixup_loop g c \<noteq> None"
      unfolding c using g'(1) b(1) assms(5) by (intro fixup_loop_black_uncle) auto
    with Inr show ?thesis by (subst fixup_loop.simps) (auto split: sum.splits)
  qed
qed

lemma rep_links:
  "rep h nl par p t \<Longrightarrow> distinct (inorder t) \<Longrightarrow> par \<notin> set_tree t \<Longrightarrow> x \<in> set_tree t \<Longrightarrow>
   \<exists>n. h x = Some n \<and> parent n \<noteq> x \<and> left n \<noteq> x \<and> right n \<noteq> x \<and>
       (x \<noteq> p \<longrightarrow> parent n \<in> set_tree t \<and>
          (\<exists>m. h (parent n) = Some m \<and> (x = left m \<or> x = right m)))"
proof (induction t arbitrary: par p)
  case Leaf
  then show ?case by simp
next
  case (Node l y r)
  then obtain m where m: "h y = Some m" "p = y" "y \<noteq> nl"
      "rep h nl y (left m) l" "rep h nl y (right m) r" "parent m = par"
    by (auto split: option.splits)
  have lr: "left m = nl \<or> left m \<in> set_tree l" "right m = nl \<or> right m \<in> set_tree r"
    using rep_root [OF m(4)] rep_root [OF m(5)] by auto
  show ?case
  proof (cases "x = y")
    case True
    then show ?thesis using m lr Node.prems by auto
  next
    case False
    then consider "x \<in> set_tree l" | "x \<in> set_tree r" using Node.prems by auto
    then show ?thesis
    proof cases
      case 1
      then have "\<exists>n. h x = Some n \<and> parent n \<noteq> x \<and> left n \<noteq> x \<and> right n \<noteq> x \<and>
          (x \<noteq> left m \<longrightarrow> parent n \<in> set_tree l \<and>
             (\<exists>m. h (parent n) = Some m \<and> (x = left m \<or> x = right m)))"
        using Node.IH(1) [OF m(4)] Node.prems by auto
      moreover have "x = left m \<Longrightarrow> h x = Some n \<Longrightarrow> parent n = y" for n
        using 1 m(4) by (cases l) (auto split: option.splits)
      ultimately show ?thesis using m by auto
    next
      case 2
      then have "\<exists>n. h x = Some n \<and> parent n \<noteq> x \<and> left n \<noteq> x \<and> right n \<noteq> x \<and>
          (x \<noteq> right m \<longrightarrow> parent n \<in> set_tree r \<and>
             (\<exists>m. h (parent n) = Some m \<and> (x = left m \<or> x = right m)))"
        using Node.IH(2) [OF m(5)] Node.prems by auto
      moreover have "x = right m \<Longrightarrow> h x = Some n \<Longrightarrow> parent n = y" for n
        using 2 m(5) by (cases r) (auto split: option.splits)
      ultimately show ?thesis using m by auto
    qed
  qed
qed

lemma rbtree_insert_fixup_terminates:
  assumes "wf_tree s t" and "x \<in> set_tree t"
    and "color_at (mem s) (root (tree s)) \<noteq> color_byte Red"
    and "color_at (mem s) (nil (tree s)) \<noteq> color_byte Red"
  shows "rbtree_insert_fixup s x \<noteq> None"
proof -
  let ?nl = "nil (tree s)" and ?h = "mem s"
  have r: "rep ?h ?nl ?nl (root (tree s)) t" "distinct (inorder t)" "?nl \<notin> set_tree t"
    using assms(1) rep_in_dom [of ?h ?nl ?nl "root (tree s)" t ?nl] by (auto simp: wf_tree_def)
  obtain n where n: "?h x = Some n" "x \<noteq> root (tree s) \<Longrightarrow> parent n \<in> set_tree t"
    using rep_links [OF r assms(2)] by auto
  have gx: "get s x = Inr n" using n(1) rep_in_dom [OF r(1) assms(2)] by simp
  consider "color_at ?h (parent n) \<noteq> color_byte Red"
    | "parent n \<in> set_tree t" "parent n \<noteq> root (tree s)"
    using n(2) assms(3,4) rep_parent_in [OF r(1) assms(2) n(1)] r(2)
    by (cases "parent n = root (tree s)") auto
  then show ?thesis
  proof cases
    case 1
    then show ?thesis
      using gx fixup_loop_black_parent [of s "parent n"]
      by (cases "get s (parent n)") (auto simp: rbtree_insert_fixup_def)
  next
    case 2
    obtain pn where pn: "?h (parent n) = Some pn" "parent pn \<in> set_tree t" "parent pn \<noteq> parent n"
      using rep_links [OF r 2(1)] 2(2) by auto
    obtain gn where gn: "?h (parent pn) = Some gn" "parent gn \<noteq> parent pn"
        "left gn \<noteq> parent pn" "right gn \<noteq> parent pn" "parent n = left gn \<or> parent n = right gn"
      using rep_links [OF r pn(2)] rep_links [OF r 2(1)] 2(2) pn(1) by auto
    have "fixup_loop (parent pn) (s, x, parent n) \<noteq> None"
      using gn pn rep_in_dom [OF r(1) pn(2)]
      by (intro fixup_loop_terminates [of s _ gn]) (auto simp: uncle_of_def)
    then show ?thesis
      using gx pn(1) rep_in_dom [OF r(1) 2(1)] by (simp add: rbtree_insert_fixup_def)
  qed
qed

end
