(* ===== verification/RBTreeSpec.thy ===== *)
theory RBTreeSpec
  imports RBTreeProps
begin

text \<open>
  What the rotations and the insertion do to the tree that the store represents, on every branch
  of the code. The properties themselves are stated in \<open>RBTreeClaims\<close>.
\<close>

section \<open>Right rotation\<close>

lemma wf_treeD:
  assumes "wf_tree s t"
  shows "rep (mem s) (nil (tree s)) (nil (tree s)) (root (tree s)) t" and "distinct (inorder t)"
    and "nil (tree s) \<noteq> NULL" and "nil (tree s) \<notin> set_tree t"
    and "\<exists>n. mem s (nil (tree s)) = Some n"
    and "root (tree s) \<noteq> NULL"
    and "t \<noteq> Leaf \<Longrightarrow> root (tree s) \<in> set_tree t"
proof -
  show *: "rep (mem s) (nil (tree s)) (nil (tree s)) (root (tree s)) t" and "distinct (inorder t)"
    and **: "nil (tree s) \<noteq> NULL" and "\<exists>n. mem s (nil (tree s)) = Some n"
    using assms by (auto simp: wf_tree_def)
  show "nil (tree s) \<notin> set_tree t"
    using rep_in_dom [OF *, of "nil (tree s)"] by auto
  show "root (tree s) \<noteq> NULL"
    using * ** by (cases t) auto
  show "t \<noteq> Leaf \<Longrightarrow> root (tree s) \<in> set_tree t"
    using rep_root [OF *] by auto
qed

lemma wf_node:
  assumes "wf_tree s t" and "x \<in> set_tree t"
  obtains n l r where "mem s x = Some n" "x \<noteq> NULL" "subtree_at x t = Node l x r"
    "rep (mem s) (nil (tree s)) x (left n) l" "rep (mem s) (nil (tree s)) x (right n) r"
    "x \<noteq> root (tree s) \<Longrightarrow> parent n \<in> set_tree t"
    "x = root (tree s) \<Longrightarrow> parent n = nil (tree s)"
proof -
  note w = wf_treeD [OF assms(1)]
  obtain n where n: "mem s x = Some n" "rep (mem s) (nil (tree s)) (parent n) x (subtree_at x t)"
    using rep_subtree_at [OF w(1) assms(2)] by auto
  obtain l r where "subtree_at x t = Node l x r"
    using subtree_at_root [OF assms(2)] by auto
  then show thesis
    using n rep_parent_in [OF w(1) assms(2) n(1)] w(2) by (intro that) auto
qed

lemma rotation_refines:
  assumes "wf_tree s t" and "x \<in> set_tree t" and "left_of (subtree_at x t) \<noteq> Leaf"
  shows "\<exists>s'. right_rotation s x = Inr s' \<and> wf_tree s' (rotate_right_at x t) \<and> same_colors s s'"
proof -
  note w = wf_treeD [OF assms(1)]
  let ?h = "mem s" and ?nl = "nil (tree s)" and ?rt = "root (tree s)"
  obtain n l0 r0 where n: "?h x = Some n" "x \<noteq> NULL" "subtree_at x t = Node l0 x r0"
      "rep ?h ?nl x (left n) l0" "x \<noteq> ?rt \<Longrightarrow> parent n \<in> set_tree t"
      "x = ?rt \<Longrightarrow> parent n = ?nl"
    using wf_node [OF assms(1,2)] by metis
  obtain ta l tb where l0: "l0 = Node ta l tb" using assms(3) n(3) by (cases l0) auto
  then obtain ln where ln: "left n = l" "l \<noteq> NULL" "l \<noteq> ?nl" "?h l = Some ln"
      "rep ?h ?nl l (right ln) tb"
    using n(4) by (auto split: option.splits)
  have sub: "set_tree (Node (Node ta l tb) x r0) \<subseteq> set_tree t"
    using set_subtree_at [of x t] n(3) l0 by simp
  have dsub: "distinct (inorder (Node (Node ta l tb) x r0))"
    using distinct_subtree_at [OF w(2), of x] n(3) l0 by simp
  have c: "right ln = ?nl \<or> right ln \<in> set_tree tb" using rep_root [OF ln(5)] by auto
  have cdom: "right ln \<noteq> NULL" "\<exists>cn. ?h (right ln) = Some cn"
    using c w(3,5) sub rep_in_dom [OF w(1), of "right ln"] by auto
  have pout: "parent n \<notin> set_tree (Node (Node ta l tb) x r0)"
    using rep_parent_notin_subtree [OF w(1,2,4) assms(2) n(1)] n(3) l0 by simp
  have xlc: "distinct [x, l, right ln]"
    using c dsub ln(3) w(4) assms(2) by auto
  let ?h1 = "rotR_links x l (right ln) (parent n) ?h"
  let ?h2 = "if ?rt = x then ?h1 else relink (parent n) x l ?h1"
  let ?s' = "(if ?rt = x then set_root l s else s)\<lparr>mem := ?h2\<rparr>"
  have "?rt \<noteq> x \<Longrightarrow> parent n \<noteq> NULL \<and> ?h (parent n) \<noteq> None"
    using n(5) rep_in_dom [OF w(1), of "parent n"] by auto
  then have ev: "right_rotation s x = Inr ?s'"
    using right_rotation_eval [OF w(6) n(1,2) ln(1,2,3,4) refl cdom(1), of _ "parent n"] cdom(2) by auto
  have "rotated ?h ?h2 x l (right ln) (parent n) \<and> (?rt \<noteq> x \<longrightarrow> relinked ?h ?h2 x l (parent n))"
  proof (cases "?rt = x")
    case True
    then show ?thesis
      using xlc pout by (auto intro!: rotated_rotR_links)
  next
    case False
    moreover have "parent n \<noteq> right ln"
      using n(5) False pout c w(4) by auto
    ultimately show ?thesis
      using xlc pout rotated_relink [of x l "right ln" "parent n" ?h] by auto
  qed
  then have "rep ?h2 ?nl ?nl (if ?rt = x then l else ?rt) (rotate_right_at x t)"
    using n l0 ln w(1,2,4) assms(2)
    by (intro rep_rotate_right [of ?h ?nl ?nl ?rt t x ta l tb r0 n ln]) auto
  moreover have sc: "same_colors s ?s'"
    using okE_D [OF right_rotation_colors ev] .
  moreover from this have "?h2 ?nl \<noteq> None"
    using w(5) domIff [of ?nl ?h2] domIff [of ?nl ?h]
    by (auto simp: same_colors_def same_payload_def)
  ultimately have "wf_tree ?s' (rotate_right_at x t)"
    using w(2,3) by (auto simp: wf_tree_def)
  with ev sc show ?thesis by blast
qed


lemma right_rotation_asserts:
  assumes "wf_tree s t" and "x \<in> set_tree t" and "left_of (subtree_at x t) = Leaf"
  shows "right_rotation s x = Inl AssertFailed"
  by (rule wf_node [OF assms(1,2)])
    (use assms(3) wf_treeD(6) [OF assms(1)] in \<open>auto simp: right_rotation_def\<close>)

section \<open>Left rotation\<close>

lemma left_rotation_asserts:
  assumes "wf_tree s t" and "x \<in> set_tree t" and "right_of (subtree_at x t) = Leaf"
  shows "left_rotation s x = Inl AssertFailed"
  by (rule wf_node [OF assms(1,2)])
    (use assms(3) wf_treeD(6) [OF assms(1)] in \<open>auto simp: left_rotation_def\<close>)

definition cycled :: "heap \<Rightarrow> ptr \<Rightarrow> ptr \<Rightarrow> bool" where
  "cycled h x l \<longleftrightarrow>
     (case (h x, h l) of (Some n, Some m) \<Rightarrow> left n = l \<and> left m = x | _ \<Rightarrow> False)"

lemma cycled_no_tree:
  assumes "cycled h x l" and "l \<noteq> nl" and "x \<noteq> nl" shows "\<not> rep h nl par x t"
proof
  assume r: "rep h nl par x t"
  obtain n m where nm: "h x = Some n" "h l = Some m" "left n = l" "left m = x"
    using assms(1) by (auto simp: cycled_def split: option.splits)
  obtain tl tr where t: "t = Node tl x tr" "rep h nl x l tl"
    using r assms(3) nm by (cases t) auto
  obtain a b where tl: "tl = Node a l b" "rep h nl l x a"
    using t(2) assms(2) nm by (cases tl) auto
  then have "a = t" using r rep_unique by blast
  then have "size t < size t" using t(1) tl(1) by simp
  then show False by simp
qed

lemma left_rotation_cycles:
  assumes "wf_tree s t" and "x \<in> set_tree t"
    and "left_of (subtree_at x t) \<noteq> Leaf" and "right_of (subtree_at x t) \<noteq> Leaf"
  shows "\<exists>s' l. left_rotation s x = Inr s' \<and> cycled (mem s') x l \<and> l \<noteq> nil (tree s')"
proof -
  note w = wf_treeD [OF assms(1)]
  let ?h = "mem s" and ?nl = "nil (tree s)" and ?rt = "root (tree s)"
  obtain n l0 r0 where n: "?h x = Some n" "x \<noteq> NULL" "subtree_at x t = Node l0 x r0"
      "rep ?h ?nl x (left n) l0" "rep ?h ?nl x (right n) r0" "x \<noteq> ?rt \<Longrightarrow> parent n \<in> set_tree t"
    using wf_node [OF assms(1,2)] by metis
  obtain ta l tb where l0: "l0 = Node ta l tb" using assms(3) n(3) by (cases l0) auto
  then obtain ln where ln: "left n = l" "l \<noteq> NULL" "l \<noteq> ?nl" "?h l = Some ln"
      "rep ?h ?nl l (left ln) ta"
    using n(4) by (auto split: option.splits)
  have rn: "right n \<noteq> NULL" "right n \<noteq> ?nl"
    using n(3,5) assms(4) by (cases r0; auto)+
  have sub: "set_tree (Node (Node ta l tb) x r0) \<subseteq> set_tree t"
    using set_subtree_at [of x t] n(3) l0 by simp
  have dsub: "distinct (inorder (Node (Node ta l tb) x r0))"
    using distinct_subtree_at [OF w(2), of x] n(3) l0 by simp
  have c: "left ln = ?nl \<or> left ln \<in> set_tree ta" using rep_root [OF ln(5)] by auto
  have cdom: "left ln \<noteq> NULL" "?h (left ln) \<noteq> None"
    using c w(3,5) sub rep_in_dom [OF w(1), of "left ln"] by auto
  have pout: "parent n \<notin> set_tree (Node (Node ta l tb) x r0)"
    using rep_parent_notin_subtree [OF w(1,2,4) assms(2) n(1)] n(3) l0 by simp
  have pdom: "?rt \<noteq> x \<Longrightarrow> parent n \<noteq> NULL \<and> ?h (parent n) \<noteq> None"
    using n(6) rep_in_dom [OF w(1), of "parent n"] by auto
  have xlc: "distinct [x, l, left ln]"
    using c dsub ln(3) w(4) assms(2) by auto
  let ?h1 = "hput l (\<lambda>m. m\<lparr>parent := parent n\<rparr>) (hput x (\<lambda>m. m\<lparr>right := left ln\<rparr>)
      (hput l (\<lambda>m. m\<lparr>left := x\<rparr>) ?h))"
  have ok: "\<And>p f s. p \<noteq> NULL \<Longrightarrow> mem s p \<noteq> None \<Longrightarrow> put p f s = Inr (s\<lparr>mem := hput p f (mem s)\<rparr>)"
    by (auto simp: put_def hput_def get_def)
  have dom: "\<And>p f h q. hput p f h q = None \<longleftrightarrow> h q = None"
    by (simp add: hput_apply)
  have h1: "?h1 x = Some (n\<lparr>right := left ln\<rparr>)" "?h1 l = Some (ln\<lparr>left := x, parent := parent n\<rparr>)"
    using n(1) ln(4) xlc by (simp_all add: hput_apply)
  have mid: "\<exists>s2. (if ?rt = x then Inr (set_root l (s\<lparr>mem := ?h1\<rparr>))
      else bindE (get (s\<lparr>mem := ?h1\<rparr>) (parent n)) (\<lambda>pn.
        if left pn = x then put (parent n) (\<lambda>m. m\<lparr>left := l\<rparr>) (s\<lparr>mem := ?h1\<rparr>)
        else if right pn = x then put (parent n) (\<lambda>m. m\<lparr>right := x\<rparr>) (s\<lparr>mem := ?h1\<rparr>)
        else Inr (s\<lparr>mem := ?h1\<rparr>))) = Inr s2 \<and>
      mem s2 x = ?h1 x \<and> mem s2 l = ?h1 l \<and> nil (tree s2) = ?nl \<and> (\<forall>q. mem s2 q = None \<longleftrightarrow> ?h q = None)"
    (is "\<exists>s2. ?m = Inr s2 \<and> ?P s2")
  proof (cases "?rt = x")
    case True
    then show ?thesis by (simp add: dom)
  next
    case False
    with pdom dom obtain pn where "?h1 (parent n) = Some pn" "parent n \<noteq> NULL"
      by (metis not_None_eq)
    then show ?thesis
      using False pout by (auto simp: ok dom hput_apply)
  qed
  then obtain s2 where s2: "?m = Inr s2" "?P s2" by blast
  let ?s' = "s2\<lparr>mem := hput (left ln) (\<lambda>m. m\<lparr>parent := x\<rparr>) (hput x (\<lambda>m. m\<lparr>parent := l\<rparr>) (mem s2))\<rparr>"
  have "left_rotation s x = bindE ?m (\<lambda>s. bindE (put x (\<lambda>m. m\<lparr>parent := l\<rparr>) s)
      (put (left ln) (\<lambda>m. m\<lparr>parent := x\<rparr>)))"
    using n(1,2) ln(1,2,4) rn w(6) by (simp add: left_rotation_def Let_def ok dom cong: if_cong)
  also have "\<dots> = Inr ?s'"
    unfolding s2(1) using s2(2) n(1,2) cdom by (simp add: ok dom)
  finally have "left_rotation s x = Inr ?s'" .
  moreover have m2: "mem s2 x = Some (n\<lparr>right := left ln\<rparr>)"
      "mem s2 l = Some (ln\<lparr>left := x, parent := parent n\<rparr>)"
    using s2(2) unfolding h1 by blast+
  moreover have "cycled (mem ?s') x l"
    using xlc ln(1) by (simp add: cycled_def hput_apply m2)
  ultimately show ?thesis using ln(3) s2(2) by auto
qed


section \<open>Insertion\<close>

text \<open>A node the caller has prepared: allocated, outside the tree, both children set to the sentinel.\<close>

definition fresh_node :: "rb_state \<Rightarrow> ptr tree \<Rightarrow> ptr \<Rightarrow> bool" where
  "fresh_node s t x \<longleftrightarrow>
     x \<noteq> NULL \<and> x \<noteq> nil (tree s) \<and> x \<notin> set_tree t \<and>
     (case mem s x of None \<Rightarrow> False
      | Some n \<Rightarrow> left n = nil (tree s) \<and> right n = nil (tree s))"

text \<open>The tree that the insertion leaves: the new node takes the place of a whole child of the root.\<close>

definition attach_at_root :: "heap \<Rightarrow> ptr \<Rightarrow> ptr tree \<Rightarrow> ptr tree" where
  "attach_at_root h x t =
     (case t of Leaf \<Rightarrow> Leaf
      | Node l r0 r \<Rightarrow>
          if key_at h r0 > key_at h x then Node (Node Leaf x Leaf) r0 r
          else if key_at h r0 < key_at h x then Node l r0 (Node Leaf x Leaf)
          else t)"

lemma insert_walk_fresh:
  assumes "wf_tree s t" and "t \<noteq> Leaf" and "fresh_node s t x"
  shows "insert_walk s x None (root (tree s)) =
    Some (Inr (if key_at (mem s) (root (tree s)) = key_at (mem s) x then Duplicate
               else AttachAt (Some (root (tree s)))))"
proof -
  note w = wf_treeD [OF assms(1)]
  obtain n where n: "mem s x = Some n" "left n = nil (tree s)" "right n = nil (tree s)" "x \<noteq> NULL"
    using assms(3) by (auto simp: fresh_node_def split: option.splits)
  obtain rn where rn: "mem s (root (tree s)) = Some rn" "root (tree s) \<noteq> nil (tree s)"
    using rep_in_dom [OF w(1) w(7) [OF assms(2)]] by auto
  have "insert_walk s x (Some p) (nil (tree s)) = Some (Inr (AttachAt (Some p)))" for p
    by (subst insert_walk.simps) simp
  then show ?thesis
    using n rn w(6) by (subst insert_walk.simps) (auto simp: key_at_def)
qed

lemma insert_attach_fresh:
  assumes "wf_tree s (Node l r0 r)" and "fresh_node s (Node l r0 r) x"
    and "key_at (mem s) r0 \<noteq> key_at (mem s) x"
  shows "\<exists>s' n'. insert_attach s x (Some r0) = Inr s' \<and>
    wf_tree s' (attach_at_root (mem s) x (Node l r0 r)) \<and> same_payload s s' \<and>
    color_at (mem s') = (color_at (mem s))(x := color_byte Red) \<and>
    mem s' x = Some n' \<and> parent n' = r0 \<and> root (tree s') = r0"
proof -
  note w = wf_treeD [OF assms(1)]
  let ?nl = "nil (tree s)" and ?h = "mem s"
  obtain n where n: "?h x = Some n" "x \<noteq> NULL" "x \<noteq> ?nl" "x \<notin> set_tree (Node l r0 r)"
    using assms(2) by (auto simp: fresh_node_def split: option.splits)
  obtain rn where rn: "?h r0 = Some rn" "root (tree s) = r0" "r0 \<noteq> ?nl" "r0 \<noteq> NULL"
      "rep ?h ?nl r0 (left rn) l" "rep ?h ?nl r0 (right rn) r" "parent rn = ?nl"
    using w(1) by (auto split: option.splits)
  have ne: "x \<noteq> r0" using n(4) by auto
  define rn' where "rn' = (if key_at ?h r0 > key_at ?h x then rn\<lparr>left := x\<rparr> else rn\<lparr>right := x\<rparr>)"
  define n' where "n' = n\<lparr>parent := r0, left := ?nl, right := ?nl, color := color_byte Red\<rparr>"
  define h' where "h' = ?h(r0 \<mapsto> rn', x \<mapsto> n')"
  have put: "put p f s = Inr (s\<lparr>mem := (mem s)(p \<mapsto> f m)\<rparr>)"
    if "p \<noteq> NULL" "mem s p = Some m" for p f s m
    using that by (simp add: put_def)
  have ev: "insert_attach s x (Some r0) = Inr (s\<lparr>mem := h'\<rparr>)"
    using n rn ne assms(3)
    by (auto simp: insert_attach_def put key_at_def h'_def rn'_def n'_def
        simp del: put_ok split: if_splits)
  have fl: "rep h' ?nl r0 (left rn) l" "rep h' ?nl r0 (right rn) r"
    using rn(5,6) n(4) w(2)
    by (subst rep_frame [where h = ?h]; auto simp: h'_def)+
  have "rep h' ?nl ?nl r0 (attach_at_root ?h x (Node l r0 r))"
    using fl n rn ne assms(3)
    by (auto simp: attach_at_root_def h'_def rn'_def n'_def split: if_splits)
  moreover have "distinct (inorder (attach_at_root ?h x (Node l r0 r)))"
    using w(2) n(4) by (auto simp: attach_at_root_def)
  moreover have "h' ?nl \<noteq> None" using w(5) n(3) rn(3) by (auto simp: h'_def)
  ultimately have "wf_tree (s\<lparr>mem := h'\<rparr>) (attach_at_root ?h x (Node l r0 r))"
    using w(3) rn(2) by (simp add: wf_tree_def)
  moreover have "same_payload s (s\<lparr>mem := h'\<rparr>)"
    using n(1) rn(1) by (auto simp: same_payload_def h'_def key_at_def rn'_def n'_def)
  moreover have "color_at h' = (color_at ?h)(x := color_byte Red)"
    using n(1) rn(1) ne by (auto simp: h'_def color_at_def rn'_def n'_def)
  ultimately show ?thesis
    using ev rn(2) by (auto simp: h'_def n'_def)
qed

lemma insert_at_root:
  assumes "wf_tree s t" and "t \<noteq> Leaf" and "fresh_node s t x"
    and "color_at (mem s) (root (tree s)) = color_byte Black"
  shows "\<exists>s'. rbtree_insert s x = Some (Inr s') \<and> wf_tree s' (attach_at_root (mem s) x t) \<and>
           same_payload s s'"
proof -
  obtain l r0 r where t: "t = Node l r0 r" using assms(2) by (cases t) auto
  then have r0: "root (tree s) = r0" using wf_treeD(1) [OF assms(1)] by simp
  show ?thesis
  proof (cases "key_at (mem s) r0 = key_at (mem s) x")
    case True
    then show ?thesis
      using insert_walk_fresh [OF assms(1-3)] assms(1) t r0
      by (auto simp: rbtree_insert_def attach_at_root_def)
  next
    case False
    obtain s' n' where s': "insert_attach s x (Some r0) = Inr s'"
        "wf_tree s' (attach_at_root (mem s) x t)" "same_payload s s'"
        "color_at (mem s') = (color_at (mem s))(x := color_byte Red)"
        "mem s' x = Some n'" "parent n' = r0" "root (tree s') = r0"
      using insert_attach_fresh [of s l r0 r x] assms(1,3) t False by auto
    have x: "x \<noteq> NULL" "x \<noteq> r0" using assms(3) t by (auto simp: fresh_node_def)
    have "r0 \<in> set_tree (attach_at_root (mem s) x t)"
      using t by (auto simp: attach_at_root_def)
    then obtain rn where rn: "mem s' r0 = Some rn" "r0 \<noteq> NULL"
      using wf_node [OF s'(2)] by metis
    have "color rn = color_byte Black"
      using fun_cong [OF s'(4), of r0] assms(4) r0 x rn by (simp add: color_at_def)
    then have "rbtree_insert_fixup s' x = Some (Inr s')"
      using s'(5,6) x rn by (simp add: rbtree_insert_fixup_def fixup_loop.simps)
    then show ?thesis
      using insert_walk_fresh [OF assms(1-3)] s' r0 False by (simp add: rbtree_insert_def)
  qed
qed


lemma attach_at_root_keys:
  assumes "same_payload s s'" and "search_tree s t" and "t = Node l r0 r"
    and "key_at (mem s) x < key_at (mem s) r0 \<Longrightarrow> l = Leaf"
    and "key_at (mem s) r0 < key_at (mem s) x \<Longrightarrow> r = Leaf"
  shows "search_tree s' (attach_at_root (mem s) x t) \<and>
    set (tree_keys (mem s') (attach_at_root (mem s) x t)) =
      insert (key_at (mem s) x) (set (tree_keys (mem s) t))"
proof -
  have k: "key_at (mem s') = key_at (mem s)" using assms(1) by (simp add: same_payload_def)
  consider "key_at (mem s) x < key_at (mem s) r0" "l = Leaf"
    | "key_at (mem s) r0 < key_at (mem s) x" "r = Leaf"
    | "key_at (mem s) x = key_at (mem s) r0"
    using assms(4,5) by fastforce
  then show ?thesis
    by cases
      (use assms(2) in \<open>auto simp: k assms(3) search_tree_def tree_keys_def attach_at_root_def
        sorted_wrt_append\<close>)
qed

lemma insert_walk_spins:
  assumes "insert_walk s x pre cur = Some r"
  shows "cur \<noteq> p \<or> p = nil (tree s) \<or> get s p \<noteq> Inr pn \<or> get s x \<noteq> Inr n \<or>
         left n \<noteq> p \<or> sint (key pn) \<le> sint (key n)"
proof (rule insert_walk.raw_induct [where P = "\<lambda>s x pre cur r.
      cur \<noteq> p \<or> p = nil (tree s) \<or> get s p \<noteq> Inr pn \<or> get s x \<noteq> Inr n \<or>
      left n \<noteq> p \<or> sint (key pn) \<le> sint (key n)", OF _ assms])
  fix f s x pre cur r
  assume IH: "\<And>s x pre cur r. f s x pre cur = Some r \<Longrightarrow>
        cur \<noteq> p \<or> p = nil (tree s) \<or> get s p \<noteq> Inr pn \<or> get s x \<noteq> Inr n \<or>
        left n \<noteq> p \<or> sint (key pn) \<le> sint (key n)"
    and eq: "(if cur = nil (tree s) then Some (Inr (AttachAt pre))
      else case get s cur of Inl e \<Rightarrow> Some (Inl e) | Inr c \<Rightarrow>
        (case get s x of Inl e \<Rightarrow> Some (Inl e) | Inr n \<Rightarrow>
           (if sint (key c) > sint (key n) then f s x (Some cur) (left n)
            else if sint (key c) < sint (key n) then f s x (Some cur) (right n)
            else Some (Inr Duplicate)))) = Some r"
  show "cur \<noteq> p \<or> p = nil (tree s) \<or> get s p \<noteq> Inr pn \<or> get s x \<noteq> Inr n \<or>
        left n \<noteq> p \<or> sint (key pn) \<le> sint (key n)"
  proof (rule ccontr)
    assume "\<not> ?thesis"
    then have *: "cur = p" "p \<noteq> nil (tree s)" "get s p = Inr pn" "get s x = Inr n"
        "left n = p" "sint (key n) < sint (key pn)" by auto
    then have "f s x (Some cur) p = Some r" using eq by simp
    from IH [OF this] * show False by auto
  qed
qed

lemma fixup_loop_payload:
  assumes "fixup_loop g c = Some (Inr s')" shows "same_payload (fst c) s'"
proof -
  have "\<forall>s'. r = Inr s' \<longrightarrow> same_payload (fst c) s'" if "fixup_loop g c = Some r" for r
  proof (rule fixup_loop.raw_induct [where P = "\<lambda>g c r. \<forall>s'. r = Inr s' \<longrightarrow> same_payload (fst c) s'", OF _ that])
    fix f g c r
    assume IH: "\<And>g c r. f g c = Some r \<Longrightarrow> \<forall>s'. r = Inr s' \<longrightarrow> same_payload (fst c) s'"
      and eq: "(case get (fst c) (snd (snd c)) of Inl e \<Rightarrow> Some (Inl e)
        | Inr p \<Rightarrow> if color p = color_byte Red
                   then case fixup_body g c of Inl e \<Rightarrow> Some (Inl e) | Inr c' \<Rightarrow> f g c'
                   else Some (Inr (fst c))) = Some r"
    show "\<forall>s'. r = Inr s' \<longrightarrow> same_payload (fst c) s'"
    proof (cases "fixup_body g c")
      case (Inr c')
      obtain s x p where c: "c = (s, x, p)" by (cases c)
      have "same_payload (fst c) (fst c')"
        using okE_D [OF fixup_body_payload Inr [unfolded c]] c by (cases c') auto
      then show ?thesis
        using eq Inr IH [of g c' r] by (auto split: sum.splits if_splits intro: same_payload_trans)
    qed (use eq in \<open>auto split: sum.splits if_splits\<close>)
  qed
  with assms show ?thesis by blast
qed

lemma insert_attach_payload: "okE (insert_attach s x pre) (same_payload s)"
  unfolding insert_attach_def
  by (auto intro!: okE_bind_payload okE_put_payload okE_if okE_Inr okE_Inl okE_bind_node
      split: option.splits)

lemma rbtree_insert_payload:
  "rbtree_insert s x = Some (Inr s') \<Longrightarrow> same_payload s s'"
  using okE_D [OF insert_attach_payload]
  by (fastforce simp: rbtree_insert_def rbtree_insert_fixup_def
      split: option.splits sum.splits walk.splits dest: fixup_loop_payload
      intro: same_payload_trans)

end
