(* ===== verification/RBTreeClaims.thy ===== *)
theory RBTreeClaims
  imports RBTreeSpec
begin

text \<open>
  The properties of \<^verbatim>\<open>rbtree.c\<close>, each with a run on a concrete five-node store.
\<close>

section \<open>A concrete store\<close>

definition demo_node :: "ptr \<Rightarrow> ptr \<Rightarrow> ptr \<Rightarrow> Color \<Rightarrow> i32 \<Rightarrow> rbtree_node" where
  "demo_node l r p c k = \<lparr>left = l, right = r, parent = p, color = color_byte c, key = k, val = NULL\<rparr>"

text \<open>The sentinel is 1; the tree is 10 at 3 and 30 at 4 below 20 at 2, with 5 at 5 below 10 and
  40 at 6 below 30; 7, 8 and 9 are nodes to insert.\<close>

definition demo :: rb_state where
  "demo = \<lparr>tree = \<lparr>root = 2, nil = 1\<rparr>, mem =
     [1 \<mapsto> demo_node 1 1 1 Black 0, 2 \<mapsto> demo_node 3 4 1 Black 20,
      3 \<mapsto> demo_node 5 1 2 Black 10, 4 \<mapsto> demo_node 1 6 2 Black 30,
      5 \<mapsto> demo_node 1 1 3 Red 5, 6 \<mapsto> demo_node 1 1 4 Red 40,
      7 \<mapsto> demo_node 1 1 0 Black 25, 8 \<mapsto> demo_node 0 0 0 Black 25,
      9 \<mapsto> demo_node 4 4 0 Black 15]\<rparr>"

definition demo_tree :: "ptr tree" where
  "demo_tree = Node (Node (Node Leaf 5 Leaf) 3 Leaf) 2 (Node Leaf 4 (Node Leaf 6 Leaf))"

text \<open>The same store with a root and no children, and with no tree at all.\<close>

definition demo_single :: rb_state where
  "demo_single = demo\<lparr>mem := (mem demo)(2 \<mapsto> demo_node 1 1 1 Black 20)\<rparr>"

definition demo_empty :: rb_state where
  "demo_empty = demo\<lparr>tree := \<lparr>root = 1, nil = 1\<rparr>\<rparr>"

lemmas demo_simps = demo_def demo_tree_def demo_node_def demo_single_def demo_empty_def

lemma demo_wf: "wf_tree demo demo_tree"
  by (simp add: wf_tree_def demo_simps)

lemma demo_single_wf: "wf_tree demo_single (Node Leaf 2 Leaf)"
  by (simp add: wf_tree_def demo_simps)

lemma demo_fresh: "fresh_node demo demo_tree 7" "fresh_node demo_single (Node Leaf 2 Leaf) 7"
  by (simp_all add: fresh_node_def demo_simps)

lemma demo_facts:
  "color_at (mem demo) 2 = color_byte Black" "key_at (mem demo) 2 = 20" "key_at (mem demo) 7 = 25"
  "root (tree demo) = 2" "nil (tree demo) = 1" "color_at (mem demo) (Suc 0) = color_byte Black"
  by (simp_all add: demo_simps color_at_def key_at_def)

section \<open>Rotations\<close>

text \<open>
  C1: a right rotation at any node of a well-formed tree that has a left child returns, and
  the store then represents exactly the rotated tree, with every parent link right; no key and
  no colour changes and the sentinel stays the sentinel.
\<close>

theorem right_rotation_refines:
  assumes "wf_tree s t" and "x \<in> set_tree t" and "left_of (subtree_at x t) \<noteq> Leaf"
  shows "\<exists>s'. right_rotation s x = Inr s' \<and> wf_tree s' (rotate_right_at x t) \<and> same_colors s s'"
  using assms by (rule rotation_refines)

lemma right_rotation_refines_witness:
  "left_of (subtree_at 3 demo_tree) \<noteq> Leaf \<and>
   (\<exists>s'. right_rotation demo 3 = Inr s' \<and>
      wf_tree s' (Node (Node Leaf 5 (Node Leaf 3 Leaf)) 2 (Node Leaf 4 (Node Leaf 6 Leaf))) \<and>
      same_colors demo s')"
  using right_rotation_refines [OF demo_wf, of 3] by (simp add: demo_tree_def)

text \<open>
  a right rotation keeps the sequence of keys, so a search tree stays a search tree
  with the same keys; at a node with no left child it stops at the assertion instead.
\<close>

theorem right_rotation_keeps_keys:
  assumes "wf_tree s t" and "x \<in> set_tree t"
  shows "case right_rotation s x of
           Inl e \<Rightarrow> e = AssertFailed \<and> left_of (subtree_at x t) = Leaf
         | Inr s' \<Rightarrow> \<exists>t'. wf_tree s' t' \<and> tree_keys (mem s') t' = tree_keys (mem s) t \<and>
                     (search_tree s' t' \<longleftrightarrow> search_tree s t)"
proof (cases "left_of (subtree_at x t) = Leaf")
  case True
  then show ?thesis using right_rotation_asserts [OF assms] by simp
next
  case False
  then show ?thesis
    using rotation_refines [OF assms False]
    by (fastforce simp: same_colors_def same_payload_def tree_keys_def search_tree_def)
qed

lemma right_rotation_keeps_keys_witness:
  "case right_rotation demo 2 of
     Inl e \<Rightarrow> e = AssertFailed \<and> left_of (subtree_at 2 demo_tree) = Leaf
   | Inr s' \<Rightarrow> \<exists>t'. wf_tree s' t' \<and> tree_keys (mem s') t' = tree_keys (mem demo) demo_tree \<and>
               (search_tree s' t' \<longleftrightarrow> search_tree demo demo_tree)"
  by (rule right_rotation_keeps_keys [OF demo_wf]) (simp add: demo_tree_def)

lemma left_rotation_no_tree:
  assumes "wf_tree s t" and "x \<in> set_tree t"
    and "left_of (subtree_at x t) \<noteq> Leaf" and "right_of (subtree_at x t) \<noteq> Leaf"
  shows "\<exists>s' l. left_rotation s x = Inr s' \<and> cycled (mem s') x l \<and>
           (\<forall>par t'. \<not> rep (mem s') (nil (tree s')) par x t')"
proof -
  obtain s' l where s': "left_rotation s x = Inr s'" "cycled (mem s') x l" "l \<noteq> nil (tree s')"
    using left_rotation_cycles [OF assms] by blast
  have "nil (tree s') = nil (tree s)"
    using okE_D [OF left_rotation_colors s'(1)] by (simp add: same_colors_def same_payload_def)
  then have "x \<noteq> nil (tree s')" using wf_treeD(4) [OF assms(1)] assms(2) by auto
  with s' show ?thesis using cycled_no_tree by blast
qed

text \<open>
  a left rotation at a node with two children returns with the node and its left child
  pointing at each other, so the store holds no finite tree there any more.
\<close>

theorem left_rotation_destroys:
  assumes "wf_tree s t" and "x \<in> set_tree t"
    and "left_of (subtree_at x t) \<noteq> Leaf" and "right_of (subtree_at x t) \<noteq> Leaf"
  shows "\<exists>s' l. left_rotation s x = Inr s' \<and> cycled (mem s') x l \<and>
           (\<forall>par t'. \<not> rep (mem s') (nil (tree s')) par x t')"
  using assms by (rule left_rotation_no_tree)

lemma left_rotation_destroys_witness:
  "\<exists>s' l. left_rotation demo 2 = Inr s' \<and> cycled (mem s') 2 l \<and>
     (\<forall>par t'. \<not> rep (mem s') (nil (tree s')) par 2 t')"
  by (rule left_rotation_destroys [OF demo_wf]) (simp_all add: demo_tree_def)

section \<open>Insertion\<close>

text \<open>
  inserting a prepared node into a non-empty tree with a black root always returns, and
  the resulting tree is the old one with the whole left (or right) child of the root replaced by
  the new node, or the old tree when the key is the root's.
\<close>

theorem rbtree_insert_at_root:
  assumes "wf_tree s t" and "t \<noteq> Leaf" and "fresh_node s t x"
    and "color_at (mem s) (root (tree s)) = color_byte Black"
  shows "\<exists>s'. rbtree_insert s x = Some (Inr s') \<and> wf_tree s' (attach_at_root (mem s) x t)"
  using insert_at_root [OF assms] by blast

lemma rbtree_insert_at_root_witness:
  "\<exists>s'. rbtree_insert demo 7 = Some (Inr s') \<and>
     wf_tree s' (Node (Node (Node Leaf 5 Leaf) 3 Leaf) 2 (Node Leaf 7 Leaf))"
proof -
  have "attach_at_root (mem demo) 7 demo_tree =
      Node (Node (Node Leaf 5 Leaf) 3 Leaf) 2 (Node Leaf 7 Leaf)"
    by (simp add: attach_at_root_def demo_simps key_at_def)
  then show ?thesis
    using rbtree_insert_at_root [OF demo_wf _ demo_fresh(1)]
    by (simp add: demo_tree_def color_at_def) (simp add: demo_simps)
qed

text \<open>
  where the child of the root that the insertion replaces is empty, the insertion does what
  it is meant to: the result is a search tree with exactly the new key added.
\<close>

theorem rbtree_insert_adds_key:
  assumes "wf_tree s (Node l r0 r)" and "fresh_node s (Node l r0 r) x"
    and "color_at (mem s) r0 = color_byte Black" and "search_tree s (Node l r0 r)"
    and "key_at (mem s) x < key_at (mem s) r0 \<Longrightarrow> l = Leaf"
    and "key_at (mem s) r0 < key_at (mem s) x \<Longrightarrow> r = Leaf"
  shows "\<exists>s' t'. rbtree_insert s x = Some (Inr s') \<and> wf_tree s' t' \<and> search_tree s' t' \<and>
           set (tree_keys (mem s') t') =
             insert (key_at (mem s) x) (set (tree_keys (mem s) (Node l r0 r)))"
proof -
  have "root (tree s) = r0" using wf_treeD(1) [OF assms(1)] by simp
  then obtain s' where s': "rbtree_insert s x = Some (Inr s')" "same_payload s s'"
      "wf_tree s' (attach_at_root (mem s) x (Node l r0 r))"
    using insert_at_root [OF assms(1) _ assms(2)] assms(3) by auto
  with attach_at_root_keys [OF s'(2) assms(4) refl assms(5,6)] show ?thesis by blast
qed

lemma rbtree_insert_adds_key_witness:
  "\<exists>s' t'. rbtree_insert demo_single 7 = Some (Inr s') \<and> wf_tree s' t' \<and> search_tree s' t' \<and>
     set (tree_keys (mem s') t') =
       insert (key_at (mem demo_single) 7) (set (tree_keys (mem demo_single) (Node Leaf 2 Leaf)))"
  by (rule rbtree_insert_adds_key [OF demo_single_wf demo_fresh(2)])
    (simp_all add: color_at_def search_tree_def tree_keys_def demo_simps)

text \<open>
  C2: into a tree whose root is black, a node that is not in it and whose links are the sentinel is
  inserted at the root, whatever is there: with a larger key than the root's it becomes the right child and
  no node of the right subtree is in the tree any more, with a smaller one the same on the left, and with
  an equal key nothing changes. The keys of all nodes stay as
  they are, and none is allocated or freed.
\<close>

theorem rbtree_insert_drops_subtree:
  assumes "wf_tree s (Node l r0 r)" and "fresh_node s (Node l r0 r) x"
    and "color_at (mem s) r0 = color_byte Black"
  shows "\<exists>s' t'. rbtree_insert s x = Some (Inr s') \<and> wf_tree s' t' \<and> same_payload s s' \<and>
    (if key_at (mem s) r0 < key_at (mem s) x
     then t' = Node l r0 (Node Leaf x Leaf) \<and> set_tree t' \<inter> set_tree r = {}
     else if key_at (mem s) x < key_at (mem s) r0
     then t' = Node (Node Leaf x Leaf) r0 r \<and> set_tree t' \<inter> set_tree l = {}
     else t' = Node l r0 r \<and> s' = s)"
proof (cases "key_at (mem s) r0 = key_at (mem s) x")
  case True
  have "root (tree s) = r0" using wf_treeD(1) [OF assms(1)] by simp
  then have "rbtree_insert s x = Some (Inr s)"
    using insert_walk_fresh [OF assms(1) _ assms(2)] True by (simp add: rbtree_insert_def)
  then show ?thesis using True assms(1) by (auto simp: same_payload_def split: option.splits)
next
  case False
  have r0: "root (tree s) = r0" using wf_treeD(1) [OF assms(1)] by simp
  have "x \<notin> set_tree (Node l r0 r)" using assms(2) by (auto simp: fresh_node_def)
  moreover have "distinct (inorder (Node l r0 r))" using wf_treeD(2) [OF assms(1)] .
  moreover obtain s' where "rbtree_insert s x = Some (Inr s')"
      "wf_tree s' (attach_at_root (mem s) x (Node l r0 r))" "same_payload s s'"
    using insert_at_root [OF assms(1) _ assms(2)] assms(3) r0 by auto
  ultimately show ?thesis using False
    by (intro exI [of _ s'] exI [of _ "attach_at_root (mem s) x (Node l r0 r)"]) (auto simp: attach_at_root_def)
qed

lemma rbtree_insert_drops_subtree_witness:
  "\<exists>s'. rbtree_insert demo 7 = Some (Inr s') \<and>
     wf_tree s' (Node (Node (Node Leaf 5 Leaf) 3 Leaf) 2 (Node Leaf 7 Leaf)) \<and> same_payload demo s'"
  using rbtree_insert_drops_subtree [OF demo_wf [unfolded demo_tree_def] demo_fresh(1) [unfolded demo_tree_def]]
  by (auto simp: demo_facts)

text \<open>
  inserting into an empty tree reads the variable \<open>pre\<close> before anything was assigned to it;
  inserting a node whose links are null instead of the sentinel dereferences a null pointer
  as soon as the tree is not empty and the keys differ.
\<close>

theorem rbtree_insert_faults:
  "(root (tree s) = nil (tree s) \<longrightarrow> rbtree_insert s x = Some (Inl UninitRead)) \<and>
   (root (tree s) \<noteq> nil (tree s) \<and> nil (tree s) \<noteq> NULL \<and>
    get s (root (tree s)) = Inr rn \<and> get s x = Inr n \<and> left n = NULL \<and> right n = NULL \<and>
    sint (key rn) \<noteq> sint (key n) \<longrightarrow>
    rbtree_insert s x = Some (Inl NullDeref))"
proof -
  have "insert_walk s x p NULL = Some (Inl NullDeref)" if "nil (tree s) \<noteq> NULL" for p
    using that by (subst insert_walk.simps) (simp add: get_def)
  moreover have "insert_walk s x None (nil (tree s)) = Some (Inr (AttachAt None))"
    by (subst insert_walk.simps) simp
  ultimately show ?thesis
    by (auto simp: rbtree_insert_def insert_walk.simps [of s x None "root (tree s)"] insert_attach_def)
qed

lemma rbtree_insert_faults_witness:
  "rbtree_insert demo_empty 7 = Some (Inl UninitRead) \<and> rbtree_insert demo 8 = Some (Inl NullDeref)"
  using rbtree_insert_faults [of demo_empty 7]
    rbtree_insert_faults [of demo 8 "demo_node 3 4 1 Black 20" "demo_node 0 0 0 Black 25"]
  by (simp add: demo_simps get_def)

text \<open>
  the search loop moves along the links of the node being inserted, so a link to a node
  with a larger key (here the left link of a node below the root's key) makes it run for ever.
\<close>

theorem rbtree_insert_diverges:
  assumes "root (tree s) \<noteq> nil (tree s)" and "get s (root (tree s)) = Inr rn" and "get s x = Inr n"
    and "sint (key n) < sint (key rn)" and "left n = p" and "p \<noteq> nil (tree s)"
    and "get s p = Inr pn" and "sint (key n) < sint (key pn)"
  shows "rbtree_insert s x = None"
proof -
  have "insert_walk s x (Some (root (tree s))) p \<noteq> Some r" for r
    using insert_walk_spins [of s x _ p r p pn n] assms by auto
  then have "insert_walk s x (Some (root (tree s))) p = None"
    by (cases "insert_walk s x (Some (root (tree s))) p") auto
  then have "insert_walk s x None (root (tree s)) = None"
    using assms by (subst insert_walk.simps) simp
  then show ?thesis by (simp add: rbtree_insert_def)
qed

lemma rbtree_insert_diverges_witness: "rbtree_insert demo 9 = None"
  by (rule rbtree_insert_diverges [of demo "demo_node 3 4 1 Black 20" 9 "demo_node 4 4 0 Black 15" 4
        "demo_node 1 6 2 Black 30"]) (simp_all add: demo_simps get_def)

text \<open>
  on a well-formed tree with a black root the fix-up loop always stops, whatever node it
  is started at.
\<close>

theorem rbtree_insert_fixup_returns:
  assumes "wf_tree s t" and "x \<in> set_tree t"
    and "color_at (mem s) (root (tree s)) = color_byte Black"
    and "color_at (mem s) (nil (tree s)) = color_byte Black"
  shows "\<exists>r. rbtree_insert_fixup s x = Some r"
  using rbtree_insert_fixup_terminates [OF assms(1,2)] assms(3,4) by simp

lemma rbtree_insert_fixup_returns_witness: "\<exists>r. rbtree_insert_fixup demo 5 = Some r"
  by (rule rbtree_insert_fixup_returns [OF demo_wf])
    (simp_all add: demo_facts, simp add: demo_tree_def)

text \<open>
  whatever the store looks like and whatever path it takes, an insertion that returns has
  neither allocated nor freed a node, nor changed any key, nor moved the sentinel.
\<close>

theorem rbtree_insert_keeps_payload:
  assumes "rbtree_insert s x = Some (Inr s')"
  shows "dom (mem s') = dom (mem s) \<and> (\<forall>p. key_at (mem s') p = key_at (mem s) p) \<and>
         nil (tree s') = nil (tree s)"
  using rbtree_insert_payload [OF assms] by (simp add: same_payload_def)

lemma rbtree_insert_keeps_payload_witness:
  "\<exists>s'. rbtree_insert demo 7 = Some (Inr s') \<and> dom (mem s') = dom (mem demo) \<and>
     (\<forall>p. key_at (mem s') p = key_at (mem demo) p) \<and> nil (tree s') = nil (tree demo)"
proof -
  obtain s' where "rbtree_insert demo 7 = Some (Inr s')"
    using insert_at_root [OF demo_wf _ demo_fresh(1)] by (auto simp: demo_facts demo_tree_def)
  with rbtree_insert_keeps_payload [OF this] show ?thesis by blast
qed

end
