(* ===== verification/ByteOrder.thy ===== *)
theory ByteOrder
  imports CPrelude
begin

text \<open>
  Integers in memory. The programs run on little-endian machines (the BPF target is x86, the DPDK
  programs are built for the host), so the network-order conversions swap bytes. A buffer is a
  list of bytes; every access is checked against its length.
\<close>

section \<open>Bytes of a word\<close>

definition byte_at :: "nat \<Rightarrow> 'a::len word \<Rightarrow> u8" where
  "byte_at k x = ucast (drop_bit (8 * k) x)"

definition join16 :: "u8 \<Rightarrow> u8 \<Rightarrow> u16" where
  "join16 hi lo = push_bit 8 (ucast hi) OR ucast lo"

definition join32 :: "u8 \<Rightarrow> u8 \<Rightarrow> u8 \<Rightarrow> u8 \<Rightarrow> u32" where
  "join32 a b c d =
     push_bit 24 (ucast a) OR push_bit 16 (ucast b) OR push_bit 8 (ucast c) OR ucast d"

lemma byte_join16 [simp]: "byte_at 0 (join16 a b) = b" "byte_at (Suc 0) (join16 a b) = a"
  unfolding byte_at_def join16_def
  by (rule bit_word_eqI; auto simp: bit_simps dest: bit_imp_le_length)+

lemma byte_join32 [simp]:
  "byte_at 0 (join32 a b c d) = d" "byte_at (Suc 0) (join32 a b c d) = c"
  "byte_at 2 (join32 a b c d) = b" "byte_at 3 (join32 a b c d) = a"
  unfolding byte_at_def join32_def
  by (rule bit_word_eqI; auto simp: bit_simps dest: bit_imp_le_length)+

lemma join16_bytes [simp]: "join16 (byte_at (Suc 0) x) (byte_at 0 x) = x"
proof (rule bit_word_eqI)
  fix n assume "n < LENGTH(16)"
  then show "bit (join16 (byte_at (Suc 0) x) (byte_at 0 x)) n = bit x n"
    by (cases "n < 8") (auto simp: byte_at_def join16_def bit_simps)
qed

lemma join32_bytes [simp]:
  "join32 (byte_at 3 x) (byte_at 2 x) (byte_at (Suc 0) x) (byte_at 0 x) = x"
proof (rule bit_word_eqI)
  fix n assume "n < LENGTH(32)"
  then consider "n < 8" | "8 \<le> n" "n < 16" | "16 \<le> n" "n < 24" | "24 \<le> n" "n < 32"
    by fastforce
  then show "bit (join32 (byte_at 3 x) (byte_at 2 x) (byte_at (Suc 0) x) (byte_at 0 x)) n = bit x n"
    by cases (auto simp: byte_at_def join32_def bit_simps)
qed

lemma join16_inject: "join16 a b = join16 c d \<longleftrightarrow> a = c \<and> b = d"
  by (metis byte_join16)

lemma join32_inject: "join32 a b c d = join32 a' b' c' d' \<longleftrightarrow> a = a' \<and> b = b' \<and> c = c' \<and> d = d'"
  by (metis byte_join32)

lemma byte_at_mask: "ucast (drop_bit (8 * k) x AND 0xFF) = byte_at k (x :: u32)"
proof -
  have m: "(0xFF :: u32) = mask 8" by (simp add: mask_eq_exp_minus_1)
  show ?thesis
    unfolding byte_at_def m
    by (rule bit_word_eqI) (auto simp: bit_simps dest: bit_imp_le_length)
qed

lemma unat_and_255: "unat ((x :: u32) AND 0xFF) = unat (ucast x :: u8)"
proof -
  have "(0xFF :: u32) = mask 8" by (simp add: mask_eq_exp_minus_1)
  then have "x AND 0xFF = take_bit 8 x" by (simp add: take_bit_eq_mask)
  then show ?thesis by (simp add: unsigned_ucast_eq unsigned_take_bit_eq)
qed

lemma uint_drop_bit: "uint (drop_bit n (x :: 'a::len word)) = uint x div 2 ^ n"
proof -
  have "uint (drop_bit n x) = int (unat (drop_bit n x))" by simp
  also have "unat (drop_bit n x) = unat x div 2 ^ n"
    by (simp only: unat_drop_bit_eq take_bit_length_eq) (simp add: drop_bit_eq_div)
  finally show ?thesis by (simp add: zdiv_int)
qed

lemma uint_byte_at: "uint (byte_at k x) = uint x div 2 ^ (8 * k) mod 256"
  by (simp only: byte_at_def unsigned_ucast_eq uint_drop_bit take_bit_eq_mod) simp

lemma sint_small: "uint (a :: u32) < 2 ^ 31 \<Longrightarrow> sint a = uint a"
proof -
  assume *: "uint a < 2 ^ 31"
  have "- (2 ^ 31) \<le> uint a" by (rule order_trans [of _ 0]) simp_all
  with * show ?thesis by (simp add: sint_uint signed_take_bit_int_eq_self_iff)
qed

lemma sint_nonneg: "0 \<le> sint (a :: u32) \<Longrightarrow> sint a = uint a"
  using sint_lt [of a] by (simp add: uint_sint take_bit_int_eq_self)

section \<open>Network byte order\<close>

definition bswap16 :: "u16 \<Rightarrow> u16" where
  "bswap16 x = join16 (byte_at 0 x) (byte_at 1 x)"

definition bswap32 :: "u32 \<Rightarrow> u32" where
  "bswap32 x = join32 (byte_at 0 x) (byte_at 1 x) (byte_at 2 x) (byte_at 3 x)"

lemma bswap_join [simp]:
  "bswap16 (join16 a b) = join16 b a" "bswap32 (join32 a b c d) = join32 d c b a"
  by (simp_all add: bswap16_def bswap32_def)

text \<open>What a program relies on in a pair of conversions between host and network order.\<close>

locale net_order =
  fixes hton :: "'a::len word \<Rightarrow> 'a word" and ntoh :: "'a word \<Rightarrow> 'a word"
  assumes ntoh_hton: "ntoh (hton x) = x" and hton_ntoh: "hton (ntoh x) = x"
begin

lemma hton_eq_iff: "hton x = hton y \<longleftrightarrow> x = y"
  by (metis ntoh_hton)

lemma ntoh_eq_iff: "ntoh x = ntoh y \<longleftrightarrow> x = y"
  by (metis hton_ntoh)

lemma ntoh_eq_hton: "ntoh x = y \<longleftrightarrow> x = hton y"
  by (metis hton_ntoh ntoh_hton)

end

interpretation n16: net_order bswap16 bswap16
  by unfold_locales (simp_all add: bswap16_def)

interpretation n32: net_order bswap32 bswap32
  by unfold_locales (simp_all add: bswap32_def)

section \<open>Buffers\<close>

definition rdn :: "bytes \<Rightarrow> nat \<Rightarrow> nat \<Rightarrow> fault + bytes" where
  "rdn buf i n = (if i + n \<le> length buf then Inr (take n (drop i buf)) else Inl OutOfBounds)"

definition wrn :: "bytes \<Rightarrow> nat \<Rightarrow> bytes \<Rightarrow> fault + bytes" where
  "wrn buf i bs =
     (if i + length bs \<le> length buf then Inr (take i buf @ bs @ drop (i + length bs) buf)
      else Inl OutOfBounds)"

definition rd8 :: "bytes \<Rightarrow> nat \<Rightarrow> fault + u8" where
  "rd8 buf i = (if i < length buf then Inr (buf ! i) else Inl OutOfBounds)"

text \<open>Little-endian images of integers.\<close>

definition le16 :: "u16 \<Rightarrow> bytes" where
  "le16 x = [byte_at 0 x, byte_at 1 x]"

definition le32 :: "u32 \<Rightarrow> bytes" where
  "le32 x = [byte_at 0 x, byte_at 1 x, byte_at 2 x, byte_at 3 x]"

definition rd16 :: "bytes \<Rightarrow> nat \<Rightarrow> fault + u16" where
  "rd16 buf i = bindE (rdn buf i 2) (\<lambda>bs. Inr (join16 (bs ! 1) (bs ! 0)))"

definition rd32 :: "bytes \<Rightarrow> nat \<Rightarrow> fault + u32" where
  "rd32 buf i = bindE (rdn buf i 4) (\<lambda>bs. Inr (join32 (bs ! 3) (bs ! 2) (bs ! 1) (bs ! 0)))"

lemma length_le [simp]: "length (le16 x) = 2" "length (le32 y) = 4"
  by (simp_all add: le16_def le32_def)

lemma le16_hton: "le16 (bswap16 x) = [byte_at 1 x, byte_at 0 x]"
  by (simp add: le16_def bswap16_def)

lemma wrn_length: "wrn buf i bs = Inr buf' \<Longrightarrow> length buf' = length buf"
  by (auto simp: wrn_def split: if_splits)

lemma wrn_ok: "i + length bs \<le> length buf \<Longrightarrow> \<exists>buf'. wrn buf i bs = Inr buf'"
  by (simp add: wrn_def)

lemma rdn_wrn_same: "wrn buf i bs = Inr buf' \<Longrightarrow> n = length bs \<Longrightarrow> rdn buf' i n = Inr bs"
  by (auto simp: wrn_def rdn_def split: if_splits)

lemma rdn_wrn_other:
  assumes "wrn buf i bs = Inr buf'" and "j + n \<le> i \<or> i + length bs \<le> j"
  shows "rdn buf' j n = rdn buf j n"
proof -
  have b: "i + length bs \<le> length buf" "buf' = take i buf @ bs @ drop (i + length bs) buf"
    using assms(1) by (auto simp: wrn_def split: if_splits)
  show ?thesis
  proof (cases "j + n \<le> i")
    case True
    then have "take n (drop j buf') = take n (drop j buf)"
      using b by (auto simp: drop_take min_def)
    then show ?thesis using wrn_length [OF assms(1)] by (simp add: rdn_def)
  next
    case False
    then have j: "i + length bs \<le> j" using assms(2) by simp
    let ?A = "take i buf @ bs"
    have "length ?A = i + length bs" using b(1) by simp
    then have "drop j (?A @ drop (i + length bs) buf) = drop j buf"
      using j by (simp only: drop_append drop_drop) simp
    then have "drop j buf' = drop j buf" using b(2) by simp
    then show ?thesis using wrn_length [OF assms(1)] by (simp add: rdn_def)
  qed
qed

lemma rd16_wrn_same: "wrn buf i (le16 x) = Inr buf' \<Longrightarrow> rd16 buf' i = Inr x"
  using rdn_wrn_same [of buf i "le16 x" buf' 2] by (simp add: rd16_def) (simp add: le16_def)

lemma rd32_wrn_same: "wrn buf i (le32 x) = Inr buf' \<Longrightarrow> rd32 buf' i = Inr x"
  using rdn_wrn_same [of buf i "le32 x" buf' 4]
  by (simp add: rd32_def) (simp add: le32_def)

lemma rd16_wrn_other:
  "wrn buf i bs = Inr buf' \<Longrightarrow> j + 2 \<le> i \<or> i + length bs \<le> j \<Longrightarrow> rd16 buf' j = rd16 buf j"
  by (simp add: rd16_def rdn_wrn_other)

lemma rd32_wrn_other:
  "wrn buf i bs = Inr buf' \<Longrightarrow> j + 4 \<le> i \<or> i + length bs \<le> j \<Longrightarrow> rd32 buf' j = rd32 buf j"
  by (simp add: rd32_def rdn_wrn_other)

lemmas buffer_rw = rdn_wrn_same rd16_wrn_same rd32_wrn_same rdn_wrn_other rd16_wrn_other rd32_wrn_other

end
