(* ===== verification/CEffects.thy ===== *)
theory CEffects
  imports ByteOrder
begin

text \<open>
  Programs that call code outside the repository: the C library, the kernel, libbpf, DPDK. Every
  such call is a name and its arguments; what it answers is a parameter of the model, the
  \<open>host\<close>, a function of the call and of a hidden world. A program threads the world, and a log of
  what it called (with the answers) and printed.
\<close>

section \<open>Calls and machine states\<close>

text \<open>
  Arguments as the source writes them: integers, strings, byte buffers, buffers with indeterminate
  bytes (\<open>U\<close>), macro names (\<open>Sym\<close>), the text \<open>strerror\<close> gives for an error number (\<open>Err\<close>), and structures (\<open>Obj\<close>).
\<close>

datatype arg =
    I int
  | S string
  | B bytes
  | U "u8 option list"
  | Sym string
  | Err int
  | Obj string "(string \<times> arg) list"

text \<open>What a call answers: its value, \<open>errno\<close>, and the bytes it stored through its out-pointer.\<close>

record reply =
  rv :: int
  eno :: int
  out :: bytes

datatype event =
    Call string "arg list" reply
  | Print string "arg list"

record 'w mach =
  world :: 'w
  log :: "event list"

text \<open>A machine before its first call.\<close>

definition start :: "'w \<Rightarrow> 'w mach" where
  "start w = \<lparr>world = w, log = []\<rparr>"

datatype 'a outcome =
    Ret 'a
  | Exit int
  | Crash fault
  | Running

type_synonym 'w host = "string \<Rightarrow> arg list \<Rightarrow> 'w \<Rightarrow> reply \<times> 'w"
type_synonym ('w, 'a) prog = "'w mach \<Rightarrow> 'a outcome \<times> 'w mach"

text \<open>
  \<open>inet_ntoa\<close>: the bytes of the address in memory order, in decimal. The function stores the text
  in one buffer of its own and returns its address.
\<close>

definition inet_ntoa_text :: "u32 \<Rightarrow> string" where
  "inet_ntoa_text a =
     fmt_d (uint (byte_at 0 a)) @ CHR ''.'' # fmt_d (uint (byte_at 1 a)) @ CHR ''.'' #
     fmt_d (uint (byte_at 2 a)) @ CHR ''.'' # fmt_d (uint (byte_at 3 a))"

section \<open>Statements\<close>

text \<open>A line: the text and a newline.\<close>

definition ln :: "string \<Rightarrow> string" where
  "ln s = s @ [CHR 0x0A]"

definition ret :: "'a \<Rightarrow> ('w, 'a) prog" where
  "ret x = (\<lambda>m. (Ret x, m))"

text \<open>Sequencing: the rest runs only if the first part returned.\<close>

definition bnd :: "('w, 'a) prog \<Rightarrow> ('a \<Rightarrow> ('w, 'b) prog) \<Rightarrow> ('w, 'b) prog" where
  "bnd p f = (\<lambda>m. case p m of
      (Ret x, m') \<Rightarrow> f x m'
    | (Exit c, m') \<Rightarrow> (Exit c, m')
    | (Crash e, m') \<Rightarrow> (Crash e, m')
    | (Running, m') \<Rightarrow> (Running, m'))"

definition sys :: "'w host \<Rightarrow> string \<Rightarrow> arg list \<Rightarrow> ('w, reply) prog" where
  "sys k f as = (\<lambda>m. let (r, w) = k f as (world m)
     in (Ret r, m\<lparr>world := w, log := log m @ [Call f as r]\<rparr>))"

text \<open>A call whose answer is more than a \<open>reply\<close>: the log keeps the \<open>reply\<close> part of it.\<close>

definition query :: "('w \<Rightarrow> 'b \<times> 'w) \<Rightarrow> ('b \<Rightarrow> reply) \<Rightarrow> string \<Rightarrow> arg list \<Rightarrow> ('w, 'b) prog" where
  "query h rep f as = (\<lambda>m. let (x, w) = h (world m)
     in (Ret x, m\<lparr>world := w, log := log m @ [Call f as (rep x)]\<rparr>))"

definition printf :: "string \<Rightarrow> arg list \<Rightarrow> ('w, unit) prog" where
  "printf f as = (\<lambda>m. (Ret (), m\<lparr>log := log m @ [Print f as]\<rparr>))"

definition exit_with :: "int \<Rightarrow> ('w, 'a) prog" where
  "exit_with c = (\<lambda>m. (Exit c, m))"

definition crash :: "fault \<Rightarrow> ('w, 'a) prog" where
  "crash e = (\<lambda>m. (Crash e, m))"

text \<open>Code that only computes, and may fault.\<close>

definition pureE :: "fault + 'a \<Rightarrow> ('w, 'a) prog" where
  "pureE r = (case r of Inl e \<Rightarrow> crash e | Inr x \<Rightarrow> ret x)"

definition whenP :: "bool \<Rightarrow> ('w, unit) prog \<Rightarrow> ('w, unit) prog" where
  "whenP b p = (if b then p else ret ())"

definition andthen :: "('w, 'a) prog \<Rightarrow> ('w, 'b) prog \<Rightarrow> ('w, 'b) prog" where
  "andthen p q = bnd p (\<lambda>_. q)"

text \<open>A \<open>for\<close> loop over a known range, and a loop without exit cut off after \<open>n\<close> rounds.\<close>

fun for_each :: "'b list \<Rightarrow> ('b \<Rightarrow> ('w, unit) prog) \<Rightarrow> ('w, unit) prog" where
  "for_each [] f = ret ()"
| "for_each (x # xs) f = andthen (f x) (for_each xs f)"

fun forever :: "nat \<Rightarrow> ('w, 'b) prog \<Rightarrow> ('w, 'a) prog" where
  "forever 0 p = (\<lambda>m. (Running, m))"
| "forever (Suc n) p = andthen p (forever n p)"

lemmas stmt_defs = ret_def bnd_def sys_def printf_def exit_with_def crash_def pureE_def whenP_def
  andthen_def

section \<open>Evaluation rules\<close>

lemma bnd_ret [simp, c_eval]: "bnd (ret x) f = f x"
  by (simp add: stmt_defs)

lemma bnd_assoc [c_eval]: "bnd (bnd p f) g = bnd p (\<lambda>x. bnd (f x) g)"
  by (rule ext) (simp add: bnd_def split: outcome.splits prod.splits)

lemma bnd_exit [simp, c_eval]: "bnd (exit_with c) f = exit_with c"
  by (simp add: stmt_defs)

lemma bnd_crash [simp, c_eval]: "bnd (crash e) f = crash e"
  by (simp add: stmt_defs)

lemma andthen_bnd [c_eval]: "andthen p q = bnd p (\<lambda>_. q)"
  by (simp add: andthen_def)

lemma whenP_True [simp, c_eval]: "whenP True p = p"
  and whenP_False [simp, c_eval]: "whenP False p = ret ()"
  by (simp_all add: whenP_def)

lemma pureE_Inr [simp, c_eval]: "pureE (Inr x) = ret x"
  and pureE_Inl [simp, c_eval]: "pureE (Inl e) = crash e"
  by (simp_all add: pureE_def)

lemma ret_run: "ret x m = (Ret x, m)"
  by (simp add: ret_def)

lemma exit_run: "exit_with c m = (Exit c, m)"
  by (simp add: exit_with_def)

lemma crash_run: "crash e m = (Crash e, m)"
  by (simp add: crash_def)

lemma bnd_printf_run: "bnd (printf f as) q m = q () (m\<lparr>log := log m @ [Print f as]\<rparr>)"
  by (simp add: bnd_def printf_def)

lemma printf_run: "printf f as m = (Ret (), m\<lparr>log := log m @ [Print f as]\<rparr>)"
  by (simp add: printf_def)

lemma bnd_step:
  "p m = (Ret x, m') \<Longrightarrow> bnd p f m = f x m'"
  "p m = (Exit c, m') \<Longrightarrow> bnd p f m = (Exit c, m')"
  "p m = (Crash e, m') \<Longrightarrow> bnd p f m = (Crash e, m')"
  "p m = (Running, m') \<Longrightarrow> bnd p f m = (Running, m')"
  by (simp_all add: bnd_def)

text \<open>One call: the continuation receives the host's answer.\<close>

lemma bnd_sys_run:
  "bnd (sys k f as) q m =
     q (fst (k f as (world m)))
       (m\<lparr>world := snd (k f as (world m)), log := log m @ [Call f as (fst (k f as (world m)))]\<rparr>)"
  by (simp add: bnd_def sys_def Let_def split: prod.splits)

text \<open>The machine after one call and after one print.\<close>

definition after_call :: "'w host \<Rightarrow> string \<Rightarrow> arg list \<Rightarrow> 'w mach \<Rightarrow> 'w mach" where
  "after_call k f as m = m\<lparr>world := snd (k f as (world m)),
     log := log m @ [Call f as (fst (k f as (world m)))]\<rparr>"

definition after_print :: "string \<Rightarrow> arg list \<Rightarrow> 'w mach \<Rightarrow> 'w mach" where
  "after_print f as m = m\<lparr>log := log m @ [Print f as]\<rparr>"

text \<open>
  The rules of symbolic execution are stated of the two halves of a run, so that they rewrite a run
  and never a program that still waits for its machine.
\<close>

lemma run_ret [simp]: "fst (ret x m) = Ret x" "snd (ret x m) = m"
  by (simp_all add: ret_def)

lemma run_exit [simp]: "fst (exit_with c m) = Exit c" "snd (exit_with c m) = m"
  by (simp_all add: exit_with_def)

lemma run_crash [simp]: "fst (crash e m) = Crash e" "snd (crash e m) = m"
  by (simp_all add: crash_def)

lemma bnd_sys_after: "bnd (sys k f as) q m = q (fst (k f as (world m))) (after_call k f as m)"
  by (simp add: bnd_sys_run after_call_def)

definition after_query ::
  "('w \<Rightarrow> 'b \<times> 'w) \<Rightarrow> ('b \<Rightarrow> reply) \<Rightarrow> string \<Rightarrow> arg list \<Rightarrow> 'w mach \<Rightarrow> 'w mach" where
  "after_query h rep f as m = m\<lparr>world := snd (h (world m)),
     log := log m @ [Call f as (rep (fst (h (world m))))]\<rparr>"

lemma bnd_query_after: "bnd (query h rep f as) q m = q (fst (h (world m))) (after_query h rep f as m)"
  by (simp add: bnd_def query_def after_query_def Let_def split: prod.splits)

lemma run_sys_after:
  "fst (bnd (sys k f as) q m) = fst (q (fst (k f as (world m))) (after_call k f as m))"
  "snd (bnd (sys k f as) q m) = snd (q (fst (k f as (world m))) (after_call k f as m))"
  by (simp_all add: bnd_sys_after)

lemma run_query_after:
  "fst (bnd (query h rep f as) q m) = fst (q (fst (h (world m))) (after_query h rep f as m))"
  "snd (bnd (query h rep f as) q m) = snd (q (fst (h (world m))) (after_query h rep f as m))"
  by (simp_all add: bnd_query_after)

lemma log_after_query: "log (after_query h rep f as m) = log m @ [Call f as (rep (fst (h (world m))))]"
  by (simp add: after_query_def)

lemma bnd_printf_after: "bnd (printf f as) q m = q () (after_print f as m)"
  by (simp add: bnd_printf_run after_print_def)

lemma run_printf_after:
  "fst (bnd (printf s as) q m) = fst (q () (after_print s as m))"
  "snd (bnd (printf s as) q m) = snd (q () (after_print s as m))"
  "fst (printf s as m) = Ret ()" "snd (printf s as m) = after_print s as m"
  by (simp_all add: bnd_printf_after printf_run after_print_def)

lemma world_after_print [simp]: "world (after_print s as m) = world m"
  by (simp add: after_print_def)

lemma world_after_query [simp]: "world (after_query h rep f as m) = snd (h (world m))"
  by (simp add: after_query_def)

lemma log_after_call: "log (after_call k f as m) = log m @ [Call f as (fst (k f as (world m)))]"
  by (simp add: after_call_def)

lemma log_after_print: "log (after_print f as m) = log m @ [Print f as]"
  by (simp add: after_print_def)

lemma sys_run:
  "sys k f as m =
     (Ret (fst (k f as (world m))),
      m\<lparr>world := snd (k f as (world m)), log := log m @ [Call f as (fst (k f as (world m)))]\<rparr>)"
  by (simp add: sys_def Let_def split: prod.splits)

lemma run_sys_last:
  "fst (sys k f as m) = Ret (fst (k f as (world m)))" "snd (sys k f as m) = after_call k f as m"
  by (simp_all add: sys_run after_call_def)

lemma if_run: "(if b then p else q) m = (if b then p m else q m)"
  by simp

lemma whenP_bnd_run: "bnd (whenP b p) q m = (if b then bnd p q m else q () m)"
  by simp

lemmas run_rules = ret_run exit_run crash_run bnd_printf_run printf_run bnd_sys_run sys_run whenP_bnd_run if_run bnd_assoc
  andthen_bnd

section \<open>What a log says\<close>

text \<open>The calls of a log, and the names called.\<close>

fun calls :: "event list \<Rightarrow> (string \<times> arg list) list" where
  "calls [] = []"
| "calls (Call f as r # es) = (f, as) # calls es"
| "calls (Print f as # es) = calls es"

fun called :: "event list \<Rightarrow> string list" where
  "called [] = []"
| "called (Call f as r # es) = f # called es"
| "called (Print f as # es) = called es"

fun prints :: "event list \<Rightarrow> (string \<times> arg list) list" where
  "prints [] = []"
| "prints (Call f as r # es) = prints es"
| "prints (Print f as # es) = (f, as) # prints es"

lemma calls_append [simp]: "calls (es @ fs) = calls es @ calls fs"
  by (induction es rule: calls.induct) auto

lemma called_append [simp]: "called (es @ fs) = called es @ called fs"
  by (induction es rule: called.induct) auto

lemma prints_append [simp]: "prints (es @ fs) = prints es @ prints fs"
  by (induction es rule: prints.induct) auto

lemma map_fst_calls: "map fst (calls es) = called es"
  by (induction es rule: calls.induct) auto

section \<open>A contract for whole programs\<close>

text \<open>
  \<open>okP p m Q\<close>: running \<open>p\<close> in \<open>m\<close> ends in an outcome and a machine that satisfy \<open>Q\<close>. The rules are the
  weakest-precondition rules of the statements.
\<close>

definition okP :: "('w, 'a) prog \<Rightarrow> 'w mach \<Rightarrow> ('a outcome \<Rightarrow> 'w mach \<Rightarrow> bool) \<Rightarrow> bool" where
  "okP p m Q = Q (fst (p m)) (snd (p m))"

lemma okP_I: "Q (fst (p m)) (snd (p m)) \<Longrightarrow> okP p m Q"
  by (simp add: okP_def)

lemma okP_D: "okP p m Q \<Longrightarrow> p m = (x, m') \<Longrightarrow> Q x m'"
  by (simp add: okP_def)

lemma okP_weaken: "okP p m R \<Longrightarrow> (\<And>x m'. R x m' \<Longrightarrow> Q x m') \<Longrightarrow> okP p m Q"
  by (simp add: okP_def)

lemma okP_bnd:
  assumes "okP p m R" and "\<And>x m'. R (Ret x) m' \<Longrightarrow> okP (f x) m' Q"
    and "\<And>c m'. R (Exit c) m' \<Longrightarrow> Q (Exit c) m'"
    and "\<And>e m'. R (Crash e) m' \<Longrightarrow> Q (Crash e) m'"
    and "\<And>m'. R Running m' \<Longrightarrow> Q Running m'"
  shows "okP (bnd p f) m Q"
proof -
  obtain x m' where "p m = (x, m')" by (cases "p m")
  then show ?thesis
    using assms by (cases x) (simp_all add: okP_def bnd_def)
qed

lemma okP_sys:
  "(\<And>r w. k f as (world m) = (r, w) \<Longrightarrow> Q (Ret r) (m\<lparr>world := w, log := log m @ [Call f as r]\<rparr>)) \<Longrightarrow>
   okP (sys k f as) m Q"
  by (simp add: okP_def sys_def Let_def split: prod.splits)

text \<open>The same for a call or a print that goes on, of which only the entry in the log matters.\<close>

lemma okP_call:
  "(\<And>r m'. log m' = log m @ [Call f as r] \<Longrightarrow> okP (q r) m' Q) \<Longrightarrow> okP (bnd (sys k f as) q) m Q"
  by (simp add: okP_def run_sys_after log_after_call)

lemma okP_line:
  "(\<And>m'. log m' = log m @ [Print f as] \<Longrightarrow> okP (q ()) m' Q) \<Longrightarrow> okP (bnd (printf f as) q) m Q"
  by (simp add: okP_def run_printf_after log_after_print)

lemma okP_last_line:
  "(\<And>m'. log m' = log m @ [Print f as] \<Longrightarrow> Q (Ret ()) m') \<Longrightarrow> okP (printf f as) m Q"
  by (simp add: okP_def run_printf_after log_after_print)

lemma okP_if: "(b \<Longrightarrow> okP p m Q) \<Longrightarrow> (\<not> b \<Longrightarrow> okP q m Q) \<Longrightarrow> okP (if b then p else q) m Q"
  by simp

text \<open>A loop without exit never returns a value.\<close>

lemma forever_not_Ret: "fst (forever n p m) \<noteq> Ret x"
proof (induction n arbitrary: m)
  case 0
  then show ?case by simp
next
  case (Suc n)
  then show ?case
    by (auto simp: andthen_def bnd_def split: prod.splits outcome.splits)
qed

text \<open>Programs only ever add to the log.\<close>

definition extends :: "('w, 'a) prog \<Rightarrow> bool" where
  "extends p \<longleftrightarrow> (\<forall>m. \<exists>es. log (snd (p m)) = log m @ es)"

named_theorems extends_intro

lemma extendsD: "extends p \<Longrightarrow> \<exists>es. log (snd (p m)) = log m @ es"
  by (simp add: extends_def)

lemma extends_basic [extends_intro]:
  "extends (ret x)" "extends (sys k f as)" "extends (printf f as)" "extends (exit_with c)"
  "extends (crash e)" "extends (pureE r)"
  by (auto simp: extends_def stmt_defs Let_def split: prod.splits sum.splits)

lemma extends_bnd [extends_intro]:
  assumes "extends p" and "\<And>x. extends (f x)" shows "extends (bnd p f)"
  unfolding extends_def
proof
  fix m
  obtain x m' where pm: "p m = (x, m')" by (cases "p m")
  obtain es where es: "log m' = log m @ es" using extendsD [OF assms(1), of m] pm by auto
  show "\<exists>es. log (snd (bnd p f m)) = log m @ es"
  proof (cases x)
    case (Ret a)
    obtain fs where "log (snd (f a m')) = log m' @ fs" using extendsD [OF assms(2)] by blast
    then show ?thesis using pm es Ret by (simp add: bnd_def)
  qed (use pm es in \<open>simp_all add: bnd_def\<close>)
qed

lemma extends_control [extends_intro]:
  "extends p \<Longrightarrow> extends (whenP b p)"
  by (simp add: whenP_def extends_basic)

lemma extends_if [extends_intro]:
  "extends p \<Longrightarrow> extends q \<Longrightarrow> extends (if b then p else q)"
  by simp

lemma extends_andthen [extends_intro]: "extends p \<Longrightarrow> extends q \<Longrightarrow> extends (andthen p q)"
  by (simp add: andthen_def extends_bnd)

lemma extends_for_each [extends_intro]: "(\<And>x. extends (f x)) \<Longrightarrow> extends (for_each xs f)"
  by (induction xs) (simp_all add: extends_intro)

lemma extends_forever [extends_intro]: "extends p \<Longrightarrow> extends (forever n p)"
  by (induction n) (simp_all add: extends_intro, simp add: extends_def)

end
