(* ===== verification/BpfPrograms.thy ===== *)
theory BpfPrograms
  imports CEffects
begin

text \<open>
  The kernel-side programs of \<^verbatim>\<open>bpf*/*/bpf_program.bpf.c\<close>. The BPF helpers
  (\<open>bpf_probe_read_kernel\<close>, \<open>bpf_trace_printk\<close>, \<open>bpf_sk_redirect_map\<close>, ...) are calls to the host;
  the structures are those of \<^verbatim>\<open>vmlinux.h\<close>. \<open>bpf_ntohs\<close> and \<open>bpf_ntohl\<close> swap the bytes of a 16-bit
  and a 32-bit value (little-endian target).
\<close>

section \<open>Text and integers of the helpers\<close>

text \<open>\<open>sizeof\<close> of a string literal counts the terminating NUL.\<close>

definition sizeof_str :: "string \<Rightarrow> int" where
  "sizeof_str s = int (length s) + 1"

text \<open>Integers read back from the bytes a helper stored (a missing byte reads as zero).\<close>

definition byte_of :: "bytes \<Rightarrow> nat \<Rightarrow> u8" where
  "byte_of bs i = (if i < length bs then bs ! i else 0)"

definition u16_from :: "bytes \<Rightarrow> nat \<Rightarrow> u16" where
  "u16_from bs i = join16 (byte_of bs (i + 1)) (byte_of bs i)"

definition u32_from :: "bytes \<Rightarrow> nat \<Rightarrow> u32" where
  "u32_from bs i =
     join32 (byte_of bs (i + 3)) (byte_of bs (i + 2)) (byte_of bs (i + 1)) (byte_of bs i)"

text \<open>\<open>snprintf\<close> into a buffer of \<open>n\<close> bytes keeps at most \<open>n - 1\<close> characters.\<close>

definition snprintf :: "nat \<Rightarrow> string \<Rightarrow> string" where
  "snprintf n s = take (n - 1) s"

definition u32_to_addr :: "u32 \<Rightarrow> nat \<Rightarrow> string" where
  "u32_to_addr addr buf_len = snprintf buf_len
     (fmt_d (uint (addr AND 0xff)) @ ''.'' @
      fmt_d (uint (drop_bit 8 addr AND 0xff)) @ ''.'' @
      fmt_d (uint (drop_bit 16 addr AND 0xff)) @ ''.'' @
      fmt_d (uint (drop_bit 24 addr AND 0xff)))"

section \<open>Structures of the kernel\<close>

record sk_buff =
  skb_len :: u32
  pkt_type :: u32
  skb_mark :: u32
  queue_mapping :: u32
  skb_protocol :: u32
  vlan_present :: u32
  vlan_tci :: u32
  vlan_proto :: u32
  priority :: u32
  ingress_ifindex :: u32
  ifindex :: u32
  tc_index :: u32
  cb :: "u32 list"
  skb_hash :: u32
  tc_classid :: u32
  skb_data :: u32
  data_end :: u32
  napi_id :: u32
  skb_family :: u32
  remote_ip4 :: u32
  local_ip4 :: u32
  remote_ip6 :: "u32 list"
  local_ip6 :: "u32 list"
  remote_port :: u32
  local_port :: u32
  data_meta :: u32
  flow_keys :: u64
  tstamp :: u64
  wire_len :: u32
  gso_segs :: u32
  skb_sk :: u64
  gso_size :: u32
  tstamp_type :: u8
  hwtstamp :: u64

record udphdr =
  udp_source :: u16
  udp_dest :: u16
  udp_len :: u16
  udp_check :: u16

definition udphdr_of :: "bytes \<Rightarrow> udphdr" where
  "udphdr_of bs = \<lparr>udp_source = u16_from bs 0, udp_dest = u16_from bs 2,
                   udp_len = u16_from bs 4, udp_check = u16_from bs 6\<rparr>"

text \<open>The two 4-bit fields of the first byte are kept together.\<close>

record iphdr =
  ip_ihl_version :: u8
  ip_tos :: u8
  ip_tot_len :: u16
  ip_id :: u16
  ip_frag_off :: u16
  ip_ttl :: u8
  ip_protocol :: u8
  ip_check :: u16
  ip_saddr :: u32
  ip_daddr :: u32

definition iphdr_of :: "bytes \<Rightarrow> iphdr" where
  "iphdr_of bs = \<lparr>ip_ihl_version = byte_of bs 0, ip_tos = byte_of bs 1,
     ip_tot_len = u16_from bs 2, ip_id = u16_from bs 4, ip_frag_off = u16_from bs 6,
     ip_ttl = byte_of bs 8, ip_protocol = byte_of bs 9, ip_check = u16_from bs 10,
     ip_saddr = u32_from bs 12, ip_daddr = u32_from bs 16\<rparr>"

datatype sk_action = SK_DROP | SK_PASS

fun sk_action_val :: "sk_action \<Rightarrow> int" where
  "sk_action_val SK_DROP = 0"
| "sk_action_val SK_PASS = 1"

text \<open>The kinds of maps, two of them with two names.\<close>

datatype bpf_map_type =
    BPF_MAP_TYPE_UNSPEC | BPF_MAP_TYPE_HASH | BPF_MAP_TYPE_ARRAY
  | BPF_MAP_TYPE_PROG_ARRAY | BPF_MAP_TYPE_PERF_EVENT_ARRAY | BPF_MAP_TYPE_PERCPU_HASH
  | BPF_MAP_TYPE_PERCPU_ARRAY | BPF_MAP_TYPE_STACK_TRACE | BPF_MAP_TYPE_CGROUP_ARRAY
  | BPF_MAP_TYPE_LRU_HASH | BPF_MAP_TYPE_LRU_PERCPU_HASH | BPF_MAP_TYPE_LPM_TRIE
  | BPF_MAP_TYPE_ARRAY_OF_MAPS | BPF_MAP_TYPE_HASH_OF_MAPS | BPF_MAP_TYPE_DEVMAP
  | BPF_MAP_TYPE_SOCKMAP | BPF_MAP_TYPE_CPUMAP | BPF_MAP_TYPE_XSKMAP
  | BPF_MAP_TYPE_SOCKHASH | BPF_MAP_TYPE_CGROUP_STORAGE_DEPRECATED | BPF_MAP_TYPE_CGROUP_STORAGE
  | BPF_MAP_TYPE_REUSEPORT_SOCKARRAY | BPF_MAP_TYPE_PERCPU_CGROUP_STORAGE_DEPRECATED | BPF_MAP_TYPE_PERCPU_CGROUP_STORAGE
  | BPF_MAP_TYPE_QUEUE | BPF_MAP_TYPE_STACK | BPF_MAP_TYPE_SK_STORAGE
  | BPF_MAP_TYPE_DEVMAP_HASH | BPF_MAP_TYPE_STRUCT_OPS | BPF_MAP_TYPE_RINGBUF
  | BPF_MAP_TYPE_INODE_STORAGE | BPF_MAP_TYPE_TASK_STORAGE | BPF_MAP_TYPE_BLOOM_FILTER
  | BPF_MAP_TYPE_USER_RINGBUF | BPF_MAP_TYPE_CGRP_STORAGE | BPF_MAP_TYPE_ARENA
  | MAX_BPF_MAP_TYPE

primrec bpf_map_type_val :: "bpf_map_type \<Rightarrow> int" where
  "bpf_map_type_val BPF_MAP_TYPE_UNSPEC = 0"
| "bpf_map_type_val BPF_MAP_TYPE_HASH = 1"
| "bpf_map_type_val BPF_MAP_TYPE_ARRAY = 2"
| "bpf_map_type_val BPF_MAP_TYPE_PROG_ARRAY = 3"
| "bpf_map_type_val BPF_MAP_TYPE_PERF_EVENT_ARRAY = 4"
| "bpf_map_type_val BPF_MAP_TYPE_PERCPU_HASH = 5"
| "bpf_map_type_val BPF_MAP_TYPE_PERCPU_ARRAY = 6"
| "bpf_map_type_val BPF_MAP_TYPE_STACK_TRACE = 7"
| "bpf_map_type_val BPF_MAP_TYPE_CGROUP_ARRAY = 8"
| "bpf_map_type_val BPF_MAP_TYPE_LRU_HASH = 9"
| "bpf_map_type_val BPF_MAP_TYPE_LRU_PERCPU_HASH = 10"
| "bpf_map_type_val BPF_MAP_TYPE_LPM_TRIE = 11"
| "bpf_map_type_val BPF_MAP_TYPE_ARRAY_OF_MAPS = 12"
| "bpf_map_type_val BPF_MAP_TYPE_HASH_OF_MAPS = 13"
| "bpf_map_type_val BPF_MAP_TYPE_DEVMAP = 14"
| "bpf_map_type_val BPF_MAP_TYPE_SOCKMAP = 15"
| "bpf_map_type_val BPF_MAP_TYPE_CPUMAP = 16"
| "bpf_map_type_val BPF_MAP_TYPE_XSKMAP = 17"
| "bpf_map_type_val BPF_MAP_TYPE_SOCKHASH = 18"
| "bpf_map_type_val BPF_MAP_TYPE_CGROUP_STORAGE_DEPRECATED = 19"
| "bpf_map_type_val BPF_MAP_TYPE_CGROUP_STORAGE = 19"
| "bpf_map_type_val BPF_MAP_TYPE_REUSEPORT_SOCKARRAY = 20"
| "bpf_map_type_val BPF_MAP_TYPE_PERCPU_CGROUP_STORAGE_DEPRECATED = 21"
| "bpf_map_type_val BPF_MAP_TYPE_PERCPU_CGROUP_STORAGE = 21"
| "bpf_map_type_val BPF_MAP_TYPE_QUEUE = 22"
| "bpf_map_type_val BPF_MAP_TYPE_STACK = 23"
| "bpf_map_type_val BPF_MAP_TYPE_SK_STORAGE = 24"
| "bpf_map_type_val BPF_MAP_TYPE_DEVMAP_HASH = 25"
| "bpf_map_type_val BPF_MAP_TYPE_STRUCT_OPS = 26"
| "bpf_map_type_val BPF_MAP_TYPE_RINGBUF = 27"
| "bpf_map_type_val BPF_MAP_TYPE_INODE_STORAGE = 28"
| "bpf_map_type_val BPF_MAP_TYPE_TASK_STORAGE = 29"
| "bpf_map_type_val BPF_MAP_TYPE_BLOOM_FILTER = 30"
| "bpf_map_type_val BPF_MAP_TYPE_USER_RINGBUF = 31"
| "bpf_map_type_val BPF_MAP_TYPE_CGRP_STORAGE = 32"
| "bpf_map_type_val BPF_MAP_TYPE_ARENA = 33"
| "bpf_map_type_val MAX_BPF_MAP_TYPE = 34"

text \<open>The two maps of \<^verbatim>\<open>sock_redirect\<close>: sockets by an \<open>int\<close>, at most ten.\<close>

record bpf_map_def =
  map_type :: bpf_map_type
  max_entries :: nat

definition sock_store :: bpf_map_def where
  "sock_store = \<lparr>map_type = BPF_MAP_TYPE_SOCKMAP, max_entries = 10\<rparr>"

definition sock_redir :: bpf_map_def where
  "sock_redir = \<lparr>map_type = BPF_MAP_TYPE_SOCKMAP, max_entries = 10\<rparr>"

definition map_arg :: "string \<Rightarrow> bpf_map_def \<Rightarrow> arg" where
  "map_arg name d = Obj name
     [(''type'', I (bpf_map_type_val (map_type d))), (''max_entries'', I (int (max_entries d)))]"

text \<open>
  The head of \<open>struct sock_common\<close>, which is the head of \<open>struct sock\<close>, and its bytes: the two
  addresses, the hash, the two ports, the family and the state.
\<close>

record sock_common =
  skc_daddr :: u32
  skc_rcv_saddr :: u32
  skc_hash :: u32
  skc_dport :: u16
  skc_num :: u16
  skc_family :: u16
  skc_state :: u8

definition sock_common_bytes :: "sock_common \<Rightarrow> bytes" where
  "sock_common_bytes s =
     le32 (skc_daddr s) @ le32 (skc_rcv_saddr s) @ le32 (skc_hash s) @ le16 (skc_dport s) @
     le16 (skc_num s) @ le16 (skc_family s) @ [skc_state s]"

section \<open>The programs\<close>

definition trace_printk :: "'w host \<Rightarrow> string \<Rightarrow> arg list \<Rightarrow> ('w, reply) prog" where
  "trace_printk k fmt as = sys k ''bpf_trace_printk'' ([S fmt, I (sizeof_str fmt)] @ as)"

text \<open>
  \<^verbatim>\<open>connect\<close>: \<open>ctx->sk\<close> is the address \<open>sk\<close>; \<open>skc_daddr\<close> is the first field of \<open>struct
  sock_common\<close>, itself the first of \<open>struct sock\<close>, and \<open>skc_rcv_saddr\<close> the second.
\<close>

definition connect_bpf_prog :: "'w host \<Rightarrow> u64 \<Rightarrow> ('w, int) prog" where
  "connect_bpf_prog k sk =
     (let fmt = ln ''tcp_connect: %s -> %s '' in
      if sk = 0 then ret 0 else
      bnd (sys k ''bpf_probe_read_kernel'' [I 4, I (uint (sk + 4))]) (\<lambda>r1.
      if rv r1 \<noteq> 0 then ret 0 else
      bnd (sys k ''bpf_probe_read_kernel'' [I 4, I (uint sk)]) (\<lambda>r2.
      if rv r2 \<noteq> 0 then ret 0 else
      (let src = u32_from (out r1) 0; dst = u32_from (out r2) 0 in
       bnd (trace_printk k fmt [S (u32_to_addr src 16), S (u32_to_addr dst 16)]) (\<lambda>_.
       ret 0)))))"

text \<open>\<^verbatim>\<open>sock_redirect\<close>: the verdict on a packet of a socket in one of the two maps.\<close>

definition bpf_prog_verdict :: "'w host \<Rightarrow> sk_buff \<Rightarrow> ('w, int) prog" where
  "bpf_prog_verdict k skb =
     bnd (trace_printk k (ln ''bpf_prog_verdict: enter'') []) (\<lambda>_.
     if bswap16 (ucast (skb_protocol skb)) \<noteq> 0x800 then
       bnd (trace_printk k (ln ''bpf_prog_verdict: not ip type'') []) (\<lambda>_.
       ret (sk_action_val SK_PASS))
     else
     bnd (trace_printk k (ln ''bpf_prog_verdict: %d -> %d '')
       [I (sint (local_port skb)), I (uint (bswap16 (ucast (drop_bit 16 (remote_port skb)))))]) (\<lambda>_.
     if local_port skb = 5201 then
       bnd (trace_printk k (ln ''bpf_prog_verdict: client -> server'') []) (\<lambda>_.
       bnd (sys k ''bpf_sk_redirect_map'' [Sym ''skb'', map_arg ''sock_redir'' sock_redir, I 0, I 0]) (\<lambda>r.
       ret (rv r)))
     else if bswap16 (ucast (drop_bit 16 (remote_port skb))) = 5201 then
       bnd (trace_printk k (ln ''bpf_prog_verdict: server -> client'') []) (\<lambda>_.
       bnd (sys k ''bpf_sk_redirect_map'' [Sym ''skb'', map_arg ''sock_store'' sock_store, I 0, I 0]) (\<lambda>r.
       ret (rv r)))
     else ret (sk_action_val SK_PASS)))"

text \<open>\<^verbatim>\<open>udp_socket_filter\<close>: the value returned is the number of bytes of the packet to keep.\<close>

definition addr_dump :: "'w host \<Rightarrow> sk_buff \<Rightarrow> ('w, int) prog" where
  "addr_dump k skb =
     bnd (sys k ''bpf_skb_load_bytes'' [Sym ''skb'', I 0, I 8]) (\<lambda>r1.
     if rv r1 < 0 then
       bnd (trace_printk k (ln ''eth_hdr: load failed'') []) (\<lambda>_. ret 0)
     else (let udp = udphdr_of (out r1) in
     bnd (trace_printk k (ln ''msg: %d %d '')
       [I (sint (bswap32 (ucast (udp_source udp)))), I (sint (bswap32 (ucast (udp_dest udp))))]) (\<lambda>_.
     bnd (sys k ''bpf_skb_load_bytes_relative''
       [Sym ''skb'', I 0, I 20, Sym ''BPF_HDR_START_NET'']) (\<lambda>r2.
     if rv r2 < 0 then
       bnd (trace_printk k (ln ''ip_hdr: load failed'') []) (\<lambda>_. ret 0)
     else (let ip = iphdr_of (out r2) in
     bnd (trace_printk k (ln ''ip: %x %x '') [I (uint (ip_saddr ip)), I (uint (ip_daddr ip))]) (\<lambda>_.
     ret (sint (skb_len skb))))))))"

text \<open>\<^verbatim>\<open>while\<close>: the same message forty thousand times.\<close>

definition while_bpf_prog :: "'w host \<Rightarrow> ('w, int) prog" where
  "while_bpf_prog k =
     bnd (for_each [0..<40000::nat] (\<lambda>index. bnd (trace_printk k (ln ''test while '') []) (\<lambda>_. ret ())))
       (\<lambda>_. ret 0)"

text \<open>
  \<^verbatim>\<open>hello_world\<close>: the file name read from user memory is itself the format. The 256 bytes of
  \<open>filename\<close> are printed up to the first NUL the helper stored.
\<close>

definition hello_bpf_prog :: "'w host \<Rightarrow> u64 \<Rightarrow> ('w, int) prog" where
  "hello_bpf_prog k filename =
     bnd (sys k ''bpf_probe_read_user_str'' [I 256, I (uint filename)]) (\<lambda>r.
     bnd (sys k ''bpf_trace_printk'' [B (out r), I 256]) (\<lambda>_. ret 0))"

definition sockops_bpf_prog :: "'w host \<Rightarrow> u32 \<Rightarrow> ('w, int) prog" where
  "sockops_bpf_prog k op =
     bnd (trace_printk k (ln ''sock state: %d '') [I (sint op)]) (\<lambda>_. ret 1)"

definition dns_bpf_prog :: "'w host \<Rightarrow> ('w, int) prog" where
  "dns_bpf_prog k = bnd (trace_printk k (ln ''sendto'') []) (\<lambda>_. ret 0)"

text \<open>\<^verbatim>\<open>add\<close>: the probed function, and the probe that reports its arguments and their sum.\<close>

definition add :: "i32 \<Rightarrow> i32 \<Rightarrow> fault + i32" where
  "add a b = int_add a b"

definition add_main :: "fault + i32" where
  "add_main = add 155 2"

definition add_probe :: "'w host \<Rightarrow> i32 \<Rightarrow> i32 \<Rightarrow> ('w, int) prog" where
  "add_probe k a b =
     bnd (pureE (int_add a b)) (\<lambda>c.
     bnd (trace_printk k (ln ''add: %d + %d = %d'') [I (sint a), I (sint b), I (sint c)]) (\<lambda>_.
     ret 0))"

end
