(* ===== verification/CStages.thy ===== *)
theory CStages
  imports CEffects
begin

text \<open>
  Most programs of the repository go through a fixed sequence of calls, each checked, with an
  early way out at each check, and then stay in a loop or end. \<open>stages p names late Fail Good\<close> is that
  contract: a run of \<open>p\<close> either gives up after a proper part of \<open>names\<close>, with an outcome in \<open>Fail\<close>, or makes
  all the calls \<open>names\<close>, in that order, then only calls in \<open>late\<close>, with an outcome in \<open>Good\<close>.
\<close>

section \<open>The contract\<close>

definition new_events :: "'w mach \<Rightarrow> 'w mach \<Rightarrow> event list" where
  "new_events m m' = drop (length (log m)) (log m')"

lemma new_events_append: "log m' = log m @ es \<Longrightarrow> new_events m m' = es"
  by (simp add: new_events_def)

text \<open>The calls of one function in a log, with the answers.\<close>

fun call_answers :: "string \<Rightarrow> event list \<Rightarrow> (arg list \<times> reply) list" where
  "call_answers f [] = []"
| "call_answers f (Call g as r # es) = (if g = f then (as, r) # call_answers f es else call_answers f es)"
| "call_answers f (Print s as # es) = call_answers f es"

lemma call_answers_append [simp]: "call_answers f (es @ fs) = call_answers f es @ call_answers f fs"
  by (induction f es rule: call_answers.induct) auto

text \<open>The calls a run makes, with their arguments, and what it prints.\<close>

definition run_calls :: "('w, 'a) prog \<Rightarrow> 'w mach \<Rightarrow> (string \<times> arg list) list" where
  "run_calls p m = calls (new_events m (snd (p m)))"

definition run_prints :: "('w, 'a) prog \<Rightarrow> 'w mach \<Rightarrow> (string \<times> arg list) list" where
  "run_prints p m = prints (new_events m (snd (p m)))"

definition run_value :: "('w, 'a) prog \<Rightarrow> 'w mach \<Rightarrow> 'a outcome" where
  "run_value p m = fst (p m)"

text \<open>Symbolic execution: the rules that run a program one statement at a time.\<close>

lemmas run_defs = run_calls_def run_prints_def run_value_def new_events_def
lemmas step_rules = run_sys_after run_query_after run_printf_after run_sys_last bnd_assoc log_after_call
  log_after_query log_after_print andthen_def

text \<open>A loop whose turns all return and add known events.\<close>

lemma for_each_log:
  assumes "\<And>x m. x \<in> set xs \<Longrightarrow> fst (f x m) = Ret () \<and> log (snd (f x m)) = log m @ es x"
  shows "fst (for_each xs f m) = Ret () \<and> log (snd (for_each xs f m)) = log m @ concat (map es xs)"
  using assms
proof (induction xs arbitrary: m)
  case Nil
  then show ?case by simp
next
  case (Cons x xs)
  obtain m' where f: "f x m = (Ret (), m')" "log m' = log m @ es x"
    using Cons.prems [of x m] by (cases "f x m") auto
  have "fst (for_each xs f m') = Ret () \<and> log (snd (for_each xs f m')) = log m' @ concat (map es xs)"
    by (rule Cons.IH) (simp add: Cons.prems)
  then show ?case using f by (simp add: andthen_def bnd_step)
qed

lemma calls_prints_map [simp]:
  "calls (map (\<lambda>(s, as). Print s as) ps) = []" "prints (map (\<lambda>(s, as). Print s as) ps) = ps"
  by (induction ps) auto

lemma calls_prints_concat:
  "calls (concat ess) = concat (map calls ess)" "prints (concat ess) = concat (map prints ess)"
  by (induction ess) auto

definition staged_log ::
  "string list \<Rightarrow> string set \<Rightarrow> 'a outcome set \<Rightarrow> 'a outcome set \<Rightarrow> 'a outcome \<Rightarrow> string list \<Rightarrow> bool" where
  "staged_log names late Fail Good v cs \<longleftrightarrow>
     (\<exists>j \<le> length names. cs = take j names \<and> v \<in> Fail) \<or>
     (\<exists>rest. cs = names @ rest \<and> set rest \<subseteq> late \<and> v \<in> Good)"

definition stages ::
  "('w, 'a) prog \<Rightarrow> string list \<Rightarrow> string set \<Rightarrow> 'a outcome set \<Rightarrow> 'a outcome set \<Rightarrow> bool" where
  "stages p names late Fail Good \<longleftrightarrow>
     (\<forall>m. \<exists>new. log (snd (p m)) = log m @ new \<and>
        staged_log names late Fail Good (fst (p m)) (called new))"

text \<open>A way out: prints, no calls, an outcome in \<open>Fail\<close>.\<close>

definition quits :: "('w, 'a) prog \<Rightarrow> 'a outcome set \<Rightarrow> bool" where
  "quits p Fail \<longleftrightarrow> (\<forall>m. \<exists>new. log (snd (p m)) = log m @ new \<and> called new = [] \<and> fst (p m) \<in> Fail)"

text \<open>A part that only makes calls in \<open>late\<close>.\<close>

definition only_calls :: "('w, 'a) prog \<Rightarrow> string set \<Rightarrow> 'a outcome set \<Rightarrow> bool" where
  "only_calls p late Good \<longleftrightarrow>
     (\<forall>m. \<exists>new. log (snd (p m)) = log m @ new \<and> set (called new) \<subseteq> late \<and> fst (p m) \<in> Good)"

named_theorems stage_intro

section \<open>Rules\<close>

lemma staged_log_Cons:
  "staged_log names late Fail Good v cs \<Longrightarrow> staged_log (f # names) late Fail Good v (f # cs)"
proof -
  assume "staged_log names late Fail Good v cs"
  then consider j where "j \<le> length names" "cs = take j names" "v \<in> Fail"
    | rest where "cs = names @ rest" "set rest \<subseteq> late" "v \<in> Good"
    by (auto simp: staged_log_def)
  then show ?thesis
  proof cases
    case 1
    then have "f # cs = take (Suc j) (f # names)" "Suc j \<le> length (f # names)" by simp_all
    with 1 show ?thesis unfolding staged_log_def by blast
  next
    case 2
    then show ?thesis by (simp add: staged_log_def)
  qed
qed

lemma stages_sys [stage_intro]:
  fixes q :: "reply \<Rightarrow> ('w, 'a) prog"
  assumes "\<And>r. stages (q r) names late Fail Good"
  shows "stages (bnd (sys k f as) q) (f # names) late Fail Good"
  unfolding stages_def
proof
  fix m :: "'w mach"
  let ?r = "fst (k f as (world m))"
  let ?m = "after_call k f as m"
  obtain new where "log (snd (q ?r ?m)) = log ?m @ new"
      "staged_log names late Fail Good (fst (q ?r ?m)) (called new)"
    using assms [of ?r] unfolding stages_def by blast
  then show "\<exists>new. log (snd (bnd (sys k f as) q m)) = log m @ new \<and>
      staged_log (f # names) late Fail Good (fst (bnd (sys k f as) q m)) (called new)"
    by (intro exI [of _ "Call f as ?r # new"]) (simp add: bnd_sys_after log_after_call staged_log_Cons)
qed

lemma stages_printf [stage_intro]:
  fixes q :: "unit \<Rightarrow> ('w, 'a) prog"
  assumes "stages (q ()) names late Fail Good"
  shows "stages (bnd (printf s as) q) names late Fail Good"
  unfolding stages_def
proof
  fix m :: "'w mach"
  let ?m = "after_print s as m"
  obtain new where "log (snd (q () ?m)) = log ?m @ new"
      "staged_log names late Fail Good (fst (q () ?m)) (called new)"
    using assms unfolding stages_def by blast
  then show "\<exists>new. log (snd (bnd (printf s as) q m)) = log m @ new \<and>
      staged_log names late Fail Good (fst (bnd (printf s as) q m)) (called new)"
    by (intro exI [of _ "Print s as # new"]) (simp add: bnd_printf_after log_after_print)
qed

lemma stages_quits: "quits p Fail \<Longrightarrow> stages p names late Fail Good"
  unfolding quits_def stages_def staged_log_def by (metis le0 take0)

lemma stages_if [stage_intro]:
  "quits q Fail \<Longrightarrow> stages p names late Fail Good \<Longrightarrow>
   stages (if b then q else p) names late Fail Good"
  by (simp add: stages_quits)

lemma stages_whenP [stage_intro]:
  assumes "\<And>f. quits (bnd q f) Fail" and "stages (p ()) names late Fail Good"
  shows "stages (bnd (whenP b q) p) names late Fail Good"
  using assms by (cases b) (simp_all add: stages_quits)

lemma stages_bnd_if [stage_intro]:
  "quits (bnd q f) Fail \<Longrightarrow> stages (bnd p f) names late Fail Good \<Longrightarrow>
   stages (bnd (if b then q else p) f) names late Fail Good"
  by (simp add: stages_quits)

lemma stages_pair [stage_intro]:
  "stages (q a b) names late Fail Good \<Longrightarrow>
   stages (case (a, b) of (x, y) \<Rightarrow> q x y) names late Fail Good"
  by simp

lemma stages_bnd_ret [stage_intro]:
  "stages (q x) names late Fail Good \<Longrightarrow> stages (bnd (ret x) q) names late Fail Good"
  by simp

lemma stages_assoc [stage_intro]:
  "stages (bnd p (\<lambda>x. bnd (f x) g)) names late Fail Good \<Longrightarrow>
   stages (bnd (bnd p f) g) names late Fail Good"
  by (simp add: bnd_assoc)

lemma stages_andthen [stage_intro]:
  "stages (bnd p (\<lambda>_. q)) names late Fail Good \<Longrightarrow> stages (andthen p q) names late Fail Good"
  by (simp add: andthen_def)

lemma stages_only_calls: "only_calls p late Good \<Longrightarrow> stages p [] late Fail Good"
  unfolding only_calls_def stages_def staged_log_def by (metis append_Nil)

lemma stages_ret [stage_intro]: "Ret x \<in> Good \<Longrightarrow> stages (ret x) [] late Fail Good"
  unfolding stages_def staged_log_def by auto

lemma stages_exit [stage_intro]: "Exit c \<in> Good \<Longrightarrow> stages (exit_with c) [] late Fail Good"
  unfolding stages_def staged_log_def by auto

lemma quits_ret: "Ret x \<in> Fail \<Longrightarrow> quits (ret x) Fail"
  by (simp add: quits_def)

lemma quits_exit: "Exit c \<in> Fail \<Longrightarrow> quits (exit_with c) Fail"
  by (simp add: quits_def)

lemma quits_crash: "Crash e \<in> Fail \<Longrightarrow> quits (crash e) Fail"
  by (simp add: quits_def)

lemma quits_printf:
  fixes q :: "unit \<Rightarrow> ('w, 'a) prog"
  shows "quits (q ()) Fail \<Longrightarrow> quits (bnd (printf s as) q) Fail"
  unfolding quits_def
proof
  fix m :: "'w mach"
  assume *: "\<forall>m. \<exists>new. log (snd (q () m)) = log m @ new \<and> called new = [] \<and> fst (q () m) \<in> Fail"
  let ?m = "after_print s as m"
  obtain new where "log (snd (q () ?m)) = log ?m @ new" "called new = []" "fst (q () ?m) \<in> Fail"
    using * by blast
  then show "\<exists>new. log (snd (bnd (printf s as) q m)) = log m @ new \<and> called new = [] \<and>
      fst (bnd (printf s as) q m) \<in> Fail"
    by (intro exI [of _ "Print s as # new"]) (simp add: bnd_printf_after log_after_print)
qed

lemma quits_bnd_exit: "Exit c \<in> Fail \<Longrightarrow> quits (bnd (bnd (printf s as) (\<lambda>_. exit_with c)) f) Fail"
  by (simp add: bnd_assoc quits_printf quits_exit)

lemmas quits_intro [stage_intro] = quits_ret quits_exit quits_crash quits_printf quits_bnd_exit

lemma only_calls_ret [stage_intro]: "Ret x \<in> Good \<Longrightarrow> only_calls (ret x) late Good"
  by (auto simp: only_calls_def)

lemma only_calls_exit [stage_intro]: "Exit c \<in> Good \<Longrightarrow> only_calls (exit_with c) late Good"
  by (auto simp: only_calls_def)

lemma only_calls_crash [stage_intro]: "Crash e \<in> Good \<Longrightarrow> only_calls (crash e) late Good"
  by (auto simp: only_calls_def)

lemma only_calls_running [stage_intro]: "Running \<in> Good \<Longrightarrow> only_calls (\<lambda>m. (Running, m)) late Good"
  by (auto simp: only_calls_def)

lemma only_calls_sys [stage_intro]:
  fixes q :: "reply \<Rightarrow> ('w, 'a) prog"
  assumes "f \<in> late" and "\<And>r. only_calls (q r) late Good"
  shows "only_calls (bnd (sys k f as) q) late Good"
  unfolding only_calls_def
proof
  fix m :: "'w mach"
  let ?r = "fst (k f as (world m))"
  let ?m = "after_call k f as m"
  obtain new where "log (snd (q ?r ?m)) = log ?m @ new" "set (called new) \<subseteq> late" "fst (q ?r ?m) \<in> Good"
    using assms(2) [of ?r] unfolding only_calls_def by blast
  then show "\<exists>new. log (snd (bnd (sys k f as) q m)) = log m @ new \<and> set (called new) \<subseteq> late \<and>
      fst (bnd (sys k f as) q m) \<in> Good"
    using assms(1) by (intro exI [of _ "Call f as ?r # new"]) (simp add: bnd_sys_after log_after_call)
qed

lemma only_calls_query [stage_intro]:
  fixes q :: "'b \<Rightarrow> ('w, 'a) prog"
  assumes "f \<in> late" and "\<And>r. only_calls (q r) late Good"
  shows "only_calls (bnd (query h rep f as) q) late Good"
  unfolding only_calls_def
proof
  fix m :: "'w mach"
  let ?r = "fst (h (world m))"
  let ?m = "after_query h rep f as m"
  obtain new where "log (snd (q ?r ?m)) = log ?m @ new" "set (called new) \<subseteq> late" "fst (q ?r ?m) \<in> Good"
    using assms(2) [of ?r] unfolding only_calls_def by blast
  then show "\<exists>new. log (snd (bnd (query h rep f as) q m)) = log m @ new \<and> set (called new) \<subseteq> late \<and>
      fst (bnd (query h rep f as) q m) \<in> Good"
    using assms(1)
    by (intro exI [of _ "Call f as (rep ?r) # new"]) (simp add: bnd_query_after log_after_query)
qed

text \<open>A part whose value is used by the next: \<open>Good\<close> then ranges over the ways not to return.\<close>

lemma only_calls_bnd:
  fixes p :: "('w, 'b) prog" and q :: "'b \<Rightarrow> ('w, 'a) prog"
  assumes "only_calls p late (range Ret \<union> Exit ` C \<union> Crash ` F \<union> R)" and "R \<subseteq> {Running}"
    and "\<And>x. only_calls (q x) late Good"
    and "Exit ` C \<subseteq> Good" "Crash ` F \<subseteq> Good" "Running \<in> R \<Longrightarrow> Running \<in> Good"
  shows "only_calls (bnd p q) late Good"
  unfolding only_calls_def
proof
  fix m :: "'w mach"
  obtain v m' where pm: "p m = (v, m')" by (cases "p m")
  obtain new where new: "log m' = log m @ new" "set (called new) \<subseteq> late"
      "v \<in> range Ret \<union> Exit ` C \<union> Crash ` F \<union> R"
    using assms(1) pm unfolding only_calls_def by (metis fst_conv snd_conv)
  show "\<exists>new. log (snd (bnd p q m)) = log m @ new \<and> set (called new) \<subseteq> late \<and> fst (bnd p q m) \<in> Good"
  proof (cases v)
    case (Ret x)
    obtain new2 where "log (snd (q x m')) = log m' @ new2" "set (called new2) \<subseteq> late" "fst (q x m') \<in> Good"
      using assms(3) [of x] unfolding only_calls_def by blast
    then show ?thesis using new pm Ret
      by (intro exI [of _ "new @ new2"]) (simp add: bnd_step)
  qed (use new pm assms(2,4-6) in \<open>auto simp: bnd_step\<close>)
qed

lemma only_calls_printf [stage_intro]:
  fixes q :: "unit \<Rightarrow> ('w, 'a) prog"
  assumes "only_calls (q ()) late Good" shows "only_calls (bnd (printf s as) q) late Good"
  unfolding only_calls_def
proof
  fix m :: "'w mach"
  let ?m = "after_print s as m"
  obtain new where "log (snd (q () ?m)) = log ?m @ new" "set (called new) \<subseteq> late" "fst (q () ?m) \<in> Good"
    using assms unfolding only_calls_def by blast
  then show "\<exists>new. log (snd (bnd (printf s as) q m)) = log m @ new \<and> set (called new) \<subseteq> late \<and>
      fst (bnd (printf s as) q m) \<in> Good"
    by (intro exI [of _ "Print s as # new"]) (simp add: bnd_printf_after log_after_print)
qed

lemma only_calls_if [stage_intro]:
  "only_calls p late Good \<Longrightarrow> only_calls q late Good \<Longrightarrow> only_calls (if b then p else q) late Good"
  by simp

lemma only_calls_whenP [stage_intro]:
  assumes "\<And>f. only_calls (bnd q f) late Good \<or> quits (bnd q f) Good" and "only_calls (p ()) late Good"
  shows "only_calls (bnd (whenP b q) p) late Good"
proof (cases b)
  case True
  have "quits (bnd q p) Good \<Longrightarrow> only_calls (bnd q p) late Good"
    unfolding quits_def only_calls_def by (metis bot.extremum list.set(1))
  then show ?thesis using assms(1) [of p] True by auto
qed (use assms(2) in simp)

lemma only_calls_assoc [stage_intro]:
  "only_calls (bnd p (\<lambda>x. bnd (f x) g)) late Good \<Longrightarrow> only_calls (bnd (bnd p f) g) late Good"
  by (simp add: bnd_assoc)

section \<open>Loops without an exit\<close>

text \<open>The ways a program that never returns can end: an exit with one code, a fault, or not at all. \<open>loop_ends\<close>
  adds the values a part of its loop returns.\<close>

definition no_return :: "int \<Rightarrow> 'a outcome set" where
  "no_return c = {Exit c, Running} \<union> range Crash"

definition loop_ends :: "int \<Rightarrow> 'a outcome set" where
  "loop_ends c = range Ret \<union> {Exit c, Running} \<union> range Crash"

lemma loop_ends_intro [simp]:
  "Ret x \<in> loop_ends c" "Exit c \<in> loop_ends c" "Running \<in> loop_ends c" "Crash e \<in> loop_ends c"
  "Exit c \<in> no_return c" "Running \<in> no_return c" "Crash e \<in> no_return c" "Ret x \<notin> no_return c"
  by (auto simp: loop_ends_def no_return_def)

lemma only_calls_then:
  fixes p :: "('w, 'b) prog" and q :: "'b \<Rightarrow> ('w, 'a) prog"
  assumes "only_calls p late (loop_ends c)" and "\<And>x. only_calls (q x) late (loop_ends c)"
  shows "only_calls (bnd p q) late (loop_ends c)"
  by (rule only_calls_bnd [where C = "{c}" and F = UNIV and R = "{Running}"])
    (use assms in \<open>auto simp: loop_ends_def insert_commute\<close>)

lemma only_calls_pureE: "only_calls (pureE r) late (loop_ends c)"
  by (cases r) (simp_all add: stage_intro)

lemma only_calls_last:
  "only_calls (printf s as) late (loop_ends c)"
  "f \<in> late \<Longrightarrow> only_calls (sys k f as) late (loop_ends c)"
  "f \<in> late \<Longrightarrow> only_calls (query h rep f as) late (loop_ends c)"
  "only_calls (ret x) late (loop_ends c)" "only_calls (crash e) late (loop_ends c)"
  "only_calls (exit_with c) late (loop_ends c)"
  by (auto simp: only_calls_def printf_def sys_def query_def Let_def split: prod.splits)

lemma only_calls_case_option:
  "only_calls p late Good \<Longrightarrow> (\<And>x. only_calls (q x) late Good) \<Longrightarrow>
   only_calls (case v of None \<Rightarrow> p | Some x \<Rightarrow> q x) late Good"
  by (cases v) simp_all

lemma only_calls_case_prod:
  "(\<And>x y. only_calls (q x y) late Good) \<Longrightarrow> only_calls (case v of (x, y) \<Rightarrow> q x y) late Good"
  by (cases v) simp

lemmas loop_intro = only_calls_then only_calls_pureE only_calls_last only_calls_if
  only_calls_case_option only_calls_case_prod

lemma only_calls_for_each:
  "(\<And>x. only_calls (f x) late (loop_ends c)) \<Longrightarrow> only_calls (for_each xs f) late (loop_ends c)"
  by (induction xs) (simp_all add: andthen_def loop_intro)

lemma only_calls_forever:
  assumes "only_calls p late (loop_ends c)"
  shows "only_calls (forever n p :: ('w, 'a) prog) late (no_return c :: 'a outcome set)"
proof (induction n)
  case 0
  then show ?case by (simp add: only_calls_running)
next
  case (Suc n)
  have "only_calls (bnd p (\<lambda>_. forever n p)) late (no_return c :: 'a outcome set)"
    by (rule only_calls_bnd [where C = "{c}" and F = UNIV and R = "{Running}"])
      (use assms Suc.IH in \<open>auto simp: loop_ends_def insert_commute\<close>)
  then show ?case by (simp add: andthen_def)
qed

text \<open>What follows a part that cannot return is never reached.\<close>

lemma only_calls_never:
  fixes p :: "('w, 'b) prog" and q :: "'b \<Rightarrow> ('w, 'a) prog"
  assumes "only_calls p late (no_return c :: 'b outcome set)"
  shows "only_calls (bnd p q) late (no_return c :: 'a outcome set)"
  unfolding only_calls_def
proof
  fix m :: "'w mach"
  obtain v m' where pm: "p m = (v, m')" by (cases "p m")
  obtain new where new: "log m' = log m @ new" "set (called new) \<subseteq> late" "v \<in> no_return c"
    using assms pm unfolding only_calls_def by (metis fst_conv snd_conv)
  then show "\<exists>new. log (snd (bnd p q m)) = log m @ new \<and> set (called new) \<subseteq> late \<and>
      fst (bnd p q m) \<in> no_return c"
    using pm by (cases v) (auto simp: no_return_def bnd_step)
qed

section \<open>What every event of a run satisfies\<close>

definition emits :: "(event \<Rightarrow> bool) \<Rightarrow> ('w, 'a) prog \<Rightarrow> bool" where
  "emits P p \<longleftrightarrow> (\<forall>m. \<exists>new. log (snd (p m)) = log m @ new \<and> (\<forall>e \<in> set new. P e))"

named_theorems emits_intro

lemma emits_last [emits_intro]:
  "emits P (ret x)" "emits P (exit_with c)" "emits P (crash flt)"
  "emits P (\<lambda>m. (Running, m))" "emits P (pureE r)"
  "P (Print s as) \<Longrightarrow> emits P (printf s as)"
  "(\<And>r. P (Call f as r)) \<Longrightarrow> emits P (sys k f as)"
  "(\<And>r. P (Call f as r)) \<Longrightarrow> emits P (query h rep f as)"
  by (auto simp: emits_def stmt_defs query_def Let_def split: prod.splits sum.splits)

lemma emits_bnd [emits_intro]:
  fixes p :: "('w, 'b) prog" and q :: "'b \<Rightarrow> ('w, 'a) prog"
  assumes "emits P p" and "\<And>x. emits P (q x)"
  shows "emits P (bnd p q)"
  unfolding emits_def
proof
  fix m :: "'w mach"
  obtain v m' where pm: "p m = (v, m')" by (cases "p m")
  obtain new where new: "log m' = log m @ new" "\<forall>e \<in> set new. P e"
    using assms(1) pm unfolding emits_def by (metis snd_conv)
  show "\<exists>new. log (snd (bnd p q m)) = log m @ new \<and> (\<forall>e \<in> set new. P e)"
  proof (cases v)
    case (Ret x)
    obtain new2 where "log (snd (q x m')) = log m' @ new2" "\<forall>e \<in> set new2. P e"
      using assms(2) [of x] unfolding emits_def by blast
    then show ?thesis using new pm Ret
      by (intro exI [of _ "new @ new2"]) (auto simp: bnd_step)
  qed (use new pm in \<open>auto simp: bnd_step\<close>)
qed

lemma emits_control [emits_intro]:
  "emits P p \<Longrightarrow> emits P q \<Longrightarrow> emits P (if b then p else q)"
  "emits P p' \<Longrightarrow> emits P (whenP b p')"
  by (simp_all add: whenP_def emits_last)

lemma emits_for_each [emits_intro]:
  "(\<And>x. emits P (f x)) \<Longrightarrow> emits P (for_each xs f)"
  by (induction xs) (simp_all add: andthen_def emits_intro)

lemma emits_calls:
  assumes "emits P p" and "(f, as) \<in> set (run_calls p m)"
  shows "\<exists>r. P (Call f as r)"
proof -
  obtain new where new: "log (snd (p m)) = log m @ new" "\<forall>e \<in> set new. P e"
    using assms(1) unfolding emits_def by blast
  then have "(f, as) \<in> set (calls new)" using assms(2) by (simp add: run_calls_def new_events_def)
  then have "\<exists>r. Call f as r \<in> set new" by (induction new rule: calls.induct) auto
  then show ?thesis using new(2) by blast
qed

lemma emits_prints:
  assumes "emits P p" and "(s, as) \<in> set (run_prints p m)"
  shows "P (Print s as)"
proof -
  obtain new where new: "log (snd (p m)) = log m @ new" "\<forall>e \<in> set new. P e"
    using assms(1) unfolding emits_def by blast
  then have "(s, as) \<in> set (prints new)" using assms(2) by (simp add: run_prints_def new_events_def)
  then have "Print s as \<in> set new" by (induction new rule: prints.induct) auto
  then show ?thesis using new(2) by blast
qed

section \<open>What the contract gives\<close>

lemma stages_new:
  assumes "stages p names late Fail Good"
  shows "staged_log names late Fail Good (fst (p m)) (called (new_events m (snd (p m))))"
proof -
  obtain new where "log (snd (p m)) = log m @ new"
      "staged_log names late Fail Good (fst (p m)) (called new)"
    using assms unfolding stages_def by blast
  then show ?thesis by (simp add: new_events_def)
qed

locale staged =
  fixes p :: "('w, 'a) prog" and names :: "string list" and late :: "string set"
    and Fail Good :: "'a outcome set"
  assumes contract: "stages p names late Fail Good"
begin

lemma log_shape: "staged_log names late Fail Good (fst (p m)) (called (new_events m (snd (p m))))"
  by (rule stages_new [OF contract])

lemma outcome: "fst (p m) \<in> Fail \<union> Good"
  using log_shape [of m] by (auto simp: staged_log_def)

text \<open>Not failing means that every stage was passed.\<close>

lemma all_stages:
  assumes "fst (p m) \<notin> Fail"
  shows "take (length names) (called (new_events m (snd (p m)))) = names"
  using log_shape [of m] assms by (auto simp: staged_log_def)

text \<open>A call of the last part is made only after every stage.\<close>

lemma late_after_all:
  assumes "f \<in> set (called (new_events m (snd (p m))))" and "f \<notin> set names"
  shows "take (length names) (called (new_events m (snd (p m)))) = names \<and> f \<in> late"
  using log_shape [of m] assms by (auto simp: staged_log_def dest: in_set_takeD)

text \<open>A stage is reached only through all the earlier ones.\<close>

lemma stage_prefix:
  "\<exists>j. take (length names) (called (new_events m (snd (p m)))) = take j names"
  using log_shape [of m] by (auto simp: staged_log_def intro: exI [of _ "length names"])

end

end
