(* ===== verification/BpfClaims.thy ===== *)
theory BpfClaims
  imports BpfPrograms CStages
begin

text \<open>
  The dotted-quad text of an address, its inverse and its size, and the properties of the
  kernel-side BPF programs.
\<close>

section \<open>Dotted quads\<close>

fun split_dot :: "string \<Rightarrow> string list" where
  "split_dot [] = [[]]"
| "split_dot (c # cs) =
     (if c = CHR ''.'' then [] # split_dot cs
      else case split_dot cs of [] \<Rightarrow> [[c]] | w # ws \<Rightarrow> (c # w) # ws)"

definition parse_quad :: "string \<Rightarrow> u32 option" where
  "parse_quad s =
     (case map undec (split_dot s) of
        [a, b, c, d] \<Rightarrow> Some (join32 (of_nat d) (of_nat c) (of_nat b) (of_nat a))
      | _ \<Rightarrow> None)"

lemma split_dot_nonempty [simp]: "split_dot s \<noteq> []"
  by (induction s) (auto split: list.splits)

lemma split_dot_word: "CHR ''.'' \<notin> set w \<Longrightarrow> split_dot w = [w]"
  by (induction w) auto

lemma split_dot_append: "CHR ''.'' \<notin> set w \<Longrightarrow> split_dot (w @ CHR ''.'' # s) = w # split_dot s"
  by (induction w) auto

definition quad_text :: "u8 \<Rightarrow> u8 \<Rightarrow> u8 \<Rightarrow> u8 \<Rightarrow> string" where
  "quad_text a b c d =
     dec_nat (unat a) @ ''.'' @ dec_nat (unat b) @ ''.'' @ dec_nat (unat c) @ ''.'' @ dec_nat (unat d)"

lemma unat_u8_lt: "unat (x :: u8) < 10 ^ 3"
proof -
  have "unat x < 2 ^ LENGTH(8)" by (rule unsigned_less)
  then show ?thesis by simp
qed

lemma length_quad_text: "length (quad_text a b c d) \<le> 15"
proof -
  have "length (dec_nat (unat x)) \<le> 3" for x :: u8
    by (rule length_dec_nat_le [OF _ unat_u8_lt]) simp
  from this [of a] this [of b] this [of c] this [of d] show ?thesis
    by (simp add: quad_text_def)
qed

lemma parse_quad_text: "parse_quad (quad_text a b c d) = Some (join32 d c b a)"
  by (simp add: parse_quad_def quad_text_def split_dot_append split_dot_word)

lemma uint_octet: "fmt_d (uint (drop_bit (8 * k) a AND 0xff)) = dec_nat (unat (byte_at k (a :: u32)))"
proof -
  have "unat (drop_bit (8 * k) a AND 0xff) = unat (byte_at k a)"
    by (simp add: unat_and_255 byte_at_def)
  then have "nat (uint (drop_bit (8 * k) a AND 0xff)) = unat (byte_at k a)"
    by simp
  then show ?thesis by (simp add: fmt_d_def)
qed

lemma u32_to_addr_quad:
  "u32_to_addr a 16 = quad_text (byte_at 0 a) (byte_at 1 a) (byte_at 2 a) (byte_at 3 a)"
proof -
  let ?q = "quad_text (byte_at 0 a) (byte_at 1 a) (byte_at 2 a) (byte_at 3 a)"
  have "u32_to_addr a 16 = take 15 ?q"
    using uint_octet [of 0 a] uint_octet [of 1 a] uint_octet [of 2 a] uint_octet [of 3 a]
    by (simp add: u32_to_addr_def snprintf_def quad_text_def)
  then show ?thesis using length_quad_text by simp
qed

text \<open>What a program that prints addresses relies on: the text fits its buffer and can be read back.\<close>

locale addr_text =
  fixes show_addr :: "u32 \<Rightarrow> string" and read_addr :: "string \<Rightarrow> u32 option" and room :: nat
  assumes read_show: "read_addr (show_addr a) = Some a" and fits: "length (show_addr a) < room"
begin

lemma show_addr_inject: "show_addr a = show_addr b \<longleftrightarrow> a = b"
  by (metis option.inject read_show)

lemma no_truncation: "snprintf room (show_addr a) = show_addr a"
  using fits [of a] by (simp add: snprintf_def)

end

interpretation quad: addr_text "\<lambda>a. u32_to_addr a 16" parse_quad 16
proof
  fix a
  show "parse_quad (u32_to_addr a 16) = Some a"
    by (simp add: u32_to_addr_quad parse_quad_text)
  show "length (u32_to_addr a 16) < 16"
    using length_quad_text [of "byte_at 0 a" "byte_at 1 a" "byte_at 2 a" "byte_at 3 a"]
    by (simp add: u32_to_addr_quad)
qed

text \<open>
  C40: the text that \<open>u32_to_addr\<close> writes into its 16-byte buffers is never cut off (the NUL
  included), and the address can be read back from it, so two addresses never print alike.
\<close>

theorem u32_to_addr_roundtrip:
  "parse_quad (u32_to_addr a 16) = Some a \<and> length (u32_to_addr a 16) + 1 \<le> 16 \<and>
   (u32_to_addr a 16 = u32_to_addr b 16 \<longleftrightarrow> a = b)"
  using quad.read_show [of a] quad.fits [of a] quad.show_addr_inject [of a b] by simp

section \<open>tcp\_connect probe\<close>

text \<open>The two reads the probe makes, in its order.\<close>

definition read_src :: "'w host \<Rightarrow> u64 \<Rightarrow> 'w \<Rightarrow> reply \<times> 'w" where
  "read_src k sk w = k ''bpf_probe_read_kernel'' [I 4, I (uint (sk + 4))] w"

definition read_dst :: "'w host \<Rightarrow> u64 \<Rightarrow> 'w \<Rightarrow> reply \<times> 'w" where
  "read_dst k sk w = k ''bpf_probe_read_kernel'' [I 4, I (uint sk)] w"

text \<open>
  the probe always returns 0. It makes no call for a null socket, stops at the first
  failing read, and otherwise prints one line with the source and the destination in dotted
  form.
\<close>

theorem connect_probe_spec:
  "let (r1, w1) = read_src k sk (world m); (r2, w2) = read_dst k sk w1;
       line = [S (ln ''tcp_connect: %s -> %s ''), I 24,
               S (u32_to_addr (u32_from (out r1) 0) 16), S (u32_to_addr (u32_from (out r2) 0) 16)];
       r1' = Call ''bpf_probe_read_kernel'' [I 4, I (uint (sk + 4))] r1;
       r2' = Call ''bpf_probe_read_kernel'' [I 4, I (uint sk)] r2
   in fst (connect_bpf_prog k sk m) = Ret 0 \<and>
      log (snd (connect_bpf_prog k sk m)) = log m @
        (if sk = 0 then [] else if rv r1 \<noteq> 0 then [r1'] else if rv r2 \<noteq> 0 then [r1', r2']
         else [r1', r2', Call ''bpf_trace_printk'' line (fst (k ''bpf_trace_printk'' line w2))])"
  by (simp add: connect_bpf_prog_def read_src_def read_dst_def run_rules trace_printk_def
      sizeof_str_def ln_def Let_def split: prod.splits)

text \<open>Kernel memory that holds a \<open>struct sock_common\<close> at the address \<open>sk\<close>.\<close>

definition holds_sock :: "'w host \<Rightarrow> u64 \<Rightarrow> sock_common \<Rightarrow> bool" where
  "holds_sock k sk s \<longleftrightarrow> (\<forall>w n i. i + n \<le> 19 \<longrightarrow>
     fst (k ''bpf_probe_read_kernel'' [I (int n), I (uint (sk + of_nat i))] w) =
       \<lparr>rv = 0, eno = 0, out = take n (drop i (sock_common_bytes s))\<rparr>)"

lemma u32_from_le32 [simp]: "u32_from (le32 x) 0 = x"
  by (simp add: u32_from_def byte_of_def le32_def join32_bytes)

text \<open>The two fields the probe reads are the addresses of the socket, local first.\<close>

lemma sock_common_reads:
  "take 4 (drop 0 (sock_common_bytes s)) = le32 (skc_daddr s)"
  "take 4 (drop 4 (sock_common_bytes s)) = le32 (skc_rcv_saddr s)"
  by (simp_all add: sock_common_bytes_def)

text \<open>
  On a socket in memory the probe prints its local address and then its remote address.
\<close>

theorem connect_probe_reads_socket:
  fixes m :: "'w mach"
  assumes "holds_sock k sk s" and "sk \<noteq> 0"
  shows "last (run_calls (connect_bpf_prog k sk) m) =
    (''bpf_trace_printk'', [S (ln ''tcp_connect: %s -> %s ''), I 24,
       S (u32_to_addr (skc_rcv_saddr s) 16), S (u32_to_addr (skc_daddr s) 16)])"
proof -
  have r: "fst (k ''bpf_probe_read_kernel'' [I 4, I (uint (sk + 4))] w) =
        \<lparr>rv = 0, eno = 0, out = le32 (skc_rcv_saddr s)\<rparr>"
      "fst (k ''bpf_probe_read_kernel'' [I 4, I (uint sk)] w) =
        \<lparr>rv = 0, eno = 0, out = le32 (skc_daddr s)\<rparr>" for w
    using assms(1) [unfolded holds_sock_def, rule_format, of 4 4 w]
      assms(1) [unfolded holds_sock_def, rule_format, of 0 4 w]
    by (simp_all add: sock_common_reads sock_common_reads(1) [simplified])
  show ?thesis
    using assms(2) r
    by (simp add: connect_bpf_prog_def trace_printk_def step_rules run_defs sizeof_str_def ln_def Let_def)
qed

section \<open>Verdict on redirected sockets\<close>

text \<open>
  What the packet says, in the bytes as they lie in memory: the Ethernet type of IPv4 is \<open>08 00\<close>, the port
  5201 is \<open>14 51\<close> in network order, and the kernel keeps the remote port in the upper half of its field.
\<close>

definition is_ipv4 :: "sk_buff \<Rightarrow> bool" where
  "is_ipv4 skb \<longleftrightarrow> map (\<lambda>i. byte_at i (skb_protocol skb)) [0, 1] = [0x08, 0x00]"

definition remote_bytes :: "sk_buff \<Rightarrow> u8 list" where
  "remote_bytes skb = map (\<lambda>i. byte_at i (remote_port skb)) [2, 3]"

lemma bswap16_low: "bswap16 (ucast (v :: u32)) = join16 a b \<longleftrightarrow> byte_at 0 v = a \<and> byte_at 1 v = b"
proof -
  have "byte_at 0 (ucast v :: u16) = byte_at 0 v" "byte_at 1 (ucast v :: u16) = byte_at 1 v"
    unfolding byte_at_def by (rule bit_word_eqI; auto simp: bit_simps)+
  then show ?thesis by (simp add: bswap16_def join16_inject)
qed

lemma bswap16_high: "bswap16 (ucast (drop_bit 16 (v :: u32))) = join16 (byte_at 2 v) (byte_at 3 v)"
proof -
  have "byte_at 0 (ucast (drop_bit 16 v) :: u16) = byte_at 2 v" "byte_at 1 (ucast (drop_bit 16 v) :: u16) = byte_at 3 v"
    unfolding byte_at_def by (rule bit_word_eqI; auto simp: bit_simps add.commute)+
  then show ?thesis by (simp add: bswap16_def)
qed

lemma uint_join16: "uint (join16 a b) = 256 * uint a + uint b"
proof -
  obtain x where x: "x = uint (join16 a b)" by blast
  have "x < 65536" "0 \<le> x" using unsigned_less [of "join16 a b"] x by simp_all
  then have "x div 256 mod 256 = x div 256" by (intro mod_pos_pos_trivial) simp_all
  then have "x = 256 * (x div 256 mod 256) + x mod 256" by simp
  moreover have "uint b = x mod 256" "uint a = x div 256 mod 256"
    using uint_byte_at [of 0 "join16 a b"] uint_byte_at [of 1 "join16 a b"] x by simp_all
  ultimately show ?thesis using x by simp
qed

lemma verdict_tests:
  "bswap16 (ucast (skb_protocol skb)) = 0x800 \<longleftrightarrow> is_ipv4 skb"
  "bswap16 (ucast (drop_bit 16 (remote_port skb))) = 5201 \<longleftrightarrow> remote_bytes skb = [0x14, 0x51]"
proof -
  have c: "(0x800 :: u16) = join16 8 0" "(5201 :: u16) = join16 0x14 0x51" by (simp_all add: join16_def)
  show "bswap16 (ucast (skb_protocol skb)) = 0x800 \<longleftrightarrow> is_ipv4 skb"
    unfolding c bswap16_low is_ipv4_def by simp
  show "bswap16 (ucast (drop_bit 16 (remote_port skb))) = 5201 \<longleftrightarrow> remote_bytes skb = [0x14, 0x51]"
    unfolding c bswap16_high remote_bytes_def by (simp add: join16_inject)
qed

definition redirect_to :: "string \<Rightarrow> bpf_map_def \<Rightarrow> arg list" where
  "redirect_to name d = [Sym ''skb'', map_arg name d, I 0, I 0]"

lemma verdict_cases:
  "let (v, m') = bpf_prog_verdict k skb m; reds = call_answers ''bpf_sk_redirect_map'' (new_events m m') in
   if is_ipv4 skb \<and> local_port skb = 5201 then \<exists>r. reds = [(redirect_to ''sock_redir'' sock_redir, r)] \<and> v = Ret (rv r)
   else if is_ipv4 skb \<and> remote_bytes skb = [0x14, 0x51] then \<exists>r. reds = [(redirect_to ''sock_store'' sock_store, r)] \<and> v = Ret (rv r)
   else reds = [] \<and> v = Ret 1"
  by (simp add: bpf_prog_verdict_def verdict_tests trace_printk_def run_rules new_events_def redirect_to_def
      Let_def split: prod.splits)

text \<open>
  C9: for every packet, the verdict program redirects it at most once, to slot 0 of one of the two maps:
  to \<open>sock_redir\<close> exactly when its type bytes are those of IPv4 and its local port is 5201, to
  \<open>sock_store\<close> exactly when they are, its remote port bytes are those of 5201 and its local port is another. The
  verdict is the answer of the redirection, and \<open>SK_PASS\<close> without one. The second trace line of an IPv4
  packet has both ports as numbers.
\<close>

theorem verdict_by_bytes:
  "let (v, m') = bpf_prog_verdict k skb m; new = new_events m m';
       reds = call_answers ''bpf_sk_redirect_map'' new in
   length reds \<le> 1 \<and> v = (case reds of [] \<Rightarrow> Ret 1 | (_, r) # _ \<Rightarrow> Ret (rv r)) \<and>
   set (map fst reds) \<subseteq> {redirect_to ''sock_redir'' sock_redir, redirect_to ''sock_store'' sock_store} \<and>
   (redirect_to ''sock_redir'' sock_redir \<in> set (map fst reds) \<longleftrightarrow> is_ipv4 skb \<and> local_port skb = 5201) \<and>
   (redirect_to ''sock_store'' sock_store \<in> set (map fst reds) \<longleftrightarrow>
      is_ipv4 skb \<and> remote_bytes skb = [0x14, 0x51] \<and> local_port skb \<noteq> 5201) \<and>
   (calls new ! 1 = (''bpf_trace_printk'', [S (ln ''bpf_prog_verdict: %d -> %d ''), I 29, I (sint (local_port skb)),
      I (256 * uint (remote_bytes skb ! 0) + uint (remote_bytes skb ! 1))]) \<longleftrightarrow> is_ipv4 skb)"
proof -
  obtain v m' where run: "bpf_prog_verdict k skb m = (v, m')" by fastforce
  have ne: "redirect_to ''sock_redir'' sock_redir \<noteq> redirect_to ''sock_store'' sock_store"
    by (simp add: redirect_to_def map_arg_def)
  have "calls (new_events m m') ! 1 = (''bpf_trace_printk'', [S (ln ''bpf_prog_verdict: %d -> %d ''), I 29,
      I (sint (local_port skb)), I (256 * uint (remote_bytes skb ! 0) + uint (remote_bytes skb ! 1))]) \<longleftrightarrow> is_ipv4 skb"
    using run
    by (auto simp: bpf_prog_verdict_def verdict_tests bswap16_high uint_join16 remote_bytes_def trace_printk_def
        run_rules new_events_def sizeof_str_def ln_def split: if_splits)
  then show ?thesis
    using verdict_cases [of k skb m] ne unfolding run Let_def by (auto split: if_splits)
qed

definition demo_skb :: sk_buff where
  "demo_skb = \<lparr>skb_len = 60, pkt_type = 0, skb_mark = 0, queue_mapping = 0, skb_protocol = 8,
     vlan_present = 0, vlan_tci = 0, vlan_proto = 0, priority = 0, ingress_ifindex = 0, ifindex = 0,
     tc_index = 0, cb = [], skb_hash = 0, tc_classid = 0, skb_data = 0, data_end = 0, napi_id = 0,
     skb_family = 0, remote_ip4 = 0, local_ip4 = 0, remote_ip6 = [], local_ip6 = [],
     remote_port = 0x51140000, local_port = 40000, data_meta = 0, flow_keys = 0, tstamp = 0,
     wire_len = 0, gso_segs = 0, skb_sk = 0, gso_size = 0, tstamp_type = 0, hwtstamp = 0\<rparr>"

section \<open>UDP socket filter\<close>

lemma bswap32_u16: "bswap32 (ucast x) = push_bit 16 (ucast (bswap16 x))"
  unfolding bswap32_def bswap16_def join32_def join16_def byte_at_def
  by (rule bit_word_eqI) (auto simp: bit_simps dest: bit_imp_le_length)

text \<open>
  the filter keeps the whole packet when both headers can be read and drops it
  otherwise; the numbers it prints for the ports are the ports times 65536, because a 16-bit
  field goes through the 32-bit byte swap.
\<close>

theorem addr_dump_spec:
  "let (r1, w1) = k ''bpf_skb_load_bytes'' [Sym ''skb'', I 0, I 8] (world m);
       udp = udphdr_of (out r1);
       line = [S (ln ''msg: %d %d ''), I 13,
               I (sint (push_bit 16 (ucast (bswap16 (udp_source udp))) :: u32)),
               I (sint (push_bit 16 (ucast (bswap16 (udp_dest udp))) :: u32))];
       (t, w2) = k ''bpf_trace_printk'' line w1;
       (r2, w3) = k ''bpf_skb_load_bytes_relative''
                    [Sym ''skb'', I 0, I 20, Sym ''BPF_HDR_START_NET''] w2;
       (v, m') = addr_dump k skb m
   in (rv r1 < 0 \<longrightarrow> v = Ret 0 \<and> called (log m') =
         called (log m) @ [''bpf_skb_load_bytes'', ''bpf_trace_printk'']) \<and>
      (0 \<le> rv r1 \<longrightarrow> v = Ret (if rv r2 < 0 then 0 else sint (skb_len skb)) \<and>
         log m' ! (length (log m) + 1) = Call ''bpf_trace_printk'' line t)"
  by (auto simp: addr_dump_def trace_printk_def run_rules Let_def sizeof_str_def ln_def bswap32_u16
      nth_append split: prod.splits)

text \<open>A host whose helpers all succeed and store nothing.\<close>

definition quiet_host :: "unit host" where
  "quiet_host f as w = (\<lparr>rv = 0, eno = 0, out = []\<rparr>, w)"

lemma addr_dump_spec_witness:
  "fst (addr_dump quiet_host demo_skb (start ())) = Ret 60"
  using addr_dump_spec [of quiet_host "start ()" demo_skb]
  by (simp add: quiet_host_def start_def demo_skb_def Let_def split: prod.splits)

section \<open>The loop program and the addition probe\<close>

lemma for_each_calls:
  assumes "\<And>x m. x \<in> set xs \<Longrightarrow> \<exists>w r. f x m = (Ret (), m\<lparr>world := w, log := log m @ [Call g as r]\<rparr>)"
  shows "\<exists>w new. for_each xs f m = (Ret (), m\<lparr>world := w, log := log m @ new\<rparr>) \<and>
           calls new = replicate (length xs) (g, as) \<and> prints new = []"
  using assms
proof (induction xs arbitrary: m)
  case Nil
  show ?case by (rule exI [of _ "world m"], rule exI [of _ "[]"]) (simp add: ret_run)
next
  case (Cons x xs)
  obtain w r where fx: "f x m = (Ret (), m\<lparr>world := w, log := log m @ [Call g as r]\<rparr>)"
    using Cons.prems [of x m] by auto
  obtain w' new where rest: "for_each xs f (m\<lparr>world := w, log := log m @ [Call g as r]\<rparr>) =
        (Ret (), m\<lparr>world := w', log := log m @ Call g as r # new\<rparr>)"
      "calls new = replicate (length xs) (g, as)" "prints new = []"
    using Cons.IH [of "m\<lparr>world := w, log := log m @ [Call g as r]\<rparr>"] Cons.prems by fastforce
  have "for_each (x # xs) f m = (Ret (), m\<lparr>world := w', log := log m @ Call g as r # new\<rparr>)"
    using fx rest(1) by (simp add: andthen_def bnd_def)
  with rest(2,3) show ?case
    by (intro exI [of _ w'] exI [of _ "Call g as r # new"]) simp
qed

text \<open>
  the loop program prints its message exactly forty thousand times and returns 0,
  whatever the helper answers.
\<close>

theorem while_prog_spec:
  "\<exists>w new. while_bpf_prog k m = (Ret 0, m\<lparr>world := w, log := log m @ new\<rparr>) \<and>
     calls new = replicate 40000 (''bpf_trace_printk'', [S (ln ''test while ''), I 13])"
proof -
  have "\<exists>w r. bnd (trace_printk k (ln ''test while '') []) (\<lambda>_. ret ()) m =
      (Ret (), m\<lparr>world := w, log := log m @
        [Call ''bpf_trace_printk'' [S (ln ''test while ''), I 13] r]\<rparr>)" for m
    by (auto simp: trace_printk_def run_rules sizeof_str_def ln_def)
  from for_each_calls [of "[0..<40000::nat]" _ _ _ m, OF this]
  obtain w new where loop: "for_each [0..<40000::nat]
        (\<lambda>index. bnd (trace_printk k (ln ''test while '') []) (\<lambda>_. ret ())) m =
        (Ret (), m\<lparr>world := w, log := log m @ new\<rparr>)"
      "calls new = replicate 40000 (''bpf_trace_printk'', [S (ln ''test while ''), I 13])"
    by (auto simp del: upt_rec_numeral)
  then show ?thesis
    by (auto simp: while_bpf_prog_def bnd_def ret_run simp del: upt_rec_numeral)
qed

text \<open>
  the addition returns the exact sum or overflows, the test program gets 157, and the
  probe on it prints the same sum and changes nothing else.
\<close>

theorem add_probe_spec:
  "add_main = Inr 157 \<and>
   (case add a b of
      Inl e \<Rightarrow> e = SignedOverflow \<and> \<not> (- (2 ^ 31) \<le> sint a + sint b \<and> sint a + sint b < 2 ^ 31) \<and>
              add_probe k a b m = (Crash e, m)
    | Inr c \<Rightarrow> sint c = sint a + sint b \<and>
        (\<exists>w r. add_probe k a b m = (Ret 0, m\<lparr>world := w, log := log m @
           [Call ''bpf_trace_printk'' [S (ln ''add: %d + %d = %d''), I 19, I (sint a), I (sint b),
              I (sint a + sint b)] r]\<rparr>)))"
proof -
  have "add_main = Inr 157" by (simp add: add_main_def add_def int_add_def)
  moreover have "int_add a b = Inr c \<Longrightarrow>
      \<exists>w r. add_probe k a b m = (Ret 0, m\<lparr>world := w, log := log m @
           [Call ''bpf_trace_printk'' [S (ln ''add: %d + %d = %d''), I 19, I (sint a), I (sint b),
              I (sint a + sint b)] r]\<rparr>)" for c
    using sint_int_add [of a b c]
    by (auto simp: add_probe_def trace_printk_def run_rules sizeof_str_def ln_def)
  moreover have "int_add a b = Inl e \<Longrightarrow> e = SignedOverflow \<and>
      \<not> (- (2 ^ 31) \<le> sint a + sint b \<and> sint a + sint b < 2 ^ 31) \<and>
      add_probe k a b m = (Crash e, m)" for e
    by (auto simp: add_probe_def int_add_def crash_run split: if_splits)
  ultimately show ?thesis
    using sint_int_add [of a b] by (auto simp: add_def split: sum.splits)
qed

end
