(* ===== verification/SockBase.thy ===== *)
theory SockBase
  imports CStages
begin

text \<open>
  What the socket programs share: socket addresses as arguments, the error exits of the source,
  checked calls, buffers of which a part is indeterminate, and messages with control data. Numbers
  of constants are those of Linux.
\<close>

section \<open>Addresses\<close>

definition sockaddr_in :: "arg \<Rightarrow> arg \<Rightarrow> arg" where
  "sockaddr_in port addr =
     Obj ''sockaddr_in'' [(''sin_family'', Sym ''AF_INET''), (''sin_port'', port), (''sin_addr'', addr)]"

definition htons_arg :: "u16 \<Rightarrow> arg" where
  "htons_arg p = I (uint (bswap16 p))"

definition htonl_arg :: "u32 \<Rightarrow> arg" where
  "htonl_arg a = I (uint (bswap32 a))"

section \<open>Error exits and checked calls\<close>

text \<open>
  \<open>bad_exit\<close> of \<^verbatim>\<open>genernal_define.h\<close>; \<open>e\<close> is \<open>errno\<close>. The \<open>print_err\<close> functions of the
  programs have the same body.
\<close>

definition bad_exit :: "string \<Rightarrow> int \<Rightarrow> ('w, 'a) prog" where
  "bad_exit msg e = bnd (printf (ln ''%s failed, err: %s '') [S msg, Err e]) (\<lambda>_. exit_with (-1))"

text \<open>\<open>if (f(as) == -1) bad_exit(msg);\<close> and the same with other prints and exits.\<close>

definition check :: "'w host \<Rightarrow> string \<Rightarrow> arg list \<Rightarrow> string \<Rightarrow> (reply \<Rightarrow> ('w, 'a) prog) \<Rightarrow> ('w, 'a) prog" where
  "check k f as msg q = bnd (sys k f as) (\<lambda>r. if rv r = -1 then bad_exit msg (eno r) else q r)"

text \<open>\<open>{ printf(s, strerror(errno)); exit(-1); }\<close>, and without the text of \<open>errno\<close>.\<close>

definition die_errno :: "string \<Rightarrow> int \<Rightarrow> ('w, 'a) prog" where
  "die_errno s e = bnd (printf s [Err e]) (\<lambda>_. exit_with (-1))"

definition die :: "string \<Rightarrow> ('w, 'a) prog" where
  "die s = bnd (printf s []) (\<lambda>_. exit_with (-1))"

lemma exits_quit [stage_intro]:
  "Exit (-1) \<in> Fail \<Longrightarrow> quits (bad_exit msg e) Fail"
  "Exit (-1) \<in> Fail \<Longrightarrow> quits (die_errno msg e) Fail"
  "Exit (-1) \<in> Fail \<Longrightarrow> quits (die msg) Fail"
  by (simp_all add: bad_exit_def die_errno_def die_def quits_printf quits_exit)

lemma exits_only_calls [stage_intro]:
  "Exit (-1) \<in> Good \<Longrightarrow> only_calls (bad_exit msg e) late Good"
  "Exit (-1) \<in> Good \<Longrightarrow> only_calls (die_errno msg e) late Good"
  "Exit (-1) \<in> Good \<Longrightarrow> only_calls (die msg) late Good"
  by (simp_all add: bad_exit_def die_errno_def die_def only_calls_printf only_calls_exit)

lemma extends_exits [extends_intro]:
  "extends (bad_exit msg e)" "extends (die_errno s e)" "extends (die s)"
  by (simp_all add: bad_exit_def die_errno_def die_def extends_intro)

lemma stages_check [stage_intro]:
  "Exit (-1) \<in> Fail \<Longrightarrow> (\<And>r. stages (q r) names late Fail Good) \<Longrightarrow>
   stages (check k f as msg q) (f # names) late Fail Good"
  unfolding check_def by (intro stage_intro)

lemma only_calls_check [stage_intro]:
  "f \<in> late \<Longrightarrow> Exit (-1) \<in> Good \<Longrightarrow> (\<And>r. only_calls (q r) late Good) \<Longrightarrow>
   only_calls (check k f as msg q) late Good"
  unfolding check_def by (intro stage_intro)

lemma emits_exits [emits_intro]:
  "P (Print (ln ''%s failed, err: %s '') [S msg, Err e]) \<Longrightarrow> emits P (bad_exit msg e)"
  "P (Print s [Err e]) \<Longrightarrow> emits P (die_errno s e)"
  "P (Print s []) \<Longrightarrow> emits P (die s)"
  by (simp_all add: bad_exit_def die_errno_def die_def emits_intro)

lemma emits_check [emits_intro]:
  "(\<And>r. P (Call f as r)) \<Longrightarrow> (\<And>e. P (Print (ln ''%s failed, err: %s '') [S msg, Err e])) \<Longrightarrow>
   (\<And>r. emits P (q r)) \<Longrightarrow> emits P (check k f as msg q)"
  unfolding check_def by (intro emits_intro)

section \<open>Buffers with indeterminate bytes\<close>

text \<open>A buffer from \<open>malloc\<close> or on the stack; bytes received into it; the text \<open>%s\<close> reads from it.\<close>

type_synonym ubuf = "u8 option list"

definition fresh :: "nat \<Rightarrow> ubuf" where
  "fresh n = replicate n None"

definition received :: "bytes \<Rightarrow> ubuf \<Rightarrow> ubuf" where
  "received bs buf = map Some (take (length buf) bs) @ drop (length bs) buf"

fun text_of :: "ubuf \<Rightarrow> fault + bytes" where
  "text_of [] = Inl OutOfBounds"
| "text_of (None # buf) = Inl UninitRead"
| "text_of (Some b # buf) =
     (if b = 0 then Inr [] else bindE (text_of buf) (\<lambda>t. Inr (b # t)))"

text \<open>A string literal in memory, with its NUL.\<close>

definition literal :: "string \<Rightarrow> bytes" where
  "literal s = map (\<lambda>c. of_nat (of_char c)) s @ [0]"

text \<open>The first \<open>n\<close> bytes at a literal: what lies behind it is unknown.\<close>

definition bytes_at_literal :: "string \<Rightarrow> nat \<Rightarrow> ubuf" where
  "bytes_at_literal s n = received (take n (literal s)) (fresh n)"

lemma length_received [simp]: "length (received bs buf) = length buf"
  by (simp add: received_def)

lemma text_of_received:
  "0 \<in> set (take (length buf) bs) \<Longrightarrow> text_of (received bs buf) = Inr (takeWhile (\<lambda>b. b \<noteq> 0) bs)"
proof (induction bs arbitrary: buf)
  case Nil
  then show ?case by simp
next
  case (Cons b bs)
  then show ?case by (cases buf) (auto simp: received_def)
qed

lemma text_of_fresh: "0 < n \<Longrightarrow> text_of (fresh n) = Inl UninitRead"
  by (cases n) (simp_all add: fresh_def)

lemma text_of_faults: "text_of buf = Inl e \<Longrightarrow> e = OutOfBounds \<or> e = UninitRead"
  by (induction buf rule: text_of.induct) (auto simp: bindE_def split: if_splits sum.splits)

text \<open>Data without a NUL are followed by whatever the buffer held.\<close>

lemma text_of_unterminated:
  "0 \<notin> set bs \<Longrightarrow> length bs < n \<Longrightarrow> text_of (received bs (fresh n)) = Inl UninitRead"
proof (induction bs arbitrary: n)
  case Nil
  then show ?case by (simp add: received_def text_of_fresh)
next
  case (Cons b bs)
  then obtain l where "n = Suc l" "length bs < l" by (cases n) auto
  then show ?case using Cons by (simp add: received_def fresh_def bindE_def)
qed

section \<open>Messages with control data\<close>

text \<open>
  What \<open>recvmsg\<close> stores: data, the source address, the control messages that \<open>CMSG_FIRSTHDR\<close> and
  \<open>CMSG_NXTHDR\<close> visit, and how many bytes of control data there are.
\<close>

record cmsg =
  cmsg_level :: int
  cmsg_type :: int
  cmsg_data :: bytes

record msg_reply =
  m_rv :: int
  m_eno :: int
  m_data :: bytes
  m_name :: bytes
  m_flags :: int
  m_cmsgs :: "cmsg list"
  m_controllen :: nat

record 'w net =
  calls_of :: "'w host"
  msgs_of :: "int \<Rightarrow> 'w \<Rightarrow> msg_reply \<times> 'w"

definition recvmsg :: "'w net \<Rightarrow> int \<Rightarrow> arg \<Rightarrow> ('w, msg_reply) prog" where
  "recvmsg d fd msg = query (msgs_of d fd)
     (\<lambda>r. \<lparr>rv = m_rv r, eno = m_eno r, out = m_data r\<rparr>) ''recvmsg'' [I fd, msg, I 0]"

text \<open>A \<open>long\<close> read from its bytes.\<close>

definition long_of :: "bytes \<Rightarrow> int" where
  "long_of bs = sint (of_int (foldr (\<lambda>b v. uint b + 256 * v) bs 0) :: u64)"

definition SOL_SOCKET :: int where "SOL_SOCKET = 1"
definition SOL_IP :: int where "SOL_IP = 0"
definition SO_RCVTIMEO :: int where "SO_RCVTIMEO = 20"
definition IP_PKTINFO :: int where "IP_PKTINFO = 8"
definition SCM_RIGHTS :: int where "SCM_RIGHTS = 1"
definition EINTR :: int where "EINTR = 4"
definition EINPROGRESS :: int where "EINPROGRESS = 115"

end
