(* ===== verification/BpfLoaders.thy ===== *)
theory BpfLoaders
  imports BpfPrograms SockBase
begin

text \<open>
  The user-space loaders \<^verbatim>\<open>bpf*/*/bpf_loader.c\<close>: they open an object file, load it, find a program
  and attach it, and two of them then serve a socket. libbpf and the C library are the host.
\<close>

section \<open>Statements the loaders share\<close>

definition eprint :: "string \<Rightarrow> ('w, unit) prog" where
  "eprint s = printf (ln s) [Sym ''stderr'']"

text \<open>\<open>fail s c\<close> is \<open>{ fprintf(stderr, s); return c; }\<close>, \<open>failp\<close> the same with \<open>printf\<close>.\<close>

definition fail :: "string \<Rightarrow> int \<Rightarrow> ('w, int) prog" where
  "fail s c = bnd (eprint s) (\<lambda>_. ret c)"

definition failp :: "string \<Rightarrow> arg list \<Rightarrow> int \<Rightarrow> ('w, int) prog" where
  "failp s as c = bnd (printf (ln s) as) (\<lambda>_. ret c)"

text \<open>
  A pointer compared with 0: the comparison is unsigned. \<open>bpf_program__attach\<close> returns a
  \<open>struct bpf_link *\<close>.
\<close>

definition ptr_less_zero :: "int \<Rightarrow> bool" where
  "ptr_less_zero p \<longleftrightarrow> (of_int p :: u64) < 0"

section \<open>The loaders that only attach\<close>

text \<open>The six of them differ in the program they look for and in one message.\<close>

definition attach_main :: "'w host \<Rightarrow> string \<Rightarrow> string \<Rightarrow> ('w, int) prog" where
  "attach_main k prog_name attach_msg =
     bnd (sys k ''bpf_object__open_file'' [S ''bpf_program.bpf.o'', Sym ''NULL'']) (\<lambda>obj.
     bnd (sys k ''libbpf_get_error'' [I (rv obj)]) (\<lambda>e.
     if rv e \<noteq> 0 then fail ''Error opening BPF object file'' 1 else
     bnd (sys k ''bpf_object__load'' [I (rv obj)]) (\<lambda>r.
     if rv r \<noteq> 0 then fail ''Error loading BPF object file'' 1 else
     bnd (sys k ''bpf_object__find_program_by_name'' [I (rv obj), S prog_name]) (\<lambda>prog.
     if rv prog = 0 then fail ''Error finding BPF program in object file'' 1 else
     bnd (sys k ''bpf_program__attach'' [I (rv prog)]) (\<lambda>link.
     if ptr_less_zero (rv link) then fail attach_msg 1 else
     bnd (printf (ln ''BPF program loaded and attached successfully'') []) (\<lambda>_.
     bnd (sys k ''sleep'' [I 60]) (\<lambda>_.
     ret 0)))))))"

definition add_loader_main :: "'w host \<Rightarrow> ('w, int) prog" where
  "add_loader_main k = attach_main k ''add'' ''Error attaching to kprobe''"

definition connect_loader_main :: "'w host \<Rightarrow> ('w, int) prog" where
  "connect_loader_main k = attach_main k ''bpf_prog'' ''Error attaching to kprobe''"

definition dns_loader_main :: "'w host \<Rightarrow> ('w, int) prog" where
  "dns_loader_main k = attach_main k ''add'' ''Error attaching to kprobe''"

definition hello_loader_main :: "'w host \<Rightarrow> ('w, int) prog" where
  "hello_loader_main k = attach_main k ''bpf_prog'' ''Error attaching to tracepoint''"

definition sockops_loader_main :: "'w host \<Rightarrow> ('w, int) prog" where
  "sockops_loader_main k = attach_main k ''bpf_prog'' ''Error attaching to sockops''"

definition while_loader_main :: "'w host \<Rightarrow> ('w, int) prog" where
  "while_loader_main k = attach_main k ''bpf_prog'' ''Error attaching to tracepoint''"

section \<open>sock\_redirect\<close>

text \<open>\<open>poll_read\<close>: the value, and the \<open>errno\<close> it sets on a time-out.\<close>

definition poll_read :: "'w host \<Rightarrow> int \<Rightarrow> int \<Rightarrow> ('w, int \<times> arg option) prog" where
  "poll_read k fd timeout_sec =
     bnd (sys k ''select'' [I (fd + 1), Obj ''fd_set'' [(''rfds'', I fd)], Sym ''NULL'', Sym ''NULL'',
            Obj ''timeval'' [(''tv_sec'', I timeout_sec)]]) (\<lambda>r.
     ret (if rv r = 1 then 0 else -1, if rv r = 0 then Some (Sym ''ETIME'') else None))"

text \<open>The accept loop, cut off after a number of rounds; it can only leave with \<open>-1\<close>.\<close>

fun redirect_loop :: "'w host \<Rightarrow> int \<Rightarrow> int \<Rightarrow> int \<Rightarrow> int \<Rightarrow> nat \<Rightarrow> ('w, int) prog" where
  "redirect_loop k sock_local sock_remote map_fd redir_map_fd 0 = (\<lambda>m. (Running, m))"
| "redirect_loop k sock_local sock_remote map_fd redir_map_fd (Suc n) =
     bnd (sys k ''accept'' [I sock_local, Sym ''NULL'', Sym ''NULL'']) (\<lambda>acc.
     if rv acc < 0 then failp ''accept failed'' [] (-1) else
     bnd (sys k ''bpf_map_update_elem'' [I map_fd, I 0, I (rv acc), Sym ''BPF_ANY'']) (\<lambda>u1.
     if rv u1 < 0 then failp ''bpf_map_update_elem failed, err: %s'' [Err (eno u1)] (-1) else
     bnd (sys k ''bpf_map_update_elem'' [I redir_map_fd, I 0, I sock_remote, Sym ''BPF_ANY'']) (\<lambda>u2.
     if rv u2 < 0 then failp ''bpf_map_update_elem failed, err: %s'' [Err (eno u2)] (-1) else
     bnd (printf (ln ''bpf_map_update_elem success'') []) (\<lambda>_.
     bnd (sys k ''sleep'' [I 5000]) (\<lambda>_.
     redirect_loop k sock_local sock_remote map_fd redir_map_fd n)))))"

text \<open>Where a program can be attached.\<close>

datatype bpf_attach_type =
    BPF_CGROUP_INET_INGRESS | BPF_CGROUP_INET_EGRESS | BPF_CGROUP_INET_SOCK_CREATE
  | BPF_CGROUP_SOCK_OPS | BPF_SK_SKB_STREAM_PARSER | BPF_SK_SKB_STREAM_VERDICT
  | BPF_CGROUP_DEVICE | BPF_SK_MSG_VERDICT | BPF_CGROUP_INET4_BIND
  | BPF_CGROUP_INET6_BIND | BPF_CGROUP_INET4_CONNECT | BPF_CGROUP_INET6_CONNECT
  | BPF_CGROUP_INET4_POST_BIND | BPF_CGROUP_INET6_POST_BIND | BPF_CGROUP_UDP4_SENDMSG
  | BPF_CGROUP_UDP6_SENDMSG | BPF_LIRC_MODE2 | BPF_FLOW_DISSECTOR
  | BPF_CGROUP_SYSCTL | BPF_CGROUP_UDP4_RECVMSG | BPF_CGROUP_UDP6_RECVMSG
  | BPF_CGROUP_GETSOCKOPT | BPF_CGROUP_SETSOCKOPT | BPF_TRACE_RAW_TP
  | BPF_TRACE_FENTRY | BPF_TRACE_FEXIT | BPF_MODIFY_RETURN
  | BPF_LSM_MAC | BPF_TRACE_ITER | BPF_CGROUP_INET4_GETPEERNAME
  | BPF_CGROUP_INET6_GETPEERNAME | BPF_CGROUP_INET4_GETSOCKNAME | BPF_CGROUP_INET6_GETSOCKNAME
  | BPF_XDP_DEVMAP | BPF_CGROUP_INET_SOCK_RELEASE | BPF_XDP_CPUMAP
  | BPF_SK_LOOKUP | BPF_XDP | BPF_SK_SKB_VERDICT
  | BPF_SK_REUSEPORT_SELECT | BPF_SK_REUSEPORT_SELECT_OR_MIGRATE | BPF_PERF_EVENT
  | BPF_TRACE_KPROBE_MULTI | BPF_LSM_CGROUP | BPF_STRUCT_OPS
  | BPF_NETFILTER | BPF_TCX_INGRESS | BPF_TCX_EGRESS
  | BPF_TRACE_UPROBE_MULTI | BPF_CGROUP_UNIX_CONNECT | BPF_CGROUP_UNIX_SENDMSG
  | BPF_CGROUP_UNIX_RECVMSG | BPF_CGROUP_UNIX_GETPEERNAME | BPF_CGROUP_UNIX_GETSOCKNAME
  | BPF_NETKIT_PRIMARY | BPF_NETKIT_PEER | MAX_BPF_ATTACH_TYPE

primrec bpf_attach_type_val :: "bpf_attach_type \<Rightarrow> int" where
  "bpf_attach_type_val BPF_CGROUP_INET_INGRESS = 0"
| "bpf_attach_type_val BPF_CGROUP_INET_EGRESS = 1"
| "bpf_attach_type_val BPF_CGROUP_INET_SOCK_CREATE = 2"
| "bpf_attach_type_val BPF_CGROUP_SOCK_OPS = 3"
| "bpf_attach_type_val BPF_SK_SKB_STREAM_PARSER = 4"
| "bpf_attach_type_val BPF_SK_SKB_STREAM_VERDICT = 5"
| "bpf_attach_type_val BPF_CGROUP_DEVICE = 6"
| "bpf_attach_type_val BPF_SK_MSG_VERDICT = 7"
| "bpf_attach_type_val BPF_CGROUP_INET4_BIND = 8"
| "bpf_attach_type_val BPF_CGROUP_INET6_BIND = 9"
| "bpf_attach_type_val BPF_CGROUP_INET4_CONNECT = 10"
| "bpf_attach_type_val BPF_CGROUP_INET6_CONNECT = 11"
| "bpf_attach_type_val BPF_CGROUP_INET4_POST_BIND = 12"
| "bpf_attach_type_val BPF_CGROUP_INET6_POST_BIND = 13"
| "bpf_attach_type_val BPF_CGROUP_UDP4_SENDMSG = 14"
| "bpf_attach_type_val BPF_CGROUP_UDP6_SENDMSG = 15"
| "bpf_attach_type_val BPF_LIRC_MODE2 = 16"
| "bpf_attach_type_val BPF_FLOW_DISSECTOR = 17"
| "bpf_attach_type_val BPF_CGROUP_SYSCTL = 18"
| "bpf_attach_type_val BPF_CGROUP_UDP4_RECVMSG = 19"
| "bpf_attach_type_val BPF_CGROUP_UDP6_RECVMSG = 20"
| "bpf_attach_type_val BPF_CGROUP_GETSOCKOPT = 21"
| "bpf_attach_type_val BPF_CGROUP_SETSOCKOPT = 22"
| "bpf_attach_type_val BPF_TRACE_RAW_TP = 23"
| "bpf_attach_type_val BPF_TRACE_FENTRY = 24"
| "bpf_attach_type_val BPF_TRACE_FEXIT = 25"
| "bpf_attach_type_val BPF_MODIFY_RETURN = 26"
| "bpf_attach_type_val BPF_LSM_MAC = 27"
| "bpf_attach_type_val BPF_TRACE_ITER = 28"
| "bpf_attach_type_val BPF_CGROUP_INET4_GETPEERNAME = 29"
| "bpf_attach_type_val BPF_CGROUP_INET6_GETPEERNAME = 30"
| "bpf_attach_type_val BPF_CGROUP_INET4_GETSOCKNAME = 31"
| "bpf_attach_type_val BPF_CGROUP_INET6_GETSOCKNAME = 32"
| "bpf_attach_type_val BPF_XDP_DEVMAP = 33"
| "bpf_attach_type_val BPF_CGROUP_INET_SOCK_RELEASE = 34"
| "bpf_attach_type_val BPF_XDP_CPUMAP = 35"
| "bpf_attach_type_val BPF_SK_LOOKUP = 36"
| "bpf_attach_type_val BPF_XDP = 37"
| "bpf_attach_type_val BPF_SK_SKB_VERDICT = 38"
| "bpf_attach_type_val BPF_SK_REUSEPORT_SELECT = 39"
| "bpf_attach_type_val BPF_SK_REUSEPORT_SELECT_OR_MIGRATE = 40"
| "bpf_attach_type_val BPF_PERF_EVENT = 41"
| "bpf_attach_type_val BPF_TRACE_KPROBE_MULTI = 42"
| "bpf_attach_type_val BPF_LSM_CGROUP = 43"
| "bpf_attach_type_val BPF_STRUCT_OPS = 44"
| "bpf_attach_type_val BPF_NETFILTER = 45"
| "bpf_attach_type_val BPF_TCX_INGRESS = 46"
| "bpf_attach_type_val BPF_TCX_EGRESS = 47"
| "bpf_attach_type_val BPF_TRACE_UPROBE_MULTI = 48"
| "bpf_attach_type_val BPF_CGROUP_UNIX_CONNECT = 49"
| "bpf_attach_type_val BPF_CGROUP_UNIX_SENDMSG = 50"
| "bpf_attach_type_val BPF_CGROUP_UNIX_RECVMSG = 51"
| "bpf_attach_type_val BPF_CGROUP_UNIX_GETPEERNAME = 52"
| "bpf_attach_type_val BPF_CGROUP_UNIX_GETSOCKNAME = 53"
| "bpf_attach_type_val BPF_NETKIT_PRIMARY = 54"
| "bpf_attach_type_val BPF_NETKIT_PEER = 55"
| "bpf_attach_type_val MAX_BPF_ATTACH_TYPE = 56"

definition sock_redirect_main :: "'w host \<Rightarrow> nat \<Rightarrow> ('w, int) prog" where
  "sock_redirect_main k n =
     bnd (sys k ''bpf_object__open_file'' [S ''bpf_program.bpf.o'', Sym ''NULL'']) (\<lambda>obj.
     if rv obj = 0 then failp ''bpf_object__open_file failed'' [] (-1) else
     bnd (sys k ''bpf_object__load'' [I (rv obj)]) (\<lambda>l.
     if rv l \<noteq> 0 then failp ''bpf_object__load failed'' [] (-1) else
     bnd (sys k ''bpf_object__find_map_fd_by_name'' [I (rv obj), S ''sock_store'']) (\<lambda>map_fd.
     if rv map_fd < 0 then failp ''bpf_object__find_map_by_name failed'' [] (-1) else
     bnd (sys k ''bpf_object__find_map_fd_by_name'' [I (rv obj), S ''sock_redir'']) (\<lambda>redir_map_fd.
     if rv redir_map_fd < 0 then failp ''bpf_object__find_map_by_name failed'' [] (-1) else
     bnd (sys k ''bpf_object__find_program_by_name'' [I (rv obj), S ''bpf_prog_verdict'']) (\<lambda>prog.
     bnd (sys k ''bpf_program__fd'' [I (rv prog)]) (\<lambda>prog_fd.
     if rv prog_fd < 0 then
       failp ''bpf_object__find_program_by_name failed, err: %s'' [Err (eno prog_fd)] (-1) else
     bnd (sys k ''bpf_prog_attach''
       [I (rv prog_fd), I (rv map_fd), I (bpf_attach_type_val BPF_SK_SKB_STREAM_VERDICT), I 0]) (\<lambda>a1.
     if rv a1 < 0 then failp ''Failed to update sock_map: %s'' [Sym ''stderr'', Err (eno a1)] (-1) else
     bnd (sys k ''bpf_prog_attach''
       [I (rv prog_fd), I (rv redir_map_fd), I (bpf_attach_type_val BPF_SK_SKB_STREAM_VERDICT), I 0]) (\<lambda>a2.
     if rv a2 < 0 then failp ''Failed to update sock_map: %s'' [Sym ''stderr'', Err (eno a2)] (-1) else
     bnd (sys k ''socket'' [Sym ''AF_INET'', Sym ''SOCK_STREAM'', I 0]) (\<lambda>sock_local.
     if rv sock_local < 0 then failp ''socket failed'' [] (-1) else
     bnd (sys k ''bind'' [I (rv sock_local), sockaddr_in (htons_arg 5201) (htonl_arg 0), I 16]) (\<lambda>b.
     if rv b < 0 then failp ''bind failed'' [] (-1) else
     bnd (sys k ''listen'' [I (rv sock_local), I 10]) (\<lambda>li.
     if rv li < 0 then failp ''listen failed'' [] (-1) else
     bnd (sys k ''socket'' [Sym ''AF_INET'', Sym ''SOCK_STREAM'', I 0]) (\<lambda>sock_remote.
     if rv sock_remote < 0 then failp ''socket failed'' [] (-1) else
     bnd (sys k ''inet_pton'' [Sym ''AF_INET'', S ''119.3.40.126'']) (\<lambda>p.
     if rv p < 0 then failp ''inet_pton failed'' [] (-1) else
     bnd (sys k ''connect'' [I (rv sock_remote), sockaddr_in (htons_arg 5201) (B (out p)), I 16]) (\<lambda>c.
     if rv c < 0 then failp ''connect failed'' [] (-1) else
     redirect_loop k (rv sock_local) (rv sock_remote) (rv map_fd) (rv redir_map_fd) n))))))))))))))"

section \<open>udp\_socket\_filter\<close>

text \<open>
  The receive loop. \<open>addr_len\<close>, which \<open>recvfrom\<close> reads for the size of the address buffer, is
  never given a value: it is passed as it stands.
\<close>

fun receive_loop :: "'w host \<Rightarrow> int \<Rightarrow> nat \<Rightarrow> ('w, int) prog" where
  "receive_loop k sock 0 = (\<lambda>m. (Running, m))"
| "receive_loop k sock (Suc n) =
     bnd (sys k ''recvfrom'' [I sock, I 1024, I 0, Sym ''client_addr'', Sym ''uninitialised addr_len'']) (\<lambda>len.
     if rv len < 0 then fail ''Error reading from socket'' 1 else
     bnd (sys k ''sleep'' [I 3]) (\<lambda>_.
     bnd (printf (ln ''Received message: %s, len: %d'') [B (out len), I (rv len)]) (\<lambda>_.
     receive_loop k sock n)))"

definition udp_filter_main :: "'w host \<Rightarrow> nat \<Rightarrow> ('w, int) prog" where
  "udp_filter_main k n =
     bnd (printf (ln ''test msg: %x '') [Sym ''msg'']) (\<lambda>_.
     bnd (sys k ''bpf_object__open_file'' [S ''bpf_program.bpf.o'', Sym ''NULL'']) (\<lambda>obj.
     bnd (sys k ''libbpf_get_error'' [I (rv obj)]) (\<lambda>e.
     if rv e \<noteq> 0 then fail ''Error opening BPF object file'' 1 else
     bnd (sys k ''bpf_object__load'' [I (rv obj)]) (\<lambda>l.
     if rv l \<noteq> 0 then fail ''Error loading BPF object file'' 1 else
     bnd (sys k ''bpf_object__find_program_by_name'' [I (rv obj), S ''addr_dump'']) (\<lambda>prog.
     if rv prog = 0 then fail ''Error finding BPF program in object file'' 1 else
     bnd (sys k ''bpf_program__fd'' [I (rv prog)]) (\<lambda>prog_fd.
     if rv prog_fd < 0 then fail ''Error getting file descriptor for program'' 1 else
     bnd (sys k ''socket'' [Sym ''AF_INET'', Sym ''SOCK_DGRAM'', Sym ''IPPROTO_UDP'']) (\<lambda>sock.
     if rv sock < 0 then fail ''Error creating socket'' 1 else
     bnd (sys k ''setsockopt''
       [I (rv sock), Sym ''SOL_SOCKET'', Sym ''SO_ATTACH_BPF'', I (rv prog_fd), I 4]) (\<lambda>o1.
     if rv o1 < 0 then fail ''Error attaching BPF program to socket'' 1 else
     bnd (sys k ''bind'' [I (rv sock), sockaddr_in (htons_arg 9999) (htonl_arg 0), I 16]) (\<lambda>b.
     if rv b < 0 then fail ''Error binding socket'' 1 else
     receive_loop k (rv sock) n)))))))))"

section \<open>mem\_test\<close>

definition call_malloc :: "'w host \<Rightarrow> ('w, int) prog" where
  "call_malloc k =
     bnd (sys k ''sleep'' [I 30]) (\<lambda>_.
     bnd (sys k ''malloc'' [I 1024]) (\<lambda>m.
     bnd (sys k ''sleep'' [I 10]) (\<lambda>_. ret 0)))"

definition mem_test_main :: "'w host \<Rightarrow> ('w, int) prog" where
  "mem_test_main k = bnd (call_malloc k) (\<lambda>_. ret 0)"

end
