(* ===== verification/BpfLoaderClaims.thy ===== *)
theory BpfLoaderClaims
  imports BpfLoaders CStages
begin

text \<open>
  The loaders keep the staged contract of CStages: the facts below say which calls each of them
  makes, in which order, and what it can answer.
\<close>

section \<open>The loaders that only attach\<close>

lemma fail_quits [stage_intro]: "Ret c \<in> Fail \<Longrightarrow> quits (fail s c) Fail"
  by (simp add: fail_def eprint_def quits_printf quits_ret)

lemma failp_quits [stage_intro]: "Ret c \<in> Fail \<Longrightarrow> quits (failp s as c) Fail"
  by (simp add: failp_def quits_printf quits_ret)

definition attach_stages :: "string list" where
  "attach_stages =
     [''bpf_object__open_file'', ''libbpf_get_error'', ''bpf_object__load'',
      ''bpf_object__find_program_by_name'', ''bpf_program__attach'', ''sleep'']"

text \<open>No value of a pointer is below 0.\<close>

lemma ptr_less_zero_False [simp]: "\<not> ptr_less_zero p"
  by (simp add: ptr_less_zero_def)

lemma attach_main_stages: "stages (attach_main k prog_name msg) attach_stages {} {Ret 1} {Ret 0}"
  unfolding attach_main_def attach_stages_def
  by (intro stage_intro; simp)

interpretation attach: staged "attach_main k prog_name msg" attach_stages "{}" "{Ret 1}" "{Ret 0}"
  for k :: "'w host" and prog_name msg
  by unfold_locales (rule attach_main_stages)

section \<open>sock\_redirect\<close>

definition redirect_stages :: "string list" where
  "redirect_stages =
     [''bpf_object__open_file'', ''bpf_object__load'', ''bpf_object__find_map_fd_by_name'',
      ''bpf_object__find_map_fd_by_name'', ''bpf_object__find_program_by_name'', ''bpf_program__fd'',
      ''bpf_prog_attach'', ''bpf_prog_attach'', ''socket'', ''bind'', ''listen'', ''socket'',
      ''inet_pton'', ''connect'']"

definition redirect_late :: "string set" where
  "redirect_late = {''accept'', ''bpf_map_update_elem'', ''sleep''}"

lemma failp_only_calls [stage_intro]: "Ret c \<in> Good \<Longrightarrow> only_calls (failp s as c) late Good"
  by (simp add: failp_def only_calls_printf only_calls_ret)

lemma fail_only_calls [stage_intro]: "Ret c \<in> Good \<Longrightarrow> only_calls (fail s c) late Good"
  by (simp add: fail_def eprint_def only_calls_printf only_calls_ret)

lemma redirect_loop_calls:
  "only_calls (redirect_loop k sl sr mf rf n) redirect_late {Ret (-1), Running}"
proof (induction n)
  case 0
  then show ?case by (simp add: only_calls_running)
next
  case (Suc n)
  show ?case unfolding redirect_loop.simps
    by (intro stage_intro Suc.IH; simp add: redirect_late_def)
qed

lemma sock_redirect_stages:
  "stages (sock_redirect_main k n) redirect_stages redirect_late {Ret (-1)} {Ret (-1), Running}"
  unfolding sock_redirect_main_def redirect_stages_def
  by (intro stage_intro stages_only_calls [OF redirect_loop_calls]; simp)

interpretation redirect: staged "sock_redirect_main k n" redirect_stages redirect_late
    "{Ret (-1)}" "{Ret (-1), Running}" for k :: "'w host" and n
  by unfold_locales (rule sock_redirect_stages)

section \<open>udp\_socket\_filter\<close>

definition udp_filter_stages :: "string list" where
  "udp_filter_stages =
     [''bpf_object__open_file'', ''libbpf_get_error'', ''bpf_object__load'',
      ''bpf_object__find_program_by_name'', ''bpf_program__fd'', ''socket'', ''setsockopt'', ''bind'']"

lemma receive_loop_calls: "only_calls (receive_loop k s n) {''recvfrom'', ''sleep''} {Ret 1, Running}"
proof (induction n)
  case 0
  then show ?case by (simp add: only_calls_running)
next
  case (Suc n)
  show ?case unfolding receive_loop.simps by (intro stage_intro Suc.IH; simp)
qed

lemma udp_filter_main_stages:
  "stages (udp_filter_main k n) udp_filter_stages {''recvfrom'', ''sleep''} {Ret 1} {Ret 1, Running}"
  unfolding udp_filter_main_def udp_filter_stages_def
  by (intro stage_intro stages_only_calls [OF receive_loop_calls]; simp)

interpretation udp_filter: staged "udp_filter_main k n" udp_filter_stages "{''recvfrom'', ''sleep''}"
    "{Ret 1}" "{Ret 1, Running}" for k :: "'w host" and n
  by unfold_locales (rule udp_filter_main_stages)

section \<open>Properties\<close>

text \<open>A host on which every call answers 1 and never fails.\<close>

definition obliging_host :: "unit host" where
  "obliging_host f as w = (\<lparr>rv = if f = ''bpf_object__load'' then 0 else 1, eno = 0, out = []\<rparr>, w)"

text \<open>Which prefixes of its stages a failing loader has made: it fails at one of three checks.\<close>

lemma attach_main_run:
  "fst (attach_main k prog_name msg m) = Ret 0 \<and>
     called (new_events m (snd (attach_main k prog_name msg m))) = attach_stages \<or>
   fst (attach_main k prog_name msg m) = Ret 1 \<and>
     called (new_events m (snd (attach_main k prog_name msg m)))
       \<in> set (map (\<lambda>j. take j attach_stages) [2, 3, 4])"
  by (simp add: attach_main_def attach_stages_def bnd_sys_after bnd_printf_after log_after_call
      log_after_print new_events_def fail_def eprint_def)

text \<open>
  An attaching loader answers 0 or 1. It answers 1 only after the second, third or fourth of its
  calls; the answer of \<open>bpf_program__attach\<close> is never examined, so whatever that call returns, the
  null pointer of a failed attach included, the loader sleeps and answers 0.
\<close>

theorem attach_failure_unseen:
  "let (v, m') = attach_main k prog_name msg m; cs = called (new_events m m') in
     (v = Ret 0 \<or> v = Ret 1) \<and>
     (v = Ret 0) = (cs = attach_stages) \<and>
     (v = Ret 0) = (''bpf_program__attach'' \<in> set cs) \<and>
     (v = Ret 1) = (cs \<in> set (map (\<lambda>j. take j attach_stages) [2, 3, 4]))"
  using attach_main_run [of k prog_name msg m]
  by (auto simp: attach_stages_def split_beta Let_def)

text \<open>
  The proxy of sock_redirect never answers 0, and it accepts a connection or stores a socket
  in a map only after all fourteen set-up calls, in the order of the source: in particular both
  maps have their verdict program before the first connection is accepted.
\<close>

theorem redirect_setup_order:
  fixes m :: "'w mach"
  shows "let (v, m') = sock_redirect_main k n m; cs = called (new_events m m') in
     (v = Ret (-1) \<or> v = Running) \<and>
     (v = Running \<longrightarrow> take 14 cs = redirect_stages) \<and>
     (\<forall>f \<in> {''accept'', ''bpf_map_update_elem''}. f \<in> set cs \<longrightarrow> take 14 cs = redirect_stages) \<and>
     set (drop 14 cs) \<subseteq> redirect_late"
proof -
  have len: "length redirect_stages = 14" by (simp add: redirect_stages_def)
  have notin: "''accept'' \<notin> set redirect_stages" "''bpf_map_update_elem'' \<notin> set redirect_stages"
    by (simp_all add: redirect_stages_def)
  let ?cs = "called (new_events m (snd (sock_redirect_main k n m)))"
  have "set (drop 14 ?cs) \<subseteq> redirect_late"
    using redirect.log_shape [of k n m] len by (auto simp: staged_log_def)
  then show ?thesis
    using redirect.outcome [of k n m] redirect.all_stages [of k n m] notin
      redirect.late_after_all [of "''accept''" m k n]
      redirect.late_after_all [of "''bpf_map_update_elem''" m k n]
    by (auto simp: split_beta Let_def len)
qed

lemma obliging_redirect: "fst (sock_redirect_main obliging_host 1 (start ())) = Running"
  by (simp add: sock_redirect_main_def obliging_host_def bnd_sys_after bnd_printf_after)

theorem redirect_setup_order_witness:
  "take 14 (called (new_events (start ()) (snd (sock_redirect_main obliging_host 1 (start ()))))) = redirect_stages \<and>
   set (drop 14 (called (new_events (start ()) (snd (sock_redirect_main obliging_host 1 (start ()))))))
     \<subseteq> redirect_late"
  using redirect_setup_order [of obliging_host 1 "start ()"] obliging_redirect
  by (simp add: split_beta Let_def)

end
