(* ===== verification/Dpdk.thy ===== *)
theory Dpdk
  imports CStages
begin

text \<open>
  What the DPDK programs \<^verbatim>\<open>dpdk/*\<close> share: packet buffers, the host interface with its receive and
  allocation calls, \<open>rte_exit\<close>, and the layout of Ethernet, ARP, IPv4 and UDP headers as the
  \<open>rte_*_hdr\<close> structures lay them out (the wire formats, without padding).
\<close>

section \<open>Packet buffers\<close>

text \<open>
  \<open>addr\<close> is the \<open>struct rte_mbuf *\<close>, \<open>data_ptr\<close> the address of its first data byte and \<open>room\<close>
  the bytes from there to the end of its data room: the frame, then whatever is left of earlier
  frames.
\<close>

record mbuf =
  addr :: u64
  data_ptr :: u64
  room :: bytes
  pkt_len :: u32
  data_len :: u16

text \<open>\<open>rte_pktmbuf_mtod_offset\<close>: address arithmetic. \<open>sound_mbuf\<close> is what DPDK promises of a buffer.\<close>

definition mtod_offset :: "mbuf \<Rightarrow> nat \<Rightarrow> u64" where
  "mtod_offset mb off = data_ptr mb + of_nat off"

definition sound_mbuf :: "mbuf \<Rightarrow> bool" where
  "sound_mbuf mb \<longleftrightarrow> data_ptr mb \<noteq> 0 \<and> unat (data_ptr mb) + length (room mb) < 2 ^ 64"

lemma mtod_not_null:
  assumes "sound_mbuf mb" and "off \<le> length (room mb)"
  shows "mtod_offset mb off \<noteq> 0"
proof -
  have "0 < unat (data_ptr mb)" using assms(1) by (simp add: sound_mbuf_def unat_gt_0)
  then have "unat (data_ptr mb + of_nat off) = unat (data_ptr mb) + off"
    using assms by (simp add: sound_mbuf_def unat_word_ariths unat_of_nat)
  then show ?thesis using \<open>0 < unat (data_ptr mb)\<close> by (metis add_is_0 mtod_offset_def nat_less_le unat_0)
qed

definition mbuf_arg :: "mbuf \<Rightarrow> arg" where
  "mbuf_arg mb = Obj ''rte_mbuf'' [(''addr'', I (uint (addr mb))), (''pkt_len'', I (uint (pkt_len mb))),
     (''data_len'', I (uint (data_len mb))), (''data'', B (room mb))]"

section \<open>The host\<close>

text \<open>
  \<open>plain\<close> answers the calls whose answer is a number, \<open>rx\<close> is \<open>rte_eth_rx_burst\<close> (port, queue) and
  \<open>alloc\<close> is \<open>rte_pktmbuf_alloc\<close>.
\<close>

record 'w dpdk =
  plain :: "'w host"
  rx :: "u16 \<Rightarrow> u16 \<Rightarrow> 'w \<Rightarrow> mbuf list \<times> 'w"
  alloc :: "'w \<Rightarrow> mbuf option \<times> 'w"

definition count_reply :: "mbuf list \<Rightarrow> reply" where
  "count_reply ms = \<lparr>rv = int (length ms), eno = 0, out = []\<rparr>"

definition ptr_reply :: "mbuf option \<Rightarrow> reply" where
  "ptr_reply p = \<lparr>rv = (case p of None \<Rightarrow> 0 | Some mb \<Rightarrow> uint (addr mb)), eno = 0, out = []\<rparr>"

text \<open>A burst holds at most the number of packets asked for.\<close>

definition rx_burst :: "'w dpdk \<Rightarrow> u16 \<Rightarrow> u16 \<Rightarrow> nat \<Rightarrow> ('w, mbuf list) prog" where
  "rx_burst d port q maxn =
     query (\<lambda>w. let (ms, w') = rx d port q w in (take maxn ms, w')) count_reply
       ''rte_eth_rx_burst'' [I (uint port), I (uint q), I (int maxn)]"

definition pktmbuf_alloc :: "'w dpdk \<Rightarrow> int \<Rightarrow> ('w, mbuf option) prog" where
  "pktmbuf_alloc d pool = query (alloc d) ptr_reply ''rte_pktmbuf_alloc'' [I pool]"

definition pktmbuf_free :: "'w dpdk \<Rightarrow> mbuf \<Rightarrow> ('w, unit) prog" where
  "pktmbuf_free d mb =
     bnd (sys (plain d) ''rte_pktmbuf_free'' [I (uint (addr mb))]) (\<lambda>_. ret ())"

text \<open>\<open>rte_exit\<close> prints and ends the process; \<open>EXIT_FAILURE\<close> is 1.\<close>

definition rte_exit :: "int \<Rightarrow> string \<Rightarrow> arg list \<Rightarrow> ('w, 'a) prog" where
  "rte_exit c s as = bnd (printf s (Sym ''stderr'' # as)) (\<lambda>_. exit_with c)"

lemma rte_exit_quits [stage_intro]: "Exit c \<in> Fail \<Longrightarrow> quits (rte_exit c s as) Fail"
  by (simp add: rte_exit_def quits_printf quits_exit)

lemma rte_exit_bnd_quits [stage_intro]: "Exit c \<in> Fail \<Longrightarrow> quits (bnd (rte_exit c s as) f) Fail"
  by (simp add: rte_exit_def bnd_assoc quits_printf quits_exit)

lemma rte_exit_only_calls [stage_intro]: "Exit c \<in> Good \<Longrightarrow> only_calls (rte_exit c s as) late Good"
  by (simp add: rte_exit_def only_calls_printf only_calls_exit)

section \<open>Headers\<close>

text \<open>Offsets in an Ethernet frame; sizes of the headers.\<close>

definition eth_size :: nat where "eth_size = 14"
definition arp_size :: nat where "arp_size = 28"
definition ipv4_size :: nat where "ipv4_size = 20"
definition udp_size :: nat where "udp_size = 8"

lemmas header_sizes = eth_size_def arp_size_def ipv4_size_def udp_size_def

definition rte_ipv4 :: "u32 \<Rightarrow> u32 \<Rightarrow> u32 \<Rightarrow> u32 \<Rightarrow> u32" where
  "rte_ipv4 a b c d = push_bit 24 a OR push_bit 16 b OR push_bit 8 c OR d"

text \<open>A 16-bit or 32-bit field in network order, as the CPU reads it after conversion.\<close>

definition be16_at :: "bytes \<Rightarrow> nat \<Rightarrow> fault + u16" where
  "be16_at buf i = bindE (rd16 buf i) (\<lambda>x. Inr (bswap16 x))"

definition be32_at :: "bytes \<Rightarrow> nat \<Rightarrow> fault + u32" where
  "be32_at buf i = bindE (rd32 buf i) (\<lambda>x. Inr (bswap32 x))"

lemma be16_at_wrn_same: "wrn buf i (le16 (bswap16 x)) = Inr buf' \<Longrightarrow> be16_at buf' i = Inr x"
  by (simp add: be16_at_def rd16_wrn_same n16.ntoh_hton)

lemma be32_at_wrn_same: "wrn buf i (le32 (bswap32 x)) = Inr buf' \<Longrightarrow> be32_at buf' i = Inr x"
  by (simp add: be32_at_def rd32_wrn_same n32.ntoh_hton)

lemma be_at_wrn_other:
  "wrn buf i bs = Inr buf' \<Longrightarrow> j + 2 \<le> i \<or> i + length bs \<le> j \<Longrightarrow> be16_at buf' j = be16_at buf j"
  "wrn buf i bs = Inr buf' \<Longrightarrow> j + 4 \<le> i \<or> i + length bs \<le> j \<Longrightarrow> be32_at buf' j = be32_at buf j"
  by (simp_all add: be16_at_def be32_at_def rd16_wrn_other rd32_wrn_other)

lemmas header_rw = rdn_wrn_same be16_at_wrn_same be32_at_wrn_same rdn_wrn_other be_at_wrn_other

lemma be_at_in_room:
  "i + 2 \<le> length buf \<Longrightarrow> \<exists>x. be16_at buf i = Inr x"
  "i + 4 \<le> length buf \<Longrightarrow> \<exists>y. be32_at buf i = Inr y"
  by (simp_all add: be16_at_def be32_at_def rd16_def rd32_def rdn_def)

text \<open>The protocol numbers the programs compare with.\<close>

definition ETHER_TYPE_IPV4 :: u16 where "ETHER_TYPE_IPV4 = 0x0800"
definition ETHER_TYPE_ARP :: u16 where "ETHER_TYPE_ARP = 0x0806"
definition IPPROTO_ICMP :: u8 where "IPPROTO_ICMP = 1"
definition IPPROTO_TCP :: u8 where "IPPROTO_TCP = 6"
definition IPPROTO_UDP :: u8 where "IPPROTO_UDP = 17"

section \<open>Text in buffers\<close>

text \<open>What \<open>%s\<close> prints of a pointer into a buffer: the bytes up to the first NUL.\<close>

definition cstr_at :: "bytes \<Rightarrow> nat \<Rightarrow> fault + bytes" where
  "cstr_at buf i =
     (if 0 \<in> set (drop i buf) then Inr (takeWhile (\<lambda>b. b \<noteq> 0) (drop i buf)) else Inl OutOfBounds)"

end
