(* ===== verification/Arp.thy ===== *)
theory Arp
  imports Dpdk
begin

text \<open>
  The ARP responder \<^verbatim>\<open>dpdk/arp/main.c\<close>: it brings port 0 up, then answers ARP requests for one
  address. Frames are bytes; the functions that build a header write its fields at their offsets,
  in the order of the source.
\<close>

section \<open>Addresses and text\<close>

type_synonym mac = bytes

definition g_dpdk_port :: u16 where "g_dpdk_port = 0"

definition g_broadcast_mac_addr :: mac where
  "g_broadcast_mac_addr = [0xff, 0xff, 0xff, 0xff, 0xff, 0xff]"

definition g_local_ip_addr :: u32 where
  "g_local_ip_addr = rte_ipv4 192 168 121 220"

definition print_mac_addr :: "mac \<Rightarrow> ('w, unit) prog" where
  "print_mac_addr mac = printf ''%02x:%02x:%02x:%02x:%02x:%02x'' (map (\<lambda>b. I (uint b)) mac)"

text \<open>The text \<open>get_print_addr_from_be\<close> stores; \<open>%d\<close> reads an \<open>unsigned\<close> argument as \<open>int\<close>.\<close>

definition get_print_addr_from_be :: "u32 \<Rightarrow> string" where
  "get_print_addr_from_be a =
     fmt_02d (sint a) @ CHR ''.'' # fmt_02d (sint (drop_bit 2 a)) @ CHR ''.'' #
     fmt_02d (sint (drop_bit 4 a)) @ CHR ''.'' # fmt_02d (sint (drop_bit 6 a))"

section \<open>Building messages\<close>

text \<open>\<open>RTE_ARP_HRD_ETHER\<close>, \<open>RTE_ARP_OP_REQUEST\<close> and \<open>RTE_ARP_OP_REPLY\<close>.\<close>

definition ARP_HRD_ETHER :: u16 where "ARP_HRD_ETHER = 1"
definition ARP_OP_REQUEST :: u16 where "ARP_OP_REQUEST = 1"
definition ARP_OP_REPLY :: u16 where "ARP_OP_REPLY = 2"

definition write_arp :: "mac \<Rightarrow> u32 \<Rightarrow> mac \<Rightarrow> u32 \<Rightarrow> u16 \<Rightarrow> bytes \<Rightarrow> fault + bytes" where
  "write_arp sha sip tha tip op msg =
     bindE (wrn msg (eth_size + 8) sha) (\<lambda>b1.
     bindE (wrn b1 (eth_size + 14) (le32 (bswap32 sip))) (\<lambda>b2.
     bindE (wrn b2 (eth_size + 18) tha) (\<lambda>b3.
     bindE (wrn b3 (eth_size + 24) (le32 (bswap32 tip))) (\<lambda>b4.
     bindE (wrn b4 eth_size (le16 (bswap16 ARP_HRD_ETHER))) (\<lambda>b5.
     bindE (wrn b5 (eth_size + 2) (le16 (bswap16 ETHER_TYPE_IPV4))) (\<lambda>b6.
     bindE (wrn b6 (eth_size + 6) (le16 (bswap16 op))) (\<lambda>b7.
     bindE (wrn b7 (eth_size + 4) [6]) (\<lambda>b8.
     wrn b8 (eth_size + 5) [4]))))))))"

text \<open>The message is \<open>None\<close> when \<open>msg\<close> is the null pointer; the written bytes are returned.\<close>

definition send_arp_msg ::
  "mac \<Rightarrow> u32 \<Rightarrow> mac \<Rightarrow> u32 \<Rightarrow> u16 \<Rightarrow> bytes option \<Rightarrow> ('w, int \<times> bytes) prog" where
  "send_arp_msg src_mac src_ip dst_mac dst_ip op msg =
     (case msg of
        None \<Rightarrow> rte_exit 1 ''no free buffer'' []
      | Some buf \<Rightarrow>
          bnd (pureE (write_arp src_mac src_ip dst_mac dst_ip op buf)) (\<lambda>buf'. ret (0, buf')))"

definition write_eth :: "mac \<Rightarrow> mac \<Rightarrow> u16 \<Rightarrow> bytes \<Rightarrow> fault + bytes" where
  "write_eth src dst eth_type msg =
     bindE (wrn msg 6 src) (\<lambda>b1.
     bindE (wrn b1 0 dst) (\<lambda>b2.
     wrn b2 12 (le16 (bswap16 eth_type))))"

definition send_eth_msg :: "mac \<Rightarrow> mac \<Rightarrow> u16 \<Rightarrow> bytes option \<Rightarrow> ('w, int \<times> bytes) prog" where
  "send_eth_msg src_mac dst_mac eth_type msg =
     (case msg of
        None \<Rightarrow> rte_exit 1 (ln ''no free buffer '') []
      | Some buf \<Rightarrow>
          bnd (pureE (write_eth src_mac dst_mac eth_type buf)) (\<lambda>buf'.
          bnd (printf ''send eth: '' []) (\<lambda>_.
          bnd (print_mac_addr src_mac) (\<lambda>_.
          bnd (printf '' -> '' []) (\<lambda>_.
          bnd (print_mac_addr dst_mac) (\<lambda>_.
          bnd (printf (ln '''') []) (\<lambda>_.
          ret (0, buf'))))))))"

section \<open>Bringing the port up\<close>

text \<open>It returns 0 and the new value of \<open>g_local_mac_addr\<close>.\<close>

definition init_port :: "'w host \<Rightarrow> u16 \<Rightarrow> int \<Rightarrow> ('w, int \<times> mac) prog" where
  "init_port k port mempool =
     bnd (sys k ''rte_eth_dev_info_get'' [I (uint port)]) (\<lambda>info.
     if rv info \<noteq> 0 then rte_exit 1 ''get device info failed'' [] else
     bnd (sys k ''rte_eth_dev_configure'' [I (uint port), I 1, I 1, Obj ''rte_eth_conf'' []]) (\<lambda>r.
     if rv r \<noteq> 0 then rte_exit 1 ''config device failed'' [] else
     bnd (sys k ''rte_eth_dev_socket_id'' [I (uint port)]) (\<lambda>s1.
     bnd (sys k ''rte_eth_rx_queue_setup''
       [I (uint port), I 0, I 512, I (rv s1), Sym ''NULL'', I mempool]) (\<lambda>r.
     if rv r \<noteq> 0 then rte_exit 1 ''config rx queue failed'' [] else
     bnd (sys k ''rte_eth_dev_socket_id'' [I (uint port)]) (\<lambda>s2.
     bnd (sys k ''rte_eth_tx_queue_setup''
       [I (uint port), I 0, I 512, I (rv s2), Obj ''dev_info.default_txconf'' [(''dev_info'', B (out info))]]) (\<lambda>r.
     if rv r \<noteq> 0 then rte_exit 1 ''config tx queue failed'' [] else
     bnd (sys k ''rte_eth_macaddr_get'' [I (uint g_dpdk_port)]) (\<lambda>a.
     if rv a \<noteq> 0 then rte_exit 1 ''get device mac addr failed'' [] else
     bnd (sys k ''rte_eth_promiscuous_enable'' [I (uint port)]) (\<lambda>r.
     if rv r \<noteq> 0 then rte_exit 1 ''enter promiscuous failed'' [] else
     bnd (sys k ''rte_eth_dev_start'' [I (uint port)]) (\<lambda>r.
     if rv r \<noteq> 0 then rte_exit 1 ''start device failed'' [] else
     bnd (print_mac_addr (out a)) (\<lambda>_.
     bnd (printf (ln ''init device success '') []) (\<lambda>_.
     ret (0, out a))))))))))))"

section \<open>Handling one packet\<close>

text \<open>
  An IPv4 packet: the header is taken at offset \<open>sizeof(struct rte_ipv4_hdr)\<close>, 20, not behind the
  Ethernet header; both addresses are turned into text that nothing uses.
\<close>

definition handle_ipv4 :: "'w dpdk \<Rightarrow> mbuf \<Rightarrow> ('w, unit) prog" where
  "handle_ipv4 d mb =
     bnd (pureE (rd32 (room mb) (ipv4_size + 12))) (\<lambda>src.
     bnd (pureE (rd32 (room mb) (ipv4_size + 16))) (\<lambda>dst.
     bnd (sys (plain d) ''inet_ntop'' [Sym ''AF_INET'', B (le32 src), I 16]) (\<lambda>_.
     bnd (sys (plain d) ''inet_ntop'' [Sym ''AF_INET'', B (le32 dst), I 16]) (\<lambda>_.
     bnd (pureE (rd8 (room mb) (ipv4_size + 9))) (\<lambda>proto.
     if proto = IPPROTO_UDP then ret () else if proto = IPPROTO_TCP then ret () else ret ())))))"

text \<open>Sending the reply to a request that came from \<open>sha\<close> and \<open>sip\<close>.\<close>

definition send_reply :: "'w dpdk \<Rightarrow> int \<Rightarrow> mac \<Rightarrow> mac \<Rightarrow> u32 \<Rightarrow> ('w, unit) prog" where
  "send_reply d pool local sha sip =
     bnd (printf (ln ''recv arp request '') []) (\<lambda>_.
     bnd (pktmbuf_alloc d pool) (\<lambda>p.
     case p of
       None \<Rightarrow> crash NullDeref
     | Some sb \<Rightarrow>
         let msg = (if mtod_offset sb 0 = 0 then None else Some (room sb)) in
         bnd (send_eth_msg local sha ETHER_TYPE_ARP msg) (\<lambda>(r, msg1).
         if r \<noteq> 0 then rte_exit 1 (ln ''create send ether msg failed '') [] else
         bnd (send_arp_msg local g_local_ip_addr sha sip ARP_OP_REPLY (Some msg1)) (\<lambda>(r, msg2).
         if r \<noteq> 0 then rte_exit 1 (ln ''create arp reply msg failed '') [] else
         let total_length = (of_nat (eth_size + arp_size) :: u16);
             sb' = sb\<lparr>room := msg2, pkt_len := ucast total_length, data_len := total_length\<rparr> in
         bnd (sys (plain d) ''rte_eth_tx_burst'' [I (uint g_dpdk_port), I 0, mbuf_arg sb', I 1]) (\<lambda>t.
         if rv t = 0 then rte_exit 1 (ln ''send arp reply failed '') [] else
         bnd (pktmbuf_free d sb') (\<lambda>_.
         printf (ln ''send arp response success '') []))))))"

definition handle_arp :: "'w dpdk \<Rightarrow> int \<Rightarrow> mac \<Rightarrow> mbuf \<Rightarrow> ('w, unit) prog" where
  "handle_arp d pool local mb =
     bnd (pureE (be32_at (room mb) (eth_size + 14))) (\<lambda>src_ip.
     bnd (pureE (be32_at (room mb) (eth_size + 24))) (\<lambda>dst_ip.
     bnd (pureE (be16_at (room mb) (eth_size + 6))) (\<lambda>op.
     if op = ARP_OP_REQUEST \<and> dst_ip = g_local_ip_addr then
       bnd (pureE (rdn (room mb) (eth_size + 8) 6)) (\<lambda>sha.
       send_reply d pool local sha src_ip)
     else ret ())))"

text \<open>One turn of the \<open>for\<close> loop; a \<open>continue\<close> is a \<open>ret ()\<close>.\<close>

definition handle_mbuf :: "'w dpdk \<Rightarrow> int \<Rightarrow> mac \<Rightarrow> mbuf \<Rightarrow> ('w, unit) prog" where
  "handle_mbuf d pool local mb =
     bnd (pureE (rdn (room mb) 0 6)) (\<lambda>dst.
     if dst \<noteq> local \<and> dst \<noteq> g_broadcast_mac_addr then ret () else
     bnd (pureE (be16_at (room mb) 12)) (\<lambda>protocol.
     if protocol = ETHER_TYPE_IPV4 then
       (if mtod_offset mb ipv4_size = 0 then ret () else
        bnd (handle_ipv4 d mb) (\<lambda>_. pktmbuf_free d mb))
     else if protocol = ETHER_TYPE_ARP then
       (if mtod_offset mb eth_size = 0 then ret () else
        bnd (handle_arp d pool local mb) (\<lambda>_. pktmbuf_free d mb))
     else pktmbuf_free d mb))"

text \<open>\<open>RECV_MBUF\<close> is 1. The count is unsigned, so the check below 0 never succeeds.\<close>

definition recv_burst :: "'w dpdk \<Rightarrow> int \<Rightarrow> mac \<Rightarrow> ('w, unit) prog" where
  "recv_burst d pool local =
     bnd (rx_burst d g_dpdk_port 0 1) (\<lambda>ms.
     if (of_nat (length ms) :: u16) < 0 then rte_exit 1 ''read buf failed'' [] else
     for_each ms (handle_mbuf d pool local))"

definition recv_dev_buffer :: "'w dpdk \<Rightarrow> int \<Rightarrow> mac \<Rightarrow> nat \<Rightarrow> ('w, unit) prog" where
  "recv_dev_buffer d pool local n = forever n (recv_burst d pool local)"

section \<open>The program\<close>

definition arp_main :: "'w dpdk \<Rightarrow> nat \<Rightarrow> ('w, int) prog" where
  "arp_main d n =
     bnd (sys (plain d) ''rte_eal_init'' [Sym ''argc'', Sym ''argv'']) (\<lambda>r.
     if rv r = -1 then rte_exit 1 (ln ''init dpdk env failed'') [] else
     bnd (sys (plain d) ''rte_eth_dev_count_avail'' []) (\<lambda>c.
     if (of_int (rv c) :: u16) = 0 then rte_exit 1 ''need at least one device'' [] else
     bnd (sys (plain d) ''rte_socket_id'' []) (\<lambda>s.
     bnd (sys (plain d) ''rte_pktmbuf_pool_create''
       [S ''arp_pool'', I 8191, I 128, I 0, Sym ''RTE_MBUF_DEFAULT_BUF_SIZE'', I (rv s)]) (\<lambda>pool.
     if rv pool = 0 then rte_exit 1 ''create memory pool failed'' [] else
     bnd (init_port (plain d) g_dpdk_port (rv pool)) (\<lambda>(r, local).
     if r \<noteq> 0 then rte_exit 1 ''init port failed'' [] else
     bnd (recv_dev_buffer d (rv pool) local n) (\<lambda>_.
     bnd (sys (plain d) ''rte_eal_cleanup'' []) (\<lambda>_.
     ret 0)))))))"

end
