(* ===== verification/ArpClaims.thy ===== *)
theory ArpClaims
  imports Arp
begin

text \<open>
  Properties of the ARP responder: the frame it sends, when it sends one, what happens to the
  buffers, and the order of its set-up calls.
\<close>

section \<open>The wire image of the reply\<close>

text \<open>The ARP message of RFC 826 for IPv4 over Ethernet, and the Ethernet header in front.\<close>

definition be16 :: "u16 \<Rightarrow> bytes" where
  "be16 x = [byte_at 1 x, byte_at 0 x]"

definition be32 :: "u32 \<Rightarrow> bytes" where
  "be32 x = [byte_at 3 x, byte_at 2 x, byte_at 1 x, byte_at 0 x]"

definition arp_image :: "u16 \<Rightarrow> mac \<Rightarrow> u32 \<Rightarrow> mac \<Rightarrow> u32 \<Rightarrow> bytes" where
  "arp_image op sha sip tha tip =
     be16 1 @ be16 0x0800 @ [6, 4] @ be16 op @ sha @ be32 sip @ tha @ be32 tip"

definition eth_image :: "mac \<Rightarrow> mac \<Rightarrow> u16 \<Rightarrow> bytes" where
  "eth_image dst src t = dst @ src @ be16 t"

lemma le_bswap: "le16 (bswap16 x) = be16 x" "le32 (bswap32 y) = be32 y"
  by (simp_all add: le16_def bswap16_def le32_def bswap32_def be16_def be32_def)

lemma length_be [simp]: "length (be16 x) = 2" "length (be32 y) = 4"
  by (simp_all add: be16_def be32_def)

lemma split_at: "n \<le> length xs \<Longrightarrow> \<exists>as bs. xs = as @ bs \<and> length as = n"
  by (metis append_take_drop_id length_take min.absorb2)

lemma write_eth_image:
  assumes "length src = 6" "length dst = 6" "14 \<le> length msg"
  shows "write_eth src dst t msg = Inr (eth_image dst src t @ drop 14 msg)"
proof -
  obtain a r1 where 1: "msg = a @ r1" "length a = 6" using split_at [of 6 msg] assms(3) by auto
  obtain b r2 where 2: "r1 = b @ r2" "length b = 6" using split_at [of 6 r1] assms(3) 1 by auto
  obtain c r3 where 3: "r2 = c @ r3" "length c = 2" using split_at [of 2 r2] assms(3) 1 2 by auto
  show ?thesis
    using assms 1 2 3 by (simp add: write_eth_def wrn_def le_bswap eth_image_def)
qed

lemma write_arp_image:
  assumes "length sha = 6" "length tha = 6" "42 \<le> length msg"
  shows "write_arp sha sip tha tip op msg =
     Inr (take 14 msg @ arp_image op sha sip tha tip @ drop 42 msg)"
proof -
  obtain e r0 where 0: "msg = e @ r0" "length e = 14" using split_at [of 14 msg] assms(3) by auto
  obtain a r1 where 1: "r0 = a @ r1" "length a = 2" using split_at [of 2 r0] assms(3) 0 by auto
  obtain b r2 where 2: "r1 = b @ r2" "length b = 2" using split_at [of 2 r1] assms(3) 0 1 by auto
  obtain c r3 where 3: "r2 = c @ r3" "length c = 1" using split_at [of 1 r2] assms(3) 0 1 2 by auto
  obtain f r4 where 4: "r3 = f @ r4" "length f = 1" using split_at [of 1 r3] assms(3) 0 1 2 3 by auto
  obtain g r5 where 5: "r4 = g @ r5" "length g = 2" using split_at [of 2 r4] assms(3) 0 1 2 3 4 by auto
  obtain h r6 where 6: "r5 = h @ r6" "length h = 6" using split_at [of 6 r5] assms(3) 0 1 2 3 4 5 by auto
  obtain i r7 where 7: "r6 = i @ r7" "length i = 4" using split_at [of 4 r6] assms(3) 0 1 2 3 4 5 6 by auto
  obtain j r8 where 8: "r7 = j @ r8" "length j = 6" using split_at [of 6 r7] assms(3) 0 1 2 3 4 5 6 7 by auto
  obtain l r9 where 9: "r8 = l @ r9" "length l = 4" using split_at [of 4 r8] assms(3) 0 1 2 3 4 5 6 7 8 by auto
  show ?thesis
    using assms 0 1 2 3 4 5 6 7 8 9
    by (simp add: write_arp_def wrn_def le_bswap arp_image_def header_sizes ARP_HRD_ETHER_def
        ETHER_TYPE_IPV4_def)
qed

section \<open>Running the handler\<close>

text \<open>A received buffer: DPDK's promise, and room for an ARP frame.\<close>

definition frame_ok :: "mbuf \<Rightarrow> bool" where
  "frame_ok mb \<longleftrightarrow> sound_mbuf mb \<and> 42 \<le> length (room mb)"

lemma frame_ok_D:
  assumes "frame_ok mb"
  shows "rdn (room mb) 0 6 = Inr (take 6 (room mb))"
    and "\<exists>t. be16_at (room mb) 12 = Inr t"
    and "mtod_offset mb 0 \<noteq> 0" "mtod_offset mb 14 \<noteq> 0" "mtod_offset mb 20 \<noteq> 0"
    and "42 \<le> length (room mb)"
  using assms mtod_not_null [of mb] be_at_in_room(1) [of 12 "room mb"]
  by (auto simp: frame_ok_def rdn_def)

definition dst_mac :: "mbuf \<Rightarrow> mac" where
  "dst_mac mb = take 6 (room mb)"

definition addressed :: "mac \<Rightarrow> mbuf \<Rightarrow> bool" where
  "addressed local mb \<longleftrightarrow> dst_mac mb = local \<or> dst_mac mb = g_broadcast_mac_addr"

text \<open>An ARP request for the local address, from hardware address \<open>sha\<close> and address \<open>sip\<close>.\<close>

definition request_from :: "mbuf \<Rightarrow> mac \<Rightarrow> u32 \<Rightarrow> bool" where
  "request_from mb sha sip \<longleftrightarrow>
     be16_at (room mb) 12 = Inr ETHER_TYPE_ARP \<and> be16_at (room mb) 20 = Inr ARP_OP_REQUEST \<and>
     rdn (room mb) 22 6 = Inr sha \<and> be32_at (room mb) 28 = Inr sip \<and>
     be32_at (room mb) 38 = Inr g_local_ip_addr"

definition free_call :: "mbuf \<Rightarrow> string \<times> arg list" where
  "free_call mb = (''rte_pktmbuf_free'', [I (uint (addr mb))])"

lemma unaddressed_run:
  "frame_ok mb \<Longrightarrow> \<not> addressed local mb \<Longrightarrow> handle_mbuf d pool local mb m = (Ret (), m)"
  by (simp add: handle_mbuf_def frame_ok_D addressed_def dst_mac_def ret_run)

lemma send_msgs_run:
  assumes "length local = 6" "length sha = 6" "42 \<le> length msg"
  shows "bnd (send_eth_msg local sha t (Some msg)) f =
      bnd (printf ''send eth: '' []) (\<lambda>_. bnd (print_mac_addr local) (\<lambda>_. bnd (printf '' -> '' []) (\<lambda>_.
      bnd (print_mac_addr sha) (\<lambda>_. bnd (printf (ln '''') []) (\<lambda>_.
      f (0, eth_image sha local t @ drop 14 msg))))))"
    and "bnd (send_arp_msg local lip sha sip op (Some msg)) g =
      g (0, take 14 msg @ arp_image op local lip sha sip @ drop 42 msg)"
  using assms
  by (simp_all add: send_eth_msg_def send_arp_msg_def write_eth_image write_arp_image bnd_assoc
      del: ret_run)

definition reply_mbuf :: "mac \<Rightarrow> mac \<Rightarrow> u32 \<Rightarrow> mbuf \<Rightarrow> mbuf" where
  "reply_mbuf local sha sip sb =
     sb\<lparr>room := eth_image sha local 0x0806 @ arp_image 2 local 0xC0A879DC sha sip @ drop 42 (room sb),
        pkt_len := 42, data_len := 42\<rparr>"

definition tx_call :: "mbuf \<Rightarrow> string \<times> arg list" where
  "tx_call mb = (''rte_eth_tx_burst'', [I 0, I 0, mbuf_arg mb, I 1])"

lemma local_ip: "g_local_ip_addr = 0xC0A879DC"
  by (simp add: g_local_ip_addr_def rte_ipv4_def push_bit_eq_mult)

lemma eth_image_prefix [simp]:
  "length dst = 6 \<Longrightarrow> length src = 6 \<Longrightarrow> take 14 (eth_image dst src t @ r) = eth_image dst src t"
  "length dst = 6 \<Longrightarrow> length src = 6 \<Longrightarrow> drop 42 (eth_image dst src t @ r) = drop 28 r"
  "length dst = 6 \<Longrightarrow> length src = 6 \<Longrightarrow> length (eth_image dst src t) = 14"
  by (simp_all add: eth_image_def)

text \<open>What the driver answers when the reply is handed to it in world \<open>w\<close>.\<close>

definition tx_answer :: "'w dpdk \<Rightarrow> mbuf \<Rightarrow> 'w \<Rightarrow> int" where
  "tx_answer d rep w = rv (fst (plain d ''rte_eth_tx_burst'' [I 0, I 0, mbuf_arg rep, I 1] w))"

lemma send_reply_run:
  assumes "length local = 6" "length sha = 6" "alloc d (world m) = (Some sb, w)" "frame_ok sb"
    and "rep = reply_mbuf local sha sip sb"
  shows "run_value (send_reply d pool local sha sip) m =
           (if tx_answer d rep w = 0 then Exit 1 else Ret ())"
    and "run_calls (send_reply d pool local sha sip) m =
           (''rte_pktmbuf_alloc'', [I pool]) # tx_call rep #
           (if tx_answer d rep w = 0 then [] else [free_call sb])"
  using assms frame_ok_D [OF assms(4)]
  by (simp_all add: send_reply_def pktmbuf_alloc_def pktmbuf_free_def step_rules run_defs send_msgs_run
      print_mac_addr_def rte_exit_def tx_answer_def tx_call_def free_call_def reply_mbuf_def Let_def
      local_ip header_sizes g_dpdk_port_def ETHER_TYPE_ARP_def ARP_OP_REPLY_def
     )

lemmas arp_steps = step_rules run_defs print_mac_addr_def rte_exit_def pktmbuf_alloc_def
  pktmbuf_free_def Let_def local_ip header_sizes g_dpdk_port_def

lemma request_run:
  assumes "length local = 6" "length sha = 6" "alloc d (world m) = (Some sb, w)" "frame_ok sb"
    and "rep = reply_mbuf local sha sip sb"
    and "frame_ok mb" "addressed local mb" "request_from mb sha sip"
  shows "run_value (handle_mbuf d pool local mb) m =
           (if tx_answer d rep w = 0 then Exit 1 else Ret ())"
    and "run_calls (handle_mbuf d pool local mb) m =
           (''rte_pktmbuf_alloc'', [I pool]) # tx_call rep #
           (if tx_answer d rep w = 0 then [] else [free_call sb, free_call mb])"
  using assms frame_ok_D [OF assms(4)] frame_ok_D [OF assms(6)]
  by (auto simp add: handle_mbuf_def handle_arp_def request_from_def addressed_def dst_mac_def
      ETHER_TYPE_ARP_def ETHER_TYPE_IPV4_def send_reply_def arp_steps send_msgs_run
      tx_answer_def tx_call_def free_call_def reply_mbuf_def ARP_OP_REPLY_def ARP_OP_REQUEST_def)

text \<open>Without a buffer to send, the handler dereferences the null pointer.\<close>

lemma request_no_buffer:
  assumes "alloc d (world m) = (None, w)"
    and "frame_ok mb" "addressed local mb" "request_from mb sha sip"
  shows "run_value (handle_mbuf d pool local mb) m = Crash NullDeref"
    and "run_calls (handle_mbuf d pool local mb) m = [(''rte_pktmbuf_alloc'', [I pool])]"
  using assms frame_ok_D [OF assms(2)]
  by (auto simp add: handle_mbuf_def handle_arp_def request_from_def addressed_def dst_mac_def
      ETHER_TYPE_ARP_def ETHER_TYPE_IPV4_def send_reply_def arp_steps
      ARP_OP_REPLY_def ARP_OP_REQUEST_def)

text \<open>Every other addressed frame is only freed, an IPv4 frame after two conversions to text.\<close>

lemma fields_in_room:
  assumes "frame_ok mb"
  obtains proto op sip tip sha where "be16_at (room mb) 12 = Inr proto" "be16_at (room mb) 20 = Inr op"
    "be32_at (room mb) 28 = Inr sip" "be32_at (room mb) 38 = Inr tip" "rdn (room mb) 22 6 = Inr sha"
    "length sha = 6"
proof -
  have r: "42 \<le> length (room mb)" using assms by (simp add: frame_ok_def)
  obtain proto op sip tip where "be16_at (room mb) 12 = Inr proto" "be16_at (room mb) 20 = Inr op"
    "be32_at (room mb) 28 = Inr sip" "be32_at (room mb) 38 = Inr tip"
    using r be_at_in_room [of 12 "room mb"] be_at_in_room [of 20 "room mb"]
      be_at_in_room [of 28 "room mb"] be_at_in_room [of 38 "room mb"] by auto
  moreover have "rdn (room mb) 22 6 = Inr (take 6 (drop 22 (room mb)))"
    "length (take 6 (drop 22 (room mb))) = 6" using r by (simp_all add: rdn_def)
  ultimately show thesis using that by blast
qed

lemma other_run:
  assumes "frame_ok mb" "addressed local mb" "\<nexists>sha sip. request_from mb sha sip"
  shows "run_value (handle_mbuf d pool local mb) m = Ret ()"
    and "\<exists>cs. run_calls (handle_mbuf d pool local mb) m = cs @ [free_call mb] \<and>
           fst ` set cs \<subseteq> {''inet_ntop''}"
proof -
  obtain proto op sip tip sha where f: "be16_at (room mb) 12 = Inr proto" "be16_at (room mb) 20 = Inr op"
    "be32_at (room mb) 28 = Inr sip" "be32_at (room mb) 38 = Inr tip" "rdn (room mb) 22 6 = Inr sha"
    using fields_in_room [OF assms(1)] by metis
  have no: "\<not> (proto = ETHER_TYPE_ARP \<and> op = ARP_OP_REQUEST \<and> tip = g_local_ip_addr)"
    using assms(3) f by (auto simp: request_from_def)
  obtain a b c where r: "rd32 (room mb) 32 = Inr a" "rd32 (room mb) 36 = Inr b" "rd8 (room mb) 29 = Inr c"
    using assms(1) by (auto simp: frame_ok_def rd32_def rdn_def rd8_def)
  have "run_value (handle_mbuf d pool local mb) m = Ret () \<and>
     run_calls (handle_mbuf d pool local mb) m =
       (if proto = ETHER_TYPE_IPV4 then [(''inet_ntop'', [Sym ''AF_INET'', B (le32 a), I 16]),
           (''inet_ntop'', [Sym ''AF_INET'', B (le32 b), I 16])] else []) @ [free_call mb]"
    using assms(1,2) frame_ok_D [OF assms(1)] f no r
    by (auto simp: handle_mbuf_def handle_arp_def handle_ipv4_def addressed_def dst_mac_def
        arp_steps free_call_def)
  then show "run_value (handle_mbuf d pool local mb) m = Ret ()"
    and "\<exists>cs. run_calls (handle_mbuf d pool local mb) m = cs @ [free_call mb] \<and>
           fst ` set cs \<subseteq> {''inet_ntop''}"
    by auto
qed

section \<open>The set-up calls\<close>

definition arp_stages :: "string list" where
  "arp_stages =
     [''rte_eal_init'', ''rte_eth_dev_count_avail'', ''rte_socket_id'', ''rte_pktmbuf_pool_create'',
      ''rte_eth_dev_info_get'', ''rte_eth_dev_configure'', ''rte_eth_dev_socket_id'',
      ''rte_eth_rx_queue_setup'', ''rte_eth_dev_socket_id'', ''rte_eth_tx_queue_setup'',
      ''rte_eth_macaddr_get'', ''rte_eth_promiscuous_enable'', ''rte_eth_dev_start'']"

definition arp_late :: "string set" where
  "arp_late = {''rte_eth_rx_burst'', ''inet_ntop'', ''rte_pktmbuf_alloc'', ''rte_eth_tx_burst'',
     ''rte_pktmbuf_free''}"

lemma handler_parts:
  "only_calls (print_mac_addr a) late (loop_ends 1)"
  "only_calls (rte_exit 1 s as) late (loop_ends 1)"
  "only_calls (pktmbuf_free d mb) arp_late (loop_ends 1)"
  "only_calls (send_eth_msg a b t msg) late (loop_ends 1)"
  "only_calls (send_arp_msg a i b j op msg) late (loop_ends 1)"
  unfolding print_mac_addr_def rte_exit_def pktmbuf_free_def send_eth_msg_def send_arp_msg_def
  by (intro loop_intro; simp add: arp_late_def)+

lemma handle_mbuf_calls: "only_calls (handle_mbuf d pool local mb) arp_late (loop_ends 1)"
  unfolding handle_mbuf_def handle_arp_def handle_ipv4_def send_reply_def pktmbuf_alloc_def Let_def
  by (intro loop_intro handler_parts; simp add: arp_late_def)

lemma recv_dev_buffer_calls: "only_calls (recv_dev_buffer d pool local n) arp_late (no_return 1)"
  unfolding recv_dev_buffer_def recv_burst_def rx_burst_def
  by (intro only_calls_forever loop_intro only_calls_for_each handle_mbuf_calls handler_parts)
    (simp add: arp_late_def)

lemma arp_main_stages: "stages (arp_main d n) arp_stages arp_late {Exit 1} (no_return 1)"
  unfolding arp_main_def init_port_def print_mac_addr_def arp_stages_def
  by (intro stage_intro stages_only_calls [OF only_calls_never [OF recv_dev_buffer_calls]]; simp)

interpretation arp: staged "arp_main d n" arp_stages arp_late "{Exit 1}" "no_return 1"
  for d :: "'w dpdk" and n
  by unfold_locales (rule arp_main_stages)

section \<open>A concrete run\<close>

definition demo_mac :: mac where "demo_mac = [0x00, 0x0c, 0x29, 0x04, 0x4d, 0xd3]"
definition demo_peer :: mac where "demo_peer = [0x02, 0x11, 0x22, 0x33, 0x44, 0x55]"

definition demo_buf :: "bytes \<Rightarrow> mbuf" where
  "demo_buf bs = \<lparr>addr = 64, data_ptr = 256, room = bs, pkt_len = 42, data_len = 42\<rparr>"

definition demo_request :: mbuf where
  "demo_request = demo_buf
     ([0xff, 0xff, 0xff, 0xff, 0xff, 0xff, 0x02, 0x11, 0x22, 0x33, 0x44, 0x55, 0x08, 0x06,
       0, 1, 8, 0, 6, 4, 0, 1, 0x02, 0x11, 0x22, 0x33, 0x44, 0x55, 192, 168, 121, 1,
       0, 0, 0, 0, 0, 0, 192, 168, 121, 220])"

text \<open>A host on which the port comes up.\<close>

definition boot_host :: "unit host" where
  "boot_host f as w =
     (\<lparr>rv = if f \<in> {''rte_eth_dev_info_get'', ''rte_eth_dev_configure'', ''rte_eth_rx_queue_setup'',
                   ''rte_eth_tx_queue_setup'', ''rte_eth_macaddr_get'', ''rte_eth_promiscuous_enable'',
                   ''rte_eth_dev_start''} then 0 else 1, eno = 0, out = demo_mac\<rparr>, w)"

definition boot_dpdk :: "unit dpdk" where
  "boot_dpdk = \<lparr>plain = boot_host, rx = (\<lambda>p q w. ([], w)), alloc = (\<lambda>w. (None, w))\<rparr>"

definition demo_dpdk :: "unit dpdk" where
  "demo_dpdk = \<lparr>plain = (\<lambda>f as w. (\<lparr>rv = 1, eno = 0, out = []\<rparr>, w)), rx = (\<lambda>p q w. ([demo_request], w)),
     alloc = (\<lambda>w. (Some (demo_buf (replicate 64 0)), w))\<rparr>"

lemma demo_buffers: "frame_ok demo_request" "frame_ok (demo_buf (replicate 64 0))"
  by (simp_all add: frame_ok_def sound_mbuf_def demo_request_def demo_buf_def)

lemma demo_addressed: "addressed demo_mac demo_request" "length demo_mac = 6" "length demo_peer = 6"
  by (simp_all add: demo_request_def demo_buf_def addressed_def dst_mac_def
      g_broadcast_mac_addr_def demo_peer_def demo_mac_def)

definition demo_other :: mbuf where
  "demo_other = (demo_buf (demo_peer @ replicate 58 0))\<lparr>addr := 65\<rparr>"

lemma demo_other: "frame_ok demo_other" "\<not> addressed demo_mac demo_other"
  by (simp_all add: demo_other_def demo_buf_def frame_ok_def sound_mbuf_def demo_peer_def demo_mac_def
      addressed_def dst_mac_def g_broadcast_mac_addr_def)

lemma demo_words: "join16 8 6 = 0x0806" "join16 0 1 = 1" "join32 192 168 121 1 = 0xC0A87901"
  "join32 192 168 121 220 = 0xC0A879DC"
  by (simp_all add: join16_def join32_def push_bit_eq_mult)

lemma demo_request_from: "request_from demo_request demo_peer 0xC0A87901"
  by (simp add: request_from_def demo_request_def demo_buf_def demo_peer_def be16_at_def be32_at_def
      rd16_def rd32_def rdn_def ETHER_TYPE_ARP_def ARP_OP_REQUEST_def local_ip demo_words)

lemma boot_runs: "fst (arp_main boot_dpdk 0 (start ())) = Running"
  by (simp add: arp_main_def init_port_def boot_dpdk_def boot_host_def step_rules print_mac_addr_def
      recv_dev_buffer_def bnd_step)

section \<open>Properties\<close>

text \<open>
  C7: An ARP request for the local address, sent to the local or the broadcast hardware address, is,
  when a buffer for the reply can be allocated, answered with exactly one frame of 42 bytes: an Ethernet header back to the sender and the RFC 826
  reply that binds the local address to the local hardware address. If the driver takes the frame,
  the responder then frees the frame it has handed over, and the request; if not, it exits with 1.
\<close>

theorem arp_request_answered:
  fixes m :: "'w mach"
  assumes "frame_ok mb" "addressed local mb" "request_from mb sha sip"
    and "length local = 6" "length sha = 6"
    and "alloc d (world m) = (Some sb, w)" "frame_ok sb"
  shows "let rep = sb\<lparr>room := eth_image sha local ETHER_TYPE_ARP @
                  arp_image ARP_OP_REPLY local g_local_ip_addr sha sip @ drop 42 (room sb),
                pkt_len := 42, data_len := 42\<rparr>;
             sent = tx_answer d rep w \<noteq> 0 in
         run_value (handle_mbuf d pool local mb) m = (if sent then Ret () else Exit 1) \<and>
         run_calls (handle_mbuf d pool local mb) m =
           [(''rte_pktmbuf_alloc'', [I pool]), tx_call rep] @
           (if sent then [free_call sb, free_call mb] else [])"
  using request_run [OF assms(4,5,6,7) refl assms(1,2,3), of pool]
  by (auto simp: Let_def reply_mbuf_def local_ip ARP_OP_REPLY_def ETHER_TYPE_ARP_def)

theorem arp_request_answered_witness:
  "run_value (handle_mbuf demo_dpdk 7 demo_mac demo_request) (start ()) = Ret () \<and>
   map fst (run_calls (handle_mbuf demo_dpdk 7 demo_mac demo_request) (start ())) =
     [''rte_pktmbuf_alloc'', ''rte_eth_tx_burst'', ''rte_pktmbuf_free'', ''rte_pktmbuf_free'']"
  using arp_request_answered [OF demo_buffers(1) demo_addressed(1) demo_request_from demo_addressed(2,3),
      of demo_dpdk "start ()" "demo_buf (replicate 64 0)" "()" 7] demo_buffers(2)
  by (simp add: demo_dpdk_def tx_answer_def tx_call_def free_call_def Let_def)

text \<open>
  A frame is sent only in answer to a request: if the handler calls the transmit function, the
  received frame was addressed to this host and is an ARP request for the local address.
\<close>

theorem arp_sends_only_replies:
  fixes m :: "'w mach"
  assumes "frame_ok mb" and "''rte_eth_tx_burst'' \<in> fst ` set (run_calls (handle_mbuf d pool local mb) m)"
  shows "addressed local mb \<and> (\<exists>sha sip. request_from mb sha sip)"
proof (rule conjI; rule ccontr)
  assume no: "\<not> addressed local mb"
  then show False using assms unaddressed_run [OF assms(1) no, of d pool m] by (simp add: run_defs)
next
  assume no: "\<nexists>sha sip. request_from mb sha sip"
  show False
  proof (cases "addressed local mb")
    case True
    obtain cs where "run_calls (handle_mbuf d pool local mb) m = cs @ [free_call mb]"
        "fst ` set cs \<subseteq> {''inet_ntop''}"
      using other_run(2) [OF assms(1) True no] by blast
    then show False using assms(2) by (auto simp: free_call_def)
  next
    case False
    then show False using assms unaddressed_run [OF assms(1) False, of d pool m] by (simp add: run_defs)
  qed
qed

theorem arp_sends_only_replies_witness:
  "\<exists>sha sip. request_from demo_request sha sip"
proof -
  have "''rte_eth_tx_burst'' \<in>
      fst ` set (run_calls (handle_mbuf demo_dpdk 7 demo_mac demo_request) (start ()))"
    using request_run(2) [OF demo_addressed(2,3) _ demo_buffers(2) refl demo_buffers(1)
        demo_addressed(1) demo_request_from, of demo_dpdk "start ()" "()" 7]
    by (simp add: demo_dpdk_def tx_call_def)
  then show ?thesis using arp_sends_only_replies [OF demo_buffers(1)] by blast
qed

text \<open>
  The buffer of a received frame is given back when the handler is done with it exactly if the
  frame was addressed to this host; every other frame the promiscuous port delivers keeps its buffer,
  so the pool runs dry.
\<close>

theorem arp_frees_only_addressed:
  fixes m :: "'w mach"
  assumes "frame_ok mb" "length local = 6"
    and "\<forall>w sb w'. alloc d w = (Some sb, w') \<longrightarrow> frame_ok sb \<and> addr sb \<noteq> addr mb"
    and "run_value (handle_mbuf d pool local mb) m = Ret ()"
  shows "(free_call mb \<in> set (run_calls (handle_mbuf d pool local mb) m)) = addressed local mb"
proof (cases "addressed local mb")
  case False
  then show ?thesis using unaddressed_run [OF assms(1) False, of d pool m] by (simp add: run_defs)
next
  case True
  show ?thesis
  proof (cases "\<exists>sha sip. request_from mb sha sip")
    case False
    then obtain cs where "run_calls (handle_mbuf d pool local mb) m = cs @ [free_call mb]"
      using other_run(2) [OF assms(1) True] by blast
    then show ?thesis using True by simp
  next
    case req: True
    then obtain sha sip where r: "request_from mb sha sip" by blast
    then have len: "length sha = 6"
      by (auto simp: request_from_def rdn_def split: if_splits)
    show ?thesis
    proof (cases "fst (alloc d (world m))")
      case None
      then show ?thesis
        using assms(4) request_no_buffer(1) [OF _ assms(1) True r, of d m "snd (alloc d (world m))" pool]
        by (metis outcome.distinct(3) prod.collapse)
    next
      case (Some sb)
      then have a: "alloc d (world m) = (Some sb, snd (alloc d (world m)))" by (metis prod.collapse)
      then have ok: "frame_ok sb" using assms(3) by blast
      show ?thesis
        using request_run [OF assms(2) len a ok refl assms(1) True r, of pool] assms(4) True
        by (auto split: if_splits)
    qed
  qed
qed

theorem arp_frees_only_addressed_witness:
  "free_call demo_other \<notin> set (run_calls (handle_mbuf demo_dpdk 7 demo_mac demo_other) (start ()))"
  using arp_frees_only_addressed [of demo_other demo_mac demo_dpdk 7 "start ()"]
    unaddressed_run [OF demo_other(1,2), of demo_dpdk 7 "start ()"] demo_other demo_buffers(2)
    demo_addressed(2)
  by (auto simp: demo_dpdk_def run_value_def demo_other_def demo_buf_def)

text \<open>
  The responder cannot answer: however long it runs it exits with 1, faults or is still in its
  receive loop; and it receives its first packet only after all thirteen set-up calls in order.
\<close>

theorem arp_main_order:
  fixes m :: "'w mach"
  shows "let (v, m') = arp_main d n m; cs = called (new_events m m') in
     v \<in> {Exit 1, Running} \<union> range Crash \<and>
     (v = Running \<longrightarrow> take 13 cs = arp_stages) \<and>
     (''rte_eth_rx_burst'' \<in> set cs \<longrightarrow> take 13 cs = arp_stages)"
proof -
  have len: "length arp_stages = 13" by (simp add: arp_stages_def)
  have "''rte_eth_rx_burst'' \<notin> set arp_stages" by (simp add: arp_stages_def)
  then show ?thesis
    using arp.outcome [of d n m] arp.all_stages [of d n m]
      arp.late_after_all [of "''rte_eth_rx_burst''" m d n]
    by (auto simp: split_beta Let_def len no_return_def)
qed

theorem arp_main_order_witness:
  "take 13 (called (new_events (start ()) (snd (arp_main boot_dpdk 0 (start ()))))) = arp_stages"
  using arp_main_order [of boot_dpdk 0 "start ()"] boot_runs by (simp add: split_beta Let_def)

definition intended_addr :: "u32 \<Rightarrow> string" where
  "intended_addr a =
     fmt_02d (uint (byte_at 0 a)) @ CHR ''.'' # fmt_02d (uint (byte_at 1 a)) @ CHR ''.'' #
     fmt_02d (uint (byte_at 2 a)) @ CHR ''.'' # fmt_02d (uint (byte_at 3 a))"

lemma print_addr_fields:
  "get_print_addr_from_be a = intended_addr a \<longleftrightarrow>
     sint a = uint a mod 256 \<and> sint (drop_bit 2 a) = uint a div 2 ^ 8 mod 256 \<and>
     sint (drop_bit 4 a) = uint a div 2 ^ 16 mod 256 \<and> sint (drop_bit 6 a) = uint a div 2 ^ 24 mod 256"
  by (simp add: get_print_addr_from_be_def intended_addr_def dot_cancel fmt_02d_inj uint_byte_at)

text \<open>
  \<open>get_print_addr_from_be\<close> does not produce the dotted notation its comment describes: it
  shifts by 2, 4 and 6 and never masks, so its text is the four bytes of the address, lowest first,
  only for the four addresses below 4.
\<close>

theorem print_addr_only_below_4:
  "(get_print_addr_from_be a = intended_addr a) = (a < 4)"
proof
  assume "get_print_addr_from_be a = intended_addr a"
  then have f: "sint a = uint a mod 256" "sint (drop_bit 2 a) = uint a div 2 ^ 8 mod 256"
    by (simp_all add: print_addr_fields)
  have u: "uint a = uint a mod 256" using f(1) sint_nonneg [of a] by simp
  then have "uint a < 256" using pos_mod_bound [of 256 "uint a"] by linarith
  moreover then have "uint (drop_bit 2 a) < 2 ^ 31" by (simp add: uint_drop_bit)
  ultimately have "uint a div 4 = 0" using f(2) sint_small [of "drop_bit 2 a"] by (simp add: uint_drop_bit)
  then have "uint a < 4" by presburger
  then show "a < 4" by (simp add: word_less_def)
next
  assume "a < 4"
  then have "uint a < 4" by (simp add: word_less_def)
  moreover have "0 \<le> uint a" by simp
  ultimately consider "uint a = 0" | "uint a = 1" | "uint a = 2" | "uint a = 3" by linarith
  moreover have "sint (drop_bit n a) = uint a div 2 ^ n" for n
  proof -
    have "uint a div 2 ^ n \<le> uint a" 
      using zdiv_mono2 [of "uint a" 1 "2 ^ n"] by simp
    then show ?thesis using \<open>uint a < 4\<close> by (simp add: sint_small uint_drop_bit)
  qed
  ultimately show "get_print_addr_from_be a = intended_addr a"
    using sint_small [of a] by cases (simp_all add: print_addr_fields)
qed

end
