(* ===== verification/FlowFilter.thy ===== *)
theory FlowFilter
  imports Dpdk
begin

text \<open>
  The DPDK programs \<^verbatim>\<open>dpdk/flow_filter/main.c\<close> (a drop rule for one address, and a printer of UDP
  datagrams to port 12345), \<^verbatim>\<open>dpdk/skeleton/udp_input.c\<close> (a printer of protocol numbers) and
  \<^verbatim>\<open>dpdk/helloworld/helloworld.c\<close>. The ports that \<open>RTE_ETH_FOREACH_DEV\<close> visits and the worker cores
  that \<open>RTE_LCORE_FOREACH_WORKER\<close> visits are lists the host gives.
\<close>

section \<open>flow\_filter: one packet\<close>

text \<open>
  A UDP header is taken right behind 20 bytes of IPv4 header. \<open>udp_hdr + 1 + data_length\<close> counts
  in headers of 8 bytes. The two texts of \<open>inet_ntoa\<close> share its buffer: \<open>printf\<close> prints twice the
  text of whichever call was evaluated last, which C leaves open (\<open>src_last\<close>).
\<close>

definition udp_packet :: "'w dpdk \<Rightarrow> bool \<Rightarrow> mbuf \<Rightarrow> ('w, unit) prog" where
  "udp_packet d src_last mb =
     (let udp = eth_size + ipv4_size in
      if mtod_offset mb udp = 0 then printf (ln ''udp_hdr is null'') [] else
      bnd (pureE (be16_at (room mb) (udp + 2))) (\<lambda>dst_port.
      if dst_port \<noteq> 12345 then ret () else
      bnd (pureE (be16_at (room mb) (udp + 4))) (\<lambda>data_length.
      bnd (pureE (wrn (room mb) (udp + udp_size * (1 + unat data_length)) [0])) (\<lambda>buf.
      bnd (pureE (rd32 buf (eth_size + 12))) (\<lambda>src_addr.
      bnd (pureE (rd32 buf (eth_size + 16))) (\<lambda>dst_addr.
      bnd (pureE (be16_at buf udp)) (\<lambda>sport.
      bnd (pureE (be16_at buf (udp + 2))) (\<lambda>dport.
      bnd (pureE (cstr_at buf (udp + udp_size))) (\<lambda>data.
      let text = inet_ntoa_text (if src_last then src_addr else dst_addr) in
      bnd (printf (ln ''recv: %s:%d -> %s:%d, data: %s '')
             [S text, I (uint sport), S text, I (uint dport), B data]) (\<lambda>_.
      pktmbuf_free d mb))))))))))"

definition flow_packet :: "'w dpdk \<Rightarrow> bool \<Rightarrow> mbuf \<Rightarrow> ('w, unit) prog" where
  "flow_packet d src_last mb =
     (if mtod_offset mb 0 = 0 then printf (ln ''eth_hdr is null'') [] else
      bnd (pureE (rd16 (room mb) 12)) (\<lambda>ether_type.
      if ether_type \<noteq> bswap16 ETHER_TYPE_IPV4 then ret () else
      if mtod_offset mb eth_size = 0 then ret () else
      bnd (pureE (rd8 (room mb) (eth_size + 9))) (\<lambda>proto.
      if proto = IPPROTO_ICMP then pktmbuf_free d mb
      else if proto = IPPROTO_UDP then udp_packet d src_last mb
      else pktmbuf_free d mb)))"

text \<open>\<open>DPDK_QUEUE_SIZE\<close> is 1, \<open>DPDK_BUF_SIZE\<close> 1024.\<close>

definition flow_round :: "'w dpdk \<Rightarrow> bool \<Rightarrow> u16 \<Rightarrow> ('w, unit) prog" where
  "flow_round d src_last port =
     for_each [0..<1] (\<lambda>index.
       bnd (rx_burst d port (of_nat index) 1024) (\<lambda>bufs.
       if length bufs = 0 then ret () else for_each bufs (flow_packet d src_last)))"

definition flow_main_loop :: "'w dpdk \<Rightarrow> bool \<Rightarrow> u16 \<Rightarrow> nat \<Rightarrow> ('w, int) prog" where
  "flow_main_loop d src_last port n =
     bnd (forever n (flow_round d src_last port) :: ('w, unit) prog) (\<lambda>_. ret 0)"

section \<open>flow\_filter: set-up\<close>

definition port_int :: "'w host \<Rightarrow> u16 \<Rightarrow> int \<Rightarrow> ('w, int) prog" where
  "port_int k port pool =
     bnd (sys k ''rte_eth_dev_is_valid_port'' [I (uint port)]) (\<lambda>v.
     if rv v = 0 then rte_exit 1 (ln ''port %d is invalid'') [I (uint port)] else
     bnd (sys k ''rte_eth_dev_info_get'' [I (uint port)]) (\<lambda>r.
     if rv r \<noteq> 0 then rte_exit 1 (ln ''Cannot get device info'') [] else
     bnd (sys k ''rte_eth_dev_configure''
       [I (uint port), I 1, I 1, Obj ''rte_eth_conf'' [(''txmode.offloads'',
          Sym ''VLAN_INSERT | UDP_CKSUM | TCP_CKSUM | TCP_TSO'')]]) (\<lambda>r.
     if rv r \<noteq> 0 then rte_exit 1 (ln ''Cannot configure device'') [] else
     bnd (for_each [0..<1] (\<lambda>index.
       bnd (sys k ''rte_eth_dev_socket_id'' [I (uint port)]) (\<lambda>s1.
       bnd (sys k ''rte_eth_rx_queue_setup''
         [I (uint port), I (int index), I 1024, I (rv s1), Sym ''NULL'', I pool]) (\<lambda>r.
       if rv r \<noteq> 0 then rte_exit 1 (ln ''Cannot setup rx queue'') [] else
       bnd (sys k ''rte_eth_dev_socket_id'' [I (uint port)]) (\<lambda>s2.
       bnd (sys k ''rte_eth_tx_queue_setup''
         [I (uint port), I (int index), I 1024, I (rv s2), Sym ''NULL'']) (\<lambda>r.
       if rv r \<noteq> 0 then rte_exit 1 (ln ''Cannot setup tx queue'') [] else
       ret ())))))) (\<lambda>_.
     bnd (sys k ''rte_eth_dev_start'' [I (uint port)]) (\<lambda>r.
     if rv r \<noteq> 0 then rte_exit 1 (ln ''Cannot start device'') [] else
     bnd (sys k ''rte_eth_promiscuous_enable'' [I (uint port)]) (\<lambda>r.
     if rv r \<noteq> 0 then rte_exit 1 (ln ''Cannot enable promiscuous mode'') [] else
     bnd (printf (ln ''init port %d success'') [I (uint port)]) (\<lambda>_.
     ret 0)))))))"

text \<open>
  \<open>DROP_DST_ADDR\<close> is 192.168.121.200 and its mask all ones. The members the function does not set
  are indeterminate.
\<close>

definition drop_rule :: "arg list" where
  "drop_rule =
     [Obj ''rte_flow_attr'' [(''ingress'', I 1), (''others'', Sym ''indeterminate'')],
      Obj ''items'' [(''0.type'', Sym ''RTE_FLOW_ITEM_TYPE_ETH''), (''0.spec'', Sym ''indeterminate''),
        (''1.type'', Sym ''RTE_FLOW_ITEM_TYPE_IPV4''),
        (''1.spec.hdr.dst_addr'', I (uint (bswap32 (rte_ipv4 192 168 121 200)))),
        (''1.mask.hdr.dst_addr'', I (uint (bswap32 0xFFFFFFFF))),
        (''2.type'', Sym ''RTE_FLOW_ITEM_TYPE_END'')],
      Obj ''actions'' [(''0.type'', Sym ''RTE_FLOW_ACTION_TYPE_DROP''),
        (''1.type'', Sym ''RTE_FLOW_ACTION_TYPE_END'')],
      Obj ''rte_flow_error'' []]"

definition set_flow_filter :: "'w host \<Rightarrow> u16 \<Rightarrow> ('w, int) prog" where
  "set_flow_filter k port =
     bnd (sys k ''rte_flow_validate'' (I (uint port) # drop_rule)) (\<lambda>v.
     if rv v = 0 then rte_exit 1 (ln ''check flow rule invalid'') [] else
     bnd (sys k ''rte_flow_create'' (I (uint port) # drop_rule)) (\<lambda>c.
     if rv c \<noteq> 0 then rte_exit 1 (ln ''set flow rule failed'') [] else
     bnd (printf (ln ''set flow rule success'') []) (\<lambda>_.
     ret 0)))"

definition flow_main :: "'w dpdk \<Rightarrow> bool \<Rightarrow> u16 list \<Rightarrow> nat \<Rightarrow> ('w, int) prog" where
  "flow_main d src_last ports n =
     bnd (sys (plain d) ''rte_eal_init'' [Sym ''argc'', Sym ''argv'']) (\<lambda>r.
     if rv r < 0 then rte_exit 1 (ln ''init dpdk enviroment failed'') [] else
     bnd (sys (plain d) ''rte_eth_dev_count_avail'' []) (\<lambda>c.
     if (of_int (rv c) :: u16) = 0 then rte_exit 1 (ln ''no device found'') [] else
     if (of_int (rv c) :: u16) \<noteq> 1 then rte_exit 1 (ln ''only support one device'') [] else
     bnd (sys (plain d) ''rte_socket_id'' []) (\<lambda>s.
     bnd (sys (plain d) ''rte_pktmbuf_pool_create''
       [S ''pool'', I 8191, I 128, I 0, Sym ''RTE_MBUF_DEFAULT_BUF_SIZE'', I (rv s)]) (\<lambda>pool.
     if rv pool = 0 then rte_exit 1 (ln ''create mempool failed'') [] else
     bnd (for_each ports (\<lambda>port.
       bnd (port_int (plain d) port (rv pool)) (\<lambda>_.
       bnd (set_flow_filter (plain d) port) (\<lambda>_.
       bnd (flow_main_loop d src_last port n) (\<lambda>_. ret ()))))) (\<lambda>_.
     bnd (sys (plain d) ''rte_eal_cleanup'' []) (\<lambda>_.
     ret 0))))))"

section \<open>skeleton\<close>

definition skel_port_init :: "'w host \<Rightarrow> u16 \<Rightarrow> int \<Rightarrow> ('w, int) prog" where
  "skel_port_init k port pool =
     bnd (sys k ''rte_eth_dev_count_avail'' []) (\<lambda>c.
     if (of_int (rv c) :: u16) \<le> port then ret (-1) else
     bnd (sys k ''rte_eth_dev_configure'' [I (uint port), I 1, I 1, Sym ''indeterminate port_conf'']) (\<lambda>r.
     if rv r \<noteq> 0 then ret (rv r) else
     bnd (sys k ''rte_eth_dev_socket_id'' [I (uint port)]) (\<lambda>s1.
     bnd (sys k ''rte_eth_rx_queue_setup''
       [I (uint port), I 0, I 1024, I (rv s1), Sym ''NULL'', I pool]) (\<lambda>r.
     if rv r < 0 then ret (rv r) else
     bnd (sys k ''rte_eth_dev_socket_id'' [I (uint port)]) (\<lambda>s2.
     bnd (sys k ''rte_eth_tx_queue_setup'' [I (uint port), I 0, I 1024, I (rv s2), Sym ''NULL'']) (\<lambda>r.
     if rv r < 0 then ret (rv r) else
     bnd (sys k ''rte_eth_dev_start'' [I (uint port)]) (\<lambda>r.
     if rv r < 0 then ret (rv r) else
     bnd (sys k ''rte_eth_promiscuous_enable'' [I (uint port)]) (\<lambda>_.
     ret 0))))))))"

text \<open>
  The array of buffers is new in every round; the cells behind the burst are indeterminate. The
  IPv4 header of every packet is read from cell 1, and no buffer is given back.
\<close>

definition skel_packet :: "mbuf list \<Rightarrow> nat \<Rightarrow> ('w, unit) prog" where
  "skel_packet bufs i =
     (if mtod_offset (bufs ! i) 0 = 0 then ret () else
      bnd (pureE (rd16 (room (bufs ! i)) 12)) (\<lambda>ether_type.
      if ether_type = bswap16 ETHER_TYPE_IPV4 then
        bnd (pureE (if 1 < length bufs then Inr (bufs ! 1) else Inl UninitRead)) (\<lambda>mb.
        if mtod_offset mb eth_size = 0 then ret () else
        bnd (pureE (rd8 (room mb) (eth_size + 9))) (\<lambda>proto.
        bnd (printf (ln ''receive packet, protocol: %d'') [I (uint proto)]) (\<lambda>_.
        whenP (proto = IPPROTO_ICMP) (printf (ln ''receive icmp packet'') []))))
      else ret ()))"

definition skel_round :: "'w dpdk \<Rightarrow> u16 list \<Rightarrow> ('w, unit) prog" where
  "skel_round d ports =
     for_each ports (\<lambda>port.
       bnd (rx_burst d port 0 1024) (\<lambda>bufs.
       if length bufs = 0 then ret () else for_each [0..<length bufs] (skel_packet bufs)))"

definition skel_main :: "'w dpdk \<Rightarrow> u16 list \<Rightarrow> nat \<Rightarrow> ('w, int) prog" where
  "skel_main d ports n =
     bnd (sys (plain d) ''rte_eal_init'' [Sym ''argc'', Sym ''argv'']) (\<lambda>r.
     if rv r < 0 then rte_exit 1 (ln ''Invalid EAL parameters'') [] else
     bnd (sys (plain d) ''rte_eth_dev_count_avail'' []) (\<lambda>c.
     let nb_ports = uint (of_int (rv c) :: u16) in
     if nb_ports = 0 then rte_exit 1 (ln ''No Ethernet ports - bye'') [] else
     bnd (printf (ln ''There are %u ports available'') [I nb_ports]) (\<lambda>_.
     bnd (sys (plain d) ''rte_socket_id'' []) (\<lambda>s.
     bnd (sys (plain d) ''rte_pktmbuf_pool_create''
       [S ''UDP_INPUT'', I (8191 * nb_ports), I 250, I 0, Sym ''RTE_MBUF_DEFAULT_BUF_SIZE'', I (rv s)]) (\<lambda>pool.
     if rv pool = 0 then rte_exit 1 (ln ''Cannot create mbuf pool'') [] else
     bnd (for_each ports (\<lambda>port.
       bnd (skel_port_init (plain d) port (rv pool)) (\<lambda>r.
       if r \<noteq> 0 then rte_exit 1 (ln ''Cannot init port %d'') [I (uint port)] else ret ()))) (\<lambda>_.
     bnd (printf ''all port init finished'' []) (\<lambda>_.
     bnd (forever n (skel_round d ports) :: ('w, unit) prog) (\<lambda>_.
     bnd (sys (plain d) ''rte_eal_cleanup'' []) (\<lambda>_.
     ret 0)))))))))"

section \<open>helloworld\<close>

definition lcore_hello :: "'w host \<Rightarrow> ('w, int) prog" where
  "lcore_hello k =
     bnd (sys k ''rte_lcore_id'' []) (\<lambda>l.
     bnd (printf (ln ''hello from core %u'') [I (rv l)]) (\<lambda>_.
     ret 0))"

definition hello_world_main :: "'w host \<Rightarrow> int list \<Rightarrow> ('w, int) prog" where
  "hello_world_main k workers =
     bnd (sys k ''rte_eal_init'' [Sym ''argc'', Sym ''argv'']) (\<lambda>r.
     if rv r < 0 then rte_exit 1 (ln ''Invalid EAL parameters'') [] else
     bnd (for_each workers (\<lambda>w.
       bnd (sys k ''rte_eal_remote_launch'' [Sym ''lcore_hello'', Sym ''NULL'', I w]) (\<lambda>_. ret ()))) (\<lambda>_.
     bnd (sys k ''rte_eal_mp_wait_lcore'' []) (\<lambda>_.
     bnd (sys k ''rte_eal_cleanup'' []) (\<lambda>_.
     ret 0))))"

end
