(* ===== verification/FlowClaims.thy ===== *)
theory FlowClaims
  imports FlowFilter ArpClaims
begin

text \<open>
  Properties of the DPDK programs flow_filter, skeleton and helloworld.
\<close>

section \<open>One packet of flow\_filter\<close>

lemmas flow_steps = arp_steps pktmbuf_free_def free_call_def

lemma flow_fields:
  assumes "frame_ok mb"
  obtains t p where "rd16 (room mb) 12 = Inr t" "rd8 (room mb) 23 = Inr p"
  using assms by (auto simp: frame_ok_def rd16_def rdn_def rd8_def)

lemma flow_null_checks:
  assumes "frame_ok mb"
  shows "mtod_offset mb 0 \<noteq> 0" "mtod_offset mb 14 \<noteq> 0" "mtod_offset mb 34 \<noteq> 0"
  using assms mtod_not_null [of mb] by (auto simp: frame_ok_def)

text \<open>An IPv4 frame with a protocol number; its UDP header, behind 20 bytes of IPv4 header.\<close>

definition ipv4_proto :: "mbuf \<Rightarrow> u8 \<Rightarrow> bool" where
  "ipv4_proto mb p \<longleftrightarrow> be16_at (room mb) 12 = Inr ETHER_TYPE_IPV4 \<and> rd8 (room mb) 23 = Inr p"

lemma ipv4_type: "rd16 (room mb) 12 = Inr t \<Longrightarrow> (be16_at (room mb) 12 = Inr ETHER_TYPE_IPV4) = (t = bswap16 ETHER_TYPE_IPV4)"
  by (auto simp: be16_at_def n16.ntoh_eq_hton)

lemma not_ipv4_run:
  assumes "frame_ok mb" "be16_at (room mb) 12 \<noteq> Inr ETHER_TYPE_IPV4"
  shows "flow_packet d b mb m = (Ret (), m)"
proof -
  obtain t where t: "rd16 (room mb) 12 = Inr t" using flow_fields [OF assms(1)] by blast
  then show ?thesis
    using assms flow_null_checks [OF assms(1)] ipv4_type [OF t] t by (simp add: flow_packet_def ret_run header_sizes)
qed

lemma not_udp_run:
  assumes "frame_ok mb" "ipv4_proto mb p" "p \<noteq> IPPROTO_UDP"
  shows "run_value (flow_packet d b mb) m = Ret ()" "run_calls (flow_packet d b mb) m = [free_call mb]"
proof -
  obtain t where t: "rd16 (room mb) 12 = Inr t" using flow_fields [OF assms(1)] by blast
  then have "t = bswap16 ETHER_TYPE_IPV4" using assms(2) ipv4_type [OF t] by (simp add: ipv4_proto_def)
  then show "run_value (flow_packet d b mb) m = Ret ()" "run_calls (flow_packet d b mb) m = [free_call mb]"
    using assms flow_null_checks [OF assms(1)] t by (simp_all add: flow_packet_def ipv4_proto_def flow_steps)
qed

lemma other_port_run:
  assumes "frame_ok mb" "ipv4_proto mb IPPROTO_UDP" "be16_at (room mb) 36 = Inr dp" "dp \<noteq> 12345"
  shows "flow_packet d b mb m = (Ret (), m)"
proof -
  obtain t where t: "rd16 (room mb) 12 = Inr t" using flow_fields [OF assms(1)] by blast
  then have "t = bswap16 ETHER_TYPE_IPV4" using assms(2) ipv4_type [OF t] by (simp add: ipv4_proto_def)
  then show ?thesis
    using assms flow_null_checks [OF assms(1)] t
    by (simp add: flow_packet_def ipv4_proto_def udp_packet_def header_sizes Let_def ret_run
        IPPROTO_UDP_def IPPROTO_ICMP_def)
qed

text \<open>The NUL goes behind the headers, so the fields the function reads afterwards are untouched.\<close>

lemma wrn_list_update: "i < length buf \<Longrightarrow> wrn buf i [x] = Inr (buf[i := x])"
  by (simp add: wrn_def upd_conv_take_nth_drop)

lemma reads_after_nul:
  assumes "42 \<le> i" "i < length buf"
  shows "rd32 (buf[i := 0]) 26 = rd32 buf 26" "rd32 (buf[i := 0]) 30 = rd32 buf 30"
    "be16_at (buf[i := 0]) 34 = be16_at buf 34" "be16_at (buf[i := 0]) 36 = be16_at buf 36"
    "cstr_at (buf[i := 0]) 42 = Inr (takeWhile (\<lambda>b. b \<noteq> 0) (drop 42 (buf[i := 0])))"
proof -
  have w: "wrn buf i [0] = Inr (buf[i := 0])" using assms by (simp add: wrn_list_update)
  show "rd32 (buf[i := 0]) 26 = rd32 buf 26" "rd32 (buf[i := 0]) 30 = rd32 buf 30"
    "be16_at (buf[i := 0]) 34 = be16_at buf 34" "be16_at (buf[i := 0]) 36 = be16_at buf 36"
    using rd32_wrn_other [OF w] be_at_wrn_other [OF w] assms by simp_all
  have "drop 42 (buf[i := 0]) ! (i - 42) = 0" using assms by simp
  moreover have "i - 42 < length (drop 42 (buf[i := 0]))" using assms by simp
  ultimately have "0 \<in> set (drop 42 (buf[i := 0]))" by (metis nth_mem)
  then show "cstr_at (buf[i := 0]) 42 = Inr (takeWhile (\<lambda>b. b \<noteq> 0) (drop 42 (buf[i := 0])))"
    by (simp add: cstr_at_def)
qed

definition udp_datagram :: "mbuf \<Rightarrow> u32 \<Rightarrow> u32 \<Rightarrow> u16 \<Rightarrow> u16 \<Rightarrow> u16 \<Rightarrow> bool" where
  "udp_datagram mb src dst sport dport len \<longleftrightarrow>
     ipv4_proto mb IPPROTO_UDP \<and> rd32 (room mb) 26 = Inr src \<and> rd32 (room mb) 30 = Inr dst \<and>
     be16_at (room mb) 34 = Inr sport \<and> be16_at (room mb) 36 = Inr dport \<and> be16_at (room mb) 38 = Inr len"

lemma udp_run:
  fixes m :: "'w mach"
  assumes "frame_ok mb" "udp_datagram mb src dst sport 12345 len" "i = 42 + 8 * unat len"
  shows "run_value (flow_packet d b mb) m = (if i < length (room mb) then Ret () else Crash OutOfBounds)"
    and "run_calls (flow_packet d b mb) m = (if i < length (room mb) then [free_call mb] else [])"
    and "run_prints (flow_packet d b mb) m = (if i < length (room mb) then
           [(ln ''recv: %s:%d -> %s:%d, data: %s '',
             [S (inet_ntoa_text (if b then src else dst)), I (uint sport),
              S (inet_ntoa_text (if b then src else dst)), I 12345,
              B (takeWhile (\<lambda>b. b \<noteq> 0) (drop 42 ((room mb)[i := 0])))])] else [])"
proof -
  obtain t where t: "rd16 (room mb) 12 = Inr t" using flow_fields [OF assms(1)] by blast
  then have ty: "t = bswap16 ETHER_TYPE_IPV4"
    using assms(2) ipv4_type [OF t] by (simp add: ipv4_proto_def udp_datagram_def)
  have oob: "\<not> i < length (room mb) \<Longrightarrow> wrn (room mb) i [0] = Inl OutOfBounds"
    by (simp add: wrn_def)
  note rw = flow_null_checks [OF assms(1)] t ty reads_after_nul [of i "room mb"] oob
    wrn_list_update [of i "room mb" 0]
  show "run_value (flow_packet d b mb) m = (if i < length (room mb) then Ret () else Crash OutOfBounds)"
    and "run_calls (flow_packet d b mb) m = (if i < length (room mb) then [free_call mb] else [])"
    and "run_prints (flow_packet d b mb) m = (if i < length (room mb) then
           [(ln ''recv: %s:%d -> %s:%d, data: %s '',
             [S (inet_ntoa_text (if b then src else dst)), I (uint sport),
              S (inet_ntoa_text (if b then src else dst)), I 12345,
              B (takeWhile (\<lambda>b. b \<noteq> 0) (drop 42 ((room mb)[i := 0])))])] else [])"
    using assms rw
    by (auto simp: flow_packet_def ipv4_proto_def udp_packet_def udp_datagram_def flow_steps
        IPPROTO_UDP_def IPPROTO_ICMP_def)
qed

section \<open>Set-up of flow\_filter\<close>

definition flow_stages :: "string list" where
  "flow_stages =
     [''rte_eal_init'', ''rte_eth_dev_count_avail'', ''rte_socket_id'', ''rte_pktmbuf_pool_create'',
      ''rte_eth_dev_is_valid_port'', ''rte_eth_dev_info_get'', ''rte_eth_dev_configure'',
      ''rte_eth_dev_socket_id'', ''rte_eth_rx_queue_setup'', ''rte_eth_dev_socket_id'',
      ''rte_eth_tx_queue_setup'', ''rte_eth_dev_start'', ''rte_eth_promiscuous_enable'',
      ''rte_flow_validate'', ''rte_flow_create'']"

definition flow_late :: "string set" where
  "flow_late = {''rte_eth_rx_burst'', ''rte_pktmbuf_free''}"

lemma flow_packet_calls: "only_calls (flow_packet d b mb) flow_late (loop_ends 1)"
  unfolding flow_packet_def udp_packet_def pktmbuf_free_def Let_def
  by (intro loop_intro; simp add: flow_late_def)

lemma flow_round_calls: "only_calls (flow_round d b port) flow_late (loop_ends 1)"
  unfolding flow_round_def rx_burst_def
  by (intro only_calls_for_each loop_intro flow_packet_calls) (simp add: flow_late_def)

lemma flow_main_loop_calls: "only_calls (flow_main_loop d b port n) flow_late (no_return 1)"
  unfolding flow_main_loop_def by (intro only_calls_never only_calls_forever flow_round_calls)

lemma for_each_1: "for_each [0..<1] f = bnd (f 0) (\<lambda>_. ret ())"
  by (simp add: andthen_def)

lemma flow_main_stages: "stages (flow_main d b (p # ps) n) flow_stages flow_late {Exit 1} (no_return 1)"
  unfolding flow_main_def port_int_def set_flow_filter_def flow_stages_def for_each_1 for_each.simps
    andthen_def
  by (intro stage_intro stages_only_calls [OF only_calls_never [OF flow_main_loop_calls]]; simp)

interpretation flow: staged "flow_main d b (p # ps) n" flow_stages flow_late "{Exit 1}" "no_return 1"
  for d :: "'w dpdk" and b p ps n
  by unfold_locales (rule flow_main_stages)

section \<open>One burst of the skeleton\<close>

text \<open>The buffers a packet leads the skeleton to look at, and what it prints of packet 1.\<close>

definition is_ipv4 :: "mbuf \<Rightarrow> bool" where
  "is_ipv4 mb \<longleftrightarrow> rd16 (room mb) 12 = Inr (bswap16 ETHER_TYPE_IPV4)"

lemma is_ipv4_iff: "is_ipv4 mb \<longleftrightarrow> be16_at (room mb) 12 = Inr ETHER_TYPE_IPV4"
  by (auto simp: is_ipv4_def be16_at_def bindE_eq_Inr n16.ntoh_eq_hton n16.ntoh_hton)

definition proto_lines :: "mbuf \<Rightarrow> (string \<times> arg list) list" where
  "proto_lines mb =
     (ln ''receive packet, protocol: %d'', [I (uint (room mb ! 23))]) #
     (if room mb ! 23 = IPPROTO_ICMP then [(ln ''receive icmp packet'', [])] else [])"

definition packet_lines :: "mbuf list \<Rightarrow> nat \<Rightarrow> (string \<times> arg list) list" where
  "packet_lines bufs i = (if is_ipv4 (bufs ! i) then proto_lines (bufs ! 1) else [])"

lemma skel_packet_run:
  assumes "i < length bufs" "\<forall>mb \<in> set bufs. frame_ok mb"
  shows "length bufs = 1 \<Longrightarrow> is_ipv4 (bufs ! i) \<Longrightarrow> skel_packet bufs i m = (Crash UninitRead, m)"
    and "1 < length bufs \<Longrightarrow> fst (skel_packet bufs i m) = Ret () \<and>
      log (snd (skel_packet bufs i m)) = log m @ map (\<lambda>(s, as). Print s as) (packet_lines bufs i)"
proof -
  have ok: "frame_ok (bufs ! i)" using assms by simp
  obtain t where t: "rd16 (room (bufs ! i)) 12 = Inr t" using flow_fields [OF ok] by blast
  have one: "1 < length bufs \<Longrightarrow>
      mtod_offset (bufs ! 1) 14 \<noteq> 0 \<and> rd8 (room (bufs ! 1)) 23 = Inr (room (bufs ! 1) ! 23)"
  proof -
    assume "1 < length bufs"
    then have "frame_ok (bufs ! 1)" using assms(2) by simp
    then show ?thesis using flow_null_checks [of "bufs ! 1"] by (simp add: frame_ok_def rd8_def)
  qed
  note f = flow_null_checks [OF ok] t one assms(1)
  show "length bufs = 1 \<Longrightarrow> is_ipv4 (bufs ! i) \<Longrightarrow> skel_packet bufs i m = (Crash UninitRead, m)"
    using f by (simp add: skel_packet_def is_ipv4_def crash_run)
  show "1 < length bufs \<Longrightarrow> fst (skel_packet bufs i m) = Ret () \<and>
      log (snd (skel_packet bufs i m)) = log m @ map (\<lambda>(s, as). Print s as) (packet_lines bufs i)"
    using f
    by (auto simp: skel_packet_def is_ipv4_def proto_lines_def packet_lines_def step_rules
        header_sizes whenP_def)
qed

definition flow_host :: "unit host" where
  "flow_host f as w =
     (\<lparr>rv = if f \<in> {''rte_eth_dev_count_avail'', ''rte_pktmbuf_pool_create'', ''rte_eth_dev_is_valid_port'',
                   ''rte_flow_validate''} then 1 else 0, eno = 0, out = []\<rparr>, w)"

definition flow_boot :: "unit dpdk" where
  "flow_boot = \<lparr>plain = flow_host, rx = (\<lambda>p q w. ([], w)), alloc = (\<lambda>w. (None, w))\<rparr>"

lemma boot_flow: "fst (flow_main flow_boot b [p] 0 (start ())) = Running"
  by (simp add: flow_main_def port_int_def set_flow_filter_def flow_boot_def flow_host_def step_rules
      flow_main_loop_def for_each_1 bnd_step)

lemma launch_all:
  fixes m :: "'w mach"
  shows "\<exists>es. fst (for_each ws (\<lambda>w. bnd (sys k f (as w)) (\<lambda>_. ret ())) m) = Ret () \<and>
     log (snd (for_each ws (\<lambda>w. bnd (sys k f (as w)) (\<lambda>_. ret ())) m)) = log m @ es \<and>
     calls es = map (\<lambda>w. (f, as w)) ws"
proof (induction ws arbitrary: m)
  case Nil
  then show ?case by simp
next
  case (Cons w ws)
  let ?m = "after_call k f (as w) m"
  obtain es where es: "fst (for_each ws (\<lambda>w. bnd (sys k f (as w)) (\<lambda>_. ret ())) ?m) = Ret ()"
    "log (snd (for_each ws (\<lambda>w. bnd (sys k f (as w)) (\<lambda>_. ret ())) ?m)) = log ?m @ es"
    "calls es = map (\<lambda>w. (f, as w)) ws"
    using Cons.IH [of ?m] by blast
  then show ?case
    by (intro exI [of _ "Call f (as w) (fst (k f (as w) (world m))) # es"])
      (simp add: step_rules)
qed

section \<open>Properties\<close>

text \<open>
  C8: A UDP datagram to port 12345 with length field n makes flow_filter write a NUL byte at offset
  42 + 8n, counting headers instead of bytes: if that lies outside the buffer the program has gone out
  of bounds; otherwise it prints one line, in which both addresses have the same text and the data run
  up to the first NUL of the buffer, whatever n says, and it frees the buffer.
\<close>

theorem flow_udp_datagram:
  fixes m :: "'w mach"
  assumes "frame_ok mb" "udp_datagram mb src dst sport 12345 n"
  shows "let i = 42 + 8 * unat n; buf = (room mb)[i := 0];
             text = inet_ntoa_text (if src_last then src else dst) in
         if length (room mb) \<le> i then run_value (flow_packet d src_last mb) m = Crash OutOfBounds
         else run_value (flow_packet d src_last mb) m = Ret () \<and>
              run_calls (flow_packet d src_last mb) m = [free_call mb] \<and>
              run_prints (flow_packet d src_last mb) m =
                [(ln ''recv: %s:%d -> %s:%d, data: %s '',
                  [S text, I (uint sport), S text, I 12345, B (takeWhile (\<lambda>x. x \<noteq> 0) (drop 42 buf))])]"
  using udp_run [OF assms refl, of d src_last m] by (auto simp: Let_def)

definition demo_udp :: mbuf where
  "demo_udp = demo_buf
     ([0, 0, 0, 0, 0, 0, 0, 0, 0, 0, 0, 0, 0x08, 0x00,
       0x45, 0, 0, 30, 0, 0, 0, 0, 64, 17, 0, 0, 10, 0, 0, 1, 10, 0, 0, 2,
       0, 53, 0x30, 0x39, 0, 10, 0, 0, 104, 105] @ replicate 100 0)"

lemma demo_udp: "frame_ok demo_udp" "udp_datagram demo_udp (join32 1 0 0 10) (join32 2 0 0 10) 53 12345 10"
  by (simp_all add: frame_ok_def sound_mbuf_def demo_udp_def demo_buf_def udp_datagram_def ipv4_proto_def
      be16_at_def rd8_def rd16_def rd32_def rdn_def ETHER_TYPE_IPV4_def IPPROTO_UDP_def)
    (simp_all add: join16_def push_bit_eq_mult)

theorem flow_udp_datagram_witness:
  "run_value (flow_packet demo_dpdk True demo_udp) (start ()) = Ret ()"
  using flow_udp_datagram [OF demo_udp, of True demo_dpdk "start ()"]
  by (simp add: Let_def demo_udp_def demo_buf_def)

text \<open>
  When flow_filter is done with a packet it has freed its buffer exactly if the packet is IPv4 and
  not a UDP datagram to another port; every other packet keeps its buffer.
\<close>

theorem flow_frees:
  fixes m :: "'w mach"
  assumes "frame_ok mb" "run_value (flow_packet d src_last mb) m = Ret ()"
  shows "run_calls (flow_packet d src_last mb) m =
     (if (\<exists>p. ipv4_proto mb p) \<and>
         (ipv4_proto mb IPPROTO_UDP \<longrightarrow> be16_at (room mb) 36 = Inr 12345)
      then [free_call mb] else [])"
proof (cases "be16_at (room mb) 12 = Inr ETHER_TYPE_IPV4")
  case False
  then show ?thesis
    using not_ipv4_run [OF assms(1) False, of d src_last m] by (simp add: run_defs ipv4_proto_def)
next
  case True
  obtain p where p: "rd8 (room mb) 23 = Inr p" using flow_fields [OF assms(1)] by blast
  then have v4: "ipv4_proto mb q \<longleftrightarrow> q = p" for q using True by (auto simp: ipv4_proto_def)
  show ?thesis
  proof (cases "p = IPPROTO_UDP")
    case False
    then show ?thesis using not_udp_run(2) [OF assms(1), of p d src_last m] v4 by simp
  next
    case udp: True
    obtain src dst sport dport n where f: "rd32 (room mb) 26 = Inr src" "rd32 (room mb) 30 = Inr dst"
      "be16_at (room mb) 34 = Inr sport" "be16_at (room mb) 36 = Inr dport" "be16_at (room mb) 38 = Inr n"
      using assms(1) be_at_in_room(1) [of 34 "room mb"] be_at_in_room(1) [of 36 "room mb"]
        be_at_in_room(1) [of 38 "room mb"]
      by (auto simp: frame_ok_def rd32_def rdn_def)
    show ?thesis
    proof (cases "dport = 12345")
      case True
      then have "udp_datagram mb src dst sport 12345 n"
        using f v4 udp by (simp add: udp_datagram_def)
      from udp_run [OF assms(1) this refl, of d src_last m] show ?thesis
        using assms(2) v4 udp f True by (simp split: if_splits)
    next
      case False
      then show ?thesis
        using other_port_run [OF assms(1) _ f(4), of d src_last m] v4 udp f by (simp add: run_defs)
    qed
  qed
qed

theorem flow_frees_witness:
  "run_calls (flow_packet demo_dpdk True demo_udp) (start ()) = [free_call demo_udp]"
proof -
  have "run_value (flow_packet demo_dpdk True demo_udp) (start ()) = Ret ()"
    using udp_run(1) [OF demo_udp refl, of demo_dpdk True "start ()"] by (simp add: demo_udp_def demo_buf_def)
  from flow_frees [OF demo_udp(1) this] show ?thesis
    using demo_udp(2) by (auto simp: udp_datagram_def)
qed

text \<open>
  The drop rule is reported as set only when DPDK found it invalid and could not create it: the
  set-up exits if the validation succeeds (0), and after a failed validation exits if a flow is created
  (a pointer other than NULL).
\<close>

theorem flow_filter_inverted:
  fixes m :: "'w mach"
  shows "let p = set_flow_filter k port;
             (v, w) = k ''rte_flow_validate'' (I (uint port) # drop_rule) (world m);
             (c, w') = k ''rte_flow_create'' (I (uint port) # drop_rule) w in
         run_value p m = (if rv v \<noteq> 0 \<and> rv c = 0 then Ret 0 else Exit 1) \<and>
         called (new_events m (snd (p m))) =
           ''rte_flow_validate'' # (if rv v = 0 then [] else [''rte_flow_create''])"
  by (auto simp: set_flow_filter_def step_rules run_defs rte_exit_def Let_def after_call_def
      split: prod.splits)

text \<open>
  With a port to serve, flow_filter never returns, and it receives its first packet only after
  all fifteen set-up calls in order, the creation of the drop rule last.
\<close>

theorem flow_main_order:
  fixes m :: "'w mach"
  shows "let (v, m') = flow_main d src_last (p # ps) n m; cs = called (new_events m m') in
     v \<in> {Exit 1, Running} \<union> range Crash \<and>
     (v = Running \<longrightarrow> take 15 cs = flow_stages) \<and>
     (''rte_eth_rx_burst'' \<in> set cs \<longrightarrow> take 15 cs = flow_stages)"
proof -
  have len: "length flow_stages = 15" by (simp add: flow_stages_def)
  have "''rte_eth_rx_burst'' \<notin> set flow_stages" by (simp add: flow_stages_def)
  then show ?thesis
    using flow.outcome [of d src_last p ps n m] flow.all_stages [of d src_last p ps n m]
      flow.late_after_all [of "''rte_eth_rx_burst''" m d src_last p ps n]
    by (auto simp: split_beta Let_def len no_return_def)
qed

theorem flow_main_order_witness:
  "take 15 (called (new_events (start ()) (snd (flow_main flow_boot True [3] 0 (start ()))))) = flow_stages"
  using flow_main_order [of flow_boot True 3 "[]" 0 "start ()"] boot_flow by (simp add: split_beta Let_def)

text \<open>
  The skeleton takes every protocol number from cell 1 of its array of buffers: a burst of a single
  IPv4 packet makes it use an indeterminate pointer, and in a longer burst it prints, once for each
  IPv4 packet, the protocol of the second packet. It never frees a buffer.
\<close>

theorem skel_burst:
  fixes m :: "'w mach"
  assumes "\<forall>mb \<in> set bufs. frame_ok mb" "bufs \<noteq> []"
  defines "body \<equiv> (for_each [0..<length bufs] (skel_packet bufs) :: ('w, unit) prog)"
  shows "if length bufs = 1 then run_value body m = (if is_ipv4 (hd bufs) then Crash UninitRead else Ret ())
         else run_value body m = Ret () \<and> run_calls body m = [] \<and>
           run_prints body m =
             concat (map (\<lambda>mb. if is_ipv4 mb then proto_lines (bufs ! 1) else []) bufs)"
proof (cases "length bufs = 1")
  case True
  then obtain mb where b: "bufs = [mb]" by (cases bufs) auto
  have ok: "frame_ok mb" using assms(1) b by simp
  obtain t where t: "rd16 (room mb) 12 = Inr t" using flow_fields [OF ok] by blast
  show ?thesis
    using True b flow_null_checks [OF ok] t
    by (simp add: body_def skel_packet_def run_defs andthen_def is_ipv4_def)
next
  case False
  then have l: "1 < length bufs" using assms(2) by (cases bufs) auto
  have "fst (body m) = Ret () \<and> log (snd (body m)) = log m @
      concat (map (\<lambda>i. map (\<lambda>(s, as). Print s as) (packet_lines bufs i)) [0..<length bufs])"
    unfolding body_def by (rule for_each_log) (use skel_packet_run(2) [OF _ assms(1) l] in auto)
  moreover have "map (packet_lines bufs) [0..<length bufs] =
      map (\<lambda>mb. if is_ipv4 mb then proto_lines (bufs ! 1) else []) bufs"
    by (rule nth_equalityI) (auto simp: packet_lines_def)
  ultimately show ?thesis
    using False by (simp add: run_defs calls_prints_concat comp_def concat_eq_Nil_conv)
qed

theorem skel_burst_witness:
  "run_value (for_each [0..<1] (skel_packet [demo_udp])) (start ()) = Crash UninitRead"
  using skel_burst [of "[demo_udp]" "start ()"] demo_udp(1)
    demo_udp(2) by (simp add: is_ipv4_iff udp_datagram_def ipv4_proto_def)

text \<open>
  helloworld launches its function once on every worker core, in the order given, then waits for
  all of them before it releases the environment; it answers 0 unless the environment fails to start,
  and then launches nothing.
\<close>

theorem hello_world_launches:
  fixes m :: "'w mach"
  shows "let p = hello_world_main k workers;
             up = 0 \<le> rv (fst (k ''rte_eal_init'' [Sym ''argc'', Sym ''argv''] (world m))) in
         run_value p m = (if up then Ret 0 else Exit 1) \<and>
         run_calls p m = (''rte_eal_init'', [Sym ''argc'', Sym ''argv'']) #
           (if up then
              map (\<lambda>w. (''rte_eal_remote_launch'', [Sym ''lcore_hello'', Sym ''NULL'', I w])) workers @
              [(''rte_eal_mp_wait_lcore'', []), (''rte_eal_cleanup'', [])]
            else [])"
proof -
  let ?init = "(''rte_eal_init'', [Sym ''argc'', Sym ''argv''])"
  let ?m = "after_call k ''rte_eal_init'' [Sym ''argc'', Sym ''argv''] m"
  let ?L = "\<lambda>w. bnd (sys k ''rte_eal_remote_launch'' [Sym ''lcore_hello'', Sym ''NULL'', I w]) (\<lambda>_. ret ())"
  obtain es where es: "fst (for_each workers ?L ?m) = Ret ()"
    "log (snd (for_each workers ?L ?m)) = log ?m @ es"
    "calls es = map (\<lambda>w. (''rte_eal_remote_launch'', [Sym ''lcore_hello'', Sym ''NULL'', I w])) workers"
    using launch_all [of workers k "''rte_eal_remote_launch''"
        "\<lambda>w. [Sym ''lcore_hello'', Sym ''NULL'', I w]" ?m] by blast
  have "for_each workers ?L ?m = (Ret (), snd (for_each workers ?L ?m))"
    using es(1) by (metis prod.collapse)
  then have "bnd (for_each workers ?L) q ?m = q () (snd (for_each workers ?L ?m))" for q :: "unit \<Rightarrow> ('w, int) prog"
    by (rule bnd_step)
  then show ?thesis
    using es by (simp add: hello_world_main_def step_rules run_defs rte_exit_def Let_def)
qed

end
