(* ===== verification/CharStack.thy ===== *)
theory CharStack
  imports CPrelude
begin

text \<open>
  The character stack of the compiler notes (\<^verbatim>\<open>stack.c\<close>, \<^verbatim>\<open>push.c\<close>, \<^verbatim>\<open>pop.c\<close>, \<^verbatim>\<open>is_empty.c\<close>,
  \<^verbatim>\<open>main.c\<close>): a global array of 512 characters and a global index of its top. Nothing guards the
  bounds: an access outside the array is a fault of the model.
\<close>

section \<open>The code\<close>

record cstack =
  stack :: bytes
  top :: i32

definition stack_init :: cstack where
  "stack_init = \<lparr>stack = replicate 512 0, top = -1\<rparr>"

text \<open>An index of the array: it must be one of the 512.\<close>

definition cell :: "cstack \<Rightarrow> i32 \<Rightarrow> fault + nat" where
  "cell s i = (if 0 \<le> sint i \<and> nat (sint i) < length (stack s) then Inr (nat (sint i)) else Inl OutOfBounds)"

definition push :: "u8 \<Rightarrow> cstack \<Rightarrow> fault + cstack" where
  "push c s =
     bindE (int_add (top s) 1) (\<lambda>t.
     bindE (cell s t) (\<lambda>i.
     Inr (s\<lparr>top := t, stack := (stack s)[i := c]\<rparr>)))"

definition pop :: "cstack \<Rightarrow> fault + u8 \<times> cstack" where
  "pop s =
     bindE (int_add (top s) (-1)) (\<lambda>t.
     bindE (cell s (top s)) (\<lambda>i.
     Inr (stack s ! i, s\<lparr>top := t\<rparr>)))"

definition is_empty :: "cstack \<Rightarrow> i32" where
  "is_empty s = (if top s = -1 then 1 else 0)"

definition stack_main :: "cstack \<Rightarrow> fault + i32 \<times> cstack" where
  "stack_main s = bindE (push 97 s) (\<lambda>s'. Inr (0, s'))"

section \<open>What a bounded stack promises\<close>

datatype stack_op = Push u8 | Pop | IsEmpty

text \<open>A history of operations: the values they answer, and where they leave the stack.\<close>

fun run_ops :: "(u8 \<Rightarrow> 's \<Rightarrow> fault + 's) \<Rightarrow> ('s \<Rightarrow> fault + u8 \<times> 's) \<Rightarrow> ('s \<Rightarrow> i32) \<Rightarrow>
    stack_op list \<Rightarrow> 's \<Rightarrow> fault + i32 list \<times> 's" where
  "run_ops pu po em [] s = Inr ([], s)"
| "run_ops pu po em (Push c # ops) s = bindE (pu c s) (run_ops pu po em ops)"
| "run_ops pu po em (Pop # ops) s = bindE (po s) (\<lambda>(c, s').
     bindE (run_ops pu po em ops s') (\<lambda>(vs, s''). Inr (scast c # vs, s'')))"
| "run_ops pu po em (IsEmpty # ops) s =
     bindE (run_ops pu po em ops s) (\<lambda>(vs, s'). Inr (em s # vs, s'))"

text \<open>The same history on a list.\<close>

fun spec_run :: "nat \<Rightarrow> stack_op list \<Rightarrow> u8 list \<Rightarrow> fault + i32 list \<times> u8 list" where
  "spec_run cap [] cs = Inr ([], cs)"
| "spec_run cap (Push c # ops) cs =
     (if length cs < cap then spec_run cap ops (c # cs) else Inl OutOfBounds)"
| "spec_run cap (Pop # ops) cs =
     (case cs of [] \<Rightarrow> Inl OutOfBounds
      | c # cs' \<Rightarrow> bindE (spec_run cap ops cs') (\<lambda>(vs, r). Inr (scast c # vs, r)))"
| "spec_run cap (IsEmpty # ops) cs =
     bindE (spec_run cap ops cs) (\<lambda>(vs, r). Inr ((if cs = [] then 1 else 0) # vs, r))"

locale bounded_stack =
  fixes push_op :: "u8 \<Rightarrow> 's \<Rightarrow> fault + 's" and pop_op :: "'s \<Rightarrow> fault + u8 \<times> 's"
    and empty_op :: "'s \<Rightarrow> i32"
    and ok :: "'s \<Rightarrow> bool" and contents :: "'s \<Rightarrow> u8 list" and cap :: nat
  assumes push_room: "ok s \<Longrightarrow> length (contents s) < cap \<Longrightarrow>
      \<exists>s'. push_op c s = Inr s' \<and> ok s' \<and> contents s' = c # contents s"
    and push_full: "ok s \<Longrightarrow> cap \<le> length (contents s) \<Longrightarrow> push_op c s = Inl OutOfBounds"
    and pop_some: "ok s \<Longrightarrow> contents s = c # cs \<Longrightarrow>
      \<exists>s'. pop_op s = Inr (c, s') \<and> ok s' \<and> contents s' = cs"
    and pop_none: "ok s \<Longrightarrow> contents s = [] \<Longrightarrow> pop_op s = Inl OutOfBounds"
    and empty_iff: "ok s \<Longrightarrow> empty_op s = (if contents s = [] then 1 else 0)"
begin

text \<open>The concrete history gives the abstract answers, and faults exactly when the list does.\<close>

lemma run_refines:
  "ok s \<Longrightarrow> case spec_run cap ops (contents s) of
      Inl e \<Rightarrow> run_ops push_op pop_op empty_op ops s = Inl e
    | Inr (vs, cs) \<Rightarrow> \<exists>s'. run_ops push_op pop_op empty_op ops s = Inr (vs, s') \<and> ok s' \<and> contents s' = cs"
proof (induction ops arbitrary: s)
  case Nil
  then show ?case by simp
next
  case (Cons x ops)
  show ?case
  proof (cases x)
    case (Push c)
    show ?thesis
    proof (cases "length (contents s) < cap")
      case True
      obtain s' where "push_op c s = Inr s'" "ok s'" "contents s' = c # contents s"
        using push_room [OF Cons.prems True] by blast
      then show ?thesis using Cons.IH [of s'] True Push by (auto split: sum.splits prod.splits)
    next
      case False
      then show ?thesis using push_full [OF Cons.prems] Push by simp
    qed
  next
    case Pop
    show ?thesis
    proof (cases "contents s")
      case Nil
      then show ?thesis using pop_none [OF Cons.prems] Pop by simp
    next
      case cs: (Cons c cs)
      obtain s' where "pop_op s = Inr (c, s')" "ok s'" "contents s' = cs"
        using pop_some [OF Cons.prems cs] by blast
      then show ?thesis using Cons.IH [of s'] cs Pop by (auto split: sum.splits prod.splits)
    qed
  next
    case IsEmpty
    then show ?thesis
      using empty_iff [OF Cons.prems] Cons.IH [OF Cons.prems] by (auto split: sum.splits prod.splits)
  qed
qed

lemma run_pushes:
  "ok s \<Longrightarrow> length (contents s) + length xs \<le> cap \<Longrightarrow>
   \<exists>s'. run_ops push_op pop_op empty_op (map Push xs) s = Inr ([], s') \<and> ok s' \<and> contents s' = rev xs @ contents s"
proof (induction xs arbitrary: s)
  case Nil
  then show ?case by simp
next
  case (Cons x xs)
  obtain s1 where s1: "push_op x s = Inr s1" "ok s1" "contents s1 = x # contents s"
    using push_room [of s x] Cons.prems by auto
  show ?case using Cons.IH [of s1] Cons.prems s1 by simp
qed

lemma run_pops:
  "ok s \<Longrightarrow> contents s = xs @ cs \<Longrightarrow>
   \<exists>s'. run_ops push_op pop_op empty_op (replicate (length xs) Pop) s = Inr (map scast xs, s') \<and> ok s' \<and> contents s' = cs"
proof (induction xs arbitrary: s)
  case Nil
  then show ?case by simp
next
  case (Cons x xs)
  obtain s1 where s1: "pop_op s = Inr (x, s1)" "ok s1" "contents s1 = xs @ cs"
    using pop_some [of s x "xs @ cs"] Cons.prems by auto
  show ?case using Cons.IH [of s1] Cons.prems s1 by auto
qed

end

section \<open>The code keeps the promise\<close>

text \<open>512 cells, the index of the top between -1 and 511; the contents from the top down.\<close>

definition stack_ok :: "cstack \<Rightarrow> bool" where
  "stack_ok s \<longleftrightarrow> length (stack s) = 512 \<and> -1 \<le> sint (top s) \<and> sint (top s) < 512"

definition depth :: "cstack \<Rightarrow> nat" where
  "depth s = nat (sint (top s) + 1)"

definition stack_contents :: "cstack \<Rightarrow> u8 list" where
  "stack_contents s = rev (take (depth s) (stack s))"

lemma depth_le: "stack_ok s \<Longrightarrow> depth s \<le> 512"
  by (auto simp: stack_ok_def depth_def)

lemma length_contents: "stack_ok s \<Longrightarrow> length (stack_contents s) = depth s"
  using depth_le [of s] by (simp add: stack_contents_def stack_ok_def)

lemma contents_empty_iff: "stack_ok s \<Longrightarrow> stack_contents s = [] \<longleftrightarrow> sint (top s) = -1"
  using length_contents [of s] by (auto simp: depth_def stack_ok_def simp flip: length_0_conv)

lemma push_room_code:
  assumes "stack_ok s" "length (stack_contents s) < 512"
  shows "\<exists>s'. push c s = Inr s' \<and> stack_ok s' \<and> stack_contents s' = c # stack_contents s"
proof -
  have d: "sint (top s) < 511" "-1 \<le> sint (top s)" "length (stack s) = 512"
    using assms by (auto simp: length_contents depth_def stack_ok_def)
  have add: "int_add (top s) 1 = Inr (top s + 1)" using d by (simp add: int_add_def)
  have t: "sint (top s + 1) = sint (top s) + 1" using sint_int_add [OF add] by simp
  let ?i = "nat (sint (top s) + 1)"
  let ?s = "s\<lparr>top := top s + 1, stack := (stack s)[?i := c]\<rparr>"
  have "push c s = Inr ?s" using d t by (simp add: push_def add cell_def)
  moreover have "stack_ok ?s" using d t by (simp add: stack_ok_def)
  moreover have "stack_contents ?s = c # stack_contents s"
  proof -
    have "?i < length (stack s)" using d by simp
    moreover have "depth ?s = Suc ?i" using d t by (simp add: depth_def Suc_nat_eq_nat_zadd1)
    ultimately have "stack_contents ?s = c # rev (take ?i (stack s))"
      by (simp add: stack_contents_def take_Suc_conv_app_nth)
    then show ?thesis by (simp add: stack_contents_def depth_def)
  qed
  ultimately show ?thesis by blast
qed

lemma push_full_code:
  assumes "stack_ok s" "512 \<le> length (stack_contents s)"
  shows "push c s = Inl OutOfBounds"
proof -
  have d: "sint (top s) = 511" "length (stack s) = 512"
    using assms by (auto simp: length_contents depth_def stack_ok_def)
  have add: "int_add (top s) 1 = Inr (top s + 1)" using d by (simp add: int_add_def)
  have "sint (top s + 1) = 512" using sint_int_add [OF add] d by simp
  then show ?thesis using d by (simp add: push_def add cell_def)
qed

lemma pop_some_code:
  assumes "stack_ok s" "stack_contents s = c # cs"
  shows "\<exists>s'. pop s = Inr (c, s') \<and> stack_ok s' \<and> stack_contents s' = cs"
proof -
  have "sint (top s) \<noteq> -1" using assms contents_empty_iff by force
  then have d: "0 \<le> sint (top s)" "sint (top s) < 512" "length (stack s) = 512"
    using assms by (auto simp: stack_ok_def)
  have add: "int_add (top s) (-1) = Inr (top s + -1)" using d by (simp add: int_add_def)
  have t: "sint (top s + -1) = sint (top s) - 1" using sint_int_add [OF add] by simp
  let ?n = "nat (sint (top s))"
  have n: "depth s = Suc ?n" "?n < length (stack s)" using d by (simp_all add: depth_def nat_add_distrib)
  have "stack_contents s = stack s ! ?n # rev (take ?n (stack s))"
    using n by (simp add: stack_contents_def take_Suc_conv_app_nth)
  then have c: "c = stack s ! ?n" "cs = rev (take ?n (stack s))" using assms(2) by simp_all
  let ?s = "s\<lparr>top := top s + -1\<rparr>"
  have "pop s = Inr (c, ?s)" using d c by (simp add: pop_def add cell_def)
  moreover have "stack_ok ?s" using d t by (simp add: stack_ok_def)
  moreover have "stack_contents ?s = cs" using c t by (simp add: stack_contents_def depth_def)
  ultimately show ?thesis by blast
qed

lemma pop_none_code:
  assumes "stack_ok s" "stack_contents s = []"
  shows "pop s = Inl OutOfBounds"
proof -
  have d: "sint (top s) = -1" using assms contents_empty_iff by blast
  then show ?thesis by (simp add: pop_def int_add_def cell_def)
qed

lemma is_empty_code:
  assumes "stack_ok s" shows "is_empty s = (if stack_contents s = [] then 1 else 0)"
proof -
  have "top s = -1 \<longleftrightarrow> sint (top s) = -1" 
    using signed_word_eqI [of "top s" "-1"] by auto
  then show ?thesis using contents_empty_iff [OF assms] by (simp add: is_empty_def)
qed

interpretation cs: bounded_stack push pop is_empty stack_ok stack_contents 512
  by unfold_locales
    (use push_room_code push_full_code pop_some_code pop_none_code is_empty_code in \<open>blast+\<close>)

lemma stack_init_ok: "stack_ok stack_init" "stack_contents stack_init = []"
  by (simp_all add: stack_ok_def stack_init_def stack_contents_def depth_def)

section \<open>Properties\<close>

text \<open>
  C11: Every history of pushes, pops and emptiness tests on a well-formed stack answers what the same
  history answers on a list of at most 512 characters, and leaves that list in the stack; it goes out of
  bounds exactly when the list would hold a 513th character or lose one it does not have.
\<close>

theorem char_stack_refines_list:
  assumes "stack_ok s"
  shows "case spec_run 512 ops (stack_contents s) of
      Inl e \<Rightarrow> run_ops push pop is_empty ops s = Inl e
    | Inr (vs, cs) \<Rightarrow> \<exists>s'. run_ops push pop is_empty ops s = Inr (vs, s') \<and> stack_ok s' \<and>
        stack_contents s' = cs"
  using cs.run_refines [OF assms] .

theorem char_stack_refines_list_witness:
  "\<exists>s'. run_ops push pop is_empty [Push 97, Push 98, IsEmpty, Pop] stack_init = Inr ([0, 98], s') \<and>
     stack_contents s' = [97]"
  using char_stack_refines_list [OF stack_init_ok(1), of "[Push 97, Push 98, IsEmpty, Pop]"]
  by (auto simp: stack_init_ok)

text \<open>
  Up to 512 characters pushed on the initial stack come back by as many pops in reverse order, and
  the stack is empty again.
\<close>

theorem char_stack_roundtrip:
  assumes "length xs \<le> 512"
  shows "\<exists>s s'. run_ops push pop is_empty (map Push xs) stack_init = Inr ([], s) \<and>
     run_ops push pop is_empty (replicate (length xs) Pop) s = Inr (map scast (rev xs), s') \<and>
     is_empty s' = 1"
proof -
  obtain s where s: "run_ops push pop is_empty (map Push xs) stack_init = Inr ([], s)" "stack_ok s"
      "stack_contents s = rev xs @ []"
    using cs.run_pushes [OF stack_init_ok(1), of xs] stack_init_ok(2) assms by auto
  obtain s' where s': "run_ops push pop is_empty (replicate (length (rev xs)) Pop) s =
      Inr (map scast (rev xs), s')" "stack_ok s'" "stack_contents s' = []"
    using cs.run_pops [OF s(2,3)] by blast
  then show ?thesis using s(1) cs.empty_iff [OF s'(2)] by auto
qed

theorem char_stack_roundtrip_witness:
  "\<exists>s s'. run_ops push pop is_empty [Push 1, Push 2] stack_init = Inr ([], s) \<and>
     run_ops push pop is_empty [Pop, Pop] s = Inr ([2, 1], s') \<and> is_empty s' = 1"
  using char_stack_roundtrip [of "[1, 2]"] by (simp add: numeral_2_eq_2)

end
