(* ===== verification/SmallPrograms.thy ===== *)
theory SmallPrograms
  imports CEffects
begin

text \<open>
  The one-screen programs of the compiler notes: calls with two arguments (\<^verbatim>\<open>args.c\<close>, \<^verbatim>\<open>esp.c\<close>,
  \<^verbatim>\<open>add.c\<close>), branches (\<^verbatim>\<open>cmp.c\<close>, \<^verbatim>\<open>je.c\<close>), a counting loop (\<^verbatim>\<open>for.c\<close>), an endless one
  (\<^verbatim>\<open>loop.c\<close>), a variable changed through a pointer (\<^verbatim>\<open>offset.c\<close>) and prints (\<^verbatim>\<open>struct.c\<close>,
  \<^verbatim>\<open>char_stack.c\<close>). \<open>int\<close> arithmetic is checked for overflow.
\<close>

section \<open>Calls\<close>

definition call_args :: "i32 \<Rightarrow> i32 \<Rightarrow> fault + i32" where
  "call_args first second = int_add first second"

definition args_main :: "fault + i32" where
  "args_main = bindE (call_args 2 3) (\<lambda>_. Inr 0)"

definition bar :: "i32 \<Rightarrow> i32 \<Rightarrow> fault + i32" where
  "bar c d = bindE (int_add c d) (\<lambda>e. Inr e)"

definition foo :: "i32 \<Rightarrow> i32 \<Rightarrow> fault + i32" where
  "foo a b = bar a b"

definition esp_main :: "fault + i32" where
  "esp_main = bindE (foo 2 3) (\<lambda>_. Inr 0)"

definition add_c_main :: "fault + i32" where
  "add_c_main = (let a = 0; b = 0 in bindE (int_add a b) (\<lambda>c. Inr 1))"

section \<open>Branches\<close>

definition cmp_main :: i32 where
  "cmp_main = (let num = (1 :: i32) in if num = 1 then 0 else 1)"

definition call_equal :: unit where
  "call_equal = ()"

definition je_main :: i32 where
  "je_main = (let num = (1 :: i32); u = (if num = 1 then call_equal else ()) in 1)"

section \<open>Loops\<close>

text \<open>\<open>for.c\<close>: the loop from a given index on; it answers the index at which it stops.\<close>

function for_from :: "i32 \<Rightarrow> fault + i32" where
  "for_from index = (if sint index < 10 then bindE (int_add index 1) for_from else Inr index)"
  by auto

termination
proof (relation "measure (\<lambda>i. nat (10 - sint i))")
  fix i j :: i32
  assume "sint i < 10" "int_add i 1 = Inr j"
  then show "(j, i) \<in> measure (\<lambda>i. nat (10 - sint i))" using sint_int_add [of i 1 j] by simp
qed simp

declare for_from.simps [simp del]

definition for_main :: "fault + i32" where
  "for_main = bindE (for_from 0) (\<lambda>_. Inr 0)"

text \<open>\<open>loop.c\<close>: the value of \<open>first\<close> after \<open>n\<close> rounds of the endless loop.\<close>

fun loop_rounds :: "nat \<Rightarrow> i32 \<Rightarrow> i32 \<Rightarrow> fault + i32" where
  "loop_rounds 0 first second = Inr first"
| "loop_rounds (Suc n) first second = bindE (int_add first second) (\<lambda>f. loop_rounds n f second)"

definition loop_main :: "nat \<Rightarrow> fault + i32" where
  "loop_main n = loop_rounds n 0 1"

section \<open>Prints\<close>

definition offset_main :: "('w, int) prog" where
  "offset_main =
     (let myVar = (10 :: int) in
      bnd (printf (ln ''Original value of myVar: %d'') [I myVar]) (\<lambda>_.
      bnd (printf (ln ''Address of myVar: %p'') [Sym ''&myVar'']) (\<lambda>_.
      let myVar = 20 in
      bnd (printf (ln ''Modified value of myVar: %d'') [I myVar]) (\<lambda>_.
      ret 0))))"

definition struct_main :: "('w, int) prog" where
  "struct_main = bnd (printf (ln ''test to hex '') []) (\<lambda>_. ret 1)"

definition char_stack_main :: "('w, int) prog" where
  "char_stack_main = bnd (printf ''Char Stack OK'' []) (\<lambda>_. ret 0)"

section \<open>Properties\<close>

lemma for_from_10: "sint i \<le> 10 \<Longrightarrow> for_from i = Inr 10"
proof (induction i rule: for_from.induct)
  case (1 index)
  show ?case
  proof (cases "sint index < 10")
    case True
    have add: "int_add index 1 = Inr (index + 1)"
      using True sint_ge [of index] by (simp add: int_add_def)
    then have "sint (index + 1) \<le> 10" using sint_int_add [OF add] True by simp
    then show ?thesis using "1.IH" [OF True add] True add by (subst for_from.simps) simp
  next
    case False
    then have "sint index = sint (10 :: i32)" using "1.prems" by simp
    then have "index = 10" by (rule signed_word_eqI)
    then show ?thesis by (subst for_from.simps) simp
  qed
qed

text \<open>
  The loop of \<open>for.c\<close> ends from every index that is at most 10, and then the index is 10;
  so the program answers 0.
\<close>

theorem for_loop_ends:
  "(sint i \<le> 10 \<longrightarrow> for_from i = Inr 10) \<and> for_main = Inr 0"
  using for_from_10 [of i] for_from_10 [of 0] by (simp add: for_main_def)

theorem for_loop_ends_witness: "for_from 3 = Inr 10"
  using for_loop_ends [of 3] by simp

lemma loop_rounds_sum:
  "sint f + int n < 2 ^ 31 \<Longrightarrow> loop_rounds n f 1 = Inr (f + of_nat n)"
proof (induction n arbitrary: f)
  case 0
  then show ?case by simp
next
  case (Suc n)
  have add: "int_add f 1 = Inr (f + 1)"
    using Suc.prems sint_ge [of f] by (simp add: int_add_def)
  have "loop_rounds n (f + 1) 1 = Inr (f + 1 + of_nat n)"
    by (rule Suc.IH) (use sint_int_add [OF add] Suc.prems in simp)
  then show ?case using add by (simp add: algebra_simps)
qed

lemma loop_rounds_add: "loop_rounds (a + b) f s = bindE (loop_rounds a f s) (\<lambda>g. loop_rounds b g s)"
  by (induction a arbitrary: f) (auto simp: bindE_assoc)

text \<open>
  The loop of \<open>loop.c\<close> has no way out: after n rounds \<open>first\<close> is n as long as n is below 2 to the
  31; the round after that overflows a signed \<open>int\<close>, and the program never answers.
\<close>

theorem loop_overflows:
  "loop_main n = (if n < 2 ^ 31 then Inr (of_nat n) else Inl SignedOverflow)"
proof (cases "n < 2 ^ 31")
  case True
  then show ?thesis using loop_rounds_sum [of 0 n] by (simp add: loop_main_def)
next
  case False
  then have n: "n = (2 ^ 31 - 1) + Suc (n - 2 ^ 31)" by simp
  have start: "loop_rounds (2 ^ 31 - 1) 0 1 = Inr (of_nat (2 ^ 31 - 1))"
    using loop_rounds_sum [of 0 "2 ^ 31 - 1"] by simp
  have "int_add (of_nat (2 ^ 31 - 1) :: i32) 1 = Inl SignedOverflow"
    by (simp add: int_add_def)
  then have "loop_rounds ((2 ^ 31 - 1) + Suc (n - 2 ^ 31)) 0 1 = Inl SignedOverflow"
    unfolding loop_rounds_add start by simp
  then have "loop_rounds n 0 1 = Inl SignedOverflow" using n by simp
  then show ?thesis using False by (simp add: loop_main_def)
qed

end
