(* ===== verification/LockTest.thy ===== *)
theory LockTest
  imports CPrelude
begin

text \<open>
  \<^verbatim>\<open>cpp/lock_test.c\<close>: two threads that take two mutexes in opposite orders, two threads that never
  end, and a main thread that joins all four. The model is an interleaving of the threads' steps;
  \<open>sleep\<close> is a step of its own, and a lock is a step that is possible only when the mutex is free.
\<close>

section \<open>States\<close>

datatype mutex = Mutex1 | Mutex2

text \<open>The threads by their index in \<open>tid\<close>: \<open>T0\<close> runs \<open>thread1\<close>, and so on.\<close>

datatype thread = T0 | T1 | T2 | T3

text \<open>
  Where a thread is. \<open>func1\<close> and \<open>func2\<close> have the same shape, with the two mutexes and counters
  exchanged: A is the mutex a function takes first, B the other. \<open>Test v\<close> is the comparison in
  the thread's loop, \<open>Broken\<close> the overflow of a counter.
\<close>

datatype tpc =
    Idle
  | LockA | IncA | SleepA | LockB | IncB | UnlockB | UnlockA | ReadA | Test i32
  | Sleep3 | Fill3
  | Gone
  | Broken

datatype mpc =
    Create thread
  | Sleep5
  | Join thread
  | Destroy
  | Returned
  | Exited

record lt =
  owner :: "mutex \<Rightarrow> thread option"
  seqs :: "mutex \<Rightarrow> i32"
  pcs :: "thread \<Rightarrow> tpc"
  main :: mpc

definition lt_init :: lt where
  "lt_init = \<lparr>owner = (\<lambda>_. None), seqs = (\<lambda>_. 0), pcs = (\<lambda>_. Idle), main = Create T0\<rparr>"

text \<open>\<open>func1\<close> takes \<open>mutex1\<close> first and counts in \<open>sequence1\<close> first, \<open>func2\<close> the other way
  round; the threads \<open>T2\<close> and \<open>T3\<close> call neither.\<close>

fun fst_mutex :: "thread \<Rightarrow> mutex" where
  "fst_mutex T0 = Mutex1"
| "fst_mutex T1 = Mutex2"
| "fst_mutex T2 = Mutex1"
| "fst_mutex T3 = Mutex1"

fun snd_mutex :: "thread \<Rightarrow> mutex" where
  "snd_mutex T0 = Mutex2"
| "snd_mutex T1 = Mutex1"
| "snd_mutex T2 = Mutex2"
| "snd_mutex T3 = Mutex2"

section \<open>Steps\<close>

definition goto :: "thread \<Rightarrow> tpc \<Rightarrow> lt \<Rightarrow> lt" where
  "goto t pc s = s\<lparr>pcs := (pcs s)(t := pc)\<rparr>"

definition take_mutex :: "thread \<Rightarrow> mutex \<Rightarrow> lt \<Rightarrow> lt" where
  "take_mutex t x s = s\<lparr>owner := (owner s)(x := Some t)\<rparr>"

definition give_mutex :: "mutex \<Rightarrow> lt \<Rightarrow> lt" where
  "give_mutex x s = s\<lparr>owner := (owner s)(x := None)\<rparr>"

definition bump :: "mutex \<Rightarrow> lt \<Rightarrow> fault + lt" where
  "bump x s = bindE (int_add (seqs s x) 1) (\<lambda>v. Inr (s\<lparr>seqs := (seqs s)(x := v)\<rparr>))"

text \<open>
  One step of a thread, if it has one: \<open>func1\<close> or \<open>func2\<close> in the loop of \<open>thread1\<close> or
  \<open>thread2\<close>; \<open>thread3\<close> and \<open>thread4\<close> sleep and fill a local buffer for ever.
\<close>

fun thread_next :: "thread \<Rightarrow> tpc \<Rightarrow> lt \<Rightarrow> lt option" where
  "thread_next t Idle s = None"
| "thread_next t LockA s =
     (if owner s (fst_mutex t) = None then Some (goto t IncA (take_mutex t (fst_mutex t) s)) else None)"
| "thread_next t IncA s = Some (case bump (fst_mutex t) s of Inl e \<Rightarrow> goto t Broken s | Inr s' \<Rightarrow> goto t SleepA s')"
| "thread_next t SleepA s = Some (goto t LockB s)"
| "thread_next t LockB s =
     (if owner s (snd_mutex t) = None then Some (goto t IncB (take_mutex t (snd_mutex t) s)) else None)"
| "thread_next t IncB s = Some (case bump (snd_mutex t) s of Inl e \<Rightarrow> goto t Broken s | Inr s' \<Rightarrow> goto t UnlockB s')"
| "thread_next t UnlockB s = Some (goto t UnlockA (give_mutex (snd_mutex t) s))"
| "thread_next t UnlockA s = Some (goto t ReadA (give_mutex (fst_mutex t) s))"
| "thread_next t ReadA s = Some (goto t (Test (seqs s (fst_mutex t))) s)"
| "thread_next t (Test v) s = Some (goto t (if v = 100000 then Gone else LockA) s)"
| "thread_next t Sleep3 s = Some (goto t Fill3 s)"
| "thread_next t Fill3 s = Some (goto t Sleep3 s)"
| "thread_next t Gone s = None"
| "thread_next t Broken s = None"

fun entry :: "thread \<Rightarrow> tpc" where
  "entry T0 = LockA"
| "entry T1 = LockA"
| "entry T2 = Sleep3"
| "entry T3 = Sleep3"

fun after_create :: "thread \<Rightarrow> mpc" where
  "after_create T0 = Create T1"
| "after_create T1 = Create T2"
| "after_create T2 = Create T3"
| "after_create T3 = Sleep5"

fun after_join :: "thread \<Rightarrow> mpc" where
  "after_join T0 = Join T1"
| "after_join T1 = Join T2"
| "after_join T2 = Join T3"
| "after_join T3 = Destroy"

text \<open>
  The steps of the program. \<open>pthread_create\<close> may fail, and \<open>_exit\<close> then ends the process; a join
  waits until the thread has called \<open>pthread_exit\<close>.
\<close>

inductive lt_step :: "lt \<Rightarrow> lt \<Rightarrow> bool" where
  thread: "main s \<noteq> Exited \<Longrightarrow> main s \<noteq> Returned \<Longrightarrow> thread_next t (pcs s t) s = Some s' \<Longrightarrow> lt_step s s'"
| create: "main s = Create t \<Longrightarrow> lt_step s (goto t (entry t) (s\<lparr>main := after_create t\<rparr>))"
| create_fails: "main s = Create t \<Longrightarrow> lt_step s (s\<lparr>main := Exited\<rparr>)"
| sleep5: "main s = Sleep5 \<Longrightarrow> lt_step s (s\<lparr>main := Join T0\<rparr>)"
| join: "main s = Join t \<Longrightarrow> pcs s t = Gone \<Longrightarrow> lt_step s (s\<lparr>main := after_join t\<rparr>)"
| destroy: "main s = Destroy \<Longrightarrow> lt_step s (s\<lparr>main := Returned\<rparr>)"

definition reachable :: "lt \<Rightarrow> bool" where
  "reachable = lt_step\<^sup>*\<^sup>* lt_init"

lemma reachable_induct [consumes 1, case_names init step]:
  assumes "reachable s" "P lt_init" "\<And>s s'. reachable s \<Longrightarrow> P s \<Longrightarrow> lt_step s s' \<Longrightarrow> P s'"
  shows "P s"
proof -
  have "lt_step\<^sup>*\<^sup>* lt_init s" using assms(1) by (simp add: reachable_def)
  then have "reachable s \<and> P s"
  proof (induction rule: rtranclp_induct)
    case base
    show ?case using assms(2) by (simp add: reachable_def)
  next
    case (step y z)
    then show ?case
      using assms(3) [of y z] by (auto simp: reachable_def intro: rtranclp.rtrancl_into_rtrancl)
  qed
  then show ?thesis by simp
qed

lemma reachable_init: "reachable lt_init"
  by (simp add: reachable_def)

lemma reachable_step: "reachable s \<Longrightarrow> lt_step s s' \<Longrightarrow> reachable s'"
  by (simp add: reachable_def rtranclp.rtrancl_into_rtrancl)

section \<open>The invariant\<close>

text \<open>The mutexes a thread holds at each point, and whether it is between its two counts.\<close>

fun holds :: "thread \<Rightarrow> tpc \<Rightarrow> mutex set" where
  "holds t IncA = {fst_mutex t}"
| "holds t SleepA = {fst_mutex t}"
| "holds t LockB = {fst_mutex t}"
| "holds t IncB = {fst_mutex t, snd_mutex t}"
| "holds t UnlockB = {fst_mutex t, snd_mutex t}"
| "holds t UnlockA = {fst_mutex t}"
| "holds t pc = {}"

fun between :: "tpc \<Rightarrow> bool" where
  "between SleepA = True"
| "between LockB = True"
| "between IncB = True"
| "between pc = False"

definition worker :: "thread \<Rightarrow> bool" where
  "worker t \<longleftrightarrow> t = T0 \<or> t = T1"

lemma worker_simps [simp]: "worker T0" "worker T1" "\<not> worker T2" "\<not> worker T3"
  by (simp_all add: worker_def)

text \<open>Only the workers run the functions; the other two only sleep and fill.\<close>

definition in_code :: "thread \<Rightarrow> tpc \<Rightarrow> bool" where
  "in_code t pc \<longleftrightarrow> (if worker t then pc \<notin> {Sleep3, Fill3} else pc \<in> {Idle, Sleep3, Fill3})"

definition owners_ok :: "lt \<Rightarrow> bool" where
  "owners_ok s \<longleftrightarrow> (\<forall>x t. owner s x = Some t \<longleftrightarrow> x \<in> holds t (pcs s t))"

definition counts_ok :: "lt \<Rightarrow> bool" where
  "counts_ok s \<longleftrightarrow>
     seqs s Mutex1 + of_bool (between (pcs s T1)) = seqs s Mutex2 + of_bool (between (pcs s T0))"

text \<open>The main thread: what it has not created is idle, and it gets no further than \<open>thread3\<close>'s join.\<close>

fun index :: "thread \<Rightarrow> nat" where
  "index T0 = 0"
| "index T1 = 1"
| "index T2 = 2"
| "index T3 = 3"

definition phase_ok :: "lt \<Rightarrow> bool" where
  "phase_ok s \<longleftrightarrow>
     (\<forall>t. main s = Create t \<longrightarrow> (\<forall>u. index t \<le> index u \<longrightarrow> pcs s u = Idle)) \<and>
     (main s = Join T1 \<or> main s = Join T2 \<longrightarrow> pcs s T0 = Gone) \<and>
     main s \<notin> {Join T3, Destroy, Returned}"

definition lt_inv :: "lt \<Rightarrow> bool" where
  "lt_inv s \<longleftrightarrow>
     (\<forall>t. in_code t (pcs s t)) \<and> phase_ok s \<and>
     ((\<forall>t. pcs s t \<noteq> Broken) \<longrightarrow> owners_ok s \<and> counts_ok s)"

lemma thread_exhaust: "(\<forall>t. P t) \<longleftrightarrow> P T0 \<and> P T1 \<and> P T2 \<and> P T3"
  by (metis thread.exhaust)

lemma mutex_all: "(\<forall>x. P x) \<longleftrightarrow> P Mutex1 \<and> P Mutex2"
  by (metis mutex.exhaust)

lemma thread_code:
  assumes "in_code t (pcs s t)" "thread_next t (pcs s t) s = Some s'"
  shows "in_code t (pcs s' t)" "\<And>u. u \<noteq> t \<Longrightarrow> pcs s' u = pcs s u" "main s' = main s"
  using assms
  by (cases "pcs s t"; auto simp: in_code_def goto_def take_mutex_def give_mutex_def bump_def
      bindE_def split: if_splits sum.splits)+

lemma init_inv: "lt_inv lt_init"
  by (simp add: lt_inv_def lt_init_def thread_exhaust in_code_def owners_ok_def counts_ok_def
      phase_ok_def)

lemma thread_owners:
  assumes "owners_ok s" "thread_next t (pcs s t) s = Some s'" "pcs s' t \<noteq> Broken"
  shows "owners_ok s'"
proof -
  have o: "owner s x = Some u \<longleftrightarrow> x \<in> holds u (pcs s u)" for x u
    using assms(1) by (simp add: owners_ok_def)
  have free: "owner s x = None \<Longrightarrow> x \<notin> holds u (pcs s u)" for x u
    using o [of x u] by simp
  have mine: "x \<in> holds t (pcs s t) \<Longrightarrow> u \<noteq> t \<Longrightarrow> x \<notin> holds u (pcs s u)" for x u
    using o [of x t] o [of x u] by auto
  have m: "fst_mutex t \<noteq> snd_mutex t" by (cases t) simp_all
  show ?thesis
    using assms(2,3) o m free mine [of "fst_mutex t"] mine [of "snd_mutex t"]
    by (cases "pcs s t"; auto simp: owners_ok_def goto_def take_mutex_def give_mutex_def bump_def bindE_def
        split: if_splits sum.splits)
qed

lemma thread_counts:
  assumes "counts_ok s" "in_code t (pcs s t)" "thread_next t (pcs s t) s = Some s'" "pcs s' t \<noteq> Broken"
  shows "counts_ok s'"
  using assms
  by (cases "pcs s t"; cases t; auto simp: counts_ok_def in_code_def goto_def take_mutex_def
      give_mutex_def bump_def int_add_def bindE_def split: if_splits sum.splits)

lemma main_frame:
  "owners_ok (s\<lparr>main := x\<rparr>) = owners_ok s" "counts_ok (s\<lparr>main := x\<rparr>) = counts_ok s"
  by (simp_all add: owners_ok_def counts_ok_def)

lemma thread_not_idle: "thread_next t (pcs s t) s = Some s' \<Longrightarrow> pcs s t \<noteq> Idle \<and> pcs s t \<noteq> Broken \<and> pcs s t \<noteq> Gone"
  by (cases "pcs s t") auto

lemma thread_inv:
  assumes "lt_inv s" "thread_next t (pcs s t) s = Some s'"
  shows "lt_inv s'"
proof -
  have code: "in_code u (pcs s u)" for u using assms(1) by (simp add: lt_inv_def)
  note c = thread_code [OF code assms(2)]
  have code': "in_code u (pcs s' u)" for u by (cases "u = t") (use c code in auto)
  have phase: "phase_ok s'"
    using assms(1) c(2,3) thread_not_idle [OF assms(2)]
    unfolding lt_inv_def phase_ok_def by metis
  have "owners_ok s' \<and> counts_ok s'" if b: "\<forall>u. pcs s' u \<noteq> Broken"
  proof -
    have "\<forall>u. pcs s u \<noteq> Broken" using b c(2) thread_not_idle [OF assms(2)] by metis
    then have "owners_ok s" "counts_ok s" using assms(1) by (simp_all add: lt_inv_def)
    then show ?thesis using thread_owners thread_counts assms(2) code b by blast
  qed
  then show ?thesis using code' phase by (simp add: lt_inv_def)
qed

lemma entry_inv:
  assumes "lt_inv s" "main s = Create t"
  shows "lt_inv (goto t (entry t) (s\<lparr>main := after_create t\<rparr>))"
proof -
  have idle: "\<And>u. index t \<le> index u \<Longrightarrow> pcs s u = Idle"
    using assms by (simp add: lt_inv_def phase_ok_def)
  then have "pcs s t = Idle" by simp
  then show ?thesis
    using assms idle
    by (cases t; auto simp: lt_inv_def phase_ok_def in_code_def owners_ok_def counts_ok_def goto_def
        thread_exhaust mutex_all)
qed

lemma step_inv: "lt_step s s' \<Longrightarrow> lt_inv s \<Longrightarrow> lt_inv s'"
proof (induction rule: lt_step.induct)
  case (thread s t s')
  then show ?case using thread_inv by blast
next
  case (create s t)
  then show ?case using entry_inv by blast
next
  case (create_fails s t)
  then show ?case by (simp add: lt_inv_def phase_ok_def main_frame)
next
  case (sleep5 s)
  then show ?case by (simp add: lt_inv_def phase_ok_def main_frame)
next
  case (join s t)
  have "in_code t Gone" using join by (metis lt_inv_def)
  then have "t = T0 \<or> t = T1" by (simp add: in_code_def worker_def split: if_splits)
  then show ?case using join by (auto simp: lt_inv_def phase_ok_def main_frame)
next
  case (destroy s)
  then show ?case by (simp add: lt_inv_def phase_ok_def)
qed

lemma reachable_inv: "reachable s \<Longrightarrow> lt_inv s"
  by (induction rule: reachable_induct) (use init_inv step_inv in blast)+

section \<open>Deadlock\<close>

text \<open>Each of the two workers has counted once, and waits for the mutex the other one holds.\<close>

definition deadlocked :: "lt \<Rightarrow> bool" where
  "deadlocked s \<longleftrightarrow>
     owner s Mutex1 = Some T0 \<and> pcs s T0 = LockB \<and> owner s Mutex2 = Some T1 \<and> pcs s T1 = LockB"

lemma deadlocked_step:
  assumes "deadlocked s" "lt_step s s'" "lt_inv s"
  shows "deadlocked s' \<and> seqs s' = seqs s"
  using assms(2)
proof (cases rule: lt_step.cases)
  case (thread t)
  have "t = T2 \<or> t = T3" using assms(1) thread by (cases t) (auto simp: deadlocked_def)
  moreover have "pcs s t = Sleep3 \<or> pcs s t = Fill3"
  proof -
    have "in_code t (pcs s t)" using assms(3) by (simp add: lt_inv_def)
    moreover have "pcs s t \<noteq> Idle" using thread_not_idle [OF thread(3)] by simp
    ultimately show ?thesis using \<open>t = T2 \<or> t = T3\<close> by (auto simp: in_code_def worker_def)
  qed
  ultimately show ?thesis using assms(1) thread by (auto simp: deadlocked_def goto_def)
next
  case (create t)
  have "\<And>u. index t \<le> index u \<Longrightarrow> pcs s u = Idle"
    using assms(3) create by (simp add: lt_inv_def phase_ok_def)
  then have "pcs s t = Idle" by simp
  then have "t \<noteq> T0" "t \<noteq> T1" using assms(1) by (auto simp: deadlocked_def)
  then show ?thesis using assms(1) create by (auto simp: deadlocked_def goto_def)
qed (use assms in \<open>auto simp: deadlocked_def\<close>)

lemma deadlocked_forever:
  assumes "lt_step\<^sup>*\<^sup>* s s'" "deadlocked s" "reachable s"
  shows "deadlocked s' \<and> seqs s' = seqs s \<and> reachable s'"
  using assms
proof (induction rule: rtranclp_induct)
  case base
  then show ?case by simp
next
  case (step y z)
  then show ?case
    using deadlocked_step [OF _ step(2) reachable_inv] reachable_step [OF _ step(2)] by auto
qed

text \<open>How to get there: both workers are created and each takes its first mutex.\<close>

definition lt_dead :: lt where
  "lt_dead = lt_init\<lparr>main := Create T2, pcs := (\<lambda>_. Idle)(T0 := LockB, T1 := LockB),
     owner := (\<lambda>_. None)(Mutex1 := Some T0, Mutex2 := Some T1), seqs := (\<lambda>_. 1)\<rparr>"

lemma lt_step_thread:
  "main s = Create u \<Longrightarrow> thread_next t (pcs s t) s = Some s' \<Longrightarrow> lt_step s s'"
  by (rule lt_step.thread) simp_all

lemma lt_dead_reachable: "reachable lt_dead"
proof -
  let ?s1 = "goto T0 LockA (lt_init\<lparr>main := Create T1\<rparr>)"
  let ?s2 = "goto T1 LockA (?s1\<lparr>main := Create T2\<rparr>)"
  let ?s3 = "goto T0 IncA (take_mutex T0 Mutex1 ?s2)"
  let ?s4 = "goto T1 IncA (take_mutex T1 Mutex2 ?s3)"
  let ?s5 = "goto T0 SleepA (?s4\<lparr>seqs := (seqs ?s4)(Mutex1 := 1)\<rparr>)"
  let ?s6 = "goto T1 SleepA (?s5\<lparr>seqs := (seqs ?s5)(Mutex2 := 1)\<rparr>)"
  let ?s7 = "goto T0 LockB ?s6"
  let ?s8 = "goto T1 LockB ?s7"
  note d = goto_def take_mutex_def bump_def int_add_def lt_init_def
  have "reachable ?s1"
    using reachable_step [OF reachable_init lt_step.create [of lt_init T0]] by (simp add: lt_init_def)
  then have "reachable ?s2"
    using lt_step.create [of ?s1 T1] by (simp add: goto_def reachable_step)
  then have "reachable ?s3"
    by (rule reachable_step) (rule lt_step_thread [where t = T0 and u = T2]; simp add: d)
  then have "reachable ?s4"
    by (rule reachable_step) (rule lt_step_thread [where t = T1 and u = T2]; simp add: d)
  then have "reachable ?s5"
    by (rule reachable_step) (rule lt_step_thread [where t = T0 and u = T2]; simp add: d)
  then have "reachable ?s6"
    by (rule reachable_step) (rule lt_step_thread [where t = T1 and u = T2]; simp add: d)
  then have "reachable ?s7"
    by (rule reachable_step) (rule lt_step_thread [where t = T0 and u = T2]; simp add: d)
  then have "reachable ?s8"
    by (rule reachable_step) (rule lt_step_thread [where t = T1 and u = T2]; simp add: d)
  moreover have "?s8 = lt_dead"
    by (simp add: lt_dead_def d fun_eq_iff) (metis mutex.exhaust)
  ultimately show ?thesis by simp
qed

lemma lt_dead_facts: "deadlocked lt_dead" "\<forall>t. pcs lt_dead t \<noteq> Broken"
  by (simp_all add: deadlocked_def lt_dead_def thread_exhaust)

section \<open>Properties\<close>

text \<open>
  As long as no counter has overflowed, a mutex is owned by exactly the thread that is between
  its lock and its unlock; so no two threads are ever in a region of the same mutex.
\<close>

theorem lock_ownership:
  assumes "reachable s" "\<forall>t. pcs s t \<noteq> Broken"
  shows "(owner s x = Some t) = (x \<in> holds t (pcs s t)) \<and>
    (x \<in> holds t (pcs s t) \<and> x \<in> holds u (pcs s u) \<longrightarrow> t = u)"
proof -
  have "\<And>x t. (owner s x = Some t) = (x \<in> holds t (pcs s t))"
    using reachable_inv [OF assms(1)] assms(2) by (simp add: lt_inv_def owners_ok_def)
  then show ?thesis by (metis option.inject)
qed

theorem lock_ownership_witness: "Mutex1 \<in> holds T0 (pcs lt_dead T0) \<and> owner lt_dead Mutex1 = Some T0"
  using lock_ownership [OF lt_dead_reachable lt_dead_facts(2), of Mutex1 T0 T0]
  by (simp add: lt_dead_def)

text \<open>
  C39: The two counters never drift: each call of \<open>func1\<close> and of \<open>func2\<close> counts once in each, and the
  only difference at any moment comes from calls that have made their first count and not the second.
\<close>

theorem lock_counters_agree:
  assumes "reachable s" "\<forall>t. pcs s t \<noteq> Broken"
  shows "seqs s Mutex1 - seqs s Mutex2 = of_bool (between (pcs s T0)) - of_bool (between (pcs s T1))"
  using reachable_inv [OF assms(1)] assms(2) by (simp add: lt_inv_def counts_ok_def algebra_simps)

theorem lock_counters_agree_witness: "seqs lt_dead Mutex1 - seqs lt_dead Mutex2 = 0"
  using lock_counters_agree [OF lt_dead_reachable lt_dead_facts(2)] by (simp add: lt_dead_def)

text \<open>
  C10: The two workers can reach a deadlock, each holding the mutex the other waits for, and it is
  final: whatever steps follow, both still wait, no counter moves, and the main thread is not past the
  join of the first worker.
\<close>

theorem lock_deadlock:
  "(\<exists>s. reachable s \<and> deadlocked s) \<and>
   (\<forall>s s'. reachable s \<and> deadlocked s \<and> lt_step\<^sup>*\<^sup>* s s' \<longrightarrow>
      deadlocked s' \<and> seqs s' = seqs s \<and>
      main s' \<notin> {Join T1, Join T2, Join T3, Destroy, Returned})"
proof (intro conjI allI impI)
  show "\<exists>s. reachable s \<and> deadlocked s" using lt_dead_reachable lt_dead_facts(1) by blast
next
  fix s s'
  assume a: "reachable s \<and> deadlocked s \<and> lt_step\<^sup>*\<^sup>* s s'"
  then have d: "deadlocked s' \<and> seqs s' = seqs s \<and> reachable s'"
    using deadlocked_forever by blast
  then have "phase_ok s'" using reachable_inv by (simp add: lt_inv_def)
  then have "main s' \<notin> {Join T1, Join T2, Join T3, Destroy, Returned}"
    using d by (auto simp: phase_ok_def deadlocked_def)
  then show "deadlocked s'" "seqs s' = seqs s" "main s' \<notin> {Join T1, Join T2, Join T3, Destroy, Returned}"
    using d by simp_all
qed

theorem lock_deadlock_witness: "deadlocked lt_dead \<and> main lt_dead \<noteq> Join T1"
  using lock_deadlock lt_dead_reachable lt_dead_facts(1) by blast

text \<open>
  The program never returns from \<open>main\<close>: \<open>thread3\<close> has no way to end, so in no reachable state is
  the main thread past its join; the mutexes are never destroyed.
\<close>

theorem lock_main_never_returns:
  assumes "reachable s"
  shows "main s \<notin> {Join T3, Destroy, Returned} \<and> pcs s T2 \<noteq> Gone \<and> pcs s T3 \<noteq> Gone"
proof -
  have "in_code T2 (pcs s T2)" "in_code T3 (pcs s T3)" "phase_ok s"
    using reachable_inv [OF assms] by (simp_all add: lt_inv_def)
  then show ?thesis by (auto simp: in_code_def phase_ok_def)
qed

theorem lock_main_never_returns_witness: "main lt_dead \<noteq> Returned"
  using lock_main_never_returns [OF lt_dead_reachable] by simp

end
