(* ===== verification/UdpPrograms.thy ===== *)
theory UdpPrograms
  imports SockBase
begin

text \<open>
  The datagram programs: \<^verbatim>\<open>send_recv_msg_test.c\<close>, \<^verbatim>\<open>senoir_udp_test.c\<close>, \<^verbatim>\<open>broad_cast_test.c\<close>,
  \<^verbatim>\<open>multicast_test.c\<close> and \<^verbatim>\<open>high_con_udp_test.c\<close>. A run is one process: \<open>fork\<close> is a call whose
  answer says which side it is. \<open>sizeof\<close> of a pointer is 8.
\<close>

section \<open>send\_recv\_msg\_test\<close>

definition udp_send_msg_test :: "'w net \<Rightarrow> ('w, unit) prog" where
  "udp_send_msg_test d =
     check (calls_of d) ''socket'' [Sym ''AF_INET'', Sym ''SOCK_DGRAM'', Sym ''IPPROTO_UDP''] ''socket'' (\<lambda>fd.
     check (calls_of d) ''inet_pton'' [Sym ''AF_INET'', S ''10.20.43.54''] ''ntop'' (\<lambda>a.
     let text = ''this is a test msg'';
         msg = Obj ''msghdr'' [(''msg_name'', sockaddr_in (htons_arg 1080) (B (out a))),
           (''msg_namelen'', I 16), (''msg_iov[0]'', U (bytes_at_literal text 8)), (''msg_iovlen'', I 1),
           (''msg_flags'', I 0)] in
     check (calls_of d) ''sendmsg'' [I (rv fd), msg, I 0] ''send msg'' (\<lambda>_. ret ())))"

text \<open>
  \<open>get_head\<close> is a \<open>struct cmsghdr\<close> of 16 bytes; \<open>msg_controllen\<close> allows \<open>CMSG_SPACE(16)\<close>, 32.
\<close>

definition report_timeout :: "cmsg \<Rightarrow> ('w, unit) prog" where
  "report_timeout c =
     bnd (printf (ln ''level is %d, type is %d '') [I (cmsg_level c), I (cmsg_type c)]) (\<lambda>_.
     if cmsg_level c = SOL_SOCKET \<and> cmsg_type c = SO_RCVTIMEO then
       bnd (pureE (rdn (cmsg_data c) 0 8)) (\<lambda>tv_sec.
       printf (ln ''time val tcv time val is %ld '') [I (long_of tv_sec)])
     else ret ())"

definition udp_rcv_msg_test :: "'w net \<Rightarrow> ('w, unit) prog" where
  "udp_rcv_msg_test d =
     check (calls_of d) ''socket'' [Sym ''AF_INET'', Sym ''SOCK_DGRAM'', Sym ''IPPROTO_UDP''] ''socket'' (\<lambda>fd.
     check (calls_of d) ''setsockopt'' [I (rv fd), Sym ''SOL_SOCKET'', Sym ''SO_RCVTIMEO'',
       Obj ''timeval'' [(''tv_sec'', I 10)], I 16] ''set sock opt'' (\<lambda>_.
     check (calls_of d) ''setsockopt'' [I (rv fd), Sym ''SOL_SOCKET'', Sym ''SO_REUSEPORT'', I 1, I 4]
       ''reuse port'' (\<lambda>_.
     check (calls_of d) ''bind'' [I (rv fd), sockaddr_in (htons_arg 1080) (htonl_arg 0), I 16] ''bind'' (\<lambda>_.
     bnd (printf (ln ''bind end '') []) (\<lambda>_.
     bnd (recvmsg d (rv fd) (Obj ''msghdr'' [(''msg_name'', Sym ''in_1''), (''msg_control'', Sym ''get_head''),
       (''msg_controllen'', I 32)])) (\<lambda>m.
     if m_rv m = -1 then bad_exit ''rcv msg'' (m_eno m) else
     if 16 < m_controllen m then crash OutOfBounds else
     bnd (printf (ln ''rcv end '') []) (\<lambda>_.
     for_each (m_cmsgs m) report_timeout)))))))"

definition send_recv_msg_main :: "'w net \<Rightarrow> ('w, int) prog" where
  "send_recv_msg_main d =
     bnd (sys (calls_of d) ''fork'' []) (\<lambda>p.
     if rv p = 0 then
       bnd (sys (calls_of d) ''sleep'' [I 5]) (\<lambda>_. bnd (udp_send_msg_test d) (\<lambda>_. ret 1))
     else bnd (udp_rcv_msg_test d) (\<lambda>_. ret 1))"

section \<open>senoir\_udp\_test\<close>

definition senior_client :: "'w net \<Rightarrow> ('w, unit) prog" where
  "senior_client d =
     check (calls_of d) ''socket'' [Sym ''AF_INET'', Sym ''SOCK_DGRAM'', Sym ''IPPROTO_UDP''] ''socket'' (\<lambda>fd.
     check (calls_of d) ''inet_pton'' [Sym ''AF_INET'', S ''192.168.1.205''] ''client inet'' (\<lambda>a.
     check (calls_of d) ''sendto'' [I (rv fd), U (bytes_at_literal ''this is test msg'' 8), I 8, I 0,
       sockaddr_in (htons_arg 12345) (B (out a)), I 16] ''sendto'' (\<lambda>_.
     printf (ln ''snd end '') [])))"

definition report_pktinfo :: "'w host \<Rightarrow> cmsg \<Rightarrow> ('w, unit) prog" where
  "report_pktinfo k c =
     (if cmsg_type c = IP_PKTINFO \<and> cmsg_level c = SOL_IP then
        bnd (pureE (rdn (cmsg_data c) 8 4)) (\<lambda>ipi_addr.
        bnd (pureE (rd32 (cmsg_data c) 0)) (\<lambda>ipi_ifindex.
        bnd (sys k ''inet_ntop'' [Sym ''AF_INET'', B ipi_addr, I 16]) (\<lambda>t.
        if rv t = 0 then bad_exit ''rcv address'' (eno t) else
        printf (ln ''rcv address is %s, index is %d '') [B (out t), I (sint ipi_ifindex)])))
      else printf (ln ''type is %d, level is %d '') [I (cmsg_type c), I (cmsg_level c)])"

text \<open>
  \<open>in\<close> is cleared before the call and receives the source address, a \<open>struct sockaddr_in\<close>: family,
  port, address. The text printed of it is taken from its start.
\<close>

definition senior_server :: "'w net \<Rightarrow> ('w, unit) prog" where
  "senior_server d =
     (let k = calls_of d in
     check k ''socket'' [Sym ''AF_INET'', Sym ''SOCK_DGRAM'', Sym ''IPPROTO_UDP''] ''socket'' (\<lambda>fd.
     check k ''setsockopt'' [I (rv fd), Sym ''SOL_IP'', Sym ''IP_PKTINFO'', I 1, I 4] ''pkt'' (\<lambda>_.
     check k ''bind'' [I (rv fd), sockaddr_in (htons_arg 12345) (htonl_arg 0), I 16] ''bind'' (\<lambda>_.
     bnd (recvmsg d (rv fd) (Obj ''msghdr'' [(''msg_name'', Sym ''in''), (''msg_namelen'', I 16),
       (''msg_control'', Sym ''control''), (''msg_controllen'', I 1000), (''msg_iov[0]'', I 8192),
       (''msg_iovlen'', I 1)])) (\<lambda>m.
     if m_rv m = -1 then bad_exit ''rcv msg'' (m_eno m) else
     bnd (for_each (m_cmsgs m) (report_pktinfo k)) (\<lambda>_.
     let in_bytes = take 16 (m_name m) @ replicate (16 - length (m_name m)) 0 in
     bnd (sys k ''inet_ntop'' [Sym ''AF_INET'', B (take 4 in_bytes), I 16]) (\<lambda>t.
     if rv t = 0 then bad_exit ''rcv address'' (eno t) else
     bnd (printf (ln ''src address is %s flags is %d '') [B (out t), I (m_flags m)]) (\<lambda>_.
     bnd (pureE (text_of (received (m_data m) (fresh 8192)))) (\<lambda>text.
     bnd (printf (ln ''rcv msg is %s '') [B text]) (\<lambda>_.
     printf (ln ''rcv end '') []))))))))))"

definition senior_udp_main :: "'w net \<Rightarrow> ('w, int) prog" where
  "senior_udp_main d =
     bnd (sys (calls_of d) ''fork'' []) (\<lambda>p.
     if rv p = 0 then
       bnd (sys (calls_of d) ''sleep'' [I 5]) (\<lambda>_. bnd (senior_client d) (\<lambda>_. ret 0))
     else if rv p = -1 then bad_exit ''fork'' (eno p)
     else bnd (senior_server d) (\<lambda>_. ret 0))"

section \<open>broad\_cast\_test\<close>

definition br_client_test :: "'w host \<Rightarrow> ('w, unit) prog" where
  "br_client_test k =
     check k ''inet_pton'' [Sym ''AF_INET'', S ''192.168.1.255''] ''inet'' (\<lambda>a.
     check k ''socket'' [Sym ''AF_INET'', Sym ''SOCK_DGRAM'', Sym ''IPPROTO_UDP''] ''socket'' (\<lambda>fd.
     check k ''setsockopt'' [I (rv fd), Sym ''SOL_SOCKET'', Sym ''SO_BROADCAST'', I 1, I 4] ''set sock opt'' (\<lambda>_.
     check k ''sendto'' [I (rv fd), U (bytes_at_literal ''broadcast msg'' 8), I 8, I 0,
       sockaddr_in (htons_arg 12345) (B (out a)), I 16] ''sendto'' (\<lambda>_.
     printf (ln ''broadcast client end '') []))))"

text \<open>\<open>malloc\<close> answers the null pointer when it fails; receiving and printing through it faults.\<close>

definition receive_and_print :: "'w host \<Rightarrow> int \<Rightarrow> string \<Rightarrow> string \<Rightarrow> ('w, unit) prog" where
  "receive_and_print k fd err_msg fmt =
     bnd (sys k ''malloc'' [I 512]) (\<lambda>buf.
     check k ''recvfrom'' [I fd, I (rv buf), I 512, I 0, Sym ''NULL'', Sym ''NULL''] err_msg (\<lambda>r.
     if rv buf = 0 then crash NullDeref else
     bnd (pureE (text_of (received (out r) (fresh 512)))) (\<lambda>text.
     bnd (printf (ln fmt) [B text]) (\<lambda>_.
     bnd (sys k ''free'' [I (rv buf)]) (\<lambda>_. ret ())))))"

definition br_server_test :: "'w host \<Rightarrow> ('w, unit) prog" where
  "br_server_test k =
     check k ''socket'' [Sym ''AF_INET'', Sym ''SOCK_DGRAM'', Sym ''IPPROTO_UDP''] ''socket'' (\<lambda>fd.
     check k ''bind'' [I (rv fd), sockaddr_in (htons_arg 12345) (htonl_arg 0), I 16] ''bind'' (\<lambda>_.
     receive_and_print k (rv fd) ''recvfrom'' ''rcv end, msg: %s ''))"

definition broad_cast_main :: "'w host \<Rightarrow> ('w, int) prog" where
  "broad_cast_main k =
     bnd (sys k ''fork'' []) (\<lambda>p.
     if rv p = 0 then
       bnd (sys k ''sleep'' [I 4]) (\<lambda>_. bnd (br_client_test k) (\<lambda>_. ret 1))
     else if rv p = -1 then bad_exit ''fork'' (eno p)
     else bnd (br_server_test k) (\<lambda>_. ret 1))"

section \<open>multicast\_test\<close>

text \<open>The branch of \<open>IP_ADD_MEMBERSHIP_TEST\<close>, which nothing defines, is not compiled.\<close>

definition multi_server_test :: "'w host \<Rightarrow> ('w, int) prog" where
  "multi_server_test k =
     check k ''if_nametoindex'' [S ''wlp61s0''] ''if index'' (\<lambda>index.
     check k ''socket'' [Sym ''AF_INET'', Sym ''SOCK_DGRAM'', Sym ''IPPROTO_UDP''] ''socket'' (\<lambda>fd.
     check k ''bind'' [I (rv fd), sockaddr_in (htons_arg 12345) (htonl_arg 0), I 16] ''bind'' (\<lambda>_.
     check k ''inet_pton'' [Sym ''AF_INET'', S ''224.1.1.1''] ''multi inet'' (\<lambda>a.
     check k ''setsockopt'' [I (rv fd), Sym ''IPPROTO_IP'', Sym ''MCAST_JOIN_GROUP'',
       Obj ''group_req'' [(''gr_interface'', I (rv index)),
         (''gr_group'', sockaddr_in (htons_arg 12345) (B (out a)))], I 136] ''mcast join'' (\<lambda>_.
     bnd (receive_and_print k (rv fd) ''rcv from'' ''rcv message is %s '') (\<lambda>_.
     ret 1))))))"

definition multi_client_test :: "'w host \<Rightarrow> ('w, int) prog" where
  "multi_client_test k =
     check k ''socket'' [Sym ''AF_INET'', Sym ''SOCK_DGRAM'', Sym ''IPPROTO_UDP''] ''socket'' (\<lambda>fd.
     check k ''inet_pton'' [Sym ''AF_INET'', S ''224.0.0.1''] ''multi inet'' (\<lambda>a.
     check k ''sendto'' [I (rv fd), U (bytes_at_literal ''only for test'' 8), I 8, I 0,
       sockaddr_in (htons_arg 12345) (B (out a)), I 16] ''sendto'' (\<lambda>_.
     bnd (printf (ln ''snd end '') []) (\<lambda>_. ret 1))))"

definition multicast_main :: "'w host \<Rightarrow> ('w, int) prog" where
  "multicast_main k =
     bnd (sys k ''fork'' []) (\<lambda>p.
     if rv p = 0 then
       bnd (sys k ''sleep'' [I 5]) (\<lambda>_. bnd (multi_client_test k) (\<lambda>_. ret 1))
     else if rv p = -1 then bad_exit ''fork'' (eno p)
     else bnd (multi_server_test k) (\<lambda>_. ret 1))"

section \<open>high\_con\_udp\_test\<close>

text \<open>
  The buffer, \<open>BUFSIZ\<close> or 8192 bytes, starts with the nine bytes of \<open>"test msg"\<close>; each round sends
  its first 8 bytes and receives into it. The rounds are cut off.
\<close>

fun high_con_loop :: "'w host \<Rightarrow> int \<Rightarrow> bytes \<Rightarrow> ubuf \<Rightarrow> nat \<Rightarrow> ('w, unit) prog" where
  "high_con_loop k fd addr test 0 = (\<lambda>m. (Running, m))"
| "high_con_loop k fd addr test (Suc n) =
     check k ''sendto'' [I fd, U (take 8 test), I 8, I 0, sockaddr_in (htons_arg 12345) (B addr), I 16]
       ''sendto'' (\<lambda>_.
     bnd (printf (ln ''client snd end '') []) (\<lambda>_.
     check k ''recvfrom'' [I fd, Sym ''test'', I 8192, I 0, Sym ''NULL'', Sym ''NULL'']
       (ln ''client rcv end '') (\<lambda>r.
     let test' = received (out r) test in
     bnd (pureE (text_of test')) (\<lambda>text.
     bnd (printf (ln ''client rcv end, msg is %s '') [B text]) (\<lambda>_.
     high_con_loop k fd addr test' n)))))"

definition high_con_client :: "'w host \<Rightarrow> nat \<Rightarrow> ('w, unit) prog" where
  "high_con_client k n =
     check k ''socket'' [Sym ''AF_INET'', Sym ''SOCK_DGRAM'', Sym ''IPPROTO_UDP''] ''socket'' (\<lambda>fd.
     check k ''setsockopt'' [I (rv fd), Sym ''SOL_SOCKET'', Sym ''SO_REUSEADDR'', I 1, I 4] ''reuse'' (\<lambda>_.
     check k ''inet_pton'' [Sym ''AF_INET'', S ''10.20.43.195''] ''inet'' (\<lambda>a.
     bnd (sys k ''malloc'' [I 8192]) (\<lambda>test.
     if rv test = 0 then crash NullDeref else
     high_con_loop k (rv fd) (out a) (received (literal ''test msg'') (fresh 8192)) n))))"

end
