(* ===== verification/StreamPrograms.thy ===== *)
theory StreamPrograms
  imports SockBase
begin

text \<open>
  The SCTP programs \<^verbatim>\<open>sctp_test.c\<close> and \<^verbatim>\<open>sctp_multi_test.c\<close>, and the programs on local sockets
  \<^verbatim>\<open>unix_socket_test.c\<close>, \<^verbatim>\<open>unix_snd_fd_test.c\<close>, \<^verbatim>\<open>local_bind_test.c\<close> and \<^verbatim>\<open>syslog_test.c\<close>.
\<close>

section \<open>sctp\_test\<close>

text \<open>
  The client writes the first \<open>sizeof(msg)\<close>, 8, bytes of its text, reads into a new buffer and
  prints it; an interrupted call starts the round again, the buffer of an interrupted read freed.
\<close>

fun sctp_client_loop :: "'w host \<Rightarrow> int \<Rightarrow> nat \<Rightarrow> ('w, unit) prog" where
  "sctp_client_loop k fd 0 = (\<lambda>m. (Running, m))"
| "sctp_client_loop k fd (Suc n) =
     bnd (sys k ''write'' [I fd, U (bytes_at_literal (ln ''this is a test msg '') 8), I 8]) (\<lambda>w.
     if rv w = -1 then
       (if eno w = EINTR then sctp_client_loop k fd n else bad_exit ''write'' (eno w))
     else
     bnd (sys k ''malloc'' [I 512]) (\<lambda>buf.
     bnd (sys k ''read'' [I fd, I (rv buf), I 512]) (\<lambda>r.
     if rv r = -1 then
       bnd (sys k ''free'' [I (rv buf)]) (\<lambda>_.
       if eno r = EINTR then sctp_client_loop k fd n else bad_exit ''read'' (eno r))
     else if rv buf = 0 then crash NullDeref else
     bnd (pureE (text_of (received (out r) (fresh 512)))) (\<lambda>text.
     bnd (printf (ln ''client rcv msg is %s '') [B text]) (\<lambda>_.
     bnd (sys k ''free'' [I (rv buf)]) (\<lambda>_.
     bnd (sys k ''sleep'' [I 2]) (\<lambda>_.
     sctp_client_loop k fd n)))))))"

definition sctp_single_client_test :: "'w host \<Rightarrow> nat \<Rightarrow> ('w, unit) prog" where
  "sctp_single_client_test k n =
     check k ''socket'' [Sym ''AF_INET'', Sym ''SOCK_STREAM'', Sym ''IPPROTO_SCTP''] ''create socket'' (\<lambda>fd.
     check k ''setsockopt'' [I (rv fd), Sym ''SOL_SOCKET'', Sym ''SO_SNDTIMEO'',
       Obj ''timeval'' [(''tv_sec'', I 5)], I 16] ''set timeout'' (\<lambda>_.
     check k ''inet_pton'' [Sym ''AF_INET'', S ''192.168.1.206''] ''convert address'' (\<lambda>a.
     check k ''connect'' [I (rv fd), sockaddr_in (htons_arg 1080) (B (out a)), I 16] ''connect'' (\<lambda>_.
     sctp_client_loop k (rv fd) n))))"

text \<open>
  The server has one buffer: each round prints it and writes all its 512 bytes back, those of
  earlier rounds and those never written included.
\<close>

fun sctp_server_loop :: "'w host \<Rightarrow> int \<Rightarrow> ubuf \<Rightarrow> nat \<Rightarrow> ('w, unit) prog" where
  "sctp_server_loop k ac_fd buf 0 = (\<lambda>m. (Running, m))"
| "sctp_server_loop k ac_fd buf (Suc n) =
     bnd (sys k ''read'' [I ac_fd, Sym ''buf'', I 512]) (\<lambda>r.
     if rv r = -1 then
       (if eno r = EINTR then sctp_server_loop k ac_fd buf n else bad_exit ''write'' (eno r))
     else
     let buf' = received (out r) buf in
     bnd (pureE (text_of buf')) (\<lambda>text.
     bnd (printf (ln ''server rcv msg is %s '') [B text]) (\<lambda>_.
     bnd (sys k ''write'' [I ac_fd, U buf', I 512]) (\<lambda>w.
     if rv w = -1 then
       (if eno w = EINTR then sctp_server_loop k ac_fd buf' n else bad_exit ''read'' (eno w))
     else sctp_server_loop k ac_fd buf' n))))"

definition sctp_single_server_test :: "'w host \<Rightarrow> nat \<Rightarrow> ('w, unit) prog" where
  "sctp_single_server_test k n =
     check k ''socket'' [Sym ''AF_INET'', Sym ''SOCK_STREAM'', Sym ''IPPROTO_SCTP''] ''create socket'' (\<lambda>fd.
     check k ''setsockopt'' [I (rv fd), Sym ''SOL_SOCKET'', Sym ''SO_SNDTIMEO'',
       Obj ''timeval'' [(''tv_sec'', I 5)], I 16] ''set timeout'' (\<lambda>_.
     check k ''inet_pton'' [Sym ''AF_INET'', S ''192.168.1.206''] ''convert address'' (\<lambda>a.
     check k ''bind'' [I (rv fd), sockaddr_in (htons_arg 1080) (B (out a)), I 16] ''bind'' (\<lambda>_.
     check k ''listen'' [I (rv fd), Sym ''SOMAXCONN''] ''listen'' (\<lambda>_.
     check k ''accept'' [I (rv fd), Sym ''NULL'', Sym ''NULL''] ''accept'' (\<lambda>ac.
     bnd (sys k ''malloc'' [I 512]) (\<lambda>buf.
     if rv buf = 0 then crash NullDeref else
     sctp_server_loop k (rv ac) (fresh 512) n)))))))"

text \<open>The \<open>switch\<close> has no \<open>break\<close>: a client that came back would go on as the server.\<close>

definition sctp_main :: "'w host \<Rightarrow> nat \<Rightarrow> ('w, int) prog" where
  "sctp_main k n =
     bnd (sys k ''fork'' []) (\<lambda>p.
     bnd (whenP (rv p = 0) (bnd (sys k ''sleep'' [I 2]) (\<lambda>_. sctp_single_client_test k n))) (\<lambda>_.
     bnd (sctp_single_server_test k n) (\<lambda>_.
     ret 1)))"

section \<open>sctp\_multi\_test\<close>

text \<open>
  \<open>getaddrinfo\<close> answers a list of socket addresses, each the bytes of its structure: the family,
  then the address at offset 4 for IPv4 and 8 for IPv6. If it fails, \<open>res\<close> is indeterminate.
\<close>

definition AF_INET :: u16 where "AF_INET = 2"
definition AF_INET6 :: u16 where "AF_INET6 = 10"

record 'w resolver =
  r_calls :: "'w host"
  r_addrs :: "'w \<Rightarrow> (int \<times> bytes list) \<times> 'w"

definition getaddrinfo :: "'w resolver \<Rightarrow> ('w, int \<times> bytes list) prog" where
  "getaddrinfo d = query (r_addrs d) (\<lambda>(e, as). \<lparr>rv = e, eno = 0, out = []\<rparr>) ''getaddrinfo''
     [S ''aris'', S ''socks'', Obj ''addrinfo'' [(''ai_family'', Sym ''AF_UNSPEC''),
       (''ai_flags'', Sym ''AI_CANONNAME | AI_ADDRCONFIG | AI_V4MAPPED | AI_ALL''),
       (''ai_socktype'', Sym ''SOCK_STREAM'')]]"

text \<open>\<open>print_addr\<close>: for a family other than these two, the pointer it tests is never set.\<close>

definition print_addr :: "'w host \<Rightarrow> bytes \<Rightarrow> ('w, unit) prog" where
  "print_addr k sa =
     bnd (pureE (rd16 sa 0)) (\<lambda>family.
     bnd (if family = AF_INET then
            bnd (pureE (rdn sa 4 4)) (\<lambda>a.
            sys k ''inet_ntop'' [I (uint family), B a, I 16])
          else if family = AF_INET6 then
            bnd (pureE (rdn sa 8 16)) (\<lambda>a.
            sys k ''inet_ntop'' [I (uint family), B a, I 46])
          else crash UninitRead) (\<lambda>t.
     if rv t = 0 then bad_exit ''inet_ntop'' (eno t) else
     printf (ln ''addr is %s '') [B (out t)]))"

text \<open>
  The loop copies and prints at most \<open>MAX_SOCK\<close>, 5, addresses, of each the 16 bytes of a
  \<open>struct sockaddr\<close>; what is left of the list is what \<open>freeaddrinfo\<close> gets, not its head.
\<close>

fun addr_loop :: "'w host \<Rightarrow> nat \<Rightarrow> bytes list \<Rightarrow> bytes list \<Rightarrow> ('w, bytes list \<times> bytes list) prog" where
  "addr_loop k count arr [] = ret (arr, [])"
| "addr_loop k count arr (sa # res) =
     bnd (pureE (rdn sa 0 16)) (\<lambda>copy.
     bnd (print_addr k sa) (\<lambda>_.
     if 5 \<le> count + 1 then ret (arr @ [copy], res)
     else addr_loop k (count + 1) (arr @ [copy]) res))"

definition addrs_arg :: "bytes list \<Rightarrow> arg" where
  "addrs_arg as = Obj ''addrs'' (map (\<lambda>b. (''sockaddr'', B b)) as)"

definition resolve :: "'w resolver \<Rightarrow> ('w, bytes list) prog" where
  "resolve d =
     bnd (getaddrinfo d) (\<lambda>(err, res).
     bnd (whenP (err \<noteq> 0) (printf (ln ''%s '') [Obj ''gai_strerror'' [(''err'', I err)]])) (\<lambda>_.
     if err \<noteq> 0 then crash UninitRead else
     if res = [] then bad_exit ''get addr info'' 0 else
     bnd (addr_loop (r_calls d) 0 [] res) (\<lambda>(arr, rest).
     bnd (sys (r_calls d) ''freeaddrinfo'' [addrs_arg rest]) (\<lambda>_. ret arr))))"

definition sctp_multi_client :: "'w resolver \<Rightarrow> ('w, unit) prog" where
  "sctp_multi_client d =
     check (r_calls d) ''socket'' [Sym ''AF_INET'', Sym ''SOCK_STREAM'', Sym ''IPPROTO_SCTP''] ''socket'' (\<lambda>fd.
     check (r_calls d) ''setsockopt'' [I (rv fd), Sym ''SOL_SOCKET'', Sym ''SO_SNDTIMEO'',
       Obj ''timeval'' [(''tv_sec'', I 5)], I 16] ''set_sock_opt'' (\<lambda>_.
     bnd (resolve d) (\<lambda>arr.
     check (r_calls d) ''sctp_connectx'' [I (rv fd), addrs_arg arr, I (int (length arr)), Sym ''NULL'']
       ''sctp_connect'' (\<lambda>_. ret ()))))"

definition sctp_multi_server_test :: "'w resolver \<Rightarrow> nat \<Rightarrow> ('w, unit) prog" where
  "sctp_multi_server_test d n =
     check (r_calls d) ''socket'' [Sym ''AF_INET'', Sym ''SOCK_STREAM'', Sym ''IPPROTO_SCTP''] ''socket'' (\<lambda>fd.
     bnd (resolve d) (\<lambda>arr.
     check (r_calls d) ''sctp_bindx'' [I (rv fd), addrs_arg arr, I (int (length arr)), Sym ''SCTP_BINDX_ADD_ADDR'']
       ''sctp_bindx'' (\<lambda>_.
     check (r_calls d) ''listen'' [I (rv fd), Sym ''SOMAXCONN''] ''listen'' (\<lambda>_.
     forever n (sys (r_calls d) ''accept'' [I (rv fd), Sym ''NULL'', Sym ''NULL''])))))"

definition sctp_multi_options_client_test :: "'w host \<Rightarrow> ('w, unit) prog" where
  "sctp_multi_options_client_test k =
     check k ''socket'' [Sym ''AF_INET'', Sym ''SOCK_STREAM'', Sym ''IPPROTO_SCTP''] ''socket'' (\<lambda>fd.
     check k ''setsockopt'' [I (rv fd), Sym ''SOL_SCTP'', Sym ''SCTP_EVENTS'',
       Obj ''sctp_event_subscribe'' [(''sctp_data_io_event'', I 1), (''sctp_association_event'', I 1),
         (''sctp_send_failure_event'', I 1)], Sym ''sizeof(sub)''] ''set sock opt'' (\<lambda>_.
     check k ''setsockopt'' [I (rv fd), Sym ''SOL_SCTP'', Sym ''SCTP_AUTOCLOSE'', I 10, I 4] ''auto close'' (\<lambda>_.
     ret ())))"

definition sctp_multi_main :: "'w resolver \<Rightarrow> nat \<Rightarrow> ('w, int) prog" where
  "sctp_multi_main d n =
     bnd (sys (r_calls d) ''fork'' []) (\<lambda>p.
     bnd (whenP (rv p = 0) (bnd (sys (r_calls d) ''sleep'' [I 2]) (\<lambda>_. sctp_multi_client d))) (\<lambda>_.
     bnd (sctp_multi_server_test d n) (\<lambda>_.
     ret 0)))"

section \<open>unix\_socket\_test\<close>

text \<open>
  A local address as the kernel gets it: the family and the \<open>n - 2\<close> first characters of the path,
  where \<open>n\<close> is the length the program passes, 16 for \<open>sizeof(struct sockaddr)\<close>.
\<close>

definition sockaddr_un :: "string \<Rightarrow> nat \<Rightarrow> arg" where
  "sockaddr_un path n =
     Obj ''sockaddr_un'' [(''sun_family'', Sym ''AF_LOCAL''), (''sun_path'', S (take (n - 2) path))]"

definition unix_client_test :: "'w host \<Rightarrow> ('w, unit) prog" where
  "unix_client_test k =
     bnd (sys k ''socket'' [Sym ''AF_LOCAL'', Sym ''SOCK_STREAM'', I 0]) (\<lambda>fd.
     bnd (sys k ''connect'' [I (rv fd), sockaddr_un ''/tmp/unix.socket'' 16, I 16]) (\<lambda>c.
     if rv c = -1 then die (ln ''connect failed '') else
     bnd (sys k ''send'' [I (rv fd), U (bytes_at_literal ''this is a msg'' 8), I 8, I 0]) (\<lambda>s.
     if rv s = -1 then die (ln ''send failed '') else
     bnd (sys k ''malloc'' [I 512]) (\<lambda>buf.
     bnd (sys k ''recv'' [I (rv fd), I (rv buf), I 512, I 0]) (\<lambda>r.
     if rv r = -1 then die (ln ''recv failed '') else
     if rv buf = 0 then crash NullDeref else
     bnd (pureE (text_of (received (out r) (fresh 512)))) (\<lambda>text.
     printf (ln ''client rcv msg iis %s '') [B text]))))))"

definition unix_server_test :: "'w host \<Rightarrow> ('w, unit) prog" where
  "unix_server_test k =
     bnd (sys k ''socket'' [Sym ''AF_LOCAL'', Sym ''SOCK_STREAM'', I 0]) (\<lambda>fd.
     bnd (sys k ''unlink'' [S ''/tmp/unix.socket'']) (\<lambda>_.
     bnd (sys k ''bind'' [I (rv fd), sockaddr_un ''/tmp/unix.socket'' 16, I 16]) (\<lambda>b.
     if rv b = -1 then die_errno (ln ''bind failed,err :%s '') (eno b) else
     bnd (sys k ''listen'' [I (rv fd), Sym ''SOMAXCONN'']) (\<lambda>l.
     if rv l = -1 then die_errno (ln ''listen failed,err :%s '') (eno l) else
     bnd (printf (ln ''listen success '') []) (\<lambda>_.
     bnd (sys k ''accept'' [I (rv fd), Sym ''NULL'', Sym ''NULL'']) (\<lambda>client.
     bnd (sys k ''malloc'' [I 512]) (\<lambda>m.
     bnd (sys k ''recv'' [I (rv client), I (rv m), I 512, I 0]) (\<lambda>r.
     if rv r = -1 then exit_with (-1) else
     if rv m = 0 then crash NullDeref else
     let buf = received (out r) (fresh 512) in
     bnd (pureE (text_of buf)) (\<lambda>text.
     bnd (printf (ln ''sever rcv msg iis %s '') [B text]) (\<lambda>_.
     bnd (sys k ''send'' [I (rv client), U buf, I 512, I 0]) (\<lambda>s.
     if rv s = -1 then exit_with (-1) else
     bnd (printf (ln ''server send success '') []) (\<lambda>_.
     bnd (sys k ''close'' [I (rv client)]) (\<lambda>_. ret ())))))))))))))"

text \<open>
  \<open>socket_pair_test\<close>: in the child, \<open>CMSG_FIRSTHDR(&msg)\<close> reads \<open>msg\<close> before anything is stored in
  it; the parent closes its copy of the file before it receives.
\<close>

definition report_fd_level :: "cmsg \<Rightarrow> ('w, unit) prog" where
  "report_fd_level c =
     bnd (printf (ln ''rcv cmsg '') []) (\<lambda>_.
     if cmsg_type c = SOL_SOCKET \<and> cmsg_level c = SCM_RIGHTS then
       bnd (pureE (rd32 (cmsg_data c) 0)) (\<lambda>get_fd.
       printf (ln ''get fd is %d '') [I (sint get_fd)])
     else ret ())"

definition socket_pair_test :: "'w net \<Rightarrow> ('w, unit) prog" where
  "socket_pair_test d =
     (let k = calls_of d in
     bnd (sys k ''socketpair'' [Sym ''AF_LOCAL'', Sym ''SOCK_STREAM'', I 0]) (\<lambda>sp.
     if rv sp = -1 then exit_with (-1) else
     bnd (pureE (rd32 (out sp) 0)) (\<lambda>pair0.
     bnd (pureE (rd32 (out sp) 4)) (\<lambda>pair1.
     bnd (sys k ''open'' [S ''/tmp/test.file'', Sym ''O_RDWR | O_CREAT'', Sym ''0777'']) (\<lambda>fd.
     if rv fd = -1 then die_errno (ln ''open file failed, err: %s '') (eno fd) else
     bnd (printf (ln ''open fd success, %d '') [I (rv fd)]) (\<lambda>_.
     bnd (sys k ''fork'' []) (\<lambda>p.
     if rv p = 0 then
       bnd (sys k ''close'' [I (sint pair1)]) (\<lambda>_.
       bnd (sys k ''sleep'' [I 2]) (\<lambda>_.
       crash UninitRead))
     else if rv p = -1 then printf (ln ''fork failed '') []
     else
       bnd (sys k ''close'' [I (rv fd)]) (\<lambda>_.
       bnd (sys k ''close'' [I (sint pair0)]) (\<lambda>_.
       bnd (recvmsg d (sint pair1) (Obj ''msghdr'' [(''msg_control'', Sym ''control_len''),
         (''msg_controllen'', I 192), (''msg_iov[0]'', I 512), (''msg_iovlen'', I 1)])) (\<lambda>m.
       if m_rv m = -1 then die_errno (ln ''rcv msg failed, err: %s '') (m_eno m) else
       bnd (printf (ln ''rcv success '') []) (\<lambda>_.
       for_each (m_cmsgs m) report_fd_level)))))))))))"

definition unix_socket_main :: "'w net \<Rightarrow> ('w, int) prog" where
  "unix_socket_main d = bnd (socket_pair_test d) (\<lambda>_. ret 1)"

section \<open>unix\_snd\_fd\_test\<close>

text \<open>
  The file descriptor is put in a control message whose type and level are exchanged: the type is
  \<open>SOL_SOCKET\<close> and the level \<open>SCM_RIGHTS\<close>. Both constants are 1, so the message is well formed. The
  parent, or the child that is told to, writes 8 bytes of its text to the descriptor it received.
\<close>

definition snd_fd_msg :: "int \<Rightarrow> arg" where
  "snd_fd_msg tmp_fd =
     Obj ''msghdr'' [(''msg_control'', Obj ''cmsghdr'' [(''cmsg_len'', I 20), (''cmsg_type'', I SOL_SOCKET),
       (''cmsg_level'', I SCM_RIGHTS), (''data'', I tmp_fd)]), (''msg_controllen'', I 24),
       (''msg_iov[0]'', I 512), (''msg_iovlen'', I 1)]"

definition receive_fd :: "'w host \<Rightarrow> cmsg \<Rightarrow> ('w, unit) prog" where
  "receive_fd k c =
     bnd (printf (ln ''type is %d, level is %d'') [I (cmsg_type c), I (cmsg_level c)]) (\<lambda>_.
     if cmsg_type c = SOL_SOCKET \<and> cmsg_level c = SCM_RIGHTS then
       bnd (pureE (rd32 (cmsg_data c) 0)) (\<lambda>tmp_fd.
       bnd (printf (ln ''rcv fd is %d '') [I (sint tmp_fd)]) (\<lambda>_.
       bnd (sys k ''write'' [I (sint tmp_fd), U (bytes_at_literal ''write text msg'' 8), I 8]) (\<lambda>w.
       whenP (rv w = -1) (printf ''write text'' []))))
     else ret ())"

definition snd_fd_test :: "'w net \<Rightarrow> ('w, unit) prog" where
  "snd_fd_test d =
     (let k = calls_of d in
     check k ''socketpair'' [Sym ''AF_LOCAL'', Sym ''SOCK_STREAM'', I 0] ''socket_pair'' (\<lambda>sp.
     bnd (pureE (rd32 (out sp) 0)) (\<lambda>pair0.
     bnd (pureE (rd32 (out sp) 4)) (\<lambda>pair1.
     check k ''open'' [S ''/tmp/file'', Sym ''O_CREAT | O_RDWR | O_TRUNC'', Sym ''0777''] ''open file'' (\<lambda>tmp_fd.
     bnd (printf (ln ''open fd is %d '') [I (rv tmp_fd)]) (\<lambda>_.
     bnd (sys k ''fork'' []) (\<lambda>p.
     if rv p = 0 then
       bnd (sys k ''sleep'' [I 2]) (\<lambda>_.
       check k ''sendmsg'' [I (sint pair0), snd_fd_msg (rv tmp_fd), I 0] ''send msg'' (\<lambda>_.
       printf (ln ''snd msg success '') []))
     else if rv p = -1 then bad_exit ''fork'' (eno p)
     else
       bnd (recvmsg d (sint pair1) (snd_fd_msg (rv tmp_fd))) (\<lambda>m.
       if m_rv m = -1 then bad_exit ''rcv msg'' (m_eno m) else
       bnd (printf (ln ''rcv msg success '') []) (\<lambda>_.
       for_each (m_cmsgs m) (receive_fd k))))))))))"

definition snd_fd_main :: "'w net \<Rightarrow> ('w, int) prog" where
  "snd_fd_main d = bnd (snd_fd_test d) (\<lambda>_. ret 1)"

section \<open>local\_bind\_test and syslog\_test\<close>

definition local_bind_main :: "'w host \<Rightarrow> ('w, int) prog" where
  "local_bind_main k =
     bnd (sys k ''socket'' [Sym ''AF_LOCAL'', Sym ''SOCK_STREAM'', I 0]) (\<lambda>fd.
     bnd (sys k ''bind'' [I (rv fd), sockaddr_un ''/home/aris/Desktop/un.socket'' 110, I 110]) (\<lambda>b.
     if rv b = -1 then bnd (printf (ln ''bind failed, err: %s '') [Err (eno b)]) (\<lambda>_. ret (-1)) else
     bnd (printf (ln ''bind success '') []) (\<lambda>_.
     ret 1)))"

text \<open>
  The family is set before the address is cleared, so it is 0, \<open>AF_UNSPEC\<close>. \<open>write\<close> and \<open>sendto\<close> ask for
  512 bytes of a literal of 33, and any answer but 0, so every success, is reported as a failure.
\<close>

definition syslog_addr :: arg where
  "syslog_addr = Obj ''sockaddr_un'' [(''sun_family'', I 0), (''sun_path'', S ''/dev/log'')]"

definition syslog_text :: ubuf where
  "syslog_text = bytes_at_literal ''>>>>>> this is syslog socket msg'' 512"

definition write_test :: "'w host \<Rightarrow> ('w, unit) prog" where
  "write_test k =
     bnd (sys k ''socket'' [Sym ''AF_LOCAL'', Sym ''SOCK_DGRAM'', I 0]) (\<lambda>fd.
     if rv fd = -1 then printf (ln ''create local socket failed, err: %s '') [Err (eno fd)] else
     bnd (sys k ''connect'' [I (rv fd), syslog_addr, I 110]) (\<lambda>c.
     if rv c \<noteq> 0 then printf (ln (''connect udp socket failed, err'' @ [CHR 0xEF, CHR 0xBC, CHR 0x9A] @ '' %s '')) [Err (eno c)] else
     bnd (sys k ''write'' [I (rv fd), U syslog_text, I 512]) (\<lambda>w.
     bnd (whenP (rv w \<noteq> 0) (printf (ln ''write msg failed, err: %s '') [Err (eno w)])) (\<lambda>_.
     bnd (sys k ''sendto'' [I (rv fd), U syslog_text, I 512, I 0, syslog_addr, I 110]) (\<lambda>s.
     whenP (rv s \<noteq> 0) (printf (ln ''sendto msg failed, err: %s '') [Err (eno s)]))))))"

definition log_test :: "'w host \<Rightarrow> ('w, unit) prog" where
  "log_test k =
     bnd (sys k ''openlog'' [S ''>>>> syslog test'', Sym ''LOG_CONS | LOG_PID'', Sym ''LOG_USER'']) (\<lambda>_.
     bnd (sys k ''syslog'' [Sym ''LOG_INFO'', S ''log test'']) (\<lambda>_.
     bnd (sys k ''closelog'' []) (\<lambda>_. ret ())))"

definition syslog_main :: "'w host \<Rightarrow> ('w, int) prog" where
  "syslog_main k = bnd (write_test k) (\<lambda>_. bnd (log_test k) (\<lambda>_. ret 1))"

end
