(* ===== verification/TcpPrograms.thy ===== *)
theory TcpPrograms
  imports SockBase
begin

text \<open>
  The remaining programs on sockets, interfaces and names: \<^verbatim>\<open>async_connect.c\<close>, \<^verbatim>\<open>poll_test.c\<close>,
  \<^verbatim>\<open>ip_options_test.c\<close>, \<^verbatim>\<open>ioctl_test.c\<close>, \<^verbatim>\<open>addr_transform_test.c\<close>, \<^verbatim>\<open>signal_socket_test.c\<close>,
  \<^verbatim>\<open>dns.c\<close>, and the single-threaded programs \<^verbatim>\<open>ucontext_test.c\<close>, \<^verbatim>\<open>timer_test.c\<close>,
  \<^verbatim>\<open>tun_test.c\<close>, \<^verbatim>\<open>io_stream_test.c\<close>.
\<close>

definition O_NONBLOCK :: i32 where "O_NONBLOCK = 0x800"
definition O_ASYNC :: i32 where "O_ASYNC = 0x2000"

section \<open>async\_connect\<close>

text \<open>
  The port is converted with \<open>htonl\<close> and stored in 16 bits. The test \<open>revents | POLLERR\<close> is an or,
  not an and. \<open>poll\<close> answers the \<open>revents\<close> it stored.
\<close>

definition POLLOUT :: u16 where "POLLOUT = 0x4"
definition POLLERR :: u16 where "POLLERR = 0x8"
definition POLLRDNORM :: u16 where "POLLRDNORM = 0x40"

definition poll_connect_client :: "'w host \<Rightarrow> ('w, unit) prog" where
  "poll_connect_client k =
     check k ''socket'' [Sym ''AF_INET'', Sym ''SOCK_STREAM'', Sym ''IPPROTO_TCP''] ''client socket'' (\<lambda>fd.
     check k ''fcntl'' [I (rv fd), Sym ''F_GETFL''] ''client get flags'' (\<lambda>g.
     let flags = (of_int (rv g) :: i32) OR O_NONBLOCK in
     check k ''fcntl'' [I (rv fd), Sym ''F_SETFL'', I (sint flags)] ''client set flags'' (\<lambda>_.
     check k ''inet_pton'' [Sym ''AF_INET'', S ''192.168.1.205''] ''client in_t_p'' (\<lambda>a.
     bnd (sys k ''connect'' [I (rv fd),
       sockaddr_in (I (uint (ucast (bswap32 12345) :: u16))) (B (out a)), I 16]) (\<lambda>c.
     if rv c = -1 \<and> eno c \<noteq> EINPROGRESS then bad_exit ''client connect'' (eno c) else
     bnd (whenP (rv c = -1) (printf (ln ''socket is in progress '') [])) (\<lambda>_.
     check k ''poll'' [Obj ''pollfd'' [(''fd'', I (rv fd)),
       (''events'', Sym ''POLLIN | POLLOUT | POLLHUP | POLLERR'')], I 1, I 2000] ''poll'' (\<lambda>p.
     bnd (pureE (rd16 (out p) 0)) (\<lambda>revents.
     bnd (if revents OR POLLERR \<noteq> 0 then
            check k ''getsockopt'' [I (rv fd), Sym ''SOL_SOCKET'', Sym ''SO_ERROR'',
              Sym ''indeterminate len''] ''get sock opt'' (\<lambda>o1.
            bnd (pureE (rd32 (out o1) 0)) (\<lambda>socket_err.
            printf (ln ''socket error is %s '') [Err (sint socket_err)]))
          else printf (ln ''no error happens '') []) (\<lambda>_.
     printf (ln ''poll end %d '') [I (rv p)])))))))))"

definition async_connect_main :: "'w host \<Rightarrow> ('w, int) prog" where
  "async_connect_main k = bnd (poll_connect_client k) (\<lambda>_. ret 0)"

section \<open>poll\_test\<close>

text \<open>
  \<open>revents\<close> are indeterminate until a poll succeeds; \<open>poll\<close> answers the five it stored. A scan ends
  with a break, at the end of the array (both \<open>False\<close>), or with a return (\<open>True\<close>).
\<close>

fun poll_scan :: "u16 option list \<Rightarrow> ('w, bool) prog" where
  "poll_scan [] = ret False"
| "poll_scan (None # rs) = crash UninitRead"
| "poll_scan (Some r # rs) =
     (if r AND POLLOUT \<noteq> 0 then bnd (printf (ln ''socket output ready '') []) (\<lambda>_. ret False)
      else if r AND POLLRDNORM \<noteq> 0 then bnd (printf (ln ''socket input ready '') []) (\<lambda>_. poll_scan rs)
      else if r AND POLLERR \<noteq> 0 then bnd (printf (ln ''socket error ready '') []) (\<lambda>_. ret True)
      else poll_scan rs)"

definition revents_of :: "bytes \<Rightarrow> fault + u16 option list" where
  "revents_of bs =
     bindE (rd16 bs 0) (\<lambda>a. bindE (rd16 bs 2) (\<lambda>b. bindE (rd16 bs 4) (\<lambda>c. bindE (rd16 bs 6) (\<lambda>d.
     bindE (rd16 bs 8) (\<lambda>e. Inr [Some a, Some b, Some c, Some d, Some e])))))"

fun poll_loop :: "'w host \<Rightarrow> int \<Rightarrow> u16 option list \<Rightarrow> nat \<Rightarrow> ('w, unit) prog" where
  "poll_loop k fd rs 0 = (\<lambda>m. (Running, m))"
| "poll_loop k fd rs (Suc n) =
     bnd (sys k ''poll'' [Obj ''poll_fds'' [(''fd'', I fd), (''fd'', I (-1)), (''fd'', I (-1)),
       (''fd'', I (-1)), (''fd'', I (-1))], I 5, I 5]) (\<lambda>p.
     bnd (if rv p = -1 then ret rs else pureE (revents_of (out p))) (\<lambda>rs'.
     bnd (poll_scan rs') (\<lambda>stop.
     if stop then ret () else poll_loop k fd rs' n)))"

definition poll_test :: "'w host \<Rightarrow> nat \<Rightarrow> ('w, unit) prog" where
  "poll_test k n =
     bnd (sys k ''socket'' [Sym ''AF_INET'', Sym ''SOCK_DGRAM'', Sym ''IPPROTO_UDP'']) (\<lambda>fd.
     bnd (sys k ''fcntl'' [I (rv fd), Sym ''F_GETFL'']) (\<lambda>_.
     poll_loop k (rv fd) (replicate 5 None) n))"

definition poll_main :: "'w host \<Rightarrow> nat \<Rightarrow> ('w, int) prog" where
  "poll_main k n = bnd (poll_test k n) (\<lambda>_. ret 1)"

section \<open>ip\_options\_test\<close>

fun reap :: "'w host \<Rightarrow> nat \<Rightarrow> ('w, unit) prog" where
  "reap k 0 = (\<lambda>m. (Running, m))"
| "reap k (Suc n) =
     bnd (sys k ''waitpid'' [I (-1), Sym ''NULL'', Sym ''WNOHANG'']) (\<lambda>w.
     if 0 < rv w then reap k n else ret ())"

definition SIGCHLD :: int where "SIGCHLD = 17"

definition sig_handler :: "'w host \<Rightarrow> int \<Rightarrow> nat \<Rightarrow> ('w, unit) prog" where
  "sig_handler k sig n =
     bnd (printf (ln ''sig is %d '') [I sig]) (\<lambda>_.
     whenP (sig = SIGCHLD) (reap k n))"

text \<open>\<open>F_SETFL\<close> gets the address of \<open>flags\<close>; \<open>length\<close> is never given a value.\<close>

definition tcp_options_test :: "'w host \<Rightarrow> ('w, unit) prog" where
  "tcp_options_test k =
     bnd (sys k ''sigaction'' [Sym ''SIGCHLD'', Obj ''sigaction'' [(''sa_mask'', Sym ''all''),
       (''sa_flags'', I 0), (''sa_handler'', Sym ''sig_handler'')], Sym ''NULL'']) (\<lambda>s.
     if rv s = -1 then die (ln ''sig failed '') else
     bnd (sys k ''socket'' [Sym ''AF_INET'', Sym ''SOCK_STREAM'', Sym ''IPPROTO_TCP'']) (\<lambda>fd.
     if rv fd = -1 then die (ln ''create socket failed '') else
     bnd (sys k ''fcntl'' [I (rv fd), Sym ''F_GETFL'']) (\<lambda>_.
     bnd (sys k ''fcntl'' [I (rv fd), Sym ''F_SETFL'', Sym ''&flags'']) (\<lambda>_.
     bnd (sys k ''bind'' [I (rv fd), sockaddr_in (htons_arg 8080) (htonl_arg 0), I 16]) (\<lambda>b.
     if rv b = -1 then die (ln ''bind socket failed '') else
     bnd (sys k ''listen'' [I (rv fd), Sym ''SOMAXCONN'']) (\<lambda>l.
     if rv l = -1 then die (ln ''listen socket failed '') else
     bnd (sys k ''getsockopt'' [I (rv fd), Sym ''SOL_SOCKET'', Sym ''SO_TYPE'', Sym ''indeterminate length'']) (\<lambda>t.
     if rv t = -1 then die (ln ''type socket failed '') else
     bnd (pureE (rd32 (out t) 0)) (\<lambda>type.
     bnd (printf (ln ''type is %d %s '') [I (sint type), S (if type = 1 then ''stream'' else ''udp'')]) (\<lambda>_.
     bnd (sys k ''getsockopt'' [I (rv fd), Sym ''SOL_SOCKET'', Sym ''SO_KEEPALIVE'', Sym ''length'']) (\<lambda>a.
     if rv a = -1 then die (ln ''alive socket failed '') else
     bnd (pureE (rd32 (out a) 0)) (\<lambda>alive.
     printf (ln ''alive time is %d '') [I (sint alive)])))))))))))"

definition send_rst :: "'w host \<Rightarrow> ('w, unit) prog" where
  "send_rst k =
     bnd (sys k ''socket'' [Sym ''AF_INET'', Sym ''SOCK_STREAM'', Sym ''IPPROTO_TCP'']) (\<lambda>fd.
     bnd (sys k ''inet_pton'' [Sym ''AF_INET'', S ''127.0.0.1'']) (\<lambda>a.
     bnd (sys k ''connect'' [I (rv fd), sockaddr_in (htons_arg 80) (B (out a)), I 16]) (\<lambda>_.
     bnd (sys k ''close'' [I (rv fd)]) (\<lambda>_. ret ()))))"

text \<open>\<open>if (f(as) == -1) { printf("... failed, err: %s \n", strerror(errno)); exit(-1); }\<close>\<close>

definition attempt :: "'w host \<Rightarrow> string \<Rightarrow> arg list \<Rightarrow> string \<Rightarrow> (reply \<Rightarrow> ('w, 'a) prog) \<Rightarrow> ('w, 'a) prog" where
  "attempt k f as what q = bnd (sys k f as) (\<lambda>r.
     if rv r = -1 then die_errno (ln (what @ '' failed, err: %s '')) (eno r) else q r)"

definition tcp_socket :: "arg list" where
  "tcp_socket = [Sym ''AF_INET'', Sym ''SOCK_STREAM'', Sym ''IPPROTO_TCP'']"

definition reuse_test :: "'w host \<Rightarrow> ('w, unit) prog" where
  "reuse_test k =
     bnd (sys k ''socket'' tcp_socket) (\<lambda>fd1.
     bnd (sys k ''socket'' tcp_socket) (\<lambda>fd2.
     bnd (sys k ''socket'' tcp_socket) (\<lambda>fd3.
     attempt k ''setsockopt'' [I (rv fd1), Sym ''SOL_SOCKET'', Sym ''SO_REUSEADDR'', I 1, I 4] ''first reuse'' (\<lambda>_.
     attempt k ''setsockopt'' [I (rv fd2), Sym ''SOL_SOCKET'', Sym ''SO_REUSEADDR'', I 1, I 4] ''second reuse'' (\<lambda>_.
     attempt k ''setsockopt'' [I (rv fd3), Sym ''SOL_SOCKET'', Sym ''SO_REUSEADDR'', I 1, I 4] ''third reuse'' (\<lambda>_.
     attempt k ''inet_pton'' [Sym ''AF_INET'', S ''192.168.1.208''] ''first addr'' (\<lambda>a1.
     attempt k ''inet_pton'' [Sym ''AF_INET'', S ''192.168.1.205''] ''second addr'' (\<lambda>a2.
     attempt k ''bind'' [I (rv fd1), sockaddr_in (htons_arg 1080) (B (out a1)), I 16] ''first bind'' (\<lambda>_.
     attempt k ''bind'' [I (rv fd2), sockaddr_in (htons_arg 1080) (B (out a2)), I 16] ''second bind'' (\<lambda>_.
     attempt k ''bind'' [I (rv fd3), sockaddr_in (htons_arg 1080) (htonl_arg 0), I 16] ''third bind'' (\<lambda>_.
     printf (ln ''bind all success '') [])))))))))))"

definition reuse_port_test :: "'w host \<Rightarrow> ('w, unit) prog" where
  "reuse_port_test k =
     bnd (sys k ''socket'' tcp_socket) (\<lambda>fd1.
     bnd (sys k ''socket'' tcp_socket) (\<lambda>fd2.
     attempt k ''setsockopt'' [I (rv fd1), Sym ''SOL_SOCKET'', Sym ''SO_REUSEPORT'', I 1, I 4] ''first reuse'' (\<lambda>_.
     attempt k ''setsockopt'' [I (rv fd2), Sym ''SOL_SOCKET'', Sym ''SO_REUSEPORT'', I 1, I 4] ''second reuse'' (\<lambda>_.
     attempt k ''inet_pton'' [Sym ''AF_INET'', S ''192.168.1.208''] ''first addr'' (\<lambda>a1.
     attempt k ''bind'' [I (rv fd1), sockaddr_in (htons_arg 1080) (B (out a1)), I 16] ''first bind'' (\<lambda>_.
     attempt k ''bind'' [I (rv fd2), sockaddr_in (htons_arg 1080) (B (out a1)), I 16] ''second bind'' (\<lambda>_.
     ret ())))))))"

definition ip_options_main :: "'w host \<Rightarrow> ('w, int) prog" where
  "ip_options_main k = bnd (reuse_port_test k) (\<lambda>_. ret 1)"

section \<open>ioctl\_test\<close>

text \<open>
  \<open>get_ifconfig_test\<close>: the kernel fills a buffer of ten \<open>struct ifreq\<close>, 400 bytes. The loop advances
  by \<open>ex_len\<close>, 32, whole structures, 1280 bytes, and ends only at a null pointer. A name is 16 bytes,
  copied to the start of a buffer of 128.
\<close>

function ifconf_loop :: "ubuf \<Rightarrow> nat \<Rightarrow> ('w, unit) prog" where
  "ifconf_loop buf off =
     (if off + 16 \<le> length buf then
        bnd (pureE (text_of (take 16 (drop off buf) @ fresh 112))) (\<lambda>name.
        bnd (printf (ln ''if name is %s '') [B name]) (\<lambda>_.
        ifconf_loop buf (off + 32 * 40)))
      else crash OutOfBounds)"
  by auto

termination
  by (relation "measure (\<lambda>(buf, off). length buf - off)") auto

declare ifconf_loop.simps [simp del]

definition get_ifconfig_test :: "'w host \<Rightarrow> ('w, unit) prog" where
  "get_ifconfig_test k =
     check k ''socket'' [Sym ''AF_INET'', Sym ''SOCK_DGRAM'', I 0] ''socket'' (\<lambda>fd.
     check k ''ioctl'' [I (rv fd), Sym ''SIOCGIFCONF'', Obj ''ifconf'' [(''ifc_len'', I 400)]]
       ''get ifconfig'' (\<lambda>r.
     ifconf_loop (received (out r) (fresh 400)) 0))"

text \<open>\<open>get_ifreq_test\<close>: the calls answer the address and the flags they store in the request.\<close>

definition IFF_BROADCAST :: u16 where "IFF_BROADCAST = 0x2"
definition IFF_MULTICAST :: u16 where "IFF_MULTICAST = 0x1000"

definition get_ifreq_test :: "'w host \<Rightarrow> ('w, unit) prog" where
  "get_ifreq_test k =
     check k ''socket'' [Sym ''AF_INET'', Sym ''SOCK_DGRAM'', I 0] ''socket'' (\<lambda>fd.
     check k ''ioctl'' [I (rv fd), Sym ''SIOCGIFADDR'', Obj ''ifreq'' [(''ifr_name'', S ''eno1'')]] ''ifaddr'' (\<lambda>a.
     bnd (pureE (rd16 (out a) 0)) (\<lambda>family.
     if family \<noteq> 2 then bad_exit ''unknown protocol'' (eno a) else
     bnd (pureE (rdn (out a) 4 4)) (\<lambda>addr.
     bnd (sys k ''inet_ntop'' [Sym ''AF_INET'', B addr, I 16]) (\<lambda>t.
     if rv t = 0 then bad_exit ''inet'' (eno t) else
     bnd (printf (ln ''addr is %s '') [B (out t)]) (\<lambda>_.
     check k ''ioctl'' [I (rv fd), Sym ''SIOCGIFFLAGS'', Obj ''ifreq'' [(''ifr_name'', S ''eno1'')]] ''flags'' (\<lambda>f.
     bnd (pureE (rd16 (out f) 0)) (\<lambda>flags.
     bnd (whenP (flags AND IFF_BROADCAST \<noteq> 0) (printf ''BROADCAST '' [])) (\<lambda>_.
     whenP (flags AND IFF_MULTICAST \<noteq> 0) (printf (ln ''MULTICAST '') []))))))))))"

text \<open>\<open>arp_test\<close>: the bytes of the hardware address are \<open>char\<close>s, so \<open>%x\<close> prints them sign-extended.\<close>

definition hex_char :: "u8 \<Rightarrow> arg" where
  "hex_char b = I (uint (scast b :: u32))"

definition arp_test :: "'w host \<Rightarrow> ('w, unit) prog" where
  "arp_test k =
     check k ''inet_pton'' [Sym ''AF_INET'', S ''10.20.43.117''] ''inet'' (\<lambda>a.
     check k ''socket'' [Sym ''AF_INET'', Sym ''SOCK_DGRAM'', I 0] ''socket'' (\<lambda>fd.
     check k ''ioctl'' [I (rv fd), Sym ''SIOCGARP'',
       Obj ''arpreq'' [(''arp_dev'', S ''eno1''), (''arp_pa'', B (out a))]] ''ioctl'' (\<lambda>r.
     bnd (pureE (rd16 (out r) 0)) (\<lambda>family.
     bnd (printf (ln ''family is %d '') [I (uint family)]) (\<lambda>_.
     bnd (pureE (rdn (out r) 2 6)) (\<lambda>hw.
     printf (ln ''hwadr is %x:%x:%x:%x:%x:%x '') (map hex_char hw)))))))"

definition ioctl_main :: "'w host \<Rightarrow> ('w, int) prog" where
  "ioctl_main k = bnd (arp_test k) (\<lambda>_. ret 1)"

section \<open>addr\_transform\_test\<close>

definition print_ntoa :: "('w, unit) prog" where
  "print_ntoa =
     (let buf = inet_ntoa_text (bswap32 0x7F000001) in
      if buf = '''' then die_errno (ln ''convert network to address failed, err: %s '') 0 else
      printf (ln ''convert network to address, address: %s '') [S buf])"

definition print_aton :: "'w host \<Rightarrow> ('w, unit) prog" where
  "print_aton k =
     bnd (sys k ''inet_aton'' [S ''127.0.0.1'']) (\<lambda>r.
     if rv r = -1 then die_errno ''convert address to network failed, err: %s'' (eno r) else
     printf (ln ''convert address to netwoprk success '') [])"

text \<open>\<open>print_ntop\<close> passes \<open>address\<close>, a pointer that was never set, to its first call.\<close>

definition print_ntop :: "('w, unit) prog" where
  "print_ntop = crash UninitRead"

definition print_pton :: "'w host \<Rightarrow> ('w, unit) prog" where
  "print_pton k =
     bnd (sys k ''inet_pton'' [Sym ''AF_INET'', S ''127.0.0.1'']) (\<lambda>r.
     if rv r = -1 then die_errno ''convert address to network failed, err: %s'' (eno r) else
     printf (ln ''convert address to netwoprk success '') [])"

definition addr_transform_main :: "'w host \<Rightarrow> ('w, int) prog" where
  "addr_transform_main k =
     bnd print_ntoa (\<lambda>_. bnd (print_aton k) (\<lambda>_. bnd print_ntop (\<lambda>_. bnd (print_pton k) (\<lambda>_. ret 1))))"

section \<open>signal\_socket\_test\<close>

definition handler :: "int \<Rightarrow> ('w, unit) prog" where
  "handler sig = ret ()"

text \<open>Again \<open>F_SETFL\<close> gets an address; neither failure has any effect.\<close>

definition sig_io_test :: "'w host \<Rightarrow> ('w, unit) prog" where
  "sig_io_test k =
     bnd (sys k ''socket'' [Sym ''AF_INET'', Sym ''SOCK_DGRAM'', Sym ''IPPROTO_UDP'']) (\<lambda>fd.
     bnd (sys k ''fcntl'' [I (rv fd), Sym ''F_GETFL'']) (\<lambda>_.
     bnd (sys k ''fcntl'' [I (rv fd), Sym ''F_SETFL'', Sym ''&flags'']) (\<lambda>_.
     bnd (sys k ''getpid'' []) (\<lambda>pid.
     bnd (sys k ''fcntl'' [I (rv fd), Sym ''F_SETOWN'', I (rv pid)]) (\<lambda>_. ret ())))))"

section \<open>dns\<close>

text \<open>
  A host entry: official name, aliases, address type, addresses. An entry of \<open>getaddrinfo\<close>: the
  canonical name (or the null pointer), family, socket address, socket type, protocol.
\<close>

record hostent =
  h_name :: string
  h_aliases :: "string list"
  h_addrtype :: int
  h_addr_list :: "bytes list"

record ai_entry =
  ai_canonname :: "string option"
  ai_family :: int
  ai_addr :: bytes
  ai_socktype :: int
  ai_protocol :: int

record 'w names =
  n_calls :: "'w host"
  n_host :: "string \<Rightarrow> 'w \<Rightarrow> (int \<times> hostent option) \<times> 'w"
  n_info :: "'w \<Rightarrow> (int \<times> ai_entry list) \<times> 'w"

definition host_query :: "'w names \<Rightarrow> string \<Rightarrow> arg list \<Rightarrow> ('w, int \<times> hostent option) prog" where
  "host_query d f as = query (n_host d f)
     (\<lambda>(e, h). \<lparr>rv = (case h of None \<Rightarrow> 0 | Some _ \<Rightarrow> 1), eno = e, out = []\<rparr>) f as"

text \<open>An address that cannot be converted leaves the buffer indeterminate, and it is printed.\<close>

definition print_host_addr :: "'w host \<Rightarrow> int \<Rightarrow> bytes \<Rightarrow> ('w, unit) prog" where
  "print_host_addr k type a =
     bnd (sys k ''inet_ntop'' [I type, B a, I 16]) (\<lambda>t.
     if rv t = 0 then crash UninitRead else printf (ln ''addr is : %s '') [B (out t)])"

definition print_hostent :: "'w host \<Rightarrow> hostent \<Rightarrow> ('w, unit) prog" where
  "print_hostent k ent =
     bnd (printf (ln ''official name: %s '') [S (h_name ent)]) (\<lambda>_.
     bnd (for_each (h_aliases ent) (\<lambda>a. printf (ln ''alias name is %s '') [S a])) (\<lambda>_.
     bnd (printf (ln ''name type is %d '') [I (h_addrtype ent)]) (\<lambda>_.
     for_each (h_addr_list ent) (print_host_addr k (h_addrtype ent)))))"

definition hostbyname_test :: "'w names \<Rightarrow> ('w, unit) prog" where
  "hostbyname_test d =
     bnd (host_query d ''gethostbyname'' [S ''baidu.com'']) (\<lambda>(e, h).
     case h of
       None \<Rightarrow> printf (ln ''get host by name failed, err: %s '') [Err e]
     | Some ent \<Rightarrow> print_hostent (n_calls d) ent)"

definition hostbyaddr_test :: "'w names \<Rightarrow> ('w, unit) prog" where
  "hostbyaddr_test d =
     bnd (sys (n_calls d) ''inet_pton'' [Sym ''AF_INET'', S ''220.181.38.251'']) (\<lambda>a.
     if rv a = -1 then printf (ln ''convert addr failed, err: %s '') [Err (eno a)] else
     bnd (host_query d ''gethostbyaddr'' [B (out a), I 16, Sym ''AF_INET'']) (\<lambda>(e, h).
     case h of
       None \<Rightarrow> printf (ln ''get host by name failed, err: %s '') [Err e]
     | Some ent \<Rightarrow> print_hostent (n_calls d) ent))"

text \<open>A failed conversion answers the null pointer, which \<open>strcmp\<close> dereferences.\<close>

definition print_ai :: "'w host \<Rightarrow> ai_entry \<Rightarrow> ('w, unit) prog" where
  "print_ai k e =
     bnd (printf (ln ''addr name is: %s '')
       [case ai_canonname e of None \<Rightarrow> Sym ''NULL'' | Some n \<Rightarrow> S n]) (\<lambda>_.
     bnd (sys k ''inet_ntop'' [I (ai_family e), B (ai_addr e), I 46]) (\<lambda>t.
     if rv t = 0 then crash NullDeref else
     if out t = [] then printf (ln ''convert failed, err: %s '') [Err (eno t)] else
     bnd (printf (ln ''addr is : %s '') [B (out t)]) (\<lambda>_.
     bnd (printf (ln ''addr type is: %d '') [I (ai_socktype e)]) (\<lambda>_.
     printf (ln ''add protocol is: %d '') [I (ai_protocol e)]))))"

definition addrinfo_test :: "'w names \<Rightarrow> ('w, unit) prog" where
  "addrinfo_test d =
     bnd (query (n_info d) (\<lambda>(e, as). \<lparr>rv = e, eno = 0, out = []\<rparr>) ''getaddrinfo''
       [S ''baidu.com'', Sym ''NULL'', Obj ''addrinfo'' [(''ai_flags'', Sym ''AI_CANONNAME''),
         (''ai_family'', Sym ''AF_UNSPEC'')]]) (\<lambda>(err, result).
     if err \<noteq> 0 then printf ''get addr info failed, err: %s'' [Obj ''gai_strerror'' [(''err'', I err)]] else
     bnd (for_each result (print_ai (n_calls d))) (\<lambda>_.
     bnd (sys (n_calls d) ''freeaddrinfo'' [Sym ''result'']) (\<lambda>_. ret ())))"

definition dns_main :: "'w names \<Rightarrow> ('w, int) prog" where
  "dns_main d =
     bnd (printf (ln ''>>>>>> by name'') []) (\<lambda>_.
     bnd (hostbyname_test d) (\<lambda>_.
     bnd (printf (ln ''>>>>>> by addr'') []) (\<lambda>_.
     bnd (hostbyaddr_test d) (\<lambda>_.
     bnd (printf (ln ''>>>>>> addr info '') []) (\<lambda>_.
     bnd (addrinfo_test d) (\<lambda>_.
     ret 1))))))"

section \<open>ucontext\_test, timer\_test, tun\_test, io\_stream\_test\<close>

definition ucontext_call :: "('w, unit) prog" where
  "ucontext_call = printf (ln ''call func '') []"

text \<open>
  The second \<open>getcontext\<close> overwrites the context that \<open>makecontext\<close> prepared, so a \<open>setcontext\<close> that
  succeeds goes on behind that \<open>getcontext\<close>: at the \<open>setcontext\<close> again. It returns only if it fails.
\<close>

fun setcontext_rounds :: "'w host \<Rightarrow> nat \<Rightarrow> ('w, unit) prog" where
  "setcontext_rounds k 0 = (\<lambda>m. (Running, m))"
| "setcontext_rounds k (Suc n) =
     bnd (sys k ''setcontext'' [Sym ''tar_ctx'']) (\<lambda>r.
     if rv r = -1 then ret () else setcontext_rounds k n)"

definition ucontext_main :: "'w host \<Rightarrow> nat \<Rightarrow> ('w, int) prog" where
  "ucontext_main k n =
     bnd (sys k ''getcontext'' [Sym ''cur_ctx'']) (\<lambda>_.
     bnd (sys k ''makecontext'' [Obj ''tar_ctx'' [(''uc_link'', Sym ''cur_ctx''), (''ss_sp'', Sym ''buf''),
       (''ss_size'', I 8192)], Sym ''ucontext_call'', I 0]) (\<lambda>_.
     bnd (sys k ''getcontext'' [Sym ''tar_ctx'']) (\<lambda>_.
     bnd (setcontext_rounds k n) (\<lambda>_.
     bnd (printf (ln ''end '') []) (\<lambda>_.
     ret 1)))))"

definition unix_signal_call :: "int \<Rightarrow> ('w, unit) prog" where
  "unix_signal_call sig = printf (ln ''sig is %d '') [I sig]"

definition unix_timer_test :: "'w host \<Rightarrow> ('w, unit) prog" where
  "unix_timer_test k =
     bnd (sys k ''setitimer'' [Sym ''ITIMER_REAL'', Obj ''itimerval'' [(''it_interval.tv_sec'', I 6),
       (''it_value.tv_sec'', I 10)], Sym ''NULL'']) (\<lambda>_.
     bnd (sys k ''alarm'' [I 10]) (\<lambda>_.
     bnd (sys k ''sigaction'' [Sym ''SIGALRM'', Obj ''sigaction'' [(''sa_mask'', Sym ''all''),
       (''sa_flags'', Sym ''SA_RESTART''), (''sa_handler'', Sym ''unix_signal_call'')], Sym ''NULL'']) (\<lambda>_.
     bnd (sys k ''sleep'' [I 20]) (\<lambda>_. ret ()))))"

definition tun_test :: "'w host \<Rightarrow> ('w, unit) prog" where
  "tun_test k =
     bnd (sys k ''open'' [S ''/dev/net/tun'', Sym ''O_CREAT | O_EXCL | O_RDWR'', Sym ''S_IWUSR | S_IRUSR'']) (\<lambda>fd.
     whenP (rv fd = -1) (printf ''open tun device failed, err: %s'' [Err (eno fd)]))"

definition io_bad_return :: "('w, 'a) prog" where
  "io_bad_return = exit_with (-1)"

definition test_bind :: "'w host \<Rightarrow> ('w, unit) prog" where
  "test_bind k =
     bnd (sys k ''open'' [S ''/dev/tcp'', Sym ''O_RDWR | O_EXCL | O_CLOEXEC'',
       Sym ''S_IRUSR | S_IWUSR | S_IXUSR'']) (\<lambda>fd.
     if rv fd = -1 then bnd (printf ''open tcp failed, err: %s'' [Err (eno fd)]) (\<lambda>_. io_bad_return)
     else ret ())"

end
