(* ===== verification/SockClaims.thy ===== *)
theory SockClaims
  imports UdpPrograms StreamPrograms TcpPrograms
begin

text \<open>
  Properties of the socket programs: the order of their calls, what they send, and the faults they
  run into.
\<close>

section \<open>The echo server over SCTP\<close>

lemma sctp_server_loop_calls:
  "only_calls (sctp_server_loop k fd buf n) {''read'', ''write''} (no_return (-1))"
proof (induction n arbitrary: buf)
  case 0
  then show ?case by (simp add: only_calls_running)
next
  case (Suc n)
  have ret: "only_calls (bnd (pureE r) q) late (no_return (-1))"
    if "\<And>x. only_calls (q x) late (no_return (-1))" for r :: "fault + bytes" and q :: "bytes \<Rightarrow> ('a, unit) prog" and late
    using that by (cases r) (simp_all add: only_calls_crash)
  show ?case unfolding sctp_server_loop.simps Let_def
    by (intro stage_intro ret Suc.IH; simp)
qed

definition sctp_server_stages :: "string list" where
  "sctp_server_stages =
     [''socket'', ''setsockopt'', ''inet_pton'', ''bind'', ''listen'', ''accept'', ''malloc'']"

lemma sctp_server_staged:
  "stages (sctp_single_server_test k n) sctp_server_stages {''read'', ''write''}
     ({Exit (-1)} \<union> range Crash) (no_return (-1))"
  unfolding sctp_single_server_test_def sctp_server_stages_def
  by (intro stage_intro stages_only_calls [OF sctp_server_loop_calls]; simp)

interpretation sctp_server: staged "sctp_single_server_test k n" sctp_server_stages "{''read'', ''write''}"
    "{Exit (-1)} \<union> range Crash" "no_return (-1)" for k :: "'w host" and n
  by unfold_locales (rule sctp_server_staged)

lemma sctp_client_loop_calls:
  "only_calls (sctp_client_loop k fd n) {''write'', ''malloc'', ''read'', ''free'', ''sleep''} (no_return (-1))"
proof (induction n)
  case 0
  then show ?case by (simp add: only_calls_running)
next
  case (Suc n)
  have ret: "only_calls (bnd (pureE r) q) late (no_return (-1))"
    if "\<And>x. only_calls (q x) late (no_return (-1))" for r :: "fault + bytes" and q :: "bytes \<Rightarrow> ('a, unit) prog" and late
    using that by (cases r) (simp_all add: only_calls_crash)
  show ?case unfolding sctp_client_loop.simps
    by (intro stage_intro ret Suc.IH; simp)
qed

definition sctp_client_calls :: "string set" where
  "sctp_client_calls = {''socket'', ''setsockopt'', ''inet_pton'', ''connect'', ''write'', ''malloc'', ''read'',
     ''free'', ''sleep''}"

lemma only_calls_mono: "only_calls p late Good \<Longrightarrow> late \<subseteq> late' \<Longrightarrow> only_calls p late' Good"
  unfolding only_calls_def by (meson subset_trans)

lemma sctp_client_only:
  "only_calls (sctp_single_client_test k n) sctp_client_calls (no_return (-1))"
  unfolding sctp_single_client_test_def
  by (intro stage_intro only_calls_mono [OF sctp_client_loop_calls]; simp add: sctp_client_calls_def)

section \<open>The set-up of the local server\<close>

text \<open>Its first four calls, and what follows an accepted bind.\<close>

definition unix_server_start :: "'w host \<Rightarrow> (reply \<Rightarrow> reply \<Rightarrow> ('w, unit) prog) \<Rightarrow> ('w, unit) prog" where
  "unix_server_start k q =
     bnd (sys k ''socket'' [Sym ''AF_LOCAL'', Sym ''SOCK_STREAM'', I 0]) (\<lambda>fd.
     bnd (sys k ''unlink'' [S ''/tmp/unix.socket'']) (\<lambda>_.
     bnd (sys k ''bind'' [I (rv fd), sockaddr_un ''/tmp/unix.socket'' 16, I 16]) (\<lambda>b.
     if rv b = -1 then die_errno (ln ''bind failed,err :%s '') (eno b) else
     bnd (sys k ''listen'' [I (rv fd), Sym ''SOMAXCONN'']) (q fd))))"

lemma unix_server_split:
  "\<exists>q. (\<forall>fd l. extends (q fd l)) \<and> unix_server_test k = unix_server_start k q"
  unfolding unix_server_test_def unix_server_start_def Let_def
  by (rule exI, rule conjI [rotated], rule refl, intro allI extends_intro)

section \<open>The rounds of the busy client\<close>

text \<open>The first 8 bytes of the buffer are determinate, and stay so.\<close>

definition head_known :: "ubuf \<Rightarrow> bool" where
  "head_known buf \<longleftrightarrow> (\<forall>i < 8. i < length buf \<longrightarrow> buf ! i \<noteq> None)"

lemma nth_received:
  "i < length buf \<Longrightarrow> received bs buf ! i = (if i < length bs then Some (bs ! i) else buf ! i)"
  by (auto simp: received_def nth_append)

lemma head_known_received: "head_known buf \<Longrightarrow> head_known (received bs buf)"
  by (auto simp: head_known_def nth_received)

lemma head_known_start: "head_known (received (literal ''test msg'') (fresh 8192))"
  by (auto simp: head_known_def nth_received literal_def fresh_def)

lemma head_known_take: "head_known buf \<Longrightarrow> None \<notin> set (take 8 buf)"
  by (auto simp: head_known_def in_set_conv_nth)

text \<open>A transmission of determinate bytes only, at most 8.\<close>

definition known_send :: "event \<Rightarrow> bool" where
  "known_send e = (case e of
     Call f as r \<Rightarrow> (if f = ''sendto'' then
       (case as of (_ # U b # _) \<Rightarrow> length b \<le> 8 \<and> None \<notin> set b | _ \<Rightarrow> False) else True)
   | Print s as \<Rightarrow> True)"

lemma high_con_loop_sends: "head_known test \<Longrightarrow> emits known_send (high_con_loop k fd addr test n)"
proof (induction n arbitrary: test)
  case 0
  then show ?case by (simp add: emits_last)
next
  case (Suc n)
  show ?case unfolding high_con_loop.simps Let_def
    by (intro emits_intro Suc.IH head_known_received Suc.prems)
      (simp_all add: known_send_def head_known_take [OF Suc.prems])
qed

lemma high_con_client_sends: "emits known_send (high_con_client k n)"
  unfolding high_con_client_def
  by (intro emits_intro high_con_loop_sends head_known_start) (simp_all add: known_send_def)

section \<open>Constant arguments\<close>

text \<open>The connect of async\_connect, and the line it never prints.\<close>

definition async_event :: "event \<Rightarrow> bool" where
  "async_event e = (case e of
     Call f as r \<Rightarrow> (f = ''connect'' \<longrightarrow> (\<exists>fd a. as = [fd, sockaddr_in (I 0) a, I 16]))
   | Print s as \<Rightarrow> s \<noteq> ln ''no error happens '')"

lemma port_truncated: "(ucast (bswap32 12345) :: u16) = 0"
  by (simp add: bswap32_def byte_at_def join32_def drop_bit_eq_div push_bit_eq_mult)

lemma or_POLLERR: "r OR POLLERR \<noteq> 0"
proof
  assume "r OR POLLERR = 0"
  then have "bit (r OR POLLERR) 3 = bit (0 :: u16) 3" by simp
  then show False by (simp add: bit_or_iff POLLERR_def)
qed

lemma async_connect_emits: "emits async_event (poll_connect_client k)"
  unfolding poll_connect_client_def Let_def port_truncated
  by (simp only: or_POLLERR not_False_eq_True if_True, intro emits_intro)
    (auto simp: async_event_def ln_def)


section \<open>Runs with known answers\<close>

text \<open>A host on which every call answers 3 and stores a given block of bytes.\<close>

definition steady_host :: "bytes \<Rightarrow> unit host" where
  "steady_host bs f as w = (\<lparr>rv = 3, eno = 0, out = bs\<rparr>, w)"

lemma fst_check:
  "rv (fst (k f as (world m))) \<noteq> -1 \<Longrightarrow>
   check k f as msg q m = q (fst (k f as (world m))) (after_call k f as m)"
  by (simp add: check_def bnd_sys_after)

text \<open>The bytes behind a name are indeterminate, so reading one never runs off its buffer.\<close>

lemma text_of_fresh_tail: "0 < n \<Longrightarrow> text_of (buf @ fresh n) \<noteq> Inl OutOfBounds"
proof (induction buf)
  case Nil
  then show ?case by (simp add: text_of_fresh)
next
  case (Cons b buf)
  then show ?case by (cases b) (auto simp: bindE_def split: sum.splits)
qed

text \<open>Both walks of the interface list: at the first structure, then outside the buffer.\<close>

lemma ifconf_loop_run:
  fixes m :: "'w mach" and bs :: bytes
  defines "buf \<equiv> received bs (fresh 400)"
  shows "fst (ifconf_loop buf 0 m) = Crash OutOfBounds \<and>
      (\<exists>name. log (snd (ifconf_loop buf 0 m)) = log m @ [Print (ln ''if name is %s '') [B name]]) \<or>
    fst (ifconf_loop buf 0 m) = Crash UninitRead \<and> log (snd (ifconf_loop buf 0 m)) = log m"
proof -
  have len: "length buf = 400" by (simp add: buf_def fresh_def)
  have out: "ifconf_loop buf 1280 = (crash OutOfBounds :: ('w, unit) prog)"
    by (subst ifconf_loop.simps) (simp add: len)
  show ?thesis
  proof (cases "text_of (take 16 (drop 0 buf) @ fresh 112)")
    case (Inl e)
    then have "e = UninitRead"
      using text_of_fresh_tail [of 112 "take 16 (drop 0 buf)"] text_of_faults [of "take 16 (drop 0 buf) @ fresh 112"]
      by auto
    then show ?thesis using Inl by (subst (1 2 3 4) ifconf_loop.simps) (simp add: len)
  next
    case (Inr name)
    then show ?thesis
      by (subst (1 2 3 4) ifconf_loop.simps) (simp add: len out step_rules)
  qed
qed


text \<open>An entry of the address list that \<open>print_addr\<close> can print and the loop can copy.\<close>

definition good_entry :: "bytes \<Rightarrow> bool" where
  "good_entry sa \<longleftrightarrow>
     (rd16 sa 0 = Inr AF_INET \<and> 16 \<le> length sa) \<or> (rd16 sa 0 = Inr AF_INET6 \<and> 28 \<le> length sa)"

definition prints_addresses :: "'w host \<Rightarrow> bool" where
  "prints_addresses k \<longleftrightarrow> (\<forall>as w. rv (fst (k ''inet_ntop'' as w)) \<noteq> 0)"

lemma print_addr_run:
  assumes "good_entry sa" and "prints_addresses k"
  shows "fst (print_addr k sa m) = Ret ()" "\<exists>es. log (snd (print_addr k sa m)) = log m @ es"
  using assms
  by (auto simp: print_addr_def good_entry_def prints_addresses_def AF_INET_def AF_INET6_def rdn_def
      step_rules)

lemma addr_loop_run:
  fixes m :: "'w mach"
  assumes "\<forall>sa \<in> set res. good_entry sa" and "prints_addresses k" and "count < 5"
  shows "fst (addr_loop k count arr res m) =
      Ret (arr @ map (take 16) (take (5 - count) res), drop (5 - count) res)"
    and "\<exists>es. log (snd (addr_loop k count arr res m)) = log m @ es"
proof -
  have "fst (addr_loop k count arr res m) =
      Ret (arr @ map (take 16) (take (5 - count) res), drop (5 - count) res) \<and>
      (\<exists>es. log (snd (addr_loop k count arr res m)) = log m @ es)"
    using assms
  proof (induction res arbitrary: count arr m)
    case Nil
    then show ?case by simp
  next
    case (Cons sa res)
    obtain m' es where p: "print_addr k sa m = (Ret (), m')" "log m' = log m @ es"
      using print_addr_run [of sa k m] Cons.prems(1,2) by (cases "print_addr k sa m") auto
    have copy: "rdn sa 0 16 = Inr (take 16 sa)"
      using Cons.prems(1) by (auto simp: good_entry_def rdn_def)
    have five: "5 - count = Suc (4 - count)" using Cons.prems(3) by simp
    show ?case
    proof (cases "5 \<le> count + 1")
      case True
      then have "count = 4" using Cons.prems(3) by simp
      then show ?thesis using p copy by (simp add: bnd_step)
    next
      case False
      then show ?thesis
        using Cons.IH [of "count + 1" "arr @ [take 16 sa]" m'] Cons.prems p copy
        by (auto simp: bnd_step five)
    qed
  qed
  then show "fst (addr_loop k count arr res m) =
      Ret (arr @ map (take 16) (take (5 - count) res), drop (5 - count) res)"
    and "\<exists>es. log (snd (addr_loop k count arr res m)) = log m @ es" by simp_all
qed

lemma setcontext_rounds_run:
  assumes "\<And>w. rv (fst (k ''setcontext'' [Sym ''tar_ctx''] w)) \<noteq> -1"
  shows "fst (setcontext_rounds k n m) = Running \<and>
    (\<exists>es. log (snd (setcontext_rounds k n m)) = log m @ es \<and> prints es = [] \<and>
       calls es = replicate n (''setcontext'', [Sym ''tar_ctx'']))"
proof (induction n arbitrary: m)
  case 0
  then show ?case by simp
next
  case (Suc n)
  let ?m = "after_call k ''setcontext'' [Sym ''tar_ctx''] m"
  show ?case using Suc.IH [of ?m] assms [of "world m"] by (auto simp: step_rules)
qed

text \<open>A read of 512 bytes of a literal of 33: the rest is indeterminate.\<close>

lemma syslog_text_bytes:
  "syslog_text = map Some (literal ''>>>>>> this is syslog socket msg'') @ replicate 479 None"
  by (simp add: syslog_text_def bytes_at_literal_def received_def fresh_def literal_def)

section \<open>Properties\<close>

text \<open>
  The listing of the interfaces never returns. It gives up at a failed call; or it prints one
  name, the first, and then reads outside the buffer, because the step of its loop counts structures
  instead of bytes; or it reads indeterminate bytes behind a name that is not terminated.
\<close>

theorem ifconfig_never_returns:
  "let v = run_value (get_ifconfig_test k) m; ps = run_prints (get_ifconfig_test k) m in
     (v = Crash OutOfBounds \<and> (\<exists>name. ps = [(ln ''if name is %s '', [B name])])) \<or>
     (v = Crash UninitRead \<and> ps = []) \<or>
     (v = Exit (-1) \<and> (\<exists>what err. ps = [(ln ''%s failed, err: %s '', [S what, Err err])]))"
proof -
  let ?s = "after_call k ''socket'' [Sym ''AF_INET'', Sym ''SOCK_DGRAM'', I 0] m"
  obtain r where r: "r = fst (k ''socket'' [Sym ''AF_INET'', Sym ''SOCK_DGRAM'', I 0] (world m))" by simp
  let ?as = "[I (rv r), Sym ''SIOCGIFCONF'', Obj ''ifconf'' [(''ifc_len'', I 400)]]"
  show ?thesis
    using ifconf_loop_run [of "out (fst (k ''ioctl'' ?as (world ?s)))" "after_call k ''ioctl'' ?as ?s"]
    by (auto simp: get_ifconfig_test_def check_def bad_exit_def step_rules run_defs Let_def r)
qed

text \<open>
  Whatever the calls answer, the asynchronous client connects to port 0 only, because the port
  is converted as 32 bits and cut to 16, and it never reports that no error happened, because its
  test of the error bit is an or.
\<close>

theorem async_connect_port_zero:
  "(\<forall>as. (''connect'', as) \<in> set (run_calls (async_connect_main k) m) \<longrightarrow>
      (\<exists>fd a. as = [fd, sockaddr_in (I 0) a, I 16])) \<and>
   ln ''no error happens '' \<notin> fst ` set (run_prints (async_connect_main k) m)"
proof -
  have e: "emits async_event (async_connect_main k)"
    unfolding async_connect_main_def by (intro emits_intro async_connect_emits)
  show ?thesis
    using emits_calls [OF e] emits_prints [OF e] by (force simp: async_event_def)
qed

theorem async_connect_port_zero_witness:
  "\<exists>as. (''connect'', as) \<in> set (run_calls (async_connect_main (steady_host [0, 0, 0, 0])) (start ())) \<and>
     (\<exists>fd a. as = [fd, sockaddr_in (I 0) a, I 16])"
proof -
  have "(''connect'', [I 3, sockaddr_in (I (uint (ucast (bswap32 12345) :: u16))) (B [0, 0, 0, 0]), I 16])
      \<in> set (run_calls (async_connect_main (steady_host [0, 0, 0, 0])) (start ()))"
    by (simp add: async_connect_main_def poll_connect_client_def check_def steady_host_def start_def
        step_rules run_defs Let_def rd16_def rd32_def rdn_def bindE_def)
  then show ?thesis
    using async_connect_port_zero [of "steady_host [0, 0, 0, 0]" "start ()"] by blast
qed


text \<open>
  When the name resolves to entries that can be printed, resolving answers the first five
  addresses, each cut to the 16 bytes of a \<open>struct sockaddr\<close>, and its last call frees the rest of the
  list instead of the list: the entries behind the fifth.
\<close>

theorem resolve_frees_rest:
  fixes m :: "'w mach"
  assumes res: "fst (r_addrs d (world m)) = (0, res)" and "res \<noteq> []"
    and good: "\<forall>sa \<in> set res. good_entry sa" "prints_addresses (r_calls d)"
  shows "run_value (resolve d) m = Ret (map (take 16) (take 5 res)) \<and>
     last (run_calls (resolve d) m) = (''freeaddrinfo'', [addrs_arg (drop 5 res)])"
proof -
  let ?l = "addr_loop (r_calls d) 0 [] res"
  obtain m1 es1 where get: "getaddrinfo d m = (Ret (0, res), m1)" "log m1 = log m @ es1"
    using res by (cases "r_addrs d (world m)") (simp add: getaddrinfo_def query_def)
  obtain m2 es2 where loop: "?l m1 = (Ret (map (take 16) (take 5 res), drop 5 res), m2)" "log m2 = log m1 @ es2"
    using addr_loop_run [OF good, of 0 "[]" m1] by (cases "?l m1") auto
  have "resolve d m = bnd (sys (r_calls d) ''freeaddrinfo'' [addrs_arg (drop 5 res)])
      (\<lambda>_. ret (map (take 16) (take 5 res))) m2"
    using get(1) loop(1) assms(2) by (simp add: resolve_def bnd_step)
  then show ?thesis using get(2) loop(2) by (simp add: run_defs step_rules)
qed

text \<open>Seven IPv4 entries.\<close>

definition seven_entries :: "bytes list" where
  "seven_entries = map (\<lambda>i. [2, 0, 4, 56, 10, 0, 0, i, 0, 0, 0, 0, 0, 0, 0, 0]) [1, 2, 3, 4, 5, 6, 7]"

definition seven_resolver :: "unit resolver" where
  "seven_resolver = \<lparr>r_calls = steady_host [], r_addrs = (\<lambda>w. ((0, seven_entries), w))\<rparr>"

theorem resolve_frees_rest_witness:
  "last (run_calls (resolve seven_resolver) (start ())) = (''freeaddrinfo'', [addrs_arg (drop 5 seven_entries)])"
proof -
  have "\<forall>sa \<in> set seven_entries. good_entry sa"
    by (simp add: seven_entries_def good_entry_def rd16_def rdn_def bindE_def join16_def AF_INET_def)
  then show ?thesis
    using resolve_frees_rest [of seven_resolver "start ()" seven_entries]
    by (simp add: seven_resolver_def prints_addresses_def steady_host_def seven_entries_def)
qed

text \<open>
  As long as \<open>setcontext\<close> does not fail, the context program calls it for ever: in any number of
  rounds it makes that many calls, returns nothing and prints nothing, neither the line of the function
  it prepared nor the last one.
\<close>

theorem ucontext_loops:
  assumes "\<And>w. rv (fst (k ''setcontext'' [Sym ''tar_ctx''] w)) \<noteq> -1"
  shows "run_value (ucontext_main k n) m = Running \<and> run_prints (ucontext_main k n) m = [] \<and>
    drop 3 (run_calls (ucontext_main k n) m) = replicate n (''setcontext'', [Sym ''tar_ctx''])"
proof -
  let ?c1 = "[Sym ''cur_ctx'']"
  let ?mk = "[Obj ''tar_ctx'' [(''uc_link'', Sym ''cur_ctx''), (''ss_sp'', Sym ''buf''),
       (''ss_size'', I 8192)], Sym ''ucontext_call'', I 0]"
  let ?m = "after_call k ''getcontext'' [Sym ''tar_ctx'']
    (after_call k ''makecontext'' ?mk (after_call k ''getcontext'' ?c1 m))"
  obtain m' es where r: "setcontext_rounds k n ?m = (Running, m')" "log m' = log ?m @ es"
      "prints es = []" "calls es = replicate n (''setcontext'', [Sym ''tar_ctx''])"
    using setcontext_rounds_run [of k n ?m] assms by (cases "setcontext_rounds k n ?m") auto
  have "ucontext_main k n m = (Running, m')"
    using r(1) by (simp add: ucontext_main_def bnd_sys_after bnd_step)
  then show ?thesis using r by (simp add: run_defs log_after_call)
qed

theorem ucontext_loops_witness:
  "run_value (ucontext_main (steady_host []) 7) (start ()) = Running \<and>
   drop 3 (run_calls (ucontext_main (steady_host []) 7) (start ())) = replicate 7 (''setcontext'', [Sym ''tar_ctx''])"
  using ucontext_loops [of "steady_host []" 7 "start ()"] by (simp add: steady_host_def)

text \<open>
  Once connected, the log writer asks for 512 bytes of a text of 33, twice: 33 determinate bytes
  and 479 indeterminate ones. It reports a failure exactly of the transmissions that answer a number
  other than 0, so of every one that transmits something.
\<close>

theorem syslog_overreads:
  fixes m :: "'w mach"
  assumes "\<And>as w. rv (fst (k ''socket'' as w)) = 3" and "\<And>as w. rv (fst (k ''connect'' as w)) = 0"
    and "\<And>as w. fst (k ''write'' as w) = \<lparr>rv = a, eno = e, out = []\<rparr>"
    and "\<And>as w. fst (k ''sendto'' as w) = \<lparr>rv = b, eno = e', out = []\<rparr>"
  shows "drop 2 (run_calls (write_test k) m) =
      [(''write'', [I 3, U (map Some (literal ''>>>>>> this is syslog socket msg'') @ replicate 479 None), I 512]),
       (''sendto'', [I 3, U (map Some (literal ''>>>>>> this is syslog socket msg'') @ replicate 479 None), I 512,
          I 0, syslog_addr, I 110])] \<and>
    run_prints (write_test k) m =
      (if a \<noteq> 0 then [(ln ''write msg failed, err: %s '', [Err e])] else []) @
      (if b \<noteq> 0 then [(ln ''sendto msg failed, err: %s '', [Err e'])] else [])"
  using assms by (simp add: write_test_def step_rules run_defs whenP_def syslog_text_bytes)

text \<open>A log that takes the connection, 512 bytes of the first transmission, and none of the second.\<close>

definition log_host :: "unit host" where
  "log_host f as w = (\<lparr>rv = (if f = ''socket'' then 3 else if f = ''connect'' then 0 else
     if f = ''write'' then 512 else -1), eno = 0, out = []\<rparr>, w)"

theorem syslog_overreads_witness:
  "run_prints (write_test log_host) (start ()) =
     [(ln ''write msg failed, err: %s '', [Err 0]), (ln ''sendto msg failed, err: %s '', [Err 0])]"
  using syslog_overreads [of log_host 512 0 "-1" 0 "start ()"] by (simp add: log_host_def)

text \<open>
  The local server removes one file and binds another: what it unlinks is the whole path, what it
  binds is the path cut to the 14 characters that fit in the length it passes, and the other calls
  before the first message are made only after that bind succeeds.
\<close>

theorem unix_server_unlinks_other:
  fixes m :: "'w mach"
  shows "let cs = run_calls (unix_server_test k) m;
      fd = rv (fst (k ''socket'' [Sym ''AF_LOCAL'', Sym ''SOCK_STREAM'', I 0] (world m))) in
    take 3 cs =
      [(''socket'', [Sym ''AF_LOCAL'', Sym ''SOCK_STREAM'', I 0]), (''unlink'', [S ''/tmp/unix.socket'']),
       (''bind'', [I fd, Obj ''sockaddr_un'' [(''sun_family'', Sym ''AF_LOCAL''), (''sun_path'', S ''/tmp/unix.sock'')], I 16])] \<and>
    (run_value (unix_server_test k) m = Exit (-1) \<and> length cs = 3 \<or> cs ! 3 = (''listen'', [I fd, Sym ''SOMAXCONN'']))"
proof -
  obtain q where q: "\<forall>fd l. extends (q fd l)" and run: "unix_server_test k = unix_server_start k q"
    using unix_server_split [of k] by (elim exE conjE)
  let ?s = "[Sym ''AF_LOCAL'', Sym ''SOCK_STREAM'', I 0]"
  let ?m1 = "after_call k ''socket'' ?s m"
  let ?m2 = "after_call k ''unlink'' [S ''/tmp/unix.socket''] ?m1"
  define fd where "fd = fst (k ''socket'' ?s (world m))"
  note fd = fd_def [symmetric]
  let ?b = "[I (rv fd), sockaddr_un ''/tmp/unix.socket'' 16, I 16]"
  let ?m3 = "after_call k ''bind'' ?b ?m2"
  let ?l = "[I (rv fd), Sym ''SOMAXCONN'']"
  obtain es where es: "log (snd (q fd (fst (k ''listen'' ?l (world ?m3))) (after_call k ''listen'' ?l ?m3))) =
      log (after_call k ''listen'' ?l ?m3) @ es"
    using extendsD [OF q [rule_format]] by blast
  have un: "sockaddr_un ''/tmp/unix.socket'' 16 =
      Obj ''sockaddr_un'' [(''sun_family'', Sym ''AF_LOCAL''), (''sun_path'', S ''/tmp/unix.sock'')]"
    by (simp add: sockaddr_un_def)
  show ?thesis
  proof (cases "rv (fst (k ''bind'' ?b (world ?m2))) = -1")
    case True
    then show ?thesis unfolding run un [symmetric]
      by (simp add: unix_server_start_def die_errno_def step_rules run_defs fd)
  next
    case False
    then show ?thesis unfolding run un [symmetric] using es
      by (simp add: unix_server_start_def step_rules run_defs fd)
  qed
qed

text \<open>
  The datagram server prints the wrong bytes as the source of a message: whatever the address \<open>a\<close>
  of the sender, the address it converts consists of the family, 2 in the order of a little-endian
  host, and the two bytes of the port.
\<close>

theorem senior_server_wrong_source:
  fixes m :: "'w mach"
  assumes ok: "\<And>f as w. 0 < rv (fst (calls_of d f as w))"
    and got: "\<And>fd w. fst (msgs_of d fd w) = \<lparr>m_rv = int (length msg + 1), m_eno = 0, m_data = msg @ [0],
      m_name = [2, 0, p, p'] @ a @ replicate 8 0, m_flags = 0, m_cmsgs = [], m_controllen = 0\<rparr>"
    and "length a = 4" and "0 \<notin> set msg" and "length msg < 8192"
  shows "last (run_calls (senior_server d) m) = (''inet_ntop'', [Sym ''AF_INET'', B [2, 0, p, p'], I 16]) \<and>
    run_value (senior_server d) m = Ret () \<and>
    take 2 (tl (run_prints (senior_server d) m)) = [(ln ''rcv msg is %s '', [B msg]), (ln ''rcv end '', [])]"
proof -
  have pos: "rv (fst (calls_of d f as w)) \<noteq> -1" "rv (fst (calls_of d f as w)) \<noteq> 0" for f as w
    using ok [of f as w] by auto
  have "takeWhile (\<lambda>b. b \<noteq> 0) (msg @ [0]) = msg"
    using assms(4) by (subst takeWhile_append2) auto
  then have known: "text_of (received (msg @ [0]) (fresh 8192)) = Inr msg"
    using text_of_received [of "fresh 8192" "msg @ [0]"] assms(5) by (simp add: fresh_def)
  show ?thesis
    by (simp add: senior_server_def check_def recvmsg_def pos got known step_rules run_defs Let_def)
qed

text \<open>A message from port 8080 of 192.168.1.9.\<close>

definition one_message :: "unit net" where
  "one_message = \<lparr>calls_of = steady_host [], msgs_of = (\<lambda>fd w. (\<lparr>m_rv = 3, m_eno = 0, m_data = [104, 105, 0],
     m_name = [2, 0, 31, 144, 192, 168, 1, 9] @ replicate 8 0, m_flags = 0, m_cmsgs = [], m_controllen = 0\<rparr>, w))\<rparr>"

theorem senior_server_wrong_source_witness:
  "last (run_calls (senior_server one_message) (start ())) =
     (''inet_ntop'', [Sym ''AF_INET'', B [2, 0, 31, 144], I 16])"
  using senior_server_wrong_source [of one_message "[104, 105]" 31 144 "[192, 168, 1, 9]" "start ()"]
  by (simp add: one_message_def steady_host_def)

text \<open>
  Every transmission of the busy client, in any number of rounds and whatever it receives, is of
  at most 8 bytes and determinate, because its buffer starts with its own text.
\<close>

theorem high_con_sends_known:
  "\<forall>as. (''sendto'', as) \<in> set (run_calls (high_con_client k n) m) \<longrightarrow>
     (\<exists>fd b rest. as = fd # U b # rest \<and> length b \<le> 8 \<and> None \<notin> set b)"
proof (intro allI impI)
  fix as assume "(''sendto'', as) \<in> set (run_calls (high_con_client k n) m)"
  then obtain r where "known_send (Call ''sendto'' as r)"
    using emits_calls [OF high_con_client_sends] by blast
  then show "\<exists>fd b rest. as = fd # U b # rest \<and> length b \<le> 8 \<and> None \<notin> set b"
    by (auto simp: known_send_def split: list.splits arg.splits)
qed

text \<open>A host that receives nothing.\<close>

definition deaf_host :: "unit host" where
  "deaf_host f as w = (\<lparr>rv = if f = ''recvfrom'' then -1 else 3, eno = 0, out = []\<rparr>, w)"

theorem high_con_sends_known_witness:
  "\<exists>as. (''sendto'', as) \<in> set (run_calls (high_con_client deaf_host 1) (start ())) \<and>
     (\<exists>fd b rest. as = fd # U b # rest \<and> length b \<le> 8 \<and> None \<notin> set b)"
proof -
  have "\<exists>as. (''sendto'', as) \<in> set (run_calls (high_con_client deaf_host 1) (start ()))"
    by (simp add: high_con_client_def check_def bad_exit_def deaf_host_def step_rules run_defs)
  then show ?thesis using high_con_sends_known [of deaf_host 1 "start ()"] by blast
qed

text \<open>
  The SCTP server never returns. It reads and writes the connection only after all its seven
  other calls, in their order, and makes no other call after them.
\<close>

theorem sctp_server_order:
  fixes m :: "'w mach"
  shows "let v = run_value (sctp_single_server_test k n) m; cs = map fst (run_calls (sctp_single_server_test k n) m) in
     v \<noteq> Ret () \<and> set (drop 7 cs) \<subseteq> {''read'', ''write''} \<and>
     (\<forall>f \<in> {''read'', ''write''}. f \<in> set cs \<longrightarrow> take 7 cs = sctp_server_stages)"
proof -
  have len: "length sctp_server_stages = 7" by (simp add: sctp_server_stages_def)
  have notin: "''read'' \<notin> set sctp_server_stages" "''write'' \<notin> set sctp_server_stages"
    by (simp_all add: sctp_server_stages_def)
  let ?cs = "called (new_events m (snd (sctp_single_server_test k n m)))"
  have "set (drop 7 ?cs) \<subseteq> {''read'', ''write''}"
    using sctp_server.log_shape [of k n m] len by (auto simp: staged_log_def)
  then show ?thesis
    using sctp_server.outcome [of k n m] notin
      sctp_server.late_after_all [of "''read''" m k n] sctp_server.late_after_all [of "''write''" m k n]
    by (auto simp: Let_def len run_value_def run_calls_def map_fst_calls)
qed

theorem sctp_server_order_witness:
  "''write'' \<in> set (map fst (run_calls (sctp_single_server_test (steady_host [104, 105, 0]) 1) (start ()))) \<and>
   take 7 (map fst (run_calls (sctp_single_server_test (steady_host [104, 105, 0]) 1) (start ()))) = sctp_server_stages"
proof -
  have "''write'' \<in> set (map fst (run_calls (sctp_single_server_test (steady_host [104, 105, 0]) 1) (start ())))"
    by (simp add: sctp_single_server_test_def check_def steady_host_def step_rules run_defs Let_def
        text_of_received fresh_def)
  then show ?thesis
    using sctp_server_order [of "steady_host [104, 105, 0]" 1 "start ()"] by (auto simp: Let_def)
qed

text \<open>
  The child of the SCTP program never becomes a second server, although its branch has no
  \<open>break\<close>: when \<open>fork\<close> answers 0 the program does not return and makes none of the calls of a server.
\<close>

theorem sctp_child_is_client:
  fixes m :: "'w mach"
  assumes "rv (fst (k ''fork'' [] (world m))) = 0"
  shows "run_value (sctp_main k n) m \<noteq> Ret 1 \<and>
    set (map fst (run_calls (sctp_main k n) m)) \<subseteq> insert ''fork'' sctp_client_calls \<and>
    {''bind'', ''listen'', ''accept''} \<inter> set (map fst (run_calls (sctp_main k n) m)) = {}"
proof -
  let ?m = "after_call k ''fork'' [] m"
  let ?child = "bnd (sys k ''sleep'' [I 2]) (\<lambda>_. sctp_single_client_test k n)"
  let ?rest = "bnd ?child (\<lambda>_. bnd (sctp_single_server_test k n) (\<lambda>_. ret (1::int)))"
  have "only_calls ?child sctp_client_calls (no_return (-1))"
    by (intro stage_intro sctp_client_only) (simp add: sctp_client_calls_def)
  from only_calls_never [OF this]
  have "only_calls ?rest sctp_client_calls (no_return (-1))" by blast
  moreover have "sctp_main k n m = ?rest ?m"
    using assms by (simp add: sctp_main_def bnd_sys_after)
  ultimately obtain new where "log (snd (sctp_main k n m)) = log ?m @ new"
      "set (called new) \<subseteq> sctp_client_calls" "fst (sctp_main k n m) \<in> no_return (-1)"
    unfolding only_calls_def by metis
  then have "called (new_events m (snd (sctp_main k n m))) = ''fork'' # called new"
      "set (called new) \<subseteq> sctp_client_calls" "fst (sctp_main k n m) \<noteq> Ret 1"
    by (auto simp: new_events_def log_after_call)
  moreover have "{''bind'', ''listen'', ''accept''} \<inter> insert ''fork'' sctp_client_calls = {}"
    by (simp add: sctp_client_calls_def)
  ultimately show ?thesis
    unfolding run_value_def run_calls_def map_fst_calls by auto
qed

text \<open>The child, on a host without SCTP.\<close>

definition child_host :: "unit host" where
  "child_host f as w = (\<lparr>rv = if f = ''fork'' then 0 else -1, eno = 93, out = []\<rparr>, w)"

theorem sctp_child_is_client_witness:
  "run_value (sctp_main child_host 5) (start ()) \<noteq> Ret 1 \<and>
   {''bind'', ''listen'', ''accept''} \<inter> set (map fst (run_calls (sctp_main child_host 5) (start ()))) = {}"
  using sctp_child_is_client [of child_host "start ()" 5] by (simp add: child_host_def)

end
