(* ===== verification/CppBase.thy ===== *)
theory CppBase
  imports CPrelude "HOL-Library.Multiset"
begin

text \<open>
  What the C++ programs share: arrays and vectors with checked indices, \<open>int\<close> arithmetic whose
  results must fit, counting loops with their invariant rules, computations that may fault and may
  not end, and the text that is written to \<open>std::cout\<close>.
\<close>

section \<open>Integers and arrays\<close>

text \<open>An \<open>int\<close> is its value; a result outside the 32 bits is undefined.\<close>

definition INT_MAX :: int where "INT_MAX = 2 ^ 31 - 1"
definition INT_MIN :: int where "INT_MIN = - (2 ^ 31)"

definition fits :: "int \<Rightarrow> bool" where
  "fits i \<longleftrightarrow> INT_MIN \<le> i \<and> i \<le> INT_MAX"

definition chk :: "int \<Rightarrow> fault + int" where
  "chk i = (if fits i then Inr i else Inl SignedOverflow)"

lemma chk_ok [simp]: "fits i \<Longrightarrow> chk i = Inr i"
  by (simp add: chk_def)

lemma chk_Inr: "chk i = Inr j \<longleftrightarrow> j = i \<and> fits i"
  by (auto simp: chk_def)

text \<open>An access outside an array, or outside the size of a vector, is undefined.\<close>

definition aget :: "'a list \<Rightarrow> int \<Rightarrow> fault + 'a" where
  "aget xs i = (if 0 \<le> i \<and> i < int (length xs) then Inr (xs ! nat i) else Inl OutOfBounds)"

definition aset :: "'a list \<Rightarrow> int \<Rightarrow> 'a \<Rightarrow> fault + 'a list" where
  "aset xs i v = (if 0 \<le> i \<and> i < int (length xs) then Inr (xs[nat i := v]) else Inl OutOfBounds)"

lemma aget_nat [simp]: "i < length xs \<Longrightarrow> aget xs (int i) = Inr (xs ! i)"
  by (simp add: aget_def)

lemma aset_nat [simp]: "i < length xs \<Longrightarrow> aset xs (int i) v = Inr (xs[i := v])"
  by (simp add: aset_def)

lemma aget_ok: "0 \<le> i \<Longrightarrow> i < int (length xs) \<Longrightarrow> aget xs i = Inr (xs ! nat i)"
  by (simp add: aget_def)

lemma aset_ok: "0 \<le> i \<Longrightarrow> i < int (length xs) \<Longrightarrow> aset xs i v = Inr (xs[nat i := v])"
  by (simp add: aset_def)

lemma aget_Inr: "aget xs i = Inr x \<longleftrightarrow> 0 \<le> i \<and> i < int (length xs) \<and> x = xs ! nat i"
  by (auto simp: aget_def)

lemma aset_Inr: "aset xs i v = Inr ys \<longleftrightarrow> 0 \<le> i \<and> i < int (length xs) \<and> ys = xs[nat i := v]"
  by (auto simp: aset_def)

text \<open>A vector of vectors.\<close>

definition aget2 :: "'a list list \<Rightarrow> int \<Rightarrow> int \<Rightarrow> fault + 'a" where
  "aget2 xss i j = bindE (aget xss i) (\<lambda>xs. aget xs j)"

definition aset2 :: "'a list list \<Rightarrow> int \<Rightarrow> int \<Rightarrow> 'a \<Rightarrow> fault + 'a list list" where
  "aset2 xss i j v = bindE (aget xss i) (\<lambda>xs. bindE (aset xs j v) (\<lambda>ys. aset xss i ys))"

section \<open>Counting loops\<close>

text \<open>\<open>for (int i = a; i < n; i++)\<close> and \<open>for (int i = a; i >= n; i--)\<close>.\<close>

function for_up :: "int \<Rightarrow> int \<Rightarrow> (int \<Rightarrow> 's \<Rightarrow> fault + 's) \<Rightarrow> 's \<Rightarrow> fault + 's" where
  "for_up i n body s =
     (if i < n then bindE (body i s) (\<lambda>s'. for_up (i + 1) n body s') else Inr s)"
  by auto

termination
  by (relation "measure (\<lambda>(i, n, body, s). nat (n - i))") auto

function for_down :: "int \<Rightarrow> int \<Rightarrow> (int \<Rightarrow> 's \<Rightarrow> fault + 's) \<Rightarrow> 's \<Rightarrow> fault + 's" where
  "for_down i n body s =
     (if n \<le> i then bindE (body i s) (\<lambda>s'. for_down (i - 1) n body s') else Inr s)"
  by auto

termination
  by (relation "measure (\<lambda>(i, n, body, s). nat (i - n + 1))") auto

declare for_up.simps [simp del] for_down.simps [simp del]

text \<open>\<open>for (auto x : xs)\<close>.\<close>

fun for_in :: "'a list \<Rightarrow> ('a \<Rightarrow> 's \<Rightarrow> fault + 's) \<Rightarrow> 's \<Rightarrow> fault + 's" where
  "for_in [] body s = Inr s"
| "for_in (x # xs) body s = bindE (body x s) (for_in xs body)"

text \<open>\<open>runs m Q\<close>: the computation does not fault and its value satisfies \<open>Q\<close>.\<close>

definition runs :: "fault + 'a \<Rightarrow> ('a \<Rightarrow> bool) \<Rightarrow> bool" where
  "runs m Q \<longleftrightarrow> (\<exists>x. m = Inr x \<and> Q x)"

named_theorems runs_intro

lemma runsD: "runs m Q \<Longrightarrow> \<exists>x. m = Inr x \<and> Q x"
  by (simp add: runs_def)

lemma runs_Inr [simp]: "runs (Inr x) Q \<longleftrightarrow> Q x"
  by (simp add: runs_def)

lemma runs_eq: "runs m (\<lambda>x. x = y) \<longleftrightarrow> m = Inr y"
  by (auto simp: runs_def)

lemma runs_bind: "runs m R \<Longrightarrow> (\<And>x. R x \<Longrightarrow> runs (f x) Q) \<Longrightarrow> runs (bindE m f) Q"
  by (auto simp: runs_def)

lemma runs_weaken: "runs m R \<Longrightarrow> (\<And>x. R x \<Longrightarrow> Q x) \<Longrightarrow> runs m Q"
  by (auto simp: runs_def)

lemma runs_if: "(b \<Longrightarrow> runs m Q) \<Longrightarrow> (\<not> b \<Longrightarrow> runs m' Q) \<Longrightarrow> runs (if b then m else m') Q"
  by simp

text \<open>The invariant rules: \<open>P i\<close> holds before the round of \<open>i\<close>.\<close>

lemma for_up_inv:
  assumes "a \<le> n" and "P a s"
    and "\<And>i s. a \<le> i \<Longrightarrow> i < n \<Longrightarrow> P i s \<Longrightarrow> runs (body i s) (P (i + 1))"
  shows "runs (for_up a n body s) (P n)"
  using assms
proof (induction a n body s rule: for_up.induct)
  case (1 i n body s)
  show ?case
  proof (cases "i < n")
    case True
    obtain s' where s': "body i s = Inr s'" "P (i + 1) s'"
      using "1.prems" True runsD by (metis order_refl)
    have "runs (for_up (i + 1) n body s') (P n)"
      using True s' "1.prems"(3) by (intro "1.IH") auto
    then show ?thesis using True s' by (simp add: for_up.simps [of i n body s])
  next
    case False
    then have "i = n" using "1.prems"(1) by simp
    then show ?thesis using "1.prems"(2) by (simp add: for_up.simps [of n n body s])
  qed
qed

lemma for_up_empty: "n \<le> a \<Longrightarrow> for_up a n body s = Inr s"
  by (simp add: for_up.simps)

lemma for_down_inv:
  assumes "n - 1 \<le> a" and "P a s"
    and "\<And>i s. n \<le> i \<Longrightarrow> i \<le> a \<Longrightarrow> P i s \<Longrightarrow> runs (body i s) (P (i - 1))"
  shows "runs (for_down a n body s) (P (n - 1))"
  using assms
proof (induction a n body s rule: for_down.induct)
  case (1 i n body s)
  show ?case
  proof (cases "n \<le> i")
    case True
    obtain s' where s': "body i s = Inr s'" "P (i - 1) s'"
      using "1.prems" True runsD by (metis order_refl)
    have "runs (for_down (i - 1) n body s') (P (n - 1))"
      using True s' "1.prems"(3) by (intro "1.IH") auto
    then show ?thesis using True s' by (simp add: for_down.simps [of i n body s])
  next
    case False
    then have "i = n - 1" using "1.prems"(1) by simp
    then show ?thesis using "1.prems"(2) by (simp add: for_down.simps [of "n - 1" n body s])
  qed
qed

lemma for_in_inv:
  assumes "P [] s" and "\<And>x ys s. P ys s \<Longrightarrow> x \<in> set xs \<Longrightarrow> runs (body x s) (P (ys @ [x]))"
  shows "runs (for_in xs body s) (P xs)"
proof -
  have "runs (for_in zs body s) (P (ys @ zs))" if "P ys s" "set zs \<subseteq> set xs" for ys zs s
    using that
  proof (induction zs arbitrary: ys s)
    case Nil
    then show ?case by simp
  next
    case (Cons z zs)
    obtain s' where "body z s = Inr s'" "P (ys @ [z]) s'"
      using assms(2) [OF Cons.prems(1), of z] Cons.prems(2) runsD by fastforce
    then show ?case using Cons.IH [of "ys @ [z]" s'] Cons.prems(2) by simp
  qed
  from this [of "[]" s xs] show ?thesis using assms(1) by simp
qed

section \<open>Computations that may not end\<close>

text \<open>\<open>None\<close> is "does not end".\<close>

type_synonym 'a may = "(fault + 'a) option"

definition bindM :: "'a may \<Rightarrow> ('a \<Rightarrow> 'b may) \<Rightarrow> 'b may" where
  "bindM m f = Option.bind m (\<lambda>r. case r of Inl e \<Rightarrow> Some (Inl e) | Inr x \<Rightarrow> f x)"

abbreviation retM :: "'a \<Rightarrow> 'a may" where
  "retM x \<equiv> Some (Inr x)"

lemma bindM_simps [simp]:
  "bindM None f = None" "bindM (Some (Inl e)) f = Some (Inl e)" "bindM (Some (Inr x)) f = f x"
  by (simp_all add: bindM_def)

lemma bindM_assoc: "bindM (bindM m f) g = bindM m (\<lambda>x. bindM (f x) g)"
  by (cases m) (auto simp: bindM_def split: sum.splits)

lemma bindM_mono [partial_function_mono]:
  assumes "mono_option B" and "\<And>y. mono_option (\<lambda>f. C y f)"
  shows "mono_option (\<lambda>f. bindM (B f) (\<lambda>y. C y f))"
  unfolding bindM_def
proof (intro bind_mono assms(1))
  show "mono_option (\<lambda>f. case y of Inl e \<Rightarrow> Some (Inl e) | Inr x \<Rightarrow> C x f)" for y
    using assms(2) by (cases y) (simp_all add: monotone_def flat_ord_def fun_ord_def)
qed

section \<open>Output\<close>

text \<open>An \<open>int\<close> followed by a space, and \<open>std::endl\<close>.\<close>

definition show_sp :: "int \<Rightarrow> string" where
  "show_sp i = fmt_d i @ '' ''"

lemma digit_char_simps:
  "digit_char 0 = CHR ''0''" "digit_char 1 = CHR ''1''" "digit_char 2 = CHR ''2''" "digit_char 3 = CHR ''3''"
  "digit_char 4 = CHR ''4''" "digit_char 5 = CHR ''5''" "digit_char 6 = CHR ''6''" "digit_char 7 = CHR ''7''"
  "digit_char 8 = CHR ''8''" "digit_char 9 = CHR ''9''"
  by (simp_all add: digit_char_def char_of_def bit_Suc_0_iff)

lemmas show_simps = show_sp_def fmt_d_def dec_nat.simps digit_char_simps digit_char_simps(2) [unfolded One_nat_def]

definition endl :: string where
  "endl = [CHR 0x0A]"

end
