(* ===== verification/Sorting.thy ===== *)
theory Sorting
  imports CppBase "HOL-Library.Signed_Division"
begin

text \<open>
  The sorting routines of \<^verbatim>\<open>sort.cpp\<close> on arrays of \<open>int\<close>, and their loops as functions. An array is
  the list of its elements; every access is checked, and so is the overflow of an index that can go
  past twice the length.
\<close>

section \<open>Exchange, bubble and insertion sort\<close>

text \<open>\<open>swap(arr[i], arr[j])\<close>.\<close>

definition swap_at :: "int list \<Rightarrow> int \<Rightarrow> int \<Rightarrow> fault + int list" where
  "swap_at arr i j =
     bindE (aget arr i) (\<lambda>tmp.
     bindE (aget arr j) (\<lambda>second.
     bindE (aset arr i second) (\<lambda>arr.
     aset arr j tmp)))"

text \<open>\<open>if (arr[i] > arr[j]) swap(arr[i], arr[j]);\<close>\<close>

definition swap_if_greater :: "int list \<Rightarrow> int \<Rightarrow> int \<Rightarrow> fault + int list" where
  "swap_if_greater arr i j =
     bindE (aget arr i) (\<lambda>x. bindE (aget arr j) (\<lambda>y. if x > y then swap_at arr i j else Inr arr))"

definition select_sort :: "int list \<Rightarrow> int \<Rightarrow> fault + int list" where
  "select_sort arr cnt =
     for_up 0 (cnt - 1) (\<lambda>index. for_up (index + 1) cnt (\<lambda>jdex arr.
       swap_if_greater arr index jdex)) arr"

definition bubble_sort :: "int list \<Rightarrow> int \<Rightarrow> fault + int list" where
  "bubble_sort arr cnt =
     for_up 0 (cnt - 1) (\<lambda>index. for_up 0 (cnt - 1 - index) (\<lambda>jdex arr.
       swap_if_greater arr jdex (jdex + 1))) arr"

text \<open>
  The inner loop of the insertion, with a step of \<open>inc\<close>: the condition is \<open>jdex > 0 &&
  tmp < arr[jdex - inc]\<close>.
\<close>

function shift_down :: "int \<Rightarrow> int \<Rightarrow> int list \<Rightarrow> int \<Rightarrow> fault + int list" where
  "shift_down inc tmp arr jdex =
     (if 0 < jdex \<and> 0 < inc then
        bindE (aget arr (jdex - inc)) (\<lambda>x.
        if tmp < x then bindE (aset arr jdex x) (\<lambda>arr. shift_down inc tmp arr (jdex - inc))
        else aset arr jdex tmp)
      else aset arr jdex tmp)"
  by auto

termination
  by (relation "measure (\<lambda>(inc, tmp, arr, jdex). nat jdex)") auto

declare shift_down.simps [simp del]

definition insert_sort :: "int list \<Rightarrow> int \<Rightarrow> fault + int list" where
  "insert_sort arr cnt =
     for_up 1 cnt (\<lambda>index arr. bindE (aget arr index) (\<lambda>tmp. shift_down 1 tmp arr index)) arr"

section \<open>Shell sort\<close>

text \<open>\<open>for (int index = inc; index < cnt; index += inc)\<close>.\<close>

function shell_pass :: "int \<Rightarrow> int \<Rightarrow> int \<Rightarrow> int list \<Rightarrow> fault + int list" where
  "shell_pass inc cnt index arr =
     (if index < cnt \<and> 0 < inc then
        bindE (aget arr index) (\<lambda>tmp.
        bindE (shift_down inc tmp arr index) (\<lambda>arr.
        bindE (chk (index + inc)) (\<lambda>index. shell_pass inc cnt index arr)))
      else Inr arr)"
  by auto

termination
  by (relation "measure (\<lambda>(inc, cnt, index, arr). nat (cnt - index))") (auto simp: chk_Inr)

function shell_loop :: "int \<Rightarrow> int \<Rightarrow> int list \<Rightarrow> fault + int list" where
  "shell_loop inc cnt arr =
     (if 0 < inc then bindE (shell_pass inc cnt inc arr) (\<lambda>arr. shell_loop (inc div 2) cnt arr)
      else Inr arr)"
  by auto

termination
  by (relation "measure (\<lambda>(inc, cnt, arr). nat inc)") auto

declare shell_pass.simps [simp del] shell_loop.simps [simp del]

definition shell_sort :: "int list \<Rightarrow> int \<Rightarrow> fault + int list" where
  "shell_sort arr cnt = shell_loop (cnt sdiv 2) cnt arr"

section \<open>Quick sort\<close>

text \<open>The two scans, and the loop around them; it answers the array and where the scans met.\<close>

function scan_right :: "int list \<Rightarrow> int \<Rightarrow> int \<Rightarrow> int \<Rightarrow> fault + int" where
  "scan_right arr prvot lft rgt =
     (if lft < rgt then
        bindE (aget arr rgt) (\<lambda>x.
        if prvot \<le> x then scan_right arr prvot lft (rgt - 1) else Inr rgt)
      else Inr rgt)"
  by auto

termination
  by (relation "measure (\<lambda>(arr, prvot, lft, rgt). nat (rgt - lft))") auto

function scan_left :: "int list \<Rightarrow> int \<Rightarrow> int \<Rightarrow> int \<Rightarrow> fault + int" where
  "scan_left arr prvot lft rgt =
     (if lft < rgt then
        bindE (aget arr lft) (\<lambda>x.
        if x \<le> prvot then scan_left arr prvot (lft + 1) rgt else Inr lft)
      else Inr lft)"
  by auto

termination
  by (relation "measure (\<lambda>(arr, prvot, lft, rgt). nat (rgt - lft))") auto

declare scan_right.simps [simp del] scan_left.simps [simp del]

definition partition_round :: "int \<Rightarrow> int list \<Rightarrow> int \<Rightarrow> int \<Rightarrow> fault + (int list \<times> int \<times> int)" where
  "partition_round prvot arr lft rgt =
     bindE (scan_right arr prvot lft rgt) (\<lambda>rgt.
     bindE (if lft < rgt then bindE (aget arr rgt) (aset arr lft) else Inr arr) (\<lambda>arr.
     bindE (scan_left arr prvot lft rgt) (\<lambda>lft.
     bindE (if lft < rgt then bindE (aget arr lft) (aset arr rgt) else Inr arr) (\<lambda>arr.
     Inr (arr, lft, rgt)))))"


text \<open>Every round but a last one brings the scans closer together.\<close>

lemma scan_right_bounds:
  "scan_right arr p l r = Inr r' \<Longrightarrow> l \<le> r \<Longrightarrow> l \<le> r' \<and> r' \<le> r \<and> (l < r' \<longrightarrow> aget arr r' = Inr (arr ! nat r') \<and> arr ! nat r' < p)"
proof (induction arr p l r rule: scan_right.induct)
  case (1 arr p l r)
  show ?case
  proof (cases "l < r")
    case False
    then show ?thesis using "1.prems" by (subst (asm) scan_right.simps) simp
  next
    case True
    then obtain x where x: "aget arr r = Inr x"
      using "1.prems"(1) by (cases "aget arr r") (simp_all add: scan_right.simps [of arr p l r])
    show ?thesis
    proof (cases "p \<le> x")
      case True
      then show ?thesis using "1.IH" [OF \<open>l < r\<close> x True] "1.prems" x \<open>l < r\<close>
        by (auto simp: scan_right.simps [of arr p l r])
    next
      case False
      then show ?thesis using "1.prems" x \<open>l < r\<close>
        by (auto simp: scan_right.simps [of arr p l r] aget_Inr)
    qed
  qed
qed

lemma scan_left_bounds:
  "scan_left arr p l r = Inr l' \<Longrightarrow> l \<le> r \<Longrightarrow> l \<le> l' \<and> l' \<le> r"
proof (induction arr p l r rule: scan_left.induct)
  case (1 arr p l r)
  then show ?case
    by (cases "aget arr l") (auto simp: scan_left.simps [of arr p l r] split: if_splits)
qed

lemma scan_left_moves:
  "scan_left arr p l r = Inr l' \<Longrightarrow> l < r \<Longrightarrow> aget arr l = Inr x \<Longrightarrow> x \<le> p \<Longrightarrow> l < l'"
  using scan_left_bounds [of arr p "l + 1" r l'] by (simp add: scan_left.simps [of arr p l r])

lemma partition_round_closer:
  assumes "partition_round p arr l r = Inr (arr', l', r')" and "l < r"
  shows "l \<le> l' \<and> l' \<le> r' \<and> r' \<le> r \<and> r' - l' < r - l"
proof -
  obtain r1 where r1: "scan_right arr p l r = Inr r1"
    using assms by (cases "scan_right arr p l r") (simp_all add: partition_round_def)
  have b: "l \<le> r1" "r1 \<le> r" "l < r1 \<longrightarrow> aget arr r1 = Inr (arr ! nat r1) \<and> arr ! nat r1 < p"
    using scan_right_bounds [OF r1] assms(2) by auto
  show ?thesis
  proof (cases "l < r1")
    case False
    then have "scan_left a p l r1 = Inr l" for a by (simp add: scan_left.simps)
    then show ?thesis using assms r1 b False by (simp add: partition_round_def)
  next
    case True
    let ?x = "arr ! nat r1"
    obtain a1 where a1: "aset arr l ?x = Inr a1"
      using assms r1 b True by (cases "aset arr l ?x") (simp_all add: partition_round_def)
    then have l: "aget a1 l = Inr ?x" by (auto simp: aset_Inr aget_def)
    obtain l1 where l1: "scan_left a1 p l r1 = Inr l1"
      using assms r1 b True a1 by (cases "scan_left a1 p l r1") (simp_all add: partition_round_def)
    have "l < l1" using scan_left_moves [OF l1 True l] b(3) True by simp
    moreover have "l1 \<le> r1" using scan_left_bounds [OF l1] True by simp
    moreover have "l' = l1 \<and> r' = r1"
      using assms(1) r1 b True a1 l1
      by (cases "if l1 < r1 then bindE (aget a1 l1) (aset a1 r1) else Inr a1") (auto simp: partition_round_def)
    ultimately show ?thesis using b(2) by auto
  qed
qed

function partition_loop :: "int \<Rightarrow> int list \<Rightarrow> int \<Rightarrow> int \<Rightarrow> fault + (int list \<times> int \<times> int)" where
  "partition_loop prvot arr lft rgt =
     (if lft < rgt then
        bindE (partition_round prvot arr lft rgt) (\<lambda>(arr, lft, rgt).
        partition_loop prvot arr lft rgt)
      else Inr (arr, lft, rgt))"
  by auto

termination
  by (relation "measure (\<lambda>(prvot, arr, lft, rgt). nat (rgt - lft))")
    (auto dest: partition_round_closer)

declare partition_loop.simps [simp del]

lemma partition_loop_bounds:
  "partition_loop p arr l r = Inr (arr', l', r') \<Longrightarrow> l \<le> r \<Longrightarrow> l' = r' \<and> l \<le> l' \<and> l' \<le> r"
proof (induction p arr l r rule: partition_loop.induct)
  case (1 p arr l r)
  show ?case
  proof (cases "l < r")
    case False
    then show ?thesis using "1.prems" by (subst (asm) partition_loop.simps) simp
  next
    case True
    obtain a1 l1 r1 where x: "partition_round p arr l r = Inr (a1, l1, r1)"
      using "1.prems"(1) True
      by (cases "partition_round p arr l r") (auto simp: partition_loop.simps [of p arr l r])
    note c = partition_round_closer [OF x True]
    have "partition_loop p a1 l1 r1 = Inr (arr', l', r')"
      using "1.prems"(1) True x by (simp add: partition_loop.simps [of p arr l r])
    from "1.IH" [OF True x refl refl this] c show ?thesis by auto
  qed
qed

function quick_sort :: "int list \<Rightarrow> int \<Rightarrow> int \<Rightarrow> fault + int list" where
  "quick_sort arr lft rgt =
     (if rgt \<le> lft then Inr arr
      else
        bindE (aget arr lft) (\<lambda>prvot.
        bindE (partition_loop prvot arr lft rgt) (\<lambda>(arr, lft', rgt').
        bindE (if rgt' \<le> lft' then aset arr lft' prvot else Inr arr) (\<lambda>arr.
        bindE (quick_sort arr lft (rgt' - 1)) (\<lambda>arr.
        quick_sort arr (rgt' + 1) rgt)))))"
  by auto

termination
  by (relation "measure (\<lambda>(arr, lft, rgt). nat (rgt - lft + 1))")
    (auto dest!: partition_loop_bounds)

declare quick_sort.simps [simp del]

section \<open>Heap sort\<close>

definition larger_son :: "int list \<Rightarrow> int \<Rightarrow> int \<Rightarrow> int \<Rightarrow> fault + int" where
  "larger_son arr cnt largest son =
     (if son < cnt then
        bindE (aget arr largest) (\<lambda>x. bindE (aget arr son) (\<lambda>y.
        Inr (if x < y then son else largest)))
      else Inr largest)"

lemma larger_son_Inr:
  "larger_son arr cnt i j = Inr l \<Longrightarrow> l = i \<or> (l = j \<and> j < cnt \<and> 0 \<le> i \<and> 0 \<le> j)"
  by (auto simp: larger_son_def bindE_eq_Inr aget_Inr split: if_splits)

function heapify :: "int list \<Rightarrow> int \<Rightarrow> int \<Rightarrow> fault + int list" where
  "heapify arr cnt index =
     bindE (chk (2 * index + 1)) (\<lambda>left_son.
     bindE (chk (2 * index + 2)) (\<lambda>right_son.
     bindE (larger_son arr cnt index left_son) (\<lambda>largest.
     bindE (larger_son arr cnt largest right_son) (\<lambda>largest.
     if largest \<noteq> index then
       bindE (swap_at arr index largest) (\<lambda>arr. heapify arr cnt largest)
     else Inr arr))))"
  by auto

termination
proof (relation "measure (\<lambda>(arr, cnt, index). nat (cnt - index))", goal_cases)
  case (2 arr cnt index ls rs l1 l2 arr')
  from larger_son_Inr [OF 2(3)] larger_son_Inr [OF 2(4)] 2(1,2,5) have "index < l2 \<and> l2 < cnt"
    by (auto simp: chk_Inr)
  then show ?case by simp
qed simp

declare heapify.simps [simp del]

definition heap_sort :: "int list \<Rightarrow> int \<Rightarrow> fault + int list" where
  "heap_sort arr cnt =
     bindE (for_down (cnt sdiv 2 - 1) 0 (\<lambda>n arr. heapify arr cnt n) arr) (\<lambda>arr.
     for_down (cnt - 1) 1 (\<lambda>n arr.
       bindE (swap_at arr n 0) (\<lambda>arr. heapify arr n 0)) arr)"

section \<open>The sort of a vector, and the programs\<close>

text \<open>\<open>select_sort(std::vector<int>&)\<close>: the inner loop starts at 0.\<close>

definition select_sort_vector :: "int list \<Rightarrow> fault + int list" where
  "select_sort_vector vec =
     for_up 0 (int (length vec)) (\<lambda>index. for_up 0 (int (length vec)) (\<lambda>jdex vec.
       swap_if_greater vec index jdex)) vec"

definition bubble_sort_vector :: "int list \<Rightarrow> fault + int list" where
  "bubble_sort_vector vec = Inr vec"

definition print_arr :: "int list \<Rightarrow> int \<Rightarrow> fault + string" where
  "print_arr arr cnt =
     bindE (for_up 0 cnt (\<lambda>index cout. bindE (aget arr index) (\<lambda>x. Inr (cout @ show_sp x))) ''arr is: '')
       (\<lambda>cout. Inr (cout @ endl))"

definition test_arr :: "int list" where
  "test_arr = [5, 1, 2, 3, 4, 6]"

definition test_sort :: "(int list \<Rightarrow> fault + int list) \<Rightarrow> fault + string" where
  "test_sort srt = bindE (srt test_arr) (\<lambda>arr. print_arr arr 6)"

definition sort_main :: "fault + string" where
  "sort_main =
     bindE (test_sort (\<lambda>arr. select_sort arr 6)) (\<lambda>o1.
     bindE (test_sort (\<lambda>arr. bubble_sort arr 6)) (\<lambda>o2.
     bindE (test_sort (\<lambda>arr. insert_sort arr 6)) (\<lambda>o3.
     bindE (test_sort (\<lambda>arr. shell_sort arr 6)) (\<lambda>o4.
     bindE (test_sort (\<lambda>arr. quick_sort arr 0 5)) (\<lambda>o5.
     bindE (test_sort (\<lambda>arr. heap_sort arr 6)) (\<lambda>o6.
     Inr (o1 @ o2 @ o3 @ o4 @ o5 @ o6)))))))"

end
