(* ===== verification/SortProps.thy ===== *)
theory SortProps
  imports Sorting
begin

text \<open>
  The sorting routines of \<open>Sorting\<close> do not fault and sort: invariants of their loops over arrays as
  lists with positions in \<open>nat\<close>.
\<close>

section \<open>Positions as natural numbers\<close>

lemma for_up_nat:
  assumes "a \<le> n" and "P a s"
    and "\<And>i s. a \<le> i \<Longrightarrow> i < n \<Longrightarrow> P i s \<Longrightarrow> runs (body (int i) s) (P (Suc i))"
  shows "runs (for_up (int a) (int n) body s) (P n)"
proof -
  have "runs (for_up (int a) (int n) body s) ((\<lambda>i. P (nat i)) (int n))"
  proof (rule for_up_inv)
    fix i s assume i: "int a \<le> i" "i < int n" "P (nat i) s"
    then have "runs (body (int (nat i)) s) (P (Suc (nat i)))" by (intro assms(3)) auto
    then show "runs (body i s) (P (nat (i + 1)))" using i by (simp add: nat_add_distrib)
  qed (use assms in auto)
  then show ?thesis by simp
qed

lemma for_down_nat:
  assumes "P n s" and "\<And>i s. i < n \<Longrightarrow> P (Suc i) s \<Longrightarrow> runs (body (int i) s) (P i)"
  shows "runs (for_down (int n - 1) 0 body s) (P 0)"
proof -
  have "runs (for_down (int n - 1) 0 body s) ((\<lambda>i. P (nat (i + 1))) (0 - 1))"
  proof (rule for_down_inv)
    fix i s assume i: "0 \<le> i" "i \<le> int n - 1" "P (nat (i + 1)) s"
    have "runs (body (int (nat i)) s) (P (nat i))"
      using i by (intro assms(2)) (auto simp: nat_add_distrib)
    then show "runs (body i s) (P (nat (i - 1 + 1)))" using i by simp
  qed (use assms(1) in \<open>auto simp: nat_add_distrib\<close>)
  then show ?thesis by simp
qed

definition list_swap :: "'a list \<Rightarrow> nat \<Rightarrow> nat \<Rightarrow> 'a list" where
  "list_swap xs i j = xs[i := xs ! j, j := xs ! i]"

lemma swap_at_nat:
  "i < length xs \<Longrightarrow> j < length xs \<Longrightarrow> swap_at xs (int i) (int j) = Inr (list_swap xs i j)"
  by (simp add: swap_at_def list_swap_def)

lemma length_list_swap [simp]: "length (list_swap xs i j) = length xs"
  by (simp add: list_swap_def)

lemma mset_list_swap [simp]:
  "i < length xs \<Longrightarrow> j < length xs \<Longrightarrow> mset (list_swap xs i j) = mset xs"
  using mset_swap [of j xs i] by (simp add: list_swap_def)

lemma nth_list_swap:
  "i < length xs \<Longrightarrow> j < length xs \<Longrightarrow> k < length xs \<Longrightarrow>
   list_swap xs i j ! k = (if k = j then xs ! i else if k = i then xs ! j else xs ! k)"
  by (simp add: list_swap_def nth_list_update)

lemma swap_if_greater_nat:
  "i < length xs \<Longrightarrow> j < length xs \<Longrightarrow>
   swap_if_greater xs (int i) (int j) = Inr (if xs ! i > xs ! j then list_swap xs i j else xs)"
  by (simp add: swap_if_greater_def swap_at_nat)

text \<open>A list in which later elements are not smaller is sorted.\<close>

definition ordered :: "int list \<Rightarrow> bool" where
  "ordered ys \<longleftrightarrow> (\<forall>a b. a < b \<longrightarrow> b < length ys \<longrightarrow> ys ! a \<le> ys ! b)"

lemma ordered_sort: "ordered ys \<Longrightarrow> mset ys = mset xs \<Longrightarrow> sort xs = ys"
  by (rule properties_for_sort) (auto simp: ordered_def sorted_iff_nth_mono_less)

lemma runs_sort: "runs m (\<lambda>ys. ordered ys \<and> mset ys = mset xs) \<Longrightarrow> m = Inr (sort xs)"
  by (auto simp: runs_def dest: ordered_sort)

section \<open>Exchange sort\<close>

definition sel_inv :: "int list \<Rightarrow> nat \<Rightarrow> int list \<Rightarrow> bool" where
  "sel_inv xs i ys \<longleftrightarrow> length ys = length xs \<and> mset ys = mset xs \<and>
     (\<forall>a b. a < i \<longrightarrow> a < b \<longrightarrow> b < length xs \<longrightarrow> ys ! a \<le> ys ! b)"

lemma sel_inner:
  assumes "i < length xs" and "sel_inv xs i ys"
  shows "runs (for_up (int i + 1) (int (length xs)) (\<lambda>jdex arr. swap_if_greater arr (int i) jdex) ys)
     (sel_inv xs (Suc i))"
proof -
  let ?P = "\<lambda>j zs. sel_inv xs i zs \<and> (\<forall>b. i < b \<longrightarrow> b < j \<longrightarrow> zs ! i \<le> zs ! b)"
  have "runs (for_up (int (Suc i)) (int (length xs)) (\<lambda>jdex arr. swap_if_greater arr (int i) jdex) ys)
     (?P (length xs))"
  proof (rule for_up_nat)
    fix j zs assume "Suc i \<le> j" "j < length xs" "?P j zs"
    then show "runs (swap_if_greater zs (int i) (int j)) (?P (Suc j))"
      by (auto simp: sel_inv_def swap_if_greater_nat nth_list_swap less_Suc_eq)
  qed (use assms in auto)
  then show ?thesis
    by (simp add: add.commute) (erule runs_weaken, auto simp: sel_inv_def less_Suc_eq)
qed

lemma select_sort_sorts: "select_sort xs (int (length xs)) = Inr (sort xs)"
proof (rule runs_sort, cases "length xs = 0")
  case True
  then show "runs (select_sort xs (int (length xs))) (\<lambda>ys. ordered ys \<and> mset ys = mset xs)"
    by (simp add: select_sort_def for_up_empty ordered_def)
next
  case False
  let ?body = "\<lambda>index. for_up (index + 1) (int (length xs)) (\<lambda>jdex arr. swap_if_greater arr index jdex)"
  have "runs (for_up (int 0) (int (length xs - 1)) ?body xs) (sel_inv xs (length xs - 1))"
    by (rule for_up_nat) (auto simp: sel_inv_def [of xs 0] intro!: sel_inner)
  then show "runs (select_sort xs (int (length xs))) (\<lambda>ys. ordered ys \<and> mset ys = mset xs)"
    using False
    by (simp add: select_sort_def of_nat_diff) (erule runs_weaken, auto simp: sel_inv_def ordered_def)
qed

section \<open>Bubble sort\<close>

definition bub_inv :: "int list \<Rightarrow> nat \<Rightarrow> int list \<Rightarrow> bool" where
  "bub_inv xs k ys \<longleftrightarrow> length ys = length xs \<and> mset ys = mset xs \<and>
     (\<forall>a b. length xs - k \<le> b \<longrightarrow> a < b \<longrightarrow> b < length xs \<longrightarrow> ys ! a \<le> ys ! b)"

lemma bub_inner:
  assumes "k < length xs" and "bub_inv xs k ys"
  shows "runs (for_up 0 (int (length xs) - 1 - int k) (\<lambda>jdex arr. swap_if_greater arr jdex (jdex + 1)) ys)
     (bub_inv xs (Suc k))"
proof -
  let ?P = "\<lambda>j zs. bub_inv xs k zs \<and> (\<forall>a < j. zs ! a \<le> zs ! j)"
  have n: "int (length xs) - 1 - int k = int (length xs - Suc k)" using assms(1) by simp
  have "runs (for_up (int 0) (int (length xs - Suc k)) (\<lambda>jdex arr. swap_if_greater arr jdex (jdex + 1)) ys)
     (?P (length xs - Suc k))"
  proof (rule for_up_nat)
    fix j zs assume j: "j < length xs - Suc k" and P: "?P j zs"
    have step: "swap_if_greater zs (int j) (int j + 1) =
        Inr (if zs ! j > zs ! Suc j then list_swap zs j (Suc j) else zs)"
      using swap_if_greater_nat [of j zs "Suc j"] j P by (simp add: bub_inv_def add.commute)
    show "runs (swap_if_greater zs (int j) (int j + 1)) (?P (Suc j))"
      unfolding step using j P by (auto simp: bub_inv_def nth_list_swap less_Suc_eq)
  qed (use assms in auto)
  moreover have "?P (length xs - Suc k) zs \<Longrightarrow> bub_inv xs (Suc k) zs" for zs
  proof -
    assume P: "?P (length xs - Suc k) zs"
    have "zs ! a \<le> zs ! b" if "length xs - Suc k \<le> b" "a < b" "b < length xs" for a b
    proof (cases "b = length xs - Suc k")
      case False
      then have "length xs - k \<le> b" using that(1) by simp
      then show ?thesis using P that by (simp add: bub_inv_def)
    qed (use P that in simp)
    then show ?thesis using P by (simp add: bub_inv_def)
  qed
  ultimately show ?thesis unfolding n by (simp add: runs_weaken)
qed

lemma bubble_sort_sorts: "bubble_sort xs (int (length xs)) = Inr (sort xs)"
proof (rule runs_sort, cases "length xs = 0")
  case True
  then show "runs (bubble_sort xs (int (length xs))) (\<lambda>ys. ordered ys \<and> mset ys = mset xs)"
    by (simp add: bubble_sort_def for_up_empty ordered_def)
next
  case False
  let ?body = "\<lambda>index. for_up 0 (int (length xs) - 1 - index) (\<lambda>jdex arr. swap_if_greater arr jdex (jdex + 1))"
  have "runs (for_up (int 0) (int (length xs - 1)) ?body xs) (bub_inv xs (length xs - 1))"
    by (rule for_up_nat) (auto simp: bub_inv_def [of xs 0] intro!: bub_inner)
  moreover have "bub_inv xs (length xs - 1) ys \<Longrightarrow> ordered ys \<and> mset ys = mset xs" for ys
    by (auto simp: bub_inv_def ordered_def)
  ultimately show "runs (bubble_sort xs (int (length xs))) (\<lambda>ys. ordered ys \<and> mset ys = mset xs)"
    using False by (simp add: bubble_sort_def of_nat_diff runs_weaken)
qed

section \<open>The sort of a vector\<close>

text \<open>In the first pass the least element comes to the front; after that each pass inserts.\<close>

definition vec_inv :: "int list \<Rightarrow> nat \<Rightarrow> int list \<Rightarrow> bool" where
  "vec_inv xs i ys \<longleftrightarrow> length ys = length xs \<and> mset ys = mset xs \<and>
     (\<forall>a b. a < b \<longrightarrow> b < i \<longrightarrow> ys ! b \<le> ys ! a) \<and>
     (0 < i \<longrightarrow> (\<forall>b < length xs. ys ! (i - 1) \<le> ys ! b))"

definition vec_inner :: "int list \<Rightarrow> nat \<Rightarrow> nat \<Rightarrow> int list \<Rightarrow> bool" where
  "vec_inner xs i j ys \<longleftrightarrow> length ys = length xs \<and> mset ys = mset xs \<and>
     (\<forall>a b. a < b \<longrightarrow> b < i \<longrightarrow> ys ! b \<le> ys ! a) \<and> (\<forall>a < j. ys ! i \<le> ys ! a) \<and>
     (0 < i \<longrightarrow> (\<forall>b. i < b \<longrightarrow> b < length xs \<longrightarrow> (\<exists>a \<le> i. ys ! a \<le> ys ! b)))"

lemma vec_inner_step:
  assumes "i < length xs" "j < length xs" "vec_inner xs i j ys"
  shows "vec_inner xs i (Suc j) (if ys ! i > ys ! j then list_swap ys i j else ys)"
proof (cases "ys ! i > ys ! j")
  case False
  then show ?thesis using assms by (auto simp: vec_inner_def less_Suc_eq)
next
  case True
  have l: "length ys = length xs" and m: "mset ys = mset xs" using assms by (simp_all add: vec_inner_def)
  have ij: "i \<noteq> j" using True by auto
  have desc: "ys ! b \<le> ys ! a" if "a < b" "b < i" for a b
    using assms(3) that by (simp add: vec_inner_def)
  have low: "ys ! i \<le> ys ! a" if "a < j" for a using assms(3) that by (simp add: vec_inner_def)
  have nth: "list_swap ys i j ! k = (if k = j then ys ! i else if k = i then ys ! j else ys ! k)"
    if "k < length xs" for k
    using that assms(1,2) l by (simp add: nth_list_swap)
  have ex: "\<exists>a \<le> i. ys ! a \<le> ys ! b" if "0 < i" "i < b" "b < length xs" for b
    using assms(3) that by (simp add: vec_inner_def)
  let ?z = "list_swap ys i j"
  have "?z ! b \<le> ?z ! a" if "a < b" "b < i" for a b
    using that desc [of a b] low [of a] assms(1) True desc [of j b] ij
    by (auto simp: nth)
  moreover have "?z ! i \<le> ?z ! a" if "a < Suc j" for a
    using that low [of a] True assms(1,2) ij by (auto simp: nth less_Suc_eq)
  moreover have "\<exists>a \<le> i. ?z ! a \<le> ?z ! b" if h: "0 < i" "i < b" "b < length xs" for b
  proof (cases "j < i")
    case True
    obtain a where a: "a \<le> i" "ys ! a \<le> ys ! b"
      using ex [OF h] by blast
    then show ?thesis using h True assms(1,2)
      by (intro exI [of _ "if a = i then j else if a = j then i else a"]) (auto simp: nth)
  next
    case False
    obtain a where a: "a \<le> i" "ys ! a \<le> ys ! j"
      using ex [of j] h False ij assms(2) by auto
    then have "ys ! i \<le> ys ! j" using low [of a] False ij by force
    then show ?thesis using True by simp
  qed
  ultimately show ?thesis using l m True assms(1,2) by (simp add: vec_inner_def)
qed

lemma vec_inner_start: "vec_inv xs i ys \<Longrightarrow> i < length xs \<Longrightarrow> vec_inner xs i 0 ys"
  by (auto simp: vec_inv_def vec_inner_def intro!: exI [of _ "i - 1"])

lemma vec_inner_end:
  assumes "vec_inner xs i (length xs) ys" and "i < length xs" shows "vec_inv xs (Suc i) ys"
proof -
  have "ys ! i \<le> ys ! a" if "a < length xs" for a using assms(1) that by (simp add: vec_inner_def)
  then show ?thesis using assms by (auto simp: vec_inv_def vec_inner_def less_Suc_eq)
qed

lemma select_sort_vector_sorts: "select_sort_vector xs = Inr (rev (sort xs))"
proof -
  let ?n = "length xs"
  let ?body = "\<lambda>index. for_up 0 (int ?n) (\<lambda>jdex vec. swap_if_greater vec index jdex)"
  have "runs (for_up (int 0) (int ?n) ?body xs) (vec_inv xs ?n)"
  proof (rule for_up_nat)
    fix i ys assume i: "i < ?n" and inv: "vec_inv xs i ys"
    have "runs (for_up (int 0) (int ?n) (\<lambda>jdex vec. swap_if_greater vec (int i) jdex) ys) (vec_inner xs i ?n)"
    proof (rule for_up_nat)
      fix j zs assume "j < ?n" "vec_inner xs i j zs"
      then show "runs (swap_if_greater zs (int i) (int j)) (vec_inner xs i (Suc j))"
        using vec_inner_step [of i xs j zs] i
        by (simp add: swap_if_greater_nat vec_inner_def [of xs i j])
    qed (use i inv vec_inner_start in auto)
    then show "runs (?body (int i) ys) (vec_inv xs (Suc i))"
      using i by (auto elim!: runs_weaken intro: vec_inner_end)
  qed (simp_all add: vec_inv_def)
  then obtain ys where ys: "select_sort_vector xs = Inr ys" "vec_inv xs ?n ys"
    by (auto simp: select_sort_vector_def runs_def)
  have "sorted (rev ys)"
    using ys(2) by (auto simp: vec_inv_def sorted_iff_nth_mono_less rev_nth)
  then have "sort xs = rev ys" using ys(2) by (intro properties_for_sort) (simp_all add: vec_inv_def)
  then show ?thesis using ys(1) by simp
qed

text \<open>
  Insertion sort and shell sort do not fault and sort.
\<close>

section \<open>Insertion and shell sort\<close>

lemma mset_move:
  assumes "j < length ys" "k < length ys" "k \<noteq> j"
  shows "mset (ys[j := ys ! k, k := t]) = mset (ys[j := t])"
proof -
  have "ys[j := ys ! k, k := t] = list_swap (ys[j := t]) j k"
    using assms by (simp add: list_swap_def list_update_swap)
  then show ?thesis using assms by simp
qed

lemma shift_down_perm:
  assumes "0 < inc" "j < length ys" "inc dvd j"
  shows "runs (shift_down (int inc) t ys (int j)) (\<lambda>zs. length zs = length ys \<and> mset zs = mset (ys[j := t]))"
  using assms
proof (induction j arbitrary: ys rule: less_induct)
  case (less j)
  show ?case
  proof (cases "j = 0")
    case True
    then show ?thesis using less.prems aset_ok [of 0 ys] by (simp add: shift_down.simps)
  next
    case False
    then have k: "inc \<le> j" "j - inc < j" "inc dvd j - inc" "int j - int inc = int (j - inc)"
      using less.prems by (auto simp: dvd_imp_le)
    let ?x = "ys ! (j - inc)"
    have "runs (shift_down (int inc) t (ys[j := ?x]) (int (j - inc)))
        (\<lambda>zs. length zs = length ys \<and> mset zs = mset (ys[j := t]))"
    proof (rule runs_weaken)
      show "runs (shift_down (int inc) t (ys[j := ?x]) (int (j - inc)))
          (\<lambda>zs. length zs = length (ys[j := ?x]) \<and> mset zs = mset (ys[j := ?x, j - inc := t]))"
        using less.prems(1,2) k by (intro less.IH) auto
      show "length zs = length ys \<and> mset zs = mset (ys[j := t])"
        if "length zs = length (ys[j := ?x]) \<and> mset zs = mset (ys[j := ?x, j - inc := t])" for zs
        using that mset_move [of j ys "j - inc" t] less.prems k by simp
    qed
    moreover have "shift_down (int inc) t ys (int j) =
        (if t < ?x then shift_down (int inc) t (ys[j := ?x]) (int (j - inc)) else Inr (ys[j := t]))"
      using less.prems k(1) False
      by (subst shift_down.simps) (simp add: k(4) del: of_nat_diff)
    ultimately show ?thesis using less.prems by simp
  qed
qed

lemma shift_down_sorts:
  assumes "j < length ys" "sorted (take j ys)"
  shows "runs (shift_down 1 t ys (int j)) (\<lambda>zs. length zs = length ys \<and> mset zs = mset (ys[j := t]) \<and>
     sorted (take (Suc j) zs) \<and> drop (Suc j) zs = drop (Suc j) ys)"
  using assms
proof (induction j arbitrary: ys)
  case 0
  then show ?case using aset_ok [of 0 ys t]
    by (simp add: shift_down.simps take_Suc_conv_app_nth)
next
  case (Suc k)
  let ?x = "ys ! k"
  have pre: "take (Suc k) ys = take k ys @ [?x]" using Suc.prems(1) by (simp add: take_Suc_conv_app_nth)
  then have le: "sorted (take k ys)" "\<forall>y \<in> set (take k ys). y \<le> ?x"
    using Suc.prems(2) by (auto simp: sorted_append)
  show ?case
  proof (cases "t < ?x")
    case False
    have "sorted (take k ys @ [?x, t])"
      using le False by (auto simp: sorted_append)
    moreover have "take (Suc (Suc k)) (ys[Suc k := t]) = take k ys @ [?x, t]"
      using Suc.prems(1) by (simp add: take_Suc_conv_app_nth)
    ultimately show ?thesis using False Suc.prems(1)
      by (subst shift_down.simps) (simp add: aset_ok aget_ok nat_add_distrib)
  next
    case True
    let ?ys = "ys[Suc k := ?x]"
    obtain zs where zs: "shift_down 1 t ?ys (int k) = Inr zs" "length zs = length ys"
        "mset zs = mset (?ys[k := t])" "sorted (take (Suc k) zs)" "drop (Suc k) zs = drop (Suc k) ?ys"
      using Suc.IH [of ?ys] Suc.prems le(1) by (auto simp: runs_def)
    have k: "k < length ys" "Suc k < length ys" using Suc.prems(1) by simp_all
    have "mset (take (Suc k) zs) + mset (drop (Suc k) ?ys) = mset zs"
      using zs(5) by (metis append_take_drop_id mset_append)
    also have "\<dots> = mset (take k ys @ [t]) + mset (drop (Suc k) ?ys)"
      unfolding zs(3) using k by (simp add: upd_conv_take_nth_drop [of k])
    finally have "set (take (Suc k) zs) = set (take k ys @ [t])"
      by (metis add_right_cancel mset_eq_setD)
    moreover have d: "drop (Suc k) zs = ?x # drop (Suc (Suc k)) ys"
      using zs(5) k by (simp add: Cons_nth_drop_Suc [symmetric])
    then have n: "zs ! Suc k = ?x" "drop (Suc (Suc k)) zs = drop (Suc (Suc k)) ys"
      using k zs(2) by (simp_all add: Cons_nth_drop_Suc [symmetric])
    ultimately have "sorted (take (Suc (Suc k)) zs)"
      using zs(2,4) k le(2) True by (auto simp: take_Suc_conv_app_nth [of "Suc k"] sorted_append)
    moreover have "mset zs = mset (ys[Suc k := t])" using zs(3) k by (simp add: mset_move)
    ultimately show ?thesis
      using zs n k True by (subst shift_down.simps) (simp add: aset_ok aget_ok nat_add_distrib)
  qed
qed

text \<open>One round of the insertion sort.\<close>

definition ins_inv :: "int list \<Rightarrow> nat \<Rightarrow> int list \<Rightarrow> bool" where
  "ins_inv xs i ys \<longleftrightarrow> length ys = length xs \<and> mset ys = mset xs \<and> sorted (take i ys)"

lemma insert_round:
  assumes "i < length xs" "ins_inv xs i ys"
  shows "runs (bindE (aget ys (int i)) (\<lambda>tmp. shift_down 1 tmp ys (int i))) (ins_inv xs (Suc i))"
  using shift_down_sorts [of i ys "ys ! i"] assms by (auto simp: ins_inv_def runs_def)

lemma insert_sort_sorts: "insert_sort xs (int (length xs)) = Inr (sort xs)"
proof (cases "length xs = 0")
  case False
  have "runs (for_up (int 1) (int (length xs)) (\<lambda>index arr. bindE (aget arr index) (\<lambda>tmp. shift_down 1 tmp arr index)) xs)
     (ins_inv xs (length xs))"
  proof (rule for_up_nat)
    show "ins_inv xs 1 xs" using False by (cases xs) (auto simp: ins_inv_def)
  qed (use False insert_round in \<open>auto simp: Suc_le_eq\<close>)
  then show ?thesis
    by (auto simp: insert_sort_def runs_def ins_inv_def intro: properties_for_sort [symmetric])
qed (simp add: insert_sort_def for_up_empty)

lemma shell_pass_perm:
  assumes "0 < inc" "inc dvd i" "length ys + inc < 2 ^ 31"
  shows "runs (shell_pass (int inc) (int (length ys)) (int i) ys) (\<lambda>zs. length zs = length ys \<and> mset zs = mset ys)"
  using assms
proof (induction "length ys - i" arbitrary: i ys rule: less_induct)
  case less
  show ?case
  proof (cases "i < length ys")
    case False
    then show ?thesis by (simp add: shell_pass.simps)
  next
    case True
    obtain zs where zs: "shift_down (int inc) (ys ! i) ys (int i) = Inr zs" "length zs = length ys" "mset zs = mset ys"
      using shift_down_perm [of inc i ys "ys ! i"] True less.prems by (auto simp: runs_def)
    have "runs (shell_pass (int inc) (int (length zs)) (int (i + inc)) zs) (\<lambda>us. length us = length zs \<and> mset us = mset zs)"
      using True less.prems zs(2) by (intro less.hyps) auto
    moreover have "fits (int i + int inc)"
      using True less.prems(3) by (simp add: fits_def INT_MIN_def INT_MAX_def)
    ultimately show ?thesis using True less.prems zs
      by (subst shell_pass.simps) simp
  qed
qed

text \<open>With a step of 1 the pass is an insertion sort.\<close>

lemma shell_pass_one: "n < 2 ^ 31 \<Longrightarrow> 0 \<le> i \<Longrightarrow> shell_pass 1 n i ys = for_up i n (\<lambda>index arr. bindE (aget arr index) (\<lambda>tmp. shift_down 1 tmp arr index)) ys"
proof (induction "nat (n - i)" arbitrary: i ys rule: less_induct)
  case less
  have "fits (i + 1)" if "i < n" using that less.prems by (simp add: fits_def INT_MIN_def INT_MAX_def)
  then show ?case using less
    by (subst shell_pass.simps, subst for_up.simps)
      (cases "aget ys i"; cases "shift_down 1 (projr (aget ys i)) ys i"; simp)
qed

lemma shell_loop_sorts:
  assumes "0 < inc" "length xs + inc < 2 ^ 31" shows "shell_loop (int inc) (int (length xs)) xs = Inr (sort xs)"
  using assms
proof (induction inc arbitrary: xs rule: less_induct)
  case (less inc)
  show ?case
  proof (cases "inc = 1")
    case True
    have "shell_pass 1 (int (length xs)) 1 xs = Inr (sort xs)"
      using insert_sort_sorts [of xs] less.prems by (simp add: shell_pass_one insert_sort_def)
    then show ?thesis using True by (simp add: shell_loop.simps)
  next
    case False
    then have h: "0 < inc div 2" "inc div 2 < inc" using less.prems by auto
    obtain zs where zs: "shell_pass (int inc) (int (length xs)) (int inc) xs = Inr zs" "length zs = length xs"
        "mset zs = mset xs"
      using shell_pass_perm [of inc inc xs] less.prems by (auto simp: runs_def)
    have "sort zs = sort xs" using zs(3) by (metis mset_sort sorted_sort properties_for_sort)
    then show ?thesis
      using less.IH [OF h(2,1), of zs] zs less.prems
      by (subst shell_loop.simps) (simp add: zdiv_int)
  qed
qed

lemma sdiv2_nat: "int n sdiv 2 = int (n div 2)"
  by (cases "n = 0") (simp_all add: signed_divide_int_def zdiv_int)

lemma shell_sort_sorts:
  assumes "length xs < 2 ^ 30" shows "shell_sort xs (int (length xs)) = Inr (sort xs)"
proof (cases "length xs < 2")
  case True
  then consider "xs = []" | x where "xs = [x]" by (cases xs; cases "tl xs") auto
  then show ?thesis by cases (simp_all add: shell_sort_def shell_loop.simps signed_divide_int_def)
next
  case False
  then show ?thesis using shell_loop_sorts [of "length xs div 2" xs] assms
    by (simp add: shell_sort_def sdiv2_nat)
qed

end
