(* ===== verification/QuickProps.thy ===== *)
theory QuickProps
  imports SortProps
begin

text \<open>
  Quick sort does not fault and sorts: the loop of the partition keeps one position free, the hole
  at the left scan, and moves elements across it.
\<close>

section \<open>Changes within a part of an array\<close>

definition in_bounds :: "int \<Rightarrow> int \<Rightarrow> int list \<Rightarrow> int list \<Rightarrow> bool" where
  "in_bounds l r a b \<longleftrightarrow> length b = length a \<and> mset b = mset a \<and>
     (\<forall>k. 0 \<le> k \<longrightarrow> k < int (length a) \<longrightarrow> k < l \<or> r < k \<longrightarrow> b ! nat k = a ! nat k)"

definition sorted_in :: "int \<Rightarrow> int \<Rightarrow> int list \<Rightarrow> bool" where
  "sorted_in l r a \<longleftrightarrow> (\<forall>i j. l \<le> i \<longrightarrow> i < j \<longrightarrow> j \<le> r \<longrightarrow> a ! nat i \<le> a ! nat j)"

definition all_in :: "(int \<Rightarrow> bool) \<Rightarrow> int \<Rightarrow> int \<Rightarrow> int list \<Rightarrow> bool" where
  "all_in P l r a \<longleftrightarrow> (\<forall>k. l \<le> k \<longrightarrow> k \<le> r \<longrightarrow> P (a ! nat k))"

lemma in_bounds_refl [simp]: "in_bounds l r a a"
  by (simp add: in_bounds_def)

lemma in_bounds_trans: "in_bounds l r a b \<Longrightarrow> in_bounds l r b c \<Longrightarrow> in_bounds l r a c"
  by (simp add: in_bounds_def)

lemma in_bounds_widen: "in_bounds l r a b \<Longrightarrow> l' \<le> l \<Longrightarrow> r \<le> r' \<Longrightarrow> in_bounds l' r' a b"
  by (auto simp: in_bounds_def)

text \<open>A change within a part permutes it, so what holds of all its elements stays true.\<close>

lemma in_bounds_all_in:
  assumes w: "in_bounds l r a b" and b: "0 \<le> l" "r < int (length a)" and all: "all_in P l r a"
  shows "all_in P l r b"
proof (cases "l \<le> r")
  case False
  then show ?thesis by (simp add: all_in_def)
next
  case True
  let ?l = "nat l" and ?h = "nat (r + 1)"
  have len: "length b = length a" "?l \<le> ?h" "?h \<le> length a"
    using w b True by (auto simp: in_bounds_def)
  have out: "b ! k = a ! k" if "k < length a" "k < ?l \<or> ?h \<le> k" for k
    using w that b by (auto simp: in_bounds_def dest: spec [of _ "int k"])
  have same: "take ?l b = take ?l a" "drop ?h b = drop ?h a"
    using len out by (auto intro!: nth_equalityI)
  have parts: "mset (take ?l x) + mset (take (?h - ?l) (drop ?l x)) + mset (drop ?h x) = mset x" for x :: "int list"
  proof -
    have "take ?l x @ take (?h - ?l) (drop ?l x) @ drop ?h x = x"
      using len(2) by (metis append_take_drop_id drop_drop le_add_diff_inverse2)
    then show ?thesis by (metis add.assoc mset_append)
  qed
  have "mset (take (?h - ?l) (drop ?l b)) = mset (take (?h - ?l) (drop ?l a))"
  proof -
    have "mset (take ?l a) + mset (take (?h - ?l) (drop ?l b)) + mset (drop ?h a) = mset a"
      using parts [of b] w unfolding same by (simp add: in_bounds_def)
    from this [folded parts [of a]] show ?thesis by simp
  qed
  then have s: "set (take (?h - ?l) (drop ?l b)) = set (take (?h - ?l) (drop ?l a))"
    by (rule mset_eq_setD)
  have mem: "set (take (?h - ?l) (drop ?l x)) = {x ! k |k. ?l \<le> k \<and> k < ?h}" if "length x = length a" for x :: "int list"
  proof (intro set_eqI iffI)
    fix y assume "y \<in> set (take (?h - ?l) (drop ?l x))"
    then obtain i where "i < length (take (?h - ?l) (drop ?l x))" "take (?h - ?l) (drop ?l x) ! i = y"
      unfolding in_set_conv_nth by blast
    then have "?l \<le> ?l + i" "?l + i < ?h" "y = x ! (?l + i)" using that len
      by (simp_all add: less_diff_conv add.commute)
    then show "y \<in> {x ! k |k. ?l \<le> k \<and> k < ?h}" by blast
  next
    fix y assume "y \<in> {x ! k |k. ?l \<le> k \<and> k < ?h}"
    then obtain k where k: "?l \<le> k" "k < ?h" "y = x ! k" by auto
    have "k - ?l < length (take (?h - ?l) (drop ?l x))" using k that len by simp
    moreover have "take (?h - ?l) (drop ?l x) ! (k - ?l) = x ! k" using k that len by simp
    ultimately show "y \<in> set (take (?h - ?l) (drop ?l x))" using k(3) nth_mem by metis
  qed
  show ?thesis unfolding all_in_def
  proof (intro allI impI)
    fix k assume k: "l \<le> k" "k \<le> r"
    then have "b ! nat k \<in> {b ! k |k. ?l \<le> k \<and> k < ?h}" using b by auto
    then have "b ! nat k \<in> {a ! k |k. ?l \<le> k \<and> k < ?h}"
      using s unfolding mem [OF refl] mem [OF len(1)] by simp
    then obtain j where j: "?l \<le> j" "j < ?h" "b ! nat k = a ! j" by blast
    then show "P (b ! nat k)"
      using all b by (auto simp: all_in_def dest: spec [of _ "int j"])
  qed
qed

section \<open>The scans\<close>

lemma scan_right_runs:
  assumes "0 \<le> l" "l \<le> r" "r < int (length a)"
  shows "runs (scan_right a p l r) (\<lambda>r'. l \<le> r' \<and> r' \<le> r \<and> all_in ((\<le>) p) (r' + 1) r a \<and>
     (l < r' \<longrightarrow> a ! nat r' < p))"
  using assms
proof (induction a p l r rule: scan_right.induct)
  case (1 a p l r)
  show ?case
  proof (cases "l < r \<and> p \<le> a ! nat r")
    case False
    then show ?thesis using "1.prems"
      by (subst scan_right.simps) (auto simp: aget_ok all_in_def)
  next
    case True
    have get: "aget a r = Inr (a ! nat r)" using "1.prems" True by (simp add: aget_ok)
    have "runs (scan_right a p l (r - 1)) (\<lambda>r'. l \<le> r' \<and> r' \<le> r - 1 \<and> all_in ((\<le>) p) (r' + 1) (r - 1) a \<and>
        (l < r' \<longrightarrow> a ! nat r' < p))"
      using "1.prems" True get by (intro "1.IH") auto
    then have "runs (scan_right a p l (r - 1)) (\<lambda>r'. l \<le> r' \<and> r' \<le> r \<and> all_in ((\<le>) p) (r' + 1) r a \<and>
        (l < r' \<longrightarrow> a ! nat r' < p))"
    proof (rule runs_weaken, goal_cases)
      case (1 r')
      have "p \<le> a ! nat k" if "r' + 1 \<le> k" "k \<le> r" for k
        using 1 that True by (cases "k = r") (auto simp: all_in_def)
      then show ?case using 1 by (auto simp: all_in_def)
    qed
    then show ?thesis using True get by (simp add: scan_right.simps [of a p l r])
  qed
qed

lemma scan_left_runs:
  assumes "0 \<le> l" "l \<le> r" "r < int (length a)"
  shows "runs (scan_left a p l r) (\<lambda>l'. l \<le> l' \<and> l' \<le> r \<and> all_in (\<lambda>x. x \<le> p) l (l' - 1) a \<and>
     (l' < r \<longrightarrow> p < a ! nat l'))"
  using assms
proof (induction a p l r rule: scan_left.induct)
  case (1 a p l r)
  show ?case
  proof (cases "l < r \<and> a ! nat l \<le> p")
    case False
    then show ?thesis using "1.prems"
      by (subst scan_left.simps) (auto simp: aget_ok all_in_def)
  next
    case True
    have get: "aget a l = Inr (a ! nat l)" using "1.prems" True by (simp add: aget_ok)
    have "runs (scan_left a p (l + 1) r) (\<lambda>l'. l + 1 \<le> l' \<and> l' \<le> r \<and> all_in (\<lambda>x. x \<le> p) (l + 1) (l' - 1) a \<and>
        (l' < r \<longrightarrow> p < a ! nat l'))"
      using "1.prems" True get by (intro "1.IH") auto
    then have "runs (scan_left a p (l + 1) r) (\<lambda>l'. l \<le> l' \<and> l' \<le> r \<and> all_in (\<lambda>x. x \<le> p) l (l' - 1) a \<and>
        (l' < r \<longrightarrow> p < a ! nat l'))"
    proof (rule runs_weaken, goal_cases)
      case (1 l')
      have "a ! nat k \<le> p" if "l \<le> k" "k \<le> l' - 1" for k
        using 1 that True by (cases "k = l") (auto simp: all_in_def)
      then show ?case using 1 by (auto simp: all_in_def)
    qed
    then show ?thesis using True get by (simp add: scan_left.simps [of a p l r])
  qed
qed

section \<open>The partition\<close>

text \<open>
  \<open>a0\<close> is the part's array before the loop, whose bounds are \<open>l0\<close> and \<open>r0\<close>: the value of the hole
  at \<open>l\<close> is the only one out of place, and \<open>p\<close> is missing.
\<close>

definition hole_inv :: "int list \<Rightarrow> int \<Rightarrow> int \<Rightarrow> int \<Rightarrow> int list \<times> int \<times> int \<Rightarrow> bool" where
  "hole_inv a0 p l0 r0 = (\<lambda>(a, l, r). l0 \<le> l \<and> l \<le> r \<and> r \<le> r0 \<and>
     in_bounds l0 r0 a0 (a[nat l := p]) \<and> all_in (\<lambda>x. x \<le> p) l0 (l - 1) a \<and> all_in ((\<le>) p) (r + 1) r0 a)"

lemma hole_move:
  assumes "in_bounds l0 r0 a0 (a[nat i := p])" "0 \<le> l0" "r0 < int (length a0)"
    and "l0 \<le> i" "i \<le> r0" "l0 \<le> j" "j \<le> r0" "i \<noteq> j"
  shows "in_bounds l0 r0 a0 (a[nat i := a ! nat j, nat j := p])"
proof -
  have len: "length a = length a0" using assms(1) by (simp add: in_bounds_def)
  have "mset (a[nat i := a ! nat j, nat j := p]) = mset (a[nat i := p])"
    using assms len by (intro mset_move) auto
  moreover have "a[nat i := a ! nat j, nat j := p] ! nat k = a[nat i := p] ! nat k"
    if "0 \<le> k" "k < l0 \<or> r0 < k" for k
    using that assms by (auto simp: nth_list_update)
  ultimately show ?thesis using assms(1) by (auto simp: in_bounds_def)
qed

lemma all_in_upd: "k < l \<or> r < k \<Longrightarrow> 0 \<le> l \<Longrightarrow> 0 \<le> k \<Longrightarrow> all_in P l r (a[nat k := x]) = all_in P l r a"
  by (auto simp: all_in_def nth_list_update)

lemma all_in_split: "all_in P l m a \<Longrightarrow> all_in P (m + 1) r a \<Longrightarrow> all_in P l r a"
  by (auto simp: all_in_def)

lemma partition_round_runs:
  assumes inv: "hole_inv a0 p l0 r0 (a, l, r)" and b: "l < r" "0 \<le> l0" "r0 < int (length a0)"
  shows "runs (partition_round p a l r) (hole_inv a0 p l0 r0)"
proof -
  have len: "length a = length a0" using inv by (simp add: hole_inv_def in_bounds_def)
  note h = inv [unfolded hole_inv_def prod.case]
  obtain r1 where r1: "scan_right a p l r = Inr r1" "l \<le> r1" "r1 \<le> r" "all_in ((\<le>) p) (r1 + 1) r a"
      "l < r1 \<longrightarrow> a ! nat r1 < p"
    using scan_right_runs [of l r a p] h b len by (auto simp: runs_def)
  have hi: "all_in ((\<le>) p) (r1 + 1) r0 a" using all_in_split [OF r1(4)] h by simp
  show ?thesis
  proof (cases "l < r1")
    case False
    then have "scan_left a p l r1 = Inr l" by (simp add: scan_left.simps)
    then show ?thesis using False r1 h hi by (simp add: partition_round_def hole_inv_def)
  next
    case True
    let ?a = "a[nat l := a ! nat r1]"
    have get: "aget a r1 = Inr (a ! nat r1)" "aset a l (a ! nat r1) = Inr ?a"
      using True r1 h b len by (auto intro: aget_ok aset_ok)
    obtain l1 where l1: "scan_left ?a p l r1 = Inr l1" "l \<le> l1" "l1 \<le> r1" "all_in (\<lambda>x. x \<le> p) l (l1 - 1) ?a"
        "l1 < r1 \<longrightarrow> p < ?a ! nat l1"
      using scan_left_runs [of l r1 ?a p] h b len r1 True by (auto simp: runs_def)
    have w: "in_bounds l0 r0 a0 (?a[nat r1 := p])"
      using h b r1 True by (intro hole_move) auto
    have "all_in (\<lambda>x. x \<le> p) l0 (l - 1) ?a" using h b by (simp add: all_in_upd)
    then have lo: "all_in (\<lambda>x. x \<le> p) l0 (l1 - 1) ?a" using all_in_split [of _ l0 "l - 1"] l1(4) by simp
    have hi': "all_in ((\<le>) p) (r1 + 1) r0 ?a" using hi h b True by (simp add: all_in_upd)
    show ?thesis
    proof (cases "l1 < r1")
      case False
      then have "l1 = r1" using l1 by simp
      then show ?thesis using True get r1 l1 w lo hi' h by (simp add: partition_round_def hole_inv_def)
    next
      case l1r1: True
      let ?b = "?a[nat r1 := ?a ! nat l1]"
      have get': "aget ?a l1 = Inr (?a ! nat l1)" "aset ?a r1 (?a ! nat l1) = Inr ?b"
        using l1 r1 h b len by (auto intro!: aget_ok aset_ok)
      have "in_bounds l0 r0 a0 (?b[nat l1 := p])"
        using w h b r1 l1 l1r1 by (intro hole_move) auto
      moreover have "all_in (\<lambda>x. x \<le> p) l0 (l1 - 1) ?b" "all_in ((\<le>) p) (r1 + 1) r0 ?b"
        using lo hi' h b r1 l1 l1r1 by (simp_all add: all_in_upd)
      ultimately show ?thesis using True l1r1 get get' r1 l1 h by (simp add: partition_round_def hole_inv_def)
    qed
  qed
qed

lemma partition_loop_runs:
  assumes "hole_inv a0 p l0 r0 (a, l, r)" "0 \<le> l0" "r0 < int (length a0)"
  shows "runs (partition_loop p a l r) (\<lambda>(a', l', r'). l' = r' \<and> hole_inv a0 p l0 r0 (a', l', r'))"
  using assms
proof (induction p a l r rule: partition_loop.induct)
  case (1 p a l r)
  show ?case
  proof (cases "l < r")
    case False
    then have "l = r" using "1.prems"(1) by (simp add: hole_inv_def)
    then show ?thesis using "1.prems" by (subst partition_loop.simps) simp
  next
    case True
    obtain a1 l1 r1 where x: "partition_round p a l r = Inr (a1, l1, r1)" "hole_inv a0 p l0 r0 (a1, l1, r1)"
      using partition_round_runs [OF "1.prems"(1) True "1.prems"(2,3)] by (auto simp: runs_def)
    from "1.IH" [OF True x(1) refl refl x(2) "1.prems"(2,3)] True x(1) show ?thesis
      by (simp add: partition_loop.simps [of p a l r])
  qed
qed

lemma quick_sort_runs:
  assumes "0 \<le> l" "r < int (length a)"
  shows "runs (quick_sort a l r) (\<lambda>b. in_bounds l r a b \<and> sorted_in l r b)"
  using assms
proof (induction "nat (r - l + 1)" arbitrary: a l r rule: less_induct)
  case less
  show ?case
  proof (cases "r \<le> l")
    case True
    then show ?thesis by (subst quick_sort.simps) (simp add: sorted_in_def)
  next
    case False
    let ?p = "a ! nat l"
    have "hole_inv a ?p l r (a, l, r)" using less.prems False by (simp add: hole_inv_def all_in_def)
    from partition_loop_runs [OF this] less.prems
    obtain a1 m where m: "partition_loop ?p a l r = Inr (a1, m, m)" "hole_inv a ?p l r (a1, m, m)"
      by (auto simp: runs_def)
    let ?a = "a1[nat m := ?p]"
    have h: "l \<le> m" "m \<le> r" "in_bounds l r a ?a" "all_in (\<lambda>x. x \<le> ?p) l (m - 1) a1" "all_in ((\<le>) ?p) (m + 1) r a1"
      using m(2) by (simp_all add: hole_inv_def)
    have len: "length a1 = length a" using h(3) by (simp add: in_bounds_def)
    have lo: "all_in (\<lambda>x. x \<le> ?p) l (m - 1) ?a" and hi: "all_in ((\<le>) ?p) (m + 1) r ?a"
      using h less.prems by (simp_all add: all_in_upd)
    have mid: "?a ! nat m = ?p" using h less.prems len by simp
    obtain b where b: "quick_sort ?a l (m - 1) = Inr b" "in_bounds l (m - 1) ?a b" "sorted_in l (m - 1) b"
      using less.hyps [of "m - 1" l ?a] less.prems h len by (auto simp: runs_def)
    have lenb: "length b = length a" using b(2) len by (simp add: in_bounds_def)
    obtain c where c: "quick_sort b (m + 1) r = Inr c" "in_bounds (m + 1) r b c" "sorted_in (m + 1) r c"
      using less.hyps [of r "m + 1" b] less.prems h len lenb by (auto simp: runs_def)
    have same: "c ! nat k = b ! nat k" if "l \<le> k" "k \<le> m" for k
      using c(2) that less.prems h lenb by (simp add: in_bounds_def)
    have "all_in (\<lambda>x. x \<le> ?p) l (m - 1) b"
      using in_bounds_all_in [OF b(2) _ _ lo] less.prems h len by simp
    then have loc: "c ! nat k \<le> ?p" if "l \<le> k" "k < m" for k
      using same [of k] that by (simp add: all_in_def)
    have "b ! nat k = ?a ! nat k" if "m \<le> k" "k \<le> r" for k
      using b(2) that less.prems h len by (simp add: in_bounds_def)
    then have midc: "c ! nat m = ?p" and "all_in ((\<le>) ?p) (m + 1) r b"
      using same [of m] mid hi h by (simp_all add: all_in_def)
    then have "all_in ((\<le>) ?p) (m + 1) r c"
      using in_bounds_all_in [OF c(2)] less.prems h lenb by simp
    then have hic: "?p \<le> c ! nat k" if "m < k" "k \<le> r" for k using that by (simp add: all_in_def)
    have "sorted_in l r c" unfolding sorted_in_def
    proof (intro allI impI)
      fix i j assume ij: "l \<le> i" "i < j" "j \<le> r"
      consider "j < m" | "i \<le> m" "m \<le> j" | "m < i" by linarith
      then show "c ! nat i \<le> c ! nat j"
      proof cases
        case 1
        then show ?thesis using b(3) ij same [of i] same [of j] by (simp add: sorted_in_def)
      next
        case 2
        then have "c ! nat i \<le> ?p" using loc [of i] midc ij by (cases "i = m") auto
        moreover have "?p \<le> c ! nat j" using hic [of j] midc ij 2 by (cases "j = m") auto
        ultimately show ?thesis by simp
      next
        case 3
        then show ?thesis using c(3) ij by (simp add: sorted_in_def)
      qed
    qed
    moreover have "in_bounds l r a c"
      using h b(2) c(2) by (meson order_refl in_bounds_trans in_bounds_widen zle_add1_eq_le less_add_one order_trans less_imp_le diff_ge_0_iff_ge zle_diff1_eq)
    moreover have "aget a l = Inr ?p" "aset a1 m ?p = Inr ?a"
      using less.prems False h len by (simp_all add: aget_ok aset_ok)
    ultimately show ?thesis using False m(1) b(1) c(1)
      by (subst quick_sort.simps) simp
  qed
qed

lemma quick_sort_sorts: "quick_sort xs 0 (int (length xs) - 1) = Inr (sort xs)"
proof (rule runs_sort, rule runs_weaken)
  show "runs (quick_sort xs 0 (int (length xs) - 1))
     (\<lambda>b. in_bounds 0 (int (length xs) - 1) xs b \<and> sorted_in 0 (int (length xs) - 1) b)"
    by (rule quick_sort_runs) auto
  fix b assume b: "in_bounds 0 (int (length xs) - 1) xs b \<and> sorted_in 0 (int (length xs) - 1) b"
  have "b ! i \<le> b ! j" if "i < j" "j < length b" for i j
    using b that unfolding sorted_in_def in_bounds_def by (metis nat_int of_nat_0_le_iff of_nat_less_iff zle_diff1_eq)
  then show "ordered b \<and> mset b = mset xs" using b by (simp add: ordered_def in_bounds_def)
qed


end
