(* ===== verification/HeapProps.thy ===== *)
theory HeapProps
  imports QuickProps
begin

text \<open>
  Heap sort does not fault and sorts: \<open>heapify\<close> restores the heap order below a position, and the
  root of a heap is its largest element.
\<close>

section \<open>Heaps\<close>

definition child :: "nat \<Rightarrow> nat \<Rightarrow> bool" where
  "child i c \<longleftrightarrow> c = 2 * i + 1 \<or> c = 2 * i + 2"

lemma child_unique: "child p c \<Longrightarrow> child q c \<Longrightarrow> p = q"
  unfolding child_def by presburger

lemma child_greater: "child p c \<Longrightarrow> p < c"
  by (auto simp: child_def)

text \<open>The order holds at all positions from \<open>s\<close> on; \<open>heap_except\<close>: but for position \<open>i\<close>.\<close>

definition heap_from :: "nat \<Rightarrow> nat \<Rightarrow> int list \<Rightarrow> bool" where
  "heap_from s n a \<longleftrightarrow> (\<forall>j c. s \<le> j \<longrightarrow> child j c \<longrightarrow> c < n \<longrightarrow> a ! c \<le> a ! j)"

definition heap_except :: "nat \<Rightarrow> nat \<Rightarrow> nat \<Rightarrow> int list \<Rightarrow> bool" where
  "heap_except s n i a \<longleftrightarrow>
     (\<forall>j c. s \<le> j \<longrightarrow> j \<noteq> i \<longrightarrow> child j c \<longrightarrow> c < n \<longrightarrow> a ! c \<le> a ! j) \<and>
     (\<forall>p c. s \<le> p \<longrightarrow> child p i \<longrightarrow> child i c \<longrightarrow> c < n \<longrightarrow> a ! c \<le> a ! p)"

lemma heap_root_max: "heap_from 0 n a \<Longrightarrow> k < n \<Longrightarrow> a ! k \<le> a ! 0"
proof (induction k rule: less_induct)
  case (less k)
  show ?case
  proof (cases k)
    case 0
    then show ?thesis by simp
  next
    case (Suc m)
    have c: "child (m div 2) k" unfolding child_def Suc by presburger
    then have "a ! k \<le> a ! (m div 2)" using less.prems by (simp add: heap_from_def)
    also have "\<dots> \<le> a ! 0" using less Suc c child_greater by fastforce
    finally show ?thesis .
  qed
qed

lemma heap_swap:
  assumes h: "heap_except s n i a" and i: "s \<le> i" "child i l" "l < n" "n \<le> length a"
    and l: "a ! i < a ! l" "\<And>c. child i c \<Longrightarrow> c < n \<Longrightarrow> a ! c \<le> a ! l"
  shows "heap_except s n l (list_swap a i l)"
proof -
  let ?b = "list_swap a i l"
  have il: "i < l" using child_greater [OF i(2)] .
  have b: "?b ! k = (if k = l then a ! i else if k = i then a ! l else a ! k)" if "k < n" for k
    using that i il by (simp add: nth_list_swap)
  have "?b ! c \<le> ?b ! j" if j: "s \<le> j" "j \<noteq> l" "child j c" "c < n" for j c
  proof (cases "j = i")
    case True
    then show ?thesis using j l i il child_greater [OF j(3)] by (auto simp: b)
  next
    case False
    have "c \<noteq> l" using child_unique [OF j(3), of i] i(2) False by auto
    moreover have "a ! c \<le> a ! j" if "c \<noteq> i" using h j False by (auto simp: heap_except_def)
    moreover have "a ! l \<le> a ! j" if "c = i" using h j that i by (auto simp: heap_except_def)
    ultimately show ?thesis using j False child_greater [OF j(3)] by (auto simp: b)
  qed
  moreover have "?b ! c \<le> ?b ! p" if p: "s \<le> p" "child p l" "child l c" "c < n" for p c
  proof -
    have "p = i" using child_unique [OF p(2) i(2)] .
    moreover have "a ! c \<le> a ! l" using h p i il by (auto simp: heap_except_def)
    ultimately show ?thesis using p il i child_greater [OF p(3)] by (auto simp: b)
  qed
  ultimately show ?thesis by (auto simp: heap_except_def)
qed

lemma larger_son_nat:
  "i < n \<Longrightarrow> n \<le> length a \<Longrightarrow>
   larger_son a (int n) (int i) (int c) = Inr (int (if c < n \<and> a ! i < a ! c then c else i))"
  by (simp add: larger_son_def)

definition largest_of :: "int list \<Rightarrow> nat \<Rightarrow> nat \<Rightarrow> nat" where
  "largest_of a n i = (let l = (if 2 * i + 1 < n \<and> a ! i < a ! (2 * i + 1) then 2 * i + 1 else i)
     in if 2 * i + 2 < n \<and> a ! l < a ! (2 * i + 2) then 2 * i + 2 else l)"

lemma largest_of:
  assumes "i < n" shows "largest_of a n i < n" "largest_of a n i = i \<or> child i (largest_of a n i) \<and> a ! i < a ! largest_of a n i"
    "a ! i \<le> a ! largest_of a n i" "child i c \<Longrightarrow> c < n \<Longrightarrow> a ! c \<le> a ! largest_of a n i"
  using assms by (auto simp: largest_of_def Let_def child_def)

lemma heapify_nat:
  assumes "i < n" "n \<le> length a" "n < 2 ^ 30"
  shows "heapify a (int n) (int i) =
     (if largest_of a n i = i then Inr a
      else heapify (list_swap a i (largest_of a n i)) (int n) (int (largest_of a n i)))"
proof -
  let ?l = "if 2 * i + 1 < n \<and> a ! i < a ! (2 * i + 1) then 2 * i + 1 else i"
  have "larger_son a (int n) (int i) (2 * int i + 1) = Inr (int ?l)"
    using larger_son_nat [OF assms(1,2), of "2 * i + 1"] by (simp add: add.commute)
  moreover have "larger_son a (int n) (int l) (2 * int i + 2) =
      Inr (int (if 2 * i + 2 < n \<and> a ! l < a ! (2 * i + 2) then 2 * i + 2 else l))" if "l < n" for l
    using larger_son_nat [OF that assms(2), of "2 * i + 2"] by (simp add: add.commute)
  then have "larger_son a (int n) (int ?l) (2 * int i + 2) = Inr (int (largest_of a n i))"
    unfolding largest_of_def Let_def using assms(1) by presburger
  moreover have "swap_at a (int i) (int (largest_of a n i)) = Inr (list_swap a i (largest_of a n i))"
    using assms largest_of(1) [OF assms(1), where a = a] by (intro swap_at_nat) auto
  moreover have "fits (2 * int i + 1)" "fits (2 * int i + 2)"
    using assms by (simp_all add: fits_def INT_MIN_def INT_MAX_def)
  ultimately show ?thesis by (subst heapify.simps) simp
qed

lemma heapify_runs:
  assumes "heap_except s n i a" "s \<le> i" "i < n" "n \<le> length a" "n < 2 ^ 30"
  shows "runs (heapify a (int n) (int i)) (\<lambda>b. heap_from s n b \<and> in_bounds 0 (int n - 1) a b)"
  using assms
proof (induction "n - i" arbitrary: a i rule: less_induct)
  case less
  let ?l = "largest_of a n i"
  note l = largest_of [OF less.prems(3), where a = a]
  show ?case
  proof (cases "?l = i")
    case True
    have "a ! c \<le> a ! j" if "s \<le> j" "child j c" "c < n" for j c
      using that less.prems(1) l(4) [of c] True by (cases "j = i") (auto simp: heap_except_def)
    then show ?thesis using True less.prems by (simp add: heapify_nat heap_from_def)
  next
    case False
    then have c: "child i ?l" "a ! i < a ! ?l" using l(2) by auto
    have sw: "heap_except s n ?l (list_swap a i ?l)"
      using less.prems c l by (intro heap_swap) auto
    have "runs (heapify (list_swap a i ?l) (int n) (int ?l))
        (\<lambda>b. heap_from s n b \<and> in_bounds 0 (int n - 1) (list_swap a i ?l) b)"
      using less.prems sw l(1) child_greater [OF c(1)] by (intro less.hyps) auto
    moreover have "in_bounds 0 (int n - 1) a (list_swap a i ?l)"
      using less.prems l(1) by (auto simp: in_bounds_def nth_list_swap)
    ultimately show ?thesis using False less.prems
      by (auto simp: heapify_nat elim!: runs_weaken intro: in_bounds_trans)
  qed
qed

section \<open>The sort\<close>

lemma build_heap:
  assumes "length xs < 2 ^ 30"
  shows "runs (for_down (int (length xs div 2) - 1) 0 (\<lambda>n arr. heapify arr (int (length xs)) n) xs)
     (\<lambda>a. heap_from 0 (length xs) a \<and> in_bounds 0 (int (length xs) - 1) xs a)"
proof (rule for_down_nat)
  show "heap_from (length xs div 2) (length xs) xs \<and> in_bounds 0 (int (length xs) - 1) xs xs"
    by (auto simp: heap_from_def child_def)
  fix i a assume i: "i < length xs div 2"
    and P: "heap_from (Suc i) (length xs) a \<and> in_bounds 0 (int (length xs) - 1) xs a"
  then have "heap_except i (length xs) i a"
    by (auto simp: heap_from_def heap_except_def dest: child_greater)
  then show "runs (heapify a (int (length xs)) (int i))
      (\<lambda>b. heap_from i (length xs) b \<and> in_bounds 0 (int (length xs) - 1) xs b)"
    using heapify_runs [of i "length xs" i a] i P assms
    by (auto elim!: runs_weaken intro: in_bounds_trans simp: in_bounds_def)
qed

definition heap_inv :: "int list \<Rightarrow> nat \<Rightarrow> int list \<Rightarrow> bool" where
  "heap_inv xs m a \<longleftrightarrow> length a = length xs \<and> mset a = mset xs \<and> heap_from 0 m a \<and>
     (\<forall>i j. i < j \<longrightarrow> m \<le> j \<longrightarrow> j < length xs \<longrightarrow> a ! i \<le> a ! j)"

lemma heap_round:
  assumes inv: "heap_inv xs (Suc n) a" and n: "0 < n" "n < length xs" and bound: "length xs < 2 ^ 30"
  shows "runs (bindE (swap_at a (int n) 0) (\<lambda>arr. heapify arr (int n) 0)) (heap_inv xs n)"
proof -
  let ?b = "list_swap a n 0"
  have len: "length a = length xs" using inv by (simp add: heap_inv_def)
  have b: "?b ! k = (if k = 0 then a ! n else if k = n then a ! 0 else a ! k)" if "k < length xs" for k
    using that n len by (simp add: nth_list_swap del: length_greater_0_conv)
  have ex: "heap_except 0 n 0 ?b"
    unfolding heap_except_def
  proof (intro conjI allI impI)
    fix j c assume "0 \<le> j" "j \<noteq> 0" "child j c" "c < n"
    then show "?b ! c \<le> ?b ! j"
      using inv n child_greater [of j c] by (auto simp: heap_inv_def heap_from_def b)
  qed (auto dest: child_greater)
  then obtain c where c: "heapify ?b (int n) (int 0) = Inr c" "heap_from 0 n c" "in_bounds 0 (int n - 1) ?b c"
    using heapify_runs [OF ex] n len bound by (auto simp: runs_def)
  have fix_c: "c ! k = ?b ! k" if "n \<le> k" "k < length xs" for k
    using c(3) that len by (auto simp: in_bounds_def dest: spec [of _ "int k"])
  have "a ! k \<le> a ! 0" if "k < Suc n" for k using heap_root_max [of "Suc n" a k] inv that by (simp add: heap_inv_def)
  then have top: "a ! k \<le> a ! j" if "k < Suc n" "j = 0 \<or> n < j" "j < length xs" for k j
    using inv that by (auto simp: heap_inv_def)
  have le: "c ! k \<le> a ! j" if k: "k < n" and j: "j = 0 \<or> n < j" "j < length xs" for k j
  proof -
    have "all_in (\<lambda>x. x \<le> a ! j) 0 (int n - 1) ?b"
      using top [of _ j] j n by (auto simp: all_in_def b)
    from in_bounds_all_in [OF c(3) _ _ this] n len k show ?thesis by (auto simp: all_in_def dest: spec [of _ "int k"])
  qed
  have ne: "xs \<noteq> []" using n by auto
  have "c ! i \<le> c ! j" if ij: "i < j" "n \<le> j" "j < length xs" for i j
  proof (cases "i < n")
    case True
    then show ?thesis using ij n le [OF True, of "if j = n then 0 else j"] ne by (auto simp: fix_c b)
  next
    case False
    then show ?thesis using ij n top [of 0 j] inv by (auto simp: fix_c b heap_inv_def)
  qed
  then have "heap_inv xs n c"
    using c inv n len mset_list_swap [of n a 0] ne by (simp add: heap_inv_def in_bounds_def)
  then show ?thesis using c(1) swap_at_nat [of n a 0] n len ne by simp
qed

lemma heap_sort_sorts:
  assumes "length xs < 2 ^ 30" shows "heap_sort xs (int (length xs)) = Inr (sort xs)"
proof (cases "xs = []")
  case True
  then show ?thesis by (simp add: heap_sort_def for_down.simps)
next
  case False
  obtain a where a: "for_down (int (length xs div 2) - 1) 0 (\<lambda>n arr. heapify arr (int (length xs)) n) xs = Inr a"
      "heap_inv xs (length xs) a"
    using build_heap [OF assms] by (auto simp: runs_def heap_inv_def in_bounds_def)
  have "runs (for_down (int (length xs) - 1) 1 (\<lambda>n arr. bindE (swap_at arr n 0) (\<lambda>arr. heapify arr n 0)) a)
      ((\<lambda>i. heap_inv xs (nat (i + 1))) (1 - 1))"
  proof (rule for_down_inv)
    fix i b assume i: "1 \<le> i" "i \<le> int (length xs) - 1" "heap_inv xs (nat (i + 1)) b"
    then have "heap_inv xs (Suc (nat i)) b" by (simp add: nat_add_distrib)
    then show "runs (bindE (swap_at b i 0) (\<lambda>arr. heapify arr i 0)) (\<lambda>c. heap_inv xs (nat (i - 1 + 1)) c)"
      using heap_round [of xs "nat i" b] i assms by simp
  qed (use a False in simp_all)
  then have "runs (for_down (int (length xs) - 1) 1 (\<lambda>n arr. bindE (swap_at arr n 0) (\<lambda>arr. heapify arr n 0)) a)
      (\<lambda>b. ordered b \<and> mset b = mset xs)"
    by (rule runs_weaken) (auto simp: heap_inv_def ordered_def)
  then show ?thesis
    using a(1) by (auto intro!: runs_sort simp: heap_sort_def sdiv2_nat)
qed

end
