(* ===== verification/SortClaims.thy ===== *)
theory SortClaims
  imports HeapProps
begin

text \<open>
  The contract of a sorting routine, its six implementations in \<^verbatim>\<open>sort.cpp\<close>, and the properties
  of the program.
\<close>

section \<open>The contract\<close>

text \<open>A routine that gets an array and its length leaves the array sorted, without a fault, when all its
  indices fit into an \<open>int\<close>: below \<open>2 ^ 30\<close> elements.\<close>

locale sorting_routine =
  fixes srt :: "int list \<Rightarrow> int \<Rightarrow> fault + int list"
  assumes sorts: "length xs < 2 ^ 30 \<Longrightarrow> srt xs (int (length xs)) = Inr (sort xs)"
begin

lemma permutes: "length xs < 2 ^ 30 \<Longrightarrow> runs (srt xs (int (length xs))) (\<lambda>ys. mset ys = mset xs \<and> sorted ys)"
  by (simp add: sorts)

lemma again: "length xs < 2 ^ 30 \<Longrightarrow> bindE (srt xs (int (length xs))) (\<lambda>ys. srt ys (int (length ys))) = srt xs (int (length xs))"
  using sorts [of "sort xs"] by (simp add: sorts sorted_sort_id)

lemma order_free:
  assumes "length xs < 2 ^ 30" and "mset xs = mset ys"
  shows "srt xs (int (length xs)) = srt ys (int (length ys))"
proof -
  have "sort xs = sort ys" using assms(2) by (metis mset_sort properties_for_sort sorted_sort)
  moreover have "length ys < 2 ^ 30" using assms mset_eq_length [of xs ys] by simp
  ultimately show ?thesis using sorts [of xs] sorts [of ys] assms(1) by simp
qed

lemma test_output: "test_sort (\<lambda>arr. srt arr 6) = Inr (''arr is: 1 2 3 4 5 6 '' @ endl)"
proof -
  have "srt test_arr 6 = Inr [1, 2, 3, 4, 5, 6]"
    using sorts [of test_arr] by (simp add: test_arr_def)
  then show ?thesis
    by (simp add: test_sort_def print_arr_def for_up.simps aget_def show_simps)
qed

end

interpretation selection: sorting_routine select_sort
  by unfold_locales (rule select_sort_sorts)

interpretation bubble: sorting_routine bubble_sort
  by unfold_locales (rule bubble_sort_sorts)

interpretation insertion: sorting_routine insert_sort
  by unfold_locales (rule insert_sort_sorts)

interpretation shell: sorting_routine shell_sort
  by unfold_locales (rule shell_sort_sorts)

interpretation heap: sorting_routine heap_sort
  by unfold_locales (rule heap_sort_sorts)

interpretation quick: sorting_routine "\<lambda>arr cnt. quick_sort arr 0 (cnt - 1)"
  by unfold_locales (rule quick_sort_sorts)

section \<open>Properties\<close>

text \<open>
  C16: every array of fewer than \<open>2 ^ 30\<close> elements, sorted by any of the six routines, ends as the same
  array: the sorted one; no index leaves the array, and none overflows. The bound is that of the indices
  of heap sort and shell sort, which go up to twice the length.
\<close>

theorem sorting_routines_agree:
  assumes "length xs < 2 ^ 30"
  shows "select_sort xs (int (length xs)) = Inr (sort xs) \<and>
   bubble_sort xs (int (length xs)) = Inr (sort xs) \<and>
   insert_sort xs (int (length xs)) = Inr (sort xs) \<and>
   shell_sort xs (int (length xs)) = Inr (sort xs) \<and>
   quick_sort xs 0 (int (length xs) - 1) = Inr (sort xs) \<and>
   heap_sort xs (int (length xs)) = Inr (sort xs)"
  using assms by (simp only: selection.sorts bubble.sorts insertion.sorts shell.sorts quick.sorts heap.sorts simp_thms)

theorem sorting_routines_agree_witness:
  "heap_sort [3, 1, 2] 3 = Inr [1, 2, 3] \<and> shell_sort [3, 1, 2] 3 = Inr [1, 2, 3]"
  using sorting_routines_agree [of "[3, 1, 2]"] by simp

text \<open>
  quick sort on a part of an array: it does not fault, permutes the part into order, and leaves
  every other element where it was.
\<close>

theorem quick_sort_part:
  assumes "0 \<le> l" "r < int (length arr)"
  shows "\<exists>b. quick_sort arr l r = Inr b \<and> mset b = mset arr \<and> length b = length arr \<and>
     (\<forall>k. 0 \<le> k \<longrightarrow> k < int (length arr) \<longrightarrow> k < l \<or> r < k \<longrightarrow> b ! nat k = arr ! nat k) \<and>
     (\<forall>i j. l \<le> i \<longrightarrow> i < j \<longrightarrow> j \<le> r \<longrightarrow> b ! nat i \<le> b ! nat j)"
  using quick_sort_runs [OF assms] by (auto simp: runs_def in_bounds_def sorted_in_def)

theorem quick_sort_part_witness: "\<exists>b. quick_sort [3, 2, 1, 0] 1 2 = Inr b \<and> b ! 1 \<le> b ! 2 \<and> b ! 0 = 3"
proof -
  obtain b where b: "quick_sort [3, 2, 1, 0] 1 2 = Inr b"
      "\<forall>k. 0 \<le> k \<longrightarrow> k < int (length [3, 2, 1, 0 :: int]) \<longrightarrow> k < 1 \<or> 2 < k \<longrightarrow> b ! nat k = [3, 2, 1, 0] ! nat k"
      "\<forall>i j. 1 \<le> i \<longrightarrow> i < j \<longrightarrow> j \<le> 2 \<longrightarrow> b ! nat i \<le> b ! nat j"
    using quick_sort_part [of 1 2 "[3, 2, 1, 0]"] by auto
  then show ?thesis using spec [OF b(2), of 0] spec [OF spec [OF b(3), of 1], of 2] by simp
qed

text \<open>
  the sort of a vector, whose inner loop starts at 0, leaves the elements in descending order.
\<close>

theorem vector_sort_descends: "select_sort_vector vec = Inr (rev (sort vec))"
  by (rule select_sort_vector_sorts)

text \<open>
  the program prints the sorted array six times.\<close>

theorem sort_main_output: "sort_main = Inr (concat (replicate 6 (''arr is: 1 2 3 4 5 6 '' @ endl)))"
proof -
  have "test_sort (\<lambda>arr. quick_sort arr 0 5) = Inr (''arr is: 1 2 3 4 5 6 '' @ endl)"
    using quick.test_output by simp
  then show ?thesis
    by (simp add: sort_main_def selection.test_output bubble.test_output insertion.test_output
        shell.test_output heap.test_output numeral_eq_Suc)
qed

end
