(* ===== verification/CppHeap.thy ===== *)
theory CppHeap
  imports CppBase
begin

text \<open>
  What the pointer programs in C++ share: a store of nodes with \<open>new\<close> and \<open>delete\<close>, the output
  written so far, and loops that may not end, with a rule that shows a loop ends and a rule that
  shows it never does.
\<close>

section \<open>The store\<close>

text \<open>
  \<open>fresh\<close> is the next address \<open>new\<close> answers. An address that was deleted is not handed out again,
  so that a use of it is seen as such.
\<close>

record 'n mem =
  cells :: "ptr \<rightharpoonup> 'n"
  fresh :: ptr
  cout :: string

definition empty_mem :: "'n mem" where
  "empty_mem = \<lparr>cells = Map.empty, fresh = 1, cout = []\<rparr>"

definition load :: "'n mem \<Rightarrow> ptr \<Rightarrow> fault + 'n" where
  "load m p = (if p = 0 then Inl NullDeref else
     case cells m p of None \<Rightarrow> Inl BadPointer | Some n \<Rightarrow> Inr n)"

definition modify :: "'n mem \<Rightarrow> ptr \<Rightarrow> ('n \<Rightarrow> 'n) \<Rightarrow> fault + 'n mem" where
  "modify m p f = bindE (load m p) (\<lambda>n. Inr (m\<lparr>cells := (cells m)(p \<mapsto> f n)\<rparr>))"

definition new_node :: "'n mem \<Rightarrow> 'n \<Rightarrow> ptr \<times> 'n mem" where
  "new_node m n = (fresh m, m\<lparr>cells := (cells m)(fresh m \<mapsto> n), fresh := Suc (fresh m)\<rparr>)"

text \<open>\<open>delete\<close> of a null pointer does nothing; of an address that is not live it is undefined.\<close>

definition delete_node :: "'n mem \<Rightarrow> ptr \<Rightarrow> fault + 'n mem" where
  "delete_node m p = (if p = 0 then Inr m else
     bindE (load m p) (\<lambda>_. Inr (m\<lparr>cells := (cells m)(p := None)\<rparr>)))"

definition print :: "'n mem \<Rightarrow> string \<Rightarrow> 'n mem" where
  "print m s = m\<lparr>cout := cout m @ s\<rparr>"

text \<open>Every live address lies below \<open>fresh\<close>, and none is null.\<close>

definition wf_mem :: "'n mem \<Rightarrow> bool" where
  "wf_mem m \<longleftrightarrow> 0 < fresh m \<and> (\<forall>p n. cells m p = Some n \<longrightarrow> 0 < p \<and> p < fresh m)"

lemma wf_empty_mem [simp]: "wf_mem empty_mem"
  by (simp add: wf_mem_def empty_mem_def)

lemma wf_fresh: "wf_mem m \<Longrightarrow> cells m (fresh m) = None"
  by (metis less_irrefl not_None_eq wf_mem_def)

lemma wf_fresh_pos [simp]: "wf_mem m \<Longrightarrow> fresh m \<noteq> 0"
  by (simp add: wf_mem_def)

lemma wf_fresh_gt [simp]: "wf_mem m \<Longrightarrow> 0 < fresh m"
  by (simp add: wf_mem_def)

lemma load_ok: "p \<noteq> 0 \<Longrightarrow> cells m p = Some n \<Longrightarrow> load m p = Inr n"
  by (simp add: load_def)

lemma load_null [simp]: "load m 0 = Inl NullDeref"
  by (simp add: load_def)

lemma modify_ok:
  "p \<noteq> 0 \<Longrightarrow> cells m p = Some n \<Longrightarrow> modify m p f = Inr (m\<lparr>cells := (cells m)(p \<mapsto> f n)\<rparr>)"
  by (simp add: modify_def load_ok)

lemma delete_ok:
  "p \<noteq> 0 \<Longrightarrow> cells m p = Some n \<Longrightarrow> delete_node m p = Inr (m\<lparr>cells := (cells m)(p := None)\<rparr>)"
  by (simp add: delete_node_def load_ok)

lemma print_fields [simp]:
  "cells (print m s) = cells m" "fresh (print m s) = fresh m" "cout (print m s) = cout m @ s"
  by (simp_all add: print_def)

lemma load_print [simp]: "load (print m s) = load m"
  by (simp add: load_def fun_eq_iff)

lemma print_print [simp]: "print (print m s) t = print m (s @ t)"
  by (simp add: print_def)

lemma print_Nil [simp]: "print m [] = m"
  by (simp add: print_def)

lemma wf_print [simp]: "wf_mem (print m s) = wf_mem m"
  by (simp add: wf_mem_def)

lemma wf_upd: "wf_mem m \<Longrightarrow> cells m p \<noteq> None \<Longrightarrow> wf_mem (m\<lparr>cells := (cells m)(p \<mapsto> n)\<rparr>)"
  by (auto simp: wf_mem_def)

lemma wf_del: "wf_mem m \<Longrightarrow> wf_mem (m\<lparr>cells := (cells m)(p := None)\<rparr>)"
  by (auto simp: wf_mem_def)

lemma wf_new: "wf_mem m \<Longrightarrow> wf_mem (m\<lparr>cells := (cells m)(fresh m \<mapsto> n), fresh := Suc (fresh m)\<rparr>)"
  by (auto simp: wf_mem_def less_Suc_eq)

section \<open>Loops that may not end\<close>

text \<open>\<open>endsM m Q\<close>: the computation ends without a fault, in a value with \<open>Q\<close>.\<close>

definition endsM :: "'a may \<Rightarrow> ('a \<Rightarrow> bool) \<Rightarrow> bool" where
  "endsM m Q \<longleftrightarrow> (\<exists>x. m = retM x \<and> Q x)"

lemma endsM_ret [simp]: "endsM (retM x) Q \<longleftrightarrow> Q x"
  by (simp add: endsM_def)

lemma endsM_bind: "endsM m R \<Longrightarrow> (\<And>x. R x \<Longrightarrow> endsM (f x) Q) \<Longrightarrow> endsM (bindM m f) Q"
  by (auto simp: endsM_def)

lemma endsM_weaken: "endsM m R \<Longrightarrow> (\<And>x. R x \<Longrightarrow> Q x) \<Longrightarrow> endsM m Q"
  by (auto simp: endsM_def)

text \<open>\<open>while (c) b\<close>; evaluating the condition may fault.\<close>

partial_function (option) while_may :: "('s \<Rightarrow> fault + bool) \<Rightarrow> ('s \<Rightarrow> 's may) \<Rightarrow> 's \<Rightarrow> 's may" where
  "while_may c b s =
     bindM (Some (c s)) (\<lambda>t. if t then bindM (b s) (\<lambda>s'. while_may c b s') else retM s)"

declare while_may.simps [code]

lemma while_stop: "c s = Inr False \<Longrightarrow> while_may c b s = retM s"
  by (subst while_may.simps) simp

lemma while_step: "c s = Inr True \<Longrightarrow> while_may c b s = bindM (b s) (while_may c b)"
  by (subst while_may.simps) simp

lemma while_fault: "c s = Inl e \<Longrightarrow> while_may c b s = Some (Inl e)"
  by (subst while_may.simps) simp

text \<open>The loop ends when a measure falls in every round.\<close>

lemma while_ends:
  assumes inv: "I s"
    and cond: "\<And>s. I s \<Longrightarrow> c s = Inr True \<or> c s = Inr False \<and> Q s"
    and step: "\<And>s. I s \<Longrightarrow> c s = Inr True \<Longrightarrow> endsM (b s) (\<lambda>s'. I s' \<and> f s' < (f s :: nat))"
  shows "endsM (while_may c b s) Q"
  using inv
proof (induction "f s" arbitrary: s rule: less_induct)
  case less
  from cond [OF less.prems] show ?case
  proof (elim disjE conjE)
    assume "c s = Inr False" "Q s"
    then show ?thesis by (simp add: while_stop)
  next
    assume c: "c s = Inr True"
    then show ?thesis
      using step [OF less.prems c] less.hyps by (auto simp: while_step endsM_def)
  qed
qed

text \<open>It never ends when an invariant keeps the condition true.\<close>

lemma while_never:
  assumes "I s" and step: "\<And>s. I s \<Longrightarrow> c s = Inr True \<and> endsM (b s) I"
  shows "while_may c b s = None"
proof -
  have "c' = c \<longrightarrow> b' = b \<longrightarrow> \<not> I s'" if "while_may c' b' s' = Some r" for c' b' s' r
    using that
  proof (induction c' b' s' r rule: while_may.raw_induct [rotated, consumes 1, case_names step])
    case (step wh c' b' s' r)
    show ?case
    proof (intro impI notI)
      assume eq: "c' = c" "b' = b" and "I s'"
      then obtain s'' where s: "c s' = Inr True" "b s' = retM s''" "I s''"
        using assms(2) by (auto simp: endsM_def)
      then have "wh c b s'' = Some r" using step(2) eq by simp
      then show False using step(1) s(3) by blast
    qed
  qed
  then show ?thesis using assms(1) by (cases "while_may c b s") auto
qed

end
