(* ===== verification/BinTree.thy ===== *)
theory BinTree
  imports CppHeap
begin

text \<open>
  The binary trees of \<^verbatim>\<open>tree.cpp\<close>: the nodes, the recursive and the iterative traversals, the
  class \<open>BinaryTree\<close>, the balanced insertion and the programs that use them. A tree is what a
  pointer reaches in the store; the classes are their \<open>root_\<close> next to the store.
\<close>

section \<open>Nodes and depth\<close>

record tree_node_child_sibling =
  cs_value :: int
  cs_child :: ptr
  cs_sibling :: ptr

record bt_node =
  val :: int
  lft :: ptr
  rgt :: ptr

type_synonym bt_mem = "bt_node mem"

definition new_bt :: "bt_mem \<Rightarrow> int \<Rightarrow> ptr \<times> bt_mem" where
  "new_bt m vl = new_node m \<lparr>val = vl, lft = 0, rgt = 0\<rparr>"

definition max_int :: "int \<Rightarrow> int \<Rightarrow> int" where
  "max_int first second = (if first > second then first else second)"

partial_function (option) tree_deepth :: "bt_mem \<Rightarrow> ptr \<Rightarrow> int may" where
  "tree_deepth m node =
     (if node = 0 then retM 0
      else
        bindM (Some (load m node)) (\<lambda>n.
        bindM (tree_deepth m (lft n)) (\<lambda>dl.
        bindM (tree_deepth m (rgt n)) (\<lambda>dr.
        retM (max_int dl dr + 1)))))"

text \<open>The conjunction stops at the first operand that is false.\<close>

partial_function (option) is_balance :: "bt_mem \<Rightarrow> ptr \<Rightarrow> bool may" where
  "is_balance m node =
     (if node = 0 then retM True
      else
        bindM (Some (load m node)) (\<lambda>n.
        bindM (is_balance m (lft n)) (\<lambda>bl.
        if \<not> bl then retM False
        else
          bindM (is_balance m (rgt n)) (\<lambda>br.
          if \<not> br then retM False
          else
            bindM (tree_deepth m (lft n)) (\<lambda>dl.
            bindM (tree_deepth m (rgt n)) (\<lambda>dr.
            retM (abs (dl - dr) < 2)))))))"

section \<open>Recursive traversals\<close>

partial_function (option) preorder :: "bt_mem \<Rightarrow> ptr \<Rightarrow> bt_mem may" where
  "preorder m node =
     (if node = 0 then retM m
      else
        bindM (Some (load m node)) (\<lambda>n.
        bindM (preorder (print m (show_sp (val n))) (lft n)) (\<lambda>m.
        preorder m (rgt n))))"

partial_function (option) inorder :: "bt_mem \<Rightarrow> ptr \<Rightarrow> bt_mem may" where
  "inorder m node =
     (if node = 0 then retM m
      else
        bindM (Some (load m node)) (\<lambda>n.
        bindM (inorder m (lft n)) (\<lambda>m.
        inorder (print m (show_sp (val n))) (rgt n))))"

partial_function (option) postorder :: "bt_mem \<Rightarrow> ptr \<Rightarrow> bt_mem may" where
  "postorder m node =
     (if node = 0 then retM m
      else
        bindM (Some (load m node)) (\<lambda>n.
        bindM (postorder m (lft n)) (\<lambda>m.
        bindM (postorder m (rgt n)) (\<lambda>m.
        retM (print m (show_sp (val n)))))))"

section \<open>Traversals with a stack\<close>

text \<open>A \<open>std::stack\<close> is a list, its top first; \<open>stack_top\<close> of an empty stack is undefined.\<close>

definition stack_top :: "ptr list \<Rightarrow> fault + ptr" where
  "stack_top st = (case st of [] \<Rightarrow> Inl OutOfBounds | p # _ \<Rightarrow> Inr p)"

definition more :: "ptr \<Rightarrow> ptr list \<Rightarrow> fault + bool" where
  "more node st = Inr (node \<noteq> 0 \<or> st \<noteq> [])"

text \<open>\<open>node && node->left\<close>: the left son, or 0.\<close>

definition left_son_of :: "bt_mem \<Rightarrow> ptr \<Rightarrow> fault + ptr" where
  "left_son_of m node = (if node = 0 then Inr 0 else bindE (load m node) (\<lambda>n. Inr (lft n)))"

definition preorder_round :: "ptr \<times> ptr list \<times> bt_mem \<Rightarrow> fault + (ptr \<times> ptr list \<times> bt_mem)" where
  "preorder_round = (\<lambda>(node, st, m).
     bindE (if node \<noteq> 0 then bindE (load m node) (\<lambda>n. Inr (node # st, print m (show_sp (val n))))
            else Inr (st, m)) (\<lambda>(st, m).
     bindE (left_son_of m node) (\<lambda>son.
     if son \<noteq> 0 then Inr (son, st, m)
     else
       bindE (stack_top st) (\<lambda>back.
       bindE (load m back) (\<lambda>n.
       Inr (rgt n, tl st, m))))))"

definition preorder_stack :: "bt_mem \<Rightarrow> ptr \<Rightarrow> bt_mem may" where
  "preorder_stack m node =
     bindM (while_may (\<lambda>(node, st, m). more node st) (\<lambda>s. Some (preorder_round s)) (node, [], m))
       (\<lambda>(node, st, m). retM m)"

definition inorder_round :: "ptr \<times> ptr list \<times> bt_mem \<Rightarrow> fault + (ptr \<times> ptr list \<times> bt_mem)" where
  "inorder_round = (\<lambda>(node, st, m).
     let st = (if node \<noteq> 0 then node # st else st) in
     bindE (left_son_of m node) (\<lambda>son.
     if son \<noteq> 0 then Inr (son, st, m)
     else
       bindE (stack_top st) (\<lambda>back.
       bindE (load m back) (\<lambda>n.
       Inr (rgt n, tl st, print m (show_sp (val n)))))))"

definition inorder_stack :: "bt_mem \<Rightarrow> ptr \<Rightarrow> bt_mem may" where
  "inorder_stack m node =
     bindM (while_may (\<lambda>(node, st, m). more node st) (\<lambda>s. Some (inorder_round s)) (node, [], m))
       (\<lambda>(node, st, m). retM (print m endl))"

text \<open>
  The inner loop of the postorder traversal: as long as \<open>back\<close> is marked, its marks are removed
  and the saved node on top is written and takes its place.
\<close>

function unwind :: "ptr \<Rightarrow> ptr list \<Rightarrow> ptr list \<Rightarrow> bt_mem \<Rightarrow> fault + (ptr list \<times> ptr list \<times> bt_mem)" where
  "unwind back mark saved m =
     (if back \<in> set mark then
        bindE (stack_top saved) (\<lambda>back'.
        bindE (load m back') (\<lambda>n.
        unwind back' (removeAll back mark) (tl saved) (print m (show_sp (val n)))))
      else Inr (mark, saved, m))"
  by auto

termination
  by (relation "measure (\<lambda>(back, mark, saved, m). length mark)") (auto intro: length_removeAll_less)

declare unwind.simps [simp del]

type_synonym post_state = "ptr \<times> ptr list \<times> ptr list \<times> ptr list \<times> bt_mem"

definition postorder_round :: "post_state \<Rightarrow> fault + post_state" where
  "postorder_round = (\<lambda>(node, st, mark, saved, m).
     let st = (if node \<noteq> 0 then node # st else st) in
     bindE (left_son_of m node) (\<lambda>son.
     if son \<noteq> 0 then Inr (son, st, mark, saved, m)
     else
       bindE (stack_top st) (\<lambda>back.
       bindE (load m back) (\<lambda>n.
       if rgt n \<noteq> 0 then Inr (rgt n, tl st, mark @ [rgt n], back # saved, m)
       else
         bindE (unwind back mark saved (print m (show_sp (val n)))) (\<lambda>(mark, saved, m).
         Inr (0, tl st, mark, saved, m))))))"

definition postorder_stack :: "bt_mem \<Rightarrow> ptr \<Rightarrow> bt_mem may" where
  "postorder_stack m node =
     bindM (while_may (\<lambda>(node, st, mark, saved, m). more node st) (\<lambda>s. Some (postorder_round s))
       (node, [], [], [], m))
       (\<lambda>(node, st, mark, saved, m). retM (print m endl))"

section \<open>The class \<open>BinaryTree\<close>\<close>

definition dump_preorder :: "bt_mem \<Rightarrow> ptr \<Rightarrow> bt_mem may" where
  "dump_preorder m root =
     bindM (preorder_stack (print m (''===== tree preorder ====='' @ endl)) root) (\<lambda>m.
     retM (print m (endl @ ''===== tree preorder ====='' @ endl @ endl @ endl)))"

text \<open>The loop of the insertion: it ends with the \<open>break\<close> after a link, or with the exception.\<close>

partial_function (option) insert_descend :: "bt_mem \<Rightarrow> ptr \<Rightarrow> int \<Rightarrow> bt_mem may" where
  "insert_descend m cur vl =
     (if cur = 0 then retM m
      else
        bindM (Some (load m cur)) (\<lambda>n.
        if val n > vl then
          (if lft n \<noteq> 0 then insert_descend m (lft n) vl
           else case new_bt m vl of (p, m) \<Rightarrow> Some (modify m cur (\<lambda>n. n\<lparr>lft := p\<rparr>)))
        else if val n < vl then
          (if rgt n \<noteq> 0 then insert_descend m (rgt n) vl
           else case new_bt m vl of (p, m) \<Rightarrow> Some (modify m cur (\<lambda>n. n\<lparr>rgt := p\<rparr>)))
        else Some (Inl (Thrown ''value already exist''))))"

definition insert_node :: "ptr \<times> bt_mem \<Rightarrow> int \<Rightarrow> (ptr \<times> bt_mem) may" where
  "insert_node = (\<lambda>(root, m) vl.
     if root = 0 then
       (case new_bt m vl of (root, m) \<Rightarrow> bindM (dump_preorder m root) (\<lambda>m. retM (root, m)))
     else
       bindM (insert_descend m root vl) (\<lambda>m.
       bindM (dump_preorder m root) (\<lambda>m. retM (root, m))))"

partial_function (option) search :: "bt_mem \<Rightarrow> ptr \<Rightarrow> int \<Rightarrow> ptr may" where
  "search m cur vl =
     (if cur = 0 then retM cur
      else
        bindM (Some (load m cur)) (\<lambda>n.
        if val n > vl then search m (lft n) vl
        else if val n < vl then search m (rgt n) vl
        else retM cur))"

definition delete_node_bt :: "ptr \<times> bt_mem \<Rightarrow> int \<Rightarrow> (ptr \<times> bt_mem) may" where
  "delete_node_bt t vl = retM t"

text \<open>\<open>pre\<close> of \<open>min()\<close> has no initial vl: \<open>None\<close>.\<close>

partial_function (option) min_loop :: "bt_mem \<Rightarrow> ptr \<Rightarrow> ptr option \<Rightarrow> ptr may" where
  "min_loop m cur pre =
     (if cur = 0 then Some (case pre of None \<Rightarrow> Inl UninitRead | Some p \<Rightarrow> Inr p)
      else bindM (Some (load m cur)) (\<lambda>n. min_loop m (lft n) (Some cur)))"

definition bt_min :: "ptr \<times> bt_mem \<Rightarrow> ptr may" where
  "bt_min = (\<lambda>(root, m). min_loop m root None)"

partial_function (option) max_loop :: "bt_mem \<Rightarrow> ptr \<Rightarrow> ptr \<Rightarrow> ptr may" where
  "max_loop m cur pre =
     (if cur = 0 then retM pre
      else bindM (Some (load m cur)) (\<lambda>n. max_loop m (rgt n) cur))"

definition bt_max :: "ptr \<times> bt_mem \<Rightarrow> ptr may" where
  "bt_max = (\<lambda>(root, m). max_loop m root 0)"

section \<open>Rotations and the balanced tree\<close>

definition bt_right_rotation :: "bt_mem \<Rightarrow> ptr \<Rightarrow> fault + (ptr \<times> bt_mem)" where
  "bt_right_rotation m node =
     (if node = 0 then Inr (node, m)
      else
        bindE (load m node) (\<lambda>n.
        let m = print m (''right rotation node is: '' @ fmt_d (val n) @ endl); left_node = lft n in
        bindE (load m left_node) (\<lambda>ln.
        let left_right_node = rgt ln in
        bindE (modify m left_node (\<lambda>k. k\<lparr>rgt := node\<rparr>)) (\<lambda>m.
        bindE (modify m node (\<lambda>k. k\<lparr>lft := left_right_node\<rparr>)) (\<lambda>m.
        Inr (left_node, m))))))"

definition bt_left_rotation :: "bt_mem \<Rightarrow> ptr \<Rightarrow> fault + (ptr \<times> bt_mem)" where
  "bt_left_rotation m node =
     (if node = 0 then Inr (node, m)
      else
        bindE (load m node) (\<lambda>n.
        let right_node = rgt n in
        bindE (load m right_node) (\<lambda>rn.
        let right_left_node = lft rn in
        bindE (modify m right_node (\<lambda>k. k\<lparr>lft := node\<rparr>)) (\<lambda>m.
        bindE (modify m node (\<lambda>k. k\<lparr>rgt := right_left_node\<rparr>)) (\<lambda>m.
        Inr (right_node, m))))))"

definition right_left_rotation :: "bt_mem \<Rightarrow> ptr \<Rightarrow> fault + (ptr \<times> bt_mem)" where
  "right_left_rotation m node =
     (if node = 0 then Inr (node, m)
      else
        bindE (load m node) (\<lambda>n.
        bindE (bt_left_rotation m (lft n)) (\<lambda>(p, m).
        bindE (modify m node (\<lambda>k. k\<lparr>lft := p\<rparr>)) (\<lambda>m.
        bt_right_rotation m node))))"

definition left_right_rotation :: "bt_mem \<Rightarrow> ptr \<Rightarrow> fault + (ptr \<times> bt_mem)" where
  "left_right_rotation m node =
     (if node = 0 then Inr (node, m)
      else
        bindE (load m node) (\<lambda>n.
        bindE (bt_right_rotation m (rgt n)) (\<lambda>(p, m).
        bindE (modify m node (\<lambda>k. k\<lparr>rgt := p\<rparr>)) (\<lambda>m.
        bt_left_rotation m node))))"

text \<open>
  The end of \<open>balance_insert\<close>: \<open>cmp_son\<close> is \<open>son && son->value > vl\<close> (or \<open><\<close>), and \<open>rebalance\<close>
  is the chain of conditions after the recursive call.
\<close>

definition cmp_son :: "bt_mem \<Rightarrow> ptr \<Rightarrow> (int \<Rightarrow> bool) \<Rightarrow> fault + bool" where
  "cmp_son m son P = (if son = 0 then Inr False else bindE (load m son) (\<lambda>k. Inr (P (val k))))"

definition rebalance :: "bt_mem \<Rightarrow> ptr \<Rightarrow> int \<Rightarrow> int \<Rightarrow> fault + (ptr \<times> bt_mem)" where
  "rebalance m node vl sub =
     bindE (load m node) (\<lambda>n.
     bindE (if sub > 1 then cmp_son m (lft n) (\<lambda>v. v > vl) else Inr False) (\<lambda>b1.
     if b1 then bt_right_rotation m node
     else
     bindE (if sub > 1 then cmp_son m (lft n) (\<lambda>v. v < vl) else Inr False) (\<lambda>b2.
     if b2 then right_left_rotation m node
     else
     bindE (if sub < -1 then cmp_son m (rgt n) (\<lambda>v. v < vl) else Inr False) (\<lambda>b3.
     if b3 then bt_left_rotation m node
     else
     bindE (if sub < -1 then cmp_son m (rgt n) (\<lambda>v. v > vl) else Inr False) (\<lambda>b4.
     if b4 then left_right_rotation m node
     else Inr (node, m))))))"

partial_function (option) balance_insert :: "bt_mem \<Rightarrow> ptr \<Rightarrow> int \<Rightarrow> (ptr \<times> bt_mem) may" where
  "balance_insert m node vl =
     (if node = 0 then retM (new_bt m vl)
      else
        bindM (Some (load m node)) (\<lambda>n.
        bindM
          (if val n > vl then
             bindM (balance_insert m (lft n) vl) (\<lambda>(p, m). Some (modify m node (\<lambda>k. k\<lparr>lft := p\<rparr>)))
           else if val n < vl then
             bindM (balance_insert m (rgt n) vl) (\<lambda>(p, m). Some (modify m node (\<lambda>k. k\<lparr>rgt := p\<rparr>)))
           else Some (Inl (Thrown ''value already exist''))) (\<lambda>m.
        bindM (Some (load m node)) (\<lambda>n.
        bindM (tree_deepth m (lft n)) (\<lambda>dl.
        bindM (tree_deepth m (rgt n)) (\<lambda>dr.
        Some (rebalance m node vl (dl - dr))))))))"

text \<open>
  \<open>balance_delete\<close> has no \<open>return\<close>: where its end is reached the behaviour is undefined. Where a
  node with one son is deleted, the son is read from the deleted node.
\<close>

partial_function (option) balance_delete :: "bt_mem \<Rightarrow> ptr \<Rightarrow> int \<Rightarrow> (ptr \<times> bt_mem) may" where
  "balance_delete m node vl =
     (if node = 0 then Some (Inl (Thrown ''node is empty''))
      else
        bindM (Some (load m node)) (\<lambda>n.
        bindM
          (if val n < vl then
             bindM (balance_delete m (rgt n) vl) (\<lambda>(p, m). Some (modify m node (\<lambda>k. k\<lparr>rgt := p\<rparr>)))
           else if val n > vl then
             bindM (balance_delete m (lft n) vl) (\<lambda>(p, m). Some (modify m node (\<lambda>k. k\<lparr>lft := p\<rparr>)))
           else if lft n = 0 \<and> rgt n = 0 then Some (delete_node m node)
           else if lft n \<noteq> 0 \<and> rgt n = 0 then
             bindM (Some (delete_node m node)) (\<lambda>m. bindM (Some (load m node)) (\<lambda>n. retM m))
           else if lft n = 0 \<and> rgt n \<noteq> 0 then
             bindM (Some (delete_node m node)) (\<lambda>m. bindM (Some (load m node)) (\<lambda>n. retM m))
           else retM m) (\<lambda>m.
        Some (Inl MissingReturn))))"

definition balance_tree_insert :: "ptr \<times> bt_mem \<Rightarrow> int \<Rightarrow> (ptr \<times> bt_mem) may" where
  "balance_tree_insert = (\<lambda>(root, m) vl.
     bindM (balance_insert m root vl) (\<lambda>(root, m).
     bindM (preorder_stack (print m ''balance tree now is: '') root) (\<lambda>m.
     retM (root, print m (endl @ endl)))))"

definition balance_tree_delete :: "ptr \<times> bt_mem \<Rightarrow> int \<Rightarrow> (ptr \<times> bt_mem) may" where
  "balance_tree_delete t vl = retM t"

definition balance_tree_search :: "ptr \<times> bt_mem \<Rightarrow> int \<Rightarrow> ptr may" where
  "balance_tree_search t vl = Some (Inl MissingReturn)"

text \<open>The recursive equations evaluate.\<close>

declare tree_deepth.simps [code] is_balance.simps [code] preorder.simps [code] inorder.simps [code]
  postorder.simps [code] insert_descend.simps [code] search.simps [code] min_loop.simps [code]
  max_loop.simps [code] balance_insert.simps [code] balance_delete.simps [code]

end
