(* ===== verification/TreeTraverse.thy ===== *)
theory TreeTraverse
  imports BinTree
begin

text \<open>
  The tree a pointer reaches, the depth and balance functions, and the traversals: the iterative
  ones write what the recursive ones write, and end.
\<close>

section \<open>The tree of a pointer\<close>

text \<open>The tree of a pointer: its addresses and values.\<close>

primrec tree_at :: "(ptr \<rightharpoonup> bt_node) \<Rightarrow> ptr \<Rightarrow> (ptr \<times> int) tree \<Rightarrow> bool" where
  "tree_at h p Leaf \<longleftrightarrow> p = 0"
| "tree_at h p (Node l x r) \<longleftrightarrow>
     p \<noteq> 0 \<and> p = fst x \<and> (\<exists>n. h p = Some n \<and> val n = snd x \<and> tree_at h (lft n) l \<and> tree_at h (rgt n) r)"

lemma tree_at_0: "tree_at h 0 t \<longleftrightarrow> t = Leaf"
  by (cases t) auto

lemma tree_at_pos: "p \<noteq> 0 \<Longrightarrow> tree_at h p t \<longleftrightarrow>
    (\<exists>n l r. h p = Some n \<and> t = Node l (p, val n) r \<and> tree_at h (lft n) l \<and> tree_at h (rgt n) r)"
  by (cases t) (auto intro: prod_eqI)

text \<open>A pointer has at most one tree, and no node is its own descendant.\<close>

lemma tree_at_unique: "tree_at h p t \<Longrightarrow> tree_at h p t' \<Longrightarrow> t = t'"
proof (induction t arbitrary: p t')
  case Leaf
  then show ?case by (simp add: tree_at_0)
next
  case (Node l x r)
  obtain n where n: "h p = Some n" "p \<noteq> 0" "val n = snd x" "p = fst x" "tree_at h (lft n) l" "tree_at h (rgt n) r"
    using Node.prems(1) by auto
  obtain l' x' r' where t': "t' = Node l' x' r'" using Node.prems(2) n(2) by (cases t') auto
  then have "tree_at h (lft n) l'" "tree_at h (rgt n) r'" "p = fst x'" "val n = snd x'"
    using Node.prems(2) n(1) by auto
  then show ?case using Node.IH(1) [OF n(5)] Node.IH(2) [OF n(6)] n(3,4) t' by (auto intro: prod_eqI)
qed

definition pre_vals :: "(ptr \<times> int) tree \<Rightarrow> int list" where
  "pre_vals t = map snd (Tree.preorder t)"

definition in_vals :: "(ptr \<times> int) tree \<Rightarrow> int list" where
  "in_vals t = map snd (Tree.inorder t)"

definition post_vals :: "(ptr \<times> int) tree \<Rightarrow> int list" where
  "post_vals t = map snd (Tree.postorder t)"

lemma vals_simps [simp]:
  "pre_vals Leaf = []" "pre_vals (Node l x r) = snd x # pre_vals l @ pre_vals r"
  "in_vals Leaf = []" "in_vals (Node l x r) = in_vals l @ snd x # in_vals r"
  "post_vals Leaf = []" "post_vals (Node l x r) = post_vals l @ post_vals r @ [snd x]"
  by (simp_all add: pre_vals_def in_vals_def post_vals_def)

definition show_all :: "int list \<Rightarrow> string" where
  "show_all vs = concat (map show_sp vs)"

lemma show_all_simps [simp]:
  "show_all [] = []" "show_all (v # vs) = show_sp v @ show_all vs" "show_all (vs @ ws) = show_all vs @ show_all ws"
  by (simp_all add: show_all_def)

section \<open>Depth and balance\<close>

lemma tree_deepth_height: "tree_at (cells m) p t \<Longrightarrow> tree_deepth m p = retM (int (height t))"
proof (induction t arbitrary: p)
  case Leaf
  then show ?case by (subst tree_deepth.simps) simp
next
  case (Node l x r)
  then obtain n where "cells m p = Some n" "p \<noteq> 0" "tree_at (cells m) (lft n) l" "tree_at (cells m) (rgt n) r"
    by auto
  then show ?case using Node.IH
    by (subst tree_deepth.simps) (simp add: load_ok max_int_def)
qed

text \<open>The depths of the two sons differ by at most one at every node.\<close>

primrec avl :: "'a tree \<Rightarrow> bool" where
  "avl Leaf \<longleftrightarrow> True"
| "avl (Node l x r) \<longleftrightarrow> avl l \<and> avl r \<and> abs (int (height l) - int (height r)) < 2"

lemma is_balance_avl: "tree_at (cells m) p t \<Longrightarrow> is_balance m p = retM (avl t)"
proof (induction t arbitrary: p)
  case Leaf
  then show ?case by (subst is_balance.simps) simp
next
  case (Node l x r)
  then obtain n where "cells m p = Some n" "p \<noteq> 0" "tree_at (cells m) (lft n) l" "tree_at (cells m) (rgt n) r"
    by auto
  then show ?case using Node.IH
    by (subst is_balance.simps) (simp add: load_ok tree_deepth_height)
qed

section \<open>The recursive traversals\<close>

lemma preorder_writes: "tree_at (cells m) p t \<Longrightarrow> preorder m p = retM (print m (show_all (pre_vals t)))"
proof (induction t arbitrary: p m)
  case Leaf
  then show ?case by (subst preorder.simps) simp
next
  case (Node l x r)
  then obtain n where "cells m p = Some n" "p \<noteq> 0" "val n = snd x" "tree_at (cells m) (lft n) l" "tree_at (cells m) (rgt n) r"
    by auto
  then show ?case using Node.IH
    by (subst preorder.simps) (simp add: load_ok)
qed

lemma inorder_writes: "tree_at (cells m) p t \<Longrightarrow> inorder m p = retM (print m (show_all (in_vals t)))"
proof (induction t arbitrary: p m)
  case Leaf
  then show ?case by (subst inorder.simps) simp
next
  case (Node l x r)
  then obtain n where "cells m p = Some n" "p \<noteq> 0" "val n = snd x" "tree_at (cells m) (lft n) l" "tree_at (cells m) (rgt n) r"
    by auto
  then show ?case using Node.IH
    by (subst inorder.simps) (simp add: load_ok)
qed

lemma postorder_writes: "tree_at (cells m) p t \<Longrightarrow> postorder m p = retM (print m (show_all (post_vals t)))"
proof (induction t arbitrary: p m)
  case Leaf
  then show ?case by (subst postorder.simps) simp
next
  case (Node l x r)
  then obtain n where "cells m p = Some n" "p \<noteq> 0" "val n = snd x" "tree_at (cells m) (lft n) l" "tree_at (cells m) (rgt n) r"
    by auto
  then show ?case using Node.IH
    by (subst postorder.simps) (simp add: load_ok)
qed

section \<open>The traversals with a stack\<close>

text \<open>
  What is left to do: the tree at the current pointer, and for every stacked node its right tree.
  Every round makes it smaller.
\<close>

fun stacked :: "(ptr \<rightharpoonup> bt_node) \<Rightarrow> ptr list \<Rightarrow> (int \<times> (ptr \<times> int) tree) list \<Rightarrow> bool" where
  "stacked h [] [] \<longleftrightarrow> True"
| "stacked h (p # ps) ((v, r) # rs) \<longleftrightarrow>
     p \<noteq> 0 \<and> (\<exists>n. h p = Some n \<and> val n = v \<and> tree_at h (rgt n) r) \<and> stacked h ps rs"
| "stacked h _ _ \<longleftrightarrow> False"

lemma stacked_Nil [simp]: "stacked h [] rs \<longleftrightarrow> rs = []"
  by (cases rs) auto

lemma stacked_Cons: "stacked h (p # ps) rs \<longleftrightarrow>
    p \<noteq> 0 \<and> (\<exists>n r rs'. h p = Some n \<and> rs = (val n, r) # rs' \<and> tree_at h (rgt n) r \<and> stacked h ps rs')"
  by (cases rs) auto

definition left_work :: "(ptr \<times> int) tree \<Rightarrow> (int \<times> (ptr \<times> int) tree) list \<Rightarrow> nat" where
  "left_work t rs = 2 * size t + sum_list (map (\<lambda>(v, r). 2 * size r + 1) rs)"

definition pre_rest :: "(ptr \<times> int) tree \<Rightarrow> (int \<times> (ptr \<times> int) tree) list \<Rightarrow> int list" where
  "pre_rest t rs = pre_vals t @ concat (map (\<lambda>(v, r). pre_vals r) rs)"

definition in_rest :: "(ptr \<times> int) tree \<Rightarrow> (int \<times> (ptr \<times> int) tree) list \<Rightarrow> int list" where
  "in_rest t rs = in_vals t @ concat (map (\<lambda>(v, r). v # in_vals r) rs)"

lemma pre_step:
  assumes "tree_at (cells m) p t" "stacked (cells m) st rs" "p \<noteq> 0 \<or> st \<noteq> []"
  shows "\<exists>p' st' m' t' rs' out. preorder_round (p, st, m) = Inr (p', st', m') \<and> m' = print m (show_all out) \<and>
     tree_at (cells m) p' t' \<and> stacked (cells m) st' rs' \<and> left_work t' rs' < left_work t rs \<and>
     out @ pre_rest t' rs' = pre_rest t rs"
proof (cases "p = 0")
  case True
  then obtain a ps where st: "st = a # ps" using assms(3) by (cases st) auto
  then obtain n r rs' where "a \<noteq> 0" "cells m a = Some n" "rs = (val n, r) # rs'" "tree_at (cells m) (rgt n) r"
      "stacked (cells m) ps rs'"
    using assms(2) by (auto simp: stacked_Cons)
  then show ?thesis using True assms(1) st
    by (intro exI [of _ "rgt n"] exI [of _ ps] exI [of _ m] exI [of _ r] exI [of _ rs'] exI [of _ "[]"])
      (simp add: preorder_round_def left_son_of_def stack_top_def load_ok tree_at_0 left_work_def pre_rest_def)
next
  case False
  then obtain n l r where n: "cells m p = Some n" "t = Node l (p, val n) r" "tree_at (cells m) (lft n) l"
      "tree_at (cells m) (rgt n) r"
    using assms(1) by (auto simp: tree_at_pos)
  show ?thesis
  proof (cases "lft n = 0")
    case True
    then show ?thesis using False n assms(2)
      by (intro exI [of _ "rgt n"] exI [of _ st] exI [of _ "print m (show_sp (val n))"] exI [of _ r] exI [of _ rs] exI [of _ "[val n]"])
        (simp add: preorder_round_def left_son_of_def stack_top_def load_ok tree_at_0 left_work_def pre_rest_def)
  next
    case l: False
    then show ?thesis using False n assms(2)
      by (intro exI [of _ "lft n"] exI [of _ "p # st"] exI [of _ "print m (show_sp (val n))"] exI [of _ l]
            exI [of _ "(val n, r) # rs"] exI [of _ "[val n]"])
        (simp add: preorder_round_def left_son_of_def load_ok left_work_def pre_rest_def)
  qed
qed

lemma in_step:
  assumes "tree_at (cells m) p t" "stacked (cells m) st rs" "p \<noteq> 0 \<or> st \<noteq> []"
  shows "\<exists>p' st' m' t' rs' out. inorder_round (p, st, m) = Inr (p', st', m') \<and> m' = print m (show_all out) \<and>
     tree_at (cells m) p' t' \<and> stacked (cells m) st' rs' \<and> left_work t' rs' < left_work t rs \<and>
     out @ in_rest t' rs' = in_rest t rs"
proof (cases "p = 0")
  case True
  then obtain a ps where st: "st = a # ps" using assms(3) by (cases st) auto
  then obtain n r rs' where "a \<noteq> 0" "cells m a = Some n" "rs = (val n, r) # rs'" "tree_at (cells m) (rgt n) r"
      "stacked (cells m) ps rs'"
    using assms(2) by (auto simp: stacked_Cons)
  then show ?thesis using True assms(1) st
    by (intro exI [of _ "rgt n"] exI [of _ ps] exI [of _ "print m (show_sp (val n))"] exI [of _ r] exI [of _ rs'] exI [of _ "[val n]"])
      (simp add: inorder_round_def left_son_of_def stack_top_def load_ok tree_at_0 left_work_def in_rest_def)
next
  case False
  then obtain n l r where n: "cells m p = Some n" "t = Node l (p, val n) r" "tree_at (cells m) (lft n) l"
      "tree_at (cells m) (rgt n) r"
    using assms(1) by (auto simp: tree_at_pos)
  show ?thesis
  proof (cases "lft n = 0")
    case True
    then show ?thesis using False n assms(2)
      by (intro exI [of _ "rgt n"] exI [of _ st] exI [of _ "print m (show_sp (val n))"] exI [of _ r] exI [of _ rs] exI [of _ "[val n]"])
        (simp add: inorder_round_def left_son_of_def stack_top_def load_ok tree_at_0 left_work_def in_rest_def)
  next
    case l: False
    then show ?thesis using False n assms(2)
      by (intro exI [of _ "lft n"] exI [of _ "p # st"] exI [of _ m] exI [of _ l]
            exI [of _ "(val n, r) # rs"] exI [of _ "[]"])
        (simp add: inorder_round_def left_son_of_def load_ok left_work_def in_rest_def)
  qed
qed

text \<open>A loop whose rounds do this much writes the rest and ends.\<close>

lemma stack_loop:
  assumes step: "\<And>m p t st rs. tree_at (cells m) p t \<Longrightarrow> stacked (cells m) st rs \<Longrightarrow> p \<noteq> 0 \<or> st \<noteq> [] \<Longrightarrow>
      \<exists>p' st' m' t' rs' out. rnd (p, st, m) = Inr (p', st', m') \<and> m' = print m (show_all out) \<and>
      tree_at (cells m) p' t' \<and> stacked (cells m) st' rs' \<and> left_work t' rs' < left_work t rs \<and>
      out @ rest t' rs' = rest t rs"
    and rest: "rest Leaf [] = []"
    and t: "tree_at (cells m) p t" "stacked (cells m) st rs"
  shows "while_may (\<lambda>(p, st, m). more p st) (\<lambda>s. Some (rnd s)) (p, st, m) =
     retM (0, [], print m (show_all (rest t rs)))"
  using t
proof (induction "left_work t rs" arbitrary: p st m t rs rule: less_induct)
  case less
  show ?case
  proof (cases "p \<noteq> 0 \<or> st \<noteq> []")
    case False
    then show ?thesis using less.prems rest by (simp add: while_stop more_def tree_at_0)
  next
    case True
    obtain p' st' t' rs' out where s: "rnd (p, st, m) = Inr (p', st', print m (show_all out))"
        "tree_at (cells m) p' t'" "stacked (cells m) st' rs'" "left_work t' rs' < left_work t rs"
        "out @ rest t' rs' = rest t rs"
      using step [OF less.prems True] by metis
    have "while_may (\<lambda>(p, st, m). more p st) (\<lambda>s. Some (rnd s)) (p', st', print m (show_all out)) =
        retM (0, [], print (print m (show_all out)) (show_all (rest t' rs')))"
      using s by (intro less.hyps) auto
    then show ?thesis using True s(1) by (simp add: while_step more_def flip: s(5))
  qed
qed

lemma preorder_stack_writes:
  "tree_at (cells m) p t \<Longrightarrow> preorder_stack m p = retM (print m (show_all (pre_vals t)))"
  using stack_loop [OF pre_step, of m p t "[]" "[]"]
  by (simp add: preorder_stack_def) (simp add: pre_rest_def)

lemma inorder_stack_writes:
  "tree_at (cells m) p t \<Longrightarrow> inorder_stack m p = retM (print m (show_all (in_vals t) @ endl))"
  using stack_loop [OF in_step, of m p t "[]" "[]"]
  by (simp add: inorder_stack_def) (simp add: in_rest_def)

end
