(* ===== verification/TreePostorder.thy ===== *)
theory TreePostorder
  imports TreeTraverse
begin

text \<open>
  The iterative postorder traversal. What surrounds the current subtree is a list of frames: a node
  on \<open>tree_stack\<close> whose left tree is being written, or a node on \<open>saved_node\<close> whose right tree is.
\<close>

section \<open>Frames\<close>

datatype frame =
    Todo ptr int "(ptr \<times> int) tree"
  | After ptr int "(ptr \<times> int) tree"

fun plug :: "(ptr \<times> int) tree \<Rightarrow> frame \<Rightarrow> (ptr \<times> int) tree" where
  "plug t (Todo p v r) = Node t (p, v) r"
| "plug t (After p v l) = Node l (p, v) t"

definition root_of :: "(ptr \<times> int) tree \<Rightarrow> ptr" where
  "root_of t = (case t of Leaf \<Rightarrow> 0 | Node l x r \<Rightarrow> fst x)"

text \<open>\<open>t\<close> and every tree around it is in the store.\<close>

fun ctx :: "(ptr \<rightharpoonup> bt_node) \<Rightarrow> (ptr \<times> int) tree \<Rightarrow> frame list \<Rightarrow> bool" where
  "ctx h t [] \<longleftrightarrow> t \<noteq> Leaf \<and> tree_at h (root_of t) t"
| "ctx h t (f # fs) \<longleftrightarrow> t \<noteq> Leaf \<and> ctx h (plug t f) fs"

fun todos :: "frame list \<Rightarrow> ptr list" where
  "todos [] = []"
| "todos (Todo p v r # fs) = p # todos fs"
| "todos (After p v l # fs) = todos fs"

fun saveds :: "frame list \<Rightarrow> ptr list" where
  "saveds [] = []"
| "saveds (Todo p v r # fs) = saveds fs"
| "saveds (After p v l # fs) = p # saveds fs"

fun marks :: "(ptr \<times> int) tree \<Rightarrow> frame list \<Rightarrow> ptr list" where
  "marks t [] = []"
| "marks t (Todo p v r # fs) = marks (plug t (Todo p v r)) fs"
| "marks t (After p v l # fs) = marks (plug t (After p v l)) fs @ [root_of t]"

fun frest :: "frame list \<Rightarrow> int list" where
  "frest [] = []"
| "frest (Todo p v r # fs) = post_vals r @ v # frest fs"
| "frest (After p v l # fs) = v # frest fs"

fun fwork :: "frame list \<Rightarrow> nat" where
  "fwork [] = 0"
| "fwork (Todo p v r # fs) = 2 * size r + 1 + fwork fs"
| "fwork (After p v l # fs) = fwork fs"

fun settled :: "frame list \<Rightarrow> bool" where
  "settled (After p v l # fs) = False"
| "settled fs = True"

lemma root_simps [simp]: "root_of Leaf = 0" "root_of (Node l x r) = fst x"
  by (simp_all add: root_of_def)

lemma ctx_nonempty: "ctx h t fs \<Longrightarrow> t \<noteq> Leaf"
  by (cases fs) auto

lemma size_plug: "size t < size (plug t f)"
  by (cases f) auto

lemma tree_at_root: "tree_at h p t \<Longrightarrow> p = root_of t"
  by (cases t) auto

lemma ctx_tree: "ctx h t fs \<Longrightarrow> tree_at h (root_of t) t"
proof (induction fs arbitrary: t)
  case (Cons f fs)
  then have "tree_at h (root_of (plug t f)) (plug t f)" by auto
  then obtain p where "tree_at h p t" by (cases f) auto
  then show ?case using tree_at_root by blast
qed simp

lemma ctx_node:
  assumes "ctx h (Node l (p, v) r) fs"
  shows "p \<noteq> 0 \<and> (\<exists>n. h p = Some n \<and> val n = v \<and> lft n = root_of l \<and> rgt n = root_of r)"
  using ctx_tree [OF assms] by (auto dest: tree_at_root)

text \<open>Every mark is the root of a tree around the current one; so the current root is marked once at most.\<close>

lemma marks_size: "ctx h t fs \<Longrightarrow> a \<in> set (marks t fs) \<Longrightarrow> \<exists>t'. tree_at h a t' \<and> size t \<le> size t'"
proof (induction t fs rule: marks.induct)
  case (2 t p v r fs)
  then show ?case using size_plug [of t "Todo p v r"] by fastforce
next
  case (3 t p v l fs)
  then show ?case using size_plug [of t "After p v l"] ctx_tree [OF "3.prems"(1)] by fastforce
qed simp

lemma not_marked_above:
  assumes "ctx h t (f # fs)" shows "root_of t \<notin> set (marks (plug t f) fs)"
proof
  assume "root_of t \<in> set (marks (plug t f) fs)"
  then obtain t' where "tree_at h (root_of t) t'" "size (plug t f) \<le> size t'"
    using marks_size [of h "plug t f" fs "root_of t"] assms by auto
  then show False
    using tree_at_unique [OF ctx_tree [OF assms]] size_plug [of t f] by fastforce
qed

section \<open>Unwinding\<close>

lemma unwind_frames:
  assumes "ctx (cells m) t fs"
  shows "\<exists>t' fs' out. unwind (root_of t) (marks t fs) (saveds fs) m =
       Inr (marks t' fs', saveds fs', print m (show_all out)) \<and> ctx (cells m) t' fs' \<and> settled fs' \<and>
     todos fs' = todos fs \<and> fwork fs' \<le> fwork fs \<and> out @ frest fs' = frest fs"
  using assms
proof (induction fs arbitrary: t m)
  case Nil
  then show ?case
    by (intro exI [of _ t] exI [of _ "[]"] exI [of _ "[]"]) (simp add: unwind.simps)
next
  case (Cons f fs)
  show ?case
  proof (cases f)
    case (Todo p v r)
    then show ?thesis using Cons.prems not_marked_above [OF Cons.prems]
      by (intro exI [of _ t] exI [of _ "f # fs"] exI [of _ "[]"]) (simp add: unwind.simps)
  next
    case (After p v l)
    let ?t = "plug t f"
    have up: "ctx (cells m) ?t fs" "tree_at (cells m) p ?t"
      using Cons.prems ctx_tree [of "cells m" ?t fs] After by auto
    then obtain n where n: "cells m p = Some n" "p \<noteq> 0" "val n = v" using After by auto
    have rm: "removeAll (root_of t) (marks t (f # fs)) = marks ?t fs"
      using not_marked_above [OF Cons.prems] After by simp
    have "ctx (cells (print m (show_sp v))) ?t fs" using up(1) by simp
    from Cons.IH [OF this] obtain t' fs' out where u:
        "unwind p (marks ?t fs) (saveds fs) (print m (show_sp v)) =
           Inr (marks t' fs', saveds fs', print (print m (show_sp v)) (show_all out))"
        "ctx (cells m) t' fs'" "settled fs'" "todos fs' = todos fs" "fwork fs' \<le> fwork fs" "out @ frest fs' = frest fs"
      using After by auto
    have "unwind (root_of t) (marks t (f # fs)) (saveds (f # fs)) m =
        unwind p (marks ?t fs) (saveds fs) (print m (show_sp v))"
      using After n rm by (subst unwind.simps) (simp add: stack_top_def load_ok)
    then show ?thesis using u After
      by (intro exI [of _ t'] exI [of _ fs'] exI [of _ "v # out"]) simp
  qed
qed

section \<open>The loop\<close>

text \<open>At the head of the loop the tree at \<open>node\<close> is still to be written, or \<open>node\<close> is null.\<close>

definition post_at :: "(ptr \<rightharpoonup> bt_node) \<Rightarrow> post_state \<Rightarrow> nat \<Rightarrow> int list \<Rightarrow> bool" where
  "post_at h s w rest \<longleftrightarrow> (\<exists>t fs m. cells m = h \<and> ctx h t fs \<and>
     (s = (root_of t, todos fs, marks t fs, saveds fs, m) \<and> w = 2 * size t + fwork fs \<and> rest = post_vals t @ frest fs \<or>
      s = (0, todos fs, marks t fs, saveds fs, m) \<and> settled fs \<and> w = fwork fs \<and> rest = frest fs))"

lemma post_at_tree:
  "cells m = h \<Longrightarrow> ctx h t fs \<Longrightarrow>
   post_at h (root_of t, todos fs, marks t fs, saveds fs, m) (2 * size t + fwork fs) (post_vals t @ frest fs)"
  unfolding post_at_def by blast

lemma post_at_done:
  "cells m = h \<Longrightarrow> ctx h t fs \<Longrightarrow> settled fs \<Longrightarrow>
   post_at h (0, todos fs, marks t fs, saveds fs, m) (fwork fs) (frest fs)"
  unfolding post_at_def by blast

definition mem_of :: "post_state \<Rightarrow> bt_mem" where
  "mem_of s = (case s of (_, _, _, _, m) \<Rightarrow> m)"

text \<open>What a round does: it writes \<open>out\<close>, and less is left.\<close>

definition post_round :: "(ptr \<rightharpoonup> bt_node) \<Rightarrow> bt_mem \<Rightarrow> nat \<Rightarrow> int list \<Rightarrow> fault + post_state \<Rightarrow> bool" where
  "post_round h m w rest res \<longleftrightarrow> (\<exists>s' w' rest' out. res = Inr s' \<and> post_at h s' w' rest' \<and> w' < w \<and>
     mem_of s' = print m (show_all out) \<and> out @ rest' = rest)"

lemma post_roundI:
  "post_at h s' w' rest' \<Longrightarrow> w' < w \<Longrightarrow> mem_of s' = print m (show_all out) \<Longrightarrow> out @ rest' = rest \<Longrightarrow>
   post_round h m w rest (Inr s')"
  unfolding post_round_def by blast

text \<open>A node without a right tree is written, and the frames above it are unwound.\<close>

lemma post_write:
  assumes ctx: "ctx (cells m) (Node l (p, v) Leaf) fs" and w: "fwork fs < w"
  shows "post_round (cells m) m w (v # frest fs)
     (bindE (unwind p (marks (Node l (p, v) Leaf) fs) (saveds fs) (print m (show_sp v)))
       (\<lambda>(mark, saved, m). Inr (0, todos fs, mark, saved, m)))"
proof -
  let ?t = "Node l (p, v) Leaf"
  have "ctx (cells (print m (show_sp v))) ?t fs" using ctx by simp
  from unwind_frames [OF this] obtain t' fs' out where u:
      "unwind p (marks ?t fs) (saveds fs) (print m (show_sp v)) = Inr (marks t' fs', saveds fs', print m (show_all (v # out)))"
      "ctx (cells m) t' fs'" "settled fs'" "todos fs' = todos fs" "fwork fs' \<le> fwork fs" "out @ frest fs' = frest fs"
    by auto
  have "post_at (cells m) (0, todos fs', marks t' fs', saveds fs', print m (show_all (v # out))) (fwork fs') (frest fs')"
    using u by (intro post_at_done) auto
  then show ?thesis
    using u w by (auto intro!: post_roundI [of _ _ "fwork fs'" "frest fs'" _ _ "v # out"] simp: mem_of_def)
qed

lemma post_round_tree:
  assumes ctx: "ctx (cells m) t fs"
  shows "post_round (cells m) m (2 * size t + fwork fs) (post_vals t @ frest fs)
     (postorder_round (root_of t, todos fs, marks t fs, saveds fs, m))"
proof -
  obtain l p v r where t: "t = Node l (p, v) r" using ctx_nonempty [OF ctx] by (metis prod.collapse neq_Leaf_iff)
  then obtain n where n: "p \<noteq> 0" "cells m p = Some n" "val n = v" "lft n = root_of l" "rgt n = root_of r"
    using ctx_node [of "cells m" l p v r fs] ctx by auto
  have sub: "root_of s \<noteq> 0 \<longleftrightarrow> s \<noteq> Leaf" if "tree_at (cells m) (root_of s) s" for s
    using that by (cases s) auto
  have sons: "tree_at (cells m) (root_of l) l" "tree_at (cells m) (root_of r) r"
    using ctx_tree [OF ctx] n t by auto
  consider "l \<noteq> Leaf" | "l = Leaf" "r \<noteq> Leaf" | "l = Leaf" "r = Leaf" by blast
  then show ?thesis
  proof cases
    case 1
    let ?fs = "Todo p v r # fs"
    have "post_at (cells m) (root_of l, todos ?fs, marks l ?fs, saveds ?fs, m) (2 * size l + fwork ?fs) (post_vals l @ frest ?fs)"
      using ctx t 1 by (intro post_at_tree) auto
    moreover have "postorder_round (root_of t, todos fs, marks t fs, saveds fs, m) = Inr (root_of l, todos ?fs, marks l ?fs, saveds ?fs, m)"
      using n t 1 sub [OF sons(1)] by (simp add: postorder_round_def left_son_of_def load_ok)
    ultimately show ?thesis using t by (auto intro!: post_roundI [where out = "[]"] simp: mem_of_def)
  next
    case 2
    let ?fs = "After p v l # fs"
    have "post_at (cells m) (root_of r, todos ?fs, marks r ?fs, saveds ?fs, m) (2 * size r + fwork ?fs) (post_vals r @ frest ?fs)"
      using ctx t 2 by (intro post_at_tree) auto
    moreover have "postorder_round (root_of t, todos fs, marks t fs, saveds fs, m) = Inr (root_of r, todos ?fs, marks r ?fs, saveds ?fs, m)"
      using n t 2 sub [OF sons(2)] by (simp add: postorder_round_def left_son_of_def load_ok stack_top_def)
    ultimately show ?thesis using t 2 by (auto intro!: post_roundI [where out = "[]"] simp: mem_of_def)
  next
    case 3
    have "postorder_round (root_of t, todos fs, marks t fs, saveds fs, m) =
        bindE (unwind p (marks t fs) (saveds fs) (print m (show_sp v))) (\<lambda>(mark, saved, m). Inr (0, todos fs, mark, saved, m))"
      using n t 3 by (simp add: postorder_round_def left_son_of_def load_ok stack_top_def)
    then show ?thesis using post_write [of m Leaf p v fs] ctx t 3 by simp
  qed
qed

lemma post_round_pop:
  assumes ctx: "ctx (cells m) l (Todo p v r # fs)"
  shows "post_round (cells m) m (fwork (Todo p v r # fs)) (frest (Todo p v r # fs))
     (postorder_round (0, todos (Todo p v r # fs), marks l (Todo p v r # fs), saveds (Todo p v r # fs), m))"
proof -
  let ?s = "(0, todos (Todo p v r # fs), marks l (Todo p v r # fs), saveds (Todo p v r # fs), m)"
  have up: "ctx (cells m) (Node l (p, v) r) fs" using ctx by simp
  then obtain n where n: "p \<noteq> 0" "cells m p = Some n" "val n = v" "lft n = root_of l" "rgt n = root_of r"
    using ctx_node by blast
  have son: "tree_at (cells m) (root_of r) r" using ctx_tree [OF up] n by auto
  show ?thesis
  proof (cases "r = Leaf")
    case False
    let ?fs = "After p v l # fs"
    have "post_at (cells m) (root_of r, todos ?fs, marks r ?fs, saveds ?fs, m) (2 * size r + fwork ?fs) (post_vals r @ frest ?fs)"
      using up False by (intro post_at_tree) auto
    moreover have "root_of r \<noteq> 0" using son False by (cases r) auto
    then have "postorder_round ?s = Inr (root_of r, todos ?fs, marks r ?fs, saveds ?fs, m)"
      using n by (simp add: postorder_round_def left_son_of_def load_ok stack_top_def)
    ultimately show ?thesis by (auto intro!: post_roundI [where out = "[]"] simp: mem_of_def)
  next
    case True
    have "postorder_round ?s =
        bindE (unwind p (marks (Node l (p, v) r) fs) (saveds fs) (print m (show_sp v))) (\<lambda>(mark, saved, m). Inr (0, todos fs, mark, saved, m))"
      using n True by (simp add: postorder_round_def left_son_of_def load_ok stack_top_def)
    then show ?thesis using post_write [of m l p v fs "fwork (Todo p v r # fs)"] up True by simp
  qed
qed

lemma post_loop:
  assumes "post_at h s w rest" "cells (mem_of s) = h"
  shows "endsM (while_may (\<lambda>(node, st, mark, saved, m). more node st) (\<lambda>s. Some (postorder_round s)) s)
     (\<lambda>s'. mem_of s' = print (mem_of s) (show_all rest))"
  using assms
proof (induction w arbitrary: s rest rule: less_induct)
  case (less w)
  let ?wh = "while_may (\<lambda>(node, st, mark, saved, m). more node st) (\<lambda>s. Some (postorder_round s))"
  have go: "endsM (?wh s) (\<lambda>s'. mem_of s' = print (mem_of s) (show_all rest))"
    if c: "fst s \<noteq> 0 \<or> fst (snd s) \<noteq> []" and rnd: "post_round h (mem_of s) w rest (postorder_round s)"
  proof -
    obtain s' w' rest' out where r: "postorder_round s = Inr s'" "post_at h s' w' rest'" "w' < w"
        "mem_of s' = print (mem_of s) (show_all out)" "out @ rest' = rest"
      using rnd unfolding post_round_def by blast
    have e: "endsM (?wh s') (\<lambda>s''. mem_of s'' = print (mem_of s') (show_all rest'))"
      by (rule less.IH [OF r(3,2)]) (simp add: r(4) less.prems(2))
    have eq: "?wh s = ?wh s'"
      using c r(1) by (cases s) (simp add: while_step more_def)
    show ?thesis using e unfolding eq r(4) print_print r(5) [symmetric] show_all_simps(3) .
  qed
  from less.prems(1) obtain t fs m where m: "cells m = h" "ctx h t fs"
    and s: "s = (root_of t, todos fs, marks t fs, saveds fs, m) \<and> w = 2 * size t + fwork fs \<and> rest = post_vals t @ frest fs \<or>
      s = (0, todos fs, marks t fs, saveds fs, m) \<and> settled fs \<and> w = fwork fs \<and> rest = frest fs"
    unfolding post_at_def by blast
  from s show ?case
  proof (elim disjE conjE)
    assume s: "s = (root_of t, todos fs, marks t fs, saveds fs, m)" "w = 2 * size t + fwork fs" "rest = post_vals t @ frest fs"
    have "root_of t \<noteq> 0" using ctx_tree [OF m(2)] ctx_nonempty [OF m(2)] by (cases t) auto
    then show ?case
      by (intro go) (use post_round_tree [of m t fs] m s in \<open>simp_all add: mem_of_def\<close>)
  next
    assume s: "s = (0, todos fs, marks t fs, saveds fs, m)" "settled fs" "w = fwork fs" "rest = frest fs"
    show ?case
    proof (cases fs)
      case Nil
      then show ?thesis using s by (simp add: while_stop more_def)
    next
      case (Cons f fs')
      then obtain p v r where "f = Todo p v r" using s(2) by (cases f) auto
      then show ?thesis
        by (intro go) (use post_round_pop [of m t p v r fs'] m s Cons in \<open>simp_all add: mem_of_def\<close>)
    qed
  qed
qed

lemma postorder_stack_writes:
  assumes "tree_at (cells m) p t"
  shows "postorder_stack m p = retM (print m (show_all (post_vals t) @ endl))"
proof (cases "t = Leaf")
  case True
  then show ?thesis using assms by (simp add: postorder_stack_def while_stop more_def)
next
  case False
  have p: "p = root_of t" using tree_at_root [OF assms] .
  have "post_at (cells m) (root_of t, todos [], marks t [], saveds [], m) (2 * size t + fwork []) (post_vals t @ frest [])"
    using assms p False by (intro post_at_tree) auto
  from post_loop [OF this] show ?thesis
    using p by (auto simp: postorder_stack_def endsM_def mem_of_def)
qed

end
