(* ===== verification/TreeInsert.thy ===== *)
theory TreeInsert
  imports TreePostorder
begin

text \<open>
  Insertion, search, minimum and maximum of the search trees: what they do to the tree in the store.
\<close>

section \<open>Keys, addresses and order\<close>

definition keys :: "(ptr \<times> int) tree \<Rightarrow> int set" where
  "keys t = set (in_vals t)"

definition addrs :: "(ptr \<times> int) tree \<Rightarrow> ptr set" where
  "addrs t = fst ` set (Tree.inorder t)"

definition ordered_tree :: "(ptr \<times> int) tree \<Rightarrow> bool" where
  "ordered_tree t \<longleftrightarrow> sorted_wrt (<) (in_vals t)"

text \<open>No two nodes share an address.\<close>

definition sep :: "(ptr \<times> int) tree \<Rightarrow> bool" where
  "sep t \<longleftrightarrow> distinct (map fst (Tree.inorder t))"

lemma keys_simps [simp]: "keys Leaf = {}" "keys (Node l x r) = insert (snd x) (keys l \<union> keys r)"
  by (auto simp: keys_def)

lemma addrs_simps [simp]: "addrs Leaf = {}" "addrs (Node l x r) = insert (fst x) (addrs l \<union> addrs r)"
  by (auto simp: addrs_def)

lemma ordered_tree_simps [simp]:
  "ordered_tree Leaf" "ordered_tree (Node l x r) \<longleftrightarrow> ordered_tree l \<and> ordered_tree r \<and>
     (\<forall>k \<in> keys l. k < snd x) \<and> (\<forall>k \<in> keys r. snd x < k)"
  by (auto simp: ordered_tree_def keys_def sorted_wrt_append) (meson dual_order.strict_trans)

lemma sep_simps [simp]:
  "sep Leaf" "sep (Node l x r) \<longleftrightarrow> sep l \<and> sep r \<and> fst x \<notin> addrs l \<and> fst x \<notin> addrs r \<and> addrs l \<inter> addrs r = {}"
  by (auto simp: sep_def addrs_def)

lemma tree_at_frame: "tree_at h p t \<Longrightarrow> (\<And>a. a \<in> addrs t \<Longrightarrow> h' a = h a) \<Longrightarrow> tree_at h' p t"
  by (induction t arbitrary: p) auto

lemma tree_at_addrs: "tree_at h p t \<Longrightarrow> a \<in> addrs t \<Longrightarrow> a \<noteq> 0 \<and> h a \<noteq> None"
  by (induction t arbitrary: p) auto

lemma fresh_notin: "tree_at (cells m) p t \<Longrightarrow> wf_mem m \<Longrightarrow> fresh m \<notin> addrs t"
  using tree_at_addrs wf_fresh by blast

section \<open>Insertion\<close>

fun ins :: "ptr \<Rightarrow> int \<Rightarrow> (ptr \<times> int) tree \<Rightarrow> (ptr \<times> int) tree" where
  "ins a v Leaf = Node Leaf (a, v) Leaf"
| "ins a v (Node l x r) =
     (if snd x > v then Node (ins a v l) x r
      else if snd x < v then Node l x (ins a v r)
      else Node l x r)"

lemma keys_ins: "keys (ins a v t) = insert v (keys t)"
  by (induction t) auto

lemma ordered_tree_ins: "ordered_tree t \<Longrightarrow> ordered_tree (ins a v t)"
  by (induction t) (auto simp: keys_ins)

lemma addrs_ins: "ordered_tree t \<Longrightarrow> v \<notin> keys t \<Longrightarrow> addrs (ins a v t) = insert a (addrs t)"
  by (induction t) auto

lemma sep_ins: "ordered_tree t \<Longrightarrow> v \<notin> keys t \<Longrightarrow> a \<notin> addrs t \<Longrightarrow> sep t \<Longrightarrow> sep (ins a v t)"
  by (induction t) (auto simp: addrs_ins)

text \<open>\<open>m'\<close> is \<open>m\<close> with one node more and changes at the addresses \<open>A\<close> only.\<close>

definition grown :: "ptr set \<Rightarrow> bt_mem \<Rightarrow> bt_mem \<Rightarrow> bool" where
  "grown A m m' \<longleftrightarrow> wf_mem m' \<and> fresh m' = Suc (fresh m) \<and>
     (\<forall>a. a \<notin> A \<longrightarrow> a \<noteq> fresh m \<longrightarrow> cells m' a = cells m a)"

lemma grown_mono: "grown A m m' \<Longrightarrow> A \<subseteq> B \<Longrightarrow> grown B m m'"
  by (auto simp: grown_def)

text \<open>A new leaf below \<open>cur\<close>.\<close>

lemma link_new:
  assumes m: "wf_mem m" "cells m cur = Some n" "cur \<noteq> 0"
  shows "\<exists>m1. new_bt m v = (fresh m, m1) \<and> modify m1 cur f =
       Inr (m1\<lparr>cells := (cells m1)(cur \<mapsto> f n)\<rparr>) \<and> cells m1 = (cells m)(fresh m \<mapsto> \<lparr>val = v, lft = 0, rgt = 0\<rparr>) \<and>
     cout m1 = cout m \<and> grown {cur} m (m1\<lparr>cells := (cells m1)(cur \<mapsto> f n)\<rparr>) \<and> cur \<noteq> fresh m"
proof -
  have cur: "cur \<noteq> fresh m" using m wf_fresh [of m] by auto
  let ?m1 = "m\<lparr>cells := (cells m)(fresh m \<mapsto> \<lparr>val = v, lft = 0, rgt = 0\<rparr>), fresh := Suc (fresh m)\<rparr>"
  have "grown {cur} m (?m1\<lparr>cells := (cells ?m1)(cur \<mapsto> f n)\<rparr>)"
    unfolding grown_def
  proof (intro conjI)
    show "wf_mem (?m1\<lparr>cells := (cells ?m1)(cur \<mapsto> f n)\<rparr>)"
      by (rule wf_upd, rule wf_new, rule m(1)) (use m cur in simp)
  qed auto
  then show ?thesis using cur m by (intro exI [of _ ?m1]) (simp add: new_bt_def new_node_def modify_ok)
qed

lemma insert_descend_runs:
  assumes "tree_at (cells m) p t" "t \<noteq> Leaf" "sep t" "wf_mem m" "ordered_tree t" "v \<notin> keys t"
  shows "\<exists>m'. insert_descend m p v = retM m' \<and> tree_at (cells m') p (ins (fresh m) v t) \<and>
     grown (addrs t) m m' \<and> cout m' = cout m"
  using assms
proof (induction t arbitrary: p)
  case Leaf
  then show ?case by simp
next
  case (Node l x r)
  then obtain n where n: "cells m p = Some n" "p \<noteq> 0" "p = fst x" "val n = snd x"
      "tree_at (cells m) (lft n) l" "tree_at (cells m) (rgt n) r" by auto
  have out: "fresh m \<notin> addrs l" "fresh m \<notin> addrs r" "fst x \<noteq> fresh m"
    using fresh_notin [OF Node.prems(1,4)] by auto
  consider (lt) "snd x > v" | (gt) "snd x < v" using Node.prems(6) by fastforce
  then show ?case
  proof cases
    case lt
    show ?thesis
    proof (cases "l = Leaf")
      case True
      obtain m1 where m1: "new_bt m v = (fresh m, m1)"
          "modify m1 p (\<lambda>k. k\<lparr>lft := fresh m\<rparr>) = Inr (m1\<lparr>cells := (cells m1)(p \<mapsto> n\<lparr>lft := fresh m\<rparr>)\<rparr>)"
          "cells m1 = (cells m)(fresh m \<mapsto> \<lparr>val = v, lft = 0, rgt = 0\<rparr>)" "cout m1 = cout m"
          "grown {p} m (m1\<lparr>cells := (cells m1)(p \<mapsto> n\<lparr>lft := fresh m\<rparr>)\<rparr>)" "p \<noteq> fresh m"
        using link_new [OF Node.prems(4) n(1,2), of v "\<lambda>k. k\<lparr>lft := fresh m\<rparr>"] by auto
      define m' where "m' = m1\<lparr>cells := (cells m1)(p \<mapsto> n\<lparr>lft := fresh m\<rparr>)\<rparr>"
      have c: "cells m' a = (if a = p then Some (n\<lparr>lft := fresh m\<rparr>)
          else if a = fresh m then Some \<lparr>val = v, lft = 0, rgt = 0\<rparr> else cells m a)" for a
        by (simp add: m'_def m1(3))
      have "insert_descend m p v = retM m'"
        using n lt True m1(1,2) by (subst insert_descend.simps) (simp add: load_ok m'_def)
      moreover have "cells m' p = Some (n\<lparr>lft := fresh m\<rparr>)"
          "cells m' (fresh m) = Some \<lparr>val = v, lft = 0, rgt = 0\<rparr>"
        using m1(6) c [of p] c [of "fresh m"] by simp_all
      moreover have "tree_at (cells m') (rgt n) r"
        using Node.prems(3) out n(3) by (intro tree_at_frame [OF n(6)]) (auto simp: c)
      moreover have "grown (addrs (Node l x r)) m m'" "cout m' = cout m"
        using m1(4,5) n(3) by (auto simp: m'_def elim: grown_mono)
      ultimately show ?thesis
        using n(1-4) lt True m1(6) Node.prems(4) by (intro exI [of _ m']) simp
    next
      case False
      obtain m' where m': "insert_descend m (lft n) v = retM m'" "tree_at (cells m') (lft n) (ins (fresh m) v l)"
          "grown (addrs l) m m'" "cout m' = cout m"
        using Node.IH(1) [OF n(5) False] Node.prems by auto
      have "insert_descend m p v = retM m'"
        using n lt m'(1) False by (subst insert_descend.simps) (auto simp: load_ok tree_at_0)
      moreover have "tree_at (cells m') (rgt n) r"
        using Node.prems(3) out m'(3) by (intro tree_at_frame [OF n(6)]) (auto simp: grown_def)
      moreover have "cells m' p = Some n"
        using Node.prems(3) out m'(3) n by (auto simp: grown_def)
      ultimately show ?thesis
        using n lt m' by (intro exI [of _ m']) (auto elim: grown_mono)
    qed
  next
    case gt
    show ?thesis
    proof (cases "r = Leaf")
      case True
      obtain m1 where m1: "new_bt m v = (fresh m, m1)"
          "modify m1 p (\<lambda>k. k\<lparr>rgt := fresh m\<rparr>) = Inr (m1\<lparr>cells := (cells m1)(p \<mapsto> n\<lparr>rgt := fresh m\<rparr>)\<rparr>)"
          "cells m1 = (cells m)(fresh m \<mapsto> \<lparr>val = v, lft = 0, rgt = 0\<rparr>)" "cout m1 = cout m"
          "grown {p} m (m1\<lparr>cells := (cells m1)(p \<mapsto> n\<lparr>rgt := fresh m\<rparr>)\<rparr>)" "p \<noteq> fresh m"
        using link_new [OF Node.prems(4) n(1,2), of v "\<lambda>k. k\<lparr>rgt := fresh m\<rparr>"] by auto
      define m' where "m' = m1\<lparr>cells := (cells m1)(p \<mapsto> n\<lparr>rgt := fresh m\<rparr>)\<rparr>"
      have c: "cells m' a = (if a = p then Some (n\<lparr>rgt := fresh m\<rparr>)
          else if a = fresh m then Some \<lparr>val = v, lft = 0, rgt = 0\<rparr> else cells m a)" for a
        by (simp add: m'_def m1(3))
      have "insert_descend m p v = retM m'"
        using n gt True m1(1,2) by (subst insert_descend.simps) (simp add: load_ok m'_def)
      moreover have "cells m' p = Some (n\<lparr>rgt := fresh m\<rparr>)"
          "cells m' (fresh m) = Some \<lparr>val = v, lft = 0, rgt = 0\<rparr>"
        using m1(6) c [of p] c [of "fresh m"] by simp_all
      moreover have "tree_at (cells m') (lft n) l"
        using Node.prems(3) out n(3) by (intro tree_at_frame [OF n(5)]) (auto simp: c)
      moreover have "grown (addrs (Node l x r)) m m'" "cout m' = cout m"
        using m1(4,5) n(3) by (auto simp: m'_def elim: grown_mono)
      ultimately show ?thesis
        using n(1-4) gt True m1(6) Node.prems(4) by (intro exI [of _ m']) simp
    next
      case False
      obtain m' where m': "insert_descend m (rgt n) v = retM m'" "tree_at (cells m') (rgt n) (ins (fresh m) v r)"
          "grown (addrs r) m m'" "cout m' = cout m"
        using Node.IH(2) [OF n(6) False] Node.prems by auto
      have "insert_descend m p v = retM m'"
        using n gt m'(1) False by (subst insert_descend.simps) (auto simp: load_ok tree_at_0)
      moreover have "tree_at (cells m') (lft n) l"
        using Node.prems(3) out m'(3) by (intro tree_at_frame [OF n(5)]) (auto simp: grown_def)
      moreover have "cells m' p = Some n"
        using Node.prems(3) out m'(3) n by (auto simp: grown_def)
      ultimately show ?thesis
        using n gt m' by (intro exI [of _ m']) (auto elim: grown_mono)
    qed
  qed
qed

lemma insert_descend_dup:
  assumes "tree_at (cells m) p t" "ordered_tree t" "v \<in> keys t"
  shows "insert_descend m p v = Some (Inl (Thrown ''value already exist''))"
  using assms
proof (induction t arbitrary: p)
  case Leaf
  then show ?case by simp
next
  case (Node l x r)
  then obtain n where n: "cells m p = Some n" "p \<noteq> 0" "val n = snd x"
      "tree_at (cells m) (lft n) l" "tree_at (cells m) (rgt n) r" by auto
  have "v < snd x \<longrightarrow> v \<in> keys l" "snd x < v \<longrightarrow> v \<in> keys r" using Node.prems by fastforce+
  moreover have "v \<in> keys l \<longrightarrow> lft n \<noteq> 0" "v \<in> keys r \<longrightarrow> rgt n \<noteq> 0"
    using n(4,5) by (metis empty_iff keys_simps(1) tree_at_0)+
  ultimately show ?case using Node n
    by (subst insert_descend.simps) (auto simp: load_ok)
qed

section \<open>Search, minimum and maximum\<close>

lemma search_finds:
  assumes "tree_at (cells m) p t" "ordered_tree t"
  shows "\<exists>q. search m p v = retM q \<and> (if v \<in> keys t then q \<noteq> 0 \<and> (\<exists>n. cells m q = Some n \<and> val n = v) else q = 0)"
  using assms
proof (induction t arbitrary: p)
  case Leaf
  then show ?case by (subst search.simps) simp
next
  case (Node l x r)
  then obtain n where n: "cells m p = Some n" "p \<noteq> 0" "val n = snd x"
      "tree_at (cells m) (lft n) l" "tree_at (cells m) (rgt n) r" by auto
  consider "v < snd x" "v \<in> keys (Node l x r) \<longleftrightarrow> v \<in> keys l"
    | "snd x < v" "v \<in> keys (Node l x r) \<longleftrightarrow> v \<in> keys r" | "v = snd x"
    using Node.prems(2) by fastforce
  then show ?case
    using Node.IH(1) [OF n(4)] Node.IH(2) [OF n(5)] Node.prems(2) n
    by cases (subst search.simps, simp add: load_ok)+
qed

lemma min_loop_finds:
  assumes "tree_at (cells m) p t" "ordered_tree t" "t \<noteq> Leaf"
  shows "\<exists>q n. min_loop m p pre = retM q \<and> q \<noteq> 0 \<and> cells m q = Some n \<and> val n = Min (keys t)"
  using assms
proof (induction t arbitrary: p pre)
  case Leaf
  then show ?case by simp
next
  case (Node l x r)
  then obtain n where n: "cells m p = Some n" "p \<noteq> 0" "val n = snd x" "tree_at (cells m) (lft n) l" by auto
  have fin: "finite (keys s)" for s by (simp add: keys_def)
  show ?case
  proof (cases "l = Leaf")
    case True
    have "Min (keys (Node l x r)) = snd x"
      using Node.prems(2) True fin [of r] by (intro Min_eqI) (auto simp: less_imp_le)
    then show ?thesis using n True
      by (subst min_loop.simps, subst min_loop.simps) (simp add: load_ok)
  next
    case False
    then have ne: "keys l \<noteq> {}" by (cases l) auto
    then have "Min (keys l) \<in> keys l" using fin by simp
    then have "Min (keys (Node l x r)) = Min (keys l)"
      using Node.prems(2) fin by (intro Min_eqI) (auto simp: less_imp_le dest: bspec intro: Min_le, fastforce)
    then show ?thesis using Node.IH(1) [OF n(4)] Node.prems(2) False n
      by (subst min_loop.simps) (simp add: load_ok)
  qed
qed

lemma max_loop_finds:
  assumes "tree_at (cells m) p t" "ordered_tree t" "t \<noteq> Leaf"
  shows "\<exists>q n. max_loop m p pre = retM q \<and> q \<noteq> 0 \<and> cells m q = Some n \<and> val n = Max (keys t)"
  using assms
proof (induction t arbitrary: p pre)
  case Leaf
  then show ?case by simp
next
  case (Node l x r)
  then obtain n where n: "cells m p = Some n" "p \<noteq> 0" "val n = snd x" "tree_at (cells m) (rgt n) r" by auto
  have fin: "finite (keys s)" for s by (simp add: keys_def)
  show ?case
  proof (cases "r = Leaf")
    case True
    have "Max (keys (Node l x r)) = snd x"
      using Node.prems(2) True fin [of l] by (intro Max_eqI) (auto simp: less_imp_le)
    then show ?thesis using n True
      by (subst max_loop.simps, subst max_loop.simps) (simp add: load_ok)
  next
    case False
    then have ne: "keys r \<noteq> {}" by (cases r) auto
    then have "Max (keys r) \<in> keys r" using fin by simp
    then have "Max (keys (Node l x r)) = Max (keys r)"
      using Node.prems(2) fin by (intro Max_eqI) (auto simp: less_imp_le dest: bspec intro: Max_ge, fastforce)
    then show ?thesis using Node.IH(2) [OF n(4)] Node.prems(2) False n
      by (subst max_loop.simps) (simp add: load_ok)
  qed
qed

end
