(* ===== verification/TreeBalance.thy ===== *)
theory TreeBalance
  imports TreeInsert
begin

text \<open>
  The balanced insertion: as a function on trees it keeps the depths balanced, and what it does to
  the store is that function.
\<close>

section \<open>Rotations of trees\<close>

fun rotr :: "'a tree \<Rightarrow> 'a tree" where
  "rotr (Node (Node a x b) y c) = Node a x (Node b y c)"
| "rotr t = t"

fun rotl :: "'a tree \<Rightarrow> 'a tree" where
  "rotl (Node a x (Node b y c)) = Node (Node a x b) y c"
| "rotl t = t"

text \<open>\<open>son && P(son->value)\<close>.\<close>

definition at_root :: "(int \<Rightarrow> bool) \<Rightarrow> (ptr \<times> int) tree \<Rightarrow> bool" where
  "at_root P t = (case t of Leaf \<Rightarrow> False | Node l x r \<Rightarrow> P (snd x))"

lemma at_root_simps [simp]: "\<not> at_root P Leaf" "at_root P (Node l x r) = P (snd x)"
  by (simp_all add: at_root_def)

definition b_fix :: "int \<Rightarrow> (ptr \<times> int) tree \<Rightarrow> (ptr \<times> int) tree" where
  "b_fix v t = (case t of Leaf \<Rightarrow> Leaf | Node l x r \<Rightarrow>
     let sub = int (height l) - int (height r) in
     if sub > 1 \<and> at_root (\<lambda>k. k > v) l then rotr t
     else if sub > 1 \<and> at_root (\<lambda>k. k < v) l then rotr (Node (rotl l) x r)
     else if sub < -1 \<and> at_root (\<lambda>k. k < v) r then rotl t
     else if sub < -1 \<and> at_root (\<lambda>k. k > v) r then rotl (Node l x (rotr r))
     else t)"

fun b_ins :: "ptr \<Rightarrow> int \<Rightarrow> (ptr \<times> int) tree \<Rightarrow> (ptr \<times> int) tree" where
  "b_ins a v Leaf = Node Leaf (a, v) Leaf"
| "b_ins a v (Node l x r) =
     (if snd x > v then b_fix v (Node (b_ins a v l) x r)
      else if snd x < v then b_fix v (Node l x (b_ins a v r))
      else Node l x r)"

lemma inorder_rot [simp]: "Tree.inorder (rotr t) = Tree.inorder t" "Tree.inorder (rotl t) = Tree.inorder t"
  by (cases t rule: rotr.cases; simp) (cases t rule: rotl.cases; simp)

lemma inorder_b_fix: "Tree.inorder (b_fix v t) = Tree.inorder t"
  by (cases t) (simp_all add: b_fix_def Let_def del: rotr.simps rotl.simps)

text \<open>The nodes are those of the plain insertion, in the same order.\<close>

lemma inorder_b_ins: "Tree.inorder (b_ins a v t) = Tree.inorder (ins a v t)"
  by (induction t) (simp_all add: inorder_b_fix)

lemma b_ins_facts:
  "keys (b_ins a v t) = insert v (keys t)"
  "ordered_tree t \<Longrightarrow> ordered_tree (b_ins a v t)"
  "ordered_tree t \<Longrightarrow> v \<notin> keys t \<Longrightarrow> addrs (b_ins a v t) = insert a (addrs t)"
  "ordered_tree t \<Longrightarrow> v \<notin> keys t \<Longrightarrow> a \<notin> addrs t \<Longrightarrow> sep t \<Longrightarrow> sep (b_ins a v t)"
  using keys_ins [of a v t] ordered_tree_ins [of t a v] addrs_ins [of t v a] sep_ins [of t v a]
  by (simp_all add: keys_def ordered_tree_def addrs_def sep_def in_vals_def inorder_b_ins)

section \<open>Balance\<close>

text \<open>
  An insertion that makes a tree deeper leaves the new value on its deeper side, so the case
  distinction on the value finds the right rotation.
\<close>

definition tilted :: "int \<Rightarrow> (ptr \<times> int) tree \<Rightarrow> (ptr \<times> int) tree \<Rightarrow> bool" where
  "tilted v t t' \<longleftrightarrow> height t' = height t \<or> height t' = height t + 1 \<and>
     (t = Leaf \<or> (\<exists>l x r. t' = Node l x r \<and>
        (v < snd x \<and> height l = height r + 1 \<or> snd x < v \<and> height r = height l + 1)))"

lemma avl_node: "avl (Node l x r) \<longleftrightarrow> avl l \<and> avl r \<and> height l \<le> height r + 1 \<and> height r \<le> height l + 1"
  by auto

lemma height_0: "height t < 2 \<Longrightarrow> Suc 0 \<noteq> height t \<Longrightarrow> t = Leaf"
  by (metis One_nat_def eq_height_0 less_2_cases)

lemma b_fix_left:
  assumes "avl (Node l x r)" "avl l'" "tilted v l l'" "v < snd x"
  shows "avl (b_fix v (Node l' x r)) \<and> tilted v (Node l x r) (b_fix v (Node l' x r))"
proof (cases "height l' \<le> height r + 1")
  case True
  then have "b_fix v (Node l' x r) = Node l' x r"
    using assms by (auto simp: b_fix_def Let_def avl_node tilted_def)
  then show ?thesis using assms True by (auto simp: avl_node tilted_def dest: height_0)
next
  case False
  then have h: "height l' = height r + 2" "height l' = height l + 1" "l \<noteq> Leaf"
    using assms by (auto simp: avl_node tilted_def)
  then obtain ll y lr where l': "l' = Node ll y lr"
      "v < snd y \<and> height ll = height lr + 1 \<or> snd y < v \<and> height lr = height ll + 1"
    using assms(3) by (auto simp: tilted_def)
  from l'(2) show ?thesis
  proof (elim disjE conjE)
    assume "v < snd y" "height ll = height lr + 1"
    then show ?thesis using assms h l'(1) by (auto simp: b_fix_def avl_node tilted_def)
  next
    assume y: "snd y < v" "height lr = height ll + 1"
    then obtain b z c where lr: "lr = Node b z c" by (cases lr) auto
    have "b_fix v (Node l' x r) = Node (Node ll y b) z (Node c x r)"
      using y h l'(1) lr by (simp add: b_fix_def)
    moreover have "height b \<le> height r" "height c \<le> height r" "height r \<le> height b + 1" "height r \<le> height c + 1"
        "height r = height b \<or> height r = height c" "height ll = height r"
      using y h l'(1) lr assms(2) by (auto simp: avl_node)
    ultimately show ?thesis using assms(1,2) h l'(1) lr
      by (auto simp: avl_node tilted_def max_def)
  qed
qed

lemma b_fix_right:
  assumes "avl (Node l x r)" "avl r'" "tilted v r r'" "snd x < v"
  shows "avl (b_fix v (Node l x r')) \<and> tilted v (Node l x r) (b_fix v (Node l x r'))"
proof (cases "height r' \<le> height l + 1")
  case True
  then have "b_fix v (Node l x r') = Node l x r'"
    using assms by (auto simp: b_fix_def Let_def avl_node tilted_def)
  then show ?thesis using assms True by (auto simp: avl_node tilted_def dest: height_0)
next
  case False
  then have h: "height r' = height l + 2" "height r' = height r + 1" "r \<noteq> Leaf"
    using assms by (auto simp: avl_node tilted_def)
  then obtain rl y rr where r': "r' = Node rl y rr"
      "v < snd y \<and> height rl = height rr + 1 \<or> snd y < v \<and> height rr = height rl + 1"
    using assms(3) by (auto simp: tilted_def)
  from r'(2) show ?thesis
  proof (elim disjE conjE)
    assume "snd y < v" "height rr = height rl + 1"
    then show ?thesis using assms h r'(1) by (auto simp: b_fix_def avl_node tilted_def)
  next
    assume y: "v < snd y" "height rl = height rr + 1"
    then obtain b z c where rl: "rl = Node b z c" by (cases rl) auto
    have "b_fix v (Node l x r') = Node (Node l x b) z (Node c y rr)"
      using y h r'(1) rl by (simp add: b_fix_def)
    moreover have "height b \<le> height l" "height c \<le> height l" "height l \<le> height b + 1" "height l \<le> height c + 1"
        "height l = height b \<or> height l = height c" "height rr = height l"
      using y h r'(1) rl assms(2) by (auto simp: avl_node)
    ultimately show ?thesis using assms(1,2) h r'(1) rl
      by (auto simp: avl_node tilted_def max_def)
  qed
qed

lemma b_ins_avl: "avl t \<Longrightarrow> v \<notin> keys t \<Longrightarrow> avl (b_ins a v t) \<and> tilted v t (b_ins a v t)"
proof (induction t)
  case Leaf
  then show ?case by (simp add: tilted_def)
next
  case (Node l x r)
  consider "v < snd x" | "snd x < v" using Node.prems(2) by fastforce
  then show ?case
    using Node b_fix_left [of l x r "b_ins a v l" v] b_fix_right [of l x r "b_ins a v r" v]
    by cases auto
qed

text \<open>Where the double rotations are chosen, the node they lift exists.\<close>

definition rotatable :: "int \<Rightarrow> (ptr \<times> int) tree \<Rightarrow> (ptr \<times> int) tree \<Rightarrow> bool" where
  "rotatable v l r \<longleftrightarrow>
     (height l > height r + 1 \<longrightarrow> at_root (\<lambda>k. k < v) l \<longrightarrow> (\<exists>a x b y c. l = Node a x (Node b y c))) \<and>
     (height r > height l + 1 \<longrightarrow> at_root (\<lambda>k. k > v) r \<longrightarrow> (\<exists>a x b y c. r = Node (Node a x b) y c))"

lemma rotatable_left:
  assumes "avl (Node l x r)" "tilted v l l'" shows "rotatable v l' r"
proof -
  have "\<exists>a x b y c. l' = Node a x (Node b y c)" if h: "height l' > height r + 1" "at_root (\<lambda>k. k < v) l'"
  proof -
    have "height l' = height l + 1" "l \<noteq> Leaf" using assms h by (auto simp: avl_node tilted_def)
    then obtain a y b where "l' = Node a y b" "height b = height a + 1"
      using assms(2) h(2) by (auto simp: tilted_def)
    then show ?thesis by (cases b) auto
  qed
  moreover have "height r \<le> height l' + 1" using assms by (auto simp: avl_node tilted_def)
  ultimately show ?thesis by (simp add: rotatable_def)
qed

lemma rotatable_right:
  assumes "avl (Node l x r)" "tilted v r r'" shows "rotatable v l r'"
proof -
  have "\<exists>a x b y c. r' = Node (Node a x b) y c" if h: "height r' > height l + 1" "at_root (\<lambda>k. k > v) r'"
  proof -
    have "height r' = height r + 1" "r \<noteq> Leaf" using assms h by (auto simp: avl_node tilted_def)
    then obtain a y b where "r' = Node a y b" "height a = height b + 1"
      using assms(2) h(2) by (auto simp: tilted_def)
    then show ?thesis by (cases a) auto
  qed
  moreover have "height l \<le> height r' + 1" using assms by (auto simp: avl_node tilted_def)
  ultimately show ?thesis by (simp add: rotatable_def)
qed

end
