(* ===== verification/BalanceInsert.thy ===== *)
theory BalanceInsert
  imports TreeBalance
begin

text \<open>
  The rotations and the balanced insertion on the store, against the functions on trees.
\<close>

section \<open>Rotations in the store\<close>

text \<open>\<open>m'\<close> is \<open>m\<close> with changes at the addresses \<open>A\<close> and more output.\<close>

definition changed :: "ptr set \<Rightarrow> bt_mem \<Rightarrow> bt_mem \<Rightarrow> bool" where
  "changed A m m' \<longleftrightarrow> wf_mem m' \<and> fresh m' = fresh m \<and> (\<forall>a. a \<notin> A \<longrightarrow> cells m' a = cells m a)"

lemma changed_refl: "wf_mem m \<Longrightarrow> changed A m m"
  by (simp add: changed_def)

lemma changed_trans: "changed A m m1 \<Longrightarrow> changed A m1 m2 \<Longrightarrow> changed A m m2"
  by (simp add: changed_def)

lemma changed_mono: "changed A m m' \<Longrightarrow> A \<subseteq> B \<Longrightarrow> changed B m m'"
  by (auto simp: changed_def)

lemma changed_upd:
  "wf_mem m \<Longrightarrow> cells m p \<noteq> None \<Longrightarrow> changed {p} m (m\<lparr>cells := (cells m)(p \<mapsto> n)\<rparr>)"
  by (simp add: changed_def wf_upd)

text \<open>What the right rotation writes.\<close>

definition rr_text :: "int \<Rightarrow> string" where
  "rr_text v = ''right rotation node is: '' @ fmt_d v @ endl"

text \<open>Two nodes change, the trees below them stay.\<close>

lemma bt_right_rotation_runs:
  assumes t: "tree_at (cells m) p (Node (Node a y b) x c)" "sep (Node (Node a y b) x c)" and wf: "wf_mem m"
  shows "\<exists>q m'. bt_right_rotation m p = Inr (q, m') \<and> tree_at (cells m') q (rotr (Node (Node a y b) x c)) \<and>
     changed (addrs (Node (Node a y b) x c)) m m' \<and> cout m' = cout m @ rr_text (snd x)"
proof -
  obtain n k where n: "p \<noteq> 0" "p = fst x" "cells m p = Some n" "val n = snd x" "tree_at (cells m) (rgt n) c"
    and k: "lft n \<noteq> 0" "lft n = fst y" "cells m (lft n) = Some k" "val k = snd y"
      "tree_at (cells m) (lft k) a" "tree_at (cells m) (rgt k) b"
    using t(1) by auto
  have ne: "lft n \<noteq> p" using t(2) n k by auto
  let ?h = "(cells m)(lft n \<mapsto> k\<lparr>rgt := p\<rparr>, p \<mapsto> n\<lparr>lft := rgt k\<rparr>)"
  define m' where "m' = print m (''right rotation node is: '' @ fmt_d (val n) @ endl)\<lparr>cells := ?h\<rparr>"
  have run: "bt_right_rotation m p = Inr (lft n, m')"
    using n k ne by (simp add: bt_right_rotation_def Let_def modify_ok load_ok m'_def)
  have "cells m' = ?h" by (simp add: m'_def)
  then have out: "cells m' z = cells m z" if "z \<noteq> p" "z \<noteq> lft n" for z using that by simp
  have at: "cells m' p = Some (n\<lparr>lft := rgt k\<rparr>)" "cells m' (lft n) = Some (k\<lparr>rgt := p\<rparr>)"
    using ne by (simp_all add: m'_def)
  have sub: "tree_at (cells m') (lft k) a" "tree_at (cells m') (rgt k) b" "tree_at (cells m') (rgt n) c"
    using t(2) n(2) k(2) by (auto intro!: tree_at_frame [OF k(5)] tree_at_frame [OF k(6)] tree_at_frame [OF n(5)] out)
  have "wf_mem m'" using wf n k by (auto simp: wf_mem_def m'_def)
  then have "changed (addrs (Node (Node a y b) x c)) m m'"
    unfolding changed_def using n(2) k(2) out by (auto simp: m'_def)
  moreover have "tree_at (cells m') (lft n) (rotr (Node (Node a y b) x c))"
    using n(1-4) k(1-4) at sub by simp
  moreover have "cout m' = cout m @ rr_text (snd x)" by (simp add: m'_def rr_text_def n(4))
  ultimately show ?thesis using run by blast
qed

lemma bt_left_rotation_runs:
  assumes t: "tree_at (cells m) p (Node a x (Node b y c))" "sep (Node a x (Node b y c))" and wf: "wf_mem m"
  shows "\<exists>q m'. bt_left_rotation m p = Inr (q, m') \<and> tree_at (cells m') q (rotl (Node a x (Node b y c))) \<and>
     changed (addrs (Node a x (Node b y c))) m m' \<and> cout m' = cout m"
proof -
  obtain n k where n: "p \<noteq> 0" "p = fst x" "cells m p = Some n" "val n = snd x" "tree_at (cells m) (lft n) a"
    and k: "rgt n \<noteq> 0" "rgt n = fst y" "cells m (rgt n) = Some k" "val k = snd y"
      "tree_at (cells m) (lft k) b" "tree_at (cells m) (rgt k) c"
    using t(1) by auto
  have ne: "rgt n \<noteq> p" using t(2) n k by auto
  let ?h = "(cells m)(rgt n \<mapsto> k\<lparr>lft := p\<rparr>, p \<mapsto> n\<lparr>rgt := lft k\<rparr>)"
  define m' where "m' = m\<lparr>cells := ?h\<rparr>"
  have run: "bt_left_rotation m p = Inr (rgt n, m')"
    using n k ne by (simp add: bt_left_rotation_def Let_def modify_ok load_ok m'_def)
  have "cells m' = ?h" by (simp add: m'_def)
  then have out: "cells m' z = cells m z" if "z \<noteq> p" "z \<noteq> rgt n" for z using that by simp
  have at: "cells m' p = Some (n\<lparr>rgt := lft k\<rparr>)" "cells m' (rgt n) = Some (k\<lparr>lft := p\<rparr>)"
    using ne by (simp_all add: m'_def)
  have sub: "tree_at (cells m') (lft k) b" "tree_at (cells m') (rgt k) c" "tree_at (cells m') (lft n) a"
    using t(2) n(2) k(2) by (auto intro!: tree_at_frame [OF k(5)] tree_at_frame [OF k(6)] tree_at_frame [OF n(5)] out)
  have "wf_mem m'" using wf n k by (auto simp: wf_mem_def m'_def)
  then have "changed (addrs (Node a x (Node b y c))) m m'"
    unfolding changed_def using n(2) k(2) out by (auto simp: m'_def)
  moreover have "tree_at (cells m') (rgt n) (rotl (Node a x (Node b y c)))"
    using n(1-4) k(1-4) at sub by simp
  moreover have "cout m' = cout m" by (simp add: m'_def)
  ultimately show ?thesis using run by blast
qed

text \<open>A son is replaced by a tree with the same addresses.\<close>

lemma tree_at_node:
  "tree_at h p (Node l x r) \<longleftrightarrow> p \<noteq> 0 \<and> p = fst x \<and>
     (\<exists>n. h p = Some n \<and> val n = snd x \<and> tree_at h (lft n) l \<and> tree_at h (rgt n) r)"
  by simp

lemma relink_left:
  assumes "tree_at (cells m) p (Node l x r)" "sep (Node l x r)" "changed (addrs l) m m1"
    and q: "tree_at (cells m1) q l'" "fst x \<notin> addrs l'"
  shows "\<exists>m2. modify m1 p (\<lambda>k. k\<lparr>lft := q\<rparr>) = Inr m2 \<and> tree_at (cells m2) p (Node l' x r) \<and>
     changed (addrs (Node l x r)) m m2 \<and> cout m2 = cout m1"
proof -
  obtain n where n: "p \<noteq> 0" "p = fst x" "cells m p = Some n" "val n = snd x" "tree_at (cells m) (rgt n) r"
    using assms(1) by auto
  have c: "cells m1 p = Some n" "wf_mem m1" using assms(2,3) n by (auto simp: changed_def)
  define m2 where "m2 = m1\<lparr>cells := (cells m1)(p \<mapsto> n\<lparr>lft := q\<rparr>)\<rparr>"
  have "modify m1 p (\<lambda>k. k\<lparr>lft := q\<rparr>) = Inr m2" using n(1) c(1) by (simp add: modify_ok m2_def)
  moreover have "tree_at (cells m2) (rgt n) r"
    using assms(2,3) n(2) by (intro tree_at_frame [OF n(5)]) (auto simp: m2_def changed_def)
  moreover have "tree_at (cells m2) q l'"
    using q n(2) by (intro tree_at_frame [OF q(1)]) (auto simp: m2_def)
  moreover have "cells m2 p = Some (n\<lparr>lft := q\<rparr>)" by (simp add: m2_def)
  moreover have "changed {p} m1 m2" using changed_upd [of m1 p] c by (simp add: m2_def)
  then have "changed (addrs (Node l x r)) m1 m2" by (rule changed_mono) (use n(2) in simp)
  with changed_mono [OF assms(3)] have "changed (addrs (Node l x r)) m m2"
    by (rule changed_trans) auto
  moreover have "cout m2 = cout m1" by (simp add: m2_def)
  ultimately show ?thesis using n by (intro exI [of _ m2]) simp
qed

lemma relink_right:
  assumes "tree_at (cells m) p (Node l x r)" "sep (Node l x r)" "changed (addrs r) m m1"
    and q: "tree_at (cells m1) q r'" "fst x \<notin> addrs r'"
  shows "\<exists>m2. modify m1 p (\<lambda>k. k\<lparr>rgt := q\<rparr>) = Inr m2 \<and> tree_at (cells m2) p (Node l x r') \<and>
     changed (addrs (Node l x r)) m m2 \<and> cout m2 = cout m1"
proof -
  obtain n where n: "p \<noteq> 0" "p = fst x" "cells m p = Some n" "val n = snd x" "tree_at (cells m) (lft n) l"
    using assms(1) by auto
  have c: "cells m1 p = Some n" "wf_mem m1" using assms(2,3) n by (auto simp: changed_def)
  define m2 where "m2 = m1\<lparr>cells := (cells m1)(p \<mapsto> n\<lparr>rgt := q\<rparr>)\<rparr>"
  have "modify m1 p (\<lambda>k. k\<lparr>rgt := q\<rparr>) = Inr m2" using n(1) c(1) by (simp add: modify_ok m2_def)
  moreover have "tree_at (cells m2) (lft n) l"
    using assms(2,3) n(2) by (intro tree_at_frame [OF n(5)]) (auto simp: m2_def changed_def)
  moreover have "tree_at (cells m2) q r'"
    using q n(2) by (intro tree_at_frame [OF q(1)]) (auto simp: m2_def)
  moreover have "cells m2 p = Some (n\<lparr>rgt := q\<rparr>)" by (simp add: m2_def)
  moreover have "changed {p} m1 m2" using changed_upd [of m1 p] c by (simp add: m2_def)
  then have "changed (addrs (Node l x r)) m1 m2" by (rule changed_mono) (use n(2) in simp)
  with changed_mono [OF assms(3)] have "changed (addrs (Node l x r)) m m2"
    by (rule changed_trans) auto
  moreover have "cout m2 = cout m1" by (simp add: m2_def)
  ultimately show ?thesis using n by (intro exI [of _ m2]) simp
qed

lemma addrs_rot [simp]: "addrs (rotr t) = addrs t" "addrs (rotl t) = addrs t"
  by (simp_all add: addrs_def)

lemma sep_rot [simp]: "sep (rotr t) = sep t" "sep (rotl t) = sep t"
  by (simp_all add: sep_def)

lemma right_left_rotation_runs:
  assumes t: "tree_at (cells m) p (Node (Node a y (Node b z c)) x r)"
    and sep: "sep (Node (Node a y (Node b z c)) x r)" and wf: "wf_mem m"
  shows "\<exists>q m'. right_left_rotation m p = Inr (q, m') \<and>
     tree_at (cells m') q (rotr (Node (rotl (Node a y (Node b z c))) x r)) \<and> changed (addrs (Node (Node a y (Node b z c)) x r)) m m' \<and>
     cout m' = cout m @ rr_text (snd x)"
proof -
  let ?t = "Node (Node a y (Node b z c)) x r"
  let ?l = "Node a y (Node b z c)"
  obtain n where n: "p \<noteq> 0" "cells m p = Some n" "tree_at (cells m) (lft n) ?l" using t by auto
  obtain q1 m1 where q1: "bt_left_rotation m (lft n) = Inr (q1, m1)" "tree_at (cells m1) q1 (rotl ?l)" "changed (addrs ?l) m m1" "cout m1 = cout m"
    using bt_left_rotation_runs [OF n(3) _ wf] sep by auto
  have "fst x \<notin> addrs (rotl ?l)" using sep by (simp only: addrs_rot sep_simps simp_thms)
  then obtain m2 where m2: "modify m1 p (\<lambda>k. k\<lparr>lft := q1\<rparr>) = Inr m2" "tree_at (cells m2) p (Node (rotl ?l) x r)"
      "changed (addrs ?t) m m2" "cout m2 = cout m1"
    using relink_left [OF t sep q1(3,2)] by blast
  have "sep (Node (rotl ?l) x r)" using sep by (simp only: sep_simps addrs_rot sep_rot simp_thms)
  then obtain q m' where "bt_right_rotation m2 p = Inr (q, m')" "tree_at (cells m') q (rotr (Node (rotl ?l) x r))"
      "changed (addrs (Node (rotl ?l) x r)) m2 m'" "cout m' = cout m2 @ rr_text (snd x)"
    using bt_right_rotation_runs [of m2 p "Node a y b" z c x r] m2(2,3) by (auto simp: changed_def)
  moreover have "addrs (Node (rotl ?l) x r) = addrs ?t" by auto
  ultimately show ?thesis
    using n(1,2) q1(1,4) m2 by (auto simp: right_left_rotation_def load_ok intro: changed_trans)
qed

lemma left_right_rotation_runs:
  assumes t: "tree_at (cells m) p (Node l x (Node (Node a z b) y c))"
    and sep: "sep (Node l x (Node (Node a z b) y c))" and wf: "wf_mem m"
  shows "\<exists>q m'. left_right_rotation m p = Inr (q, m') \<and>
     tree_at (cells m') q (rotl (Node l x (rotr (Node (Node a z b) y c)))) \<and> changed (addrs (Node l x (Node (Node a z b) y c))) m m' \<and>
     cout m' = cout m @ rr_text (snd y)"
proof -
  let ?t = "Node l x (Node (Node a z b) y c)"
  let ?r = "Node (Node a z b) y c"
  obtain n where n: "p \<noteq> 0" "cells m p = Some n" "tree_at (cells m) (rgt n) ?r" using t by auto
  obtain q1 m1 where q1: "bt_right_rotation m (rgt n) = Inr (q1, m1)" "tree_at (cells m1) q1 (rotr ?r)" "changed (addrs ?r) m m1" "cout m1 = cout m @ rr_text (snd y)"
    using bt_right_rotation_runs [OF n(3) _ wf] sep by auto
  have "fst x \<notin> addrs (rotr ?r)" using sep by (simp only: addrs_rot sep_simps simp_thms)
  then obtain m2 where m2: "modify m1 p (\<lambda>k. k\<lparr>rgt := q1\<rparr>) = Inr m2" "tree_at (cells m2) p (Node l x (rotr ?r))"
      "changed (addrs ?t) m m2" "cout m2 = cout m1"
    using relink_right [OF t sep q1(3,2)] by blast
  have "sep (Node l x (rotr ?r))" using sep by (simp only: sep_simps addrs_rot sep_rot simp_thms)
  then obtain q m' where "bt_left_rotation m2 p = Inr (q, m')" "tree_at (cells m') q (rotl (Node l x (rotr ?r)))"
      "changed (addrs (Node l x (rotr ?r))) m2 m'" "cout m' = cout m2"
    using bt_left_rotation_runs [of m2 p l x a z "Node b y c"] m2(2,3) by (auto simp: changed_def)
  moreover have "addrs (Node l x (rotr ?r)) = addrs ?t" by auto
  ultimately show ?thesis
    using n(1,2) q1(1,4) m2 by (auto simp: left_right_rotation_def load_ok intro: changed_trans)
qed

text \<open>
  The balanced insertion on the store implements the insertion on trees, and what \<open>balance_delete\<close>
  does.
\<close>

section \<open>The choice of a rotation\<close>

lemma cmp_son_at_root: "tree_at (cells m) q t \<Longrightarrow> cmp_son m q P = Inr (at_root P t)"
  by (cases t) (auto simp: cmp_son_def load_ok)

lemma at_rootD: "at_root P t \<Longrightarrow> \<exists>l x r. t = Node l x r"
  by (cases t) auto

lemma rebalance_choice:
  assumes t: "tree_at (cells m) p (Node l x r)" and d: "d = int (height l) - int (height r)"
  shows "rebalance m p v d =
     (if d > 1 \<and> at_root (\<lambda>k. k > v) l then bt_right_rotation m p
      else if d > 1 \<and> at_root (\<lambda>k. k < v) l then right_left_rotation m p
      else if d < -1 \<and> at_root (\<lambda>k. k < v) r then bt_left_rotation m p
      else if d < -1 \<and> at_root (\<lambda>k. k > v) r then left_right_rotation m p
      else Inr (p, m))"
proof -
  obtain n where n: "p \<noteq> 0" "cells m p = Some n" "tree_at (cells m) (lft n) l" "tree_at (cells m) (rgt n) r"
    using t by auto
  then show ?thesis
    by (simp add: rebalance_def load_ok cmp_son_at_root [OF n(3)] cmp_son_at_root [OF n(4)])
qed

text \<open>What the rotation of a node writes, and what the whole insertion writes.\<close>

definition fix_out :: "int \<Rightarrow> (ptr \<times> int) tree \<Rightarrow> string" where
  "fix_out v t = (case t of Leaf \<Rightarrow> [] | Node l x r \<Rightarrow>
     let d = int (height l) - int (height r) in
     if d > 1 \<and> (at_root (\<lambda>k. k > v) l \<or> at_root (\<lambda>k. k < v) l) then rr_text (snd x)
     else if d < -1 \<and> at_root (\<lambda>k. k > v) r then (case r of Leaf \<Rightarrow> [] | Node _ y _ \<Rightarrow> rr_text (snd y))
     else [])"

fun b_out :: "ptr \<Rightarrow> int \<Rightarrow> (ptr \<times> int) tree \<Rightarrow> string" where
  "b_out a v Leaf = []"
| "b_out a v (Node l x r) =
     (if snd x > v then b_out a v l @ fix_out v (Node (b_ins a v l) x r)
      else if snd x < v then b_out a v r @ fix_out v (Node l x (b_ins a v r))
      else [])"

lemma rebalance_runs:
  assumes t: "tree_at (cells m) p (Node l x r)" "sep (Node l x r)" and wf: "wf_mem m" and rot: "rotatable v l r"
    and d: "d = int (height l) - int (height r)"
  shows "\<exists>q m'. rebalance m p v d = Inr (q, m') \<and> tree_at (cells m') q (b_fix v (Node l x r)) \<and>
     changed (addrs (Node l x r)) m m' \<and> cout m' = cout m @ fix_out v (Node l x r)"
proof -
  consider (rr) "d > 1" "at_root (\<lambda>k. k > v) l"
    | (rl) "d > 1" "\<not> at_root (\<lambda>k. k > v) l" "at_root (\<lambda>k. k < v) l"
    | (ll) "d < -1" "at_root (\<lambda>k. k < v) r"
    | (lr) "d < -1" "\<not> at_root (\<lambda>k. k < v) r" "at_root (\<lambda>k. k > v) r"
    | (no) "\<not> (d > 1 \<and> (at_root (\<lambda>k. k > v) l \<or> at_root (\<lambda>k. k < v) l))"
        "\<not> (d < -1 \<and> (at_root (\<lambda>k. k < v) r \<or> at_root (\<lambda>k. k > v) r))"
    by blast
  then show ?thesis
  proof cases
    case rr
    then have "b_fix v (Node l x r) = rotr (Node l x r)" "rebalance m p v d = bt_right_rotation m p"
        "fix_out v (Node l x r) = rr_text (snd x)"
      using d rebalance_choice [OF t(1) d] by (simp_all add: b_fix_def fix_out_def)
    moreover obtain a y b where "l = Node a y b" using at_rootD [OF rr(2)] by blast
    ultimately show ?thesis using bt_right_rotation_runs [OF _ _ wf, of p a y b x r] t by metis
  next
    case rl
    have fix_eq: "b_fix v (Node l x r) = rotr (Node (rotl l) x r)" "rebalance m p v d = right_left_rotation m p"
        "fix_out v (Node l x r) = rr_text (snd x)"
      using d rl rebalance_choice [OF t(1) d] by (simp_all add: b_fix_def fix_out_def)
    obtain a y b z c where "l = Node a y (Node b z c)"
      using rot rl d by (auto simp: rotatable_def)
    then show ?thesis using right_left_rotation_runs [OF _ _ wf, of p a y b z c x r] t fix_eq by metis
  next
    case ll
    then have "b_fix v (Node l x r) = rotl (Node l x r)" "rebalance m p v d = bt_left_rotation m p"
      using d rebalance_choice [OF t(1) d] by (simp_all add: b_fix_def)
    moreover obtain a y b where "r = Node a y b" using at_rootD [OF ll(2)] by blast
    moreover have "fix_out v (Node l x r) = []" using ll d calculation(3) by (simp add: fix_out_def)
    ultimately show ?thesis using bt_left_rotation_runs [OF _ _ wf, of p l x a y b] t by (metis append_Nil2)
  next
    case lr
    have fix_eq: "b_fix v (Node l x r) = rotl (Node l x (rotr r))" "rebalance m p v d = left_right_rotation m p"
      using d lr rebalance_choice [OF t(1) d] by (simp_all add: b_fix_def)
    obtain a z b y c where "r = Node (Node a z b) y c"
      using rot lr d by (auto simp: rotatable_def)
    moreover from this have "fix_out v (Node l x r) = rr_text (snd y)" using lr d by (simp add: fix_out_def)
    ultimately show ?thesis using left_right_rotation_runs [OF _ _ wf, of p l x a z b y c] t fix_eq by metis
  next
    case no
    have "rebalance m p v d = Inr (p, m)" using no rebalance_choice [OF t(1) d, of v] by auto
    moreover have "b_fix v (Node l x r) = Node l x r" using no d by (auto simp: b_fix_def Let_def)
    moreover have "fix_out v (Node l x r) = []" using no d by (auto simp: fix_out_def Let_def)
    ultimately show ?thesis using t changed_refl [OF wf] by (metis append_Nil2)
  qed
qed

section \<open>Insertion\<close>

lemma new_bt_tree:
  assumes "wf_mem m"
  shows "\<exists>m'. new_bt m v = (fresh m, m') \<and> tree_at (cells m') (fresh m) (Node Leaf (fresh m, v) Leaf) \<and> grown {} m m' \<and>
     cout m' = cout m"
  using assms wf_new [OF assms] by (simp add: new_bt_def new_node_def grown_def)

lemma grown_changed: "grown A m m1 \<Longrightarrow> changed (insert (fresh m) A) m1 m2 \<Longrightarrow> grown A m m2"
  by (auto simp: grown_def changed_def)

lemma grown_trans_upd:
  assumes "grown A m m1" "cells m1 p = Some n" "p \<in> B" "A \<subseteq> B"
  shows "grown B m (m1\<lparr>cells := (cells m1)(p \<mapsto> k)\<rparr>)"
  using assms wf_upd [of m1 p k] by (auto simp: grown_def)

text \<open>After the recursive call: the son is linked, the depths are compared, the node is rotated.\<close>

lemma finish_insert:
  assumes link: "tree_at (cells m2) p (Node l' x r')" "sep (Node l' x r')" "grown A m m2" "rotatable v l' r'"
    and A: "addrs (Node l' x r') = insert (fresh m) A"
  shows "\<exists>q m'. bindM (Some (load m2 p)) (\<lambda>n.
        bindM (tree_deepth m2 (lft n)) (\<lambda>dl.
        bindM (tree_deepth m2 (rgt n)) (\<lambda>dr.
        Some (rebalance m2 p v (dl - dr))))) = retM (q, m') \<and>
     tree_at (cells m') q (b_fix v (Node l' x r')) \<and> grown A m m' \<and>
     cout m' = cout m2 @ fix_out v (Node l' x r')"
proof -
  obtain n where n: "p \<noteq> 0" "cells m2 p = Some n" "tree_at (cells m2) (lft n) l'" "tree_at (cells m2) (rgt n) r'"
    using link(1) by auto
  have "wf_mem m2" using link(3) by (simp add: grown_def)
  from rebalance_runs [OF link(1,2) this link(4) refl] obtain q m' where
      "rebalance m2 p v (int (height l') - int (height r')) = Inr (q, m')"
      "tree_at (cells m') q (b_fix v (Node l' x r'))" "changed (insert (fresh m) A) m2 m'"
      "cout m' = cout m2 @ fix_out v (Node l' x r')"
    unfolding A by blast
  then show ?thesis
    using n link(3) by (auto simp: load_ok tree_deepth_height intro: grown_changed)
qed

lemma balance_insert_runs:
  assumes "tree_at (cells m) p t" "sep t" "wf_mem m" "avl t" "ordered_tree t" "v \<notin> keys t"
  shows "\<exists>q m'. balance_insert m p v = retM (q, m') \<and> tree_at (cells m') q (b_ins (fresh m) v t) \<and>
     grown (addrs t) m m' \<and> cout m' = cout m @ b_out (fresh m) v t"
  using assms
proof (induction t arbitrary: p)
  case Leaf
  then show ?case
    using new_bt_tree [of m v] by (subst balance_insert.simps) auto
next
  case (Node l x r)
  then obtain n where n: "p \<noteq> 0" "p = fst x" "cells m p = Some n" "val n = snd x"
      "tree_at (cells m) (lft n) l" "tree_at (cells m) (rgt n) r" by auto
  have fr: "fresh m \<notin> addrs (Node l x r)" using fresh_notin [OF Node.prems(1,3)] .
  consider (lt) "v < snd x" | (gt) "snd x < v" using Node.prems(6) by fastforce
  then show ?case
  proof cases
    case lt
    let ?l = "b_ins (fresh m) v l"
    obtain q1 m1 where q1: "balance_insert m (lft n) v = retM (q1, m1)" "tree_at (cells m1) q1 ?l" "grown (addrs l) m m1"
        "cout m1 = cout m @ b_out (fresh m) v l"
      using Node.IH(1) [OF n(5)] Node.prems by auto
    have kp: "cells m1 p = Some n" using q1(3) Node.prems(2) fr n(2,3) by (auto simp: grown_def)
    define m2 where "m2 = m1\<lparr>cells := (cells m1)(p \<mapsto> n\<lparr>lft := q1\<rparr>)\<rparr>"
    have md: "modify m1 p (\<lambda>k. k\<lparr>lft := q1\<rparr>) = Inr m2" using kp n(1) by (simp add: modify_ok m2_def)
    have A: "addrs ?l = insert (fresh m) (addrs l)" and sp: "sep (Node ?l x r)"
      using Node.prems fr b_ins_facts(3,4) [of l v "fresh m"] by auto
    have "cells m2 p = Some (n\<lparr>lft := q1\<rparr>)" by (simp add: m2_def)
    moreover have "tree_at (cells m2) q1 ?l"
      using sp n(2) by (intro tree_at_frame [OF q1(2)]) (auto simp: m2_def)
    moreover have "tree_at (cells m2) (rgt n) r"
      using Node.prems(2) fr n(2) q1(3) by (intro tree_at_frame [OF n(6)]) (auto simp: m2_def grown_def)
    ultimately have t2: "tree_at (cells m2) p (Node ?l x r)" using n by simp
    have o2: "cout m2 = cout m1" by (simp add: m2_def)
    have g2: "grown (addrs (Node l x r)) m m2"
      unfolding m2_def by (rule grown_trans_upd [OF q1(3) kp]) (use n(2) in auto)
    have rt: "rotatable v ?l r"
      using rotatable_left [of l x r v ?l] b_ins_avl [of l v] Node.prems by auto
    have "addrs (Node ?l x r) = insert (fresh m) (addrs (Node l x r))" using A by auto
    from finish_insert [OF t2 sp g2 rt this] show ?thesis
      using n lt q1(1,4) o2 md by (subst balance_insert.simps) (simp add: load_ok)
  next
    case gt
    let ?r = "b_ins (fresh m) v r"
    obtain q1 m1 where q1: "balance_insert m (rgt n) v = retM (q1, m1)" "tree_at (cells m1) q1 ?r" "grown (addrs r) m m1"
        "cout m1 = cout m @ b_out (fresh m) v r"
      using Node.IH(2) [OF n(6)] Node.prems by auto
    have kp: "cells m1 p = Some n" using q1(3) Node.prems(2) fr n(2,3) by (auto simp: grown_def)
    define m2 where "m2 = m1\<lparr>cells := (cells m1)(p \<mapsto> n\<lparr>rgt := q1\<rparr>)\<rparr>"
    have md: "modify m1 p (\<lambda>k. k\<lparr>rgt := q1\<rparr>) = Inr m2" using kp n(1) by (simp add: modify_ok m2_def)
    have A: "addrs ?r = insert (fresh m) (addrs r)" and sp: "sep (Node l x ?r)"
      using Node.prems fr b_ins_facts(3,4) [of r v "fresh m"] by auto
    have "cells m2 p = Some (n\<lparr>rgt := q1\<rparr>)" by (simp add: m2_def)
    moreover have "tree_at (cells m2) q1 ?r"
      using sp n(2) by (intro tree_at_frame [OF q1(2)]) (auto simp: m2_def)
    moreover have "tree_at (cells m2) (lft n) l"
      using Node.prems(2) fr n(2) q1(3) by (intro tree_at_frame [OF n(5)]) (auto simp: m2_def grown_def)
    ultimately have t2: "tree_at (cells m2) p (Node l x ?r)" using n by simp
    have o2: "cout m2 = cout m1" by (simp add: m2_def)
    have g2: "grown (addrs (Node l x r)) m m2"
      unfolding m2_def by (rule grown_trans_upd [OF q1(3) kp]) (use n(2) in auto)
    have rt: "rotatable v l ?r"
      using rotatable_right [of l x r v ?r] b_ins_avl [of r v] Node.prems by auto
    have "addrs (Node l x ?r) = insert (fresh m) (addrs (Node l x r))" using A by auto
    from finish_insert [OF t2 sp g2 rt this] show ?thesis
      using n gt q1(1,4) o2 md by (subst balance_insert.simps) (simp add: load_ok)
  qed
qed

lemma balance_insert_dup:
  assumes "tree_at (cells m) p t" "ordered_tree t" "v \<in> keys t"
  shows "balance_insert m p v = Some (Inl (Thrown ''value already exist''))"
  using assms
proof (induction t arbitrary: p)
  case Leaf
  then show ?case by simp
next
  case (Node l x r)
  then obtain n where n: "cells m p = Some n" "p \<noteq> 0" "val n = snd x"
      "tree_at (cells m) (lft n) l" "tree_at (cells m) (rgt n) r" by auto
  have "v < snd x \<longrightarrow> v \<in> keys l" "snd x < v \<longrightarrow> v \<in> keys r" using Node.prems by fastforce+
  then show ?case using Node n by (subst balance_insert.simps) (auto simp: load_ok)
qed

section \<open>Deletion\<close>

text \<open>No call of \<open>balance_delete\<close> comes back with a value.\<close>

lemma balance_delete_never:
  assumes "tree_at (cells m) p t"
  shows "\<exists>e. balance_delete m p v = Some (Inl e)"
  using assms
proof (induction t arbitrary: p)
  case Leaf
  then show ?case by (subst balance_delete.simps) simp
next
  case (Node l x r)
  then obtain n where n: "cells m p = Some n" "p \<noteq> 0"
      "tree_at (cells m) (lft n) l" "tree_at (cells m) (rgt n) r" by auto
  obtain e1 e2 where "balance_delete m (lft n) v = Some (Inl e1)" "balance_delete m (rgt n) v = Some (Inl e2)"
    using Node.IH n by meson
  then show ?case using n
    by (subst balance_delete.simps) (simp add: load_ok delete_ok load_def)
qed

end
