(* ===== verification/TreeClaims.thy ===== *)
theory TreeClaims
  imports BalanceInsert
begin

text \<open>
  The two trees built by hand, the test functions and \<open>main\<close> of \<^verbatim>\<open>tree.cpp\<close>.
\<close>

section \<open>Trees built by hand\<close>

definition link_left :: "bt_mem \<Rightarrow> ptr \<Rightarrow> ptr \<Rightarrow> fault + bt_mem" where
  "link_left m p q = modify m p (\<lambda>k. k\<lparr>lft := q\<rparr>)"

definition link_right :: "bt_mem \<Rightarrow> ptr \<Rightarrow> ptr \<Rightarrow> fault + bt_mem" where
  "link_right m p q = modify m p (\<lambda>k. k\<lparr>rgt := q\<rparr>)"

definition create_node :: "bt_mem \<Rightarrow> fault + (ptr \<times> bt_mem)" where
  "create_node m =
     (let (root, m) = new_bt m 1;
          (node_2, m) = new_bt m 2 in
     bindE (link_left m root node_2) (\<lambda>m.
     let (node_3, m) = new_bt m 3 in
     bindE (link_right m root node_3) (\<lambda>m.
     let (node_4, m) = new_bt m 4 in
     bindE (link_left m node_2 node_4) (\<lambda>m.
     let (node_5, m) = new_bt m 5 in
     bindE (link_right m node_2 node_5) (\<lambda>m.
     let (node_6, m) = new_bt m 6 in
     bindE (link_left m node_3 node_6) (\<lambda>m.
     let (node_7, m) = new_bt m 7 in
     bindE (link_right m node_3 node_7) (\<lambda>m.
     let (node_8, m) = new_bt m 8 in
     bindE (link_left m node_5 node_8) (\<lambda>m.
     let (node_9, m) = new_bt m 9 in
     bindE (link_right m node_5 node_9) (\<lambda>m.
     let (node_10, m) = new_bt m 10 in
     bindE (link_left m node_9 node_10) (\<lambda>m.
     Inr (root, m)))))))))))"

definition create_balance_tree :: "bt_mem \<Rightarrow> fault + (ptr \<times> bt_mem)" where
  "create_balance_tree m =
     (let (root, m) = new_bt m 10;
          (node_2, m) = new_bt m 5 in
     bindE (link_left m root node_2) (\<lambda>m.
     let (node_3, m) = new_bt m 11 in
     bindE (link_right m root node_3) (\<lambda>m.
     let (node_4, m) = new_bt m 3 in
     bindE (link_left m node_2 node_4) (\<lambda>m.
     let (node_5, m) = new_bt m 6 in
     bindE (link_right m node_2 node_5) (\<lambda>m.
     Inr (root, m))))))"

section \<open>The test functions\<close>

definition banner :: "string \<Rightarrow> string" where
  "banner s = ''===== '' @ s @ '' ====='' @ endl"

definition test_preorder_stack :: "bt_mem \<Rightarrow> bt_mem may" where
  "test_preorder_stack m =
     bindM (Some (create_node (print m (banner ''preorder stack'')))) (\<lambda>(root, m).
     bindM (preorder_stack m root) (\<lambda>m.
     retM (print m (endl @ banner ''preorder stack'' @ endl @ endl))))"

definition test_preorder :: "bt_mem \<Rightarrow> bt_mem may" where
  "test_preorder m =
     bindM (Some (create_node (print m (banner ''preorder'')))) (\<lambda>(root, m).
     bindM (preorder m root) (\<lambda>m.
     retM (print m (endl @ banner ''preorder'' @ endl @ endl))))"

definition test_inorder_stack :: "bt_mem \<Rightarrow> bt_mem may" where
  "test_inorder_stack m =
     bindM (Some (create_node (print m (banner ''inorder stack'')))) (\<lambda>(root, m).
     bindM (inorder_stack m root) (\<lambda>m.
     retM (print m (banner ''inorder stack'' @ endl @ endl))))"

definition test_inorder :: "bt_mem \<Rightarrow> bt_mem may" where
  "test_inorder m =
     bindM (Some (create_node (print m (banner ''inorder'')))) (\<lambda>(root, m).
     bindM (inorder m root) (\<lambda>m.
     retM (print m (endl @ banner ''inorder'' @ endl @ endl))))"

definition test_postorder_stack :: "bt_mem \<Rightarrow> bt_mem may" where
  "test_postorder_stack m =
     bindM (Some (create_node (print m (banner ''postorder stack'')))) (\<lambda>(root, m).
     bindM (postorder_stack m root) (\<lambda>m.
     retM (print m (banner ''postorder stack'' @ endl @ endl))))"

definition test_postorder :: "bt_mem \<Rightarrow> bt_mem may" where
  "test_postorder m =
     bindM (Some (create_node (print m (banner ''postorder'')))) (\<lambda>(root, m).
     bindM (postorder m root) (\<lambda>m.
     retM (print m (endl @ banner ''postorder'' @ endl @ endl))))"

definition show_bool :: "bool \<Rightarrow> string" where
  "show_bool b = (if b then ''true'' else ''false'')"

definition test_is_balance :: "bt_mem \<Rightarrow> bt_mem may" where
  "test_is_balance m =
     bindM (Some (create_node (print m (banner ''is balance'')))) (\<lambda>(node, m).
     bindM (is_balance m node) (\<lambda>b.
     retM (print m (''is balance: '' @ show_bool b @ endl @ banner ''is balance'' @ endl @ endl))))"

definition test_binary_tree_insert :: "bt_mem \<Rightarrow> bt_mem may" where
  "test_binary_tree_insert m =
     bindM (insert_node (0, m) 4) (\<lambda>tree.
     bindM (insert_node tree 2) (\<lambda>tree.
     bindM (insert_node tree 5) (\<lambda>tree.
     bindM (insert_node tree 3) (\<lambda>tree.
     bindM (insert_node tree 1) (\<lambda>(root, m).
     bindM (bt_min (root, m)) (\<lambda>p.
     bindM (Some (load m p)) (\<lambda>n.
     let m = print m (''binary tree min: '' @ fmt_d (val n) @ endl) in
     bindM (bt_max (root, m)) (\<lambda>p.
     bindM (Some (load m p)) (\<lambda>n.
     retM (print m (''binary tree max: '' @ fmt_d (val n) @ endl)))))))))))"

definition test_balance_tree_insert :: "bt_mem \<Rightarrow> bt_mem may" where
  "test_balance_tree_insert m =
     bindM (Some (create_balance_tree (print m (banner ''binary tree insert'')))) (\<lambda>(tree, m).
     bindM (balance_insert m tree 1) (\<lambda>(tree, m).
     bindM (preorder_stack (print m ''preorder: '') tree) (\<lambda>m.
     retM (print m (endl @ banner ''binary tree insert'')))))"

definition tree_main :: "bt_mem may" where
  "tree_main =
     bindM (test_preorder_stack empty_mem) (\<lambda>m.
     bindM (test_preorder m) (\<lambda>m.
     bindM (test_inorder_stack m) (\<lambda>m.
     bindM (test_inorder m) (\<lambda>m.
     bindM (test_postorder_stack m) (\<lambda>m.
     bindM (test_postorder m) (\<lambda>m.
     bindM (test_is_balance m) (\<lambda>m.
     bindM (test_binary_tree_insert m) (\<lambda>m.
     test_balance_tree_insert m))))))))"

text \<open>
  The classes as sets of integers, the contract both insertions share, and the properties of
  \<^verbatim>\<open>tree.cpp\<close>.
\<close>

section \<open>An object that holds a set\<close>

primrec add_all :: "('obj \<Rightarrow> int \<Rightarrow> 'obj may) \<Rightarrow> 'obj \<Rightarrow> int list \<Rightarrow> 'obj may" where
  "add_all add t [] = retM t"
| "add_all add t (v # vs) = bindM (add t v) (\<lambda>t. add_all add t vs)"

text \<open>
  The contract: a value that is not held is added; one that is held raises the exception.
\<close>

locale set_object =
  fixes rep :: "'obj \<Rightarrow> int set \<Rightarrow> bool" and add :: "'obj \<Rightarrow> int \<Rightarrow> 'obj may"
  assumes add_new: "rep t S \<Longrightarrow> v \<notin> S \<Longrightarrow> endsM (add t v) (\<lambda>t'. rep t' (insert v S))"
    and add_dup: "rep t S \<Longrightarrow> v \<in> S \<Longrightarrow> add t v = Some (Inl (Thrown ''value already exist''))"
begin

lemma add_all_new:
  "rep t S \<Longrightarrow> distinct vs \<Longrightarrow> set vs \<inter> S = {} \<Longrightarrow> endsM (add_all add t vs) (\<lambda>t'. rep t' (S \<union> set vs))"
proof (induction vs arbitrary: t S)
  case Nil
  then show ?case by simp
next
  case (Cons v vs)
  show ?case unfolding add_all.simps
  proof (rule endsM_bind)
    show "endsM (add t v) (\<lambda>t'. rep t' (insert v S))" using Cons.prems by (intro add_new) auto
    fix t' assume "rep t' (insert v S)"
    then show "endsM (add_all add t' vs) (\<lambda>t'. rep t' (S \<union> set (v # vs)))"
      using Cons.IH [of t' "insert v S"] Cons.prems by auto
  qed
qed

lemma add_all_dup:
  "rep t S \<Longrightarrow> \<not> (distinct vs \<and> set vs \<inter> S = {}) \<Longrightarrow> add_all add t vs = Some (Inl (Thrown ''value already exist''))"
proof (induction vs arbitrary: t S)
  case Nil
  then show ?case by simp
next
  case (Cons v vs)
  show ?case
  proof (cases "v \<in> S")
    case True
    then show ?thesis using add_dup [OF Cons.prems(1)] by simp
  next
    case False
    then obtain t' where "add t v = retM t'" "rep t' (insert v S)"
      using add_new [OF Cons.prems(1)] by (auto simp: endsM_def)
    then show ?thesis using Cons.IH [of t' "insert v S"] Cons.prems(2) False by auto
  qed
qed

end

section \<open>The two classes\<close>

definition bt_rep :: "ptr \<times> bt_mem \<Rightarrow> int set \<Rightarrow> bool" where
  "bt_rep = (\<lambda>(root, m) S. \<exists>t. tree_at (cells m) root t \<and> sep t \<and> ordered_tree t \<and> wf_mem m \<and> keys t = S)"

definition avl_rep :: "ptr \<times> bt_mem \<Rightarrow> int set \<Rightarrow> bool" where
  "avl_rep = (\<lambda>(root, m) S. \<exists>t. tree_at (cells m) root t \<and> sep t \<and> ordered_tree t \<and> wf_mem m \<and> keys t = S \<and> avl t)"

lemma rep_empty: "wf_mem m \<Longrightarrow> bt_rep (0, m) {}" "wf_mem m \<Longrightarrow> avl_rep (0, m) {}"
  by (auto simp: bt_rep_def avl_rep_def intro!: exI [of _ Leaf])

definition dump_text :: "int list \<Rightarrow> string" where
  "dump_text vs = ''===== tree preorder ====='' @ endl @ show_all vs @ endl @ ''===== tree preorder ====='' @ endl @ endl @ endl"

lemma dump_preorder_writes:
  "tree_at (cells m) p t \<Longrightarrow> dump_preorder m p = retM (print m (dump_text (pre_vals t)))"
  by (simp add: dump_preorder_def dump_text_def preorder_stack_writes)

text \<open>The insertion of the class: it writes the new tree.\<close>

lemma insert_node_runs:
  assumes t: "tree_at (cells m) root t" "sep t" "ordered_tree t" "wf_mem m" "v \<notin> keys t"
  shows "\<exists>root' m' t'. insert_node (root, m) v = retM (root', m') \<and> t' = ins (fresh m) v t \<and>
     tree_at (cells m') root' t' \<and> wf_mem m' \<and> fresh m' = Suc (fresh m) \<and> sep t' \<and>
     cout m' = cout m @ dump_text (pre_vals t')"
proof (cases "root = 0")
  case True
  then have "t = Leaf" using t by (simp add: tree_at_0)
  moreover obtain m' where m': "new_bt m v = (fresh m, m')" "tree_at (cells m') (fresh m) (Node Leaf (fresh m, v) Leaf)" "grown {} m m'"
    using new_bt_tree [OF t(4)] by blast
  moreover have "cout m' = cout m" using m'(1) by (auto simp: new_bt_def new_node_def)
  ultimately show ?thesis using True dump_preorder_writes [OF m'(2)]
    by (intro exI [of _ "fresh m"] exI [of _ "print m' (dump_text [v])"]
          exI [of _ "Node Leaf (fresh m, v) Leaf"])
      (simp add: insert_node_def grown_def)
next
  case False
  then have "t \<noteq> Leaf" using t by auto
  then obtain m' where m': "insert_descend m root v = retM m'" "tree_at (cells m') root (ins (fresh m) v t)"
      "grown (addrs t) m m'" "cout m' = cout m"
    using insert_descend_runs [OF t(1) _ t(2,4,3,5)] by blast
  then show ?thesis using False sep_ins [OF t(3,5) fresh_notin [OF t(1,4)] t(2)]
    by (auto simp: insert_node_def dump_preorder_writes grown_def)
qed

lemma insert_node_dup:
  "tree_at (cells m) root t \<Longrightarrow> ordered_tree t \<Longrightarrow> v \<in> keys t \<Longrightarrow>
   insert_node (root, m) v = Some (Inl (Thrown ''value already exist''))"
  using insert_descend_dup [of m root t v] by (auto simp: insert_node_def tree_at_0)

interpretation binary: set_object bt_rep insert_node
proof unfold_locales
  fix t S v assume rep: "bt_rep t S" and "v \<notin> S"
  then show "endsM (insert_node t v) (\<lambda>t'. bt_rep t' (insert v S))"
    using insert_node_runs [of "snd t" "fst t" _ v] keys_ins ordered_tree_ins
    by (fastforce simp: bt_rep_def endsM_def)
next
  fix t S v assume "bt_rep t S" "v \<in> S"
  then show "insert_node t v = Some (Inl (Thrown ''value already exist''))"
    by (auto simp: bt_rep_def insert_node_dup)
qed

interpretation balanced: set_object avl_rep balance_tree_insert
proof unfold_locales
  fix o' S v assume rep: "avl_rep o' S" and v: "v \<notin> S"
  obtain root m where o': "o' = (root, m)" by (cases o')
  obtain t where t: "tree_at (cells m) root t" "sep t" "ordered_tree t" "wf_mem m" "keys t = S" "avl t"
    using rep o' by (auto simp: avl_rep_def)
  let ?t = "b_ins (fresh m) v t"
  obtain q m' where q: "balance_insert m root v = retM (q, m')" "tree_at (cells m') q ?t" "grown (addrs t) m m'"
    using balance_insert_runs [OF t(1,2,4,6,3)] t(5) v by blast
  have "sep ?t \<and> ordered_tree ?t \<and> keys ?t = insert v S \<and> avl ?t"
    using b_ins_facts [where a = "fresh m" and v = v and t = t] b_ins_avl [of t v "fresh m"] t v fresh_notin [OF t(1,4)] by simp
  then show "endsM (balance_tree_insert o' v) (\<lambda>t'. avl_rep t' (insert v S))"
    using q by (auto simp: o' balance_tree_insert_def preorder_stack_writes avl_rep_def grown_def)
next
  fix t S v assume "avl_rep t S" "v \<in> S"
  then show "balance_tree_insert t v = Some (Inl (Thrown ''value already exist''))"
    by (auto simp: avl_rep_def balance_tree_insert_def balance_insert_dup)
qed

section \<open>The depth of a balanced tree\<close>

lemma avl_size: "avl t \<Longrightarrow> 2 ^ (height t div 2) \<le> size1 t"
proof (induction t)
  case Leaf
  then show ?case by simp
next
  case (Node l x r)
  let ?h = "height (Node l x r)"
  have b: "?h - 2 \<le> height l" "?h - 2 \<le> height r" "1 \<le> ?h" using Node.prems by (auto simp: avl_node)
  show ?case
  proof (cases "?h = 1")
    case True
    then show ?thesis by simp
  next
    case False
    have p: "(2::nat) ^ ((?h - 2) div 2) \<le> 2 ^ (height l div 2)" "(2::nat) ^ ((?h - 2) div 2) \<le> 2 ^ (height r div 2)"
      using b by (auto intro!: power_increasing div_le_mono)
    have IH: "2 ^ (height l div 2) \<le> size1 l" "2 ^ (height r div 2) \<le> size1 r" using Node by auto
    have "2 ^ ((?h - 2) div 2) \<le> size1 l" "2 ^ ((?h - 2) div 2) \<le> size1 r"
      using le_trans [OF p(1) IH(1)] le_trans [OF p(2) IH(2)] .
    then have "2 * 2 ^ ((?h - 2) div 2) \<le> size1 (Node l x r)" by simp
    moreover have "?h div 2 = Suc ((?h - 2) div 2)" using False b(3) by linarith
    ultimately show ?thesis by simp
  qed
qed

end
