(* ===== verification/TreeMain.thy ===== *)
theory TreeMain
  imports TreeClaims
begin

text \<open>
  The properties of \<^verbatim>\<open>tree.cpp\<close>, and what its \<open>main\<close> writes.
\<close>

section \<open>The trees built by hand\<close>

lemmas build_simps = new_bt_def new_node_def link_left_def link_right_def

text \<open>The order in which the nodes of the first tree are met.\<close>

definition demo_text :: "int list \<Rightarrow> bt_mem \<Rightarrow> bt_mem \<Rightarrow> bool" where
  "demo_text vs m m' \<longleftrightarrow> wf_mem m' \<and> cout m' = cout m @ show_all vs"

lemma create_node_runs:
  assumes "wf_mem m"
  shows "\<exists>p m' t. create_node m = Inr (p, m') \<and> tree_at (cells m') p t \<and> wf_mem m' \<and> cout m' = cout m \<and>
     pre_vals t = [1, 2, 4, 5, 8, 9, 10, 3, 6, 7] \<and> in_vals t = [4, 2, 8, 5, 10, 9, 1, 6, 3, 7] \<and>
     post_vals t = [4, 8, 10, 9, 5, 2, 6, 7, 3, 1] \<and> \<not> avl t"
proof -
  let ?f = "fresh m"
  let ?leaf = "\<lambda>i v. Node Leaf (?f + i, v :: int) Leaf"
  let ?t = "Node (Node (?leaf 3 4) (?f + 1, 2) (Node (?leaf 7 8) (?f + 4, 5) (Node (?leaf 9 10) (?f + 8, 9) Leaf)))
      (?f, 1) (Node (?leaf 5 6) (?f + 2, 3) (?leaf 6 7))"
  obtain m' where m': "create_node m = Inr (?f, m')" "tree_at (cells m') ?f ?t" "wf_mem m'" "cout m' = cout m"
  proof
    show "create_node m = Inr (?f, snd (projr (create_node m)))"
      using assms by (simp add: create_node_def build_simps modify_ok)
    show "tree_at (cells (snd (projr (create_node m)))) ?f ?t"
      using assms by (simp add: create_node_def build_simps modify_ok)
    show "wf_mem (snd (projr (create_node m)))"
      using assms by (simp add: create_node_def build_simps modify_ok) (auto simp: wf_mem_def)
    show "cout (snd (projr (create_node m))) = cout m"
      using assms by (simp add: create_node_def build_simps modify_ok)
  qed
  then show ?thesis by (intro exI [of _ ?f] exI [of _ m'] exI [of _ ?t]) (simp add: )
qed


text \<open>What the seven first tests write.\<close>

definition traversal_text :: string where
  "traversal_text =
     banner ''preorder stack'' @ ''1 2 4 5 8 9 10 3 6 7 '' @ endl @ banner ''preorder stack'' @ endl @ endl @
     banner ''preorder'' @ ''1 2 4 5 8 9 10 3 6 7 '' @ endl @ banner ''preorder'' @ endl @ endl @
     banner ''inorder stack'' @ ''4 2 8 5 10 9 1 6 3 7 '' @ endl @ banner ''inorder stack'' @ endl @ endl @
     banner ''inorder'' @ ''4 2 8 5 10 9 1 6 3 7 '' @ endl @ banner ''inorder'' @ endl @ endl @
     banner ''postorder stack'' @ ''4 8 10 9 5 2 6 7 3 1 '' @ endl @ banner ''postorder stack'' @ endl @ endl @
     banner ''postorder'' @ ''4 8 10 9 5 2 6 7 3 1 '' @ endl @ banner ''postorder'' @ endl @ endl @
     banner ''is balance'' @ ''is balance: false'' @ endl @ banner ''is balance'' @ endl @ endl"

text \<open>A test writes \<open>s\<close> and keeps the store well-formed.\<close>

definition writes :: "(bt_mem \<Rightarrow> bt_mem may) \<Rightarrow> string \<Rightarrow> bool" where
  "writes f s \<longleftrightarrow> (\<forall>m. wf_mem m \<longrightarrow> endsM (f m) (\<lambda>m'. wf_mem m' \<and> cout m' = cout m @ s))"

lemma writes_bind:
  assumes "writes f s" "wf_mem m"
    and "\<And>m'. wf_mem m' \<Longrightarrow> cout m' = cout m @ s \<Longrightarrow> endsM (g m') Q"
  shows "endsM (bindM (f m) g) Q"
  using assms by (auto simp: writes_def endsM_def)

lemma writes_test:
  assumes "\<And>m p t. tree_at (cells m) p t \<Longrightarrow> wf_mem m \<Longrightarrow> pre_vals t = [1, 2, 4, 5, 8, 9, 10, 3, 6, 7] \<Longrightarrow>
      in_vals t = [4, 2, 8, 5, 10, 9, 1, 6, 3, 7] \<Longrightarrow> post_vals t = [4, 8, 10, 9, 5, 2, 6, 7, 3, 1] \<Longrightarrow> \<not> avl t \<Longrightarrow>
      g (p, m) = retM (print m s)"
  shows "writes (\<lambda>m. bindM (Some (create_node (print m b))) g) (b @ s)"
  unfolding writes_def
proof (intro allI impI)
  fix m :: bt_mem assume "wf_mem m"
  then have "wf_mem (print m b)" by simp
  from create_node_runs [OF this] obtain p m' t where "create_node (print m b) = Inr (p, m')" "tree_at (cells m') p t"
      "wf_mem m'" "cout m' = cout m @ b" "pre_vals t = [1, 2, 4, 5, 8, 9, 10, 3, 6, 7]"
      "in_vals t = [4, 2, 8, 5, 10, 9, 1, 6, 3, 7]" "post_vals t = [4, 8, 10, 9, 5, 2, 6, 7, 3, 1]" "\<not> avl t"
    by auto
  then show "endsM (bindM (Some (create_node (print m b))) g) (\<lambda>m'. wf_mem m' \<and> cout m' = cout m @ b @ s)"
    using assms by simp
qed

lemma tests_write:
  "writes test_preorder_stack (banner ''preorder stack'' @ ''1 2 4 5 8 9 10 3 6 7 '' @ endl @ banner ''preorder stack'' @ endl @ endl)"
  "writes test_preorder (banner ''preorder'' @ ''1 2 4 5 8 9 10 3 6 7 '' @ endl @ banner ''preorder'' @ endl @ endl)"
  "writes test_inorder_stack (banner ''inorder stack'' @ ''4 2 8 5 10 9 1 6 3 7 '' @ endl @ banner ''inorder stack'' @ endl @ endl)"
  "writes test_inorder (banner ''inorder'' @ ''4 2 8 5 10 9 1 6 3 7 '' @ endl @ banner ''inorder'' @ endl @ endl)"
  "writes test_postorder_stack (banner ''postorder stack'' @ ''4 8 10 9 5 2 6 7 3 1 '' @ endl @ banner ''postorder stack'' @ endl @ endl)"
  "writes test_postorder (banner ''postorder'' @ ''4 8 10 9 5 2 6 7 3 1 '' @ endl @ banner ''postorder'' @ endl @ endl)"
  "writes test_is_balance (banner ''is balance'' @ ''is balance: false'' @ endl @ banner ''is balance'' @ endl @ endl)"
  unfolding test_preorder_stack_def test_preorder_def test_inorder_stack_def test_inorder_def
    test_postorder_stack_def test_postorder_def test_is_balance_def
  by (rule writes_test; simp add: preorder_stack_writes preorder_writes inorder_stack_writes inorder_writes
      postorder_stack_writes postorder_writes is_balance_avl show_bool_def show_simps)+

text \<open>The test of the search tree: five insertions, then the least and the greatest value.\<close>

definition ordered_tree_text :: string where
  "ordered_tree_text =
     dump_text [4] @ dump_text [4, 2] @ dump_text [4, 2, 5] @ dump_text [4, 2, 3, 5] @ dump_text [4, 2, 1, 3, 5] @
     ''binary tree min: 1'' @ endl @ ''binary tree max: 5'' @ endl"

lemma insert_test_writes: "writes test_binary_tree_insert ordered_tree_text"
  unfolding writes_def
proof (intro allI impI)
  fix m :: bt_mem assume wf: "wf_mem m"
  let ?f = "fresh m"
  obtain r1 m1 where 1: "insert_node (0, m) 4 = retM (r1, m1)" "tree_at (cells m1) r1 (ins ?f 4 Leaf)" "wf_mem m1"
      "fresh m1 = Suc ?f" "sep (ins ?f 4 Leaf)" "cout m1 = cout m @ dump_text [4]"
    using insert_node_runs [of m 0 Leaf 4] wf by auto
  obtain r2 m2 where 2: "insert_node (r1, m1) 2 = retM (r2, m2)" "tree_at (cells m2) r2 (ins (Suc ?f) 2 (ins ?f 4 Leaf))"
      "wf_mem m2" "fresh m2 = Suc (Suc ?f)" "sep (ins (Suc ?f) 2 (ins ?f 4 Leaf))" "cout m2 = cout m1 @ dump_text [4, 2]"
    using insert_node_runs [OF 1(2,5) _ 1(3), of 2] 1(4) by (auto simp del: tree_at.simps)
  obtain r3 m3 t3 where 3: "insert_node (r2, m2) 5 = retM (r3, m3)" "t3 = ins (?f + 2) 5 (ins (Suc ?f) 2 (ins ?f 4 Leaf))"
      "tree_at (cells m3) r3 t3" "wf_mem m3" "fresh m3 = ?f + 3" "sep t3" "cout m3 = cout m2 @ dump_text [4, 2, 5]"
    using insert_node_runs [OF 2(2,5) _ 2(3), of 5] 2(4) by (auto simp del: tree_at.simps)
  obtain r4 m4 t4 where 4: "insert_node (r3, m3) 3 = retM (r4, m4)" "t4 = ins (?f + 3) 3 t3"
      "tree_at (cells m4) r4 t4" "wf_mem m4" "fresh m4 = ?f + 4" "sep t4" "cout m4 = cout m3 @ dump_text [4, 2, 3, 5]"
    using insert_node_runs [OF 3(3,6) _ 3(4), of 3] 3(2,5) by (auto simp del: tree_at.simps)
  obtain r5 m5 t5 where 5: "insert_node (r4, m4) 1 = retM (r5, m5)" "t5 = ins (?f + 4) 1 t4"
      "tree_at (cells m5) r5 t5" "wf_mem m5" "cout m5 = cout m4 @ dump_text [4, 2, 1, 3, 5]"
    using insert_node_runs [OF 4(3,6) _ 4(4), of 1] 3(2) 4(2,5) by (auto simp del: tree_at.simps)
  have t5: "ordered_tree t5" "t5 \<noteq> Leaf" "keys t5 = {1, 2, 3, 4, 5}" using 3(2) 4(2) 5(2) by auto
  obtain q1 n1 where min: "bt_min (r5, m5) = retM q1" "q1 \<noteq> 0" "cells m5 q1 = Some n1" "val n1 = 1"
    using min_loop_finds [OF 5(3) t5(1,2), of None] t5(3) by (auto simp: bt_min_def)
  let ?m = "print m5 (''binary tree min: '' @ fmt_d 1 @ endl)"
  have "tree_at (cells ?m) r5 t5" using 5(3) by simp
  from max_loop_finds [OF this t5(1,2), of 0]
  obtain q2 n2 where max: "bt_max (r5, ?m) = retM q2" "q2 \<noteq> 0" "cells m5 q2 = Some n2" "val n2 = 5"
    using t5(3) by (auto simp: bt_max_def)
  show "endsM (test_binary_tree_insert m) (\<lambda>m'. wf_mem m' \<and> cout m' = cout m @ ordered_tree_text)"
    using 5(4,5) 4(7) 3(7) 2(6) 1(6) min max
    by (simp add: test_binary_tree_insert_def 1(1) 2(1) 3(1) 4(1) 5(1) load_ok ordered_tree_text_def)
      (simp add: show_simps)
qed

text \<open>The test of the balanced insertion: after the rotation the tree is written.\<close>

lemma create_balance_tree_runs:
  assumes "wf_mem m"
  shows "\<exists>p m' t. create_balance_tree m = Inr (p, m') \<and> tree_at (cells m') p t \<and> wf_mem m' \<and> cout m' = cout m \<and>
     sep t \<and> avl t \<and> ordered_tree t \<and> keys t = {3, 5, 6, 10, 11} \<and>
     (\<forall>a. pre_vals (b_ins a 1 t) = [5, 3, 1, 10, 6, 11] \<and> b_out a 1 t = rr_text 10)"
proof -
  let ?f = "fresh m"
  let ?leaf = "\<lambda>i v. Node Leaf (?f + i, v :: int) Leaf"
  let ?t = "Node (Node (?leaf 3 3) (?f + 1, 5) (?leaf 4 6)) (?f, 10) (?leaf 2 11)"
  obtain m' where m': "create_balance_tree m = Inr (?f, m')" "tree_at (cells m') ?f ?t" "wf_mem m'" "cout m' = cout m"
  proof
    show "create_balance_tree m = Inr (?f, snd (projr (create_balance_tree m)))"
      using assms by (simp add: create_balance_tree_def build_simps modify_ok)
    show "tree_at (cells (snd (projr (create_balance_tree m)))) ?f ?t"
      using assms by (simp add: create_balance_tree_def build_simps modify_ok)
    show "wf_mem (snd (projr (create_balance_tree m)))"
      using assms by (simp add: create_balance_tree_def build_simps modify_ok) (auto simp: wf_mem_def)
    show "cout (snd (projr (create_balance_tree m))) = cout m"
      using assms by (simp add: create_balance_tree_def build_simps modify_ok)
  qed
  moreover have "keys ?t = {3, 5, 6, 10, 11}" by auto
  ultimately show ?thesis
    by (intro exI [of _ ?f] exI [of _ m'] exI [of _ ?t]) (simp add: b_fix_def fix_out_def)
qed

definition balance_text :: string where
  "balance_text = banner ''binary tree insert'' @ ''right rotation node is: 10'' @ endl @
     ''preorder: 5 3 1 10 6 11 '' @ endl @ banner ''binary tree insert''"

lemma balance_test_writes: "writes test_balance_tree_insert balance_text"
  unfolding writes_def
proof (intro allI impI)
  fix m :: bt_mem assume "wf_mem m"
  then have "wf_mem (print m (banner ''binary tree insert''))" by simp
  from create_balance_tree_runs [OF this] obtain p m1 t where
      c: "create_balance_tree (print m (banner ''binary tree insert'')) = Inr (p, m1)" "cout m1 = cout m @ banner ''binary tree insert''"
      and t: "tree_at (cells m1) p t" "sep t" "wf_mem m1" "avl t" "ordered_tree t" "keys t = {3, 5, 6, 10, 11}"
      and out: "\<forall>a. pre_vals (b_ins a 1 t) = [5, 3, 1, 10, 6, 11] \<and> b_out a 1 t = rr_text 10"
    by auto
  have "1 \<notin> keys t" using t(6) by simp
  from balance_insert_runs [OF t(1-5) this] obtain q m2 where
      b: "balance_insert m1 p 1 = retM (q, m2)" "tree_at (cells m2) q (b_ins (fresh m1) 1 t)" "grown (addrs t) m1 m2"
        "cout m2 = cout m1 @ rr_text 10"
    using out by auto
  have "tree_at (cells (print m2 ''preorder: '')) q (b_ins (fresh m1) 1 t)" using b(2) by simp
  from preorder_stack_writes [OF this] show "endsM (test_balance_tree_insert m) (\<lambda>m'. wf_mem m' \<and> cout m' = cout m @ balance_text)"
    using b(3) out by (simp add: test_balance_tree_insert_def c b(1,4) grown_def balance_text_def rr_text_def)
      (simp add: show_simps)
qed

section \<open>Properties\<close>

text \<open>
  C24: on every tree the three traversals with a stack end, without a fault, and write what the
  recursive ones write (the inorder and the postorder one a newline after it).
\<close>

theorem stack_traversals_equal:
  assumes "tree_at (cells m) p t"
  shows "preorder_stack m p = preorder m p \<and>
    inorder_stack m p = bindM (inorder m p) (\<lambda>m. retM (print m endl)) \<and>
    postorder_stack m p = bindM (postorder m p) (\<lambda>m. retM (print m endl)) \<and>
    preorder m p = retM (print m (show_all (pre_vals t))) \<and>
    inorder m p = retM (print m (show_all (in_vals t))) \<and>
    postorder m p = retM (print m (show_all (post_vals t)))"
  using assms
  by (simp add: preorder_stack_writes preorder_writes inorder_stack_writes inorder_writes
      postorder_stack_writes postorder_writes)

definition three_nodes :: bt_mem where
  "three_nodes = empty_mem\<lparr>cells := [1 \<mapsto> \<lparr>val = 2, lft = 2, rgt = 3\<rparr>, 2 \<mapsto> \<lparr>val = 1, lft = 0, rgt = 0\<rparr>,
     3 \<mapsto> \<lparr>val = 3, lft = 0, rgt = 0\<rparr>]\<rparr>"

lemma three_nodes_tree: "tree_at (cells three_nodes) 1 (Node (Node Leaf (2, 1) Leaf) (1, 2) (Node Leaf (3, 3) Leaf))"
  by (simp add: three_nodes_def)

theorem stack_traversals_equal_witness:
  "postorder_stack three_nodes 1 = bindM (postorder three_nodes 1) (\<lambda>m. retM (print m endl)) \<and>
   postorder three_nodes 1 = retM (print three_nodes ''1 3 2 '')"
  using stack_traversals_equal [OF three_nodes_tree] by (simp add: show_simps)

text \<open>
  C18: values that differ pairwise, inserted into an empty \<open>BinaryTree\<close>, are what \<open>search\<close> finds, and
  \<open>min\<close> and \<open>max\<close> answer the nodes of the least and the greatest; without any value \<open>min\<close> returns an
  indeterminate pointer and \<open>max\<close> the null pointer.
\<close>

theorem binary_tree_is_set:
  assumes "distinct vs"
  shows "\<exists>root m. add_all insert_node (0, empty_mem) vs = retM (root, m) \<and>
    (\<forall>v. \<exists>q. search m root v = retM q \<and>
       (if v \<in> set vs then q \<noteq> 0 \<and> (\<exists>n. cells m q = Some n \<and> val n = v) else q = 0)) \<and>
    (if vs = [] then bt_min (root, m) = Some (Inl UninitRead) \<and> bt_max (root, m) = retM 0
     else (\<exists>p n. bt_min (root, m) = retM p \<and> cells m p = Some n \<and> val n = Min (set vs)) \<and>
       (\<exists>p n. bt_max (root, m) = retM p \<and> cells m p = Some n \<and> val n = Max (set vs)))"
proof -
  have "endsM (add_all insert_node (0, empty_mem) vs) (\<lambda>t. bt_rep t ({} \<union> set vs))"
    using assms by (intro binary.add_all_new rep_empty) auto
  then obtain root m t where r: "add_all insert_node (0, empty_mem) vs = retM (root, m)"
      "tree_at (cells m) root t" "ordered_tree t" "keys t = set vs"
    by (auto simp: endsM_def bt_rep_def)
  show ?thesis
  proof (cases "vs = []")
    case True
    then have "t = Leaf" using r(4) by (cases t) auto
    then show ?thesis using r True search_finds [OF r(2,3)]
      by (auto simp: bt_min_def bt_max_def min_loop.simps max_loop.simps)
  next
    case False
    then have "t \<noteq> Leaf" using r(4) by auto
    then show ?thesis
      using r False search_finds [OF r(2,3)] min_loop_finds [OF r(2,3)] max_loop_finds [OF r(2,3)]
      by (fastforce simp: bt_min_def bt_max_def)
  qed
qed

theorem binary_tree_is_set_witness:
  "\<exists>root m p n. add_all insert_node (0, empty_mem) [4, 2, 5] = retM (root, m) \<and>
     bt_min (root, m) = retM p \<and> cells m p = Some n \<and> val n = 2"
  using binary_tree_is_set [of "[4, 2, 5]"] by auto

text \<open>
  C17: values that differ pairwise, inserted into an empty \<open>BalanceTree\<close>, end in a tree that
  \<open>is_balance\<close> accepts, that holds exactly these values, and whose depth \<open>d\<close> is bounded by
  \<open>2 ^ (d / 2) <= n + 1\<close>.
\<close>

theorem balanced_insertion:
  assumes "distinct vs"
  shows "\<exists>root m d. add_all balance_tree_insert (0, empty_mem) vs = retM (root, m) \<and>
    is_balance m root = retM True \<and>
    (\<forall>v. \<exists>q. search m root v = retM q \<and> (q \<noteq> 0 \<longleftrightarrow> v \<in> set vs)) \<and>
    tree_deepth m root = retM (int d) \<and> 2 ^ (d div 2) \<le> length vs + 1"
proof -
  have "endsM (add_all balance_tree_insert (0, empty_mem) vs) (\<lambda>t. avl_rep t ({} \<union> set vs))"
    using assms by (intro balanced.add_all_new rep_empty) auto
  then obtain root m t where r: "add_all balance_tree_insert (0, empty_mem) vs = retM (root, m)"
      "tree_at (cells m) root t" "ordered_tree t" "keys t = set vs" "avl t"
    by (auto simp: endsM_def avl_rep_def)
  have "distinct (in_vals t)" using r(3) by (simp add: ordered_tree_def strict_sorted_iff)
  then have "length (in_vals t) = length vs"
    using r(4) assms by (metis distinct_card keys_def)
  then have "size1 t = length vs + 1" by (simp add: in_vals_def size1_size)
  then have "2 ^ (height t div 2) \<le> length vs + 1" using avl_size [OF r(5)] by simp
  moreover have "\<exists>q. search m root v = retM q \<and> (q \<noteq> 0 \<longleftrightarrow> v \<in> set vs)" for v
    using search_finds [OF r(2,3), of v] r(4) by (auto split: if_splits)
  ultimately show ?thesis
    using r is_balance_avl [OF r(2)] tree_deepth_height [OF r(2)]
    by (intro exI [of _ root] exI [of _ m] exI [of _ "height t"]) simp
qed

theorem balanced_insertion_witness:
  "\<exists>root m. add_all balance_tree_insert (0, empty_mem) [1, 2, 3, 4] = retM (root, m) \<and> is_balance m root = retM True"
  using balanced_insertion [of "[1, 2, 3, 4]"] by auto

text \<open>
  a value that is inserted twice raises the exception, in both classes.\<close>

theorem repeated_value_throws:
  assumes "\<not> distinct vs"
  shows "add_all insert_node (0, empty_mem) vs = Some (Inl (Thrown ''value already exist'')) \<and>
    add_all balance_tree_insert (0, empty_mem) vs = Some (Inl (Thrown ''value already exist''))"
  using assms binary.add_all_dup [OF rep_empty(1)] balanced.add_all_dup [OF rep_empty(2)] by simp

theorem repeated_value_throws_witness:
  "add_all insert_node (0, empty_mem) [1, 1] = Some (Inl (Thrown ''value already exist''))"
  using repeated_value_throws [of "[1, 1]"] by simp

text \<open>
  \<open>balance_delete\<close> never returns a tree, whatever tree and value it is given.\<close>

theorem balance_delete_no_result:
  assumes "tree_at (cells m) p t"
  shows "\<exists>e. balance_delete m p v = Some (Inl e)"
  using assms by (rule balance_delete_never)

theorem balance_delete_no_result_witness: "\<exists>e. balance_delete three_nodes 1 1 = Some (Inl e)"
  by (rule balance_delete_no_result [OF three_nodes_tree])

text \<open>
  \<open>main\<close> ends without a fault, and this is what it has written.\<close>

theorem tree_main_output:
  "\<exists>m. tree_main = retM m \<and> cout m = traversal_text @ ordered_tree_text @ balance_text"
proof -
  have start: "cout (empty_mem :: bt_mem) = []" by (simp add: empty_mem_def)
  have "endsM tree_main (\<lambda>m. cout m = traversal_text @ ordered_tree_text @ balance_text)"
    unfolding tree_main_def
    using balance_test_writes
    by (intro writes_bind [OF tests_write(1)] writes_bind [OF tests_write(2)] writes_bind [OF tests_write(3)]
          writes_bind [OF tests_write(4)] writes_bind [OF tests_write(5)] writes_bind [OF tests_write(6)]
          writes_bind [OF tests_write(7)] writes_bind [OF insert_test_writes] wf_empty_mem; assumption?; (rule TrueI)?)
      (auto simp: writes_def endsM_def traversal_text_def start)
  then show ?thesis by (simp add: endsM_def)
qed

end
