(* ===== verification/DoubleList.thy ===== *)
theory DoubleList
  imports CppHeap
begin

text \<open>
  The doubly linked list of \<^verbatim>\<open>double_linked_list.cpp\<close>, and the proof that it is a double-ended
  queue: every operation leaves the nodes of the queue's content, and no others, in the store.
\<close>

section \<open>The class\<close>

record dl_node =
  dl_value :: int
  dl_pre :: ptr
  dl_next :: ptr

record dl_obj =
  dl_head :: ptr
  dl_tail :: ptr
  dl_mem :: "dl_node mem"

definition dl_init :: dl_obj where
  "dl_init = \<lparr>dl_head = 0, dl_tail = 0, dl_mem = empty_mem\<rparr>"

definition dl_new :: "dl_node mem \<Rightarrow> int \<Rightarrow> ptr \<times> dl_node mem" where
  "dl_new m vl = new_node m \<lparr>dl_value = vl, dl_pre = 0, dl_next = 0\<rparr>"

text \<open>\<open>while (cur) { std::cout << cur->value << " "; cur = cur->next; }\<close>\<close>

definition dl_walk :: "(dl_node \<Rightarrow> ptr) \<Rightarrow> ptr \<times> dl_node mem \<Rightarrow> (ptr \<times> dl_node mem) may" where
  "dl_walk step = while_may (\<lambda>(cur, m). Inr (cur \<noteq> 0))
     (\<lambda>(cur, m). bindM (Some (load m cur)) (\<lambda>n. retM (step n, print m (show_sp (dl_value n)))))"

definition dump_vor :: "dl_obj \<Rightarrow> dl_obj may" where
  "dump_vor ob =
     bindM (dl_walk dl_next (dl_head ob, print (dl_mem ob) (''===== dump vor ====='' @ endl))) (\<lambda>(cur, m).
     retM (ob\<lparr>dl_mem := print m (endl @ ''===== dump vor ====='' @ endl)\<rparr>))"

definition dump_bak :: "dl_obj \<Rightarrow> dl_obj may" where
  "dump_bak ob =
     bindM (dl_walk dl_pre (dl_tail ob, print (dl_mem ob) (''>>>>>> dump bak <<<<<<'' @ endl))) (\<lambda>(cur, m).
     retM (ob\<lparr>dl_mem := print m (endl @ ''>>>>>> dump bak <<<<<<'' @ endl)\<rparr>))"

definition dumps :: "dl_obj \<Rightarrow> dl_obj may" where
  "dumps ob = bindM (dump_vor ob) dump_bak"

definition add_to_head :: "dl_obj \<Rightarrow> int \<Rightarrow> dl_obj may" where
  "add_to_head ob vl =
     (case dl_new (dl_mem ob) vl of (node, m) \<Rightarrow>
      if dl_head ob = 0 then dumps \<lparr>dl_head = node, dl_tail = node, dl_mem = m\<rparr>
      else
        bindM (Some (modify m node (\<lambda>k. k\<lparr>dl_next := dl_head ob\<rparr>))) (\<lambda>m.
        bindM (Some (modify m (dl_head ob) (\<lambda>k. k\<lparr>dl_pre := node\<rparr>))) (\<lambda>m.
        dumps (ob\<lparr>dl_head := node, dl_mem := m\<rparr>))))"

definition del_from_head :: "dl_obj \<Rightarrow> dl_obj may" where
  "del_from_head ob =
     (if dl_head ob = 0 then retM ob
      else if dl_head ob = dl_tail ob then
        bindM (Some (delete_node (dl_mem ob) (dl_head ob))) (\<lambda>m.
        dumps \<lparr>dl_head = 0, dl_tail = 0, dl_mem = m\<rparr>)
      else
        bindM (Some (load (dl_mem ob) (dl_head ob))) (\<lambda>n.
        bindM (Some (modify (dl_mem ob) (dl_next n) (\<lambda>k. k\<lparr>dl_pre := 0\<rparr>))) (\<lambda>m.
        bindM (Some (delete_node m (dl_head ob))) (\<lambda>m.
        dumps (ob\<lparr>dl_head := dl_next n, dl_mem := m\<rparr>)))))"

definition add_to_tail :: "dl_obj \<Rightarrow> int \<Rightarrow> dl_obj may" where
  "add_to_tail ob vl =
     (case dl_new (dl_mem ob) vl of (node, m) \<Rightarrow>
      if dl_tail ob = 0 then dumps \<lparr>dl_head = node, dl_tail = node, dl_mem = m\<rparr>
      else
        bindM (Some (modify m (dl_tail ob) (\<lambda>k. k\<lparr>dl_next := node\<rparr>))) (\<lambda>m.
        bindM (Some (modify m node (\<lambda>k. k\<lparr>dl_pre := dl_tail ob\<rparr>))) (\<lambda>m.
        dumps (ob\<lparr>dl_tail := node, dl_mem := m\<rparr>))))"

definition del_from_tail :: "dl_obj \<Rightarrow> dl_obj may" where
  "del_from_tail ob =
     (if dl_tail ob = 0 then retM ob
      else if dl_head ob = dl_tail ob then
        bindM (Some (delete_node (dl_mem ob) (dl_tail ob))) (\<lambda>m.
        dumps \<lparr>dl_head = 0, dl_tail = 0, dl_mem = m\<rparr>)
      else
        bindM (Some (load (dl_mem ob) (dl_tail ob))) (\<lambda>n.
        bindM (Some (modify (dl_mem ob) (dl_pre n) (\<lambda>k. k\<lparr>dl_next := 0\<rparr>))) (\<lambda>m.
        bindM (Some (delete_node m (dl_tail ob))) (\<lambda>m.
        dumps (ob\<lparr>dl_tail := dl_pre n, dl_mem := m\<rparr>)))))"

definition dl_main :: "dl_obj may" where
  "dl_main =
     bindM (add_to_head dl_init 2) (\<lambda>ob.
     bindM (add_to_head ob 1) (\<lambda>ob.
     bindM (add_to_tail ob 3) (\<lambda>ob.
     bindM (del_from_head ob) del_from_tail)))"

section \<open>The content of a list\<close>

text \<open>
  \<open>ps\<close> are the addresses of the nodes in order; they are the only live ones.
\<close>

definition node_at :: "ptr list \<Rightarrow> int list \<Rightarrow> nat \<Rightarrow> dl_node" where
  "node_at ps xs i = \<lparr>dl_value = xs ! i, dl_pre = (if i = 0 then 0 else ps ! (i - 1)),
     dl_next = (if Suc i < length ps then ps ! Suc i else 0)\<rparr>"

definition dl_at :: "ptr list \<Rightarrow> int list \<Rightarrow> dl_obj \<Rightarrow> bool" where
  "dl_at ps xs ob \<longleftrightarrow> length ps = length xs \<and> distinct ps \<and> 0 \<notin> set ps \<and> wf_mem (dl_mem ob) \<and>
     dl_head ob = (if ps = [] then 0 else hd ps) \<and> dl_tail ob = (if ps = [] then 0 else last ps) \<and>
     dom (cells (dl_mem ob)) = set ps \<and>
     (\<forall>i < length ps. cells (dl_mem ob) (ps ! i) = Some (node_at ps xs i))"

definition dl_rep :: "dl_obj \<Rightarrow> int list \<Rightarrow> bool" where
  "dl_rep ob xs \<longleftrightarrow> (\<exists>ps. dl_at ps xs ob)"

definition show_list :: "int list \<Rightarrow> string" where
  "show_list xs = concat (map show_sp xs)"

definition dl_text :: "int list \<Rightarrow> string" where
  "dl_text xs = ''===== dump vor ====='' @ endl @ show_list xs @ endl @ ''===== dump vor ====='' @ endl @
     ''>>>>>> dump bak <<<<<<'' @ endl @ show_list (rev xs) @ endl @ ''>>>>>> dump bak <<<<<<'' @ endl"

lemma dl_walk_stop: "dl_walk step (0, m) = retM (0, m)"
  by (simp add: dl_walk_def while_stop)

lemma dl_walk_step:
  "p \<noteq> 0 \<Longrightarrow> cells m p = Some n \<Longrightarrow> dl_walk step (p, m) = dl_walk step (step n, print m (show_sp (dl_value n)))"
  by (simp add: dl_walk_def while_step load_ok)

lemma dl_walk_next:
  assumes "length ps = length xs" "0 \<notin> set ps" "\<forall>i < length ps. cells m (ps ! i) = Some (node_at ps xs i)" "i \<le> length ps"
  shows "dl_walk dl_next (if i < length ps then ps ! i else 0, m) = retM (0, print m (show_list (drop i xs)))"
  using assms(3,4)
proof (induction "length ps - i" arbitrary: i m)
  case 0
  then show ?case using assms(1) by (simp add: dl_walk_stop show_list_def)
next
  case (Suc k)
  then have i: "i < length ps" "ps ! i \<noteq> 0" using assms(2) by (auto simp: in_set_conv_nth)
  have "dl_walk dl_next (ps ! i, m) = dl_walk dl_next (if Suc i < length ps then ps ! Suc i else 0, print m (show_sp (xs ! i)))"
    using i Suc.prems(1) by (subst dl_walk_step [of _ _ "node_at ps xs i"]) (auto simp: node_at_def)
  also have "\<dots> = retM (0, print (print m (show_sp (xs ! i))) (show_list (drop (Suc i) xs)))"
    using Suc i by (intro Suc.hyps(1)) auto
  also have "\<dots> = retM (0, print m (show_list (drop i xs)))"
    using i assms(1) by (simp add: show_list_def Cons_nth_drop_Suc [symmetric, of i xs])
  finally show ?case using i by simp
qed

lemma dl_walk_pre:
  assumes "length ps = length xs" "0 \<notin> set ps" "\<forall>i < length ps. cells m (ps ! i) = Some (node_at ps xs i)" "i \<le> length ps"
  shows "dl_walk dl_pre (if i = 0 then 0 else ps ! (i - 1), m) = retM (0, print m (show_list (rev (take i xs))))"
  using assms(3,4)
proof (induction i arbitrary: m)
  case 0
  then show ?case by (simp add: dl_walk_stop show_list_def)
next
  case (Suc i)
  then have i: "i < length ps" "ps ! i \<noteq> 0" using assms(2) by (auto simp: in_set_conv_nth)
  have "dl_walk dl_pre (ps ! i, m) = dl_walk dl_pre (if i = 0 then 0 else ps ! (i - 1), print m (show_sp (xs ! i)))"
    using i Suc.prems(1) by (subst dl_walk_step [of _ _ "node_at ps xs i"]) (auto simp: node_at_def)
  also have "\<dots> = retM (0, print (print m (show_sp (xs ! i))) (show_list (rev (take i xs))))"
    using Suc i by (intro Suc.IH) auto
  also have "\<dots> = retM (0, print m (show_list (rev (take (Suc i) xs))))"
    using i assms(1) by (simp add: show_list_def take_Suc_conv_app_nth)
  finally show ?case by simp
qed

lemma dumps_run:
  assumes "dl_at ps xs ob"
  shows "dumps ob = retM (ob\<lparr>dl_mem := print (dl_mem ob) (dl_text xs)\<rparr>)"
proof -
  have h: "length ps = length xs" "0 \<notin> set ps" "\<forall>i < length ps. cells (dl_mem ob) (ps ! i) = Some (node_at ps xs i)"
    using assms by (auto simp: dl_at_def)
  have hd: "dl_head ob = (if 0 < length ps then ps ! 0 else 0)"
    and tl: "dl_tail ob = (if length ps = 0 then 0 else ps ! (length ps - 1))"
    using assms by (auto simp: dl_at_def hd_conv_nth last_conv_nth)
  have "dl_walk dl_next (dl_head ob, print (dl_mem ob) s) = retM (0, print (print (dl_mem ob) s) (show_list xs))" for s
    using dl_walk_next [of ps xs "print (dl_mem ob) s" 0] h by (simp add: hd)
  moreover have "dl_walk dl_pre (dl_tail ob, print (dl_mem ob) s) = retM (0, print (print (dl_mem ob) s) (show_list (rev xs)))" for s
    using dl_walk_pre [of ps xs "print (dl_mem ob) s" "length ps"] h by (simp add: tl)
  ultimately show ?thesis by (simp add: dumps_def dump_vor_def dump_bak_def dl_text_def)
qed

end
