(* ===== verification/DoubleListClaims.thy ===== *)
theory DoubleListClaims
  imports DoubleList
begin

text \<open>
  The doubly linked list as a double-ended queue, for every sequence of operations: every operation
  does to the content what that of the queue does, and writes the new content in both directions.
\<close>

section \<open>The four operations\<close>

lemma dl_at_empty: "dl_at ps [] ob \<longleftrightarrow> ps = [] \<and> dl_head ob = 0 \<and> dl_tail ob = 0 \<and> wf_mem (dl_mem ob) \<and>
    cells (dl_mem ob) = Map.empty"
  by (auto simp: dl_at_def)

lemma dl_at_fresh: "dl_at ps xs ob \<Longrightarrow> fresh (dl_mem ob) \<notin> set ps \<and> fresh (dl_mem ob) \<noteq> 0"
  using wf_fresh [of "dl_mem ob"] by (simp add: dl_at_def) (metis domIff)

lemma dl_at_print: "dl_at ps xs (ob\<lparr>dl_mem := print (dl_mem ob) s\<rparr>) = dl_at ps xs ob"
  by (simp add: dl_at_def)

lemma dl_at_nth:
  assumes at: "dl_at ps xs ob" and i: "i < length ps"
  shows "cells (dl_mem ob) (ps ! i) = Some (node_at ps xs i)" "ps ! i \<noteq> 0" "ps ! i \<noteq> fresh (dl_mem ob)"
    "j < length ps \<Longrightarrow> ps ! i = ps ! j \<longleftrightarrow> i = j"
proof -
  have mem: "ps ! i \<in> set ps" using i by simp
  show "cells (dl_mem ob) (ps ! i) = Some (node_at ps xs i)" using at i unfolding dl_at_def by blast
  show "ps ! i \<noteq> 0" using at mem by (metis dl_at_def)
  show "ps ! i \<noteq> fresh (dl_mem ob)" using dl_at_fresh [OF at] mem by metis
  show "j < length ps \<Longrightarrow> ps ! i = ps ! j \<longleftrightarrow> i = j"
    using at i by (simp add: dl_at_def nth_eq_iff_index_eq)
qed

lemma dl_at_last:
  assumes at: "dl_at ps xs ob" and ne: "ps \<noteq> []"
  shows "dl_tail ob = last ps" "last ps \<noteq> 0" "last ps \<noteq> fresh (dl_mem ob)" "last ps = ps ! (length ps - 1)"
    "cells (dl_mem ob) (last ps) = Some (node_at ps xs (length ps - 1))"
proof -
  have mem: "last ps \<in> set ps" using ne by simp
  show "dl_tail ob = last ps" using at ne by (simp add: dl_at_def)
  show "last ps \<noteq> 0" using at mem by (metis dl_at_def)
  show "last ps \<noteq> fresh (dl_mem ob)" using dl_at_fresh [OF at] mem by metis
  show l: "last ps = ps ! (length ps - 1)" by (rule last_conv_nth [OF ne])
  have "length ps - 1 < length ps" using ne by (cases ps) auto
  then show "cells (dl_mem ob) (last ps) = Some (node_at ps xs (length ps - 1))"
    using at unfolding l dl_at_def by blast
qed

text \<open>After the change of the store, the dumps are written.\<close>

lemma finish:
  assumes "dl_at ps xs ob'" "cout (dl_mem ob') = s"
  shows "\<exists>ob''. dumps ob' = retM ob'' \<and> dl_rep ob'' xs \<and> cout (dl_mem ob'') = s @ dl_text xs"
  using dumps_run [OF assms(1)] assms dl_at_print [of ps xs ob' "dl_text xs"] by (auto simp: dl_rep_def)

lemma single_at:
  "wf_mem m \<Longrightarrow> p \<noteq> 0 \<Longrightarrow> cells m = [p \<mapsto> \<lparr>dl_value = v, dl_pre = 0, dl_next = 0\<rparr>] \<Longrightarrow>
   dl_at [p] [v] \<lparr>dl_head = p, dl_tail = p, dl_mem = m\<rparr>"
  by (simp add: dl_at_def node_at_def)

lemma add_to_head_runs:
  assumes at: "dl_at ps xs ob"
  shows "\<exists>ob'. add_to_head ob v = retM ob' \<and> dl_rep ob' (v # xs) \<and>
     cout (dl_mem ob') = cout (dl_mem ob) @ dl_text (v # xs)"
proof -
  let ?m = "dl_mem ob" and ?a = "fresh (dl_mem ob)"
  note fr = dl_at_fresh [OF at]
  have wf: "wf_mem ?m" using at by (simp add: dl_at_def)
  show ?thesis
  proof (cases ps)
    case Nil
    then have "xs = []" "dl_head ob = 0" "cells ?m = Map.empty" using at by (auto simp: dl_at_def)
    then show ?thesis
      using finish [OF single_at [of "?m\<lparr>cells := [?a \<mapsto> \<lparr>dl_value = v, dl_pre = 0, dl_next = 0\<rparr>], fresh := Suc ?a\<rparr>" ?a v]]
        wf wf_new [OF wf] fr
      by (simp add: add_to_head_def dl_new_def new_node_def)
  next
    case (Cons p qs)
    have p: "dl_head ob = p" "p \<noteq> 0" "p \<noteq> ?a" "cells ?m p = Some (node_at ps xs 0)"
      using at Cons fr by (auto simp: dl_at_def dest: spec [of _ 0])
    let ?h = "(cells ?m)(?a \<mapsto> \<lparr>dl_value = v, dl_pre = 0, dl_next = p\<rparr>, p \<mapsto> (node_at ps xs 0)\<lparr>dl_pre := ?a\<rparr>)"
    define m' where "m' = ?m\<lparr>fresh := Suc ?a, cells := ?h\<rparr>"
    have run: "add_to_head ob v = dumps (ob\<lparr>dl_head := ?a, dl_mem := m'\<rparr>)"
      using p fr by (simp add: add_to_head_def dl_new_def new_node_def modify_ok m'_def fun_upd_twist)
    have nodes: "cells m' ((?a # ps) ! i) = Some (node_at (?a # ps) (v # xs) i)" if "i < length (?a # ps)" for i
    proof (cases i)
      case 0
      then show ?thesis using p Cons by (simp add: m'_def node_at_def)
    next
      case (Suc j)
      then have j: "j < length ps" using that by simp
      have "ps ! j = p \<longleftrightarrow> j = 0" using dl_at_nth(4) [OF at j, of 0] Cons by simp
      then show ?thesis
        using dl_at_nth(1,3) [OF at j] Suc Cons by (auto simp: m'_def node_at_def)
    qed
    have "wf_mem m'" using wf p by (auto simp: wf_mem_def m'_def less_Suc_eq)
    moreover have "dom (cells m') = set (?a # ps)" using at Cons by (auto simp: m'_def dl_at_def)
    ultimately have "dl_at (?a # ps) (v # xs) (ob\<lparr>dl_head := ?a, dl_mem := m'\<rparr>)"
      using at fr nodes Cons by (simp add: dl_at_def)
    from finish [OF this refl] show ?thesis unfolding run by (simp add: m'_def)
  qed
qed

lemma add_to_tail_runs:
  assumes at: "dl_at ps xs ob"
  shows "\<exists>ob'. add_to_tail ob v = retM ob' \<and> dl_rep ob' (xs @ [v]) \<and>
     cout (dl_mem ob') = cout (dl_mem ob) @ dl_text (xs @ [v])"
proof -
  let ?m = "dl_mem ob" and ?a = "fresh (dl_mem ob)"
  note fr = dl_at_fresh [OF at]
  have wf: "wf_mem ?m" using at by (simp add: dl_at_def)
  show ?thesis
  proof (cases "ps = []")
    case True
    then have "xs = []" "dl_tail ob = 0" "cells ?m = Map.empty" using at by (auto simp: dl_at_def)
    then show ?thesis
      using finish [OF single_at [of "?m\<lparr>cells := [?a \<mapsto> \<lparr>dl_value = v, dl_pre = 0, dl_next = 0\<rparr>], fresh := Suc ?a\<rparr>" ?a v]]
        wf wf_new [OF wf] fr
      by (simp add: add_to_tail_def dl_new_def new_node_def)
  next
    case False
    let ?n = "length ps - 1" and ?p = "last ps"
    note p = dl_at_last [OF at False]
    let ?h = "(cells ?m)(?a \<mapsto> \<lparr>dl_value = v, dl_pre = ?p, dl_next = 0\<rparr>, ?p \<mapsto> (node_at ps xs ?n)\<lparr>dl_next := ?a\<rparr>)"
    define m' where "m' = ?m\<lparr>fresh := Suc ?a, cells := ?h\<rparr>"
    have run: "add_to_tail ob v = dumps (ob\<lparr>dl_tail := ?a, dl_mem := m'\<rparr>)"
      using p fr by (simp add: add_to_tail_def dl_new_def new_node_def modify_ok m'_def fun_upd_twist)
    have nodes: "cells m' ((ps @ [?a]) ! i) = Some (node_at (ps @ [?a]) (xs @ [v]) i)" if "i < length (ps @ [?a])" for i
    proof (cases "i = length ps")
      case True
      moreover have "length xs = length ps" "xs \<noteq> []" using at False by (auto simp: dl_at_def)
      ultimately show ?thesis using p(3) False by (simp add: m'_def node_at_def nth_append last_conv_nth)
    next
      case i: False
      then have j: "i < length ps" using that by simp
      have "?n < length ps" "length xs = length ps" using False at by (simp, simp add: dl_at_def)
      moreover have "ps ! i = ?p \<longleftrightarrow> i = ?n" using dl_at_nth(4) [OF at j, of ?n] p(4) False by simp
      ultimately show ?thesis
        using dl_at_nth(1,3) [OF at j] j by (auto simp: m'_def node_at_def nth_append)
    qed
    have "wf_mem m'" using wf p by (auto simp: wf_mem_def m'_def less_Suc_eq)
    moreover have "dom (cells m') = set (ps @ [?a])" using at False by (auto simp: m'_def dl_at_def)
    ultimately have "dl_at (ps @ [?a]) (xs @ [v]) (ob\<lparr>dl_tail := ?a, dl_mem := m'\<rparr>)"
      using at fr nodes False by (simp add: dl_at_def)
    from finish [OF this refl] show ?thesis unfolding run by (simp add: m'_def)
  qed
qed

lemma single_node:
  assumes "dl_at ps xs ob" "ps \<noteq> []" shows "dl_head ob = dl_tail ob \<longleftrightarrow> length ps = 1"
  using assms by (cases ps) (auto simp: dl_at_def last_in_set)

lemma cleared:
  assumes at: "dl_at [p] [x] ob"
  shows "dl_at [] [] \<lparr>dl_head = 0, dl_tail = 0, dl_mem = (dl_mem ob)\<lparr>cells := (cells (dl_mem ob))(p := None)\<rparr>\<rparr>"
  using at wf_del [of "dl_mem ob" p] by (auto simp: dl_at_def)

lemma del_from_head_runs:
  assumes at: "dl_at ps (x # xs) ob"
  shows "\<exists>ob'. del_from_head ob = retM ob' \<and> dl_rep ob' xs \<and> cout (dl_mem ob') = cout (dl_mem ob) @ dl_text xs"
proof -
  let ?m = "dl_mem ob"
  have wf: "wf_mem ?m" using at by (simp add: dl_at_def)
  obtain p qs where ps: "ps = p # qs" using at by (cases ps) (auto simp: dl_at_def)
  have p: "dl_head ob = p" "p \<noteq> 0" "cells ?m p = Some (node_at ps (x # xs) 0)"
    using at ps by (auto simp: dl_at_def dest: spec [of _ 0])
  show ?thesis
  proof (cases qs)
    case Nil
    then have xs: "xs = []" "dl_tail ob = p" using at ps by (auto simp: dl_at_def)
    have at': "dl_at [p] [x] ob" using at ps Nil xs by simp
    have "del_from_head ob = dumps \<lparr>dl_head = 0, dl_tail = 0, dl_mem = ?m\<lparr>cells := (cells ?m)(p := None)\<rparr>\<rparr>"
      using p xs by (simp add: del_from_head_def delete_ok)
    then show ?thesis using finish [OF cleared [OF at'] refl] xs by simp
  next
    case (Cons q rs)
    have q: "q \<noteq> 0" "q \<noteq> p" "cells ?m q = Some (node_at ps (x # xs) 1)" "dl_next (node_at ps (x # xs) 0) = q"
      using at ps Cons by (auto simp: dl_at_def node_at_def dest: spec [of _ 1])
    have ht: "dl_head ob \<noteq> dl_tail ob" using single_node [OF at] ps Cons by simp
    let ?h = "(cells ?m)(q \<mapsto> (node_at ps (x # xs) 1)\<lparr>dl_pre := 0\<rparr>, p := None)"
    define m' where "m' = ?m\<lparr>cells := ?h\<rparr>"
    have run: "del_from_head ob = dumps (ob\<lparr>dl_head := q, dl_mem := m'\<rparr>)"
      using p q ht by (simp add: del_from_head_def load_ok modify_ok delete_ok m'_def)
    have nodes: "cells m' (qs ! i) = Some (node_at qs xs i)" if "i < length qs" for i
    proof -
      have "Suc i < length ps" using ps that by simp
      then have "cells ?m (ps ! Suc i) = Some (node_at ps (x # xs) (Suc i))" using at unfolding dl_at_def by blast
      moreover have "qs ! i = q \<longleftrightarrow> i = 0" "qs ! i \<noteq> p"
        using dl_at_nth(4) [OF at \<open>Suc i < length ps\<close>, of 1] dl_at_nth(4) [OF at \<open>Suc i < length ps\<close>, of 0] ps Cons
        by simp_all
      ultimately show ?thesis using ps Cons by (auto simp: m'_def node_at_def nth_Cons')
    qed
    have "wf_mem m'" using wf q by (auto simp: wf_mem_def m'_def)
    moreover have "dom (cells m') = set qs" using at ps Cons by (auto simp: m'_def dl_at_def)
    ultimately have "dl_at qs xs (ob\<lparr>dl_head := q, dl_mem := m'\<rparr>)"
      using at nodes ps Cons by (simp add: dl_at_def)
    from finish [OF this refl] show ?thesis unfolding run by (simp add: m'_def)
  qed
qed

lemma del_from_tail_runs:
  assumes at: "dl_at ps xs ob" and ne: "xs \<noteq> []"
  shows "\<exists>ob'. del_from_tail ob = retM ob' \<and> dl_rep ob' (butlast xs) \<and>
     cout (dl_mem ob') = cout (dl_mem ob) @ dl_text (butlast xs)"
proof -
  let ?m = "dl_mem ob" and ?n = "length ps - 1" and ?p = "last ps"
  have wf: "wf_mem ?m" using at by (simp add: dl_at_def)
  have ps: "ps \<noteq> []" "length ps = length xs" using at ne by (auto simp: dl_at_def)
  note l = dl_at_last [OF at ps(1)]
  have p: "dl_tail ob = ?p" "?p \<noteq> 0" "cells ?m ?p = Some (node_at ps xs ?n)" "?p = ps ! ?n"
    by (rule l(1), rule l(2), rule l(5), rule l(4))
  show ?thesis
  proof (cases "?n = 0")
    case True
    then obtain q x where qx: "ps = [q]" "xs = [x]" using ps by (cases ps; cases xs) auto
    then have "del_from_tail ob = dumps \<lparr>dl_head = 0, dl_tail = 0, dl_mem = ?m\<lparr>cells := (cells ?m)(q := None)\<rparr>\<rparr>"
      using p single_node [OF at ps(1)] by (simp add: del_from_tail_def delete_ok)
    then show ?thesis using finish [OF cleared refl, of q x ob] at qx by simp
  next
    case False
    let ?k = "?n - 1" and ?q = "ps ! (?n - 1)"
    have k: "?k < length ps" "Suc ?k = ?n" using False ps by auto
    have q: "?q \<noteq> 0" "?q \<noteq> ?p" "cells ?m ?q = Some (node_at ps xs ?k)" "dl_pre (node_at ps xs ?n) = ?q"
      using dl_at_nth [OF at k(1)] dl_at_nth(4) [OF at k(1), of ?n] p(4) False ps
      by (auto simp: node_at_def)
    have ht: "dl_head ob \<noteq> dl_tail ob" using single_node [OF at ps(1)] False ps by (cases ps) auto
    let ?h = "(cells ?m)(?q \<mapsto> (node_at ps xs ?k)\<lparr>dl_next := 0\<rparr>, ?p := None)"
    define m' where "m' = ?m\<lparr>cells := ?h\<rparr>"
    have run: "del_from_tail ob = dumps (ob\<lparr>dl_tail := ?q, dl_mem := m'\<rparr>)"
      using p(1-3) q ht by (simp add: del_from_tail_def load_ok modify_ok delete_ok m'_def)
    have len: "length (butlast ps) = ?n" by simp
    have nodes: "cells m' (butlast ps ! i) = Some (node_at (butlast ps) (butlast xs) i)" if i: "i < length (butlast ps)" for i
    proof -
      have j: "i < length ps" "?n < length ps" using i ps by auto
      have "cells ?m (ps ! i) = Some (node_at ps xs i)" by (rule dl_at_nth(1) [OF at j(1)])
      moreover have "ps ! i = ?q \<longleftrightarrow> i = ?k" by (rule dl_at_nth(4) [OF at j(1) k(1)])
      moreover have "ps ! i \<noteq> ?p" using dl_at_nth(4) [OF at j] i p(4) by simp
      ultimately show ?thesis using i k ps by (auto simp: m'_def node_at_def nth_butlast)
    qed
    have dist: "distinct ps" "0 \<notin> set ps" "dom (cells ?m) = set ps" using at by (auto simp: dl_at_def)
    have split: "ps = butlast ps @ [?p]" using ps by simp
    then have notin: "?p \<notin> set (butlast ps)" "set ps = insert ?p (set (butlast ps))" "distinct (butlast ps)" "0 \<notin> set (butlast ps)"
      using dist(1,2) by (metis Int_insert_right_if0 disjoint_insert(1) distinct_append empty_set list.simps(15) not_distinct_conv_prefix,
          metis Un_insert_right empty_set list.simps(15) set_append sup_bot.right_neutral,
          metis distinct_butlast, metis in_set_butlastD)
    have "wf_mem m'" using wf q by (auto simp: wf_mem_def m'_def)
    moreover have "?q \<in> set ps" using k by simp
    then have "dom (cells m') = set (butlast ps)" using notin dist(3) by (auto simp: m'_def)
    moreover have "butlast ps \<noteq> []" "last (butlast ps) = ?q" "hd (butlast ps) = hd ps"
    proof -
      show ne': "butlast ps \<noteq> []" using len False by (metis list.size(3))
      show "last (butlast ps) = ?q" 
        using ne' len k nth_butlast [of ?k ps] by (simp add: last_conv_nth)
      show "hd (butlast ps) = hd ps" using ne' split by (metis hd_append2)
    qed
    ultimately have "dl_at (butlast ps) (butlast xs) (ob\<lparr>dl_tail := ?q, dl_mem := m'\<rparr>)"
      using at nodes ps notin by (simp add: dl_at_def)
    from finish [OF this refl] show ?thesis unfolding run by (simp add: m'_def)
  qed
qed

section \<open>Double-ended queues\<close>

datatype deque_op = AddHead int | AddTail int | DelHead | DelTail

fun spec_op :: "deque_op \<Rightarrow> int list \<Rightarrow> int list" where
  "spec_op (AddHead v) xs = v # xs"
| "spec_op (AddTail v) xs = xs @ [v]"
| "spec_op DelHead xs = tl xs"
| "spec_op DelTail xs = butlast xs"

text \<open>Every operation but a deletion from the empty list writes the new content.\<close>

definition op_text :: "(int list \<Rightarrow> string) \<Rightarrow> deque_op \<Rightarrow> int list \<Rightarrow> string" where
  "op_text txt op xs = (if xs = [] \<and> (op = DelHead \<or> op = DelTail) then [] else txt (spec_op op xs))"

fun spec_text :: "(int list \<Rightarrow> string) \<Rightarrow> deque_op list \<Rightarrow> int list \<Rightarrow> string" where
  "spec_text txt [] xs = []"
| "spec_text txt (op # ops) xs = op_text txt op xs @ spec_text txt ops (spec_op op xs)"

primrec run_all :: "('obj \<Rightarrow> deque_op \<Rightarrow> 'obj may) \<Rightarrow> 'obj \<Rightarrow> deque_op list \<Rightarrow> 'obj may" where
  "run_all app ob [] = retM ob"
| "run_all app ob (op # ops) = bindM (app ob op) (\<lambda>ob. run_all app ob ops)"

locale deque_object =
  fixes rep :: "'obj \<Rightarrow> int list \<Rightarrow> bool" and written :: "'obj \<Rightarrow> string"
    and app :: "'obj \<Rightarrow> deque_op \<Rightarrow> 'obj may" and content :: "int list \<Rightarrow> string"
  assumes app_runs: "rep ob xs \<Longrightarrow>
    endsM (app ob op) (\<lambda>ob'. rep ob' (spec_op op xs) \<and> written ob' = written ob @ op_text content op xs)"
begin

lemma run_all_runs:
  "rep ob xs \<Longrightarrow> endsM (run_all app ob ops)
     (\<lambda>ob'. rep ob' (foldl (\<lambda>xs op. spec_op op xs) xs ops) \<and> written ob' = written ob @ spec_text content ops xs)"
proof (induction ops arbitrary: ob xs)
  case Nil
  then show ?case by simp
next
  case (Cons op ops)
  show ?case unfolding run_all.simps
  proof (rule endsM_bind [OF app_runs [OF Cons.prems]])
    fix ob' assume "rep ob' (spec_op op xs) \<and> written ob' = written ob @ op_text content op xs"
    then show "endsM (run_all app ob' ops)
        (\<lambda>ob'. rep ob' (foldl (\<lambda>xs op. spec_op op xs) xs (op # ops)) \<and> written ob' = written ob @ spec_text content (op # ops) xs)"
      using Cons.IH [of ob' "spec_op op xs"] by simp
  qed
qed

end

section \<open>The list\<close>

fun dl_op :: "dl_obj \<Rightarrow> deque_op \<Rightarrow> dl_obj may" where
  "dl_op ob (AddHead v) = add_to_head ob v"
| "dl_op ob (AddTail v) = add_to_tail ob v"
| "dl_op ob DelHead = del_from_head ob"
| "dl_op ob DelTail = del_from_tail ob"

definition dl_out :: "dl_obj \<Rightarrow> string" where
  "dl_out ob = cout (dl_mem ob)"

lemma dl_op_runs:
  assumes "dl_rep ob xs"
  shows "endsM (dl_op ob op) (\<lambda>ob'. dl_rep ob' (spec_op op xs) \<and> dl_out ob' = dl_out ob @ op_text dl_text op xs)"
proof -
  obtain ps where at: "dl_at ps xs ob" using assms by (auto simp: dl_rep_def)
  show ?thesis
  proof (cases op)
    case (AddHead v)
    then show ?thesis using add_to_head_runs [OF at, of v] by (auto simp: op_text_def dl_out_def)
  next
    case (AddTail v)
    then show ?thesis using add_to_tail_runs [OF at, of v] by (auto simp: op_text_def dl_out_def)
  next
    case DelHead
    then show ?thesis using at assms del_from_head_runs [of ps "hd xs" "tl xs" ob]
      by (cases xs) (auto simp: op_text_def dl_out_def del_from_head_def dl_at_empty)
  next
    case DelTail
    then show ?thesis using at assms del_from_tail_runs [OF at]
      by (cases "xs = []") (auto simp: op_text_def dl_out_def del_from_tail_def dl_at_empty)
  qed
qed

interpretation dl: deque_object dl_rep dl_out dl_op dl_text
  by unfold_locales (rule dl_op_runs)

lemma dl_init_rep: "dl_rep dl_init []"
  by (auto simp: dl_rep_def dl_init_def dl_at_empty) (simp add: empty_mem_def)

text \<open>
  C23: any sequence of insertions and deletions at the two ends of an empty list ends without a
  fault; the nodes in the store are those of the double-ended queue with the same operations (none
  is lost, none is left over), and after every change both dumps show it.
\<close>

theorem double_list_is_deque:
  "\<exists>ob ps. run_all dl_op dl_init ops = retM ob \<and> dl_at ps (foldl (\<lambda>xs op. spec_op op xs) [] ops) ob \<and>
     cout (dl_mem ob) = spec_text dl_text ops []"
  using dl.run_all_runs [OF dl_init_rep, of ops]
  by (auto simp: endsM_def dl_rep_def dl_out_def dl_init_def empty_mem_def)

text \<open>
  \<open>main\<close> ends with the list of the one value 2, and writes its five contents.\<close>

theorem dl_main_output:
  "\<exists>ob ps. dl_main = retM ob \<and> dl_at ps [2] ob \<and>
     cout (dl_mem ob) = concat (map dl_text [[2], [1, 2], [1, 2, 3], [2, 3], [2]])"
proof -
  have "dl_main = run_all dl_op dl_init [AddHead 2, AddHead 1, AddTail 3, DelHead, DelTail]"
  proof -
    have ret: "bindM m retM = m" for m :: "'a may"
      by (cases m) (auto simp: bindM_def split: sum.splits)
    show ?thesis by (simp add: dl_main_def bindM_assoc ret)
  qed
  then show ?thesis
    using double_list_is_deque [of "[AddHead 2, AddHead 1, AddTail 3, DelHead, DelTail]"]
    by (simp add: op_text_def)
qed

end
