(* ===== verification/RingList.thy ===== *)
theory RingList
  imports DoubleListClaims
begin

text \<open>
  The ring of \<^verbatim>\<open>ring_linked_list.cpp\<close>: what its operations do to a well-linked ring, the deletion of
  the last element, and what becomes of a ring after an insertion at the tail.
\<close>

section \<open>The class\<close>

record rl_node =
  rl_value :: int
  rl_next :: ptr

record rl_obj =
  rl_tail :: ptr
  rl_mem :: "rl_node mem"

definition rl_init :: rl_obj where
  "rl_init = \<lparr>rl_tail = 0, rl_mem = empty_mem\<rparr>"

definition rl_new :: "rl_node mem \<Rightarrow> int \<Rightarrow> ptr \<times> rl_node mem" where
  "rl_new m vl = new_node m \<lparr>rl_value = vl, rl_next = 0\<rparr>"

text \<open>\<open>while (cur && !again) ...\<close>; \<open>tail_->next\<close> is read in every round.\<close>

definition ring_walk :: "ptr \<Rightarrow> ptr \<times> bool \<times> rl_node mem \<Rightarrow> (ptr \<times> bool \<times> rl_node mem) may" where
  "ring_walk tail = while_may (\<lambda>(cur, again, m). Inr (cur \<noteq> 0 \<and> \<not> again))
     (\<lambda>(cur, again, m).
        bindM (Some (load m cur)) (\<lambda>n.
        bindM (Some (load m tail)) (\<lambda>t.
        retM (rl_next n, again \<or> rl_next n = rl_next t, print m (show_sp (rl_value n))))))"

definition ring_dump :: "rl_obj \<Rightarrow> rl_obj may" where
  "ring_dump ob =
     bindM (Some (load (rl_mem ob) (rl_tail ob))) (\<lambda>t.
     bindM (ring_walk (rl_tail ob) (rl_next t, False, rl_mem ob)) (\<lambda>(cur, again, m).
     retM (ob\<lparr>rl_mem := print m endl\<rparr>)))"

definition dump_time :: "int \<Rightarrow> rl_obj \<Rightarrow> rl_obj may" where
  "dump_time index ob =
     bindM (ring_dump (ob\<lparr>rl_mem := print (rl_mem ob) (''====== dump: '' @ fmt_d index @ '' time begin'' @ endl)\<rparr>)) (\<lambda>ob.
     retM (ob\<lparr>rl_mem := print (rl_mem ob) (''====== dump: '' @ fmt_d index @ '' time end'' @ endl)\<rparr>))"

definition dump_3_times :: "rl_obj \<Rightarrow> rl_obj may" where
  "dump_3_times ob = bindM (dump_time 0 ob) (\<lambda>ob. bindM (dump_time 1 ob) (dump_time 2))"

text \<open>The first element: its \<open>next\<close> is itself.\<close>

definition ring_first :: "ptr \<Rightarrow> rl_node mem \<Rightarrow> rl_obj may" where
  "ring_first node m =
     bindM (Some (modify m node (\<lambda>k. k\<lparr>rl_next := node\<rparr>))) (\<lambda>m. dump_3_times \<lparr>rl_tail = node, rl_mem = m\<rparr>)"

definition ring_add_to_head :: "rl_obj \<Rightarrow> int \<Rightarrow> rl_obj may" where
  "ring_add_to_head ob vl =
     (case rl_new (rl_mem ob) vl of (node, m) \<Rightarrow>
      if rl_tail ob = 0 then ring_first node m
      else
        bindM (Some (load m (rl_tail ob))) (\<lambda>t.
        bindM (Some (modify m node (\<lambda>k. k\<lparr>rl_next := rl_next t\<rparr>))) (\<lambda>m.
        bindM (Some (modify m (rl_tail ob) (\<lambda>k. k\<lparr>rl_next := node\<rparr>))) (\<lambda>m.
        dump_3_times (ob\<lparr>rl_mem := m\<rparr>)))))"

text \<open>The deletion of the only element; both deletions do the same.\<close>

definition ring_last :: "rl_obj \<Rightarrow> rl_obj may" where
  "ring_last ob =
     bindM (Some (delete_node (rl_mem ob) (rl_tail ob))) (\<lambda>m. dump_3_times \<lparr>rl_tail = 0, rl_mem = m\<rparr>)"

definition ring_del_from_head :: "rl_obj \<Rightarrow> rl_obj may" where
  "ring_del_from_head ob =
     (if rl_tail ob = 0 then retM ob
      else
        bindM (Some (load (rl_mem ob) (rl_tail ob))) (\<lambda>t.
        if rl_tail ob = rl_next t then ring_last ob
        else
          bindM (Some (load (rl_mem ob) (rl_next t))) (\<lambda>h.
          bindM (Some (modify (rl_mem ob) (rl_tail ob) (\<lambda>k. k\<lparr>rl_next := rl_next h\<rparr>))) (\<lambda>m.
          bindM (Some (delete_node m (rl_next t))) (\<lambda>m.
          dump_3_times (ob\<lparr>rl_mem := m\<rparr>))))))"

definition ring_add_to_tail :: "rl_obj \<Rightarrow> int \<Rightarrow> rl_obj may" where
  "ring_add_to_tail ob vl =
     (case rl_new (rl_mem ob) vl of (node, m) \<Rightarrow>
      if rl_tail ob = 0 then ring_first node m
      else
        bindM (Some (load m (rl_tail ob))) (\<lambda>t.
        bindM (Some (modify m node (\<lambda>k. k\<lparr>rl_next := rl_next t\<rparr>))) (\<lambda>m.
        dump_3_times \<lparr>rl_tail = node, rl_mem = m\<rparr>)))"

text \<open>\<open>while (end && end->next != tail_) end = end->next;\<close>\<close>

definition ring_before :: "rl_obj \<Rightarrow> ptr \<Rightarrow> ptr may" where
  "ring_before ob = while_may
     (\<lambda>e. if e = 0 then Inr False else bindE (load (rl_mem ob) e) (\<lambda>n. Inr (rl_next n \<noteq> rl_tail ob)))
     (\<lambda>e. bindM (Some (load (rl_mem ob) e)) (\<lambda>n. retM (rl_next n)))"

definition ring_del_from_tail :: "rl_obj \<Rightarrow> rl_obj may" where
  "ring_del_from_tail ob =
     (if rl_tail ob = 0 then retM ob
      else
        bindM (Some (load (rl_mem ob) (rl_tail ob))) (\<lambda>t.
        if rl_tail ob = rl_next t then ring_last ob
        else
          bindM (ring_before ob (rl_next t)) (\<lambda>e.
          bindM (Some (modify (rl_mem ob) e (\<lambda>k. k\<lparr>rl_next := rl_next t\<rparr>))) (\<lambda>m.
          dump_3_times \<lparr>rl_tail = e, rl_mem = m\<rparr>))))"

definition rl_main :: "rl_obj may" where
  "rl_main =
     bindM (ring_add_to_head rl_init 2) (\<lambda>ob.
     bindM (ring_add_to_tail ob 3) (\<lambda>ob.
     bindM (ring_add_to_head ob 1) (\<lambda>ob.
     bindM (ring_del_from_tail ob) ring_del_from_head)))"

section \<open>Rings in the store\<close>

text \<open>The nodes of the ring in order, and the tail, whose successor is the first.\<close>

definition ring_cells :: "ptr list \<Rightarrow> int list \<Rightarrow> (ptr \<rightharpoonup> rl_node) \<Rightarrow> bool" where
  "ring_cells ps xs h \<longleftrightarrow> ps \<noteq> [] \<and> length ps = length xs \<and> distinct ps \<and> 0 \<notin> set ps \<and>
     (\<forall>i < length ps. h (ps ! i) = Some \<lparr>rl_value = xs ! i, rl_next = (ps @ [hd ps]) ! Suc i\<rparr>)"

definition ring_at :: "ptr list \<Rightarrow> int list \<Rightarrow> rl_obj \<Rightarrow> bool" where
  "ring_at ps xs ob \<longleftrightarrow> ring_cells ps xs (cells (rl_mem ob)) \<and> wf_mem (rl_mem ob) \<and> rl_tail ob = last ps"

definition ring_text :: "int list \<Rightarrow> string" where
  "ring_text xs = concat (map (\<lambda>i. ''====== dump: '' @ fmt_d i @ '' time begin'' @ endl @ show_list xs @ endl @
     ''====== dump: '' @ fmt_d i @ '' time end'' @ endl) [0, 1, 2])"

lemma ring_next:
  assumes "ring_cells ps xs h" "i < length ps"
  shows "ps ! i \<noteq> 0" "\<exists>n. h (ps ! i) = Some n \<and> rl_value n = xs ! i \<and>
    rl_next n = (if Suc i < length ps then ps ! Suc i else hd ps)"
proof -
  show "ps ! i \<noteq> 0" using assms by (metis ring_cells_def nth_mem)
  have "(ps @ [hd ps]) ! Suc i = (if Suc i < length ps then ps ! Suc i else hd ps)"
    using assms(2) by (auto simp: nth_append less_Suc_eq)
  then show "\<exists>n. h (ps ! i) = Some n \<and> rl_value n = xs ! i \<and>
      rl_next n = (if Suc i < length ps then ps ! Suc i else hd ps)"
    using assms unfolding ring_cells_def by auto
qed

text \<open>A tail whose successor is the first node of a ring: the dump writes the ring.\<close>

lemma ring_walk_writes:
  assumes r: "ring_cells ps xs h" and t: "q \<noteq> 0" "h q = Some k" "rl_next k = hd ps" and i: "i < length ps"
    and m: "cells m = h"
  shows "\<exists>cur. ring_walk q (ps ! i, False, m) = retM (cur, True, print m (show_list (drop i xs)))"
  using i m
proof (induction "length ps - i" arbitrary: i m)
  case 0
  then show ?case by simp
next
  case (Suc j)
  note i = ring_next [OF r Suc.prems(1)]
  obtain n where n: "h (ps ! i) = Some n" "rl_value n = xs ! i"
      "rl_next n = (if Suc i < length ps then ps ! Suc i else hd ps)" using i(2) by auto
  have len: "length xs = length ps" "hd ps = ps ! 0" "distinct ps" using r by (auto simp: ring_cells_def hd_conv_nth)
  have step: "ring_walk q (ps ! i, False, m) =
      ring_walk q (rl_next n, rl_next n = rl_next k, print m (show_sp (rl_value n)))"
    using i(1) n(1) t Suc.prems(2) by (simp add: ring_walk_def while_step load_ok)
  have d: "drop i xs = xs ! i # drop (Suc i) xs" using Suc.prems(1) len by (simp add: Cons_nth_drop_Suc)
  show ?case
  proof (cases "Suc i < length ps")
    case False
    then have "rl_next n = rl_next k" using n t by simp
    moreover have "drop (Suc i) xs = []" using False len by simp
    ultimately show ?thesis using step n d by (auto simp: ring_walk_def while_stop show_list_def)
  next
    case True
    have "0 < length ps" using True by linarith
    then have "ps ! Suc i \<noteq> hd ps" unfolding len(2) using len(3) True by (simp add: nth_eq_iff_index_eq)
    then have "rl_next n \<noteq> rl_next k" using n t True by simp
    moreover obtain cur where "ring_walk q (ps ! Suc i, False, print m (show_sp (xs ! i))) =
        retM (cur, True, print (print m (show_sp (xs ! i))) (show_list (drop (Suc i) xs)))"
      using Suc.hyps(1) [of "Suc i" "print m (show_sp (xs ! i))", OF _ True] Suc.hyps(2) Suc.prems(2) by fastforce
    ultimately show ?thesis using step n d True by (simp add: show_list_def)
  qed
qed

lemma dump_3_times_writes:
  assumes r: "ring_cells ps xs (cells (rl_mem ob))" and t: "rl_tail ob \<noteq> 0" "cells (rl_mem ob) (rl_tail ob) = Some k" "rl_next k = hd ps"
  shows "dump_3_times ob = retM (ob\<lparr>rl_mem := print (rl_mem ob) (ring_text xs)\<rparr>)"
proof -
  have "0 < length ps" and hd: "hd ps = ps ! 0" using r by (auto simp: ring_cells_def hd_conv_nth)
  from ring_walk_writes [OF r t this(1)]
  have w: "\<exists>cur. ring_walk (rl_tail ob) (hd ps, False, m) = retM (cur, True, print m (show_list xs))"
    if "cells m = cells (rl_mem ob)" for m using that by (simp add: hd)
  have "ring_dump (ob\<lparr>rl_mem := m\<rparr>) = retM (ob\<lparr>rl_mem := print m (show_list xs @ endl)\<rparr>)"
    if m: "cells m = cells (rl_mem ob)" for m
  proof -
    obtain cur where "ring_walk (rl_tail ob) (hd ps, False, m) = retM (cur, True, print m (show_list xs))"
      using w [OF m] by blast
    then show ?thesis using t m by (simp add: ring_dump_def load_ok)
  qed
  then have "dump_time i (ob\<lparr>rl_mem := m\<rparr>) = retM (ob\<lparr>rl_mem := print m (''====== dump: '' @ fmt_d i @ '' time begin'' @ endl @
      show_list xs @ endl @ ''====== dump: '' @ fmt_d i @ '' time end'' @ endl)\<rparr>)"
    if "cells m = cells (rl_mem ob)" for m i using that by (simp add: dump_time_def)
  from this [of "rl_mem ob" 0] this show ?thesis
    by (simp add: dump_3_times_def ring_text_def)
qed

text \<open>
  A tail whose successor lies outside a ring it leads into: the dump comes round the ring for ever.
\<close>

lemma ring_walk_never:
  assumes r: "ring_cells ps xs h" and t: "q \<noteq> 0" "h q = Some k" "rl_next k \<notin> set ps"
    and m: "p \<in> set ps" "cells m = h"
  shows "ring_walk q (p, False, m) = None"
  unfolding ring_walk_def
proof (rule while_never [where I = "\<lambda>(cur, again, m). cur \<in> set ps \<and> \<not> again \<and> cells m = h"])
  show "case (p, False, m) of (cur, again, m) \<Rightarrow> cur \<in> set ps \<and> \<not> again \<and> cells m = h" using m by simp
  fix s :: "ptr \<times> bool \<times> rl_node mem"
  assume I: "case s of (cur, again, m) \<Rightarrow> cur \<in> set ps \<and> \<not> again \<and> cells m = h"
  obtain cur again m' where s: "s = (cur, again, m')" "cur \<in> set ps" "\<not> again" "cells m' = h"
    using I by (cases s) auto
  then obtain i where i: "i < length ps" "cur = ps ! i" by (auto simp: in_set_conv_nth)
  from ring_next [OF r i(1)] obtain n where n: "ps ! i \<noteq> 0" "h (ps ! i) = Some n"
      "rl_next n = (if Suc i < length ps then ps ! Suc i else hd ps)" by auto
  have "rl_next n \<in> set ps" using n(3) i(1) r by (auto simp: ring_cells_def)
  then show "(case s of (cur, again, m) \<Rightarrow> Inr (cur \<noteq> 0 \<and> \<not> again)) = Inr True \<and>
      endsM (case s of (cur, again, m) \<Rightarrow> bindM (Some (load m cur)) (\<lambda>n. bindM (Some (load m q)) (\<lambda>t.
        retM (rl_next n, again \<or> rl_next n = rl_next t, print m (show_sp (rl_value n))))))
       (\<lambda>(cur, again, m). cur \<in> set ps \<and> \<not> again \<and> cells m = h)"
    using s i n t by (auto simp: load_ok)
qed

end
