(* ===== verification/RingListClaims.thy ===== *)
theory RingListClaims
  imports RingList
begin

text \<open>
  What the operations of the ring do: the good cases, the deletion of the only element, and the
  insertion at the tail, after which an insertion at the head never returns.
\<close>

section \<open>Insertion and deletion at the head\<close>

lemma ring_at_nth:
  assumes at: "ring_at ps xs ob" and i: "i < length ps"
  shows "cells (rl_mem ob) (ps ! i) = Some \<lparr>rl_value = xs ! i, rl_next = (ps @ [hd ps]) ! Suc i\<rparr>"
    "ps ! i \<noteq> 0" "ps ! i \<noteq> fresh (rl_mem ob)" "j < length ps \<Longrightarrow> ps ! i = ps ! j \<longleftrightarrow> i = j"
proof -
  show c: "cells (rl_mem ob) (ps ! i) = Some \<lparr>rl_value = xs ! i, rl_next = (ps @ [hd ps]) ! Suc i\<rparr>"
    using at i unfolding ring_at_def ring_cells_def by blast
  show "ps ! i \<noteq> 0" using at i by (metis ring_at_def ring_cells_def nth_mem)
  show "ps ! i \<noteq> fresh (rl_mem ob)" using c wf_fresh [of "rl_mem ob"] at by (auto simp: ring_at_def)
  show "j < length ps \<Longrightarrow> ps ! i = ps ! j \<longleftrightarrow> i = j"
    using at i by (simp add: ring_at_def ring_cells_def nth_eq_iff_index_eq)
qed

lemma ring_at_last:
  assumes at: "ring_at ps xs ob"
  shows "ps \<noteq> []" "rl_tail ob = ps ! (length ps - 1)" "length ps - 1 < length ps" "rl_tail ob \<noteq> 0"
    "rl_tail ob \<noteq> fresh (rl_mem ob)"
    "cells (rl_mem ob) (rl_tail ob) = Some \<lparr>rl_value = xs ! (length ps - 1), rl_next = hd ps\<rparr>"
proof -
  show ne: "ps \<noteq> []" using at by (simp add: ring_at_def ring_cells_def)
  show t: "rl_tail ob = ps ! (length ps - 1)" using at ne by (simp add: ring_at_def last_conv_nth)
  show l: "length ps - 1 < length ps" using ne by (cases ps) auto
  show "rl_tail ob \<noteq> 0" "rl_tail ob \<noteq> fresh (rl_mem ob)" using ring_at_nth [OF at l] t by simp_all
  have "(ps @ [hd ps]) ! Suc (length ps - 1) = hd ps" using ne by simp
  then show "cells (rl_mem ob) (rl_tail ob) = Some \<lparr>rl_value = xs ! (length ps - 1), rl_next = hd ps\<rparr>"
    using ring_at_nth(1) [OF at l] t by simp
qed

lemma ring_finish:
  assumes "ring_at ps xs ob'" "cout (rl_mem ob') = s"
  shows "\<exists>ob''. dump_3_times ob' = retM ob'' \<and> ring_at ps xs ob'' \<and> cells (rl_mem ob'') = cells (rl_mem ob') \<and>
     cout (rl_mem ob'') = s @ ring_text xs"
  using dump_3_times_writes [of ps xs ob'] assms ring_at_last [OF assms(1)] by (auto simp: ring_at_def)

lemma ring_first_runs:
  assumes "wf_mem m" "rl_new m v = (a, m1)"
  shows "\<exists>ob. ring_first a m1 = retM ob \<and> ring_at [a] [v] ob \<and> cout (rl_mem ob) = cout m @ ring_text [v]"
proof -
  have a: "a = fresh m" "m1 = m\<lparr>cells := (cells m)(a \<mapsto> \<lparr>rl_value = v, rl_next = 0\<rparr>), fresh := Suc a\<rparr>" "a \<noteq> 0"
    using assms by (auto simp: rl_new_def new_node_def)
  let ?ob = "\<lparr>rl_tail = a, rl_mem = m1\<lparr>cells := (cells m1)(a \<mapsto> \<lparr>rl_value = v, rl_next = a\<rparr>)\<rparr>\<rparr>"
  have "wf_mem m1" using wf_new [OF assms(1)] a by simp
  then have "ring_at [a] [v] ?ob" using a wf_upd [of m1 a] by (simp add: ring_at_def ring_cells_def)
  from ring_finish [OF this refl] show ?thesis using a by (auto simp: ring_first_def modify_ok)
qed

lemma ring_add_to_head_runs:
  assumes at: "ring_at ps xs ob"
  shows "\<exists>ob' ps'. ring_add_to_head ob v = retM ob' \<and> ring_at ps' (v # xs) ob' \<and>
     cout (rl_mem ob') = cout (rl_mem ob) @ ring_text (v # xs)"
proof -
  let ?m = "rl_mem ob" and ?a = "fresh (rl_mem ob)" and ?t = "rl_tail ob" and ?n = "length ps - 1"
  note l = ring_at_last [OF at]
  have wf: "wf_mem ?m" and len: "length xs = length ps" using at by (auto simp: ring_at_def ring_cells_def)
  let ?h = "(cells ?m)(?a \<mapsto> \<lparr>rl_value = v, rl_next = hd ps\<rparr>, ?t \<mapsto> \<lparr>rl_value = xs ! ?n, rl_next = ?a\<rparr>)"
  define m' where "m' = ?m\<lparr>fresh := Suc ?a, cells := ?h\<rparr>"
  have run: "ring_add_to_head ob v = dump_3_times (ob\<lparr>rl_mem := m'\<rparr>)"
    using l wf by (simp add: ring_add_to_head_def rl_new_def new_node_def load_ok modify_ok m'_def)
  have nodes: "cells m' ((?a # ps) ! i) = Some \<lparr>rl_value = (v # xs) ! i, rl_next = ((?a # ps) @ [?a]) ! Suc i\<rparr>"
    if i: "i < length (?a # ps)" for i
  proof (cases i)
    case 0
    then show ?thesis using l(1,5) by (simp add: m'_def hd_conv_nth nth_append)
  next
    case (Suc j)
    then have j: "j < length ps" using i by simp
    have "ps ! j = ?t \<longleftrightarrow> j = ?n" using ring_at_nth(4) [OF at j l(3)] l(2) by simp
    then show ?thesis
      using ring_at_nth(1,3) [OF at j] j Suc l(1) by (auto simp: m'_def nth_append less_Suc_eq)
  qed
  have "wf_mem m'" using wf l by (auto simp: wf_mem_def m'_def less_Suc_eq)
  moreover have "?a \<notin> set ps" "0 \<notin> set ps"
    using ring_at_nth(2,3) [OF at] by (auto simp: in_set_conv_nth)
  ultimately have "ring_at (?a # ps) (v # xs) (ob\<lparr>rl_mem := m'\<rparr>)"
    using at nodes l(1) wf by (simp add: ring_at_def ring_cells_def)
  from ring_finish [OF this refl] show ?thesis unfolding run by (auto simp: m'_def)
qed

lemma ring_del_from_head_runs:
  assumes at: "ring_at (p # q # rs) (x # y # xs) ob"
  shows "\<exists>ob'. ring_del_from_head ob = retM ob' \<and> ring_at (q # rs) (y # xs) ob' \<and> cells (rl_mem ob') p = None \<and>
     cout (rl_mem ob') = cout (rl_mem ob) @ ring_text (y # xs)"
proof -
  let ?m = "rl_mem ob" and ?t = "rl_tail ob" and ?ps = "p # q # rs" and ?xs = "x # y # xs"
  let ?n = "length ?ps - 1"
  note l = ring_at_last [OF at]
  have wf: "wf_mem ?m" and len: "length xs = length rs" using at by (auto simp: ring_at_def ring_cells_def)
  have p: "cells ?m p = Some \<lparr>rl_value = x, rl_next = q\<rparr>" "p \<noteq> 0" using ring_at_nth [OF at, of 0] by simp_all
  have tp: "?t \<noteq> p" using ring_at_nth(4) [OF at l(3), of 0] l(2) by simp
  let ?h = "(cells ?m)(?t \<mapsto> \<lparr>rl_value = ?xs ! ?n, rl_next = q\<rparr>, p := None)"
  define m' where "m' = ?m\<lparr>cells := ?h\<rparr>"
  have run: "ring_del_from_head ob = dump_3_times (ob\<lparr>rl_mem := m'\<rparr>)"
    using l(4,6) p tp by (simp add: ring_del_from_head_def load_ok modify_ok delete_ok m'_def)
  have nodes: "cells m' ((q # rs) ! i) = Some \<lparr>rl_value = (y # xs) ! i, rl_next = ((q # rs) @ [q]) ! Suc i\<rparr>"
    if i: "i < length (q # rs)" for i
  proof -
    have j: "Suc i < length ?ps" using i by simp
    have "?ps ! Suc i = ?t \<longleftrightarrow> Suc i = ?n" using ring_at_nth(4) [OF at j l(3)] l(2) by simp
    moreover have "?ps ! Suc i \<noteq> p" using ring_at_nth(4) [OF at j, of 0] by simp
    moreover have "cells ?m (?ps ! Suc i) = Some \<lparr>rl_value = ?xs ! Suc i, rl_next = (?ps @ [p]) ! Suc (Suc i)\<rparr>"
      using ring_at_nth(1) [OF at j] by simp
    ultimately show ?thesis using i by (auto simp: m'_def nth_append less_Suc_eq)
  qed
  have "wf_mem m'" using wf l(4,6) by (auto simp: wf_mem_def m'_def)
  then have "ring_at (q # rs) (y # xs) (ob\<lparr>rl_mem := m'\<rparr>)"
    using at nodes by (simp add: ring_at_def ring_cells_def)
  from ring_finish [OF this refl] show ?thesis unfolding run by (auto simp: m'_def)
qed

section \<open>Deletion at the tail\<close>

lemma ring_before_runs:
  assumes at: "ring_at ps xs ob" and n: "2 \<le> length ps" and i: "i \<le> length ps - 2"
  shows "ring_before ob (ps ! i) = retM (ps ! (length ps - 2))"
  using i
proof (induction "length ps - 2 - i" arbitrary: i)
  case 0
  have k: "length ps - 2 < length ps" "Suc (length ps - 2) = length ps - 1" using n by auto
  then have c: "cells (rl_mem ob) (ps ! (length ps - 2)) = Some \<lparr>rl_value = xs ! (length ps - 2), rl_next = rl_tail ob\<rparr>"
    using ring_at_nth(1) [OF at k(1)] ring_at_last(2,3) [OF at] by (simp add: nth_append)
  have "i = length ps - 2" using 0 by simp
  then show ?case using c ring_at_nth(2) [OF at k(1)]
    by (simp add: ring_before_def while_stop load_ok)
next
  case (Suc d)
  then have i: "i < length ps" "Suc i < length ps" "Suc i \<noteq> length ps - 1" using n by auto
  have "cells (rl_mem ob) (ps ! i) = Some \<lparr>rl_value = xs ! i, rl_next = ps ! Suc i\<rparr>"
    using ring_at_nth(1) [OF at i(1)] i(2) by (simp add: nth_append)
  moreover have "ps ! Suc i \<noteq> rl_tail ob"
    using ring_at_nth(4) [OF at i(2) ring_at_last(3) [OF at]] ring_at_last(2) [OF at] i(3) by simp
  ultimately have "ring_before ob (ps ! i) = ring_before ob (ps ! Suc i)"
    using ring_at_nth(2) [OF at i(1)] by (simp add: ring_before_def while_step load_ok)
  then show ?case using Suc.hyps(1) [of "Suc i"] Suc by simp
qed

text \<open>The element goes, but its node stays in the store.\<close>

lemma ring_del_from_tail_runs:
  assumes at: "ring_at ps xs ob" and n: "2 \<le> length ps"
  shows "\<exists>ob'. ring_del_from_tail ob = retM ob' \<and> ring_at (butlast ps) (butlast xs) ob' \<and>
     cells (rl_mem ob') (last ps) \<noteq> None \<and> last ps \<notin> set (butlast ps) \<and>
     cout (rl_mem ob') = cout (rl_mem ob) @ ring_text (butlast xs)"
proof -
  let ?m = "rl_mem ob" and ?t = "rl_tail ob" and ?n = "length ps - 1" and ?k = "length ps - 2"
  let ?e = "ps ! ?k"
  note l = ring_at_last [OF at]
  have wf: "wf_mem ?m" and len: "length xs = length ps" and last: "?t = last ps"
    using at by (auto simp: ring_at_def ring_cells_def)
  have k: "?k < length ps" "Suc ?k = ?n" "0 < length ps" using n by auto
  have e: "cells ?m ?e = Some \<lparr>rl_value = xs ! ?k, rl_next = ?t\<rparr>" "?e \<noteq> 0"
    using ring_at_nth(1,2) [OF at k(1)] k(2) l(2,3) by (simp_all add: nth_append)
  have hd: "hd ps = ps ! 0" using l(1) by (simp add: hd_conv_nth)
  have th: "?t \<noteq> hd ps" unfolding l(2) hd using ring_at_nth(4) [OF at l(3) k(3)] k n by linarith
  let ?h = "(cells ?m)(?e \<mapsto> \<lparr>rl_value = xs ! ?k, rl_next = hd ps\<rparr>)"
  define m' where "m' = ?m\<lparr>cells := ?h\<rparr>"
  have "ring_before ob (hd ps) = retM ?e" unfolding hd using ring_before_runs [OF at n, of 0] by simp
  then have run: "ring_del_from_tail ob = dump_3_times \<lparr>rl_tail = ?e, rl_mem = m'\<rparr>"
    using l(4,6) th e by (simp add: ring_del_from_tail_def load_ok modify_ok m'_def)
  have lb: "length (butlast ps) = ?n" by simp
  then have ne: "butlast ps \<noteq> []" using n by (metis One_nat_def Suc_le_eq diff_is_0_eq' k(2) list.size(3) nat.distinct(1))
  have hb: "hd (butlast ps) = hd ps" using ne l(1) by (metis append_butlast_last_id hd_append2)
  have nodes: "cells m' (butlast ps ! i) =
      Some \<lparr>rl_value = butlast xs ! i, rl_next = (butlast ps @ [hd (butlast ps)]) ! Suc i\<rparr>" if i: "i < length (butlast ps)" for i
  proof -
    have j: "i < length ps" using i by simp
    have "ps ! i = ?e \<longleftrightarrow> i = ?k" by (rule ring_at_nth(4) [OF at j k(1)])
    moreover have "cells ?m (ps ! i) = Some \<lparr>rl_value = xs ! i, rl_next = (ps @ [hd ps]) ! Suc i\<rparr>"
      by (rule ring_at_nth(1) [OF at j])
    moreover have "i < ?n" "i \<noteq> ?k \<Longrightarrow> Suc i < ?n" using i k(2) by auto
    ultimately show ?thesis using k(2) len unfolding hb
      by (cases "i = ?k") (auto simp: m'_def nth_butlast nth_append)
  qed
  have dist: "distinct ps" "0 \<notin> set ps" using at by (auto simp: ring_at_def ring_cells_def)
  have "ps = butlast ps @ [last ps]" using l(1) by simp
  then have notin: "last ps \<notin> set (butlast ps)" using dist(1) by (metis distinct.simps(2) distinct1_rotate rotate1.simps(2) distinct_append not_distinct_conv_prefix)
  have "wf_mem m'" using wf e by (auto simp: wf_mem_def m'_def)
  moreover have "last (butlast ps) = ?e"
    unfolding last_conv_nth [OF ne] lb using k nth_butlast [of ?k ps] by (metis One_nat_def diff_Suc_1 lb lessI)
  ultimately have "ring_at (butlast ps) (butlast xs) \<lparr>rl_tail = ?e, rl_mem = m'\<rparr>"
    using nodes ne len dist by (auto simp: ring_at_def ring_cells_def distinct_butlast dest: in_set_butlastD)
  from ring_finish [OF this refl] show ?thesis unfolding run
    using notin l(6) last by (auto simp: m'_def)
qed


section \<open>The only element, and the insertion at the tail\<close>

lemma dump_null: "dump_3_times \<lparr>rl_tail = 0, rl_mem = m\<rparr> = Some (Inl NullDeref)"
  by (simp add: dump_3_times_def dump_time_def ring_dump_def)

lemma ring_only: "ring_at [p] [x] ob \<Longrightarrow> ring_last ob = Some (Inl NullDeref)"
  using ring_at_last(4,6) [of "[p]" "[x]" ob] by (simp add: ring_last_def delete_ok dump_null)

text \<open>The new tail points at the first node, but no node points at the new tail.\<close>

lemma ring_add_to_tail_runs:
  assumes at: "ring_at ps xs ob"
  shows "\<exists>ob'. ring_add_to_tail ob v = retM ob' \<and> cout (rl_mem ob') = cout (rl_mem ob) @ ring_text xs \<and>
     ring_cells ps xs (cells (rl_mem ob')) \<and> wf_mem (rl_mem ob') \<and> rl_tail ob' \<notin> set ps \<and> rl_tail ob' \<noteq> 0 \<and>
     cells (rl_mem ob') (rl_tail ob') = Some \<lparr>rl_value = v, rl_next = hd ps\<rparr>"
proof -
  let ?m = "rl_mem ob" and ?a = "fresh (rl_mem ob)"
  note l = ring_at_last [OF at]
  have wf: "wf_mem ?m" using at by (simp add: ring_at_def)
  define m' where "m' = ?m\<lparr>fresh := Suc ?a, cells := (cells ?m)(?a \<mapsto> \<lparr>rl_value = v, rl_next = hd ps\<rparr>)\<rparr>"
  have run: "ring_add_to_tail ob v = dump_3_times \<lparr>rl_tail = ?a, rl_mem = m'\<rparr>"
    using l wf by (simp add: ring_add_to_tail_def rl_new_def new_node_def load_ok modify_ok m'_def)
  have a: "?a \<notin> set ps" using ring_at_nth(3) [OF at] by (auto simp: in_set_conv_nth)
  have "cells m' (ps ! i) = cells ?m (ps ! i)" if "i < length ps" for i
    using ring_at_nth(3) [OF at that] by (simp add: m'_def)
  then have r: "ring_cells ps xs (cells m')" using at by (simp add: ring_at_def ring_cells_def)
  have "wf_mem m'" using wf by (auto simp: wf_mem_def m'_def less_Suc_eq)
  then show ?thesis unfolding run
    using dump_3_times_writes [of ps xs "\<lparr>rl_tail = ?a, rl_mem = m'\<rparr>"] r a wf by (simp add: m'_def)
qed

lemma ring_add_to_head_never:
  assumes r: "ring_cells ps xs (cells (rl_mem ob))" and wf: "wf_mem (rl_mem ob)"
    and t: "rl_tail ob \<notin> set ps" "rl_tail ob \<noteq> 0" "cells (rl_mem ob) (rl_tail ob) = Some k" "rl_next k = hd ps"
  shows "ring_add_to_head ob v = None"
proof -
  let ?m = "rl_mem ob" and ?a = "fresh (rl_mem ob)" and ?t = "rl_tail ob"
  let ?h = "(cells ?m)(?a \<mapsto> \<lparr>rl_value = v, rl_next = hd ps\<rparr>, ?t \<mapsto> k\<lparr>rl_next := ?a\<rparr>)"
  define m' where "m' = ?m\<lparr>fresh := Suc ?a, cells := ?h\<rparr>"
  have ta: "?t \<noteq> ?a" using t(3) wf_fresh [OF wf] by auto
  have run: "ring_add_to_head ob v = dump_3_times (ob\<lparr>rl_mem := m'\<rparr>)"
    using t ta wf by (simp add: ring_add_to_head_def rl_new_def new_node_def load_ok modify_ok m'_def)
  have a: "p \<noteq> ?a" if "p \<in> set ps" for p
    using that r wf_fresh [OF wf] by (auto simp: ring_cells_def in_set_conv_nth)
  have same: "cells m' (ps ! i) = cells ?m (ps ! i)" if "i < length ps" for i
    using a [of "ps ! i"] t(1) nth_mem [OF that] by (auto simp: m'_def)
  then have r': "ring_cells ps xs (cells m')" using r by (simp add: ring_cells_def)
  have c: "cells m' ?t = Some (k\<lparr>rl_next := ?a\<rparr>)" "cells m' ?a = Some \<lparr>rl_value = v, rl_next = hd ps\<rparr>"
    using ta by (simp_all add: m'_def)
  have hd: "hd ps \<in> set ps" "hd ps \<noteq> ?a" using r a by (auto simp: ring_cells_def)
  have "ring_walk ?t (hd ps, False, m2) = None" if "cells m2 = cells m'" for m2
    using ring_walk_never [OF r' t(2) c(1) _ hd(1) that] a by auto
  then have "ring_walk ?t (?a, False, m1) = None" if "cells m1 = cells m'" for m1
    using that c t(2) hd(2) wf by (simp add: ring_walk_def while_step load_ok)
  then have "dump_time 0 (ob\<lparr>rl_mem := m'\<rparr>) = None"
    using c t(2) by (simp add: dump_time_def ring_dump_def load_ok)
  then show ?thesis by (simp add: run dump_3_times_def)
qed

section \<open>Properties\<close>

text \<open>
  on a ring with at least two elements the insertion at the head and both deletions end without
  a fault, do to the content what they should, and write it three times; but the node that
  \<open>del_from_tail\<close> takes out stays in the store, where \<open>del_from_head\<close> frees its node.
\<close>

theorem ring_operations:
  assumes "ring_at (p # q # rs) (x # y # xs) ob"
  shows "\<exists>o1 p1 o2 o3.
    ring_add_to_head ob v = retM o1 \<and> ring_at p1 (v # x # y # xs) o1 \<and>
      cout (rl_mem o1) = cout (rl_mem ob) @ ring_text (v # x # y # xs) \<and>
    ring_del_from_head ob = retM o2 \<and> ring_at (q # rs) (y # xs) o2 \<and> cells (rl_mem o2) p = None \<and>
      cout (rl_mem o2) = cout (rl_mem ob) @ ring_text (y # xs) \<and>
    ring_del_from_tail ob = retM o3 \<and> ring_at (butlast (p # q # rs)) (butlast (x # y # xs)) o3 \<and>
      cells (rl_mem o3) (last (p # q # rs)) \<noteq> None \<and>
      cout (rl_mem o3) = cout (rl_mem ob) @ ring_text (butlast (x # y # xs))"
proof -
  have "2 \<le> length (p # q # rs)" by simp
  from ring_del_from_tail_runs [OF assms this] ring_add_to_head_runs [OF assms, of v] ring_del_from_head_runs [OF assms]
  show ?thesis by (elim exE conjE) (intro exI conjI; assumption)
qed

definition two_ring :: rl_obj where
  "two_ring = \<lparr>rl_tail = 2, rl_mem = \<lparr>cells = [1 \<mapsto> \<lparr>rl_value = 7, rl_next = 2\<rparr>, 2 \<mapsto> \<lparr>rl_value = 8, rl_next = 1\<rparr>],
     fresh = 3, cout = []\<rparr>\<rparr>"

lemma two_ring_at: "ring_at [1, 2] [7, 8] two_ring"
  by (auto simp: ring_at_def ring_cells_def two_ring_def wf_mem_def less_Suc_eq numeral_2_eq_2 split: if_splits)

theorem ring_operations_witness:
  "\<exists>ob'. ring_del_from_tail two_ring = retM ob' \<and> ring_at [1] [7] ob' \<and> cells (rl_mem ob') 2 \<noteq> None"
  using ring_operations [OF two_ring_at, of 0] by auto

text \<open>
  the deletion of the only element, at the head or at the tail, dereferences the null pointer
  when the empty ring is written.
\<close>

theorem ring_empties_with_fault:
  assumes "ring_at [p] [x] ob"
  shows "ring_del_from_head ob = Some (Inl NullDeref) \<and> ring_del_from_tail ob = Some (Inl NullDeref)"
  using assms ring_only [OF assms] ring_at_last [OF assms]
  by (simp add: ring_del_from_head_def ring_del_from_tail_def load_ok ring_at_def)

theorem ring_empties_with_fault_witness:
  "bindM (ring_add_to_head rl_init 5) ring_del_from_head = Some (Inl NullDeref)"
proof -
  obtain a m1 where n: "rl_new (rl_mem rl_init) 5 = (a, m1)" by (cases "rl_new (rl_mem rl_init) 5")
  have "wf_mem (rl_mem rl_init)" by (simp add: rl_init_def)
  from ring_first_runs [OF this n] obtain ob where ob: "ring_first a m1 = retM ob" "ring_at [a] [5] ob" by blast
  have "ring_add_to_head rl_init 5 = ring_first a m1" using n by (simp add: ring_add_to_head_def rl_init_def)
  then show ?thesis using ob ring_empties_with_fault [OF ob(2)] by simp
qed

text \<open>
  after an insertion at the tail of a ring that is not empty, the dumps show the old content:
  the new element is not in the ring; and the next insertion at the head never returns.
\<close>

theorem ring_tail_then_head:
  assumes "ring_at ps xs ob"
  shows "\<exists>ob'. ring_add_to_tail ob v = retM ob' \<and> cout (rl_mem ob') = cout (rl_mem ob) @ ring_text xs \<and>
    ring_add_to_head ob' w = None"
  using ring_add_to_tail_runs [OF assms, of v] ring_add_to_head_never by fastforce

theorem ring_tail_then_head_witness:
  "bindM (ring_add_to_tail two_ring 9) (\<lambda>ob. ring_add_to_head ob 6) = None"
  using ring_tail_then_head [OF two_ring_at, of 9 6] by auto

text \<open>
  so \<open>main\<close> never ends.\<close>

theorem rl_main_never_ends: "rl_main = None"
proof -
  obtain a m1 where n: "rl_new (rl_mem rl_init) 2 = (a, m1)" by (cases "rl_new (rl_mem rl_init) 2")
  have "wf_mem (rl_mem rl_init)" by (simp add: rl_init_def)
  from ring_first_runs [OF this n] obtain ob where ob: "ring_first a m1 = retM ob" "ring_at [a] [2] ob" by blast
  have "ring_add_to_head rl_init 2 = retM ob" using n ob by (simp add: ring_add_to_head_def rl_init_def)
  moreover obtain ob2 where ob2: "ring_add_to_tail ob 3 = retM ob2" "ring_cells [a] [2] (cells (rl_mem ob2))"
      "wf_mem (rl_mem ob2)" "rl_tail ob2 \<notin> set [a]" "rl_tail ob2 \<noteq> 0"
      "cells (rl_mem ob2) (rl_tail ob2) = Some \<lparr>rl_value = 3, rl_next = hd [a]\<rparr>"
    using ring_add_to_tail_runs [OF ob(2), of 3] by blast
  moreover have "ring_add_to_head ob2 1 = None" by (rule ring_add_to_head_never [OF ob2(2-6)]) simp
  ultimately show ?thesis by (simp add: rl_main_def)
qed


end
