(* ===== verification/SingleList.thy ===== *)
theory SingleList
  imports DoubleListClaims
begin

text \<open>
  The singly linked list of \<^verbatim>\<open>singel_linked_list.cpp\<close>: the insertion and the deletion, and what they
  do to the content.
\<close>

section \<open>The class\<close>

record sl_node =
  sl_value :: int
  sl_next :: ptr

record sl_obj =
  sl_head :: ptr
  sl_mem :: "sl_node mem"

definition sl_init :: sl_obj where
  "sl_init = \<lparr>sl_head = 0, sl_mem = empty_mem\<rparr>"

definition sl_new :: "sl_node mem \<Rightarrow> int \<Rightarrow> ptr \<times> sl_node mem" where
  "sl_new m vl = new_node m \<lparr>sl_value = vl, sl_next = 0\<rparr>"

definition sl_walk :: "ptr \<times> sl_node mem \<Rightarrow> (ptr \<times> sl_node mem) may" where
  "sl_walk = while_may (\<lambda>(cur, m). Inr (cur \<noteq> 0))
     (\<lambda>(cur, m). bindM (Some (load m cur)) (\<lambda>n. retM (sl_next n, print m (show_sp (sl_value n)))))"

definition sl_dump :: "sl_obj \<Rightarrow> sl_obj may" where
  "sl_dump ob =
     bindM (sl_walk (sl_head ob, print (sl_mem ob) (''====== begin to dump'' @ endl))) (\<lambda>(cur, m).
     retM (ob\<lparr>sl_mem := print m (endl @ ''====== end to dump'' @ endl @ endl)\<rparr>))"

text \<open>\<open>while (cur && P(cur->value)) { tmp = cur; cur = cur->next; }\<close>: the pair is \<open>(tmp, cur)\<close>.\<close>

definition sl_scan :: "sl_node mem \<Rightarrow> (int \<Rightarrow> bool) \<Rightarrow> ptr \<times> ptr \<Rightarrow> (ptr \<times> ptr) may" where
  "sl_scan m P = while_may
     (\<lambda>(tmp, cur). if cur = 0 then Inr False else bindE (load m cur) (\<lambda>n. Inr (P (sl_value n))))
     (\<lambda>(tmp, cur). bindM (Some (load m cur)) (\<lambda>n. retM (cur, sl_next n)))"

definition add_node :: "sl_obj \<Rightarrow> int \<Rightarrow> sl_obj may" where
  "add_node ob vl =
     (if sl_head ob = 0 then
        (case sl_new (sl_mem ob) vl of (node, m) \<Rightarrow> sl_dump \<lparr>sl_head = node, sl_mem = m\<rparr>)
      else
        bindM (sl_scan (sl_mem ob) (\<lambda>v. v < vl) (sl_head ob, sl_head ob)) (\<lambda>(tmp, cur).
        if cur = sl_head ob then
          (case sl_new (sl_mem ob) vl of (node, m) \<Rightarrow>
           bindM (Some (modify m node (\<lambda>k. k\<lparr>sl_next := sl_head ob\<rparr>))) (\<lambda>m.
           sl_dump \<lparr>sl_head = node, sl_mem = m\<rparr>))
        else
          (case sl_new (sl_mem ob) vl of (node, m) \<Rightarrow>
           bindM (Some (modify m tmp (\<lambda>k. k\<lparr>sl_next := node\<rparr>))) (\<lambda>m.
           sl_dump (ob\<lparr>sl_mem := m\<rparr>)))))"

definition del_node :: "sl_obj \<Rightarrow> int \<Rightarrow> sl_obj may" where
  "del_node ob vl =
     (if sl_head ob = 0 then sl_dump ob
      else
        bindM (sl_scan (sl_mem ob) (\<lambda>v. v \<noteq> vl) (sl_head ob, sl_head ob)) (\<lambda>(tmp, cur).
        if cur = sl_head ob then
          bindM (Some (load (sl_mem ob) cur)) (\<lambda>n.
          bindM (Some (delete_node (sl_mem ob) cur)) (\<lambda>m.
          sl_dump \<lparr>sl_head = sl_next n, sl_mem = m\<rparr>))
        else if cur = 0 then sl_dump ob
        else
          bindM (Some (load (sl_mem ob) cur)) (\<lambda>n.
          bindM (Some (modify (sl_mem ob) tmp (\<lambda>k. k\<lparr>sl_next := sl_next n\<rparr>))) (\<lambda>m.
          bindM (Some (delete_node m cur)) (\<lambda>m.
          sl_dump (ob\<lparr>sl_mem := m\<rparr>))))))"

definition sl_main :: "sl_obj may" where
  "sl_main =
     bindM (add_node sl_init 2) (\<lambda>ob.
     bindM (add_node ob 3) (\<lambda>ob.
     bindM (add_node ob 1) (\<lambda>ob.
     bindM (del_node ob 1) (\<lambda>ob. del_node ob 3))))"

section \<open>The content\<close>

definition addr_at :: "ptr list \<Rightarrow> nat \<Rightarrow> ptr" where
  "addr_at ps i = (if i < length ps then ps ! i else 0)"

definition sl_at :: "ptr list \<Rightarrow> int list \<Rightarrow> sl_obj \<Rightarrow> bool" where
  "sl_at ps xs ob \<longleftrightarrow> length ps = length xs \<and> distinct ps \<and> 0 \<notin> set ps \<and> wf_mem (sl_mem ob) \<and>
     sl_head ob = addr_at ps 0 \<and>
     (\<forall>i < length ps. cells (sl_mem ob) (ps ! i) = Some \<lparr>sl_value = xs ! i, sl_next = addr_at ps (Suc i)\<rparr>)"

definition sl_text :: "int list \<Rightarrow> string" where
  "sl_text xs = ''====== begin to dump'' @ endl @ show_list xs @ endl @ ''====== end to dump'' @ endl @ endl"

lemma sl_at_nth:
  assumes at: "sl_at ps xs ob" and i: "i < length ps"
  shows "cells (sl_mem ob) (ps ! i) = Some \<lparr>sl_value = xs ! i, sl_next = addr_at ps (Suc i)\<rparr>"
    "ps ! i \<noteq> 0" "ps ! i \<noteq> fresh (sl_mem ob)" "j < length ps \<Longrightarrow> ps ! i = ps ! j \<longleftrightarrow> i = j"
    "addr_at ps i = ps ! i"
proof -
  show c: "cells (sl_mem ob) (ps ! i) = Some \<lparr>sl_value = xs ! i, sl_next = addr_at ps (Suc i)\<rparr>"
    using at i unfolding sl_at_def by blast
  show "ps ! i \<noteq> 0" using at i by (metis sl_at_def nth_mem)
  show "ps ! i \<noteq> fresh (sl_mem ob)" using c wf_fresh [of "sl_mem ob"] at by (auto simp: sl_at_def)
  show "j < length ps \<Longrightarrow> ps ! i = ps ! j \<longleftrightarrow> i = j" using at i by (simp add: sl_at_def nth_eq_iff_index_eq)
  show "addr_at ps i = ps ! i" using i by (simp add: addr_at_def)
qed

lemma addr_at_end [simp]: "addr_at ps (length ps) = 0"
  by (simp add: addr_at_def)

lemma sl_walk_writes:
  assumes "sl_at ps xs (ob\<lparr>sl_mem := m\<rparr>)" "i \<le> length ps"
  shows "sl_walk (addr_at ps i, m) = retM (0, print m (show_list (drop i xs)))"
  using assms
proof (induction "length ps - i" arbitrary: i m)
  case 0
  then have "i = length ps" "drop i xs = []" by (auto simp: sl_at_def)
  then show ?case by (simp add: sl_walk_def while_stop show_list_def)
next
  case (Suc k)
  then have i: "i < length ps" "length ps = length xs" by (auto simp: sl_at_def)
  note n = sl_at_nth [OF Suc.prems(1) i(1)]
  have at: "sl_at ps xs (ob\<lparr>sl_mem := print m (show_sp (xs ! i))\<rparr>)" using Suc.prems(1) by (simp add: sl_at_def)
  have "sl_walk (addr_at ps i, m) = sl_walk (addr_at ps (Suc i), print m (show_sp (xs ! i)))"
    using n by (simp add: sl_walk_def while_step load_ok)
  also have "\<dots> = retM (0, print (print m (show_sp (xs ! i))) (show_list (drop (Suc i) xs)))"
    using Suc.hyps(1) [OF _ at, of "Suc i"] Suc.hyps(2) i(1) by simp
  finally show ?case using i by (simp add: show_list_def Cons_nth_drop_Suc [symmetric, of i xs])
qed

lemma sl_dump_writes:
  assumes "sl_at ps xs ob" shows "sl_dump ob = retM (ob\<lparr>sl_mem := print (sl_mem ob) (sl_text xs)\<rparr>)"
proof -
  have "sl_at ps xs (ob\<lparr>sl_mem := print (sl_mem ob) s\<rparr>)" for s using assms by (simp add: sl_at_def)
  from sl_walk_writes [OF this, of 0] show ?thesis
    using assms by (simp add: sl_dump_def sl_text_def sl_at_def)
qed

lemma sl_finish:
  assumes "sl_at ps xs ob'"
  shows "\<exists>ob''. sl_dump ob' = retM ob'' \<and> sl_at ps xs ob'' \<and> cells (sl_mem ob'') = cells (sl_mem ob') \<and>
     cout (sl_mem ob'') = cout (sl_mem ob') @ sl_text xs"
  using sl_dump_writes [OF assms] assms by (simp add: sl_at_def)

text \<open>The scan stops at the first element without the property.\<close>

lemma sl_scan_finds:
  assumes at: "sl_at ps xs ob" and i: "i \<le> length (takeWhile P xs)"
  shows "sl_scan (sl_mem ob) P (addr_at ps (i - 1), addr_at ps i) =
    retM (addr_at ps (length (takeWhile P xs) - 1), addr_at ps (length (takeWhile P xs)))"
  using i
proof (induction "length (takeWhile P xs) - i" arbitrary: i)
  case 0
  let ?k = "length (takeWhile P xs)"
  have k: "i = ?k" using 0 by simp
  have len: "length ps = length xs" using at by (simp add: sl_at_def)
  show ?case
  proof (cases "?k < length ps")
    case True
    then have "\<not> P (xs ! ?k)" using nth_length_takeWhile [of P xs] len by simp
    then show ?thesis using sl_at_nth [OF at True] k by (simp add: sl_scan_def while_stop load_ok)
  next
    case False
    then show ?thesis using k by (simp add: sl_scan_def while_stop addr_at_def)
  qed
next
  case (Suc d)
  let ?k = "length (takeWhile P xs)"
  have len: "length ps = length xs" using at by (simp add: sl_at_def)
  have i: "i < ?k" using Suc.hyps(2) by simp
  then have l: "i < length ps" using length_takeWhile_le [of P xs] len by simp
  have "xs ! i \<in> set (takeWhile P xs)" using i takeWhile_nth [OF i] nth_mem [OF i] by simp
  then have "P (xs ! i)" by (rule set_takeWhileD [THEN conjunct2])
  then have "sl_scan (sl_mem ob) P (addr_at ps (i - 1), addr_at ps i) = sl_scan (sl_mem ob) P (addr_at ps i, addr_at ps (Suc i))"
    using sl_at_nth [OF at l] by (simp add: sl_scan_def while_step load_ok)
  then show ?case using Suc.hyps(1) [of "Suc i"] Suc.hyps(2) i by simp
qed

end
