(* ===== verification/SingleListClaims.thy ===== *)
theory SingleListClaims
  imports SingleList
begin

text \<open>
  The insertion of the singly linked list cuts off what follows the new element; its deletion
  removes the first occurrence.
\<close>

section \<open>Insertion\<close>

definition cut_insert :: "int \<Rightarrow> int list \<Rightarrow> int list" where
  "cut_insert v xs =
     (if takeWhile (\<lambda>x. x < v) xs = [] then v # xs else takeWhile (\<lambda>x. x < v) xs @ [v])"

lemma addr_at_simps [simp]:
  "addr_at (a # ps) 0 = a" "addr_at (a # ps) (Suc i) = addr_at ps i" "addr_at [] i = 0"
  by (simp_all add: addr_at_def)

lemma sl_head_eq:
  assumes at: "sl_at ps xs ob" and ne: "ps \<noteq> []" and k: "k \<le> length ps"
  shows "addr_at ps k = sl_head ob \<longleftrightarrow> k = 0"
proof -
  have l: "0 < length ps" using ne by simp
  then have h: "sl_head ob = ps ! 0" "ps ! 0 \<noteq> 0" using at sl_at_nth(2,5) [OF at l] by (auto simp: sl_at_def)
  then show ?thesis using sl_at_nth(4) [OF at _ l, of k] k ne by (cases "k < length ps") (auto simp: addr_at_def)
qed

lemma sl_fresh: "sl_at ps xs ob \<Longrightarrow> fresh (sl_mem ob) \<notin> set ps"
  using sl_at_nth(3) by (auto simp: in_set_conv_nth)

text \<open>A new node in front of the list.\<close>

definition sl_front :: "sl_obj \<Rightarrow> int \<Rightarrow> sl_obj" where
  "sl_front ob v = \<lparr>sl_head = fresh (sl_mem ob), sl_mem = (sl_mem ob)\<lparr>fresh := Suc (fresh (sl_mem ob)),
     cells := (cells (sl_mem ob))(fresh (sl_mem ob) \<mapsto> \<lparr>sl_value = v, sl_next = sl_head ob\<rparr>)\<rparr>\<rparr>"

lemma sl_new_head:
  assumes at: "sl_at ps xs ob"
  shows "sl_at (fresh (sl_mem ob) # ps) (v # xs) (sl_front ob v)"
proof -
  let ?a = "fresh (sl_mem ob)"
  have wf: "wf_mem (sl_mem ob)" using at by (simp add: sl_at_def)
  have "cells (sl_mem (sl_front ob v)) ((?a # ps) ! i) =
      Some \<lparr>sl_value = (v # xs) ! i, sl_next = addr_at (?a # ps) (Suc i)\<rparr>" if i: "i < length (?a # ps)" for i
  proof (cases i)
    case 0
    then show ?thesis using at by (simp add: sl_at_def sl_front_def)
  next
    case (Suc j)
    then show ?thesis using sl_at_nth(1,3) [OF at, of j] i by (simp add: sl_front_def)
  qed
  moreover have "wf_mem (sl_mem (sl_front ob v))" using wf by (auto simp: wf_mem_def sl_front_def less_Suc_eq)
  moreover have "sl_head (sl_front ob v) = ?a" by (simp add: sl_front_def)
  ultimately show ?thesis using at sl_fresh [OF at] wf by (simp add: sl_at_def)
qed

lemma mem_upd_comm: "(m :: 'n mem)\<lparr>cells := h, fresh := f\<rparr> = m\<lparr>fresh := f, cells := h\<rparr>"
  by simp

lemma add_node_runs:
  assumes at: "sl_at ps xs ob"
  shows "\<exists>ob' ps'. add_node ob v = retM ob' \<and> sl_at ps' (cut_insert v xs) ob' \<and>
     cout (sl_mem ob') = cout (sl_mem ob) @ sl_text (cut_insert v xs)"
proof -
  let ?m = "sl_mem ob" and ?a = "fresh (sl_mem ob)" and ?k = "length (takeWhile (\<lambda>x. x < v) xs)"
  have wf: "wf_mem ?m" and len: "length ps = length xs" using at by (simp_all add: sl_at_def)
  have front: "\<exists>ob' ps'. sl_dump (sl_front ob v) = retM ob' \<and> sl_at ps' (v # xs) ob' \<and>
      cout (sl_mem ob') = cout ?m @ sl_text (v # xs)"
    using sl_finish [OF sl_new_head [OF at, of v]] by (auto simp: sl_front_def)
  show ?thesis
  proof (cases "ps = []")
    case True
    then have x: "xs = []" "sl_head ob = 0" using at by (auto simp: sl_at_def)
    then have "add_node ob v = sl_dump (sl_front ob v)"
      by (simp add: add_node_def sl_new_def new_node_def sl_front_def mem_upd_comm)
    then show ?thesis using front x by (auto simp: cut_insert_def)
  next
    case False
    have l: "0 < length ps" using False by simp
    have h: "sl_head ob = ps ! 0" "sl_head ob \<noteq> 0" using at sl_at_nth(2,5) [OF at l] by (auto simp: sl_at_def)
    have scan: "sl_scan ?m (\<lambda>x. x < v) (sl_head ob, sl_head ob) = retM (addr_at ps (?k - 1), addr_at ps ?k)"
      using sl_scan_finds [OF at, of 0 "\<lambda>x. x < v"] at by (simp add: sl_at_def)
    have kl: "?k \<le> length ps" using length_takeWhile_le len by metis
    note he = sl_head_eq [OF at False kl]
    show ?thesis
    proof (cases "?k = 0")
      case True
      then have "add_node ob v = sl_dump (sl_front ob v)"
        using h scan he wf by (simp add: add_node_def sl_new_def new_node_def modify_ok sl_front_def)
      then show ?thesis using front True by (auto simp: cut_insert_def)
    next
      case k: False
      let ?t = "ps ! (?k - 1)"
      have t: "?k - 1 < length ps" "addr_at ps (?k - 1) = ?t" "Suc (?k - 1) = ?k"
      proof -
        show t1: "?k - 1 < length ps" using kl k l by linarith
        show "addr_at ps (?k - 1) = ?t" using t1 unfolding addr_at_def by (rule if_P)
        show "Suc (?k - 1) = ?k" using k by linarith
      qed
      note tn = sl_at_nth [OF at t(1)]
      let ?h = "(cells ?m)(?a \<mapsto> \<lparr>sl_value = v, sl_next = 0\<rparr>, ?t \<mapsto> \<lparr>sl_value = xs ! (?k - 1), sl_next = ?a\<rparr>)"
      define m' where "m' = ?m\<lparr>fresh := Suc ?a, cells := ?h\<rparr>"
      have run: "add_node ob v = sl_dump (ob\<lparr>sl_mem := m'\<rparr>)"
        using h scan he k tn t(2) wf by (simp add: add_node_def sl_new_def new_node_def modify_ok m'_def)
      let ?ps = "take ?k ps @ [?a]" and ?xs = "take ?k xs @ [v]"
      have lk: "length (take ?k ps) = ?k" "length (take ?k xs) = ?k" using kl len by simp_all
      have nodes: "cells m' (?ps ! i) = Some \<lparr>sl_value = ?xs ! i, sl_next = addr_at ?ps (Suc i)\<rparr>"
        if i: "i < length ?ps" for i
      proof (cases "i = ?k")
        case True
        then show ?thesis using lk tn(3) by (simp add: nth_append m'_def addr_at_def)
      next
        case False
        then have i': "i < ?k" "i < length ps" using i lk kl by auto
        have "ps ! i = ?t \<longleftrightarrow> i = ?k - 1" by (rule sl_at_nth(4) [OF at i'(2) t(1)])
        then show ?thesis using sl_at_nth(1,3) [OF at i'(2)] i' lk t(3)
          by (cases "i = ?k - 1") (auto simp: nth_append m'_def addr_at_def)
      qed
      have "wf_mem m'" using wf tn(1) by (auto simp: wf_mem_def m'_def less_Suc_eq)
      moreover have "?a \<notin> set (take ?k ps)" "0 \<notin> set (take ?k ps)" "distinct (take ?k ps)"
        using sl_fresh [OF at] at by (auto simp: sl_at_def dest: in_set_takeD)
      moreover have "addr_at ?ps 0 = sl_head ob" using h(1) k lk by (simp add: addr_at_def nth_append)
      ultimately have "sl_at ?ps ?xs (ob\<lparr>sl_mem := m'\<rparr>)" using nodes lk wf by (simp add: sl_at_def)
      moreover have "?xs = cut_insert v xs" using k by (simp add: cut_insert_def flip: takeWhile_eq_take)
      ultimately show ?thesis using sl_finish [of ?ps ?xs "ob\<lparr>sl_mem := m'\<rparr>"] unfolding run by (auto simp: m'_def)
    qed
  qed
qed

section \<open>Deletion\<close>

lemma remove1_split:
  "v \<in> set xs \<Longrightarrow> remove1 v xs = take (length (takeWhile (\<lambda>x. x \<noteq> v) xs)) xs @ drop (Suc (length (takeWhile (\<lambda>x. x \<noteq> v) xs))) xs"
  by (induction xs) auto

lemma takeWhile_short: "v \<in> set xs \<Longrightarrow> length (takeWhile (\<lambda>x. x \<noteq> v) xs) < length xs"
  by (induction xs) auto

lemma del_node_runs:
  assumes at: "sl_at ps xs ob"
  shows "\<exists>ob' ps'. del_node ob v = retM ob' \<and> sl_at ps' (remove1 v xs) ob' \<and>
     cout (sl_mem ob') = cout (sl_mem ob) @ sl_text (remove1 v xs)"
proof -
  let ?m = "sl_mem ob" and ?k = "length (takeWhile (\<lambda>x. x \<noteq> v) xs)"
  have wf: "wf_mem ?m" and len: "length ps = length xs" using at by (simp_all add: sl_at_def)
  show ?thesis
  proof (cases "ps = []")
    case True
    then have "xs = []" "sl_head ob = 0" using at by (auto simp: sl_at_def)
    then show ?thesis using sl_finish [OF at] by (auto simp: del_node_def)
  next
    case False
    have l: "0 < length ps" using False by simp
    have h: "sl_head ob = ps ! 0" "sl_head ob \<noteq> 0" using at sl_at_nth(2,5) [OF at l] by (auto simp: sl_at_def)
    have scan: "sl_scan ?m (\<lambda>x. x \<noteq> v) (sl_head ob, sl_head ob) = retM (addr_at ps (?k - 1), addr_at ps ?k)"
      using sl_scan_finds [OF at, of 0 "\<lambda>x. x \<noteq> v"] at by (simp add: sl_at_def)
    have kl: "?k \<le> length ps" using length_takeWhile_le len by metis
    note he = sl_head_eq [OF at False kl]
    show ?thesis
    proof (cases "v \<in> set xs")
      case notin: False
      then have tw: "takeWhile (\<lambda>x. x \<noteq> v) xs = xs" by (auto simp: takeWhile_eq_all_conv)
      have "?k = length ps" unfolding tw by (simp add: len)
      then have "addr_at ps ?k = 0" by simp
      then have "del_node ob v = sl_dump ob" using h scan he l by (auto simp: del_node_def)
      then show ?thesis using sl_finish [OF at] notin by (auto simp: remove1_idem)
    next
      case True
      have kl': "?k < length ps" using len takeWhile_short [OF True] by simp
      note kn = sl_at_nth [OF at kl']
      let ?p = "ps ! ?k" and ?ps = "take ?k ps @ drop (Suc ?k) ps" and ?xs = "take ?k xs @ drop (Suc ?k) xs"
      have lk: "length (take ?k ps) = ?k" "length (take ?k xs) = ?k" using kl len by simp_all
      have eq: "?xs = remove1 v xs" using remove1_split [OF True] by simp
      have psd: "?ps ! i = ps ! (if i < ?k then i else Suc i)" "?xs ! i = xs ! (if i < ?k then i else Suc i)"
        if "Suc i < length ps" for i using that lk len kl by (auto simp: nth_append)
      have lps: "length ?ps = length ps - 1" using kl' by simp
      have adr: "addr_at ?ps i = addr_at ps (if i < ?k then i else Suc i)" for i
      proof (cases "Suc i < length ps")
        case True
        have a: "i < length ?ps" unfolding lps using True by linarith
        have b: "(if i < ?k then i else Suc i) < length ps" using True by simp
        show ?thesis unfolding addr_at_def if_P [OF a] if_P [OF b] by (rule psd(1) [OF True])
      next
        case False
        have a: "\<not> i < length ?ps" unfolding lps using False by linarith
        have b: "\<not> (if i < ?k then i else Suc i) < length ps" using False kl' by auto
        show ?thesis unfolding addr_at_def if_not_P [OF a] if_not_P [OF b] by (rule refl)
      qed
      have sets: "distinct ?ps" "0 \<notin> set ?ps" using at kl'
        by (auto simp: sl_at_def distinct_append dest: in_set_takeD in_set_dropD set_take_disj_set_drop_if_distinct [of ps ?k "Suc ?k"])
      show ?thesis
      proof (cases "?k = 0")
        case k0: True
        let ?ob = "\<lparr>sl_head = addr_at ps 1, sl_mem = ?m\<lparr>cells := (cells ?m)(?p := None)\<rparr>\<rparr>"
        have run: "del_node ob v = sl_dump ?ob"
          using h scan he k0 kn by (simp add: del_node_def load_ok delete_ok)
        have nodes: "cells (sl_mem ?ob) (?ps ! i) = Some \<lparr>sl_value = ?xs ! i, sl_next = addr_at ?ps (Suc i)\<rparr>"
          if i: "i < length ?ps" for i
        proof -
          have j: "Suc i < length ps" using i lps by simp
          have "ps ! Suc i \<noteq> ?p" using sl_at_nth(4) [OF at j kl'] k0 by simp
          then show ?thesis using sl_at_nth(1) [OF at j] psd [OF j] adr [of "Suc i"] k0 by simp
        qed
        have "sl_at ?ps ?xs ?ob"
          using nodes sets lk len wf_del [OF wf] adr [of 0] k0 by (simp add: sl_at_def)
        from sl_finish [OF this] show ?thesis unfolding run eq by auto
      next
        case k: False
        let ?t = "ps ! (?k - 1)"
        have t: "?k - 1 < length ps" "addr_at ps (?k - 1) = ?t" "Suc (?k - 1) = ?k"
        proof -
          show t1: "?k - 1 < length ps" using kl' k by linarith
          show "addr_at ps (?k - 1) = ?t" using t1 unfolding addr_at_def by (rule if_P)
          show "Suc (?k - 1) = ?k" using k by linarith
        qed
        note tn = sl_at_nth [OF at t(1)]
        have "?k - 1 \<noteq> ?k" using k by linarith
        then have tp: "?t \<noteq> ?p" using sl_at_nth(4) [OF at t(1) kl'] by blast
        let ?h = "(cells ?m)(?t \<mapsto> \<lparr>sl_value = xs ! (?k - 1), sl_next = addr_at ps (Suc ?k)\<rparr>, ?p := None)"
        define m' where "m' = ?m\<lparr>cells := ?h\<rparr>"
        have run: "del_node ob v = sl_dump (ob\<lparr>sl_mem := m'\<rparr>)"
          using h scan he k kn t(2) tn tp by (simp add: del_node_def load_ok modify_ok delete_ok m'_def)
        have nodes: "cells m' (?ps ! i) = Some \<lparr>sl_value = ?xs ! i, sl_next = addr_at ?ps (Suc i)\<rparr>"
          if i: "i < length ?ps" for i
        proof -
          let ?i = "if i < ?k then i else Suc i"
          have j: "Suc i < length ps" "?i < length ps" using i lps by auto
          have np: "ps ! ?i \<noteq> ?p" using sl_at_nth(4) [OF at j(2) kl'] by auto
          note nt = sl_at_nth(4) [OF at j(2) t(1)]
          have "?i = ?k - 1 \<and> Suc i = ?k \<or> ?i \<noteq> ?k - 1 \<and> (if Suc i < ?k then Suc i else Suc (Suc i)) = Suc ?i"
            using k by presburger
          then show ?thesis
          proof (elim disjE conjE)
            assume e: "?i = ?k - 1" "Suc i = ?k"
            have "addr_at ?ps (Suc i) = addr_at ps (Suc ?k)" using adr [of "Suc i"] unfolding e(2) by simp
            moreover have "cells m' ?t = Some \<lparr>sl_value = xs ! (?k - 1), sl_next = addr_at ps (Suc ?k)\<rparr>"
              using tp by (simp add: m'_def)
            ultimately show ?thesis unfolding psd [OF j(1)] e(1) by simp
          next
            assume e: "?i \<noteq> ?k - 1" "(if Suc i < ?k then Suc i else Suc (Suc i)) = Suc ?i"
            have "addr_at ?ps (Suc i) = addr_at ps (Suc ?i)" using adr [of "Suc i"] unfolding e(2) .
            moreover have "cells m' (ps ! ?i) = cells ?m (ps ! ?i)" using np nt e(1) by (simp only: m'_def) simp
            ultimately show ?thesis unfolding psd [OF j(1)] using sl_at_nth(1) [OF at j(2)] by simp
          qed
        qed
        have "wf_mem m'" using wf tn(1) by (auto simp: wf_mem_def m'_def)
        then have "sl_at ?ps ?xs (ob\<lparr>sl_mem := m'\<rparr>)"
          using nodes sets lk len at adr [of 0] k by (simp add: sl_at_def)
        from sl_finish [OF this] show ?thesis unfolding run eq by (auto simp: m'_def)
      qed
    qed
  qed
qed


section \<open>Properties\<close>

lemma sl_init_at: "sl_at [] [] sl_init"
  by (simp add: sl_at_def sl_init_def)

text \<open>
  an insertion ends without a fault; the new value comes in front when no first element is
  smaller, else after the elements in front that are smaller: and everything behind them is lost. A
  deletion removes the first occurrence, if there is one. Both write the content.
\<close>

theorem single_list_operations:
  assumes "sl_at ps xs ob"
  shows "\<exists>o1 p1 o2 p2. add_node ob v = retM o1 \<and> sl_at p1 (cut_insert v xs) o1 \<and>
      cout (sl_mem o1) = cout (sl_mem ob) @ sl_text (cut_insert v xs) \<and>
    del_node ob v = retM o2 \<and> sl_at p2 (remove1 v xs) o2 \<and>
      cout (sl_mem o2) = cout (sl_mem ob) @ sl_text (remove1 v xs)"
proof -
  from add_node_runs [OF assms, of v] del_node_runs [OF assms, of v] show ?thesis
    by (elim exE conjE) (intro exI conjI; assumption)
qed

theorem single_list_operations_witness: "\<exists>o1 p1. add_node sl_init 5 = retM o1 \<and> sl_at p1 [5] o1"
  using single_list_operations [OF sl_init_at, of 5] by (auto simp: cut_insert_def)

lemma cut_insert_sorted: "sorted xs \<Longrightarrow> cut_insert v xs = insort v xs \<longleftrightarrow>
    (\<forall>x \<in> set xs. v \<le> x) \<or> (\<forall>x \<in> set xs. x < v)"
proof -
  assume s: "sorted xs"
  have split: "insort v xs = takeWhile (\<lambda>x. x < v) xs @ v # dropWhile (\<lambda>x. x < v) xs" for xs :: "int list"
    by (induction xs) auto
  have drop: "dropWhile (\<lambda>x. x < v) xs = [] \<longleftrightarrow> (\<forall>x \<in> set xs. x < v)" by (simp add: dropWhile_eq_Nil_conv)
  have take: "takeWhile (\<lambda>x. x < v) xs = [] \<longleftrightarrow> (\<forall>x \<in> set xs. v \<le> x)"
    using s by (cases xs) auto
  show ?thesis
  proof (cases "takeWhile (\<lambda>x. x < v) xs = []")
    case True
    then have "dropWhile (\<lambda>x. x < v) xs = xs" by (cases xs) (auto split: if_splits)
    then show ?thesis using True take split [of xs] by (simp add: cut_insert_def)
  next
    case False
    have "cut_insert v xs = insort v xs \<longleftrightarrow> dropWhile (\<lambda>x. x < v) xs = []"
      using False by (simp add: cut_insert_def split eq_commute [of "[]"])
    moreover have "\<not> (\<forall>x \<in> set xs. v \<le> x)" using False take by simp
    ultimately show ?thesis unfolding drop by blast
  qed
qed

lemma cut_insert_filter:
  assumes "sorted xs"
  shows "cut_insert v xs = (if \<forall>x \<in> set xs. v \<le> x then v # xs else filter (\<lambda>x. x < v) xs @ [v])"
proof -
  have "takeWhile (\<lambda>x. x < v) xs = filter (\<lambda>x. x < v) xs" using assms by (induction xs) (auto simp: filter_empty_conv eq_commute [of "[]" "filter p ys" for p ys])
  moreover have "takeWhile (\<lambda>x. x < v) xs = [] \<longleftrightarrow> (\<forall>x \<in> set xs. v \<le> x)" using assms by (cases xs) auto
  ultimately show ?thesis by (auto simp: cut_insert_def)
qed

text \<open>
  C37: into an ascending list, \<open>add_node\<close> keeps all elements only in front of them all: otherwise
  exactly the smaller elements and the new one are left. It is the sorted insertion only when the new value
  is at most the least or above the greatest.
\<close>

theorem add_node_sorted_only_at_ends:
  assumes "sl_at ps xs ob" "sorted xs"
  shows "\<exists>ob' ps' ys. add_node ob v = retM ob' \<and> sl_at ps' ys ob' \<and>
    ys = (if \<forall>x \<in> set xs. v \<le> x then v # xs else filter (\<lambda>x. x < v) xs @ [v]) \<and>
    (ys = insort v xs \<longleftrightarrow> (\<forall>x \<in> set xs. v \<le> x) \<or> (\<forall>x \<in> set xs. x < v))"
  using add_node_runs [OF assms(1), of v] unfolding cut_insert_filter [OF assms(2), symmetric]
  using cut_insert_sorted [OF assms(2), of v] by blast

theorem add_node_sorted_only_at_ends_witness:
  "\<exists>ob' ps' ys. bindM (add_node sl_init 5) (\<lambda>ob. add_node ob 7) = retM ob' \<and> sl_at ps' ys ob' \<and> ys = [5, 7]"
proof -
  obtain ob ps where ob: "add_node sl_init 5 = retM ob" "sl_at ps [5] ob"
    using add_node_runs [OF sl_init_at, of 5] by (auto simp: cut_insert_def)
  obtain ob' ps' ys where "add_node ob 7 = retM ob'" "sl_at ps' ys ob'" "ys = insort 7 [5]"
    using add_node_sorted_only_at_ends [OF ob(2), of 7] by auto
  then show ?thesis using ob(1) by auto
qed

text \<open>
  \<open>main\<close> ends with the one element 2, its five contents written.\<close>

theorem sl_main_output:
  "\<exists>ob ps. sl_main = retM ob \<and> sl_at ps [2] ob \<and>
     cout (sl_mem ob) = concat (map sl_text [[2], [2, 3], [1, 2, 3], [2, 3], [2]])"
proof -
  obtain o1 p1 where 1: "add_node sl_init 2 = retM o1" "sl_at p1 [2] o1" "cout (sl_mem o1) = sl_text [2]"
    using add_node_runs [OF sl_init_at, of 2] by (auto simp: cut_insert_def sl_init_def empty_mem_def)
  obtain o2 p2 where 2: "add_node o1 3 = retM o2" "sl_at p2 [2, 3] o2" "cout (sl_mem o2) = cout (sl_mem o1) @ sl_text [2, 3]"
    using add_node_runs [OF 1(2), of 3] by (auto simp: cut_insert_def)
  obtain o3 p3 where 3: "add_node o2 1 = retM o3" "sl_at p3 [1, 2, 3] o3" "cout (sl_mem o3) = cout (sl_mem o2) @ sl_text [1, 2, 3]"
    using add_node_runs [OF 2(2), of 1] by (auto simp: cut_insert_def)
  obtain o4 p4 where 4: "del_node o3 1 = retM o4" "sl_at p4 [2, 3] o4" "cout (sl_mem o4) = cout (sl_mem o3) @ sl_text [2, 3]"
    using del_node_runs [OF 3(2), of 1] by auto
  obtain o5 p5 where 5: "del_node o4 3 = retM o5" "sl_at p5 [2] o5" "cout (sl_mem o5) = cout (sl_mem o4) @ sl_text [2]"
    using del_node_runs [OF 4(2), of 3] by auto
  show ?thesis using 5(2) by (intro exI [of _ o5] exI [of _ p5]) (simp add: sl_main_def 1 2 3 4 5)
qed


end
