(* ===== verification/SkipList.thy ===== *)
theory SkipList
  imports CppHeap
begin

text \<open>
  The skip list of \<^verbatim>\<open>skip_linked_list.cpp\<close>. The number drawn by the random engine is an argument of
  the insertion; it lies between 0 and 31.
\<close>

section \<open>The class\<close>

definition max_level :: int where
  "max_level = 5"

text \<open>\<open>next\<close> is an array with \<open>max_level\<close> places.\<close>

record sk_node =
  sk_value :: int
  sk_next :: "ptr list"

record sk_obj =
  sk_root :: ptr
  powers :: "int list"
  sk_mem :: "sk_node mem"

definition sk_new :: "sk_node mem \<Rightarrow> int \<Rightarrow> ptr \<times> sk_node mem" where
  "sk_new m vl = new_node m \<lparr>sk_value = vl, sk_next = replicate (nat max_level) 0\<rparr>"

definition sk_print :: "sk_obj \<Rightarrow> string \<Rightarrow> sk_obj" where
  "sk_print ob s = ob\<lparr>sk_mem := print (sk_mem ob) s\<rparr>"

text \<open>\<open>cur->next[level]\<close>, and the assignment to it.\<close>

definition get_next :: "sk_node mem \<Rightarrow> ptr \<Rightarrow> int \<Rightarrow> fault + ptr" where
  "get_next m cur level = bindE (load m cur) (\<lambda>n. aget (sk_next n) level)"

definition set_next :: "sk_node mem \<Rightarrow> ptr \<Rightarrow> int \<Rightarrow> ptr \<Rightarrow> fault + sk_node mem" where
  "set_next m cur level p =
     bindE (load m cur) (\<lambda>n. bindE (aset (sk_next n) level p) (\<lambda>ns.
     modify m cur (\<lambda>k. k\<lparr>sk_next := ns\<rparr>)))"

definition choose_power :: "sk_obj \<Rightarrow> fault + sk_obj" where
  "choose_power ob =
     for_up 0 max_level (\<lambda>index ob.
       bindE (aset (powers ob) index (2 * 2 ^ nat index - 1)) (\<lambda>ps. Inr (ob\<lparr>powers := ps\<rparr>))) ob"

definition sk_init :: "fault + sk_obj" where
  "sk_init =
     (let (root, m) = sk_new empty_mem (- 1) in
      bindE (choose_power \<lparr>sk_root = root, powers = replicate (nat max_level) 0, sk_mem = m\<rparr>) (\<lambda>ob.
      bindE (for_up 0 max_level (\<lambda>index ob.
         bindE (aget (powers ob) index) (\<lambda>p. Inr (sk_print ob (show_sp p)))) (sk_print ob ''skip list power: '')) (\<lambda>ob.
      Inr (sk_print ob endl))))"

text \<open>The first power that is not below the number; past all of them \<open>max_level + 1\<close>.\<close>

function level_from :: "int list \<Rightarrow> int \<Rightarrow> int \<Rightarrow> fault + int" where
  "level_from ps num index =
     (if index < max_level then
        bindE (aget ps index) (\<lambda>p. if num \<le> p then Inr (index + 1) else level_from ps num (index + 1))
      else Inr (max_level + 1))"
  by auto

termination
  by (relation "measure (\<lambda>(ps, num, index). nat (max_level - index))") auto

declare level_from.simps [simp del]

definition choose_level :: "sk_obj \<Rightarrow> int \<Rightarrow> fault + (int \<times> sk_obj)" where
  "choose_level ob drawn =
     (let num = drawn + 1; ob = sk_print ob (''generate num: '' @ fmt_d num @ endl) in
      bindE (level_from (powers ob) num 0) (\<lambda>l. Inr (l, ob)))"

definition sk_walk :: "int \<Rightarrow> ptr \<times> sk_node mem \<Rightarrow> (ptr \<times> sk_node mem) may" where
  "sk_walk level = while_may (\<lambda>(cur, m). Inr (cur \<noteq> 0))
     (\<lambda>(cur, m). bindM (Some (load m cur)) (\<lambda>n.
        bindM (Some (aget (sk_next n) level)) (\<lambda>p.
        retM (p, print m (show_sp (sk_value n))))))"

definition dump_level :: "int \<Rightarrow> sk_obj \<Rightarrow> sk_obj may" where
  "dump_level level ob =
     (let m = print (sk_mem ob) (''====== level: '' @ fmt_d level @ '', value: '') in
      bindM (Some (get_next m (sk_root ob) level)) (\<lambda>cur.
      bindM (sk_walk level (cur, m)) (\<lambda>(cur, m).
      retM (ob\<lparr>sk_mem := print m endl\<rparr>))))"

definition sk_dump :: "sk_obj \<Rightarrow> sk_obj may" where
  "sk_dump ob =
     bindM (dump_level 0 ob) (\<lambda>ob. bindM (dump_level 1 ob) (\<lambda>ob. bindM (dump_level 2 ob) (\<lambda>ob.
     bindM (dump_level 3 ob) (dump_level 4))))"

definition sk_is_empty :: "sk_obj \<Rightarrow> fault + bool" where
  "sk_is_empty ob = bindE (get_next (sk_mem ob) (sk_root ob) 0) (\<lambda>p. Inr (p = 0))"

section \<open>Insertion\<close>

text \<open>One round of the loop; the state is the level, \<open>cur\<close> and the store.\<close>

definition add_round :: "ptr \<Rightarrow> int \<Rightarrow> int \<times> ptr \<times> sk_node mem \<Rightarrow> fault + (int \<times> ptr \<times> sk_node mem)" where
  "add_round node vl = (\<lambda>(level, cur, m).
     if cur = 0 then Inl (Thrown ''add node unexpected null pointer'')
     else
       bindE (get_next m cur level) (\<lambda>nxt.
       if nxt = 0 then
         bindE (set_next m cur level node) (\<lambda>m.
         bindE (load m cur) (\<lambda>c.
         Inr (level - 1, cur, print m (''cur next is null, add node as next, level: '' @ fmt_d level @ '', cur value: '' @
           fmt_d (sk_value c) @ '', inser value is: '' @ fmt_d vl @ endl))))
       else
         bindE (load m nxt) (\<lambda>n.
         if sk_value n < vl then
           Inr (level, nxt, print m (''cur next is smaller, switch to next node, cur level: '' @ fmt_d level @
             '', next value: '' @ fmt_d (sk_value n) @ endl))
         else if sk_value n > vl then
           bindE (load m cur) (\<lambda>c.
           let m = print m (''cur next is bigger, found insert pos cur level: '' @ fmt_d level @ '', cur value: '' @
             fmt_d (sk_value c) @ endl) in
           bindE (set_next m node level nxt) (\<lambda>m.
           bindE (set_next m cur level node) (\<lambda>m.
           Inr (level - 1, cur, m))))
         else Inr (level, cur, print m (''found same value in level: '' @ fmt_d level @ endl)))))"

definition sk_add_node :: "sk_obj \<Rightarrow> int \<Rightarrow> int \<Rightarrow> sk_obj may" where
  "sk_add_node ob vl drawn =
     (if sk_root ob = 0 then Some (Inl (Thrown ''add node, root is null''))
      else
        (case sk_new (sk_mem ob) vl of (node, m) \<Rightarrow>
         bindM (Some (choose_level (ob\<lparr>sk_mem := m\<rparr>) drawn)) (\<lambda>(level, ob).
         let ob = sk_print ob (''add node, choose level is: '' @ fmt_d level @ endl) in
         bindM (Some (sk_is_empty ob)) (\<lambda>empty.
         if empty then
           bindM (Some (for_up 0 level (\<lambda>index m. set_next m (sk_root ob) index node) (sk_mem ob))) (\<lambda>m.
           sk_dump (ob\<lparr>sk_mem := m\<rparr>))
         else
           bindM (while_may (\<lambda>(level, cur, m). Inr (0 \<le> level)) (\<lambda>s. Some (add_round node vl s))
             (level, sk_root ob, sk_mem ob)) (\<lambda>(level, cur, m).
           sk_dump (ob\<lparr>sk_mem := m\<rparr>))))))"

section \<open>Deletion\<close>

text \<open>The level is lowered before it is compared with 0; the dump is inside the loop.\<close>

definition del_round :: "int \<Rightarrow> int \<times> ptr \<times> sk_obj \<Rightarrow> (int \<times> ptr \<times> sk_obj) may" where
  "del_round vl = (\<lambda>(level, cur, ob).
     if cur = 0 then Some (Inl (Thrown ''del node unexpected null pointer''))
     else
       bindM (Some (get_next (sk_mem ob) cur level)) (\<lambda>nxt.
       if nxt = 0 then
         retM (level - 1, cur, sk_print ob (''cur next is null, switch to next level, cur level: '' @ fmt_d level @ endl))
       else
         bindM (Some (load (sk_mem ob) nxt)) (\<lambda>n.
         if sk_value n > vl then
           retM (level - 1, cur, sk_print ob (''cur next is bigger, switch to next level, cur level: '' @ fmt_d level @
             '', next value: '' @ fmt_d (sk_value n) @ endl))
         else if sk_value n < vl then
           retM (level, nxt, sk_print ob (''cur next is smaller, switch to next node, cur level: '' @ fmt_d level @
             '', next value: '' @ fmt_d (sk_value n) @ endl))
         else
           bindM (Some (get_next (sk_mem ob) nxt level)) (\<lambda>p.
           bindM (Some (set_next (sk_mem ob) cur level p)) (\<lambda>m.
           let level = level - 1;
               ob = sk_print (ob\<lparr>sk_mem := m\<rparr>) (''value is found, level is: '' @ fmt_d level @ endl) in
           if level = 0 then
             bindM (Some (get_next (sk_mem ob) cur level)) (\<lambda>p.
             bindM (Some (delete_node (sk_mem ob) p)) (\<lambda>m.
             bindM (sk_dump (ob\<lparr>sk_mem := m\<rparr>)) (\<lambda>ob.
             retM (level, cur, ob))))
           else retM (level, cur, ob))))))"

definition sk_del_node :: "sk_obj \<Rightarrow> int \<Rightarrow> sk_obj may" where
  "sk_del_node ob vl =
     (if sk_root ob = 0 then Some (Inl (Thrown ''del node, root is null''))
      else
        bindM (while_may (\<lambda>(level, cur, ob). Inr (0 \<le> level)) (del_round vl) (max_level - 1, sk_root ob, ob)) (\<lambda>(level, cur, ob).
        retM ob))"

definition sk_main :: "int \<Rightarrow> int \<Rightarrow> int \<Rightarrow> sk_obj may" where
  "sk_main d1 d2 d3 =
     bindM (Some sk_init) (\<lambda>ob.
     bindM (sk_add_node ob 2 d1) (\<lambda>ob.
     bindM (sk_add_node ob 5 d2) (\<lambda>ob.
     bindM (sk_add_node ob 6 d3) (\<lambda>ob.
     sk_del_node ob 2))))"

end
