(* ===== verification/SkipListClaims.thy ===== *)
theory SkipListClaims
  imports SkipList
begin

text \<open>
  The levels the skip list draws, and the behaviours that follow: accesses behind the array of a
  node, the loop that never ends on a value that is present, and the deletion of the only element.
\<close>

section \<open>Levels\<close>

text \<open>A list whose root is in place.\<close>

definition sk_ok :: "sk_obj \<Rightarrow> bool" where
  "sk_ok ob \<longleftrightarrow> wf_mem (sk_mem ob) \<and> powers ob = [1, 3, 7, 15, 31] \<and> sk_root ob \<noteq> 0 \<and>
     (\<exists>n. cells (sk_mem ob) (sk_root ob) = Some n \<and> length (sk_next n) = 5)"

definition level_of :: "int \<Rightarrow> int" where
  "level_of drawn = (if drawn < 1 then 1 else if drawn < 3 then 2 else if drawn < 7 then 3
     else if drawn < 15 then 4 else if drawn < 31 then 5 else 6)"

lemma level_from_powers: "level_from [1, 3, 7, 15, 31] (drawn + 1) 0 = Inr (level_of drawn)"
  by (simp add: level_from.simps max_level_def aget_def level_of_def)

lemma choose_level_runs: "powers ob = [1, 3, 7, 15, 31] \<Longrightarrow>
    choose_level ob drawn = Inr (level_of drawn, sk_print ob (''generate num: '' @ fmt_d (drawn + 1) @ endl))"
  by (simp add: choose_level_def Let_def sk_print_def level_from_powers)

lemma sk_init_runs: "\<exists>ob s. sk_init = Inr ob \<and> sk_ok ob \<and> sk_root ob = 1 \<and>
    cells (sk_mem ob) = [1 \<mapsto> \<lparr>sk_value = - 1, sk_next = [0, 0, 0, 0, 0]\<rparr>] \<and> fresh (sk_mem ob) = 2"
proof -
  have rep: "replicate (nat max_level) x = [x, x, x, x, x]" for x :: 'a
    by (simp add: max_level_def eval_nat_numeral)
  show ?thesis
    by (simp add: sk_init_def sk_new_def new_node_def empty_mem_def Let_def rep choose_power_def for_up.simps
        max_level_def aset_def aget_def sk_print_def sk_ok_def eval_nat_numeral wf_mem_def)
qed

text \<open>The store and the level at the point where the list is tested for being empty.\<close>

definition after_level :: "sk_obj \<Rightarrow> int \<Rightarrow> int \<Rightarrow> sk_obj" where
  "after_level ob vl drawn =
     sk_print (ob\<lparr>sk_mem := snd (sk_new (sk_mem ob) vl)\<rparr>) (''generate num: '' @ fmt_d (drawn + 1) @ endl @
       ''add node, choose level is: '' @ fmt_d (level_of drawn) @ endl)"

lemma sk_add_node_start:
  assumes "sk_ok ob"
  shows "sk_add_node ob vl drawn =
    (let ob' = after_level ob vl drawn; node = fresh (sk_mem ob) in
     bindM (Some (sk_is_empty ob')) (\<lambda>empty.
     if empty then
       bindM (Some (for_up 0 (level_of drawn) (\<lambda>index m. set_next m (sk_root ob') index node) (sk_mem ob'))) (\<lambda>m.
       sk_dump (ob'\<lparr>sk_mem := m\<rparr>))
     else
       bindM (while_may (\<lambda>(level, cur, m). Inr (0 \<le> level)) (\<lambda>s. Some (add_round node vl s))
         (level_of drawn, sk_root ob', sk_mem ob')) (\<lambda>(level, cur, m).
       sk_dump (ob'\<lparr>sk_mem := m\<rparr>))))"
proof -
  let ?ob = "ob\<lparr>sk_mem := snd (sk_new (sk_mem ob) vl)\<rparr>"
  have n: "sk_new (sk_mem ob) vl = (fresh (sk_mem ob), snd (sk_new (sk_mem ob) vl))"
    by (simp add: sk_new_def new_node_def)
  have c: "choose_level ?ob drawn = Inr (level_of drawn, sk_print ?ob (''generate num: '' @ fmt_d (drawn + 1) @ endl))"
    using assms by (intro choose_level_runs) (simp add: sk_ok_def)
  have a: "sk_print (sk_print ?ob (''generate num: '' @ fmt_d (drawn + 1) @ endl))
      (''add node, choose level is: '' @ fmt_d (level_of drawn) @ endl) = after_level ob vl drawn"
    by (simp add: after_level_def sk_print_def)
  have r: "sk_root ob \<noteq> 0" using assms by (simp add: sk_ok_def)
  show ?thesis
    unfolding sk_add_node_def if_not_P [OF r] Let_def
    by (subst n) (simp only: prod.case c bindM_simps a)
qed

lemma after_level_root:
  assumes "sk_ok ob" "cells (sk_mem ob) (sk_root ob) = Some n"
  shows "sk_root (after_level ob vl drawn) = sk_root ob"
    "load (sk_mem (after_level ob vl drawn)) (sk_root ob) = Inr n"
    "sk_root ob \<noteq> fresh (sk_mem ob)"
    "p \<noteq> fresh (sk_mem ob) \<Longrightarrow> cells (sk_mem (after_level ob vl drawn)) p = cells (sk_mem ob) p"
proof -
  show ne: "sk_root ob \<noteq> fresh (sk_mem ob)" using assms wf_fresh [of "sk_mem ob"] by (auto simp: sk_ok_def)
  show "sk_root (after_level ob vl drawn) = sk_root ob" by (simp add: after_level_def sk_print_def)
  show "p \<noteq> fresh (sk_mem ob) \<Longrightarrow> cells (sk_mem (after_level ob vl drawn)) p = cells (sk_mem ob) p"
    by (simp add: after_level_def sk_print_def sk_new_def new_node_def)
  show "load (sk_mem (after_level ob vl drawn)) (sk_root ob) = Inr n"
    using assms ne by (simp add: load_def after_level_def sk_print_def sk_new_def new_node_def sk_ok_def)
qed

section \<open>Properties\<close>

text \<open>
  17 of the 32 numbers the engine may draw choose a level at which an insertion into a list that
  is not empty reads behind the array of the root; into an empty list, the number 31 does.
\<close>

theorem skip_levels_out_of_bounds:
  assumes "sk_ok ob" "cells (sk_mem ob) (sk_root ob) = Some n"
    and "if sk_next n ! 0 = 0 then drawn = 31 else 15 \<le> drawn \<and> drawn \<le> 31"
  shows "sk_add_node ob vl drawn = Some (Inl OutOfBounds)"
proof -
  note r = after_level_root [OF assms(1,2)]
  have len: "length (sk_next n) = 5" "sk_next n \<noteq> []" using assms(1,2) by (auto simp: sk_ok_def)
  then have e: "sk_is_empty (after_level ob vl drawn) = Inr (sk_next n ! 0 = 0)"
    using r by (simp add: sk_is_empty_def get_next_def aget_def)
  show ?thesis
  proof (cases "sk_next n ! 0 = 0")
    case False
    then have "5 \<le> level_of drawn" using assms(3) by (auto simp: level_of_def)
    moreover have "sk_root ob \<noteq> 0" using assms(1) by (simp add: sk_ok_def)
    ultimately have "add_round node vl (level_of drawn, sk_root ob, sk_mem (after_level ob vl drawn)) = Inl OutOfBounds" for node
      using r(2) len by (simp add: add_round_def get_next_def aget_def)
    then show ?thesis using e False r(1) \<open>5 \<le> level_of drawn\<close>
      by (simp add: sk_add_node_start [OF assms(1)] while_step)
  next
    case True
    let ?P = "\<lambda>m. \<exists>k. load m (sk_root ob) = Inr k \<and> length (sk_next k) = 5"
    have root: "sk_root ob \<noteq> 0" using assms(1) by (simp add: sk_ok_def)
    have P0: "?P (sk_mem (after_level ob vl drawn))" using r(2) len by simp
    have step: "\<exists>m'. set_next m (sk_root ob) i node = Inr m' \<and> ?P m'" if h: "?P m" "0 \<le> i" "i < 5" for m i node
    proof -
      obtain k where k: "load m (sk_root ob) = Inr k" "length (sk_next k) = 5" using h(1) by auto
      then show ?thesis using h(2,3) root
        by (simp add: set_next_def aset_def modify_def load_def)
    qed
    have last: "set_next m (sk_root ob) 5 node = Inl OutOfBounds" if "?P m" for m node
      using that by (auto simp: set_next_def aset_def)
    have "for_up 0 6 (\<lambda>index m. set_next m (sk_root ob) index node) m0 = Inl OutOfBounds" if P: "?P m0" for m0 node
    proof -
      have up: "\<exists>m'. ?P m' \<and> for_up (int i) 6 (\<lambda>index m. set_next m (sk_root ob) index node) m =
          for_up (int (Suc i)) 6 (\<lambda>index m. set_next m (sk_root ob) index node) m'" if "?P m" "i < 5" for i m
        using step [OF that(1), of "int i" node] that(2) by (auto simp: for_up.simps [of "int i"] add.commute)
      obtain m1 where 1: "?P m1" "for_up (int 0) 6 (\<lambda>index m. set_next m (sk_root ob) index node) m0 =
          for_up (int 1) 6 (\<lambda>index m. set_next m (sk_root ob) index node) m1" using up [OF P, of 0] by auto
      obtain m2 where 2: "?P m2" "for_up (int 1) 6 (\<lambda>index m. set_next m (sk_root ob) index node) m1 =
          for_up (int 2) 6 (\<lambda>index m. set_next m (sk_root ob) index node) m2" using up [OF 1(1), of 1] by (auto simp: numeral_2_eq_2)
      obtain m3 where 3: "?P m3" "for_up (int 2) 6 (\<lambda>index m. set_next m (sk_root ob) index node) m2 =
          for_up (int 3) 6 (\<lambda>index m. set_next m (sk_root ob) index node) m3" using up [OF 2(1), of 2] by (auto simp: eval_nat_numeral)
      obtain m4 where 4: "?P m4" "for_up (int 3) 6 (\<lambda>index m. set_next m (sk_root ob) index node) m3 =
          for_up (int 4) 6 (\<lambda>index m. set_next m (sk_root ob) index node) m4" using up [OF 3(1), of 3] by (auto simp: eval_nat_numeral)
      obtain m5 where 5: "?P m5" "for_up (int 4) 6 (\<lambda>index m. set_next m (sk_root ob) index node) m4 =
          for_up (int 5) 6 (\<lambda>index m. set_next m (sk_root ob) index node) m5" using up [OF 4(1), of 4] by (auto simp: eval_nat_numeral)
      have "for_up 5 6 (\<lambda>index m. set_next m (sk_root ob) index node) m5 = Inl OutOfBounds"
        using last [OF 5(1)] by (simp add: for_up.simps)
      then show ?thesis using 1(2) 2(2) 3(2) 4(2) 5(2) by simp
    qed
    moreover have "level_of drawn = 6" using True assms(3) by (simp add: level_of_def)
    ultimately show ?thesis using e True r(1) P0 by (simp add: sk_add_node_start [OF assms(1)])
  qed
qed

theorem skip_levels_out_of_bounds_witness:
  "bindM (Some sk_init) (\<lambda>ob. sk_add_node ob 2 31) = Some (Inl OutOfBounds)"
proof -
  obtain ob where ob: "sk_init = Inr ob" "sk_ok ob" "sk_root ob = 1"
      "cells (sk_mem ob) = [1 \<mapsto> \<lparr>sk_value = - 1, sk_next = [0, 0, 0, 0, 0]\<rparr>]"
    using sk_init_runs by auto
  then show ?thesis using skip_levels_out_of_bounds [OF ob(2), of "\<lparr>sk_value = - 1, sk_next = [0, 0, 0, 0, 0]\<rparr>" 31 2]
    unfolding ob(1) by simp
qed

text \<open>
  an insertion whose drawn level has the same value right behind the root never returns.
\<close>

theorem skip_equal_value_never_ends:
  assumes "sk_ok ob" "cells (sk_mem ob) (sk_root ob) = Some n" "drawn < 15"
    and "sk_next n ! 0 \<noteq> 0" "p = sk_next n ! nat (level_of drawn)" "p \<noteq> 0"
    and "cells (sk_mem ob) p = Some k" "sk_value k = vl"
  shows "sk_add_node ob vl drawn = None"
proof -
  note r = after_level_root [OF assms(1,2)]
  let ?m = "sk_mem (after_level ob vl drawn)" and ?l = "level_of drawn"
  have len: "length (sk_next n) = 5" "sk_next n \<noteq> []" using assms(1,2) by (auto simp: sk_ok_def)
  have e: "sk_is_empty (after_level ob vl drawn) = Inr False"
    using r len assms(4) by (simp add: sk_is_empty_def get_next_def aget_def)
  have l: "0 \<le> ?l" "?l < 5" using assms(3) by (auto simp: level_of_def)
  have p: "p \<noteq> fresh (sk_mem ob)" using assms(1,7) wf_fresh [of "sk_mem ob"] by (auto simp: sk_ok_def)
  have root: "sk_root ob \<noteq> 0" using assms(1) by (simp add: sk_ok_def)
  have "while_may (\<lambda>(level, cur, m). Inr (0 \<le> level)) (\<lambda>s. Some (add_round node vl s)) (?l, sk_root ob, ?m) = None" for node
  proof (rule while_never [where I = "\<lambda>(level, cur, m). level = ?l \<and> cur = sk_root ob \<and> cells m = cells ?m"])
    fix s :: "int \<times> ptr \<times> sk_node mem"
    assume I: "case s of (level, cur, m) \<Rightarrow> level = ?l \<and> cur = sk_root ob \<and> cells m = cells ?m"
    obtain m where s: "s = (?l, sk_root ob, m)" "cells m = cells ?m" using I by (cases s) auto
    have "load m (sk_root ob) = Inr n" "load m p = Inr k"
    proof -
      have "load m q = load ?m q" for q by (simp add: load_def s(2))
      then show "load m (sk_root ob) = Inr n" using r(2) by simp
      show "load m p = Inr k" using s(2) r(4) [OF p] assms(6,7) by (simp add: load_ok)
    qed
    then have "add_round node vl s = Inr (?l, sk_root ob, print m (''found same value in level: '' @ fmt_d ?l @ endl))"
      using s(1) root l len assms(5,6,8) by (simp add: add_round_def get_next_def aget_def)
    then show "(case s of (level, cur, m) \<Rightarrow> Inr (0 \<le> level)) = Inr True \<and>
        endsM (Some (add_round node vl s)) (\<lambda>(level, cur, m). level = ?l \<and> cur = sk_root ob \<and> cells m = cells ?m)"
      using s l by simp
  qed simp
  then show ?thesis using e r(1) by (simp add: sk_add_node_start [OF assms(1)])
qed


definition sk_seven :: sk_obj where
  "sk_seven = \<lparr>sk_root = 1, powers = [1, 3, 7, 15, 31], sk_mem = \<lparr>cells = [1 \<mapsto> \<lparr>sk_value = - 1, sk_next = [2, 2, 0, 0, 0]\<rparr>,
     2 \<mapsto> \<lparr>sk_value = 7, sk_next = [0, 0, 0, 0, 0]\<rparr>], fresh = 3, cout = []\<rparr>\<rparr>"

theorem skip_equal_value_never_ends_witness: "sk_add_node sk_seven 7 0 = None"
proof -
  have "sk_ok sk_seven" by (simp add: sk_ok_def sk_seven_def wf_mem_def)
  then show ?thesis
    by (rule skip_equal_value_never_ends [where n = "\<lparr>sk_value = - 1, sk_next = [2, 2, 0, 0, 0]\<rparr>" and
        k = "\<lparr>sk_value = 7, sk_next = [0, 0, 0, 0, 0]\<rparr>" and p = 2]) (simp_all add: sk_seven_def level_of_def)
qed

text \<open>A list with the one element \<open>v\<close>, at the lowest \<open>l\<close> levels.\<close>

definition sk_single :: "nat \<Rightarrow> ptr \<Rightarrow> int \<Rightarrow> sk_obj \<Rightarrow> bool" where
  "sk_single l a v ob \<longleftrightarrow> sk_root ob \<noteq> 0 \<and> a \<noteq> 0 \<and> a \<noteq> sk_root ob \<and>
     cells (sk_mem ob) (sk_root ob) = Some \<lparr>sk_value = - 1, sk_next = replicate l a @ replicate (5 - l) 0\<rparr> \<and>
     cells (sk_mem ob) a = Some \<lparr>sk_value = v, sk_next = [0, 0, 0, 0, 0]\<rparr>"

text \<open>One round of the deletion at the root: down a level, or the element is unlinked.\<close>

lemma del_round_down:
  assumes "load (sk_mem ob) r = Inr n" "r \<noteq> 0" "0 \<le> i" "i < int (length (sk_next n))" "sk_next n ! nat i = 0"
  shows "\<exists>s. del_round v (i, r, ob) = retM (i - 1, r, sk_print ob s)"
  using assms by (auto simp: del_round_def get_next_def aget_ok)

lemma del_round_unlink:
  assumes "load (sk_mem ob) r = Inr n" "r \<noteq> 0" "0 \<le> i" "i < int (length (sk_next n))" "sk_next n ! nat i = a" "a \<noteq> 0"
    and "load (sk_mem ob) a = Inr \<lparr>sk_value = v, sk_next = [0, 0, 0, 0, 0]\<rparr>" "a \<noteq> r" "i < 5" "i \<noteq> 1"
  shows "\<exists>s. del_round v (i, r, ob) =
    retM (i - 1, r, sk_print (ob\<lparr>sk_mem := (sk_mem ob)\<lparr>cells := (cells (sk_mem ob))(r \<mapsto> n\<lparr>sk_next := (sk_next n)[nat i := 0]\<rparr>)\<rparr>\<rparr>) s)"
proof -
  have "[0, 0, 0, 0, 0] ! nat i = (0 :: ptr)" using assms(3,9) by (auto simp: nth_Cons' )
  then show ?thesis using assms
    by (auto simp: del_round_def get_next_def aget_def set_next_def aset_ok modify_def Let_def)
qed



lemma del_step:
  assumes s: "sk_single k a v ob" and k: "1 \<le> k" "k \<le> i + 1" and i: "1 \<le> i" "i < 5" "i = 1 \<longrightarrow> k = 1"
  shows "\<exists>ob'. del_round v (int i, sk_root ob, ob) = retM (int i - 1, sk_root ob, ob') \<and> sk_single (min k i) a v ob' \<and>
     sk_root ob' = sk_root ob"
proof (cases "k \<le> i")
  case True
  then have z: "(replicate k a @ replicate (5 - k) 0) ! nat (int i) = 0" using i k by (simp add: nth_append)
  obtain t where "del_round v (int i, sk_root ob, ob) = retM (int i - 1, sk_root ob, sk_print ob t)"
    using del_round_down [of ob "sk_root ob" "\<lparr>sk_value = - 1, sk_next = replicate k a @ replicate (5 - k) 0\<rparr>" "int i" v]
      s i k z by (auto simp: sk_single_def load_ok)
  then show ?thesis using s True by (auto simp: sk_single_def sk_print_def min_def)
next
  case False
  then have ki: "k = i + 1" "i \<noteq> 1" using k i by auto
  let ?n = "\<lparr>sk_value = - 1, sk_next = replicate k a @ replicate (5 - k) 0\<rparr>"
  have z: "(replicate k a @ replicate (5 - k) 0) ! nat (int i) = a"
    using ki by (simp add: nth_append del: replicate.simps)
  have "i \<in> {2, 3, 4}" using i ki by auto
  then have u: "(replicate k a @ replicate (5 - k) 0)[i := 0] = replicate i a @ replicate (5 - i) 0"
    using ki by (auto simp: eval_nat_numeral)
  obtain t where "del_round v (int i, sk_root ob, ob) = retM (int i - 1, sk_root ob,
      sk_print (ob\<lparr>sk_mem := (sk_mem ob)\<lparr>cells := (cells (sk_mem ob))(sk_root ob \<mapsto> ?n\<lparr>sk_next := (sk_next ?n)[nat (int i) := 0]\<rparr>)\<rparr>\<rparr>) t)"
    using del_round_unlink [of ob "sk_root ob" ?n "int i" a v] s i ki z by (auto simp: sk_single_def load_ok)
  then show ?thesis using s ki u by (auto simp: sk_single_def sk_print_def min_def)
qed

lemma del_last_level:
  assumes "sk_single 1 a v ob"
  shows "\<exists>ob'. del_round v (0, sk_root ob, ob) = retM (- 1, sk_root ob, ob') \<and> sk_root ob' = sk_root ob \<and>
     cells (sk_mem ob') (sk_root ob) = Some \<lparr>sk_value = - 1, sk_next = [0, 0, 0, 0, 0]\<rparr> \<and>
     cells (sk_mem ob') a \<noteq> None"
proof -
  let ?n = "\<lparr>sk_value = - 1, sk_next = [a, 0, 0, 0, 0]\<rparr>"
  have r: "cells (sk_mem ob) (sk_root ob) = Some ?n" using assms by (simp add: sk_single_def eval_nat_numeral)
  then obtain t where "del_round v (0, sk_root ob, ob) = retM (- 1, sk_root ob,
      sk_print (ob\<lparr>sk_mem := (sk_mem ob)\<lparr>cells := (cells (sk_mem ob))(sk_root ob \<mapsto> ?n\<lparr>sk_next := (sk_next ?n)[nat 0 := 0]\<rparr>)\<rparr>\<rparr>) t)"
    using del_round_unlink [of ob "sk_root ob" ?n 0 a v] assms by (auto simp: sk_single_def load_ok)
  then show ?thesis using assms by (auto simp: sk_single_def sk_print_def)
qed

text \<open>At level 1 the node is freed while the root still points at it, and then the list is written.\<close>

lemma del_level_one:
  assumes "sk_single 2 a v ob"
  shows "del_round v (1, sk_root ob, ob) = Some (Inl BadPointer)"
proof -
  have r: "cells (sk_mem ob) (sk_root ob) = Some \<lparr>sk_value = - 1, sk_next = [a, a, 0, 0, 0]\<rparr>"
    "sk_root ob \<noteq> 0" "a \<noteq> 0" "a \<noteq> sk_root ob" "cells (sk_mem ob) a = Some \<lparr>sk_value = v, sk_next = [0, 0, 0, 0, 0]\<rparr>"
    using assms by (simp_all add: sk_single_def eval_nat_numeral)
  have bad: "sk_walk l (a, m) = Some (Inl BadPointer)" if "cells m a = None" for l m
    using that r(3) by (simp add: sk_walk_def while_step load_def)
  show ?thesis using r
    by (simp add: del_round_def get_next_def set_next_def load_ok aget_def aset_def modify_ok Let_def delete_ok
        sk_print_def sk_dump_def dump_level_def bad del: print_print)
qed

text \<open>
  the deletion of the only element ends without a fault only when the element is at the lowest
  level alone, and then its node is not freed; else it frees the node while the lowest level still
  leads to it, and the dump reads it.
\<close>

theorem skip_delete_only:
  assumes "sk_single l a v ob" "1 \<le> l" "l \<le> 5"
  shows "if l = 1 then \<exists>ob'. sk_del_node ob v = retM ob' \<and> cells (sk_mem ob') a \<noteq> None \<and>
      cells (sk_mem ob') (sk_root ob) = Some \<lparr>sk_value = - 1, sk_next = [0, 0, 0, 0, 0]\<rparr>
    else sk_del_node ob v = Some (Inl BadPointer)"
proof -
  let ?wh = "while_may (\<lambda>(level, cur, ob). Inr (0 \<le> level)) (del_round v)"
  have step: "\<exists>ob'. ?wh (int i, sk_root o1, o1) = ?wh (int i - 1, sk_root o1, ob') \<and> sk_single (min k i) a v ob' \<and> sk_root ob' = sk_root o1"
    if h: "sk_single k a v o1" "1 \<le> k" "k \<le> i + 1" "1 \<le> i" "i < 5" "i = 1 \<longrightarrow> k = 1" for i k o1
    using del_step [OF h] by (auto simp: while_step)
  have root: "sk_root ob \<noteq> 0" using assms(1) by (simp add: sk_single_def)
  obtain o4 where 4: "?wh (4, sk_root ob, ob) = ?wh (3, sk_root ob, o4)" "sk_single (min l 4) a v o4" "sk_root o4 = sk_root ob"
    using step [OF assms(1), of 4] assms by auto
  obtain o3 where 3: "?wh (3, sk_root ob, o4) = ?wh (2, sk_root ob, o3)" "sk_single (min (min l 4) 3) a v o3" "sk_root o3 = sk_root ob"
    using step [OF 4(2), of 3] assms 4(3) by auto
  obtain o2 where 2: "?wh (2, sk_root ob, o3) = ?wh (1, sk_root ob, o2)" "sk_single (min (min (min l 4) 3) 2) a v o2" "sk_root o2 = sk_root ob"
    using step [OF 3(2), of 2] assms 3(3) by auto
  have del: "sk_del_node ob v = bindM (?wh (1, sk_root ob, o2)) (\<lambda>(level, cur, ob). retM ob)"
    using root 4(1) 3(1) 2(1) by (simp add: sk_del_node_def max_level_def)
  show ?thesis
  proof (cases "l = 1")
    case True
    then have "sk_single 1 a v o2" using 2(2) by simp
    from step [OF this, of 1] obtain o1 where 1: "?wh (1, sk_root ob, o2) = ?wh (0, sk_root ob, o1)"
        "sk_single 1 a v o1" "sk_root o1 = sk_root ob" using 2(3) by auto
    obtain o0 where "del_round v (0, sk_root ob, o1) = retM (- 1, sk_root ob, o0)"
        "cells (sk_mem o0) (sk_root ob) = Some \<lparr>sk_value = - 1, sk_next = [0, 0, 0, 0, 0]\<rparr>" "cells (sk_mem o0) a \<noteq> None"
      using del_last_level [OF 1(2)] 1(3) by auto
    then show ?thesis using True del 1(1) by (simp add: while_step while_stop)
  next
    case False
    then have "min (min (min l 4) 3) 2 = 2" using assms by linarith
    then have "sk_single 2 a v o2" using 2(2) by simp
    then show ?thesis using False del del_level_one [of a v o2] 2(3) by (simp add: while_step)
  qed
qed

theorem skip_delete_only_witness: "sk_del_node sk_seven 7 = Some (Inl BadPointer)"
proof -
  have "sk_single 2 2 7 sk_seven" by (simp add: sk_single_def sk_seven_def eval_nat_numeral)
  from skip_delete_only [OF this] show ?thesis by simp
qed


end
