(* ===== verification/StackSearch.thy ===== *)
theory StackSearch
  imports CppHeap "HOL-Library.Signed_Division"
begin

text \<open>
  The stack and the queue of \<^verbatim>\<open>stack.cpp\<close>, and the search of \<^verbatim>\<open>binary_search.cpp\<close>.
\<close>

section \<open>The stack and the queue\<close>

text \<open>The object is its \<open>lst_\<close>; \<open>std::nullopt\<close> is \<open>None\<close>.\<close>

definition stack_pop :: "int list \<Rightarrow> fault + (int option \<times> int list)" where
  "stack_pop lst = (if lst = [] then Inr (None, lst) else Inr (Some (last lst), butlast lst))"

definition stack_push :: "int list \<Rightarrow> int \<Rightarrow> int list" where
  "stack_push lst vl = lst @ [vl]"

definition stack_clear :: "int list \<Rightarrow> int list" where
  "stack_clear lst = []"

text \<open>The queue's \<open>pop\<close> has no \<open>return\<close> after the test.\<close>

definition queue_pop :: "int list \<Rightarrow> fault + (int option \<times> int list)" where
  "queue_pop lst = (if lst = [] then Inr (None, lst) else Inl MissingReturn)"

definition list_stack_main :: "fault + string" where
  "list_stack_main =
     (let stack = stack_push (stack_push [] 1) 2 in
      bindE (stack_pop stack) (\<lambda>(result, stack).
      case result of None \<Rightarrow> Inr [] | Some v \<Rightarrow> Inr (''pop value is: '' @ fmt_d v @ endl)))"

section \<open>Binary search\<close>

record elements =
  el_addr :: "int list"
  el_length :: int

lemma sdiv2_int: "(x :: int) sdiv 2 = (if x < 0 then - ((- x) div 2) else x div 2)"
  by (auto simp: signed_divide_int_def sgn_if)

lemma sdiv2_between: "(h :: int) \<le> t \<Longrightarrow> 0 \<le> h \<Longrightarrow> h \<le> (h + t) sdiv 2 \<and> (h + t) sdiv 2 \<le> t"
  by (auto simp: sdiv2_int)

text \<open>The middle is compared with the target; the elements are not read.\<close>

function bsearch_loop :: "int \<Rightarrow> int \<Rightarrow> int \<Rightarrow> fault + int option" where
  "bsearch_loop target head tail =
     (if head \<le> tail then
        bindE (chk (head + tail)) (\<lambda>sum.
        let mid = sum sdiv 2 in
        if mid > target then bsearch_loop target head (mid - 1)
        else if mid < target then bsearch_loop target (mid + 1) tail
        else Inr (Some mid))
      else Inr None)"
  by auto

termination
proof (relation "measure (\<lambda>(target, head, tail). nat (tail - head + 2))", goal_cases)
  case 1
  then show ?case by simp
next
  case (2 target head tail sum mid)
  then have "mid \<le> tail" by (auto simp: chk_Inr sdiv2_int)
  then show ?case using 2 by auto
next
  case (3 target head tail sum mid)
  then have "head \<le> mid" by (auto simp: chk_Inr sdiv2_int)
  then show ?case using 3 by auto
qed

declare bsearch_loop.simps [simp del]

definition binary_search :: "elements \<Rightarrow> int \<Rightarrow> fault + int option" where
  "binary_search elems target = bsearch_loop target 0 (el_length elems)"

section \<open>What they do\<close>

text \<open>The stack: last in, first out.\<close>

lemma stack_pop_push: "stack_pop (stack_push lst v) = Inr (Some v, lst)"
  by (simp add: stack_pop_def stack_push_def)

lemma bsearch_loop_finds:
  assumes "0 \<le> head" "tail < 2 ^ 30"
  shows "bsearch_loop target head tail = Inr (if head \<le> target \<and> target \<le> tail then Some target else None)"
  using assms
proof (induction target head tail rule: bsearch_loop.induct)
  case (1 target head tail)
  show ?case
  proof (cases "head \<le> tail")
    case False
    then show ?thesis by (simp add: bsearch_loop.simps)
  next
    case True
    let ?mid = "(head + tail) sdiv 2"
    have fit: "fits (head + tail)" using "1.prems" True by (simp add: fits_def INT_MAX_def INT_MIN_def)
    note b = sdiv2_between [OF True "1.prems"(1)]
    consider "?mid > target" | "?mid < target" | "?mid = target" by linarith
    then show ?thesis
    proof cases
      case 1
      have "bsearch_loop target head (?mid - 1) = Inr (if head \<le> target \<and> target \<le> ?mid - 1 then Some target else None)"
        using "1.IH"(1) [of "head + tail" ?mid] True 1 fit "1.prems" b by simp
      then show ?thesis using True 1 fit b by (simp add: bsearch_loop.simps [of target head tail])
    next
      case 2
      have "bsearch_loop target (?mid + 1) tail = Inr (if ?mid + 1 \<le> target \<and> target \<le> tail then Some target else None)"
        using "1.IH"(2) [of "head + tail" ?mid] True 2 fit "1.prems" b by simp
      then show ?thesis using True 2 fit b by (simp add: bsearch_loop.simps [of target head tail])
    next
      case 3
      then show ?thesis using True fit b by (simp add: bsearch_loop.simps [of target head tail])
    qed
  qed
qed

section \<open>Properties\<close>

text \<open>
  the stack gives back the last value pushed and the stack before it; \<open>pop\<close> of the queue
  has a result only when the queue is empty.\<close>

theorem stack_and_queue:
  "stack_pop (stack_push lst v) = Inr (Some v, lst) \<and> stack_pop [] = Inr (None, []) \<and>
   list_stack_main = Inr (''pop value is: 2'' @ endl) \<and>
   (queue_pop lst = Inr (None, []) \<longleftrightarrow> lst = []) \<and> queue_pop (v # lst) = Inl MissingReturn"
  by (simp add: stack_pop_push list_stack_main_def) (simp add: stack_pop_def queue_pop_def show_simps)

text \<open>
  the search answers the target itself whenever it lies between 0 and the length, the end
  included, whatever the elements are; for less than \<open>2 ^ 30\<close> elements it does not fault, and ends.
\<close>

theorem binary_search_ignores_elements:
  assumes "el_length elems < 2 ^ 30"
  shows "binary_search elems target =
    Inr (if 0 \<le> target \<and> target \<le> el_length elems then Some target else None)"
  using bsearch_loop_finds [of 0 "el_length elems" target] assms by (simp add: binary_search_def)

theorem binary_search_ignores_elements_witness:
  "binary_search \<lparr>el_addr = [10, 20, 30], el_length = 3\<rparr> 20 = Inr None \<and>
   binary_search \<lparr>el_addr = [10, 20, 30], el_length = 3\<rparr> 3 = Inr (Some 3)"
  using binary_search_ignores_elements [of "\<lparr>el_addr = [10, 20, 30], el_length = 3\<rparr>" 20]
    binary_search_ignores_elements [of "\<lparr>el_addr = [10, 20, 30], el_length = 3\<rparr>" 3] by simp

end
