(* ===== verification/CppLoops.thy ===== *)
theory CppLoops
  imports CppHeap
begin

text \<open>
  Loops of the C++ programs on sequences: loops whose body may not end, loops that a \<open>return\<close> may
  leave, characters of strings, and vectors that are built with a size.
\<close>

section \<open>Loops\<close>

function for_upM :: "int \<Rightarrow> int \<Rightarrow> (int \<Rightarrow> 's \<Rightarrow> 's may) \<Rightarrow> 's \<Rightarrow> 's may" where
  "for_upM i n body s =
     (if i < n then bindM (body i s) (\<lambda>s'. for_upM (i + 1) n body s') else retM s)"
  by auto

termination
  by (relation "measure (\<lambda>(i, n, body, s). nat (n - i))") auto

declare for_upM.simps [simp del]

fun for_inM :: "'a list \<Rightarrow> ('a \<Rightarrow> 's \<Rightarrow> 's may) \<Rightarrow> 's \<Rightarrow> 's may" where
  "for_inM [] body s = retM s"
| "for_inM (x # xs) body s = bindM (body x s) (for_inM xs body)"

text \<open>A round goes on with the next one, or leaves the function with its result.\<close>

datatype ('s, 'r) flow = Next 's | Return 'r

fun for_inR :: "'a list \<Rightarrow> ('a \<Rightarrow> 's \<Rightarrow> ('s, 'r) flow may) \<Rightarrow> 's \<Rightarrow> ('s, 'r) flow may" where
  "for_inR [] body s = retM (Next s)"
| "for_inR (x # xs) body s =
     bindM (body x s) (\<lambda>r. case r of Next s \<Rightarrow> for_inR xs body s | Return v \<Rightarrow> retM (Return v))"

function for_upR :: "int \<Rightarrow> int \<Rightarrow> (int \<Rightarrow> 's \<Rightarrow> fault + ('s, 'r) flow) \<Rightarrow> 's \<Rightarrow> fault + ('s, 'r) flow" where
  "for_upR i n body s =
     (if i < n then
        bindE (body i s) (\<lambda>r. case r of Next s \<Rightarrow> for_upR (i + 1) n body s | Return v \<Rightarrow> Inr (Return v))
      else Inr (Next s))"
  by auto

termination
  by (relation "measure (\<lambda>(i, n, body, s). nat (n - i))") auto

declare for_upR.simps [simp del]

text \<open>What comes behind such a loop.\<close>

definition seqR :: "fault + ('s, 'r) flow \<Rightarrow> ('s \<Rightarrow> fault + ('t, 'r) flow) \<Rightarrow> fault + ('t, 'r) flow" where
  "seqR m f = bindE m (\<lambda>r. case r of Next s \<Rightarrow> f s | Return v \<Rightarrow> Inr (Return v))"

definition endR :: "fault + ('s, 'r) flow \<Rightarrow> ('s \<Rightarrow> fault + 'r) \<Rightarrow> fault + 'r" where
  "endR m f = bindE m (\<lambda>r. case r of Next s \<Rightarrow> f s | Return v \<Rightarrow> Inr v)"

lemma seqR_simps [simp]:
  "seqR (Inl e) f = Inl e" "seqR (Inr (Next s)) f = f s" "seqR (Inr (Return v)) f = Inr (Return v)"
  by (simp_all add: seqR_def)

lemma endR_simps [simp]:
  "endR (Inl e) f = Inl e" "endR (Inr (Next s)) f = f s" "endR (Inr (Return v)) f = Inr v"
  by (simp_all add: endR_def)

subsection \<open>Monotonicity, for functions that call themselves in a loop\<close>

lemma for_inM_mono [partial_function_mono]:
  assumes "\<And>x s. mono_option (\<lambda>f. B f x s)"
  shows "mono_option (\<lambda>f. for_inM xs (\<lambda>x s. B f x s) s)"
proof (induction xs arbitrary: s)
  case Nil
  show ?case by (simp add: monotone_def flat_ord_def)
next
  case (Cons x xs)
  show ?case unfolding for_inM.simps by (intro bindM_mono assms Cons.IH)
qed

lemma for_upM_mono [partial_function_mono]:
  assumes "\<And>i s. mono_option (\<lambda>f. B f i s)"
  shows "mono_option (\<lambda>f. for_upM i n (\<lambda>i s. B f i s) s)"
proof (induction "nat (n - i)" arbitrary: i s)
  case 0
  then have "for_upM i n (\<lambda>i s. B f i s) s = retM s" for f by (simp add: for_upM.simps)
  then show ?case by (simp add: monotone_def flat_ord_def)
next
  case (Suc k)
  then have "i < n" by simp
  then have "for_upM i n (\<lambda>i s. B f i s) s = bindM (B f i s) (\<lambda>s'. for_upM (i + 1) n (\<lambda>i s. B f i s) s')" for f
    by (simp add: for_upM.simps [of i])
  moreover have "mono_option (\<lambda>f. bindM (B f i s) (\<lambda>s'. for_upM (i + 1) n (\<lambda>i s. B f i s) s'))"
    using Suc by (intro bindM_mono assms Suc(1)) simp
  ultimately show ?case by simp
qed

lemma for_inR_mono [partial_function_mono]:
  assumes "\<And>x s. mono_option (\<lambda>f. B f x s)"
  shows "mono_option (\<lambda>f. for_inR xs (\<lambda>x s. B f x s) s)"
proof (induction xs arbitrary: s)
  case Nil
  show ?case by (simp add: monotone_def flat_ord_def)
next
  case (Cons x xs)
  have "mono_option (\<lambda>f. case r of Next s \<Rightarrow> for_inR xs (\<lambda>x s. B f x s) s | Return v \<Rightarrow> retM (Return v))" for r
    by (cases r) (simp_all add: Cons.IH, simp add: monotone_def flat_ord_def)
  then show ?case unfolding for_inR.simps by (intro bindM_mono assms)
qed

subsection \<open>Invariant rules\<close>

text \<open>\<open>ends m Q\<close>: the computation ends without a fault, with a value that satisfies \<open>Q\<close>.\<close>

definition ends :: "'a may \<Rightarrow> ('a \<Rightarrow> bool) \<Rightarrow> bool" where
  "ends m Q \<longleftrightarrow> (\<exists>x. m = retM x \<and> Q x)"

lemma ends_ret [simp]: "ends (retM x) Q \<longleftrightarrow> Q x"
  by (simp add: ends_def)

lemma ends_Some: "ends (Some m) Q \<longleftrightarrow> runs m Q"
  by (auto simp: ends_def runs_def)

lemma ends_bind: "ends m R \<Longrightarrow> (\<And>x. R x \<Longrightarrow> ends (f x) Q) \<Longrightarrow> ends (bindM m f) Q"
  by (auto simp: ends_def)

lemma ends_weaken: "ends m R \<Longrightarrow> (\<And>x. R x \<Longrightarrow> Q x) \<Longrightarrow> ends m Q"
  by (auto simp: ends_def)

lemma ends_eq: "ends m (\<lambda>x. x = y) \<longleftrightarrow> m = retM y"
  by (auto simp: ends_def)

lemma for_inM_inv:
  assumes "P [] s" and "\<And>x ys s. P ys s \<Longrightarrow> x \<in> set xs \<Longrightarrow> ends (body x s) (P (ys @ [x]))"
  shows "ends (for_inM xs body s) (P xs)"
proof -
  have "ends (for_inM zs body s) (P (ys @ zs))" if "P ys s" "set zs \<subseteq> set xs" for ys zs s
    using that
  proof (induction zs arbitrary: ys s)
    case Nil
    then show ?case by simp
  next
    case (Cons z zs)
    have "ends (for_inM (z # zs) body s) (P ((ys @ [z]) @ zs))"
      unfolding for_inM.simps
      using Cons by (intro ends_bind [OF assms(2) [OF Cons.prems(1), of z]] Cons.IH) auto
    then show ?case by simp
  qed
  from this [of "[]" s xs] show ?thesis using assms(1) by simp
qed

lemma for_upM_inv:
  assumes "a \<le> n" and "P a s"
    and "\<And>i s. a \<le> i \<Longrightarrow> i < n \<Longrightarrow> P i s \<Longrightarrow> ends (body i s) (P (i + 1))"
  shows "ends (for_upM a n body s) (P n)"
  using assms
proof (induction "nat (n - a)" arbitrary: a s)
  case 0
  then show ?case by (simp add: for_upM.simps)
next
  case (Suc k)
  then have "a < n" by simp
  then have "for_upM a n body s = bindM (body a s) (\<lambda>s'. for_upM (a + 1) n body s')"
    by (simp add: for_upM.simps [of a])
  moreover have "ends (bindM (body a s) (\<lambda>s'. for_upM (a + 1) n body s')) (P n)"
    using Suc \<open>a < n\<close> by (intro ends_bind [OF Suc.prems(3) [of a s]] Suc(1)) auto
  ultimately show ?case by simp
qed

text \<open>A loop that may be left: \<open>Q\<close> holds of the results it is left with.\<close>

definition flow_ok :: "('s \<Rightarrow> bool) \<Rightarrow> ('r \<Rightarrow> bool) \<Rightarrow> ('s, 'r) flow \<Rightarrow> bool" where
  "flow_ok P Q r \<longleftrightarrow> (case r of Next s \<Rightarrow> P s | Return v \<Rightarrow> Q v)"

lemma flow_ok_simps [simp]: "flow_ok P Q (Next s) = P s" "flow_ok P Q (Return v) = Q v"
  by (simp_all add: flow_ok_def)

lemma for_upR_inv:
  assumes "a \<le> n" and "P a s"
    and "\<And>i s. a \<le> i \<Longrightarrow> i < n \<Longrightarrow> P i s \<Longrightarrow> runs (body i s) (flow_ok (P (i + 1)) Q)"
  shows "runs (for_upR a n body s) (flow_ok (P n) Q)"
  using assms
proof (induction "nat (n - a)" arbitrary: a s)
  case 0
  then show ?case by (simp add: for_upR.simps)
next
  case (Suc k)
  then have less: "a < n" by simp
  from Suc.prems less obtain r where r: "body a s = Inr r" "flow_ok (P (a + 1)) Q r"
    using runsD by (metis order_refl)
  show ?case
  proof (cases r)
    case (Next s')
    have "runs (for_upR (a + 1) n body s') (flow_ok (P n) Q)"
      using Suc less r Next by (intro Suc(1)) auto
    then show ?thesis using less r Next by (simp add: for_upR.simps [of a])
  next
    case (Return v)
    then show ?thesis using less r by (simp add: for_upR.simps [of a])
  qed
qed

lemma for_inR_inv:
  assumes "P [] s" and "\<And>x ys s. P ys s \<Longrightarrow> x \<in> set xs \<Longrightarrow> ends (body x s) (flow_ok (P (ys @ [x])) Q)"
  shows "ends (for_inR xs body s) (flow_ok (P xs) Q)"
proof -
  have "ends (for_inR zs body s) (flow_ok (P (ys @ zs)) Q)" if "P ys s" "set zs \<subseteq> set xs" for ys zs s
    using that
  proof (induction zs arbitrary: ys s)
    case Nil
    then show ?case by simp
  next
    case (Cons z zs)
    have "ends (body z s) (flow_ok (P (ys @ [z])) Q)" using Cons.prems by (intro assms(2)) auto
    then obtain r where r: "body z s = retM r" "flow_ok (P (ys @ [z])) Q r" by (auto simp: ends_def)
    show ?case
    proof (cases r)
      case (Next s')
      then show ?thesis using Cons.IH [of "ys @ [z]" s'] Cons.prems r by simp
    next
      case (Return v)
      then show ?thesis using r by simp
    qed
  qed
  from this [of "[]" s xs] show ?thesis using assms(1) by simp
qed

text \<open>What every round keeps holds of the result of a loop that does not fault.\<close>

lemma for_up_keeps:
  assumes "for_up i n body s = Inr s'" "P s" "\<And>i s s'. body i s = Inr s' \<Longrightarrow> P s \<Longrightarrow> P s'"
  shows "P s'"
  using assms
proof (induction i n body s rule: for_up.induct)
  case (1 i n body s)
  show ?case
  proof (cases "i < n")
    case True
    then obtain t where t: "body i s = Inr t" "for_up (i + 1) n body t = Inr s'"
      using "1.prems"(1) by (auto simp: for_up.simps [of i n body s] bindE_eq_Inr)
    show ?thesis by (rule "1.IH" [OF True t(1) t(2) "1.prems"(3) [OF t(1) "1.prems"(2)] "1.prems"(3)])
  qed (use "1.prems" in \<open>simp add: for_up.simps\<close>)
qed

lemma for_in_keeps:
  assumes "for_in xs body s = Inr s'" "P s" "\<And>x s s'. body x s = Inr s' \<Longrightarrow> P s \<Longrightarrow> P s'"
  shows "P s'"
  using assms(1,2)
proof (induction xs arbitrary: s)
  case (Cons x xs)
  then show ?case using assms(3) by (auto simp: bindE_eq_Inr)
qed simp

section \<open>Strings and vectors\<close>

text \<open>\<open>s[i]\<close> of a \<open>std::string\<close>: at its size it is the null character.\<close>

definition sget :: "string \<Rightarrow> int \<Rightarrow> fault + char" where
  "sget s i = (if i = int (length s) then Inr (CHR 0x00) else aget s i)"

lemma sget_nat [simp]: "i < length s \<Longrightarrow> sget s (int i) = Inr (s ! i)"
  by (simp add: sget_def)

lemma sget_ok: "0 \<le> i \<Longrightarrow> i < int (length s) \<Longrightarrow> sget s i = Inr (s ! nat i)"
  by (simp add: sget_def aget_ok)

lemma sget_Inr: "sget s i = Inr c \<Longrightarrow> 0 \<le> i \<and> i \<le> int (length s)"
  by (auto simp: sget_def aget_Inr split: if_splits)

text \<open>The conversion of an \<open>int\<close> to \<open>size_t\<close>, and \<open>std::vector<T> vec(n, v)\<close>.\<close>

definition size_t :: "int \<Rightarrow> int" where
  "size_t i = i mod 2 ^ 64"

definition new_vec :: "int \<Rightarrow> 'a \<Rightarrow> fault + 'a list" where
  "new_vec n v =
     (if n < 0 then Inl (Thrown ''cannot create std::vector larger than max_size()'')
      else Inr (replicate (nat n) v))"

lemma size_t_nat: "0 \<le> i \<Longrightarrow> i < 2 ^ 64 \<Longrightarrow> size_t i = i"
  by (simp add: size_t_def)

text \<open>\<open>source.substr(pos, len)\<close>.\<close>

definition substr :: "string \<Rightarrow> int \<Rightarrow> int \<Rightarrow> fault + string" where
  "substr s pos len =
     (if int (length s) < size_t pos then Inl (Thrown ''basic_string::substr'')
      else Inr (take (nat (size_t len)) (drop (nat pos) s)))"

end
