(* ===== verification/Coins.thy ===== *)
theory Coins
  imports CppLoops
begin

text \<open>
  Making change (\<^verbatim>\<open>Coins.cc\<close>, \<^verbatim>\<open>coin.cc\<close>), the Fibonacci numbers (\<^verbatim>\<open>fb.cc\<close>, \<^verbatim>\<open>Fibonacci.cc\<close>) and the
  unfinished programs on digits (\<^verbatim>\<open>revert.cc\<close>, \<^verbatim>\<open>BaseConvert.cc\<close>). The recursions are partial
  functions: not ending is \<open>None\<close>. Sizes of vectors are below \<open>2 ^ 31\<close>.
\<close>

section \<open>\<open>Coins.cc\<close>\<close>

text \<open>The global \<open>results\<close> and the output are passed along.\<close>

definition coins :: "int list" where
  "coins = [3, 5, 9, 11, 13]"

definition print_vec_helper :: "int list \<Rightarrow> string" where
  "print_vec_helper results = ''vec elem: '' @ concat (map show_sp results) @ endl"

partial_function (option) charge_once :: "int \<Rightarrow> int list \<Rightarrow> (int \<times> int list) may" where
  "charge_once amount results =
     (if amount < 0 then retM (-1, results)
      else if amount = 0 then retM (0, results)
      else
        bindM (for_inR (rev coins) (\<lambda>coin (left_amount, results).
          bindM (charge_once (amount - coin) results) (\<lambda>(left_amount, results).
          if left_amount = 0 then retM (Return (0, results @ [coin]))
          else retM (Next (left_amount, results)))) (0, results)) (\<lambda>r.
        case r of Next s \<Rightarrow> retM s | Return v \<Rightarrow> retM v))"

definition test_charge_once :: "int list \<times> string \<Rightarrow> (int list \<times> string) may" where
  "test_charge_once = (\<lambda>(results, out).
     bindM (charge_once 23 []) (\<lambda>(success, results).
     retM (results, out @ ''test_charge_once number is 23, '' @ print_vec_helper results)))"

partial_function (option) charge_from_min :: "int \<Rightarrow> int list \<Rightarrow> string \<Rightarrow> (int \<times> int list \<times> string) may" where
  "charge_from_min amount results out =
     (if amount < 0 then retM (-1, results, out)
      else if amount = 0 then retM (0, results, out)
      else
        bindM (for_inM coins (\<lambda>coin (last_count, results, out).
          bindM (charge_from_min (amount - coin) results out) (\<lambda>(new_count, results, out).
          if new_count = -1 then retM (last_count, results, out)
          else if new_count < last_count then
            let out = out @ ''new count is less than last count, last: '' @ fmt_d last_count @
                  '', new: '' @ fmt_d new_count @ '', coin: '' @ fmt_d coin @ endl;
                (results, out) =
                  (if results \<noteq> [] \<and> last_count \<noteq> INT_MAX
                   then (butlast results, out @ ''pop elem: '' @ fmt_d (last results) @ '', '')
                   else (results, out))
            in bindM (Some (chk (new_count + 1))) (\<lambda>last_count.
               retM (last_count, results @ [coin], out @ ''new elem: '' @ fmt_d coin @ endl))
          else retM (last_count, results, out))) (INT_MAX, results, out)) (\<lambda>(last_count, results, out).
        retM (if last_count \<noteq> INT_MAX then last_count else -1, results, out)))"

definition test_charge_from_min :: "int list \<times> string \<Rightarrow> (int list \<times> string) may" where
  "test_charge_from_min = (\<lambda>(results, out).
     bindM (charge_from_min 8 [] out) (\<lambda>(success, results, out).
     retM (results, out @ ''test_charge_from_min number is 8, '' @ print_vec_helper results)))"

definition coins_main :: "(int list \<times> string) may" where
  "coins_main = bindM (test_charge_once ([], [])) test_charge_from_min"

section \<open>\<open>coin.cc\<close>\<close>

partial_function (option) col :: "int \<Rightarrow> int list \<Rightarrow> int may" where
  "col amount vec =
     (if amount < 0 then retM (-1)
      else if amount = 0 then retM 0
      else
        bindM (for_inM vec (\<lambda>elem cnt.
          bindM (Some (chk (amount - elem))) (\<lambda>rest.
          bindM (col rest vec) (\<lambda>coin.
          if coin < 0 then retM cnt
          else bindM (Some (chk (coin + 1))) (\<lambda>c. retM (min cnt c))))) INT_MAX) (\<lambda>cnt.
        retM (if cnt = INT_MAX then -1 else cnt)))"

text \<open>The loop runs to the size of the table, and the result is read behind its end.\<close>

definition col_dp :: "int \<Rightarrow> int list \<Rightarrow> fault + int" where
  "col_dp amount vec =
     bindE (chk (amount + 1)) (\<lambda>n.
     bindE (new_vec n INT_MAX) (\<lambda>dp.
     bindE (aset dp 0 0) (\<lambda>dp.
     bindE (for_up 1 (int (length dp) + 1) (\<lambda>index. for_in vec (\<lambda>elem dp.
       bindE (chk (index - elem)) (\<lambda>d.
       if d < 0 then Inr dp
       else
         bindE (aget dp index) (\<lambda>a.
         bindE (aget dp d) (\<lambda>b.
         bindE (chk (b + 1)) (\<lambda>s.
         aset dp index (min a s))))))) dp) (\<lambda>dp.
     aget dp (amount + 1)))))"

definition coin_main :: "fault + int" where
  "coin_main = bindE (col_dp 11 [1, 2, 5]) (\<lambda>r. Inr 0)"

section \<open>Fibonacci numbers\<close>

definition fb :: "int \<Rightarrow> fault + int" where
  "fb pos =
     (if pos = 0 then Inr 0
      else if pos = 1 \<or> pos = 2 then Inr 1
      else
        bindE (chk (pos + 1)) (\<lambda>n.
        bindE (new_vec n 1) (\<lambda>vec.
        bindE (for_up 3 (pos + 1) (\<lambda>index vec.
          bindE (aget vec (index - 1)) (\<lambda>a. bindE (aget vec (index - 2)) (\<lambda>b.
          bindE (chk (a + b)) (aset vec index)))) vec) (\<lambda>vec.
        aget vec pos))))"

definition fb_main :: "fault + string" where
  "fb_main = bindE (fb 6) (\<lambda>r. Inr (fmt_d r @ endl))"

text \<open>
  The static vector is made in the first call, with the size that call needs; \<open>None\<close> stands for
  the vector before it. \<open>fib_call\<close> is the rest of the function; its operands are taken from left
  to right.
\<close>

definition static_vec :: "int list option \<Rightarrow> int \<Rightarrow> fault + int list" where
  "static_vec st cnt = (case st of None \<Rightarrow> bindE (chk (cnt + 1)) (\<lambda>n. new_vec n 0) | Some vec \<Rightarrow> Inr vec)"

partial_function (option) fib_call :: "int \<Rightarrow> int list \<times> string \<Rightarrow> (int \<times> int list \<times> string) may" where
  "fib_call cnt st =
     (if cnt = 0 then retM (0, st)
      else if cnt = 1 \<or> cnt = 2 then retM (1, st)
      else
        bindM (Some (if size_t cnt \<le> int (length (fst st)) then aget (fst st) cnt else Inr 0)) (\<lambda>v.
        if v \<noteq> 0 then
          retM (v, fst st, snd st @ ''reuse vec, index: '' @ fmt_d cnt @ '', value: '' @ fmt_d v @ endl)
        else
          bindM (Some (chk (cnt - 1))) (\<lambda>c1. bindM (fib_call c1 st) (\<lambda>(x, st).
          bindM (Some (chk (cnt - 2))) (\<lambda>c2. bindM (fib_call c2 st) (\<lambda>(y, st).
          bindM (Some (chk (x + y))) (\<lambda>num.
          bindM (Some (aset (fst st) cnt num)) (\<lambda>vec.
          retM (num, vec, snd st)))))))))"

definition fibonacci_recursion :: "int \<Rightarrow> int list option \<Rightarrow> string \<Rightarrow> (int \<times> int list \<times> string) may" where
  "fibonacci_recursion cnt st out = bindM (Some (static_vec st cnt)) (\<lambda>vec. fib_call cnt (vec, out))"

definition fibonacci_cycle :: "int \<Rightarrow> int list option \<Rightarrow> fault + (int \<times> int list option)" where
  "fibonacci_cycle cnt st =
     (if cnt = 0 then Inr (0, st)
      else if cnt \<le> 2 then Inr (1, st)
      else
        bindE (static_vec st cnt) (\<lambda>vec.
        bindE (aset vec 2 1) (\<lambda>vec.
        bindE (aset vec 1 1) (\<lambda>vec.
        bindE (chk (cnt + 1)) (\<lambda>n.
        bindE (for_up 3 n (\<lambda>index vec.
          bindE (aget vec (index - 1)) (\<lambda>a. bindE (aget vec (index - 2)) (\<lambda>b.
          bindE (chk (a + b)) (aset vec index)))) vec) (\<lambda>vec.
        bindE (aget vec cnt) (\<lambda>r.
        Inr (r, Some vec))))))))"

definition fibonacci_main :: "string may" where
  "fibonacci_main =
     bindM (fibonacci_recursion 8 None []) (\<lambda>(result, vec, out).
     bindM (Some (fibonacci_cycle 8 None)) (\<lambda>(r, st).
     retM (out @ ''fibonacci_recursion result is '' @ fmt_d result @ endl @
           ''fibonacci_cycle result is '' @ fmt_d r @ endl)))"

section \<open>Unfinished programs\<close>

function strip_digits :: "int \<Rightarrow> int list \<Rightarrow> int \<times> int list" where
  "strip_digits lft storage =
     (if lft > 10 then strip_digits (lft div 10) (storage @ [lft mod 10]) else (lft, storage))"
  by auto

termination
  by (relation "measure (\<lambda>(lft, storage). nat lft)") auto

declare strip_digits.simps [simp del]

definition revert :: "int \<Rightarrow> fault + int" where
  "revert origin =
     (case strip_digits origin [] of (lft, storage) \<Rightarrow>
        bindE (for_in (rev storage) (\<lambda>digit r. chk (r + 10 * digit)) lft) (\<lambda>r.
        Inr 0))"

text \<open>\<open>std::bitset<8>\<close> of a text: the last of its first 8 characters is bit 0.\<close>

definition bitset8 :: "string \<Rightarrow> fault + bool list" where
  "bitset8 num =
     (if list_all (\<lambda>c. c = CHR ''0'' \<or> c = CHR ''1'') num
      then Inr (take 8 (rev (map (\<lambda>c. c = CHR ''1'') (take 8 num)) @ replicate 8 False))
      else Inl (Thrown ''bitset::_M_copy_from_ptr''))"

text \<open>The sum has no initial value, and other bases than 10 have no \<open>return\<close>.\<close>

definition convert_binary_to_dst :: "string \<Rightarrow> int \<Rightarrow> fault + int" where
  "convert_binary_to_dst num digtal =
     bindE (bitset8 num) (\<lambda>bit_num.
     if digtal = 10 then
       bindE (for_up 0 8 (\<lambda>index iresult.
         bindE (aget bit_num index) (\<lambda>b.
         case iresult of
           None \<Rightarrow> Inl UninitRead
         | Some r \<Rightarrow> bindE (chk (r + (if b then 2 ^ nat index else 0))) (\<lambda>r. Inr (Some r)))) None) (\<lambda>iresult.
       case iresult of None \<Rightarrow> Inl UninitRead | Some r \<Rightarrow> Inr r)
     else Inl MissingReturn)"

text \<open>\<open>has_cycle\<close> of \<^verbatim>\<open>cycle.cc\<close> and \<open>maxInWindows\<close> of \<^verbatim>\<open>Window.cc\<close> have empty bodies.\<close>

definition has_cycle :: "ptr \<Rightarrow> fault + bool" where
  "has_cycle node = Inl MissingReturn"

definition max_in_windows :: "int list \<Rightarrow> int \<Rightarrow> fault + int list" where
  "max_in_windows num sz = Inl MissingReturn"

declare charge_once.simps [code] charge_from_min.simps [code] col.simps [code] fib_call.simps [code]

end
