(* ===== verification/CoinClaims.thy ===== *)
theory CoinClaims
  imports Coins
begin

text \<open>
  Making change: \<^verbatim>\<open>Coins.cc\<close> and \<^verbatim>\<open>coin.cc\<close> find a way to pay, and the fewest coins, where all coins
  are above 0; what they do otherwise.
\<close>

section \<open>Ways to pay\<close>

definition pays :: "int list \<Rightarrow> int list \<Rightarrow> int \<Rightarrow> bool" where
  "pays cs xs a \<longleftrightarrow> set xs \<subseteq> set cs \<and> sum_list xs = a"

definition payable :: "int list \<Rightarrow> int \<Rightarrow> bool" where
  "payable cs a \<longleftrightarrow> (\<exists>xs. pays cs xs a)"

text \<open>The least number of coins, or -1; coins are positive numbers of type \<open>int\<close>.\<close>

definition fewest_coins :: "int list \<Rightarrow> int \<Rightarrow> int" where
  "fewest_coins cs a = (if payable cs a then int (LEAST k. \<exists>xs. pays cs xs a \<and> length xs = k) else -1)"

abbreviation positive :: "int list \<Rightarrow> bool" where
  "positive cs \<equiv> \<forall>c \<in> set cs. 0 < c \<and> c \<le> INT_MAX"

lemma pays_Nil: "pays cs [] a \<longleftrightarrow> a = 0"
  by (auto simp: pays_def)

lemma pays_Cons: "pays cs (x # xs) a \<longleftrightarrow> x \<in> set cs \<and> pays cs xs (a - x)"
  by (auto simp: pays_def)

lemma pays_length: "positive cs \<Longrightarrow> pays cs xs a \<Longrightarrow> int (length xs) \<le> a"
proof (induction xs arbitrary: a)
  case Nil
  then show ?case by (simp add: pays_Nil)
next
  case (Cons x xs)
  then show ?case using Cons.IH [of "a - x"] by (force simp: pays_Cons)
qed

lemma payable_step: "a \<noteq> 0 \<Longrightarrow> payable cs a \<longleftrightarrow> (\<exists>c \<in> set cs. payable cs (a - c))"
proof
  assume "a \<noteq> 0" "payable cs a"
  then obtain xs where "pays cs xs a" "xs \<noteq> []" unfolding payable_def using pays_Nil by blast
  then show "\<exists>c \<in> set cs. payable cs (a - c)" by (cases xs) (auto simp: payable_def pays_Cons)
next
  assume "\<exists>c \<in> set cs. payable cs (a - c)"
  then show "payable cs a" unfolding payable_def using pays_Cons by blast
qed

lemma payable_nonneg: "positive cs \<Longrightarrow> payable cs a \<Longrightarrow> 0 \<le> a"
  using pays_length by (fastforce simp: payable_def)

lemma fewest_coins_ex: "payable cs a \<Longrightarrow> \<exists>xs. pays cs xs a \<and> fewest_coins cs a = int (length xs)"
proof -
  let ?Q = "\<lambda>k. \<exists>xs. pays cs xs a \<and> length xs = k"
  assume p: "payable cs a"
  then have ex: "\<exists>k. ?Q k" by (auto simp: payable_def)
  show ?thesis using LeastI_ex [OF ex] p by (auto simp: fewest_coins_def)
qed

lemma fewest_coins_le:
  assumes "pays cs ys a"
  shows "fewest_coins cs a \<le> int (length ys)"
proof -
  have "(LEAST k. \<exists>xs. pays cs xs a \<and> length xs = k) \<le> length ys" using assms by (intro Least_le) blast
  moreover have "payable cs a" using assms by (auto simp: payable_def)
  ultimately show ?thesis by (simp add: fewest_coins_def)
qed

lemma fewest_nonneg: "payable cs a \<longleftrightarrow> 0 \<le> fewest_coins cs a" "fewest_coins cs a = -1 \<longleftrightarrow> \<not> payable cs a"
  by (auto simp: fewest_coins_def)

lemma fewest_0: "fewest_coins cs 0 = 0"
proof -
  have p: "pays cs [] 0" by (simp add: pays_Nil)
  then have "payable cs 0" by (auto simp: payable_def)
  then show ?thesis using fewest_coins_le [OF p] fewest_nonneg(1) [of cs 0] by simp
qed

lemma fewest_neg: "positive cs \<Longrightarrow> a < 0 \<Longrightarrow> fewest_coins cs a = -1"
  using payable_nonneg [of cs a] by (auto simp: fewest_coins_def)

lemma fewest_bound: "positive cs \<Longrightarrow> payable cs a \<Longrightarrow> fewest_coins cs a \<le> a"
  using fewest_coins_ex pays_length by fastforce

lemma fewest_le:
  assumes "c \<in> set cs" "payable cs (a - c)"
  shows "fewest_coins cs a \<le> fewest_coins cs (a - c) + 1"
proof -
  obtain xs where xs: "pays cs xs (a - c)" "fewest_coins cs (a - c) = int (length xs)"
    using fewest_coins_ex [OF assms(2)] by blast
  then show ?thesis using fewest_coins_le [of cs "c # xs" a] assms(1) by (simp add: pays_Cons)
qed

lemma fewest_attained:
  assumes "a \<noteq> 0" "payable cs a"
  shows "\<exists>c \<in> set cs. payable cs (a - c) \<and> fewest_coins cs a = fewest_coins cs (a - c) + 1"
proof -
  obtain xs where xs: "pays cs xs a" "fewest_coins cs a = int (length xs)"
    using fewest_coins_ex [OF assms(2)] by blast
  then obtain c ys where c: "xs = c # ys" using assms(1) by (cases xs) (auto simp: pays_Nil)
  then have in_cs: "c \<in> set cs" and p: "pays cs ys (a - c)" using xs(1) by (simp_all add: pays_Cons)
  then have pay: "payable cs (a - c)" by (auto simp: payable_def)
  have "fewest_coins cs (a - c) + 1 \<le> fewest_coins cs a" using fewest_coins_le [OF p] xs(2) c by simp
  then show ?thesis using in_cs pay fewest_le [OF in_cs pay] by (intro bexI [of _ c]) auto
qed

text \<open>The best count over the coins tried so far; \<open>INT_MAX\<close> is none.\<close>

definition best_over :: "int list \<Rightarrow> int \<Rightarrow> int list \<Rightarrow> int \<Rightarrow> bool" where
  "best_over cs a ys cnt \<longleftrightarrow>
     (\<forall>c \<in> set ys. payable cs (a - c) \<longrightarrow> cnt \<le> fewest_coins cs (a - c) + 1) \<and>
     (cnt = INT_MAX \<or> (\<exists>c \<in> set ys. payable cs (a - c) \<and> cnt = fewest_coins cs (a - c) + 1))"

lemma best_over_Nil: "best_over cs a [] INT_MAX"
  by (simp add: best_over_def)

lemma best_over_skip: "best_over cs a ys cnt \<Longrightarrow> \<not> payable cs (a - c) \<Longrightarrow> best_over cs a (ys @ [c]) cnt"
  by (auto simp: best_over_def)

lemma best_over_keep:
  "best_over cs a ys cnt \<Longrightarrow> cnt \<le> fewest_coins cs (a - c) + 1 \<Longrightarrow> best_over cs a (ys @ [c]) cnt"
  by (auto simp: best_over_def)

lemma best_over_take:
  "best_over cs a ys cnt \<Longrightarrow> payable cs (a - c) \<Longrightarrow> fewest_coins cs (a - c) + 1 \<le> cnt \<Longrightarrow>
    best_over cs a (ys @ [c]) (fewest_coins cs (a - c) + 1)"
  by (fastforce simp: best_over_def)

lemma best_over_all:
  assumes "best_over cs a cs cnt" "0 < a" "a < INT_MAX" "positive cs"
  shows "(if cnt = INT_MAX then -1 else cnt) = fewest_coins cs a"
proof (cases "payable cs a")
  case False
  then have "\<not> payable cs (a - c)" if "c \<in> set cs" for c
    using that assms(2) payable_step [of a cs] by auto
  then show ?thesis using assms(1) False by (auto simp: best_over_def fewest_coins_def)
next
  case True
  from fewest_attained [OF _ True] obtain c where
    c: "c \<in> set cs" "payable cs (a - c)" "fewest_coins cs a = fewest_coins cs (a - c) + 1"
    using assms(2) by auto
  have le: "cnt \<le> fewest_coins cs a" using assms(1) c by (auto simp: best_over_def)
  then have ne: "cnt \<noteq> INT_MAX" using fewest_bound [OF assms(4) True] assms(3) by auto
  then have "fewest_coins cs a \<le> cnt" using assms(1) fewest_le [of _ cs a] by (auto simp: best_over_def)
  then show ?thesis using le ne by simp
qed

section \<open>The recursions\<close>

lemma col_result:
  assumes "positive vec" "amount < INT_MAX"
  shows "col amount vec = retM (fewest_coins vec amount)"
  using assms(2)
proof (induction "nat amount" arbitrary: amount rule: less_induct)
  case less
  consider "amount < 0" | "amount = 0" | "0 < amount" by linarith
  then show ?case
  proof cases
    case 3
    let ?body = "\<lambda>elem cnt.
          bindM (Some (chk (amount - elem))) (\<lambda>rest.
          bindM (col rest vec) (\<lambda>coin.
          if coin < 0 then retM cnt
          else bindM (Some (chk (coin + 1))) (\<lambda>c. retM (min cnt c))))"
    have "ends (for_inM vec ?body INT_MAX) (best_over vec amount vec)"
    proof (rule for_inM_inv [where P = "best_over vec amount"])
      fix c ys cnt assume c: "c \<in> set vec" and P: "best_over vec amount ys cnt"
      have pos: "0 < c" using assms(1) c by simp
      have f: "fits (amount - c)"
        using less.prems 3 assms(1) c by (auto simp: fits_def INT_MIN_def INT_MAX_def dest!: bspec [of _ _ c])
      have rec: "col (amount - c) vec = retM (fewest_coins vec (amount - c))"
        using less.prems pos 3 by (intro less.hyps) auto
      show "ends (?body c cnt) (best_over vec amount (ys @ [c]))"
      proof (cases "payable vec (amount - c)")
        case False
        then show ?thesis using f rec best_over_skip [OF P] by (simp add: fewest_coins_def)
      next
        case pay: True
        have v: "0 \<le> fewest_coins vec (amount - c)" "fewest_coins vec (amount - c) \<le> amount - c"
          using pay fewest_nonneg fewest_bound [OF assms(1) pay] by auto
        then have "fits (fewest_coins vec (amount - c) + 1)"
          using less.prems pos by (simp add: fits_def INT_MIN_def)
        then show ?thesis using f rec v best_over_keep [OF P, of c] best_over_take [OF P pay]
          by (auto simp: min_def)
      qed
    qed (rule best_over_Nil)
    then obtain cnt where cnt: "for_inM vec ?body INT_MAX = retM cnt" "best_over vec amount vec cnt"
      by (auto simp: ends_def)
    show ?thesis
      using 3 cnt best_over_all [OF cnt(2) 3 less.prems assms(1)] by (subst col.simps) simp
  qed (subst col.simps, simp add: fewest_0 fewest_neg assms(1))+
qed

lemma coins_positive: "positive coins"
  by (simp add: coins_def INT_MAX_def)

lemma charge_from_min_result:
  assumes "amount < INT_MAX"
  shows "ends (charge_from_min amount results out) (\<lambda>(r, results, out). r = fewest_coins coins amount)"
  using assms
proof (induction "nat amount" arbitrary: amount results out rule: less_induct)
  case less
  consider "amount < 0" | "amount = 0" | "0 < amount" by linarith
  then show ?case
  proof cases
    case 3
    let ?body = "\<lambda>coin (last_count, results, out).
          bindM (charge_from_min (amount - coin) results out) (\<lambda>(new_count, results, out).
          if new_count = -1 then retM (last_count, results, out)
          else if new_count < last_count then
            let out = out @ ''new count is less than last count, last: '' @ fmt_d last_count @
                  '', new: '' @ fmt_d new_count @ '', coin: '' @ fmt_d coin @ endl;
                (results, out) =
                  (if results \<noteq> [] \<and> last_count \<noteq> INT_MAX
                   then (butlast results, out @ ''pop elem: '' @ fmt_d (last results) @ '', '')
                   else (results, out))
            in bindM (Some (chk (new_count + 1))) (\<lambda>last_count.
               retM (last_count, results @ [coin], out @ ''new elem: '' @ fmt_d coin @ endl))
          else retM (last_count, results, out))"
    have "ends (for_inM coins ?body (INT_MAX, results, out)) (\<lambda>(cnt, _). best_over coins amount coins cnt)"
    proof (rule for_inM_inv [where P = "\<lambda>ys (cnt, _). best_over coins amount ys cnt"])
      fix c ys and s :: "int \<times> int list \<times> string"
      assume c: "c \<in> set coins" and P': "case s of (cnt, _) \<Rightarrow> best_over coins amount ys cnt"
      obtain cnt rs o' where s: "s = (cnt, rs, o')" by (cases s)
      have P: "best_over coins amount ys cnt" using P' s by simp
      have pos: "0 < c" using coins_positive c by simp
      obtain rs1 o1 where rec: "charge_from_min (amount - c) rs o' = retM (fewest_coins coins (amount - c), rs1, o1)"
        using less.hyps [of "amount - c" rs o'] less.prems pos 3 by (auto simp: ends_def)
      show "ends (?body c s) (\<lambda>(cnt, _). best_over coins amount (ys @ [c]) cnt)"
      proof (cases "payable coins (amount - c)")
        case False
        then show ?thesis using rec s best_over_skip [OF P] by (simp add: fewest_coins_def)
      next
        case pay: True
        have v: "0 \<le> fewest_coins coins (amount - c)" "fewest_coins coins (amount - c) \<le> amount - c"
          using pay fewest_nonneg fewest_bound [OF coins_positive pay] by auto
        then have "fits (fewest_coins coins (amount - c) + 1)"
          using less.prems pos by (simp add: fits_def INT_MIN_def)
        then show ?thesis using s rec v best_over_keep [OF P, of c] best_over_take [OF P pay]
          by (auto simp: Let_def)
      qed
    qed (simp add: best_over_Nil)
    then obtain cnt rs o' where cnt: "for_inM coins ?body (INT_MAX, results, out) = retM (cnt, rs, o')"
      "best_over coins amount coins cnt" by (auto simp: ends_def)
    show ?thesis
      using 3 cnt(1) best_over_all [OF cnt(2) 3 less.prems coins_positive] by (subst charge_from_min.simps) (auto split: if_splits)
  qed (subst charge_from_min.simps, simp add: fewest_0 fewest_neg coins_positive)+
qed

text \<open>\<open>charge_once\<close>: the coins of a way to pay, or none.\<close>

definition once_ok :: "int \<Rightarrow> int list \<Rightarrow> int \<times> int list \<Rightarrow> bool" where
  "once_ok amount results = (\<lambda>(r, results').
     if payable coins amount then r = 0 \<and> (\<exists>new. results' = results @ new \<and> pays coins new amount)
     else r = -1 \<and> results' = results)"

lemma charge_once_result: "ends (charge_once amount results) (once_ok amount results)"
proof (induction "nat amount" arbitrary: amount results rule: less_induct)
  case less
  consider "amount < 0" | "amount = 0" | "0 < amount" by linarith
  then show ?case
  proof cases
    case 1
    then show ?thesis using payable_nonneg [OF coins_positive, of amount]
      by (subst charge_once.simps) (auto simp: once_ok_def)
  next
    case 2
    then have "payable coins amount" using pays_Nil [of coins] by (auto simp: payable_def)
    then show ?thesis using 2 pays_Nil [of coins] by (subst charge_once.simps) (simp add: once_ok_def)
  next
    case 3
    let ?body = "\<lambda>coin (left_amount, results).
          bindM (charge_once (amount - coin) results) (\<lambda>(left_amount, results).
          if left_amount = 0 then retM (Return (0, results @ [coin]))
          else retM (Next (left_amount, results)))"
    let ?P = "\<lambda>ys s. snd s = results \<and> (\<forall>c \<in> set ys. \<not> payable coins (amount - c)) \<and> (ys \<noteq> [] \<longrightarrow> fst s = -1)"
    have "ends (for_inR (rev coins) ?body (0, results)) (flow_ok (?P (rev coins)) (\<lambda>v. payable coins amount \<and> once_ok amount results v))"
    proof (rule for_inR_inv [where P = ?P])
      fix c ys and s :: "int \<times> int list"
      assume c: "c \<in> set (rev coins)" and P: "?P ys s"
      have pos: "0 < c" using coins_positive c by simp
      obtain r rs where rec: "charge_once (amount - c) results = retM (r, rs)" "once_ok (amount - c) results (r, rs)"
        using less.hyps [of "amount - c" results] pos 3 by (auto simp: ends_def)
      obtain l where s: "s = (l, results)" using P by (cases s) simp
      show "ends (?body c s) (flow_ok (?P (ys @ [c])) (\<lambda>v. payable coins amount \<and> once_ok amount results v))"
      proof (cases "payable coins (amount - c)")
        case True
        then obtain new where new: "r = 0" "rs = results @ new" "pays coins new (amount - c)"
          using rec(2) by (auto simp: once_ok_def)
        then have p: "pays coins (new @ [c]) amount" using c by (auto simp: pays_def)
        then have "payable coins amount" by (auto simp: payable_def)
        then show ?thesis using s rec(1) new p by (simp add: once_ok_def)
      next
        case False
        then show ?thesis using s rec P by (simp add: once_ok_def)
      qed
    qed simp
    then obtain f where f: "for_inR (rev coins) ?body (0, results) = retM f"
      "flow_ok (?P (rev coins)) (\<lambda>v. payable coins amount \<and> once_ok amount results v) f" by (auto simp: ends_def)
    have eq: "charge_once amount results = (case f of Next s \<Rightarrow> retM s | Return v \<Rightarrow> retM v)"
      using 3 f(1) by (subst charge_once.simps) simp
    show ?thesis
    proof (cases f)
      case (Next s)
      then have "?P (rev coins) s" using f(2) by simp
      moreover from this have "\<not> payable coins amount" using 3 payable_step [of amount coins] by simp
      moreover have "rev coins \<noteq> []" by (simp add: coins_def)
      ultimately show ?thesis using eq Next by (cases s) (simp add: once_ok_def)
    next
      case (Return v)
      then show ?thesis using eq f(2) by simp
    qed
  qed
qed

section \<open>Coins of no value, and the table\<close>

lemma zero_coin_loop:
  assumes "for_inM xs (\<lambda>elem cnt. bindM (Some (chk (amount - elem))) (\<lambda>rest. bindM (f rest)
      (\<lambda>coin. if coin < 0 then retM cnt else bindM (Some (chk (coin + 1))) (\<lambda>c. retM (min cnt c))))) cnt = Some z"
    and "0 < amount" "amount \<le> INT_MAX" "\<forall>x \<in> set xs. 0 \<le> x \<and> x \<le> INT_MAX" "0 \<in> set xs"
    and "\<And>a. f a \<noteq> None \<Longrightarrow> a \<le> INT_MAX \<Longrightarrow> a \<le> 0" "\<And>a y. f a = Some y \<Longrightarrow> a < 0 \<Longrightarrow> y = Inr (-1)" "\<And>y. f 0 = Some y \<Longrightarrow> y = Inr 0"
  shows False
  using assms(1,4,5)
proof (induction xs arbitrary: cnt)
  case Nil
  then show ?case by simp
next
  case (Cons x xs)
  have fit: "fits (amount - x)" "fits 1" using Cons.prems(2) assms(2,3) by (auto simp: fits_def INT_MIN_def INT_MAX_def)
  show ?case
  proof (cases "f (amount - x)")
    case None
    then show ?thesis using Cons.prems(1) fit by simp
  next
    case (Some y)
    then have le: "amount - x \<le> 0" using assms(3) assms(6) [of "amount - x"] Cons.prems(2) by simp
    then have "x \<noteq> 0" using assms(2) by simp
    then have mem: "0 \<in> set xs" using Cons.prems(3) by auto
    have y: "y = Inr (if amount - x < 0 then -1 else 0)"
      using Some le assms(7) [of "amount - x" y] assms(8) [of y] by (cases "amount = x") auto
    have "for_inM xs (\<lambda>elem cnt. bindM (Some (chk (amount - elem))) (\<lambda>rest. bindM (f rest)
      (\<lambda>coin. if coin < 0 then retM cnt else bindM (Some (chk (coin + 1))) (\<lambda>c. retM (min cnt c)))))
      (if amount - x < 0 then cnt else min cnt 1) = Some z"
      using Cons.prems(1) Some y fit by (simp split: if_splits)
    then show ?thesis using Cons.prems(2) mem by (intro Cons.IH) auto
  qed
qed

lemma col_zero_coin:
  assumes "0 < amount" "amount \<le> INT_MAX" "\<forall>x \<in> set vec. 0 \<le> x \<and> x \<le> INT_MAX" "0 \<in> set vec"
  shows "col amount vec = None"
proof (rule ccontr)
  assume "col amount vec \<noteq> None"
  then obtain r where r: "col amount vec = Some r" by blast
  let ?P = "\<lambda>(a :: int) v (z :: fault + int). (a < 0 \<longrightarrow> z = Inr (-1)) \<and> (a = 0 \<longrightarrow> z = Inr 0) \<and>
      \<not> (0 < a \<and> a \<le> INT_MAX \<and> (\<forall>x \<in> set v. 0 \<le> x \<and> x \<le> INT_MAX) \<and> 0 \<in> set v)"
  have "?P amount vec r"
  proof (rule col.raw_induct [where P = ?P, OF _ r])
    fix f :: "int \<Rightarrow> int list \<Rightarrow> int may" and a v z
    let ?body = "\<lambda>elem cnt. bindM (Some (chk (a - elem))) (\<lambda>rest. bindM (f rest v)
      (\<lambda>coin. if coin < 0 then retM cnt else bindM (Some (chk (coin + 1))) (\<lambda>c. retM (min cnt c))))"
    assume IH: "\<And>(a :: int) v z. f a v = Some z \<Longrightarrow> ?P a v z"
      and eq: "(if a < 0 then retM (-1) else if a = 0 then retM 0
        else bindM (for_inM v ?body INT_MAX) (\<lambda>cnt. retM (if cnt = INT_MAX then -1 else cnt))) = Some z"
    have False if h: "0 < a" "a \<le> INT_MAX" "\<forall>x \<in> set v. 0 \<le> x \<and> x \<le> INT_MAX" "0 \<in> set v"
    proof -
      obtain z' where z': "for_inM v ?body INT_MAX = Some z'"
        using eq h(1) by (cases "for_inM v ?body INT_MAX") auto
      show False
      proof (rule zero_coin_loop [where f = "\<lambda>rest. f rest v", OF z' h])
        show "b \<le> 0" if "f b v \<noteq> None" "b \<le> INT_MAX" for b using IH [of b v] that h(3,4) by auto
        show "y = Inr (-1)" if "f b v = Some y" "b < 0" for b y using IH [OF that(1)] that(2) by simp
        show "y = Inr 0" if "f 0 v = Some y" for y using IH [OF that] by simp
      qed
    qed
    then show "?P a v z" using eq by (auto split: if_splits)
  qed
  then show False using r assms by blast
qed

section \<open>Properties\<close>

text \<open>
  \<open>charge_once\<close> returns for every amount. It answers 0 and has added coins with just that sum when
  the amount can be paid, and answers -1 and has added nothing when it cannot.
\<close>

theorem charge_once_pays:
  "\<exists>r new. charge_once amount results = retM (r, results @ new) \<and>
     (if payable coins amount then r = 0 \<and> pays coins new amount else r = -1 \<and> new = [])"
  using charge_once_result [of amount results] by (auto simp: ends_def once_ok_def split: if_splits)

text \<open>
  C25: for coins above 0, \<open>charge_from_min\<close> of \<^verbatim>\<open>Coins.cc\<close> and \<open>col\<close> of \<^verbatim>\<open>coin.cc\<close> return, and both answer
  the least number of coins with that sum, or -1 when there is no way to pay.
\<close>

theorem change_with_fewest_coins:
  assumes "amount < INT_MAX" "\<forall>c \<in> set vec. 0 < c \<and> c \<le> INT_MAX"
  shows "(\<exists>results' out'. charge_from_min amount results out = retM (fewest_coins coins amount, results', out')) \<and>
    col amount vec = retM (fewest_coins vec amount)"
  using charge_from_min_result [OF assms(1), of results out] col_result [OF assms(2,1)]
  by (auto simp: ends_def)

theorem change_with_fewest_coins_witness:
  "(\<exists>results' out'. charge_from_min 8 [] [] = retM (fewest_coins coins 8, results', out')) \<and>
   col 11 [1, 2, 5] = retM (fewest_coins [1, 2, 5] 11)"
  using change_with_fewest_coins [of 8 "[1, 2, 5]" "[]" "[]"] change_with_fewest_coins [of 11 "[1, 2, 5]" "[]" "[]"]
  by (simp add: INT_MAX_def)

text \<open>
  with a coin of value 0 among the coins, \<open>col\<close> does not end for an amount above 0.\<close>

theorem col_zero_coin_never_ends:
  assumes "0 < amount" "amount \<le> INT_MAX" "\<forall>x \<in> set vec. 0 \<le> x \<and> x \<le> INT_MAX" "0 \<in> set vec"
  shows "col amount vec = None"
  by (rule col_zero_coin [OF assms])

theorem col_zero_coin_never_ends_witness: "col 11 [5, 0, 1] = None"
  by (rule col_zero_coin_never_ends) (simp_all add: INT_MAX_def)

text \<open>
  \<open>col_dp\<close> has no result for any input: it reads the table behind its end, if it comes so far.
  Its own \<open>main\<close> writes behind the end, in the loop.
\<close>

theorem col_dp_never_returns:
  "(\<exists>e. col_dp amount vec = Inl e) \<and> coin_main = Inl OutOfBounds"
proof
  show "\<exists>e. col_dp amount vec = Inl e"
  proof (rule ccontr)
    assume "\<not> (\<exists>e. col_dp amount vec = Inl e)"
    then obtain r where "col_dp amount vec = Inr r" by (cases "col_dp amount vec") auto
    then obtain n dp dp' dp'' where run: "chk (amount + 1) = Inr n" "new_vec n INT_MAX = Inr dp" "aset dp 0 0 = Inr dp'"
      "for_up 1 (int (length dp') + 1) (\<lambda>index. for_in vec (\<lambda>elem dp.
         bindE (chk (index - elem)) (\<lambda>d. if d < 0 then Inr dp else
           bindE (aget dp index) (\<lambda>a. bindE (aget dp d) (\<lambda>b. bindE (chk (b + 1)) (\<lambda>s.
           aset dp index (min a s))))))) dp' = Inr dp''"
      "aget dp'' (amount + 1) = Inr r"
      by (auto simp: col_dp_def bindE_eq_Inr)
    have "length dp'' = length dp'"
      using run(4)
    proof (rule for_up_keeps [where P = "\<lambda>d. length d = length dp'"])
      show "length t = length dp'" if "for_in vec (\<lambda>elem dp. bindE (chk (i - elem)) (\<lambda>d. if d < 0 then Inr dp else
           bindE (aget dp i) (\<lambda>a. bindE (aget dp d) (\<lambda>b. bindE (chk (b + 1)) (\<lambda>s.
           aset dp i (min a s)))))) s = Inr t" "length s = length dp'" for i s t
        using that(1) by (rule for_in_keeps [where P = "\<lambda>d. length d = length dp'"])
          (use that(2) in \<open>auto simp: bindE_eq_Inr aset_Inr split: if_splits\<close>)
    qed simp
    moreover have "int (length dp') = amount + 1"
      using run(1-3) by (auto simp: chk_Inr new_vec_def aset_Inr split: if_splits)
    ultimately show False using run(5) by (simp add: aget_Inr)
  qed
  show "coin_main = Inl OutOfBounds" by code_simp
qed

end
