(* ===== verification/FibClaims.thy ===== *)
theory FibClaims
  imports Coins
begin

text \<open>
  The three ways to compute Fibonacci numbers in \<^verbatim>\<open>fb.cc\<close> and \<^verbatim>\<open>Fibonacci.cc\<close>: up to which number they
  are right, and what the static vector does to a later call.
\<close>

section \<open>Fibonacci numbers\<close>

fun fib :: "nat \<Rightarrow> nat" where
  "fib 0 = 0"
| "fib (Suc 0) = 1"
| "fib (Suc (Suc n)) = fib (Suc n) + fib n"

fun fib_pair :: "nat \<Rightarrow> int \<times> int" where
  "fib_pair 0 = (0, 1)"
| "fib_pair (Suc n) = (case fib_pair n of (a, b) \<Rightarrow> (b, a + b))"

lemma fib_pair: "fib_pair n = (int (fib n), int (fib (Suc n)))"
  by (induction n) auto

lemma fib_46: "fib 46 = 1836311903" "fib 47 = 2971215073"
proof -
  have "fib_pair 46 = (1836311903, 2971215073)" by (simp add: numeral_eq_Suc)
  then have "int (fib 46) = 1836311903" "int (fib (Suc 46)) = 2971215073" unfolding fib_pair by blast+
  then show "fib 46 = 1836311903" "fib 47 = 2971215073" by simp_all
qed

lemma fib_mono: "m \<le> n \<Longrightarrow> fib m \<le> fib n"
proof (rule lift_Suc_mono_le [of fib])
  show "fib k \<le> fib (Suc k)" for k by (cases k) simp_all
qed

lemma fib_fits: "n \<le> 46 \<Longrightarrow> fits (int (fib n))"
  using fib_mono [of n 46] by (simp add: fits_def INT_MAX_def INT_MIN_def fib_46)

lemma fib_positive: "0 < n \<Longrightarrow> 0 < fib n"
  using fib_mono [of 1 n] by simp

lemma fib_int_step: "3 \<le> n \<Longrightarrow> int (fib (n - 1)) + int (fib (n - 2)) = int (fib n)"
  by (cases n rule: fib.cases) auto

section \<open>Filling the table upwards\<close>

text \<open>The entries from 1 up to \<open>k - 1\<close> are right; the others are as they were.\<close>

definition fib_rows :: "int list \<Rightarrow> nat \<Rightarrow> int list \<Rightarrow> bool" where
  "fib_rows vec0 k vec \<longleftrightarrow> length vec = length vec0 \<and> (\<forall>i. 0 < i \<longrightarrow> i < k \<longrightarrow> i < length vec \<longrightarrow> vec ! i = int (fib i))"

abbreviation fib_round :: "int \<Rightarrow> int list \<Rightarrow> fault + int list" where
  "fib_round \<equiv> \<lambda>index vec.
     bindE (aget vec (index - 1)) (\<lambda>a. bindE (aget vec (index - 2)) (\<lambda>b.
     bindE (chk (a + b)) (aset vec index)))"

lemma fib_round_run:
  assumes "fib_rows vec0 k vec" "3 \<le> k" "k \<le> length vec0"
  shows "fib_round (int k) vec = bindE (chk (int (fib k))) (aset vec (int k))"
proof -
  have "aget vec (int k - 1) = Inr (int (fib (k - 1)))" "aget vec (int k - 2) = Inr (int (fib (k - 2)))"
    using assms by (auto simp: fib_rows_def aget_def nat_diff_distrib)
  then show ?thesis using fib_int_step [OF assms(2)] by simp
qed

lemma fib_loop:
  assumes "fib_rows vec0 3 vec" "k \<le> 47" "3 \<le> k" "k \<le> length vec0"
  shows "runs (for_up 3 (int k) fib_round vec) (fib_rows vec0 k)"
proof -
  have "runs (for_up 3 (int k) fib_round vec) (\<lambda>vec. fib_rows vec0 (nat (int k)) vec)"
  proof (rule for_up_inv [where P = "\<lambda>i vec. fib_rows vec0 (nat i) vec"])
    fix i vec assume i: "3 \<le> i" "i < int k" and P: "fib_rows vec0 (nat i) vec"
    obtain j where j: "i = int j" "3 \<le> j" "j < k" using i by (metis nat_less_iff nat_0_le numeral_le_iff of_nat_less_iff of_nat_numeral of_nat_le_iff order_trans zero_le_numeral)
    have "fits (int (fib j))" using j assms(2) by (intro fib_fits) simp
    then have "fib_round i vec = Inr (vec[j := int (fib j)])"
      using fib_round_run [of vec0 j vec] P j assms(4) by (simp add: fib_rows_def aset_def)
    moreover have "fib_rows vec0 (nat (i + 1)) (vec[j := int (fib j)])"
      using P j assms(4) by (auto simp: fib_rows_def nat_add_distrib nth_list_update)
    ultimately show "runs (fib_round i vec) (\<lambda>vec. fib_rows vec0 (nat (i + 1)) vec)" by simp
  qed (use assms in simp_all)
  then show ?thesis by simp
qed

text \<open>The first number that is too large faults.\<close>

lemma for_up_append: "a \<le> b \<Longrightarrow> b \<le> n \<Longrightarrow> for_up a n body s = bindE (for_up a b body s) (for_up b n body)"
proof (induction "nat (b - a)" arbitrary: a s)
  case 0
  then show ?case by (simp add: for_up_empty)
next
  case (Suc m)
  then have less: "a < b" "a < n" by simp_all
  have "for_up (a + 1) n body = (\<lambda>s'. bindE (for_up (a + 1) b body s') (for_up b n body))"
    using Suc by (intro ext Suc(1)) auto
  then show ?case using less by (simp add: for_up.simps [of a n] for_up.simps [of a b] bindE_assoc)
qed

lemma fib_loop_overflow:
  assumes "fib_rows vec0 3 vec" "48 \<le> k" "k \<le> length vec0"
  shows "for_up 3 (int k) fib_round vec = Inl SignedOverflow"
proof -
  obtain vec' where v: "for_up 3 47 fib_round vec = Inr vec'" "fib_rows vec0 47 vec'"
    using fib_loop [OF assms(1), of 47] assms(2,3) by (auto simp: runs_def)
  have "\<not> fits (int (fib 47))" by (simp add: fits_def INT_MAX_def fib_46)
  then have "fib_round 47 vec' = Inl SignedOverflow"
    using fib_round_run [OF v(2)] assms(2,3) by (simp add: chk_def)
  then have "for_up 47 (int k) fib_round vec' = Inl SignedOverflow"
    using assms(2) by (simp add: for_up.simps [of 47])
  then show ?thesis using v(1) for_up_append [of 3 47 "int k" fib_round vec] assms(2) by simp
qed

lemma fb_result:
  assumes "n < 2 ^ 31 - 1"
  shows "fb (int n) = (if n \<le> 46 then Inr (int (fib n)) else Inl SignedOverflow)"
proof (cases "n < 3")
  case True
  then have "n = 0 \<or> n = 1 \<or> n = 2" by linarith
  then show ?thesis by (auto simp: fb_def numeral_2_eq_2)
next
  case False
  let ?v = "replicate (n + 1) (1 :: int)"
  have start: "fib_rows ?v 3 ?v"
  proof -
    have "fib i = 1" if "0 < i" "i < 3" for i
    proof -
      from that have "i = 1 \<or> i = 2" by linarith
      then show ?thesis by (auto simp: numeral_2_eq_2)
    qed
    then show ?thesis by (simp add: fib_rows_def del: replicate_add replicate.simps)
  qed
  have fit: "fits (int n + 1)" using assms by (simp add: fits_def INT_MAX_def INT_MIN_def)
  have vec: "new_vec (int n + 1) (1 :: int) = Inr ?v"
    by (simp add: new_vec_def nat_add_distrib)
  have unfold: "fb (int n) = bindE (for_up 3 (int (n + 1)) fib_round ?v) (\<lambda>vec. aget vec (int n))"
    using False fit vec by (simp add: fb_def add.commute del: replicate.simps)
  show ?thesis
  proof (cases "n \<le> 46")
    case True
    obtain v where v: "for_up 3 (int (n + 1)) fib_round ?v = Inr v" "fib_rows ?v (n + 1) v"
      using fib_loop [OF start, of "n + 1"] True False by (auto simp: runs_def)
    then show ?thesis using unfold True False by (auto simp: fib_rows_def)
  next
    case big: False
    then show ?thesis using unfold fib_loop_overflow [OF start, of "n + 1"] by simp
  qed
qed

section \<open>\<open>fibonacci_cycle\<close>\<close>

lemma fib_small: "0 < i \<Longrightarrow> i < 3 \<Longrightarrow> fib i = 1"
  by (cases i rule: fib.cases) (auto simp: less_Suc_eq numeral_3_eq_3)

lemma cycle_start:
  assumes "3 \<le> length vec"
  shows "fib_rows vec 3 (vec[2 := 1, 1 := 1])"
  using assms fib_small by (auto simp: fib_rows_def nth_list_update less_Suc_eq numeral_3_eq_3 numeral_2_eq_2)

lemma cycle_unfold:
  assumes "3 \<le> n" "n < 2 ^ 31 - 1" "static_vec st (int n) = Inr vec" "3 \<le> length vec"
  shows "fibonacci_cycle (int n) st =
    bindE (for_up 3 (int (n + 1)) fib_round (vec[2 := 1, 1 := 1])) (\<lambda>vec. bindE (aget vec (int n)) (\<lambda>r. Inr (r, Some vec)))"
proof -
  have "fits (int n + 1)" using assms(2) by (simp add: fits_def INT_MAX_def INT_MIN_def)
  then show ?thesis using assms by (simp add: fibonacci_cycle_def aset_def add.commute)
qed

lemma static_vec_first: "n < 2 ^ 31 - 1 \<Longrightarrow> static_vec None (int n) = Inr (replicate (n + 1) 0)"
  by (simp add: static_vec_def new_vec_def chk_def fits_def INT_MAX_def INT_MIN_def nat_add_distrib)

lemma cycle_result:
  assumes "n \<le> 46"
  shows "\<exists>st. fibonacci_cycle (int n) None = Inr (int (fib n), st)"
proof (cases "n < 3")
  case True
  then show ?thesis using fib_small [of n] by (cases "n = 0") (simp_all add: fibonacci_cycle_def)
next
  case False
  let ?v = "replicate (n + 1) (0 :: int)"
  have len: "3 \<le> length ?v" using False by simp
  obtain v where v: "for_up 3 (int (n + 1)) fib_round (?v[2 := 1, 1 := 1]) = Inr v" "fib_rows ?v (n + 1) v"
    using fib_loop [OF cycle_start [OF len], of "n + 1"] assms False by (auto simp: runs_def simp del: replicate.simps)
  have first: "static_vec None (int n) = Inr ?v" using assms by (intro static_vec_first) simp
  have "fibonacci_cycle (int n) None =
      bindE (for_up 3 (int (n + 1)) fib_round (?v[2 := 1, 1 := 1])) (\<lambda>vec. bindE (aget vec (int n)) (\<lambda>r. Inr (r, Some vec)))"
    using assms False by (intro cycle_unfold first len) auto
  also have "\<dots> = Inr (int (fib n), Some v)"
    using v False unfolding v(1) by (simp add: fib_rows_def)
  finally show ?thesis by blast
qed

lemma cycle_too_short:
  assumes "3 \<le> n" "n \<le> 46" "length vec \<le> n"
  shows "fibonacci_cycle (int n) (Some vec) = Inl OutOfBounds"
proof (cases "length vec < 3")
  case True
  have "\<not> int n \<le> 2" "int n \<noteq> 0" using assms(1) by auto
  then show ?thesis using True by (auto simp: fibonacci_cycle_def static_vec_def aset_def)
next
  case False
  let ?k = "length vec" and ?v = "vec[2 := 1, 1 := 1]"
  have start: "fib_rows vec 3 ?v" using False by (intro cycle_start) simp
  obtain v where v: "for_up 3 (int ?k) fib_round ?v = Inr v" "fib_rows vec ?k v"
    using fib_loop [OF start, of ?k] assms False by (auto simp: runs_def)
  have "fits (int (fib ?k))" using assms by (intro fib_fits) simp
  then have "fib_round (int ?k) v = Inl OutOfBounds"
    using fib_round_run [OF v(2)] v(2) False by (simp add: fib_rows_def aset_def)
  then have "for_up (int ?k) (int (n + 1)) fib_round v = Inl OutOfBounds"
    using assms(3) by (simp add: for_up.simps [of "int ?k"])
  then have "for_up 3 (int (n + 1)) fib_round ?v = Inl OutOfBounds"
    using v(1) for_up_append [of 3 "int ?k" "int (n + 1)" fib_round ?v] assms False by simp
  then show ?thesis
    using cycle_unfold [of n "Some vec" vec] assms False by (simp add: static_vec_def)
qed

section \<open>\<open>fibonacci_recursion\<close>\<close>

text \<open>The table with the entries from 3 to \<open>n\<close>, and the lines written on the way.\<close>

definition memo :: "nat \<Rightarrow> nat \<Rightarrow> int list" where
  "memo m n = map (\<lambda>i. if 3 \<le> i \<and> i \<le> n then int (fib i) else 0) [0..<m + 1]"

definition reuse_line :: "nat \<Rightarrow> string" where
  "reuse_line k = ''reuse vec, index: '' @ fmt_d (int k) @ '', value: '' @ fmt_d (int (fib k)) @ endl"

definition reuse_text :: "nat \<Rightarrow> string" where
  "reuse_text n = concat (map reuse_line [3..<n - 1])"

lemma memo_update: "3 \<le> n \<Longrightarrow> n \<le> m \<Longrightarrow> (memo m (n - 1))[n := int (fib n)] = memo m n"
  by (rule nth_equalityI) (auto simp: memo_def nth_list_update simp del: upt_Suc)

lemma memo_get: "k \<le> m \<Longrightarrow> aget (memo m n) (int k) = Inr (if 3 \<le> k \<and> k \<le> n then int (fib k) else 0)"
  by (simp add: memo_def aget_def del: upt_Suc)

lemma length_memo [simp]: "length (memo m n) = m + 1"
  by (simp add: memo_def)

lemma fib_call_low: "n \<le> 2 \<Longrightarrow> fib_call (int n) st = retM (int (fib n), st)"
  using fib_small [of n] by (subst fib_call.simps) (cases "n = 0", auto simp: le_Suc_eq numeral_2_eq_2)

lemma fib_call_memo:
  assumes "3 \<le> k" "k \<le> n" "n \<le> m" "m < 2 ^ 31"
  shows "fib_call (int k) (memo m n, out) = retM (int (fib k), memo m n, out @ reuse_line k)"
proof -
  have "size_t (int k) = int k" using assms by (intro size_t_nat) auto
  then show ?thesis
    using assms memo_get [of k m n] fib_positive [of k] by (subst fib_call.simps) (simp add: reuse_line_def)
qed

lemma fib_call_fresh:
  assumes "n \<le> m" "m \<le> 46"
  shows "fib_call (int n) (memo m 2, out) = retM (int (fib n), memo m (max 2 n), out @ reuse_text n)"
  using assms(1)
proof (induction n arbitrary: out rule: less_induct)
  case (less n)
  show ?case
  proof (cases "n \<le> 2")
    case True
    then show ?thesis by (simp add: fib_call_low reuse_text_def max_def)
  next
    case False
    then have n: "3 \<le> n" by simp
    have sz: "size_t (int n) = int n" using less.prems assms(2) by (intro size_t_nat) auto
    have fits: "fits (int n - 1)" "fits (int n - 2)" "fits (int (fib n))"
      using less.prems assms(2) fib_fits [of n] by (auto simp: fits_def INT_MAX_def INT_MIN_def)
    have c1: "fib_call (int n - 1) (memo m 2, out) =
        retM (int (fib (n - 1)), memo m (n - 1), out @ reuse_text (n - 1))"
      using less.IH [of "n - 1" out] less.prems n by (simp add: of_nat_diff max_absorb2)
    have c2: "fib_call (int n - 2) (memo m (n - 1), o') =
        retM (int (fib (n - 2)), memo m (n - 1), o' @ (if 5 \<le> n then reuse_line (n - 2) else []))" for o'
    proof (cases "5 \<le> n")
      case True
      then show ?thesis using fib_call_memo [of "n - 2" "n - 1" m o'] less.prems assms(2) by (simp add: of_nat_diff)
    next
      case False
      then show ?thesis using fib_call_low [of "n - 2"] n by (simp add: of_nat_diff)
    qed
    have "[3..<n - 1] = (if 5 \<le> n then [3..<n - 1 - 1] @ [n - 2] else [3..<n - 1 - 1])"
      using n upt_Suc [of 3 "n - 2"] by (auto simp: numeral_eq_Suc Suc_diff_Suc)
    then have lines: "reuse_text n = reuse_text (n - 1) @ (if 5 \<le> n then reuse_line (n - 2) else [])"
      by (simp add: reuse_text_def)
    have upd: "aset (memo m (n - 1)) (int n) (int (fib n)) = Inr (memo m n)"
      using memo_update [OF n less.prems] less.prems by (simp add: aset_def)
    show ?thesis
      using n less.prems sz fits c1 c2 lines upd memo_get [of n m 2] fib_int_step [OF n]
      by (subst fib_call.simps) (simp add: max_def)
  qed
qed

lemma fib_call_too_short:
  assumes "3 \<le> n" "n < 2 ^ 31" "length vec \<le> n"
  shows "fib_call (int n) (vec, out) = Some (Inl OutOfBounds)"
  using assms
proof (induction n)
  case 0
  then show ?case by simp
next
  case (Suc n)
  have sz: "size_t (int (Suc n)) = int (Suc n)" using Suc.prems by (intro size_t_nat) auto
  have fits: "fits (int (Suc n) - 1)" "fits (int (Suc n) - 2)" "fits 2"
    using Suc.prems by (auto simp: fits_def INT_MAX_def INT_MIN_def)
  consider "length vec = Suc n" | "length vec \<le> n" "3 \<le> n" | "length vec \<le> n" "n = 2" using Suc.prems by linarith
  then show ?case
  proof cases
    case 1
    then show ?thesis using Suc.prems sz by (subst fib_call.simps) (simp add: aget_def)
  next
    case 2
    then show ?thesis using Suc sz fits by (subst fib_call.simps) simp
  next
    case 3
    then show ?thesis using sz fits fib_call_low [of 2 "(vec, out)"] fib_call_low [of 1 "(vec, out)"]
      by (subst fib_call.simps) (simp add: aset_def numeral_2_eq_2)
  qed
qed

section \<open>Properties\<close>

text \<open>
  up to 46 the three functions, called for the first time, return the Fibonacci number; the
  recursion writes a line for each number it takes from its vector.
\<close>

theorem fibonacci_functions_agree:
  assumes "n \<le> 46"
  shows "fb (int n) = Inr (int (fib n)) \<and>
    (\<exists>st. fibonacci_cycle (int n) None = Inr (int (fib n), st)) \<and>
    (\<exists>vec. fibonacci_recursion (int n) None out = retM (int (fib n), vec, out @ reuse_text n))"
proof (intro conjI)
  show "fb (int n) = Inr (int (fib n))" using fb_result [of n] assms by simp
  show "\<exists>st. fibonacci_cycle (int n) None = Inr (int (fib n), st)" by (rule cycle_result [OF assms])
  have "replicate (n + 1) 0 = memo n 2" by (rule nth_equalityI) (auto simp: memo_def simp del: upt_Suc replicate.simps)
  then show "\<exists>vec. fibonacci_recursion (int n) None out = retM (int (fib n), vec, out @ reuse_text n)"
    using fib_call_fresh [of n n out] static_vec_first [of n] assms by (simp add: fibonacci_recursion_def)
qed

theorem fibonacci_functions_agree_witness:
  "fb 6 = Inr 8 \<and> (\<exists>st. fibonacci_cycle 8 None = Inr (21, st)) \<and>
   (\<exists>vec. fibonacci_recursion 8 None [] = retM (21, vec, reuse_text 8))"
proof -
  have "fib 6 = 8" "fib 8 = 21" by (simp_all add: numeral_eq_Suc)
  then show ?thesis using fibonacci_functions_agree [of 6 "[]"] fibonacci_functions_agree [of 8 "[]"] by simp
qed

text \<open>
  the static vectors keep the size of the first call. A later call with a number from 3 on that
  does not lie in the vector accesses it out of bounds.
\<close>

theorem static_vector_keeps_size:
  assumes "3 \<le> n" "n \<le> 46" "length vec \<le> n"
  shows "fibonacci_recursion (int n) (Some vec) out = Some (Inl OutOfBounds) \<and>
    fibonacci_cycle (int n) (Some vec) = Inl OutOfBounds"
  using assms fib_call_too_short [of n vec out] cycle_too_short [of n vec]
  by (simp add: fibonacci_recursion_def static_vec_def)

theorem static_vector_keeps_size_witness:
  "fibonacci_recursion 5 (Some [0, 0, 0, 2]) [] = Some (Inl OutOfBounds) \<and>
   fibonacci_cycle 5 (Some [0, 1, 1, 2]) = Inl OutOfBounds"
  using static_vector_keeps_size [of 5 "[0, 0, 0, 2]" "[]"] static_vector_keeps_size [of 5 "[0, 1, 1, 2]" "[]"]
  by simp

end
