(* ===== verification/Windows.thy ===== *)
theory Windows
  imports CppLoops "HOL-Library.AList"
begin

text \<open>
  Sliding windows over a text: \<^verbatim>\<open>min_substr.cc\<close>, \<^verbatim>\<open>permutation.cc\<close>, \<^verbatim>\<open>xor_substr.cc\<close> and
  \<^verbatim>\<open>not_repeated_substr.cc\<close>. Texts are shorter than \<open>2 ^ 31\<close>.
\<close>

section \<open>Counters of characters\<close>

text \<open>
  \<open>std::unordered_map<char, int>\<close> as an association list: \<open>m.count(c)\<close>, \<open>m[c]\<close>, and \<open>m[c]\<close>
  changed by \<open>d\<close>, which enters a missing key with 0 first.
\<close>

type_synonym counter = "(char \<times> int) list"

definition has_key :: "counter \<Rightarrow> char \<Rightarrow> bool" where
  "has_key m c \<longleftrightarrow> map_of m c \<noteq> None"

definition mget :: "counter \<Rightarrow> char \<Rightarrow> int" where
  "mget m c = (case map_of m c of None \<Rightarrow> 0 | Some v \<Rightarrow> v)"

definition madd :: "counter \<Rightarrow> char \<Rightarrow> int \<Rightarrow> counter" where
  "madd m c d = AList.update c (mget m c + d) m"

text \<open>\<open>for (auto ch : target) need_map[ch]++;\<close>\<close>

definition needed :: "string \<Rightarrow> counter" where
  "needed target = fold (\<lambda>ch m. madd m ch 1) target []"

text \<open>The right end of the window takes a character in, and the left end lets one go.\<close>

definition take_in :: "counter \<Rightarrow> char \<Rightarrow> counter \<times> int \<Rightarrow> counter \<times> int" where
  "take_in need ch = (\<lambda>(window, valid).
     if has_key need ch then
       let window = madd window ch 1 in
       (window, if mget window ch = mget need ch then valid + 1 else valid)
     else (window, valid))"

definition let_go :: "counter \<Rightarrow> char \<Rightarrow> counter \<times> int \<Rightarrow> counter \<times> int" where
  "let_go need ch = (\<lambda>(window, valid).
     if has_key need ch then
       let window = madd window ch (-1) in
       (window, if mget window ch < mget need ch then valid - 1 else valid)
     else (window, valid))"

section \<open>The smallest window (\<^verbatim>\<open>min_substr.cc\<close>)\<close>

text \<open>
  The inner loop. The window holds only keys of the counter \<open>need\<close>, so that \<open>need_map[ch]\<close> enters
  no new key.
\<close>

function shrink :: "string \<Rightarrow> counter \<Rightarrow> int \<Rightarrow> int \<Rightarrow> counter \<Rightarrow> int \<Rightarrow> int \<Rightarrow> string \<Rightarrow>
    fault + (int \<times> counter \<times> int \<times> int \<times> string)" where
  "shrink source need rgt lft window valid min_count result =
     (if valid = int (length need) then
        bindE (sget source lft) (\<lambda>ch.
        if has_key window ch then
          let window = madd window ch (-1) in
          if mget window ch < mget need ch then
            let len = rgt - lft + 1 in
            if min_count > len then
              bindE (substr source lft len) (\<lambda>result.
              shrink source need rgt (lft + 1) window (valid - 1) len result)
            else shrink source need rgt (lft + 1) window (valid - 1) min_count result
          else shrink source need rgt (lft + 1) window valid min_count result
        else shrink source need rgt (lft + 1) window valid min_count result)
      else Inr (lft, window, valid, min_count, result))"
  by auto

termination
  by (relation "measure (\<lambda>(source, need, rgt, lft, window, valid, min_count, result).
        nat (int (length source) + 1 - lft))")
    (auto dest: sget_Inr)

declare shrink.simps [simp del]

definition slide_window :: "string \<Rightarrow> string \<Rightarrow> fault + string" where
  "slide_window source target =
     (let need = needed target in
      bindE (for_up 0 (int (length source)) (\<lambda>rgt (lft, window, valid, min_count, result).
        bindE (sget source rgt) (\<lambda>ch.
        case take_in need ch (window, valid) of (window, valid) \<Rightarrow>
        shrink source need rgt lft window valid min_count result))
        (0, [], 0, INT_MAX, [])) (\<lambda>(lft, window, valid, min_count, result).
      Inr result))"

definition min_substr_main :: "fault + string" where
  "min_substr_main = bindE (slide_window ''ADBECFEBANC'' ''ABC'') (\<lambda>r. Inr (r @ endl))"

section \<open>Permutations of a text (\<^verbatim>\<open>permutation.cc\<close>, \<^verbatim>\<open>xor_substr.cc\<close>)\<close>

text \<open>The comparison is one of \<open>size_t\<close>.\<close>

function slide_left :: "string \<Rightarrow> counter \<Rightarrow> int \<Rightarrow> int \<Rightarrow> int \<Rightarrow> counter \<times> int \<Rightarrow>
    fault + (int \<times> counter \<times> int)" where
  "slide_left source need width rgt lft wv =
     (if width \<le> size_t (rgt - lft) then
        bindE (sget source lft) (\<lambda>ch. slide_left source need width rgt (lft + 1) (let_go need ch wv))
      else Inr (lft, wv))"
  by auto

termination
  by (relation "measure (\<lambda>(source, need, width, rgt, lft, wv). nat (int (length source) + 1 - lft))")
    (auto dest: sget_Inr)

declare slide_left.simps [simp del]

definition has_permutation :: "string \<Rightarrow> string \<Rightarrow> fault + bool" where
  "has_permutation source target =
     (let need = needed target in
      endR (for_upR 0 (int (length source)) (\<lambda>rgt (lft, wv).
        bindE (sget source rgt) (\<lambda>ch.
        bindE (slide_left source need (int (length target)) rgt lft (take_in need ch wv)) (\<lambda>(lft, window, valid).
        Inr (if valid = int (length need) then Return True else Next (lft, window, valid)))))
        (0, [], 0)) (\<lambda>s.
      Inr False))"

definition permutation_main :: "fault + string" where
  "permutation_main =
     bindE (has_permutation ''helloworld'' ''drl'') (\<lambda>b.
     Inr ((if b then ''true'' else ''false'') @ endl))"

definition index_permutation :: "int list \<Rightarrow> string \<Rightarrow> string \<Rightarrow> fault + int list" where
  "index_permutation vec source target =
     (let need = needed target in
      bindE (for_up 0 (int (length source)) (\<lambda>rgt (lft, wv, vec).
        bindE (sget source rgt) (\<lambda>ch.
        let (window, valid) = take_in need ch wv in
        if size_t (rgt - lft + 1) = int (length target) then
          let vec = (if valid = int (length need) then vec @ [lft] else vec) in
          bindE (sget source lft) (\<lambda>ch. Inr (lft + 1, let_go need ch (window, valid), vec))
        else Inr (lft, (window, valid), vec)))
        (0, ([], 0), vec)) (\<lambda>(lft, wv, vec).
      Inr vec))"

definition xor_substr_main :: "fault + string" where
  "xor_substr_main =
     bindE (index_permutation [] ''cbaebabacd'' ''abc'') (\<lambda>begin_vec.
     Inr (concat (map (\<lambda>elem. fmt_d elem @ endl) begin_vec)))"

section \<open>Characters that do not repeat (\<^verbatim>\<open>not_repeated_substr.cc\<close>)\<close>

text \<open>The set is a list without an order that matters.\<close>

function skip_to :: "string \<Rightarrow> char \<Rightarrow> int \<Rightarrow> char list \<Rightarrow> fault + (int \<times> char list)" where
  "skip_to source ch lft repeat_set =
     bindE (sget source lft) (\<lambda>c.
     if c \<noteq> ch then skip_to source ch (lft + 1) (removeAll c repeat_set)
     else Inr (lft, repeat_set))"
  by auto

termination
  by (relation "measure (\<lambda>(source, ch, lft, repeat_set). nat (int (length source) + 1 - lft))")
    (auto dest: sget_Inr)

declare skip_to.simps [simp del]

definition max_not_repeat :: "string \<Rightarrow> fault + int" where
  "max_not_repeat source =
     bindE (for_up 0 (int (length source)) (\<lambda>rgt (lft, repeat_set, max_len).
       bindE (sget source rgt) (\<lambda>ch.
       if ch \<notin> set repeat_set then Inr (lft, ch # repeat_set, max_len)
       else
         bindE (skip_to source ch lft repeat_set) (\<lambda>(lft, repeat_set).
         Inr (lft + 1, repeat_set, max max_len (rgt - lft)))))
       (0, [], 1)) (\<lambda>(lft, repeat_set, max_len).
     Inr max_len)"

definition not_repeated_main :: "fault + string" where
  "not_repeated_main = bindE (max_not_repeat ''abcdefa'') (\<lambda>r. Inr (fmt_d r @ endl))"

end
