(* ===== verification/WindowProps.thy ===== *)
theory WindowProps
  imports Windows "HOL-Library.Sublist"
begin

text \<open>
  Counters as multisets, windows as parts of the text, and what the two ends of a window do to the
  counter and to the number of characters of which there are enough.
\<close>

section \<open>Counters\<close>

lemma mget_madd: "mget (madd m c d) x = (if x = c then mget m c + d else mget m x)"
  by (simp add: madd_def mget_def update_conv)

lemma has_key_madd: "has_key (madd m c d) x \<longleftrightarrow> x = c \<or> has_key m x"
  by (simp add: madd_def has_key_def update_conv)

lemma keys_madd: "distinct (map fst m) \<Longrightarrow> distinct (map fst (madd m c d))"
  by (simp add: madd_def distinct_update)

lemma needed_snoc: "needed (t @ [c]) = madd (needed t) c 1"
  by (simp add: needed_def)

lemma mget_needed: "mget (needed t) c = int (count (mset t) c)"
proof (induction t rule: rev_induct)
  case Nil
  then show ?case by (simp add: needed_def mget_def)
next
  case (snoc x t)
  then show ?case by (auto simp: needed_snoc mget_madd)
qed

lemma has_key_needed: "has_key (needed t) c \<longleftrightarrow> c \<in> set t"
proof (induction t rule: rev_induct)
  case Nil
  then show ?case by (simp add: needed_def has_key_def)
next
  case (snoc x t)
  then show ?case by (auto simp: needed_snoc has_key_madd)
qed

lemma length_needed: "length (needed t) = card (set t)"
proof -
  have "distinct (map fst (needed t))"
    by (induction t rule: rev_induct) (simp_all add: needed_snoc keys_madd, simp add: needed_def)
  then have "length (needed t) = card (fst ` set (needed t))" by (metis distinct_card length_map list.set_map)
  moreover have "fst ` set (needed t) = set t"
    using has_key_needed [of t] by (force simp: has_key_def map_of_eq_None_iff)
  ultimately show ?thesis by simp
qed

section \<open>Enough of each character\<close>

definition enough :: "string \<Rightarrow> string \<Rightarrow> char set" where
  "enough t w = {c \<in> set t. count (mset t) c \<le> count (mset w) c}"

definition covers :: "string \<Rightarrow> string \<Rightarrow> bool" where
  "covers t w \<longleftrightarrow> mset t \<subseteq># mset w"

lemma enough_finite [simp]: "finite (enough t w)"
  by (simp add: enough_def)

lemma covers_enough: "covers t w \<longleftrightarrow> enough t w = set t"
proof
  assume "covers t w"
  then show "enough t w = set t" by (auto simp: covers_def enough_def mset_subset_eq_count)
next
  assume "enough t w = set t"
  then have "count (mset t) c \<le> count (mset w) c" if "c \<in> set t" for c using that by (auto simp: enough_def)
  then have "count (mset t) c \<le> count (mset w) c" for c
    by (cases "c \<in> set t") (auto simp: count_eq_zero_iff [THEN iffD2])
  then show "covers t w" by (simp add: covers_def mset_subset_eqI)
qed

lemma covers_card: "covers t w \<longleftrightarrow> card (enough t w) = card (set t)"
proof -
  have "enough t w \<subseteq> set t" by (auto simp: enough_def)
  then show ?thesis unfolding covers_enough by (metis List.finite_set card_subset_eq)
qed

lemma enough_card_le: "card (enough t w) \<le> card (set t)"
  by (rule card_mono) (auto simp: enough_def)

lemma covers_same_length: "covers t w \<Longrightarrow> length w \<le> length t \<Longrightarrow> mset w = mset t"
  by (metis covers_def size_mset mset_subset_eqD mset_subset_size not_le subset_mset.le_imp_less_or_eq)

lemma covers_longer: "covers t w \<Longrightarrow> length t \<le> length w"
  unfolding covers_def by (metis size_mset size_mset_mono)

lemma enough_in:
  "enough t (w @ [c]) = (if c \<in> set t \<and> count (mset t) c = count (mset w) c + 1 then insert c (enough t w) else enough t w)"
  by (auto simp: enough_def)

lemma enough_in_new: "c \<in> set t \<Longrightarrow> count (mset t) c = count (mset w) c + 1 \<Longrightarrow> c \<notin> enough t w"
  by (auto simp: enough_def)

lemma enough_out:
  "enough t w = (if c \<in> set t \<and> count (mset t) c = count (mset (c # w)) c then enough t (c # w) - {c} else enough t (c # w))"
  by (auto simp: enough_def split: if_splits)

text \<open>
  The counter holds the numbers of the window. In general \<open>valid\<close> is at most the number of characters
  of which there are enough; with one of each kind needed it is that number.
\<close>

definition win_ok :: "string \<Rightarrow> counter \<times> int \<Rightarrow> string \<Rightarrow> bool" where
  "win_ok t wv w \<longleftrightarrow>
     (\<forall>c \<in> set t. mget (fst wv) c = int (count (mset w) c)) \<and>
     snd wv \<le> int (card (enough t w)) \<and> (distinct t \<longrightarrow> snd wv = int (card (enough t w)))"

lemma win_ok_start: "t \<noteq> [] \<Longrightarrow> win_ok t ([], 0) []"
  by (simp add: win_ok_def mget_def enough_def)

lemma take_in_ok:
  assumes "win_ok t wv w"
  shows "win_ok t (take_in (needed t) c wv) (w @ [c])"
proof -
  obtain window valid where wv: "wv = (window, valid)" by (cases wv)
  have counts: "mget window x = int (count (mset w) x)" if "x \<in> set t" for x
    using assms that wv by (simp add: win_ok_def)
  show ?thesis
  proof (cases "c \<in> set t")
    case False
    then have "enough t (w @ [c]) = enough t w" by (auto simp: enough_def)
    then show ?thesis using assms False by (auto simp: wv win_ok_def take_in_def has_key_needed)
  next
    case True
    have new: "mget (madd window c 1) x = int (count (mset (w @ [c])) x)" if "x \<in> set t" for x
      using counts [OF that] by (auto simp: mget_madd)
    have hit: "mget (madd window c 1) c = mget (needed t) c \<longleftrightarrow> count (mset t) c = count (mset w) c + 1"
      using new [OF True] by (auto simp: mget_needed)
    have "int (card (enough t (w @ [c]))) = int (card (enough t w)) + (if mget (madd window c 1) c = mget (needed t) c then 1 else 0)"
      unfolding hit enough_in using True enough_in_new [OF True] by auto
    then show ?thesis using assms True new by (auto simp: wv win_ok_def take_in_def has_key_needed Let_def)
  qed
qed

lemma let_go_ok:
  assumes "win_ok t wv (c # w)"
  shows "win_ok t (let_go (needed t) c wv) w"
proof -
  obtain window valid where wv: "wv = (window, valid)" by (cases wv)
  have counts: "mget window x = int (count (mset (c # w)) x)" if "x \<in> set t" for x
    using assms that wv by (simp add: win_ok_def)
  show ?thesis
  proof (cases "c \<in> set t")
    case False
    then have "enough t (c # w) = enough t w" by (auto simp: enough_def)
    then show ?thesis using assms False by (auto simp: wv win_ok_def let_go_def has_key_needed)
  next
    case True
    have new: "mget (madd window c (-1)) x = int (count (mset w) x)" if "x \<in> set t" for x
      using counts [OF that] by (auto simp: mget_madd)
    have less: "mget (madd window c (-1)) c < mget (needed t) c \<longleftrightarrow> count (mset w) c < count (mset t) c"
      using new [OF True] by (simp add: mget_needed)
    consider (lost) "count (mset t) c = count (mset w) c + 1" | (kept) "count (mset t) c \<le> count (mset w) c"
      | (low) "count (mset w) c + 1 < count (mset t) c" by linarith
    then show ?thesis
    proof cases
      case lost
      then have "c \<in> enough t (c # w)" "enough t w = enough t (c # w) - {c}"
        using True enough_out [of t w c] by (auto simp: enough_def)
      then have "Suc (card (enough t w)) = card (enough t (c # w))" by (simp add: card_Suc_Diff1 del: card_Diff_insert)
      then have "int (card (enough t w)) = int (card (enough t (c # w))) - 1" by simp
      then show ?thesis using assms True new less lost by (auto simp: wv win_ok_def let_go_def has_key_needed Let_def)
    next
      case kept
      then have "enough t w = enough t (c # w)" using enough_out [of t w c] by simp
      then show ?thesis using assms True new less kept by (auto simp: wv win_ok_def let_go_def has_key_needed Let_def)
    next
      case low
      then have "\<not> distinct t" by (metis distinct_count_atmost_1 Suc_eq_plus1 True less_nat_zero_code less_one not_less_eq)
      have "enough t w = enough t (c # w)" using low enough_out [of t w c] by simp
      then show ?thesis using assms True new less low \<open>\<not> distinct t\<close> by (auto simp: wv win_ok_def let_go_def has_key_needed Let_def)
    qed
  qed
qed

section \<open>Parts of a text\<close>

definition part :: "string \<Rightarrow> nat \<Rightarrow> nat \<Rightarrow> string" where
  "part s i j = take (j - i) (drop i s)"

lemma part_empty [simp]: "part s i i = []"
  by (simp add: part_def)

lemma part_snoc: "i \<le> j \<Longrightarrow> j < length s \<Longrightarrow> part s i (Suc j) = part s i j @ [s ! j]"
  by (simp add: part_def Suc_diff_le take_Suc_conv_app_nth)

lemma part_Cons: "i < j \<Longrightarrow> j \<le> length s \<Longrightarrow> part s i j = s ! i # part s (Suc i) j"
  by (simp add: part_def Suc_diff_Suc [symmetric] Cons_nth_drop_Suc [symmetric])

lemma length_part: "j \<le> length s \<Longrightarrow> length (part s i j) = j - i"
  by (simp add: part_def)

lemma sublist_part: "sublist w s \<longleftrightarrow> (\<exists>i j. i \<le> j \<and> j \<le> length s \<and> w = part s i j)"
proof
  assume "sublist w s"
  then obtain xs ys where "s = xs @ w @ ys" by (auto simp: sublist_def)
  then show "\<exists>i j. i \<le> j \<and> j \<le> length s \<and> w = part s i j"
    by (intro exI [of _ "length xs"] exI [of _ "length xs + length w"]) (simp add: part_def)
next
  assume "\<exists>i j. i \<le> j \<and> j \<le> length s \<and> w = part s i j"
  then show "sublist w s" unfolding part_def by (metis append_take_drop_id sublist_def)
qed

end
