(* ===== verification/WindowClaims.thy ===== *)
theory WindowClaims
  imports WindowProps
begin

text \<open>
  What the sliding windows find: permutations of a text (\<^verbatim>\<open>permutation.cc\<close>, \<^verbatim>\<open>xor_substr.cc\<close>), the
  smallest part with all characters (\<^verbatim>\<open>min_substr.cc\<close>), parts without repetition
  (\<^verbatim>\<open>not_repeated_substr.cc\<close>).
\<close>

section \<open>Permutations\<close>

lemma slide_left_run:
  assumes "t \<noteq> []" "l \<le> r" "r < length s" "r - l \<le> length t" "length s < 2 ^ 31"
    and ok: "win_ok t wv (part s l (Suc r))"
  shows "\<exists>wv'. slide_left s (needed t) (int (length t)) (int r) (int l) wv =
      Inr (int (if r - l = length t then Suc l else l), wv') \<and>
    win_ok t wv' (part s (if r - l = length t then Suc l else l) (Suc r))"
proof -
  have sz: "size_t (int r - int k) = int (r - k)" if "k \<le> r" for k
    using that assms(3,5) by (simp add: size_t_nat of_nat_diff)
  show ?thesis
  proof (cases "r - l = length t")
    case False
    then have "\<not> int (length t) \<le> size_t (int r - int l)" using assms(2,4) sz [of l] by simp
    then show ?thesis using False ok by (simp add: slide_left.simps [of _ _ _ _ "int l"])
  next
    case True
    have lt: "l < r" using True assms(1,2) by (cases "l = r") auto
    have ch: "sget s (int l) = Inr (s ! l)" using lt assms(3) by simp
    have ok': "win_ok t (let_go (needed t) (s ! l) wv) (part s (Suc l) (Suc r))"
      using ok part_Cons [of l "Suc r" s] lt assms(3) by (intro let_go_ok) simp
    have "int (length t) \<le> size_t (int r - int l)" using sz [of l] lt True by simp
    moreover have "\<not> int (length t) \<le> size_t (int r - (int l + 1))" using sz [of "Suc l"] lt True by (simp add: algebra_simps)
    ultimately show ?thesis using True ch ok'
      by (simp add: slide_left.simps [of _ _ _ _ "int l"] slide_left.simps [of _ _ _ _ "int l + 1"])
  qed
qed

definition occurs :: "string \<Rightarrow> string \<Rightarrow> bool" where
  "occurs s t \<longleftrightarrow> (\<exists>w. sublist w s \<and> mset w = mset t)"

lemma occurs_iff: "occurs s t \<longleftrightarrow> (\<exists>j. length t \<le> j \<and> j \<le> length s \<and> mset (part s (j - length t) j) = mset t)"
proof
  assume "occurs s t"
  then obtain i j where ij: "i \<le> j" "j \<le> length s" "mset (part s i j) = mset t"
    by (auto simp: occurs_def sublist_part)
  then have "length t = j - i" using length_part [of j s i] by (metis size_mset)
  then show "\<exists>j. length t \<le> j \<and> j \<le> length s \<and> mset (part s (j - length t) j) = mset t"
    using ij by (intro exI [of _ j]) simp
next
  assume "\<exists>j. length t \<le> j \<and> j \<le> length s \<and> mset (part s (j - length t) j) = mset t"
  then show "occurs s t" unfolding occurs_def sublist_part by (metis diff_le_self)
qed

abbreviation perm_body :: "string \<Rightarrow> string \<Rightarrow> int \<Rightarrow> int \<times> counter \<times> int \<Rightarrow> fault + (int \<times> counter \<times> int, bool) flow" where
  "perm_body s t \<equiv> \<lambda>rgt (lft, wv).
        bindE (sget s rgt) (\<lambda>ch.
        bindE (slide_left s (needed t) (int (length t)) rgt lft (take_in (needed t) ch wv)) (\<lambda>(lft, window, valid).
        Inr (if valid = int (length (needed t)) then Return True else Next (lft, window, valid))))"

definition perm_inv :: "string \<Rightarrow> string \<Rightarrow> nat \<Rightarrow> int \<times> counter \<times> int \<Rightarrow> bool" where
  "perm_inv s t i = (\<lambda>(lft, wv).
     lft = int (i - length t) \<and> win_ok t wv (part s (i - length t) i) \<and>
     (distinct t \<longrightarrow> (\<forall>j \<le> i. length t \<le> j \<longrightarrow> mset (part s (j - length t) j) \<noteq> mset t)))"

lemma perm_round:
  assumes "t \<noteq> []" "length s < 2 ^ 31" "i < length s" "perm_inv s t i st"
  shows "runs (perm_body s t (int i) st) (flow_ok (perm_inv s t (Suc i)) (\<lambda>b. b \<and> occurs s t))"
proof -
  let ?n = "length t" and ?l = "i - length t"
  obtain wv where st: "st = (int ?l, wv)" and ok: "win_ok t wv (part s ?l i)"
    and none: "distinct t \<Longrightarrow> \<forall>j \<le> i. ?n \<le> j \<longrightarrow> mset (part s (j - ?n) j) \<noteq> mset t"
    using assms(4) by (cases st) (auto simp: perm_inv_def)
  have l: "(if i - ?l = ?n then Suc ?l else ?l) = Suc i - ?n" using assms(1) by (cases t) auto
  have ok1: "win_ok t (take_in (needed t) (s ! i) wv) (part s ?l (Suc i))"
    using take_in_ok [OF ok] part_snoc [of ?l i s] assms(3) by simp
  have gap: "i - ?l \<le> ?n" by arith
  obtain wv' where sl: "slide_left s (needed t) (int ?n) (int i) (int ?l) (take_in (needed t) (s ! i) wv) = Inr (int (Suc i - ?n), wv')"
    and ok2: "win_ok t wv' (part s (Suc i - ?n) (Suc i))"
    using slide_left_run [OF assms(1) diff_le_self assms(3) gap assms(2) ok1] unfolding l by auto
  obtain window valid where wv': "wv' = (window, valid)" by (cases wv')
  have len: "length (part s (Suc i - ?n) (Suc i)) \<le> ?n" using assms(3) by (simp add: length_part)
  have body: "perm_body s t (int i) st =
      Inr (if valid = int (card (set t)) then Return True else Next (int (Suc i - ?n), wv'))"
    using st sl assms(3) wv' by (simp add: length_needed)
  show ?thesis
  proof (cases "valid = int (card (set t))")
    case True
    then have "covers t (part s (Suc i - ?n) (Suc i))"
      using ok2 wv' enough_card_le [of t "part s (Suc i - ?n) (Suc i)"] by (simp add: win_ok_def covers_card)
    then have "mset (part s (Suc i - ?n) (Suc i)) = mset t" using len by (rule covers_same_length)
    then have "occurs s t" unfolding occurs_def sublist_part using assms(3) by (metis Suc_leI diff_le_self)
    then show ?thesis using body True by simp
  next
    case False
    have "mset (part s (Suc i - ?n) (Suc i)) \<noteq> mset t" if "distinct t"
    proof
      assume "mset (part s (Suc i - ?n) (Suc i)) = mset t"
      then have "covers t (part s (Suc i - ?n) (Suc i))" by (simp add: covers_def)
      then show False using False ok2 wv' that by (simp add: win_ok_def covers_card)
    qed
    then have "perm_inv s t (Suc i) (int (Suc i - ?n), wv')"
      using ok2 none by (auto simp: perm_inv_def le_Suc_eq)
    then show ?thesis using body False by simp
  qed
qed

lemma has_permutation_result:
  assumes "t \<noteq> []" "length s < 2 ^ 31"
  shows "\<exists>b. has_permutation s t = Inr b \<and> (b \<longrightarrow> occurs s t) \<and> (distinct t \<longrightarrow> b = occurs s t)"
proof -
  have "runs (for_upR 0 (int (length s)) (perm_body s t) (0, [], 0))
      (flow_ok (\<lambda>st. perm_inv s t (nat (int (length s))) st) (\<lambda>b. b \<and> occurs s t))"
  proof (rule for_upR_inv [where P = "\<lambda>i st. perm_inv s t (nat i) st"])
    show "perm_inv s t (nat 0) (0, [], 0)"
      using assms(1) win_ok_start [OF assms(1)] by (auto simp: perm_inv_def)
    show "runs (perm_body s t i st) (flow_ok (\<lambda>st. perm_inv s t (nat (i + 1)) st) (\<lambda>b. b \<and> occurs s t))"
      if "0 \<le> i" "i < int (length s)" "perm_inv s t (nat i) st" for i st
      using perm_round [OF assms, of "nat i" st] that by (simp add: nat_add_distrib)
  qed simp
  then obtain r where r: "for_upR 0 (int (length s)) (perm_body s t) (0, [], 0) = Inr r"
    "flow_ok (perm_inv s t (length s)) (\<lambda>b. b \<and> occurs s t) r" by (auto simp: runs_def)
  have eq: "has_permutation s t = endR (Inr r) (\<lambda>s. Inr False)"
    unfolding has_permutation_def Let_def r(1) [symmetric] ..
  show ?thesis
  proof (cases r)
    case (Return b)
    then show ?thesis using eq r(2) by (intro exI [of _ b]) simp
  next
    case (Next st)
    then have "distinct t \<longrightarrow> \<not> occurs s t" using r(2) by (auto simp: perm_inv_def occurs_iff split: prod.splits)
    then show ?thesis using eq Next by (intro exI [of _ False]) simp
  qed
qed

text \<open>The indices of \<^verbatim>\<open>xor_substr.cc\<close>.\<close>

abbreviation index_body :: "string \<Rightarrow> string \<Rightarrow> int \<Rightarrow> int \<times> (counter \<times> int) \<times> int list \<Rightarrow> fault + int \<times> (counter \<times> int) \<times> int list" where
  "index_body s t \<equiv> \<lambda>rgt (lft, wv, vec).
        bindE (sget s rgt) (\<lambda>ch.
        let (window, valid) = take_in (needed t) ch wv in
        if size_t (rgt - lft + 1) = int (length t) then
          let vec = (if valid = int (length (needed t)) then vec @ [lft] else vec) in
          bindE (sget s lft) (\<lambda>ch. Inr (lft + 1, let_go (needed t) ch (window, valid), vec))
        else Inr (lft, (window, valid), vec))"

definition starts :: "string \<Rightarrow> string \<Rightarrow> nat \<Rightarrow> int list" where
  "starts s t n = map int (filter (\<lambda>k. mset (part s k (k + length t)) = mset t) [0..<n])"

definition index_inv :: "string \<Rightarrow> string \<Rightarrow> int list \<Rightarrow> nat \<Rightarrow> int \<times> (counter \<times> int) \<times> int list \<Rightarrow> bool" where
  "index_inv s t vec0 i = (\<lambda>(lft, wv, vec).
     lft = int (i + 1 - length t) \<and> win_ok t wv (part s (i + 1 - length t) i) \<and>
     vec = vec0 @ starts s t (i + 1 - length t))"

lemma index_round:
  assumes "t \<noteq> []" "distinct t" "length s < 2 ^ 31" "i < length s" "index_inv s t vec0 i st"
  shows "runs (index_body s t (int i) st) (index_inv s t vec0 (Suc i))"
proof -
  let ?n = "length t"
  define l where "l = i + 1 - length t"
  obtain wv where st: "st = (int l, wv, vec0 @ starts s t l)" and ok: "win_ok t wv (part s l i)"
    using assms(5) by (cases st) (auto simp: index_inv_def l_def)
  have le: "l \<le> i" using assms(1) by (cases t) (auto simp: l_def)
  obtain window valid where tk: "take_in (needed t) (s ! i) wv = (window, valid)" by fastforce
  have ok1: "win_ok t (window, valid) (part s l (Suc i))"
    using take_in_ok [OF ok, of "s ! i"] part_snoc [OF le assms(4)] tk by simp
  have sz: "size_t (int i - int l + 1) = int (Suc i - l)"
    using le assms(3,4) by (simp add: size_t_nat of_nat_diff)
  show ?thesis
  proof (cases "?n \<le> Suc i")
    case False
    then have "index_body s t (int i) st = Inr (int l, (window, valid), vec0 @ starts s t l)"
      using st tk assms(4) sz False by (simp add: l_def)
    moreover have "Suc i + 1 - ?n = l" using False by (simp add: l_def)
    ultimately show ?thesis using ok1 by (simp add: index_inv_def)
  next
    case True
    then have n: "Suc i - l = ?n" "l + ?n = Suc i" "Suc i + 1 - ?n = Suc l" by (auto simp: l_def)
    have "valid = int (card (enough t (part s l (Suc i))))" using ok1 assms(2) by (simp add: win_ok_def)
    then have hit: "valid = int (length (needed t)) \<longleftrightarrow> mset (part s l (l + ?n)) = mset t"
      using covers_same_length [of t "part s l (Suc i)"] length_part [of "Suc i" s l] assms(4) n
      by (auto simp: length_needed covers_card [symmetric]) (simp add: covers_def)
    have body: "index_body s t (int i) st = Inr (int (Suc l), let_go (needed t) (s ! l) (window, valid),
        vec0 @ starts s t (Suc l))"
      using st tk assms(4) sz n(1) hit le by (simp add: starts_def)
    have "win_ok t (let_go (needed t) (s ! l) (window, valid)) (part s (Suc l) (Suc i))"
      using ok1 part_Cons [of l "Suc i" s] le assms(4) by (intro let_go_ok) simp
    then show ?thesis unfolding body index_inv_def using n(3) by simp
  qed
qed

lemma index_permutation_result:
  assumes "t \<noteq> []" "distinct t" "length s < 2 ^ 31"
  shows "index_permutation vec s t = Inr (vec @ starts s t (length s + 1 - length t))"
proof -
  have "runs (for_up 0 (int (length s)) (index_body s t) (0, ([], 0), vec)) (\<lambda>st. index_inv s t vec (nat (int (length s))) st)"
  proof (rule for_up_inv [where P = "\<lambda>i st. index_inv s t vec (nat i) st"])
    show "index_inv s t vec (nat 0) (0, ([], 0), vec)"
      using assms(1) win_ok_start [OF assms(1)] by (cases t) (auto simp: index_inv_def starts_def)
    show "runs (index_body s t i st) (\<lambda>st. index_inv s t vec (nat (i + 1)) st)"
      if "0 \<le> i" "i < int (length s)" "index_inv s t vec (nat i) st" for i st
      using index_round [OF assms, of "nat i" vec st] that by (simp add: nat_add_distrib)
  qed simp
  then obtain st where r: "for_up 0 (int (length s)) (index_body s t) (0, ([], 0), vec) = Inr st" "index_inv s t vec (length s) st"
    by (auto simp: runs_def)
  then show ?thesis unfolding index_permutation_def Let_def r(1) by (auto simp: index_inv_def)
qed

section \<open>The smallest window\<close>

text \<open>The counter of the window \<open>w\<close>: its keys are the needed characters that have come in.\<close>

definition exact :: "string \<Rightarrow> counter \<Rightarrow> int \<Rightarrow> string \<Rightarrow> bool" where
  "exact t window valid w \<longleftrightarrow>
     (\<forall>c \<in> set t. mget window c = int (count (mset w) c)) \<and> valid = int (card (enough t w)) \<and>
     (\<forall>c. has_key window c \<longrightarrow> c \<in> set t) \<and> (\<forall>c \<in> set t \<inter> set w. has_key window c)"

lemma exactD:
  assumes "exact t window valid w"
  shows "x \<in> set t \<Longrightarrow> mget window x = int (count (mset w) x)"
    and "valid = int (card (enough t w))"
    and "has_key window x \<Longrightarrow> x \<in> set t" and "x \<in> set t \<Longrightarrow> x \<in> set w \<Longrightarrow> has_key window x"
  using assms unfolding exact_def by blast+

lemma exactI:
  assumes "\<And>x. x \<in> set t \<Longrightarrow> mget window x = int (count (mset w) x)" "valid = int (card (enough t w))"
    "\<And>x. has_key window x \<Longrightarrow> x \<in> set t" "\<And>x. x \<in> set t \<Longrightarrow> x \<in> set w \<Longrightarrow> has_key window x"
  shows "exact t window valid w"
  using assms unfolding exact_def by blast

lemma exact_start: "t \<noteq> [] \<Longrightarrow> exact t [] 0 []"
  by (simp add: exact_def mget_def enough_def has_key_def)

lemma exact_take_in:
  assumes "exact t window valid w" "take_in (needed t) c (window, valid) = (window', valid')"
  shows "exact t window' valid' (w @ [c])"
proof (cases "c \<in> set t")
  case False
  then have same: "window' = window" "valid' = valid" "enough t (w @ [c]) = enough t w"
    using assms(2) by (auto simp: take_in_def has_key_needed enough_def)
  show ?thesis unfolding same
  proof (rule exactI)
    show "mget window x = int (count (mset (w @ [c])) x)" if "x \<in> set t" for x
    proof -
      have "x \<noteq> c" using that False by blast
      then show ?thesis using exactD(1) [OF assms(1) that] by simp
    qed
    show "has_key window x" if "x \<in> set t" "x \<in> set (w @ [c])" for x
      using exactD(4) [OF assms(1) that(1)] False that by auto
  qed (use exactD(2,3) [OF assms(1)] same in auto)
next
  case True
  have w': "window' = madd window c 1"
    "valid' = (if mget window' c = mget (needed t) c then valid + 1 else valid)"
    using assms(2) True by (simp_all add: take_in_def has_key_needed Let_def split: if_splits)
  have counts: "mget window' x = int (count (mset (w @ [c])) x)" if "x \<in> set t" for x
    using exactD(1) [OF assms(1) that] by (cases "x = c") (simp_all add: w'(1) mget_madd)
  have hit: "mget window' c = mget (needed t) c \<longleftrightarrow> count (mset t) c = count (mset w) c + 1"
    using counts [OF True] by (auto simp: mget_needed)
  show ?thesis
  proof (rule exactI)
    show "valid' = int (card (enough t (w @ [c])))"
      unfolding w'(2) hit enough_in using exactD(2) [OF assms(1)] True enough_in_new [OF True] by simp
    show "x \<in> set t" if "has_key window' x" for x
      using that exactD(3) [OF assms(1), of x] True by (auto simp: w'(1) has_key_madd)
    show "has_key window' x" if "x \<in> set t" "x \<in> set (w @ [c])" for x
      using that exactD(4) [OF assms(1), of x] by (auto simp: w'(1) has_key_madd)
  qed (rule counts)
qed

text \<open>What a round of the inner loop does to a window that has all characters.\<close>

lemma exact_full: "exact t window valid w \<Longrightarrow> valid = int (length (needed t)) \<longleftrightarrow> covers t w"
  using exactD(2) [of t window valid w] by (simp add: length_needed covers_card)

lemma exact_drop_other:
  assumes "exact t window valid (c # w)" "\<not> has_key window c"
  shows "exact t window valid w" "enough t w = enough t (c # w)"
proof -
  have c: "c \<notin> set t" using exactD(4) [OF assms(1), of c] assms(2) by auto
  then show e: "enough t w = enough t (c # w)" using enough_out [of t w c] by simp
  show "exact t window valid w"
  proof (rule exactI)
    show "mget window x = int (count (mset w) x)" if "x \<in> set t" for x
    proof -
      have "x \<noteq> c" using that c by blast
      then show ?thesis using exactD(1) [OF assms(1) that] by simp
    qed
    show "has_key window x" if "x \<in> set t" "x \<in> set w" for x
      using exactD(4) [OF assms(1) that(1)] that(2) by simp
  qed (use exactD(2,3) [OF assms(1)] e in simp_all)
qed

lemma exact_drop_key:
  assumes "exact t window valid (c # w)" "has_key window c" "covers t (c # w)"
  shows "mget (madd window c (-1)) c < mget (needed t) c \<longleftrightarrow> \<not> covers t w"
    and "exact t (madd window c (-1)) (if covers t w then valid else valid - 1) w"
proof -
  have c: "c \<in> set t" by (rule exactD(3) [OF assms(1,2)])
  have le: "count (mset t) x \<le> count (mset (c # w)) x" for x
    using assms(3) by (simp add: covers_def mset_subset_eq_count del: mset.simps)
  have lost: "\<not> covers t w \<longleftrightarrow> count (mset w) c < count (mset t) c"
  proof
    assume "\<not> covers t w"
    then obtain x where "count (mset w) x < count (mset t) x" by (auto simp: covers_def subseteq_mset_def not_le)
    then show "count (mset w) c < count (mset t) c" using le [of x] by (cases "x = c") auto
  next
    assume "count (mset w) c < count (mset t) c"
    then show "\<not> covers t w" unfolding covers_def by (meson mset_subset_eq_count not_le)
  qed
  have counts: "mget (madd window c (-1)) x = int (count (mset w) x)" if "x \<in> set t" for x
    using exactD(1) [OF assms(1) that] by (cases "x = c") (simp_all add: mget_madd)
  show "mget (madd window c (-1)) c < mget (needed t) c \<longleftrightarrow> \<not> covers t w"
    unfolding lost counts [OF c] mget_needed by simp
  show "exact t (madd window c (-1)) (if covers t w then valid else valid - 1) w"
  proof (rule exactI)
    show "(if covers t w then valid else valid - 1) = int (card (enough t w))"
    proof (cases "covers t w")
      case True
      then have "enough t w = enough t (c # w)" using assms(3) by (simp add: covers_enough)
      then show ?thesis using True exactD(2) [OF assms(1)] by simp
    next
      case False
      then have "count (mset t) c = count (mset (c # w)) c" using lost le [of c] by simp
      then have "enough t w = enough t (c # w) - {c}" "c \<in> enough t (c # w)"
        using enough_out [of t w c] c by (auto simp: enough_def)
      then have "Suc (card (enough t w)) = card (enough t (c # w))" by (simp add: card_Suc_Diff1 del: card_Diff_insert)
      then show ?thesis using False exactD(2) [OF assms(1)] by simp
    qed
    show "x \<in> set t" if "has_key (madd window c (-1)) x" for x
      using that exactD(3) [OF assms(1), of x] c by (auto simp: has_key_madd)
    show "has_key (madd window c (-1)) x" if "x \<in> set t" "x \<in> set w" for x
      using that exactD(4) [OF assms(1), of x] by (auto simp: has_key_madd)
  qed (rule counts)
qed

text \<open>The best part so far: \<open>INT_MAX\<close> stands for none.\<close>

definition best_part :: "string \<Rightarrow> string \<Rightarrow> int \<Rightarrow> string \<Rightarrow> bool" where
  "best_part s t min_count result \<longleftrightarrow>
     (min_count = INT_MAX \<and> result = []) \<or>
     (min_count = int (length result) \<and> sublist result s \<and> covers t result)"

lemma shrink_run:
  assumes "t \<noteq> []" "l \<le> Suc r" "r < length s" "length s < 2 ^ 31 - 1"
    and "exact t window valid (part s l (Suc r))" "best_part s t min_count result"
    and "covers t (part s l (Suc r))"
  shows "\<exists>l' window' valid' min_count' result'.
    shrink s (needed t) (int r) (int l) window valid min_count result = Inr (int l', window', valid', min_count', result') \<and>
    l < l' \<and> l' \<le> Suc r \<and> exact t window' valid' (part s l' (Suc r)) \<and> \<not> covers t (part s l' (Suc r)) \<and>
    best_part s t min_count' result' \<and> min_count' \<le> min_count \<and> min_count' \<le> int (Suc r - (l' - 1))"
  using assms(2,5,7)
proof (induction "Suc r - l" arbitrary: l window valid)
  case 0
  then have "part s l (Suc r) = []" by simp
  then show ?case using 0 assms(1) covers_longer [of t "[]"] by simp
next
  case (Suc d)
  let ?c = "s ! l" and ?w = "part s (Suc l) (Suc r)"
  have lt: "l < Suc r" using Suc(2) by simp
  have w: "part s l (Suc r) = ?c # ?w" using lt assms(3) by (intro part_Cons) simp_all
  have get: "sget s (int l) = Inr ?c" using lt assms(3) by simp
  have full: "valid = int (length (needed t))" using exact_full [OF Suc.prems(2)] Suc.prems(3) by simp
  note eq = shrink.simps [of s "needed t" "int r" "int l" window valid min_count result]
  show ?case
  proof (cases "covers t ?w")
    case True
    have go: "\<exists>l' window' valid' min_count' result'.
      shrink s (needed t) (int r) (int (Suc l)) window1 valid min_count result = Inr (int l', window', valid', min_count', result') \<and>
      Suc l < l' \<and> l' \<le> Suc r \<and> exact t window' valid' (part s l' (Suc r)) \<and> \<not> covers t (part s l' (Suc r)) \<and>
      best_part s t min_count' result' \<and> min_count' \<le> min_count \<and> min_count' \<le> int (Suc r - (l' - 1))"
      if "exact t window1 valid ?w" for window1
      using Suc(2) lt that True by (intro Suc(1)) auto
    show ?thesis
    proof (cases "has_key window ?c")
      case key: True
      have ex: "exact t (madd window ?c (-1)) valid ?w"
        using exact_drop_key(2) [of t window valid ?c ?w] Suc.prems(2,3) key True w by simp
      have "\<not> mget (madd window ?c (-1)) ?c < mget (needed t) ?c"
        using exact_drop_key(1) [of t window valid ?c ?w] Suc.prems(2,3) key True w by simp
      then have "shrink s (needed t) (int r) (int l) window valid min_count result =
          shrink s (needed t) (int r) (int (Suc l)) (madd window ?c (-1)) valid min_count result"
        unfolding eq using full get key by (simp add: Let_def add.commute)
      then show ?thesis using go [OF ex] by (auto dest: Suc_lessD)
    next
      case False
      have ex: "exact t window valid ?w" using exact_drop_other(1) [of t window valid ?c ?w] Suc.prems(2) False w by simp
      have "shrink s (needed t) (int r) (int l) window valid min_count result =
          shrink s (needed t) (int r) (int (Suc l)) window valid min_count result"
        unfolding eq using full get False by (simp add: add.commute)
      then show ?thesis using go [OF ex] by (auto dest: Suc_lessD)
    qed
  next
    case False
    have key: "has_key window ?c"
    proof (rule ccontr)
      assume "\<not> has_key window ?c"
      then have "enough t ?w = enough t (?c # ?w)" using exact_drop_other(2) [of t window valid ?c ?w] Suc.prems(2) w by simp
      then show False using False Suc.prems(3) w by (simp add: covers_enough)
    qed
    have ex: "exact t (madd window ?c (-1)) (valid - 1) ?w"
      using exact_drop_key(2) [of t window valid ?c ?w] Suc.prems(2,3) key False w by simp
    have less: "mget (madd window ?c (-1)) ?c < mget (needed t) ?c"
      using exact_drop_key(1) [of t window valid ?c ?w] Suc.prems(2,3) key False w by simp
    have stop: "shrink s (needed t) (int r) (int l + 1) (madd window ?c (-1)) (valid - 1) mc res =
        Inr (int l + 1, madd window ?c (-1), valid - 1, mc, res)" for mc res
      using full by (subst shrink.simps) simp
    have len: "int r - int l + 1 = int (Suc r - l)" using lt by (simp add: of_nat_diff)
    have sub: "substr s (int l) (int r - int l + 1) = Inr (part s l (Suc r))"
      unfolding len using lt assms(3,4) by (simp add: substr_def part_def size_t_nat del: of_nat_diff)
    let ?better = "min_count > int (Suc r - l)"
    have run: "shrink s (needed t) (int r) (int l) window valid min_count result =
        Inr (int l + 1, madd window ?c (-1), valid - 1, if ?better then int (Suc r - l) else min_count,
             if ?better then part s l (Suc r) else result)"
      unfolding eq using full get key less stop sub len by (simp add: Let_def)
    have "best_part s t (int (Suc r - l)) (part s l (Suc r))"
      using assms(3) Suc.prems(3) lt length_part [of "Suc r" s l]
      unfolding best_part_def sublist_part by (metis Suc_leI less_imp_le)
    then show ?thesis using run ex False lt assms(6)
      by (intro exI [of _ "Suc l"] exI [of _ "madd window ?c (-1)"] exI [of _ "valid - 1"]
          exI [of _ "if ?better then int (Suc r - l) else min_count"] exI [of _ "if ?better then part s l (Suc r) else result"])
        (simp add: add.commute)
  qed
qed

lemma part_append: "l \<le> p \<Longrightarrow> p \<le> q \<Longrightarrow> part s l q = part s l p @ part s p q"
proof -
  assume "l \<le> p" "p \<le> q"
  then have "q - l = (p - l) + (q - p)" "drop (p - l) (drop l s) = drop p s" by simp_all
  then show ?thesis unfolding part_def by (metis take_add)
qed

lemma covers_wider: "l \<le> p \<Longrightarrow> p \<le> q \<Longrightarrow> covers t (part s p q) \<Longrightarrow> covers t (part s l q)"
  unfolding covers_def by (simp add: part_append [of l p q s]) (metis subset_mset.add_increasing subset_mset.zero_le)

definition slide_inv :: "string \<Rightarrow> string \<Rightarrow> nat \<Rightarrow> int \<times> counter \<times> int \<times> int \<times> string \<Rightarrow> bool" where
  "slide_inv s t i = (\<lambda>(lft, window, valid, min_count, result).
     \<exists>l. lft = int l \<and> l \<le> i \<and> exact t window valid (part s l i) \<and> \<not> covers t (part s l i) \<and>
       best_part s t min_count result \<and> (0 < l \<longrightarrow> min_count \<le> int (i - (l - 1))) \<and>
       (\<forall>p q. p \<le> q \<longrightarrow> q \<le> i \<longrightarrow> covers t (part s p q) \<longrightarrow> min_count \<le> int (q - p)))"

abbreviation slide_body :: "string \<Rightarrow> string \<Rightarrow> int \<Rightarrow> int \<times> counter \<times> int \<times> int \<times> string \<Rightarrow>
    fault + int \<times> counter \<times> int \<times> int \<times> string" where
  "slide_body s t \<equiv> \<lambda>rgt (lft, window, valid, min_count, result).
     bindE (sget s rgt) (\<lambda>ch.
     case take_in (needed t) ch (window, valid) of (window, valid) \<Rightarrow>
     shrink s (needed t) rgt lft window valid min_count result)"

lemma slide_minimal:
  assumes "\<not> covers t (part s l (Suc i))" "0 < l \<longrightarrow> mc \<le> int (Suc i - (l - 1))"
    and "\<forall>p q. p \<le> q \<longrightarrow> q \<le> i \<longrightarrow> covers t (part s p q) \<longrightarrow> mc \<le> int (q - p)"
  shows "\<forall>p q. p \<le> q \<longrightarrow> q \<le> Suc i \<longrightarrow> covers t (part s p q) \<longrightarrow> mc \<le> int (q - p)"
proof (intro allI impI)
  fix p q assume pq: "p \<le> q" "q \<le> Suc i" "covers t (part s p q)"
  show "mc \<le> int (q - p)"
  proof (cases "q = Suc i")
    case True
    have "p < l"
    proof (rule ccontr)
      assume "\<not> p < l"
      then show False using covers_wider [of l p q t s] pq True assms(1) by simp
    qed
    then show ?thesis using assms(2) True by auto
  next
    case False
    then show ?thesis using assms(3) pq by simp
  qed
qed

lemma slide_round:
  assumes "t \<noteq> []" "length s < 2 ^ 31 - 1" "i < length s" "slide_inv s t i st"
  shows "runs (slide_body s t (int i) st) (slide_inv s t (Suc i))"
proof -
  obtain l window valid mc res where st: "st = (int l, window, valid, mc, res)" and l: "l \<le> i"
    and ex: "exact t window valid (part s l i)" and best: "best_part s t mc res"
    and near: "0 < l \<longrightarrow> mc \<le> int (i - (l - 1))"
    and min: "\<forall>p q. p \<le> q \<longrightarrow> q \<le> i \<longrightarrow> covers t (part s p q) \<longrightarrow> mc \<le> int (q - p)"
    using assms(4) by (cases st) (auto simp: slide_inv_def)
  obtain window1 valid1 where tk: "take_in (needed t) (s ! i) (window, valid) = (window1, valid1)" by fastforce
  have ex1: "exact t window1 valid1 (part s l (Suc i))"
    using exact_take_in [OF ex tk] part_snoc [OF l assms(3)] by simp
  have body: "slide_body s t (int i) st = shrink s (needed t) (int i) (int l) window1 valid1 mc res"
    using st tk assms(3) by simp
  show ?thesis
  proof (cases "covers t (part s l (Suc i))")
    case False
    then have "slide_body s t (int i) st = Inr (int l, window1, valid1, mc, res)"
      unfolding body using exact_full [OF ex1] by (subst shrink.simps) simp
    moreover have near': "0 < l \<longrightarrow> mc \<le> int (Suc i - (l - 1))" using near by auto
    ultimately show ?thesis
      using ex1 l best False slide_minimal [OF False near' min] by (simp add: slide_inv_def)
  next
    case True
    obtain l' window' valid' mc' res' where sh:
      "shrink s (needed t) (int i) (int l) window1 valid1 mc res = Inr (int l', window', valid', mc', res')"
      "l < l'" "l' \<le> Suc i" "exact t window' valid' (part s l' (Suc i))" "\<not> covers t (part s l' (Suc i))"
      "best_part s t mc' res'" "mc' \<le> mc" "mc' \<le> int (Suc i - (l' - 1))"
      using shrink_run [OF assms(1) _ assms(3,2) ex1 best True] l by auto
    have min': "\<forall>p q. p \<le> q \<longrightarrow> q \<le> i \<longrightarrow> covers t (part s p q) \<longrightarrow> mc' \<le> int (q - p)"
      using min sh(7) by (meson order_trans)
    show ?thesis
      unfolding body sh(1) using sh slide_minimal [OF sh(5) impI [OF sh(8)] min'] by (simp add: slide_inv_def)
  qed
qed

lemma slide_window_result:
  assumes "t \<noteq> []" "length s < 2 ^ 31 - 1"
  shows "\<exists>res. slide_window s t = Inr res \<and>
    (if \<exists>w. sublist w s \<and> covers t w
     then sublist res s \<and> covers t res \<and> (\<forall>w. sublist w s \<longrightarrow> covers t w \<longrightarrow> length res \<le> length w)
     else res = [])"
proof -
  have "runs (for_up 0 (int (length s)) (slide_body s t) (0, [], 0, INT_MAX, [])) (\<lambda>st. slide_inv s t (nat (int (length s))) st)"
  proof (rule for_up_inv [where P = "\<lambda>i st. slide_inv s t (nat i) st"])
    show "slide_inv s t (nat 0) (0, [], 0, INT_MAX, [])"
      using assms(1) exact_start [OF assms(1)] covers_longer [of t "[]"]
      by (auto simp: slide_inv_def best_part_def)
    show "runs (slide_body s t i st) (\<lambda>st. slide_inv s t (nat (i + 1)) st)"
      if "0 \<le> i" "i < int (length s)" "slide_inv s t (nat i) st" for i st
      using slide_round [OF assms, of "nat i" st] that by (simp add: nat_add_distrib)
  qed simp
  then obtain st where r: "for_up 0 (int (length s)) (slide_body s t) (0, [], 0, INT_MAX, []) = Inr st" "slide_inv s t (length s) st"
    by (auto simp: runs_def)
  obtain lft window valid mc res where st: "st = (lft, window, valid, mc, res)" by (cases st)
  have eq: "slide_window s t = Inr res" unfolding slide_window_def Let_def r(1) st by simp
  have best: "best_part s t mc res"
    and min: "\<And>p q. p \<le> q \<Longrightarrow> q \<le> length s \<Longrightarrow> covers t (part s p q) \<Longrightarrow> mc \<le> int (q - p)"
    using r(2) by (auto simp: slide_inv_def st)
  have least: "mc \<le> int (length w)" if "sublist w s" "covers t w" for w
    using min that length_part by (auto simp: sublist_part)
  show ?thesis
  proof (cases "\<exists>w. sublist w s \<and> covers t w")
    case True
    then obtain w where w: "sublist w s" "covers t w" by blast
    have "mc \<noteq> INT_MAX" using least [OF w] sublist_length_le [OF w(1)] assms(2) by (simp add: INT_MAX_def)
    then have "mc = int (length res)" "sublist res s" "covers t res" using best by (auto simp: best_part_def)
    then show ?thesis using True eq least by fastforce
  next
    case False
    then have "res = []" using best by (auto simp: best_part_def)
    then show ?thesis unfolding if_not_P [OF False] using eq by blast
  qed
qed

section \<open>Characters that do not repeat\<close>

lemma skip_to_run:
  assumes "l \<le> p" "p < r" "r \<le> length s" "s ! p = c" "distinct (part s l r)" "set rs = set (part s l r)"
  shows "\<exists>rs'. skip_to s c (int l) rs = Inr (int p, rs') \<and> set rs' = set (part s p r)"
  using assms(1,5,6)
proof (induction "p - l" arbitrary: l rs)
  case 0
  then have "l = p" by simp
  then show ?case using assms(2-4) 0 by (subst skip_to.simps) simp
next
  case (Suc d)
  have lt: "l < p" using Suc(2) by simp
  have w: "part s l r = s ! l # part s (Suc l) r" using lt assms(2,3) by (intro part_Cons) simp_all
  have "part s (Suc l) r = part s (Suc l) p @ s ! p # part s (Suc p) r"
    using part_append [of "Suc l" p r s] part_Cons [of p r s] lt assms(2,3) by simp
  then have ne: "s ! l \<noteq> c" using Suc.prems(2) w assms(4) by auto
  have "\<exists>rs'. skip_to s c (int (Suc l)) (removeAll (s ! l) rs) = Inr (int p, rs') \<and> set rs' = set (part s p r)"
    using Suc lt w by (intro Suc(1)) auto
  then show ?case using ne lt assms(2,3) by (subst skip_to.simps) (simp add: add.commute)
qed

definition repeat_inv :: "string \<Rightarrow> nat \<Rightarrow> int \<times> char list \<times> int \<Rightarrow> bool" where
  "repeat_inv s i = (\<lambda>(lft, rs, m).
     \<exists>l. lft = int l \<and> l \<le> i \<and> distinct (part s l i) \<and> set rs = set (part s l i) \<and>
       (distinct (take i s) \<longrightarrow> m = 1) \<and> (m = 1 \<or> (\<exists>w. sublist w s \<and> distinct w \<and> 1 < m \<and> m = int (length w))))"

abbreviation repeat_body :: "string \<Rightarrow> int \<Rightarrow> int \<times> char list \<times> int \<Rightarrow> fault + int \<times> char list \<times> int" where
  "repeat_body s \<equiv> \<lambda>rgt (lft, repeat_set, max_len).
       bindE (sget s rgt) (\<lambda>ch.
       if ch \<notin> set repeat_set then Inr (lft, ch # repeat_set, max_len)
       else
         bindE (skip_to s ch lft repeat_set) (\<lambda>(lft, repeat_set).
         Inr (lft + 1, repeat_set, max max_len (rgt - lft))))"

lemma repeat_round:
  assumes "i < length s" "repeat_inv s i st"
  shows "runs (repeat_body s (int i) st) (repeat_inv s (Suc i))"
proof -
  obtain l rs m where st: "st = (int l, rs, m)" and l: "l \<le> i" and dist: "distinct (part s l i)"
    and rs: "set rs = set (part s l i)" and one: "distinct (take i s) \<Longrightarrow> m = 1"
    and m: "m = 1 \<or> (\<exists>w. sublist w s \<and> distinct w \<and> 1 < m \<and> m = int (length w))"
    using assms(2) by (cases st) (auto simp: repeat_inv_def)
  have snoc: "part s l (Suc i) = part s l i @ [s ! i]" using l assms(1) by (rule part_snoc)
  have tk: "take (Suc i) s = take i s @ [s ! i]" using assms(1) by (simp add: take_Suc_conv_app_nth)
  show ?thesis
  proof (cases "s ! i \<in> set rs")
    case False
    then show ?thesis using st assms(1) l dist rs one m snoc tk
      by (simp add: repeat_inv_def)
  next
    case True
    then obtain k where k: "k < i - l" "part s l i ! k = s ! i"
      using rs length_part [of i s l] assms(1) by (metis in_set_conv_nth less_imp_le)
    define p where "p = l + k"
    have p: "l \<le> p" "p < i" "s ! p = s ! i" using k assms(1) by (auto simp: p_def part_def)
    obtain rs' where sk: "skip_to s (s ! i) (int l) rs = Inr (int p, rs')" "set rs' = set (part s p i)"
      using skip_to_run [OF p(1,2) _ p(3) dist rs] assms(1) by auto
    have body: "repeat_body s (int i) st = Inr (int (Suc p), rs', max m (int (i - p)))"
      using st assms(1) True sk(1) p(2) by (simp add: of_nat_diff)
    have split: "part s l i = part s l p @ s ! i # part s (Suc p) i"
      using part_append [of l p i s] part_Cons [of p i s] p assms(1) by simp
    have new: "part s (Suc p) (Suc i) = part s (Suc p) i @ [s ! i]" using p(2) assms(1) by (intro part_snoc) simp_all
    have sub: "sublist (part s p i) s" unfolding sublist_part using p(2) assms(1) by (metis less_imp_le)
    have sub2: "distinct (part s p i)" "length (part s p i) = i - p"
      using part_Cons [of p i s] p dist split assms(1) length_part [of i s p] by auto
    have "\<not> distinct (take (Suc i) s)"
      using p(2,3) assms(1) unfolding tk by (auto simp: in_set_conv_nth)
    moreover have "max m (int (i - p)) = 1 \<or> (\<exists>w. sublist w s \<and> distinct w \<and> 1 < max m (int (i - p)) \<and> max m (int (i - p)) = int (length w))"
    proof (cases "m < int (i - p)")
      case True
      then show ?thesis using sub sub2 p(2) by (cases "i - p = 1") (auto simp: max_def intro!: exI [of _ "part s p i"])
    next
      case False
      then show ?thesis using m by (simp add: max_def)
    qed
    ultimately show ?thesis
      unfolding body using p dist split new sk(2) part_Cons [of p i s] assms(1)
      by (auto simp: repeat_inv_def intro!: exI [of _ "Suc p"])
  qed
qed

lemma max_not_repeat_result:
  "\<exists>m. max_not_repeat s = Inr m \<and> (m = 1 \<or> (\<exists>w. sublist w s \<and> distinct w \<and> m = int (length w))) \<and>
     (distinct s \<longrightarrow> m = 1)"
proof -
  have "runs (for_up 0 (int (length s)) (repeat_body s) (0, [], 1)) (\<lambda>st. repeat_inv s (nat (int (length s))) st)"
  proof (rule for_up_inv [where P = "\<lambda>i st. repeat_inv s (nat i) st"])
    show "repeat_inv s (nat 0) (0, [], 1)" by (simp add: repeat_inv_def)
    show "runs (repeat_body s i st) (\<lambda>st. repeat_inv s (nat (i + 1)) st)"
      if i: "0 \<le> i" "i < int (length s)" "repeat_inv s (nat i) st" for i st
    proof -
      obtain k where k: "i = int k" using zero_le_imp_eq_int [OF i(1)] by blast
      have n: "nat (int k + 1) = Suc k" by simp
      show ?thesis unfolding k n by (rule repeat_round) (use i k in auto)
    qed
  qed simp
  then show ?thesis unfolding max_not_repeat_def by (auto simp: runs_def repeat_inv_def)
qed

section \<open>Properties\<close>

text \<open>
  C21: \<open>slide_window\<close> does not fault for a target that is not empty, and finds a shortest part of the
  source that has every character of the target as often as the target, or the empty text when
  there is no such part.
\<close>

theorem slide_window_shortest:
  assumes "target \<noteq> []" "length source < 2 ^ 31 - 1"
  shows "\<exists>res. slide_window source target = Inr res \<and>
    (if \<exists>w. sublist w source \<and> covers target w
     then sublist res source \<and> covers target res \<and>
       length res = (LEAST k. \<exists>w. sublist w source \<and> covers target w \<and> length w = k)
     else res = [])"
proof -
  obtain res where res: "slide_window source target = Inr res"
    "if \<exists>w. sublist w source \<and> covers target w
     then sublist res source \<and> covers target res \<and> (\<forall>w. sublist w source \<longrightarrow> covers target w \<longrightarrow> length res \<le> length w)
     else res = []" using slide_window_result [OF assms] by blast
  have "length res = (LEAST k. \<exists>w. sublist w source \<and> covers target w \<and> length w = k)"
    if "\<exists>w. sublist w source \<and> covers target w"
    using res(2) that by (intro Least_equality [symmetric]) auto
  then show ?thesis using res by (intro exI [of _ res]) auto
qed

theorem slide_window_shortest_witness:
  "slide_window ''ADBECFEBANC'' ''ABC'' = Inr ''BANC'' \<and>
   (\<exists>res. slide_window ''ADBECFEBANC'' ''ABC'' = Inr res \<and> covers ''ABC'' res)"
proof
  show run: "slide_window ''ADBECFEBANC'' ''ABC'' = Inr ''BANC''" by code_simp
  have ex: "\<exists>w. sublist w ''ADBECFEBANC'' \<and> covers ''ABC'' w"
    by (intro exI [of _ "''ADBECFEBANC''"]) (simp add: covers_def)
  show "\<exists>res. slide_window ''ADBECFEBANC'' ''ABC'' = Inr res \<and> covers ''ABC'' res"
    using slide_window_shortest [of "''ABC''" "''ADBECFEBANC''", unfolded if_P [OF ex]] by auto
qed

text \<open>
  C31: \<open>has_permutation\<close> answers true only when a part of the source is a permutation of the target, and
  exactly then when the characters of the target are distinct. With repeated characters it can miss
  one, since a character of which there were too few is taken off the count when it leaves.
\<close>

theorem has_permutation_distinct:
  assumes "target \<noteq> []" "length source < 2 ^ 31"
  shows "(\<exists>b. has_permutation source target = Inr b \<and> (b \<longrightarrow> occurs source target) \<and>
      (distinct target \<longrightarrow> b = occurs source target)) \<and>
    has_permutation ''axxxaab'' ''aab'' = Inr False"
proof
  show "\<exists>b. has_permutation source target = Inr b \<and> (b \<longrightarrow> occurs source target) \<and>
      (distinct target \<longrightarrow> b = occurs source target)" by (rule has_permutation_result [OF assms])
  show "has_permutation ''axxxaab'' ''aab'' = Inr False" by code_simp
qed

theorem has_permutation_distinct_witness:
  "has_permutation ''axxxaab'' ''aab'' = Inr False \<and> has_permutation ''helloworld'' ''drl'' = Inr (occurs ''helloworld'' ''drl'')"
  using has_permutation_distinct [of "''drl''" "''helloworld''"] by auto

text \<open>
  for a target of distinct characters, \<open>index_permutation\<close> appends the starts of all its
  permutations in the source, in order.
\<close>

theorem index_permutation_starts:
  assumes "target \<noteq> []" "distinct target" "length source < 2 ^ 31"
  shows "index_permutation vec source target =
    Inr (vec @ map int (filter (\<lambda>k. mset (take (length target) (drop k source)) = mset target)
      [0..<length source + 1 - length target]))"
  using index_permutation_result [OF assms] by (simp add: starts_def part_def)

theorem index_permutation_starts_witness:
  "index_permutation [] ''cbaebabacd'' ''abc'' =
Inr [0, 6]"
  using index_permutation_starts [of "''abc''" "''cbaebabacd''" "[]"] by simp

text \<open>
  the answer of \<open>max_not_repeat\<close> is never more than the length of a part without repetition, but
  parts are counted only where a character repeats: for a text without repetition it is 1.
\<close>

theorem max_not_repeat_undercounts:
  "(\<exists>m. max_not_repeat source = Inr m \<and>
     (m = 1 \<or> (\<exists>w. sublist w source \<and> distinct w \<and> m = int (length w)))) \<and>
   max_not_repeat (remdups source) = Inr 1 \<and> not_repeated_main = Inr (''6'' @ endl)"
proof (intro conjI)
  show "\<exists>m. max_not_repeat source = Inr m \<and> (m = 1 \<or> (\<exists>w. sublist w source \<and> distinct w \<and> m = int (length w)))"
    using max_not_repeat_result [of source] by blast
  show "max_not_repeat (remdups source) = Inr 1"
    using max_not_repeat_result [of "remdups source"] by auto
  have "max_not_repeat ''abcdefa'' = Inr 6" by code_simp
  then show "not_repeated_main = Inr (''6'' @ endl)" by (simp add: not_repeated_main_def show_simps)
qed

end
