(* ===== verification/Queens.thy ===== *)
theory Queens
  imports CppLoops
begin

text \<open>
  Searches by backtracking: the queens of \<^verbatim>\<open>queen.cc\<close> (a board of numbers) and \<^verbatim>\<open>Queen.cc\<close> (a board
  of texts, once as functions and once as a class), and \<^verbatim>\<open>Permutations.cc\<close>. Boards have fewer
  than \<open>2 ^ 31\<close> rows.
\<close>

section \<open>Diagonals\<close>

text \<open>
  \<open>for (int index = row, jdex = col; index >= 0 && jdex >= 0; index--, jdex--)\<close> and
  \<open>for (int index = row, jdex = col; index >= 0 && jdex < bound; index--, jdex++)\<close>, left with
  \<open>false\<close> at the first place where \<open>test\<close> holds.
\<close>

function left_diag :: "(int \<Rightarrow> int \<Rightarrow> fault + bool) \<Rightarrow> int \<Rightarrow> int \<Rightarrow> fault + (unit, bool) flow" where
  "left_diag test index jdex =
     (if 0 \<le> index \<and> 0 \<le> jdex then
        bindE (test index jdex) (\<lambda>hit.
        if hit then Inr (Return False) else left_diag test (index - 1) (jdex - 1))
      else Inr (Next ()))"
  by auto

termination
  by (relation "measure (\<lambda>(test, index, jdex). nat (index + 1))") auto

function right_diag :: "(int \<Rightarrow> int \<Rightarrow> fault + bool) \<Rightarrow> int \<Rightarrow> int \<Rightarrow> int \<Rightarrow> fault + (unit, bool) flow" where
  "right_diag test bound index jdex =
     (if 0 \<le> index \<and> jdex < bound then
        bindE (test index jdex) (\<lambda>hit.
        if hit then Inr (Return False) else right_diag test bound (index - 1) (jdex + 1))
      else Inr (Next ()))"
  by auto

termination
  by (relation "measure (\<lambda>(test, bound, index, jdex). nat (index + 1))") auto

declare left_diag.simps [simp del] right_diag.simps [simp del]

text \<open>\<open>for (int index = 0; index < n; index++) if (...) return false;\<close>\<close>

definition scan :: "int \<Rightarrow> (int \<Rightarrow> fault + bool) \<Rightarrow> fault + (unit, bool) flow" where
  "scan n test =
     for_upR 0 n (\<lambda>index u. bindE (test index) (\<lambda>hit. Inr (if hit then Return False else Next ()))) ()"

section \<open>\<^verbatim>\<open>queen.cc\<close>\<close>

type_synonym board = "int list list"

definition is_one :: "board \<Rightarrow> int \<Rightarrow> int \<Rightarrow> fault + bool" where
  "is_one board i j = bindE (aget2 board i j) (\<lambda>x. Inr (x = 1))"

text \<open>The size of a row does not change while the loop runs over it.\<close>

definition is_pos_valid :: "board \<Rightarrow> int \<Rightarrow> int \<Rightarrow> fault + bool" where
  "is_pos_valid board row col =
     bindE (aget board row) (\<lambda>line.
     endR
       (seqR (scan (int (length line)) (\<lambda>index. is_one board row index)) (\<lambda>_.
        seqR (scan row (\<lambda>index. is_one board index col)) (\<lambda>_.
        seqR (left_diag (is_one board) row col) (\<lambda>_.
        bindE (aget board 0) (\<lambda>line0.
        right_diag (is_one board) (int (length line0)) row col))))) (\<lambda>_.
     Inr True))"

partial_function (option) backtrace :: "board \<Rightarrow> int \<Rightarrow> board list \<Rightarrow> (board \<times> board list) may" where
  "backtrace board row results =
     (if int (length board) = row then retM (board, results @ [board])
      else
        bindM (Some (aget board row)) (\<lambda>line.
        for_upM 0 (int (length line)) (\<lambda>index (board, results).
          bindM (Some (is_pos_valid board row index)) (\<lambda>ok.
          if \<not> ok then retM (board, results)
          else
            bindM (Some (aset2 board row index 1)) (\<lambda>board.
            bindM (backtrace board (row + 1) results) (\<lambda>(board, results).
            bindM (Some (aset2 board row index 0)) (\<lambda>board.
            retM (board, results)))))) (board, results)))"

definition show_board :: "board \<Rightarrow> string" where
  "show_board rboard = concat (map (\<lambda>rline. concat (map show_sp rline) @ endl) rboard) @ endl"

definition queen_main :: "string may" where
  "queen_main =
     bindM (backtrace (replicate 8 (replicate 8 0)) 0 []) (\<lambda>(board, results).
     retM (concat (map show_board results) @ ''total solution: '' @ fmt_d (int (length results)) @ endl))"

section \<open>\<^verbatim>\<open>Queen.cc\<close>\<close>

type_synonym chessboard = "string list"

text \<open>\<open>chessboard[i][j]\<close>, and the assignment to it; a text may be read at its size, but not written.\<close>

definition board_cell :: "chessboard \<Rightarrow> int \<Rightarrow> int \<Rightarrow> fault + char" where
  "board_cell chessboard i j = bindE (aget chessboard i) (\<lambda>line. sget line j)"

definition is_Q :: "chessboard \<Rightarrow> int \<Rightarrow> int \<Rightarrow> fault + bool" where
  "is_Q chessboard i j = bindE (board_cell chessboard i j) (\<lambda>c. Inr (c = CHR ''Q''))"

text \<open>The right diagonal goes one place further than the board.\<close>

definition is_valid :: "int \<Rightarrow> int \<Rightarrow> chessboard \<Rightarrow> fault + bool" where
  "is_valid row col chessboard =
     endR
       (seqR (scan row (\<lambda>index. is_Q chessboard index col)) (\<lambda>_.
        seqR (left_diag (is_Q chessboard) (row - 1) (col - 1)) (\<lambda>_.
        right_diag (is_Q chessboard) (int (length chessboard) + 1) (row - 1) (col + 1)))) (\<lambda>_.
     Inr True)"

partial_function (option) back_trace :: "int \<Rightarrow> chessboard \<Rightarrow> chessboard list \<Rightarrow> (chessboard \<times> chessboard list) may" where
  "back_trace row chessboard results =
     (if row = int (length chessboard) then retM (chessboard, results @ [chessboard])
      else
        for_upM 0 (int (length chessboard)) (\<lambda>col (chessboard, results).
          bindM (Some (is_valid row col chessboard)) (\<lambda>ok.
          if ok then
            bindM (Some (aset2 chessboard row col (CHR ''Q''))) (\<lambda>chessboard.
            bindM (back_trace (row + 1) chessboard results) (\<lambda>(chessboard, results).
            bindM (Some (aset2 chessboard row col (CHR ''.''))) (\<lambda>chessboard.
            retM (chessboard, results))))
          else retM (chessboard, results))) (chessboard, results))"

definition show_chessboard :: "chessboard \<Rightarrow> string" where
  "show_chessboard result = concat (map (\<lambda>elem. elem @ endl) result) @ ''============'' @ endl @ endl"

definition queen2_main :: "string may" where
  "queen2_main =
     bindM (back_trace 0 (replicate 8 (replicate 8 (CHR ''.''))) []) (\<lambda>(chessboard, results).
     retM (''solution count: '' @ fmt_d (int (length results)) @ endl @ concat (map show_chessboard results)))"

text \<open>The class \<open>Solution\<close>.\<close>

definition is_valid_n :: "int \<Rightarrow> int \<Rightarrow> chessboard \<Rightarrow> int \<Rightarrow> fault + bool" where
  "is_valid_n row col chessboard n =
     endR
       (seqR (scan row (\<lambda>i. is_Q chessboard i col)) (\<lambda>_.
        seqR (left_diag (is_Q chessboard) (row - 1) (col - 1)) (\<lambda>_.
        right_diag (is_Q chessboard) n (row - 1) (col + 1)))) (\<lambda>_.
     Inr True)"

partial_function (option) backtracking :: "int \<Rightarrow> int \<Rightarrow> chessboard \<Rightarrow> chessboard list \<Rightarrow> (chessboard \<times> chessboard list) may" where
  "backtracking n row chessboard result =
     (if row = n then retM (chessboard, result @ [chessboard])
      else
        for_upM 0 n (\<lambda>col (chessboard, result).
          bindM (Some (is_valid_n row col chessboard n)) (\<lambda>ok.
          if ok then
            bindM (Some (aset2 chessboard row col (CHR ''Q''))) (\<lambda>chessboard.
            bindM (backtracking n (row + 1) chessboard result) (\<lambda>(chessboard, result).
            bindM (Some (aset2 chessboard row col (CHR ''.''))) (\<lambda>chessboard.
            retM (chessboard, result))))
          else retM (chessboard, result))) (chessboard, result))"

text \<open>A text of negative size, and with it the vector, throws.\<close>

definition solveNQueens :: "int \<Rightarrow> chessboard list may" where
  "solveNQueens n =
     bindM (Some (if n < 0 then Inl (Thrown ''basic_string::_M_create'')
                  else Inr (replicate (nat n) (replicate (nat n) (CHR ''.''))))) (\<lambda>chessboard.
     bindM (backtracking n 0 chessboard []) (\<lambda>(chessboard, result).
     retM result))"

section \<open>\<^verbatim>\<open>Permutations.cc\<close>\<close>

text \<open>The two global lists are \<open>tmp_saver\<close> and \<open>results\<close>; \<open>main\<close> does not compile.\<close>

partial_function (option) permutation :: "int list \<Rightarrow> int \<Rightarrow> int list \<Rightarrow> int list list \<Rightarrow> (int list \<times> int list list) may" where
  "permutation arr cnt tmp_saver results =
     (if int (length tmp_saver) = size_t cnt then retM (tmp_saver, results @ [tmp_saver])
      else
        for_upM 0 cnt (\<lambda>index (tmp_saver, results).
          bindM (Some (aget arr index)) (\<lambda>x.
          if x \<in> set tmp_saver then retM (tmp_saver, results)
          else
            bindM (permutation arr cnt (tmp_saver @ [x]) results) (\<lambda>(tmp_saver, results).
            retM (butlast tmp_saver, results)))) (tmp_saver, results))"

definition test_permutation :: "int list \<times> int list list \<Rightarrow> (string \<times> int list \<times> int list list) may" where
  "test_permutation = (\<lambda>(tmp_saver, results).
     bindM (permutation [1, 2, 3, 4] 4 tmp_saver results) (\<lambda>(tmp_saver, results).
     retM (concat (map (\<lambda>result. ''combine: '' @ concat (map show_sp result) @ endl) results), tmp_saver, results)))"

definition legal_position :: "int list list \<Rightarrow> int \<Rightarrow> int \<Rightarrow> fault + bool" where
  "legal_position vec row column =
     endR (for_upR 0 (int (length vec)) (\<lambda>index u.
       bindE (aget vec index) (\<lambda>line.
       for_upR 0 (int (length line)) (\<lambda>jdex u.
         bindE (aget2 vec index jdex) (\<lambda>x.
         if x = 1 then
           (if index = row \<or> jdex = column then Inr (Return False)
            else
              bindE (chk (index - row)) (\<lambda>a. bindE (chk (jdex - column)) (\<lambda>b.
              if a = b then Inr (Return False) else Inr (Next ()))))
         else Inr (Next ()))) ())) ()) (\<lambda>u.
     Inr True)"

declare backtrace.simps [code] back_trace.simps [code] backtracking.simps [code] permutation.simps [code]

end
