(* ===== verification/QueenClaims.thy ===== *)
theory QueenClaims
  imports Queens
begin

text \<open>
  Backtracking in general, and the boards of the two queens programs as placements of queens by
  row. The three searches for queens walk over the same placements: their boards provide the laws of
  a locale, in which the result of a search is proved once. The enumeration of
  \<^verbatim>\<open>Permutations.cc\<close> has the same leaves.
\<close>

section \<open>The leaves of a search tree\<close>

text \<open>All ways to lengthen \<open>pre\<close> by \<open>k\<close> candidates, each one admitted by those before it.\<close>

fun leaves :: "('a list \<Rightarrow> 'a \<Rightarrow> bool) \<Rightarrow> 'a list \<Rightarrow> nat \<Rightarrow> 'a list \<Rightarrow> 'a list list" where
  "leaves ok xs 0 pre = [pre]"
| "leaves ok xs (Suc k) pre = concat (map (\<lambda>x. if ok pre x then leaves ok xs k (pre @ [x]) else []) xs)"

text \<open>A list each of whose elements is admitted by those before it.\<close>

definition admitted :: "('a list \<Rightarrow> 'a \<Rightarrow> bool) \<Rightarrow> 'a list \<Rightarrow> bool" where
  "admitted ok ys \<longleftrightarrow> (\<forall>i<length ys. ok (take i ys) (ys ! i))"

lemma admitted_snoc: "admitted ok (ys @ [y]) \<longleftrightarrow> admitted ok ys \<and> ok ys y"
  by (auto simp: admitted_def nth_append less_Suc_eq)

lemma admitted_append: "admitted ok (ys @ zs) \<Longrightarrow> admitted ok ys"
  by (induction zs rule: rev_induct) (auto simp: admitted_snoc append_assoc [symmetric] simp del: append_assoc)

lemma set_leaves:
  "admitted ok pre \<Longrightarrow> set (leaves ok xs k pre) =
    {pre @ ys |ys. length ys = k \<and> set ys \<subseteq> set xs \<and> admitted ok (pre @ ys)}"
proof (induction k arbitrary: pre)
  case 0
  then show ?case by auto
next
  case (Suc k)
  have IH: "set (leaves ok xs k (pre @ [x])) =
      {pre @ [x] @ ys |ys. length ys = k \<and> set ys \<subseteq> set xs \<and> admitted ok (pre @ [x] @ ys)}" if "ok pre x" for x
    using Suc that by (simp add: admitted_snoc)
  have adm: "ok pre x" if "admitted ok (pre @ x # ys)" for x ys
    using admitted_append [of ok "pre @ [x]" ys] that by (simp add: admitted_snoc)
  show ?case
  proof (intro equalityI subsetI)
    fix zs assume "zs \<in> set (leaves ok xs (Suc k) pre)"
    then obtain x where x: "x \<in> set xs" "ok pre x" "zs \<in> set (leaves ok xs k (pre @ [x]))"
      by (auto split: if_splits)
    then obtain ys where "zs = pre @ [x] @ ys" "length ys = k" "set ys \<subseteq> set xs" "admitted ok (pre @ [x] @ ys)"
      using IH by auto
    then show "zs \<in> {pre @ ys |ys. length ys = Suc k \<and> set ys \<subseteq> set xs \<and> admitted ok (pre @ ys)}"
      using x(1) by (intro CollectI exI [of _ "x # ys"]) simp
  next
    fix zs assume "zs \<in> {pre @ ys |ys. length ys = Suc k \<and> set ys \<subseteq> set xs \<and> admitted ok (pre @ ys)}"
    then obtain x ys where z: "zs = pre @ x # ys" "length ys = k" "x \<in> set xs" "set ys \<subseteq> set xs"
      "admitted ok (pre @ x # ys)" by (auto simp: length_Suc_conv)
    then have "zs \<in> set (leaves ok xs k (pre @ [x]))" using IH [OF adm [OF z(5)]] by auto
    then show "zs \<in> set (leaves ok xs (Suc k) pre)" using z(3) adm [OF z(5)] by auto
  qed
qed

lemma leaves_prefix: "zs \<in> set (leaves ok xs k pre) \<Longrightarrow> \<exists>ys. zs = pre @ ys"
  by (induction k arbitrary: pre) (fastforce split: if_splits)+

lemma distinct_leaves: "distinct xs \<Longrightarrow> distinct (leaves ok xs k pre)"
proof (induction k arbitrary: pre)
  case 0
  then show ?case by simp
next
  case (Suc k)
  have "distinct (concat (map (\<lambda>x. if ok pre x then leaves ok xs k (pre @ [x]) else []) zs))"
    if "distinct zs" for zs
    using that
  proof (induction zs)
    case (Cons z zs)
    have "y \<notin> set (leaves ok xs k (pre @ [x]))" if "y \<in> set (leaves ok xs k (pre @ [z]))" "x \<noteq> z" for x y
      using leaves_prefix [of y ok xs k "pre @ [x]"] leaves_prefix [of y ok xs k "pre @ [z]"] that by auto
    then have "set (leaves ok xs k (pre @ [z])) \<inter> set (leaves ok xs k (pre @ [x])) = {}" if "x \<in> set zs" for x
      using that Cons.prems by fastforce
    then show ?case using Cons Suc by (fastforce split: if_splits)
  qed simp
  then show ?case using Suc.prems by simp
qed

section \<open>Tests of a place\<close>

lemma scan_exists:
  assumes "\<And>i. i < n \<Longrightarrow> test (int i) = Inr (P i)"
  shows "scan (int n) test = Inr (if \<exists>i<n. P i then Return False else Next ())"
proof -
  have "for_upR (int k) (int n) (\<lambda>index u. bindE (test index) (\<lambda>hit. Inr (if hit then Return False else Next ()))) () =
    Inr (if \<exists>i<n. k \<le> i \<and> P i then Return False else Next ())" if "k \<le> n" for k
    using that
  proof (induction "n - k" arbitrary: k)
    case 0
    then show ?case by (auto simp: for_upR.simps)
  next
    case (Suc m)
    then have k: "k < n" by simp
    have IH: "for_upR (int k + 1) (int n) (\<lambda>index u. bindE (test index) (\<lambda>hit. Inr (if hit then Return False else Next ()))) () =
        Inr (if \<exists>i<n. Suc k \<le> i \<and> P i then Return False else Next ())"
      using Suc(1) [of "Suc k"] Suc(2) k by (simp add: add.commute)
    have "(\<exists>i<n. k \<le> i \<and> P i) \<longleftrightarrow> P k \<or> (\<exists>i<n. Suc k \<le> i \<and> P i)"
      using k by (metis Suc_le_eq le_eq_less_or_eq order_refl)
    then show ?case unfolding for_upR.simps [of "int k"] using k IH assms [OF k] by (auto split: if_splits)
  qed
  from this [of 0] show ?thesis by (simp add: scan_def)
qed

lemma int_ex_split: "(\<exists>k\<ge>0. Q (k :: int)) \<longleftrightarrow> Q 0 \<or> (\<exists>k\<ge>0. Q (k + 1))"
proof
  assume "\<exists>k\<ge>0. Q k"
  then obtain k where k: "0 \<le> k" "Q k" by blast
  show "Q 0 \<or> (\<exists>k\<ge>0. Q (k + 1))"
  proof (cases "k = 0")
    case False
    then show ?thesis using k by (intro disjI2 exI [of _ "k - 1"]) simp
  qed (use k in simp)
next
  assume "Q 0 \<or> (\<exists>k\<ge>0. Q (k + 1))"
  then show "\<exists>k\<ge>0. Q k" by (metis add_nonneg_nonneg order_refl zero_le_one)
qed

lemma left_diag_exists:
  assumes "\<And>i j. 0 \<le> i \<Longrightarrow> i \<le> index \<Longrightarrow> 0 \<le> j \<Longrightarrow> j \<le> jdex \<Longrightarrow> test i j = Inr (P i j)"
  shows "left_diag test index jdex =
    Inr (if \<exists>k\<ge>0. k \<le> index \<and> k \<le> jdex \<and> P (index - k) (jdex - k) then Return False else Next ())"
  using assms
proof (induction test index jdex rule: left_diag.induct)
  case (1 test index jdex)
  show ?case
  proof (cases "0 \<le> index \<and> 0 \<le> jdex")
    case False
    then have "\<not> (\<exists>k\<ge>0. k \<le> index \<and> k \<le> jdex \<and> P (index - k) (jdex - k))" by auto
    then show ?thesis using False by (auto simp: left_diag.simps [of test index])
  next
    case True
    have t: "test index jdex = Inr (P index jdex)" using "1.prems" True by simp
    have IH: "\<not> P index jdex \<Longrightarrow> left_diag test (index - 1) (jdex - 1) =
        Inr (if \<exists>k\<ge>0. k \<le> index - 1 \<and> k \<le> jdex - 1 \<and> P (index - 1 - k) (jdex - 1 - k) then Return False else Next ())"
      using "1.IH" [OF True t] "1.prems" by simp
    show ?thesis
      unfolding left_diag.simps [of test index] int_ex_split [of "\<lambda>k. k \<le> index \<and> k \<le> jdex \<and> P (index - k) (jdex - k)"]
      using True t IH by (auto simp: algebra_simps split: if_splits)
  qed
qed

lemma right_diag_exists:
  assumes "\<And>i j. 0 \<le> i \<Longrightarrow> i \<le> index \<Longrightarrow> jdex \<le> j \<Longrightarrow> j < bound \<Longrightarrow> test i j = Inr (P i j)"
  shows "right_diag test bound index jdex =
    Inr (if \<exists>k\<ge>0. k \<le> index \<and> jdex + k < bound \<and> P (index - k) (jdex + k) then Return False else Next ())"
  using assms
proof (induction test bound index jdex rule: right_diag.induct)
  case (1 test bound index jdex)
  show ?case
  proof (cases "0 \<le> index \<and> jdex < bound")
    case False
    then have "\<not> (\<exists>k\<ge>0. k \<le> index \<and> jdex + k < bound \<and> P (index - k) (jdex + k))" by auto
    then show ?thesis using False by (auto simp: right_diag.simps [of test bound index])
  next
    case True
    have t: "test index jdex = Inr (P index jdex)" using "1.prems" True by simp
    have IH: "\<not> P index jdex \<Longrightarrow> right_diag test bound (index - 1) (jdex + 1) =
        Inr (if \<exists>k\<ge>0. k \<le> index - 1 \<and> jdex + 1 + k < bound \<and> P (index - 1 - k) (jdex + 1 + k) then Return False else Next ())"
      using "1.IH" [OF True t] "1.prems" by simp
    show ?thesis
      unfolding right_diag.simps [of test bound index] int_ex_split [of "\<lambda>k. k \<le> index \<and> jdex + k < bound \<and> P (index - k) (jdex + k)"]
      using True t IH by (auto simp: algebra_simps split: if_splits)
  qed
qed

section \<open>Boards\<close>

text \<open>A placement has the column of the queen for each row from the first on.\<close>

definition queen_at :: "nat list \<Rightarrow> int \<Rightarrow> int \<Rightarrow> bool" where
  "queen_at cols i j \<longleftrightarrow> 0 \<le> i \<and> i < int (length cols) \<and> int (cols ! nat i) = j"

definition grid :: "'a \<Rightarrow> 'a \<Rightarrow> nat \<Rightarrow> nat list \<Rightarrow> 'a list list" where
  "grid q e n cols = map (\<lambda>i. map (\<lambda>j. if queen_at cols (int i) (int j) then q else e) [0..<n]) [0..<n]"

text \<open>No two queens in a column or on a diagonal: \<open>c\<close> is free in the row behind \<open>cols\<close>.\<close>

definition free_place :: "nat list \<Rightarrow> nat \<Rightarrow> bool" where
  "free_place cols c \<longleftrightarrow>
     (\<forall>i<length cols. cols ! i \<noteq> c \<and> cols ! i + (length cols - i) \<noteq> c \<and> cols ! i \<noteq> c + (length cols - i))"

lemma grid_empty: "grid q e n [] = replicate n (replicate n e)"
  by (simp add: grid_def queen_at_def map_replicate_const)

lemma length_grid [simp]: "length (grid q e n cols) = n"
  by (simp add: grid_def)

lemma grid_row: "0 \<le> i \<Longrightarrow> i < int n \<Longrightarrow> aget (grid q e n cols) i = Inr (map (\<lambda>j. if queen_at cols i (int j) then q else e) [0..<n])"
  by (simp add: aget_def grid_def)

lemma grid_set:
  assumes "length cols < n" "c < n"
  shows "aset2 (grid q e n cols) (int (length cols)) (int c) q = Inr (grid q e n (cols @ [c]))"
    and "aset2 (grid q e n (cols @ [c])) (int (length cols)) (int c) e = Inr (grid q e n cols)"
proof -
  have at: "queen_at (cols @ [c]) (int i) (int j) \<longleftrightarrow>
      (if i = length cols then j = c else queen_at cols (int i) (int j))" for i j
    by (auto simp: queen_at_def nth_append)
  have none: "\<not> queen_at cols (int (length cols)) j" for j by (simp add: queen_at_def)
  show "aset2 (grid q e n cols) (int (length cols)) (int c) q = Inr (grid q e n (cols @ [c]))"
    using assms at none unfolding aset2_def
    by (simp add: aget_def aset_def grid_def) (auto intro!: nth_equalityI simp: nth_list_update)
  show "aset2 (grid q e n (cols @ [c])) (int (length cols)) (int c) e = Inr (grid q e n cols)"
    using assms at none unfolding aset2_def
    by (simp add: aget_def aset_def grid_def) (auto intro!: nth_equalityI simp: nth_list_update)
qed

text \<open>The three loops of a test find the queens of a placement.\<close>

lemma attacked_iff:
  assumes "\<And>i. i < length cols \<Longrightarrow> cols ! i < n" "c < n"
  shows "free_place cols c \<longleftrightarrow>
    \<not> (\<exists>i<length cols. queen_at cols (int i) (int c)) \<and>
    \<not> (\<exists>k\<ge>0. k \<le> int (length cols) - 1 \<and> k \<le> int c - 1 \<and> queen_at cols (int (length cols) - 1 - k) (int c - 1 - k)) \<and>
    \<not> (\<exists>k\<ge>0. k \<le> int (length cols) - 1 \<and> int c + 1 + k < int n \<and> queen_at cols (int (length cols) - 1 - k) (int c + 1 + k))"
    (is "_ \<longleftrightarrow> \<not> ?col \<and> \<not> ?lft \<and> \<not> ?rgt")
proof -
  let ?r = "length cols"
  have col: "?col \<longleftrightarrow> (\<exists>i<?r. cols ! i = c)" by (auto simp: queen_at_def)
  have lft: "?lft \<longleftrightarrow> (\<exists>i<?r. cols ! i + (?r - i) = c)"
  proof
    assume ?lft
    then obtain k where "0 \<le> k" "k \<le> int ?r - 1" "k \<le> int c - 1" "int (cols ! nat (int ?r - 1 - k)) = int c - 1 - k"
      by (auto simp: queen_at_def)
    then show "\<exists>i<?r. cols ! i + (?r - i) = c" by (intro exI [of _ "nat (int ?r - 1 - k)"]) linarith
  next
    assume "\<exists>i<?r. cols ! i + (?r - i) = c"
    then obtain i where "i < ?r" "cols ! i + (?r - i) = c" by blast
    then show ?lft by (intro exI [of _ "int (?r - 1 - i)"]) (auto simp: queen_at_def of_nat_diff)
  qed
  have rgt: "?rgt \<longleftrightarrow> (\<exists>i<?r. cols ! i = c + (?r - i))"
  proof
    assume ?rgt
    then obtain k where "0 \<le> k" "k \<le> int ?r - 1" "int (cols ! nat (int ?r - 1 - k)) = int c + 1 + k"
      by (auto simp: queen_at_def)
    then show "\<exists>i<?r. cols ! i = c + (?r - i)" by (intro exI [of _ "nat (int ?r - 1 - k)"]) linarith
  next
    assume "\<exists>i<?r. cols ! i = c + (?r - i)"
    then obtain i where "i < ?r" "cols ! i = c + (?r - i)" by blast
    then show ?rgt using assms(1) [of i]
      by (intro exI [of _ "int (?r - 1 - i)"]) (auto simp: queen_at_def of_nat_diff)
  qed
  show ?thesis unfolding col lft rgt by (auto simp: free_place_def)
qed

section \<open>The tests of a place\<close>

lemma is_one_grid:
  assumes "0 \<le> i" "i < int n" "0 \<le> j" "j < int n"
  shows "is_one (grid 1 0 n cols) i j = Inr (queen_at cols i j)"
  unfolding is_one_def aget2_def grid_row [OF assms(1,2)] using assms(3,4) by (simp add: aget_def)

lemma is_Q_grid:
  assumes "0 \<le> i" "i < int n" "0 \<le> j" "j \<le> int n" and "\<And>k. k < length cols \<Longrightarrow> cols ! k < n"
  shows "is_Q (grid (CHR ''Q'') (CHR ''.'') n cols) i j = Inr (queen_at cols i j)"
proof (cases "j = int n")
  case True
  have "\<not> queen_at cols i j" using assms(5) [of "nat i"] True by (auto simp: queen_at_def nat_less_iff)
  then show ?thesis unfolding is_Q_def board_cell_def grid_row [OF assms(1,2)] using True by (simp add: sget_def)
next
  case False
  then show ?thesis unfolding is_Q_def board_cell_def grid_row [OF assms(1,2)] using assms(3,4) by (simp add: sget_def aget_def)
qed

definition placement :: "nat \<Rightarrow> nat list \<Rightarrow> bool" where
  "placement n cols \<longleftrightarrow> length cols < n \<and> (\<forall>k<length cols. cols ! k < n)"

lemma no_queen_here: "\<not> queen_at cols (int (length cols)) j"
  by (simp add: queen_at_def)

lemma three_tests:
  "endR (seqR (Inr (if a then Return False else Next ())) (\<lambda>_. seqR (Inr (if b then Return False else Next ()))
     (\<lambda>_. Inr (if c then Return False else Next ())))) (\<lambda>_. Inr True) = Inr (\<not> a \<and> \<not> b \<and> \<not> c)"
  by simp

lemma tests_free:
  assumes "placement n cols" "c < n"
  shows "endR (seqR (Inr (if \<exists>i<length cols. queen_at cols (int i) (int c) then Return False else Next ())) (\<lambda>_.
    seqR (Inr (if \<exists>k\<ge>0. k \<le> int (length cols) - 1 \<and> k \<le> int c - 1 \<and> queen_at cols (int (length cols) - 1 - k) (int c - 1 - k)
               then Return False else Next ())) (\<lambda>_.
    Inr (if \<exists>k\<ge>0. k \<le> int (length cols) - 1 \<and> int c + 1 + k < int n \<and> queen_at cols (int (length cols) - 1 - k) (int c + 1 + k)
         then Return False else Next ())))) (\<lambda>_. Inr True) = Inr (free_place cols c)"
  unfolding three_tests
  by (rule arg_cong [of _ _ Inr], rule sym, rule attacked_iff) (use assms in \<open>auto simp: placement_def\<close>)

lemma is_pos_valid_grid:
  assumes "placement n cols" "c < n"
  shows "is_pos_valid (grid 1 0 n cols) (int (length cols)) (int c) = Inr (free_place cols c)"
proof -
  let ?b = "grid 1 0 n cols" and ?r = "int (length cols)"
  note pl = assms(1) [unfolded placement_def]
  have line: "scan (int n) (\<lambda>index. is_one ?b ?r index) = Inr (Next ())"
    using scan_exists [of n "\<lambda>index. is_one ?b ?r index" "\<lambda>i. queen_at cols ?r (int i)"] pl
    by (simp add: is_one_grid no_queen_here)
  have col: "scan ?r (\<lambda>index. is_one ?b index (int c)) =
      Inr (if \<exists>i<length cols. queen_at cols (int i) (int c) then Return False else Next ())"
    using pl assms(2) by (intro scan_exists is_one_grid) auto
  have lft: "left_diag (is_one ?b) ?r (int c) =
      Inr (if \<exists>k\<ge>0. k \<le> ?r - 1 \<and> k \<le> int c - 1 \<and> queen_at cols (?r - 1 - k) (int c - 1 - k) then Return False else Next ())"
    using left_diag_exists [of ?r "int c" "is_one ?b" "queen_at cols"] pl assms(2) is_one_grid [of _ n _ cols]
      int_ex_split [of "\<lambda>k. k \<le> ?r \<and> k \<le> int c \<and> queen_at cols (?r - k) (int c - k)"]
    by (simp add: no_queen_here algebra_simps)
  have rgt: "right_diag (is_one ?b) (int n) ?r (int c) =
      Inr (if \<exists>k\<ge>0. k \<le> ?r - 1 \<and> int c + 1 + k < int n \<and> queen_at cols (?r - 1 - k) (int c + 1 + k) then Return False else Next ())"
    using right_diag_exists [of ?r "int c" "int n" "is_one ?b" "queen_at cols"] pl assms(2) is_one_grid [of _ n _ cols]
      int_ex_split [of "\<lambda>k. k \<le> ?r \<and> int c + k < int n \<and> queen_at cols (?r - k) (int c + k)"]
    by (simp add: no_queen_here algebra_simps)
  have rows: "aget ?b ?r = Inr (map (\<lambda>j. if queen_at cols ?r (int j) then 1 else 0) [0..<n])"
    "aget ?b 0 = Inr (map (\<lambda>j. if queen_at cols 0 (int j) then 1 else 0) [0..<n])"
    using pl by (intro grid_row; simp)+
  show ?thesis
    unfolding is_pos_valid_def rows bindE_Inr length_map length_upt minus_nat.diff_0 line seqR_simps col lft rgt
    by (rule tests_free [OF assms])
qed

lemma is_valid_n_grid:
  assumes "placement n cols" "c < n"
  shows "is_valid_n (int (length cols)) (int c) (grid (CHR ''Q'') (CHR ''.'') n cols) (int n) = Inr (free_place cols c)"
proof -
  let ?b = "grid (CHR ''Q'') (CHR ''.'') n cols" and ?r = "int (length cols)"
  note pl = assms(1) [unfolded placement_def]
  note isQ = is_Q_grid [OF _ _ _ _ spec [OF pl [THEN conjunct2], THEN mp]]
  have col: "scan ?r (\<lambda>index. is_Q ?b index (int c)) =
      Inr (if \<exists>i<length cols. queen_at cols (int i) (int c) then Return False else Next ())"
    using pl assms(2) by (intro scan_exists isQ) auto
  have lft: "left_diag (is_Q ?b) (?r - 1) (int c - 1) =
      Inr (if \<exists>k\<ge>0. k \<le> ?r - 1 \<and> k \<le> int c - 1 \<and> queen_at cols (?r - 1 - k) (int c - 1 - k) then Return False else Next ())"
    using pl assms(2) by (intro left_diag_exists isQ) auto
  have rgt: "right_diag (is_Q ?b) (int n) (?r - 1) (int c + 1) =
      Inr (if \<exists>k\<ge>0. k \<le> ?r - 1 \<and> int c + 1 + k < int n \<and> queen_at cols (?r - 1 - k) (int c + 1 + k) then Return False else Next ())"
    using pl assms(2) by (intro right_diag_exists isQ) auto
  show ?thesis
    unfolding is_valid_n_def col lft rgt by (rule tests_free [OF assms])
qed

text \<open>One place more on the right diagonal is the null character behind a text.\<close>

lemma is_valid_grid:
  assumes "placement n cols" "c < n"
  shows "is_valid (int (length cols)) (int c) (grid (CHR ''Q'') (CHR ''.'') n cols) = Inr (free_place cols c)"
proof -
  let ?b = "grid (CHR ''Q'') (CHR ''.'') n cols" and ?r = "int (length cols)"
  note pl = assms(1) [unfolded placement_def]
  note isQ = is_Q_grid [OF _ _ _ _ spec [OF pl [THEN conjunct2], THEN mp]]
  have out: "\<not> queen_at cols i (int n)" for i using pl by (auto simp: queen_at_def nat_less_iff dest: spec [of _ "nat i"])
  have rgt: "right_diag (is_Q ?b) bound (?r - 1) (int c + 1) =
      Inr (if \<exists>k\<ge>0. k \<le> ?r - 1 \<and> int c + 1 + k < bound \<and> queen_at cols (?r - 1 - k) (int c + 1 + k) then Return False else Next ())"
    if "bound \<le> int n + 1" for bound
    using pl assms(2) that by (intro right_diag_exists isQ) auto
  have same: "k \<le> ?r - 1 \<and> int c + 1 + k < int n + 1 \<and> queen_at cols (?r - 1 - k) (int c + 1 + k) \<longleftrightarrow>
      k \<le> ?r - 1 \<and> int c + 1 + k < int n \<and> queen_at cols (?r - 1 - k) (int c + 1 + k)" for k
    using out [of "?r - 1 - k"] by (cases "int c + 1 + k = int n") auto
  have "right_diag (is_Q ?b) (int n + 1) (?r - 1) (int c + 1) = right_diag (is_Q ?b) (int n) (?r - 1) (int c + 1)"
    unfolding rgt [OF order_refl] rgt [of "int n", OF less_imp_le [OF less_add_one]] same ..
  then show ?thesis
    using is_valid_n_grid [OF assms] by (simp add: is_valid_n_def is_valid_def)
qed

section \<open>The searches\<close>

lemma if_flip: "(if \<not> b then x else y) = (if b then y else x)"
  by simp

text \<open>
  \<open>bt row board results\<close> is a search that goes on over the places of a row; \<open>rep\<close> is the board of a
  placement.
\<close>

locale queen_search =
  fixes n :: nat and rep :: "nat list \<Rightarrow> 'b"
    and bt :: "int \<Rightarrow> 'b \<Rightarrow> 'b list \<Rightarrow> ('b \<times> 'b list) may"
    and ok :: "'b \<Rightarrow> int \<Rightarrow> int \<Rightarrow> fault + bool"
    and place :: "'b \<Rightarrow> int \<Rightarrow> int \<Rightarrow> fault + 'b" and clear :: "'b \<Rightarrow> int \<Rightarrow> int \<Rightarrow> fault + 'b"
  assumes full: "length cols = n \<Longrightarrow> bt (int (length cols)) (rep cols) res = retM (rep cols, res @ [rep cols])"
    and row: "placement n cols \<Longrightarrow> bt (int (length cols)) (rep cols) res =
      for_upM 0 (int n) (\<lambda>c (b, res).
        bindM (Some (ok b (int (length cols)) c)) (\<lambda>t.
        if \<not> t then retM (b, res)
        else
          bindM (Some (place b (int (length cols)) c)) (\<lambda>b.
          bindM (bt (int (length cols) + 1) b res) (\<lambda>(b, res).
          bindM (Some (clear b (int (length cols)) c)) (\<lambda>b.
          retM (b, res)))))) (rep cols, res)"
    and ok: "placement n cols \<Longrightarrow> c < n \<Longrightarrow> ok (rep cols) (int (length cols)) (int c) = Inr (free_place cols c)"
    and place: "placement n cols \<Longrightarrow> c < n \<Longrightarrow> place (rep cols) (int (length cols)) (int c) = Inr (rep (cols @ [c]))"
    and clear: "placement n cols \<Longrightarrow> c < n \<Longrightarrow> clear (rep (cols @ [c])) (int (length cols)) (int c) = Inr (rep cols)"
begin

lemma search_result:
  assumes "length cols + k = n" "\<And>i. i < length cols \<Longrightarrow> cols ! i < n"
  shows "bt (int (length cols)) (rep cols) res = retM (rep cols, res @ map rep (leaves free_place [0..<n] k cols))"
  using assms
proof (induction k arbitrary: cols res)
  case 0
  then show ?case using full [of cols res] by simp
next
  case (Suc k)
  have pl: "placement n cols" using Suc.prems by (simp add: placement_def)
  let ?f = "\<lambda>c. if free_place cols c then leaves free_place [0..<n] k (cols @ [c]) else []"
  let ?body = "\<lambda>c (b, res).
        bindM (Some (ok b (int (length cols)) c)) (\<lambda>t.
        if \<not> t then retM (b, res)
        else
          bindM (Some (place b (int (length cols)) c)) (\<lambda>b.
          bindM (bt (int (length cols) + 1) b res) (\<lambda>(b, res).
          bindM (Some (clear b (int (length cols)) c)) (\<lambda>b.
          retM (b, res)))))"
  have round: "?body (int c) (rep cols, r) = retM (rep cols, r @ map rep (?f c))" if "c < n" for c r
  proof -
    have "bt (int (length (cols @ [c]))) (rep (cols @ [c])) r =
        retM (rep (cols @ [c]), r @ map rep (leaves free_place [0..<n] k (cols @ [c])))"
      using Suc.prems that by (intro Suc.IH) (auto simp: nth_append)
    then show ?thesis using ok [OF pl that] place [OF pl that] clear [OF pl that] by (simp add: add.commute)
  qed
  have "ends (for_upM 0 (int n) ?body (rep cols, res))
      (\<lambda>s. s = (rep cols, res @ map rep (concat (map ?f [0..<nat (int n)]))))"
  proof (rule for_upM_inv [where P = "\<lambda>i s. s = (rep cols, res @ map rep (concat (map ?f [0..<nat i])))"])
    fix i s assume i: "0 \<le> i" "i < int n" and s: "s = (rep cols, res @ map rep (concat (map ?f [0..<nat i])))"
    obtain c where c: "i = int c" "c < n" using i by (metis nonneg_int_cases of_nat_less_iff)
    have up: "[0..<nat (i + 1)] = [0..<c] @ [c]" using c(1) by (simp add: nat_add_distrib)
    have "?body i s = retM (rep cols, (res @ map rep (concat (map ?f [0..<c]))) @ map rep (?f c))"
      unfolding s c(1) nat_int by (rule round [OF c(2)])
    then show "ends (?body i s) (\<lambda>s. s = (rep cols, res @ map rep (concat (map ?f [0..<nat (i + 1)]))))"
      unfolding ends_eq up map_append concat_append by simp
  qed simp_all
  then show ?case using row [OF pl] by (simp add: ends_eq)
qed

end

text \<open>The programs.\<close>

interpretation queen1: queen_search n "grid 1 0 n" "\<lambda>row board. backtrace board row" is_pos_valid
  "\<lambda>b i j. aset2 b i j 1" "\<lambda>b i j. aset2 b i j 0" for n
proof unfold_locales
  show "backtrace (grid 1 0 n cols) (int (length cols)) res = retM (grid 1 0 n cols, res @ [grid 1 0 n cols])"
    if "length cols = n" for cols res
    using that by (subst backtrace.simps) simp
  show "backtrace (grid 1 0 n cols) (int (length cols)) res =
      for_upM 0 (int n) (\<lambda>c (b, res).
        bindM (Some (is_pos_valid b (int (length cols)) c)) (\<lambda>t.
        if \<not> t then retM (b, res)
        else
          bindM (Some (aset2 b (int (length cols)) c 1)) (\<lambda>b.
          bindM (backtrace b (int (length cols) + 1) res) (\<lambda>(b, res).
          bindM (Some (aset2 b (int (length cols)) c 0)) (\<lambda>b.
          retM (b, res)))))) (grid 1 0 n cols, res)"
    if "placement n cols" for cols res
  proof -
    have "aget (grid 1 0 n cols) (int (length cols)) =
        Inr (map (\<lambda>j. if queen_at cols (int (length cols)) (int j) then 1 else (0 :: int)) [0..<n])"
      using that by (intro grid_row) (auto simp: placement_def)
    then show ?thesis using that by (subst backtrace.simps) (simp add: placement_def)
  qed
qed (simp_all add: is_pos_valid_grid grid_set placement_def)

interpretation queen2: queen_search n "grid (CHR ''Q'') (CHR ''.'') n" back_trace
  "\<lambda>b i j. is_valid i j b" "\<lambda>b i j. aset2 b i j (CHR ''Q'')" "\<lambda>b i j. aset2 b i j (CHR ''.'')" for n
proof unfold_locales
  let ?g = "grid (CHR ''Q'') (CHR ''.'') n"
  show "back_trace (int (length cols)) (?g cols) res = retM (?g cols, res @ [?g cols])"
    if "length cols = n" for cols res
    using that by (subst back_trace.simps) simp
  show "back_trace (int (length cols)) (?g cols) res =
      for_upM 0 (int n) (\<lambda>c (b, res).
        bindM (Some (is_valid (int (length cols)) c b)) (\<lambda>t.
        if \<not> t then retM (b, res)
        else
          bindM (Some (aset2 b (int (length cols)) c (CHR ''Q''))) (\<lambda>b.
          bindM (back_trace (int (length cols) + 1) b res) (\<lambda>(b, res).
          bindM (Some (aset2 b (int (length cols)) c (CHR ''.''))) (\<lambda>b.
          retM (b, res)))))) (?g cols, res)"
    if "placement n cols" for cols res
    using that by (subst back_trace.simps) (simp add: placement_def if_flip)
qed (simp_all add: is_valid_grid grid_set placement_def)

interpretation queen3: queen_search n "grid (CHR ''Q'') (CHR ''.'') n" "backtracking (int n)"
  "\<lambda>b i j. is_valid_n i j b (int n)" "\<lambda>b i j. aset2 b i j (CHR ''Q'')" "\<lambda>b i j. aset2 b i j (CHR ''.'')" for n
proof unfold_locales
  let ?g = "grid (CHR ''Q'') (CHR ''.'') n"
  show "backtracking (int n) (int (length cols)) (?g cols) res = retM (?g cols, res @ [?g cols])"
    if "length cols = n" for cols res
    using that by (subst backtracking.simps) simp
  show "backtracking (int n) (int (length cols)) (?g cols) res =
      for_upM 0 (int n) (\<lambda>c (b, res).
        bindM (Some (is_valid_n (int (length cols)) c b (int n))) (\<lambda>t.
        if \<not> t then retM (b, res)
        else
          bindM (Some (aset2 b (int (length cols)) c (CHR ''Q''))) (\<lambda>b.
          bindM (backtracking (int n) (int (length cols) + 1) b res) (\<lambda>(b, res).
          bindM (Some (aset2 b (int (length cols)) c (CHR ''.''))) (\<lambda>b.
          retM (b, res)))))) (?g cols, res)"
    if "placement n cols" for cols res
    using that by (subst backtracking.simps) (simp add: placement_def if_flip)
qed (simp_all add: is_valid_n_grid grid_set placement_def)

section \<open>Permutations\<close>

abbreviation fresh_elem :: "int list \<Rightarrow> int \<Rightarrow> bool" where
  "fresh_elem tmp x \<equiv> x \<notin> set tmp"

lemma admitted_fresh: "admitted fresh_elem xs \<longleftrightarrow> distinct xs"
  by (induction xs rule: rev_induct) (auto simp: admitted_snoc, simp add: admitted_def)

lemma permutation_leaves:
  assumes "length tmp + k = length arr" "length arr < 2 ^ 64"
  shows "permutation arr (int (length arr)) tmp res = retM (tmp, res @ leaves fresh_elem arr k tmp)"
  using assms(1)
proof (induction k arbitrary: tmp res)
  case 0
  then show ?case using assms(2) by (subst permutation.simps) (simp add: size_t_nat)
next
  case (Suc k)
  let ?f = "\<lambda>x. if fresh_elem tmp x then leaves fresh_elem arr k (tmp @ [x]) else []"
  let ?body = "\<lambda>index (t, res).
          bindM (Some (aget arr index)) (\<lambda>x.
          if x \<in> set t then retM (t, res)
          else
            bindM (permutation arr (int (length arr)) (t @ [x]) res) (\<lambda>(t, res).
            retM (butlast t, res)))"
  have round: "?body (int c) (tmp, r) = retM (tmp, r @ ?f (arr ! c))" if "c < length arr" for c r
    using Suc.IH [of "tmp @ [arr ! c]" r] Suc.prems that by simp
  have "ends (for_upM 0 (int (length arr)) ?body (tmp, res))
      (\<lambda>s. s = (tmp, res @ concat (map ?f (take (nat (int (length arr))) arr))))"
  proof (rule for_upM_inv [where P = "\<lambda>i s. s = (tmp, res @ concat (map ?f (take (nat i) arr)))"])
    fix i s assume i: "0 \<le> i" "i < int (length arr)" and s: "s = (tmp, res @ concat (map ?f (take (nat i) arr)))"
    obtain c where c: "i = int c" "c < length arr" using i by (metis nonneg_int_cases of_nat_less_iff)
    have up: "take (nat (i + 1)) arr = take c arr @ [arr ! c]" using c by (simp add: nat_add_distrib take_Suc_conv_app_nth)
    have "?body i s = retM (tmp, (res @ concat (map ?f (take c arr))) @ ?f (arr ! c))"
      unfolding s c(1) nat_int by (rule round [OF c(2)])
    then show "ends (?body i s) (\<lambda>s. s = (tmp, res @ concat (map ?f (take (nat (i + 1)) arr))))"
      unfolding ends_eq up map_append concat_append by simp
  qed simp_all
  moreover have "int (length tmp) \<noteq> size_t (int (length arr))"
    using Suc.prems assms(2) by (simp add: size_t_nat)
  ultimately show ?case by (subst permutation.simps) (simp add: ends_eq)
qed

section \<open>Properties\<close>

text \<open>No queen of a placement attacks another one.\<close>

definition peaceful :: "nat list \<Rightarrow> bool" where
  "peaceful cols \<longleftrightarrow>
     (\<forall>j<length cols. \<forall>i<j. cols ! i \<noteq> cols ! j \<and> cols ! i + (j - i) \<noteq> cols ! j \<and> cols ! i \<noteq> cols ! j + (j - i))"

lemma admitted_free_place: "admitted free_place cols \<longleftrightarrow> peaceful cols"
  by (auto simp: admitted_def free_place_def peaceful_def min_def)

text \<open>
  C20: for boards of every size, the search of \<^verbatim>\<open>queen.cc\<close> returns with the board as it was, and with the
  boards of exactly the placements of one queen per row in which no queen attacks another, each
  once.
\<close>

theorem backtrace_finds_all:
  "\<exists>sols. backtrace (replicate n (replicate n 0)) 0 [] =
       retM (replicate n (replicate n 0), map (grid 1 0 n) sols) \<and>
     set sols = {cols. length cols = n \<and> set cols \<subseteq> {..<n} \<and> peaceful cols} \<and> distinct sols"
proof -
  let ?S = "leaves free_place [0..<n] n []"
  have "admitted free_place []" by (simp add: admitted_def)
  from set_leaves [OF this, of "[0..<n]" n]
  have "set ?S = {cols. length cols = n \<and> set cols \<subseteq> {..<n} \<and> peaceful cols}"
    by (auto simp: admitted_free_place atLeast0LessThan)
  then show ?thesis
    using queen1.search_result [of "[]" n n "[]"] distinct_leaves [of "[0..<n]" free_place n "[]"]
    by (intro exI [of _ ?S]) (simp add: grid_empty)
qed

text \<open>
  C29: the functions and the class of \<^verbatim>\<open>Queen.cc\<close> find the solutions of \<^verbatim>\<open>queen.cc\<close>, in the same order,
  with the characters Q and . for 1 and 0.
\<close>

theorem queens_programs_agree:
  "\<exists>sols. backtrace (replicate n (replicate n 0)) 0 [] = retM (replicate n (replicate n 0), sols) \<and>
     (let boards = map (map (map (\<lambda>x. if x = 1 then CHR ''Q'' else CHR ''.''))) sols;
          empty_board = replicate n (replicate n (CHR ''.''))
      in back_trace 0 empty_board [] = retM (empty_board, boards) \<and> solveNQueens (int n) = retM boards)"
proof -
  let ?S = "leaves free_place [0..<n] n []" and ?to = "map (map (\<lambda>x. if x = 1 then CHR ''Q'' else CHR ''.''))"
  have to: "?to (grid 1 (0 :: int) n cols) = grid (CHR ''Q'') (CHR ''.'') n cols" for cols
    by (simp add: grid_def)
  have "map (grid (CHR ''Q'') (CHR ''.'') n) ?S = map ?to (map (grid 1 (0 :: int) n) ?S)" 
    by (rule sym, subst list.map_comp, rule list.map_cong0) (simp only: comp_apply to)
  then show ?thesis
    using queen1.search_result [of "[]" n n "[]"] queen2.search_result [of "[]" n n "[]"]
      queen3.search_result [of "[]" n n "[]"]
    by (intro exI [of _ "map (grid 1 0 n) ?S"]) (simp add: grid_empty solveNQueens_def Let_def)
qed

text \<open>
  C30: for distinct numbers, \<open>permutation\<close> leaves the list it works on empty and collects exactly their
  permutations, each once.
\<close>

theorem permutation_enumerates:
  assumes "distinct arr" "length arr < 2 ^ 31"
  shows "\<exists>perms. permutation arr (int (length arr)) [] [] = retM ([], perms) \<and>
    set perms = {xs. mset xs = mset arr} \<and> distinct perms"
proof -
  let ?S = "leaves fresh_elem arr (length arr) []"
  have "admitted fresh_elem []" by (simp add: admitted_def)
  from set_leaves [OF this, of arr "length arr"]
  have "set ?S = {xs. length xs = length arr \<and> set xs \<subseteq> set arr \<and> distinct xs}"
    by (simp add: admitted_fresh)
  moreover have "length xs = length arr \<and> set xs \<subseteq> set arr \<and> distinct xs \<longleftrightarrow> mset xs = mset arr" for xs
    using assms(1) by (metis card_subset_eq distinct_card finite_set mset_eq_imp_distinct_iff mset_eq_setD
        set_eq_iff_mset_eq_distinct size_mset subset_refl)
  ultimately show ?thesis
    using permutation_leaves [of "[]" "length arr" arr "[]"] assms distinct_leaves [of arr fresh_elem]
    by (intro exI [of _ ?S]) simp
qed

theorem permutation_enumerates_witness:
  "\<exists>perms. permutation [1, 2, 3, 4] 4 [] [] = retM ([], perms) \<and> set perms = {xs. mset xs = mset [1, 2, 3, 4]} \<and> distinct perms"
  using permutation_enumerates [of "[1, 2, 3, 4]"] by simp

text \<open>
  \<open>legal_position\<close> looks at a row, a column and one of the two diagonals: a queen on the other one
  is not seen.
\<close>

theorem legal_position_one_diagonal:
  "legal_position [[0, 0, 1], [0, 0, 0], [0, 0, 0]] 2 0 = Inr True \<and>
   legal_position [[1, 0, 0], [0, 0, 0], [0, 0, 0]] 2 2 = Inr False"
  by (code_simp)

end
