(* ===== verification/OpenLock.thy ===== *)
theory OpenLock
  imports CppLoops
begin

text \<open>
  The search for the shortest way to open a lock with four wheels: \<^verbatim>\<open>openlock.cc\<close> and \<^verbatim>\<open>Dial.cc\<close>.
  A queue is a list with its front first; a set of texts is a list whose order does not matter.
\<close>

section \<open>\<^verbatim>\<open>openlock.cc\<close>\<close>

text \<open>A \<open>char\<close> wraps around at its eight bits.\<close>

definition char_plus :: "char \<Rightarrow> nat \<Rightarrow> char" where
  "char_plus c k = char_of (of_char c + k)"

definition plus_one :: "string \<Rightarrow> int \<Rightarrow> fault + string" where
  "plus_one cur index =
     bindE (sget cur index) (\<lambda>c.
     if c = CHR ''9'' then aset cur index (CHR ''0'') else aset cur index (char_plus c 1))"

definition minus_one :: "string \<Rightarrow> int \<Rightarrow> fault + string" where
  "minus_one cur index =
     bindE (sget cur index) (\<lambda>c.
     if c = CHR ''0'' then aset cur index (CHR ''9'') else aset cur index (char_plus c 255))"

text \<open>\<open>if (visited.find(s) == visited.cend()) { queue.push(s); visited.insert(s); }\<close>\<close>

definition push_new :: "string \<Rightarrow> string list \<times> string list \<Rightarrow> string list \<times> string list" where
  "push_new s = (\<lambda>(queue, visited).
     if s \<notin> set visited then (queue @ [s], s # visited) else (queue, visited))"

text \<open>The queue when it is popped: \<open>front()\<close> of an empty one is undefined.\<close>

definition pop_front :: "string list \<Rightarrow> fault + (string \<times> string list)" where
  "pop_front queue = (case queue of [] \<Rightarrow> Inl OutOfBounds | s # q \<Rightarrow> Inr (s, q))"

definition lock_expand :: "string \<Rightarrow> string list \<times> string list \<Rightarrow> fault + (string list \<times> string list)" where
  "lock_expand front =
     for_up 0 4 (\<lambda>jdex qv.
       bindE (plus_one front jdex) (\<lambda>plus.
       let qv = push_new plus qv in
       bindE (minus_one front jdex) (\<lambda>minus.
       Inr (push_new minus qv))))"

definition lock_level :: "string list \<Rightarrow> string \<Rightarrow> int \<Rightarrow> string list \<times> string list \<Rightarrow>
    fault + (string list \<times> string list, int) flow" where
  "lock_level invalid target dial_count = (\<lambda>(queue, visited).
     for_upR 0 (int (length queue)) (\<lambda>index (queue, visited).
       bindE (pop_front queue) (\<lambda>(front, queue).
       if front \<in> set invalid then Inr (Next (queue, visited))
       else if front = target then Inr (Return dial_count)
       else bindE (lock_expand front (queue, visited)) (\<lambda>qv. Inr (Next qv)))) (queue, visited))"

partial_function (option) lock_loop :: "string list \<Rightarrow> string \<Rightarrow> int \<Rightarrow> string list \<times> string list \<Rightarrow> int may" where
  "lock_loop invalid target dial_count qv =
     (if fst qv = [] then retM (-1)
      else
        bindM (Some (lock_level invalid target dial_count qv)) (\<lambda>r.
        case r of
          Return v \<Rightarrow> retM v
        | Next qv \<Rightarrow> bindM (Some (chk (dial_count + 1))) (\<lambda>d. lock_loop invalid target d qv)))"

definition openlock :: "string list \<Rightarrow> string \<Rightarrow> int may" where
  "openlock death_vec target =
     (if target = ''0000'' then retM 0
      else lock_loop death_vec target 0 ([''0000''], [''0000'']))"

definition openlock_main :: "string may" where
  "openlock_main =
     bindM (openlock [''8887'', ''8889'', ''8878'', ''8898'', ''8788'', ''8988'', ''7888'', ''9888''] ''8888'')
       (\<lambda>r. retM (fmt_d r @ endl))"

section \<open>\<^verbatim>\<open>Dial.cc\<close>\<close>

text \<open>The comparison of the size with the index is one of \<open>size_t\<close>.\<close>

definition dial_up :: "string \<Rightarrow> int \<Rightarrow> fault + string" where
  "dial_up origin index =
     (if int (length origin) < size_t index then Inr origin
      else
        bindE (sget origin index) (\<lambda>c.
        if c = CHR ''9'' then aset origin index (CHR ''0'') else aset origin index (char_plus c 1)))"

definition dial_down :: "string \<Rightarrow> int \<Rightarrow> fault + string" where
  "dial_down origin index =
     (if int (length origin) < size_t index then Inr origin
      else
        bindE (sget origin index) (\<lambda>c.
        if c = CHR ''0'' then aset origin index (CHR ''9'') else aset origin index (char_plus c 255)))"

definition dial_expand :: "string \<Rightarrow> string list \<times> string list \<Rightarrow> fault + (string list \<times> string list)" where
  "dial_expand dial_num =
     for_up 0 4 (\<lambda>drc qv.
       bindE (dial_up dial_num drc) (\<lambda>up.
       let qv = push_new up qv in
       bindE (dial_down dial_num drc) (\<lambda>down.
       Inr (push_new down qv))))"

definition dial_level :: "string list \<Rightarrow> string \<Rightarrow> bool \<Rightarrow> int \<Rightarrow> string list \<times> string list \<Rightarrow>
    fault + (string list \<times> string list, int) flow" where
  "dial_level deadends target init dial_count = (\<lambda>(queue, visited).
     for_upR 0 (int (length queue)) (\<lambda>index (queue, visited).
       bindE (pop_front queue) (\<lambda>(dial_num, queue).
       if init \<and> dial_num \<in> set deadends then Inr (Next (queue, visited))
       else if dial_num = target then Inr (Return dial_count)
       else bindE (dial_expand dial_num (queue, visited)) (\<lambda>qv. Inr (Next qv)))) (queue, visited))"

partial_function (option) dial_loop :: "string list \<Rightarrow> string \<Rightarrow> bool \<Rightarrow> int \<Rightarrow> string list \<times> string list \<Rightarrow> int may" where
  "dial_loop deadends target init dial_count qv =
     (if fst qv = [] then retM (-1)
      else
        bindM (Some (dial_level deadends target init dial_count qv)) (\<lambda>r.
        case r of
          Return v \<Rightarrow> retM v
        | Next qv \<Rightarrow> bindM (Some (chk (dial_count + 1))) (\<lambda>d. dial_loop deadends target True d qv)))"

definition openLock :: "string list \<Rightarrow> string \<Rightarrow> int may" where
  "openLock deadends target = dial_loop deadends target False 0 ([''0000''], [])"

definition dial_main :: "string may" where
  "dial_main =
     bindM (openLock [''0000''] ''8888'') (\<lambda>r. retM (''dial count is '' @ fmt_d r @ endl))"

declare lock_loop.simps [code] dial_loop.simps [code]

end
