(* ===== verification/LockProps.thy ===== *)
theory LockProps
  imports OpenLock
begin

text \<open>
  Breadth-first search on the positions of the lock: one level of the queue as a function, the
  positions within a number of turns, and the invariant of the levels.
\<close>

section \<open>Positions and turns\<close>

definition digits :: "char set" where
  "digits = set ''0123456789''"

definition wheels :: "string \<Rightarrow> bool" where
  "wheels s \<longleftrightarrow> length s = 4 \<and> set s \<subseteq> digits"

definition turn_up :: "char \<Rightarrow> char" where
  "turn_up c = (if c = CHR ''9'' then CHR ''0'' else char_plus c 1)"

definition turn_down :: "char \<Rightarrow> char" where
  "turn_down c = (if c = CHR ''0'' then CHR ''9'' else char_plus c 255)"

definition turns_at :: "string \<Rightarrow> nat \<Rightarrow> string list" where
  "turns_at s i = [s[i := turn_up (s ! i)], s[i := turn_down (s ! i)]]"

definition turns :: "string \<Rightarrow> string list" where
  "turns s = turns_at s 0 @ turns_at s 1 @ turns_at s 2 @ turns_at s 3"

lemma char_plus_digit:
  "char_plus (CHR ''0'') 1 = CHR ''1''" "char_plus (CHR ''1'') 1 = CHR ''2''"
  "char_plus (CHR ''2'') 1 = CHR ''3''" "char_plus (CHR ''3'') 1 = CHR ''4''"
  "char_plus (CHR ''4'') 1 = CHR ''5''" "char_plus (CHR ''5'') 1 = CHR ''6''"
  "char_plus (CHR ''6'') 1 = CHR ''7''" "char_plus (CHR ''7'') 1 = CHR ''8''"
  "char_plus (CHR ''8'') 1 = CHR ''9''"
  "char_plus (CHR ''1'') 255 = CHR ''0''" "char_plus (CHR ''2'') 255 = CHR ''1''"
  "char_plus (CHR ''3'') 255 = CHR ''2''" "char_plus (CHR ''4'') 255 = CHR ''3''"
  "char_plus (CHR ''5'') 255 = CHR ''4''" "char_plus (CHR ''6'') 255 = CHR ''5''"
  "char_plus (CHR ''7'') 255 = CHR ''6''" "char_plus (CHR ''8'') 255 = CHR ''7''"
  "char_plus (CHR ''9'') 255 = CHR ''8''"
  by (code_simp)+

lemma turn_digits: "c \<in> digits \<Longrightarrow> turn_up c \<in> digits \<and> turn_down c \<in> digits"
  by (auto simp: digits_def turn_up_def turn_down_def char_plus_digit char_plus_digit [unfolded One_nat_def])

lemma wheels_nth: "wheels s \<Longrightarrow> i < 4 \<Longrightarrow> s ! i \<in> digits"
  by (auto simp: wheels_def)

lemma turns_cases:
  assumes "t \<in> set (turns s)"
  shows "\<exists>i<4. t = s[i := turn_up (s ! i)] \<or> t = s[i := turn_down (s ! i)]"
proof -
  from assms have "t \<in> set (turns_at s 0) \<or> t \<in> set (turns_at s 1) \<or> t \<in> set (turns_at s 2) \<or> t \<in> set (turns_at s 3)"
    by (simp only: turns_def set_append Un_iff disj_assoc)
  moreover have "(0 :: nat) < 4" "(1 :: nat) < 4" "(2 :: nat) < 4" "(3 :: nat) < 4" by simp_all
  ultimately show ?thesis unfolding turns_at_def by (metis empty_iff empty_set set_ConsD)
qed

lemma turns_atI: "i < 4 \<Longrightarrow> t = s[i := turn_up (s ! i)] \<or> t = s[i := turn_down (s ! i)] \<Longrightarrow> t \<in> set (turns s)"
  using less_Suc_eq [of i 3] less_Suc_eq [of i 2] less_Suc_eq [of i 1]
  by (auto simp: turns_def turns_at_def numeral_eq_Suc less_Suc_eq)

lemma wheels_turns:
  assumes "wheels s" and "t \<in> set (turns s)"
  shows "wheels t"
proof -
  have "s ! i \<in> digits" if "i < 4" for i
    using assms(1) that by (auto simp: wheels_def)
  then have "wheels (s[i := turn_up (s ! i)]) \<and> wheels (s[i := turn_down (s ! i)])" if "i < 4" for i
    using assms(1) that turn_digits set_update_subset_insert
    by (auto simp: wheels_def dest!: subsetD [OF set_update_subset_insert])
  then show ?thesis using assms(2) by (auto simp: turns_def turns_at_def)
qed

lemma card_wheels: "finite {s. wheels s}" "card {s. wheels s} = 10000"
proof -
  have eq: "{s. wheels s} = {s. set s \<subseteq> digits \<and> length s = 4}" by (auto simp: wheels_def)
  have "finite digits" "card digits = 10" by (simp_all add: digits_def)
  then show "finite {s. wheels s}" "card {s. wheels s} = 10000"
    unfolding eq using card_lists_length_eq [of digits 4] finite_lists_length_eq [of digits 4] by simp_all
qed

section \<open>One level\<close>

lemma for_up_4: "for_up 0 4 body s =
    bindE (body 0 s) (\<lambda>s. bindE (body 1 s) (\<lambda>s. bindE (body 2 s) (\<lambda>s. bindE (body 3 s) Inr)))"
proof -
  have step: "i < 4 \<Longrightarrow> for_up i 4 body = (\<lambda>s. bindE (body i s) (for_up (i + 1) 4 body))" for i
    by (rule ext) (simp add: for_up.simps [of i])
  have "for_up 4 4 body = Inr" by (rule ext) (simp add: for_up.simps)
  then show ?thesis using step [of 0] step [of 1] step [of 2] step [of 3] by simp
qed

lemma plus_one_turn: "wheels s \<Longrightarrow> i < 4 \<Longrightarrow> plus_one s (int i) = Inr (s[i := turn_up (s ! i)])"
  by (simp add: plus_one_def wheels_def turn_up_def)

lemma minus_one_turn: "wheels s \<Longrightarrow> i < 4 \<Longrightarrow> minus_one s (int i) = Inr (s[i := turn_down (s ! i)])"
  by (simp add: minus_one_def wheels_def turn_down_def)

lemma dial_up_turn: "wheels s \<Longrightarrow> i < 4 \<Longrightarrow> dial_up s (int i) = plus_one s (int i)"
  by (simp add: dial_up_def plus_one_def wheels_def size_t_nat)

lemma dial_down_turn: "wheels s \<Longrightarrow> i < 4 \<Longrightarrow> dial_down s (int i) = minus_one s (int i)"
  by (simp add: dial_down_def minus_one_def wheels_def size_t_nat)

lemma lock_expand_turns:
  assumes "wheels s"
  shows "lock_expand s qv = Inr (fold push_new (turns s) qv)"
  using plus_one_turn [OF assms, of 0] plus_one_turn [OF assms, of 1] plus_one_turn [OF assms, of 2]
    plus_one_turn [OF assms, of 3] minus_one_turn [OF assms, of 0] minus_one_turn [OF assms, of 1]
    minus_one_turn [OF assms, of 2] minus_one_turn [OF assms, of 3]
  by (simp add: lock_expand_def for_up_4 turns_def turns_at_def)

lemma dial_expand_turns:
  assumes "wheels s"
  shows "dial_expand s qv = Inr (fold push_new (turns s) qv)"
  using dial_up_turn [OF assms, of 0] dial_up_turn [OF assms, of 1] dial_up_turn [OF assms, of 2]
    dial_up_turn [OF assms, of 3] dial_down_turn [OF assms, of 0] dial_down_turn [OF assms, of 1]
    dial_down_turn [OF assms, of 2] dial_down_turn [OF assms, of 3] lock_expand_turns [OF assms, of qv]
  by (simp add: lock_expand_def dial_expand_def for_up_4)

text \<open>What the round of a position does to the queue behind the level, and to the visited ones.\<close>

definition visit :: "(string \<Rightarrow> bool) \<Rightarrow> string \<Rightarrow> string list \<times> string list \<Rightarrow> string list \<times> string list" where
  "visit D front qv = (if D front then qv else fold push_new (turns front) qv)"

lemma push_all_prefix:
  "fold push_new ss (pre @ q, v) = (pre @ fst (fold push_new ss (q, v)), snd (fold push_new ss (q, v)))"
  by (induction ss arbitrary: q v) (auto simp: push_new_def)

text \<open>The round, for whatever way the neighbours of a position are made.\<close>

definition level_round :: "(string \<Rightarrow> bool) \<Rightarrow> (string \<Rightarrow> string list \<times> string list \<Rightarrow> fault + (string list \<times> string list)) \<Rightarrow>
    string \<Rightarrow> int \<Rightarrow> string list \<times> string list \<Rightarrow> fault + (string list \<times> string list, int) flow" where
  "level_round D expand target d = (\<lambda>(queue, visited).
     bindE (pop_front queue) (\<lambda>(front, queue).
     if D front then Inr (Next (queue, visited))
     else if front = target then Inr (Return d)
     else bindE (expand front (queue, visited)) (\<lambda>qv. Inr (Next qv))))"

locale wheel_lock =
  fixes expand :: "string \<Rightarrow> string list \<times> string list \<Rightarrow> fault + (string list \<times> string list)"
  assumes expand_turns: "wheels s \<Longrightarrow> expand s qv = Inr (fold push_new (turns s) qv)"
begin

lemma level_run:
  assumes "n = i + int (length xs)" and "\<And>x. x \<in> set xs \<Longrightarrow> wheels x"
  shows "for_upR i n (\<lambda>index. level_round D expand target d) (xs @ q, v) =
    Inr (if target \<in> set xs \<and> \<not> D target then Return d else Next (fold (visit D) xs (q, v)))"
  using assms
proof (induction xs arbitrary: i q v)
  case Nil
  then show ?case by (simp add: for_upR.simps)
next
  case (Cons x xs)
  have IH: "for_upR (i + 1) n (\<lambda>index. level_round D expand target d) (xs @ q', v') =
    Inr (if target \<in> set xs \<and> \<not> D target then Return d else Next (fold (visit D) xs (q', v')))" for q' v'
    using Cons by (intro Cons.IH) auto
  have less: "i < n" using Cons.prems(1) by simp
  have x: "expand x (xs @ q, v) = Inr (xs @ fst (fold push_new (turns x) (q, v)), snd (fold push_new (turns x) (q, v)))"
    using Cons.prems(2) by (simp add: expand_turns push_all_prefix)
  consider "D x" | "\<not> D x" "x = target" | "\<not> D x" "x \<noteq> target" by blast
  then show ?case
  proof cases
    case 1
    then show ?thesis using less IH [of q v]
      by (auto simp: for_upR.simps [of i] level_round_def pop_front_def visit_def)
  next
    case 2
    then show ?thesis using less by (simp add: for_upR.simps [of i] level_round_def pop_front_def)
  next
    case 3
    then show ?thesis using less IH [of "fst (fold push_new (turns x) (q, v))" "snd (fold push_new (turns x) (q, v))"] x
      by (simp add: for_upR.simps [of i] level_round_def pop_front_def visit_def)
  qed
qed

end

interpretation lock: wheel_lock lock_expand
  by unfold_locales (rule lock_expand_turns)

interpretation dial: wheel_lock dial_expand
  by unfold_locales (rule dial_expand_turns)

lemma lock_level_run:
  assumes "\<And>x. x \<in> set q \<Longrightarrow> wheels x"
  shows "lock_level invalid target d (q, v) =
    Inr (if target \<in> set q \<and> target \<notin> set invalid then Return d
         else Next (fold (visit (\<lambda>s. s \<in> set invalid)) q ([], v)))"
  using lock.level_run [of "int (length q)" 0 q "\<lambda>s. s \<in> set invalid" target d "[]" v] assms
  by (simp add: lock_level_def level_round_def)

lemma dial_level_run:
  assumes "\<And>x. x \<in> set q \<Longrightarrow> wheels x"
  shows "dial_level dead target init d (q, v) =
    Inr (if target \<in> set q \<and> \<not> (init \<and> target \<in> set dead) then Return d
         else Next (fold (visit (\<lambda>s. init \<and> s \<in> set dead)) q ([], v)))"
  using dial.level_run [of "int (length q)" 0 q "\<lambda>s. init \<and> s \<in> set dead" target d "[]" v] assms
  by (simp add: dial_level_def level_round_def)

section \<open>Positions within a number of turns\<close>

abbreviation base :: string where "base \<equiv> ''0000''"

text \<open>A position that is not usable may be reached, but not left.\<close>

fun within :: "string set \<Rightarrow> nat \<Rightarrow> string set" where
  "within A 0 = {base}"
| "within A (Suc k) = within A k \<union> (\<Union>s \<in> within A k - A. set (turns s))"

inductive turn_path :: "string set \<Rightarrow> nat \<Rightarrow> string \<Rightarrow> bool" for A where
  start: "base \<notin> A \<Longrightarrow> turn_path A 0 base"
| turn: "turn_path A n s \<Longrightarrow> t \<in> set (turns s) \<Longrightarrow> t \<notin> A \<Longrightarrow> turn_path A (Suc n) t"

inductive_cases turn_path_0E: "turn_path A 0 t"
inductive_cases turn_path_SucE: "turn_path A (Suc n) t"

lemma turn_path_usable: "turn_path A n s \<Longrightarrow> s \<notin> A"
  by (induction rule: turn_path.induct) auto

lemma within_mono: "m \<le> n \<Longrightarrow> within A m \<subseteq> within A n"
  by (rule lift_Suc_mono_le [of "within A"]) auto

lemma wheels_within: "s \<in> within A k \<Longrightarrow> wheels s"
proof (induction k arbitrary: s)
  case 0
  then show ?case by (simp add: wheels_def digits_def)
next
  case (Suc k)
  then show ?case by (auto intro: wheels_turns)
qed

lemma turn_path_within: "turn_path A n s \<Longrightarrow> s \<in> within A n"
  by (induction rule: turn_path.induct) (auto dest: turn_path_usable)

lemma within_turn_path: "s \<in> within A k \<Longrightarrow> s \<notin> A \<Longrightarrow> \<exists>m\<le>k. turn_path A m s"
proof (induction k arbitrary: s)
  case 0
  then show ?case using start by auto
next
  case (Suc k)
  show ?case
  proof (cases "s \<in> within A k")
    case True
    then show ?thesis using Suc.IH [OF True Suc.prems(2)] le_Suc_eq by blast
  next
    case False
    then obtain r where r: "r \<in> within A k" "r \<notin> A" "s \<in> set (turns r)" using Suc.prems(1) by auto
    then obtain m where "m \<le> k" "turn_path A m r" using Suc.IH by blast
    then show ?thesis using turn r(3) Suc.prems(2) by (metis Suc_le_mono)
  qed
qed

section \<open>The invariant of the levels\<close>

lemma push_all_set:
  "set (snd (fold push_new ss (q, v))) = set v \<union> set ss"
  "set (fst (fold push_new ss (q, v))) = set q \<union> (set ss - set v)"
  by (induction ss arbitrary: q v) (auto simp: push_new_def)

lemma visit_all_sets:
  "set (snd (fold (visit D) xs (q, v))) = set v \<union> (\<Union>s \<in> {s \<in> set xs. \<not> D s}. set (turns s)) \<and>
   set (fst (fold (visit D) xs (q, v))) = set q \<union> ((\<Union>s \<in> {s \<in> set xs. \<not> D s}. set (turns s)) - set v)"
proof (induction xs arbitrary: q v)
  case Nil
  show ?case by simp
next
  case (Cons x xs)
  obtain q' v' where qv: "visit D x (q, v) = (q', v')" by force
  have sets: "set v' = set v \<union> (if D x then {} else set (turns x))"
    "set q' = set q \<union> (if D x then {} else set (turns x) - set v)"
    using qv push_all_set [of "turns x" q v] by (auto simp: visit_def split: if_splits)
  show ?case using Cons.IH [of q' v'] qv sets by auto
qed

lemmas visit_all_set = visit_all_sets [THEN conjunct1] visit_all_sets [THEN conjunct2]

definition before :: "string set \<Rightarrow> nat \<Rightarrow> string set" where
  "before A k = (case k of 0 \<Rightarrow> {} | Suc j \<Rightarrow> within A j)"

text \<open>The queue of level \<open>k\<close> and the visited positions; the base may be missing from these.\<close>

definition level_inv :: "string set \<Rightarrow> nat \<Rightarrow> string list \<times> string list \<Rightarrow> bool" where
  "level_inv A k qv \<longleftrightarrow>
     set (snd qv) \<subseteq> within A k \<and> within A k \<subseteq> insert base (set (snd qv)) \<and>
     set (fst qv) \<subseteq> within A k \<and> within A k \<subseteq> set (fst qv) \<union> before A k"

text \<open>The test agrees with \<open>A\<close>; only the base may be refused when it comes up a second time.\<close>

definition test_ok :: "string set \<Rightarrow> nat \<Rightarrow> (string \<Rightarrow> bool) \<Rightarrow> bool" where
  "test_ok A k D \<longleftrightarrow> (\<forall>s \<in> within A k. (s \<in> A \<longrightarrow> D s) \<and> (D s \<longrightarrow> s \<in> A \<or> (0 < k \<and> s = base)))"

lemma level_step:
  assumes inv: "level_inv A k (q, v)" and ok: "test_ok A k D"
  shows "level_inv A (Suc k) (fold (visit D) q ([], v))"
proof -
  let ?N = "\<Union>s \<in> {s \<in> set q. \<not> D s}. set (turns s)"
  let ?W = "within A k"
  have sub: "set v \<subseteq> ?W" "?W \<subseteq> insert base (set v)" "set q \<subseteq> ?W" "?W \<subseteq> set q \<union> before A k"
    using inv by (simp_all add: level_inv_def)
  have new: "?N \<subseteq> within A (Suc k)" using sub(3) ok by (fastforce simp: test_ok_def)
  have old: "set (turns s) \<subseteq> ?W" if "s \<in> before A k" "s \<notin> A" for s
    using that by (cases k) (auto simp: before_def)
  have base: "set (turns base) \<subseteq> ?W" if "0 < k" "base \<notin> A"
    using old [of base] that within_mono [of 0 "k - 1" A] by (cases k) (auto simp: before_def)
  have all: "within A (Suc k) \<subseteq> ?W \<union> ?N"
  proof
    fix t assume "t \<in> within A (Suc k)"
    then consider "t \<in> ?W" | s where "s \<in> ?W" "s \<notin> A" "t \<in> set (turns s)" by auto
    then show "t \<in> ?W \<union> ?N"
    proof cases
      case (2 s)
      consider "s \<in> before A k" | "s \<in> set q" "\<not> D s" | "s \<in> set q" "D s" using 2(1) sub(4) by blast
      then show ?thesis
      proof cases
        case 1
        then show ?thesis using old 2 by blast
      next
        case 2
        then show ?thesis using \<open>t \<in> set (turns s)\<close> by blast
      next
        case 3
        then have "0 < k" "s = base" using ok 2(1,2) unfolding test_ok_def by blast+
        then show ?thesis using base 2 by blast
      qed
    qed simp
  qed
  show ?thesis
    unfolding level_inv_def visit_all_set before_def
    using sub new all by auto
qed

lemma level_grows:
  assumes "fst (fold (visit D) q ([], v)) \<noteq> []"
  shows "card (set v) < card (set (snd (fold (visit D) q ([], v))))"
proof (rule psubset_card_mono)
  have "set (fst (fold (visit D) q ([], v))) \<noteq> {}" using assms by (metis set_empty)
  then show "set v \<subset> set (snd (fold (visit D) q ([], v)))"
    unfolding visit_all_set [of D q "[]" v] by auto
qed simp

lemma level_visited_card: "level_inv A k (q, v) \<Longrightarrow> card (set v) \<le> 10000"
  using card_mono [OF card_wheels(1), of "set v"] wheels_within
  by (auto simp: level_inv_def card_wheels(2) subset_iff)

end
