(* ===== verification/LockClaims.thy ===== *)
theory LockClaims
  imports LockProps
begin

text \<open>
  The two searches find the fewest turns. Both loops satisfy one equation of levels, which is the
  assumption of a locale; they differ in the test of a position.
\<close>

section \<open>The search over levels\<close>

text \<open>The length of a shortest path of usable positions, or -1.\<close>

definition fewest_turns :: "string set \<Rightarrow> string \<Rightarrow> int" where
  "fewest_turns A target =
     (if \<exists>n. turn_path A n target then int (LEAST n. turn_path A n target) else -1)"

lemma fewest_turns_found:
  assumes "level_inv A k (q, v)" "target \<notin> before A k - A" "target \<in> set q" "target \<notin> A"
  shows "fewest_turns A target = int k"
proof -
  have "target \<in> within A k" using assms(1,3) by (auto simp: level_inv_def)
  then obtain m where m: "m \<le> k" "turn_path A m target" using within_turn_path assms(4) by blast
  have least: "k \<le> n" if "turn_path A n target" for n
  proof (rule ccontr)
    assume "\<not> k \<le> n"
    then have "within A n \<subseteq> before A k" using within_mono [of n "k - 1" A] by (cases k) (auto simp: before_def)
    then show False using turn_path_within [OF that] assms(2,4) by auto
  qed
  then have "turn_path A k target" using m by (metis le_antisym)
  moreover from this have "(LEAST n. turn_path A n target) = k" using least by (intro Least_equality)
  ultimately show ?thesis by (auto simp: fewest_turns_def)
qed

lemma fewest_turns_exhausted:
  assumes "level_inv A k ([], v)" "target \<notin> before A k - A"
  shows "fewest_turns A target = -1"
proof -
  have sub: "within A k \<subseteq> before A k" using assms(1) by (simp add: level_inv_def)
  obtain j where k: "k = Suc j" using sub by (cases k) (auto simp: before_def)
  have stable: "within A n \<subseteq> within A j" for n
  proof (induction n)
    case 0
    show ?case using within_mono [of 0 j A] by simp
  next
    case (Suc n)
    then show ?case using sub by (auto simp: k before_def)
  qed
  have "\<not> turn_path A n target" for n
  proof
    assume "turn_path A n target"
    then have "target \<in> within A j" "target \<notin> A"
      using turn_path_within stable turn_path_usable by blast+
    then show False using assms(2) by (simp add: k before_def)
  qed
  then show ?thesis by (simp add: fewest_turns_def)
qed

lemma level_not_found:
  assumes "level_inv A k (q, v)" "target \<notin> before A k - A" "test_ok A k D" "\<not> (target \<in> set q \<and> \<not> D target)"
  shows "target \<notin> before A (Suc k) - A"
proof
  assume "target \<in> before A (Suc k) - A"
  then have t: "target \<in> within A k" "target \<notin> A" by (simp_all add: before_def)
  then have "target \<in> set q" using assms(1,2) by (auto simp: level_inv_def)
  then have "0 < k" "target = base" using assms(3,4) t by (auto simp: test_ok_def)
  then have "target \<in> before A k" using within_mono [of 0 "k - 1" A] by (cases k) (auto simp: before_def)
  then show False using assms(2) t(2) by simp
qed

locale level_search =
  fixes A :: "string set" and target :: string
    and loop :: "nat \<Rightarrow> string list \<times> string list \<Rightarrow> int may" and D :: "nat \<Rightarrow> string \<Rightarrow> bool"
  assumes test: "test_ok A k (D k)"
    and loop_empty: "loop k ([], v) = retM (-1)"
    and loop_level: "q \<noteq> [] \<Longrightarrow> (\<And>x. x \<in> set q \<Longrightarrow> wheels x) \<Longrightarrow> loop k (q, v) =
      (if target \<in> set q \<and> \<not> D k target then retM (int k)
       else bindM (Some (chk (int k + 1))) (\<lambda>d. loop (Suc k) (fold (visit (D k)) q ([], v))))"
begin

lemma loop_result:
  assumes "level_inv A k (q, v)" "target \<notin> before A k - A" "q \<noteq> [] \<Longrightarrow> k \<le> card (set v)"
  shows "loop k (q, v) = retM (fewest_turns A target)"
  using assms
proof (induction "2 * (10000 - card (set v)) + length (if q = [] then [] else [()])" arbitrary: k q v rule: less_induct)
  case less
  note inv = less.prems(1) and bef = less.prems(2)
  show ?case
  proof (cases "q = []")
    case True
    then show ?thesis using fewest_turns_exhausted [of A k v target] inv bef by (simp add: loop_empty)
  next
    case False
    have wh: "wheels x" if "x \<in> set q" for x
      using inv that wheels_within by (auto simp: level_inv_def)
    show ?thesis
    proof (cases "target \<in> set q \<and> \<not> D k target")
      case True
      then have "target \<notin> A" using test [of k] inv by (auto simp: test_ok_def level_inv_def)
      then show ?thesis using fewest_turns_found [OF inv bef] True
        by (simp add: loop_level [OF False wh])
    next
      case notfound: False
      obtain q' v' where qv: "fold (visit (D k)) q ([], v) = (q', v')" by force
      have inv': "level_inv A (Suc k) (q', v')" using level_step [OF inv test] qv by simp
      have bef': "target \<notin> before A (Suc k) - A" by (rule level_not_found [OF inv bef test notfound])
      have grows: "q' \<noteq> [] \<Longrightarrow> card (set v) < card (set v')" using level_grows [of "D k" q v] qv by simp
      have "set v \<subseteq> set v'" using visit_all_set(1) [of "D k" q "[]" v] qv by simp
      then have mono: "card (set v) \<le> card (set v')" by (simp add: card_mono)
      have bounds: "card (set v) \<le> 10000" "card (set v') \<le> 10000"
        using level_visited_card inv inv' by blast+
      have fit: "fits (int k + 1)" using less.prems(3) [OF False] bounds by (simp add: fits_def INT_MAX_def INT_MIN_def)
      have "loop (Suc k) (q', v') = retM (fewest_turns A target)"
      proof (rule less.hyps [OF _ inv' bef'])
        show "2 * (10000 - card (set v')) + length (if q' = [] then [] else [()])
          < 2 * (10000 - card (set v)) + length (if q = [] then [] else [()])"
          using False grows mono bounds by (cases "q' = []") auto
        show "Suc k \<le> card (set v')" if "q' \<noteq> []" using grows [OF that] less.prems(3) [OF False] by simp
      qed
      moreover have "loop k (q, v) = bindM (Some (chk (int k + 1))) (\<lambda>d. loop (Suc k) (fold (visit (D k)) q ([], v)))"
        by (rule trans [OF loop_level [OF False wh] if_not_P [OF notfound]])
      ultimately show ?thesis using fit by (simp add: qv)
    qed
  qed
qed

end

interpretation lock_search: level_search "set invalid" target
  "\<lambda>k. lock_loop invalid target (int k)" "\<lambda>k s. s \<in> set invalid" for invalid target
proof unfold_locales
  show "test_ok (set invalid) k (\<lambda>s. s \<in> set invalid)" for k by (simp add: test_ok_def)
  show "lock_loop invalid target (int k) ([], v) = retM (-1)" for k v by (simp add: lock_loop.simps)
  show "lock_loop invalid target (int k) (q, v) =
      (if target \<in> set q \<and> target \<notin> set invalid then retM (int k)
       else bindM (Some (chk (int k + 1)))
         (\<lambda>d. lock_loop invalid target (int (Suc k)) (fold (visit (\<lambda>s. s \<in> set invalid)) q ([], v))))"
    if "q \<noteq> []" "\<And>x. x \<in> set q \<Longrightarrow> wheels x" for k q v
    using that lock_level_run [of q invalid target "int k" v]
    by (subst lock_loop.simps) (simp add: chk_def add.commute)
qed

interpretation dial_search: level_search "set dead - {base}" target
  "\<lambda>k. dial_loop dead target (0 < k) (int k)" "\<lambda>k s. 0 < k \<and> s \<in> set dead" for dead target
proof unfold_locales
  show "test_ok (set dead - {base}) k (\<lambda>s. 0 < k \<and> s \<in> set dead)" for k
    by (cases k) (auto simp: test_ok_def)
  show "dial_loop dead target (0 < k) (int k) ([], v) = retM (-1)" for k :: nat and v
    by (simp add: dial_loop.simps)
  show "dial_loop dead target (0 < k) (int k) (q, v) =
      (if target \<in> set q \<and> \<not> (0 < k \<and> target \<in> set dead) then retM (int k)
       else bindM (Some (chk (int k + 1)))
         (\<lambda>d. dial_loop dead target (0 < Suc k) (int (Suc k)) (fold (visit (\<lambda>s. 0 < k \<and> s \<in> set dead)) q ([], v))))"
    if "q \<noteq> []" "\<And>x. x \<in> set q \<Longrightarrow> wheels x" for k :: nat and q v
    using that dial_level_run [of q dead target "0 < k" "int k" v]
    by (cases "k = 0"; subst dial_loop.simps) (auto simp: chk_def add.commute)
qed

section \<open>The programs\<close>

text \<open>How many turns bring a wheel from 0 to a digit.\<close>

definition wheel_cost :: "char \<Rightarrow> nat" where
  "wheel_cost c = (let k = of_char c - 48 in min k (10 - k))"

lemma wheel_cost_digit:
  "wheel_cost (CHR ''0'') = 0" "wheel_cost (CHR ''1'') = 1" "wheel_cost (CHR ''2'') = 2"
  "wheel_cost (CHR ''3'') = 3" "wheel_cost (CHR ''4'') = 4" "wheel_cost (CHR ''5'') = 5"
  "wheel_cost (CHR ''6'') = 4" "wheel_cost (CHR ''7'') = 3" "wheel_cost (CHR ''8'') = 2"
  "wheel_cost (CHR ''9'') = 1"
  by code_simp+

lemma wheel_cost_turn: "c \<in> digits \<Longrightarrow> wheel_cost (turn_up c) \<le> wheel_cost c + 1 \<and> wheel_cost (turn_down c) \<le> wheel_cost c + 1"
  by (auto simp: digits_def turn_up_def turn_down_def wheel_cost_digit wheel_cost_digit [unfolded One_nat_def]
      char_plus_digit char_plus_digit [unfolded One_nat_def])

lemma sum_list_update_le:
  "i < length xs \<Longrightarrow> (f y :: nat) \<le> f (xs ! i) + 1 \<Longrightarrow> sum_list (map f (xs[i := y])) \<le> sum_list (map f xs) + 1"
  by (induction xs arbitrary: i) (auto split: nat.splits)

lemma turn_path_cost: "turn_path A n s \<Longrightarrow> sum_list (map wheel_cost s) \<le> n"
proof (induction rule: turn_path.induct)
  case start
  show ?case by (simp add: wheel_cost_digit)
next
  case (turn n s t)
  have "wheels s" using turn.hyps(1) turn_path_within wheels_within by blast
  then have cost: "wheel_cost (turn_up (s ! i)) \<le> wheel_cost (s ! i) + 1"
    "wheel_cost (turn_down (s ! i)) \<le> wheel_cost (s ! i) + 1" if "i < 4" for i
    using wheel_cost_turn [OF wheels_nth [OF \<open>wheels s\<close> that]] by simp_all
  obtain i where "i < 4" "t = s[i := turn_up (s ! i)] \<or> t = s[i := turn_down (s ! i)]"
    using turns_cases [OF turn.hyps(2)] by blast
  then have "sum_list (map wheel_cost t) \<le> sum_list (map wheel_cost s) + 1"
    using cost [of i] sum_list_update_le [of i s wheel_cost] \<open>wheels s\<close> by (auto simp: wheels_def)
  then show ?case using turn.IH by simp
qed

lemmas turn_eval = turns_def turns_at_def turn_up_def turn_down_def char_plus_digit
  char_plus_digit [unfolded One_nat_def]

lemma turn_path_8888: "turn_path {} 8 ''8888''"
proof -
  have nxt: "turn_path {} n s \<Longrightarrow> t \<in> set (turns s) \<Longrightarrow> m = Suc n \<Longrightarrow> turn_path {} m t" for m n s t
    by (simp add: turn)
  have "turn_path {} 0 ''0000''" by (rule start) simp
  then have "turn_path {} 1 ''9000''" by (rule nxt) (simp_all add: turn_eval)
  then have "turn_path {} 2 ''8000''" by (rule nxt) (simp_all add: turn_eval)
  then have "turn_path {} 3 ''8900''" by (rule nxt) (simp_all add: turn_eval)
  then have "turn_path {} 4 ''8800''" by (rule nxt) (simp_all add: turn_eval)
  then have "turn_path {} 5 ''8890''" by (rule nxt) (simp_all add: turn_eval)
  then have "turn_path {} 6 ''8880''" by (rule nxt) (simp_all add: turn_eval)
  then have "turn_path {} 7 ''8889''" by (rule nxt) (simp_all add: turn_eval)
  then show ?thesis by (rule nxt) (simp_all add: turn_eval)
qed

lemma fewest_8888: "fewest_turns {} ''8888'' = 8"
proof -
  have "8 \<le> n" if "turn_path {} n ''8888''" for n
    using turn_path_cost [OF that] by (simp add: wheel_cost_digit)
  then have "(LEAST n. turn_path {} n ''8888'') = 8" using turn_path_8888 by (intro Least_equality)
  then show ?thesis using turn_path_8888 by (auto simp: fewest_turns_def)
qed

abbreviation all_around :: "string list" where
  "all_around \<equiv> [''8887'', ''8889'', ''8878'', ''8898'', ''8788'', ''8988'', ''7888'', ''9888'']"

lemma turn_sym: "wheels s \<Longrightarrow> t \<in> set (turns s) \<Longrightarrow> s \<in> set (turns t)"
proof -
  assume w: "wheels s" and t: "t \<in> set (turns s)"
  have inv: "turn_down (turn_up c) = c" "turn_up (turn_down c) = c" if "c \<in> digits" for c
    using that by (auto simp: digits_def turn_up_def turn_down_def char_plus_digit char_plus_digit [unfolded One_nat_def])
  obtain i where i: "i < 4" "t = s[i := turn_up (s ! i)] \<or> t = s[i := turn_down (s ! i)]"
    using turns_cases [OF t] by blast
  then have "s = t[i := turn_up (t ! i)] \<or> s = t[i := turn_down (t ! i)]"
    using w inv [OF wheels_nth [OF w i(1)]] by (auto simp: wheels_def)
  then show ?thesis by (rule turns_atI [OF i(1)])
qed

lemma no_way_in: "\<not> turn_path (set all_around) n ''8888''"
proof
  assume "turn_path (set all_around) n ''8888''"
  then show False
  proof cases
    case (turn m s)
    have "wheels s" using turn(2) turn_path_within wheels_within by blast
    then have "s \<in> set (turns ''8888'')" using turn(3) turn_sym by blast
    then show False using turn_path_usable [OF turn(2)] by (simp add: turn_eval)
  qed simp
qed

section \<open>Properties\<close>

text \<open>
  C19: \<^verbatim>\<open>openlock.cc\<close> returns for all inputs: 0 for the base, otherwise the least number of turns on a
  way over positions that are not invalid, or -1 when there is none. Its own input is answered
  with -1, since every neighbour of the target is invalid.
\<close>

theorem openlock_fewest_turns:
  "openlock death_vec target =
     retM (if target = ''0000'' then 0 else fewest_turns (set death_vec) target) \<and>
   openlock_main = retM (''-1'' @ endl)"
proof -
  have inv: "level_inv A 0 ([base], [base])" for A by (simp add: level_inv_def)
  have all: "openlock dead t = retM (if t = base then 0 else fewest_turns (set dead) t)" for dead t
    using lock_search.loop_result [of dead 0 "[base]" "[base]" t] inv
    by (simp add: openlock_def before_def)
  then show ?thesis
    using no_way_in by (simp add: openlock_main_def fewest_turns_def show_simps)
qed

text \<open>
  C28: \<^verbatim>\<open>Dial.cc\<close> returns for all inputs, and finds the least number of turns as if the base were not
  among the dead ends; where it is not, both programs agree. Its own input takes 8 turns.
\<close>

theorem dial_agrees_with_openlock:
  "openLock deadends target = retM (fewest_turns (set deadends - {''0000''}) target) \<and>
   openLock (removeAll ''0000'' deadends) target = openlock (removeAll ''0000'' deadends) target \<and>
   dial_main = retM (''dial count is 8'' @ endl)"
proof -
  have inv: "level_inv A 0 ([base], [])" "level_inv A 0 ([base], [base])" for A by (simp_all add: level_inv_def)
  have dial: "openLock dead t = retM (fewest_turns (set dead - {base}) t)" for dead t
    using dial_search.loop_result [of dead 0 "[base]" "[]" t] inv
    by (simp add: openLock_def before_def)
  have lock: "openlock dead t = retM (if t = base then 0 else fewest_turns (set dead) t)" for dead t
    using lock_search.loop_result [of dead 0 "[base]" "[base]" t] inv
    by (simp add: openlock_def before_def)
  have "fewest_turns (A - {base}) base = 0" for A
    using fewest_turns_found [OF inv(1), of base "A - {base}"] by (simp add: before_def)
  then show ?thesis using dial lock fewest_8888
    by (auto simp: dial_main_def show_simps)
qed

end
