(* ===== verification/DynProg.thy ===== *)
theory DynProg
  imports CppLoops "HOL-Library.Sublist"
begin

text \<open>
  The programs on sequences that fill a table: longest increasing subsequence
  (\<^verbatim>\<open>max_incr_substr.cc\<close>, \<^verbatim>\<open>Subsequence.cc\<close>), largest sum (\<^verbatim>\<open>Subsequence.cc\<close>,
  \<^verbatim>\<open>max_sum_subvec.cc\<close>), common subsequence (\<^verbatim>\<open>max_comm_seq.cc\<close>), palindromes
  (\<^verbatim>\<open>max_parlin_seq.cc\<close>, \<^verbatim>\<open>max_insert_parlin.cc\<close>, \<^verbatim>\<open>longest_pal_str.cc\<close>) and the knapsack
  (\<^verbatim>\<open>01Package.cc\<close>). Sums of input values must fit an \<open>int\<close>; lengths are below \<open>2 ^ 31\<close>.
\<close>

section \<open>Increasing subsequences\<close>

definition max_incr_substr :: "int list \<Rightarrow> fault + int" where
  "max_incr_substr source =
     bindE (for_up 0 (int (length source)) (\<lambda>index (incr_vec, max_incr).
       bindE (for_up 0 index (\<lambda>jdex incr_vec.
          bindE (aget source index) (\<lambda>a. bindE (aget source jdex) (\<lambda>b.
          if a > b then
            bindE (aget incr_vec jdex) (\<lambda>c. bindE (aget incr_vec index) (\<lambda>d.
            aset incr_vec index (max (c + 1) d)))
          else Inr incr_vec))) incr_vec) (\<lambda>incr_vec.
       bindE (aget incr_vec index) (\<lambda>v.
       Inr (incr_vec, if v > max_incr then v else max_incr))))
       (replicate (length source) 1, 1)) (\<lambda>(incr_vec, max_incr).
     Inr max_incr)"

text \<open>\<open>for (auto elem : results) if (elem > max) max = elem;\<close>, starting with the least \<open>int\<close>.\<close>

definition largest_in :: "int list \<Rightarrow> fault + int" where
  "largest_in results = for_in results (\<lambda>elem m. Inr (if elem > m then elem else m)) INT_MIN"

definition max_increase_sequence :: "int list \<Rightarrow> fault + int" where
  "max_increase_sequence input_vec =
     bindE (for_up 0 (int (length input_vec)) (\<lambda>index results.
       for_up 0 index (\<lambda>jdex results.
          bindE (aget input_vec jdex) (\<lambda>a. bindE (aget input_vec index) (\<lambda>b.
          if a < b then
            bindE (aget results index) (\<lambda>c. bindE (aget results jdex) (\<lambda>d.
            aset results index (max c (d + 1))))
          else Inr results))) results)
       (replicate (length input_vec) 1)) largest_in"

section \<open>Largest sums\<close>

definition max_sum_sequence :: "int list \<Rightarrow> fault + int" where
  "max_sum_sequence input_vec =
     bindE (for_up 0 (int (length input_vec)) (\<lambda>index results.
       if index = 0 then bindE (aget input_vec index) (aset results index)
       else
         bindE (aget results (index - 1)) (\<lambda>p.
         bindE (aget input_vec index) (\<lambda>x.
         bindE (chk (p + x)) (\<lambda>s.
         aset results index (max s x)))))
       (replicate (length input_vec) 0)) largest_in"

text \<open>The table is read at the index that is being written, where it still holds 0.\<close>

definition max_sum_subvec :: "int list \<Rightarrow> fault + int" where
  "max_sum_subvec source =
     bindE (aget source 0) (\<lambda>first.
     bindE (aset (replicate (length source) 0) 0 first) (\<lambda>maxsum_vec.
     bindE (for_up 1 (int (length source)) (\<lambda>index (maxsum_vec, max_sum).
       bindE (aget source index) (\<lambda>x.
       bindE (aget maxsum_vec index) (\<lambda>p.
       bindE (chk (p + x)) (\<lambda>s.
       bindE (aset maxsum_vec index (max x s)) (\<lambda>maxsum_vec.
       Inr (maxsum_vec, max max_sum (max x s)))))))
       (maxsum_vec, first)) (\<lambda>(maxsum_vec, max_sum).
     Inr max_sum)))"

section \<open>Strings\<close>

definition table :: "nat \<Rightarrow> nat \<Rightarrow> int list list" where
  "table rows cols = replicate rows (replicate cols 0)"

text \<open>The comparison is between \<open>first[index]\<close> and \<open>second[jdex]\<close>, with indices from 1 on.\<close>

definition max_comm_sequence :: "string \<Rightarrow> string \<Rightarrow> fault + int" where
  "max_comm_sequence first second =
     bindE (for_up 1 (int (length first) + 1) (\<lambda>index. for_up 1 (int (length second) + 1) (\<lambda>jdex dp.
       bindE (sget first index) (\<lambda>a. bindE (sget second jdex) (\<lambda>b.
       if a = b then bindE (aget2 dp (index - 1) (jdex - 1)) (\<lambda>v. aset2 dp index jdex (v + 1))
       else
         bindE (aget2 dp (index - 1) jdex) (\<lambda>u. bindE (aget2 dp index (jdex - 1)) (\<lambda>v.
         aset2 dp index jdex (max u v)))))))
       (table (length first + 1) (length second + 1))) (\<lambda>dp.
     aget2 dp (int (length first)) (int (length second)))"

definition max_parlin_seq :: "string \<Rightarrow> fault + int" where
  "max_parlin_seq source =
     (let size = int (length source) in
      bindE (for_up 0 size (\<lambda>index v. aset2 v index index 1) (table (length source) (length source))) (\<lambda>v.
      bindE (for_down (size - 2) 0 (\<lambda>index. for_up (index + 1) size (\<lambda>jdex v.
        bindE (sget source index) (\<lambda>a. bindE (sget source jdex) (\<lambda>b.
        if a = b then bindE (aget2 v (index + 1) (jdex - 1)) (\<lambda>x. aset2 v index jdex (x + 2))
        else
          bindE (aget2 v (index + 1) jdex) (\<lambda>x. bindE (aget2 v index (jdex - 1)) (\<lambda>y.
          aset2 v index jdex (max x y))))))) v) (\<lambda>v.
      aget2 v 0 (size - 1))))"

definition max_insert_parlin :: "string \<Rightarrow> fault + int" where
  "max_insert_parlin source =
     (let size = int (length source) in
      bindE (for_down (size - 2) 0 (\<lambda>index. for_up (index + 1) size (\<lambda>jdex v.
        bindE (sget source index) (\<lambda>a. bindE (sget source jdex) (\<lambda>b.
        if a = b then bindE (aget2 v (index + 1) (jdex - 1)) (\<lambda>x. aset2 v index jdex x)
        else
          bindE (aget2 v (index + 1) jdex) (\<lambda>x. bindE (aget2 v index (jdex - 1)) (\<lambda>y.
          aset2 v index jdex (min x y + 1))))))) (table (length source) (length source))) (\<lambda>v.
      aget2 v 0 (size - 1)))"

text \<open>A \<open>char\<close> is signed: it is above 0 when its byte is from 1 to 127.\<close>

definition char_positive :: "char \<Rightarrow> bool" where
  "char_positive c \<longleftrightarrow> 0 < (of_char c :: nat) \<and> (of_char c :: nat) < 128"

text \<open>\<open>while (left < right) ...\<close>: it answers \<open>start\<close>.\<close>

function pal_scan :: "string \<Rightarrow> int \<Rightarrow> int \<Rightarrow> int \<Rightarrow> int \<Rightarrow> fault + int" where
  "pal_scan origin index lft rgt start =
     (if lft < rgt then
        bindE (sget origin lft) (\<lambda>a. bindE (sget origin rgt) (\<lambda>b.
        if a \<noteq> b then pal_scan origin index (lft + 1) index (lft + 1)
        else pal_scan origin index (lft + 1) (rgt - 1) start))
      else Inr start)"
  by auto

termination
  by (relation "measure (\<lambda>(origin, index, lft, rgt, start). nat (max index rgt - lft))") auto

declare pal_scan.simps [simp del]

definition longest_pal_substr :: "string \<Rightarrow> fault + int" where
  "longest_pal_substr origin =
     (if length origin = 0 then Inr 0
      else
        bindE (for_up 1 (int (length origin)) (\<lambda>index match_vec.
          bindE (sget origin (index - 1)) (\<lambda>c.
          bindE (aget match_vec (index - 1)) (\<lambda>p.
          bindE (if char_positive c then
                   bindE (sget origin (p - 1)) (\<lambda>x. bindE (sget origin index) (\<lambda>y. Inr (x = y)))
                 else Inr False) (\<lambda>b.
          if b then aset match_vec index (p - 1)
          else bindE (pal_scan origin index p index p) (aset match_vec index)))))
          (replicate (length origin) 0)) (\<lambda>match_vec.
        Inr 1))"

section \<open>The knapsack\<close>

definition show_rows :: "int list list \<Rightarrow> string" where
  "show_rows rows = concat (map (\<lambda>row. concat (map show_sp row) @ endl) rows)"

definition package :: "int \<Rightarrow> int \<Rightarrow> fault + (int \<times> string)" where
  "package wight_index package_index =
     (let weight_vec = [2, 1, 3]; value_vec = [4, 2, 3] in
      bindE (for_up 1 (wight_index + 1) (\<lambda>index. for_up 1 (package_index + 1) (\<lambda>jdex row_vec.
        bindE (aget weight_vec (index - 1)) (\<lambda>w.
        if jdex < w then bindE (aget2 row_vec (index - 1) jdex) (aset2 row_vec index jdex)
        else
          bindE (aget2 row_vec (index - 1) jdex) (\<lambda>a.
          bindE (aget value_vec (index - 1)) (\<lambda>v.
          bindE (aget2 row_vec (index - 1) (jdex - w)) (\<lambda>b.
          aset2 row_vec index jdex (max a (v + b))))))))
        (table (nat (wight_index + 1)) (nat (package_index + 1)))) (\<lambda>row_vec.
      bindE (aget2 row_vec wight_index package_index) (\<lambda>r.
      Inr (r, show_rows row_vec))))"

definition knapsack :: "int \<Rightarrow> int \<Rightarrow> int list \<Rightarrow> int list \<Rightarrow> fault + int" where
  "knapsack W N wt vals =
     bindE (for_up 1 (N + 1) (\<lambda>i. for_up 1 (W + 1) (\<lambda>w dp.
       bindE (aget wt (i - 1)) (\<lambda>x.
       bindE (chk (w - x)) (\<lambda>d.
       if d < 0 then bindE (aget2 dp (i - 1) w) (aset2 dp i w)
       else
         bindE (aget2 dp (i - 1) d) (\<lambda>a.
         bindE (aget vals (i - 1)) (\<lambda>v.
         bindE (chk (a + v)) (\<lambda>s.
         bindE (aget2 dp (i - 1) w) (\<lambda>b.
         aset2 dp i w (max s b)))))))))
       (table (nat (N + 1)) (nat (W + 1)))) (\<lambda>dp.
     aget2 dp N W)"

section \<open>The programs\<close>

definition max_incr_main :: "fault + string" where
  "max_incr_main = bindE (max_incr_substr [1, 2, 3, 4, 3, 6]) (\<lambda>r. Inr (fmt_d r @ endl))"

definition subsequence_main :: "fault + string" where
  "subsequence_main =
     (let input = [1, 2, 3, -4, 1] in
      bindE (max_increase_sequence input) (\<lambda>max_count.
      bindE (max_sum_sequence input) (\<lambda>max_sum.
      Inr (''max increase sequence: '' @ fmt_d max_count @ endl @ ''max sum sequence: '' @ fmt_d max_sum @ endl))))"

definition max_sum_subvec_main :: "fault + string" where
  "max_sum_subvec_main = bindE (max_sum_subvec [-3, 1, 3, -1, 2, -4, 2]) (\<lambda>r. Inr (fmt_d r @ endl))"

definition max_comm_main :: "fault + string" where
  "max_comm_main = bindE (max_comm_sequence ''babcabe'' ''abef'') (\<lambda>r. Inr (fmt_d r @ endl))"

definition max_parlin_main :: "fault + string" where
  "max_parlin_main = bindE (max_parlin_seq ''aecba'') (\<lambda>r. Inr (fmt_d r @ endl))"

definition max_insert_main :: "fault + string" where
  "max_insert_main = bindE (max_insert_parlin ''abcea'') (\<lambda>r. Inr (fmt_d r @ endl))"

definition package_main :: "fault + string" where
  "package_main = bindE (knapsack 1 1 [1, 2, 3] [2, 4, 3]) (\<lambda>m. Inr (''max elem: '' @ fmt_d m @ endl))"

end
