(* ===== verification/SeqClaims.thy ===== *)
theory SeqClaims
  imports DynProg
begin

text \<open>
  Sequences: the two programs for the longest increasing subsequence, and the two for the largest sum
  of a contiguous part, of which one does not add up anything.
\<close>

section \<open>The largest entry\<close>

lemma largest_in_Max:
  assumes "xs \<noteq> []" "\<And>x. x \<in> set xs \<Longrightarrow> INT_MIN \<le> x"
  shows "largest_in xs = Inr (Max (set xs))"
proof -
  have "for_in ys (\<lambda>elem m. Inr (if elem > m then elem else m)) m = Inr (fold max ys m)" for ys :: "int list" and m
    by (induction ys arbitrary: m) (auto simp: max_def)
  then have "largest_in xs = Inr (Max (insert INT_MIN (set xs)))"
    by (simp add: largest_in_def Max.set_eq_fold [of INT_MIN xs, simplified])
  moreover have "Max (insert INT_MIN (set xs)) = Max (set xs)"
  proof -
    have "INT_MIN \<le> Max (set xs)" using assms Max_in [of "set xs"] by auto
    then show ?thesis using assms(1) by simp
  qed
  ultimately show ?thesis by simp
qed

section \<open>Increasing subsequences\<close>

text \<open>The longest one that ends at an index.\<close>

fun lis_end :: "int list \<Rightarrow> nat \<Rightarrow> nat" where
  "lis_end xs i = 1 + fold max (map (\<lambda>j. if xs ! j < xs ! i then lis_end xs j else 0) [0..<i]) 0"

declare lis_end.simps [simp del]

lemma fold_max_Max: "fold max ns (m :: nat) = Max (insert m (set ns))"
  using Max.set_eq_fold [of m ns] by simp

definition inc_ends :: "int list \<Rightarrow> nat \<Rightarrow> nat \<Rightarrow> bool" where
  "inc_ends xs i k \<longleftrightarrow> (\<exists>ys. subseq ys (take i xs) \<and> sorted_wrt (<) (ys @ [xs ! i]) \<and> length ys + 1 = k)"

lemma subseq_snoc:
  assumes "subseq (ys @ [y]) xs"
  shows "\<exists>j<length xs. xs ! j = y \<and> subseq ys (take j xs)"
proof -
  obtain us vs where us: "xs = us @ vs" "subseq ys us" "subseq [y] vs"
    using list_emb_appendD [OF assms] by blast
  then obtain k where k: "k < length vs" "vs ! k = y" by (auto simp: subseq_singleton_left in_set_conv_nth)
  have "subseq (ys @ []) (us @ take k vs)" using us(2) by (intro list_emb_append_mono) simp_all
  moreover have "take (length us + k) xs = us @ take k vs" "xs ! (length us + k) = y" using us(1) k by simp_all
  ultimately show ?thesis using us(1) k by (intro exI [of _ "length us + k"]) simp
qed

lemma subseq_take_snoc: "j < i \<Longrightarrow> i \<le> length xs \<Longrightarrow> subseq ys (take j xs) \<Longrightarrow> subseq (ys @ [xs ! j]) (take i xs)"
proof -
  assume h: "j < i" "i \<le> length xs" "subseq ys (take j xs)"
  have "take i xs = take j xs @ xs ! j # drop (Suc j) (take i xs)"
    using id_take_nth_drop [of j "take i xs"] h by simp
  moreover have "subseq [xs ! j] (xs ! j # drop (Suc j) (take i xs))" by (simp add: subseq_singleton_left)
  ultimately show ?thesis using list_emb_append_mono [OF h(3)] by metis
qed

lemma lis_end_both:
  assumes "i < length xs"
  shows "inc_ends xs i (lis_end xs i) \<and> (\<forall>k. inc_ends xs i k \<longrightarrow> k \<le> lis_end xs i)"
  using assms
proof (induction i rule: less_induct)
  case (less i)
  let ?g = "\<lambda>j. if xs ! j < xs ! i then lis_end xs j else 0"
  have eq: "lis_end xs i = 1 + Max (insert 0 (?g ` {0..<i}))"
    by (subst lis_end.simps) (simp add: fold_max_Max)
  have "Max (insert 0 (?g ` {0..<i})) \<in> insert 0 (?g ` {0..<i})" by (rule Max_in) auto
  then consider "lis_end xs i = 1" | j where "j < i" "xs ! j < xs ! i" "lis_end xs i = 1 + lis_end xs j"
    unfolding eq by (auto split: if_splits)
  then have first: "inc_ends xs i (lis_end xs i)"
  proof cases
    case 1
    then show ?thesis by (auto simp: inc_ends_def intro!: exI [of _ "[]"])
  next
    case (2 j)
    then obtain ys where ys: "subseq ys (take j xs)" "sorted_wrt (<) (ys @ [xs ! j])" "length ys + 1 = lis_end xs j"
      using less.IH [of j] less.prems by (auto simp: inc_ends_def)
    have "sorted_wrt (<) ((ys @ [xs ! j]) @ [xs ! i])"
      using ys(2) 2(2) by (auto simp: sorted_wrt_append)
    then show ?thesis unfolding inc_ends_def
      using subseq_take_snoc [OF 2(1) _ ys(1)] less.prems 2(3) ys(3) by (intro exI [of _ "ys @ [xs ! j]"]) simp
  qed
  have "k \<le> lis_end xs i" if k: "inc_ends xs i k" for k
  proof -
    obtain ys where ys: "subseq ys (take i xs)" "sorted_wrt (<) (ys @ [xs ! i])" "length ys + 1 = k"
      using k by (auto simp: inc_ends_def)
    show ?thesis
    proof (cases ys rule: rev_cases)
      case Nil
      then show ?thesis using ys eq by simp
    next
      case (snoc zs y)
      obtain j where j: "j < i" "xs ! j = y" "subseq zs (take j xs)"
        using subseq_snoc [of zs y "take i xs"] ys(1) snoc less.prems by (auto simp: min_def)
      have "inc_ends xs j (length zs + 1)"
        using ys(2) snoc j by (auto simp: inc_ends_def sorted_wrt_append)
      then have "length zs + 1 \<le> lis_end xs j" using less.IH [OF j(1)] less.prems j(1) by simp
      also have "\<dots> = ?g j" using ys(2) snoc j(2) by (simp add: sorted_wrt_append)
      also have "\<dots> \<le> Max (insert 0 (?g ` {0..<i}))" using j(1) by (intro Max_ge) auto
      finally show ?thesis using eq ys(3) snoc by simp
    qed
  qed
  then show ?case using first by blast
qed

lemma lis_end_longest:
  assumes "i < length xs"
  shows "inc_ends xs i (lis_end xs i)" and "inc_ends xs i k \<Longrightarrow> k \<le> lis_end xs i"
  using lis_end_both [OF assms] by blast+

definition lis :: "int list \<Rightarrow> nat" where
  "lis xs = Max (length ` {ys. subseq ys xs \<and> sorted_wrt (<) ys})"

lemma lis_ends:
  assumes "xs \<noteq> []"
  shows "Max (set (map (\<lambda>i. int (lis_end xs i)) [0..<length xs])) = int (lis xs)"
proof -
  let ?Y = "{ys. subseq ys xs \<and> sorted_wrt (<) ys}"
  have fin: "finite (length ` ?Y)"
    using finite_set [of "subseqs xs"] by (simp add: set_subseqs_eq)
  have le: "lis_end xs i \<le> lis xs" if i: "i < length xs" for i
  proof -
    obtain ys where ys: "subseq ys (take i xs)" "sorted_wrt (<) (ys @ [xs ! i])" "length ys + 1 = lis_end xs i"
      using lis_end_longest(1) [OF i] by (auto simp: inc_ends_def)
    have "subseq (ys @ [xs ! i]) (take (length xs) xs)" using i ys(1) by (intro subseq_take_snoc) simp_all
    then show ?thesis unfolding lis_def using ys fin by (intro Max_ge) (auto intro!: image_eqI [of _ _ "ys @ [xs ! i]"])
  qed
  have "\<exists>i<length xs. lis_end xs i = lis xs"
  proof -
    have "[] \<in> ?Y" by simp
    then have "lis xs \<in> length ` ?Y" unfolding lis_def by (intro Max_in fin) blast
    then obtain ys where ys: "subseq ys xs" "sorted_wrt (<) ys" "lis xs = length ys" by blast
    show ?thesis
    proof (cases ys rule: rev_cases)
      case Nil
      then have "lis xs = 0" using ys(3) by simp
      moreover have "1 \<le> lis_end xs 0" by (subst lis_end.simps) simp
      ultimately show ?thesis using le [of 0] assms by simp
    next
      case (snoc zs y)
      obtain j where j: "j < length xs" "xs ! j = y" "subseq zs (take j xs)" 
        using subseq_snoc [OF ys(1) [unfolded snoc]] by blast
      have "inc_ends xs j (length ys)" using ys(2) snoc j by (auto simp: inc_ends_def)
      then have "lis xs \<le> lis_end xs j" using lis_end_longest(2) [OF j(1)] ys(3) by simp
      then show ?thesis using le [OF j(1)] j(1) by (intro exI [of _ j]) simp
    qed
  qed
  then show ?thesis using le by (intro Max_eqI) force+
qed

text \<open>One round of the inner loop, in both programs.\<close>

definition lis_step :: "int list \<Rightarrow> nat \<Rightarrow> nat \<Rightarrow> int list \<Rightarrow> int list" where
  "lis_step xs i j v = v[i := if xs ! j < xs ! i then max (v ! i) (v ! j + 1) else v ! i]"

definition lis_inv :: "int list \<Rightarrow> nat \<Rightarrow> nat \<Rightarrow> int list \<Rightarrow> bool" where
  "lis_inv xs i j v \<longleftrightarrow> length v = length xs \<and> (\<forall>k<i. v ! k = int (lis_end xs k)) \<and> (\<forall>k<length xs. i < k \<longrightarrow> v ! k = 1) \<and>
     (i < length xs \<longrightarrow> v ! i = int (1 + fold max (map (\<lambda>j. if xs ! j < xs ! i then lis_end xs j else 0) [0..<j]) 0))"

lemma lis_inv_start: "lis_inv xs 0 0 (replicate (length xs) 1)"
  by (simp add: lis_inv_def)

lemma lis_inv_step: "lis_inv xs i j v \<Longrightarrow> j < i \<Longrightarrow> i < length xs \<Longrightarrow> lis_inv xs i (Suc j) (lis_step xs i j v)"
  by (auto simp: lis_inv_def lis_step_def nth_list_update max_def)

lemma lis_inv_next: "lis_inv xs i i v \<Longrightarrow> i < length xs \<Longrightarrow> lis_inv xs (Suc i) 0 v \<and> v ! i = int (lis_end xs i)"
  by (auto simp: lis_inv_def less_Suc_eq lis_end.simps [of xs i])

lemma lis_loop:
  assumes "\<And>i j v. j < i \<Longrightarrow> i < length xs \<Longrightarrow> length v = length xs \<Longrightarrow> body (int i) (int j) v = Inr (lis_step xs i j v)"
    and "i < length xs" "lis_inv xs i 0 v"
  shows "runs (for_up 0 (int i) (body (int i)) v) (lis_inv xs i i)"
proof -
  have "runs (for_up 0 (int i) (body (int i)) v) (\<lambda>v. lis_inv xs i (nat (int i)) v)"
  proof (rule for_up_inv [where P = "\<lambda>j v. lis_inv xs i (nat j) v"])
    fix j v assume j: "0 \<le> j" "j < int i" and P: "lis_inv xs i (nat j) v"
    obtain k where k: "j = int k" using zero_le_imp_eq_int [OF j(1)] by blast
    show "runs (body (int i) j v) (\<lambda>v. lis_inv xs i (nat (j + 1)) v)"
      using assms(1) [of k i v] assms(2) j P lis_inv_step [of xs i k v] by (simp add: k lis_inv_def nat_add_distrib)
  qed (use assms in simp_all)
  then show ?thesis by simp
qed

lemma lis_rounds:
  assumes "i < length xs" "lis_inv xs i 0 v"
  shows "runs (for_up 0 (int i) (\<lambda>jdex results.
          bindE (aget xs jdex) (\<lambda>a. bindE (aget xs (int i)) (\<lambda>b.
          if a < b then
            bindE (aget results (int i)) (\<lambda>c. bindE (aget results jdex) (\<lambda>d.
            aset results (int i) (max c (d + 1))))
          else Inr results))) v) (lis_inv xs i i)"
    and "runs (for_up 0 (int i) (\<lambda>jdex incr_vec.
          bindE (aget xs (int i)) (\<lambda>a. bindE (aget xs jdex) (\<lambda>b.
          if a > b then
            bindE (aget incr_vec jdex) (\<lambda>c. bindE (aget incr_vec (int i)) (\<lambda>d.
            aset incr_vec (int i) (max (c + 1) d)))
          else Inr incr_vec))) v) (lis_inv xs i i)"
proof -
  show "runs (for_up 0 (int i) (\<lambda>jdex results.
          bindE (aget xs jdex) (\<lambda>a. bindE (aget xs (int i)) (\<lambda>b.
          if a < b then
            bindE (aget results (int i)) (\<lambda>c. bindE (aget results jdex) (\<lambda>d.
            aset results (int i) (max c (d + 1))))
          else Inr results))) v) (lis_inv xs i i)"
    by (rule lis_loop [where body = "\<lambda>index jdex results.
          bindE (aget xs jdex) (\<lambda>a. bindE (aget xs index) (\<lambda>b.
          if a < b then
            bindE (aget results index) (\<lambda>c. bindE (aget results jdex) (\<lambda>d.
            aset results index (max c (d + 1))))
          else Inr results))", OF _ assms]) (simp add: lis_step_def)
  show "runs (for_up 0 (int i) (\<lambda>jdex incr_vec.
          bindE (aget xs (int i)) (\<lambda>a. bindE (aget xs jdex) (\<lambda>b.
          if a > b then
            bindE (aget incr_vec jdex) (\<lambda>c. bindE (aget incr_vec (int i)) (\<lambda>d.
            aset incr_vec (int i) (max (c + 1) d)))
          else Inr incr_vec))) v) (lis_inv xs i i)"
    by (rule lis_loop [where body = "\<lambda>index jdex incr_vec.
          bindE (aget xs index) (\<lambda>a. bindE (aget xs jdex) (\<lambda>b.
          if a > b then
            bindE (aget incr_vec jdex) (\<lambda>c. bindE (aget incr_vec index) (\<lambda>d.
            aset incr_vec index (max (c + 1) d)))
          else Inr incr_vec))", OF _ assms]) (simp add: lis_step_def max.commute)
qed

lemma max_increase_result:
  assumes "xs \<noteq> []"
  shows "max_increase_sequence xs = Inr (int (lis xs))"
proof -
  let ?body = "\<lambda>index results.
       for_up 0 index (\<lambda>jdex results.
          bindE (aget xs jdex) (\<lambda>a. bindE (aget xs index) (\<lambda>b.
          if a < b then
            bindE (aget results index) (\<lambda>c. bindE (aget results jdex) (\<lambda>d.
            aset results index (max c (d + 1))))
          else Inr results))) results"
  have "runs (for_up 0 (int (length xs)) ?body (replicate (length xs) 1)) (\<lambda>v. lis_inv xs (nat (int (length xs))) 0 v)"
  proof (rule for_up_inv [where P = "\<lambda>i v. lis_inv xs (nat i) 0 v"])
    fix i v assume i: "0 \<le> i" "i < int (length xs)" and P: "lis_inv xs (nat i) 0 v"
    obtain k where k: "i = int k" using zero_le_imp_eq_int [OF i(1)] by blast
    have "k < length xs" "lis_inv xs k 0 v" using i P k by simp_all
    from lis_rounds(1) [OF this] show "runs (?body i v) (\<lambda>v. lis_inv xs (nat (i + 1)) 0 v)"
      unfolding k by (rule runs_weaken) (use lis_inv_next \<open>k < length xs\<close> in \<open>simp add: nat_add_distrib\<close>)
  qed (simp_all add: lis_inv_start)
  then obtain v where v: "for_up 0 (int (length xs)) ?body (replicate (length xs) 1) = Inr v" "lis_inv xs (length xs) 0 v"
    by (auto simp: runs_def)
  have "v = map (\<lambda>i. int (lis_end xs i)) [0..<length xs]"
    using v(2) by (intro nth_equalityI) (simp_all add: lis_inv_def)
  moreover from this have "largest_in v = Inr (Max (set v))"
    using assms by (intro largest_in_Max) (auto simp: INT_MIN_def intro: order_trans [of _ 0])
  ultimately show ?thesis using v(1) lis_ends [OF assms] by (simp add: max_increase_sequence_def)
qed

lemma max_incr_result:
  assumes "xs \<noteq> []"
  shows "max_incr_substr xs = Inr (int (lis xs))"
proof -
  let ?body = "\<lambda>index (incr_vec, max_incr).
       bindE (for_up 0 index (\<lambda>jdex incr_vec.
          bindE (aget xs index) (\<lambda>a. bindE (aget xs jdex) (\<lambda>b.
          if a > b then
            bindE (aget incr_vec jdex) (\<lambda>c. bindE (aget incr_vec index) (\<lambda>d.
            aset incr_vec index (max (c + 1) d)))
          else Inr incr_vec))) incr_vec) (\<lambda>incr_vec.
       bindE (aget incr_vec index) (\<lambda>v.
       Inr (incr_vec, if v > max_incr then v else max_incr)))"
  let ?P = "\<lambda>i (v, m). lis_inv xs i 0 v \<and> m = Max (insert 1 (set (map (\<lambda>i. int (lis_end xs i)) [0..<i])))"
  have "runs (for_up 0 (int (length xs)) ?body (replicate (length xs) 1, 1)) (\<lambda>s. ?P (nat (int (length xs))) s)"
  proof (rule for_up_inv [where P = "\<lambda>i s. ?P (nat i) s"])
    fix i and s :: "int list \<times> int" assume i: "0 \<le> i" "i < int (length xs)" and P: "?P (nat i) s"
    obtain k where k: "i = int k" using zero_le_imp_eq_int [OF i(1)] by blast
    obtain v m where s: "s = (v, m)" by (cases s)
    have lt: "k < length xs" and inv: "lis_inv xs k 0 v"
      and m: "m = Max (insert 1 (set (map (\<lambda>i. int (lis_end xs i)) [0..<k])))" using i P k s by simp_all
    let ?S = "insert 1 (set (map (\<lambda>i. int (lis_end xs i)) [0..<k]))"
    have "Max (insert (int (lis_end xs k)) ?S) = max (int (lis_end xs k)) (Max ?S)" by (intro Max_insert) auto
    moreover have "insert 1 (set (map (\<lambda>i. int (lis_end xs i)) [0..<Suc k])) = insert (int (lis_end xs k)) ?S" by auto
    ultimately have "Max (insert 1 (set (map (\<lambda>i. int (lis_end xs i)) [0..<Suc k]))) = max (int (lis_end xs k)) m"
      using m by (simp only:)
    then have m': "Max (insert 1 (set (map (\<lambda>i. int (lis_end xs i)) [0..<Suc k]))) = (if int (lis_end xs k) > m then int (lis_end xs k) else m)"
      by (rule trans) (simp add: max_def)
    obtain w where w: "for_up 0 (int k) (\<lambda>jdex incr_vec.
          bindE (aget xs (int k)) (\<lambda>a. bindE (aget xs jdex) (\<lambda>b.
          if a > b then
            bindE (aget incr_vec jdex) (\<lambda>c. bindE (aget incr_vec (int k)) (\<lambda>d.
            aset incr_vec (int k) (max (c + 1) d)))
          else Inr incr_vec))) v = Inr w" "lis_inv xs k k w"
      using lis_rounds(2) [OF lt inv] by (auto simp: runs_def)
    have w': "lis_inv xs (Suc k) 0 w" "w ! k = int (lis_end xs k)" "length w = length xs"
      using lis_inv_next [OF w(2) lt] w(2) by (simp_all add: lis_inv_def)
    have body: "?body i s = Inr (w, if int (lis_end xs k) > m then int (lis_end xs k) else m)"
      unfolding s k prod.case w(1) bindE_Inr using lt w'(2,3) by simp
    show "runs (?body i s) (\<lambda>s. ?P (nat (i + 1)) s)"
      unfolding body using w'(1) m' by (simp add: k nat_add_distrib)
  qed (simp_all add: lis_inv_start)
  then obtain v where v: "for_up 0 (int (length xs)) ?body (replicate (length xs) 1, 1) =
      Inr (v, Max (insert 1 (set (map (\<lambda>i. int (lis_end xs i)) [0..<length xs]))))"
    by (auto simp: runs_def)
  let ?M = "set (map (\<lambda>i. int (lis_end xs i)) [0..<length xs])"
  have "1 \<le> int (lis_end xs 0)" by (subst lis_end.simps) simp
  also have "\<dots> \<le> Max ?M" using assms by (intro Max_ge) auto
  finally have "Max (insert 1 ?M) = Max ?M" using assms by simp
  then show ?thesis unfolding max_incr_substr_def v using lis_ends [OF assms] by simp
qed

section \<open>Largest sums\<close>

definition seg :: "int list \<Rightarrow> nat \<Rightarrow> nat \<Rightarrow> int list" where
  "seg xs p q = take (q - p) (drop p xs)"

lemma seg_snoc: "p \<le> q \<Longrightarrow> q < length xs \<Longrightarrow> seg xs p (Suc q) = seg xs p q @ [xs ! q]"
  by (simp add: seg_def Suc_diff_le take_Suc_conv_app_nth)

lemma seg_empty: "seg xs p p = []"
  by (simp add: seg_def)

lemma sublist_seg: "sublist ys xs \<longleftrightarrow> (\<exists>p q. p \<le> q \<and> q \<le> length xs \<and> ys = seg xs p q)"
proof
  assume "sublist ys xs"
  then obtain us vs where "xs = us @ ys @ vs" by (auto simp: sublist_def)
  then show "\<exists>p q. p \<le> q \<and> q \<le> length xs \<and> ys = seg xs p q"
    by (intro exI [of _ "length us"] exI [of _ "length us + length ys"]) (simp add: seg_def)
next
  assume "\<exists>p q. p \<le> q \<and> q \<le> length xs \<and> ys = seg xs p q"
  then show "sublist ys xs" unfolding seg_def by (metis append_take_drop_id sublist_def)
qed

abbreviation sums_fit :: "int list \<Rightarrow> bool" where
  "sums_fit xs \<equiv> sum_list (map abs xs) \<le> INT_MAX"

lemma sums_fit_sublist:
  assumes "sums_fit xs" "sublist ys xs"
  shows "fits (sum_list ys)"
proof -
  obtain us vs where "xs = us @ ys @ vs" using assms(2) by (auto simp: sublist_def)
  moreover have "0 \<le> sum_list (map abs zs)" for zs :: "int list" by (rule sum_list_nonneg) auto
  ultimately have "sum_list (map abs ys) \<le> INT_MAX"
    using assms(1) by simp (smt (verit, best))
  moreover have "abs (sum_list ys) \<le> sum_list (map abs ys)" by (rule sum_list_abs)
  ultimately show ?thesis by (auto simp: fits_def INT_MIN_def INT_MAX_def)
qed

text \<open>The largest sum of a part that ends with the element at \<open>k\<close>.\<close>

definition best_end :: "int list \<Rightarrow> nat \<Rightarrow> int \<Rightarrow> bool" where
  "best_end xs k m \<longleftrightarrow> (\<exists>p\<le>k. m = sum_list (seg xs p (Suc k))) \<and> (\<forall>p\<le>k. sum_list (seg xs p (Suc k)) \<le> m)"

lemma best_end_first: "xs \<noteq> [] \<Longrightarrow> best_end xs 0 (xs ! 0)"
  by (simp add: best_end_def seg_snoc seg_empty)

lemma best_end_next:
  assumes "best_end xs k m" "Suc k < length xs"
  shows "best_end xs (Suc k) (max (m + xs ! Suc k) (xs ! Suc k))"
proof -
  have s: "sum_list (seg xs p (Suc (Suc k))) = sum_list (seg xs p (Suc k)) + xs ! Suc k" if "p \<le> Suc k" for p
    using seg_snoc [OF that assms(2)] by simp
  obtain p where p: "p \<le> k" "m = sum_list (seg xs p (Suc k))" using assms(1) by (auto simp: best_end_def)
  have "\<exists>q\<le>Suc k. max (m + xs ! Suc k) (xs ! Suc k) = sum_list (seg xs q (Suc (Suc k)))"
  proof (cases "0 \<le> m")
    case True
    then show ?thesis using s [of p] p by (intro exI [of _ p]) simp
  next
    case False
    then show ?thesis using s [of "Suc k"] by (intro exI [of _ "Suc k"]) (simp add: seg_empty)
  qed
  moreover have "sum_list (seg xs q (Suc (Suc k))) \<le> max (m + xs ! Suc k) (xs ! Suc k)" if "q \<le> Suc k" for q
  proof (cases "q = Suc k")
    case True
    then show ?thesis using s [OF that] by (simp add: seg_empty)
  next
    case False
    then show ?thesis using s [OF that] assms(1) that by (auto simp: best_end_def le_Suc_eq intro: le_max_iff_disj [THEN iffD2])
  qed
  ultimately show ?thesis unfolding best_end_def by blast
qed

definition max_seg :: "int list \<Rightarrow> int" where
  "max_seg xs = Max {sum_list ys |ys. sublist ys xs \<and> ys \<noteq> []}"

lemma max_seg_ends:
  assumes "xs \<noteq> []" "length v = length xs" "\<And>k. k < length xs \<Longrightarrow> best_end xs k (v ! k)"
  shows "Max (set v) = max_seg xs"
proof -
  let ?S = "{sum_list ys |ys. sublist ys xs \<and> ys \<noteq> []}"
  have fin: "finite ?S"
  proof (rule finite_subset)
    show "?S \<subseteq> sum_list ` (\<lambda>(p, q). seg xs p q) ` ({..length xs} \<times> {..length xs})"
      by (fastforce simp: sublist_seg)
  qed simp
  have in_S: "v ! k \<in> ?S" if k: "k < length xs" for k
  proof -
    obtain p where p: "p \<le> k" "v ! k = sum_list (seg xs p (Suc k))" using assms(3) [OF k] by (auto simp: best_end_def)
    have "sublist (seg xs p (Suc k)) xs" unfolding sublist_seg using p(1) k by (metis Suc_leI le_SucI)
    moreover have "seg xs p (Suc k) \<noteq> []" using p(1) k by (simp add: seg_snoc)
    ultimately show ?thesis using p(2) by blast
  qed
  have above: "\<exists>k<length xs. s \<le> v ! k" if s: "s \<in> ?S" for s
  proof -
    obtain ys where ys: "s = sum_list ys" "sublist ys xs" "ys \<noteq> []" using s by blast
    then obtain p q where pq: "p \<le> q" "q \<le> length xs" "ys = seg xs p q" by (auto simp: sublist_seg)
    then obtain k where k: "q = Suc k" "p \<le> k" using ys(3) by (cases q) (auto simp: seg_empty le_Suc_eq seg_def)
    then show ?thesis using assms(3) [of k] pq ys(1) by (auto simp: best_end_def intro!: exI [of _ k])
  qed
  show ?thesis unfolding max_seg_def
  proof (rule Max_eqI)
    show "s \<le> Max {sum_list ys |ys. sublist ys xs \<and> ys \<noteq> []}" if s: "s \<in> set v" for s
    proof -
      have "s \<in> ?S" using s in_S assms(2) by (auto simp: in_set_conv_nth)
      then show ?thesis by (rule Max_ge [OF fin])
    qed
    have "?S \<noteq> {}" using in_S [of 0] assms(1) by blast
    then have "Max ?S \<in> ?S" by (rule Max_in [OF fin])
    then obtain k where k: "k < length xs" "Max ?S \<le> v ! k" using above by blast
    then have "Max ?S = v ! k" using Max_ge [OF fin in_S [OF k(1)]] by simp
    then show "Max ?S \<in> set v" using k(1) assms(2) by simp
  qed simp
qed

lemma max_sum_sequence_result:
  assumes "xs \<noteq> []" "sums_fit xs"
  shows "max_sum_sequence xs = Inr (max_seg xs)"
proof -
  let ?body = "\<lambda>index results.
       if index = 0 then bindE (aget xs index) (aset results index)
       else
         bindE (aget results (index - 1)) (\<lambda>p.
         bindE (aget xs index) (\<lambda>x.
         bindE (chk (p + x)) (\<lambda>s.
         aset results index (max s x))))"
  let ?P = "\<lambda>i v. length v = length xs \<and> (\<forall>k<i. best_end xs k (v ! k))"
  have "runs (for_up 0 (int (length xs)) ?body (replicate (length xs) 0)) (\<lambda>v. ?P (nat (int (length xs))) v)"
  proof (rule for_up_inv [where P = "\<lambda>i v. ?P (nat i) v"])
    fix i v assume i: "0 \<le> i" "i < int (length xs)" and P: "?P (nat i) v"
    obtain k where k: "i = int k" using zero_le_imp_eq_int [OF i(1)] by blast
    have lt: "k < length xs" "length v = length xs" and best: "\<forall>j<k. best_end xs j (v ! j)" using i P k by simp_all
    show "runs (?body i v) (\<lambda>v. ?P (nat (i + 1)) v)"
    proof (cases k)
      case 0
      then show ?thesis using k lt best_end_first [OF assms(1)] by (simp add: aget_def aset_def)
    next
      case (Suc j)
      then have bj: "best_end xs j (v ! j)" using best by simp
      then obtain p where p: "p \<le> j" "v ! j = sum_list (seg xs p (Suc j))" by (auto simp: best_end_def)
      have "v ! j + xs ! k = sum_list (seg xs p (Suc k))" using seg_snoc [of p k xs] p lt(1) Suc by simp
      moreover have "sublist (seg xs p (Suc k)) xs" unfolding sublist_seg using p(1) lt(1) Suc by (metis Suc_leI le_SucI)
      ultimately have fit: "fits (v ! j + xs ! k)" using sums_fit_sublist [OF assms(2)] by metis
      have "best_end xs k (max (v ! j + xs ! k) (xs ! k))" using best_end_next [OF bj] lt(1) Suc by simp
      moreover have "?body i v = Inr (v[k := max (v ! j + xs ! k) (xs ! k)])"
        using k lt Suc fit by (simp add: aget_def aset_def nat_diff_distrib nat_add_distrib)
      ultimately show ?thesis using lt best Suc k by (simp add: nat_add_distrib less_Suc_eq nth_list_update)
    qed
  qed simp_all
  then obtain v where v: "for_up 0 (int (length xs)) ?body (replicate (length xs) 0) = Inr v"
    "length v = length xs" "\<And>k. k < length xs \<Longrightarrow> best_end xs k (v ! k)" by (auto simp: runs_def)
  have "INT_MIN \<le> x" if x: "x \<in> set v" for x
  proof -
    obtain k where k: "k < length xs" "x = v ! k" using x v(2) by (auto simp: in_set_conv_nth)
    then obtain p where p: "p \<le> k" "x = sum_list (seg xs p (Suc k))" using v(3) by (auto simp: best_end_def)
    have "sublist (seg xs p (Suc k)) xs" unfolding sublist_seg using p(1) k(1) by (metis Suc_leI le_SucI)
    then show ?thesis using sums_fit_sublist [OF assms(2)] p(2) by (metis fits_def)
  qed
  moreover have "v \<noteq> []" using v(2) assms(1) by auto
  ultimately show ?thesis
    using largest_in_Max [of v] max_seg_ends [OF assms(1) v(2,3)] v(1) by (simp add: max_sum_sequence_def)
qed

lemma max_sum_subvec_result:
  assumes "xs \<noteq> []" "sums_fit xs"
  shows "max_sum_subvec xs = Inr (Max (set xs))"
proof -
  let ?body = "\<lambda>index (maxsum_vec, max_sum).
       bindE (aget xs index) (\<lambda>x.
       bindE (aget maxsum_vec index) (\<lambda>p.
       bindE (chk (p + x)) (\<lambda>s.
       bindE (aset maxsum_vec index (max x s)) (\<lambda>maxsum_vec.
       Inr (maxsum_vec, max max_sum (max x s))))))"
  let ?P = "\<lambda>i (v, m). length v = length xs \<and> (\<forall>k<length xs. i \<le> k \<longrightarrow> v ! k = 0) \<and> m = Max (set (take i xs))"
  let ?v = "(replicate (length xs) 0)[0 := xs ! 0]"
  have pos: "0 < length xs" using assms(1) by simp
  have "runs (for_up 1 (int (length xs)) ?body (?v, xs ! 0)) (\<lambda>s. ?P (nat (int (length xs))) s)"
  proof (rule for_up_inv [where P = "\<lambda>i s. ?P (nat i) s"])
    fix i and s :: "int list \<times> int" assume i: "1 \<le> i" "i < int (length xs)" and P: "?P (nat i) s"
    obtain k where k: "i = int k" "0 < k" using zero_le_imp_eq_int [of i] i(1) by auto
    obtain v m where s: "s = (v, m)" by (cases s)
    have lt: "k < length xs" "length v = length xs" and zero: "\<forall>j<length xs. k \<le> j \<longrightarrow> v ! j = 0"
      and m: "m = Max (set (take k xs))" using i P k s by simp_all
    have "sublist (seg xs k (Suc k)) xs" unfolding sublist_seg using lt(1) by (metis Suc_leI le_SucI order_refl)
    then have "fits (xs ! k)" using sums_fit_sublist [OF assms(2)] lt(1) by (metis append_Nil seg_empty seg_snoc order_refl sum_list.Cons sum_list.Nil add_0_right)
    then have body: "?body i s = Inr (v[k := xs ! k], max m (xs ! k))"
      using s k lt zero by (simp add: aget_def aset_def)
    have "take k xs \<noteq> []" using k(2) lt(1) by auto
    then have "Max (insert (xs ! k) (set (take k xs))) = max (xs ! k) m" unfolding m by (intro Max_insert) auto
    moreover have "set (take (Suc k) xs) = insert (xs ! k) (set (take k xs))"
      using lt(1) by (simp add: take_Suc_conv_app_nth)
    ultimately have "max m (xs ! k) = Max (set (take (Suc k) xs))" by (simp add: max.commute)
    then show "runs (?body i s) (\<lambda>s. ?P (nat (i + 1)) s)"
      unfolding body using lt zero k by (simp add: nat_add_distrib)
  next
    show "?P (nat 1) (?v, xs ! 0)" using assms(1) by (cases xs) auto
  qed (use pos in \<open>simp add: Suc_le_eq\<close>)
  then obtain v where "for_up 1 (int (length xs)) ?body (?v, xs ! 0) = Inr (v, Max (set xs))"
    by (auto simp: runs_def)
  then show ?thesis using pos by (simp add: max_sum_subvec_def aget_def aset_def)
qed

section \<open>Properties\<close>

text \<open>
  C26: both programs compute the length of a longest increasing subsequence; for an empty input one
  answers 1 and the other the least \<open>int\<close>.
\<close>

theorem increasing_subsequence_programs:
  "max_increase_sequence xs = Inr (if xs = [] then INT_MIN else int (lis xs)) \<and>
   max_incr_substr xs = Inr (if xs = [] then 1 else int (lis xs))"
proof (cases "xs = []")
  case True
  then show ?thesis by (simp add: max_increase_sequence_def max_incr_substr_def for_up_empty largest_in_def)
next
  case False
  then show ?thesis by (simp add: max_increase_result max_incr_result)
qed

text \<open>
  C36: \<open>max_sum_sequence\<close> computes the largest sum of a contiguous part that is not empty, while
  \<open>max_sum_subvec\<close>, which is meant to do the same, answers the largest element, and reads out of
  bounds for an empty vector.
\<close>

theorem largest_sum_programs:
  assumes "xs \<noteq> []" "sum_list (map abs xs) \<le> INT_MAX"
  shows "max_sum_sequence xs = Inr (max_seg xs) \<and> max_sum_subvec xs = Inr (Max (set xs)) \<and>
    max_sum_subvec [] = Inl OutOfBounds"
  using max_sum_sequence_result [OF assms] max_sum_subvec_result [OF assms]
  by (simp add: max_sum_subvec_def aget_def)

theorem largest_sum_programs_witness:
  "max_sum_sequence [-3, 1, 3, -1, 2, -4, 2] = Inr (max_seg [-3, 1, 3, -1, 2, -4, 2]) \<and>
   max_sum_subvec [-3, 1, 3, -1, 2, -4, 2] = Inr 3"
  using largest_sum_programs [of "[-3, 1, 3, -1, 2, -4, 2]"] by (simp add: INT_MAX_def)

end
