(* ===== verification/TableClaims.thy ===== *)
theory TableClaims
  imports DynProg
begin

text \<open>
  The programs that fill a table with two indices: a table as a function of its indices, the knapsack,
  common subsequences, and palindromes.
\<close>

section \<open>Tables\<close>

definition tab :: "nat \<Rightarrow> nat \<Rightarrow> (nat \<Rightarrow> nat \<Rightarrow> int) \<Rightarrow> int list list" where
  "tab rows cols f = map (\<lambda>i. map (\<lambda>j. f i j) [0..<cols]) [0..<rows]"

lemma table_tab: "table rows cols = tab rows cols (\<lambda>i j. 0)"
  by (simp add: table_def tab_def map_replicate_const)

lemma tab_get: "i < rows \<Longrightarrow> j < cols \<Longrightarrow> aget2 (tab rows cols f) (int i) (int j) = Inr (f i j)"
  by (simp add: aget2_def tab_def aget_def)

lemma tab_set: "i < rows \<Longrightarrow> j < cols \<Longrightarrow>
    aset2 (tab rows cols f) (int i) (int j) x = Inr (tab rows cols (\<lambda>a b. if a = i \<and> b = j then x else f a b))"
  by (simp add: aset2_def tab_def aget_def aset_def) (auto intro!: nth_equalityI simp: nth_list_update)

lemma tab_cong: "(\<And>i j. i < rows \<Longrightarrow> j < cols \<Longrightarrow> f i j = g i j) \<Longrightarrow> tab rows cols f = tab rows cols g"
  by (simp add: tab_def)

text \<open>
  A table that is filled row by row, from index 1 on, with the values of \<open>g\<close>; a row and a column of
  zeros lie before them.
\<close>

definition filled :: "(nat \<Rightarrow> nat \<Rightarrow> int) \<Rightarrow> nat \<Rightarrow> nat \<Rightarrow> nat \<Rightarrow> nat \<Rightarrow> int" where
  "filled g i j a b = (if a < i \<or> (a = i \<and> b < j) then g a b else 0)"

lemma fill_rows:
  assumes zero: "\<And>b. g 0 b = 0" "\<And>a. a < rows \<Longrightarrow> g a 0 = 0"
    and body: "\<And>i j. 0 < i \<Longrightarrow> i < rows \<Longrightarrow> 0 < j \<Longrightarrow> j < cols \<Longrightarrow>
      body (int i) (int j) (tab rows cols (filled g i j)) = Inr (tab rows cols (\<lambda>a b. if a = i \<and> b = j then g i j else filled g i j a b))"
    and sizes: "0 < rows" "0 < cols"
  shows "for_up 1 (int rows) (\<lambda>index. for_up 1 (int cols) (body index)) (table rows cols) = Inr (tab rows cols g)"
proof -
  have row: "for_up 1 (int cols) (body (int i)) (tab rows cols (filled g i 1)) = Inr (tab rows cols (filled g (Suc i) 1))"
    if i: "0 < i" "i < rows" for i
  proof -
    have "runs (for_up 1 (int cols) (body (int i)) (tab rows cols (filled g i 1)))
      (\<lambda>t. t = tab rows cols (filled g i (nat (int cols))))"
    proof (rule for_up_inv [where P = "\<lambda>j t. t = tab rows cols (filled g i (nat j))"])
      fix j t assume j: "1 \<le> j" "j < int cols" and t: "t = tab rows cols (filled g i (nat j))"
      obtain k where k: "j = int k" "0 < k" using zero_le_imp_eq_int [of j] j(1) by auto
      have "(\<lambda>a b. if a = i \<and> b = k then g i k else filled g i k a b) = filled g i (Suc k)"
        by (intro ext) (auto simp: filled_def)
      then show "runs (body (int i) j t) (\<lambda>t. t = tab rows cols (filled g i (nat (j + 1))))"
        using body [OF i k(2), of] j(2) by (simp add: k(1) t nat_add_distrib)
    qed (use sizes in \<open>simp_all add: Suc_le_eq\<close>)
    moreover have "tab rows cols (filled g i cols) = tab rows cols (filled g (Suc i) 1)"
      using zero by (intro tab_cong) (auto simp: filled_def less_Suc_eq)
    ultimately show ?thesis by (simp add: runs_eq)
  qed
  have start: "table rows cols = tab rows cols (filled g 1 1)"
    unfolding table_tab using zero by (intro tab_cong) (auto simp: filled_def)
  have "runs (for_up 1 (int rows) (\<lambda>index. for_up 1 (int cols) (body index)) (table rows cols))
    (\<lambda>t. t = tab rows cols (filled g (nat (int rows)) 1))"
  proof (rule for_up_inv [where P = "\<lambda>i t. t = tab rows cols (filled g (nat i) 1)"])
    fix i t assume i: "1 \<le> i" "i < int rows" and t: "t = tab rows cols (filled g (nat i) 1)"
    obtain k where k: "i = int k" "0 < k" using zero_le_imp_eq_int [of i] i(1) by auto
    show "runs (for_up 1 (int cols) (body i) t) (\<lambda>t. t = tab rows cols (filled g (nat (i + 1)) 1))"
      using row [of k] k i(2) by (simp add: t nat_add_distrib)
  qed (use sizes start in \<open>simp_all add: Suc_le_eq\<close>)
  moreover have "tab rows cols (filled g rows 1) = tab rows cols g" by (intro tab_cong) (simp add: filled_def)
  ultimately show ?thesis by (simp add: runs_eq)
qed

section \<open>The knapsack\<close>

text \<open>The best value of some of the first \<open>n\<close> things within the weight \<open>w\<close>.\<close>

definition packs :: "int list \<Rightarrow> nat \<Rightarrow> nat \<Rightarrow> nat set \<Rightarrow> bool" where
  "packs wt n w T \<longleftrightarrow> T \<subseteq> {..<n} \<and> (\<Sum>i\<in>T. wt ! i) \<le> int w"

definition best_pack :: "int list \<Rightarrow> int list \<Rightarrow> nat \<Rightarrow> nat \<Rightarrow> int" where
  "best_pack wt vals n w = Max {\<Sum>i\<in>T. vals ! i |T. packs wt n w T}"

fun sack :: "int list \<Rightarrow> int list \<Rightarrow> nat \<Rightarrow> nat \<Rightarrow> int" where
  "sack wt vals 0 w = 0"
| "sack wt vals (Suc n) w =
     (if int w < wt ! n then sack wt vals n w
      else max (sack wt vals n (nat (int w - wt ! n)) + vals ! n) (sack wt vals n w))"

lemma sack_best:
  assumes "\<And>i. i < n \<Longrightarrow> 0 < wt ! i"
  shows "(\<exists>T. packs wt n w T \<and> sack wt vals n w = (\<Sum>i\<in>T. vals ! i)) \<and>
    (\<forall>T. packs wt n w T \<longrightarrow> (\<Sum>i\<in>T. vals ! i) \<le> sack wt vals n w)"
  using assms
proof (induction n arbitrary: w)
  case 0
  then show ?case by (auto simp: packs_def intro!: exI [of _ "{}"])
next
  case (Suc n)
  have IH: "(\<exists>T. packs wt n w T \<and> sack wt vals n w = (\<Sum>i\<in>T. vals ! i)) \<and>
      (\<forall>T. packs wt n w T \<longrightarrow> (\<Sum>i\<in>T. vals ! i) \<le> sack wt vals n w)" for w
    using Suc by simp
  have pos: "0 < wt ! n" using Suc.prems by simp
  have nonneg: "0 \<le> (\<Sum>i\<in>T. wt ! i)" if "T \<subseteq> {..<n}" for T
    using that Suc.prems by (intro sum_nonneg) (force simp: less_imp_le)
  have with_n: "packs wt (Suc n) w T \<Longrightarrow> n \<in> T \<Longrightarrow>
      wt ! n \<le> int w \<and> packs wt n (nat (int w - wt ! n)) (T - {n}) \<and> (\<Sum>i\<in>T. vals ! i) = vals ! n + (\<Sum>i\<in>T - {n}. vals ! i)" for T
  proof -
    assume T: "packs wt (Suc n) w T" "n \<in> T"
    then have fin: "finite T" using finite_subset [of T "{..<Suc n}"] by (simp add: packs_def)
    have sub: "T - {n} \<subseteq> {..<n}" using T by (auto simp: packs_def less_Suc_eq)
    have w: "(\<Sum>i\<in>T. wt ! i) = wt ! n + (\<Sum>i\<in>T - {n}. wt ! i)" using sum.remove [OF fin T(2)] .
    have v: "(\<Sum>i\<in>T. vals ! i) = vals ! n + (\<Sum>i\<in>T - {n}. vals ! i)" using sum.remove [OF fin T(2)] .
    have fits: "wt ! n + (\<Sum>i\<in>T - {n}. wt ! i) \<le> int w" using T(1) unfolding packs_def w by blast
    then have "wt ! n \<le> int w" "(\<Sum>i\<in>T - {n}. wt ! i) \<le> int (nat (int w - wt ! n))"
      using nonneg [OF sub] by linarith+
    then show ?thesis using sub v unfolding packs_def by blast
  qed
  have without_n: "packs wt (Suc n) w T \<Longrightarrow> n \<notin> T \<Longrightarrow> packs wt n w T" for T
    by (auto simp: packs_def less_Suc_eq)
  show ?case
  proof
    show "\<exists>T. packs wt (Suc n) w T \<and> sack wt vals (Suc n) w = (\<Sum>i\<in>T. vals ! i)"
    proof (cases "int w < wt ! n \<or> sack wt vals n (nat (int w - wt ! n)) + vals ! n \<le> sack wt vals n w")
      case True
      then have same: "sack wt vals (Suc n) w = sack wt vals n w" by (auto simp: max_def)
      obtain T where T: "packs wt n w T" "sack wt vals n w = (\<Sum>i\<in>T. vals ! i)" using IH by blast
      then have "packs wt (Suc n) w T" by (auto simp: packs_def less_Suc_eq)
      then show ?thesis using T(2) same by metis
    next
      case False
      obtain T where T: "packs wt n (nat (int w - wt ! n)) T" "sack wt vals n (nat (int w - wt ! n)) = (\<Sum>i\<in>T. vals ! i)"
        using IH by blast
      then have new: "n \<notin> T" "finite T" using finite_subset [of T "{..<n}"] by (auto simp: packs_def)
      then have sums: "(\<Sum>i\<in>insert n T. f i) = f n + (\<Sum>i\<in>T. f i)" for f :: "nat \<Rightarrow> int" by simp
      have "packs wt (Suc n) w (insert n T)"
        using T(1) False unfolding packs_def sums by (auto simp: less_Suc_eq)
      moreover have "sack wt vals (Suc n) w = (\<Sum>i\<in>insert n T. vals ! i)"
        using False T(2) unfolding sums by (simp add: max_def)
      ultimately show ?thesis by blast
    qed
    show "\<forall>T. packs wt (Suc n) w T \<longrightarrow> (\<Sum>i\<in>T. vals ! i) \<le> sack wt vals (Suc n) w"
    proof (intro allI impI)
      fix T assume T: "packs wt (Suc n) w T"
      show "(\<Sum>i\<in>T. vals ! i) \<le> sack wt vals (Suc n) w"
      proof (cases "n \<in> T")
        case True
        note w = with_n [OF T True]
        then have "(\<Sum>i\<in>T - {n}. vals ! i) \<le> sack wt vals n (nat (int w - wt ! n))" using IH by blast
        then show ?thesis using w by simp
      next
        case False
        then have "(\<Sum>i\<in>T. vals ! i) \<le> sack wt vals n w" using without_n [OF T False] IH by blast
        then show ?thesis by (auto simp: max_def)
      qed
    qed
  qed
qed

lemma best_pack_sack:
  assumes "\<And>i. i < n \<Longrightarrow> 0 < wt ! i"
  shows "best_pack wt vals n w = sack wt vals n w"
proof -
  have "{\<Sum>i\<in>T. vals ! i |T. packs wt n w T} \<subseteq> (\<lambda>T. \<Sum>i\<in>T. vals ! i) ` Pow {..<n}" by (auto simp: packs_def)
  then have "finite {\<Sum>i\<in>T. vals ! i |T. packs wt n w T}" by (rule finite_subset) simp
  then show ?thesis unfolding best_pack_def using sack_best [OF assms, of n w vals] by (intro Max_eqI) auto
qed

lemma sack_zero: "(\<And>i. i < n \<Longrightarrow> 0 < wt ! i) \<Longrightarrow> sack wt vals n 0 = 0"
  by (induction n) auto

lemma sack_bounds:
  assumes "\<And>i. i < n \<Longrightarrow> 0 \<le> vals ! i"
  shows "0 \<le> sack wt vals n w" "sack wt vals n w \<le> (\<Sum>i<n. vals ! i)"
  using assms
proof (induction n arbitrary: w)
  case (Suc n)
  { case 1 then show ?case using Suc.IH(1) [of w] by (auto simp: le_max_iff_disj) }
  { case 2
    then have "0 \<le> vals ! n" "\<And>v. sack wt vals n v \<le> (\<Sum>i<n. vals ! i)" using Suc.IH(2) by auto
    then show ?case using add_mono [of "sack wt vals n w" "\<Sum>i<n. vals ! i" 0 "vals ! n"] by auto }
qed simp_all

text \<open>The numbers a program may pass to the knapsack of the first \<open>n\<close> things.\<close>

definition things :: "int list \<Rightarrow> int list \<Rightarrow> nat \<Rightarrow> bool" where
  "things wt vals n \<longleftrightarrow> n \<le> length wt \<and> n \<le> length vals \<and> (\<forall>i<n. 0 < wt ! i \<and> wt ! i \<le> INT_MAX) \<and>
     (\<forall>i<n. 0 \<le> vals ! i) \<and> (\<Sum>i<n. vals ! i) \<le> INT_MAX"

lemma thingsD:
  assumes "things wt vals n" "k < n"
  shows "aget wt (int k) = Inr (wt ! k)" "aget vals (int k) = Inr (vals ! k)"
    "0 < wt ! k" "wt ! k \<le> INT_MAX" "0 \<le> vals ! k" "0 \<le> sack wt vals k w" "sack wt vals k w + vals ! k \<le> INT_MAX"
proof -
  have "sack wt vals k w \<le> (\<Sum>j<k. vals ! j)" "0 \<le> sack wt vals k w"
    using assms sack_bounds [of k vals wt w] by (simp_all add: things_def)
  moreover have "(\<Sum>j<Suc k. vals ! j) \<le> (\<Sum>j<n. vals ! j)"
    using assms by (intro sum_mono2) (auto simp: things_def)
  ultimately show "0 \<le> sack wt vals k w" "sack wt vals k w + vals ! k \<le> INT_MAX"
    using assms by (auto simp: things_def)
  show "aget wt (int k) = Inr (wt ! k)" "aget vals (int k) = Inr (vals ! k)"
    "0 < wt ! k" "wt ! k \<le> INT_MAX" "0 \<le> vals ! k"
    using assms by (auto simp: things_def aget_def)
qed

text \<open>
  C22: \<open>knapsack\<close> (\<^verbatim>\<open>01Package.cc\<close>) answers the best value of a choice among the first
  \<open>n\<close> things whose weights together stay within \<open>w\<close>, for weights of at least 1 and values of at
  least 0 that add up to no more than an \<open>int\<close> holds.
\<close>

theorem knapsack_best:
  assumes ok: "things wt vals n" and w: "int w < INT_MAX"
  shows "knapsack (int w) (int n) wt vals = Inr (best_pack wt vals n w)"
proof -
  have pos: "\<And>i. i < n \<Longrightarrow> 0 < wt ! i" using ok by (simp add: things_def)
  define body where "body i j dp =
    (bindE (aget wt (i - 1)) (\<lambda>x. bindE (chk (j - x)) (\<lambda>d.
       if d < 0 then bindE (aget2 dp (i - 1) j) (aset2 dp i j)
       else bindE (aget2 dp (i - 1) d) (\<lambda>a. bindE (aget vals (i - 1)) (\<lambda>v. bindE (chk (a + v)) (\<lambda>s.
         bindE (aget2 dp (i - 1) j) (\<lambda>b. aset2 dp i j (max s b))))))))" for i j dp
  have "for_up 1 (int (Suc n)) (\<lambda>i. for_up 1 (int (Suc w)) (body i)) (table (Suc n) (Suc w)) =
    Inr (tab (Suc n) (Suc w) (sack wt vals))"
  proof (rule fill_rows)
    fix i j assume ij: "0 < i" "i < Suc n" "0 < j" "j < Suc w"
    obtain k where i: "i = Suc k" "k < n" using ij by (cases i) auto
    note th = thingsD [OF ok i(2)]
    let ?t = "tab (Suc n) (Suc w) (filled (sack wt vals) (Suc k) j)"
    have prev: "int (Suc k) - 1 = int k" by simp
    have fit: "fits (int j - wt ! k)" using th(3,4) ij w by (simp add: fits_def INT_MIN_def INT_MAX_def)
    have get: "aget2 ?t (int k) (int b) = Inr (sack wt vals k b)" if "b < Suc w" for b
      using that i by (subst tab_get) (auto simp: filled_def)
    have set: "aset2 ?t (int (Suc k)) (int j) x =
        Inr (tab (Suc n) (Suc w) (\<lambda>a b. if a = Suc k \<and> b = j then x else filled (sack wt vals) (Suc k) j a b))" for x
      using ij i by (intro tab_set) auto
    show "body (int i) (int j) (tab (Suc n) (Suc w) (filled (sack wt vals) i j)) =
      Inr (tab (Suc n) (Suc w) (\<lambda>a b. if a = i \<and> b = j then sack wt vals i j else filled (sack wt vals) i j a b))"
    proof (cases "int j < wt ! k")
      case True
      then have "sack wt vals (Suc k) j = sack wt vals k j" by simp
      then show ?thesis unfolding i body_def prev using fit ij True by (simp only: th(1) bindE_Inr chk_ok get set) simp
    next
      case False
      define d where "d = nat (int j - wt ! k)"
      have d: "int j - wt ! k = int d" "d < Suc w" using False ij th(3) by (auto simp: d_def)
      have "sack wt vals (Suc k) j = max (sack wt vals k d + vals ! k) (sack wt vals k j)"
        using False by (simp add: d_def)
      moreover have "fits (sack wt vals k d + vals ! k)"
        using th(5) th(6,7) [of d] by (simp add: fits_def INT_MIN_def)
      ultimately show ?thesis unfolding i body_def prev using fit ij
        by (simp only: th(1,2) bindE_Inr chk_ok get set d if_False not_less of_nat_0_le_iff) simp
    qed
  qed (use pos sack_zero in auto)
  then have "for_up 1 (int n + 1) (\<lambda>i. for_up 1 (int w + 1) (body i)) (table (nat (int n + 1)) (nat (int w + 1))) =
    Inr (tab (Suc n) (Suc w) (sack wt vals))" by (simp add: nat_add_distrib add.commute)
  then show ?thesis unfolding knapsack_def body_def by (simp add: tab_get best_pack_sack [OF pos])
qed

theorem knapsack_best_witness:
  "things [2, 1, 3] [4, 2, 3] 3 \<and> knapsack 4 3 [2, 1, 3] [4, 2, 3] = Inr (best_pack [2, 1, 3] [4, 2, 3] 3 4) \<and>
   best_pack [2, 1, 3] [4, 2, 3] 3 4 = 6"
proof -
  have pos: "0 < [2, 1, 3::int] ! i" if "i < 3" for i :: nat
    using that by (auto simp: numeral_eq_Suc less_Suc_eq)
  have ok: "things [2, 1, 3] [4, 2, 3] 3"
    by (auto simp: things_def numeral_eq_Suc less_Suc_eq INT_MAX_def)
  moreover have "best_pack [2, 1, 3] [4, 2, 3] 3 4 = 6"
    using best_pack_sack [OF pos] by (simp add: numeral_eq_Suc)
  ultimately show ?thesis using knapsack_best [OF ok, of 4] by (simp add: INT_MAX_def)
qed

section \<open>Common subsequences\<close>

text \<open>The length of the longest common subsequence of the first \<open>i\<close> of \<open>a\<close> and the first \<open>j\<close> of \<open>b\<close>.\<close>

fun common :: "'a list \<Rightarrow> 'a list \<Rightarrow> nat \<Rightarrow> nat \<Rightarrow> nat" where
  "common a b 0 j = 0"
| "common a b i 0 = 0"
| "common a b (Suc i) (Suc j) =
     (if a ! i = b ! j then Suc (common a b i j) else max (common a b i (Suc j)) (common a b (Suc i) j))"

lemma subseq_snoc_iff: "subseq zs (xs @ [x]) \<longleftrightarrow> subseq zs xs \<or> (\<exists>ys. zs = ys @ [x] \<and> subseq ys xs)"
proof
  assume "subseq zs (xs @ [x])"
  then obtain ys ws where z: "zs = ys @ ws" "subseq ys xs" "subseq ws [x]" by (rule subseq_appendE)
  then have "ws = [] \<or> ws = [x]" by (cases ws) (auto split: if_splits)
  then show "subseq zs xs \<or> (\<exists>ys. zs = ys @ [x] \<and> subseq ys xs)" using z by auto
qed auto

definition longest_common :: "'a list \<Rightarrow> 'a list \<Rightarrow> nat" where
  "longest_common xs ys = Max {length zs |zs. subseq zs xs \<and> subseq zs ys}"

lemma common_best:
  assumes "i \<le> length a" "j \<le> length b"
  shows "(\<exists>zs. subseq zs (take i a) \<and> subseq zs (take j b) \<and> length zs = common a b i j) \<and>
    (\<forall>zs. subseq zs (take i a) \<and> subseq zs (take j b) \<longrightarrow> length zs \<le> common a b i j)"
  using assms
proof (induction a b i j rule: common.induct)
  case (3 a b i j)
  have sa: "take (Suc i) a = take i a @ [a ! i]" and sb: "take (Suc j) b = take j b @ [b ! j]"
    using "3.prems" by (simp_all add: take_Suc_conv_app_nth)
  show ?case
  proof (cases "a ! i = b ! j")
    case True
    obtain zs where zs: "subseq zs (take i a)" "subseq zs (take j b)" "length zs = common a b i j"
      using "3.IH"(1) [OF True] "3.prems" by auto
    have best: "length ys \<le> common a b i j" if "subseq ys (take i a)" "subseq ys (take j b)" for ys
      using "3.IH"(1) [OF True] "3.prems" that by auto
    have "length ys \<le> Suc (common a b i j)" if ys: "subseq ys (take (Suc i) a)" "subseq ys (take (Suc j) b)" for ys
    proof (cases ys rule: rev_cases)
      case (snoc us u)
      have "subseq us (take i a)" "subseq us (take j b)"
        using ys subseq_order.trans [of us "us @ [u]"] unfolding sa sb subseq_snoc_iff snoc by auto
      then show ?thesis using best [of us] snoc by simp
    qed simp
    moreover have "subseq (zs @ [a ! i]) (take (Suc i) a)" "subseq (zs @ [a ! i]) (take (Suc j) b)"
      using zs True by (simp_all add: sa sb)
    ultimately show ?thesis using True zs(3) by (auto intro!: exI [of _ "zs @ [a ! i]"])
  next
    case False
    note I = "3.IH"(2) [OF False] "3.IH"(3) [OF False]
    have "length ys \<le> max (common a b i (Suc j)) (common a b (Suc i) j)"
      if ys: "subseq ys (take (Suc i) a)" "subseq ys (take (Suc j) b)" for ys
    proof (cases "subseq ys (take i a)")
      case True
      then show ?thesis using I(1) "3.prems" ys(2) by (simp add: le_max_iff_disj)
    next
      case not: False
      then have "subseq ys (take j b)" using ys False unfolding sa sb subseq_snoc_iff by auto
      then show ?thesis using I(2) "3.prems" ys(1) by (simp add: le_max_iff_disj)
    qed
    moreover obtain us where us: "subseq us (take i a)" "subseq us (take (Suc j) b)" "length us = common a b i (Suc j)"
      using I(1) "3.prems" by auto
    moreover obtain vs where vs: "subseq vs (take (Suc i) a)" "subseq vs (take j b)" "length vs = common a b (Suc i) j"
      using I(2) "3.prems" by auto
    moreover have "subseq us (take (Suc i) a)" "subseq vs (take (Suc j) b)" using us vs by (simp_all add: sa sb subseq_snoc_iff)
    ultimately show ?thesis using False by (cases "common a b i (Suc j) \<le> common a b (Suc i) j") (auto simp: max_def)
  qed
qed auto

lemma longest_common_eq: "longest_common a b = common a b (length a) (length b)"
proof -
  have "finite {zs. subseq zs a \<and> subseq zs b}" by (rule finite_subset [OF _ finite_set [of "subseqs a"]]) auto
  then have "finite {length zs |zs. subseq zs a \<and> subseq zs b}" by simp
  then show ?thesis unfolding longest_common_def
    using common_best [of "length a" a "length b" b] by (intro Max_eqI) (auto simp: eq_commute)
qed

text \<open>What the program compares of a string: its first character never, its terminating NUL always.\<close>

definition compared :: "string \<Rightarrow> string" where
  "compared s = (if s = [] then [] else tl s @ [CHR 0x00])"

lemma compared_simps: "length (compared s) = length s"
    "k < length s \<Longrightarrow> sget s (int (Suc k)) = Inr (compared s ! k)"
proof -
  show "length (compared s) = length s" by (cases s) (simp_all add: compared_def)
  show "sget s (int (Suc k)) = Inr (compared s ! k)" if k: "k < length s"
  proof (cases "Suc k = length s")
    case True
    then show ?thesis by (cases s) (auto simp: compared_def sget_def nth_append)
  next
    case False
    then have "Suc k < length s" using k by simp
    then show ?thesis by (cases s) (auto simp: compared_def nth_append simp del: of_nat_Suc)
  qed
qed

text \<open>
  C27: \<open>max_comm_sequence\<close> (\<^verbatim>\<open>max_comm_seq.cc\<close>) fills its table from index 1 on and compares the
  characters at these indices, so that the first character of each string is never looked at and the
  terminating NULs always match: it answers the length of the longest common subsequence of the two strings
  without their first and with their NUL character.
\<close>

theorem comm_sequence_off_by_one:
  "max_comm_sequence first second = Inr (int (longest_common (compared first) (compared second)))"
proof -
  define g where "g i j = int (common (compared first) (compared second) i j)" for i j
  define body where "body i j dp = (bindE (sget first i) (\<lambda>a. bindE (sget second j) (\<lambda>b.
       if a = b then bindE (aget2 dp (i - 1) (j - 1)) (\<lambda>v. aset2 dp i j (v + 1))
       else bindE (aget2 dp (i - 1) j) (\<lambda>u. bindE (aget2 dp i (j - 1)) (\<lambda>v. aset2 dp i j (max u v))))))" for i j and dp :: "int list list"
  let ?n = "Suc (length first)" and ?m = "Suc (length second)"
  have "for_up 1 (int ?n) (\<lambda>i. for_up 1 (int ?m) (body i)) (table ?n ?m) = Inr (tab ?n ?m g)"
  proof (rule fill_rows)
    fix i j assume ij: "0 < i" "i < ?n" "0 < j" "j < ?m"
    obtain k l where kl: "i = Suc k" "k < length first" "j = Suc l" "l < length second"
      using ij by (cases i; cases j) auto
    let ?t = "tab ?n ?m (filled g (Suc k) (Suc l))"
    have prev: "int (Suc k) - 1 = int k" "int (Suc l) - 1 = int l" by simp_all
    have get: "aget2 ?t (int k) (int b) = Inr (g k b)" if "b < ?m" for b
      using that kl by (subst tab_get) (auto simp: filled_def)
    have lft: "aget2 ?t (int (Suc k)) (int l) = Inr (g (Suc k) l)"
      using kl by (subst tab_get) (auto simp: filled_def)
    have set: "aset2 ?t (int (Suc k)) (int (Suc l)) x =
        Inr (tab ?n ?m (\<lambda>a b. if a = Suc k \<and> b = Suc l then x else filled g (Suc k) (Suc l) a b))" for x
      using kl by (intro tab_set) auto
    show "body (int i) (int j) (tab ?n ?m (filled g i j)) =
      Inr (tab ?n ?m (\<lambda>a b. if a = i \<and> b = j then g i j else filled g i j a b))"
    proof (cases "compared first ! k = compared second ! l")
      case True
      then have "g (Suc k) (Suc l) = g k l + 1" by (simp add: g_def)
      then show ?thesis unfolding kl body_def prev using kl True
        by (simp only: compared_simps(2) bindE_Inr get lft set less_SucI) simp
    next
      case False
      then have "g (Suc k) (Suc l) = max (g k (Suc l)) (g (Suc k) l)" by (simp add: g_def of_nat_max)
      then show ?thesis unfolding kl body_def prev using kl False
        by (simp only: compared_simps(2) bindE_Inr get lft set Suc_less_eq if_False)
    qed
  next
    fix a show "g a 0 = 0" by (cases a) (simp_all add: g_def)
  qed (simp_all add: g_def)
  then have "for_up 1 (int (length first) + 1) (\<lambda>i. for_up 1 (int (length second) + 1) (body i))
      (table (length first + 1) (length second + 1)) = Inr (tab ?n ?m g)" by (simp add: add.commute)
  then show ?thesis unfolding max_comm_sequence_def body_def
    by (simp add: tab_get g_def longest_common_eq compared_simps)
qed

end
