(* ===== verification/PalindromeClaims.thy ===== *)
theory PalindromeClaims
  imports TableClaims
begin

text \<open>
  Palindromes: the longest palindromic subsequence of a text and the fewest insertions that make it one, and
  the tables of \<^verbatim>\<open>max_parlin_seq.cc\<close> and \<^verbatim>\<open>max_insert_parlin.cc\<close>, which are filled from the bottom up.
\<close>

section \<open>Palindromes\<close>

definition palindrome :: "'a list \<Rightarrow> bool" where
  "palindrome zs \<longleftrightarrow> rev zs = zs"

lemma palindrome_ends: "palindrome (a # ws @ [b]) \<longleftrightarrow> a = b \<and> palindrome ws"
  by (auto simp: palindrome_def)

lemma palindrome_short [simp]: "palindrome []" "palindrome [x]"
  by (simp_all add: palindrome_def)

lemma palindrome_cases:
  assumes "palindrome p"
  obtains "p = []" | a where "p = [a]" | a q where "p = a # q @ [a]" "palindrome q"
proof (cases p)
  case (Cons a p')
  show ?thesis
  proof (cases p' rule: rev_cases)
    case (snoc q b)
    then have "b = a" "palindrome q" using assms Cons palindrome_ends [of a q b] by simp_all
    then show ?thesis using that(3) Cons snoc by simp
  qed (use Cons that in simp)
qed (use that in simp)

lemma subseq_Cons_snoc_D:
  assumes "subseq (a # ws @ [b]) (x # m @ [y])"
  shows "subseq ws m"
proof -
  have "subseq (ws @ [b]) (m @ [y])" using assms by (auto split: if_splits dest: subseq_Cons')
  then have "subseq (ws @ [b]) m \<or> subseq ws m" by (auto simp: subseq_snoc_iff)
  then show ?thesis using subseq_order.trans [of ws "ws @ [b]" m] by auto
qed

section \<open>The longest palindromic subsequence\<close>

definition longest_pal :: "'a list \<Rightarrow> nat" where
  "longest_pal w = Max {length zs |zs. subseq zs w \<and> palindrome zs}"

lemma longest_pal_eqI:
  assumes "subseq zs w" "palindrome zs" "length zs = k" "\<And>ys. subseq ys w \<Longrightarrow> palindrome ys \<Longrightarrow> length ys \<le> k"
  shows "longest_pal w = k"
proof -
  have "finite {length zs |zs. subseq zs w \<and> palindrome zs}"
    by (rule finite_subset [of _ "length ` set (subseqs w)"]) auto
  then show ?thesis unfolding longest_pal_def using assms by (intro Max_eqI) auto
qed

lemma longest_pal_ex: "\<exists>zs. subseq zs w \<and> palindrome zs \<and> length zs = longest_pal w"
  and longest_pal_le: "subseq ys w \<Longrightarrow> palindrome ys \<Longrightarrow> length ys \<le> longest_pal w"
proof -
  let ?S = "{length zs |zs. subseq zs w \<and> palindrome zs}"
  have fin: "finite ?S" by (rule finite_subset [of _ "length ` set (subseqs w)"]) auto
  have "?S \<noteq> {}" using palindrome_short(1) by auto
  then have "Max ?S \<in> ?S" using fin by (rule Max_in [rotated])
  then show "\<exists>zs. subseq zs w \<and> palindrome zs \<and> length zs = longest_pal w" by (auto simp: longest_pal_def)
  show "subseq ys w \<Longrightarrow> palindrome ys \<Longrightarrow> length ys \<le> longest_pal w"
    unfolding longest_pal_def using fin by (intro Max_ge) auto
qed

lemma longest_pal_short: "longest_pal [] = 0" "longest_pal [x] = 1"
  by (rule longest_pal_eqI [of "[]"]; simp) (rule longest_pal_eqI [of "[x]"], auto dest: list_emb_length)

lemma longest_pal_same: "longest_pal (x # m @ [x]) = longest_pal m + 2"
proof -
  obtain zs where zs: "subseq zs m" "palindrome zs" "length zs = longest_pal m" using longest_pal_ex by blast
  show ?thesis
  proof (rule longest_pal_eqI [of "x # zs @ [x]"])
    fix ys assume ys: "subseq ys (x # m @ [x])" "palindrome ys"
    from ys(2) show "length ys \<le> longest_pal m + 2"
    proof (cases rule: palindrome_cases)
      case (3 a q)
      then have "subseq q m" using subseq_Cons_snoc_D [OF ys(1) [unfolded 3(1)]] by blast
      then have "length q \<le> longest_pal m" using 3(2) by (rule longest_pal_le)
      then show ?thesis using 3(1) by simp
    qed simp_all
  qed (use zs in \<open>auto simp: palindrome_ends\<close>)
qed

lemma longest_pal_differ:
  assumes "x \<noteq> y"
  shows "longest_pal (x # m @ [y]) = max (longest_pal (m @ [y])) (longest_pal (x # m))"
proof -
  obtain us where us: "subseq us (m @ [y])" "palindrome us" "length us = longest_pal (m @ [y])" using longest_pal_ex by blast
  obtain vs where vs: "subseq vs (x # m)" "palindrome vs" "length vs = longest_pal (x # m)" using longest_pal_ex by blast
  have sub: "subseq us (x # m @ [y])" "subseq vs (x # m @ [y])"
    using list_emb_Cons [OF us(1), of x] subseq_rev_drop_many [OF vs(1), of "[y]"] by simp_all
  have best: "length ys \<le> max (longest_pal (m @ [y])) (longest_pal (x # m))"
    if ys: "subseq ys (x # m @ [y])" "palindrome ys" for ys
  proof -
    have "subseq ys (m @ [y]) \<or> subseq ys (x # m)"
    proof (cases "ys = [] \<or> hd ys \<noteq> x")
      case True
      then show ?thesis using ys(1) by (cases ys) (auto simp: subseq_Cons2_neq)
    next
      case False
      then have "last ys \<noteq> y" using ys(2) assms by (metis hd_rev palindrome_def)
      then show ?thesis using ys(1) subseq_snoc_iff [of ys "x # m" y] by auto
    qed
    then show ?thesis using longest_pal_le ys(2) by (auto simp: le_max_iff_disj)
  qed
  show ?thesis
  proof (cases "longest_pal (x # m) \<le> longest_pal (m @ [y])")
    case True
    then show ?thesis using longest_pal_eqI [OF sub(1) us(2,3)] best by (auto simp: max_def)
  next
    case False
    then show ?thesis using longest_pal_eqI [OF sub(2) vs(2,3)] best by (auto simp: max_def)
  qed
qed

section \<open>The fewest insertions\<close>

definition inserts :: "'a list \<Rightarrow> nat \<Rightarrow> bool" where
  "inserts w k \<longleftrightarrow> (\<exists>p. palindrome p \<and> subseq w p \<and> length p = length w + k)"

definition fewest_inserts :: "'a list \<Rightarrow> nat" where
  "fewest_inserts w = (LEAST k. inserts w k)"

lemma fewest_insertsI: "inserts w k \<Longrightarrow> (\<And>j. inserts w j \<Longrightarrow> k \<le> j) \<Longrightarrow> fewest_inserts w = k"
  unfolding fewest_inserts_def by (rule Least_equality)

lemma inserts_self: "inserts w (length w)"
proof -
  have "subseq w (w @ rev w)" using subseq_rev_drop_many [of w w "rev w"] by simp
  moreover have "palindrome (w @ rev w)" by (simp add: palindrome_def)
  ultimately show ?thesis unfolding inserts_def by force
qed

lemma fewest_inserts_ok: "inserts w (fewest_inserts w)"
  unfolding fewest_inserts_def using inserts_self by (rule LeastI)

lemma fewest_inserts_le: "inserts w k \<Longrightarrow> fewest_inserts w \<le> k"
  unfolding fewest_inserts_def by (rule Least_le)

lemma fewest_inserts_over: "palindrome p \<Longrightarrow> subseq w p \<Longrightarrow> length w + fewest_inserts w \<le> length p"
proof -
  assume p: "palindrome p" "subseq w p"
  then have "length w \<le> length p" by (intro list_emb_length)
  then have "inserts w (length p - length w)" using p unfolding inserts_def by (intro exI [of _ p]) simp
  then show ?thesis using fewest_inserts_le \<open>length w \<le> length p\<close> by fastforce
qed

lemma fewest_inserts_short: "fewest_inserts [] = 0" "fewest_inserts [x] = 0"
  by (rule fewest_insertsI; force simp: inserts_def intro: exI [of _ "[]"])
    (rule fewest_insertsI; force simp: inserts_def intro: exI [of _ "[x]"])

text \<open>Both ends of a palindrome that holds a text are its ends, or can be left out on one side.\<close>

lemma inserts_same: "fewest_inserts (x # m @ [x]) = fewest_inserts m"
proof (rule fewest_insertsI)
  obtain p where p: "palindrome p" "subseq m p" "length p = length m + fewest_inserts m"
    using fewest_inserts_ok [of m] by (auto simp: inserts_def)
  then show "inserts (x # m @ [x]) (fewest_inserts m)"
    unfolding inserts_def by (intro exI [of _ "x # p @ [x]"]) (simp add: palindrome_ends)
next
  have over: "length m + 2 + fewest_inserts m \<le> length p" if "palindrome p" "subseq (x # m @ [x]) p" for p
    using that
  proof (induction p rule: length_induct)
    case (1 p)
    from 1(2) show ?case
    proof (cases rule: palindrome_cases)
      case (3 a q)
      show ?thesis
      proof (cases "a = x")
        case True
        then have "subseq m q" using subseq_Cons_snoc_D [OF 1(3) [unfolded 3(1)]] by blast
        then show ?thesis using fewest_inserts_over [OF 3(2)] 3(1) by fastforce
      next
        case False
        then have "subseq (x # m @ [x]) (q @ [a])" using 1(3) 3(1) by simp
        then have "subseq (x # m @ [x]) q" using False subseq_snoc_iff [of "x # m @ [x]" q a] by auto
        then have "length m + 2 + fewest_inserts m \<le> length q" using 1(1) 3 by simp
        then show ?thesis using 3(1) by simp
      qed
    qed (use 1(3) in \<open>auto split: if_splits dest: list_emb_length\<close>)
  qed
  fix j assume "inserts (x # m @ [x]) j"
  then show "fewest_inserts m \<le> j" using over by (fastforce simp: inserts_def)
qed

lemma inserts_differ:
  assumes "x \<noteq> y"
  shows "fewest_inserts (x # m @ [y]) = min (fewest_inserts (m @ [y])) (fewest_inserts (x # m)) + 1" (is "_ = ?k + 1")
proof (rule fewest_insertsI)
  obtain p where p: "palindrome p" "subseq (m @ [y]) p" "length p = length m + 1 + fewest_inserts (m @ [y])"
    using fewest_inserts_ok [of "m @ [y]"] by (auto simp: inserts_def)
  have l: "inserts (x # m @ [y]) (fewest_inserts (m @ [y]) + 1)"
    unfolding inserts_def using p subseq_rev_drop_many [OF p(2), of "[x]"]
    by (intro exI [of _ "x # p @ [x]"]) (simp add: palindrome_ends)
  obtain q where q: "palindrome q" "subseq (x # m) q" "length q = length m + 1 + fewest_inserts (x # m)"
    using fewest_inserts_ok [of "x # m"] by (auto simp: inserts_def)
  have "subseq ((x # m) @ [y]) (q @ [y])" using q(2) by (simp only: subseq_append)
  then have "subseq (x # m @ [y]) (y # q @ [y])" using list_emb_Cons by fastforce
  then have r: "inserts (x # m @ [y]) (fewest_inserts (x # m) + 1)"
    unfolding inserts_def using q by (intro exI [of _ "y # q @ [y]"]) (simp add: palindrome_ends)
  show "inserts (x # m @ [y]) (?k + 1)" using l r by (simp add: min_def)
next
  have over: "length m + 3 + ?k \<le> length p" if "palindrome p" "subseq (x # m @ [y]) p" for p
    using that
  proof (induction p rule: length_induct)
    case (1 p)
    from 1(2) show ?case
    proof (cases rule: palindrome_cases)
      case (3 a q)
      consider "a = x" | "a \<noteq> x" "a = y" | "a \<noteq> x" "a \<noteq> y" by blast
      then show ?thesis
      proof cases
        case 1
        then have "subseq (m @ [y]) (q @ [a])" using \<open>subseq (x # m @ [y]) p\<close> 3(1) by simp
        then have "subseq (m @ [y]) q" using 1 assms subseq_snoc_iff [of "m @ [y]" q a] by auto
        then show ?thesis using fewest_inserts_over [OF 3(2), of "m @ [y]"] 3(1) by simp
      next
        case 2
        then have "subseq ((x # m) @ [y]) (q @ [y])" using \<open>subseq (x # m @ [y]) p\<close> 3(1) by simp
        then have "subseq (x # m) q" by (simp only: subseq_append)
        then show ?thesis using fewest_inserts_over [OF 3(2), of "x # m"] 3(1) by simp
      next
        case other: 3
        then have "subseq (x # m @ [y]) (q @ [a])" using \<open>subseq (x # m @ [y]) p\<close> 3(1) by simp
        then have "subseq (x # m @ [y]) q" using other subseq_snoc_iff [of "x # m @ [y]" q a] by auto
        then have "length m + 3 + ?k \<le> length q" using 1(1) 3 by simp
        then show ?thesis using 3(1) by simp
      qed
    qed (use 1(3) in \<open>auto split: if_splits dest: list_emb_length\<close>)
  qed
  fix j assume "inserts (x # m @ [y]) j"
  then show "?k + 1 \<le> j" using over by (fastforce simp: inserts_def)
qed

section \<open>Parts of a text\<close>

definition seg_of :: "'a list \<Rightarrow> nat \<Rightarrow> nat \<Rightarrow> 'a list" where
  "seg_of s i j = take (Suc j - i) (drop i s)"

lemma seg_of_one: "i < length s \<Longrightarrow> seg_of s i i = [s ! i]"
  by (simp add: seg_of_def take_Suc_conv_app_nth)

lemma seg_of_empty: "j < i \<Longrightarrow> seg_of s i j = []"
  by (simp add: seg_of_def)

lemma seg_of_all: "s \<noteq> [] \<Longrightarrow> seg_of s 0 (length s - 1) = s"
  by (simp add: seg_of_def)

text \<open>A part of at least two characters, its two ends and what is left without them.\<close>

lemma seg_of_ends:
  assumes "i < j" "j < length s"
  shows "seg_of s i j = s ! i # seg_of s (Suc i) (j - 1) @ [s ! j]"
    "seg_of s (Suc i) j = seg_of s (Suc i) (j - 1) @ [s ! j]"
    "seg_of s i (j - 1) = s ! i # seg_of s (Suc i) (j - 1)"
proof -
  have cons: "seg_of s i k = s ! i # seg_of s (Suc i) k" if "i \<le> k" for k
    using assms that by (simp add: seg_of_def Suc_diff_le flip: Cons_nth_drop_Suc)
  have "Suc j - Suc i = Suc (Suc (j - 1) - Suc i)" using assms by simp
  then show snoc: "seg_of s (Suc i) j = seg_of s (Suc i) (j - 1) @ [s ! j]"
    using assms unfolding seg_of_def by (simp add: take_Suc_conv_app_nth)
  show "seg_of s i j = s ! i # seg_of s (Suc i) (j - 1) @ [s ! j]"
    "seg_of s i (j - 1) = s ! i # seg_of s (Suc i) (j - 1)"
    using cons [of j] cons [of "j - 1"] snoc assms by simp_all
qed

section \<open>Filling a table from the bottom up\<close>

definition filled_up :: "(nat \<Rightarrow> nat \<Rightarrow> int) \<Rightarrow> (nat \<Rightarrow> nat \<Rightarrow> int) \<Rightarrow> nat \<Rightarrow> nat \<Rightarrow> nat \<Rightarrow> nat \<Rightarrow> int" where
  "filled_up f g i j a b = (if a < b \<and> (i < a \<or> a = i \<and> b < j) then g a b else f a b)"

lemma fill_up:
  assumes body: "\<And>i j. i < j \<Longrightarrow> j < n \<Longrightarrow>
      body (int i) (int j) (tab n n (filled_up f g i j)) =
      Inr (tab n n (\<lambda>a b. if a = i \<and> b = j then g i j else filled_up f g i j a b))"
  shows "for_down (int n - 2) 0 (\<lambda>index. for_up (index + 1) (int n) (body index)) (tab n n f) =
    Inr (tab n n (\<lambda>a b. if a < b then g a b else f a b))"
proof (cases n)
  case (Suc m)
  have row: "for_up (int i + 1) (int n) (body (int i)) (tab n n (filled_up f g i 0)) = Inr (tab n n (filled_up f g i n))"
    if i: "i < n" for i
  proof -
    have "runs (for_up (int i + 1) (int n) (body (int i)) (tab n n (filled_up f g i 0)))
      (\<lambda>t. t = tab n n (filled_up f g i (nat (int n))))"
    proof (rule for_up_inv [where P = "\<lambda>j t. t = tab n n (filled_up f g i (nat j))"])
      fix j t assume j: "int i + 1 \<le> j" "j < int n" and t: "t = tab n n (filled_up f g i (nat j))"
      obtain k where k: "j = int k" "i < k" using zero_le_imp_eq_int [of j] j(1) by auto
      have "(\<lambda>a b. if a = i \<and> b = k then g i k else filled_up f g i k a b) = filled_up f g i (Suc k)"
        using k(2) by (intro ext) (auto simp: filled_up_def)
      then show "runs (body (int i) j t) (\<lambda>t. t = tab n n (filled_up f g i (nat (j + 1))))"
        using body [OF k(2)] j(2) by (simp add: k(1) t nat_add_distrib)
    next
      show "tab n n (filled_up f g i 0) = tab n n (filled_up f g i (nat (int i + 1)))"
        by (intro tab_cong) (auto simp: filled_up_def nat_add_distrib)
    qed (use i in simp)
    then show ?thesis by (simp add: runs_eq)
  qed
  have next_row: "tab n n (filled_up f g (Suc i) n) = tab n n (filled_up f g i 0)" for i
    by (intro tab_cong) (auto simp: filled_up_def)
  have start: "tab n n f = tab n n (filled_up f g m n)"
    using Suc by (intro tab_cong) (auto simp: filled_up_def)
  have "runs (for_down (int n - 2) 0 (\<lambda>index. for_up (index + 1) (int n) (body index)) (tab n n f))
    (\<lambda>t. t = tab n n (filled_up f g (nat (0 - 1 + 1)) n))"
  proof (rule for_down_inv [where P = "\<lambda>i t. t = tab n n (filled_up f g (nat (i + 1)) n)"])
    fix i t assume i: "0 \<le> i" "i \<le> int n - 2" and t: "t = tab n n (filled_up f g (nat (i + 1)) n)"
    obtain k where k: "i = int k" using zero_le_imp_eq_int [OF i(1)] by auto
    then have "t = tab n n (filled_up f g k 0)" using t next_row [of k] by (simp add: nat_add_distrib)
    then show "runs (for_up (i + 1) (int n) (body i) t) (\<lambda>t. t = tab n n (filled_up f g (nat (i - 1 + 1)) n))"
      using row [of k] i(2) k by simp
  qed (use Suc start in simp_all)
  moreover have "tab n n (filled_up f g 0 n) = tab n n (\<lambda>a b. if a < b then g a b else f a b)"
    by (intro tab_cong) (auto simp: filled_up_def)
  ultimately show ?thesis by (simp add: runs_eq)
next
  case 0
  then show ?thesis by (simp add: for_down.simps tab_def)
qed

section \<open>The two tables\<close>

text \<open>The length of a part's longest palindrome, and its insertions, by the two ends of the part.\<close>

lemma longest_pal_seg:
  assumes "i < j" "j < length s"
  shows "longest_pal (seg_of s i j) =
    (if s ! i = s ! j then longest_pal (seg_of s (Suc i) (j - 1)) + 2
     else max (longest_pal (seg_of s (Suc i) j)) (longest_pal (seg_of s i (j - 1))))"
  using seg_of_ends [OF assms] longest_pal_same longest_pal_differ by metis

lemma fewest_inserts_seg:
  assumes "i < j" "j < length s"
  shows "fewest_inserts (seg_of s i j) =
    (if s ! i = s ! j then fewest_inserts (seg_of s (Suc i) (j - 1))
     else min (fewest_inserts (seg_of s (Suc i) j)) (fewest_inserts (seg_of s i (j - 1))) + 1)"
  using seg_of_ends [OF assms] inserts_same inserts_differ by metis

text \<open>The tables below the diagonal hold what they were made with.\<close>

lemma pal_below: "i < length s \<Longrightarrow> j \<le> i \<Longrightarrow> int (longest_pal (seg_of s i j)) = (if i = j then 1 else 0)"
  by (auto simp: seg_of_one seg_of_empty longest_pal_short)

lemma inserts_below: "i < length s \<Longrightarrow> j \<le> i \<Longrightarrow> fewest_inserts (seg_of s i j) = 0"
  by (cases "i = j") (auto simp: seg_of_one seg_of_empty fewest_inserts_short)

lemma diagonal:
  "for_up 0 (int n) (\<lambda>index v. aset2 v index index 1) (table n n) = Inr (tab n n (\<lambda>i j. if i = j then 1 else 0))"
proof -
  have "runs (for_up 0 (int n) (\<lambda>index v. aset2 v index index 1) (table n n))
    (\<lambda>t. t = tab n n (\<lambda>i j. if i = j \<and> int i < int n then 1 else 0))"
  proof (rule for_up_inv [where P = "\<lambda>k t. t = tab n n (\<lambda>i j. if i = j \<and> int i < k then 1 else 0)"])
    fix k t assume k: "0 \<le> k" "k < int n" and t: "t = tab n n (\<lambda>i j. if i = j \<and> int i < k then 1 else 0)"
    obtain l where l: "k = int l" using zero_le_imp_eq_int [OF k(1)] by auto
    show "runs (aset2 t k k 1) (\<lambda>t. t = tab n n (\<lambda>i j. if i = j \<and> int i < k + 1 then 1 else 0))"
      using k(2) unfolding t l by (subst tab_set) (auto intro!: tab_cong)
  qed (simp_all add: table_tab)
  moreover have "tab n n (\<lambda>i j. if i = j \<and> int i < int n then 1 else 0) = tab n n (\<lambda>i j. if i = j then 1 else 0)"
    by (intro tab_cong) auto
  ultimately show ?thesis by (simp add: runs_eq)
qed

lemma filled_up_reads:
  assumes "\<And>a b. a < n \<Longrightarrow> b \<le> a \<Longrightarrow> f a b = g a b" "i < Suc l" "Suc l < n"
  shows "aget2 (tab n n (filled_up f g i (Suc l))) (int (Suc i)) (int l) = Inr (g (Suc i) l)"
    "aget2 (tab n n (filled_up f g i (Suc l))) (int (Suc i)) (int (Suc l)) = Inr (g (Suc i) (Suc l))"
    "aget2 (tab n n (filled_up f g i (Suc l))) (int i) (int l) = Inr (g i l)"
    "aset2 (tab n n (filled_up f g i (Suc l))) (int i) (int (Suc l)) x =
      Inr (tab n n (\<lambda>a b. if a = i \<and> b = Suc l then x else filled_up f g i (Suc l) a b))"
  using assms by (simp_all add: tab_get tab_set filled_up_def del: of_nat_Suc)

lemma max_parlin_seq_result:
  "max_parlin_seq source = (if source = [] then Inl OutOfBounds else Inr (int (longest_pal source)))"
proof (cases "source = []")
  case True
  then show ?thesis by (simp add: max_parlin_seq_def for_up_empty for_down.simps table_def aget2_def aget_def)
next
  case False
  define n where "n = length source"
  define f where "f i j = (if i = j then 1 else 0 :: int)" for i j :: nat
  define g where "g i j = int (longest_pal (seg_of source i j))" for i j
  define body where "body i j v = bindE (sget source i) (\<lambda>a. bindE (sget source j) (\<lambda>b.
        if a = b then bindE (aget2 v (i + 1) (j - 1)) (\<lambda>x. aset2 v i j (x + 2))
        else bindE (aget2 v (i + 1) j) (\<lambda>x. bindE (aget2 v i (j - 1)) (\<lambda>y. aset2 v i j (max x y)))))" for i j and v :: "int list list"
  have below: "f a b = g a b" if "a < n" "b \<le> a" for a b
    using that pal_below [of a source b] by (simp add: f_def g_def n_def)
  have "for_down (int n - 2) 0 (\<lambda>index. for_up (index + 1) (int n) (body index)) (tab n n f) =
      Inr (tab n n (\<lambda>a b. if a < b then g a b else f a b))"
  proof (rule fill_up)
    fix i j assume ij: "i < j" "j < n"
    obtain l where l: "j = Suc l" using ij by (cases j) auto
    note reads = filled_up_reads [of n f g i l, OF below]
    have next_prev: "int i + 1 = int (Suc i)" "int (Suc l) - 1 = int l" by simp_all
    have chars: "sget source (int i) = Inr (source ! i)" "sget source (int (Suc l)) = Inr (source ! Suc l)"
      using ij l n_def by (simp_all del: of_nat_Suc)
    have "g i (Suc l) = (if source ! i = source ! Suc l then g (Suc i) l + 2 else max (g (Suc i) (Suc l)) (g i l))"
      using longest_pal_seg [of i "Suc l" source] ij l n_def by (simp add: g_def of_nat_max)
    then show "body (int i) (int j) (tab n n (filled_up f g i j)) =
        Inr (tab n n (\<lambda>a b. if a = i \<and> b = j then g i j else filled_up f g i j a b))"
      unfolding body_def l chars bindE_Inr next_prev using ij l
      by (cases "source ! i = source ! Suc l") (simp_all add: reads cong: if_cong del: of_nat_Suc)
  qed
  moreover have "aget2 (tab n n (\<lambda>a b. if a < b then g a b else f a b)) 0 (int n - 1) = Inr (int (longest_pal source))"
  proof -
    have read: "aget2 (tab n n h) 0 (int n - 1) = Inr (h 0 (n - 1))" for h :: "nat \<Rightarrow> nat \<Rightarrow> int"
      using tab_get [of 0 n "n - 1" n h] False by (simp add: n_def of_nat_diff Suc_le_eq)
    have "(if 0 < n - 1 then g 0 (n - 1) else f 0 (n - 1)) = g 0 (n - 1)"
      using below [of 0 "n - 1"] False by (auto simp: n_def)
    also have "\<dots> = int (longest_pal source)" by (simp only: g_def n_def seg_of_all [OF False])
    finally show ?thesis by (simp only: read)
  qed
  ultimately show ?thesis
    using False diagonal [of n] unfolding max_parlin_seq_def Let_def body_def f_def by (simp flip: n_def)
qed

lemma max_insert_parlin_result:
  "max_insert_parlin source = (if source = [] then Inl OutOfBounds else Inr (int (fewest_inserts source)))"
proof (cases "source = []")
  case True
  then show ?thesis by (simp add: max_insert_parlin_def for_down.simps table_def aget2_def aget_def)
next
  case False
  define n where "n = length source"
  define f where "f i j = (0 :: int)" for i j :: nat
  define g where "g i j = int (fewest_inserts (seg_of source i j))" for i j
  define body where "body i j v = bindE (sget source i) (\<lambda>a. bindE (sget source j) (\<lambda>b.
        if a = b then bindE (aget2 v (i + 1) (j - 1)) (\<lambda>x. aset2 v i j x)
        else bindE (aget2 v (i + 1) j) (\<lambda>x. bindE (aget2 v i (j - 1)) (\<lambda>y. aset2 v i j (min x y + 1)))))" for i j and v :: "int list list"
  have below: "f a b = g a b" if "a < n" "b \<le> a" for a b
    using that inserts_below [of a source b] by (simp add: f_def g_def n_def)
  have "for_down (int n - 2) 0 (\<lambda>index. for_up (index + 1) (int n) (body index)) (tab n n f) =
      Inr (tab n n (\<lambda>a b. if a < b then g a b else f a b))"
  proof (rule fill_up)
    fix i j assume ij: "i < j" "j < n"
    obtain l where l: "j = Suc l" using ij by (cases j) auto
    note reads = filled_up_reads [of n f g i l, OF below]
    have next_prev: "int i + 1 = int (Suc i)" "int (Suc l) - 1 = int l" by simp_all
    have chars: "sget source (int i) = Inr (source ! i)" "sget source (int (Suc l)) = Inr (source ! Suc l)"
      using ij l n_def by (simp_all del: of_nat_Suc)
    have "g i (Suc l) = (if source ! i = source ! Suc l then g (Suc i) l else min (g (Suc i) (Suc l)) (g i l) + 1)"
      using fewest_inserts_seg [of i "Suc l" source] ij l n_def by (simp add: g_def of_nat_min)
    then show "body (int i) (int j) (tab n n (filled_up f g i j)) =
        Inr (tab n n (\<lambda>a b. if a = i \<and> b = j then g i j else filled_up f g i j a b))"
      unfolding body_def l chars bindE_Inr next_prev using ij l
      by (cases "source ! i = source ! Suc l") (simp_all add: reads cong: if_cong del: of_nat_Suc)
  qed
  moreover have "aget2 (tab n n (\<lambda>a b. if a < b then g a b else f a b)) 0 (int n - 1) = Inr (int (fewest_inserts source))"
  proof -
    have read: "aget2 (tab n n h) 0 (int n - 1) = Inr (h 0 (n - 1))" for h :: "nat \<Rightarrow> nat \<Rightarrow> int"
      using tab_get [of 0 n "n - 1" n h] False by (simp add: n_def of_nat_diff Suc_le_eq)
    have "(if 0 < n - 1 then g 0 (n - 1) else f 0 (n - 1)) = g 0 (n - 1)"
      using below [of 0 "n - 1"] False by (auto simp: n_def)
    also have "\<dots> = int (fewest_inserts source)" by (simp only: g_def n_def seg_of_all [OF False])
    finally show ?thesis by (simp only: read)
  qed
  moreover have "f = (\<lambda>i j. 0)" by (intro ext) (simp add: f_def)
  ultimately show ?thesis
    using False unfolding max_insert_parlin_def Let_def body_def by (simp add: table_tab flip: n_def)
qed

text \<open>A text and its longest palindrome: what is left over is what has to be inserted.\<close>

lemma pal_plus_inserts: "longest_pal w + fewest_inserts w = length w"
proof (induction w rule: length_induct)
  case (1 w)
  show ?case
  proof (cases w)
    case (Cons x w')
    show ?thesis
    proof (cases w' rule: rev_cases)
      case (snoc m y)
      have w: "w = x # m @ [y]" using Cons snoc by simp
      have IH: "longest_pal m + fewest_inserts m = length m"
        "longest_pal (m @ [y]) + fewest_inserts (m @ [y]) = length m + 1"
        "longest_pal (x # m) + fewest_inserts (x # m) = length m + 1"
        using 1 w by simp_all
      show ?thesis
      proof (cases "x = y")
        case True
        then show ?thesis using IH(1) by (simp add: w longest_pal_same inserts_same)
      next
        case False
        then show ?thesis using IH(2,3) by (simp add: w longest_pal_differ inserts_differ max_def min_def)
      qed
    qed (simp add: Cons longest_pal_short fewest_inserts_short)
  qed (simp add: longest_pal_short fewest_inserts_short)
qed

section \<open>Properties\<close>

text \<open>
  C35: \<open>max_parlin_seq\<close> answers the length of the longest palindromic subsequence, \<open>max_insert_parlin\<close> the fewest
  characters whose insertion makes the text a palindrome, and the two add up to the length of the text; both read
  outside their table when the text is empty.
\<close>

theorem palindrome_programs:
  "(if source = [] then max_parlin_seq source = Inl OutOfBounds \<and> max_insert_parlin source = Inl OutOfBounds
    else max_parlin_seq source = Inr (int (Max {length zs |zs. subseq zs source \<and> rev zs = zs})) \<and>
      max_insert_parlin source = Inr (int (LEAST k. \<exists>p. rev p = p \<and> subseq source p \<and> length p = length source + k)) \<and>
      bindE (max_parlin_seq source) (\<lambda>l. bindE (max_insert_parlin source) (\<lambda>k. Inr (l + k))) = Inr (int (length source)))"
  using pal_plus_inserts [of source] max_parlin_seq_result [of source] max_insert_parlin_result [of source]
  by (auto simp: longest_pal_def fewest_inserts_def inserts_def palindrome_def simp flip: of_nat_add)

end
