(* ===== verification/Calculator.thy ===== *)
theory Calculator
  imports CppLoops "HOL-Library.Signed_Division"
begin

text \<open>
  The calculator of \<^verbatim>\<open>test2.cpp\<close>, which works on two stacks and calls itself for what is in parentheses,
  and the two other functions of the file. A stack is a list with its top first. Texts are shorter than
  \<open>2 ^ 31\<close>.
\<close>

section \<open>Operators\<close>

text \<open>A \<open>char\<close> is signed; \<open>isdigit\<close> is undefined below 0, but for \<open>EOF\<close>, which is -1.\<close>

definition isdigit :: "char \<Rightarrow> fault + bool" where
  "isdigit ch =
     (if 128 \<le> (of_char ch :: nat) \<and> (of_char ch :: nat) < 255 then Inl OutOfBounds
      else Inr (48 \<le> (of_char ch :: nat) \<and> (of_char ch :: nat) \<le> 57))"

text \<open>\<open>comp_.at(op)\<close>.\<close>

definition comp_at :: "char \<Rightarrow> fault + int" where
  "comp_at op =
     (if op = CHR ''*'' \<or> op = CHR ''/'' then Inr 1
      else if op = CHR ''+'' \<or> op = CHR ''-'' then Inr 2
      else Inl (Thrown ''_Map_base::at''))"

definition op_priority :: "char \<Rightarrow> char \<Rightarrow> fault + bool" where
  "op_priority first second =
     bindE (comp_at first) (\<lambda>a. bindE (comp_at second) (\<lambda>b. Inr (a < b)))"

text \<open>The \<open>switch\<close>; without a matching case \<open>result\<close> has no value, and is printed.\<close>

definition apply_op :: "char \<Rightarrow> int \<Rightarrow> int \<Rightarrow> fault + int" where
  "apply_op op first_num second_num =
     (if op = CHR ''*'' then chk (first_num * second_num)
      else if op = CHR ''/'' then (if second_num = 0 then Inl DivByZero else chk (first_num sdiv second_num))
      else if op = CHR ''+'' then chk (first_num + second_num)
      else if op = CHR ''-'' then chk (first_num - second_num)
      else Inl UninitRead)"

definition show_step :: "int \<Rightarrow> char \<Rightarrow> int \<Rightarrow> int \<Rightarrow> string" where
  "show_step first_num op second_num result =
     fmt_d first_num @ [op] @ fmt_d second_num @ ''='' @ fmt_d result @ endl"

text \<open>Both callers ignore the number it returns.\<close>

definition op_on_stack :: "int list \<Rightarrow> char \<Rightarrow> string \<Rightarrow> fault + (int list \<times> string)" where
  "op_on_stack num_stack op out =
     (case num_stack of
        [] \<Rightarrow> Inr ([], out)
      | second_num # num_stack \<Rightarrow>
          let (first_num, num_stack) = (case num_stack of [] \<Rightarrow> (0, []) | x # xs \<Rightarrow> (x, xs)) in
          bindE (apply_op op first_num second_num) (\<lambda>result.
          Inr (result # num_stack, out @ show_step first_num op second_num result)))"

section \<open>The calculator\<close>

text \<open>\<open>while (!op_stack.empty() && !op_priority(ch, op_stack.top()))\<close>, and the last loop.\<close>

fun reduce_while :: "char \<Rightarrow> int list \<Rightarrow> char list \<Rightarrow> string \<Rightarrow> fault + (int list \<times> char list \<times> string)" where
  "reduce_while ch num_stack [] out = Inr (num_stack, [], out)"
| "reduce_while ch num_stack (op # op_stack) out =
     bindE (op_priority ch op) (\<lambda>p.
     if p then Inr (num_stack, op # op_stack, out)
     else bindE (op_on_stack num_stack op out) (\<lambda>(num_stack, out). reduce_while ch num_stack op_stack out))"

fun reduce_all :: "int list \<Rightarrow> char list \<Rightarrow> string \<Rightarrow> fault + (int list \<times> string)" where
  "reduce_all num_stack [] out = Inr (num_stack, out)"
| "reduce_all num_stack (op # op_stack) out =
     bindE (op_on_stack num_stack op out) (\<lambda>(num_stack, out). reduce_all num_stack op_stack out)"

text \<open>An operator enters the stack.\<close>

definition enter_op :: "char \<Rightarrow> int list \<Rightarrow> char list \<Rightarrow> string \<Rightarrow> fault + (int list \<times> char list \<times> string)" where
  "enter_op ch num_stack op_stack out =
     (case op_stack of
        [] \<Rightarrow> Inr (num_stack, [ch], out)
      | top_op # _ \<Rightarrow>
          bindE (op_priority ch top_op) (\<lambda>p.
          if p then Inr (num_stack, ch # op_stack, out)
          else bindE (reduce_while ch num_stack op_stack out) (\<lambda>(num_stack, op_stack, out).
               Inr (num_stack, ch # op_stack, out))))"

text \<open>\<open>while (ch != ')' || match > 0)\<close>: it ends at a position, or reads behind the text.\<close>

function close_paren :: "string \<Rightarrow> int \<Rightarrow> char \<Rightarrow> int \<Rightarrow> fault + int" where
  "close_paren input pos ch match =
     (if ch \<noteq> CHR '')'' \<or> match > 0 then
        bindE (sget input (pos + 1)) (\<lambda>ch.
        let match = (if ch = CHR '')'' then match - 1 else match);
            match = (if ch = CHR ''('' then match + 1 else match)
        in close_paren input (pos + 1) ch match)
      else Inr pos)"
  by auto

termination
  by (relation "measure (\<lambda>(input, pos, ch, match). nat (int (length input) + 1 - pos))")
    (auto dest: sget_Inr)

declare close_paren.simps [simp del]

lemma close_paren_after: "close_paren input pos ch match = Inr q \<Longrightarrow> pos \<le> q"
proof (induction input pos ch match rule: close_paren.induct)
  case (1 input pos ch match)
  show ?case
  proof (cases "ch \<noteq> CHR '')'' \<or> match > 0")
    case True
    then obtain c where c: "sget input (pos + 1) = Inr c"
      using "1.prems" by (subst (asm) close_paren.simps) (auto simp: bindE_eq_Inr)
    then have "pos + 1 \<le> q"
      using "1.prems" True by (intro "1.IH" [OF True c refl refl]) (simp add: close_paren.simps [of input pos] Let_def)
    then show ?thesis by simp
  next
    case False
    then show ?thesis using "1.prems" by (simp add: close_paren.simps [of input pos])
  qed
qed

lemma close_paren_next:
  assumes "close_paren input pos ch 1 = Inr q"
  shows "pos < q"
proof -
  obtain c where c: "sget input (pos + 1) = Inr c"
    using assms by (subst (asm) close_paren.simps) (auto simp: bindE_eq_Inr)
  obtain n where "close_paren input (pos + 1) c n = Inr q"
    using assms c by (simp add: close_paren.simps [of input pos] Let_def)
  then show ?thesis using close_paren_after by fastforce
qed

lemma substr_length: "substr s pos len = Inr t \<Longrightarrow> 0 \<le> pos \<Longrightarrow> pos < int (length s) \<Longrightarrow> length t \<le> length s - nat pos"
  by (auto simp: substr_def split: if_splits)

text \<open>
  \<open>calc_loop\<close> is the function from the round of \<open>index\<close> on. After a digit that is the last character,
  and after a parenthesis that is, the number is pushed.
\<close>

function calc_loop :: "string \<Rightarrow> nat \<Rightarrow> int \<Rightarrow> int list \<Rightarrow> char list \<Rightarrow> string \<Rightarrow> fault + (int \<times> string)" where
  "calc_loop input index num num_stack op_stack out =
     (if index < length input then
        let ch = input ! index in
        if ch = CHR '' '' then calc_loop input (index + 1) num num_stack op_stack out
        else
          bindE (isdigit ch) (\<lambda>digit.
          if digit then
            bindE (chk (num * 10)) (\<lambda>t. bindE (chk (t + of_char ch)) (\<lambda>t. bindE (chk (t - 48)) (\<lambda>num.
            calc_loop input (index + 1) num
              (if index = length input - 1 then num # num_stack else num_stack) op_stack out)))
          else if ch = CHR ''('' then
            bindE (close_paren input (int index) ch 1) (\<lambda>pos.
            bindE (substr input (int index + 1) (pos - int index - 1)) (\<lambda>sub.
            bindE (calc_loop sub 0 0 [] [] (out @ ''sub: '' @ sub @ '', pos: '' @ fmt_d pos @ endl)) (\<lambda>(num, out).
            calc_loop input (nat pos + 1) num
              (if pos = int (length input) - 1 then num # num_stack else num_stack) op_stack out)))
          else
            bindE (enter_op ch (num # num_stack) op_stack out) (\<lambda>(num_stack, op_stack, out).
            calc_loop input (index + 1) 0 num_stack op_stack out))
      else
        bindE (reduce_all num_stack op_stack out) (\<lambda>(num_stack, out).
        case num_stack of [] \<Rightarrow> Inl OutOfBounds | n # _ \<Rightarrow> Inr (n, out)))"
  by auto

termination
proof (relation "measures [\<lambda>(input, index, num, num_stack, op_stack, out). length input,
    \<lambda>(input, index, num, num_stack, op_stack, out). length input - index]", goal_cases)
  case (4 input index num num_stack op_stack out ch digit pos sub)
  then have "int index < pos" by (auto dest: close_paren_next)
  then have "length sub \<le> length input - nat (int index + 1) \<or> length sub = 0"
    using 4 substr_length [of input "int index + 1" "pos - int index - 1" sub]
    by (cases "int index + 1 < int (length input)") (auto simp: substr_def split: if_splits)
  then show ?case using 4(1) by auto
next
  case (5 input index num num_stack op_stack out ch digit pos sub r num' out')
  then have "int index < pos" by (auto dest: close_paren_next)
  then show ?case using 5(1) by auto
qed auto

declare calc_loop.simps [simp del]

definition calculate_input :: "string \<Rightarrow> string \<Rightarrow> fault + (int \<times> string)" where
  "calculate_input input out = calc_loop input 0 0 [] [] out"

text \<open>The program prints \<open>result: \<close> first or last: before C++17 the order is unspecified, since then it is first.\<close>

definition calculator_main :: "fault + string" where
  "calculator_main =
     bindE (calculate_input ''(7+4*3+10*(3-3+4-1-8-10))'' ''result: '') (\<lambda>(r, out).
     Inr (out @ fmt_d r @ endl))"

section \<open>The other functions of the file\<close>

text \<open>The matrix: every further line is the line above without its first number, with 1 taken off.\<close>

definition snake_matrix :: "fault + string" where
  "snake_matrix =
     (let number = 4 in
      bindE (new_vec number 1) (\<lambda>first_line.
      bindE (for_up 1 (int (length first_line)) (\<lambda>index first_line.
        bindE (aget first_line (index - 1)) (\<lambda>x.
        bindE (chk (x + (index + 1))) (aset first_line index))) first_line) (\<lambda>first_line.
      bindE (for_up 1 number (\<lambda>index results.
        bindE (aget results (index - 1)) (\<lambda>line.
        bindE (for_in (tl line) (\<lambda>v tmp. bindE (chk (v - 1)) (\<lambda>w. Inr (tmp @ [w]))) []) (\<lambda>tmp.
        Inr (results @ [tmp])))) [first_line]) (\<lambda>results.
      Inr (''snake_matrix'' @ endl @ concat (map (\<lambda>result. concat (map show_sp result) @ endl) results))))))"

text \<open>
  Every character that is not a letter and not white space becomes a space; the parts between spaces that
  are not empty are written from the last to the first.
\<close>

definition is_letter :: "char \<Rightarrow> bool" where
  "is_letter c \<longleftrightarrow> 65 \<le> (of_char c :: nat) \<and> (of_char c :: nat) \<le> 90 \<or>
     97 \<le> (of_char c :: nat) \<and> (of_char c :: nat) \<le> 122"

definition is_space :: "char \<Rightarrow> bool" where
  "is_space c \<longleftrightarrow> c = CHR '' '' \<or> 9 \<le> (of_char c :: nat) \<and> (of_char c :: nat) \<le> 13"

function parts :: "string \<Rightarrow> string list" where
  "parts s =
     (if CHR '' '' \<in> set s
      then takeWhile (\<lambda>c. c \<noteq> CHR '' '') s # parts (tl (dropWhile (\<lambda>c. c \<noteq> CHR '' '') s))
      else [s])"
  by auto

termination
proof (relation "measure length", goal_cases)
  case (2 s)
  then have "dropWhile (\<lambda>c. c \<noteq> CHR '' '') s \<noteq> []" by (auto simp: dropWhile_eq_Nil_conv)
  moreover have "length (dropWhile (\<lambda>c. c \<noteq> CHR '' '') s) \<le> length s" by (rule length_dropWhile_le)
  ultimately show ?case by (cases "dropWhile (\<lambda>c. c \<noteq> CHR '' '') s") auto
qed simp

declare parts.simps [simp del]

definition split_text :: "string" where
  "split_text =
     (let input = map (\<lambda>c. if is_letter c \<or> is_space c then c else CHR '' '') ''I123am*a*student'';
          results = filter (\<lambda>elem. CHR '' '' \<notin> set elem \<and> elem \<noteq> []) (parts input)
      in ''originx: '' @ input @ endl @ concat (map (\<lambda>elem. elem @ '' '') (rev results)))"

end
