(* ===== verification/CalculatorClaims.thy ===== *)
theory CalculatorClaims
  imports Calculator
begin

text \<open>
  What the calculator computes: expressions with the usual precedence as a data type, their text, and their
  value with the lines that are printed on the way.
\<close>

section \<open>Expressions\<close>

datatype exp = Num string | Paren exp | Bin exp char exp

fun render :: "exp \<Rightarrow> string" where
  "render (Num ds) = ds"
| "render (Paren e) = ''('' @ render e @ '')''"
| "render (Bin l op r) = render l @ op # render r"

definition digit_text :: "string \<Rightarrow> bool" where
  "digit_text ds \<longleftrightarrow> ds \<noteq> [] \<and> (\<forall>c \<in> set ds. isdigit c = Inr True)"

text \<open>How strongly the outermost operator binds: 0 most of all.\<close>

definition strength :: "char \<Rightarrow> int" where
  "strength op = (if op = CHR ''*'' \<or> op = CHR ''/'' then 1 else 2)"

definition operator :: "char \<Rightarrow> bool" where
  "operator op \<longleftrightarrow> op = CHR ''*'' \<or> op = CHR ''/'' \<or> op = CHR ''+'' \<or> op = CHR ''-''"

fun level :: "exp \<Rightarrow> int" where
  "level (Bin l op r) = strength op"
| "level e = 0"

text \<open>The trees the grammar with left-associative operators gives; every text of it comes from one of them.\<close>

fun wf_exp :: "exp \<Rightarrow> bool" where
  "wf_exp (Num ds) = digit_text ds"
| "wf_exp (Paren e) = wf_exp e"
| "wf_exp (Bin l op r) = (operator op \<and> wf_exp l \<and> wf_exp r \<and> level l \<le> strength op \<and> level r < strength op)"

text \<open>The value of a number, digit by digit.\<close>

fun read_digits :: "int \<Rightarrow> string \<Rightarrow> fault + int" where
  "read_digits num [] = Inr num"
| "read_digits num (ch # ds) =
     bindE (chk (num * 10)) (\<lambda>t. bindE (chk (t + of_char ch)) (\<lambda>t. bindE (chk (t - 48)) (\<lambda>num. read_digits num ds)))"

text \<open>The value, by the structure of the expression.\<close>

fun exp_value :: "exp \<Rightarrow> fault + int" where
  "exp_value (Num ds) = read_digits 0 ds"
| "exp_value (Paren e) = exp_value e"
| "exp_value (Bin l op r) = bindE (exp_value l) (\<lambda>a. bindE (exp_value r) (\<lambda>b. apply_op op a b))"

text \<open>The same, with the output: \<open>p\<close> is the position of the expression in the text around it.\<close>

fun exp_run :: "exp \<Rightarrow> nat \<Rightarrow> string \<Rightarrow> fault + (int \<times> string)" where
  "exp_run (Num ds) p out = bindE (read_digits 0 ds) (\<lambda>v. Inr (v, out))"
| "exp_run (Paren e) p out =
     exp_run e 0 (out @ ''sub: '' @ render e @ '', pos: '' @ fmt_d (int (p + length (render e) + 1)) @ endl)"
| "exp_run (Bin l op r) p out =
     bindE (exp_run l p out) (\<lambda>(a, out).
     bindE (exp_run r (p + length (render l) + 1) out) (\<lambda>(b, out).
     bindE (apply_op op a b) (\<lambda>v. Inr (v, out @ show_step a op b v))))"

lemma exp_run_value: "bindE (exp_run e p out) (\<lambda>(v, out). Inr v) = exp_value e"
proof (induction e arbitrary: p out)
  case (Num ds)
  show ?case by (cases "read_digits 0 ds") simp_all
next
  case (Bin l op r)
  have l: "exp_value l = (case exp_run l p out of Inl f \<Rightarrow> Inl f | Inr (v, o1) \<Rightarrow> Inr v)"
    using Bin.IH(1) [of p out] by (simp add: bindE_def split: sum.splits)
  show ?case
  proof (cases "exp_run l p out")
    case (Inr x)
    obtain a o1 where x: "x = (a, o1)" by (cases x)
    have r: "exp_value r = (case exp_run r (p + length (render l) + 1) o1 of Inl f \<Rightarrow> Inl f | Inr (v, o1) \<Rightarrow> Inr v)"
      using Bin.IH(2) [of "p + length (render l) + 1" o1] by (simp add: bindE_def split: sum.splits)
    show ?thesis
    proof (cases "exp_run r (p + length (render l) + 1) o1")
      case (Inr y)
      obtain b o2 where "y = (b, o2)" by (cases y)
      then show ?thesis using Inr l r x \<open>exp_run l p out = Inr x\<close> by (cases "apply_op op a b") simp_all
    qed (use Inr l r x in simp)
  qed (use l in simp)
qed simp

section \<open>Characters\<close>

lemma operator_facts:
  assumes "operator op"
  shows "isdigit op = Inr False" "op \<noteq> CHR '' ''" "op \<noteq> CHR ''(''" "op \<noteq> CHR '')''" "comp_at op = Inr (strength op)"
  using assms by (auto simp: operator_def isdigit_def comp_at_def strength_def)

lemma op_priority_strength:
  "operator a \<Longrightarrow> operator b \<Longrightarrow> op_priority a b = Inr (strength a < strength b)"
  by (simp add: op_priority_def operator_facts)

lemma digit_facts:
  assumes "isdigit c = Inr True"
  shows "c \<noteq> CHR '' ''" "c \<noteq> CHR ''(''" "c \<noteq> CHR '')''"
  using assms by (auto simp: isdigit_def)

lemma render_not_Nil: "wf_exp e \<Longrightarrow> render e \<noteq> []"
  by (cases e) (auto simp: digit_text_def)

section \<open>Parentheses\<close>

text \<open>While a parenthesis is open the current character does not matter.\<close>

lemma close_paren_any: "match > 0 \<Longrightarrow> close_paren input pos ch match = close_paren input pos ch' match"
  by (simp add: close_paren.simps [of input pos ch] close_paren.simps [of input pos ch'])

lemma close_paren_step:
  assumes "input = pre @ c # post" "match > 0"
    "match' = (if c = CHR '')'' then match - 1 else if c = CHR ''('' then match + 1 else match)"
  shows "close_paren input (int (length pre) - 1) ch match = close_paren input (int (length pre)) c match'"
  using assms by (subst close_paren.simps) (simp add: nth_append Let_def)

lemma close_paren_plain:
  assumes "input = pre @ cs @ post" "\<forall>c \<in> set cs. c \<noteq> CHR ''('' \<and> c \<noteq> CHR '')''" "match > 0"
  shows "close_paren input (int (length pre) - 1) ch match = close_paren input (int (length pre + length cs) - 1) ch match"
  using assms
proof (induction cs arbitrary: pre)
  case (Cons c cs)
  have "close_paren input (int (length pre) - 1) ch match = close_paren input (int (length (pre @ [c])) - 1) c match"
    using Cons.prems by (subst close_paren_step [of _ pre c "cs @ post"]) auto
  also have "\<dots> = close_paren input (int (length (pre @ [c])) - 1) ch match" by (rule close_paren_any [OF Cons.prems(3)])
  also have "\<dots> = close_paren input (int (length (pre @ [c]) + length cs) - 1) ch match"
    using Cons.prems by (intro Cons.IH) auto
  finally show ?case by simp
qed simp

text \<open>Over a whole expression the count of open parentheses comes back to what it was.\<close>

lemma close_paren_exp:
  assumes "input = pre @ render e @ post" "wf_exp e" "match > 0"
  shows "close_paren input (int (length pre) - 1) ch match =
    close_paren input (int (length pre + length (render e)) - 1) ch match"
  using assms
proof (induction e arbitrary: pre post match)
  case (Num ds)
  then show ?case by (intro close_paren_plain) (auto simp: digit_text_def dest: digit_facts)
next
  case (Paren e)
  let ?p = "pre @ ''(''" and ?q = "pre @ ''('' @ render e"
  have "close_paren input (int (length pre) - 1) ch match = close_paren input (int (length ?p) - 1) (CHR ''('') (match + 1)"
    using Paren.prems by (subst close_paren_step [of _ pre "CHR ''(''"]) auto
  also have "\<dots> = close_paren input (int (length ?p) - 1) ch (match + 1)"
    using Paren.prems by (intro close_paren_any) simp
  also have "\<dots> = close_paren input (int (length ?q) - 1) ch (match + 1)"
    using Paren.prems by (subst Paren.IH [of ?p "'')'' @ post"]) auto
  also have "\<dots> = close_paren input (int (length ?q)) (CHR '')'') match"
    using Paren.prems by (subst close_paren_step [of _ ?q "CHR '')''" post]) auto
  also have "\<dots> = close_paren input (int (length ?q)) ch match" by (rule close_paren_any [OF Paren.prems(3)])
  finally show ?case by (simp add: algebra_simps)
next
  case (Bin l op r)
  let ?p = "pre @ render l" and ?q = "pre @ render l @ [op]"
  have "close_paren input (int (length pre) - 1) ch match = close_paren input (int (length ?p) - 1) ch match"
    using Bin.prems by (subst Bin.IH(1) [of pre "op # render r @ post"]) auto
  also have "\<dots> = close_paren input (int (length ?p + length [op]) - 1) ch match"
    using Bin.prems by (intro close_paren_plain [of _ _ _ "render r @ post"]) (auto dest: operator_facts)
  also have "\<dots> = close_paren input (int (length ?q) - 1) ch match" by simp
  also have "\<dots> = close_paren input (int (length ?q + length (render r)) - 1) ch match"
    using Bin.prems by (intro Bin.IH(2) [of ?q post]) auto
  finally show ?case by (simp add: algebra_simps)
qed

lemma close_paren_finds:
  assumes "input = pre @ ''('' @ render e @ '')'' @ post" "wf_exp e"
  shows "close_paren input (int (length pre)) (CHR ''('') 1 = Inr (int (length pre + length (render e) + 1))"
proof -
  let ?p = "pre @ ''(''" and ?q = "pre @ ''('' @ render e"
  have "close_paren input (int (length pre)) (CHR ''('') 1 = close_paren input (int (length ?p) - 1) (CHR ''('') 1" by simp
  also have "\<dots> = close_paren input (int (length ?p + length (render e)) - 1) (CHR ''('') 1"
    using assms by (intro close_paren_exp [of _ _ _ "'')'' @ post"]) auto
  also have "\<dots> = close_paren input (int (length ?q) - 1) (CHR ''('') 1" by simp
  also have "\<dots> = close_paren input (int (length ?q)) (CHR '')'') 0"
    using assms by (subst close_paren_step [of _ ?q "CHR '')''" post]) auto
  finally show ?thesis by (simp add: close_paren.simps [of _ _ _ 0])
qed

section \<open>The loop\<close>

lemma bindE_ret: "bindE m Inr = m"
  by (cases m) auto

text \<open>What the loop does behind its last round.\<close>

definition finish_calc :: "int list \<Rightarrow> char list \<Rightarrow> string \<Rightarrow> fault + (int \<times> string)" where
  "finish_calc num_stack op_stack out =
     bindE (reduce_all num_stack op_stack out) (\<lambda>(num_stack, out).
     case num_stack of [] \<Rightarrow> Inl OutOfBounds | n # _ \<Rightarrow> Inr (n, out))"

lemma calc_end: "length input \<le> index \<Longrightarrow> calc_loop input index num nums ops out = finish_calc nums ops out"
  by (subst calc_loop.simps) (simp add: finish_calc_def)

lemma calc_digits:
  assumes "input = pre @ ds @ post" "\<forall>c \<in> set ds. isdigit c = Inr True"
  shows "calc_loop input (length pre) num nums ops out =
    bindE (read_digits num ds) (\<lambda>v.
    if post = [] \<and> ds \<noteq> [] then finish_calc (v # nums) ops out else calc_loop input (length pre + length ds) v nums ops out)"
  using assms
proof (induction ds arbitrary: pre num)
  case (Cons c ds)
  have c: "input ! length pre = c" "length pre < length input" "isdigit c = Inr True" "c \<noteq> CHR '' ''"
    using Cons.prems digit_facts by auto
  have ends: "length pre = length input - 1 \<longleftrightarrow> ds = [] \<and> post = []"
    using Cons.prems(1) by (cases ds; cases post) auto
  have step: "calc_loop input (length pre) num nums ops out =
      bindE (chk (num * 10)) (\<lambda>t. bindE (chk (t + of_char c)) (\<lambda>t. bindE (chk (t - 48)) (\<lambda>num.
      calc_loop input (length (pre @ [c])) num (if ds = [] \<and> post = [] then num # nums else nums) ops out)))"
    using c by (subst calc_loop.simps) (simp add: ends [unfolded One_nat_def])
  show ?case
  proof (cases "ds = []")
    case True
    then show ?thesis unfolding step using Cons.prems(1)
      by (cases "post = []") (simp_all add: calc_end bindE_assoc)
  next
    case False
    have len: "length (pre @ [c]) + length ds = length pre + length (c # ds)" by simp
    have "calc_loop input (length (pre @ [c])) n nums ops out =
      bindE (read_digits n ds) (\<lambda>v. if post = [] \<and> ds \<noteq> [] then finish_calc (v # nums) ops out
        else calc_loop input (length (pre @ [c]) + length ds) v nums ops out)" for n
      using Cons.prems by (intro Cons.IH) auto
    then show ?thesis unfolding step len using False by (simp add: bindE_assoc)
  qed
qed simp

text \<open>An operator: what is pending is worked off, then it enters the stack.\<close>

lemma calc_operator:
  assumes "input = pre @ op # post" "operator op"
  shows "calc_loop input (length pre) num nums ops out =
    bindE (enter_op op (num # nums) ops out) (\<lambda>(nums, ops, out). calc_loop input (length pre + 1) 0 nums ops out)"
  using assms operator_facts [OF assms(2)] by (subst calc_loop.simps) (simp add: nth_append)

definition under :: "int \<Rightarrow> char list \<Rightarrow> bool" where
  "under lev ops \<longleftrightarrow> list_all operator ops \<and> (ops = [] \<or> lev < strength (hd ops))"

lemma enter_under:
  "operator op \<Longrightarrow> under (strength op) ops \<Longrightarrow> enter_op op nums ops out = Inr (nums, op # ops, out)"
  by (cases ops) (auto simp: enter_op_def under_def op_priority_strength)

lemma enter_reduce:
  assumes "operator op" "list_all operator ops"
  shows "enter_op op nums ops out =
    bindE (reduce_while op nums ops out) (\<lambda>(nums, ops, out). Inr (nums, op # ops, out))"
  using assms by (cases ops) (auto simp: enter_op_def op_priority_strength)

lemma enter_over:
  assumes "operator c" "operator op" "strength op \<le> strength c" "list_all operator ops"
  shows "enter_op c (b # a # nums) (op # ops) out =
    bindE (apply_op op a b) (\<lambda>v. enter_op c (v # nums) ops (out @ show_step a op b v))"
  using assms
  by (simp add: enter_reduce op_priority_strength op_on_stack_def bindE_assoc)

lemma finish_over:
  "finish_calc (b # a # nums) (op # ops) out =
    bindE (apply_op op a b) (\<lambda>v. finish_calc (v # nums) ops (out @ show_step a op b v))"
  by (simp add: finish_calc_def op_on_stack_def bindE_assoc)

text \<open>
  The text of an expression has the effect of its value. Before an operator that binds no more strongly the
  pending operators are those that were there before; at the end of the text they are worked off.
\<close>

lemma calc_exp:
  assumes "wf_exp e" "input = pre @ render e @ post" "under (level e) ops" "length input < 2 ^ 63"
  shows "(\<forall>c rest. post = c # rest \<longrightarrow> operator c \<longrightarrow> level e \<le> strength c \<longrightarrow>
      calc_loop input (length pre) 0 nums ops out =
      bindE (exp_run e (length pre) out) (\<lambda>(v, out). calc_loop input (length pre + length (render e)) v nums ops out)) \<and>
    (post = [] \<longrightarrow> calc_loop input (length pre) 0 nums ops out =
      bindE (exp_run e (length pre) out) (\<lambda>(v, out). finish_calc (v # nums) ops out))"
  using assms
proof (induction e arbitrary: input pre post nums ops out)
  case (Num ds)
  then show ?case using calc_digits [of input pre ds post 0 nums ops out]
    by (auto simp: digit_text_def bindE_assoc intro!: bindE_cong)
next
  case (Paren e)
  have c: "input ! length pre = CHR ''(''" "length pre < length input" using Paren.prems by auto
  have pos: "close_paren input (int (length pre)) (CHR ''('') 1 = Inr (int (length pre + length (render e) + 1))"
    using Paren.prems by (intro close_paren_finds) auto
  have sub: "substr input (int (length pre) + 1) (int (length pre + length (render e) + 1) - int (length pre) - 1) = Inr (render e)"
  proof -
    have "drop (nat (int (length pre) + 1)) input = render e @ '')'' @ post"
      using Paren.prems(2) by (simp add: nat_add_distrib)
    moreover have "size_t (int (length pre) + 1) = int (length pre) + 1"
        "size_t (int (length (render e))) = int (length (render e))"
      using Paren.prems by (auto intro!: size_t_nat)
    ultimately show ?thesis using Paren.prems(2) by (simp add: substr_def)
  qed
  have inner: "calc_loop (render e) 0 0 [] [] o1 = exp_run e 0 o1" for o1
    using Paren.IH [of "render e" "[]" "[]" "[]" "[]" o1] Paren.prems
    by (simp add: under_def finish_calc_def bindE_ret)
  have step: "calc_loop input (length pre) 0 nums ops out =
      bindE (exp_run (Paren e) (length pre) out) (\<lambda>(v, out).
      calc_loop input (length pre + length (render (Paren e))) v (if post = [] then v # nums else nums) ops out)"
  proof -
    have last: "int (length pre + length (render e) + 1) = int (length input) - 1 \<longleftrightarrow> post = []"
      using Paren.prems(2) by (cases post) auto
    have "nat (int (length pre + length (render e) + 1)) + 1 = length pre + length (render (Paren e))" by simp
    moreover have "isdigit (CHR ''('') = Inr False" by (simp add: isdigit_def)
    ultimately show ?thesis using c(2)
      by (subst calc_loop.simps) (simp only: c(1) pos sub inner last if_True Let_def bindE_Inr exp_run.simps, simp)
  qed
  show ?case unfolding step using Paren.prems(2) by (auto simp: calc_end intro!: bindE_cong)
next
  case (Bin l op r)
  let ?i = "length pre + length (render l)"
  have op: "operator op" and wl: "wf_exp l" "level l \<le> strength op" and wr: "wf_exp r" "level r < strength op"
    using Bin.prems by auto
  have ops: "list_all operator ops" "under (level l) ops" "under (level r) (op # ops)" "under (strength op) ops"
    using Bin.prems(3) op wl wr by (auto simp: under_def)
  have input: "input = (pre @ render l) @ op # render r @ post" "input = (pre @ render l @ [op]) @ render r @ post"
      "input = pre @ render l @ op # render r @ post"
    using Bin.prems(2) by simp_all
  have first: "calc_loop input (length pre) 0 nums ops out =
      bindE (exp_run l (length pre) out) (\<lambda>(a, out). calc_loop input (?i + 1) 0 (a # nums) (op # ops) out)"
  proof -
    have "calc_loop input ?i a nums ops out = calc_loop input (?i + 1) 0 (a # nums) (op # ops) out" for a out
      using calc_operator [OF input(1) op] by (simp add: enter_under [OF op ops(4)])
    moreover have "calc_loop input (length pre) 0 nums ops out =
        bindE (exp_run l (length pre) out) (\<lambda>(a, out). calc_loop input ?i a nums ops out)"
      using Bin.IH(1) [OF wl(1) input(3) ops(2) Bin.prems(4), of nums out] wl(2) op by simp
    ultimately show ?thesis by (simp only:)
  qed
  note second = Bin.IH(2) [of input "pre @ render l @ [op]" post "op # ops" _ _, OF wr(1) input(2) ops(3) Bin.prems(4)]
  show ?case
  proof (intro conjI allI impI)
    fix c rest assume c: "post = c # rest" "operator c" "level (Bin l op r) \<le> strength c"
    let ?j = "length pre + length (render (Bin l op r))"
    have at_c: "calc_loop input ?j n ns os o1 =
        bindE (enter_op c (n # ns) os o1) (\<lambda>(nums, ops, out). calc_loop input (?j + 1) 0 nums ops out)" for n ns os o1
      using calc_operator [of input "pre @ render (Bin l op r)" c rest] Bin.prems(2) c by simp
    have over: "calc_loop input ?j b (a # nums) (op # ops) o1 =
        bindE (apply_op op a b) (\<lambda>v. calc_loop input ?j v nums ops (o1 @ show_step a op b v))" for a b o1
      using c op ops unfolding at_c by (simp add: enter_over bindE_assoc)
    have rgt: "calc_loop input (?i + 1) 0 (a # nums) (op # ops) o1 =
        bindE (exp_run r (?i + 1) o1) (\<lambda>(b, out). calc_loop input ?j b (a # nums) (op # ops) out)" for a o1
      using second [of "a # nums" o1] c wr by (simp add: add.assoc)
    show "calc_loop input (length pre) 0 nums ops out =
        bindE (exp_run (Bin l op r) (length pre) out) (\<lambda>(v, out). calc_loop input ?j v nums ops out)"
      by (simp only: first rgt over exp_run.simps bindE_assoc split_def bindE_Inr fst_conv snd_conv)
  next
    assume "post = []"
    then have rgt: "calc_loop input (?i + 1) 0 (a # nums) (op # ops) o1 =
        bindE (exp_run r (?i + 1) o1) (\<lambda>(b, out). finish_calc (b # a # nums) (op # ops) out)" for a o1
      using second [of "a # nums" o1] by simp
    show "calc_loop input (length pre) 0 nums ops out =
        bindE (exp_run (Bin l op r) (length pre) out) (\<lambda>(v, out). finish_calc (v # nums) ops out)"
      by (simp only: first rgt finish_over exp_run.simps bindE_assoc split_def bindE_Inr fst_conv snd_conv)
  qed
qed

lemma calculate_exp:
  assumes "wf_exp e" "length (render e) < 2 ^ 63"
  shows "calculate_input (render e) out = exp_run e 0 out"
  using calc_exp [of e "render e" "[]" "[]" "[]" "[]" out] assms
  by (simp add: calculate_input_def under_def finish_calc_def bindE_ret)

section \<open>Properties\<close>

text \<open>
  C32: on the text of an expression \<open>calculate_input\<close> (\<^verbatim>\<open>test2.cpp\<close>) prints what the evaluation by the
  structure of the expression prints, with the usual precedence and operators grouped from the left, and
  returns its value; where a number or a result does not fit an \<open>int\<close>, or a divisor is 0, it has the same
  fault.
\<close>

theorem calculate_input_evaluates:
  assumes "wf_exp e" "length (render e) < 2 ^ 31"
  shows "calculate_input (render e) out = exp_run e 0 out \<and>
    bindE (calculate_input (render e) out) (\<lambda>(v, out). Inr v) = exp_value e"
  using calculate_exp [of e out] assms exp_run_value [of e 0 out] by simp

theorem calculate_input_evaluates_witness:
  "calculate_input ''2+3*4'' [] = Inr (14, ''3*4=12'' @ endl @ ''2+12=14'' @ endl)"
proof -
  let ?e = "Bin (Num ''2'') (CHR ''+'') (Bin (Num ''3'') (CHR ''*'') (Num ''4''))"
  have "wf_exp ?e" "render ?e = ''2+3*4''" by (simp_all add: digit_text_def isdigit_def operator_def strength_def)
  moreover have "exp_run ?e 0 [] = Inr (14, ''3*4=12'' @ endl @ ''2+12=14'' @ endl)"
    by (simp add: fits_def INT_MIN_def INT_MAX_def apply_op_def show_step_def show_simps)
  ultimately show ?thesis using calculate_input_evaluates [of ?e "[]"] by simp
qed

text \<open>
  outside the grammar \<open>calculate_input\<close> goes wrong: a minus behind another operator takes the 0 in front of it as a
  number of its own, spaces join digits, a space at the end drops the last number, and the largest
  \<open>int\<close> overflows while it is read.
\<close>

theorem calculate_input_outside_grammar:
  "calculate_input ''3*-1'' [] = Inr (-1, ''3*0=0'' @ endl @ ''0-1=-1'' @ endl) \<and>
   calculate_input ''1 2'' [] = Inr (12, []) \<and>
   calculate_input ''7 '' [] = Inl OutOfBounds \<and>
   calculate_input ''2147483647'' [] = Inl SignedOverflow"
  by (intro conjI) code_simp+

text \<open>The program, \<open>snake_matrix\<close> and \<open>split\<close>.\<close>

theorem calculator_programs:
  "(\<exists>steps. calculator_main = Inr (''result: '' @ steps @ ''-131'' @ endl)) \<and>
   snake_matrix = Inr (''snake_matrix'' @ endl @ ''1 3 6 10 '' @ endl @ ''2 5 9 '' @ endl @ ''4 8 '' @ endl @ ''7 '' @ endl) \<and>
   split_text = ''originx: I   am a student'' @ endl @ ''student a am I ''"
proof (intro conjI)
  let ?n = "\<lambda>ds. Num ds" and ?add = "\<lambda>a b. Bin a (CHR ''+'') b" and ?sub = "\<lambda>a b. Bin a (CHR ''-'') b"
    and ?mul = "\<lambda>a b. Bin a (CHR ''*'') b"
  let ?inner = "?sub (?sub (?sub (?add (?sub (?n ''3'') (?n ''3'')) (?n ''4'')) (?n ''1'')) (?n ''8'')) (?n ''10'')"
  let ?e = "Paren (?add (?add (?n ''7'') (?mul (?n ''4'') (?n ''3''))) (?mul (?n ''10'') (Paren ?inner)))"
  have "wf_exp ?e" "render ?e = ''(7+4*3+10*(3-3+4-1-8-10))''"
    by (simp_all add: digit_text_def isdigit_def operator_def strength_def)
  moreover have "\<exists>steps. exp_run ?e 0 (''result: '') = Inr (-131, ''result: '' @ steps)"
    by (simp add: fits_def INT_MIN_def INT_MAX_def apply_op_def)
  ultimately show "\<exists>steps. calculator_main = Inr (''result: '' @ steps @ ''-131'' @ endl)"
    using calculate_exp [of ?e "''result: ''"] by (auto simp: calculator_main_def show_simps)
qed code_simp+

end
