(* ===== verification/OpPrecedence.thy ===== *)
theory OpPrecedence
  imports Calculator
begin

text \<open>
  The evaluator of \<^verbatim>\<open>test3.cpp\<close>, which compares operators by a table. Numbers are of type \<open>double\<close>: their
  operations are a parameter of the definitions, so that what is shown holds whatever they round.
\<close>

section \<open>Operators\<close>

record 'd arith =
  d_add :: "'d \<Rightarrow> 'd \<Rightarrow> 'd"
  d_sub :: "'d \<Rightarrow> 'd \<Rightarrow> 'd"
  d_mul :: "'d \<Rightarrow> 'd \<Rightarrow> 'd"
  d_div :: "'d \<Rightarrow> 'd \<Rightarrow> 'd"
  d_int :: "int \<Rightarrow> 'd"

definition getIndex :: "char \<Rightarrow> int" where
  "getIndex theta =
     (if theta = CHR ''+'' then 0
      else if theta = CHR ''-'' then 1
      else if theta = CHR ''*'' then 2
      else if theta = CHR ''/'' then 3
      else if theta = CHR ''('' then 4
      else if theta = CHR '')'' then 5
      else if theta = CHR ''#'' then 6
      else 0)"

definition priority :: "string list" where
  "priority =
     [''>><<<>>'',
      ''>><<<>>'',
      ''>>>><>>'',
      ''>>>><>>'',
      ''<<<<<=0'',
      ''>>>>0>>'',
      ''<<<<<0='']"

definition getPriority :: "char \<Rightarrow> char \<Rightarrow> fault + char" where
  "getPriority theta1 theta2 = aget2 priority (getIndex theta1) (getIndex theta2)"

text \<open>Without a matching case the end is reached without a \<open>return\<close>.\<close>

definition calculate :: "'d arith \<Rightarrow> 'd \<Rightarrow> char \<Rightarrow> 'd \<Rightarrow> fault + 'd" where
  "calculate A b theta a =
     (if theta = CHR ''+'' then Inr (d_add A b a)
      else if theta = CHR ''-'' then Inr (d_sub A b a)
      else if theta = CHR ''*'' then Inr (d_mul A b a)
      else if theta = CHR ''/'' then Inr (d_div A b a)
      else Inl MissingReturn)"

section \<open>The evaluation\<close>

text \<open>
  The two global stacks, the local variables \<open>counter\<close> and \<open>c\<close>, and the input that is left. At its end
  \<open>getchar\<close> answers -1, which as a \<open>char\<close> is \<open>0xFF\<close>.
\<close>

record 'd eval =
  opter :: "char list"
  opval :: "'d list"
  counter :: int
  cur :: char
  inp :: string

definition getchar :: "string \<Rightarrow> char \<times> string" where
  "getchar s = (case s of [] \<Rightarrow> (CHR 0xFF, []) | c # cs \<Rightarrow> (c, cs))"

definition next_char :: "'d eval \<Rightarrow> 'd eval" where
  "next_char s = (case getchar (inp s) of (c, cs) \<Rightarrow> s\<lparr>cur := c, inp := cs\<rparr>)"

text \<open>\<open>top()\<close> and \<open>pop()\<close>; of an empty stack they are undefined.\<close>

definition take_top :: "'a list \<Rightarrow> fault + ('a \<times> 'a list)" where
  "take_top xs = (case xs of [] \<Rightarrow> Inl OutOfBounds | x # xs \<Rightarrow> Inr (x, xs))"

definition digit_round :: "'d arith \<Rightarrow> 'd eval \<Rightarrow> fault + 'd eval" where
  "digit_round A s =
     (let d = d_int A (of_char (cur s) - 48) in
      bindE (if counter s = 1 then
               bindE (take_top (opval s)) (\<lambda>(t, vs).
               Inr (s\<lparr>opval := d_add A (d_mul A t (d_int A 10)) d # vs, counter := 1\<rparr>))
             else Inr (s\<lparr>opval := d # opval s, counter := counter s + 1\<rparr>)) (\<lambda>s.
      Inr (next_char s)))"

definition op_round :: "'d arith \<Rightarrow> 'd eval \<Rightarrow> fault + 'd eval" where
  "op_round A s =
     (let s = s\<lparr>counter := 0\<rparr> in
      bindE (take_top (opter s)) (\<lambda>(theta, ops).
      bindE (getPriority theta (cur s)) (\<lambda>p.
      if p = CHR ''<'' then Inr (next_char (s\<lparr>opter := cur s # opter s\<rparr>))
      else if p = CHR ''='' then Inr (next_char (s\<lparr>opter := ops\<rparr>))
      else if p = CHR ''>'' then
        bindE (take_top (opval s)) (\<lambda>(a, vs).
        bindE (take_top vs) (\<lambda>(b, vs).
        bindE (calculate A b theta a) (\<lambda>v.
        Inr (s\<lparr>opter := ops, opval := v # vs\<rparr>))))
      else Inr s)))"

definition eval_round :: "'d arith \<Rightarrow> 'd eval \<Rightarrow> 'd eval may" where
  "eval_round A s = Some (bindE (isdigit (cur s)) (\<lambda>digit. if digit then digit_round A s else op_round A s))"

definition eval_goes_on :: "'d eval \<Rightarrow> fault + bool" where
  "eval_goes_on s =
     (if cur s \<noteq> CHR ''#'' then Inr True
      else bindE (take_top (opter s)) (\<lambda>(theta, ops). Inr (theta \<noteq> CHR ''#'')))"

definition getAnswer :: "'d arith \<Rightarrow> char list \<Rightarrow> 'd list \<Rightarrow> string \<Rightarrow> ('d \<times> 'd eval) may" where
  "getAnswer A ops vals input =
     (let (c, rest) = getchar input in
      bindM (while_may eval_goes_on (eval_round A)
        \<lparr>opter = CHR ''#'' # ops, opval = vals, counter = 0, cur = c, inp = rest\<rparr>) (\<lambda>s.
      bindM (Some (take_top (opval s))) (\<lambda>(v, vs).
      retM (v, s))))"

text \<open>
  \<open>main\<close> behind \<open>cin >> t; getchar()\<close>: \<open>t\<close> texts are read, each with a character behind its \<open>#\<close> that is
  skipped. How \<open>cout\<close> writes a \<open>double\<close> is the parameter \<open>show_d\<close>.
\<close>

partial_function (option) answers :: "'d arith \<Rightarrow> ('d \<Rightarrow> string) \<Rightarrow> int \<Rightarrow> string \<Rightarrow> string \<Rightarrow> string may" where
  "answers A show_d t input out =
     (if t = 0 then retM out
      else
        bindM (Some (chk (t - 1))) (\<lambda>t.
        bindM (getAnswer A [] [] input) (\<lambda>(ans, s).
        answers A show_d t (snd (getchar (inp s))) (out @ show_d ans @ endl @ endl))))"

end
