(* ===== verification/OpPrecedenceClaims.thy ===== *)
theory OpPrecedenceClaims
  imports OpPrecedence CalculatorClaims
begin

text \<open>
  The evaluator with a table computes the value of an expression in any arithmetic, does not end where a
  parenthesis is not closed, and agrees with the other calculator where the arithmetic is exact on integers.
\<close>

section \<open>The value of an expression in an arithmetic\<close>

fun num_value :: "'d arith \<Rightarrow> 'd \<Rightarrow> string \<Rightarrow> 'd" where
  "num_value A v [] = v"
| "num_value A v (c # cs) = num_value A (d_add A (d_mul A v (d_int A 10)) (d_int A (of_char c - 48))) cs"

definition bin_value :: "'d arith \<Rightarrow> char \<Rightarrow> 'd \<Rightarrow> 'd \<Rightarrow> 'd" where
  "bin_value A op =
     (if op = CHR ''+'' then d_add A else if op = CHR ''-'' then d_sub A else if op = CHR ''*'' then d_mul A else d_div A)"

fun value_in :: "'d arith \<Rightarrow> exp \<Rightarrow> 'd" where
  "value_in A (Num ds) = num_value A (d_int A (of_char (hd ds) - 48)) (tl ds)"
| "value_in A (Paren e) = value_in A e"
| "value_in A (Bin l op r) = bin_value A op (value_in A l) (value_in A r)"

section \<open>The table\<close>

lemma table_facts:
  assumes "operator op"
  shows "operator t \<Longrightarrow> getPriority t op = Inr (if strength op < strength t then CHR ''<'' else CHR ''>'')"
    "getPriority (CHR ''#'') op = Inr (CHR ''<'')" "getPriority (CHR ''('') op = Inr (CHR ''<'')"
    "getPriority op (CHR ''('') = Inr (CHR ''<'')" "getPriority op (CHR '')'') = Inr (CHR ''>'')"
    "getPriority op (CHR ''#'') = Inr (CHR ''>'')"
  using assms
  by (auto simp: operator_def getPriority_def getIndex_def priority_def aget2_def aget_def strength_def)

lemma table_parens:
  "getPriority (CHR ''('') (CHR ''('') = Inr (CHR ''<'')" "getPriority (CHR ''#'') (CHR ''('') = Inr (CHR ''<'')"
  "getPriority (CHR ''('') (CHR '')'') = Inr (CHR ''='')" "getPriority (CHR ''('') (CHR ''#'') = Inr (CHR ''0'')"
  by (simp_all add: getPriority_def getIndex_def priority_def aget2_def aget_def)

section \<open>Rounds\<close>

definition state :: "char list \<Rightarrow> 'd list \<Rightarrow> int \<Rightarrow> string \<Rightarrow> 'd eval" where
  "state ops vals k rest = \<lparr>opter = ops, opval = vals, counter = k, cur = hd rest, inp = tl rest\<rparr>"

abbreviation run :: "'d arith \<Rightarrow> 'd eval \<Rightarrow> 'd eval may" where
  "run A \<equiv> while_may eval_goes_on (eval_round A)"

lemma next_state: "rest \<noteq> [] \<Longrightarrow> next_char \<lparr>opter = ops, opval = vals, counter = k, cur = c, inp = rest\<rparr> = state ops vals k rest"
  by (cases rest) (simp_all add: next_char_def getchar_def state_def)

lemma run_digit:
  assumes "isdigit c = Inr True" "rest \<noteq> []"
  shows "run A (state ops vals 0 (c # rest)) = run A (state ops (d_int A (of_char c - 48) # vals) 1 rest)"
    "run A (state ops (v # vals) 1 (c # rest)) =
      run A (state ops (d_add A (d_mul A v (d_int A 10)) (d_int A (of_char c - 48)) # vals) 1 rest)"
  using assms digit_facts [OF assms(1)]
  by (subst while_step; auto simp: state_def eval_goes_on_def eval_round_def digit_round_def take_top_def isdigit_def
      Let_def next_state [unfolded state_def])+

lemma run_digits:
  assumes "\<forall>c \<in> set cs. isdigit c = Inr True" "rest \<noteq> []"
  shows "run A (state ops (v # vals) 1 (cs @ rest)) = run A (state ops (num_value A v cs # vals) 1 rest)"
  using assms by (induction cs arbitrary: v) (simp_all add: run_digit)

lemma not_digit:
  "isdigit (CHR ''('') = Inr False" "isdigit (CHR '')'') = Inr False" "isdigit (CHR ''#'') = Inr False"
  by (simp_all add: isdigit_def)

lemma run_shift:
  assumes "getPriority t c = Inr (CHR ''<'')" "isdigit c = Inr False" "c \<noteq> CHR ''#''" "rest \<noteq> []"
  shows "run A (state (t # ops) vals k (c # rest)) = run A (state (c # t # ops) vals 0 rest)"
  using assms
  by (subst while_step)
    (simp_all add: state_def eval_goes_on_def eval_round_def op_round_def take_top_def Let_def next_state [unfolded state_def])

lemma run_match:
  assumes "rest \<noteq> []"
  shows "run A (state (CHR ''('' # ops) vals k (CHR '')'' # rest)) = run A (state ops vals 0 rest)"
  using assms
  by (subst while_step)
    (simp_all add: state_def eval_goes_on_def eval_round_def op_round_def take_top_def Let_def table_parens not_digit
      next_state [unfolded state_def])

lemma run_reduce:
  assumes "getPriority op c = Inr (CHR ''>'')" "isdigit c = Inr False" "operator op"
  shows "run A (state (op # ops) (b # a # vals) k (c # rest)) = run A (state ops (bin_value A op a b # vals) 0 (c # rest))"
  using assms
  by (subst while_step)
    (auto simp: state_def eval_goes_on_def eval_round_def op_round_def take_top_def Let_def calculate_def bin_value_def
      operator_def)

section \<open>Expressions\<close>

text \<open>What may lie below an expression on the stack, and what may follow it in the text.\<close>

definition below :: "int \<Rightarrow> char \<Rightarrow> bool" where
  "below lev t \<longleftrightarrow> t = CHR ''#'' \<or> t = CHR ''('' \<or> operator t \<and> lev < strength t"

definition closes :: "int \<Rightarrow> char \<Rightarrow> bool" where
  "closes lev c \<longleftrightarrow> c = CHR ''#'' \<or> c = CHR '')'' \<or> operator c \<and> lev \<le> strength c"

lemma below_shift: "below (strength op) t \<Longrightarrow> operator op \<Longrightarrow> getPriority t op = Inr (CHR ''<'')"
  by (auto simp: below_def table_facts)

lemma below_paren: "below lev t \<Longrightarrow> getPriority t (CHR ''('') = Inr (CHR ''<'')"
  by (auto simp: below_def table_facts table_parens)

lemma closes_reduce: "closes (strength op) c \<Longrightarrow> operator op \<Longrightarrow> getPriority op c = Inr (CHR ''>'') \<and> isdigit c = Inr False"
  by (auto simp: closes_def table_facts not_digit operator_facts)

lemma run_exp:
  assumes "wf_exp e" "below (level e) t" "closes (level e) c"
  shows "\<exists>k. run A (state (t # ops) vals 0 (render e @ c # rest)) = run A (state (t # ops) (value_in A e # vals) k (c # rest))"
  using assms
proof (induction e arbitrary: t ops vals c rest)
  case (Num ds)
  then obtain d cs where "ds = d # cs" by (cases ds) (auto simp: digit_text_def)
  then show ?case using Num.prems(1) by (auto simp: digit_text_def run_digit run_digits)
next
  case (Paren e)
  have "closes (level e) (CHR '')'')" "below (level e) (CHR ''('')" by (simp_all add: closes_def below_def)
  then obtain k where k: "run A (state (CHR ''('' # t # ops) vals 0 (render e @ CHR '')'' # c # rest)) =
      run A (state (CHR ''('' # t # ops) (value_in A e # vals) k (CHR '')'' # c # rest))"
    using Paren.IH Paren.prems(1) by fastforce
  have "run A (state (t # ops) vals 0 (render (Paren e) @ c # rest)) =
      run A (state (CHR ''('' # t # ops) vals 0 (render e @ CHR '')'' # c # rest))"
    using below_paren [OF Paren.prems(2)] by (simp add: run_shift not_digit)
  then show ?case using k by (auto simp: run_match)
next
  case (Bin l op r)
  then have op: "operator op" and l: "wf_exp l" "level l \<le> strength op" and r: "wf_exp r" "level r < strength op" by auto
  have "closes (level l) op" "below (level l) t" "closes (level r) c" "below (level r) op"
    using Bin.prems(2,3) op l r by (auto simp: closes_def below_def)
  then obtain k j where
    k: "run A (state (t # ops) vals 0 (render l @ op # render r @ c # rest)) =
      run A (state (t # ops) (value_in A l # vals) k (op # render r @ c # rest))" and
    j: "run A (state (op # t # ops) (value_in A l # vals) 0 (render r @ c # rest)) =
      run A (state (op # t # ops) (value_in A r # value_in A l # vals) j (c # rest))"
    using Bin.IH(1) [OF l(1)] Bin.IH(2) [OF r(1)] by metis
  have "run A (state (t # ops) (value_in A l # vals) k (op # render r @ c # rest)) =
      run A (state (op # t # ops) (value_in A l # vals) 0 (render r @ c # rest))"
    using below_shift [of op t] Bin.prems(2) op operator_facts [OF op] by (intro run_shift) (auto simp: operator_def)
  moreover have "run A (state (op # t # ops) (value_in A r # value_in A l # vals) j (c # rest)) =
      run A (state (t # ops) (value_in A (Bin l op r) # vals) 0 (c # rest))"
    using closes_reduce [of op c] Bin.prems(3) op by (simp add: run_reduce)
  ultimately have "run A (state (t # ops) vals 0 (render (Bin l op r) @ c # rest)) =
      run A (state (t # ops) (value_in A (Bin l op r) # vals) 0 (c # rest))"
    using k j by simp
  then show ?case by blast
qed

lemma run_stop: "run A (state (CHR ''#'' # ops) vals k (CHR ''#'' # rest)) = retM (state (CHR ''#'' # ops) vals k (CHR ''#'' # rest))"
  by (rule while_stop) (simp add: eval_goes_on_def state_def take_top_def)

lemma getAnswer_run:
  "inpt \<noteq> [] \<Longrightarrow> getAnswer A ops vals inpt = bindM (run A (state (CHR ''#'' # ops) vals 0 inpt)) (\<lambda>s.
     bindM (Some (take_top (opval s))) (\<lambda>(v, vs). retM (v, s)))"
  by (cases inpt) (simp_all add: getAnswer_def getchar_def state_def)

lemma getAnswer_exp:
  assumes "wf_exp e"
  shows "\<exists>k. getAnswer A ops vals (render e @ CHR ''#'' # rest) =
    retM (value_in A e, state (CHR ''#'' # ops) (value_in A e # vals) k (CHR ''#'' # rest))"
proof -
  have "\<exists>k. run A (state (CHR ''#'' # ops) vals 0 (render e @ CHR ''#'' # rest)) =
      run A (state (CHR ''#'' # ops) (value_in A e # vals) k (CHR ''#'' # rest))"
    by (intro run_exp assms) (simp_all add: below_def closes_def)
  then obtain k where k: "run A (state (CHR ''#'' # ops) vals 0 (render e @ CHR ''#'' # rest)) =
      retM (state (CHR ''#'' # ops) (value_in A e # vals) k (CHR ''#'' # rest))" by (auto simp: run_stop)
  have "getAnswer A ops vals (render e @ CHR ''#'' # rest) =
      retM (value_in A e, state (CHR ''#'' # ops) (value_in A e # vals) k (CHR ''#'' # rest))"
    by (simp add: getAnswer_run k) (simp add: take_top_def state_def)
  then show ?thesis by blast
qed

section \<open>Properties\<close>

text \<open>
  C33: given as many expressions as announced, each ended by a number sign and one more character, the program of
  \<^verbatim>\<open>test3.cpp\<close> writes their values, in every arithmetic: with the usual precedence, and with operators grouped
  from the left.
\<close>

theorem answers_values:
  assumes "\<forall>e \<in> set es. wf_exp e" "length es < 2 ^ 31"
  shows "answers A show_d (int (length es)) (concat (map (\<lambda>e. render e @ ''#'' @ [sep]) es)) out =
    retM (out @ concat (map (\<lambda>e. show_d (value_in A e) @ endl @ endl) es))"
  using assms
proof (induction es arbitrary: out)
  case Nil
  show ?case by (subst answers.simps) simp
next
  case (Cons e es)
  obtain k where k: "getAnswer A [] [] (render e @ CHR ''#'' # sep # concat (map (\<lambda>e. render e @ ''#'' @ [sep]) es)) =
      retM (value_in A e, state (CHR ''#'' # []) (value_in A e # []) k (CHR ''#'' # sep # concat (map (\<lambda>e. render e @ ''#'' @ [sep]) es)))"
    using getAnswer_exp Cons.prems(1) by fastforce
  have "fits (int (length es))" using Cons.prems by (simp add: fits_def INT_MIN_def INT_MAX_def)
  then show ?case
    using Cons.IH Cons.prems k by (subst answers.simps) (simp add: state_def getchar_def)
qed

definition int_arith :: "int arith" where
  "int_arith = \<lparr>d_add = (+), d_sub = (-), d_mul = (*), d_div = (div), d_int = \<lambda>i. i\<rparr>"

theorem answers_values_witness:
  "answers int_arith fmt_d 2 ''5+6*3#$(8-2)/3#$'' [] = retM (''23'' @ endl @ endl @ ''2'' @ endl @ endl)"
  using answers_values [of "[Bin (Num ''5'') (CHR ''+'') (Bin (Num ''6'') (CHR ''*'') (Num ''3'')),
      Bin (Paren (Bin (Num ''8'') (CHR ''-'') (Num ''2''))) (CHR ''/'') (Num ''3'')]" int_arith fmt_d "CHR ''$''" "[]"]
  by (simp add: digit_text_def isdigit_def operator_def strength_def bin_value_def int_arith_def show_simps)

text \<open>
  when a parenthesis is not closed before the number sign, the table has no relation for the two, no case of the
  \<open>switch\<close> applies, and \<open>getAnswer\<close> does not end.
\<close>

theorem unclosed_never_ends:
  assumes "wf_exp e"
  shows "getAnswer A ops vals (''('' @ render e @ ''#'' @ rest) = None"
proof -
  let ?stuck = "\<lambda>s. opter s = CHR ''('' # CHR ''#'' # ops \<and> cur s = CHR ''#''"
  have "\<exists>k. run A (state (CHR ''('' # CHR ''#'' # ops) vals 0 (render e @ CHR ''#'' # rest)) =
      run A (state (CHR ''('' # CHR ''#'' # ops) (value_in A e # vals) k (CHR ''#'' # rest))"
    by (intro run_exp assms) (simp_all add: below_def closes_def)
  then obtain k where k: "run A (state (CHR ''('' # CHR ''#'' # ops) vals 0 (render e @ CHR ''#'' # rest)) =
      run A (state (CHR ''('' # CHR ''#'' # ops) (value_in A e # vals) k (CHR ''#'' # rest))" by blast
  have "run A (state (CHR ''('' # CHR ''#'' # ops) (value_in A e # vals) k (CHR ''#'' # rest)) = None"
    by (rule while_never [where I = ?stuck])
      (auto simp: state_def eval_goes_on_def eval_round_def op_round_def take_top_def not_digit table_parens Let_def)
  moreover have "run A (state (CHR ''#'' # ops) vals 0 (CHR ''('' # render e @ CHR ''#'' # rest)) =
      run A (state (CHR ''('' # CHR ''#'' # ops) vals 0 (render e @ CHR ''#'' # rest))"
    by (rule run_shift) (simp_all add: table_parens not_digit)
  ultimately show ?thesis using k by (simp add: getAnswer_run)
qed

theorem unclosed_never_ends_witness: "getAnswer int_arith [] [] ''(1#'' = None"
  using unclosed_never_ends [of "Num ''1''" int_arith "[]" "[]" "[]"] by (simp add: digit_text_def isdigit_def)

text \<open>
  What the calculation relies on: a number of the arithmetic may stand for an integer, and where the exact result
  is an \<open>int\<close>, the operations give a number that stands for it; a division, where it leaves no remainder. This
  holds of IEEE \<open>double\<close> when a number stands for the integer it is equal to. It does not need a single number for
  each integer: there 0 has two.
\<close>

definition stands_for_ints :: "'d arith \<Rightarrow> ('d \<Rightarrow> int \<Rightarrow> bool) \<Rightarrow> bool" where
  "stands_for_ints A rep \<longleftrightarrow> (\<forall>a. fits a \<longrightarrow> rep (d_int A a) a) \<and>
     (\<forall>x y a b. rep x a \<longrightarrow> rep y b \<longrightarrow> fits a \<longrightarrow> fits b \<longrightarrow>
       (fits (a + b) \<longrightarrow> rep (d_add A x y) (a + b)) \<and> (fits (a - b) \<longrightarrow> rep (d_sub A x y) (a - b)) \<and>
       (fits (a * b) \<longrightarrow> rep (d_mul A x y) (a * b)) \<and>
       (b \<noteq> 0 \<longrightarrow> b dvd a \<longrightarrow> fits (a div b) \<longrightarrow> rep (d_div A x y) (a div b)))"

text \<open>The expressions in which no division leaves a remainder.\<close>

fun no_remainder :: "exp \<Rightarrow> bool" where
  "no_remainder (Num ds) = True"
| "no_remainder (Paren e) = no_remainder e"
| "no_remainder (Bin l op r) = (no_remainder l \<and> no_remainder r \<and> (op \<noteq> CHR ''/'' \<or>
     (case (exp_value l, exp_value r) of (Inr a, Inr b) \<Rightarrow> b dvd a | _ \<Rightarrow> True)))"

lemma digit_bounds:
  assumes "isdigit c = Inr True"
  shows "0 \<le> (of_char c :: int) - 48" "(of_char c :: int) - 48 \<le> 9"
proof -
  have "48 \<le> (of_char c :: nat) \<and> (of_char c :: nat) \<le> 57" using assms by (auto simp: isdigit_def split: if_splits)
  moreover have "(of_char c :: int) = int (of_char c)" by (simp add: of_char_def flip: of_nat_of_char)
  ultimately show "0 \<le> (of_char c :: int) - 48" "(of_char c :: int) - 48 \<le> 9" by simp_all
qed

lemma num_value_stands:
  assumes "stands_for_ints A rep" "\<forall>c \<in> set cs. isdigit c = Inr True" "rep x n" "fits n" "read_digits n cs = Inr v"
  shows "rep (num_value A x cs) v \<and> fits v"
  using assms(2-5)
proof (induction cs arbitrary: x n)
  case (Cons c cs)
  let ?d = "of_char c - 48 :: int"
  have d: "0 \<le> ?d" "?d \<le> 9" using Cons.prems(1) digit_bounds [of c] by auto
  have n: "fits (n * 10)" "fits (n * 10 + ?d)" "read_digits (n * 10 + ?d) cs = Inr v"
    using Cons.prems(4) by (auto simp: bindE_eq_Inr chk_Inr add_diff_eq)
  have f: "fits 10" "fits ?d" using d by (simp_all add: fits_def INT_MIN_def INT_MAX_def)
  then have "rep (d_int A 10) 10" "rep (d_int A ?d) ?d" using assms(1) by (auto simp: stands_for_ints_def)
  moreover from this have "rep (d_mul A x (d_int A 10)) (n * 10)"
    using assms(1) Cons.prems(2,3) n(1) f(1) unfolding stands_for_ints_def by blast
  ultimately have "rep (d_add A (d_mul A x (d_int A 10)) (d_int A ?d)) (n * 10 + ?d)"
    using assms(1) n(1,2) f(2) unfolding stands_for_ints_def by blast
  then show ?case using Cons.IH [of _ "n * 10 + ?d"] Cons.prems(1) n by simp
qed simp

lemma bin_value_stands:
  assumes "stands_for_ints A rep" "rep x a" "rep y b" "fits a" "fits b" "operator op" "apply_op op a b = Inr v"
    "op \<noteq> CHR ''/'' \<or> b dvd a"
  shows "rep (bin_value A op x y) v \<and> fits v"
proof -
  have "a sdiv b = a div b" if dvd: "b dvd a"
  proof -
    obtain c where c: "a = b * c" using dvd by blast
    have "sgn b * sgn c * sgn b * \<bar>c\<bar> = c" if "b \<noteq> 0"
      using that by (cases "0 < b") (simp_all add: sgn_mult_abs sgn_if abs_if)
    then show ?thesis using c by (cases "b = 0") (simp_all add: signed_divide_int_def abs_mult sgn_mult)
  qed
  then show ?thesis
    using assms unfolding stands_for_ints_def
    by (auto simp: apply_op_def bin_value_def chk_Inr operator_def split: if_splits)
qed

lemma value_in_stands:
  assumes "stands_for_ints A rep" "wf_exp e" "no_remainder e" "exp_value e = Inr v"
  shows "rep (value_in A e) v \<and> fits v"
  using assms(2-4)
proof (induction e arbitrary: v)
  case (Num ds)
  then obtain c cs where ds: "ds = c # cs" by (cases ds) (auto simp: digit_text_def)
  have v: "fits (of_char c - 48)" "read_digits (of_char c - 48) cs = Inr v"
    using Num.prems ds by (auto simp: bindE_eq_Inr chk_Inr)
  then have "rep (d_int A (of_char c - 48)) (of_char c - 48)" using assms(1) by (simp add: stands_for_ints_def)
  then show ?case
    using num_value_stands [OF assms(1), of cs] v Num.prems(1) ds by (simp add: digit_text_def)
next
  case (Bin l op r)
  then obtain a b where ab: "exp_value l = Inr a" "exp_value r = Inr b" "apply_op op a b = Inr v"
    by (auto simp: bindE_eq_Inr)
  then have "rep (value_in A l) a \<and> fits a" "rep (value_in A r) b \<and> fits b"
    using Bin.IH Bin.prems by auto
  then show ?case using bin_value_stands [OF assms(1), of _ a _ b op v] ab Bin.prems by auto
qed simp

text \<open>
  C34: the two calculators agree: where \<open>calculate_input\<close> returns a number for an expression in which no division
  leaves a remainder, \<open>getAnswer\<close> ends and answers a number that stands for the same integer, in every
  arithmetic whose operations are exact as those of \<open>double\<close> are.
\<close>

theorem calculators_agree:
  assumes "stands_for_ints A rep" "wf_exp e" "no_remainder e" "length (render e) < 2 ^ 31"
    "calculate_input (render e) out = Inr (v, out')"
  shows "\<exists>d s. getAnswer A ops vals (render e @ ''#'' @ rest) = retM (d, s) \<and> rep d v"
proof -
  have "exp_run e 0 out = Inr (v, out')" using assms calculate_exp [of e out] by simp
  then have "exp_value e = Inr v" using exp_run_value [of e 0 out] by simp
  then show ?thesis using value_in_stands [OF assms(1-3)] getAnswer_exp [OF assms(2), of A ops vals rest] by auto
qed

text \<open>
  Integers with a sign and a magnitude, in which 0 has a sign, as in \<open>double\<close>: a sum of opposite numbers is the
  positive 0, a product or quotient is negative when the signs differ.
\<close>

definition signed_of :: "int \<Rightarrow> bool \<times> nat" where
  "signed_of n = (n < 0, nat \<bar>n\<bar>)"

fun signed_val :: "bool \<times> nat \<Rightarrow> int" where
  "signed_val (s, n) = (if s then - int n else int n)"

definition signed_add :: "bool \<times> nat \<Rightarrow> bool \<times> nat \<Rightarrow> bool \<times> nat" where
  "signed_add x y = (if x = (True, 0) \<and> y = (True, 0) then (True, 0) else signed_of (signed_val x + signed_val y))"

definition signed_arith :: "(bool \<times> nat) arith" where
  "signed_arith = \<lparr>d_add = signed_add, d_sub = \<lambda>x (s, n). signed_add x (\<not> s, n),
     d_mul = \<lambda>(s, n) (t, m). (s \<noteq> t, n * m), d_div = \<lambda>(s, n) (t, m). (s \<noteq> t, n div m), d_int = signed_of\<rparr>"

lemma signed_vals [simp]: "signed_val (signed_of n) = n" "signed_val (signed_add x y) = signed_val x + signed_val y"
  by (auto simp: signed_of_def signed_add_def)

lemma signed_arith_exact: "stands_for_ints signed_arith (\<lambda>d n. signed_val d = n)"
proof -
  have "signed_val (d_div signed_arith x y) = a div b"
    if "signed_val x = a" "signed_val y = b" "b dvd a" for x y a b
    using that
    by (cases x; cases y) (auto simp: signed_arith_def zdiv_int dvd_neg_div dvd_div_neg split: if_splits)
  then show ?thesis
    unfolding stands_for_ints_def by (auto simp: signed_arith_def)
qed

theorem calculators_agree_witness:
  "\<exists>d s. getAnswer signed_arith [] [] ''0*(0-6/3)#'' = retM (d, s) \<and> signed_val d = 0"
proof -
  let ?e = "Bin (Num ''0'') (CHR ''*'') (Paren (Bin (Num ''0'') (CHR ''-'') (Bin (Num ''6'') (CHR ''/'') (Num ''3''))))"
  have wf: "wf_exp ?e" "no_remainder ?e" "length (render ?e) < 2 ^ 31"
    by (simp_all add: digit_text_def isdigit_def operator_def strength_def fits_def INT_MIN_def INT_MAX_def)
  moreover obtain out' where "calculate_input (render ?e) [] = Inr (0, out')"
    using calculate_exp [OF wf(1), of "[]"] wf(3) by (auto simp: fits_def INT_MIN_def INT_MAX_def apply_op_def)
  ultimately show ?thesis
    using calculators_agree [OF signed_arith_exact, of ?e "[]" 0 out' "[]" "[]" "[]"] by simp
qed

text \<open>
  The two numbers are not printed alike: for this expression \<^verbatim>\<open>test3.cpp\<close> has the negative 0, the other program
  the integer 0.
\<close>

lemma calculators_differ_in_sign_of_zero:
  "\<exists>s. getAnswer signed_arith [] [] ''0*(0-1)#'' = retM ((True, 0), s)"
  using getAnswer_exp [of "Bin (Num ''0'') (CHR ''*'') (Paren (Bin (Num ''0'') (CHR ''-'') (Num ''1'')))" signed_arith "[]" "[]" "[]"]
  by (auto simp: digit_text_def isdigit_def operator_def strength_def bin_value_def signed_arith_def signed_of_def
      signed_add_def)

end
