(* ===== verification/PerfectNumbers.thy ===== *)
theory PerfectNumbers
  imports CppLoops
begin

text \<open>The search for perfect numbers of \<^verbatim>\<open>test4.cpp\<close>, and what it takes for one.\<close>

section \<open>The program\<close>

lemma below_square: "index * index < number \<Longrightarrow> index < (number :: int)"
proof -
  assume "index * index < number"
  moreover have "index \<le> index * index"
  proof (cases "index \<le> 0")
    case True
    then have "0 \<le> index * index" by (simp add: mult_nonpos_nonpos)
    then show ?thesis by (rule order_trans [OF True])
  next
    case False
    then have "index * 1 \<le> index * index" by (intro mult_left_mono) auto
    then show ?thesis by simp
  qed
  ultimately show ?thesis by simp
qed

text \<open>
  \<open>index < std::sqrt(number)\<close>: a \<open>double\<close> holds every \<open>int\<close>, and its square root is rounded so little that the
  comparison is one with the square; of a negative number it is not a number, and the comparison is false.
\<close>

function divisor_loop :: "int \<Rightarrow> int \<Rightarrow> int list \<Rightarrow> int list" where
  "divisor_loop number index vec =
     (if index * index < number then
        divisor_loop number (index + 1) (if number mod index = 0 then vec @ [index, number div index] else vec)
      else vec)"
  by auto

termination
  by (relation "measure (\<lambda>(number, index, vec). nat (number - index))") (auto dest: below_square)

declare divisor_loop.simps [simp del]

definition is_pefect :: "int \<Rightarrow> string \<Rightarrow> fault + (bool \<times> string)" where
  "is_pefect number out =
     (let vec = divisor_loop number 2 [1] in
      bindE (for_in vec (\<lambda>elem sum. chk (sum + elem)) 0) (\<lambda>sum.
      Inr (sum = number,
        out @ ''number: '' @ fmt_d number @ endl @ ''elem: '' @ concat (map show_sp vec) @
        endl @ ''sum: '' @ fmt_d sum @ endl @
        (if sum = number then ''this number is perfect'' @ endl else []) @ endl)))"

text \<open>\<open>main\<close> for the number that is read.\<close>

definition perfect_main :: "int \<Rightarrow> fault + string" where
  "perfect_main input =
     bindE (for_up 1 input (\<lambda>index (cnt, out).
       bindE (is_pefect index out) (\<lambda>(perfect, out).
       if perfect then bindE (chk (cnt + 1)) (\<lambda>cnt. Inr (cnt, out)) else Inr (cnt, out))) (0, [])) (\<lambda>(cnt, out).
     Inr (out @ fmt_d cnt @ endl))"

section \<open>What is summed\<close>

text \<open>The proper divisors but the square root: 1 is not found by the loop, but put into the vector first.\<close>

definition summed :: "int \<Rightarrow> int set" where
  "summed n = {d. 0 < d \<and> d < n \<and> d dvd n \<and> d * d \<noteq> n}"

definition small_divs :: "int \<Rightarrow> int \<Rightarrow> int set" where
  "small_divs n i = {d. 2 \<le> d \<and> d < i \<and> d dvd n}"

lemma finite_divs [simp]: "finite (summed n)" "finite (small_divs n i)"
  by (rule finite_subset [of _ "{0..n}"], auto simp: summed_def) (rule finite_subset [of _ "{0..i}"], auto simp: small_divs_def)

lemma small_divs_Suc:
  "2 \<le> i \<Longrightarrow> small_divs n (i + 1) = (if i dvd n then insert i (small_divs n i) else small_divs n i)"
  by (auto simp: small_divs_def less_le)

lemma divisor_loop_sum:
  assumes "2 \<le> i" "\<forall>x \<in> set vec. 0 < x" "0 < n"
    "sum_list vec = 1 + (\<Sum>d \<in> small_divs n i. d + n div d)" "(i - 1) * (i - 1) < n"
  shows "\<exists>j. 2 \<le> j \<and> n \<le> j * j \<and> (j - 1) * (j - 1) < n \<and> (\<forall>x \<in> set (divisor_loop n i vec). 0 < x) \<and>
    sum_list (divisor_loop n i vec) = 1 + (\<Sum>d \<in> small_divs n j. d + n div d)"
  using assms
proof (induction n i vec rule: divisor_loop.induct)
  case (1 n i vec)
  show ?case
  proof (cases "i * i < n")
    case True
    let ?vec = "if n mod i = 0 then vec @ [i, n div i] else vec"
    have "i < n" using True by (rule below_square)
    then have "0 < n div i" using "1.prems"(1) by (simp add: pos_imp_zdiv_pos_iff)
    moreover have "i \<notin> small_divs n i" by (simp add: small_divs_def)
    ultimately have "\<exists>j. 2 \<le> j \<and> n \<le> j * j \<and> (j - 1) * (j - 1) < n \<and> (\<forall>x \<in> set (divisor_loop n (i + 1) ?vec). 0 < x) \<and>
        sum_list (divisor_loop n (i + 1) ?vec) = 1 + (\<Sum>d \<in> small_divs n j. d + n div d)"
      using "1.prems" True by (intro "1.IH") (auto simp: small_divs_Suc dvd_eq_mod_eq_0)
    then show ?thesis using True by (simp add: divisor_loop.simps [of n i])
  next
    case False
    then show ?thesis using "1.prems" by (auto simp: divisor_loop.simps [of n i] intro!: exI [of _ i])
  qed
qed

text \<open>The divisors below the square root, each with the one it is paired with, and 1.\<close>

lemma summed_pairs:
  assumes j: "2 \<le> j" "n \<le> j * j" "(j - 1) * (j - 1) < n" and n: "2 \<le> n"
  shows "\<Sum> (summed n) = 1 + (\<Sum>d \<in> small_divs n j. d + n div d)"
proof -
  let ?S = "small_divs n j" and ?co = "\<lambda>d. n div d"
  have small: "d * d < n \<and> d dvd n \<and> 2 \<le> d" if "d \<in> ?S" for d
  proof -
    have d: "2 \<le> d" "d \<le> j - 1" "d dvd n" using that by (auto simp: small_divs_def)
    then have "d * d \<le> (j - 1) * (j - 1)" by (intro mult_mono) auto
    then show ?thesis using d j(3) by simp
  qed
  have pair: "d * (n div d) = n" if "d dvd n" for d using that by simp
  have big: "d < n div d \<and> 1 < n div d \<and> n div d < n" if "d \<in> ?S" for d
  proof -
    have d: "2 \<le> d" "d * d < d * (n div d)" using small [OF that] pair by auto
    then have less: "d < n div d" by (simp add: mult_less_cancel_left)
    have "2 * (n div d) \<le> d * (n div d)" using d less by (intro mult_right_mono) auto
    then have "n div d < n" using pair [of d] small [OF that] less d by simp
    then show ?thesis using less d by simp
  qed
  have square: "n < ?co d * ?co d" if "d \<in> ?S" for d
  proof -
    have "d * ?co d < ?co d * ?co d" using big [OF that] by (intro mult_strict_right_mono) auto
    then show ?thesis using pair [of d] small [OF that] by simp
  qed
  have inj: "inj_on ?co ?S"
  proof (rule inj_onI)
    fix d e assume de: "d \<in> ?S" "e \<in> ?S" "n div d = n div e"
    then have "d * (n div d) = e * (n div d)" using pair small by metis
    then show "d = e" using big [OF de(1)] by simp
  qed
  have parts: "summed n = insert 1 (?S \<union> ?co ` ?S)"
  proof (intro set_eqI iffI)
    fix d assume d: "d \<in> summed n"
    show "d \<in> insert 1 (?S \<union> ?co ` ?S)"
    proof (cases "d = 1 \<or> d * d < n")
      case True
      have "j \<le> d \<Longrightarrow> j * j \<le> d * d" using j by (intro mult_mono) auto
      then show ?thesis using True d j by (fastforce simp: summed_def small_divs_def)
    next
      case False
      let ?e = "n div d"
      have e: "d * ?e = n" "n < d * d" "0 < d" "d < n" using d False pair by (auto simp: summed_def)
      have "?e < d" using e by (metis mult_less_cancel_left_pos)
      have "1 < ?e" using e by (metis less_le_trans linorder_not_less mult.right_neutral mult_le_cancel_left_pos not_less)
      have "?e * ?e < n" using \<open>?e < d\<close> \<open>1 < ?e\<close> e(1) mult_strict_right_mono [of ?e d ?e] by simp
      then have "?e < j" using j \<open>1 < ?e\<close> mult_mono [of j ?e j ?e] by fastforce
      moreover have "n div ?e = d" using e(1) \<open>1 < ?e\<close> by (metis mult.commute nonzero_mult_div_cancel_left not_less_iff_gr_or_eq zero_less_one)
      moreover have "?e dvd n" using e(1) by (metis dvd_triv_right)
      ultimately show ?thesis using \<open>1 < ?e\<close> by (auto simp: small_divs_def intro!: image_eqI [of d _ ?e])
    qed
  next
    fix d assume "d \<in> insert 1 (?S \<union> ?co ` ?S)"
    then consider "d = 1" | "d \<in> ?S" | e where "e \<in> ?S" "d = n div e" by auto
    then show "d \<in> summed n"
    proof cases
      case 2
      then show ?thesis using small [OF 2] below_square [of d n] by (auto simp: summed_def)
    next
      case 3
      then show ?thesis using big [of e] square [of e] small [of e] by (auto simp: summed_def dvd_div_eq_0_iff div_dvd_iff_mult)
    qed (use n in \<open>simp add: summed_def\<close>)
  qed
  have "?S \<inter> ?co ` ?S = {}"
  proof (rule ccontr)
    assume "?S \<inter> ?co ` ?S \<noteq> {}"
    then obtain e where "e \<in> ?S" "?co e \<in> ?S" by auto
    then show False using square [of e] small [of "?co e"] by simp
  qed
  moreover have "1 \<notin> ?co ` ?S" using big by fastforce
  moreover have "1 \<notin> ?S" by (simp add: small_divs_def)
  moreover have "(\<Sum>d \<in> ?co ` ?S. d) = (\<Sum>d \<in> ?S. n div d)" using sum.reindex [OF inj, of "\<lambda>d. d"] by simp
  ultimately show ?thesis unfolding parts by (simp add: sum.union_disjoint sum.distrib)
qed

lemma accumulate:
  assumes "\<forall>x \<in> set vec. 0 < x" "0 \<le> a" "a + sum_list vec \<le> INT_MAX"
  shows "for_in vec (\<lambda>elem sum. chk (sum + elem)) a = Inr (a + sum_list vec)"
  using assms
proof (induction vec arbitrary: a)
  case (Cons x vec)
  have "0 \<le> sum_list vec" using Cons.prems(1) by (intro sum_list_nonneg) (auto simp: less_imp_le)
  then have "fits (a + x)" using Cons.prems by (simp add: fits_def INT_MIN_def)
  then show ?case using Cons.IH [of "a + x"] Cons.prems by (simp add: add.assoc)
qed simp

lemma is_pefect_result:
  assumes "0 < n" "\<Sum> (summed n) \<le> INT_MAX"
  shows "\<exists>text. is_pefect n out = Inr (n = 1 \<or> \<Sum> (summed n) = n, out @ text)"
proof (cases "n = 1")
  case True
  have "divisor_loop 1 2 [1] = [1]" by (simp add: divisor_loop.simps)
  moreover have "fits 1" by (simp add: fits_def INT_MIN_def INT_MAX_def)
  ultimately show ?thesis using True by (simp add: is_pefect_def)
next
  case False
  then have n: "2 \<le> n" using assms(1) by simp
  have "small_divs n 2 = {}" by (auto simp: small_divs_def)
  then obtain j where j: "2 \<le> j" "n \<le> j * j" "(j - 1) * (j - 1) < n" "\<forall>x \<in> set (divisor_loop n 2 [1]). 0 < x"
      "sum_list (divisor_loop n 2 [1]) = 1 + (\<Sum>d \<in> small_divs n j. d + n div d)"
    using divisor_loop_sum [of 2 "[1]" n] n by auto
  then have "sum_list (divisor_loop n 2 [1]) = \<Sum> (summed n)" using summed_pairs [OF j(1-3) n] by simp
  then show ?thesis using accumulate [OF j(4), of 0] assms(2) False by (simp add: is_pefect_def)
qed

lemma summed_bound: "0 < n \<Longrightarrow> \<Sum> (summed n) \<le> n * n"
proof -
  assume "0 < n"
  have sub: "summed n \<subseteq> {0..<n}" by (auto simp: summed_def)
  have "\<Sum> (summed n) \<le> of_nat (card (summed n)) * n"
    using sub by (intro sum_bounded_above) auto
  also have "\<dots> \<le> n * n"
    using \<open>0 < n\<close> card_mono [OF _ sub] by (intro mult_right_mono) auto
  finally show ?thesis .
qed

definition counted :: "int \<Rightarrow> int set" where
  "counted i = {n. 0 < n \<and> n < i \<and> (n = 1 \<or> \<Sum> (summed n) = n)}"

lemma counted_Suc: "0 < i \<Longrightarrow> counted (i + 1) = (if i = 1 \<or> \<Sum> (summed i) = i then insert i (counted i) else counted i)"
  by (auto simp: counted_def less_le)

lemma finite_counted [simp]: "finite (counted i)"
  by (rule finite_subset [of _ "{0..i}"]) (auto simp: counted_def)

lemma counted_card: "0 < i \<Longrightarrow> int (card (counted i)) < i"
proof -
  assume "0 < i"
  have "card (counted i) \<le> card {1..<i}" by (rule card_mono) (auto simp: counted_def)
  then show ?thesis using \<open>0 < i\<close> by simp
qed

section \<open>Properties\<close>

text \<open>
  the program of \<^verbatim>\<open>test4.cpp\<close> counts the numbers below the one it reads that are the sum of their proper
  divisors without the square root, and it counts 1 as well.
\<close>

theorem perfect_main_counts:
  assumes "0 < N" "N \<le> 2 ^ 15"
  shows "\<exists>text. perfect_main N = Inr (text @ fmt_d (int (card {n. 0 < n \<and> n < N \<and>
    (n = 1 \<or> \<Sum> {d. 0 < d \<and> d < n \<and> d dvd n \<and> d * d \<noteq> n} = n)})) @ endl)"
proof -
  have "runs (for_up 1 N (\<lambda>index (cnt, out).
      bindE (is_pefect index out) (\<lambda>(perfect, out).
      if perfect then bindE (chk (cnt + 1)) (\<lambda>cnt. Inr (cnt, out)) else Inr (cnt, out))) (0, []))
    (\<lambda>(cnt, out). cnt = int (card (counted N)))"
  proof (rule for_up_inv [where P = "\<lambda>i (cnt, out). cnt = int (card (counted i))"])
    fix i :: int and s :: "int \<times> string" assume i: "1 \<le> i" "i < N" and s: "case s of (cnt, out) \<Rightarrow> cnt = int (card (counted i))"
    obtain cnt out where [simp]: "s = (cnt, out)" by (cases s)
    have "i * i \<le> 2 ^ 15 * 2 ^ 15" using i assms by (intro mult_mono) auto
    then have "\<Sum> (summed i) \<le> INT_MAX" using summed_bound [of i] i by (simp add: INT_MAX_def)
    then obtain out' where p: "is_pefect i out = Inr (i = 1 \<or> \<Sum> (summed i) = i, out')"
      using is_pefect_result [of i out] i by auto
    have "i \<notin> counted i" by (simp add: counted_def)
    moreover have "fits (int (card (counted i)) + 1)"
      using counted_card [of i] i assms by (simp add: fits_def INT_MIN_def INT_MAX_def)
    ultimately show "runs (case s of (cnt, out) \<Rightarrow> bindE (is_pefect i out) (\<lambda>(perfect, out).
        if perfect then bindE (chk (cnt + 1)) (\<lambda>cnt. Inr (cnt, out)) else Inr (cnt, out)))
        (\<lambda>(cnt, out). cnt = int (card (counted (i + 1))))"
      using s p i by (simp add: counted_Suc)
  next
    have "counted 1 = {}" by (auto simp: counted_def)
    then show "case (0, []) of (cnt, out) \<Rightarrow> cnt = int (card (counted 1))" by simp
  qed (use assms in simp)
  then show ?thesis by (auto simp: runs_def perfect_main_def counted_def summed_def)
qed

theorem perfect_main_counts_witness:
  "\<exists>text. perfect_main 7 = Inr (text @ fmt_d (int (card {n. 0 < n \<and> n < (7 :: int) \<and>
    (n = 1 \<or> \<Sum> {d. 0 < d \<and> d < n \<and> d dvd n \<and> d * d \<noteq> n} = n)})) @ endl)"
  by (rule perfect_main_counts) simp_all

end
