(* ===== verification/RBTreeTyped.thy ===== *)
theory RBTreeTyped
  imports RBTreeClaims
begin

text \<open>
  What the operations of \<open>RBTree\<close> keep of any store, whether it holds a tree or not: a pointer that
  can be reached is the null pointer or the address of a node, and a colour is one of the two
  enumerators. The argument is the one of a type system: every step keeps it, and from such a store
  the code can only go wrong in the ways it was not guarded against.
\<close>

section \<open>Typed stores\<close>

definition typed_ptr :: "ptr set \<Rightarrow> ptr \<Rightarrow> bool" where
  "typed_ptr D p \<longleftrightarrow> p = NULL \<or> p \<in> D"

definition typed_node :: "ptr set \<Rightarrow> rbtree_node \<Rightarrow> bool" where
  "typed_node D n \<longleftrightarrow> typed_ptr D (left n) \<and> typed_ptr D (right n) \<and> typed_ptr D (parent n) \<and>
     color n \<in> {color_byte Red, color_byte Black}"

definition typed_state :: "ptr set \<Rightarrow> rb_state \<Rightarrow> bool" where
  "typed_state D s \<longleftrightarrow> dom (mem s) = D \<and> (\<forall>p n. mem s p = Some n \<longrightarrow> typed_node D n) \<and>
     typed_ptr D (root (tree s)) \<and> typed_ptr D (nil (tree s))"

text \<open>A computation that keeps \<open>P\<close>, or stops at one of three faults; a wild pointer is not among them.\<close>

definition typedE :: "('a \<Rightarrow> bool) \<Rightarrow> fault + 'a \<Rightarrow> bool" where
  "typedE P m = (case m of Inl e \<Rightarrow> e \<in> {NullDeref, AssertFailed, UninitRead} | Inr x \<Rightarrow> P x)"

named_theorems typed_intro

lemma typedE_Inr [typed_intro]: "P x \<Longrightarrow> typedE P (Inr x)"
  by (simp add: typedE_def)

lemma typedE_Inl [typed_intro]: "e \<in> {NullDeref, AssertFailed, UninitRead} \<Longrightarrow> typedE P (Inl e)"
  by (simp add: typedE_def)

lemma typedE_if [typed_intro]:
  "(b \<Longrightarrow> typedE P m) \<Longrightarrow> (\<not> b \<Longrightarrow> typedE P m') \<Longrightarrow> typedE P (if b then m else m')"
  by simp

lemma typedE_bind: "typedE R m \<Longrightarrow> (\<And>x. R x \<Longrightarrow> typedE P (f x)) \<Longrightarrow> typedE P (bindE m f)"
  by (cases m) (simp_all add: typedE_def)

lemma typedE_get:
  "typed_state D s \<Longrightarrow> typed_ptr D p \<Longrightarrow> typedE (typed_node D) (get s p)"
  by (auto simp: typedE_def get_def typed_state_def typed_ptr_def split: option.splits)

lemma typedE_bind_get [typed_intro]:
  "typed_state D s \<Longrightarrow> typed_ptr D p \<Longrightarrow> (\<And>n. typed_node D n \<Longrightarrow> typedE P (f n)) \<Longrightarrow>
   typedE P (bindE (get s p) f)"
  by (rule typedE_bind [OF typedE_get])

lemma typedE_put [typed_intro]:
  "typed_state D s \<Longrightarrow> typed_ptr D p \<Longrightarrow> (\<And>n. typed_node D n \<Longrightarrow> typed_node D (f n)) \<Longrightarrow>
   typedE (typed_state D) (put p f s)"
  by (auto simp: typedE_def put_def get_def typed_state_def typed_ptr_def split: option.splits)

text \<open>The intermediate results of the code: a state, a truth value, and a state with one or two pointers.\<close>

lemma typedE_bind_state [typed_intro]:
  "typedE (typed_state D) m \<Longrightarrow> (\<And>s. typed_state D s \<Longrightarrow> typedE P (f s)) \<Longrightarrow> typedE P (bindE m f)"
  by (rule typedE_bind)

lemma typedE_bind_bool [typed_intro]:
  "typedE (\<lambda>_::bool. True) m \<Longrightarrow> (\<And>b. typedE P (f b)) \<Longrightarrow> typedE P (bindE m f)"
  by (erule typedE_bind)

definition typed_pair :: "ptr set \<Rightarrow> rb_state \<times> ptr \<Rightarrow> bool" where
  "typed_pair D = (\<lambda>(s, p). typed_state D s \<and> typed_ptr D p)"

definition typed_loop :: "ptr set \<Rightarrow> rb_state \<times> ptr \<times> ptr \<Rightarrow> bool" where
  "typed_loop D = (\<lambda>(s, p, q). typed_state D s \<and> typed_ptr D p \<and> typed_ptr D q)"

lemma typedE_bind_pair [typed_intro]:
  "typedE (typed_pair D) m \<Longrightarrow>
   (\<And>s p. typed_state D s \<Longrightarrow> typed_ptr D p \<Longrightarrow> typedE P (f (s, p))) \<Longrightarrow> typedE P (bindE m f)"
  by (erule typedE_bind) (auto simp: typed_pair_def)

lemma typed_links [typed_intro]:
  "typed_node D n \<Longrightarrow> typed_ptr D (left n)" "typed_node D n \<Longrightarrow> typed_ptr D (right n)"
  "typed_node D n \<Longrightarrow> typed_ptr D (parent n)"
  by (simp_all add: typed_node_def)

lemma typed_update [typed_intro]:
  "typed_node D n \<Longrightarrow> typed_ptr D p \<Longrightarrow> typed_node D (n\<lparr>left := p\<rparr>)"
  "typed_node D n \<Longrightarrow> typed_ptr D p \<Longrightarrow> typed_node D (n\<lparr>right := p\<rparr>)"
  "typed_node D n \<Longrightarrow> typed_ptr D p \<Longrightarrow> typed_node D (n\<lparr>parent := p\<rparr>)"
  "typed_node D n \<Longrightarrow> typed_node D (n\<lparr>color := color_byte c\<rparr>)"
  "typed_node D n \<Longrightarrow> typed_node D (n\<lparr>color := 0\<rparr>)" "typed_node D n \<Longrightarrow> typed_node D (n\<lparr>color := 1\<rparr>)"
  by (cases c; simp add: typed_node_def)+

lemma typed_set_root [typed_intro]:
  "typed_state D s \<Longrightarrow> typed_ptr D p \<Longrightarrow> typed_state D (set_root p s)"
  by (simp add: typed_state_def)

lemma typed_nil [typed_intro]: "typed_state D s \<Longrightarrow> typed_ptr D (nil (tree s))"
  and typed_root [typed_intro]: "typed_state D s \<Longrightarrow> typed_ptr D (root (tree s))"
  by (simp_all add: typed_state_def)

section \<open>The operations\<close>

text \<open>The contract the fix-up loop uses of a rotation, provided by both.\<close>

locale typed_rotation =
  fixes rot :: "rb_state \<Rightarrow> ptr \<Rightarrow> fault + rb_state"
  assumes typed: "typed_state D s \<Longrightarrow> typed_ptr D x \<Longrightarrow> typedE (typed_state D) (rot s x)"
begin

lemma typed_then_parent:
  "typed_state D s \<Longrightarrow> typed_ptr D x \<Longrightarrow>
   typedE (typed_pair D) (bindE (rot s x) (\<lambda>s. bindE (get s x) (\<lambda>n. Inr (s, parent n))))"
  by (auto intro!: typed typed_intro simp: typed_pair_def)

end

interpretation tr: typed_rotation right_rotation
  unfolding right_rotation_def Let_def
  by unfold_locales (auto intro!: typed_intro)

interpretation tl: typed_rotation left_rotation
  unfolding left_rotation_def Let_def
  by unfold_locales (auto intro!: typed_intro)

lemma typed_fixup_body:
  "typed_ptr D g \<Longrightarrow> typed_loop D c \<Longrightarrow> typedE (typed_loop D) (fixup_body g c)"
  unfolding fixup_body_def typed_loop_def Let_def
  by (auto intro!: typed_intro tr.typed tl.typed tr.typed_then_parent tl.typed_then_parent
      simp: typed_pair_def)

lemma typed_fixup_loop:
  assumes "fixup_loop g c = Some r" and "typed_ptr D g" and "typed_loop D c"
  shows "typedE (typed_state D) r"
proof -
  have "typed_ptr D g \<longrightarrow> typed_loop D c \<longrightarrow> typedE (typed_state D) r"
  proof (rule fixup_loop.raw_induct
      [where P = "\<lambda>g c r. typed_ptr D g \<longrightarrow> typed_loop D c \<longrightarrow> typedE (typed_state D) r", OF _ assms(1)])
    fix f g c r
    assume IH: "\<And>g c r. f g c = Some r \<Longrightarrow>
        typed_ptr D g \<longrightarrow> typed_loop D c \<longrightarrow> typedE (typed_state D) r"
      and eq: "(case get (fst c) (snd (snd c)) of Inl e \<Rightarrow> Some (Inl e)
        | Inr p \<Rightarrow> if color p = color_byte Red
                   then case fixup_body g c of Inl e \<Rightarrow> Some (Inl e) | Inr c' \<Rightarrow> f g c'
                   else Some (Inr (fst c))) = Some r"
    show "typed_ptr D g \<longrightarrow> typed_loop D c \<longrightarrow> typedE (typed_state D) r"
    proof (intro impI)
      assume g: "typed_ptr D g" and c: "typed_loop D c"
      have "typedE (typed_node D) (get (fst c) (snd (snd c)))"
        using c by (auto simp: typed_loop_def intro: typedE_get)
      then show "typedE (typed_state D) r"
        using eq typed_fixup_body [OF g c] IH [of g _ r] g c
        by (auto simp: typedE_def typed_loop_def split: sum.splits if_splits)
    qed
  qed
  with assms(2,3) show ?thesis by blast
qed

lemma typed_fixup:
  assumes "rbtree_insert_fixup s x = Some r" and "typed_state D s" and "typed_ptr D x"
  shows "typedE (typed_state D) r"
proof -
  have "typedE (\<lambda>(p, g). typed_ptr D p \<and> typed_ptr D g)
          (bindE (get s x) (\<lambda>n. bindE (get s (parent n)) (\<lambda>p. Inr (parent n, parent p))))"
    using assms(2,3) by (auto intro!: typed_intro)
  then show ?thesis
    using assms typed_fixup_loop [of _ "(s, x, _)" r D]
    by (auto simp: rbtree_insert_fixup_def typedE_def typed_loop_def split: sum.splits)
qed

lemma typed_walk:
  assumes "insert_walk s x pre cur = Some r" and "typed_state D s" and "typed_ptr D x"
    and "typed_ptr D cur" and "\<forall>p. pre = Some p \<longrightarrow> typed_ptr D p"
  shows "typedE (\<lambda>w. \<forall>p. w = AttachAt (Some p) \<longrightarrow> typed_ptr D p) r"
proof -
  have "(\<forall>p. pre = Some p \<longrightarrow> typed_ptr D p) \<longrightarrow> typed_state D s \<longrightarrow> typed_ptr D x \<longrightarrow>
      typed_ptr D cur \<longrightarrow> typedE (\<lambda>w. \<forall>p. w = AttachAt (Some p) \<longrightarrow> typed_ptr D p) r"
  proof (rule insert_walk.raw_induct [where P = "\<lambda>s x pre cur r.
        (\<forall>p. pre = Some p \<longrightarrow> typed_ptr D p) \<longrightarrow> typed_state D s \<longrightarrow> typed_ptr D x \<longrightarrow>
        typed_ptr D cur \<longrightarrow> typedE (\<lambda>w. \<forall>p. w = AttachAt (Some p) \<longrightarrow> typed_ptr D p) r", OF _ assms(1)],
      intro impI)
    fix f s x pre cur r
    assume IH: "\<And>s x pre cur r. f s x pre cur = Some r \<Longrightarrow>
        (\<forall>p. pre = Some p \<longrightarrow> typed_ptr D p) \<longrightarrow> typed_state D s \<longrightarrow> typed_ptr D x \<longrightarrow>
        typed_ptr D cur \<longrightarrow> typedE (\<lambda>w. \<forall>p. w = AttachAt (Some p) \<longrightarrow> typed_ptr D p) r"
      and eq: "(if cur = nil (tree s) then Some (Inr (AttachAt pre))
        else case get s cur of Inl e \<Rightarrow> Some (Inl e) | Inr c \<Rightarrow>
          (case get s x of Inl e \<Rightarrow> Some (Inl e) | Inr n \<Rightarrow>
             (if sint (key c) > sint (key n) then f s x (Some cur) (left n)
              else if sint (key c) < sint (key n) then f s x (Some cur) (right n)
              else Some (Inr Duplicate)))) = Some r"
      and pre: "\<forall>p. pre = Some p \<longrightarrow> typed_ptr D p"
      and t: "typed_state D s" "typed_ptr D x" "typed_ptr D cur"
    show "typedE (\<lambda>w. \<forall>p. w = AttachAt (Some p) \<longrightarrow> typed_ptr D p) r"
      using eq pre typedE_get [OF t(1,2)] typedE_get [OF t(1,3)] t
        IH [of s x "Some cur" _ r]
      by (auto simp: typedE_def typed_node_def split: sum.splits if_splits)
  qed
  with assms(2-5) show ?thesis by blast
qed

lemma typed_attach:
  assumes "typed_state D s" and "typed_ptr D x" and "\<forall>p. pre = Some p \<longrightarrow> typed_ptr D p"
  shows "typedE (typed_state D) (insert_attach s x pre)"
  using assms unfolding insert_attach_def
  by (auto intro!: typed_intro split: option.splits)

section \<open>What a rotation does in any typed store\<close>

definition field :: "(rbtree_node \<Rightarrow> ptr) \<Rightarrow> heap \<Rightarrow> ptr \<Rightarrow> ptr" where
  "field f h p = (case h p of None \<Rightarrow> NULL | Some n \<Rightarrow> f n)"

lemma field_Some [simp]: "h p = Some n \<Longrightarrow> field f h p = f n"
  by (simp add: field_def)

lemma field_upd: "field f (h(p \<mapsto> n)) = (field f h)(p := f n)"
  by (auto simp: field_def fun_eq_iff)

lemma typed_alloc:
  assumes "typed_state D s" "mem s p = Some n" "f \<in> {left, right, parent}" "f n \<noteq> NULL"
  shows "\<exists>m. mem s (f n) = Some m"
proof -
  have "typed_node D n" "dom (mem s) = D" using assms(1,2) unfolding typed_state_def by blast+
  then have "f n \<in> dom (mem s)" using assms(3,4) by (auto simp: typed_node_def typed_ptr_def)
  then show ?thesis by blast
qed

text \<open>The links after a rotation at \<open>x\<close>; \<open>y\<close> comes up, \<open>c\<close> changes sides, \<open>q\<close> is the parent of \<open>x\<close>.\<close>

definition right_rotated :: "rb_state \<Rightarrow> ptr \<Rightarrow> ptr \<Rightarrow> ptr \<Rightarrow> ptr \<Rightarrow> rb_state \<Rightarrow> bool" where
  "right_rotated s x y c q s' \<longleftrightarrow>
     root (tree s') = (if root (tree s) = x then y else root (tree s)) \<and>
     field left (mem s') = (\<lambda>p. if p = x then c
       else if root (tree s) \<noteq> x \<and> p = q \<and> field left (mem s) q = x then y else field left (mem s) p) \<and>
     field right (mem s') = (\<lambda>p. if p = y then x
       else if root (tree s) \<noteq> x \<and> p = q \<and> field left (mem s) q \<noteq> x \<and> field right (mem s) q = x then y
       else field right (mem s) p) \<and>
     field parent (mem s') = (field parent (mem s))(c := x, x := y, y := q)"

text \<open>\<open>left_rotation\<close> takes \<open>y\<close> from the left link of \<open>x\<close>, and does not change the right link of \<open>q\<close>.\<close>

definition left_rotated :: "rb_state \<Rightarrow> ptr \<Rightarrow> ptr \<Rightarrow> ptr \<Rightarrow> ptr \<Rightarrow> rb_state \<Rightarrow> bool" where
  "left_rotated s x y c q s' \<longleftrightarrow>
     root (tree s') = (if root (tree s) = x then y else root (tree s)) \<and>
     field left (mem s') = (\<lambda>p. if p = y then x
       else if root (tree s) \<noteq> x \<and> p = q \<and> field left (mem s) q = x then y else field left (mem s) p) \<and>
     field right (mem s') = (field right (mem s))(x := c) \<and>
     field parent (mem s') = (field parent (mem s))(y := q, x := y, c := x)"

text \<open>Where every address is one of a node, no access faults, also when pointers coincide.\<close>

definition alloc :: "rb_state \<Rightarrow> ptr \<Rightarrow> bool" where
  "alloc s p \<longleftrightarrow> p \<noteq> NULL \<and> mem s p \<noteq> None"

lemma alloc_typed:
  "typed_state D s \<Longrightarrow> mem s p = Some n \<Longrightarrow> f \<in> {left, right, parent} \<Longrightarrow> f n \<noteq> NULL \<Longrightarrow> alloc s (f n)"
  using typed_alloc by (auto simp: alloc_def)

definition keeps_alloc :: "rb_state \<Rightarrow> rb_state \<Rightarrow> bool" where
  "keeps_alloc s s' \<longleftrightarrow> (\<forall>p. alloc s p \<longrightarrow> alloc s' p) \<and> tree s' = tree s"

lemma keeps_alloc_refl: "keeps_alloc s s"
  by (simp add: keeps_alloc_def)

lemma keeps_alloc_trans: "keeps_alloc s s' \<Longrightarrow> keeps_alloc s' s'' \<Longrightarrow> keeps_alloc s s''"
  by (auto simp: keeps_alloc_def)

lemma keeps_allocD: "keeps_alloc s s' \<Longrightarrow> alloc s p \<Longrightarrow> alloc s' p"
  by (simp add: keeps_alloc_def)

lemma alloc_put:
  assumes "alloc s p" obtains s' where "put p f s = Inr s'" "keeps_alloc s s'"
  using assms by (auto simp: put_def get_def alloc_def keeps_alloc_def)

lemma alloc_get: "alloc s p \<Longrightarrow> \<exists>n. get s p = Inr n"
  by (auto simp: get_def alloc_def)

text \<open>What a sequence of assignments ends in is what its rest ends in.\<close>

lemma past_put:
  assumes "keeps_alloc s0 s" "alloc s0 p" "\<And>s'. keeps_alloc s0 s' \<Longrightarrow> Q (g s')"
  shows "Q (bindE (put p f s) g)"
proof -
  obtain s' where "put p f s = Inr s'" "keeps_alloc s s'" using alloc_put keeps_allocD [OF assms(1,2)] .
  then show ?thesis using assms(1,3) keeps_alloc_trans by simp
qed

definition returns :: "fault + rb_state \<Rightarrow> bool" where
  "returns m \<longleftrightarrow> (\<exists>s. m = Inr s)"

lemma last_put: "keeps_alloc s0 s \<Longrightarrow> alloc s0 p \<Longrightarrow> returns (put p f s)"
  using alloc_put [of s p f] keeps_allocD unfolding returns_def by metis

lemma last_put_null: "put NULL f s = Inl NullDeref"
  by (simp add: put_def get_def)

text \<open>The assignment to the root or to a link of the parent, which both rotations have.\<close>

definition reparent :: "ptr \<Rightarrow> ptr \<Rightarrow> ptr \<Rightarrow> ptr \<Rightarrow> rb_state \<Rightarrow> fault + rb_state" where
  "reparent x y q z s =
     (if root (tree s) = x then Inr (set_root y s) else bindE (get s q) (\<lambda>pn.
        if left pn = x then put q (\<lambda>m. m\<lparr>left := y\<rparr>) s
        else if right pn = x then put q (\<lambda>m. m\<lparr>right := z\<rparr>) s else Inr s))"

lemma reparent_put:
  assumes "keeps_alloc s0 s" "root (tree s0) = x \<or> alloc s0 q"
  obtains s' where "reparent x y q z s = Inr s'" "\<And>p. alloc s0 p \<Longrightarrow> alloc s' p"
proof (cases "root (tree s) = x")
  case True
  then show ?thesis using that assms(1) by (simp add: reparent_def keeps_alloc_def alloc_def)
next
  case False
  then have q: "alloc s q" using assms by (auto simp: keeps_alloc_def)
  obtain n where n: "get s q = Inr n" using alloc_get [OF q] by blast
  obtain s1 s2 where "put q (\<lambda>m. m\<lparr>left := y\<rparr>) s = Inr s1" "keeps_alloc s s1"
      "put q (\<lambda>m. m\<lparr>right := z\<rparr>) s = Inr s2" "keeps_alloc s s2"
    using alloc_put [OF q] by metis
  then show ?thesis using that n False assms(1) unfolding reparent_def keeps_alloc_def by (cases "left n = x"; cases "right n = x") auto
qed

lemma reparent_null: "keeps_alloc s0 s \<Longrightarrow> root (tree s0) \<noteq> x \<Longrightarrow> reparent x y NULL z s = Inl NullDeref"
  by (simp add: reparent_def get_def keeps_alloc_def)

lemma reparent_returns: "keeps_alloc s0 s \<Longrightarrow> root (tree s0) = x \<or> alloc s0 q \<Longrightarrow> returns (reparent x y q z s)"
  by (rule reparent_put) (auto simp: returns_def)

lemma past_reparent:
  assumes "keeps_alloc s0 s" "root (tree s0) = x \<or> alloc s0 q" "alloc s0 p" "alloc s0 p'"
  shows "returns (bindE (reparent x y q z s) (\<lambda>s. bindE (put p f s) (put p' g)))"
proof -
  obtain s' where s': "reparent x y q z s = Inr s'" "alloc s' p" "alloc s' p'"
    using reparent_put [OF assms(1,2)] assms(3,4) by metis
  show ?thesis unfolding s'(1) bindE_Inr
    by (rule past_put [where Q = returns, OF keeps_alloc_refl s'(2)]) (rule last_put [OF _ s'(3)])
qed

text \<open>The two rotations when the guard lets them pass.\<close>

definition right_body :: "ptr \<Rightarrow> ptr \<Rightarrow> ptr \<Rightarrow> ptr \<Rightarrow> rb_state \<Rightarrow> fault + rb_state" where
  "right_body x y c q s =
     bindE (put c (\<lambda>m. m\<lparr>parent := x\<rparr>) s) (\<lambda>s. bindE (put x (\<lambda>m. m\<lparr>left := c\<rparr>) s) (\<lambda>s.
     bindE (put y (\<lambda>m. m\<lparr>right := x\<rparr>) s) (\<lambda>s. bindE (put x (\<lambda>m. m\<lparr>parent := y\<rparr>) s) (\<lambda>s.
     bindE (put y (\<lambda>m. m\<lparr>parent := q\<rparr>) s) (reparent x y q y)))))"

definition left_body :: "ptr \<Rightarrow> ptr \<Rightarrow> ptr \<Rightarrow> ptr \<Rightarrow> rb_state \<Rightarrow> fault + rb_state" where
  "left_body x y c q s =
     bindE (put y (\<lambda>m. m\<lparr>left := x\<rparr>) s) (\<lambda>s. bindE (put x (\<lambda>m. m\<lparr>right := c\<rparr>) s) (\<lambda>s.
     bindE (put y (\<lambda>m. m\<lparr>parent := q\<rparr>) s) (\<lambda>s. bindE (reparent x y q x s) (\<lambda>s.
     bindE (put x (\<lambda>m. m\<lparr>parent := y\<rparr>) s) (put c (\<lambda>m. m\<lparr>parent := x\<rparr>))))))"

lemma rotation_bodies:
  assumes "get s x = Inr n" "get s (left n) = Inr yn" "root (tree s) \<noteq> NULL"
  shows "left n \<noteq> NULL \<Longrightarrow> left n \<noteq> nil (tree s) \<Longrightarrow>
      right_rotation s x = right_body x (left n) (right yn) (parent n) s"
    and "right n \<noteq> NULL \<Longrightarrow> right n \<noteq> nil (tree s) \<Longrightarrow>
      left_rotation s x = left_body x (left n) (left yn) (parent n) s"
  using assms
  by (simp_all add: right_rotation_def left_rotation_def right_body_def left_body_def reparent_def [abs_def] Let_def)

lemma right_body_ends:
  assumes "alloc s x" "alloc s y"
  shows "c = NULL \<Longrightarrow> right_body x y c q s = Inl NullDeref"
    and "alloc s c \<Longrightarrow> root (tree s) \<noteq> x \<Longrightarrow> q = NULL \<Longrightarrow> right_body x y c q s = Inl NullDeref"
    and "alloc s c \<Longrightarrow> root (tree s) = x \<or> alloc s q \<Longrightarrow> returns (right_body x y c q s)"
proof -
  note faults = past_put [of s _ _ "\<lambda>m. m = Inl NullDeref"] and ends = past_put [of s _ _ returns]
  show "c = NULL \<Longrightarrow> right_body x y c q s = Inl NullDeref"
    by (simp add: right_body_def last_put_null)
  assume c: "alloc s c"
  show "root (tree s) \<noteq> x \<Longrightarrow> q = NULL \<Longrightarrow> right_body x y c q s = Inl NullDeref"
    unfolding right_body_def by (intro faults) (simp_all add: keeps_alloc_refl assms c reparent_null)
  show "root (tree s) = x \<or> alloc s q \<Longrightarrow> returns (right_body x y c q s)"
    unfolding right_body_def by (intro ends) (simp_all add: keeps_alloc_refl assms c reparent_returns)
qed

lemma left_body_ends:
  assumes "alloc s x" "alloc s y"
  shows "root (tree s) \<noteq> x \<Longrightarrow> q = NULL \<Longrightarrow> left_body x y c q s = Inl NullDeref"
    and "c = NULL \<Longrightarrow> root (tree s) = x \<or> alloc s q \<Longrightarrow> left_body x y c q s = Inl NullDeref"
    and "alloc s c \<Longrightarrow> root (tree s) = x \<or> alloc s q \<Longrightarrow> returns (left_body x y c q s)"
proof -
  note faults = past_put [of s _ _ "\<lambda>m. m = Inl NullDeref"] and ends = past_put [of s _ _ returns]
  show "root (tree s) \<noteq> x \<Longrightarrow> q = NULL \<Longrightarrow> left_body x y c q s = Inl NullDeref"
    unfolding left_body_def by (intro faults) (simp_all add: keeps_alloc_refl assms reparent_null)
  assume q: "root (tree s) = x \<or> alloc s q"
  have "bindE (reparent x y q x s') (\<lambda>s. bindE (put x (\<lambda>m. m\<lparr>parent := y\<rparr>) s) (put NULL (\<lambda>m. m\<lparr>parent := x\<rparr>))) = Inl NullDeref"
    if k: "keeps_alloc s s'" for s'
  proof -
    obtain s1 where s1: "reparent x y q x s' = Inr s1" "alloc s1 x" using reparent_put [OF k q] assms(1) by metis
    show ?thesis unfolding s1(1) bindE_Inr
      by (rule past_put [where Q = "\<lambda>m. m = Inl NullDeref", OF keeps_alloc_refl s1(2)]) (rule last_put_null)
  qed
  then show "c = NULL \<Longrightarrow> left_body x y c q s = Inl NullDeref"
    unfolding left_body_def by (intro faults) (simp_all add: keeps_alloc_refl assms)
  show "alloc s c \<Longrightarrow> returns (left_body x y c q s)"
    unfolding left_body_def by (intro ends) (simp_all add: keeps_alloc_refl assms q past_reparent)
qed

text \<open>Without aliasing, the links are those of the rotated shape.\<close>

lemma right_body_links:
  assumes "right_body x y c q s = Inr s'" "distinct [x, y, c]" "root (tree s) = x \<or> q \<notin> {x, y, c}"
    and "alloc s x" "alloc s y" "alloc s c" "root (tree s) = x \<or> alloc s q"
  shows "right_rotated s x y c q s'"
proof -
  obtain n yn cn where m: "mem s x = Some n" "mem s y = Some yn" "mem s c = Some cn"
      "x \<noteq> NULL" "y \<noteq> NULL" "c \<noteq> NULL" using assms(4-6) by (auto simp: alloc_def)
  show ?thesis
  proof (cases "root (tree s) = x")
    case True
    then show ?thesis using assms(1,2) m
      by (auto simp: right_body_def reparent_def put_def get_def right_rotated_def field_upd fun_eq_iff)
  next
    case False
    obtain qn where "mem s q = Some qn" "q \<noteq> NULL" using assms(7) False by (auto simp: alloc_def)
    then show ?thesis using assms(1,2,3) m False
      by (auto simp: right_body_def reparent_def put_def get_def right_rotated_def field_upd fun_eq_iff split: if_splits)
  qed
qed

lemma left_body_links:
  assumes "left_body x y c q s = Inr s'" "distinct [x, y, c]" "root (tree s) = x \<or> q \<notin> {x, y, c}"
    and "alloc s x" "alloc s y" "alloc s c" "root (tree s) = x \<or> alloc s q"
  shows "left_rotated s x y c q s'"
proof -
  obtain n yn cn where m: "mem s x = Some n" "mem s y = Some yn" "mem s c = Some cn"
      "x \<noteq> NULL" "y \<noteq> NULL" "c \<noteq> NULL" using assms(4-6) by (auto simp: alloc_def)
  show ?thesis
  proof (cases "root (tree s) = x")
    case True
    then show ?thesis using assms(1,2) m
      by (auto simp: left_body_def reparent_def put_def get_def left_rotated_def field_upd fun_eq_iff)
  next
    case False
    obtain qn where "mem s q = Some qn" "q \<noteq> NULL" using assms(7) False by (auto simp: alloc_def)
    then show ?thesis using assms(1,2,3) m False
      by (auto simp: left_body_def reparent_def put_def get_def left_rotated_def field_upd fun_eq_iff split: if_splits)
  qed
qed

section \<open>Type soundness\<close>

text \<open>
  in a store where every link is null or the address of a node and every colour is red or
  black, both rotations, the fix-up and the insertion keep this, whatever shape the links have, and
  allocate or free nothing; where they fault, it is a null dereference, a failed assertion or the read of
  \<open>pre\<close>, never an access outside the nodes.
\<close>

theorem rbtree_type_sound:
  assumes "typed_state D s" and "typed_ptr D x"
  shows "typedE (typed_state D) (left_rotation s x) \<and> typedE (typed_state D) (right_rotation s x) \<and>
    (rbtree_insert_fixup s x = Some r \<longrightarrow> typedE (typed_state D) r) \<and>
    (rbtree_insert s x = Some r' \<longrightarrow> typedE (typed_state D) r')"
proof -
  have "typedE (typed_state D) r'" if ins: "rbtree_insert s x = Some r'"
  proof -
    obtain w where w: "insert_walk s x None (root (tree s)) = Some w"
      using ins by (auto simp: rbtree_insert_def split: option.splits)
    have "typedE (\<lambda>w. \<forall>p. w = AttachAt (Some p) \<longrightarrow> typed_ptr D p) w"
      using typed_walk [OF w assms typed_root [OF assms(1)]] by simp
    moreover have "typedE (typed_state D) (insert_attach s x pre)"
      if "w = Inr (AttachAt pre)" for pre
      using that calculation typed_attach [OF assms, of pre] by (simp add: typedE_def)
    ultimately show ?thesis
      using ins w assms typed_fixup [of _ x r' D]
      by (auto simp: rbtree_insert_def typedE_def split: sum.splits walk.splits)
  qed
  then show ?thesis
    using tl.typed [OF assms] tr.typed [OF assms] typed_fixup [OF _ assms] by blast
qed

lemma demo_typed: "typed_state (set [1, 2, 3, 4, 5, 6, 7, 8, 9]) demo"
  by (auto simp: typed_state_def typed_node_def typed_ptr_def demo_simps split: if_splits)

theorem rbtree_type_sound_witness:
  "typedE (typed_state (set [1, 2, 3, 4, 5, 6, 7, 8, 9])) (left_rotation demo 2) \<and>
   typedE (typed_state (set [1, 2, 3, 4, 5, 6, 7, 8, 9])) (right_rotation demo 2)"
  using rbtree_type_sound [OF demo_typed, of 2] by (simp add: typed_ptr_def)

lemma guard_fails:
  assumes "get s x = Inr n"
  shows "root (tree s) = NULL \<or> left n = NULL \<or> left n = nil (tree s) \<Longrightarrow> right_rotation s x = Inl AssertFailed"
    and "root (tree s) = NULL \<or> right n = NULL \<or> right n = nil (tree s) \<Longrightarrow> left_rotation s x = Inl AssertFailed"
    and "root (tree s) \<noteq> NULL \<Longrightarrow> right n \<noteq> NULL \<Longrightarrow> right n \<noteq> nil (tree s) \<Longrightarrow> left n = NULL \<Longrightarrow>
      left_rotation s x = Inl NullDeref"
  using assms by (auto simp: right_rotation_def left_rotation_def get_def [of s NULL])

text \<open>
  C6: in a store where every link is null or the address of a node and every colour is red or black,
  whatever shape it has, a rotation at a node fails its assertion when there is no root or the link it looks at
  is null or the sentinel (in \<open>left_rotation\<close> the right link, although it goes on with the left one); else it
  dereferences null exactly when a node it writes is null: the one that comes up, its inner child, the parent.
  Else it returns, keeps the typing, the nodes, keys and colours, and, when the nodes it writes differ, has
  changed exactly the links of the rotation.
\<close>

theorem rotations_type_sound:
  assumes "typed_state D s" and "mem s x = Some n" and "x \<noteq> NULL"
  shows "let y = left n; q = parent n; r = root (tree s); nl = nil (tree s);
      a = field left (mem s) y; c = field right (mem s) y in
    (if r = NULL \<or> y = NULL \<or> y = nl then right_rotation s x = Inl AssertFailed
     else if c = NULL \<or> r \<noteq> x \<and> q = NULL then right_rotation s x = Inl NullDeref
     else \<exists>s'. right_rotation s x = Inr s' \<and> typed_state D s' \<and> same_colors s s' \<and>
       (if distinct [x, y, c] \<and> (r = x \<or> q \<notin> {x, y, c}) then right_rotated s x y c q s' else True)) \<and>
    (if r = NULL \<or> right n = NULL \<or> right n = nl then left_rotation s x = Inl AssertFailed
     else if y = NULL \<or> a = NULL \<or> r \<noteq> x \<and> q = NULL then left_rotation s x = Inl NullDeref
     else \<exists>s'. left_rotation s x = Inr s' \<and> typed_state D s' \<and> same_colors s s' \<and>
       (if distinct [x, y, a] \<and> (r = x \<or> q \<notin> {x, y, a}) then left_rotated s x y a q s' else True))"
proof -
  let ?y = "left n" and ?q = "parent n" and ?r = "root (tree s)" and ?nl = "nil (tree s)"
  have x: "get s x = Inr n" "alloc s x" using assms(2,3) by (simp_all add: get_def alloc_def)
  have q: "?r = x \<or> alloc s ?q" if "\<not> (?r \<noteq> x \<and> ?q = NULL)"
    using that alloc_typed [OF assms(1,2), of parent] by auto
  have px: "typed_ptr D x" using assms(1,2) by (auto simp: typed_ptr_def typed_state_def)
  have kept: "typed_state D s'" "same_colors s s'" if "right_rotation s x = Inr s' \<or> left_rotation s x = Inr s'" for s'
    using that tr.typed [OF assms(1) px] tl.typed [OF assms(1) px] left_rotation_colors [of s x] right_rotation_colors [of s x]
    by (auto simp: typedE_def okE_def)
  obtain yn where y: "get s ?y = Inr yn" "alloc s ?y" "field left (mem s) ?y = left yn" "field right (mem s) ?y = right yn"
      "right yn \<noteq> NULL \<longrightarrow> alloc s (right yn)" "left yn \<noteq> NULL \<longrightarrow> alloc s (left yn)" if "?y \<noteq> NULL"
  proof (cases "?y = NULL")
    case False
    then obtain yn where yn: "mem s ?y = Some yn" using typed_alloc [OF assms(1,2), of left] by auto
    have "get s ?y = Inr yn" "alloc s ?y" using yn False by (simp_all add: get_def alloc_def)
    then show ?thesis
      using that [of yn] yn alloc_typed [OF assms(1) yn, of right] alloc_typed [OF assms(1) yn, of left] by simp
  qed simp
  have R: "if ?r = NULL \<or> ?y = NULL \<or> ?y = ?nl then right_rotation s x = Inl AssertFailed
     else if c = NULL \<or> ?r \<noteq> x \<and> ?q = NULL then right_rotation s x = Inl NullDeref
     else \<exists>s'. right_rotation s x = Inr s' \<and> typed_state D s' \<and> same_colors s s' \<and>
       (if distinct [x, ?y, c] \<and> (?r = x \<or> ?q \<notin> {x, ?y, c}) then right_rotated s x ?y c ?q s' else True)"
    if c: "c = field right (mem s) ?y" for c
  proof (cases "?r = NULL \<or> ?y = NULL \<or> ?y = ?nl")
    case True
    then show ?thesis using guard_fails(1) [OF x(1)] by auto
  next
    case False
    then have b: "right_rotation s x = right_body x ?y c ?q s"
      using rotation_bodies(1) [OF x(1) y(1)] y(4) c by simp
    have al: "c \<noteq> NULL \<Longrightarrow> alloc s c" using y(4,5) False c by simp
    show ?thesis
    proof (cases "c = NULL \<or> ?r \<noteq> x \<and> ?q = NULL")
      case True
      then show ?thesis using False b right_body_ends(1,2) [OF x(2) y(2)] al by (cases "c = NULL") auto
    next
      case ok: False
      then obtain s' where s': "right_body x ?y c ?q s = Inr s'"
        using right_body_ends(3) [OF x(2) y(2) al q] False by (auto simp: returns_def)
      then show ?thesis
        using ok False b kept [of s'] right_body_links [OF s' _ _ x(2) y(2) al q] by auto
    qed
  qed
  have L: "if ?r = NULL \<or> right n = NULL \<or> right n = ?nl then left_rotation s x = Inl AssertFailed
     else if ?y = NULL \<or> a = NULL \<or> ?r \<noteq> x \<and> ?q = NULL then left_rotation s x = Inl NullDeref
     else \<exists>s'. left_rotation s x = Inr s' \<and> typed_state D s' \<and> same_colors s s' \<and>
       (if distinct [x, ?y, a] \<and> (?r = x \<or> ?q \<notin> {x, ?y, a}) then left_rotated s x ?y a ?q s' else True)"
    if a: "a = field left (mem s) ?y" for a
  proof (cases "?r = NULL \<or> right n = NULL \<or> right n = ?nl")
    case True
    then show ?thesis using guard_fails(2) [OF x(1)] by auto
  next
    case False
    show ?thesis
    proof (cases "?y = NULL")
      case True
      then show ?thesis using guard_fails(3) [OF x(1)] False by auto
    next
      case yn: False
      then have b: "left_rotation s x = left_body x ?y a ?q s"
        using rotation_bodies(2) [OF x(1) y(1)] y(3) a False by simp
      have al: "a \<noteq> NULL \<Longrightarrow> alloc s a" using y(3,6) yn a by simp
      show ?thesis
      proof (cases "a = NULL \<or> ?r \<noteq> x \<and> ?q = NULL")
        case True
        then show ?thesis using False yn b left_body_ends(1,2) [OF x(2) y(2)] q by (cases "?r \<noteq> x \<and> ?q = NULL") auto
      next
        case ok: False
        then obtain s' where s': "left_body x ?y a ?q s = Inr s'"
          using left_body_ends(3) [OF x(2) y(2) al q] yn by (auto simp: returns_def)
        then show ?thesis
          using ok False yn b kept [of s'] left_body_links [OF s' _ _ x(2) y(2) al q] by auto
      qed
    qed
  qed
  show ?thesis unfolding Let_def using R [OF refl] L [OF refl] by (rule conjI)
qed

theorem rotations_type_sound_witness:
  "left_rotation demo 3 = Inl AssertFailed \<and> right_rotation demo 4 = Inl AssertFailed \<and>
   (\<exists>s'. right_rotation demo 2 = Inr s' \<and> field parent (mem s') 2 = 3 \<and> field right (mem s') 3 = 2)"
  using rotations_type_sound [OF demo_typed, of 2 "demo_node 3 4 1 Black 20"]
    rotations_type_sound [OF demo_typed, of 3 "demo_node 5 1 2 Black 10"]
    rotations_type_sound [OF demo_typed, of 4 "demo_node 1 6 2 Black 30"]
  by (auto simp: demo_simps field_def right_rotated_def fun_eq_iff split: if_splits)

end
