(* ===== verification/RBTreeFixup.thy ===== *)
theory RBTreeFixup
  imports RBTreeClaims
begin

text \<open>
  When the fix-up of \<^verbatim>\<open>rbtree.c\<close> restores the five properties that the file asks of a red-black tree
  (its second comment): the colours of the nodes of a represented tree, and the two cases in which one
  pass of the loop is enough.
\<close>

section \<open>The properties of red-black trees\<close>

definition is_red :: "(ptr \<Rightarrow> u8) \<Rightarrow> ptr \<Rightarrow> bool" where
  "is_red col p \<longleftrightarrow> col p = color_byte Red"

fun red_root :: "(ptr \<Rightarrow> u8) \<Rightarrow> ptr tree \<Rightarrow> bool" where
  "red_root col Leaf = False"
| "red_root col (Node l x r) = is_red col x"

text \<open>The fourth property: a red node has black children.\<close>

fun red_ok :: "(ptr \<Rightarrow> u8) \<Rightarrow> ptr tree \<Rightarrow> bool" where
  "red_ok col Leaf = True"
| "red_ok col (Node l x r) =
     ((is_red col x \<longrightarrow> \<not> red_root col l \<and> \<not> red_root col r) \<and> red_ok col l \<and> red_ok col r)"

text \<open>The height of a node, from those of its children.\<close>

definition join_height :: "bool \<Rightarrow> nat option \<Rightarrow> nat option \<Rightarrow> nat option" where
  "join_height red a b =
     (case (a, b) of
        (Some m, Some n) \<Rightarrow> if m = n then Some (if red then m else Suc m) else None
      | _ \<Rightarrow> None)"

text \<open>The fifth: all ways down meet the same number of black nodes; the number, if there is one.\<close>

fun rb_height :: "(ptr \<Rightarrow> u8) \<Rightarrow> ptr tree \<Rightarrow> nat option" where
  "rb_height col Leaf = Some 0"
| "rb_height col (Node l x r) =
     join_height (is_red col x) (rb_height col l) (rb_height col r)"

text \<open>The fourth property holds but for \<open>x\<close>, which may be a red child of a red node.\<close>

definition red_ok_but :: "(ptr \<Rightarrow> u8) \<Rightarrow> ptr \<Rightarrow> ptr tree \<Rightarrow> bool" where
  "red_ok_but col x t \<longleftrightarrow> red_ok (col(x := color_byte Black)) t \<and> red_ok col (subtree_at x t)"

lemma red_root_cong: "(\<And>q. q \<in> set_tree t \<Longrightarrow> col' q = col q) \<Longrightarrow> red_root col' t = red_root col t"
  by (cases t) (simp_all add: is_red_def)

lemma red_ok_cong: "(\<And>q. q \<in> set_tree t \<Longrightarrow> col' q = col q) \<Longrightarrow> red_ok col' t = red_ok col t"
  by (induction t) (simp_all add: is_red_def red_root_cong [of _ col' col])

lemma rb_height_cong: "(\<And>q. q \<in> set_tree t \<Longrightarrow> col' q = col q) \<Longrightarrow> rb_height col' t = rb_height col t"
  by (induction t) (simp_all add: is_red_def)

text \<open>A node and its place in the tree.\<close>

lemma subtree_member:
  assumes "subtree_at g t = Node l g r" shows "g \<in> set_tree t" and "set_tree l \<union> set_tree r \<subseteq> set_tree t"
  using set_subtree_at [of g t] assms by auto

lemma subtree_at_below:
  assumes "distinct (inorder t)" and "subtree_at g t = Node l g r" and "x \<in> set_tree l \<union> set_tree r"
  shows "subtree_at x t = subtree_at x (Node l g r)"
  using assms
proof (induction t)
  case (Node tl y tr)
  show ?case
  proof (cases "g = y")
    case False
    then have "x \<in> set_tree tl \<union> set_tree tr"
      using Node.prems set_subtree_at [of g tl] set_subtree_at [of g tr] by (auto split: if_splits)
    then show ?thesis
      using False Node set_subtree_at [of g tl] set_subtree_at [of g tr] by (auto split: if_splits)
  qed (use Node.prems in simp)
qed simp


text \<open>Induction along the way from the root down to \<open>g\<close>.\<close>

lemma path_induct [consumes 2, case_names here left right]:
  assumes "distinct (inorder t)" and "g \<in> set_tree t" and here: "P (subtree_at g t)"
    and left: "\<And>l y r. P l \<Longrightarrow> g \<in> set_tree l \<Longrightarrow> set_tree (subtree_at g t) \<subseteq> set_tree l \<Longrightarrow>
      distinct (inorder (Node l y r)) \<Longrightarrow> set_tree (Node l y r) \<subseteq> set_tree t \<Longrightarrow> P (Node l y r)"
    and right: "\<And>l y r. P r \<Longrightarrow> g \<in> set_tree r \<Longrightarrow> set_tree (subtree_at g t) \<subseteq> set_tree r \<Longrightarrow>
      distinct (inorder (Node l y r)) \<Longrightarrow> set_tree (Node l y r) \<subseteq> set_tree t \<Longrightarrow> P (Node l y r)"
  shows "P t"
proof -
  have "P v" if "distinct (inorder v)" "g \<in> set_tree v" "subtree_at g v = subtree_at g t"
    "set_tree v \<subseteq> set_tree t" for v
    using that
  proof (induction v)
    case (Node l y r)
    show ?case
    proof (cases "g = y")
      case True
      then show ?thesis using Node.prems(3) here by simp
    next
      case False
      then consider "g \<in> set_tree l" "subtree_at g l = subtree_at g t"
        | "g \<in> set_tree r" "subtree_at g r = subtree_at g t"
        using Node.prems by (auto split: if_splits)
      then show ?thesis
      proof cases
        case 1
        then have "P l" "set_tree (subtree_at g t) \<subseteq> set_tree l"
          using Node.IH(1) Node.prems(1,4) set_subtree_at [of g l] by auto
        then show ?thesis using 1 left Node.prems(1,4) by blast
      next
        case 2
        then have "P r" "set_tree (subtree_at g t) \<subseteq> set_tree r"
          using Node.IH(2) Node.prems(1,4) set_subtree_at [of g r] by auto
        then show ?thesis using 2 right Node.prems(1,4) by blast
      qed
    qed
  qed simp
  with assms(1,2) show ?thesis by blast
qed

section \<open>What one pass does to the tree\<close>

text \<open>Recolouring the two children and the root of a subtree, and rotating it, keep the black height.\<close>

lemma rotated_height:
  assumes "distinct (inorder t)" and g: "subtree_at g t = Node (Node a p c) g d"
    and "\<not> is_red col g" and "is_red col p"
    and col': "col' = col(p := color_byte Black, g := color_byte Red)"
  shows "rb_height col' (rotate_right_at g t) = rb_height col t"
  using assms(1) subtree_member(1) [OF g]
proof (induction rule: path_induct)
  case here
  have d: "distinct (inorder (Node (Node a p c) g d))" using distinct_subtree_at [OF assms(1), of g] g by simp
  have "rb_height col' a = rb_height col a" "rb_height col' c = rb_height col c"
    "rb_height col' d = rb_height col d"
    by (rule rb_height_cong; use d col' in auto)+
  moreover have "\<not> is_red col' p" "is_red col' g" using d col' by (auto simp: is_red_def)
  ultimately show ?case
    using g assms(3,4) by (simp add: join_height_def split: option.splits)
next
  case (left l y r)
  have "rb_height col' r = rb_height col r" by (rule rb_height_cong) (use left g col' in auto)
  moreover have "is_red col' y = is_red col y" "g \<notin> set_tree r" "g \<noteq> y"
    using left g col' by (auto simp: is_red_def)
  ultimately show ?case using left(1) by simp
next
  case (right l y r)
  have "rb_height col' l = rb_height col l" by (rule rb_height_cong) (use right g col' in auto)
  moreover have "is_red col' y = is_red col y" "g \<notin> set_tree l" "g \<noteq> y"
    using right g col' by (auto simp: is_red_def)
  ultimately show ?case using right(1) by simp
qed

text \<open>With the red child of the red node on the outer side, the rotation takes it away.\<close>

lemma rotated_red_ok:
  assumes "distinct (inorder t)" and g: "subtree_at g t = Node (Node (Node a x b) p c) g d"
    and "\<not> red_root col d" and "is_red col p" and but: "red_ok_but col x t"
    and col': "col' = col(p := color_byte Black, g := color_byte Red)"
  shows "red_ok col' (rotate_right_at g t)"
proof -
  define colx where "colx = col(x := color_byte Black)"
  have d: "distinct (inorder (Node (Node (Node a x b) p c) g d))"
    using distinct_subtree_at [OF assms(1), of g] g by simp
  have x: "subtree_at x t = Node a x b"
    using subtree_at_below [OF assms(1) g, of x] d by auto
  have "red_ok colx t \<longrightarrow> red_ok col' (rotate_right_at g t) \<and>
      (red_root col' (rotate_right_at g t) \<longrightarrow> red_root colx t)"
    using assms(1) subtree_member(1) [OF g]
  proof (induction rule: path_induct)
    case here
    have c: "red_ok col' t = red_ok colx t" "red_root col' t = red_root colx t"
      if "t \<in> {c, d}" for t
      using that d col' by (auto intro!: red_ok_cong red_root_cong simp: colx_def)
    have d': "red_root colx d = red_root col d" by (rule red_root_cong) (use d colx_def in auto)
    have "red_ok col' (Node a x b) = red_ok col (Node a x b)" by (rule red_ok_cong) (use d col' in auto)
    moreover have "red_ok col (Node a x b)" using but x by (simp add: red_ok_but_def)
    moreover have "\<not> is_red col' p" "is_red col' g" "is_red colx p"
      using d col' assms(4) by (auto simp: is_red_def colx_def)
    ultimately show ?case
      using g c(1) [of c] c(1) [of d] c(2) [of c] c(2) [of d] d' assms(3) by (simp add: is_red_def [of colx g])
  next
    case (left l y r)
    have "red_ok col' r = red_ok colx r" "red_root col' r = red_root colx r"
      by (rule red_ok_cong red_root_cong; use left g col' colx_def in auto)+
    moreover have "is_red col' y = is_red colx y" "g \<notin> set_tree r" "g \<noteq> y"
      using left g col' by (auto simp: is_red_def colx_def)
    ultimately show ?case using left(1) by auto
  next
    case (right l y r)
    have "red_ok col' l = red_ok colx l" "red_root col' l = red_root colx l"
      by (rule red_ok_cong red_root_cong; use right g col' colx_def in auto)+
    moreover have "is_red col' y = is_red colx y" "g \<notin> set_tree l" "g \<noteq> y"
      using right g col' by (auto simp: is_red_def colx_def)
    ultimately show ?case using right(1) by auto
  qed
  then show ?thesis using but by (simp add: red_ok_but_def colx_def)
qed

text \<open>
  Two red children painted black and their parent red: the height stays, and the fourth property holds
  again when the node above is black.
\<close>

lemma recoloured_height:
  assumes "distinct (inorder t)" and g: "subtree_at g t = Node l g r"
    and lr: "l = Node a p c" "r = Node d u e"
    and "\<not> is_red col g" and "is_red col p" "is_red col u"
    and col': "col' = col(p := color_byte Black, u := color_byte Black, g := color_byte Red)"
  shows "rb_height col' t = rb_height col t"
  using assms(1) subtree_member(1) [OF g]
proof (induction rule: path_induct)
  case here
  have d: "distinct (inorder (Node (Node a p c) g (Node d u e)))"
    using distinct_subtree_at [OF assms(1), of g] g lr by simp
  have "rb_height col' t = rb_height col t" if "t \<in> {a, c, d, e}" for t
    by (rule rb_height_cong) (use that d col' in auto)
  then have "rb_height col' a = rb_height col a" "rb_height col' c = rb_height col c"
    "rb_height col' d = rb_height col d" "rb_height col' e = rb_height col e" by auto
  moreover have "\<not> is_red col' p" "\<not> is_red col' u" "is_red col' g" using d col' by (auto simp: is_red_def)
  ultimately show ?case
    using g lr assms(5-7) by (simp add: join_height_def split: option.splits)
next
  case (left l' y r')
  have "rb_height col' r' = rb_height col r'" by (rule rb_height_cong) (use left g lr col' in auto)
  moreover have "is_red col' y = is_red col y" using left g lr col' by (auto simp: is_red_def)
  ultimately show ?case using left(1) by simp
next
  case (right l' y r')
  have "rb_height col' l' = rb_height col l'" by (rule rb_height_cong) (use right g lr col' in auto)
  moreover have "is_red col' y = is_red col y" using right g lr col' by (auto simp: is_red_def)
  ultimately show ?case using right(1) by simp
qed

text \<open>The node above \<open>g\<close>; the sentinel above the root.\<close>

fun above :: "ptr \<Rightarrow> ptr \<Rightarrow> ptr tree \<Rightarrow> ptr" where
  "above q g Leaf = q"
| "above q g (Node l y r) =
     (if g = y then q else if g \<in> set_tree l then above y g l else above y g r)"

lemma above_member: "g \<in> set_tree t \<Longrightarrow> above q g t = q \<or> above q g t \<in> set_tree t"
  by (induction t arbitrary: q) auto

lemma rep_above:
  "rep h nl par p t \<Longrightarrow> g \<in> set_tree t \<Longrightarrow> h g = Some n \<Longrightarrow> parent n = above par g t"
  by (induction t arbitrary: par p) (auto split: option.splits)

lemma recoloured_red_ok:
  assumes dist: "distinct (inorder t)" and g: "subtree_at g t = Node (Node a p c) g (Node d u e)"
    and "is_red col p" "is_red col u"
    and x: "x \<in> set_tree a \<union> set_tree c \<union> set_tree d \<union> set_tree e" and but: "red_ok_but col x t"
    and sub: "\<And>v. v \<in> {a, c, d, e} \<Longrightarrow> x \<in> set_tree v \<Longrightarrow> \<exists>l r. v = Node l x r"
    and par: "\<not> is_red col (above q g t)" and q: "q \<notin> set_tree t"
    and col': "col' = col(p := color_byte Black, u := color_byte Black, g := color_byte Red)"
  shows "red_ok col' t"
proof -
  define colx where "colx = col(x := color_byte Black)"
  have d: "distinct (inorder (Node (Node a p c) g (Node d u e)))"
    using distinct_subtree_at [OF dist, of g] g by simp
  have xs: "subtree_at x t = subtree_at x (Node (Node a p c) g (Node d u e))"
    using subtree_at_below [OF dist g, of x] x by auto
  have parts: "red_ok col' v" if v: "v \<in> {a, c, d, e}" "red_ok colx v" for v
  proof (cases "x \<in> set_tree v")
    case True
    obtain l r where lr: "v = Node l x r" using sub [OF v(1) True] by blast
    have "subtree_at x t = v" using xs v(1) lr d by auto
    then have "red_ok col v" using but by (simp add: red_ok_but_def)
    moreover have "red_ok col' v = red_ok col v" by (rule red_ok_cong) (use v(1) d col' in auto)
    ultimately show ?thesis by simp
  next
    case False
    then have "red_ok col' v = red_ok colx v"
      by (intro red_ok_cong) (use v(1) d col' colx_def in auto)
    then show ?thesis using v(2) by simp
  qed
  have "\<forall>q. q \<notin> set_tree t \<longrightarrow> red_ok colx t \<longrightarrow> \<not> is_red col (above q g t) \<longrightarrow>
      red_ok col' t \<and> (is_red col q \<longrightarrow> \<not> red_root colx t \<longrightarrow> \<not> red_root col' t)"
    using dist subtree_member(1) [OF g]
  proof (induction rule: path_induct)
    case here
    have "\<not> is_red col' p" "\<not> is_red col' u" using d col' by (auto simp: is_red_def)
    then show ?case using g parts by auto
  next
    case (left l y r)
    have r: "red_ok col' r = red_ok colx r" "red_root col' r = red_root colx r"
      by (rule red_ok_cong red_root_cong; use left g x col' colx_def in auto)+
    have y: "is_red col' y = is_red col y" "is_red colx y = is_red col y" "g \<noteq> y" "y \<notin> set_tree l"
      using left g x col' by (auto simp: is_red_def colx_def)
    then show ?case using left(1,2) r by auto
  next
    case (right l y r)
    have l: "red_ok col' l = red_ok colx l" "red_root col' l = red_root colx l"
      by (rule red_ok_cong red_root_cong; use right g x col' colx_def in auto)+
    have y: "is_red col' y = is_red col y" "is_red colx y = is_red col y" "g \<noteq> y" "y \<notin> set_tree r"
      "g \<notin> set_tree l"
      using right g x col' by (auto simp: is_red_def colx_def)
    then show ?case using right(1,2) l by auto
  qed
  then show ?thesis using but par q by (simp add: red_ok_but_def colx_def)
qed

section \<open>The code\<close>

lemma rep_link_at:
  "(\<And>q. link_at h' q = link_at h q) \<Longrightarrow> rep h' nl par p t = rep h nl par p t"
proof (induction t arbitrary: par p)
  case (Node l x r)
  show ?case
    using Node.IH [OF Node.prems] Node.prems [of x]
    by (auto simp: link_at_def split: option.splits)
qed simp

lemma wf_tree_recolour:
  assumes "link_at (mem s') = link_at (mem s)" and "tree s' = tree s" and "wf_tree s t"
  shows "wf_tree s' t"
proof -
  have "mem s' (nil (tree s)) \<noteq> None"
    using assms(3) fun_cong [OF assms(1), of "nil (tree s)"] by (auto simp: wf_tree_def link_at_def)
  then show ?thesis
    using assms(3) rep_link_at [of "mem s'" "mem s"] by (simp add: wf_tree_def assms(1,2))
qed

text \<open>Painting a node of the tree.\<close>

lemma paint:
  assumes "p \<noteq> NULL" and "mem s p = Some n"
  obtains s' where "put p (\<lambda>m. m\<lparr>color := c\<rparr>) s = Inr s'" "same_payload s s'"
    "color_at (mem s') = (color_at (mem s))(p := c)" "link_at (mem s') = link_at (mem s)" "tree s' = tree s"
proof -
  let ?s = "s\<lparr>mem := (mem s)(p \<mapsto> n\<lparr>color := c\<rparr>)\<rparr>"
  have e: "put p (\<lambda>m. m\<lparr>color := c\<rparr>) s = Inr ?s"
    using assms by (simp add: put_def)
  have "link_at (mem ?s) = link_at (mem s)" using assms(2) by (simp add: link_at_def fun_eq_iff)
  then show thesis using that [OF e] put_same_payload [OF e] put_color_at [OF e] by simp
qed

lemma same_payload_node: "same_payload s s' \<Longrightarrow> mem s p = Some n \<Longrightarrow> \<exists>m. mem s' p = Some m"
  by (auto simp: same_payload_def)

text \<open>The sentinel and the nodes can be read; a subtree whose root is not red starts with a black one.\<close>

lemma subtree_link:
  assumes "wf_tree s t" and "rep (mem s) (nil (tree s)) q p v" and "set_tree v \<subseteq> set_tree t"
    and "\<not> is_red (color_at (mem s)) (nil (tree s))"
  obtains n where "get s p = Inr n" "is_red (color_at (mem s)) p = red_root (color_at (mem s)) v"
    "color n = color_at (mem s) p"
proof -
  note w = wf_treeD [OF assms(1)]
  have "p = nil (tree s) \<and> v = Leaf \<or> p \<in> set_tree t" using rep_root [OF assms(2)] assms(3) by auto
  then obtain n where "get s p = Inr n" using w(3,5) rep_in_dom [OF w(1), of p] by auto
  moreover have "is_red (color_at (mem s)) p = red_root (color_at (mem s)) v"
    using assms(2,4) by (cases v) auto
  ultimately show thesis using that get_color_at by metis
qed

lemma fixup_straight_left:
  assumes wf: "wf_tree s t" and g: "subtree_at g t = Node (Node (Node a x b) p c) g d"
    and col: "col = color_at (mem s)" "is_red col p" "\<not> red_root col d" "\<not> is_red col (nil (tree s))"
  obtains s' where "rbtree_insert_fixup s x = Some (Inr s')" "wf_tree s' (rotate_right_at g t)"
    "same_payload s s'" "color_at (mem s') = col(p := color_byte Black, g := color_byte Red)"
proof -
  note w = wf_treeD [OF wf]
  note gt = subtree_member [OF g]
  have dist: "distinct (inorder (Node (Node (Node a x b) p c) g d))"
    using distinct_subtree_at [OF w(2), of g] g by simp
  obtain gn pn xn where n: "mem s g = Some gn" "mem s p = Some pn" "mem s x = Some xn"
      "left gn = p" "left pn = x" "parent pn = g" "parent xn = p" "g \<noteq> NULL" "p \<noteq> NULL" "x \<noteq> NULL"
      "x \<noteq> nil (tree s)"
      "rep (mem s) (nil (tree s)) g (right gn) d" "rep (mem s) (nil (tree s)) p (right pn) c"
    using rep_subtree_at [OF w(1) gt(1)] g by (auto split: option.splits)
  obtain un where un: "get s (right gn) = Inr un" "color un \<noteq> color_byte Red"
    using subtree_link [OF wf n(12)] gt(2) col by (metis is_red_def le_sup_iff)
  have xr: "x \<noteq> right pn" using rep_root [OF n(13)] n(11) dist by auto
  obtain s1 where s1: "put p (\<lambda>m. m\<lparr>color := color_byte Black\<rparr>) s = Inr s1" "same_payload s s1"
      "color_at (mem s1) = col(p := color_byte Black)" "link_at (mem s1) = link_at (mem s)" "tree s1 = tree s"
    using paint [OF n(9,2), of "color_byte Black"] col(1) by metis
  obtain gn1 where "mem s1 g = Some gn1" using same_payload_node [OF s1(2) n(1)] by blast
  then obtain s2 where s2: "put g (\<lambda>m. m\<lparr>color := color_byte Red\<rparr>) s1 = Inr s2" "same_payload s1 s2"
      "color_at (mem s2) = (color_at (mem s1))(g := color_byte Red)" "link_at (mem s2) = link_at (mem s1)"
      "tree s2 = tree s1"
    using paint [OF n(8), of s1 gn1 "color_byte Red"] by metis
  have "wf_tree s2 t" using wf_tree_recolour [OF _ _ wf] s1(4,5) s2(4,5) by simp
  then obtain s3 where s3: "right_rotation s2 g = Inr s3" "wf_tree s3 (rotate_right_at g t)" "same_colors s2 s3"
    using rotation_refines [OF _ gt(1)] g by fastforce
  have pay: "same_payload s s3"
    using s1(2) s2(2) same_colors_payload [OF s3(3)] by (blast intro: same_payload_trans)
  have col3: "color_at (mem s3) = col(p := color_byte Black, g := color_byte Red)"
    using s3(3) s2(3) s1(3) by (simp add: same_colors_def)
  obtain pn3 where pn3: "get s3 p = Inr pn3" "color pn3 = color_byte Black"
    using same_payload_node [OF pay n(2)] n(9) col3 get_color_at [of s3 p] dist by (auto simp del: color_byte.simps)
  have red: "color pn = color_byte Red" using n(2) col(1,2) by (simp add: is_red_def color_at_def)
  have "fixup_body g (s, x, p) = Inr (s3, x, p)"
    using n un xr s1(1) s2(1) s3(1) by (simp add: fixup_body_def Let_def)
  then have "fixup_loop g (s, x, p) = Some (Inr s3)"
    using n red pn3 by (subst fixup_loop.simps) (simp add: fixup_loop.simps [of g "(s3, x, p)"])
  then have "rbtree_insert_fixup s x = Some (Inr s3)"
    using n by (simp add: rbtree_insert_fixup_def)
  then show thesis using that s3(2) pay col3 by blast
qed

text \<open>Three nodes painted one after the other.\<close>

lemma paint3:
  assumes "p \<noteq> NULL" "mem s p \<noteq> None" and "q \<noteq> NULL" "mem s q \<noteq> None" and "r \<noteq> NULL" "mem s r \<noteq> None"
  obtains s1 s2 s3 where "put p (\<lambda>m. m\<lparr>color := c\<rparr>) s = Inr s1" "put q (\<lambda>m. m\<lparr>color := c'\<rparr>) s1 = Inr s2"
    "put r (\<lambda>m. m\<lparr>color := c''\<rparr>) s2 = Inr s3" "same_payload s s3"
    "color_at (mem s3) = (color_at (mem s))(p := c, q := c', r := c'')" "link_at (mem s3) = link_at (mem s)"
    "tree s3 = tree s"
proof -
  obtain n1 where n1: "mem s p = Some n1" using assms(2) by blast
  obtain s1 where s1: "put p (\<lambda>m. m\<lparr>color := c\<rparr>) s = Inr s1" "same_payload s s1"
      "color_at (mem s1) = (color_at (mem s))(p := c)" "link_at (mem s1) = link_at (mem s)" "tree s1 = tree s"
    using paint [OF assms(1) n1, of c] by metis
  obtain n2 where n2: "mem s1 q = Some n2" using same_payload_node [OF s1(2)] assms(4) by blast
  obtain s2 where s2: "put q (\<lambda>m. m\<lparr>color := c'\<rparr>) s1 = Inr s2" "same_payload s1 s2"
      "color_at (mem s2) = (color_at (mem s1))(q := c')" "link_at (mem s2) = link_at (mem s1)" "tree s2 = tree s1"
    using paint [OF assms(3) n2, of c'] by metis
  have p2: "same_payload s s2" using s1(2) s2(2) by (rule same_payload_trans)
  obtain n3 where n3: "mem s2 r = Some n3" using same_payload_node [OF p2] assms(6) by blast
  obtain s3 where s3: "put r (\<lambda>m. m\<lparr>color := c''\<rparr>) s2 = Inr s3" "same_payload s2 s3"
      "color_at (mem s3) = (color_at (mem s2))(r := c'')" "link_at (mem s3) = link_at (mem s2)" "tree s3 = tree s2"
    using paint [OF assms(5) n3, of c''] by metis
  show thesis
    by (rule that [OF s1(1) s2(1) s3(1)])
      (use s1 s2 s3 same_payload_trans [OF p2 s3(2)] in auto)
qed

lemma pass_red_uncle:
  assumes wf: "wf_tree s t" and g: "subtree_at g t = Node (Node a p c) g (Node d u e)"
    and x: "v \<in> {a, c, d, e}" "v = Node l x r"
    and col: "col = color_at (mem s)" "is_red col p" "is_red col u" "\<not> is_red col (nil (tree s))"
  obtains s' par xn pn where "get s x = Inr xn" "parent xn = par" "get s par = Inr pn" "parent pn = g"
    "color pn = color_byte Red" "fixup_body g (s, x, par) = Inr (s', g, above (nil (tree s)) g t)"
    "wf_tree s' t" "same_payload s s'" "tree s' = tree s" "link_at (mem s') = link_at (mem s)"
    "color_at (mem s') = col(p := color_byte Black, u := color_byte Black, g := color_byte Red)"
    "above (nil (tree s)) g t \<notin> {p, u, g}"
proof -
  note w = wf_treeD [OF wf]
  note gt = subtree_member [OF g]
  have dist: "distinct (inorder (Node (Node a p c) g (Node d u e)))"
    using distinct_subtree_at [OF w(2), of g] g by simp
  obtain gn pn un where n: "mem s g = Some gn" "mem s p = Some pn" "mem s u = Some un"
      "left gn = p" "right gn = u" "parent pn = g" "parent un = g" "g \<noteq> NULL" "p \<noteq> NULL" "u \<noteq> NULL"
      "rep (mem s) (nil (tree s)) p (left pn) a" "rep (mem s) (nil (tree s)) p (right pn) c"
      "rep (mem s) (nil (tree s)) u (left un) d" "rep (mem s) (nil (tree s)) u (right un) e"
    using rep_subtree_at [OF w(1) gt(1)] g by (auto split: option.splits)
  obtain par q where "rep (mem s) (nil (tree s)) par q v" and par: "par = p \<or> par = u"
    using n(11-14) x(1) by blast
  then obtain xn where xn: "mem s x = Some xn" "parent xn = par" "x \<noteq> NULL"
    using x(2) by (auto split: option.splits)
  have up: "parent gn = above (nil (tree s)) g t" using rep_above [OF w(1) gt(1) n(1)] .
  have upt: "parent gn = nil (tree s) \<or> parent gn \<in> set_tree t" "parent gn \<notin> {p, u, g}"
    using above_member [OF gt(1)] rep_parent_notin_subtree [OF w(1,2,4) gt(1) n(1)] g up by auto
  have red: "color pn = color_byte Red" "color un = color_byte Red"
    using n(2,3) col(1-3) by (simp_all add: is_red_def color_at_def)
  obtain s' where b: "fixup_body g (s, x, par) = Inr (s', g, parent gn)" "same_payload s s'"
      "color_at (mem s') = col(p := color_byte Black, u := color_byte Black, g := color_byte Red)"
      "link_at (mem s') = link_at (mem s)" "tree s' = tree s"
  proof (cases "par = p")
    case True
    obtain s1 s2 s3 where p: "put p (\<lambda>m. m\<lparr>color := color_byte Black\<rparr>) s = Inr s1"
        "put u (\<lambda>m. m\<lparr>color := color_byte Black\<rparr>) s1 = Inr s2" "put g (\<lambda>m. m\<lparr>color := color_byte Red\<rparr>) s2 = Inr s3"
        "same_payload s s3" "color_at (mem s3) = (color_at (mem s))(p := color_byte Black, u := color_byte Black, g := color_byte Red)"
        "link_at (mem s3) = link_at (mem s)" "tree s3 = tree s"
      using paint3 [of p s u g "color_byte Black" "color_byte Black" "color_byte Red"] n by auto
    obtain m where m: "get s3 g = Inr m" "parent m = parent gn"
      using n(1,8) fun_cong [OF p(6), of g] by (auto simp: link_at_def)
    then show thesis
      using that [of s3] p n True red m col(1) by (simp add: fixup_body_def Let_def del: color_byte.simps)
  next
    case False
    then have xu: "par = u" "u \<noteq> p" using par by auto
    obtain s1 s2 s3 where p: "put u (\<lambda>m. m\<lparr>color := color_byte Black\<rparr>) s = Inr s1"
        "put g (\<lambda>m. m\<lparr>color := color_byte Red\<rparr>) s1 = Inr s2" "put p (\<lambda>m. m\<lparr>color := color_byte Black\<rparr>) s2 = Inr s3"
        "same_payload s s3" "color_at (mem s3) = (color_at (mem s))(u := color_byte Black, g := color_byte Red, p := color_byte Black)"
        "link_at (mem s3) = link_at (mem s)" "tree s3 = tree s"
      using paint3 [of u s g p "color_byte Black" "color_byte Red" "color_byte Black"] n by auto
    obtain m where m: "get s3 g = Inr m" "parent m = parent gn"
      using n(1,8) fun_cong [OF p(6), of g] by (auto simp: link_at_def)
    have "color_at (mem s3) = col(p := color_byte Black, u := color_byte Black, g := color_byte Red)"
      using p(5) col(1) dist by (auto simp: fun_eq_iff)
    then show thesis
      using that [of s3] p n xu red m by (simp add: fixup_body_def Let_def del: color_byte.simps)
  qed
  have "\<exists>m. get s par = Inr m \<and> color m = color_byte Red \<and> parent m = g"
    using n red par by auto
  moreover have "get s x = Inr xn" using xn by simp
  ultimately show thesis
    using that [of xn par _ s'] xn(2) b wf_tree_recolour [OF b(4,5) wf] upt(2) up by auto
qed

lemma fixup_red_uncle:
  assumes wf: "wf_tree s t" and g: "subtree_at g t = Node (Node a p c) g (Node d u e)"
    and x: "v \<in> {a, c, d, e}" "v = Node l x r"
    and col: "col = color_at (mem s)" "is_red col p" "is_red col u" "\<not> is_red col (nil (tree s))"
      "\<not> is_red col (above (nil (tree s)) g t)"
  obtains s' where "rbtree_insert_fixup s x = Some (Inr s')" "wf_tree s' t" "same_payload s s'"
    "color_at (mem s') = col(p := color_byte Black, u := color_byte Black, g := color_byte Red)"
    "tree s' = tree s"
proof -
  let ?q = "above (nil (tree s)) g t"
  note w = wf_treeD [OF wf]
  obtain s' par xn pn where b: "get s x = Inr xn" "parent xn = par" "get s par = Inr pn" "parent pn = g"
      "color pn = color_byte Red" "fixup_body g (s, x, par) = Inr (s', g, ?q)" "wf_tree s' t" "same_payload s s'"
      "tree s' = tree s" "color_at (mem s') = col(p := color_byte Black, u := color_byte Black, g := color_byte Red)"
      "?q \<notin> {p, u, g}"
    using pass_red_uncle [OF wf g x col(1-4)] by metis
  have "?q = nil (tree s) \<or> ?q \<in> set_tree t" using above_member subtree_member(1) [OF g] by blast
  then obtain m0 where "mem s ?q = Some m0" "?q \<noteq> NULL"
    using w(3,5) rep_in_dom [OF w(1)] by metis
  then obtain m where m: "get s' ?q = Inr m" using same_payload_node [OF b(8)] by fastforce
  moreover have "color_at (mem s') ?q \<noteq> color_byte Red"
    using b(10,11) col(5) by (simp add: is_red_def)
  ultimately have "fixup_loop g (s', g, ?q) = Some (Inr s')"
    using get_color_at [OF m] by (subst fixup_loop.simps) auto
  then have "fixup_loop g (s, x, par) = Some (Inr s')"
    using b(3,5,6) by (subst fixup_loop.simps) auto
  then have "rbtree_insert_fixup s x = Some (Inr s')"
    using b(1-4) by (auto simp: rbtree_insert_fixup_def)
  then show thesis using that b(7-10) by blast
qed

section \<open>The fix-up and the five properties\<close>

text \<open>
  A tree with the five properties (every colour is one of two by its type, the sentinel is the leaf, the
  root is black), and one whose fourth property may fail at \<open>x\<close>.
\<close>

definition rb_tree :: "rb_state \<Rightarrow> ptr tree \<Rightarrow> nat \<Rightarrow> bool" where
  "rb_tree s t h \<longleftrightarrow> wf_tree s t \<and> red_ok (color_at (mem s)) t \<and> rb_height (color_at (mem s)) t = Some h \<and>
     \<not> is_red (color_at (mem s)) (root (tree s)) \<and> \<not> is_red (color_at (mem s)) (nil (tree s))"

definition rb_tree_but :: "rb_state \<Rightarrow> ptr \<Rightarrow> ptr tree \<Rightarrow> nat \<Rightarrow> bool" where
  "rb_tree_but s x t h \<longleftrightarrow> wf_tree s t \<and> red_ok_but (color_at (mem s)) x t \<and>
     rb_height (color_at (mem s)) t = Some h \<and>
     \<not> is_red (color_at (mem s)) (root (tree s)) \<and> \<not> is_red (color_at (mem s)) (nil (tree s))"

lemma red_ok_subtree: "red_ok col t \<Longrightarrow> red_ok col (subtree_at g t)"
  by (induction t) auto

lemma red_ok_but_grand:
  assumes "red_ok_but col x t" and "subtree_at g t = Node l g r" and "p \<noteq> x" "is_red col p"
    and "l = Node a p c \<or> r = Node a p c" and "g \<noteq> x"
  shows "\<not> is_red col g"
  using red_ok_subtree [of "col(x := color_byte Black)" t g] assms
  by (auto simp: red_ok_but_def is_red_def)

lemma rep_label: "rep h nl par p (Node l x r) \<Longrightarrow> p = x"
  by simp

lemma wf_tree_root: "wf_tree s (Node l x r) \<Longrightarrow> root (tree s) = x"
  by (simp add: wf_tree_def)

text \<open>Stores for the witnesses: 5 below 3 below 2; the same with 4 on the other side; 6 below 4 below 2.\<close>

definition line_store :: rb_state where
  "line_store = demo\<lparr>mem := [1 \<mapsto> demo_node 1 1 1 Black 0, 2 \<mapsto> demo_node 3 1 1 Black 20,
     3 \<mapsto> demo_node 5 1 2 Red 10, 5 \<mapsto> demo_node 1 1 3 Red 5]\<rparr>"

definition uncle_store :: rb_state where
  "uncle_store = demo\<lparr>mem := [1 \<mapsto> demo_node 1 1 1 Black 0, 2 \<mapsto> demo_node 3 4 1 Black 20,
     3 \<mapsto> demo_node 5 1 2 Red 10, 4 \<mapsto> demo_node 1 1 2 Red 30, 5 \<mapsto> demo_node 1 1 3 Red 5]\<rparr>"

definition mirror_store :: rb_state where
  "mirror_store = demo\<lparr>mem := (mem demo)(4 \<mapsto> demo_node 1 6 2 Red 30)\<rparr>"

lemmas store_simps = line_store_def uncle_store_def mirror_store_def demo_simps

text \<open>
  C3: when the only red child of a red node is the left child of a left child, and the uncle is not
  red, the fix-up restores the five properties: it returns, the store holds the tree rotated at the
  grandparent, with the same keys in the same order and the same black height.
\<close>

theorem fixup_restores_straight_left:
  assumes "rb_tree_but s x t h" and "subtree_at g t = Node (Node (Node a x b) p c) g d"
    and "is_red (color_at (mem s)) p" and "\<not> red_root (color_at (mem s)) d"
  shows "\<exists>s'. rbtree_insert_fixup s x = Some (Inr s') \<and> rb_tree s' (rotate_right_at g t) h \<and>
    tree_keys (mem s') (rotate_right_at g t) = tree_keys (mem s) t"
proof -
  let ?col = "color_at (mem s)"
  have b: "wf_tree s t" "red_ok_but ?col x t" "rb_height ?col t = Some h" "\<not> is_red ?col (root (tree s))"
      "\<not> is_red ?col (nil (tree s))"
    using assms(1) by (simp_all add: rb_tree_but_def)
  note w = wf_treeD [OF b(1)]
  have d: "distinct (inorder (Node (Node (Node a x b) p c) g d))"
    using distinct_subtree_at [OF w(2), of g] assms(2) by simp
  obtain s' where s': "rbtree_insert_fixup s x = Some (Inr s')" "wf_tree s' (rotate_right_at g t)"
      "same_payload s s'" and c': "color_at (mem s') = ?col(p := color_byte Black, g := color_byte Red)"
    using fixup_straight_left [OF b(1) assms(2) refl assms(3,4) b(5)] by metis
  have g: "\<not> is_red ?col g"
    using red_ok_but_grand [OF b(2) assms(2) _ assms(3)] d by auto
  have nl: "nil (tree s') = nil (tree s)" "nil (tree s) \<notin> {p, g}"
    using s'(3) w(4) subtree_member [OF assms(2)] by (auto simp: same_payload_def)
  have "root (tree s') = (if root (tree s) = g then p else root (tree s))"
    using wf_tree_root b(1) s'(2) assms(2) by (cases t) (auto split: if_splits dest!: wf_tree_root)
  then have "\<not> is_red (color_at (mem s')) (root (tree s'))"
    using c' b(4) d by (auto simp: is_red_def)
  then have "rb_tree s' (rotate_right_at g t) h"
    using rotated_height [OF w(2) assms(2) g assms(3) c'] rotated_red_ok [OF w(2) assms(2,4,3) b(2) c']
      b(3,5) c' nl s'(2) by (auto simp: rb_tree_def is_red_def)
  then show ?thesis
    using s'(1,3) by (auto simp: tree_keys_def same_payload_def)
qed

theorem fixup_restores_straight_left_witness:
  "\<exists>s'. rbtree_insert_fixup line_store 5 = Some (Inr s') \<and>
     rb_tree s' (Node (Node Leaf 5 Leaf) 3 (Node Leaf 2 Leaf)) 1 \<and>
     tree_keys (mem s') (Node (Node Leaf 5 Leaf) 3 (Node Leaf 2 Leaf)) = [5, 10, 20]"
  using fixup_restores_straight_left [of line_store 5 "Node (Node (Node Leaf 5 Leaf) 3 Leaf) 2 Leaf" 1 2]
  by (simp add: rb_tree_but_def wf_tree_def red_ok_but_def is_red_def color_at_def tree_keys_def key_at_def
      join_height_def store_simps)

text \<open>
  C4: when the parent and the uncle are both red and the node above the grandparent is not, one pass
  restores all but the second property: the tree and its keys stay as they are, the fourth and the fifth
  property hold, and the root is now red exactly when it is the grandparent, since nothing paints it
  black again.
\<close>

theorem fixup_recolours_red_uncle:
  assumes "rb_tree_but s x t h" and "subtree_at g t = Node (Node a p c) g (Node d u e)"
    and "v \<in> {a, c, d, e}" and "v = Node l x r"
    and "is_red (color_at (mem s)) p" and "is_red (color_at (mem s)) u"
    and "\<not> is_red (color_at (mem s)) (above (nil (tree s)) g t)"
  shows "\<exists>s'. rbtree_insert_fixup s x = Some (Inr s') \<and> wf_tree s' t \<and>
    tree_keys (mem s') t = tree_keys (mem s) t \<and> red_ok (color_at (mem s')) t \<and>
    rb_height (color_at (mem s')) t = Some h \<and>
    (is_red (color_at (mem s')) (root (tree s')) \<longleftrightarrow> g = root (tree s))"
proof -
  let ?col = "color_at (mem s)"
  have b: "wf_tree s t" "red_ok_but ?col x t" "rb_height ?col t = Some h" "\<not> is_red ?col (root (tree s))"
      "\<not> is_red ?col (nil (tree s))"
    using assms(1) by (simp_all add: rb_tree_but_def)
  note w = wf_treeD [OF b(1)]
  have d: "distinct (inorder (Node (Node a p c) g (Node d u e)))"
    using distinct_subtree_at [OF w(2), of g] assms(2) by simp
  have x: "x \<in> set_tree a \<union> set_tree c \<union> set_tree d \<union> set_tree e"
    and xv: "\<And>v'. v' \<in> {a, c, d, e} \<Longrightarrow> x \<in> set_tree v' \<Longrightarrow> \<exists>l r. v' = Node l x r"
    using assms(3,4) d by auto
  obtain s' where s': "rbtree_insert_fixup s x = Some (Inr s')" "wf_tree s' t" "same_payload s s'"
      and c': "color_at (mem s') = ?col(p := color_byte Black, u := color_byte Black, g := color_byte Red)"
      and root: "tree s' = tree s"
    using fixup_red_uncle [OF b(1) assms(2-4) refl assms(5,6) b(5) assms(7)] by metis
  have g: "\<not> is_red ?col g"
    using red_ok_but_grand [OF b(2) assms(2) _ assms(5)] d x by auto
  have "root (tree s) \<notin> {p, u} \<or> \<not> is_red (color_at (mem s')) (root (tree s))"
    using c' d by (auto simp: is_red_def)
  then have "is_red (color_at (mem s')) (root (tree s')) \<longleftrightarrow> g = root (tree s)"
    using c' b(4) root d by (auto simp: is_red_def)
  then show ?thesis
    using recoloured_height [OF w(2) assms(2) refl refl g assms(5,6) c'] b(3) s'
      recoloured_red_ok [OF w(2) assms(2,5,6) x b(2) xv assms(7) w(4) c']
    by (auto simp: tree_keys_def same_payload_def)
qed

theorem fixup_recolours_red_uncle_witness:
  "\<exists>s'. rbtree_insert_fixup uncle_store 5 = Some (Inr s') \<and>
     red_ok (color_at (mem s')) (Node (Node (Node Leaf 5 Leaf) 3 Leaf) 2 (Node Leaf 4 Leaf)) \<and>
     is_red (color_at (mem s')) (root (tree s'))"
  using fixup_recolours_red_uncle [of uncle_store 5 "Node (Node (Node Leaf 5 Leaf) 3 Leaf) 2 (Node Leaf 4 Leaf)" 1 2
      "Node Leaf 5 Leaf" 3 Leaf Leaf 4 Leaf "Node Leaf 5 Leaf" Leaf Leaf]
  by (auto simp: rb_tree_but_def wf_tree_def red_ok_but_def is_red_def color_at_def join_height_def store_simps)

text \<open>
  C38: when the node is the right child of a red node that is itself the right child of its parent, and the
  uncle is a black node, the fix-up returns without an error, but its left rotation at the grandparent has
  closed a cycle there: whatever the parent link, no tree hangs at the grandparent any more.
\<close>

theorem fixup_breaks_straight_right:
  assumes wf: "wf_tree s t" and g: "subtree_at g t = Node (Node d u e) g (Node c p (Node a x b))"
    and col: "is_red (color_at (mem s)) p" "\<not> is_red (color_at (mem s)) u"
  shows "\<exists>s'. rbtree_insert_fixup s x = Some (Inr s') \<and>
    (\<forall>par t'. \<not> rep (mem s') (nil (tree s')) par g t')"
proof -
  note w = wf_treeD [OF wf]
  note gt = subtree_member [OF g]
  have dist: "distinct (inorder (Node (Node d u e) g (Node c p (Node a x b))))"
    using distinct_subtree_at [OF w(2), of g] g by simp
  obtain gn pn un xn where n: "mem s g = Some gn" "mem s p = Some pn" "mem s x = Some xn" "mem s u = Some un"
      "right gn = p" "left gn = u" "right pn = x" "parent pn = g" "parent xn = p"
      "g \<noteq> NULL" "p \<noteq> NULL" "x \<noteq> NULL" "u \<noteq> NULL" "x \<noteq> nil (tree s)"
      "rep (mem s) (nil (tree s)) p (left pn) c"
    using rep_subtree_at [OF w(1) gt(1)] g by (auto split: option.splits)
  have xl: "x \<noteq> left pn" using rep_root [OF n(15)] n(14) dist by auto
  have red: "color pn = color_byte Red" "color un \<noteq> color_byte Red"
    using n(2,4) col(1,2) by (simp_all add: is_red_def color_at_def)
  obtain s1 where s1: "put p (\<lambda>m. m\<lparr>color := color_byte Black\<rparr>) s = Inr s1" "same_payload s s1"
      "color_at (mem s1) = (color_at (mem s))(p := color_byte Black)" "link_at (mem s1) = link_at (mem s)"
      "tree s1 = tree s"
    using paint [OF n(11,2), of "color_byte Black"] by metis
  obtain gn1 where "mem s1 g = Some gn1" using same_payload_node [OF s1(2) n(1)] by blast
  then obtain s2 where s2: "put g (\<lambda>m. m\<lparr>color := color_byte Red\<rparr>) s1 = Inr s2" "same_payload s1 s2"
      "color_at (mem s2) = (color_at (mem s1))(g := color_byte Red)" "link_at (mem s2) = link_at (mem s1)"
      "tree s2 = tree s1"
    using paint [OF n(10), of s1 gn1 "color_byte Red"] by metis
  have wf2: "wf_tree s2 t" using wf_tree_recolour [OF _ _ wf] s1(4,5) s2(4,5) by simp
  obtain s3 l where s3: "left_rotation s2 g = Inr s3"
      and no: "\<forall>par t'. \<not> rep (mem s3) (nil (tree s3)) par g t'"
    using left_rotation_no_tree [OF wf2 gt(1)] g by auto
  have sc: "same_colors s2 s3" using okE_D [OF left_rotation_colors s3] .
  have pay: "same_payload s s3"
    using s1(2) s2(2) same_colors_payload [OF sc] by (blast intro: same_payload_trans)
  have "color_at (mem s3) p = color_byte Black"
    using sc s2(3) s1(3) dist by (simp add: same_colors_def)
  then obtain pn3 where pn3: "get s3 p = Inr pn3" "color pn3 = color_byte Black"
    using same_payload_node [OF pay n(2)] n(11) get_color_at [of s3 p] by (auto simp del: color_byte.simps)
  have "p \<noteq> u" using dist by auto
  then have "fixup_body g (s, x, p) = Inr (s3, x, p)"
    using n red xl s1(1) s2(1) s3 by (simp add: fixup_body_def Let_def)
  then have "fixup_loop g (s, x, p) = Some (Inr s3)"
    using n red pn3 by (subst fixup_loop.simps) (simp add: fixup_loop.simps [of g "(s3, x, p)"])
  then show ?thesis using n no by (auto simp: rbtree_insert_fixup_def)
qed

theorem fixup_breaks_straight_right_witness:
  "\<exists>s'. rbtree_insert_fixup mirror_store 6 = Some (Inr s') \<and>
     (\<forall>par t'. \<not> rep (mem s') (nil (tree s')) par 2 t')"
  using fixup_breaks_straight_right [of mirror_store demo_tree 2 "Node Leaf 5 Leaf" 3 Leaf Leaf 4 Leaf 6 Leaf]
  by (simp add: wf_tree_def is_red_def color_at_def store_simps)

text \<open>
  C5: with a child on the inner side and an uncle that is not red, the rotation that should bring it to
  the outer side is called at the child instead of its parent, and stops at its assertion where that
  child has no child of its own on that side, as every inserted node.
\<close>

theorem fixup_inner_child_asserts:
  assumes wf: "wf_tree s t"
    and g: "subtree_at g t = Node (Node a p (Node Leaf x b)) g d \<or>
      subtree_at g t = Node d g (Node (Node b x Leaf) p a)"
    and col: "is_red (color_at (mem s)) p" "\<not> red_root (color_at (mem s)) d"
      "\<not> is_red (color_at (mem s)) (nil (tree s))"
  shows "rbtree_insert_fixup s x = Some (Inl AssertFailed)"
  using g
proof
  note w = wf_treeD [OF wf]
  assume g: "subtree_at g t = Node (Node a p (Node Leaf x b)) g d"
  note gt = subtree_member [OF g]
  obtain gn pn xn where n: "mem s g = Some gn" "mem s p = Some pn" "mem s x = Some xn" "left gn = p"
      "right pn = x" "parent pn = g" "parent xn = p" "g \<noteq> NULL" "p \<noteq> NULL" "x \<noteq> NULL"
      "left xn = nil (tree s)" "rep (mem s) (nil (tree s)) g (right gn) d"
    using rep_subtree_at [OF w(1) gt(1)] g by (auto split: option.splits)
  obtain un where un: "get s (right gn) = Inr un" "color un \<noteq> color_byte Red"
    using subtree_link [OF wf n(12)] gt(2) col by (metis is_red_def le_sup_iff)
  have "color pn = color_byte Red" using n(2) col(1) by (simp add: is_red_def color_at_def)
  then show ?thesis
    using n(1-11) un w(6)
    by (simp add: rbtree_insert_fixup_def fixup_loop.simps [of g "(s, x, p)"] fixup_body_def Let_def
        right_rotation_def)
next
  note w = wf_treeD [OF wf]
  assume g: "subtree_at g t = Node d g (Node (Node b x Leaf) p a)"
  note gt = subtree_member [OF g]
  have dist: "distinct (inorder (Node d g (Node (Node b x Leaf) p a)))"
    using distinct_subtree_at [OF w(2), of g] g by simp
  obtain gn where gn0: "mem s g = Some gn"
      "rep (mem s) (nil (tree s)) (parent gn) g (Node d g (Node (Node b x Leaf) p a))"
    using rep_subtree_at [OF w(1) gt(1)] unfolding g by blast
  then have gn: "mem s g = Some gn" "g \<noteq> NULL" "right gn = p" "rep (mem s) (nil (tree s)) g (left gn) d"
      "rep (mem s) (nil (tree s)) g (right gn) (Node (Node b x Leaf) p a)"
    by simp_all
  obtain pn where pn: "mem s p = Some pn" "p \<noteq> NULL" "left pn = x" "parent pn = g" "p \<noteq> nil (tree s)"
      "rep (mem s) (nil (tree s)) p (left pn) (Node b x Leaf)"
    using gn(5) by (auto split: option.splits)
  obtain xn where xn: "mem s x = Some xn" "x \<noteq> NULL" "parent xn = p" "right xn = nil (tree s)"
    using pn(6) by (auto split: option.splits)
  note n = gn(1-3) pn(1-4) xn
  have pl: "p \<noteq> left gn" using rep_root [OF gn(4)] pn(5) dist by auto
  obtain un where un: "get s (left gn) = Inr un" "color un \<noteq> color_byte Red"
    using subtree_link [OF wf gn(4)] gt(2) col by (metis is_red_def le_sup_iff)
  have "color pn = color_byte Red" using pn(1) col(1) by (simp add: is_red_def color_at_def)
  then show ?thesis
    using n un w(6) pl
    by (simp add: rbtree_insert_fixup_def fixup_loop.simps [of g "(s, x, p)"] fixup_body_def Let_def
        left_rotation_def)
qed

definition inner_store :: rb_state where
  "inner_store = demo\<lparr>mem := [1 \<mapsto> demo_node 1 1 1 Black 0, 2 \<mapsto> demo_node 3 1 1 Black 20,
     3 \<mapsto> demo_node 1 5 2 Red 10, 5 \<mapsto> demo_node 1 1 3 Red 15]\<rparr>"

theorem fixup_inner_child_asserts_witness: "rbtree_insert_fixup inner_store 5 = Some (Inl AssertFailed)"
  using fixup_inner_child_asserts [of inner_store "Node (Node Leaf 3 (Node Leaf 5 Leaf)) 2 Leaf" 2 Leaf 3 5 Leaf Leaf]
  by (simp add: wf_tree_def is_red_def color_at_def inner_store_def demo_simps)

end
