(* ===== verification/RBTreeLoops.thy ===== *)
theory RBTreeLoops
  imports RBTreeFixup
begin

text \<open>
  The fix-up of \<^verbatim>\<open>rbtree.c\<close> where one pass is not enough: the pass behind a red uncle works with the
  grandparent of the pass before, and its left rotation closes a loop of links.
\<close>

section \<open>A loop of left links\<close>

definition left_is :: "ptr \<Rightarrow> ptr \<Rightarrow> rb_state \<Rightarrow> bool" where
  "left_is g p s \<longleftrightarrow> (\<exists>n. mem s g = Some n \<and> left n = p)"

definition looped :: "ptr \<Rightarrow> ptr \<Rightarrow> rb_state \<Rightarrow> bool" where
  "looped g p s \<longleftrightarrow> left_is g p s \<and> (\<exists>n. mem s p = Some n \<and> left n \<in> {g, p})"

lemma looped_no_tree:
  assumes "looped g p s" and "g \<noteq> nl" "p \<noteq> nl" shows "\<not> rep (mem s) nl par g t"
proof
  assume r: "rep (mem s) nl par g t"
  obtain gn pn where n: "mem s g = Some gn" "left gn = p" "mem s p = Some pn" "left pn \<in> {g, p}"
    using assms(1) by (auto simp: looped_def left_is_def)
  obtain tl tr where t: "t = Node tl g tr" "rep (mem s) nl g p tl"
    using r assms(2) n by (cases t) auto
  obtain a b where tl: "tl = Node a p b" "rep (mem s) nl p (left pn) a"
    using t(2) assms(3) n by (cases tl) auto
  have "a = t \<or> a = tl" using n(4) tl(2) rep_unique r t(2) by blast
  then have "size a \<ge> size tl" using t(1) by auto
  then show False using tl(1) by simp
qed

text \<open>Writes that leave the left links alone keep both facts.\<close>

lemma put_left_is:
  assumes "left_is g p s" and "\<And>n. left (f n) = left n"
  shows "okE (put q f s) (left_is g p)"
  using assms by (auto simp: okE_def put_def get_def left_is_def split: sum.splits option.splits)

lemma put_looped:
  assumes "looped g p s" and "\<And>n. left (f n) = left n"
  shows "okE (put q f s) (looped g p)"
  using assms by (auto simp: okE_def put_def get_def looped_def left_is_def split: sum.splits option.splits)

lemma put_left_loops:
  assumes "left_is g p s" and "p \<noteq> g"
  shows "okE (put p (\<lambda>m. m\<lparr>left := g\<rparr>) s) (looped g p)"
  using assms by (auto simp: okE_def put_def get_def looped_def left_is_def split: sum.splits option.splits)

lemma relink_looped:
  assumes "looped g p s" and "p \<noteq> g" and "get s q = Inr n" "left n = g"
  shows "okE (put q (\<lambda>m. m\<lparr>left := p\<rparr>) s) (looped g p)"
  using assms by (auto simp: okE_def put_def get_def looped_def left_is_def split: sum.splits option.splits if_splits)

lemma looped_set_root: "looped g p s \<Longrightarrow> looped g p (set_root q s)"
  by (simp add: looped_def left_is_def)

lemma okE_bind_looped:
  "okE m (looped g p) \<Longrightarrow> (\<And>s. looped g p s \<Longrightarrow> okE (f s) P) \<Longrightarrow> okE (bindE m f) P"
  by (rule okE_bind)

lemma okE_bind_left_is:
  "okE m (left_is g p) \<Longrightarrow> (\<And>s. left_is g p s \<Longrightarrow> okE (f s) P) \<Longrightarrow> okE (bindE m f) P"
  by (rule okE_bind)

text \<open>The left rotation at \<open>g\<close> makes the loop, and keeps it when it is there.\<close>

lemma left_rotation_loops:
  assumes "left_is g p s" and "p \<noteq> g" shows "okE (left_rotation s g) (looped g p)"
proof (cases "get s g")
  case (Inl e)
  then show ?thesis by (simp add: left_rotation_def okE_def)
next
  case (Inr n)
  have l: "left n = p" using assms(1) Inr by (auto simp: left_is_def get_def split: if_splits)
  have relink: "okE (if root (tree s') = g then Inr (set_root p s')
      else bindE (get s' q) (\<lambda>pn. if left pn = g then put q (\<lambda>m. m\<lparr>left := p\<rparr>) s'
        else if right pn = g then put q (\<lambda>m. m\<lparr>right := g\<rparr>) s' else Inr s')) (looped g p)"
    if "looped g p s'" for s' q
    by (rule okE_if, rule okE_Inr, rule looped_set_root [OF that], rule okE_bind_node, rule okE_if,
        rule relink_looped [OF that assms(2)], assumption, assumption, rule okE_if, rule put_looped [OF that], simp,
        rule okE_Inr, rule that)
  have "okE (bindE (get s p) (\<lambda>rn.
      bindE (put p (\<lambda>m. m\<lparr>left := g\<rparr>) s) (\<lambda>s.
      bindE (put g (\<lambda>m. m\<lparr>right := left rn\<rparr>) s) (\<lambda>s.
      bindE (put p (\<lambda>m. m\<lparr>parent := parent n\<rparr>) s) (\<lambda>s.
      bindE (if root (tree s) = g then Inr (set_root p s)
             else bindE (get s (parent n)) (\<lambda>pn. if left pn = g then put (parent n) (\<lambda>m. m\<lparr>left := p\<rparr>) s
               else if right pn = g then put (parent n) (\<lambda>m. m\<lparr>right := g\<rparr>) s else Inr s)) (\<lambda>s.
      bindE (put g (\<lambda>m. m\<lparr>parent := p\<rparr>) s) (\<lambda>s.
      put (left rn) (\<lambda>m. m\<lparr>parent := g\<rparr>) s))))))) (looped g p)"
    by (rule okE_bind_node, (rule okE_bind_looped, (rule put_left_loops [OF assms] put_looped relink; simp))+, rule put_looped; simp)
  then show ?thesis
    by (simp add: left_rotation_def Inr Let_def l okE_Inl cong: if_cong)
qed

lemma second_pass_loops:
  assumes "left_is g p s" and "p \<noteq> g" "q \<noteq> p" and "color_at (mem s) p \<noteq> color_byte Red"
  shows "okE (fixup_body g (s, g, q)) (\<lambda>(s', _, _). looped g p s')"
proof -
  have l: "left n = p" if "get s g = Inr n" for n
    using assms(1) that by (auto simp: left_is_def get_def split: if_splits)
  have c: "color n \<noteq> color_byte Red" if "get s p = Inr n" for n
    using assms(4) get_color_at [OF that] by simp
  have rest: "okE (bindE (put q (\<lambda>m. m\<lparr>color := color_byte Black\<rparr>) s) (\<lambda>s.
      bindE (put g (\<lambda>m. m\<lparr>color := color_byte Red\<rparr>) s) (\<lambda>s.
      bindE (left_rotation s g) (\<lambda>s. Inr (s, y, q))))) (\<lambda>(s', _, _). looped g p s')"
    if "left_is g p s" for s y
    by (rule okE_bind_left_is, rule put_left_is [OF that], simp, rule okE_bind_left_is, rule put_left_is, assumption, simp,
        rule okE_bind_looped, rule left_rotation_loops [OF _ assms(2)], assumption, rule okE_Inr, simp)
  have inner: "okE (bindE (if g = left n then bindE (left_rotation s g) (\<lambda>s. bindE (get s g) (\<lambda>n. Inr (s, parent n)))
      else Inr (s, g)) f) P"
    if f: "\<And>s y. left_is g p s \<Longrightarrow> okE (f (s, y)) P" for n f P
  proof (rule okE_bind [where R = "\<lambda>(s, _). left_is g p s"])
    show "okE (if g = left n then bindE (left_rotation s g) (\<lambda>s. bindE (get s g) (\<lambda>n. Inr (s, parent n)))
        else Inr (s, g)) (\<lambda>(s, _). left_is g p s)"
      by (rule okE_if, rule okE_bind_looped, rule left_rotation_loops [OF assms(1,2)], rule okE_bind_node)
        (auto intro!: okE_Inr simp: assms(1) looped_def)
    show "okE (f x) P" if "case x of (s, _) \<Rightarrow> left_is g p s" for x
      using that f by (cases x) simp
  qed
  show ?thesis
    unfolding fixup_body_def Let_def
    by (auto intro!: okE_bind_node inner rest simp: l c assms(3) simp del: color_byte.simps)
qed

section \<open>The pass behind a red uncle\<close>

lemma rbtree_fixup_payload:
  "rbtree_insert_fixup s x = Some (Inr s') \<Longrightarrow> same_payload s s'"
  by (fastforce simp: rbtree_insert_fixup_def split: sum.splits dest: fixup_loop_payload)

lemma fixup_red_above_loops:
  assumes wf: "wf_tree s t" and g: "subtree_at g t = Node (Node a p c) g (Node d u e)"
    and x: "v \<in> {a, c, d, e}" "v = Node l x r"
    and col: "is_red (color_at (mem s)) p" "is_red (color_at (mem s)) u"
      "\<not> is_red (color_at (mem s)) (nil (tree s))" "is_red (color_at (mem s)) (above (nil (tree s)) g t)"
    and run: "rbtree_insert_fixup s x = Some (Inr s2)"
  shows "looped g p s2"
proof -
  let ?q = "above (nil (tree s)) g t" and ?col = "color_at (mem s)"
  obtain s' par xn pn where b: "get s x = Inr xn" "parent xn = par" "get s par = Inr pn" "parent pn = g"
      "color pn = color_byte Red" "fixup_body g (s, x, par) = Inr (s', g, ?q)" "wf_tree s' t"
      "color_at (mem s') = ?col(p := color_byte Black, u := color_byte Black, g := color_byte Red)"
      "?q \<notin> {p, u, g}"
    using pass_red_uncle [OF wf g x refl col(1-3)] by metis
  have dist: "distinct (inorder (Node (Node a p c) g (Node d u e)))"
    using distinct_subtree_at [OF wf_treeD(2) [OF wf], of g] g by simp
  have gt: "g \<in> set_tree t" using subtree_member(1) [OF g] .
  obtain gn where gn: "mem s' g = Some gn" "left gn = p" "get s' g = Inr gn"
    using rep_subtree_at [OF wf_treeD(1) [OF b(7)] gt] g by (auto split: option.splits)
  have black: "color_at (mem s') p \<noteq> color_byte Red" using b(8) dist by simp
  have "fixup_loop g (s', g, ?q) = Some (Inr s2)"
    using run b(1-6) by (auto simp: rbtree_insert_fixup_def fixup_loop.simps [of g "(s, x, par)"])
  moreover have "color m = color_byte Red" if "get s' ?q = Inr m" for m
    using get_color_at [OF that] b(8,9) col(4) by (simp add: is_red_def)
  ultimately obtain c where c: "fixup_body g (s', g, ?q) = Inr c" "fixup_loop g c = Some (Inr s2)"
    by (subst (asm) fixup_loop.simps) (auto split: sum.splits)
  have loops: "looped g p (fst c)"
    using okE_D [OF second_pass_loops [of g p s' ?q] c(1)] gn b(9) dist black
    by (auto simp: left_is_def split: prod.splits)
  have "snd (snd c) = ?q \<and> color_at (mem (fst c)) ?q \<noteq> color_byte Red"
    using okE_D [OF fixup_body_black_uncle [OF gn(3), of ?q] c(1)] black gn(2) b(9)
    by (cases c) (auto simp: uncle_of_def)
  then have "s2 = fst c"
    using c(2) get_color_at [of "fst c" ?q] by (subst (asm) fixup_loop.simps) (auto split: sum.splits if_splits)
  with loops show ?thesis by simp
qed

text \<open>
  when the parent, the uncle and the node above the grandparent are red, the fix-up ends, and never with
  a tree: either it faults, or the store it leaves has a loop of links at the grandparent.
\<close>

theorem fixup_red_uncle_below_red:
  assumes "rb_tree_but s x t h" and g: "subtree_at g t = Node (Node a p c) g (Node d u e)"
    and x: "v \<in> {a, c, d, e}" "v = Node l x r"
    and col: "is_red (color_at (mem s)) p" "is_red (color_at (mem s)) u"
      "is_red (color_at (mem s)) (above (nil (tree s)) g t)"
  shows "\<exists>res. rbtree_insert_fixup s x = Some res \<and>
    (case res of Inl e \<Rightarrow> True | Inr s' \<Rightarrow> \<forall>par t'. \<not> rep (mem s') (nil (tree s')) par g t')"
proof -
  have b: "wf_tree s t" "\<not> is_red (color_at (mem s)) (root (tree s))" "\<not> is_red (color_at (mem s)) (nil (tree s))"
    using assms(1) by (simp_all add: rb_tree_but_def)
  note w = wf_treeD [OF b(1)]
  have xt: "x \<in> set_tree t" and pg: "{p, g} \<subseteq> set_tree t" using subtree_member [OF g] x by auto
  show ?thesis
  proof (cases "rbtree_insert_fixup s x")
    case None
    then show ?thesis
      using rbtree_insert_fixup_terminates [OF b(1) xt] b(2,3) by (simp add: is_red_def)
  next
    case (Some res)
    have "\<not> rep (mem s') (nil (tree s')) par g t'" if "res = Inr s'" for s' par t'
    proof (rule looped_no_tree)
      show "looped g p s'"
        using fixup_red_above_loops [OF b(1) g x col(1,2) b(3) col(3)] Some that by simp
      have "nil (tree s') = nil (tree s)"
        using rbtree_fixup_payload [of s x s'] Some that by (simp add: same_payload_def)
      then show "g \<noteq> nil (tree s')" "p \<noteq> nil (tree s')" using w(4) pg by auto
    qed
    with Some show ?thesis by (auto split: sum.splits)
  qed
qed

section \<open>A missing uncle\<close>

text \<open>
  The left rotation takes its new top from the left link. At the root of a tree that has nothing on the
  left, that is the sentinel, which becomes the root.
\<close>

lemma left_rotation_to_sentinel:
  assumes "root (tree s) = g" "g \<noteq> NULL" "nil (tree s) \<noteq> NULL" "g \<noteq> nil (tree s)"
    and "mem s g = Some gn" "left gn = nil (tree s)" "right gn \<noteq> NULL" "right gn \<noteq> nil (tree s)"
    and "mem s (nil (tree s)) = Some nn" "left nn \<noteq> NULL" "mem s (left nn) \<noteq> None"
  shows "\<exists>s'. left_rotation s g = Inr s' \<and> tree s' = (tree s)\<lparr>root := nil (tree s)\<rparr>"
  using assms by (auto simp: left_rotation_def put_def get_def Let_def)

text \<open>
  a red right child of a red right child of the root, without a node on the left: the fix-up returns
  with the sentinel as the root, so that no node is in the tree any more. What the sentinel's own left
  link holds only matters in that it must be the address of a node.
\<close>

theorem fixup_empties_tree:
  assumes wf: "wf_tree s (Node Leaf g (Node c p (Node a x b)))"
    and col: "is_red (color_at (mem s)) p" "\<not> is_red (color_at (mem s)) (nil (tree s))"
    and sent: "mem s (nil (tree s)) = Some nn" "left nn \<noteq> NULL" "mem s (left nn) \<noteq> None"
  shows "\<exists>s'. rbtree_insert_fixup s x = Some (Inr s') \<and> rep (mem s') (nil (tree s')) (nil (tree s')) (root (tree s')) Leaf"
proof -
  note w = wf_treeD [OF wf]
  let ?nl = "nil (tree s)"
  have dist: "distinct (inorder (Node Leaf g (Node c p (Node a x b))))" using w(2) .
  have rg: "root (tree s) = g" using wf by (rule wf_tree_root)
  obtain gn pn xn where n: "mem s g = Some gn" "mem s p = Some pn" "mem s x = Some xn"
      "right gn = p" "left gn = ?nl" "right pn = x" "parent pn = g" "parent xn = p"
      "g \<noteq> NULL" "p \<noteq> NULL" "x \<noteq> NULL" "g \<noteq> ?nl" "p \<noteq> ?nl" "x \<noteq> ?nl"
      "rep (mem s) ?nl p (left pn) c"
    using w(1) by (auto split: option.splits)
  have xl: "x \<noteq> left pn" using rep_root [OF n(15)] n(14) dist by auto
  have red: "color pn = color_byte Red" "color nn \<noteq> color_byte Red"
    using n(2) sent(1) col by (simp_all add: is_red_def color_at_def)
  obtain s1 where s1: "put p (\<lambda>m. m\<lparr>color := color_byte Black\<rparr>) s = Inr s1" "same_payload s s1"
      "color_at (mem s1) = (color_at (mem s))(p := color_byte Black)" "link_at (mem s1) = link_at (mem s)"
      "tree s1 = tree s"
    using paint [OF n(10,2), of "color_byte Black"] by metis
  obtain gn1 where "mem s1 g = Some gn1" using same_payload_node [OF s1(2) n(1)] by blast
  then obtain s2 where s2: "put g (\<lambda>m. m\<lparr>color := color_byte Red\<rparr>) s1 = Inr s2" "same_payload s1 s2"
      "color_at (mem s2) = (color_at (mem s1))(g := color_byte Red)" "link_at (mem s2) = link_at (mem s1)"
      "tree s2 = tree s1"
    using paint [OF n(9), of s1 gn1 "color_byte Red"] by metis
  have link: "link_at (mem s2) q = link_at (mem s) q" for q using s1(4) s2(4) by simp
  obtain gn2 nn2 where n2: "mem s2 g = Some gn2" "left gn2 = ?nl" "right gn2 = p"
      "mem s2 ?nl = Some nn2" "left nn2 = left nn" "mem s2 (left nn) \<noteq> None"
    using link [of g] link [of ?nl] link [of "left nn"] n(1,4,5) sent by (auto simp: link_at_def split: option.splits)
  have t2: "tree s2 = tree s" using s1(5) s2(5) by simp
  obtain s3 where s3: "left_rotation s2 g = Inr s3" "tree s3 = (tree s)\<lparr>root := ?nl\<rparr>"
    using left_rotation_to_sentinel [of s2 g gn2 nn2] n2 n(9,10,12,13) sent(2) rg w(3) unfolding t2 by auto
  have sc: "same_colors s2 s3" using okE_D [OF left_rotation_colors s3(1)] .
  have pay: "same_payload s s3"
    using s1(2) s2(2) same_colors_payload [OF sc] by (blast intro: same_payload_trans)
  have "color_at (mem s3) p = color_byte Black"
    using sc s2(3) s1(3) dist by (simp add: same_colors_def)
  then obtain pn3 where pn3: "get s3 p = Inr pn3" "color pn3 = color_byte Black"
    using same_payload_node [OF pay n(2)] n(10) get_color_at [of s3 p] by (auto simp del: color_byte.simps)
  have "get s ?nl = Inr nn" "get s g = Inr gn" "get s p = Inr pn" "get s x = Inr xn"
    using n w sent(1) by (auto simp: get_def wf_tree_def)
  note gets = this
  have "fixup_body g (s, x, p) = Inr (s3, x, p)"
    using n(4-6,13) gets red xl s1(1) s2(1) s3(1) by (simp add: fixup_body_def Let_def)
  then have "fixup_loop g (s, x, p) = Some (Inr s3)"
    using gets red pn3 by (subst fixup_loop.simps) (simp add: fixup_loop.simps [of g "(s3, x, p)"])
  then show ?thesis using gets n(7,8) s3(2) s1(5) s2(5) by (auto simp: rbtree_insert_fixup_def)
qed

definition right_line_store :: rb_state where
  "right_line_store = demo\<lparr>mem := [1 \<mapsto> demo_node 1 1 1 Black 0, 2 \<mapsto> demo_node 1 4 1 Black 20,
     4 \<mapsto> demo_node 1 6 2 Red 30, 6 \<mapsto> demo_node 1 1 4 Red 40]\<rparr>"

theorem fixup_empties_tree_witness:
  "\<exists>s'. rbtree_insert_fixup right_line_store 6 = Some (Inr s') \<and>
     rep (mem s') (nil (tree s')) (nil (tree s')) (root (tree s')) Leaf"
  using fixup_empties_tree [of right_line_store 2 Leaf 4 Leaf 6 Leaf "demo_node 1 1 1 Black 0"]
  by (simp add: wf_tree_def is_red_def color_at_def right_line_store_def demo_simps)

end
