(* ===== verification/RedirectClaims.thy ===== *)
theory RedirectClaims
  imports BpfClaims BpfLoaderClaims
begin

text \<open>
  The two programs of \<^verbatim>\<open>sock_redirect\<close> together: the loader fills slot 0 of the two socket maps, the
  verdict program redirects to slot 0 of one of them. The maps belong to the kernel; what they hold
  is read off the log of the loader by the documented meaning of \<open>bpf_map_update_elem\<close>: a call that
  succeeds with \<open>BPF_ANY\<close> creates the element or replaces it.
\<close>

section \<open>The maps, from the log\<close>

text \<open>Which connections were accepted, which sockets were created, and the descriptor of a map by its name.\<close>

definition accepted :: "event list \<Rightarrow> int list" where
  "accepted es = map (\<lambda>(as, r). rv r) (call_answers ''accept'' es)"

definition sockets :: "event list \<Rightarrow> int list" where
  "sockets es = map (\<lambda>(as, r). rv r) (call_answers ''socket'' es)"

definition map_fd_of :: "string \<Rightarrow> event list \<Rightarrow> int option" where
  "map_fd_of name es =
     map_of (map (\<lambda>(as, r). (last as, rv r)) (call_answers ''bpf_object__find_map_fd_by_name'' es)) (S name)"

text \<open>The elements: by descriptor and key, the socket.\<close>

fun put_elem :: "(int \<times> int \<rightharpoonup> int) \<Rightarrow> arg list \<times> reply \<Rightarrow> (int \<times> int \<rightharpoonup> int)" where
  "put_elem mp ([I fd, I k, I v, Sym flag], r) = (if 0 \<le> rv r then mp((fd, k) \<mapsto> v) else mp)"
| "put_elem mp _ = mp"

definition sock_maps :: "event list \<Rightarrow> (int \<times> int \<rightharpoonup> int)" where
  "sock_maps es = foldl put_elem Map.empty (call_answers ''bpf_map_update_elem'' es)"

text \<open>
  Where a redirection goes, with the maps as a log leaves them; and where the redirections of one run of the
  verdict program go. A redirection to an element that the map does not have goes nowhere.
\<close>

definition goes_to :: "event list \<Rightarrow> arg list \<Rightarrow> int option" where
  "goes_to es as =
     (case filter (\<lambda>(name, d). as = redirect_to name d) [(''sock_store'', sock_store), (''sock_redir'', sock_redir)] of
        (name, d) # _ \<Rightarrow> (case map_fd_of name es of None \<Rightarrow> None | Some fd \<Rightarrow> sock_maps es (fd, 0))
      | [] \<Rightarrow> None)"

definition delivered :: "event list \<Rightarrow> 'w mach \<Rightarrow> int outcome \<times> 'w mach \<Rightarrow> int option list" where
  "delivered es m r =
     map (\<lambda>(as, _). goes_to es as) (call_answers ''bpf_sk_redirect_map'' (new_events m (snd r)))"

section \<open>The loader\<close>

lemmas log_views = accepted_def sockets_def map_fd_of_def sock_maps_def

text \<open>A run of the loop that goes on has accepted one connection in each round, and stored it.\<close>

lemma redirect_loop_log:
  assumes "fst (redirect_loop k sl sr mf rf n m) = Running"
  defines "es \<equiv> log (snd (redirect_loop k sl sr mf rf n m))"
  shows "\<exists>acc. length acc = n \<and> accepted es = accepted (log m) @ acc \<and> sockets es = sockets (log m) \<and>
    map_fd_of name es = map_fd_of name (log m) \<and>
    sock_maps es = (if n = 0 then sock_maps (log m)
      else (sock_maps (log m))((mf, 0) \<mapsto> last acc, (rf, 0) \<mapsto> sr))"
  using assms(1) unfolding es_def
proof (induction n arbitrary: m)
  case 0
  then show ?case by simp
next
  case (Suc n)
  let ?a = "fst (k ''accept'' [I sl, Sym ''NULL'', Sym ''NULL''] (world m))"
  let ?m1 = "after_call k ''accept'' [I sl, Sym ''NULL'', Sym ''NULL''] m"
  let ?u1 = "[I mf, I 0, I (rv ?a), Sym ''BPF_ANY'']" and ?u2 = "[I rf, I 0, I sr, Sym ''BPF_ANY'']"
  let ?m2 = "after_call k ''bpf_map_update_elem'' ?u1 ?m1"
  let ?m3 = "after_call k ''bpf_map_update_elem'' ?u2 ?m2"
  let ?m4 = "after_call k ''sleep'' [I 5000] (after_print (ln ''bpf_map_update_elem success'') [] ?m3)"
  have ok: "0 \<le> rv ?a" "0 \<le> rv (fst (k ''bpf_map_update_elem'' ?u1 (world ?m1)))"
      "0 \<le> rv (fst (k ''bpf_map_update_elem'' ?u2 (world ?m2)))"
    using Suc.prems by (auto simp: bnd_sys_after failp_def bnd_printf_after split: if_splits)
  then have run: "redirect_loop k sl sr mf rf (Suc n) m = redirect_loop k sl sr mf rf n ?m4"
    by (simp add: bnd_sys_after bnd_printf_after)
  obtain m4 where m4: "m4 = ?m4" by blast
  have views: "accepted (log m4) = accepted (log m) @ [rv ?a]" "sockets (log m4) = sockets (log m)"
      "map_fd_of name (log m4) = map_fd_of name (log m)"
      "sock_maps (log m4) = (sock_maps (log m))((mf, 0) \<mapsto> rv ?a, (rf, 0) \<mapsto> sr)"
    using ok by (simp_all add: m4 log_views log_after_call log_after_print)
  let ?es = "log (snd (redirect_loop k sl sr mf rf n m4))"
  obtain acc where acc: "length acc = n" "accepted ?es = accepted (log m4) @ acc" "sockets ?es = sockets (log m4)"
      "map_fd_of name ?es = map_fd_of name (log m4)"
      "sock_maps ?es = (if n = 0 then sock_maps (log m4)
        else (sock_maps (log m4))((mf, 0) \<mapsto> last acc, (rf, 0) \<mapsto> sr))"
    using Suc.IH [of m4] Suc.prems unfolding run m4 [symmetric] by blast
  have "sock_maps ?es = (sock_maps (log m))((mf, 0) \<mapsto> last (rv ?a # acc), (rf, 0) \<mapsto> sr)"
    using acc(1,5) views(4) by (cases acc) (auto simp: fun_eq_iff)
  then show ?case
    using acc(1-4) views(1-3) unfolding run m4 [symmetric]
    by (intro exI [of _ "rv ?a # acc"]) simp
qed

text \<open>Walking down the set-up: a call adds one event, and a run that goes on has passed every check.\<close>

lemma okP_check:
  "(\<And>m'. Q (Ret c) m') \<Longrightarrow> (\<not> b \<Longrightarrow> okP p m Q) \<Longrightarrow> okP (if b then failp s as c else p) m Q"
  by (simp add: okP_def failp_def run_printf_after)

definition redirect_ready :: "nat \<Rightarrow> event list \<Rightarrow> bool" where
  "redirect_ready n es \<longleftrightarrow>
     (\<exists>store redir loc remote. map_fd_of ''sock_store'' es = Some store \<and>
        map_fd_of ''sock_redir'' es = Some redir \<and> sockets es = [loc, remote] \<and> length (accepted es) = n \<and>
        sock_maps es = [(store, 0) \<mapsto> last (accepted es), (redir, 0) \<mapsto> remote])"

lemma redirect_loop_ready:
  assumes "accepted (log m) = []" and "sockets (log m) = [loc, remote]" and "sock_maps (log m) = Map.empty"
    and "map_fd_of ''sock_store'' (log m) = Some store" and "map_fd_of ''sock_redir'' (log m) = Some redir"
    and "0 < n"
  shows "okP (redirect_loop k sl remote store redir n) m (\<lambda>v m'. v = Running \<longrightarrow> redirect_ready n (log m'))"
  unfolding okP_def redirect_ready_def
  using redirect_loop_log [of k sl remote store redir n m "''sock_store''"]
    redirect_loop_log [of k sl remote store redir n m "''sock_redir''"] assms
  by auto

lemma sock_redirect_ready:
  assumes "0 < n"
  shows "okP (sock_redirect_main k n) (start w) (\<lambda>v m'. v = Running \<longrightarrow> redirect_ready n (log m'))"
  unfolding sock_redirect_main_def
  by (rule okP_call okP_check; (simp; fail)?)+
    (rule redirect_loop_ready; simp add: start_def log_views assms)

text \<open>
  C12: after \<open>n\<close> rounds of the loader, \<open>n\<close> at least 1, when the two maps and the sockets it has open have different
  descriptors, as the kernel gives them, a run of the verdict program on a packet, started whenever and
  whatever the helpers answer, redirects an IPv4 packet with local port 5201 to the connection to the remote
  server, whichever client it came from; one with the remote port 5201 and another local port to the
  client accepted last; and no other. So it sends no packet to any of the first \<open>n - 1\<close> clients.
\<close>

theorem redirect_end_to_end:
  assumes "sock_redirect_main k n (start w) = (Running, m')" and "0 < n"
    and "map_fd_of ''sock_store'' (log m') \<noteq> map_fd_of ''sock_redir'' (log m')"
    and "distinct (accepted (log m') @ sockets (log m'))"
  shows "length (accepted (log m')) = n \<and>
    delivered (log m') v (bpf_prog_verdict k' skb v) =
      (if is_ipv4 skb \<and> local_port skb = 5201 then [Some (sockets (log m') ! 1)]
       else if is_ipv4 skb \<and> remote_bytes skb = [0x14, 0x51] then [Some (accepted (log m') ! (n - 1))] else []) \<and>
    (\<forall>c \<in> set (take (n - 1) (accepted (log m'))). Some c \<notin> set (delivered (log m') v (bpf_prog_verdict k' skb v)))"
proof -
  obtain store redir loc remote where
      fd: "map_fd_of ''sock_store'' (log m') = Some store" "map_fd_of ''sock_redir'' (log m') = Some redir"
      and so: "sockets (log m') = [loc, remote]" and len: "length (accepted (log m')) = n"
      and mp: "sock_maps (log m') = [(store, 0) \<mapsto> last (accepted (log m')), (redir, 0) \<mapsto> remote]"
    using okP_D [OF sock_redirect_ready [OF assms(2)] assms(1)] by (auto simp: redirect_ready_def)
  have ne: "accepted (log m') \<noteq> []" using len assms(2) by auto
  have lst: "last (accepted (log m')) = accepted (log m') ! (n - 1)"
    using last_conv_nth [OF ne] len by simp
  have acc: "accepted (log m') = take (n - 1) (accepted (log m')) @ [accepted (log m') ! (n - 1)]"
    using append_butlast_last_id [OF ne] butlast_conv_take [of "accepted (log m')"] len lst by simp
  have to: "goes_to (log m') (redirect_to ''sock_store'' sock_store) = Some (accepted (log m') ! (n - 1))"
      "goes_to (log m') (redirect_to ''sock_redir'' sock_redir) = Some (sockets (log m') ! 1)"
    using fd so mp lst assms(3) by (simp_all add: goes_to_def redirect_to_def map_arg_def)
  have del: "delivered (log m') v (bpf_prog_verdict k' skb v) =
      (if is_ipv4 skb \<and> local_port skb = 5201 then [Some (sockets (log m') ! 1)]
       else if is_ipv4 skb \<and> remote_bytes skb = [0x14, 0x51] then [Some (accepted (log m') ! (n - 1))] else [])"
    using verdict_cases [of k' skb v] to by (auto simp: delivered_def split: prod.splits if_splits)
  have "distinct ((take (n - 1) (accepted (log m')) @ [accepted (log m') ! (n - 1)]) @ sockets (log m'))"
    using assms(4) acc by simp
  then have "accepted (log m') ! (n - 1) \<notin> set (take (n - 1) (accepted (log m')))"
      "sockets (log m') ! 1 \<notin> set (take (n - 1) (accepted (log m')))"
    unfolding so by (simp_all del: distinct_append add: distinct_append [of "_ @ _"]) auto
  with len del show ?thesis by auto
qed

text \<open>A host that answers each call with the next number; only the load answers 0.\<close>

definition numbering_host :: "nat host" where
  "numbering_host f as w =
     (\<lparr>rv = if f = ''bpf_object__load'' then 0 else int w + 1, eno = 0, out = []\<rparr>, w + 1)"

lemma numbering_run:
  "fst (sock_redirect_main numbering_host 2 (start 0)) = Running"
  "map_fd_of ''sock_store'' (log (snd (sock_redirect_main numbering_host 2 (start 0)))) = Some 3"
  "map_fd_of ''sock_redir'' (log (snd (sock_redirect_main numbering_host 2 (start 0)))) = Some 4"
  "accepted (log (snd (sock_redirect_main numbering_host 2 (start 0)))) = [15, 19]"
  "sockets (log (snd (sock_redirect_main numbering_host 2 (start 0)))) = [9, 12]"
  by (simp_all add: sock_redirect_main_def numeral_2_eq_2 bnd_sys_run bnd_printf_run numbering_host_def start_def
      log_views)

theorem redirect_end_to_end_witness:
  "delivered (log (snd (sock_redirect_main numbering_host 2 (start 0)))) (start 0)
     (bpf_prog_verdict numbering_host demo_skb (start 0)) = [Some 19]"
  using redirect_end_to_end [of numbering_host 2 0 "snd (sock_redirect_main numbering_host 2 (start 0))" "start 0"
      numbering_host demo_skb] numbering_run
  by (simp add: prod_eq_iff is_ipv4_def remote_bytes_def demo_skb_def byte_at_def)

end
