(* ===== verification/CppThreads.thy ===== *)
theory CppThreads
  imports SockBase
begin

text \<open>
  The thread class of \<^verbatim>\<open>cpp/thread.h\<close> and \<^verbatim>\<open>cpp/thread.cc\<close> with the program \<^verbatim>\<open>cpp/main.cpp\<close>, and
  \<^verbatim>\<open>code/c++/thread_test.cc\<close>, which uses \<open>std::thread\<close>: a main thread and at most one other thread, as
  a step relation over their interleavings.
\<close>

section \<open>Statements and states\<close>

text \<open>What the code of a thread does here: write a line, or sleep.\<close>

datatype act = Say string | Nap nat

text \<open>
  The main thread in addition creates, joins and cancels the other one, destroys a \<open>std::thread\<close> object,
  and returns from \<open>main\<close>. The two ways to create a thread differ in what happens when that fails.
\<close>

datatype instr =
    Do act
  | Create_pthread "act list"
  | Join_pthread
  | Cancel_pthread
  | Create_std "act list"
  | Destroy_std
  | Return int

text \<open>A thread that was never created has the identifier 0.\<close>

datatype child = Absent | Live "act list" | Ended

datatype ending = Returned int | Terminated | Undefined

record proc =
  code :: "instr list"
  child :: child
  cancelled :: bool
  shown :: "string list"
  ended :: "ending option"

definition proc_init :: "instr list \<Rightarrow> proc" where
  "proc_init is = \<lparr>code = is, child = Absent, cancelled = False, shown = [], ended = None\<rparr>"

section \<open>The class\<close>

text \<open>\<open>thread_data\<close>: the function and its arguments; \<open>run\<close> applies the one to the others, in their order.\<close>

record 'a thread_data =
  func_fld :: "'a list \<Rightarrow> act list"
  args_fld :: "'a list"


record 'a Thread =
  base :: "'a thread_data option"
  name_fld :: string
  thread_id_fld :: nat





definition Thread_stop :: "instr list" where
  "Thread_stop = [Cancel_pthread]"

section \<open>Steps\<close>

text \<open>
  One step of either thread. Creating a thread may fail: the class does not look at the result, the
  constructor of \<open>std::thread\<close> throws, and nothing catches that. Joining or cancelling the identifier 0 is
  undefined. A cancelled thread may end at any of its statements. The destructor of \<open>std::thread\<close>
  terminates the program when the thread was created and neither joined nor detached.
\<close>

inductive proc_step :: "proc \<Rightarrow> proc \<Rightarrow> bool" where
  main_say: "ended s = None \<Longrightarrow> code s = Do (Say x) # is \<Longrightarrow>
    proc_step s (s\<lparr>code := is, shown := shown s @ [x]\<rparr>)"
| main_nap: "ended s = None \<Longrightarrow> code s = Do (Nap n) # is \<Longrightarrow> proc_step s (s\<lparr>code := is\<rparr>)"
| create: "ended s = None \<Longrightarrow> code s = Create_pthread b # is \<Longrightarrow>
    proc_step s (s\<lparr>code := is, child := Live b\<rparr>)"
| create_fails: "ended s = None \<Longrightarrow> code s = Create_pthread b # is \<Longrightarrow> proc_step s (s\<lparr>code := is\<rparr>)"
| create_std: "ended s = None \<Longrightarrow> code s = Create_std b # is \<Longrightarrow>
    proc_step s (s\<lparr>code := is, child := Live b\<rparr>)"
| create_std_fails: "ended s = None \<Longrightarrow> code s = Create_std b # is \<Longrightarrow>
    proc_step s (s\<lparr>ended := Some Terminated\<rparr>)"
| join: "ended s = None \<Longrightarrow> code s = Join_pthread # is \<Longrightarrow> child s = Ended \<Longrightarrow>
    proc_step s (s\<lparr>code := is\<rparr>)"
| join_absent: "ended s = None \<Longrightarrow> code s = Join_pthread # is \<Longrightarrow> child s = Absent \<Longrightarrow>
    proc_step s (s\<lparr>ended := Some Undefined\<rparr>)"
| cancel: "ended s = None \<Longrightarrow> code s = Cancel_pthread # is \<Longrightarrow> child s \<noteq> Absent \<Longrightarrow>
    proc_step s (s\<lparr>code := is, cancelled := True\<rparr>)"
| cancel_absent: "ended s = None \<Longrightarrow> code s = Cancel_pthread # is \<Longrightarrow> child s = Absent \<Longrightarrow>
    proc_step s (s\<lparr>ended := Some Undefined\<rparr>)"
| destroy_std: "ended s = None \<Longrightarrow> code s = Destroy_std # is \<Longrightarrow> child s \<noteq> Absent \<Longrightarrow>
    proc_step s (s\<lparr>ended := Some Terminated\<rparr>)"
| destroy_std_absent: "ended s = None \<Longrightarrow> code s = Destroy_std # is \<Longrightarrow> child s = Absent \<Longrightarrow>
    proc_step s (s\<lparr>code := is\<rparr>)"
| return: "ended s = None \<Longrightarrow> code s = Return n # is \<Longrightarrow> proc_step s (s\<lparr>ended := Some (Returned n)\<rparr>)"
| child_say: "ended s = None \<Longrightarrow> child s = Live (Say x # as) \<Longrightarrow>
    proc_step s (s\<lparr>child := Live as, shown := shown s @ [x]\<rparr>)"
| child_nap: "ended s = None \<Longrightarrow> child s = Live (Nap n # as) \<Longrightarrow> proc_step s (s\<lparr>child := Live as\<rparr>)"
| child_ends: "ended s = None \<Longrightarrow> child s = Live [] \<Longrightarrow> proc_step s (s\<lparr>child := Ended\<rparr>)"
| child_cancelled: "ended s = None \<Longrightarrow> child s = Live as \<Longrightarrow> cancelled s \<Longrightarrow>
    proc_step s (s\<lparr>child := Ended\<rparr>)"

inductive_cases proc_stepE: "proc_step s s'"

section \<open>The programs\<close>




text \<open>\<^verbatim>\<open>thread_test.cc\<close>, called by \<^verbatim>\<open>code/c++/main.c\<close>: the object is destroyed without a join.\<close>

definition sleep_test :: "act list" where
  "sleep_test = [Say (ln ''sleep start''), Nap 5, Say (ln ''sleep end'')]"

definition thread_test :: "instr list" where
  "thread_test = [Create_std sleep_test, Do (Nap 3), Destroy_std]"

definition thread_test_main :: "instr list" where
  "thread_test_main = thread_test @ [Return 1]"

section \<open>What a thread object guarantees\<close>

fun says :: "act list \<Rightarrow> string list" where
  "says [] = []"
| "says (Say x # as) = x # says as"
| "says (Nap n # as) = says as"
























definition proc_reachable :: "instr list \<Rightarrow> proc \<Rightarrow> bool" where
  "proc_reachable is = proc_step\<^sup>*\<^sup>* (proc_init is)"


text \<open>Every step uses something up, so no run is endless.\<close>

fun instr_work :: "instr \<Rightarrow> nat" where
  "instr_work (Create_pthread b) = length b + 3"
| "instr_work (Create_std b) = length b + 3"
| "instr_work i = 1"

fun child_work :: "child \<Rightarrow> nat" where
  "child_work (Live as) = length as + 1"
| "child_work c = 0"

definition work :: "proc \<Rightarrow> nat" where
  "work s = (if ended s = None then 1 + sum_list (map instr_work (code s)) + child_work (child s) else 0)"

lemma work_decreases:
  assumes "proc_step s s'" shows "work s' < work s"
  using assms by (cases rule: proc_step.cases) (auto simp: work_def)

text \<open>A run that has not ended goes on: the join waits only while the other thread has a step.\<close>

lemma live_steps: "ended s = None \<Longrightarrow> child s = Live as \<Longrightarrow> \<exists>s'. proc_step s s'"
proof (cases as)
  case (Cons a as')
  then show "ended s = None \<Longrightarrow> child s = Live as \<Longrightarrow> \<exists>s'. proc_step s s'"
    by (cases a) (blast intro: child_say child_nap)+
qed (blast intro: child_ends)

lemma head_steps:
  assumes "ended s = None" and "code s = i # is" and "i = Join_pthread \<longrightarrow> child s \<noteq> Absent"
  shows "\<exists>s'. proc_step s s'"
proof (cases i)
  case (Do a)
  then show ?thesis using assms by (cases a) (blast intro: main_say main_nap)+
next
  case Join_pthread
  then show ?thesis using assms live_steps by (cases "child s") (blast intro: join)+
next
  case Cancel_pthread
  then show ?thesis using assms by (cases "child s = Absent") (blast intro: cancel cancel_absent)+
next
  case Destroy_std
  then show ?thesis using assms by (cases "child s = Absent") (blast intro: destroy_std destroy_std_absent)+
qed (use assms in \<open>blast intro: create create_std return\<close>)+

lemma nonempty_steps: "ended s = None \<Longrightarrow> code s \<noteq> [] \<Longrightarrow> \<exists>s'. proc_step s s'"
  using head_steps join_absent by (cases "code s") blast+










section \<open>The program with a thread object of the library\<close>

definition sleep_lines :: "string list" where
  "sleep_lines = [ln ''sleep start'', ln ''sleep end'']"

definition std_run :: "proc \<Rightarrow> act list \<Rightarrow> bool" where
  "std_run s as \<longleftrightarrow> (child s = Live as \<or> child s = Ended \<and> as = []) \<and> shown s @ says as = sleep_lines"

definition std_inv :: "proc \<Rightarrow> bool" where
  "std_inv s \<longleftrightarrow> \<not> cancelled s \<and>
     (ended s = None \<and> code s = thread_test_main \<and> child s = Absent \<and> shown s = [] \<or>
      ended s = Some Terminated \<and> child s = Absent \<and> shown s = [] \<or>
      (ended s = None \<or> ended s = Some Terminated) \<and> code s \<in> {drop 1 thread_test_main, drop 2 thread_test_main} \<and>
      (\<exists>as. std_run s as))"

lemmas thread_test_code = thread_test_main_def thread_test_def

lemma std_inv_step:
  assumes "proc_step s s'" and inv: "std_inv s" shows "std_inv s'"
proof -
  have e: "ended s = None" using assms(1) by (cases rule: proc_step.cases) auto
  have c: "\<not> cancelled s" using inv by (simp add: std_inv_def)
  consider (start) "code s = thread_test_main" "child s = Absent" "shown s = []"
    | (run) as where "code s \<in> {drop 1 thread_test_main, drop 2 thread_test_main}" "std_run s as"
    using inv e unfolding std_inv_def by auto
  then show ?thesis
  proof cases
    case start
    from assms(1) consider "s' = s\<lparr>code := drop 1 thread_test_main, child := Live sleep_test\<rparr>"
      | "s' = s\<lparr>ended := Some Terminated\<rparr>"
      by (cases rule: proc_step.cases) (use start in \<open>auto simp: thread_test_code\<close>)
    then show ?thesis
    proof cases
      case 1
      then have "std_run s' sleep_test" using start by (simp add: std_run_def sleep_test_def sleep_lines_def)
      then show ?thesis using 1 e c unfolding std_inv_def by auto
    qed (use start c in \<open>simp add: std_inv_def\<close>)
  next
    case run
    from assms(1) consider "s' = s\<lparr>code := drop 2 thread_test_main\<rparr>" | "s' = s\<lparr>ended := Some Terminated\<rparr>"
      | a as' where "as = a # as'" "s' = s\<lparr>child := Live as', shown := shown s @ says [a]\<rparr>"
      | "as = []" "s' = s\<lparr>child := Ended\<rparr>"
      by (cases rule: proc_step.cases) (use run c in \<open>auto simp: thread_test_code std_run_def\<close>)
    then show ?thesis
    proof cases
      case 1
      then have "std_run s' as" using run by (simp add: std_run_def)
      then show ?thesis using 1 e c unfolding std_inv_def by auto
    next
      case 2
      then have "std_run s' as" using run by (simp add: std_run_def)
      then show ?thesis using 2 run c unfolding std_inv_def by auto
    next
      case 3
      then have "std_run s' as'" using run(2) by (cases a) (simp_all add: std_run_def)
      then show ?thesis using 3 e c run unfolding std_inv_def by auto
    next
      case 4
      then have "std_run s' []" using run(2) by (simp add: std_run_def)
      then show ?thesis using 4 e c run unfolding std_inv_def by auto
    qed
  qed
qed

lemma std_inv_reachable:
  assumes "proc_reachable thread_test_main s" shows "std_inv s"
  using assms unfolding proc_reachable_def
proof (induction rule: rtranclp_induct)
  case base
  show ?case by (simp add: std_inv_def proc_init_def)
qed (rule std_inv_step)

text \<open>
  the program of \<^verbatim>\<open>thread_test.cc\<close> never returns from \<open>main\<close>: every run ends with the termination
  by the destructor (or, when the thread cannot be created, by the exception of the constructor), at
  whatever point the other thread is; what it has written then is a beginning of its two lines.
\<close>

theorem thread_test_terminated:
  assumes "proc_reachable thread_test_main s"
  shows "(\<forall>s'. proc_step s s' \<longrightarrow> work s' < work s) \<and>
    (case ended s of None \<Rightarrow> \<exists>s'. proc_step s s' | Some e \<Rightarrow> e = Terminated) \<and>
    (\<exists>rest. shown s @ rest = sleep_lines)"
proof -
  have inv: "std_inv s" using assms by (rule std_inv_reachable)
  have "ended s = None \<Longrightarrow> code s \<noteq> []"
    using inv by (auto simp: std_inv_def thread_test_code)
  moreover have "ended s = None \<or> ended s = Some Terminated" using inv unfolding std_inv_def by blast
  moreover have "\<exists>rest. shown s @ rest = sleep_lines" using inv by (auto simp: std_inv_def std_run_def)
  ultimately show ?thesis using work_decreases nonempty_steps [of s] by auto
qed

theorem thread_test_terminated_witness:
  "\<exists>s'. proc_step (proc_init thread_test_main) s'"
  using thread_test_terminated [of "proc_init thread_test_main"]
  by (simp add: proc_reachable_def proc_init_def)

end
