(* ===== verification/ClientThreads.thy ===== *)
theory ClientThreads
  imports CppThreads "HOL-Library.Multiset"
begin

text \<open>
  The client of \<^verbatim>\<open>cpp/sock.cpp\<close>: what one of its threads does, alone and as a point of its code that is
  moved on by one call or one print, and the program, whose thirty threads share the process and so its
  sockets, as a step relation over their interleavings.
\<close>

section \<open>One thread\<close>

text \<open>
  What each of the thirty threads of \<^verbatim>\<open>cpp/sock.cpp\<close> runs: connections to port 12344 of this host, one after
  the other, cut off after a number of rounds. The result of \<open>socket\<close> is not looked at.
\<close>

fun client_lambda :: "'w host \<Rightarrow> nat \<Rightarrow> ('w, unit) prog" where
  "client_lambda k 0 = (\<lambda>m. (Running, m))"
| "client_lambda k (Suc n) =
     bnd (sys k ''socket'' [Sym ''AF_INET'', Sym ''SOCK_STREAM'', I 0]) (\<lambda>cl_fd.
     bnd (sys k ''inet_pton'' [Sym ''AF_INET'', S ''127.0.0.1'']) (\<lambda>p.
     if rv p = -1 then printf (ln ''convert addr failed%s'') [Err (eno p)] else
     bnd (sys k ''connect'' [I (rv cl_fd), sockaddr_in (htons_arg 12344) (B (out p)), I 16]) (\<lambda>c.
     if rv c = -1 then printf (ln ''connect failed %s'') [Err (eno c)] else
     bnd (printf (ln ''prepare send'') []) (\<lambda>_.
     let message = ''client send'' in
     bnd (sys k ''send'' [I (rv cl_fd), S message, I (int (length message)), I 0]) (\<lambda>s.
     if rv s < 0 then printf (ln ''send failed%s'') [Err (eno s)] else
     bnd (printf (ln ''send end'') []) (\<lambda>_.
     bnd (sys k ''close'' [I (rv cl_fd)]) (\<lambda>_.
     client_lambda k n)))))))"

definition times :: "string \<Rightarrow> event list \<Rightarrow> nat" where
  "times f es = count_list (called es) f"

lemma times_append [simp]: "times f (es @ fs) = times f es + times f fs"
  by (simp add: times_def)

lemma client_lambda_counts:
  "okP (client_lambda k n) m (\<lambda>v m'.
     v \<in> {Running, Ret ()} \<and> (v = Running \<longrightarrow> times ''socket'' (log m') = times ''socket'' (log m) + n) \<and>
     times ''socket'' (log m') + times ''close'' (log m) =
       times ''socket'' (log m) + times ''close'' (log m') + (if v = Running then 0 else 1))"
proof (induction n arbitrary: m)
  case 0
  then show ?case by (simp add: okP_def)
next
  case (Suc n)
  show ?case
    unfolding client_lambda.simps Let_def
    by (rule okP_call okP_line okP_if okP_last_line | rule okP_weaken [OF Suc.IH] | simp add: times_def)+
qed

text \<open>
  a client thread stops only at a failed call, behind a \<open>socket\<close> without its \<open>close\<close>: it has called \<open>socket\<close>
  once more than \<open>close\<close>; while it goes on, as often.
\<close>

theorem client_lambda_leaks:
  "let (v, m') = client_lambda k n (start w); made = times ''socket'' (log m'); closed = times ''close'' (log m') in
     if v = Running then made = n \<and> closed = n else v = Ret () \<and> made = closed + 1"
  using client_lambda_counts [of k n "start w"]
  by (auto simp: okP_def times_def start_def split_beta)

section \<open>The points of a thread\<close>

text \<open>
  Where a thread is: before each call and each print, with what its variables hold; \<open>P_failed\<close> is before
  the print of an error, \<open>P_stopped\<close> behind the \<open>return\<close>, with the descriptor its variable held.
\<close>

datatype point =
    P_socket
  | P_pton int
  | P_connect int bytes
  | P_ready int
  | P_send int
  | P_sent int
  | P_close int
  | P_failed int string int
  | P_stopped int

definition ask :: "'w host \<Rightarrow> string \<Rightarrow> arg list \<Rightarrow> (reply \<Rightarrow> point) \<Rightarrow> 'w mach \<Rightarrow> point \<times> 'w mach" where
  "ask k f as q m = (let (r, w) = k f as (world m) in (q r, m\<lparr>world := w, log := log m @ [Call f as r]\<rparr>))"

definition tell :: "string \<Rightarrow> arg list \<Rightarrow> point \<Rightarrow> 'w mach \<Rightarrow> point \<times> 'w mach" where
  "tell s as q m = (q, m\<lparr>log := log m @ [Print s as]\<rparr>)"

fun client_step :: "'w host \<Rightarrow> point \<Rightarrow> 'w mach \<Rightarrow> point \<times> 'w mach" where
  "client_step k P_socket =
     ask k ''socket'' [Sym ''AF_INET'', Sym ''SOCK_STREAM'', I 0] (\<lambda>r. P_pton (rv r))"
| "client_step k (P_pton cl_fd) =
     ask k ''inet_pton'' [Sym ''AF_INET'', S ''127.0.0.1'']
       (\<lambda>r. if rv r = -1 then P_failed cl_fd (ln ''convert addr failed%s'') (eno r) else P_connect cl_fd (out r))"
| "client_step k (P_connect cl_fd addr) =
     ask k ''connect'' [I cl_fd, sockaddr_in (htons_arg 12344) (B addr), I 16]
       (\<lambda>r. if rv r = -1 then P_failed cl_fd (ln ''connect failed %s'') (eno r) else P_ready cl_fd)"
| "client_step k (P_ready cl_fd) = tell (ln ''prepare send'') [] (P_send cl_fd)"
| "client_step k (P_send cl_fd) =
     (let message = ''client send'' in
      ask k ''send'' [I cl_fd, S message, I (int (length message)), I 0]
        (\<lambda>r. if rv r < 0 then P_failed cl_fd (ln ''send failed%s'') (eno r) else P_sent cl_fd))"
| "client_step k (P_sent cl_fd) = tell (ln ''send end'') [] (P_close cl_fd)"
| "client_step k (P_close cl_fd) = ask k ''close'' [I cl_fd] (\<lambda>_. P_socket)"
| "client_step k (P_failed cl_fd s e) = tell s [Err e] (P_stopped cl_fd)"
| "client_step k (P_stopped cl_fd) = Pair (P_stopped cl_fd)"

fun stopped :: "point \<Rightarrow> bool" where
  "stopped (P_stopped _) = True"
| "stopped _ = False"

definition client_moves :: "'w host \<Rightarrow> point \<times> 'w mach \<Rightarrow> point \<times> 'w mach \<Rightarrow> bool" where
  "client_moves k s s' \<longleftrightarrow> s' = client_step k (fst s) (snd s)"

lemma client_moves_on:
  "(client_moves k)\<^sup>*\<^sup>* (client_step k p m) s \<Longrightarrow> (client_moves k)\<^sup>*\<^sup>* (p, m) s"
  by (rule converse_rtranclp_into_rtranclp [of _ _ "client_step k p m"]) (simp_all add: client_moves_def)

text \<open>A thread alone does what the loop does: it makes the same calls and prints, in the same order.\<close>

definition reaches :: "'w host \<Rightarrow> point \<Rightarrow> ('w, unit) prog \<Rightarrow> 'w mach \<Rightarrow> bool" where
  "reaches k p prg m \<longleftrightarrow> (\<exists>q. (client_moves k)\<^sup>*\<^sup>* (p, m) (q, snd (prg m)) \<and>
     (if fst (prg m) = Running then q = P_socket else stopped q))"

lemma reaches_on:
  "reaches k (fst (client_step k p m)) prg (snd (client_step k p m)) \<Longrightarrow>
   prg' m = prg (snd (client_step k p m)) \<Longrightarrow> reaches k p prg' m"
  unfolding reaches_def using client_moves_on [of k p m] by (metis prod.collapse)

lemma ends_call:
  assumes "client_step k p = ask k f as h" and "\<And>r m'. reaches k (h r) (q r) m'"
  shows "reaches k p (bnd (sys k f as) q) m"
proof -
  obtain r w where k: "k f as (world m) = (r, w)" by (cases "k f as (world m)")
  show ?thesis
    by (rule reaches_on [of k p m "q r"]) (simp_all add: assms k ask_def bnd_def sys_def)
qed

lemma ends_line:
  assumes "client_step k p = tell s as p'" and "\<And>m'. reaches k p' (q ()) m'"
  shows "reaches k p (bnd (printf s as) q) m"
  by (rule reaches_on [of k p m "q ()"]) (simp_all add: assms tell_def bnd_def printf_def)

lemma ends_last:
  assumes "client_step k p = tell s as (P_stopped fd)"
  shows "reaches k p (printf s as) m"
  using client_moves_on [of k p m "client_step k p m"] unfolding reaches_def
  by (intro exI [of _ "P_stopped fd"]) (simp add: assms tell_def printf_def)

lemma ends_if: "reaches k p q m \<Longrightarrow> reaches k p' q' m \<Longrightarrow> reaches k (if b then p else p') (if b then q else q') m"
  by simp

theorem client_lambda_refined: "reaches k P_socket (client_lambda k n) m"
proof (induction n arbitrary: m)
  case 0
  then show ?case by (simp add: reaches_def)
next
  case (Suc n)
  show ?case
    unfolding client_lambda.simps Let_def
    by (rule ends_call ends_line ends_last ends_if Suc.IH client_step.simps | simp add: Let_def)+
qed

section \<open>The program\<close>

text \<open>
  The process: the machine the threads share, the point of every thread that was created, how many
  were joined. Creating a thread throws when it fails, which nothing catches.
\<close>

record 'w sock_proc =
  machine :: "'w mach"
  threads :: "point list"
  joined :: nat
  status :: "ending option"

definition sock_init :: "'w \<Rightarrow> 'w sock_proc" where
  "sock_init w = \<lparr>machine = start w, threads = [], joined = 0, status = None\<rparr>"

inductive sock_step :: "'w host \<Rightarrow> 'w sock_proc \<Rightarrow> 'w sock_proc \<Rightarrow> bool" for k where
  spawn: "status s = None \<Longrightarrow> length (threads s) < 30 \<Longrightarrow> sock_step k s (s\<lparr>threads := threads s @ [P_socket]\<rparr>)"
| spawn_fails: "status s = None \<Longrightarrow> length (threads s) < 30 \<Longrightarrow> sock_step k s (s\<lparr>status := Some Terminated\<rparr>)"
| thread: "status s = None \<Longrightarrow> i < length (threads s) \<Longrightarrow> \<not> stopped (threads s ! i) \<Longrightarrow>
    client_step k (threads s ! i) (machine s) = (p, m) \<Longrightarrow>
    sock_step k s (s\<lparr>machine := m, threads := (threads s)[i := p]\<rparr>)"
| join_next: "status s = None \<Longrightarrow> length (threads s) = 30 \<Longrightarrow> joined s < 30 \<Longrightarrow>
    stopped (threads s ! joined s) \<Longrightarrow> sock_step k s (s\<lparr>joined := joined s + 1\<rparr>)"
| main_returns: "status s = None \<Longrightarrow> length (threads s) = 30 \<Longrightarrow> joined s = 30 \<Longrightarrow>
    sock_step k s (s\<lparr>status := Some (Returned 1)\<rparr>)"

inductive_cases sock_stepE: "sock_step k s s'"

definition sock_reachable :: "'w host \<Rightarrow> 'w \<Rightarrow> 'w sock_proc \<Rightarrow> bool" where
  "sock_reachable k w s \<longleftrightarrow> (sock_step k)\<^sup>*\<^sup>* (sock_init w) s"

section \<open>Sockets\<close>

text \<open>A thread that is not about to call \<open>socket\<close> has called it without \<open>close\<close>, also when it has stopped.\<close>

definition holding :: "point list \<Rightarrow> nat" where
  "holding ps = length (filter (\<lambda>p. p \<noteq> P_socket) ps)"

lemma holding_simps [simp]:
  "holding [] = 0" "holding (ps @ qs) = holding ps + holding qs"
  "holding (p # ps) = of_bool (p \<noteq> P_socket) + holding ps"
  by (simp_all add: holding_def)

lemma holding_update:
  "i < length ps \<Longrightarrow> holding (ps[i := p]) + of_bool (ps ! i \<noteq> P_socket) = holding ps + of_bool (p \<noteq> P_socket)"
proof (induction ps arbitrary: i)
  case (Cons q ps)
  then show ?case by (cases i) auto
qed simp

lemma times_log [simp]:
  "times f [] = 0" "times f [Call g as r] = of_bool (g = f)" "times f [Print t as] = 0"
  by (simp_all add: times_def)

text \<open>One step of a thread: what it makes and closes, and what it holds before and after.\<close>

lemma client_step_sockets:
  assumes "client_step k p m = (p', m')" and "\<not> stopped p"
  shows "times ''socket'' (log m') + times ''close'' (log m) + of_bool (p \<noteq> P_socket) =
    times ''socket'' (log m) + times ''close'' (log m') + of_bool (p' \<noteq> P_socket)"
  using assms
  by (cases p) (auto simp: ask_def tell_def Let_def split: prod.splits if_splits)

definition sock_inv :: "'w sock_proc \<Rightarrow> bool" where
  "sock_inv s \<longleftrightarrow>
     times ''socket'' (log (machine s)) = times ''close'' (log (machine s)) + holding (threads s) \<and>
     length (threads s) \<le> 30 \<and> joined s \<le> 30 \<and>
     (joined s = 0 \<or> length (threads s) = 30) \<and>
     (\<forall>i<joined s. stopped (threads s ! i)) \<and>
     status s \<in> {None, Some Terminated, Some (Returned 1)} \<and>
     (status s = Some (Returned 1) \<longrightarrow> length (threads s) = 30 \<and> joined s = 30)"

lemma sock_inv_step:
  assumes "sock_step k s s'" and inv: "sock_inv s"
  shows "sock_inv s'"
  using assms(1)
proof cases
  case (thread i p m)
  have "times ''socket'' (log m) + times ''close'' (log (machine s)) + of_bool (threads s ! i \<noteq> P_socket) =
      times ''socket'' (log (machine s)) + times ''close'' (log m) + of_bool (p \<noteq> P_socket)"
    using client_step_sockets [OF thread(5,4)] .
  moreover have "\<forall>j<joined s. i \<noteq> j" using inv thread(4) by (auto simp: sock_inv_def)
  ultimately show ?thesis
    using inv thread(1,2) holding_update [OF thread(3), of p] by (simp add: sock_inv_def)
qed (use inv in \<open>auto simp: sock_inv_def less_Suc_eq\<close>)

lemma sock_inv_reachable:
  assumes "sock_reachable k w s" shows "sock_inv s"
  using assms unfolding sock_reachable_def
proof (induction rule: rtranclp_induct)
  case base
  show ?case by (simp add: sock_inv_def sock_init_def start_def)
qed (rule sock_inv_step)

lemma sock_goes_on:
  assumes "sock_inv s" "status s = None"
  shows "\<exists>s'. sock_step k s s' \<and> status s' \<noteq> Some Terminated"
proof (cases "length (threads s) < 30")
  case True
  then show ?thesis using assms(2) spawn [of s k] by fastforce
next
  case False
  then have len: "length (threads s) = 30" using assms(1) by (simp add: sock_inv_def)
  show ?thesis
  proof (cases "joined s < 30")
    case True
    obtain p m where "client_step k (threads s ! joined s) (machine s) = (p, m)" by (metis surj_pair)
    then show ?thesis
      using True len assms(2) thread [of s "joined s" k p m] join_next [of s k] by fastforce
  next
    case False
    then show ?thesis using len assms main_returns [of s k] by (fastforce simp: sock_inv_def)
  qed
qed

lemma returned_threads:
  "sock_inv s \<Longrightarrow> status s = Some (Returned 1) \<Longrightarrow> length (threads s) = 30 \<and> list_all stopped (threads s)"
  by (auto simp: sock_inv_def list_all_length)

lemma holding_stopped: "list_all stopped ps \<Longrightarrow> holding ps = length ps"
proof (induction ps)
  case (Cons p ps)
  then show ?case by (cases p) simp_all
qed simp

text \<open>
  The descriptors: all that \<open>socket\<close> answered, the sockets among them (it answers -1 when it makes none), those
  given to \<open>close\<close>, and the one in the variable of a thread.
\<close>

definition answered_fds :: "event list \<Rightarrow> int list" where
  "answered_fds es = map (\<lambda>(_, r). rv r) (call_answers ''socket'' es)"

definition made_fds :: "event list \<Rightarrow> int list" where
  "made_fds es = filter (\<lambda>fd. 0 \<le> fd) (answered_fds es)"

definition closed_fds :: "event list \<Rightarrow> int list" where
  "closed_fds es = filter (\<lambda>fd. 0 \<le> fd)
     (map (\<lambda>(as, _). case as of [I fd] \<Rightarrow> fd | _ \<Rightarrow> -1) (call_answers ''close'' es))"

fun point_fd :: "point \<Rightarrow> int list" where
  "point_fd P_socket = []"
| "point_fd (P_pton fd) = [fd]"
| "point_fd (P_connect fd _) = [fd]"
| "point_fd (P_ready fd) = [fd]"
| "point_fd (P_send fd) = [fd]"
| "point_fd (P_sent fd) = [fd]"
| "point_fd (P_close fd) = [fd]"
| "point_fd (P_failed fd _ _) = [fd]"
| "point_fd (P_stopped fd) = [fd]"

definition held_fds :: "point list \<Rightarrow> int list" where
  "held_fds ps = filter (\<lambda>fd. 0 \<le> fd) (concat (map point_fd ps))"

lemma fds_append [simp]:
  "answered_fds (es @ fs) = answered_fds es @ answered_fds fs" "made_fds (es @ fs) = made_fds es @ made_fds fs"
  "closed_fds (es @ fs) = closed_fds es @ closed_fds fs" "held_fds (ps @ qs) = held_fds ps @ held_fds qs"
  by (simp_all add: answered_fds_def made_fds_def closed_fds_def held_fds_def)

lemma fds_one [simp]:
  "answered_fds [Print t as] = []" "made_fds [Print t as] = []" "closed_fds [Print t as] = []"
  "answered_fds [Call f as r] = (if f = ''socket'' then [rv r] else [])"
  "made_fds [Call f as r] = (if f = ''socket'' \<and> 0 \<le> rv r then [rv r] else [])"
  "closed_fds [Call f [I fd] r] = (if f = ''close'' \<and> 0 \<le> fd then [fd] else [])"
  "f \<noteq> ''close'' \<Longrightarrow> closed_fds [Call f as r] = []"
  by (simp_all add: answered_fds_def made_fds_def closed_fds_def)

lemma client_step_fds:
  assumes "client_step k p m = (p', m')"
  shows "mset (made_fds (log m')) + mset (closed_fds (log m)) + mset (held_fds [p]) =
      mset (made_fds (log m)) + mset (closed_fds (log m')) + mset (held_fds [p'])"
    and "set (answered_fds (log m)) \<subseteq> set (answered_fds (log m'))"
    and "set (point_fd p') \<subseteq> set (answered_fds (log m')) \<union> set (point_fd p)"
proof -
  have "mset (made_fds (log m')) + mset (closed_fds (log m)) + mset (held_fds [p]) =
      mset (made_fds (log m)) + mset (closed_fds (log m')) + mset (held_fds [p']) \<and>
      set (answered_fds (log m)) \<subseteq> set (answered_fds (log m')) \<and>
      set (point_fd p') \<subseteq> set (answered_fds (log m')) \<union> set (point_fd p)"
    using assms by (cases p) (simp_all add: ask_def tell_def Let_def held_fds_def split: prod.splits if_splits, auto)
  then show "mset (made_fds (log m')) + mset (closed_fds (log m)) + mset (held_fds [p]) =
      mset (made_fds (log m)) + mset (closed_fds (log m')) + mset (held_fds [p'])"
    "set (answered_fds (log m)) \<subseteq> set (answered_fds (log m'))"
    "set (point_fd p') \<subseteq> set (answered_fds (log m')) \<union> set (point_fd p)"
    by simp_all
qed

lemma held_update:
  "i < length ps \<Longrightarrow> mset (held_fds (ps[i := p])) + mset (held_fds [ps ! i]) = mset (held_fds ps) + mset (held_fds [p])"
proof (induction ps arbitrary: i)
  case (Cons q ps)
  have c: "mset (held_fds (x # ys)) = mset (held_fds [x]) + mset (held_fds ys)" for x ys
    by (simp add: held_fds_def)
  show ?case
  proof (cases i)
    case 0
    then show ?thesis by (simp add: c [of p ps] c [of q ps] ac_simps)
  next
    case (Suc j)
    then have "mset (held_fds (ps[j := p])) + mset (held_fds [ps ! j]) = mset (held_fds ps) + mset (held_fds [p])"
      using Cons by simp
    then show ?thesis using Suc by (simp add: c [of q "ps[j := p]"] c [of q ps] add.assoc)
  qed
qed simp

lemma mset_balance:
  fixes A :: "'b multiset"
  assumes "A' + C + h = A + C' + h'" and "A = C + H" and "H' + h = H + h'"
  shows "A' = C' + H'"
proof (rule multiset_eqI)
  fix x
  have "count (A' + C + h) x = count (A + C' + h') x" "count A x = count (C + H) x"
      "count (H' + h) x = count (H + h') x"
    by (simp_all only: assms)
  then show "count A' x = count (C' + H') x" unfolding count_union by linarith
qed

definition fds_inv :: "'w sock_proc \<Rightarrow> bool" where
  "fds_inv s \<longleftrightarrow>
     mset (made_fds (log (machine s))) = mset (closed_fds (log (machine s))) + mset (held_fds (threads s)) \<and>
     (\<forall>p\<in>set (threads s). set (point_fd p) \<subseteq> set (answered_fds (log (machine s))))"

lemma fds_inv_step:
  assumes "sock_step k s s'" and inv: "fds_inv s"
  shows "fds_inv s'"
  using assms(1)
proof cases
  case (thread i p m)
  note st = client_step_fds [OF thread(5)]
  have old: "set (point_fd q) \<subseteq> set (answered_fds (log m))" if "q \<in> set (threads s)" for q
    using inv that st(2) by (auto simp: fds_inv_def)
  have "threads s ! i \<in> set (threads s)" using thread(3) by simp
  from old [OF this] have "set (point_fd p) \<subseteq> set (answered_fds (log m))" using st(3) by auto
  then have "set (point_fd q) \<subseteq> set (answered_fds (log m))" if "q \<in> set ((threads s)[i := p])" for q
    using that old set_update_subset_insert [of "threads s" i p] by blast
  moreover have "mset (made_fds (log m)) = mset (closed_fds (log m)) + mset (held_fds ((threads s)[i := p]))"
    using mset_balance [OF st(1) _ held_update [OF thread(3), of p]] inv by (simp add: fds_inv_def)
  ultimately show ?thesis
    unfolding thread(1) fds_inv_def by simp
qed (use inv in \<open>auto simp: fds_inv_def held_fds_def\<close>)

lemma fds_inv_reachable:
  assumes "sock_reachable k w s" shows "fds_inv s"
  using assms unfolding sock_reachable_def
proof (induction rule: rtranclp_induct)
  case base
  show ?case by (simp add: fds_inv_def sock_init_def start_def held_fds_def made_fds_def closed_fds_def answered_fds_def)
qed (rule fds_inv_step)

text \<open>When no \<open>socket\<close> call fails, every stopped thread holds a socket.\<close>

lemma stopped_hold:
  "list_all stopped ps \<Longrightarrow> \<forall>p\<in>set ps. \<forall>fd\<in>set (point_fd p). 0 \<le> fd \<Longrightarrow> length (held_fds ps) = length ps"
proof (induction ps)
  case (Cons p ps)
  then show ?case by (cases p) (simp_all add: held_fds_def)
qed (simp add: held_fds_def)

text \<open>
  C14: however the thirty threads of \<^verbatim>\<open>sock.cpp\<close> and its main thread interleave, and whatever the calls
  answer: the sockets that \<open>socket\<close> made and no \<open>close\<close> was given are exactly those in the variables of the
  threads, the stopped ones included. A run that returns from \<open>main\<close> has stopped all thirty threads and leaves
  the last socket of each of them open: thirty, when no \<open>socket\<close> call failed. Until it ends, a run can go on.
\<close>

theorem client_threads_leak:
  assumes "sock_reachable k w s"
  shows "let es = log (machine s); left_open = mset (made_fds es) - mset (closed_fds es) in
    mset (closed_fds es) \<subseteq># mset (made_fds es) \<and> left_open = mset (held_fds (threads s)) \<and>
    (case status s of
       None \<Rightarrow> \<exists>s'. sock_step k s s'
     | Some e \<Rightarrow> if e = Terminated then length (threads s) \<le> 30
         else e = Returned 1 \<and> length (threads s) = 30 \<and> list_all stopped (threads s) \<and>
           (if \<forall>fd\<in>set (answered_fds es). 0 \<le> fd then size left_open = 30 else size left_open \<le> 30))"
proof -
  have inv: "sock_inv s" using assms by (rule sock_inv_reachable)
  have fds: "fds_inv s" using assms by (rule fds_inv_reachable)
  have "length (held_fds (threads s)) \<le> length (threads s)" if "list_all stopped (threads s)"
  proof -
    have "length (held_fds ps) \<le> length ps" if "list_all stopped ps" for ps
      using that
    proof (induction ps)
      case (Cons p ps)
      then show ?case by (cases p) (simp_all add: held_fds_def)
    qed (simp add: held_fds_def)
    then show ?thesis using that .
  qed
  moreover have "length (held_fds (threads s)) = length (threads s)"
    if "list_all stopped (threads s)" "\<forall>fd\<in>set (answered_fds (log (machine s))). 0 \<le> fd"
    using that fds by (intro stopped_hold) (auto simp: fds_inv_def)
  moreover consider "status s = None" | "status s = Some Terminated" | "status s = Some (Returned 1)"
    using inv by (auto simp: sock_inv_def)
  ultimately show ?thesis
    using inv fds sock_goes_on [OF inv, of k] returned_threads [OF inv] unfolding Let_def
    by cases (auto simp: sock_inv_def fds_inv_def)
qed

section \<open>A server that refuses\<close>

text \<open>As long as no \<open>connect\<close> succeeds, every thread comes closer to its end.\<close>

fun rank :: "point \<Rightarrow> nat" where
  "rank P_socket = 4"
| "rank (P_pton _) = 3"
| "rank (P_connect _ _) = 2"
| "rank (P_failed _ _ _) = 1"
| "rank (P_stopped _) = 0"
| "rank _ = 0"

fun unconnected :: "point \<Rightarrow> bool" where
  "unconnected P_socket = True"
| "unconnected (P_pton _) = True"
| "unconnected (P_connect _ _) = True"
| "unconnected (P_failed _ _ _) = True"
| "unconnected (P_stopped _) = True"
| "unconnected _ = False"

definition refuses :: "'w host \<Rightarrow> bool" where
  "refuses k \<longleftrightarrow> (\<forall>as w. rv (fst (k ''connect'' as w)) = -1)"

definition sock_work :: "'w sock_proc \<Rightarrow> nat" where
  "sock_work s = (if status s = None
     then 1 + 5 * (30 - length (threads s)) + sum_list (map rank (threads s)) + (30 - joined s) else 0)"

lemma refused_step:
  assumes "refuses k" "client_step k p m = (p', m')" "unconnected p" "\<not> stopped p"
  shows "unconnected p'" and "rank p' < rank p"
    and "times ''close'' (log m') = times ''close'' (log m)"
proof -
  have "rv r = -1" if "k ''connect'' as w = (r, w')" for as w r w'
    using assms(1) that unfolding refuses_def by (metis fst_conv)
  then have "unconnected p' \<and> rank p' < rank p \<and> times ''close'' (log m') = times ''close'' (log m)"
    using assms(2-) by (cases p) (auto simp: ask_def tell_def Let_def split: prod.splits if_splits)
  then show "unconnected p'" "rank p' < rank p" "times ''close'' (log m') = times ''close'' (log m)" by simp_all
qed

lemma rank_update:
  "i < length ps \<Longrightarrow> rank p < rank (ps ! i) \<Longrightarrow> sum_list (map rank (ps[i := p])) < sum_list (map rank ps)"
proof (induction ps arbitrary: i)
  case (Cons q ps)
  then show ?case by (cases i) auto
qed simp

definition refused_inv :: "'w sock_proc \<Rightarrow> bool" where
  "refused_inv s \<longleftrightarrow> (\<forall>p\<in>set (threads s). unconnected p) \<and> times ''close'' (log (machine s)) = 0"

lemma refused_inv_step:
  assumes "refuses k" "sock_step k s s'" "refused_inv s"
  shows "refused_inv s' \<and> sock_work s' < sock_work s"
  using assms(2)
proof cases
  case (thread i p m)
  have "threads s ! i \<in> set (threads s)" using thread(3) by simp
  then have "unconnected (threads s ! i)" using assms(3) by (simp add: refused_inv_def)
  note * = refused_step [OF assms(1) thread(5) this thread(4)]
  have "unconnected q" if "q \<in> set ((threads s)[i := p])" for q
    using that *(1) assms(3) set_update_subset_insert [of "threads s" i p] by (auto simp: refused_inv_def)
  then show ?thesis
    using assms(3) thread(1,2) *(3) rank_update [OF thread(3) *(2)]
    by (simp add: refused_inv_def sock_work_def)
qed (use assms(3) in \<open>auto simp: refused_inv_def sock_work_def\<close>)

lemma refused_inv_reachable:
  assumes "refuses k" "sock_reachable k w s" shows "refused_inv s"
  using assms(2) unfolding sock_reachable_def
proof (induction rule: rtranclp_induct)
  case base
  show ?case by (simp add: refused_inv_def sock_init_def start_def)
qed (use assms(1) refused_inv_step in blast)

text \<open>Some run gets all thirty threads and returns.\<close>

lemma refused_run_returns:
  assumes "refuses k"
  shows "\<exists>s. sock_reachable k w s \<and> status s = Some (Returned 1)"
proof -
  have "\<exists>s'. sock_reachable k w s' \<and> status s' = Some (Returned 1)"
    if "sock_reachable k w s" "status s \<noteq> Some Terminated" for s
    using that
  proof (induction "sock_work s" arbitrary: s rule: less_induct)
    case less
    have inv: "sock_inv s" using less.prems(1) by (rule sock_inv_reachable)
    show ?case
    proof (cases "status s = None")
      case True
      then obtain s' where s': "sock_step k s s'" "status s' \<noteq> Some Terminated"
        using sock_goes_on [OF inv] by blast
      have "sock_work s' < sock_work s"
        using refused_inv_step [OF assms s'(1)] refused_inv_reachable [OF assms less.prems(1)] by simp
      moreover have "sock_reachable k w s'"
        using less.prems(1) s'(1) unfolding sock_reachable_def by (rule rtranclp.rtrancl_into_rtrancl)
      ultimately show ?thesis using less.hyps s'(2) by blast
    next
      case False
      then show ?thesis using inv less.prems by (auto simp: sock_inv_def)
    qed
  qed
  from this [of "sock_init w"] show ?thesis by (simp add: sock_reachable_def sock_init_def)
qed

text \<open>
  C15: when every \<open>connect\<close> is refused, the client program ends, in every interleaving: each step brings it
  closer to the end, some step is possible until then, and when it returns it has called \<open>socket\<close> thirty times
  and \<open>close\<close> never.
\<close>

theorem client_threads_refused:
  assumes "refuses k" "sock_reachable k w s"
  shows "(\<forall>s'. sock_step k s s' \<longrightarrow> sock_work s' < sock_work s) \<and>
    (case status s of
       None \<Rightarrow> \<exists>s'. sock_step k s s'
     | Some e \<Rightarrow> if e = Terminated then length (threads s) \<le> 30
         else times ''socket'' (log (machine s)) = 30 \<and> times ''close'' (log (machine s)) = 0)"
proof -
  have inv: "sock_inv s" using assms(2) by (rule sock_inv_reachable)
  have ref: "refused_inv s" using assms by (rule refused_inv_reachable)
  have made: "times ''socket'' (log (machine s)) = holding (threads s)" "times ''close'' (log (machine s)) = 0"
    using inv ref by (simp_all add: sock_inv_def refused_inv_def)
  have less: "sock_step k s s' \<Longrightarrow> sock_work s' < sock_work s" for s'
    using refused_inv_step [OF assms(1) _ ref] by blast
  consider "status s = None" | "status s = Some Terminated" | "status s = Some (Returned 1)"
    using inv by (auto simp: sock_inv_def)
  then show ?thesis
  proof cases
    case 1
    then show ?thesis using less sock_goes_on [OF inv, of k] by auto
  next
    case 2
    then show ?thesis using less inv by (simp add: sock_inv_def)
  next
    case 3
    then show ?thesis using less made using returned_threads [OF inv 3] by (simp add: holding_stopped)
  qed
qed

text \<open>A host on which nobody listens, and a run of the program on it.\<close>

definition nobody :: "unit host" where
  "nobody f as w = (\<lparr>rv = if f = ''connect'' then -1 else 3, eno = 111, out = [127, 0, 0, 1]\<rparr>, w)"

lemma refuses_nobody: "refuses nobody"
  by (simp add: refuses_def nobody_def)

theorem client_threads_leak_witness:
  "\<exists>s. sock_reachable nobody () s \<and> status s = Some (Returned 1) \<and>
     mset (made_fds (log (machine s))) - mset (closed_fds (log (machine s))) = mset (held_fds (threads s)) \<and>
     list_all stopped (threads s)"
proof -
  obtain s where "sock_reachable nobody () s" "status s = Some (Returned 1)"
    using refused_run_returns [OF refuses_nobody] by blast
  then show ?thesis using client_threads_leak [of nobody "()" s] by (auto simp: Let_def)
qed

theorem client_threads_refused_witness:
  "\<exists>s. sock_reachable nobody () s \<and>
     times ''socket'' (log (machine s)) = 30 \<and> times ''close'' (log (machine s)) = 0"
proof -
  obtain s where "sock_reachable nobody () s" "status s = Some (Returned 1)"
    using refused_run_returns [OF refuses_nobody] by blast
  then show ?thesis using client_threads_refused [OF refuses_nobody, of "()" s] by auto
qed

end
