(* ===== verification/CppObjects.thy ===== *)
theory CppObjects
  imports CppBase CEffects
begin

text \<open>
  The exercises on the life of objects: \<^verbatim>\<open>code/c++/template_cpp11_test.cc\<close> with its header (copies, moves
  and references of a class that writes a line in each special member), \<^verbatim>\<open>cpp/test.cpp\<close>, \<^verbatim>\<open>cpp/basic.cpp\<close>
  (a virtual call) and \<^verbatim>\<open>cpp/cpp.cpp\<close> (overloads on the value category).
\<close>

section \<open>CheckType\<close>

record CheckType =
  checksum :: int
  message :: string

text \<open>The objects by their addresses, and the lines written.\<close>

record objs =
  store :: "nat \<rightharpoonup> CheckType"
  lines :: "string list"

definition say :: "string \<Rightarrow> objs \<Rightarrow> objs" where
  "say l s = s\<lparr>lines := lines s @ [ln l]\<rparr>"

definition object :: "nat \<Rightarrow> objs \<Rightarrow> fault + CheckType" where
  "object a s = (case store s a of None \<Rightarrow> Inl BadPointer | Some x \<Rightarrow> Inr x)"

definition put_object :: "nat \<Rightarrow> CheckType \<Rightarrow> objs \<Rightarrow> objs" where
  "put_object a x s = s\<lparr>store := (store s)(a \<mapsto> x)\<rparr>"

text \<open>The members have initialisers in the class, which every constructor runs first.\<close>

definition CheckType_members :: CheckType where
  "CheckType_members = \<lparr>checksum = 1, message = ''check sum type''\<rparr>"

definition CheckType_new :: "nat \<Rightarrow> objs \<Rightarrow> objs" where
  "CheckType_new a s = say ''simple is called'' (put_object a CheckType_members s)"

definition CheckType_copy :: "nat \<Rightarrow> nat \<Rightarrow> objs \<Rightarrow> fault + objs" where
  "CheckType_copy a src s = bindE (object src s) (\<lambda>x.
     Inr (say ''duplicate is called'' (put_object a (CheckType_members\<lparr>checksum := checksum x, message := message x\<rparr>) s)))"

text \<open>What a string that was moved from holds is a parameter, since the language leaves it open.\<close>

definition CheckType_move :: "(string \<Rightarrow> string) \<Rightarrow> nat \<Rightarrow> nat \<Rightarrow> objs \<Rightarrow> fault + objs" where
  "CheckType_move left_over a src s = bindE (object src s) (\<lambda>x.
     Inr (say ''move is called'' (put_object src (x\<lparr>message := left_over (message x)\<rparr>)
       (put_object a (CheckType_members\<lparr>checksum := checksum x, message := message x\<rparr>) s))))"

definition CheckType_assign :: "nat \<Rightarrow> nat \<Rightarrow> objs \<Rightarrow> fault + objs" where
  "CheckType_assign a type s = bindE (object type s) (\<lambda>x. bindE (object a s) (\<lambda>y.
     Inr (say ''duplicate equal is called'' (put_object a (y\<lparr>checksum := checksum x, message := message x\<rparr>) s))))"

text \<open>Inside the function its parameter has a name, so the strings are copied here as well.\<close>

definition CheckType_move_assign :: "nat \<Rightarrow> nat \<Rightarrow> objs \<Rightarrow> fault + objs" where
  "CheckType_move_assign a type s = bindE (object type s) (\<lambda>x. bindE (object a s) (\<lambda>y.
     Inr (say ''move equal is called'' (put_object a (y\<lparr>checksum := checksum x, message := message x\<rparr>) s))))"

definition CheckType_delete :: "nat \<Rightarrow> objs \<Rightarrow> fault + objs" where
  "CheckType_delete a s = bindE (object a s) (\<lambda>_.
     Inr (say ''release is called'' (s\<lparr>store := (store s)(a := None)\<rparr>)))"

definition show_CheckType :: "CheckType \<Rightarrow> string" where
  "show_CheckType x = ''check sum is '' @ fmt_d (checksum x) @ '' message is '' @ message x"

section \<open>switch\_test\<close>

text \<open>
  \<open>Type\<close> is \<open>CheckType\<close>, which is not \<open>CheckType &&\<close>, so the test at the start fails. \<open>tmp\<close> is a reference: it
  names the object of \<open>arg0\<close>. Assigning from it, a name, chooses the operator for lvalues.
\<close>

definition switch_test :: "nat \<Rightarrow> nat \<Rightarrow> objs \<Rightarrow> fault + objs" where
  "switch_test arg0 arg1 s =
     (let tmp = arg0 in
      bindE (CheckType_move_assign arg0 arg1 s) (\<lambda>s.
      CheckType_assign arg1 tmp s))"

definition switch_run :: "nat \<Rightarrow> nat \<Rightarrow> objs \<Rightarrow> fault + objs" where
  "switch_run param_first param_second s =
     (let s = CheckType_new param_first s in
      bindE (object param_first s) (\<lambda>x.
      let s = put_object param_first (x\<lparr>checksum := 1, message := ''first''\<rparr>) s;
          s = CheckType_new param_second s in
      bindE (object param_second s) (\<lambda>y.
      let s = put_object param_second (y\<lparr>checksum := 2, message := ''second''\<rparr>) s in
      bindE (switch_test param_first param_second s) (\<lambda>s.
      bindE (object param_first s) (\<lambda>x. bindE (object param_second s) (\<lambda>y.
      let s = say (''first is '' @ show_CheckType x @ '', second is '' @ show_CheckType y) s in
      bindE (CheckType_delete param_second s) (\<lambda>s. CheckType_delete param_first s)))))))"

lemma assign_all [simp]: "u\<lparr>checksum := checksum v, message := message v\<rparr> = (v :: CheckType)"
  by simp

text \<open>
  the assignment from an rvalue copies both members and leaves its source as it was, unlike the constructor from
  one, which leaves in the source what a moved string holds; so \<open>switch_test\<close> does not switch: since \<open>tmp\<close> names
  the first object, both objects end as the second one, which is a switch only if they were equal.
\<close>

theorem switch_test_duplicates:
  assumes "store s a = Some x" and "store s b = Some y"
  shows "\<exists>s1 s'. CheckType_move_assign a b s = Inr s1 \<and> store s1 = (store s)(a \<mapsto> y) \<and>
    switch_test a b s = Inr s' \<and> store s' = (store s)(a \<mapsto> y, b \<mapsto> y) \<and>
    lines s' = lines s @ [ln ''move equal is called'', ln ''duplicate equal is called''] \<and>
    (store s' = (store s)(a \<mapsto> y, b \<mapsto> x) \<longleftrightarrow> x = y)"
proof -
  have "(store s)(a \<mapsto> y, b \<mapsto> y) = (store s)(a \<mapsto> y, b \<mapsto> x) \<longleftrightarrow> x = y"
    by (auto dest: fun_upd_eqD)
  then show ?thesis
    using assms
    by (cases "a = b") (simp_all add: switch_test_def CheckType_move_assign_def CheckType_assign_def object_def say_def put_object_def)
qed

lemma move_constructor_empties:
  assumes "store s b = Some y" and "a \<noteq> b"
  shows "\<exists>s'. CheckType_move left_over a b s = Inr s' \<and>
    store s' = (store s)(a \<mapsto> y, b \<mapsto> y\<lparr>message := left_over (message y)\<rparr>)"
  using assms by (simp add: CheckType_move_def object_def say_def put_object_def)

definition two_objs :: objs where
  "two_objs = \<lparr>store = [1 \<mapsto> \<lparr>checksum = 1, message = ''first''\<rparr>, 2 \<mapsto> \<lparr>checksum = 2, message = ''second''\<rparr>], lines = []\<rparr>"

theorem switch_test_duplicates_witness:
  "\<exists>s'. switch_test 1 2 two_objs = Inr s' \<and> store s' 1 = store s' 2 \<and> store s' 1 \<noteq> store two_objs 1"
  using switch_test_duplicates [of two_objs 1 "\<lparr>checksum = 1, message = ''first''\<rparr>" 2 "\<lparr>checksum = 2, message = ''second''\<rparr>"]
  by (auto simp: two_objs_def)

lemma switch_run_lines:
  "switch_run 1 2 \<lparr>store = Map.empty, lines = []\<rparr> = Inr \<lparr>store = Map.empty, lines =
     [ln ''simple is called'', ln ''simple is called'', ln ''move equal is called'', ln ''duplicate equal is called'',
      ln ''first is check sum is 2 message is second, second is check sum is 2 message is second'',
      ln ''release is called'', ln ''release is called'']\<rparr>"
proof -
  have d: "fmt_d 2 = ''2''" by code_simp
  show ?thesis
    by (simp add: switch_run_def switch_test_def CheckType_move_assign_def CheckType_assign_def CheckType_new_def
        CheckType_delete_def object_def say_def put_object_def CheckType_members_def show_CheckType_def Let_def d fun_eq_iff)
qed

section \<open>output\<close>

text \<open>
  \<open>output\<close> takes its arguments by value and hands all but the first on to the next call, by value again.
  An argument is a number, a truth value or an object of the class; the objects it copies live until the
  call it made them for has returned. \<open>output_body\<close> is what a call writes between the construction and
  the destruction of its parameters; the one with a single argument is the other overload.
\<close>

datatype out_arg = VInt int | VBool bool | VCheck CheckType

datatype out_line = Shown string | Constructed | Duplicated | Released

fun show_arg :: "out_arg \<Rightarrow> string" where
  "show_arg (VInt i) = fmt_d i"
| "show_arg (VBool b) = (if b then ''1'' else ''0'')"
| "show_arg (VCheck x) = show_CheckType x"

fun is_check :: "out_arg \<Rightarrow> bool" where
  "is_check (VCheck x) = True"
| "is_check v = False"

definition copies :: "out_arg list \<Rightarrow> out_line list" where
  "copies vs = replicate (length (filter is_check vs)) Duplicated"

definition releases :: "out_arg list \<Rightarrow> out_line list" where
  "releases vs = replicate (length (filter is_check vs)) Released"

fun output_body :: "out_arg list \<Rightarrow> out_line list" where
  "output_body [] = []"
| "output_body [v] = [Shown (show_arg v)]"
| "output_body (v # w # vs) =
     [Shown (show_arg v)] @ copies (w # vs) @ output_body (w # vs) @ releases (w # vs)"

text \<open>The call in \<open>output_test\<close>; the object in it is made in the place of the parameter.\<close>

definition output_test :: "out_line list" where
  "output_test =
     [Shown ''output test begin'', Constructed] @
     output_body [VInt 1, VBool False, VCheck CheckType_members] @
     releases [VInt 1, VBool False, VCheck CheckType_members] @ [Shown ''output test end'']"

fun out_text :: "out_line \<Rightarrow> string" where
  "out_text (Shown l) = ln l"
| "out_text Constructed = ln ''simple is called''"
| "out_text Duplicated = ln ''duplicate is called''"
| "out_text Released = ln ''release is called''"

text \<open>The object at position \<open>i\<close> of the arguments is copied \<open>i\<close> times.\<close>

definition total_copies :: "out_arg list \<Rightarrow> nat" where
  "total_copies vs = (\<Sum>i < length vs. if is_check (vs ! i) then i else 0)"

lemma total_copies_Nil: "total_copies [] = 0"
  by (simp add: total_copies_def)

lemma total_copies_Cons: "total_copies (v # vs) = total_copies vs + length (filter is_check vs)"
proof -
  have "length (filter is_check vs) = (\<Sum>i < length vs. if is_check (vs ! i) then 1 else 0)"
    by (induction vs rule: rev_induct) (simp_all add: nth_append)
  then show ?thesis
    by (simp add: total_copies_def sum.lessThan_Suc_shift if_distrib sum.distrib [symmetric] del: sum.lessThan_Suc cong: if_cong)
qed

lemma count_copies:
  "count_list (copies vs) Duplicated = length (filter is_check vs)" "count_list (copies vs) Released = 0"
  "count_list (releases vs) Released = length (filter is_check vs)" "count_list (releases vs) Duplicated = 0"
proof -
  have "count_list (replicate n l) l' = (if l = l' then n else 0)" for n and l l' :: out_line
    by (induction n) auto
  then show "count_list (copies vs) Duplicated = length (filter is_check vs)" "count_list (copies vs) Released = 0"
    "count_list (releases vs) Released = length (filter is_check vs)" "count_list (releases vs) Duplicated = 0"
    by (simp_all add: copies_def releases_def)
qed

lemma output_body_counts:
  "count_list (output_body vs) Duplicated = total_copies vs \<and>
   count_list (output_body vs) Released = total_copies vs"
  by (induction vs rule: output_body.induct)
    (simp_all add: count_copies total_copies_Cons total_copies_Nil)

lemma output_body_shown: "[l. Shown l \<leftarrow> output_body vs] = map show_arg vs"
  by (induction vs rule: output_body.induct) (simp_all add: copies_def releases_def concat_replicate_trivial)

text \<open>
  \<open>output\<close> writes each of its arguments once, in order, and copies the object at position \<open>i\<close> exactly
  \<open>i\<close> times; every copy is destroyed again.
\<close>

theorem output_copies_by_position:
  "[l. Shown l \<leftarrow> output_body vs] = map show_arg vs \<and>
   count_list (output_body vs) Duplicated = (\<Sum>i < length vs. if is_check (vs ! i) then i else 0) \<and>
   count_list (output_body vs) Released = count_list (output_body vs) Duplicated"
  using output_body_shown output_body_counts by (simp add: total_copies_def)

section \<open>The remaining exercises\<close>

text \<open>\<^verbatim>\<open>basic.cpp\<close>: the class of an object decides what a virtual call does, also one bound to \<open>this\<close>.\<close>

datatype basic_class = Base | Extends

fun extends_call :: "basic_class \<Rightarrow> string list" where
  "extends_call Base = [ln ''base call extends'']"
| "extends_call Extends = [ln ''extends call extends'']"

definition base_call :: "basic_class \<Rightarrow> string list" where
  "base_call c = extends_call c @ [ln ''base'']"

fun destroy_call :: "basic_class \<Rightarrow> string list" where
  "destroy_call Base = [ln ''base destory'']"
| "destroy_call Extends = [ln ''extends destory'', ln ''base destory'']"

definition basic_main :: "string list" where
  "basic_main = base_call Extends @ destroy_call Extends"

text \<open>\<^verbatim>\<open>cpp.cpp\<close>: which overload a call chooses.\<close>

datatype value_category = LValue | ConstLValue | RValue

fun call_overload :: "value_category \<Rightarrow> string" where
  "call_overload LValue = ln ''none left''"
| "call_overload ConstLValue = ln ''const''"
| "call_overload RValue = ln ''none right''"

definition overload_main :: "string list" where
  "overload_main = map call_overload [RValue, LValue, ConstLValue]"

text \<open>
  \<^verbatim>\<open>test.cpp\<close>: a temporary is copied, since the class has no move constructor, and the copy constructor leaves the number
  indeterminate; then the letters of a text are counted. The order of an unordered map is a parameter.
\<close>

record test_base =
  num_fld :: "int option"

definition test_base_new :: "int \<Rightarrow> test_base \<times> string" where
  "test_base_new index = (\<lparr>num_fld = Some index\<rparr>, ln ''base consruction'')"

definition test_base_copy :: "test_base \<Rightarrow> test_base \<times> string" where
  "test_base_copy b = (\<lparr>num_fld = None\<rparr>, ln ''base copy construction'')"

definition char_count :: "string \<Rightarrow> (char \<rightharpoonup> int) \<Rightarrow> fault + (char \<rightharpoonup> int)" where
  "char_count input = for_in input (\<lambda>c m.
     bindE (chk ((case m c of None \<Rightarrow> 0 | Some n \<Rightarrow> n) + 1)) (\<lambda>n. Inr (m(c \<mapsto> n))))"

definition test_main :: "((char \<rightharpoonup> int) \<Rightarrow> char list) \<Rightarrow> fault + string list" where
  "test_main order =
     (let (b, l1) = test_base_new 1; (c, l2) = test_base_copy b in
      bindE (char_count ''hello world'' Map.empty) (\<lambda>m.
      Inr ([l1, l2, ln ''base destroyed''] @
        map (\<lambda>k. ln (''key: '' @ [k] @ '', second: '' @ fmt_d (the (m k)))) (order m) @
        [ln ''base destroyed''])))"

text \<open>The counting: each letter of the text with the number of its occurrences, and no other letter.\<close>

lemma char_count_counts:
  "int (length s) \<le> INT_MAX \<Longrightarrow>
   char_count s Map.empty = Inr (\<lambda>c. if c \<in> set s then Some (int (count_list s c)) else None)"
proof (induction s rule: rev_induct)
  case Nil
  then show ?case by (simp add: char_count_def)
next
  case (snoc c s)
  have app: "char_count (s @ [c]) m = bindE (char_count s m) (char_count [c])" for m
    by (induction s arbitrary: m) (simp_all add: char_count_def bindE_assoc)
  have "count_list s c \<le> length s" by (rule count_le_length)
  then have "fits (int (count_list s c) + 1)" using snoc.prems by (simp add: fits_def INT_MIN_def)
  moreover have "c \<notin> set s \<Longrightarrow> count_list s c = 0" by simp
  moreover have "char_count [c] m = bindE (chk ((case m c of None \<Rightarrow> 0 | Some n \<Rightarrow> n) + 1)) (\<lambda>n. Inr (m(c \<mapsto> n)))" for m
    by (simp add: char_count_def bindE_def split: sum.splits)
  moreover have "char_count s Map.empty = Inr (\<lambda>c. if c \<in> set s then Some (int (count_list s c)) else None)"
    using snoc by simp
  ultimately show ?case
    by (auto simp: app fun_eq_iff)
qed

section \<open>Templates\<close>

text \<open>
  \<^verbatim>\<open>typ.cpp\<close>: the indices of the arguments of a delayed call are built by a recursion on their number, from
  the back, and the call reads the stored arguments at these indices.
\<close>

fun MakeSeq :: "nat \<Rightarrow> nat list \<Rightarrow> nat list" where
  "MakeSeq 0 Seq = Seq"
| "MakeSeq (Suc Num) Seq = MakeSeq Num (Num # Seq)"

definition invoke_func :: "('a list \<Rightarrow> 'b) \<Rightarrow> 'a list \<Rightarrow> 'b" where
  "invoke_func func args = func args"

definition invoke_helper :: "('a list \<Rightarrow> 'b) \<Rightarrow> nat list \<Rightarrow> 'a list \<Rightarrow> 'b" where
  "invoke_helper func Seq elems = invoke_func func (map (\<lambda>i. elems ! i) Seq)"

definition delay_call :: "('a list \<Rightarrow> 'b) \<Rightarrow> 'a list \<Rightarrow> 'b" where
  "delay_call func args = (let elems = args in invoke_helper func (MakeSeq (length args) []) elems)"

text \<open>The program calls \<open>test_print\<close> with an \<open>int\<close>, a text and a \<open>double\<close>, here as they are written.\<close>

definition test_print :: "string list \<Rightarrow> string" where
  "test_print args = ln (concat args)"

definition typ_main :: string where
  "typ_main = delay_call test_print [''1'', ''message'', ''1'']"

text \<open>A parameter pack as a chain of bases, written from its head on.\<close>

fun Params_text :: "string list \<Rightarrow> string" where
  "Params_text [] = []"
| "Params_text (head # args) = ln (''member contains '' @ head) @ Params_text args"

text \<open>\<^verbatim>\<open>func.cpp\<close> and \<^verbatim>\<open>main.cpp\<close>: each argument on a line, and all on one. Neither is called without an argument.\<close>

fun out_message :: "string list \<Rightarrow> string" where
  "out_message [] = []"
| "out_message [arg] = ln arg"
| "out_message (head # arg # args) = ln head @ out_message (arg # args)"

fun out_put :: "string \<Rightarrow> string list \<Rightarrow> string" where
  "out_put os [] = os"
| "out_put os [arg] = os @ arg"
| "out_put os (head # arg # args) = out_put (out_put os [head]) (arg # args)"

definition template_main :: string where
  "template_main = ln (out_put [] [''message'', '' '', ''1''])"

lemma MakeSeq_upt: "MakeSeq n js = [0..<n] @ js"
  by (induction n js rule: MakeSeq.induct) simp_all

text \<open>
  the delayed call is the call; the three ways to write a pack write its members in order.
\<close>

theorem delay_call_is_call:
  "delay_call func args = func args \<and> out_message args = concat (map ln args) \<and>
   out_put os args = os @ concat args \<and>
   Params_text args = concat (map (\<lambda>a. ln (''member contains '' @ a)) args)"
proof -
  have "map (\<lambda>i. args ! i) [0..<length args] = args" by (rule map_nth)
  moreover have "out_message args = concat (map ln args)" by (induction args rule: out_message.induct) simp_all
  moreover have "out_put os args = os @ concat args" by (induction os args rule: out_put.induct) simp_all
  moreover have "Params_text args = concat (map (\<lambda>a. ln (''member contains '' @ a)) args)"
    by (induction args) simp_all
  ultimately show ?thesis
    by (simp add: delay_call_def invoke_helper_def invoke_func_def MakeSeq_upt)
qed

end
