(* ===== verification/Containers.thy ===== *)
theory Containers
  imports CppBase CEffects
begin

text \<open>
  The container exercises of \<^verbatim>\<open>container_test.cc\<close>: sequences as lists, maps as lists of entries in the order
  of their keys, an iterator as a position, at most the length. Going behind the end is a fault; what was
  written before a fault is not kept. The text read from the input is an argument.
\<close>

section \<open>Sequences\<close>

definition at_pos :: "'a list \<Rightarrow> nat \<Rightarrow> fault + 'a" where
  "at_pos xs pos = (if pos < length xs then Inr (xs ! pos) else Inl OutOfBounds)"

definition next_pos :: "'a list \<Rightarrow> nat \<Rightarrow> fault + nat" where
  "next_pos xs pos = (if pos < length xs then Inr (Suc pos) else Inl OutOfBounds)"

definition erase_at :: "'a list \<Rightarrow> nat \<Rightarrow> fault + 'a list \<times> nat" where
  "erase_at xs pos = (if pos < length xs then Inr (take pos xs @ drop (Suc pos) xs, pos) else Inl OutOfBounds)"

text \<open>\<open>std::copy\<close> to three kinds of targets: a place in a sequence, its front, a place that moves along.\<close>

fun copy_to :: "'a list \<Rightarrow> 'a list \<Rightarrow> nat \<Rightarrow> fault + 'a list" where
  "copy_to [] ys pos = Inr ys"
| "copy_to (x # xs) ys pos = (if pos < length ys then copy_to xs (ys[pos := x]) (Suc pos) else Inl OutOfBounds)"

fun copy_front :: "'a list \<Rightarrow> 'a list \<Rightarrow> 'a list" where
  "copy_front [] ys = ys"
| "copy_front (x # xs) ys = copy_front xs (x # ys)"

fun copy_insert :: "'a list \<Rightarrow> 'a list \<Rightarrow> nat \<Rightarrow> 'a list" where
  "copy_insert [] ys pos = ys"
| "copy_insert (x # xs) ys pos = copy_insert xs (take pos ys @ x # drop pos ys) (Suc pos)"

definition spaced :: "int list \<Rightarrow> string" where
  "spaced xs = concat (map (\<lambda>i. fmt_d i @ '' '') xs)"

definition vector_size_test :: "fault + unit" where
  "vector_size_test = bindE (copy_to [1, 2, 3 :: int] [] 0) (\<lambda>_. Inr ())"

text \<open>The words read are kept in \<open>input_sl\<close>, but the vector written is \<open>second\<close> once more.\<close>

definition vector_inserter_test :: "string list \<Rightarrow> string" where
  "vector_inserter_test words =
     (let first = copy_front [4, 5, 6] [1, 2, 3];
          second = copy_insert first [4, 5, 6] 3;
          input_sl = words
      in ln (spaced first) @ ln (spaced second) @ ln (spaced second))"

definition square :: "int \<Rightarrow> fault + int" where
  "square v = chk (v * v)"

fun transform :: "('a \<Rightarrow> fault + 'b) \<Rightarrow> 'a list \<Rightarrow> fault + 'b list" where
  "transform f [] = Inr []"
| "transform f (x # xs) = bindE (f x) (\<lambda>y. bindE (transform f xs) (\<lambda>ys. Inr (y # ys)))"

definition vector_alfunc_test :: "fault + string" where
  "vector_alfunc_test =
     bindE (transform square [1, 2, 3, 3, 4]) (\<lambda>vec_int.
     Inr (ln (spaced vec_int) @ spaced (sort vec_int)))"

text \<open>\<open>std::remove\<close> moves what is kept to the front; what stands behind it is left unspecified (\<open>rest\<close>).\<close>

definition remove_alg :: "'a \<Rightarrow> 'a list \<Rightarrow> 'a list \<Rightarrow> 'a list \<times> nat" where
  "remove_alg v xs rest = (let kept = filter (\<lambda>x. x \<noteq> v) xs in (kept @ rest, length kept))"

definition vector_change_test :: "int list \<Rightarrow> fault + string \<times> int list" where
  "vector_change_test rest =
     (let (vec_int, pos) = remove_alg 3 [1, 2, 3, 3, 4] rest in
      bindE (at_pos vec_int pos) (\<lambda>v.
      Inr (ln (''remove value is '' @ fmt_d v) @ ln (''distance is '' @ fmt_d (int (length vec_int) - int pos)),
           take pos vec_int)))"

text \<open>The numbers read stop at the first word that is none (\<open>numbers\<close>). \<open>first\<close> is left without elements.\<close>

definition vector_init_test :: "int list \<Rightarrow> int list list" where
  "vector_init_test numbers =
     (let first = [1, 2, 3, 4];
          second = first;
          third = [1, 2, 3, 4];
          fourth = numbers;
          fifth = first;
          (fifth, first) = (first, [])
      in [first, second, third, fourth, fifth])"

text \<open>\<open>arr\<close> is not initialised: its elements are \<open>garbage\<close>.\<close>

definition array_init_test :: "int list \<Rightarrow> fault + string" where
  "array_init_test garbage =
     (let arr = garbage; l1 = ln (spaced arr); arr3 = [2, 3, 4, 5, 6]; (arr3, arr) = (arr, arr3) in
      bindE (at_pos arr3 (length arr3 - 1)) (\<lambda>v.
      Inr (l1 @ ln (''result is '' @ fmt_d v) @ ln (''tuple size is '' @ fmt_d 2))))"

definition iter_test :: "fault + string" where
  "iter_test =
     (let test = [1, 2, 3, 4]; pos = 0 in
      bindE (at_pos test pos) (\<lambda>a. bindE (at_pos test pos) (\<lambda>b.
      let pos2 = pos in
      bindE (next_pos test pos) (\<lambda>pos.
      bindE (at_pos test pos2) (\<lambda>c. Inr (ln (fmt_d a) @ ln (fmt_d b) @ ln (fmt_d c)))))))"

text \<open>A reverse iterator names the element before its base.\<close>

definition reverse_at :: "'a list \<Rightarrow> nat \<Rightarrow> fault + 'a" where
  "reverse_at xs base = (if base = 0 then Inl OutOfBounds else at_pos xs (base - 1))"

definition reverse_iter_test :: "fault + string" where
  "reverse_iter_test =
     (let vec = [1, 2, 3, 4]; pos = 2 in
      bindE (at_pos vec pos) (\<lambda>a. bindE (reverse_at vec pos) (\<lambda>b.
      Inr (ln (''normal '' @ fmt_d a) @ ln (''reverse '' @ fmt_d b)))))"

definition inserter_iter_test :: string where
  "inserter_iter_test = (let vec = [1, 2, 3, 4 :: int] @ [5] in ln (fmt_d (int (length vec))))"

definition stream_iter_test :: string where
  "stream_iter_test = ln (fmt_d 1) @ ln (fmt_d 2)"

text \<open>\<open>copy_front\<close> turns the order around, \<open>copy_insert\<close> keeps it, and only \<open>copy_to\<close> needs room.\<close>

lemma copy_front_rev: "copy_front xs ys = rev xs @ ys"
  by (induction xs ys rule: copy_front.induct) simp_all

lemma copy_insert_block: "pos \<le> length ys \<Longrightarrow> copy_insert xs ys pos = take pos ys @ xs @ drop pos ys"
  by (induction xs ys pos rule: copy_insert.induct) (auto simp: min_def)

lemma copy_to_room:
  "pos \<le> length ys \<Longrightarrow> copy_to xs ys pos =
     (if pos + length xs \<le> length ys then Inr (take pos ys @ xs @ drop (pos + length xs) ys) else Inl OutOfBounds)"
proof (induction xs ys pos rule: copy_to.induct)
  case (2 x xs ys pos)
  have "pos < length ys \<Longrightarrow> take (Suc pos) (ys[pos := x]) = take pos ys @ [x]"
    by (simp add: take_Suc_conv_app_nth)
  then show ?case using 2 by auto
qed simp

section \<open>Maps\<close>

text \<open>The three loops that delete the entries with value 2.\<close>

function erase_twice_loop :: "('k \<times> int) list \<Rightarrow> nat \<Rightarrow> fault + ('k \<times> int) list" where
  "erase_twice_loop es pos =
     (if pos = length es then Inr es else
      bindE (at_pos es pos) (\<lambda>e.
      bindE (if snd e = 2 then bindE (erase_at es pos) (\<lambda>(es, pos). erase_at es pos) else Inr (es, pos)) (\<lambda>(es, pos).
      bindE (next_pos es pos) (\<lambda>pos. erase_twice_loop es pos))))"
  by auto

termination
  by (relation "measure (\<lambda>(es, pos). length es - pos)")
    (auto simp: at_pos_def erase_at_def next_pos_def bindE_eq_Inr split: if_splits)

function erase_loop :: "('k \<times> int) list \<Rightarrow> nat \<Rightarrow> fault + ('k \<times> int) list" where
  "erase_loop es pos =
     (if pos = length es then Inr es else
      bindE (at_pos es pos) (\<lambda>e.
      if snd e = 2 then bindE (erase_at es pos) (\<lambda>(es, pos). erase_loop es pos)
      else bindE (next_pos es pos) (\<lambda>pos. erase_loop es pos)))"
  by auto

termination
  by (relation "measure (\<lambda>(es, pos). length es - pos)")
    (auto simp: at_pos_def erase_at_def next_pos_def split: if_splits)

text \<open>Before C++11 \<open>erase\<close> answers nothing: the iterator goes on first, and what it named is deleted. In the list
  the elements behind the deleted one move up, and so does the iterator that names one of them.\<close>

function erase_old_loop :: "('k \<times> int) list \<Rightarrow> nat \<Rightarrow> fault + ('k \<times> int) list" where
  "erase_old_loop es pos =
     (if pos = length es then Inr es else
      bindE (at_pos es pos) (\<lambda>e.
      if snd e = 2 then
        bindE (next_pos es pos) (\<lambda>nxt. bindE (erase_at es pos) (\<lambda>(es, _). erase_old_loop es (nxt - 1)))
      else bindE (next_pos es pos) (\<lambda>pos. erase_old_loop es pos)))"
  by auto

termination
  by (relation "measure (\<lambda>(es, pos). length es - pos)")
    (auto simp: at_pos_def erase_at_def next_pos_def split: if_splits)

declare erase_twice_loop.simps [simp del] erase_loop.simps [simp del] erase_old_loop.simps [simp del]

definition map_erase_test :: "fault + (string \<times> int) list" where
  "map_erase_test =
     bindE (erase_twice_loop [(''aaa'', 1), (''bbb'', 2)] 0) (\<lambda>m.
     bindE (erase_loop m 0) (\<lambda>m. erase_old_loop m 0))"

text \<open>Looking a key up inserts it with 0 when it is missing; \<open>at\<close> throws instead.\<close>

fun index_op :: "string \<Rightarrow> (string \<rightharpoonup> int) \<Rightarrow> int \<times> (string \<rightharpoonup> int)" where
  "index_op key m = (case m key of None \<Rightarrow> (0, m(key \<mapsto> 0)) | Some v \<Rightarrow> (v, m))"

definition at_op :: "string \<Rightarrow> (string \<rightharpoonup> int) \<Rightarrow> fault + int" where
  "at_op key m = (case m key of None \<Rightarrow> Inl (Thrown ''out_of_range'') | Some v \<Rightarrow> Inr v)"

definition map_insert_test :: string where
  "map_insert_test =
     (let tmp_map = [''aaa'' \<mapsto> 1 :: int];
          (v, tmp_map) = index_op ''aaa'' tmp_map;
          tmp_map = (tmp_map(''bbb'' \<mapsto> v))(''aaa'' := None);
          tmp_map = (if tmp_map ''ccc'' = None then tmp_map(''ccc'' \<mapsto> 2) else tmp_map)
      in if tmp_map ''ccc'' = None then ln ''not found'' else ln ''found'')"

definition map_at_test :: "fault + string" where
  "map_at_test =
     (let (v, map_tmp) = index_op ''aaa'' Map.empty; l1 = ln (''value is '' @ fmt_d v) in
      bindE (at_op ''aaa'' map_tmp) (\<lambda>v.
      let l2 = ln (''value at is '' @ fmt_d v) in
      bindE (at_op ''bbb'' map_tmp) (\<lambda>v. Inr (l1 @ l2))))"

text \<open>A static member counts the objects: one for the temporary, one for the entry that is assigned.\<close>

definition MapStruct_new :: "int \<Rightarrow> fault + int \<times> string" where
  "MapStruct_new map_index = bindE (chk (map_index + 1)) (\<lambda>n. Inr (n, ln (''map static index is '' @ fmt_d n)))"

definition map_static_test :: "int \<Rightarrow> fault + int \<times> string" where
  "map_static_test map_index =
     bindE (MapStruct_new map_index) (\<lambda>(n, l1). bindE (MapStruct_new n) (\<lambda>(n, l2). Inr (n, l1 @ l2)))"

section \<open>Function objects\<close>

definition FuncObj_call :: "int \<Rightarrow> fault + int \<times> string" where
  "FuncObj_call num = bindE (chk (num + 1)) (\<lambda>n. Inr (n, ln (''current num is '' @ fmt_d n)))"

text \<open>\<open>for_each\<close> with its own object, which it answers at the end.\<close>

fun for_each_obj :: "'a list \<Rightarrow> int \<Rightarrow> fault + int \<times> string" where
  "for_each_obj [] num = Inr (num, [])"
| "for_each_obj (x # xs) num =
     bindE (FuncObj_call num) (\<lambda>(num, l). bindE (for_each_obj xs num) (\<lambda>(num, ls). Inr (num, l @ ls)))"

text \<open>The second call works on a copy of \<open>obj\<close>, the third on \<open>obj\<close> itself.\<close>

definition func_obj_test :: "fault + string" where
  "func_obj_test =
     (let vec = [1, 2, 3, 4 :: int]; obj = 0 in
      bindE (for_each_obj vec 0) (\<lambda>(_, l1).
      bindE (for_each_obj vec obj) (\<lambda>(_, l2).
      let e1 = ln (''end is '' @ fmt_d obj) in
      bindE (for_each_obj vec obj) (\<lambda>(obj, l3).
      let tmp = obj in
      Inr (l1 @ l2 @ e1 @ l3 @ ln (''ref end is '' @ fmt_d obj) @ ln (''tmp end is '' @ fmt_d tmp))))))"

text \<open>What \<open>tie_test\<close> leaves in its string stream, and what it writes to the standard output.\<close>

definition tie_test :: "string \<times> string" where
  "tie_test = (''message'', ''mem'')"

text \<open>A counting object has seen every element, and the object that is passed by value has seen none.\<close>

lemma for_each_obj_counts:
  "fits num \<Longrightarrow> fits (num + int (length xs)) \<Longrightarrow>
     \<exists>ls. for_each_obj xs num = Inr (num + int (length xs), ls)"
proof (induction xs arbitrary: num)
  case (Cons x xs)
  then have "fits (num + 1)" by (simp add: fits_def)
  then obtain ls where "for_each_obj xs (num + 1) = Inr (num + 1 + int (length xs), ls)"
    using Cons.IH [of "num + 1"] Cons.prems(2) by (auto simp: add.assoc)
  then show ?case using \<open>fits (num + 1)\<close> by (simp add: FuncObj_call_def add.commute add.left_commute)
qed simp

section \<open>What the loops over a map do\<close>

text \<open>The two loops that are right delete exactly the entries with value 2.\<close>

lemma keep_step: "pos < length es \<Longrightarrow> take (Suc pos) es @ ys = take pos es @ es ! pos # ys"
  by (simp add: take_Suc_conv_app_nth)

theorem erase_loop_filters:
  "pos \<le> length es \<Longrightarrow>
     erase_loop es pos = Inr (take pos es @ filter (\<lambda>e. snd e \<noteq> 2) (drop pos es))"
proof (induction es pos rule: erase_loop.induct)
  case (1 es pos)
  show ?case
  proof (cases "pos = length es")
    case False
    with "1.prems" have *: "pos < length es" "at_pos es pos = Inr (es ! pos)" by (simp_all add: at_pos_def)
    have **: "drop pos es = es ! pos # drop (Suc pos) es" using *(1) by (simp add: Cons_nth_drop_Suc)
    show ?thesis
    proof (cases "snd (es ! pos) = 2")
      case True
      then show ?thesis using 1(1) [OF False *(2) True] * **
        by (subst erase_loop.simps) (simp add: False erase_at_def)
    next
      case keep: False
      then show ?thesis using 1(2) [OF False *(2) keep] * **
        by (subst erase_loop.simps) (simp add: False next_pos_def keep_step)
    qed
  qed (simp add: erase_loop.simps)
qed

theorem erase_old_loop_filters:
  "pos \<le> length es \<Longrightarrow>
     erase_old_loop es pos = Inr (take pos es @ filter (\<lambda>e. snd e \<noteq> 2) (drop pos es))"
proof (induction es pos rule: erase_old_loop.induct)
  case (1 es pos)
  show ?case
  proof (cases "pos = length es")
    case False
    with "1.prems" have *: "pos < length es" "at_pos es pos = Inr (es ! pos)" by (simp_all add: at_pos_def)
    have **: "drop pos es = es ! pos # drop (Suc pos) es" using *(1) by (simp add: Cons_nth_drop_Suc)
    show ?thesis
    proof (cases "snd (es ! pos) = 2")
      case True
      let ?es = "take pos es @ drop (Suc pos) es"
      have "erase_old_loop ?es pos = Inr (take pos es @ filter (\<lambda>e. snd e \<noteq> 2) (drop (Suc pos) es))"
        using 1(1) [OF False *(2) True, of "Suc pos" "(?es, pos)" ?es pos] *
        by (simp add: erase_at_def next_pos_def)
      then show ?thesis using * ** True
        by (subst erase_old_loop.simps) (simp add: False erase_at_def next_pos_def)
    next
      case keep: False
      then show ?thesis using 1(2) [OF False *(2) keep] * **
        by (subst erase_old_loop.simps) (simp add: False next_pos_def keep_step)
    qed
  qed (simp add: erase_old_loop.simps)
qed

corollary erase_loops_agree: "erase_loop es 0 = erase_old_loop es 0"
  by (simp add: erase_loop_filters erase_old_loop_filters)

text \<open>The first loop goes behind the end when the last entry is the first to have the value 2.\<close>

theorem erase_twice_loop_faults:
  assumes "\<forall>e\<in>set es. snd e \<noteq> 2"
  shows "pos \<le> length es \<Longrightarrow> erase_twice_loop (es @ [(k, 2)]) pos = Inl OutOfBounds"
proof (induction "length es - pos" arbitrary: pos)
  case 0
  then have "pos = length es" by simp
  then show ?case by (subst erase_twice_loop.simps) (simp add: at_pos_def erase_at_def)
next
  case (Suc d)
  then have "pos < length es" "snd (es ! pos) \<noteq> 2" using assms by auto
  moreover have "erase_twice_loop (es @ [(k, 2)]) (Suc pos) = Inl OutOfBounds" using Suc by simp
  ultimately show ?case
    by (subst erase_twice_loop.simps) (simp add: at_pos_def next_pos_def nth_append)
qed

corollary map_erase_test_faults: "map_erase_test = Inl OutOfBounds"
  using erase_twice_loop_faults [of "[(''aaa'', 1)]" 0 "''bbb''"] by (simp add: map_erase_test_def)

text \<open>A key that is looked up exists afterwards, so the first \<open>at\<close> succeeds and the second throws.\<close>

lemma at_after_index: "at_op key (snd (index_op key m)) = Inr (fst (index_op key m))"
  by (simp add: at_op_def split: option.splits)

lemma map_at_test_throws: "map_at_test = Inl (Thrown ''out_of_range'')"
  by (simp add: map_at_test_def at_op_def)

lemma vector_size_test_faults: "vector_size_test = Inl OutOfBounds"
  by (simp add: vector_size_test_def)

lemma map_insert_test_found: "map_insert_test = ln ''found''"
  by (simp add: map_insert_test_def)

text \<open>The last line of \<open>vector_inserter_test\<close> does not depend on the words that were read.\<close>

lemma vector_inserter_test_ignores: "vector_inserter_test words = vector_inserter_test words'"
  by (simp add: vector_inserter_test_def)

end
