(* ===== verification/CppFeatures.thy ===== *)
theory CppFeatures
  imports CppBase CEffects
begin

text \<open>
  The programs that show one feature of C++ each: \<^verbatim>\<open>ptr.cc\<close> (callbacks in a queue, contexts),
  \<^verbatim>\<open>smart_ptr.cpp\<close> (holders_counted references), \<^verbatim>\<open>jjallocator.h\<close>, \<^verbatim>\<open>function.cc\<close>, \<^verbatim>\<open>cpp11.cc\<close>,
  \<^verbatim>\<open>tuple_test.cc\<close>, \<^verbatim>\<open>cpp11.cpp\<close>, \<^verbatim>\<open>cpp17.cpp\<close>, \<^verbatim>\<open>cpp20.cpp\<close>, and \<^verbatim>\<open>main.cc\<close> and
  \<^verbatim>\<open>boolean_test.cc\<close> of the notes on the library. A program is what it writes, and the fault that ends it.
\<close>

section \<open>Callbacks\<close>

text \<open>A \<open>std::function\<close> is empty or a function; calling it writes a text.\<close>

type_synonym callback = "string option"

record Test =
  cb_fld :: callback

definition Test_new :: "callback \<Rightarrow> Test" where
  "Test_new cb = \<lparr>cb_fld = cb\<rparr>"

definition Test_add :: "callback \<Rightarrow> Test \<Rightarrow> Test" where
  "Test_add cb t = t\<lparr>cb_fld := cb\<rparr>"

definition Test_log :: "Test \<Rightarrow> string" where
  "Test_log t = (case cb_fld t of None \<Rightarrow> [] | Some s \<Rightarrow> s)"

definition TestMgr_log :: "Test \<Rightarrow> string" where
  "TestMgr_log arg = Test_log arg"

definition test_arg :: "Test \<Rightarrow> string" where
  "test_arg arg = Test_log arg"

text \<open>
  \<open>swapcontext\<close> saves the context of the caller and goes to the one its second argument points to,
  which \<open>run\<close> gives as the null pointer. What is written before stays written.
\<close>

definition swapcontext :: "ptr \<Rightarrow> ptr \<Rightarrow> fault option" where
  "swapcontext oucp ucp = (if oucp = NULL \<or> ucp = NULL then Some NullDeref else None)"

fun VectorTest_run :: "ptr \<Rightarrow> Test list \<Rightarrow> string \<times> fault option \<times> Test list" where
  "VectorTest_run context [] = ([], None, [])"
| "VectorTest_run context (it # que) =
     (case swapcontext context NULL of
        Some e \<Rightarrow> (Test_log it, Some e, que)
      | None \<Rightarrow> (let (text, e, que') = VectorTest_run context que in (Test_log it @ text, e, que')))"

definition VectorTest_push :: "callback \<Rightarrow> Test list \<Rightarrow> Test list" where
  "VectorTest_push cb que = que @ [Test_new cb]"

definition test :: callback where
  "test = Some (ln ''test'')"

definition ptr_main :: "ptr \<Rightarrow> string \<times> fault option \<times> Test list" where
  "ptr_main context =
     (let que = fold (\<lambda>_. VectorTest_push test) [0..<10] []
      in VectorTest_run context que)"

text \<open>Only the first callback of a queue is ever called.\<close>

lemma run_stops_at_first: "VectorTest_run context (it # que) = (Test_log it, Some NullDeref, que)"
  by (simp add: swapcontext_def)

lemma pushes: "fold (\<lambda>_. VectorTest_push cb) xs que = que @ replicate (length xs) (Test_new cb)"
  by (induction xs arbitrary: que) (simp_all add: VectorTest_push_def)

theorem ptr_main_one_of_ten:
  "ptr_main context = (ln ''test'', Some NullDeref, replicate 9 (Test_new test))"
proof -
  have "replicate 10 (Test_new test) = Test_new test # replicate 9 (Test_new test)"
    by (simp add: numeral_eq_Suc)
  then have "ptr_main context = VectorTest_run context (Test_new test # replicate 9 (Test_new test))"
    unfolding ptr_main_def Let_def pushes by simp
  then show ?thesis by (simp only: run_stops_at_first) (simp add: Test_log_def Test_new_def test_def)
qed

section \<open>Counted references\<close>

text \<open>Objects, and the count of the pointers to each; 0 is the empty pointer.\<close>

record sp_heap =
  objs :: "ptr \<rightharpoonup> int"
  refs :: "ptr \<Rightarrow> nat"

definition sp_new :: "ptr \<Rightarrow> int \<Rightarrow> sp_heap \<Rightarrow> sp_heap" where
  "sp_new a v h = h\<lparr>objs := (objs h)(a \<mapsto> v), refs := (refs h)(a := 1)\<rparr>"

definition sp_copy :: "ptr \<Rightarrow> sp_heap \<Rightarrow> sp_heap" where
  "sp_copy a h = (if a = NULL then h else h\<lparr>refs := (refs h)(a := refs h a + 1)\<rparr>)"

definition sp_drop :: "ptr \<Rightarrow> sp_heap \<Rightarrow> sp_heap" where
  "sp_drop a h =
     (if a = NULL then h
      else if refs h a = 1 then h\<lparr>objs := (objs h)(a := None), refs := (refs h)(a := 0)\<rparr>
      else h\<lparr>refs := (refs h)(a := refs h a - 1)\<rparr>)"

text \<open>An assignment copies the new pointer before it drops the old one.\<close>

definition sp_assign :: "ptr \<Rightarrow> ptr \<Rightarrow> sp_heap \<Rightarrow> ptr \<times> sp_heap" where
  "sp_assign old new h = (new, sp_drop old (sp_copy new h))"

definition use_count :: "ptr \<Rightarrow> sp_heap \<Rightarrow> nat" where
  "use_count a h = (if a = NULL then 0 else refs h a)"

text \<open>\<open>a\<close> is the address that \<open>new\<close> answers.\<close>

definition release_ptr :: "ptr \<Rightarrow> ptr \<times> sp_heap \<Rightarrow> ptr \<times> sp_heap" where
  "release_ptr a = (\<lambda>(global_num, h).
     (let inner_num = a;
          h = sp_new inner_num 10 h;
          (global_num, h) = sp_assign global_num inner_num h
      in (global_num, sp_drop inner_num h)))"

text \<open>The thread has ended before \<open>main\<close> goes on. A pointer is written as its address, not as what it points to.\<close>

definition smart_ptr_main :: "(ptr \<Rightarrow> string) \<Rightarrow> ptr \<Rightarrow> string" where
  "smart_ptr_main show_ptr a =
     (let (global_num, h) = release_ptr a (NULL, \<lparr>objs = Map.empty, refs = \<lambda>_. 0\<rparr>)
      in ln (''use count is '' @ fmt_d (int (use_count global_num h))) @ ln (''num is '' @ show_ptr global_num))"

text \<open>
  Counts are right for a set of holders when every object is held as often as its count says, and exactly
  the objects that are held exist.
\<close>

definition holders_counted :: "ptr list \<Rightarrow> sp_heap \<Rightarrow> bool" where
  "holders_counted ps h \<longleftrightarrow> (\<forall>a. a \<noteq> NULL \<longrightarrow> refs h a = count_list ps a \<and> (objs h a \<noteq> None \<longleftrightarrow> a \<in> set ps))"

lemma counted_fresh: "holders_counted ps h \<Longrightarrow> a \<noteq> NULL \<Longrightarrow> objs h a = None \<Longrightarrow> a \<notin> set ps"
  unfolding holders_counted_def by metis

lemma counted_new:
  "holders_counted ps h \<Longrightarrow> a \<noteq> NULL \<Longrightarrow> objs h a = None \<Longrightarrow> holders_counted (a # ps) (sp_new a v h)"
  using counted_fresh [of ps h a] by (auto simp: holders_counted_def sp_new_def count_list_0_iff)

lemma counted_copy: "holders_counted ps h \<Longrightarrow> a \<in> set ps \<Longrightarrow> holders_counted (a # ps) (sp_copy a h)"
  by (auto simp: holders_counted_def sp_copy_def)

lemma counted_drop:
  assumes "holders_counted (a # ps) h" shows "holders_counted ps (sp_drop a h)"
proof -
  have "count_list ps a = 0 \<longleftrightarrow> a \<notin> set ps" by (rule count_list_0_iff)
  then show ?thesis using assms by (auto simp: holders_counted_def sp_drop_def split: if_splits)
qed

lemma drop_keeps: "refs h a \<noteq> 1 \<Longrightarrow> objs (sp_drop a h) a = objs h a"
  by (simp add: sp_drop_def)

text \<open>\<open>release_ptr\<close> moves the global pointer to a new object that nothing else holds, and leaks nothing.\<close>

theorem release_ptr_counted:
  assumes "holders_counted (g # ps) h" and "a \<noteq> NULL" "objs h a = None"
  shows "\<exists>h'. release_ptr a (g, h) = (a, h') \<and> holders_counted (a # ps) h' \<and> use_count a h' = 1 \<and> objs h' a = Some 10"
proof -
  let ?h1 = "sp_new a 10 h"
  let ?h3 = "sp_drop g (sp_copy a ?h1)"
  have fresh: "a \<notin> set (g # ps)" using assms by (rule counted_fresh)
  have "holders_counted (g # a # a # ps) (sp_copy a ?h1)"
    using counted_copy [OF counted_new [OF assms], of a 10] by (auto simp: holders_counted_def)
  then have 3: "holders_counted (a # a # ps) ?h3" by (rule counted_drop)
  then have 4: "holders_counted (a # ps) (sp_drop a ?h3)" by (rule counted_drop)
  have "refs ?h3 a = 2" using 3 assms(2) fresh by (simp add: holders_counted_def count_list_0_iff)
  then have "objs (sp_drop a ?h3) a = objs ?h3 a" by (intro drop_keeps) linarith
  moreover have "objs ?h3 a = Some 10"
    using fresh assms(2) by (simp add: sp_drop_def sp_copy_def sp_new_def)
  moreover have "use_count a (sp_drop a ?h3) = 1"
    using 4 assms(2) fresh by (simp add: use_count_def holders_counted_def count_list_0_iff)
  ultimately show ?thesis using 4 by (simp add: release_ptr_def sp_assign_def)
qed

lemma smart_ptr_main_one:
  "a \<noteq> NULL \<Longrightarrow> smart_ptr_main show_ptr a = ln ''use count is 1'' @ ln (''num is '' @ show_ptr a)"
proof -
  assume a: "a \<noteq> NULL"
  have "holders_counted [NULL] \<lparr>objs = Map.empty, refs = \<lambda>_. 0\<rparr>" by (simp add: holders_counted_def)
  from release_ptr_counted [OF this a] obtain h' where
    "release_ptr a (NULL, \<lparr>objs = Map.empty, refs = \<lambda>_. 0\<rparr>) = (a, h')" "use_count a h' = 1" by auto
  moreover have "fmt_d 1 = ''1''" by code_simp
  ultimately show ?thesis by (simp add: smart_ptr_main_def)
qed

section \<open>The allocator\<close>

text \<open>
  \<open>size * sizeof(T)\<close> is a product of a \<open>ptrdiff_t\<close> and a \<open>size_t\<close>: 64 bits, without a sign, that
  wrap around. \<open>op_new\<close> is the allocation function; \<open>None\<close> is its exception.
\<close>

definition allocator_fn :: "(u64 \<Rightarrow> ptr option) \<Rightarrow> u64 \<Rightarrow> u64 \<Rightarrow> fault + ptr" where
  "allocator_fn op_new sz size_T =
     (case op_new (sz * size_T) of
        None \<Rightarrow> Inl (Thrown ''bad_alloc'')
      | Some tmp \<Rightarrow> if tmp = NULL then Inl AssertFailed else Inr tmp)"

definition allocate :: "(u64 \<Rightarrow> ptr option) \<Rightarrow> u64 \<Rightarrow> u64 \<Rightarrow> fault + ptr" where
  "allocate op_new n size_T = allocator_fn op_new n size_T"

definition max_size :: "u64 \<Rightarrow> u64" where
  "max_size size_T = 4294967295 div size_T"

text \<open>Up to \<open>max_size\<close> objects the bytes asked for are enough; beyond it they may wrap around to none.\<close>

theorem allocate_up_to_max_size:
  assumes "n \<le> max_size size_T" and "op_new (n * size_T) = Some p" "p \<noteq> NULL"
  shows "allocate op_new n size_T = Inr p \<and> unat (n * size_T) = unat n * unat size_T"
proof -
  have "unat n \<le> 4294967295 div unat size_T"
    using assms(1) by (simp add: max_size_def word_le_nat_alt unat_div)
  then have "unat n * unat size_T \<le> (4294967295 div unat size_T) * unat size_T" by (rule mult_le_mono1)
  also have "\<dots> \<le> 4294967295" by (rule div_times_less_eq_dividend)
  finally have "unat n * unat size_T < 2 ^ LENGTH(64)" by simp
  then have "unat (n * size_T) = unat n * unat size_T" by (rule iffD1 [OF unat_mult_lem])
  then show ?thesis using assms(2,3) by (simp add: allocate_def allocator_fn_def)
qed

lemma allocate_wraps: "allocate op_new (2 ^ 61) 8 = allocate op_new 0 8"
proof -
  have "(2 ^ 61 * 8 :: u64) = 0" by simp
  then show ?thesis unfolding allocate_def allocator_fn_def by (simp only: mult_zero_left)
qed

section \<open>Functions and function objects\<close>

definition func :: "string \<Rightarrow> string \<times> int" where
  "func msg = (ln msg, 1)"

definition func_int :: "int \<Rightarrow> int" where
  "func_int index = 1"

definition Func_call :: "string \<Rightarrow> string" where
  "Func_call msg = ln ''operator()''"

text \<open>The conversion of a \<open>Func\<close> to a string, which writes a line itself.\<close>

definition Func_string :: "string \<times> string" where
  "Func_string = (ln ''convert func is called'', ''message'')"

definition func_test :: string where
  "func_test =
     (let l0 = ln ''func_test'';
          (l1, _) = func ''message'';
          (l2, converted) = Func_string;
          l3 = Func_call converted;
          caller = func;
          (l4, _) = caller ''caller'';
          bind_caller = (\<lambda>_. func ''member'');
          (l5, _) = bind_caller ''member'';
          bind_caller_2 = (\<lambda>_. func_int 1)
      in l0 @ l1 @ l2 @ l3 @ l4 @ l5)"

text \<open>The constructor with one argument delegates to the one with three.\<close>

record Function =
  argument_int :: int
  argument_bool :: bool
  argument_string :: string

definition Function_new3 :: "int \<Rightarrow> bool \<Rightarrow> string \<Rightarrow> Function" where
  "Function_new3 arg0 arg1 arg2 = \<lparr>argument_int = arg0, argument_bool = arg1, argument_string = arg2\<rparr>"

definition Function_new :: "int \<Rightarrow> Function" where
  "Function_new arg0 = Function_new3 arg0 False []"

section \<open>Tuples and durations\<close>

text \<open>\<open>pair_ref\<close> refers to \<open>i\<close>, \<open>tuple_tie\<close> holds a copy of it; \<open>tie\<close> writes to the variables.\<close>

definition tuple_elemt :: "fault + string" where
  "tuple_elemt =
     (let l1 = ln (''tuple test size is '' @ fmt_d 2); i = 0 in
      bindE (chk (i + 1)) (\<lambda>i.
      let l2 = ln (''pair ref value is '' @ fmt_d i);
          tuple_tie = (1, ''message'', i);
          (i, tuple_message, _) = tuple_tie in
      bindE (chk (i + 1)) (\<lambda>i.
      let tuple_message = ''change message'' in
      Inr (l1 @ l2 @ ln (''tuple tie is '' @ fmt_d (fst tuple_tie) @ '' '' @ fst (snd tuple_tie))))))"

text \<open>\<open>const_type::type\<close> is the template itself, which is no integer type; \<open>b\<close> is a reference to \<open>a\<close>.\<close>

definition type_test :: "fault + string" where
  "type_test =
     (let l1 = ln (''true type is bool type '' @ fmt_d (of_bool False)); a = 0 in
      bindE (chk (a + 1)) (\<lambda>a. Inr (l1 @ ln (''add const value is '' @ fmt_d a))))"

text \<open>A duration is a count of a fraction of a second; \<open>dif\<close> is what the clock has gone on, in nanoseconds.\<close>

definition same_duration :: "int \<times> int \<Rightarrow> int \<times> int \<Rightarrow> bool" where
  "same_duration = (\<lambda>(c, per_sec) (d, per_sec'). c * per_sec' = d * per_sec)"

definition chrono_test :: "int \<Rightarrow> string" where
  "chrono_test dif =
     (if same_duration (1000, 1000) (1, 1) then ln ''the same'' else ln ''diff'') @
     ln (''time pass '' @ fmt_d (if dif < 0 then - (- dif div 1000000000) else dif div 1000000000))"

definition tuple_main :: "int \<Rightarrow> fault + string" where
  "tuple_main dif =
     bindE tuple_elemt (\<lambda>l1. bindE type_test (\<lambda>l2. Inr (l1 @ l2 @ chrono_test dif)))"

section \<open>Destructors and tokens\<close>

text \<open>
  Deleting an object through a pointer to a base of which it is not, when the destructor of that base is
  not virtual, is undefined; the classes derived here are those of \<^verbatim>\<open>cpp11.cpp\<close>.
\<close>

datatype cls = C_Base | C_Basic | C_Father

fun bases :: "cls \<Rightarrow> cls list" where
  "bases C_Father = [C_Base, C_Basic]"
| "bases _ = []"

fun own_destructor :: "cls \<Rightarrow> string" where
  "own_destructor C_Base = ln ''Base destroy is called''"
| "own_destructor C_Basic = ln ''Basic destroy is called''"
| "own_destructor C_Father = ln ''father destroy is called''"

text \<open>The destructor of the class, then those of its bases from the last to the first.\<close>

definition destroy :: "cls \<Rightarrow> string" where
  "destroy c = concat (map own_destructor (c # rev (bases c)))"

definition delete_through :: "cls \<Rightarrow> cls \<Rightarrow> fault + string" where
  "delete_through static dynamic = (if static = dynamic then Inr (destroy dynamic) else Inl BadPointer)"

definition cpp11_main :: "fault + string" where
  "cpp11_main = delete_through C_Basic C_Father"

text \<open>The matches of a blank, and for each the submatch 2, which the pattern does not have and is empty.\<close>

fun blank_tokens :: "string \<Rightarrow> string list" where
  "blank_tokens [] = []"
| "blank_tokens (c # cs) = (if c = CHR '' '' then [[c], []] else []) @ blank_tokens cs"

definition test_regex :: string where
  "test_regex = concat (map ln (blank_tokens ''hello world end''))"

text \<open>
  \<open>future.get()\<close> returns once a value was set, and \<open>wait\<close> with a condition once it holds; a function that
  waits for what nobody will do does not return (\<open>None\<close>).
\<close>

definition future_get :: "int option \<Rightarrow> int option" where
  "future_get promised = promised"

definition test_promiss :: "int option \<Rightarrow> int option" where
  "test_promiss promise = Some 6"

definition test_thread :: "int option" where
  "test_thread = (let promise = None in Option.bind (future_get promise) (\<lambda>result. Some 8))"

definition test_condition_variant :: "unit option" where
  "test_condition_variant = (let check = False in if check then Some () else None)"

section \<open>Folds and references\<close>

text \<open>
  \<open>(... << args)\<close> on \<open>int\<close> arguments shifts them: the fold starts with the first argument, and not with
  the stream. A shift is undefined when the left side is negative, the distance is out of range, or the
  result does not fit.
\<close>

definition shl :: "int \<Rightarrow> int \<Rightarrow> fault + int" where
  "shl a b = (if 0 \<le> a \<and> 0 \<le> b \<and> b < 32 then chk (a * 2 ^ nat b) else Inl SignedOverflow)"

fun fold_shl :: "int \<Rightarrow> int list \<Rightarrow> fault + int" where
  "fold_shl a [] = Inr a"
| "fold_shl a (b # bs) = bindE (shl a b) (\<lambda>a. fold_shl a bs)"

definition print_args :: "int \<Rightarrow> int list \<Rightarrow> fault + string" where
  "print_args a args = bindE (fold_shl a args) (\<lambda>n. Inr (ln (fmt_d n)))"

datatype any = Any_int int | Any_str string

definition any_cast_int :: "any \<Rightarrow> fault + int" where
  "any_cast_int v = (case v of Any_int n \<Rightarrow> Inr n | Any_str _ \<Rightarrow> Inl (Thrown ''bad any_cast''))"

text \<open>How a type is named is up to the compiler (\<open>type_name\<close>).\<close>

definition any_test :: "(any \<Rightarrow> string) \<Rightarrow> string" where
  "any_test type_name =
     (let v = Any_str ''message''; l1 = ln (type_name v) in
      case any_cast_int v of Inr num \<Rightarrow> l1 | Inl (Thrown e) \<Rightarrow> l1 @ ln e | Inl _ \<Rightarrow> l1)"

definition optional_test :: string where
  "optional_test = (let v = None :: int option in if v \<noteq> None then ln ''has value'' else ln ''has no value'')"

definition cpp17_main :: "(any \<Rightarrow> string) \<Rightarrow> fault + string" where
  "cpp17_main type_name =
     bindE (print_args 1 [2]) (\<lambda>l. Inr (l @ any_test type_name @ optional_test))"

text \<open>\<open>larger_int\<close> answers one of the variables it is given; \<open>m\<close> has their values.\<close>

definition larger_int :: "(ptr \<rightharpoonup> int) \<Rightarrow> ptr \<Rightarrow> ptr \<Rightarrow> fault + ptr" where
  "larger_int m first second =
     (case (m first, m second) of
        (Some x, Some y) \<Rightarrow> Inr (if x > y then first else second)
      | _ \<Rightarrow> Inl BadPointer)"

definition cpp20_main :: "fault + string" where
  "cpp20_main =
     (let m = [1 \<mapsto> 1, 2 \<mapsto> 2] in
      bindE (larger_int m 1 2) (\<lambda>r. case m r of
        None \<Rightarrow> Inl BadPointer
      | Some larger \<Rightarrow> Inr (ln (''larger num is '' @ fmt_d larger))))"

definition const_message :: string where
  "const_message = ''message''"

definition for_range_test :: string where
  "for_range_test =
     (let vec = [1, 2, 3]; sz = int (length vec) in
      concat (map (\<lambda>elem. ln (fmt_d sz @ fmt_d elem)) vec))"

section \<open>The notes on the library\<close>

text \<open>The stack and the queue over vectors; a map keeps the first pair of a key.\<close>

definition use_stack :: "int list \<times> int list \<times> (int \<rightharpoonup> string)" where
  "use_stack =
     (let use = [] @ [1] @ [2] @ [3] @ [4] @ [5];
          tmp = [] @ [1] @ [2] @ [3] @ [4] @ [5];
          value_map = ((\<lambda>m. if m 1 = None then m(1 \<mapsto> []) else m) ^^ 4) Map.empty
      in (use, tmp, value_map))"

definition boolean_main :: string where
  "boolean_main = ln (''ready '' @ '':'' @ ''true'')"

section \<open>What they write\<close>

text \<open>The fold of \<open>print_args\<close> multiplies: what is written is one number.\<close>

theorem print_args_shifts:
  assumes "0 \<le> a" and "\<forall>b\<in>set args. 0 \<le> b \<and> b < 32" and "fits (a * 2 ^ nat (sum_list args))"
  shows "print_args a args = Inr (ln (fmt_d (a * 2 ^ nat (sum_list args))))"
proof -
  have "fold_shl a args = Inr (a * 2 ^ nat (sum_list args))" using assms
  proof (induction args arbitrary: a)
    case (Cons b bs)
    have nn: "0 \<le> b" "0 \<le> sum_list bs" using Cons.prems by (auto intro: sum_list_nonneg)
    then have e: "a * 2 ^ nat (sum_list (b # bs)) = a * 2 ^ nat b * 2 ^ nat (sum_list bs)"
      by (simp add: nat_add_distrib power_add)
    have pos: "0 \<le> a * 2 ^ nat b" using Cons.prems(1) by simp
    then have "a * 2 ^ nat b \<le> a * 2 ^ nat b * 2 ^ nat (sum_list bs)"
      using mult_left_mono [of 1 "2 ^ nat (sum_list bs)" "a * 2 ^ nat b"] by simp
    then have "fits (a * 2 ^ nat b)"
      using pos Cons.prems(3) unfolding e by (simp add: fits_def INT_MIN_def)
    then show ?case using Cons.IH [OF pos] Cons.prems nn unfolding e by (simp add: shl_def)
  qed simp
  then show ?thesis by (simp add: print_args_def)
qed

lemma cpp17_main_writes:
  "cpp17_main type_name = Inr (ln ''4'' @ ln (type_name (Any_str ''message'')) @ ln ''bad any_cast'' @ ln ''has no value'')"
proof -
  have "fmt_d 4 = ''4''" by code_simp
  then show ?thesis
    by (simp add: cpp17_main_def print_args_def shl_def any_test_def any_cast_int_def optional_test_def
        fits_def INT_MAX_def INT_MIN_def)
qed

lemma larger_int_max: "m p = Some x \<Longrightarrow> m q = Some y \<Longrightarrow> \<exists>r\<in>{p, q}. larger_int m p q = Inr r \<and> m r = Some (max x y)"
  by (auto simp: larger_int_def max_def)

lemma cpp11_main_undefined: "cpp11_main = Inl BadPointer"
  by (simp add: cpp11_main_def delete_through_def)

lemma waits_for_ever: "test_thread = None" "test_condition_variant = None"
  by (simp_all add: test_thread_def future_get_def test_condition_variant_def)

lemma blank_tokens_count: "length (blank_tokens s) = 2 * count_list s (CHR '' '')"
  by (induction s) auto

section \<open>Reading lines\<close>

text \<open>
  \<open>test_get_line\<close> of \<^verbatim>\<open>cpp/main.cpp\<close>. The input is what is left of it, and whether the stream is good.
  \<open>getline\<close> fails when the line does not fit into the buffer, and from then on stores an empty text.
\<close>

type_synonym input = "string \<times> bool"

fun take_line :: "nat \<Rightarrow> string \<Rightarrow> string \<times> input" where
  "take_line room [] = ([], [], False)"
| "take_line room (c # cs) =
     (if c = CHR 0x0A then ([], cs, True)
      else case room of
          0 \<Rightarrow> ([], c # cs, False)
        | Suc room \<Rightarrow> (let (l, inp) = take_line room cs in (c # l, inp)))"

definition getline :: "nat \<Rightarrow> input \<Rightarrow> string \<times> input" where
  "getline sz = (\<lambda>(cs, good). if good then take_line (sz - 1) cs else ([], cs, False))"

definition c_str :: "string \<Rightarrow> string" where
  "c_str s = takeWhile (\<lambda>c. c \<noteq> CHR 0x00) s"

definition prompt :: string where
  "prompt = ln (''please input message, use '' @ [CHR 0x22] @ ''end'' @ [CHR 0x22] @ '' to finish'')"

definition echo :: "string \<Rightarrow> string" where
  "echo msg = ln (''input message is '' @ msg)"

partial_function (option) get_line_loop :: "string \<Rightarrow> input \<Rightarrow> string option" where
  "get_line_loop msg inp =
     (if msg \<noteq> ''end'' then
        (let (l, inp) = getline 20 inp; msg = c_str l in
         Option.bind (get_line_loop msg inp) (\<lambda>text. Some (prompt @ echo msg @ text)))
      else Some (ln ''get line end''))"

definition test_get_line :: "input \<Rightarrow> string option" where
  "test_get_line inp = get_line_loop [] inp"

lemma get_line_loop_good: "get_line_loop msg inp = Some written \<Longrightarrow> msg \<noteq> ''end'' \<Longrightarrow> snd inp"
proof (induction msg inp written rule: get_line_loop.raw_induct [rotated, consumes 1, case_names step])
  case (step loop msg inp written)
  show ?case
  proof (rule ccontr)
    assume "\<not> snd inp"
    then have "getline 20 inp = ([], fst inp, False)" by (simp add: getline_def split_beta)
    then obtain written' where "loop [] (fst inp, False) = Some written'"
      using step(2,3) by (auto simp: c_str_def split: Option.bind_splits)
    then show False using step(1) by fastforce
  qed
qed

lemma failed_stream_never_ends: "msg \<noteq> ''end'' \<Longrightarrow> get_line_loop msg (cs, False) = None"
  using get_line_loop_good [of msg "(cs, False)"] by (cases "get_line_loop msg (cs, False)") auto

definition plain :: "string \<Rightarrow> bool" where
  "plain l \<longleftrightarrow> CHR 0x0A \<notin> set l \<and> CHR 0x00 \<notin> set l"

lemma take_line_fits: "CHR 0x0A \<notin> set l \<Longrightarrow> length l \<le> room \<Longrightarrow> take_line room (l @ CHR 0x0A # cs) = (l, cs, True)"
  by (induction l arbitrary: room) (auto split: nat.splits)

lemma take_line_long:
  "CHR 0x0A \<notin> set l \<Longrightarrow> room < length l \<Longrightarrow> take_line room (l @ cs) = (take room l, drop room l @ cs, False)"
  by (induction l arbitrary: room) (auto split: nat.splits)

lemma c_str_plain: "plain l \<Longrightarrow> c_str (take n l) = take n l"
  by (auto simp: c_str_def plain_def takeWhile_eq_all_conv dest: in_set_takeD)

lemma dropWhile_first: "dropWhile P xs = y # ys \<Longrightarrow> y \<in> set xs \<and> \<not> P y"
  by (induction xs) (auto split: if_splits)

text \<open>
  The program ends exactly when a line \<open>end\<close> comes before any line of twenty or more characters; a line
  that is too long, like the end of the input, makes it write the prompt and an empty message for ever.
\<close>

theorem test_get_line_ends:
  assumes "\<forall>l\<in>set ls. plain l"
  shows "test_get_line (concat (map ln ls), True) =
    (let short = (\<lambda>l. length l < 20 \<and> l \<noteq> ''end'') in
     case dropWhile short ls of
       [] \<Rightarrow> None
     | l # _ \<Rightarrow>
         if length l < 20
         then Some (concat (map (\<lambda>l. prompt @ echo l) (takeWhile short ls @ [''end''])) @ ln ''get line end'')
         else None)"
proof -
  have "get_line_loop msg (concat (map ln ls), True) =
    (let short = (\<lambda>l. length l < 20 \<and> l \<noteq> ''end'') in
     case dropWhile short ls of
       [] \<Rightarrow> None
     | l # _ \<Rightarrow>
         if length l < 20
         then Some (concat (map (\<lambda>l. prompt @ echo l) (takeWhile short ls @ [''end''])) @ ln ''get line end'')
         else None)" if "msg \<noteq> ''end''" for msg
    using assms that
  proof (induction ls arbitrary: msg)
    case Nil
    then show ?case
      by (subst get_line_loop.simps) (simp add: getline_def c_str_def failed_stream_never_ends)
  next
    case (Cons l ls)
    then have l: "plain l" "CHR 0x0A \<notin> set l" by (simp_all add: plain_def)
    show ?case
    proof (cases "length l < 20")
      case True
      then have g: "getline 20 (concat (map ln (l # ls)), True) = (l, concat (map ln ls), True)"
        using take_line_fits [OF l(2), of 19] by (simp add: getline_def ln_def)
      have c: "c_str l = l" using c_str_plain [OF l(1), of "length l"] by simp
      show ?thesis
      proof (cases "l = ''end''")
        case True
        then show ?thesis
          using Cons.prems(2) g c by (subst get_line_loop.simps) (simp add: Let_def get_line_loop.simps [of "''end''"])
      next
        case False
        then show ?thesis
          using Cons \<open>length l < 20\<close> g c
          by (subst get_line_loop.simps) (auto simp: Let_def split: list.splits dest!: dropWhile_first)
      qed
    next
      case False
      then have g: "getline 20 (concat (map ln (l # ls)), True) = (take 19 l, drop 19 l @ CHR 0x0A # concat (map ln ls), False)"
        using take_line_long [OF l(2), of 19] by (simp add: getline_def ln_def)
      have "take 19 l \<noteq> ''end''"
      proof
        assume "take 19 l = ''end''"
        then have "length (take 19 l) = 3" by simp
        then show False using False by simp
      qed
      then show ?thesis
        using Cons.prems(2) False g c_str_plain [OF l(1), of 19]
        by (subst get_line_loop.simps) (simp add: failed_stream_never_ends)
    qed
  qed
  then show ?thesis by (simp add: test_get_line_def)
qed

end
