(* ===== verification/Spec2Isabelle.thy ===== *)
theory Spec2Isabelle
  imports RBTreeClaims BpfClaims BpfLoaderClaims ArpClaims FlowClaims CharStack SmallPrograms LockTest SockClaims
    SortClaims TreeMain DoubleListClaims RingListClaims SingleListClaims SkipListClaims StackSearch
    CoinClaims FibClaims WindowClaims QueenClaims LockClaims SeqClaims TableClaims PalindromeClaims
    CalculatorClaims OpPrecedenceClaims PerfectNumbers RBTreeTyped RBTreeLoops RedirectClaims ClientThreads
    CppObjects Containers CppFeatures
begin

text \<open>
  The repository is a collection of notes on systems programming with the programs that belong to
  them. This development models its C programs, and those of its C++ programs that compute something, and
  proves what they do, which for many of them is not what they were meant to do: where a program is
  wrong, the property says in what way.

  \<^bold>\<open>Foundations.\<close> \<^theory_text>\<open>CPrelude\<close> has the faults of C (out of bounds, null pointer, uninitialised
  read, overflow, failed assertion), computations that may fault, checked \<open>int\<close> arithmetic and decimal
  text. \<^theory_text>\<open>ByteOrder\<close> has the bytes of words, byte swaps and buffers read and written with bounds.
  \<^theory_text>\<open>CEffects\<close> has programs that call code outside the repository: a \<open>host\<close>, a parameter of every
  definition, answers each call from a hidden world; a run ends in \<open>Ret\<close>, \<open>Exit\<close>, \<open>Crash\<close> or
  \<open>Running\<close> and leaves a log of its calls and prints. \<^theory_text>\<open>CStages\<close> has three contracts for runs:
  \<open>stages\<close> (a fixed sequence of calls with a way out at each, as the locale \<open>staged\<close>, interpreted on
  the programs that have that shape), \<open>only_calls\<close> (which calls can occur, and how a run can end) and
  \<open>emits\<close> (what holds of every event). \<^theory_text>\<open>SockBase\<close> has socket addresses, the checked calls and exits
  of the socket programs (\<^verbatim>\<open>genernal_define.h\<close>), buffers with indeterminate bytes, and messages with
  control data.

  \<^bold>\<open>Red-black tree\<close> (\<^verbatim>\<open>rbtree.c\<close>). \<^theory_text>\<open>RBTree\<close>: nodes in a store of addresses, both
  rotations, the insertion and its fixup; the two loops are partial functions, so not ending is
  \<open>None\<close>. \<^theory_text>\<open>RBTreeProps\<close> relates the store to trees and says what each write changes; \<^theory_text>\<open>RBTreeSpec\<close> has what
  the operations do to the represented tree on every branch; \<^theory_text>\<open>RBTreeClaims\<close> shows that the right rotation refines the rotation of trees, that the left
  one destroys links, and on which inputs an insertion adds a key, loses a subtree, faults or does not
  end. \<^theory_text>\<open>RBTreeFixup\<close> has the five properties of red-black trees and says in which cases the fixup
  restores them and in which it faults or closes a loop; \<^theory_text>\<open>RBTreeLoops\<close> has the pass behind a red
  uncle and the missing uncle, for which the sentinel becomes the root; \<^theory_text>\<open>RBTreeTyped\<close> what every operation
  keeps of any store, and when exactly a rotation in such a store asserts, faults or returns.

  \<^bold>\<open>BPF\<close>. \<^theory_text>\<open>BpfPrograms\<close> has the kernel-side programs \<^verbatim>\<open>*/bpf_program.bpf.c\<close> and the
  structures and enumerations of \<^verbatim>\<open>vmlinux.h\<close> they use, \<^theory_text>\<open>BpfClaims\<close> what they decide and print;
  \<^theory_text>\<open>BpfLoaders\<close> the loaders \<^verbatim>\<open>*/bpf_loader.c\<close>, \<^theory_text>\<open>BpfLoaderClaims\<close> the order of their calls. The
  loader and the verdict program of \<^verbatim>\<open>sock_redirect\<close> meet in the two socket maps, slot 0 of each:
  \<^theory_text>\<open>RedirectClaims\<close> reads the maps off the log of the loader and shows to which connection a run of the verdict
  program redirects a packet.

  \<^bold>\<open>DPDK\<close>. \<^theory_text>\<open>Dpdk\<close> has the layout of Ethernet, IPv4, UDP and ARP headers and of \<open>struct mbuf\<close>
  as far as it is used. \<^theory_text>\<open>Arp\<close> and \<^theory_text>\<open>ArpClaims\<close> model \<^verbatim>\<open>arp/main.c\<close>: which request is answered, with
  which frame, which buffers are freed, in which order the port is set up. \<^theory_text>\<open>FlowFilter\<close> and
  \<^theory_text>\<open>FlowClaims\<close> do this for \<^verbatim>\<open>flow_filter/main.c\<close>, \<^verbatim>\<open>skeleton/udp_input.c\<close> and
  \<^verbatim>\<open>helloworld/helloworld.c\<close>.

  \<^bold>\<open>Sockets and system calls\<close>. \<^theory_text>\<open>UdpPrograms\<close>, \<^theory_text>\<open>StreamPrograms\<close> and \<^theory_text>\<open>TcpPrograms\<close> have the
  programs on datagrams; on SCTP, local sockets and the system log; and on connections, polling,
  socket options, interfaces, names, contexts and timers. \<^theory_text>\<open>SockClaims\<close> has their properties. A
  process is one run: \<open>fork\<close> is a call whose answer says which side runs.

  \<^bold>\<open>Threads\<close> (\<^verbatim>\<open>lock_test.c\<close>). \<^theory_text>\<open>LockTest\<close> is a step relation of five threads and four
  mutexes, with its invariants over the reachable states and a reachable deadlock. \<^theory_text>\<open>CppThreads\<close> has
  the thread class of \<^verbatim>\<open>thread.h\<close> and \<^verbatim>\<open>thread.cc\<close> and \<^verbatim>\<open>thread_test.cc\<close>: a step relation of two threads and its
  invariant along an interleaving, from which follows what the destructor guarantees; \<^theory_text>\<open>ClientThreads\<close> the client
  \<^verbatim>\<open>sock.cpp\<close>: one of its threads, which refines the loop of a thread alone, and the program with thirty of
  them, with the descriptors each holds, the sockets left open, and a measure by which it ends when it is refused.

  \<^bold>\<open>Small programs\<close>. \<^theory_text>\<open>CharStack\<close> has the character stack, spread over five files, and its
  refinement to a list; \<^theory_text>\<open>SmallPrograms\<close> the one-screen programs of the compiler notes.

  \<^bold>\<open>C++: foundations.\<close> \<^theory_text>\<open>CppBase\<close> has the faults of these programs (out of bounds, null
  and dangling pointers, uninitialised reads, overflow, exceptions, a missing \<open>return\<close>), arrays and loops
  that may fault, and output as text. \<^theory_text>\<open>CppHeap\<close> adds a store of nodes with \<open>new\<close> and \<open>delete\<close>, and
  computations that may also not end: \<open>None\<close> is not ending, \<open>Some (Inl e)\<close> a fault, \<open>Some (Inr x)\<close> a
  result. \<^theory_text>\<open>CppLoops\<close> has loops that can be left with \<open>return\<close>, the rules for their invariants, and
  texts with their terminating NUL.

  \<^bold>\<open>Data structures\<close> (\<^verbatim>\<open>sort.cpp\<close>, \<^verbatim>\<open>tree.cpp\<close>, the four lists, \<^verbatim>\<open>stack.cpp\<close>, \<^verbatim>\<open>binary_search.cpp\<close>).
  \<^theory_text>\<open>Sorting\<close> has the six routines and the program; \<^theory_text>\<open>SortProps\<close>,
  \<^theory_text>\<open>QuickProps\<close> and \<^theory_text>\<open>HeapProps\<close> the invariants of their loops; \<^theory_text>\<open>SortClaims\<close> shows that they
  all sort. \<^theory_text>\<open>BinTree\<close> has every function and class of \<^verbatim>\<open>tree.cpp\<close>; a tree in the store is related
  to a tree of the library by \<open>tree_at\<close>. \<^theory_text>\<open>TreeTraverse\<close> and \<^theory_text>\<open>TreePostorder\<close> show the traversals
  with a stack equal to the recursive ones, \<^theory_text>\<open>TreeInsert\<close>, \<^theory_text>\<open>TreeBalance\<close> and
  \<^theory_text>\<open>BalanceInsert\<close> what the two insertions do to the tree, \<^theory_text>\<open>TreeClaims\<close> and \<^theory_text>\<open>TreeMain\<close>
  what sequences of them and the program do. \<^theory_text>\<open>DoubleList\<close>, \<^theory_text>\<open>RingList\<close>, \<^theory_text>\<open>SingleList\<close> and
  \<^theory_text>\<open>SkipList\<close> have the lists, with the theories \<open>...Claims\<close> for their
  properties; the number a skip list draws is an argument. \<^theory_text>\<open>StackSearch\<close> has the stack, the queue and
  the binary search.

  \<^bold>\<open>Algorithms\<close> (the \<^verbatim>\<open>.cc\<close> files beside the data structures). \<^theory_text>\<open>DynProg\<close> has the programs that fill a table, with
  \<^theory_text>\<open>SeqClaims\<close> (increasing subsequences, largest sums), \<^theory_text>\<open>TableClaims\<close> (knapsack, common
  subsequences) and \<^theory_text>\<open>PalindromeClaims\<close> (palindromes, from the bottom up); \<^theory_text>\<open>Coins\<close> change, Fibonacci numbers and unfinished programs, with
  \<^theory_text>\<open>CoinClaims\<close> and \<^theory_text>\<open>FibClaims\<close>; \<^theory_text>\<open>Windows\<close> the sliding windows, with \<^theory_text>\<open>WindowProps\<close> and
  \<^theory_text>\<open>WindowClaims\<close>; \<^theory_text>\<open>Queens\<close> the backtracking programs, whose common search is the locale
  \<open>queen_search\<close> of \<^theory_text>\<open>QueenClaims\<close>; \<^theory_text>\<open>OpenLock\<close> the two searches by levels,
  whose common contract is the locale \<open>wheel_lock\<close> of \<^theory_text>\<open>LockProps\<close> and \<open>level_search\<close> of
  \<^theory_text>\<open>LockClaims\<close>.

  \<^bold>\<open>Calculators\<close> (\<^verbatim>\<open>test2.cpp\<close>, \<^verbatim>\<open>test3.cpp\<close>) and perfect numbers (\<^verbatim>\<open>test4.cpp\<close>).
  \<^theory_text>\<open>Calculator\<close> has the evaluator with two stacks that calls itself for parentheses, as a total
  function; \<^theory_text>\<open>CalculatorClaims\<close> has the trees of the grammar and shows that it computes their value, with
  the steps it prints and with its faults. \<^theory_text>\<open>OpPrecedence\<close> has the evaluator with a table of
  precedences, over an arithmetic that is a parameter, because it computes with \<open>double\<close>;
  \<^theory_text>\<open>OpPrecedenceClaims\<close> shows what it computes, where it does not end, and that the two agree on the
  integers, whose zero may have a sign as in \<open>double\<close>.
  \<^theory_text>\<open>PerfectNumbers\<close> has the third program and what it counts.

  \<^bold>\<open>Exercises on C++.\<close> \<^theory_text>\<open>CppObjects\<close> has the class of \<^verbatim>\<open>template_cpp11_test.cc\<close> that writes a line in
  each special member, with its objects in a store, a virtual call, overloads, and the recursions over
  parameter packs of the template notes. \<^theory_text>\<open>Containers\<close> has the functions of \<^verbatim>\<open>container_test.cc\<close>, with
  an iterator as a position: the loops that delete from a map while they walk it, which of them filter
  and which runs behind the end. \<^theory_text>\<open>CppFeatures\<close> has the programs that show one feature each: counted
  references with the invariant of their counts, the allocator and when its product wraps around, a queue of
  callbacks, folds, and the loop of \<^verbatim>\<open>main.cpp\<close> that reads lines, with the inputs on which it ends.

  \<^bold>\<open>Bounds.\<close> A loop without an exit is cut off after \<open>n\<close> rounds with the outcome \<open>Running\<close>; every
  statement about such a program is for all \<open>n\<close>, so it covers every finite part of a run. Loops over
  known ranges are complete. In the C++ programs \<open>int\<close> arithmetic on values is checked for overflow;
  indices and sizes are unbounded where a theory says so, and a property then asks for lengths below
  \<open>2 ^ 31\<close> where it matters, below \<open>2 ^ 30\<close> where an index is doubled. The allocator never hands out an address twice.

  \<^bold>\<open>Not modelled.\<close> Notes that depend on the compiler or write floating-point constants (\<^verbatim>\<open>asm.cpp\<close>, \<^verbatim>\<open>cpp14.cpp\<close>,
  \<^verbatim>\<open>cpp20_module.cpp\<close>), and functions without a result; empty programs and programs that do not compile
  (\<^verbatim>\<open>client_addr.c\<close>, \<^verbatim>\<open>time_out_test.c\<close>, \<^verbatim>\<open>fputs_test.c\<close>, \<^verbatim>\<open>sock_ntop.c\<close>, \<^verbatim>\<open>multi_msg_test.c\<close>,
  \<^verbatim>\<open>router_test.c\<close>, \<^verbatim>\<open>send_rcv_test.c\<close>, \<^verbatim>\<open>cap_test.c\<close>, \<^verbatim>\<open>min_edit_distance.cc\<close>, the \<open>main\<close> of
  \<^verbatim>\<open>Permutations.cc\<close>, and single functions of
  \<^verbatim>\<open>sctp_multi_test.c\<close> and \<^verbatim>\<open>timer_test.c\<close>); \<^verbatim>\<open>pow.c\<close>, \<^verbatim>\<open>sizeof.c\<close>, \<^verbatim>\<open>symbol.c\<close> and \<^verbatim>\<open>part.c\<close>, which
  have neither state nor result; the delivery of signals, durations, and the code behind the calls
  (kernel, C library, libbpf, DPDK), which is the host.
\<close>

end
